(* ===== verification/GoLib.thy ===== *)
theory GoLib
  imports Main "HOL-Library.Word" "HOL-Library.AList" "HOL-Library.Sublist"
    "HOL-Library.List_Lexorder" "HOL-Library.Char_ord" "HOL-Library.Signed_Division"
begin

text \<open>
  The part of the Go language and of its standard library that the program uses, and the lemmas
  about it that the components share:
  errors (\<open>fmt.Errorf\<close>), 64-bit \<open>int\<close> arithmetic, maps (association lists whose order is the
  order in which \<open>range\<close> visits the keys), nil-able slices, the functions of \<open>strings\<close>,
  \<open>path\<close>, \<open>encoding/hex\<close>, \<open>strconv\<close> and \<open>sort\<close>.
\<close>

section \<open>Collections of rules\<close>

named_theorems map_simps \<open>lookups in association-list maps\<close>
named_theorems str_simps \<open>facts about Go string and path functions\<close>

section \<open>Errors\<close>

text \<open>
  An error made by \<open>fmt.Errorf\<close> or \<open>errors.New\<close> is its format string with the arguments, so that
  two errors are equal exactly when the code would report the same thing.
\<close>

datatype go_error = Errorf string "go_arg list"
  and go_arg = AStr string | AInt int | AErr go_error

type_synonym 'a result = "go_error + 'a"

text \<open>\<open>if err := c; err != nil { return err }\<close> repeated: the first check that fails decides.\<close>

fun first_err :: "go_error option list \<Rightarrow> go_error option" where
  "first_err [] = None"
| "first_err (Some e # cs) = Some e"
| "first_err (None # cs) = first_err cs"

lemma first_err_None [simp]: "first_err cs = None \<longleftrightarrow> (\<forall>c \<in> set cs. c = None)"
  by (induction cs rule: first_err.induct) auto

lemma first_err_Some: "first_err cs = Some e \<Longrightarrow> Some e \<in> set cs"
  by (induction cs rule: first_err.induct) auto

definition fail_if :: "bool \<Rightarrow> go_error \<Rightarrow> go_error option" where
  "fail_if b e = (if b then Some e else None)"

lemma fail_if_None [simp]: "fail_if b e = None \<longleftrightarrow> \<not> b"
  by (simp add: fail_if_def)

lemma fail_if_Some [simp]: "fail_if b e = Some e' \<longleftrightarrow> b \<and> e = e'"
  by (simp add: fail_if_def)

section \<open>Integers\<close>

text \<open>
  Go's \<open>int\<close> and \<open>int64\<close> are 64-bit two's complement. The model keeps them as \<open>int\<close> and writes the
  wrap-around of an addition out where the code depends on it.
\<close>

definition wrap64 :: "int \<Rightarrow> int" where
  "wrap64 x = signed_take_bit 63 x"

definition in64 :: "int \<Rightarrow> bool" where
  "in64 x \<longleftrightarrow> - (2 ^ 63) \<le> x \<and> x < 2 ^ 63"

lemma wrap64_id: "in64 x \<Longrightarrow> wrap64 x = x"
  by (simp add: wrap64_def in64_def signed_take_bit_int_eq_self)

lemma wrap64_overflow: "2 ^ 63 \<le> x \<Longrightarrow> x < 2 ^ 64 \<Longrightarrow> wrap64 x = x - 2 ^ 64"
proof -
  assume a: "2 ^ 63 \<le> x" "x < 2 ^ 64"
  have "signed_take_bit 63 x = signed_take_bit 63 (x - 2 ^ 64)"
  proof -
    have "take_bit 64 (x - 2 ^ 64) = take_bit 64 x"
      by (simp add: take_bit_eq_mod)
    then show ?thesis
      by (simp add: signed_take_bit_eq_iff_take_bit_eq)
  qed
  also have "\<dots> = x - 2 ^ 64"
    using a by (intro signed_take_bit_int_eq_self) auto
  finally show ?thesis by (simp add: wrap64_def)
qed

text \<open>The overflow test \<open>end < offset\<close> of the offset stages detects every overflow.\<close>

lemma wrap64_add_nonneg:
  assumes "0 \<le> a" "in64 a" "0 \<le> b" "in64 b"
  shows "wrap64 (a + b) = (if in64 (a + b) then a + b else a + b - 2 ^ 64)"
proof (cases "in64 (a + b)")
  case False
  with assms have "2 ^ 63 \<le> a + b" "a + b < 2 ^ 64" by (auto simp: in64_def)
  then show ?thesis using False by (simp add: wrap64_overflow)
qed (simp add: wrap64_id)

lemma wrap64_add_less_iff:
  assumes "0 \<le> a" "in64 a" "0 \<le> b" "in64 b"
  shows "wrap64 (a + b) < a \<longleftrightarrow> \<not> in64 (a + b)"
  using assms by (subst wrap64_add_nonneg) (auto simp: in64_def)

section \<open>Maps\<close>

text \<open>
  A Go map with string keys is an association list with distinct keys. Its order is the order
  in which \<open>range\<close> visits it; Go leaves that order open, and every theorem here holds for every
  list, hence for every order.
\<close>

type_synonym 'v gomap = "(string \<times> 'v) list"

abbreviation mget :: "'v gomap \<Rightarrow> string \<Rightarrow> 'v option" where
  "mget m k \<equiv> map_of m k"

abbreviation mset_at :: "string \<Rightarrow> 'v \<Rightarrow> 'v gomap \<Rightarrow> 'v gomap" where
  "mset_at \<equiv> AList.update"

abbreviation mdel :: "string \<Rightarrow> 'v gomap \<Rightarrow> 'v gomap" where
  "mdel \<equiv> AList.delete"

abbreviation mkeys :: "'v gomap \<Rightarrow> string list" where
  "mkeys m \<equiv> map fst m"

definition mhas :: "'v gomap \<Rightarrow> string \<Rightarrow> bool" where
  "mhas m k \<longleftrightarrow> map_of m k \<noteq> None"

definition wf_map :: "'v gomap \<Rightarrow> bool" where
  "wf_map m \<longleftrightarrow> distinct (mkeys m)"

lemma mhas_iff [map_simps]: "mhas m k \<longleftrightarrow> k \<in> fst ` set m"
  by (auto simp: mhas_def map_of_eq_None_iff)

lemma mget_mset [map_simps, simp]: "mget (mset_at k v m) k' = (if k' = k then Some v else mget m k')"
  by (simp add: update_conv')

lemma mget_mdel [map_simps, simp]: "mget (mdel k m) k' = (if k' = k then None else mget m k')"
  by (simp add: delete_conv')

lemma wf_map_Nil [simp]: "wf_map []"
  by (simp add: wf_map_def)

lemma wf_map_mset [simp]: "wf_map m \<Longrightarrow> wf_map (mset_at k v m)"
  by (simp add: wf_map_def distinct_update)

lemma wf_map_mdel [simp]: "wf_map m \<Longrightarrow> wf_map (mdel k m)"
  by (simp add: wf_map_def distinct_delete)

lemma wf_map_filter [simp]: "wf_map m \<Longrightarrow> wf_map (filter P m)"
  unfolding wf_map_def by (metis distinct_map_filter)

lemma wf_map_map_snd [simp]: "wf_map (map (\<lambda>(k, v). (k, f k v)) m) = wf_map m"
  by (simp add: wf_map_def comp_def case_prod_beta)

lemma mget_map_snd [map_simps]:
  "mget (map (\<lambda>(k, v). (k, f k v)) m) k' = map_option (f k') (mget m k')"
  by (induction m) auto

lemma mget_filter_key [map_simps]:
  "wf_map m \<Longrightarrow> mget (filter P m) k = (case mget m k of None \<Rightarrow> None | Some v \<Rightarrow> if P (k, v) then Some v else None)"
proof (induction m)
  case (Cons a m)
  obtain k0 v0 where a: "a = (k0, v0)" by (cases a)
  have d: "k0 \<notin> fst ` set m" "wf_map m" using Cons.prems a by (auto simp: wf_map_def)
  have n: "mget m k0 = None" using d(1) by (simp add: map_of_eq_None_iff)
  show ?case using Cons.IH[OF d(2)] n by (auto simp: a split: option.splits)
qed (simp add: wf_map_def)

lemma mget_in_set: "wf_map m \<Longrightarrow> (k, v) \<in> set m \<longleftrightarrow> mget m k = Some v"
  by (simp add: wf_map_def)

lemma mget_Some_key: "mget m k = Some v \<Longrightarrow> k \<in> set (mkeys m)"
  by (force dest: map_of_SomeD)

text \<open>\<open>reflect.DeepEqual\<close> on two maps: the same keys with equal values, whatever the order.\<close>

definition map_deep_eq :: "('v \<Rightarrow> 'v \<Rightarrow> bool) \<Rightarrow> 'v gomap \<Rightarrow> 'v gomap \<Rightarrow> bool" where
  "map_deep_eq eq a b \<longleftrightarrow>
     list_all (\<lambda>(k, v). case mget b k of None \<Rightarrow> False | Some w \<Rightarrow> eq v w) a \<and>
     list_all (\<lambda>(k, w). mhas a k) b"

lemma map_deep_eq_iff:
  assumes "wf_map a" "wf_map b"
  shows "map_deep_eq (=) a b \<longleftrightarrow> map_of a = map_of b"
proof
  assume e: "map_deep_eq (=) a b"
  show "map_of a = map_of b"
  proof
    fix k
    show "mget a k = mget b k"
    proof (cases "mget a k")
      case None
      then have "k \<notin> fst ` set b"
        using e by (auto simp: map_deep_eq_def list_all_iff mhas_def)
      then have "mget b k = None" by (simp add: map_of_eq_None_iff)
      then show ?thesis using None by simp
    next
      case (Some v)
      then have "(k, v) \<in> set a" by (rule map_of_SomeD)
      then show ?thesis using e Some by (auto simp: map_deep_eq_def list_all_iff split: option.splits)
    qed
  qed
next
  assume e: "map_of a = map_of b"
  then show "map_deep_eq (=) a b"
    using assms by (auto simp: map_deep_eq_def list_all_iff mhas_def mget_in_set split: option.splits)
qed

section \<open>Slices\<close>

text \<open>A slice that may be nil: \<open>reflect.DeepEqual\<close> and JSON tell nil from empty.\<close>

type_synonym 'a slice = "'a list option"

definition elems :: "'a slice \<Rightarrow> 'a list" where
  "elems s = (case s of None \<Rightarrow> [] | Some xs \<Rightarrow> xs)"

lemma elems_simps [simp]: "elems None = []" "elems (Some xs) = xs"
  by (simp_all add: elems_def)

text \<open>\<open>append([]T(nil), s...)\<close>: a copy, and nil when \<open>s\<close> is empty.\<close>

definition copy_slice :: "'a slice \<Rightarrow> 'a slice" where
  "copy_slice s = (if elems s = [] then None else Some (elems s))"

lemma elems_copy [simp]: "elems (copy_slice s) = elems s"
  by (simp add: copy_slice_def)

end
