(* ===== verification/Runs.thy ===== *)
theory Runs
  imports GoLib
begin

text \<open>
  Runs of a component in which several goroutines act: a label names who acts and how, \<open>step\<close> is its atomic action
  (\<open>None\<close> when it is not possible in this state), \<open>steps\<close> the run along a list of labels. The locale is the
  interface through which the components with concurrent operations get their invariants and their bounds.
\<close>

locale runs =
  fixes step :: "'l \<Rightarrow> 's \<Rightarrow> 's option"
    and steps :: "'l list \<Rightarrow> 's \<Rightarrow> 's option"
  assumes steps_Nil: "steps [] s = Some s"
    and steps_Cons: "steps (l # ls) s = (case step l s of None \<Rightarrow> None | Some t \<Rightarrow> steps ls t)"
begin

lemma steps_append: "steps (as @ bs) s = (case steps as s of None \<Rightarrow> None | Some t \<Rightarrow> steps bs t)"
  by (induction as arbitrary: s) (simp_all add: steps_Nil steps_Cons split: option.splits)

lemma steps_ConsE:
  assumes "steps (l # ls) s = Some t"
  obtains u where "step l s = Some u" "steps ls u = Some t"
  using assms by (auto simp: steps_Cons split: option.splits)

text \<open>What the steps with labels in \<open>L\<close> keep, the runs along such labels keep.\<close>

lemma invariant_along:
  assumes "\<And>l s t. l \<in> L \<Longrightarrow> P s \<Longrightarrow> step l s = Some t \<Longrightarrow> P t"
    and "steps ls s = Some t" "set ls \<subseteq> L" "P s"
  shows "P t"
  using assms(2-4)
proof (induction ls arbitrary: s)
  case Nil
  then show ?case by (simp add: steps_Nil)
next
  case (Cons l ls)
  obtain u where u: "step l s = Some u" "steps ls u = Some t" using Cons.prems(1) by (rule steps_ConsE)
  have "P u" using assms(1) [of l s u] Cons.prems(2,3) u(1) by simp
  then show ?case using Cons.IH [OF u(2)] Cons.prems(2) by simp
qed

lemma invariant:
  assumes "\<And>l s t. P s \<Longrightarrow> step l s = Some t \<Longrightarrow> P t" "steps ls s = Some t" "P s"
  shows "P t"
  using invariant_along [of UNIV P ls s t] assms by blast

text \<open>Steps that decrease a measure: a run is no longer than the measure was.\<close>

lemma bounded_along:
  assumes "\<And>l s t. l \<in> L \<Longrightarrow> P s \<Longrightarrow> step l s = Some t \<Longrightarrow> P t \<and> m t < (m s :: nat)"
    and "steps ls s = Some t" "set ls \<subseteq> L" "P s"
  shows "length ls + m t \<le> m s"
  using assms(2-4)
proof (induction ls arbitrary: s)
  case Nil
  then show ?case by (simp add: steps_Nil)
next
  case (Cons l ls)
  obtain u where u: "step l s = Some u" "steps ls u = Some t" using Cons.prems(1) by (rule steps_ConsE)
  have "P u \<and> m u < m s" using assms(1) [of l s u] Cons.prems(2,3) u(1) by simp
  then show ?case using Cons.IH [OF u(2)] Cons.prems(2) by simp
qed

text \<open>
  Steps of which those with labels in \<open>L\<close> decrease a measure and the others raise it by at most \<open>k\<close>: a run has no more
  steps of the first kind than the measure was and the others paid for.
\<close>

lemma bounded_paid:
  assumes "\<And>l s t. P s \<Longrightarrow> step l s = Some t \<Longrightarrow> P t \<and> (if l \<in> L then m t < (m s :: nat) else m t \<le> m s + k)"
    and "steps ls s = Some t" "P s"
  shows "length (filter (\<lambda>l. l \<in> L) ls) + m t \<le> m s + k * length (filter (\<lambda>l. l \<notin> L) ls)"
  using assms(2,3)
proof (induction ls arbitrary: s)
  case Nil
  then show ?case by (simp add: steps_Nil)
next
  case (Cons l ls)
  obtain u where u: "step l s = Some u" "steps ls u = Some t" using Cons.prems(1) by (rule steps_ConsE)
  have p: "P u \<and> (if l \<in> L then m u < m s else m u \<le> m s + k)" using assms(1) [of s l u] Cons.prems(2) u(1) by simp
  then show ?case using Cons.IH [OF u(2)] by (cases "l \<in> L") simp_all
qed

end

end
