(* ===== verification/GoStrings.thy ===== *)
theory GoStrings
  imports GoLib
begin

text \<open>
  The functions of Go's packages \<open>strings\<close>, \<open>path\<close>, \<open>encoding/hex\<close> and \<open>strconv\<close> that the
  program calls. A Go string is a list of bytes; \<open>char\<close> is the 8-bit character.
\<close>

section \<open>Bytes and strings\<close>

type_synonym byte = "8 word"
type_synonym bytes = "byte list"

definition str_of_bytes :: "bytes \<Rightarrow> string" where
  "str_of_bytes bs = map (\<lambda>b. char_of (unat b)) bs"

definition bytes_of_str :: "string \<Rightarrow> bytes" where
  "bytes_of_str s = map (\<lambda>c. of_nat (of_char c)) s"

lemma unat_of_nat_of_char [simp]: "unat (of_nat (of_char c) :: byte) = of_char c"
  by (simp add: unat_of_nat)

lemma char_byte_inverse [simp]: "char_of (unat (of_nat (of_char c) :: byte)) = c"
  by simp

lemma byte_char_inverse [simp]: "of_nat (of_char (char_of (unat (b :: byte)) :: char)) = b"
proof -
  have "unat b < 256" using unsigned_less [of b, where ?'a = nat] by simp
  then have "(of_char (char_of (unat b) :: char) :: nat) = unat b" by simp
  then show ?thesis by simp
qed

lemma str_bytes_inverse [simp, str_simps]: "str_of_bytes (bytes_of_str s) = s"
  by (simp add: str_of_bytes_def bytes_of_str_def comp_def)

lemma bytes_str_inverse [simp, str_simps]: "bytes_of_str (str_of_bytes b) = b"
  unfolding str_of_bytes_def bytes_of_str_def map_map comp_def byte_char_inverse by simp

lemma str_of_bytes_inj: "str_of_bytes a = str_of_bytes b \<longleftrightarrow> a = b"
  by (metis bytes_str_inverse)

lemma length_str_of_bytes [simp]: "length (str_of_bytes b) = length b"
  by (simp add: str_of_bytes_def)

section \<open>strings.TrimSpace\<close>

text \<open>The UTF-8 encodings of the code points for which \<open>unicode.IsSpace\<close> holds.\<close>

definition space_seqs :: "string list" where
  "space_seqs =
     map (\<lambda>c. [c]) [CHR 0x09, CHR 0x0A, CHR 0x0B, CHR 0x0C, CHR 0x0D, CHR '' ''] @
     [[CHR 0xC2, CHR 0x85], [CHR 0xC2, CHR 0xA0], [CHR 0xE1, CHR 0x9A, CHR 0x80]] @
     map (\<lambda>c. [CHR 0xE2, CHR 0x80, c])
       [CHR 0x80, CHR 0x81, CHR 0x82, CHR 0x83, CHR 0x84, CHR 0x85, CHR 0x86, CHR 0x87,
        CHR 0x88, CHR 0x89, CHR 0x8A, CHR 0xA8, CHR 0xA9, CHR 0xAF] @
     [[CHR 0xE2, CHR 0x81, CHR 0x9F], [CHR 0xE3, CHR 0x80, CHR 0x80]]"

fun has_prefix :: "string \<Rightarrow> string \<Rightarrow> bool" where
  "has_prefix s [] = True"
| "has_prefix [] (p # ps) = False"
| "has_prefix (c # s) (p # ps) = (c = p \<and> has_prefix s ps)"

lemma has_prefix_iff: "has_prefix s p \<longleftrightarrow> prefix p s"
  by (induction s p rule: has_prefix.induct) auto

definition leading :: "string list \<Rightarrow> string \<Rightarrow> string option" where
  "leading seqs s = List.find (\<lambda>p. p \<noteq> [] \<and> has_prefix s p) seqs"

lemma leading_Some: "leading seqs s = Some p \<Longrightarrow> p \<in> set seqs \<and> p \<noteq> [] \<and> prefix p s"
  by (auto simp: leading_def find_Some_iff has_prefix_iff)

function strip_leading :: "string list \<Rightarrow> string \<Rightarrow> string" where
  "strip_leading seqs s =
     (case leading seqs s of None \<Rightarrow> s | Some p \<Rightarrow> strip_leading seqs (drop (length p) s))"
  by pat_completeness auto
termination
proof (relation "measure (\<lambda>(seqs, s). length s)")
  fix seqs s p
  assume "leading seqs s = Some p"
  then have "p \<noteq> []" "prefix p s" by (auto dest: leading_Some)
  then show "((seqs, drop (length p) s), (seqs, s)) \<in> measure (\<lambda>(seqs, s). length s)"
    by (cases p; cases s) auto
qed simp

declare strip_leading.simps [simp del]

definition trim_left :: "string \<Rightarrow> string" where
  "trim_left s = strip_leading space_seqs s"

definition trim_right :: "string \<Rightarrow> string" where
  "trim_right s = rev (strip_leading (map rev space_seqs) (rev s))"

definition trim_space :: "string \<Rightarrow> string" where
  "trim_space s = trim_right (trim_left s)"

lemma strip_leading_suffix: "suffix (strip_leading seqs s) s"
proof (induction seqs s rule: strip_leading.induct)
  case (1 seqs s)
  show ?case
  proof (cases "leading seqs s")
    case (Some p)
    have "suffix (strip_leading seqs (drop (length p) s)) s"
      using 1 [OF Some] suffix_drop suffix_order.trans by blast
    then show ?thesis by (simp add: strip_leading.simps [of seqs s] Some)
  qed (simp add: strip_leading.simps [of seqs s])
qed

lemma strip_leading_id: "leading seqs s = None \<Longrightarrow> strip_leading seqs s = s"
  by (simp add: strip_leading.simps [of seqs s])

lemma set_trim_space: "set (trim_space s) \<subseteq> set s"
proof -
  have "set (trim_left s) \<subseteq> set s"
    unfolding trim_left_def by (rule set_mono_suffix) (rule strip_leading_suffix)
  moreover have "set (trim_right t) \<subseteq> set t" for t
    using set_mono_suffix [OF strip_leading_suffix [of "map rev space_seqs" "rev t"]]
    by (simp add: trim_right_def)
  ultimately show ?thesis unfolding trim_space_def by blast
qed

text \<open>A string whose ends are printable ASCII is its own trim.\<close>

definition solid :: "char \<Rightarrow> bool" where
  "solid c \<longleftrightarrow> (\<forall>p \<in> set space_seqs. hd p \<noteq> c \<and> last p \<noteq> c)"

lemma trim_space_solid:
  assumes "s \<noteq> []" "solid (hd s)" "solid (last s)"
  shows "trim_space s = s"
proof -
  have l: "leading space_seqs s = None"
    using assms(1,2) by (auto simp: leading_def find_None_iff has_prefix_iff solid_def prefix_def)
  have "p \<in> set (map rev space_seqs) \<Longrightarrow> \<not> (p \<noteq> [] \<and> has_prefix (rev s) p)" for p
  proof
    assume p: "p \<in> set (map rev space_seqs)" and h: "p \<noteq> [] \<and> has_prefix (rev s) p"
    then obtain q where q: "q \<in> set space_seqs" "p = rev q" by auto
    from h have "hd p = hd (rev s)" by (auto simp: has_prefix_iff prefix_def)
    then have "last q = last s" using q h assms(1) by (simp add: hd_rev)
    then show False using assms(3) q(1) by (auto simp: solid_def)
  qed
  then have r: "leading (map rev space_seqs) (rev s) = None"
    unfolding leading_def find_None_iff by blast
  show ?thesis
    by (simp add: trim_space_def trim_left_def trim_right_def strip_leading_id l r)
qed

lemma trim_space_Nil [simp]: "trim_space [] = []"
  using set_trim_space [of "[]"] by simp

section \<open>Prefixes, substrings, splitting\<close>

definition trim_prefix :: "string \<Rightarrow> string \<Rightarrow> string" where
  "trim_prefix s p = (if has_prefix s p then drop (length p) s else s)"

definition has_suffix :: "string \<Rightarrow> string \<Rightarrow> bool" where
  "has_suffix s p \<longleftrightarrow> has_prefix (rev s) (rev p)"

fun contains :: "string \<Rightarrow> string \<Rightarrow> bool" where
  "contains [] p = (p = [])"
| "contains (c # s) p = (has_prefix (c # s) p \<or> contains s p)"

lemma contains_iff: "contains s p \<longleftrightarrow> sublist p s"
  by (induction s) (auto simp: has_prefix_iff sublist_Cons_right)

text \<open>\<open>strings.ReplaceAll\<close> with a non-empty old string, left to right, without overlaps.\<close>

function replace_nonempty :: "string \<Rightarrow> string \<Rightarrow> string \<Rightarrow> string" where
  "replace_nonempty [] old new = []"
| "replace_nonempty (c # s) old new =
     (if old \<noteq> [] \<and> has_prefix (c # s) old
      then new @ replace_nonempty (drop (length old) (c # s)) old new
      else c # replace_nonempty s old new)"
  by pat_completeness auto
termination
proof (relation "measure (\<lambda>(s, old, new). length s)")
  fix c :: char and s old new :: string
  assume "old \<noteq> [] \<and> has_prefix (c # s) old"
  then show "((drop (length old) (c # s), old, new), c # s, old, new) \<in> measure (\<lambda>(s, old, new). length s)"
    by (cases old) auto
qed auto

text \<open>
  \<open>strings.ReplaceAll\<close>. The program refuses an empty old string before it calls it
  (\<open>compileStage\<close>), so the empty case, which Go defines as an insertion between runes, is the
  string itself here.
\<close>

definition replace_all :: "string \<Rightarrow> string \<Rightarrow> string \<Rightarrow> string" where
  "replace_all s old new = replace_nonempty s old new"

text \<open>\<open>strings.Split\<close> with a one-byte separator.\<close>

fun split_on :: "char \<Rightarrow> string \<Rightarrow> string list" where
  "split_on sep [] = [[]]"
| "split_on sep (c # s) =
     (if c = sep then [] # split_on sep s
      else (case split_on sep s of [] \<Rightarrow> [[c]] | w # ws \<Rightarrow> (c # w) # ws))"

fun join_with :: "char \<Rightarrow> string list \<Rightarrow> string" where
  "join_with sep [] = []"
| "join_with sep [w] = w"
| "join_with sep (w # v # ws) = w @ sep # join_with sep (v # ws)"

lemma split_on_nonempty [simp]: "split_on sep s \<noteq> []"
  by (cases s) (auto split: list.splits)

lemma split_on_no_sep: "w \<in> set (split_on sep s) \<Longrightarrow> sep \<notin> set w"
  by (induction s arbitrary: w) (auto split: if_splits list.splits)

lemma join_split [simp, str_simps]: "join_with sep (split_on sep s) = s"
proof (induction s)
  case (Cons c s)
  obtain w ws where "split_on sep s = w # ws" by (meson list.exhaust split_on_nonempty)
  then show ?case using Cons by (cases ws) auto
qed simp

lemma split_on_word: "sep \<notin> set w \<Longrightarrow> split_on sep w = [w]"
  by (induction w) auto

lemma split_on_append: "sep \<notin> set w \<Longrightarrow> split_on sep (w @ sep # s) = w # split_on sep s"
  by (induction w) auto

lemma split_join: "ws \<noteq> [] \<Longrightarrow> \<forall>w \<in> set ws. sep \<notin> set w \<Longrightarrow> split_on sep (join_with sep ws) = ws"
  by (induction sep ws rule: join_with.induct) (auto simp: split_on_word split_on_append)

lemma split_on_append_gen:
  "split_on sep (s @ sep # t) = split_on sep s @ split_on sep t"
  by (induction s) (auto split: list.splits)

end
