(* ===== verification/Packet.thy ===== *)
theory Packet
  imports GoStrings
begin

text \<open>
  \<open>src/src/packet\<close>: the packet with its metadata and payload, the pool its payload buffer is
  leased from, and the operations \<open>CopyFrom\<close>, \<open>Release\<close> and \<open>Clone\<close>.

  A buffer taken from the pool is a lease with a number; \<open>ReleaseFn\<close> is the lease it gives back, or
  None once it was called (or when there is nothing to give back). \<open>paddr\<close> is the packet's
  address, which the task compares to tell its input packet from new ones. The pool records the
  leases given back, in order, so that a lost or a doubly returned buffer is visible.
\<close>

section \<open>Data\<close>

type_synonym proto = "8 word"

definition ProtoUDP :: proto where "ProtoUDP = 1"
definition ProtoTCP :: proto where "ProtoTCP = 2"
definition ProtoKafka :: proto where "ProtoKafka = 3"
definition ProtoSFTP :: proto where "ProtoSFTP = 4"
definition ProtoSkyDDS :: proto where "ProtoSkyDDS = 5"
definition ProtoLocal :: proto where "ProtoLocal = 6"
definition ProtoOSS :: proto where "ProtoOSS = 7"

datatype payload_kind = PayloadKindStream | PayloadKindFileChunk

record meta =
  Proto :: proto
  ReceiverName :: string
  Remote :: string
  Local :: string
  MatchKey :: string
  KafkaRecordKey :: string
  TransferID :: string
  FileName :: string
  FilePath :: string
  TargetFileName :: string
  TargetFilePath :: string
  Offset :: int
  TotalSize :: int
  Checksum :: string
  EOF :: bool
  RouteSender :: string

definition zero_meta :: meta where
  "zero_meta = \<lparr>Proto = 0, ReceiverName = [], Remote = [], Local = [], MatchKey = [],
     KafkaRecordKey = [], TransferID = [], FileName = [], FilePath = [], TargetFileName = [],
     TargetFilePath = [], Offset = 0, TotalSize = 0, Checksum = [], EOF = False, RouteSender = []\<rparr>"

record envelope =
  Kind :: payload_kind
  Meta :: meta
  Payload :: bytes

record packet = envelope +
  ReleaseFn :: "nat option"
  paddr :: nat

abbreviation set_meta :: "(meta \<Rightarrow> meta) \<Rightarrow> packet \<Rightarrow> packet" where
  "set_meta f p \<equiv> p\<lparr>Meta := f (Meta p)\<rparr>"

section \<open>The pool\<close>

record pool =
  next_lease :: nat
  next_addr :: nat
  returned :: "nat list"

definition CopyFrom :: "bytes \<Rightarrow> pool \<Rightarrow> (bytes \<times> nat) \<times> pool" where
  "CopyFrom bs w = ((bs, next_lease w), w\<lparr>next_lease := Suc (next_lease w)\<rparr>)"

text \<open>\<open>Packet.Release\<close>: give the buffer back once and forget how.\<close>

definition Release :: "packet \<Rightarrow> pool \<Rightarrow> packet \<times> pool" where
  "Release p w =
     (case ReleaseFn p of
        None \<Rightarrow> (p, w)
      | Some l \<Rightarrow> (p\<lparr>ReleaseFn := None\<rparr>, w\<lparr>returned := returned w @ [l]\<rparr>))"

definition Clone :: "packet \<Rightarrow> pool \<Rightarrow> packet \<times> pool" where
  "Clone p w =
     (let ((out, rel), w1) = CopyFrom (Payload p) w in
      (p\<lparr>Payload := out, ReleaseFn := Some rel, paddr := next_addr w1\<rparr>,
       w1\<lparr>next_addr := Suc (next_addr w1)\<rparr>))"

section \<open>Lemmas\<close>

text \<open>The leases a list of packets still holds.\<close>

definition leases :: "packet list \<Rightarrow> nat list" where
  "leases ps = List.map_filter ReleaseFn ps"

lemma leases_simps [simp]:
  "leases [] = []"
  "leases (p # ps) = (case ReleaseFn p of None \<Rightarrow> leases ps | Some l \<Rightarrow> l # leases ps)"
  "leases (ps @ qs) = leases ps @ leases qs"
  by (auto simp: leases_def List.map_filter_def split: option.splits)

lemma Release_twice: "Release p w = (p', w') \<Longrightarrow> Release p' w' = (p', w')"
  by (auto simp: Release_def split: option.splits)

lemma Release_returned: "returned (snd (Release p w)) = returned w @ leases [p]"
  by (simp add: Release_def split: option.splits)

lemma Release_frame [simp]:
  "next_lease (snd (Release p w)) = next_lease w"
  "next_addr (snd (Release p w)) = next_addr w"
  "Payload (fst (Release p w)) = Payload p"
  "Meta (fst (Release p w)) = Meta p"
  by (simp_all add: Release_def split: option.splits)

lemma Clone_envelope:
  assumes "Clone p w = (q, w')"
  shows "Kind q = Kind p" "Meta q = Meta p" "Payload q = Payload p"
    "ReleaseFn q = Some (next_lease w)" "paddr q = next_addr w"
    "next_lease w' = Suc (next_lease w)" "next_addr w' = Suc (next_addr w)" "returned w' = returned w"
  using assms by (auto simp: Clone_def CopyFrom_def)

end
