(* ===== verification/GoPath.thy ===== *)
theory GoPath
  imports GoStrings
begin

text \<open>
  Go's package \<open>path\<close> (slash-separated paths): \<open>Clean\<close>, \<open>Base\<close>, \<open>Dir\<close>, \<open>Join\<close>. \<open>Clean\<close> is written
  over the components of the path with a stack of the components kept so far, which is what the
  library's byte loop with its \<open>dotdot\<close> mark computes.
\<close>

section \<open>Clean\<close>

abbreviation slash :: char where "slash \<equiv> CHR ''/''"

definition rooted :: "string \<Rightarrow> bool" where
  "rooted s \<longleftrightarrow> has_prefix s ''/''"

definition push_comp :: "bool \<Rightarrow> string list \<Rightarrow> string \<Rightarrow> string list" where
  "push_comp root st w =
     (if w = [] \<or> w = ''.'' then st
      else if w = ''..'' then
        (case st of
           [] \<Rightarrow> if root then [] else [''..'']
         | t # ts \<Rightarrow> if t = ''..'' then ''..'' # t # ts else ts)
      else w # st)"

definition clean_comps :: "bool \<Rightarrow> string list \<Rightarrow> string list" where
  "clean_comps root ws = rev (foldl (push_comp root) [] ws)"

definition path_clean :: "string \<Rightarrow> string" where
  "path_clean s =
     (if s = [] then ''.''
      else let cs = clean_comps (rooted s) (split_on slash s) in
        if rooted s then slash # join_with slash cs
        else if cs = [] then ''.'' else join_with slash cs)"

text \<open>A plain component is one that \<open>Clean\<close> keeps as it is.\<close>

definition plain :: "string \<Rightarrow> bool" where
  "plain w \<longleftrightarrow> w \<noteq> [] \<and> w \<noteq> ''.'' \<and> w \<noteq> ''..''"

lemma push_comp_plain [simp]: "plain w \<Longrightarrow> push_comp root st w = w # st"
  by (simp add: push_comp_def plain_def)

lemma push_comp_skip [simp]: "push_comp root st [] = st" "push_comp root st ''.'' = st"
  by (simp_all add: push_comp_def)

lemma foldl_push_nodots:
  "''..'' \<notin> set ws \<Longrightarrow> foldl (push_comp root) st ws = rev (filter plain ws) @ st"
proof (induction ws arbitrary: st)
  case (Cons w ws)
  have nd: "''..'' \<notin> set ws" and w: "plain w \<or> w = [] \<or> w = ''.''"
    using Cons.prems unfolding plain_def by (simp, simp, blast)
  show ?case using w
  proof (elim disjE)
    assume "plain w" then show ?case by (simp add: Cons.IH [OF nd])
  next
    assume "w = []" then show ?case by (simp add: Cons.IH [OF nd] plain_def)
  next
    assume "w = ''.''" then show ?case by (simp add: Cons.IH [OF nd] plain_def)
  qed
qed simp

lemma clean_comps_nodots: "''..'' \<notin> set ws \<Longrightarrow> clean_comps root ws = filter plain ws"
  by (simp add: clean_comps_def foldl_push_nodots)

lemma clean_comps_append_plain:
  "''..'' \<notin> set vs \<Longrightarrow> clean_comps root (ws @ vs) = clean_comps root ws @ filter plain vs"
  by (simp add: clean_comps_def foldl_push_nodots)

lemma not_plain_dots [simp]: "\<not> plain []" "\<not> plain ''.''" "\<not> plain ''..''"
  by (simp_all add: plain_def)

lemma plain_cases: "plain v \<or> v = [] \<or> v = ''.'' \<or> v = ''..''"
  by (auto simp only: plain_def)

lemma push_comp_dotdot:
  "push_comp root st ''..'' =
    (case st of [] \<Rightarrow> if root then [] else [''..''] | t # ts \<Rightarrow> if t = ''..'' then ''..'' # t # ts else ts)"
  by (simp add: push_comp_def)

lemma push_comp_rooted:
  assumes "\<forall>w \<in> set st. plain w"
  shows "\<forall>w \<in> set (push_comp True st v). plain w"
  using plain_cases [of v]
proof (elim disjE)
  assume "v = ''..''"
  moreover have "hd st \<noteq> ''..''" if "st \<noteq> []" using that assms not_plain_dots(3) by (metis hd_in_set)
  ultimately show ?thesis using assms by (cases st) (simp_all add: push_comp_dotdot)
qed (use assms in simp_all)

lemma clean_comps_rooted_plain: "w \<in> set (clean_comps True ws) \<Longrightarrow> plain w"
proof -
  have "\<forall>w \<in> set (foldl (push_comp True) st ws). plain w" if "\<forall>w \<in> set st. plain w" for st
    using that by (induction ws arbitrary: st) (auto dest: push_comp_rooted)
  from this [of "[]"] show "w \<in> set (clean_comps True ws) \<Longrightarrow> plain w"
    by (simp add: clean_comps_def)
qed

lemma set_push_comp: "set (push_comp root st v) \<subseteq> insert ''..'' (insert v (set st))"
  by (auto simp: push_comp_def split: list.splits)

lemma set_clean_comps: "set (clean_comps root ws) \<subseteq> insert ''..'' (set ws)"
proof -
  have "set (foldl (push_comp root) st ws) \<subseteq> insert ''..'' (set ws \<union> set st)" for st
  proof (induction ws arbitrary: st)
    case (Cons w ws)
    show ?case
      using Cons [of "push_comp root st w"] set_push_comp [of root st w] by auto
  qed auto
  from this [of "[]"] show ?thesis by (simp add: clean_comps_def)
qed

lemma clean_comps_no_slash:
  "w \<in> set (clean_comps root (split_on slash s)) \<Longrightarrow> slash \<notin> set w"
  using set_clean_comps [of root "split_on slash s"] split_on_no_sep [of w slash s] by auto

lemma rooted_Cons [simp]: "rooted (slash # s)"
  by (simp add: rooted_def)

lemma path_clean_rooted:
  "path_clean (slash # s) = slash # join_with slash (clean_comps True (split_on slash s))"
  by (simp add: path_clean_def clean_comps_def Let_def push_comp_def)

section \<open>Base, Dir, Join, Trim\<close>

definition path_base :: "string \<Rightarrow> string" where
  "path_base s =
     (if s = [] then ''.''
      else let t = rev (dropWhile (\<lambda>c. c = slash) (rev s)); b = last (split_on slash t) in
        if b = [] then ''/'' else b)"

definition path_dir :: "string \<Rightarrow> string" where
  "path_dir s = path_clean (rev (dropWhile (\<lambda>c. c \<noteq> slash) (rev s)))"

definition path_join :: "string \<Rightarrow> string \<Rightarrow> string" where
  "path_join a b = (if a = [] \<and> b = [] then [] else path_clean (if a = [] then b else a @ slash # b))"

definition trim_slashes :: "string \<Rightarrow> string" where
  "trim_slashes s = rev (dropWhile (\<lambda>c. c = slash) (rev (dropWhile (\<lambda>c. c = slash) s)))"

lemma path_base_no_slash: "path_base s \<noteq> ''/'' \<Longrightarrow> slash \<notin> set (path_base s)"
proof -
  assume n: "path_base s \<noteq> ''/''"
  show ?thesis
  proof (cases "s = []")
    case False
    let ?t = "rev (dropWhile (\<lambda>c. c = slash) (rev s))"
    have "path_base s = last (split_on slash ?t)"
      using n False by (simp add: path_base_def Let_def split: if_splits)
    then show ?thesis by (metis last_in_set split_on_no_sep split_on_nonempty)
  qed (simp add: path_base_def)
qed

text \<open>Joining a directory with a path free of dot-dot appends its plain components.\<close>

lemma join_with_Nil_iff: "join_with sep ws = [] \<longleftrightarrow> ws = [] \<or> ws = [[]]"
  by (induction sep ws rule: join_with.induct) auto

lemma hd_join_plain:
  assumes "ws \<noteq> []" "\<forall>w \<in> set ws. plain w \<and> slash \<notin> set w"
  shows "\<not> has_prefix (join_with slash ws) ''/''"
proof -
  obtain w vs where ws: "ws = w # vs" using assms(1) by (cases ws) auto
  obtain c w' where w: "w = c # w'" "c \<noteq> slash"
    using assms(2) ws by (cases w) (auto simp: plain_def)
  show ?thesis by (cases vs) (simp_all add: ws w)
qed

lemma split_join_plain:
  "ws \<noteq> [] \<Longrightarrow> \<forall>w \<in> set ws. plain w \<and> slash \<notin> set w \<Longrightarrow> split_on slash (join_with slash ws) = ws"
  by (intro split_join) auto

definition path_comps :: "string \<Rightarrow> string list" where
  "path_comps s = clean_comps (rooted s) (split_on slash s)"

lemma path_comps_join:
  assumes "ws \<noteq> []" "\<forall>w \<in> set ws. plain w \<and> slash \<notin> set w" "a \<noteq> []"
  shows "path_join a (join_with slash ws) =
    (if rooted a then slash # join_with slash (path_comps a @ ws)
     else join_with slash (path_comps a @ ws))"
proof -
  let ?b = "join_with slash ws"
  have b: "split_on slash ?b = ws" using assms by (intro split_join_plain)
  have nd: "''..'' \<notin> set ws" using assms(2) by (auto simp: plain_def)
  have f: "filter plain ws = ws" using assms(2) by simp
  have r: "rooted (a @ slash # ?b) = rooted a" using assms(3) by (cases a) (auto simp: rooted_def)
  have "clean_comps (rooted a) (split_on slash (a @ slash # ?b)) = path_comps a @ ws"
    by (simp add: split_on_append_gen b clean_comps_append_plain [OF nd] f path_comps_def)
  then show ?thesis
    using assms by (simp add: path_join_def path_clean_def r Let_def)
qed

section \<open>encoding/hex and strconv.Itoa\<close>

definition hex_digits :: string where
  "hex_digits = ''0123456789abcdef''"

definition hex_of_byte :: "byte \<Rightarrow> string" where
  "hex_of_byte b = [hex_digits ! (unat b div 16), hex_digits ! (unat b mod 16)]"

definition hex_encode :: "bytes \<Rightarrow> string" where
  "hex_encode bs = concat (map hex_of_byte bs)"

definition from_hex_char :: "char \<Rightarrow> nat option" where
  "from_hex_char c =
     (let n = of_char c in
      if 48 \<le> n \<and> n \<le> 57 then Some (n - 48)
      else if 97 \<le> n \<and> n \<le> 102 then Some (n - 97 + 10)
      else if 65 \<le> n \<and> n \<le> 70 then Some (n - 65 + 10)
      else None)"

fun hex_decode :: "string \<Rightarrow> bytes result" where
  "hex_decode [] = Inr []"
| "hex_decode [a] =
     (if from_hex_char a = None then Inl (Errorf ''encoding/hex: invalid byte: %#U'' [AStr [a]])
      else Inl (Errorf ''encoding/hex: odd length hex string'' []))"
| "hex_decode (a # b # s) =
     (case from_hex_char a of
        None \<Rightarrow> Inl (Errorf ''encoding/hex: invalid byte: %#U'' [AStr [a]])
      | Some x \<Rightarrow>
        (case from_hex_char b of
           None \<Rightarrow> Inl (Errorf ''encoding/hex: invalid byte: %#U'' [AStr [b]])
         | Some y \<Rightarrow>
           (case hex_decode s of
              Inl e \<Rightarrow> Inl e
            | Inr bs \<Rightarrow> Inr (of_nat (x * 16 + y) # bs))))"

lemma from_hex_digit: "n < 16 \<Longrightarrow> from_hex_char (hex_digits ! n) = Some n"
proof -
  assume "n < 16"
  then have "n \<in> set [0..<16]" by simp
  then show ?thesis unfolding hex_digits_def from_hex_char_def
    by (simp add: upt_rec Let_def) (elim disjE; simp)
qed

lemma byte_nibbles: "(of_nat (unat (b :: byte) div 16 * 16 + unat b mod 16) :: byte) = b"
  by (simp add: div_mult_mod_eq)

lemma hex_decode_encode: "hex_decode (hex_encode bs) = Inr bs"
proof (induction bs)
  case (Cons b bs)
  have "unat b div 16 < 16" "unat b mod 16 < 16"
    using unsigned_less [of b, where ?'a = nat] by auto
  then show ?case
    using Cons by (simp add: hex_encode_def hex_of_byte_def from_hex_digit byte_nibbles del: of_nat_add of_nat_mult)
qed (simp add: hex_encode_def)

lemma length_hex_decode: "hex_decode s = Inr bs \<Longrightarrow> length s = 2 * length bs"
  by (induction s arbitrary: bs rule: hex_decode.induct) (auto split: option.splits sum.splits if_splits)

definition digit_char :: "nat \<Rightarrow> char" where
  "digit_char d = char_of (48 + d)"

fun nat_digits :: "nat \<Rightarrow> string" where
  "nat_digits n = (if n < 10 then [digit_char n] else nat_digits (n div 10) @ [digit_char (n mod 10)])"

declare nat_digits.simps [simp del]

definition itoa :: "int \<Rightarrow> string" where
  "itoa i = (if i < 0 then CHR ''-'' # nat_digits (nat (- i)) else nat_digits (nat i))"

lemma of_char_digit: "d < 10 \<Longrightarrow> of_char (digit_char d) = 48 + d"
  by (simp add: digit_char_def)

lemma nat_digits_inj: "nat_digits m = nat_digits n \<Longrightarrow> m = n"
proof (induction m arbitrary: n rule: nat_digits.induct)
  case (1 m)
  have ne: "nat_digits k \<noteq> []" for k by (subst nat_digits.simps) simp
  have d: "digit_char a = digit_char b \<Longrightarrow> a < 10 \<Longrightarrow> b < 10 \<Longrightarrow> a = b" for a b
    by (metis of_char_digit add_left_cancel)
  note unf = nat_digits.simps [of m] nat_digits.simps [of n]
  show ?case
  proof (cases "m < 10"; cases "n < 10")
    assume "\<not> m < 10" "\<not> n < 10"
    then have "nat_digits (m div 10) = nat_digits (n div 10)" "digit_char (m mod 10) = digit_char (n mod 10)"
      using "1.prems" unf by auto
    then have "m div 10 = n div 10" "m mod 10 = n mod 10"
      using "1.IH" \<open>\<not> m < 10\<close> d by auto
    then show ?thesis by (metis div_mult_mod_eq)
  next
    assume "m < 10" "\<not> n < 10"
    then have "[] = nat_digits (n div 10)" using "1.prems" unf by simp
    then show ?thesis using ne by metis
  next
    assume "\<not> m < 10" "n < 10"
    then have "[] = nat_digits (m div 10)" using "1.prems" unf by simp
    then show ?thesis using ne by metis
  qed (use "1.prems" unf d in auto)
qed

lemma nat_digits_chars: "c \<in> set (nat_digits n) \<Longrightarrow> \<exists>d < 10. c = digit_char d"
proof (induction n rule: nat_digits.induct)
  case (1 n)
  show ?case
  proof (cases "n < 10")
    case True
    then show ?thesis using "1.prems" by (auto simp: nat_digits.simps [of n])
  next
    case False
    have "n mod 10 < 10" by simp
    then have "c = digit_char (n mod 10) \<Longrightarrow> \<exists>d < 10. c = digit_char d" by blast
    moreover have "c \<in> set (nat_digits (n div 10)) \<or> c = digit_char (n mod 10)"
      using False "1.prems" by (auto simp: nat_digits.simps [of n])
    ultimately show ?thesis using "1.IH" [OF False] by blast
  qed
qed

lemma not_in_nat_digits: "of_char c < (48 :: nat) \<or> 57 < (of_char c :: nat) \<Longrightarrow> c \<notin> set (nat_digits n)"
proof
  assume o: "of_char c < (48 :: nat) \<or> 57 < (of_char c :: nat)" and "c \<in> set (nat_digits n)"
  then obtain d where "d < 10" "c = digit_char d" using nat_digits_chars by blast
  then have "of_char c = 48 + d" using of_char_digit by simp
  then show False using o \<open>d < 10\<close> by simp
qed

lemma itoa_inj: "itoa i = itoa j \<Longrightarrow> i = j"
proof -
  have "CHR ''-'' \<notin> set (nat_digits n)" for n by (rule not_in_nat_digits) simp
  moreover assume "itoa i = itoa j"
  ultimately show ?thesis
    unfolding itoa_def
    by (cases "i < 0"; cases "j < 0")
      (auto dest: nat_digits_inj, (metis list.set_intros(1))+)
qed

end
