(* ===== verification/Stages.thy ===== *)
theory Stages
  imports Packet GoPath
begin

text \<open>
  \<open>src/src/pipeline\<close>: the stages and the pipeline that runs them. A stage maps a slice of packets to
  a slice of packets; the empty slice ends the pipeline. Every stage is built with \<open>mapStage\<close> from a
  function on one packet that may rewrite the packet and says whether it passes.
\<close>

section \<open>mapStage and Pipeline.Process\<close>

type_synonym stage_fun = "packet list \<Rightarrow> packet list"
type_synonym one_fun = "packet \<Rightarrow> bool \<times> packet"

text \<open>The loop over \<open>in[i+1:]\<close> once a packet was dropped: only passing packets are appended.\<close>

fun append_passing :: "one_fun \<Rightarrow> packet list \<Rightarrow> packet list \<Rightarrow> packet list" where
  "append_passing one out [] = out"
| "append_passing one out (p # rest) =
     (let (ok, p') = one p in append_passing one (if ok then out @ [p'] else out) rest)"

text \<open>The loop of the hot path: the input slice is reused as long as every packet passes.\<close>

fun map_stage_loop :: "one_fun \<Rightarrow> packet list \<Rightarrow> packet list \<Rightarrow> packet list" where
  "map_stage_loop one seen [] = seen"
| "map_stage_loop one seen (p # rest) =
     (let (ok, p') = one p in
      if ok then map_stage_loop one (seen @ [p']) rest else append_passing one seen rest)"

definition mapStage :: "one_fun \<Rightarrow> stage_fun" where
  "mapStage one ps = (if ps = [] then [] else map_stage_loop one [] ps)"

record pipeline =
  pl_Name :: string
  pl_Stages :: "stage_fun list"

fun process_stages :: "stage_fun list \<Rightarrow> packet list \<Rightarrow> packet list" where
  "process_stages [] packets = packets"
| "process_stages (st # sts) packets =
     (let out = st packets in if out = [] then [] else process_stages sts out)"

definition Process :: "pipeline \<Rightarrow> packet \<Rightarrow> packet list" where
  "Process pl p = process_stages (pl_Stages pl) [p]"

section \<open>Offset stages\<close>

definition drop_all :: stage_fun where
  "drop_all = mapStage (\<lambda>p. (False, p))"

definition byte_slice :: "bytes \<Rightarrow> int \<Rightarrow> int \<Rightarrow> bytes" where
  "byte_slice bs from to = take (nat (to - from)) (drop (nat from) bs)"

text \<open>\<open>binary.LittleEndian.UintN\<close> reads the first \<open>n\<close> bytes, least significant first.\<close>

fun le_nat :: "bytes \<Rightarrow> nat" where
  "le_nat [] = 0"
| "le_nat (b # bs) = unat b + 256 * le_nat bs"

definition le_uint16 :: "bytes \<Rightarrow> 16 word" where "le_uint16 bs = of_nat (le_nat (take 2 bs))"
definition le_uint32 :: "bytes \<Rightarrow> 32 word" where "le_uint32 bs = of_nat (le_nat (take 4 bs))"
definition le_uint64 :: "bytes \<Rightarrow> 64 word" where "le_uint64 bs = of_nat (le_nat (take 8 bs))"

definition buildOffsetMatcher :: "bytes \<Rightarrow> bytes \<Rightarrow> bool" where
  "buildOffsetMatcher want =
     (if length want = 0 then (\<lambda>_. True)
      else if length want = 1 then (let w0 = want ! 0 in (\<lambda>got. got ! 0 = w0))
      else if length want = 2 then (let w = le_uint16 want in (\<lambda>got. le_uint16 got = w))
      else if length want = 4 then (let w = le_uint32 want in (\<lambda>got. le_uint32 got = w))
      else if length want = 8 then (let w = le_uint64 want in (\<lambda>got. le_uint64 got = w))
      else (\<lambda>got. got = want))"

definition MatchOffsetBytes :: "int \<Rightarrow> bytes \<Rightarrow> stage_fun" where
  "MatchOffsetBytes off want =
     (if off < 0 then drop_all
      else let stop = wrap64 (off + int (length want)) in
        if stop < off then drop_all
        else let matcher = buildOffsetMatcher want in
          mapStage (\<lambda>p.
            if int (length (Payload p)) < stop then (False, p)
            else (matcher (byte_slice (Payload p) off stop), p)))"

text \<open>\<open>copy(payload[off:end], with)\<close>.\<close>

definition overwrite :: "bytes \<Rightarrow> int \<Rightarrow> bytes \<Rightarrow> bytes" where
  "overwrite bs off wth =
     take (nat off) bs @ wth @ drop (nat off + length wth) bs"

definition ReplaceOffsetBytes :: "int \<Rightarrow> bytes \<Rightarrow> stage_fun" where
  "ReplaceOffsetBytes off wth =
     (if off < 0 then drop_all
      else let stop = wrap64 (off + int (length wth)) in
        if stop < off then drop_all
        else mapStage (\<lambda>p.
          if int (length (Payload p)) < stop then (False, p)
          else (True, p\<lparr>Payload := overwrite (Payload p) off wth\<rparr>)))"

definition RouteSenderByOffsetBytes :: "int \<Rightarrow> int \<Rightarrow> string gomap \<Rightarrow> string \<Rightarrow> stage_fun" where
  "RouteSenderByOffsetBytes off keyLen routes defaultSender =
     (if off < 0 \<or> keyLen \<le> 0 then drop_all
      else let stop = wrap64 (off + keyLen) in
        if stop < off then drop_all
        else mapStage (\<lambda>p.
          if int (length (Payload p)) < stop then (False, p)
          else
            (case mget routes (str_of_bytes (byte_slice (Payload p) off stop)) of
               Some sn \<Rightarrow> (True, set_meta (\<lambda>m. m\<lparr>RouteSender := sn\<rparr>) p)
             | None \<Rightarrow>
                 if defaultSender \<noteq> [] then (True, set_meta (\<lambda>m. m\<lparr>RouteSender := defaultSender\<rparr>) p)
                 else (False, p))))"

definition SetKafkaRecordKeyFromOffsetBytes :: "int \<Rightarrow> int \<Rightarrow> string \<Rightarrow> stage_fun" where
  "SetKafkaRecordKeyFromOffsetBytes off len encoding =
     (if off < 0 \<or> len \<le> 0 then drop_all
      else let stop = wrap64 (off + len) in
        if stop < off then drop_all
        else if encoding = ''text'' then
          mapStage (\<lambda>p.
            if int (length (Payload p)) < stop then (False, p)
            else (True, set_meta (\<lambda>m. m\<lparr>KafkaRecordKey := str_of_bytes (byte_slice (Payload p) off stop)\<rparr>) p))
        else if encoding = ''hex'' then
          mapStage (\<lambda>p.
            if int (length (Payload p)) < stop then (False, p)
            else (True, set_meta (\<lambda>m. m\<lparr>KafkaRecordKey := hex_encode (byte_slice (Payload p) off stop)\<rparr>) p))
        else drop_all)"

section \<open>File path stages\<close>

definition targetPathOrSource :: "packet \<Rightarrow> string" where
  "targetPathOrSource p =
     (if trim_space (TargetFilePath (Meta p)) \<noteq> [] then TargetFilePath (Meta p) else FilePath (Meta p))"

definition targetFilenameOrSource :: "packet \<Rightarrow> string" where
  "targetFilenameOrSource p =
     (if trim_space (TargetFileName (Meta p)) \<noteq> [] then TargetFileName (Meta p)
      else if trim_space (FileName (Meta p)) \<noteq> [] then FileName (Meta p)
      else let base = path_base (trim_space (targetPathOrSource p)) in
        if base = ''.'' \<or> base = ''/'' then [] else base)"

definition replacePathBase :: "string \<Rightarrow> string \<Rightarrow> string" where
  "replacePathBase filePath fileName0 =
     (let fileName = trim_space fileName0 in
      if fileName = [] then
        (if path_base (trim_space filePath) = ''.'' then [] else filePath)
      else let dir = path_dir filePath in
        if dir = ''.'' \<or> dir = ''/'' \<or> dir = [] then fileName
        else path_join dir fileName)"

definition cleanPathPrefix :: "string \<Rightarrow> string" where
  "cleanPathPrefix prefix0 =
     (let prefix = trim_space prefix0 in
      if prefix = [] then [] else trim_slashes (path_clean (''/'' @ prefix)))"

definition SetTargetFilePath :: "string \<Rightarrow> stage_fun" where
  "SetTargetFilePath value = mapStage (\<lambda>p. (True, set_meta (\<lambda>m. m\<lparr>TargetFilePath := value\<rparr>) p))"

definition RewriteTargetPathStripPrefix :: "string \<Rightarrow> stage_fun" where
  "RewriteTargetPathStripPrefix prefix0 =
     (let prefix = trim_space prefix0 in
      mapStage (\<lambda>p.
        let cur = targetPathOrSource p;
            t = trim_prefix (trim_prefix cur prefix) ''/''
        in (True, set_meta (\<lambda>m. m\<lparr>TargetFilePath := t\<rparr>) p)))"

definition RewriteTargetPathAddPrefix :: "string \<Rightarrow> stage_fun" where
  "RewriteTargetPathAddPrefix prefix0 =
     (let prefix = cleanPathPrefix prefix0 in
      mapStage (\<lambda>p.
        let cur = trim_prefix (targetPathOrSource p) ''/'' in
        if prefix = [] then (True, set_meta (\<lambda>m. m\<lparr>TargetFilePath := cur\<rparr>) p)
        else (True, set_meta (\<lambda>m. m\<lparr>TargetFilePath := path_join prefix cur\<rparr>) p)))"

text \<open>The two assignments of the filename stages: the new name, then the path with that base.\<close>

definition set_target_name :: "string \<Rightarrow> packet \<Rightarrow> packet" where
  "set_target_name name p =
     (let p1 = set_meta (\<lambda>m. m\<lparr>TargetFileName := name\<rparr>) p in
      set_meta (\<lambda>m. m\<lparr>TargetFilePath := replacePathBase (targetPathOrSource p1) name\<rparr>) p1)"

definition RewriteTargetFilenameReplace :: "string \<Rightarrow> string \<Rightarrow> stage_fun" where
  "RewriteTargetFilenameReplace old new =
     mapStage (\<lambda>p. (True, set_target_name (replace_all (targetFilenameOrSource p) old new) p))"

text \<open>A compiled regular expression is its \<open>ReplaceAllString\<close> (source, replacement).\<close>

type_synonym regex = "string \<Rightarrow> string \<Rightarrow> string"

definition RewriteTargetPathRegex :: "regex \<Rightarrow> string \<Rightarrow> stage_fun" where
  "RewriteTargetPathRegex re replacement =
     mapStage (\<lambda>p. (True, set_meta (\<lambda>m. m\<lparr>TargetFilePath := re (targetPathOrSource p) replacement\<rparr>) p))"

definition RewriteTargetFilenameRegex :: "regex \<Rightarrow> string \<Rightarrow> stage_fun" where
  "RewriteTargetFilenameRegex re replacement =
     mapStage (\<lambda>p. (True, set_target_name (re (targetFilenameOrSource p) replacement) p))"

section \<open>mapStage against its reference\<close>

text \<open>What the optimised loop computes: every packet is rewritten, the passing ones are kept.\<close>

definition keep_passing :: "one_fun \<Rightarrow> stage_fun" where
  "keep_passing one ps = map snd (filter fst (map one ps))"

lemma keep_passing_simps [simp]:
  "keep_passing one [] = []"
  "keep_passing one (p # ps) =
    (if fst (one p) then snd (one p) # keep_passing one ps else keep_passing one ps)"
  by (simp_all add: keep_passing_def)

lemma append_passing_eq: "append_passing one out ps = out @ keep_passing one ps"
  by (induction ps arbitrary: out) (auto simp: Let_def split: prod.splits)

lemma map_stage_loop_eq: "map_stage_loop one seen ps = seen @ keep_passing one ps"
  by (induction ps arbitrary: seen) (auto simp: Let_def append_passing_eq split: prod.splits)

lemma mapStage_eq: "mapStage one ps = keep_passing one ps"
  by (simp add: mapStage_def map_stage_loop_eq)

lemma drop_all_eq [simp]: "drop_all ps = []"
  by (induction ps) (auto simp: drop_all_def mapStage_eq)

section \<open>The matcher\<close>

lemma le_nat_bound: "le_nat bs < 256 ^ length bs"
proof (induction bs)
  case (Cons b bs)
  have "unat b < 256" using unsigned_less [of b, where ?'a = nat] by simp
  then show ?case using Cons by simp
qed simp

lemma base256_inj: "a + 256 * c = b + 256 * d \<Longrightarrow> a < 256 \<Longrightarrow> b < 256 \<Longrightarrow> a = (b :: nat)"
  by (drule arg_cong [where f = "\<lambda>n. n mod 256"]) simp

lemma le_nat_inj: "length a = length b \<Longrightarrow> le_nat a = le_nat b \<Longrightarrow> a = b"
proof (induction a b rule: list_induct2)
  case (Cons x xs y ys)
  have x: "unat x < 256" "unat y < 256"
    using unsigned_less [of x, where ?'a = nat] unsigned_less [of y, where ?'a = nat] by simp_all
  have "unat x + 256 * le_nat xs = unat y + 256 * le_nat ys" using Cons.prems by simp
  then have "unat x = unat y" using x by (rule base256_inj)
  then show ?case using Cons by (simp add: unsigned_word_eqI)
qed simp

lemma word_of_le_nat_inj:
  assumes "length a = n" "length b = n" "256 ^ n \<le> (2 :: nat) ^ LENGTH('w)"
  shows "(of_nat (le_nat a) :: 'w :: len word) = of_nat (le_nat b) \<longleftrightarrow> a = b"
proof
  assume e: "(of_nat (le_nat a) :: 'w word) = of_nat (le_nat b)"
  have "le_nat a < 2 ^ LENGTH('w)" "le_nat b < 2 ^ LENGTH('w)"
    using le_nat_bound [of a] le_nat_bound [of b] assms by (auto intro: less_le_trans)
  then have "le_nat a = le_nat b" using e by (metis of_nat_inverse)
  then show "a = b" using assms le_nat_inj by simp
qed simp

lemma buildOffsetMatcher_eq: "length got = length want \<Longrightarrow> buildOffsetMatcher want got \<longleftrightarrow> got = want"
proof -
  assume l: "length got = length want"
  consider "length want = 0" | "length want = 1" | "length want = 2" | "length want = 4" | "length want = 8"
    | "length want \<notin> {0, 1, 2, 4, 8}" by auto
  then show ?thesis
  proof cases
    case 2
    then show ?thesis using l by (auto simp: buildOffsetMatcher_def length_Suc_conv)
  next
    case 3
    then show ?thesis using l word_of_le_nat_inj [of got 2 want, where 'w = 16]
      by (simp add: buildOffsetMatcher_def le_uint16_def)
  next
    case 4
    then show ?thesis using l word_of_le_nat_inj [of got 4 want, where 'w = 32]
      by (simp add: buildOffsetMatcher_def le_uint32_def)
  next
    case 5
    then show ?thesis using l word_of_le_nat_inj [of got 8 want, where 'w = 64]
      by (simp add: buildOffsetMatcher_def le_uint64_def)
  qed (use l in \<open>simp_all add: buildOffsetMatcher_def\<close>)
qed

end
