(* ===== verification/Config.thy ===== *)
theory Config
  imports GoStrings
begin

text \<open>
  The configuration of \<open>src/src/config/config.go\<close>: every struct as a record with the fields in the
  source's order, named with the struct's prefix and the Go field name. A \<open>*bool\<close> and a slice or
  map that may be nil are options. The two large structs are split into an extension chain of
  records (\<open>receiver_base\<close>, \<open>receiver_kafka\<close>, \<open>receiver_config\<close> and the same for senders), which
  has the same fields as the struct. The constants \<open>zero_...\<close> are the structs' zero values, and
  \<open>Merge\<close> and the methods of \<open>KafkaAcksConfig\<close> are the functions of the package that belong to
  the data.
\<close>

section \<open>The structs\<close>

record control_config =
  cc_API :: "string"
  cc_TimeoutSec :: "int"
  cc_ConfigWatchInterval :: "string"
  cc_PprofPort :: "int"

record logging_config =
  lc_Level :: "string"
  lc_File :: "string"
  lc_MaxSizeMB :: "int"
  lc_MaxBackups :: "int"
  lc_MaxAgeDays :: "int"
  lc_Compress :: "bool option"
  lc_TrafficStatsInterval :: "string"
  lc_TrafficStatsSampleEvery :: "int"
  lc_PayloadLogMaxBytes :: "int"
  lc_GCStatsLogEnabled :: "bool option"
  lc_GCStatsLogInterval :: "string"

record receiver_match_key_config =
  mk_Mode :: "string"
  mk_FixedValue :: "string"

record local_generator_config =
  lg_Interval :: "string"
  lg_RatePerSec :: "int"
  lg_TickInterval :: "string"
  lg_PayloadFormat :: "string"
  lg_PayloadData :: "string"
  lg_StartDelay :: "string"
  lg_TotalPackets :: "int"
  lg_Remote :: "string"
  lg_Local :: "string"

record notify_on_success_config =
  nc_Type :: "string"
  nc_Remote :: "string"
  nc_Topic :: "string"
  nc_RecordKeySource :: "string"
  nc_ClientID :: "string"
  nc_Username :: "string"
  nc_Password :: "string"
  nc_SASLMechanism :: "string"
  nc_TLS :: "bool"
  nc_TLSSkipVerify :: "bool"
  nc_DialTimeout :: "string"
  nc_RequestTimeout :: "string"
  nc_RetryTimeout :: "string"
  nc_RetryBackoff :: "string"
  nc_MetadataMaxAge :: "string"
  nc_ConnIdleTimeout :: "string"
  nc_DCPSConfigFile :: "string"
  nc_DomainID :: "int"
  nc_TopicName :: "string"
  nc_MessageModel :: "string"
  nc_Reliable :: "bool"
  nc_QueueDepth :: "int"
  nc_MaxBlockingTimeMsec :: "int"
  nc_Compress :: "bool"

record receiver_base =
  rc_Type :: "string"
  rc_Listen :: "string"
  rc_Multicore :: "bool option"
  rc_NumEventLoop :: "int"
  rc_ReadBufferCap :: "int"
  rc_SocketRecvBuffer :: "int"
  rc_Frame :: "string"
  rc_Selector :: "string"
  rc_MatchKey :: "receiver_match_key_config"
  rc_Generator :: "local_generator_config"

record receiver_kafka = receiver_base +
  rc_Topic :: "string"
  rc_GroupID :: "string"
  rc_Username :: "string"
  rc_Password :: "string"
  rc_SASLMechanism :: "string"
  rc_TLS :: "bool"
  rc_TLSSkipVerify :: "bool"
  rc_ClientID :: "string"
  rc_DialTimeout :: "string"
  rc_ConnIdleTimeout :: "string"
  rc_MetadataMaxAge :: "string"
  rc_RetryBackoff :: "string"
  rc_StartOffset :: "string"
  rc_SessionTimeout :: "string"
  rc_HeartbeatInterval :: "string"
  rc_RebalanceTimeout :: "string"
  rc_Balancers :: "string slice"
  rc_AutoCommit :: "bool option"
  rc_AutoCommitInterval :: "string"
  rc_FetchMinBytes :: "int"
  rc_FetchMaxBytes :: "int"
  rc_FetchMaxPartitionBytes :: "int"
  rc_IsolationLevel :: "string"
  rc_FetchMaxWaitMS :: "int"

record receiver_config = receiver_kafka +
  rc_RemoteDir :: "string"
  rc_PollIntervalSec :: "int"
  rc_ChunkSize :: "int"
  rc_Endpoint :: "string"
  rc_Bucket :: "string"
  rc_Region :: "string"
  rc_AccessKey :: "string"
  rc_SecretKey :: "string"
  rc_UseSSL :: "bool"
  rc_ForcePathStyle :: "bool"
  rc_Prefix :: "string"
  rc_HostKeyFingerprint :: "string"
  rc_DCPSConfigFile :: "string"
  rc_DomainID :: "int"
  rc_TopicName :: "string"
  rc_MessageModel :: "string"
  rc_Reliable :: "bool"
  rc_QueueDepth :: "int"
  rc_MaxBlockingTimeMsec :: "int"
  rc_ConsumerGroup :: "string"
  rc_Compress :: "bool"
  rc_WaitTimeout :: "string"
  rc_DrainMaxItems :: "int"
  rc_DrainBufferBytes :: "int"
  rc_LogPayloadRecv :: "bool"
  rc_PayloadLogMaxBytes :: "int"

record sender_base =
  sc_Type :: "string"
  sc_Remote :: "string"
  sc_Frame :: "string"
  sc_Concurrency :: "int"
  sc_SocketSendBuffer :: "int"
  sc_Topic :: "string"

record sender_kafka = sender_base +
  sc_Username :: "string"
  sc_Password :: "string"
  sc_SASLMechanism :: "string"
  sc_TLS :: "bool"
  sc_TLSSkipVerify :: "bool"
  sc_ClientID :: "string"
  sc_DialTimeout :: "string"
  sc_RequestTimeout :: "string"
  sc_RetryTimeout :: "string"
  sc_RetryBackoff :: "string"
  sc_ConnIdleTimeout :: "string"
  sc_MetadataMaxAge :: "string"
  sc_Acks :: "string"
  sc_Idempotent :: "bool option"
  sc_Retries :: "int"
  sc_MaxInFlightRequestsPerConnection :: "int"
  sc_LingerMS :: "int"
  sc_BatchMaxBytes :: "int"
  sc_MaxBufferedBytes :: "int"
  sc_MaxBufferedRecords :: "int"
  sc_Compression :: "string"
  sc_CompressionLevel :: "int"
  sc_Partitioner :: "string"
  sc_RecordKey :: "string"
  sc_RecordKeySource :: "string"
  sc_SendMode :: "string"
  sc_AsyncQueueSize :: "int"
  sc_AsyncBackpressure :: "string"
  sc_CloseFlushTimeout :: "string"

record sender_config = sender_kafka +
  sc_DCPSConfigFile :: "string"
  sc_DomainID :: "int"
  sc_TopicName :: "string"
  sc_MessageModel :: "string"
  sc_Reliable :: "bool"
  sc_QueueDepth :: "int"
  sc_MaxBlockingTimeMsec :: "int"
  sc_Compress :: "bool"
  sc_BatchNum :: "int"
  sc_BatchSize :: "int"
  sc_BatchDelay :: "string"
  sc_LocalIP :: "string"
  sc_LocalPort :: "int"
  sc_Iface :: "string"
  sc_TTL :: "int"
  sc_Loop :: "bool"
  sc_RemoteDir :: "string"
  sc_TempSuffix :: "string"
  sc_HostKeyFingerprint :: "string"
  sc_Endpoint :: "string"
  sc_Bucket :: "string"
  sc_Region :: "string"
  sc_AccessKey :: "string"
  sc_SecretKey :: "string"
  sc_UseSSL :: "bool"
  sc_ForcePathStyle :: "bool"
  sc_KeyPrefix :: "string"
  sc_PartSize :: "int"
  sc_StorageClass :: "string"
  sc_ContentType :: "string"
  sc_NotifyOnSuccess :: "notify_on_success_config slice"

record stage_config =
  st_Type :: "string"
  st_Offset :: "int"
  st_Length :: "int"
  st_Encoding :: "string"
  st_Hex :: "string"
  st_Cases :: "string gomap option"
  st_DefaultSender :: "string"
  st_Value :: "string"
  st_Prefix :: "string"
  st_Old :: "string"
  st_New :: "string"
  st_Pattern :: "string"
  st_Replacement :: "string"

record selector_config =
  se_Matches :: "string gomap option"
  se_DefaultTaskSet :: "string"

record task_config =
  tc_PoolSize :: "int"
  tc_ExecutionModel :: "string"
  tc_ChannelQueueSize :: "int"
  tc_Pipelines :: "string slice"
  tc_Senders :: "string slice"
  tc_LogPayloadSend :: "bool"
  tc_PayloadLogMaxBytes :: "int"

record business_task_defaults_config =
  bt_ExecutionModel :: "string"
  bt_PoolSize :: "int"
  bt_ChannelQueueSize :: "int"
  bt_PayloadLogMaxBytes :: "int"

record business_receiver_defaults_config =
  br_Multicore :: "bool option"
  br_NumEventLoop :: "int"
  br_SocketRecvBuffer :: "int"
  br_PayloadLogMaxBytes :: "int"
  br_DialTimeout :: "string"
  br_ConnIdleTimeout :: "string"
  br_MetadataMaxAge :: "string"
  br_RetryBackoff :: "string"
  br_SessionTimeout :: "string"
  br_HeartbeatInterval :: "string"
  br_RebalanceTimeout :: "string"
  br_Balancers :: "string slice"
  br_AutoCommit :: "bool option"
  br_AutoCommitInterval :: "string"
  br_FetchMaxPartitionBytes :: "int"
  br_IsolationLevel :: "string"
  br_WaitTimeout :: "string"
  br_DrainMaxItems :: "int"
  br_DrainBufferBytes :: "int"

record business_sender_defaults_config =
  bs_Concurrency :: "int"
  bs_SocketSendBuffer :: "int"
  bs_DialTimeout :: "string"
  bs_RequestTimeout :: "string"
  bs_RetryTimeout :: "string"
  bs_RetryBackoff :: "string"
  bs_ConnIdleTimeout :: "string"
  bs_MetadataMaxAge :: "string"
  bs_Partitioner :: "string"
  bs_SendMode :: "string"
  bs_AsyncQueueSize :: "int"
  bs_AsyncBackpressure :: "string"
  bs_CloseFlushTimeout :: "string"

record business_defaults_config =
  bd_Task :: "business_task_defaults_config"
  bd_Receiver :: "business_receiver_defaults_config"
  bd_Sender :: "business_sender_defaults_config"

record config =
  cfg_Version :: "int"
  cfg_Control :: "control_config"
  cfg_Logging :: "logging_config"
  cfg_Receivers :: "receiver_config gomap option"
  cfg_Selectors :: "selector_config gomap option"
  cfg_TaskSets :: "(string slice) gomap option"
  cfg_Senders :: "sender_config gomap option"
  cfg_Pipelines :: "(stage_config slice) gomap option"
  cfg_Tasks :: "task_config gomap option"

record system_config =
  sys_Control :: "control_config"
  sys_Logging :: "logging_config"
  sys_BusinessDefaults :: "business_defaults_config"

record business_config =
  biz_Version :: "int"
  biz_Receivers :: "receiver_config gomap option"
  biz_Selectors :: "selector_config gomap option"
  biz_TaskSets :: "(string slice) gomap option"
  biz_Senders :: "sender_config gomap option"
  biz_Pipelines :: "(stage_config slice) gomap option"
  biz_Tasks :: "task_config gomap option"

definition zero_control_config :: control_config where
  "zero_control_config =
     \<lparr>cc_API = [], cc_TimeoutSec = 0, cc_ConfigWatchInterval = [], cc_PprofPort = 0\<rparr>"

definition zero_logging_config :: logging_config where
  "zero_logging_config =
     \<lparr>lc_Level = [], lc_File = [], lc_MaxSizeMB = 0, lc_MaxBackups = 0, lc_MaxAgeDays = 0,
     lc_Compress = None, lc_TrafficStatsInterval = [], lc_TrafficStatsSampleEvery = 0,
     lc_PayloadLogMaxBytes = 0, lc_GCStatsLogEnabled = None, lc_GCStatsLogInterval = []\<rparr>"

definition zero_receiver_match_key_config :: receiver_match_key_config where
  "zero_receiver_match_key_config =
     \<lparr>mk_Mode = [], mk_FixedValue = []\<rparr>"

definition zero_local_generator_config :: local_generator_config where
  "zero_local_generator_config =
     \<lparr>lg_Interval = [], lg_RatePerSec = 0, lg_TickInterval = [], lg_PayloadFormat = [],
     lg_PayloadData = [], lg_StartDelay = [], lg_TotalPackets = 0, lg_Remote = [], lg_Local =
     []\<rparr>"

definition zero_notify_on_success_config :: notify_on_success_config where
  "zero_notify_on_success_config =
     \<lparr>nc_Type = [], nc_Remote = [], nc_Topic = [], nc_RecordKeySource = [], nc_ClientID =
     [], nc_Username = [], nc_Password = [], nc_SASLMechanism = [], nc_TLS = False,
     nc_TLSSkipVerify = False, nc_DialTimeout = [], nc_RequestTimeout = [], nc_RetryTimeout = [],
     nc_RetryBackoff = [], nc_MetadataMaxAge = [], nc_ConnIdleTimeout = [], nc_DCPSConfigFile = [],
     nc_DomainID = 0, nc_TopicName = [], nc_MessageModel = [], nc_Reliable = False, nc_QueueDepth =
     0, nc_MaxBlockingTimeMsec = 0, nc_Compress = False\<rparr>"

definition zero_receiver_config :: receiver_config where
  "zero_receiver_config =
     \<lparr>rc_Type = [], rc_Listen = [], rc_Multicore = None, rc_NumEventLoop = 0,
     rc_ReadBufferCap = 0, rc_SocketRecvBuffer = 0, rc_Frame = [], rc_Selector = [], rc_MatchKey =
     zero_receiver_match_key_config, rc_Generator = zero_local_generator_config, rc_Topic = [],
     rc_GroupID = [], rc_Username = [], rc_Password = [], rc_SASLMechanism = [], rc_TLS = False,
     rc_TLSSkipVerify = False, rc_ClientID = [], rc_DialTimeout = [], rc_ConnIdleTimeout = [],
     rc_MetadataMaxAge = [], rc_RetryBackoff = [], rc_StartOffset = [], rc_SessionTimeout = [],
     rc_HeartbeatInterval = [], rc_RebalanceTimeout = [], rc_Balancers = None, rc_AutoCommit =
     None, rc_AutoCommitInterval = [], rc_FetchMinBytes = 0, rc_FetchMaxBytes = 0,
     rc_FetchMaxPartitionBytes = 0, rc_IsolationLevel = [], rc_FetchMaxWaitMS = 0, rc_RemoteDir =
     [], rc_PollIntervalSec = 0, rc_ChunkSize = 0, rc_Endpoint = [], rc_Bucket = [], rc_Region =
     [], rc_AccessKey = [], rc_SecretKey = [], rc_UseSSL = False, rc_ForcePathStyle = False,
     rc_Prefix = [], rc_HostKeyFingerprint = [], rc_DCPSConfigFile = [], rc_DomainID = 0,
     rc_TopicName = [], rc_MessageModel = [], rc_Reliable = False, rc_QueueDepth = 0,
     rc_MaxBlockingTimeMsec = 0, rc_ConsumerGroup = [], rc_Compress = False, rc_WaitTimeout = [],
     rc_DrainMaxItems = 0, rc_DrainBufferBytes = 0, rc_LogPayloadRecv = False,
     rc_PayloadLogMaxBytes = 0\<rparr>"

definition zero_sender_config :: sender_config where
  "zero_sender_config =
     \<lparr>sc_Type = [], sc_Remote = [], sc_Frame = [], sc_Concurrency = 0, sc_SocketSendBuffer =
     0, sc_Topic = [], sc_Username = [], sc_Password = [], sc_SASLMechanism = [], sc_TLS = False,
     sc_TLSSkipVerify = False, sc_ClientID = [], sc_DialTimeout = [], sc_RequestTimeout = [],
     sc_RetryTimeout = [], sc_RetryBackoff = [], sc_ConnIdleTimeout = [], sc_MetadataMaxAge = [],
     sc_Acks = [], sc_Idempotent = None, sc_Retries = 0, sc_MaxInFlightRequestsPerConnection = 0,
     sc_LingerMS = 0, sc_BatchMaxBytes = 0, sc_MaxBufferedBytes = 0, sc_MaxBufferedRecords = 0,
     sc_Compression = [], sc_CompressionLevel = 0, sc_Partitioner = [], sc_RecordKey = [],
     sc_RecordKeySource = [], sc_SendMode = [], sc_AsyncQueueSize = 0, sc_AsyncBackpressure = [],
     sc_CloseFlushTimeout = [], sc_DCPSConfigFile = [], sc_DomainID = 0, sc_TopicName = [],
     sc_MessageModel = [], sc_Reliable = False, sc_QueueDepth = 0, sc_MaxBlockingTimeMsec = 0,
     sc_Compress = False, sc_BatchNum = 0, sc_BatchSize = 0, sc_BatchDelay = [], sc_LocalIP = [],
     sc_LocalPort = 0, sc_Iface = [], sc_TTL = 0, sc_Loop = False, sc_RemoteDir = [], sc_TempSuffix
     = [], sc_HostKeyFingerprint = [], sc_Endpoint = [], sc_Bucket = [], sc_Region = [],
     sc_AccessKey = [], sc_SecretKey = [], sc_UseSSL = False, sc_ForcePathStyle = False,
     sc_KeyPrefix = [], sc_PartSize = 0, sc_StorageClass = [], sc_ContentType = [],
     sc_NotifyOnSuccess = None\<rparr>"

definition zero_stage_config :: stage_config where
  "zero_stage_config =
     \<lparr>st_Type = [], st_Offset = 0, st_Length = 0, st_Encoding = [], st_Hex = [], st_Cases =
     None, st_DefaultSender = [], st_Value = [], st_Prefix = [], st_Old = [], st_New = [],
     st_Pattern = [], st_Replacement = []\<rparr>"

definition zero_selector_config :: selector_config where
  "zero_selector_config =
     \<lparr>se_Matches = None, se_DefaultTaskSet = []\<rparr>"

definition zero_task_config :: task_config where
  "zero_task_config =
     \<lparr>tc_PoolSize = 0, tc_ExecutionModel = [], tc_ChannelQueueSize = 0, tc_Pipelines = None,
     tc_Senders = None, tc_LogPayloadSend = False, tc_PayloadLogMaxBytes = 0\<rparr>"

definition zero_business_task_defaults_config :: business_task_defaults_config where
  "zero_business_task_defaults_config =
     \<lparr>bt_ExecutionModel = [], bt_PoolSize = 0, bt_ChannelQueueSize = 0,
     bt_PayloadLogMaxBytes = 0\<rparr>"

definition zero_business_receiver_defaults_config :: business_receiver_defaults_config where
  "zero_business_receiver_defaults_config =
     \<lparr>br_Multicore = None, br_NumEventLoop = 0, br_SocketRecvBuffer = 0,
     br_PayloadLogMaxBytes = 0, br_DialTimeout = [], br_ConnIdleTimeout = [], br_MetadataMaxAge =
     [], br_RetryBackoff = [], br_SessionTimeout = [], br_HeartbeatInterval = [],
     br_RebalanceTimeout = [], br_Balancers = None, br_AutoCommit = None, br_AutoCommitInterval =
     [], br_FetchMaxPartitionBytes = 0, br_IsolationLevel = [], br_WaitTimeout = [],
     br_DrainMaxItems = 0, br_DrainBufferBytes = 0\<rparr>"

definition zero_business_sender_defaults_config :: business_sender_defaults_config where
  "zero_business_sender_defaults_config =
     \<lparr>bs_Concurrency = 0, bs_SocketSendBuffer = 0, bs_DialTimeout = [], bs_RequestTimeout =
     [], bs_RetryTimeout = [], bs_RetryBackoff = [], bs_ConnIdleTimeout = [], bs_MetadataMaxAge =
     [], bs_Partitioner = [], bs_SendMode = [], bs_AsyncQueueSize = 0, bs_AsyncBackpressure = [],
     bs_CloseFlushTimeout = []\<rparr>"

definition zero_business_defaults_config :: business_defaults_config where
  "zero_business_defaults_config =
     \<lparr>bd_Task = zero_business_task_defaults_config, bd_Receiver =
     zero_business_receiver_defaults_config, bd_Sender =
     zero_business_sender_defaults_config\<rparr>"

definition zero_config :: config where
  "zero_config =
     \<lparr>cfg_Version = 0, cfg_Control = zero_control_config, cfg_Logging = zero_logging_config,
     cfg_Receivers = None, cfg_Selectors = None, cfg_TaskSets = None, cfg_Senders = None,
     cfg_Pipelines = None, cfg_Tasks = None\<rparr>"

definition zero_system_config :: system_config where
  "zero_system_config =
     \<lparr>sys_Control = zero_control_config, sys_Logging = zero_logging_config,
     sys_BusinessDefaults = zero_business_defaults_config\<rparr>"

definition zero_business_config :: business_config where
  "zero_business_config =
     \<lparr>biz_Version = 0, biz_Receivers = None, biz_Selectors = None, biz_TaskSets = None,
     biz_Senders = None, biz_Pipelines = None, biz_Tasks = None\<rparr>"

section \<open>Constants\<close>

definition DefaultControlTimeoutSec :: int where
  "DefaultControlTimeoutSec = 5"

definition DefaultConfigWatchInterval :: string where
  "DefaultConfigWatchInterval = ''2s''"

definition DefaultPprofPort :: int where
  "DefaultPprofPort = 6060"

definition DefaultLogLevel :: string where
  "DefaultLogLevel = ''info''"

definition DefaultTrafficStatsInterval :: string where
  "DefaultTrafficStatsInterval = ''1s''"

definition DefaultTrafficStatsSampleEvery :: int where
  "DefaultTrafficStatsSampleEvery = 1"

definition DefaultLogRotateMaxSizeMB :: int where
  "DefaultLogRotateMaxSizeMB = 100"

definition DefaultLogRotateMaxBackups :: int where
  "DefaultLogRotateMaxBackups = 5"

definition DefaultLogRotateMaxAgeDays :: int where
  "DefaultLogRotateMaxAgeDays = 30"

definition DefaultLogRotateCompress :: bool where
  "DefaultLogRotateCompress = True"

definition DefaultGCStatsLogEnabled :: bool where
  "DefaultGCStatsLogEnabled = False"

definition DefaultGCStatsLogInterval :: string where
  "DefaultGCStatsLogInterval = ''1m''"

definition DefaultPayloadLogMaxBytes :: int where
  "DefaultPayloadLogMaxBytes = 256"

definition DefaultReceiverMulticore :: bool where
  "DefaultReceiverMulticore = True"

definition DefaultReceiverNumEventLoop :: int where
  "DefaultReceiverNumEventLoop = 8"

definition DefaultReceiverSocketRecvBuffer :: int where
  "DefaultReceiverSocketRecvBuffer = 1073741824"

definition DefaultSenderConcurrency :: int where
  "DefaultSenderConcurrency = 8"

definition DefaultSenderSocketSendBuffer :: int where
  "DefaultSenderSocketSendBuffer = 1073741824"

definition DefaultOSSPartSize :: int where
  "DefaultOSSPartSize = 5242880"

definition DefaultTaskPoolSize :: int where
  "DefaultTaskPoolSize = 4096"

definition DefaultTaskChannelQueueSize :: int where
  "DefaultTaskChannelQueueSize = 8192"

definition DefaultKafkaDialTimeout :: string where
  "DefaultKafkaDialTimeout = ''10s''"

definition DefaultKafkaSenderRequestTimeout :: string where
  "DefaultKafkaSenderRequestTimeout = ''30s''"

definition DefaultKafkaRetryTimeout :: string where
  "DefaultKafkaRetryTimeout = ''1m''"

definition DefaultKafkaRetryBackoff :: string where
  "DefaultKafkaRetryBackoff = ''250ms''"

definition DefaultKafkaConnIdleTimeout :: string where
  "DefaultKafkaConnIdleTimeout = ''30s''"

definition DefaultKafkaMetadataMaxAge :: string where
  "DefaultKafkaMetadataMaxAge = ''5m''"

definition DefaultKafkaSenderPartitioner :: string where
  "DefaultKafkaSenderPartitioner = ''sticky''"

definition DefaultKafkaSenderSendMode :: string where
  "DefaultKafkaSenderSendMode = ''async''"

definition DefaultKafkaSenderAsyncQueueSize :: int where
  "DefaultKafkaSenderAsyncQueueSize = 8192"

definition DefaultKafkaSenderBackpressure :: string where
  "DefaultKafkaSenderBackpressure = ''block''"

definition DefaultKafkaSenderCloseFlushTTL :: string where
  "DefaultKafkaSenderCloseFlushTTL = ''10s''"

definition DefaultKafkaReceiverSessionTTL :: string where
  "DefaultKafkaReceiverSessionTTL = ''45s''"

definition DefaultKafkaReceiverHeartbeat :: string where
  "DefaultKafkaReceiverHeartbeat = ''3s''"

definition DefaultKafkaReceiverRebalanceTTL :: string where
  "DefaultKafkaReceiverRebalanceTTL = ''1m''"

definition DefaultKafkaReceiverAutoCommit :: bool where
  "DefaultKafkaReceiverAutoCommit = True"

definition DefaultKafkaReceiverAutoCommitIv :: string where
  "DefaultKafkaReceiverAutoCommitIv = ''5s''"

definition DefaultKafkaFetchMaxPartBytes :: int where
  "DefaultKafkaFetchMaxPartBytes = 1048576"

definition DefaultKafkaIsolationLevel :: string where
  "DefaultKafkaIsolationLevel = ''read_uncommitted''"

definition DefaultSkyDDSWaitTimeout :: string where
  "DefaultSkyDDSWaitTimeout = ''500ms''"

definition DefaultSkyDDSDrainMaxItems :: int where
  "DefaultSkyDDSDrainMaxItems = 2048"

definition DefaultSkyDDSDrainBufferBytes :: int where
  "DefaultSkyDDSDrainBufferBytes = 4194304"

definition DefaultLocalTimerTickInterval :: string where
  "DefaultLocalTimerTickInterval = ''100ms''"

definition DefaultKafkaReceiverBalancers :: "string slice" where
  "DefaultKafkaReceiverBalancers = Some [''cooperative_sticky'']"

lemmas config_constants =
  DefaultControlTimeoutSec_def
  DefaultConfigWatchInterval_def
  DefaultPprofPort_def
  DefaultLogLevel_def
  DefaultTrafficStatsInterval_def
  DefaultTrafficStatsSampleEvery_def
  DefaultLogRotateMaxSizeMB_def
  DefaultLogRotateMaxBackups_def
  DefaultLogRotateMaxAgeDays_def
  DefaultLogRotateCompress_def
  DefaultGCStatsLogEnabled_def
  DefaultGCStatsLogInterval_def
  DefaultPayloadLogMaxBytes_def
  DefaultReceiverMulticore_def
  DefaultReceiverNumEventLoop_def
  DefaultReceiverSocketRecvBuffer_def
  DefaultSenderConcurrency_def
  DefaultSenderSocketSendBuffer_def
  DefaultOSSPartSize_def
  DefaultTaskPoolSize_def
  DefaultTaskChannelQueueSize_def
  DefaultKafkaDialTimeout_def
  DefaultKafkaSenderRequestTimeout_def
  DefaultKafkaRetryTimeout_def
  DefaultKafkaRetryBackoff_def
  DefaultKafkaConnIdleTimeout_def
  DefaultKafkaMetadataMaxAge_def
  DefaultKafkaSenderPartitioner_def
  DefaultKafkaSenderSendMode_def
  DefaultKafkaSenderAsyncQueueSize_def
  DefaultKafkaSenderBackpressure_def
  DefaultKafkaSenderCloseFlushTTL_def
  DefaultKafkaReceiverSessionTTL_def
  DefaultKafkaReceiverHeartbeat_def
  DefaultKafkaReceiverRebalanceTTL_def
  DefaultKafkaReceiverAutoCommit_def
  DefaultKafkaReceiverAutoCommitIv_def
  DefaultKafkaFetchMaxPartBytes_def
  DefaultKafkaIsolationLevel_def
  DefaultSkyDDSWaitTimeout_def
  DefaultSkyDDSDrainMaxItems_def
  DefaultSkyDDSDrainBufferBytes_def
  DefaultLocalTimerTickInterval_def
  DefaultKafkaReceiverBalancers_def

section \<open>Functions on the data\<close>

definition BoolValue :: "bool option \<Rightarrow> bool" where
  "BoolValue v = (case v of None \<Rightarrow> False | Some b \<Rightarrow> b)"

text \<open>
  \<open>strings.ToLower\<close> on the ASCII letters. Go also lowers two other code points to ASCII letters (U+0130 to i and
  U+212A to k) and maps the letters of other scripts; the program only compares the result with ASCII words, so the
  one difference is that it takes a word that is written with one of these two code points.
\<close>

definition to_lower :: "string \<Rightarrow> string" where
  "to_lower s = map (\<lambda>c. let n = of_char c :: nat in if 65 \<le> n \<and> n \<le> 90 then char_of (n + 32) else c) s"

definition kafka_acks_int :: "string \<Rightarrow> int" where
  "kafka_acks_int a =
     (let v = to_lower (trim_space a) in
      if v = ''0'' then 0
      else if v = ''1'' then 1
      else if v = ''all'' \<or> v = ''-1'' \<or> v = [] then - 1
      else - 1)"

definition kafka_acks_is_valid :: "string \<Rightarrow> bool" where
  "kafka_acks_is_valid a = (to_lower (trim_space a) \<in> set [[], ''0'', ''1'', ''all'', ''-1''])"

definition Merge :: "system_config \<Rightarrow> business_config \<Rightarrow> config" where
  "Merge s b =
     \<lparr>cfg_Version = biz_Version b, cfg_Control = sys_Control s, cfg_Logging = sys_Logging s,
      cfg_Receivers = biz_Receivers b, cfg_Selectors = biz_Selectors b,
      cfg_TaskSets = biz_TaskSets b, cfg_Senders = biz_Senders b,
      cfg_Pipelines = biz_Pipelines b, cfg_Tasks = biz_Tasks b\<rparr>"

lemma kafka_acks_cases: "kafka_acks_int a \<in> {0, 1, - 1}"
  by (simp add: kafka_acks_int_def Let_def)

section \<open>reflect.DeepEqual on the configuration values\<close>

text \<open>
  A struct without a map field is deep-equal exactly when it is equal; the two structs with a
  map field compare that field as a map, and a nil map or slice is not equal to an empty one.
\<close>

fun nmap_deep_eq :: "string gomap option \<Rightarrow> string gomap option \<Rightarrow> bool" where
  "nmap_deep_eq None None = True"
| "nmap_deep_eq (Some a) (Some b) = map_deep_eq (=) a b"
| "nmap_deep_eq _ _ = False"

definition selector_deep_eq :: "selector_config \<Rightarrow> selector_config \<Rightarrow> bool" where
  "selector_deep_eq a b \<longleftrightarrow>
     nmap_deep_eq (se_Matches a) (se_Matches b) \<and> se_DefaultTaskSet a = se_DefaultTaskSet b"

definition stage_deep_eq :: "stage_config \<Rightarrow> stage_config \<Rightarrow> bool" where
  "stage_deep_eq a b \<longleftrightarrow>
     a\<lparr>st_Cases := None\<rparr> = b\<lparr>st_Cases := None\<rparr> \<and> nmap_deep_eq (st_Cases a) (st_Cases b)"

fun stages_deep_eq :: "stage_config slice \<Rightarrow> stage_config slice \<Rightarrow> bool" where
  "stages_deep_eq None None = True"
| "stages_deep_eq (Some a) (Some b) = (length a = length b \<and> list_all2 stage_deep_eq a b)"
| "stages_deep_eq _ _ = False"

lemma map_deep_eq_refl: "wf_map m \<Longrightarrow> map_deep_eq (=) m m"
  by (simp add: map_deep_eq_iff)

lemma nmap_deep_eq_refl: "wf_map (elems m) \<Longrightarrow> nmap_deep_eq m m"
  by (cases m) (auto simp: map_deep_eq_refl)

end
