(* ===== verification/Compiler.thy ===== *)
theory Compiler
  imports Stages Config
begin

text \<open>
  \<open>src/src/runtime/compiler.go\<close>: \<open>compileStage\<close> turns a stage configuration into a stage,
  \<open>CompilePipelines\<close> turns all of them into pipelines. The regular expression library is the
  argument \<open>rx\<close> (\<open>regexp.Compile\<close>): a pattern gives an error or the compiled expression.

  The contract of a stage is the locale \<open>stage\<close>: it works packet by packet, and a packet that
  passes is the same object with the same buffer. Every stage that \<open>compileStage\<close> returns keeps it.
\<close>

section \<open>The contract of a stage\<close>

definition same_object :: "packet \<Rightarrow> packet \<Rightarrow> bool" where
  "same_object p q \<longleftrightarrow> paddr q = paddr p \<and> ReleaseFn q = ReleaseFn p \<and> Kind q = Kind p"

locale stage =
  fixes st :: stage_fun
  assumes st_append: "st (ps @ qs) = st ps @ st qs"
    and st_single: "st [p] = [] \<or> (\<exists>q. st [p] = [q] \<and> same_object p q)"
begin

lemma st_Nil: "st [] = []"
  using st_append [of "[]" "[]"] by simp

lemma st_Cons: "st (p # ps) = st [p] @ st ps"
  using st_append [of "[p]" ps] by simp

lemma st_length: "length (st ps) \<le> length ps"
proof (induction ps)
  case (Cons p ps)
  then show ?case using st_single [of p] by (auto simp: st_Cons [of p ps])
qed (simp add: st_Nil)

lemma st_objects: "q \<in> set (st ps) \<Longrightarrow> \<exists>p \<in> set ps. same_object p q"
proof (induction ps)
  case (Cons p ps)
  then show ?case using st_single [of p] by (auto simp: st_Cons [of p ps])
qed (simp add: st_Nil)

lemma st_leases: "set (leases (st ps)) \<subseteq> set (leases ps)"
proof (induction ps)
  case (Cons p ps)
  from st_single [of p] show ?case
    using Cons by (auto simp: st_Cons [of p ps] same_object_def split: option.splits)
qed (simp add: st_Nil)

end

text \<open>A stage made by \<open>mapStage\<close> keeps the contract when its function keeps the object.\<close>

definition keeps_object :: "one_fun \<Rightarrow> bool" where
  "keeps_object one \<longleftrightarrow> (\<forall>p. fst (one p) \<longrightarrow> same_object p (snd (one p)))"

lemma stage_mapStage: "keeps_object one \<Longrightarrow> stage (mapStage one)"
  by unfold_locales (auto simp: mapStage_eq keep_passing_def keeps_object_def)

interpretation dropping: stage drop_all
  by unfold_locales auto

interpretation match_offset: stage "MatchOffsetBytes off want" for off want
  unfolding MatchOffsetBytes_def Let_def
  by (auto intro!: stage_mapStage dropping.stage_axioms simp: keeps_object_def same_object_def)

interpretation replace_offset: stage "ReplaceOffsetBytes off wth" for off wth
  unfolding ReplaceOffsetBytes_def Let_def
  by (auto intro!: stage_mapStage dropping.stage_axioms simp: keeps_object_def same_object_def)

interpretation route_offset: stage "RouteSenderByOffsetBytes off keyLen routes dflt" for off keyLen routes dflt
  unfolding RouteSenderByOffsetBytes_def Let_def
  by (auto intro!: stage_mapStage dropping.stage_axioms simp: keeps_object_def same_object_def split: option.splits)

interpretation record_key: stage "SetKafkaRecordKeyFromOffsetBytes off len enc" for off len enc
  unfolding SetKafkaRecordKeyFromOffsetBytes_def Let_def
  by (auto intro!: stage_mapStage dropping.stage_axioms simp: keeps_object_def same_object_def split: if_splits)

interpretation set_path: stage "SetTargetFilePath v" for v
  unfolding SetTargetFilePath_def
  by (auto intro!: stage_mapStage simp: keeps_object_def same_object_def)

interpretation strip_prefix: stage "RewriteTargetPathStripPrefix v" for v
  unfolding RewriteTargetPathStripPrefix_def Let_def
  by (auto intro!: stage_mapStage simp: keeps_object_def same_object_def)

interpretation add_prefix: stage "RewriteTargetPathAddPrefix v" for v
  unfolding RewriteTargetPathAddPrefix_def Let_def
  by (auto intro!: stage_mapStage simp: keeps_object_def same_object_def)

interpretation name_replace: stage "RewriteTargetFilenameReplace old new" for old new
  unfolding RewriteTargetFilenameReplace_def
  by (auto intro!: stage_mapStage simp: keeps_object_def same_object_def set_target_name_def Let_def)

interpretation path_regex: stage "RewriteTargetPathRegex re rep" for re rep
  unfolding RewriteTargetPathRegex_def
  by (auto intro!: stage_mapStage simp: keeps_object_def same_object_def)

interpretation name_regex: stage "RewriteTargetFilenameRegex re rep" for re rep
  unfolding RewriteTargetFilenameRegex_def
  by (auto intro!: stage_mapStage simp: keeps_object_def same_object_def set_target_name_def Let_def)

lemmas compiled_stages =
  match_offset.stage_axioms replace_offset.stage_axioms route_offset.stage_axioms
  record_key.stage_axioms set_path.stage_axioms strip_prefix.stage_axioms add_prefix.stage_axioms
  name_replace.stage_axioms path_regex.stage_axioms name_regex.stage_axioms

section \<open>compileStage\<close>

text \<open>
  The loop over the sorted case keys of \<open>route_offset_bytes_sender\<close>: every key decodes, all keys
  have the same non-zero length, every sender has a name.
\<close>

fun compile_routes :: "string gomap \<Rightarrow> string list \<Rightarrow> int \<Rightarrow> string gomap \<Rightarrow> (int \<times> string gomap) result" where
  "compile_routes cases [] keyLen routes = Inr (keyLen, routes)"
| "compile_routes cases (hk # keys) keyLen routes =
     (case hex_decode hk of
        Inl err \<Rightarrow> Inl (Errorf ''route case %s invalid hex: %w'' [AStr hk, AErr err])
      | Inr v \<Rightarrow>
        if v = [] then Inl (Errorf ''route case %s empty hex'' [AStr hk])
        else if 0 \<le> keyLen \<and> int (length v) \<noteq> keyLen then
          Inl (Errorf ''route case %s length mismatch, want %d got %d'' [AStr hk, AInt keyLen, AInt (int (length v))])
        else let keyLen' = (if keyLen < 0 then int (length v) else keyLen);
                 sn = (case mget cases hk of None \<Rightarrow> [] | Some s \<Rightarrow> s) in
          if sn = [] then Inl (Errorf ''route case %s sender empty'' [AStr hk])
          else compile_routes cases keys keyLen' (mset_at (str_of_bytes v) sn routes))"

definition compileStage :: "(string \<Rightarrow> regex result) \<Rightarrow> stage_config \<Rightarrow> stage_fun result" where
  "compileStage rx sc =
     (if st_Type sc = ''match_offset_bytes'' then
        (case hex_decode (st_Hex sc) of Inl err \<Rightarrow> Inl err | Inr b \<Rightarrow> Inr (MatchOffsetBytes (st_Offset sc) b))
      else if st_Type sc = ''replace_offset_bytes'' then
        (case hex_decode (st_Hex sc) of Inl err \<Rightarrow> Inl err | Inr b \<Rightarrow> Inr (ReplaceOffsetBytes (st_Offset sc) b))
      else if st_Type sc = ''route_offset_bytes_sender'' then
        (let cases = elems (st_Cases sc) in
         if cases = [] then Inl (Errorf ''route_offset_bytes_sender requires non-empty cases'' [])
         else
           (case compile_routes cases (sort (mkeys cases)) (- 1) [] of
              Inl err \<Rightarrow> Inl err
            | Inr (keyLen, routes) \<Rightarrow>
                Inr (RouteSenderByOffsetBytes (st_Offset sc) keyLen routes (st_DefaultSender sc))))
      else if st_Type sc = ''set_kafka_record_key_from_offset_bytes'' then
        (let encoding = trim_space (st_Encoding sc) in
         if encoding = ''text'' \<or> encoding = ''hex'' then
           Inr (SetKafkaRecordKeyFromOffsetBytes (st_Offset sc) (st_Length sc) encoding)
         else Inl (Errorf ''set_kafka_record_key_from_offset_bytes encoding must be text or hex'' []))
      else if st_Type sc = ''set_target_file_path'' then
        (if st_Value sc = [] then Inl (Errorf ''set_target_file_path requires value'' [])
         else Inr (SetTargetFilePath (st_Value sc)))
      else if st_Type sc = ''rewrite_target_path_strip_prefix'' then
        (if st_Prefix sc = [] then Inl (Errorf ''rewrite_target_path_strip_prefix requires prefix'' [])
         else Inr (RewriteTargetPathStripPrefix (st_Prefix sc)))
      else if st_Type sc = ''rewrite_target_path_add_prefix'' then
        (if st_Prefix sc = [] then Inl (Errorf ''rewrite_target_path_add_prefix requires prefix'' [])
         else Inr (RewriteTargetPathAddPrefix (st_Prefix sc)))
      else if st_Type sc = ''rewrite_target_filename_replace'' then
        (if st_Old sc = [] then Inl (Errorf ''rewrite_target_filename_replace requires old'' [])
         else Inr (RewriteTargetFilenameReplace (st_Old sc) (st_New sc)))
      else if st_Type sc = ''rewrite_target_path_regex'' then
        (case rx (st_Pattern sc) of
           Inl err \<Rightarrow> Inl (Errorf ''rewrite_target_path_regex invalid pattern: %w'' [AErr err])
         | Inr re \<Rightarrow> Inr (RewriteTargetPathRegex re (st_Replacement sc)))
      else if st_Type sc = ''rewrite_target_filename_regex'' then
        (case rx (st_Pattern sc) of
           Inl err \<Rightarrow> Inl (Errorf ''rewrite_target_filename_regex invalid pattern: %w'' [AErr err])
         | Inr re \<Rightarrow> Inr (RewriteTargetFilenameRegex re (st_Replacement sc)))
      else Inl (Errorf ''unknown stage type: %s'' [AStr (st_Type sc)]))"

lemma compileStage_stage: "compileStage rx sc = Inr st \<Longrightarrow> stage st"
  unfolding compileStage_def Let_def
  by (auto split: if_split_asm sum.split_asm prod.split_asm intro: compiled_stages)

section \<open>CompilePipelines\<close>

fun compile_stages :: "(string \<Rightarrow> regex result) \<Rightarrow> string \<Rightarrow> stage_config list \<Rightarrow> (stage_fun list) result" where
  "compile_stages rx name [] = Inr []"
| "compile_stages rx name (sc # scs) =
     (case compileStage rx sc of
        Inl err \<Rightarrow> Inl (Errorf ''pipeline %s stage %s error: %w'' [AStr name, AStr (st_Type sc), AErr err])
      | Inr st \<Rightarrow>
        (case compile_stages rx name scs of Inl err \<Rightarrow> Inl err | Inr sts \<Rightarrow> Inr (st # sts)))"

fun CompilePipelines :: "(string \<Rightarrow> regex result) \<Rightarrow> (stage_config slice) gomap \<Rightarrow> (pipeline gomap) result" where
  "CompilePipelines rx [] = Inr []"
| "CompilePipelines rx ((name, stagesCfg) # cfg) =
     (case compile_stages rx name (elems stagesCfg) of
        Inl err \<Rightarrow> Inl err
      | Inr sts \<Rightarrow>
        (case CompilePipelines rx cfg of
           Inl err \<Rightarrow> Inl err
         | Inr out \<Rightarrow> Inr ((name, \<lparr>pl_Name = name, pl_Stages = sts\<rparr>) # out)))"

lemma compile_stages_stage: "compile_stages rx name scs = Inr sts \<Longrightarrow> st \<in> set sts \<Longrightarrow> stage st"
  by (induction scs arbitrary: sts) (auto split: sum.split_asm dest: compileStage_stage)

lemma compile_stages_map:
  "compile_stages rx name scs = Inr sts \<longleftrightarrow> map (compileStage rx) scs = map Inr sts"
proof (induction scs arbitrary: sts)
  case Nil
  then show ?case by auto
next
  case (Cons sc scs)
  show ?case
  proof (cases "compileStage rx sc")
    case (Inl e)
    then show ?thesis by (cases sts) simp_all
  next
    case (Inr st)
    show ?thesis
    proof (cases sts)
      case Nil
      then show ?thesis using Inr by (simp split: sum.split)
    next
      case c: (Cons st' sts')
      from Cons.IH [of sts'] show ?thesis using Inr c by (simp split: sum.split) fastforce
    qed
  qed
qed

section \<open>Pipelines of contract-keeping stages\<close>

lemma process_stages_single:
  assumes "\<forall>st \<in> set sts. stage st"
  shows "process_stages sts [p] = [] \<or> (\<exists>q. process_stages sts [p] = [q] \<and> same_object p q)"
  using assms
proof (induction sts arbitrary: p)
  case Nil
  then show ?case by (simp add: same_object_def)
next
  case (Cons st sts)
  then have st: "stage st" by simp
  from stage.st_single [OF st, of p] show ?case
  proof
    assume "\<exists>q. st [p] = [q] \<and> same_object p q"
    then obtain q where q: "st [p] = [q]" "same_object p q" by blast
    with Cons.IH [of q] Cons.prems show ?thesis
      by (auto simp: Let_def same_object_def)
  qed simp
qed

lemma Process_single:
  assumes "\<forall>st \<in> set (pl_Stages pl). stage st"
  shows "Process pl p = [] \<or> (\<exists>q. Process pl p = [q] \<and> same_object p q)"
  unfolding Process_def by (rule process_stages_single [OF assms])

end
