(* ===== verification/Task.thy ===== *)
theory Task
  imports Compiler
begin

text \<open>
  \<open>src/src/task/task.go\<close>, the sequential part: the task with its configuration and run-time fields,
  \<open>Start\<close> and what it sets up, \<open>processAndSend\<close> and \<open>runPacket\<close>, the hand-over of the traffic counter,
  \<open>runtimeStats\<close>. The concurrent life of a task is in \<open>TaskRun\<close>.

  A sender is a reference: the identity of the instance and its \<open>Name()\<close>. What a task does to its
  senders is the list of \<open>Send\<close> calls it makes; the error of a \<open>Send\<close> is only logged, so it is no
  input of the task. A traffic counter is its identity with the packets and bytes it has seen.
\<close>

section \<open>Data\<close>

definition ExecutionModelPool :: string where "ExecutionModelPool = ''pool''"
definition ExecutionModelFastPath :: string where "ExecutionModelFastPath = ''fastpath''"
definition ExecutionModelChannel :: string where "ExecutionModelChannel = ''channel''"
definition defaultPoolSize :: int where "defaultPoolSize = 4096"
definition defaultChannelQueueSize :: int where "defaultChannelQueueSize = 8192"

lemmas execution_models = ExecutionModelPool_def ExecutionModelFastPath_def ExecutionModelChannel_def

record sender_ref =
  sr_id :: nat
  sr_name :: string

text \<open>
  \<open>tk_pool\<close> is whether the goroutine pool exists; \<open>tk_ch\<close> is the capacity of the task's channel, when
  there is one (its contents belong to the run); \<open>tk_inflight\<close> is the wait group and
  \<open>tk_inflightCount\<close> its atomic mirror.
\<close>

record task =
  tk_Name :: string
  tk_Pipelines :: "pipeline list"
  tk_Senders :: "sender_ref list"
  tk_PoolSize :: int
  tk_ChannelQueueSize :: int
  tk_ExecutionModel :: string
  tk_LogPayloadSend :: bool
  tk_PayloadLogMax :: int
  tk_pool :: bool
  tk_ch :: "int option"
  tk_sendStats :: "nat option"
  tk_sendersByName :: "sender_ref gomap"
  tk_accepting :: bool
  tk_inflight :: nat
  tk_inflightCount :: int
  tk_routeSenderMiss :: "64 word"

text \<open>What a task changes outside itself: the buffer pool, the calls of its senders, its counter.\<close>

record outside =
  o_pool :: pool
  o_sent :: "(sender_ref \<times> envelope) list"
  o_packets :: nat
  o_bytes :: nat

section \<open>Start\<close>

definition resolveExecutionModel :: "task \<Rightarrow> string" where
  "resolveExecutionModel t =
     (if tk_ExecutionModel t = [] then ExecutionModelPool
      else if tk_ExecutionModel t \<in> set [ExecutionModelFastPath, ExecutionModelPool, ExecutionModelChannel]
        then tk_ExecutionModel t
      else ExecutionModelPool)"

text \<open>A later sender with the same name replaces an earlier one in the index.\<close>

fun sender_index :: "sender_ref list \<Rightarrow> sender_ref gomap \<Rightarrow> sender_ref gomap" where
  "sender_index [] idx = idx"
| "sender_index (s # ss) idx = sender_index ss (mset_at (sr_name s) s idx)"

definition rebuildSenderIndex :: "task \<Rightarrow> task" where
  "rebuildSenderIndex t =
     (if tk_Senders t = [] then t\<lparr>tk_sendersByName := []\<rparr>
      else t\<lparr>tk_sendersByName := sender_index (tk_Senders t) []\<rparr>)"

text \<open>
  \<open>newpool\<close> is \<open>ants.NewPool\<close>: the error it gives for a size, if any. \<open>counter\<close> is what
  \<open>AcquireTrafficCounter\<close> returns and \<open>info\<close> whether the info level is enabled.
\<close>

definition start_resources :: "(int \<Rightarrow> go_error option) \<Rightarrow> task \<Rightarrow> task result" where
  "start_resources newpool t =
     (if tk_ExecutionModel t = ExecutionModelPool then
        (case newpool (tk_PoolSize t) of
           Some err \<Rightarrow> Inl err
         | None \<Rightarrow> Inr (t\<lparr>tk_pool := True\<rparr>))
      else if tk_ExecutionModel t = ExecutionModelChannel then Inr (t\<lparr>tk_ch := Some (tk_ChannelQueueSize t)\<rparr>)
      else Inr t)"

definition Start :: "(int \<Rightarrow> go_error option) \<Rightarrow> bool \<Rightarrow> nat \<Rightarrow> task \<Rightarrow> task result" where
  "Start newpool info counter t0 =
     (let t1 = (if tk_PoolSize t0 \<le> 0 then t0\<lparr>tk_PoolSize := defaultPoolSize\<rparr> else t0);
          t2 = (if tk_ChannelQueueSize t1 \<le> 0 then t1\<lparr>tk_ChannelQueueSize := defaultChannelQueueSize\<rparr> else t1);
          t3 = t2\<lparr>tk_ExecutionModel := resolveExecutionModel t2\<rparr>
      in case start_resources newpool t3 of
           Inl err \<Rightarrow> Inl err
         | Inr t4 \<Rightarrow>
             let t5 = (rebuildSenderIndex t4)\<lparr>tk_accepting := True\<rparr> in
             Inr (if tk_sendStats t5 = None \<and> info then t5\<lparr>tk_sendStats := Some counter\<rparr> else t5))"

definition ReuseTrafficCounter :: "nat option \<Rightarrow> task \<Rightarrow> task" where
  "ReuseTrafficCounter counter t = (if counter = None then t else t\<lparr>tk_sendStats := counter\<rparr>)"

definition DetachTrafficCounter :: "task \<Rightarrow> nat option \<times> task" where
  "DetachTrafficCounter t = (tk_sendStats t, t\<lparr>tk_sendStats := None\<rparr>)"

section \<open>Sending\<close>

text \<open>The payload summary of the logs: a number of bytes in hex, and a mark (in UTF-8) when cut.\<close>

definition truncated_mark :: string where
  "truncated_mark = ''...('' @ [CHR 0xE5, CHR 0xB7, CHR 0xB2, CHR 0xE6, CHR 0x88, CHR 0xAA,
     CHR 0xE6, CHR 0x96, CHR 0xAD] @ '')''"

definition payloadHex :: "bytes \<Rightarrow> int \<Rightarrow> string" where
  "payloadHex b maxb =
     (if b = [] then []
      else let m = (if maxb \<le> 0 then 256 else maxb) in
        if m < int (length b) then hex_encode (take (nat m) b) @ truncated_mark
        else hex_encode b)"

definition sendToSender :: "task \<Rightarrow> packet \<Rightarrow> sender_ref \<Rightarrow> outside \<Rightarrow> outside" where
  "sendToSender t p s w =
     (let w1 = (if tk_sendStats t \<noteq> None then
                  w\<lparr>o_packets := o_packets w + 1, o_bytes := o_bytes w + length (Payload p)\<rparr> else w)
      in w1\<lparr>o_sent := o_sent w1 @ [(s, envelope.truncate p)]\<rparr>)"

fun broadcast :: "task \<Rightarrow> packet \<Rightarrow> sender_ref list \<Rightarrow> outside \<Rightarrow> outside" where
  "broadcast t p [] w = w"
| "broadcast t p (s # ss) w = broadcast t p ss (sendToSender t p s w)"

text \<open>
  The loop over the pipelines. \<open>None\<close>: no packet is left and \<open>processAndSend\<close> returns.
\<close>

fun run_pipelines :: "pipeline list \<Rightarrow> packet list \<Rightarrow> packet list option" where
  "run_pipelines [] packets = Some packets"
| "run_pipelines (pl # pls) packets =
     (let nxt = concat (map (Process pl) packets) in if nxt = [] then None else run_pipelines pls nxt)"

text \<open>One turn of the loop over the packets that came out.\<close>

definition send_packet :: "task \<Rightarrow> packet \<Rightarrow> outside \<Rightarrow> task \<times> outside" where
  "send_packet t q w =
     (if RouteSender (Meta q) \<noteq> [] then
        (case mget (tk_sendersByName t) (RouteSender (Meta q)) of
           Some s \<Rightarrow> (t, sendToSender t q s w)
         | None \<Rightarrow> (t\<lparr>tk_routeSenderMiss := tk_routeSenderMiss t + 1\<rparr>, w))
      else (t, broadcast t q (tk_Senders t) w))"

fun send_packets :: "packet list \<Rightarrow> task \<Rightarrow> outside \<Rightarrow> task \<times> outside" where
  "send_packets [] t w = (t, w)"
| "send_packets (q # qs) t w = (let (t', w') = send_packet t q w in send_packets qs t' w')"

fun release_all :: "packet list \<Rightarrow> pool \<Rightarrow> pool" where
  "release_all [] w = w"
| "release_all (p # ps) w = release_all ps (snd (Release p w))"

text \<open>\<open>releaseLater\<close>: the packets that came out and are other objects than the input, each once.\<close>

fun distinct_objects :: "packet list \<Rightarrow> nat list \<Rightarrow> packet list" where
  "distinct_objects [] seen = []"
| "distinct_objects (p # ps) seen =
     (if paddr p \<in> set seen then distinct_objects ps seen else p # distinct_objects ps (paddr p # seen))"

definition processAndSend :: "task \<Rightarrow> packet \<Rightarrow> outside \<Rightarrow> task \<times> outside" where
  "processAndSend t p w =
     (case run_pipelines (tk_Pipelines t) [p] of
        None \<Rightarrow> (t, w)
      | Some packets \<Rightarrow>
          let (t', w') = send_packets packets t w
          in (t', w'\<lparr>o_pool := release_all (distinct_objects packets [paddr p]) (o_pool w')\<rparr>))"

text \<open>\<open>runPacket\<close>: the deferred calls run after \<open>processAndSend\<close>, the last one first.\<close>

definition runPacket :: "task \<Rightarrow> packet \<Rightarrow> outside \<Rightarrow> task \<times> outside" where
  "runPacket t p w =
     (let (t1, w1) = processAndSend t p w;
          w2 = w1\<lparr>o_pool := snd (Release p (o_pool w1))\<rparr>
      in (t1\<lparr>tk_inflightCount := tk_inflightCount t1 - 1, tk_inflight := tk_inflight t1 - 1\<rparr>, w2))"

section \<open>runtimeStats\<close>

record task_stats =
  ts_ExecutionModel :: string
  ts_PoolSize :: int
  ts_ChannelQueueSize :: int
  ts_ChannelQueueUsed :: int
  ts_ChannelQueueAvailable :: int
  ts_Inflight :: int
  ts_RouteSenderMiss :: "64 word"

text \<open>\<open>used\<close> is the number of requests in the channel; the three numbers of the goroutine pool are
  those of the library and are left out.\<close>

definition runtimeStats :: "task \<Rightarrow> int \<Rightarrow> task_stats" where
  "runtimeStats t used =
     (let s = \<lparr>ts_ExecutionModel = tk_ExecutionModel t, ts_PoolSize = 0, ts_ChannelQueueSize = 0,
               ts_ChannelQueueUsed = 0, ts_ChannelQueueAvailable = 0,
               ts_Inflight = tk_inflightCount t, ts_RouteSenderMiss = tk_routeSenderMiss t\<rparr>;
          s1 = (if tk_pool t then s\<lparr>ts_PoolSize := tk_PoolSize t\<rparr> else s)
      in case tk_ch t of
           None \<Rightarrow> s1
         | Some c \<Rightarrow>
             if tk_ChannelQueueSize t > 0 then
               s1\<lparr>ts_ChannelQueueSize := c, ts_ChannelQueueUsed := used, ts_ChannelQueueAvailable := c - used\<rparr>
             else s1)"

section \<open>Lemmas\<close>

text \<open>The senders a packet goes to.\<close>

definition targets :: "task \<Rightarrow> packet \<Rightarrow> sender_ref list" where
  "targets t q =
     (if RouteSender (Meta q) \<noteq> [] then
        (case mget (tk_sendersByName t) (RouteSender (Meta q)) of Some s \<Rightarrow> [s] | None \<Rightarrow> [])
      else tk_Senders t)"

definition sends :: "task \<Rightarrow> packet \<Rightarrow> (sender_ref \<times> envelope) list" where
  "sends t q = map (\<lambda>s. (s, envelope.truncate q)) (targets t q)"

lemma sendToSender_frame [simp]:
  "o_pool (sendToSender t p s w) = o_pool w"
  "o_sent (sendToSender t p s w) = o_sent w @ [(s, envelope.truncate p)]"
  by (simp_all add: sendToSender_def Let_def)

lemma broadcast_frame [simp]:
  "o_pool (broadcast t p ss w) = o_pool w"
  "o_sent (broadcast t p ss w) = o_sent w @ map (\<lambda>s. (s, envelope.truncate p)) ss"
  by (induction ss arbitrary: w) simp_all

text \<open>Only the counter of missed routes of the task changes while it sends.\<close>

definition same_task :: "task \<Rightarrow> task \<Rightarrow> bool" where
  "same_task t t' \<longleftrightarrow> t' = t\<lparr>tk_routeSenderMiss := tk_routeSenderMiss t'\<rparr>"

lemma same_task_refl [simp]: "same_task t t"
  by (simp add: same_task_def)

lemma same_task_trans: "same_task t t' \<Longrightarrow> same_task t' t'' \<Longrightarrow> same_task t t''"
  unfolding same_task_def by (metis task.surjective task.update_convs(16))

lemma same_task_fields:
  assumes "same_task t t'"
  shows "tk_Senders t' = tk_Senders t" "tk_sendersByName t' = tk_sendersByName t"
    "tk_Pipelines t' = tk_Pipelines t" "tk_inflight t' = tk_inflight t" "tk_inflightCount t' = tk_inflightCount t"
    "tk_accepting t' = tk_accepting t" "tk_ch t' = tk_ch t" "tk_pool t' = tk_pool t" "tk_ExecutionModel t' = tk_ExecutionModel t"
  by (subst assms [unfolded same_task_def], simp)+

lemma send_packet_effect:
  assumes "send_packet t q w = (t', w')"
  shows "same_task t t'" "o_pool w' = o_pool w" "o_sent w' = o_sent w @ sends t q"
  using assms by (auto simp: send_packet_def sends_def targets_def same_task_def split: if_splits option.splits)

lemma same_task_sends: "same_task t t' \<Longrightarrow> sends t' q = sends t q"
  by (simp add: sends_def targets_def same_task_fields)

lemma send_packets_effect:
  assumes "send_packets qs t w = (t', w')"
  shows "same_task t t' \<and> o_pool w' = o_pool w \<and> o_sent w' = o_sent w @ concat (map (sends t) qs)"
  using assms
proof (induction qs arbitrary: t w)
  case (Cons q qs)
  obtain t1 w1 where s: "send_packet t q w = (t1, w1)" by fastforce
  note e = send_packet_effect [OF s]
  have ih: "same_task t1 t' \<and> o_pool w' = o_pool w1 \<and> o_sent w' = o_sent w1 @ concat (map (sends t1) qs)"
    using Cons s by simp
  have "map (sends t1) qs = map (sends t) qs" using same_task_sends [OF e(1)] by simp
  with ih e show ?case by (auto intro: same_task_trans)
qed simp

lemma release_all_returned: "returned (release_all ps w) = returned w @ leases ps"
  by (induction ps arbitrary: w) (simp_all add: Release_returned split: option.splits)

section \<open>Pipelines that keep the contract of a stage\<close>

definition good_pipelines :: "pipeline list \<Rightarrow> bool" where
  "good_pipelines pls \<longleftrightarrow> (\<forall>pl \<in> set pls. \<forall>st \<in> set (pl_Stages pl). stage st)"

lemma run_pipelines_single:
  assumes "good_pipelines pls"
  shows "run_pipelines pls [p] = None \<or> (\<exists>q. run_pipelines pls [p] = Some [q] \<and> same_object p q)"
  using assms
proof (induction pls arbitrary: p)
  case Nil
  then show ?case by (simp add: same_object_def)
next
  case (Cons pl pls)
  then have g: "\<forall>st \<in> set (pl_Stages pl). stage st" "good_pipelines pls" by (simp_all add: good_pipelines_def)
  from Process_single [OF g(1), of p] show ?case
  proof
    assume "\<exists>q. Process pl p = [q] \<and> same_object p q"
    then obtain q where q: "Process pl p = [q]" "same_object p q" by blast
    with Cons.IH [OF g(2), of q] show ?thesis by (auto simp: Let_def same_object_def)
  qed simp
qed

text \<open>What the packets of a task become: the at most one packet that leaves its pipelines.\<close>

definition pipeline_output :: "task \<Rightarrow> packet \<Rightarrow> packet option" where
  "pipeline_output t p =
     (case run_pipelines (tk_Pipelines t) [p] of Some (q # _) \<Rightarrow> Some q | _ \<Rightarrow> None)"

lemma processAndSend_effect:
  assumes "good_pipelines (tk_Pipelines t)" "processAndSend t p w = (t', w')"
  shows "same_task t t'" "o_pool w' = o_pool w"
    "o_sent w' = o_sent w @ (case pipeline_output t p of None \<Rightarrow> [] | Some q \<Rightarrow> sends t q)"
proof -
  have "same_task t t' \<and> o_pool w' = o_pool w \<and>
    o_sent w' = o_sent w @ (case pipeline_output t p of None \<Rightarrow> [] | Some q \<Rightarrow> sends t q)"
    using run_pipelines_single [OF assms(1), of p]
  proof
    assume "run_pipelines (tk_Pipelines t) [p] = None"
    then show ?thesis using assms(2) by (simp add: processAndSend_def pipeline_output_def)
  next
    assume "\<exists>q. run_pipelines (tk_Pipelines t) [p] = Some [q] \<and> same_object p q"
    then obtain q where q: "run_pipelines (tk_Pipelines t) [p] = Some [q]" "paddr q = paddr p"
      by (auto simp: same_object_def)
    obtain t1 w1 where s: "send_packets [q] t w = (t1, w1)" by fastforce
    have "t' = t1 \<and> w' = w1" using assms(2) q s by (simp add: processAndSend_def)
    then show ?thesis using send_packets_effect [OF s] q(1) by (simp add: pipeline_output_def)
  qed
  then show "same_task t t'" "o_pool w' = o_pool w"
    "o_sent w' = o_sent w @ (case pipeline_output t p of None \<Rightarrow> [] | Some q \<Rightarrow> sends t q)" by blast+
qed

lemma runPacket_effect:
  assumes "good_pipelines (tk_Pipelines t)" "runPacket t p w = (t', w')"
  shows "same_task (t\<lparr>tk_inflightCount := tk_inflightCount t - 1, tk_inflight := tk_inflight t - 1\<rparr>) t'"
    "returned (o_pool w') = returned (o_pool w) @ leases [p]"
    "o_sent w' = o_sent w @ (case pipeline_output t p of None \<Rightarrow> [] | Some q \<Rightarrow> sends t q)"
proof -
  obtain t1 w1 where s: "processAndSend t p w = (t1, w1)" by fastforce
  note e = processAndSend_effect [OF assms(1) s]
  have r: "t' = t1\<lparr>tk_inflightCount := tk_inflightCount t1 - 1, tk_inflight := tk_inflight t1 - 1\<rparr>"
    "w' = w1\<lparr>o_pool := snd (Release p (o_pool w1))\<rparr>"
    using assms(2) s by (auto simp: runPacket_def)
  show "same_task (t\<lparr>tk_inflightCount := tk_inflightCount t - 1, tk_inflight := tk_inflight t - 1\<rparr>) t'"
  proof -
    obtain m where m: "t1 = t\<lparr>tk_routeSenderMiss := m\<rparr>" using e(1) unfolding same_task_def by blast
    show ?thesis unfolding r(1) m same_task_def by simp
  qed
  show "returned (o_pool w') = returned (o_pool w) @ leases [p]"
    using e(2) r(2) by (simp add: Release_returned)
  show "o_sent w' = o_sent w @ (case pipeline_output t p of None \<Rightarrow> [] | Some q \<Rightarrow> sends t q)"
    using e(3) r(2) by simp
qed

section \<open>The index of the senders\<close>

lemma sender_index_get:
  "distinct (map sr_name ss) \<Longrightarrow>
   mget (sender_index ss idx) n = (case find (\<lambda>s. sr_name s = n) ss of Some s \<Rightarrow> Some s | None \<Rightarrow> mget idx n)"
proof (induction ss arbitrary: idx)
  case (Cons s ss)
  have "find (\<lambda>x. sr_name x = n) ss = None" if "sr_name s = n"
    using Cons.prems that by (force simp: find_None_iff image_iff)
  then show ?case using Cons by (auto split: option.splits)
qed simp

end
