(* ===== verification/TrafficStats.thy ===== *)
theory TrafficStats
  imports Runs Task
begin

text \<open>
  The traffic statistics (\<open>src/src/logx/traffic_agg.go\<close>): counters shared by handles, kept in a hub under a key; the
  registries of the functions that tell the state of tasks and senders; and the goroutine that makes a summary in every
  interval. What the code does under a lock or with one atomic operation is one step. The rates per second (floating point),
  the uptime and the printing of a summary are left out. Maps are iterated in the order of their lists.
\<close>

section \<open>Keys and dimensions\<close>

text \<open>All callers give strings; a last one without a partner is ignored.\<close>

fun traffic_pairs :: "string list \<Rightarrow> (string \<times> string) list" where
  "traffic_pairs (k # v # rest) = (k, v) # traffic_pairs rest"
| "traffic_pairs kvs = []"

definition buildTrafficKey :: "string \<Rightarrow> string list \<Rightarrow> string" where
  "buildTrafficKey msg kvs = msg @ concat (map (\<lambda>(k, v). ''|'' @ k @ ''='' @ v) (traffic_pairs kvs))"

definition traffic_meta_step :: "string \<times> string \<Rightarrow> string \<times> string \<times> string \<Rightarrow> string \<times> string \<times> string" where
  "traffic_meta_step kv m =
     (case (kv, m) of ((k, v), (role, name, key)) \<Rightarrow>
        if k = ''role'' then (v, name, key)
        else if k \<in> set [''receiver'', ''task'', ''sender''] then (role, v, key)
        else if k \<in> set [''receiver_key'', ''sender_key'', ''direction''] then (role, name, v)
        else (role, name, key))"

definition parseTrafficMeta :: "string list \<Rightarrow> string \<times> string \<times> string" where
  "parseTrafficMeta kvs = fold traffic_meta_step (traffic_pairs kvs) ([], [], [])"

text \<open>The calls of the program: \<open>Start\<close> of a task, and of the receivers.\<close>

definition task_fields :: "string \<Rightarrow> string list" where
  "task_fields name = [''role'', ''task'', ''task'', name, ''direction'', ''send'']"

definition receiver_fields :: "string \<Rightarrow> string \<Rightarrow> string \<Rightarrow> string list" where
  "receiver_fields name key proto = [''role'', ''receiver'', ''receiver'', name, ''receiver_key'', key, ''proto'', proto]"

section \<open>State\<close>

text \<open>\<open>cn_sizes\<close> (the sizes given to \<open>AddBytes\<close> that were counted in \<open>seen\<close>) and \<open>cn_reports\<close> (the interval packets that
  went into summaries) record what happened.\<close>

record traffic_counter =
  cn_msg :: string
  cn_fields :: "string list"
  cn_role :: string
  cn_name :: string
  cn_key :: string
  cn_sample :: "64 word"
  cn_packets :: "64 word"
  cn_bytes :: "64 word"
  cn_lastPkt :: "64 word"
  cn_lastB :: "64 word"
  cn_refs :: int
  cn_seen :: "64 word"
  cn_sizes :: "int list"
  cn_reports :: "64 word list"

text \<open>A handle: \<open>hd_c\<close> is the place of its counter in the heap, \<open>hd_released\<close> whether its \<open>Close\<close> has given the reference back.\<close>

record traffic_handle =
  hd_key :: string
  hd_c :: nat
  hd_closed :: bool
  hd_released :: bool

text \<open>A call of \<open>AddBytes\<close> at work: after the test of \<open>closed\<close>, after its sample was chosen, after it added the packets.\<close>

datatype add_phase = AddChecked | AddSampled | AddPackets

record adding =
  ad_c :: nat
  ad_n :: int
  ad_phase :: add_phase

text \<open>What the functions of the registries tell; for a task also the numbers of its goroutine pool.\<close>

record task_runtime_stats = task_stats +
  ts_WorkerPoolRunning :: int
  ts_WorkerPoolFree :: int
  ts_WorkerPoolWaiting :: int

record sender_stats =
  ss_QueueSize :: int
  ss_QueueUsed :: int
  ss_QueueAvailable :: int
  ss_Dropped :: "64 word"
  ss_SendErrors :: "64 word"
  ss_SendSuccess :: "64 word"

record task_aggregate =
  ta_Task :: string
  ta_TotalPackets :: "64 word"
  ta_TotalBytes :: "64 word"
  ta_IntervalPackets :: "64 word"
  ta_IntervalBytes :: "64 word"
  ta_ExecutionModel :: string
  ta_Inflight :: int
  ta_RouteSenderMiss :: "64 word"
  ta_PoolSize :: int
  ta_WorkerPool :: "(int \<times> int \<times> int) option"
  ta_Channel :: "(int \<times> int \<times> int) option"

record sender_aggregate =
  sa_Sender :: string
  sa_Stats :: sender_stats

record traffic_summary =
  su_Tasks :: "task_aggregate list"
  su_Senders :: "sender_aggregate list"

text \<open>
  The goroutine: not started, new, or at an interval and in a flush: waiting for the tick; at the counters of its snapshot
  (with the summary and the tasks seen so far); between the two loads of a counter; at the tasks; at the senders.
\<close>

datatype flush =
    FlushIdle
  | FlushCounters traffic_summary "string list" "nat list"
  | FlushCounter traffic_summary "string list" nat "64 word" "nat list"
  | FlushTasks traffic_summary "string list"
  | FlushSenders traffic_summary

datatype loop_state = LoopNone | LoopNew | LoopRuns int flush

text \<open>A registered function is a number. \<open>hb_flushed\<close> are the summaries that were logged.\<close>

record traffic_hub =
  hb_counters :: "nat gomap"
  hb_heap :: "traffic_counter list"
  hb_handles :: "traffic_handle list"
  hb_adds :: "adding list"
  hb_sampleEvery :: int
  hb_intervalNanos :: int
  hb_loop :: loop_state
  hb_taskFns :: "nat gomap"
  hb_senderFns :: "(nat \<times> nat) gomap"
  hb_senderSeq :: nat
  hb_flushed :: "traffic_summary list"

definition globalTrafficHub :: traffic_hub where
  "globalTrafficHub = \<lparr>hb_counters = [], hb_heap = [], hb_handles = [], hb_adds = [], hb_sampleEvery = 1, hb_intervalNanos = 1000000000,
     hb_loop = LoopNone, hb_taskFns = [], hb_senderFns = [], hb_senderSeq = 0, hb_flushed = []\<rparr>"

section \<open>Settings\<close>

definition SetTrafficStatsInterval :: "int \<Rightarrow> traffic_hub \<Rightarrow> traffic_hub" where
  "SetTrafficStatsInterval d hb = hb\<lparr>hb_intervalNanos := (if d \<le> 0 then 1000000000 else d)\<rparr>"

definition SetTrafficStatsSampleEvery :: "int \<Rightarrow> traffic_hub \<Rightarrow> traffic_hub" where
  "SetTrafficStatsSampleEvery n hb = hb\<lparr>hb_sampleEvery := (if n \<le> 0 then 1 else n)\<rparr>"

definition trafficStatsSampleN :: "traffic_hub \<Rightarrow> 64 word" where
  "trafficStatsSampleN hb = (if hb_sampleEvery hb \<le> 0 then 1 else word_of_int (hb_sampleEvery hb))"

definition trafficStatsInterval :: "traffic_hub \<Rightarrow> int" where
  "trafficStatsInterval hb = (if hb_intervalNanos hb \<le> 0 then 1000000000 else hb_intervalNanos hb)"

section \<open>Counters\<close>

definition on_counter :: "nat \<Rightarrow> (traffic_counter \<Rightarrow> traffic_counter) \<Rightarrow> traffic_hub \<Rightarrow> traffic_hub" where
  "on_counter c f hb = hb\<lparr>hb_heap := (hb_heap hb)[c := f (hb_heap hb ! c)]\<rparr>"

definition new_counter :: "64 word \<Rightarrow> string \<Rightarrow> string list \<Rightarrow> traffic_counter" where
  "new_counter sample msg kvs =
     (let (role, name, key) = parseTrafficMeta kvs in
      \<lparr>cn_msg = msg, cn_fields = kvs, cn_role = role, cn_name = name, cn_key = key, cn_sample = sample, cn_packets = 0, cn_bytes = 0,
       cn_lastPkt = 0, cn_lastB = 0, cn_refs = 1, cn_seen = 0, cn_sizes = [], cn_reports = []\<rparr>)"

definition new_handle :: "string \<Rightarrow> nat \<Rightarrow> traffic_handle" where
  "new_handle key c = \<lparr>hd_key = key, hd_c = c, hd_closed = False, hd_released = False\<rparr>"

text \<open>The new handle is the last one; the first call starts the goroutine.\<close>

definition acquire :: "string \<Rightarrow> string list \<Rightarrow> traffic_hub \<Rightarrow> traffic_hub" where
  "acquire msg kvs hb0 =
     (let hb = hb0\<lparr>hb_loop := (if hb_loop hb0 = LoopNone then LoopNew else hb_loop hb0)\<rparr>;
          key = buildTrafficKey msg kvs
      in case mget (hb_counters hb) key of
           Some c \<Rightarrow> (on_counter c (\<lambda>x. x\<lparr>cn_refs := cn_refs x + 1\<rparr>) hb)\<lparr>hb_handles := hb_handles hb @ [new_handle key c]\<rparr>
         | None \<Rightarrow>
             let c = length (hb_heap hb) in
             hb\<lparr>hb_heap := hb_heap hb @ [new_counter (trafficStatsSampleN hb) msg kvs],
               hb_counters := mset_at key c (hb_counters hb), hb_handles := hb_handles hb @ [new_handle key c]\<rparr>)"

definition release :: "string \<Rightarrow> traffic_hub \<Rightarrow> traffic_hub" where
  "release key hb =
     (case mget (hb_counters hb) key of
        None \<Rightarrow> hb
      | Some c \<Rightarrow>
          let hb1 = on_counter c (\<lambda>x. x\<lparr>cn_refs := cn_refs x - 1\<rparr>) hb in
          if cn_refs (hb_heap hb1 ! c) \<le> 0 then hb1\<lparr>hb_counters := mdel key (hb_counters hb1)\<rparr> else hb1)"

text \<open>\<open>Close\<close> sets the mark of the handle; the call that set it goes on to \<open>release\<close>.\<close>

definition close_handle :: "nat \<Rightarrow> traffic_hub \<Rightarrow> traffic_hub" where
  "close_handle i hb =
     (let h = hb_handles hb ! i in
      if hd_key h = [] \<or> hd_closed h then hb else hb\<lparr>hb_handles := (hb_handles hb)[i := h\<lparr>hd_closed := True\<rparr>]\<rparr>)"

definition release_handle :: "nat \<Rightarrow> traffic_hub \<Rightarrow> traffic_hub" where
  "release_handle i hb =
     (let h = hb_handles hb ! i in release (hd_key h) (hb\<lparr>hb_handles := (hb_handles hb)[i := h\<lparr>hd_released := True\<rparr>]\<rparr>))"

definition add_begin :: "nat \<Rightarrow> int \<Rightarrow> traffic_hub \<Rightarrow> traffic_hub" where
  "add_begin i n hb =
     (let h = hb_handles hb ! i in
      if n \<le> 0 \<or> hd_closed h then hb
      else hb\<lparr>hb_adds := hb_adds hb @ [\<lparr>ad_c = hd_c h, ad_n = n, ad_phase = AddChecked\<rparr>]\<rparr>)"

text \<open>The next atomic operation of a call of \<open>AddBytes\<close>, and where the call is then, if it has not returned.\<close>

definition add_step :: "adding \<Rightarrow> traffic_counter \<Rightarrow> adding option \<times> traffic_counter" where
  "add_step a x =
     (case ad_phase a of
        AddChecked \<Rightarrow>
          (let seq = cn_seen x + 1; x1 = x\<lparr>cn_seen := seq, cn_sizes := cn_sizes x @ [ad_n a]\<rparr> in
           (if seq mod cn_sample x \<noteq> 0 then None else Some (a\<lparr>ad_phase := AddSampled\<rparr>), x1))
      | AddSampled \<Rightarrow> (Some (a\<lparr>ad_phase := AddPackets\<rparr>), x\<lparr>cn_packets := cn_packets x + cn_sample x\<rparr>)
      | AddPackets \<Rightarrow> (None, x\<lparr>cn_bytes := cn_bytes x + word_of_int (ad_n a) * cn_sample x\<rparr>))"

definition add_goes :: "nat \<Rightarrow> traffic_hub \<Rightarrow> traffic_hub" where
  "add_goes i hb =
     (let a = hb_adds hb ! i; (a', x) = add_step a (hb_heap hb ! ad_c a) in
      hb\<lparr>hb_heap := (hb_heap hb)[ad_c a := x],
        hb_adds := take i (hb_adds hb) @ (case a' of None \<Rightarrow> [] | Some b \<Rightarrow> [b]) @ drop (Suc i) (hb_adds hb)\<rparr>)"

section \<open>Registries\<close>

text \<open>\<open>fn\<close> may be nil.\<close>

definition RegisterTaskRuntimeStats :: "string \<Rightarrow> nat option \<Rightarrow> traffic_hub \<Rightarrow> traffic_hub" where
  "RegisterTaskRuntimeStats task fn hb =
     (case fn of None \<Rightarrow> hb | Some f \<Rightarrow> if task = [] then hb else hb\<lparr>hb_taskFns := mset_at task f (hb_taskFns hb)\<rparr>)"

definition UnregisterTaskRuntimeStats :: "string \<Rightarrow> traffic_hub \<Rightarrow> traffic_hub" where
  "UnregisterTaskRuntimeStats task hb = (if task = [] then hb else hb\<lparr>hb_taskFns := mdel task (hb_taskFns hb)\<rparr>)"

text \<open>What the function to unregister remembers: the name and the number, or nothing.\<close>

definition RegisterSenderRuntimeStats :: "string \<Rightarrow> nat option \<Rightarrow> traffic_hub \<Rightarrow> (string \<times> nat) option \<times> traffic_hub" where
  "RegisterSenderRuntimeStats sender fn hb =
     (case fn of
        None \<Rightarrow> (None, hb)
      | Some f \<Rightarrow>
          if sender = [] then (None, hb)
          else let rid = hb_senderSeq hb + 1 in
            (Some (sender, rid), hb\<lparr>hb_senderSeq := rid, hb_senderFns := mset_at sender (rid, f) (hb_senderFns hb)\<rparr>))"

definition unregister_sender :: "string \<times> nat \<Rightarrow> traffic_hub \<Rightarrow> traffic_hub" where
  "unregister_sender reg hb =
     (case mget (hb_senderFns hb) (fst reg) of
        Some (rid, f) \<Rightarrow> if rid = snd reg then hb\<lparr>hb_senderFns := mdel (fst reg) (hb_senderFns hb)\<rparr> else hb
      | None \<Rightarrow> hb)"

definition UnregisterSenderRuntimeStats :: "string \<Rightarrow> traffic_hub \<Rightarrow> traffic_hub" where
  "UnregisterSenderRuntimeStats sender hb = (if sender = [] then hb else hb\<lparr>hb_senderFns := mdel sender (hb_senderFns hb)\<rparr>)"

definition lookupTaskRuntimeStats :: "(nat \<Rightarrow> task_runtime_stats) \<Rightarrow> string \<Rightarrow> traffic_hub \<Rightarrow> task_runtime_stats option" where
  "lookupTaskRuntimeStats tf task hb = map_option tf (mget (hb_taskFns hb) task)"

definition listTaskRuntimeStats :: "(nat \<Rightarrow> task_runtime_stats) \<Rightarrow> traffic_hub \<Rightarrow> task_runtime_stats gomap" where
  "listTaskRuntimeStats tf hb = map (\<lambda>(task, f). (task, tf f)) (hb_taskFns hb)"

definition listSenderRuntimeStats :: "(nat \<Rightarrow> sender_stats) \<Rightarrow> traffic_hub \<Rightarrow> sender_stats gomap" where
  "listSenderRuntimeStats sf hb = map (\<lambda>(sender, (rid, f)). (sender, sf f)) (hb_senderFns hb)"

section \<open>Summaries\<close>

definition diffCounter :: "64 word \<Rightarrow> 64 word \<Rightarrow> 64 word" where
  "diffCounter cur prev = (if cur \<ge> prev then cur - prev else cur)"

definition applyRuntime :: "task_runtime_stats \<Rightarrow> task_aggregate \<Rightarrow> task_aggregate" where
  "applyRuntime r t =
     (let t1 = t\<lparr>ta_ExecutionModel := ts_ExecutionModel r, ta_Inflight := ts_Inflight r, ta_RouteSenderMiss := ts_RouteSenderMiss r\<rparr> in
      if ts_ExecutionModel r = ''pool'' then
        t1\<lparr>ta_PoolSize := ts_PoolSize r, ta_WorkerPool := Some (ts_WorkerPoolRunning r, ts_WorkerPoolFree r, ts_WorkerPoolWaiting r)\<rparr>
      else if ts_ExecutionModel r = ''channel'' then
        t1\<lparr>ta_Channel := Some (ts_ChannelQueueSize r, ts_ChannelQueueUsed r, ts_ChannelQueueAvailable r)\<rparr>
      else t1)"

definition new_aggregate :: "string \<Rightarrow> task_aggregate" where
  "new_aggregate name = \<lparr>ta_Task = name, ta_TotalPackets = 0, ta_TotalBytes = 0, ta_IntervalPackets = 0, ta_IntervalBytes = 0,
     ta_ExecutionModel = [], ta_Inflight = 0, ta_RouteSenderMiss = 0, ta_PoolSize = 0, ta_WorkerPool = None, ta_Channel = None\<rparr>"

text \<open>\<open>runtime\<close> is what \<open>lookupTaskRuntimeStats\<close> gives. The result is the item, if there is one, and the counter.\<close>

definition summary_item :: "int \<Rightarrow> task_runtime_stats option \<Rightarrow> traffic_counter \<Rightarrow> 64 word \<Rightarrow> 64 word \<Rightarrow> task_aggregate option \<times> traffic_counter" where
  "summary_item interval runtime x pkts bytes =
     (if cn_role x \<noteq> ''task'' then (None, x)
      else
        let item = (new_aggregate (cn_name x))\<lparr>ta_TotalPackets := pkts, ta_TotalBytes := bytes\<rparr>;
            (item1, x1) =
              (if interval > 0 then
                 (item\<lparr>ta_IntervalPackets := diffCounter pkts (cn_lastPkt x), ta_IntervalBytes := diffCounter bytes (cn_lastB x)\<rparr>,
                  x\<lparr>cn_lastPkt := pkts, cn_lastB := bytes, cn_reports := cn_reports x @ [diffCounter pkts (cn_lastPkt x)]\<rparr>)
               else (item, x))
        in (Some (case runtime of None \<Rightarrow> item1 | Some r \<Rightarrow> applyRuntime r item1), x1))"

definition addRuntimeOnlyTask :: "string list \<Rightarrow> string \<times> task_runtime_stats \<Rightarrow> traffic_summary \<Rightarrow> traffic_summary" where
  "addRuntimeOnlyTask seen tr s =
     (if fst tr \<in> set seen then s else s\<lparr>su_Tasks := su_Tasks s @ [applyRuntime (snd tr) (new_aggregate (fst tr))]\<rparr>)"

definition addSenderRuntime :: "string \<times> sender_stats \<Rightarrow> traffic_summary \<Rightarrow> traffic_summary" where
  "addSenderRuntime sr s = s\<lparr>su_Senders := su_Senders s @ [\<lparr>sa_Sender = fst sr, sa_Stats = snd sr\<rparr>]\<rparr>"

definition hasData :: "traffic_summary \<Rightarrow> bool" where
  "hasData s \<longleftrightarrow> su_Tasks s \<noteq> [] \<or> su_Senders s \<noteq> []"

text \<open>The body of the loop over the snapshot for the counter \<open>x\<close> whose packets were \<open>pkts\<close>.\<close>

definition flush_counter ::
  "int \<Rightarrow> task_runtime_stats option \<Rightarrow> traffic_counter \<Rightarrow> 64 word \<Rightarrow> traffic_summary \<Rightarrow> string list \<Rightarrow> traffic_summary \<times> string list \<times> traffic_counter" where
  "flush_counter interval runtime x pkts s seen =
     (if pkts = 0 \<and> cn_role x \<noteq> ''task'' then (s, seen, x)
      else
        let (item, x1) = summary_item interval runtime x pkts (cn_bytes x);
            s1 = (case item of None \<Rightarrow> s | Some it \<Rightarrow> s\<lparr>su_Tasks := su_Tasks s @ [it]\<rparr>)
        in (s1, if cn_role x = ''task'' \<and> cn_name x \<noteq> [] then seen @ [cn_name x] else seen, x1))"

fun flush_step :: "(nat \<Rightarrow> task_runtime_stats) \<Rightarrow> (nat \<Rightarrow> sender_stats) \<Rightarrow> int \<Rightarrow> flush \<Rightarrow> traffic_hub \<Rightarrow> traffic_hub" where
  "flush_step tf sf interval FlushIdle hb =
     hb\<lparr>hb_loop := LoopRuns interval (FlushCounters \<lparr>su_Tasks = [], su_Senders = []\<rparr> [] (map snd (hb_counters hb)))\<rparr>"
| "flush_step tf sf interval (FlushCounters s seen []) hb = hb\<lparr>hb_loop := LoopRuns interval (FlushTasks s seen)\<rparr>"
| "flush_step tf sf interval (FlushCounters s seen (c # cs)) hb =
     hb\<lparr>hb_loop := LoopRuns interval (FlushCounter s seen c (cn_packets (hb_heap hb ! c)) cs)\<rparr>"
| "flush_step tf sf interval (FlushCounter s seen c pkts cs) hb =
     (let x = hb_heap hb ! c;
          (s1, seen1, x1) = flush_counter interval (lookupTaskRuntimeStats tf (cn_name x) hb) x pkts s seen
      in hb\<lparr>hb_heap := (hb_heap hb)[c := x1], hb_loop := LoopRuns interval (FlushCounters s1 seen1 cs)\<rparr>)"
| "flush_step tf sf interval (FlushTasks s seen) hb =
     hb\<lparr>hb_loop := LoopRuns interval (FlushSenders (fold (addRuntimeOnlyTask seen) (listTaskRuntimeStats tf hb) s))\<rparr>"
| "flush_step tf sf interval (FlushSenders s) hb =
     (let s1 = fold addSenderRuntime (listSenderRuntimeStats sf hb) s
      in hb\<lparr>hb_loop := LoopRuns interval FlushIdle, hb_flushed := (if hasData s1 then hb_flushed hb @ [s1] else hb_flushed hb)\<rparr>)"

section \<open>Steps\<close>

text \<open>The argument of \<open>SetSampleEvery\<close> is an \<open>int\<close>.\<close>

datatype traffic_label =
    AcquireCounter string "string list"
  | AddBytes nat int
  | AddGoes nat
  | CloseHandle nat
  | ReleaseHandle nat
  | SetSampleEvery int
  | SetInterval int
  | RegisterTask string "nat option"
  | UnregisterTask string
  | RegisterSender string "nat option"
  | UnregisterSender "string \<times> nat"
  | UnregisterSenderName string
  | LoopStarts
  | LoopGoes "nat \<Rightarrow> task_runtime_stats" "nat \<Rightarrow> sender_stats"

fun traffic_step :: "traffic_label \<Rightarrow> traffic_hub \<Rightarrow> traffic_hub option" where
  "traffic_step (AcquireCounter msg kvs) hb = Some (acquire msg kvs hb)"
| "traffic_step (AddBytes i n) hb = (if i < length (hb_handles hb) then Some (add_begin i n hb) else None)"
| "traffic_step (AddGoes i) hb = (if i < length (hb_adds hb) then Some (add_goes i hb) else None)"
| "traffic_step (CloseHandle i) hb = (if i < length (hb_handles hb) then Some (close_handle i hb) else None)"
| "traffic_step (ReleaseHandle i) hb =
     (if i < length (hb_handles hb) \<and> hd_closed (hb_handles hb ! i) \<and> \<not> hd_released (hb_handles hb ! i) then Some (release_handle i hb) else None)"
| "traffic_step (SetSampleEvery n) hb = (if - (2 ^ 63) \<le> n \<and> n < 2 ^ 63 then Some (SetTrafficStatsSampleEvery n hb) else None)"
| "traffic_step (SetInterval d) hb = Some (SetTrafficStatsInterval d hb)"
| "traffic_step (RegisterTask task fn) hb = Some (RegisterTaskRuntimeStats task fn hb)"
| "traffic_step (UnregisterTask task) hb = Some (UnregisterTaskRuntimeStats task hb)"
| "traffic_step (RegisterSender sender fn) hb = Some (snd (RegisterSenderRuntimeStats sender fn hb))"
| "traffic_step (UnregisterSender reg) hb = Some (unregister_sender reg hb)"
| "traffic_step (UnregisterSenderName sender) hb = Some (UnregisterSenderRuntimeStats sender hb)"
| "traffic_step LoopStarts hb = (if hb_loop hb = LoopNew then Some (hb\<lparr>hb_loop := LoopRuns (trafficStatsInterval hb) FlushIdle\<rparr>) else None)"
| "traffic_step (LoopGoes tf sf) hb = (case hb_loop hb of LoopRuns interval fl \<Rightarrow> Some (flush_step tf sf interval fl hb) | _ \<Rightarrow> None)"

fun traffic_steps :: "traffic_label list \<Rightarrow> traffic_hub \<Rightarrow> traffic_hub option" where
  "traffic_steps [] hb = Some hb"
| "traffic_steps (l # ls) hb = (case traffic_step l hb of None \<Rightarrow> None | Some hb' \<Rightarrow> traffic_steps ls hb')"

interpretation traffic: runs traffic_step traffic_steps
  by unfold_locales simp_all

end
