(* ===== verification/TrafficProps.thy ===== *)
theory TrafficProps
  imports TrafficStats
begin

text \<open>
  What holds of the traffic statistics in every interleaving: counters live as long as their handles, totals are those of the calls,
  and the intervals of the summaries add up to them.
\<close>

section \<open>Counters and handles\<close>

definition holds_key :: "string \<Rightarrow> traffic_handle \<Rightarrow> bool" where
  "holds_key key h \<longleftrightarrow> hd_key h = key \<and> \<not> hd_released h"

definition holders :: "traffic_handle list \<Rightarrow> string \<Rightarrow> nat" where
  "holders hs key = length (filter (holds_key key) hs)"

definition key_of :: "traffic_counter \<Rightarrow> string" where
  "key_of x = buildTrafficKey (cn_msg x) (cn_fields x)"

definition counters_held :: "traffic_hub \<Rightarrow> bool" where
  "counters_held hb \<longleftrightarrow>
     (\<forall>k c. mget (hb_counters hb) k = Some c \<longrightarrow>
        c < length (hb_heap hb) \<and> key_of (hb_heap hb ! c) = k \<and>
        cn_refs (hb_heap hb ! c) = int (holders (hb_handles hb) k) \<and> 0 < holders (hb_handles hb) k)"

definition handles_hold :: "traffic_hub \<Rightarrow> bool" where
  "handles_hold hb \<longleftrightarrow>
     (\<forall>h \<in> set (hb_handles hb). hd_c h < length (hb_heap hb) \<and> (hd_released h \<longrightarrow> hd_closed h) \<and>
        (\<not> hd_released h \<longrightarrow> mget (hb_counters hb) (hd_key h) = Some (hd_c h)))"

lemma counters_heldD:
  assumes "counters_held hb" "mget (hb_counters hb) k = Some c"
  shows "c < length (hb_heap hb)" "key_of (hb_heap hb ! c) = k" "cn_refs (hb_heap hb ! c) = int (holders (hb_handles hb) k)"
    "0 < holders (hb_handles hb) k"
  using assms by (auto simp: counters_held_def)

lemma in_updated: "x \<in> set (xs[i := v]) \<Longrightarrow> x = v \<or> x \<in> set xs"
  using set_update_subset_insert by fastforce

lemma holders_snoc [simp]: "holders (hs @ [h]) k = holders hs k + of_bool (holds_key k h)"
  by (simp add: holders_def)

lemma holders_update:
  "i < length hs \<Longrightarrow> int (holders (hs[i := h]) k) = int (holders hs k) - of_bool (holds_key k (hs ! i)) + of_bool (holds_key k h)"
proof (induction hs arbitrary: i)
  case (Cons a hs)
  then show ?case by (cases i) (auto simp: holders_def)
qed simp

lemma holders_none: "handles_hold hb \<Longrightarrow> mget (hb_counters hb) k = None \<Longrightarrow> holders (hb_handles hb) k = 0"
  by (auto simp: holders_def handles_hold_def holds_key_def filter_empty_conv)

text \<open>What the steps on counters and the flush leave alone.\<close>

lemma held_frame:
  assumes "counters_held hb" "handles_hold hb" "hb_counters hb' = hb_counters hb" "hb_handles hb' = hb_handles hb"
    "length (hb_heap hb') = length (hb_heap hb)"
    "\<And>c. c < length (hb_heap hb) \<Longrightarrow> key_of (hb_heap hb' ! c) = key_of (hb_heap hb ! c) \<and> cn_refs (hb_heap hb' ! c) = cn_refs (hb_heap hb ! c)"
  shows "counters_held hb' \<and> handles_hold hb'"
  using assms unfolding counters_held_def handles_hold_def by auto

lemma acquire_held:
  assumes "counters_held hb" "handles_hold hb"
  shows "counters_held (acquire msg kvs hb) \<and> handles_hold (acquire msg kvs hb)"
proof (cases "mget (hb_counters hb) (buildTrafficKey msg kvs)")
  case None
  have z: "holders (hb_handles hb) (buildTrafficKey msg kvs) = 0" by (rule holders_none [OF assms(2) None])
  have "key_of (new_counter s msg kvs) = buildTrafficKey msg kvs" "cn_refs (new_counter s msg kvs) = 1" for s
    by (simp_all add: key_of_def new_counter_def split: prod.splits)
  then show ?thesis using assms None z
    by (auto simp: counters_held_def handles_hold_def acquire_def Let_def new_handle_def holds_key_def nth_append less_SucI)
next
  case (Some c)
  then have c: "c < length (hb_heap hb)" "key_of (hb_heap hb ! c) = buildTrafficKey msg kvs"
    using assms(1) by (auto simp: counters_held_def)
  have k: "key_of (x\<lparr>cn_refs := r\<rparr>) = key_of x" for x r by (simp add: key_of_def)
  show ?thesis
  proof
    show "counters_held (acquire msg kvs hb)"
      unfolding counters_held_def
    proof (intro allI impI)
      fix k' c'
      assume m: "mget (hb_counters (acquire msg kvs hb)) k' = Some c'"
      then have m': "mget (hb_counters hb) k' = Some c'" using Some by (simp add: acquire_def Let_def on_counter_def)
      then have h: "c' < length (hb_heap hb)" "key_of (hb_heap hb ! c') = k'" "cn_refs (hb_heap hb ! c') = int (holders (hb_handles hb) k')"
        "0 < holders (hb_handles hb) k'" using assms(1) unfolding counters_held_def by blast+
      show "c' < length (hb_heap (acquire msg kvs hb)) \<and> key_of (hb_heap (acquire msg kvs hb) ! c') = k' \<and>
          cn_refs (hb_heap (acquire msg kvs hb) ! c') = int (holders (hb_handles (acquire msg kvs hb)) k') \<and>
          0 < holders (hb_handles (acquire msg kvs hb)) k'"
        using Some c h k m' by (cases "c' = c") (auto simp: acquire_def Let_def on_counter_def new_handle_def holds_key_def)
    qed
    show "handles_hold (acquire msg kvs hb)"
      using assms(2) Some c by (auto simp: handles_hold_def acquire_def Let_def on_counter_def new_handle_def)
  qed
qed

lemma close_held:
  assumes "counters_held hb" "handles_hold hb" "i < length (hb_handles hb)"
  shows "counters_held (close_handle i hb) \<and> handles_hold (close_handle i hb)"
proof -
  have "holds_key k (h\<lparr>hd_closed := True\<rparr>) = holds_key k h" for k h by (simp add: holds_key_def)
  then have e: "holders ((hb_handles hb)[i := (hb_handles hb ! i)\<lparr>hd_closed := True\<rparr>]) k = holders (hb_handles hb) k" for k
    using holders_update [OF assms(3), of "(hb_handles hb ! i)\<lparr>hd_closed := True\<rparr>" k] by simp
  have i: "hb_handles hb ! i \<in> set (hb_handles hb)" using assms(3) by simp
  have "counters_held (close_handle i hb)" using assms(1) e by (auto simp: counters_held_def close_handle_def Let_def)
  moreover have "handles_hold (close_handle i hb)" using assms(2) i
    by (auto simp: handles_hold_def close_handle_def Let_def dest: in_updated)
  ultimately show ?thesis by simp
qed

lemma release_held:
  assumes "counters_held hb" "handles_hold hb" "i < length (hb_handles hb)" "hd_closed (hb_handles hb ! i)" "\<not> hd_released (hb_handles hb ! i)"
  shows "counters_held (release_handle i hb) \<and> handles_hold (release_handle i hb)"
proof -
  define h where "h = hb_handles hb ! i"
  define hs where "hs = (hb_handles hb)[i := h\<lparr>hd_released := True\<rparr>]"
  have hin: "h \<in> set (hb_handles hb)" using assms(3) by (simp add: h_def)
  then obtain c where c: "mget (hb_counters hb) (hd_key h) = Some c" "c < length (hb_heap hb)" "key_of (hb_heap hb ! c) = hd_key h"
    "cn_refs (hb_heap hb ! c) = int (holders (hb_handles hb) (hd_key h))" "0 < holders (hb_handles hb) (hd_key h)"
    using assms(1,2,5) unfolding handles_hold_def counters_held_def h_def by blast
  have e: "int (holders hs k) = int (holders (hb_handles hb) k) - of_bool (k = hd_key h)" for k
    using holders_update [OF assms(3), of "h\<lparr>hd_released := True\<rparr>" k] assms(5) by (auto simp: hs_def h_def holds_key_def)
  have other: "c' \<noteq> c" if "mget (hb_counters hb) k = Some c'" "k \<noteq> hd_key h" for k c'
    using that c(3) assms(1) by (auto simp: counters_held_def)
  have sub: "x \<in> set hs \<Longrightarrow> x = h\<lparr>hd_released := True\<rparr> \<or> x \<in> set (hb_handles hb)" for x
    using in_updated unfolding hs_def by metis
  define hb1 where "hb1 = hb\<lparr>hb_handles := hs, hb_heap := (hb_heap hb)[c := (hb_heap hb ! c)\<lparr>cn_refs := cn_refs (hb_heap hb ! c) - 1\<rparr>]\<rparr>"
  have r: "release_handle i hb = (if holders hs (hd_key h) = 0 then hb1\<lparr>hb_counters := mdel (hd_key h) (hb_counters hb)\<rparr> else hb1)"
    using c e [of "hd_key h"] by (auto simp: release_handle_def release_def Let_def hb1_def hs_def h_def on_counter_def)
  have k: "key_of (x\<lparr>cn_refs := q\<rparr>) = key_of x" for x q by (simp add: key_of_def)
  have inv: "c' < length (hb_heap hb1) \<and> key_of (hb_heap hb1 ! c') = k' \<and> cn_refs (hb_heap hb1 ! c') = int (holders hs k')"
    if "mget (hb_counters hb) k' = Some c'" for k' c'
    using that c e [of k'] k other [OF that] counters_heldD [OF assms(1) that] by (cases "k' = hd_key h") (auto simp: hb1_def)
  have pos: "0 < holders hs k'" if "mget (hb_counters hb) k' = Some c'" "k' \<noteq> hd_key h" for k' c'
    using that(2) e [of k'] counters_heldD(4) [OF assms(1) that(1)] by simp
  have hold: "hd_released x" if "holders hs (hd_key h) = 0" "x \<in> set hs" "hd_key x = hd_key h" for x
    using that by (auto simp: holders_def filter_empty_conv holds_key_def)
  have hc: "hd_c h < length (hb_heap hb) \<and> hd_closed h" using assms(2,4) hin by (auto simp: handles_hold_def h_def)
  have held: "hd_c x < length (hb_heap hb1) \<and> (hd_released x \<longrightarrow> hd_closed x) \<and> (\<not> hd_released x \<longrightarrow> mget (hb_counters hb) (hd_key x) = Some (hd_c x))"
    if "x \<in> set hs" for x
    using sub [OF that] assms(2) hc by (auto simp: handles_hold_def hb1_def)
  show ?thesis unfolding r using inv pos held hold
    by (cases "holders hs (hd_key h) = 0") (auto simp: counters_held_def handles_hold_def hb1_def)
qed

lemma add_step_frame:
  "add_step a x = (b, y) \<Longrightarrow> key_of y = key_of x \<and> cn_refs y = cn_refs x \<and> cn_sample y = cn_sample x \<and> cn_role y = cn_role x \<and>
    cn_name y = cn_name x \<and> cn_lastPkt y = cn_lastPkt x \<and> cn_reports y = cn_reports x \<and> cn_msg y = cn_msg x \<and> cn_fields y = cn_fields x \<and>
    (\<forall>b'. b = Some b' \<longrightarrow> ad_c b' = ad_c a \<and> ad_n b' = ad_n a)"
  by (auto simp: add_step_def Let_def key_of_def split: add_phase.splits if_splits)

lemma flush_counter_frame:
  "flush_counter interval r x pkts s seen = (s1, seen1, y) \<Longrightarrow> key_of y = key_of x \<and> cn_refs y = cn_refs x \<and> cn_sample y = cn_sample x \<and>
    cn_role y = cn_role x \<and> cn_name y = cn_name x \<and> cn_packets y = cn_packets x \<and> cn_bytes y = cn_bytes x \<and> cn_seen y = cn_seen x \<and>
    cn_sizes y = cn_sizes x \<and> cn_msg y = cn_msg x \<and> cn_fields y = cn_fields x"
  by (auto simp: flush_counter_def summary_item_def Let_def key_of_def split: if_splits prod.splits)


section \<open>Totals\<close>

text \<open>The sizes of every \<open>s\<close>-th call.\<close>

definition sampled :: "nat \<Rightarrow> int list \<Rightarrow> int" where
  "sampled s ns = (\<Sum>i<length ns. if Suc i mod s = 0 then ns ! i else 0)"

lemma sampled_snoc: "sampled s (ns @ [n]) = sampled s ns + (if Suc (length ns) mod s = 0 then n else 0)"
proof -
  have "(\<Sum>i<length ns. if Suc i mod s = 0 then (ns @ [n]) ! i else 0) = sampled s ns"
    unfolding sampled_def by (rule sum.cong) (auto simp: nth_append)
  then show ?thesis by (simp add: sampled_def)
qed

lemma sampled_one: "sampled 1 ns = sum_list ns"
  by (simp add: sampled_def sum_list_sum_nth lessThan_atLeast0)

text \<open>The calls that have chosen their sample and not yet added to the packets, or to the bytes.\<close>

definition open_adds :: "add_phase set \<Rightarrow> nat \<Rightarrow> adding list \<Rightarrow> adding list" where
  "open_adds ph c as = filter (\<lambda>a. ad_c a = c \<and> ad_phase a \<in> ph) as"

lemma open_adds_simps [simp]:
  "open_adds ph c [] = []" "open_adds ph c (a # as) = (if ad_c a = c \<and> ad_phase a \<in> ph then a # open_adds ph c as else open_adds ph c as)"
  "open_adds ph c (as @ bs) = open_adds ph c as @ open_adds ph c bs"
  by (simp_all add: open_adds_def)

definition total_ok :: "adding list \<Rightarrow> nat \<Rightarrow> traffic_counter \<Rightarrow> bool" where
  "total_ok as c x \<longleftrightarrow>
     (let s = unat (cn_sample x); n = length (cn_sizes x) in
      0 < s \<and> cn_seen x = of_nat n \<and>
      (n < 2 ^ 64 \<longrightarrow>
         unat (cn_packets x) + s * length (open_adds {AddSampled} c as) = s * (n div s) \<and>
         cn_bytes x + cn_sample x * of_int (sum_list (map ad_n (open_adds {AddSampled, AddPackets} c as))) =
           cn_sample x * of_int (sampled s (cn_sizes x)) \<and>
         sum_list (map unat (cn_reports x)) = unat (cn_lastPkt x) \<and> cn_lastPkt x \<le> cn_packets x))"

text \<open>The packets of a counter that the flush has loaded and not yet reported.\<close>

definition load_ok :: "traffic_hub \<Rightarrow> bool" where
  "load_ok hb \<longleftrightarrow>
     (\<forall>interval s seen c pkts cs. hb_loop hb = LoopRuns interval (FlushCounter s seen c pkts cs) \<longrightarrow>
        length (cn_sizes (hb_heap hb ! c)) < 2 ^ 64 \<longrightarrow> cn_lastPkt (hb_heap hb ! c) \<le> pkts \<and> pkts \<le> cn_packets (hb_heap hb ! c))"

definition flush_places :: "flush \<Rightarrow> nat list" where
  "flush_places fl = (case fl of FlushCounters s seen cs \<Rightarrow> cs | FlushCounter s seen c pkts cs \<Rightarrow> c # cs | _ \<Rightarrow> [])"

definition places_ok :: "traffic_hub \<Rightarrow> bool" where
  "places_ok hb \<longleftrightarrow> (\<forall>a \<in> set (hb_adds hb). ad_c a < length (hb_heap hb)) \<and>
     (\<forall>interval fl. hb_loop hb = LoopRuns interval fl \<longrightarrow> (\<forall>c \<in> set (flush_places fl). c < length (hb_heap hb))) \<and>
     hb_sampleEvery hb < 2 ^ 63 \<and> wf_map (hb_counters hb)"

definition totals_ok :: "traffic_hub \<Rightarrow> bool" where
  "totals_ok hb \<longleftrightarrow> (\<forall>c < length (hb_heap hb). total_ok (hb_adds hb) c (hb_heap hb ! c))"

lemma unat_add_below: "unat (x :: 64 word) + unat y < 2 ^ 64 \<Longrightarrow> unat (x + y) = unat x + unat y"
  by (simp add: unat_word_ariths)

text \<open>One atomic operation of a call of \<open>AddBytes\<close>, on its counter.\<close>

lemma add_step_total:
  assumes "total_ok (l @ a # r) (ad_c a) x" "add_step a x = (b, y)"
  shows "total_ok (l @ (case b of None \<Rightarrow> [] | Some b' \<Rightarrow> [b']) @ r) (ad_c a) y \<and>
    (length (cn_sizes y) < 2 ^ 64 \<longrightarrow> length (cn_sizes x) < 2 ^ 64 \<and> cn_packets x \<le> cn_packets y)"
proof -
  define s where "s = unat (cn_sample x)"
  define n where "n = length (cn_sizes x)"
  have t: "0 < s" "cn_seen x = of_nat n" using assms(1) by (simp_all add: total_ok_def Let_def s_def n_def)
  have u: "unat (cn_packets x) + s * length (open_adds {AddSampled} (ad_c a) (l @ a # r)) = s * (n div s) \<and>
      cn_bytes x + cn_sample x * of_int (sum_list (map ad_n (open_adds {AddSampled, AddPackets} (ad_c a) (l @ a # r)))) =
        cn_sample x * of_int (sampled s (cn_sizes x)) \<and>
      sum_list (map unat (cn_reports x)) = unat (cn_lastPkt x) \<and> cn_lastPkt x \<le> cn_packets x" if "n < 2 ^ 64"
    using assms(1) that by (simp add: total_ok_def Let_def s_def n_def)
  show ?thesis
  proof (cases "ad_phase a")
    case AddChecked
    have y: "y = x\<lparr>cn_seen := cn_seen x + 1, cn_sizes := cn_sizes x @ [ad_n a]\<rparr>"
      "b = (if (cn_seen x + 1) mod cn_sample x \<noteq> 0 then None else Some (a\<lparr>ad_phase := AddSampled\<rparr>))"
      using assms(2) AddChecked by (simp_all add: add_step_def Let_def split: if_splits)
    have m: "(cn_seen x + 1) mod cn_sample x = 0 \<longleftrightarrow> Suc n mod s = 0" if "Suc n < 2 ^ 64"
    proof -
      have "cn_seen x + 1 = of_nat (Suc n)" using t(2) by simp
      then have "unat (cn_seen x + 1) = Suc n mod 2 ^ 64" by (simp only: unat_of_nat) simp
      then have "unat (cn_seen x + 1) = Suc n" using that by simp
      then have "unat ((cn_seen x + 1) mod cn_sample x) = Suc n mod s" by (simp add: unat_mod s_def)
      then show ?thesis by (metis unat_0 word_unat_eq_iff)
    qed
    have d: "Suc n div s = (if Suc n mod s = 0 then Suc (n div s) else n div s)" using t(1) by (simp add: div_Suc)
    show ?thesis
    proof (cases "Suc n < 2 ^ 64")
      case True
      then have "n < 2 ^ 64" by simp
      from u [OF this] show ?thesis using m [OF True] d t AddChecked y
        by (auto simp: total_ok_def Let_def n_def [symmetric] s_def [symmetric] sampled_snoc algebra_simps)
    next
      case False
      then show ?thesis using t y by (simp add: total_ok_def Let_def n_def [symmetric] s_def [symmetric])
    qed
  next
    case AddSampled
    have y: "y = x\<lparr>cn_packets := cn_packets x + cn_sample x\<rparr>" "b = Some (a\<lparr>ad_phase := AddPackets\<rparr>)"
      using assms(2) AddSampled by (simp_all add: add_step_def)
    show ?thesis
    proof (cases "n < 2 ^ 64")
      case True
      note v = u [OF True]
      have "unat (cn_packets x) + s \<le> s * (n div s)" using v AddSampled by simp
      also have "\<dots> < 2 ^ 64" using True by (meson le_less_trans times_div_less_eq_dividend)
      finally have p: "unat (cn_packets x + cn_sample x) = unat (cn_packets x) + s" by (simp add: unat_add_below s_def)
      then have "cn_packets x \<le> cn_packets x + cn_sample x" by (simp add: word_le_nat_alt)
      then show ?thesis using v p t y AddSampled
        by (auto simp: total_ok_def Let_def n_def [symmetric] s_def [symmetric])
    next
      case False
      then show ?thesis using t y by (simp add: total_ok_def Let_def n_def [symmetric] s_def [symmetric])
    qed
  next
    case AddPackets
    have y: "y = x\<lparr>cn_bytes := cn_bytes x + word_of_int (ad_n a) * cn_sample x\<rparr>" "b = None"
      using assms(2) AddPackets by (simp_all add: add_step_def)
    show ?thesis
    proof (cases "n < 2 ^ 64")
      case True
      define p where "p = sum_list (map ad_n (open_adds {AddSampled, AddPackets} (ad_c a) l))"
      define q where "q = sum_list (map ad_n (open_adds {AddSampled, AddPackets} (ad_c a) r))"
      have "cn_bytes x + word_of_int (ad_n a) * cn_sample x + cn_sample x * of_int (p + q) = cn_bytes x + cn_sample x * of_int (p + (ad_n a + q))"
        by (simp add: ring_distribs mult.commute)
      also have "\<dots> = cn_sample x * of_int (sampled s (cn_sizes x))" using u [OF True] AddPackets by (simp add: p_def q_def)
      finally have "cn_bytes x + word_of_int (ad_n a) * cn_sample x + cn_sample x * of_int (p + q) = cn_sample x * of_int (sampled s (cn_sizes x))" .
      then show ?thesis using u [OF True] t y AddPackets
        by (simp add: total_ok_def Let_def n_def [symmetric] s_def [symmetric] p_def [symmetric] q_def [symmetric] del: of_int_add)
    next
      case False
      then show ?thesis using t y by (simp add: total_ok_def Let_def n_def [symmetric] s_def [symmetric])
    qed
  qed
qed

lemma total_ok_other:
  assumes "c \<noteq> ad_c a" "\<And>b'. b = Some b' \<Longrightarrow> ad_c b' = ad_c a"
  shows "total_ok (l @ (case b of None \<Rightarrow> [] | Some b' \<Rightarrow> [b']) @ r) c x = total_ok (l @ a # r) c x"
proof -
  have "open_adds ph c (l @ (case b of None \<Rightarrow> [] | Some b' \<Rightarrow> [b']) @ r) = open_adds ph c (l @ a # r)" for ph
  proof (cases b)
    case (Some b')
    have "ad_c b' \<noteq> c" "ad_c a \<noteq> c" using assms(1) assms(2) [OF Some] by simp_all
    then show ?thesis by (simp add: Some)
  qed (use assms(1) in simp)
  then show ?thesis unfolding total_ok_def by (simp only:)
qed

text \<open>What the flush does to a counter.\<close>

lemma flush_counter_total:
  assumes "total_ok as c x" "flush_counter interval rt x pkts s seen = (s1, seen1, y)"
    "length (cn_sizes x) < 2 ^ 64 \<longrightarrow> cn_lastPkt x \<le> pkts \<and> pkts \<le> cn_packets x"
  shows "total_ok as c y"
proof -
  have "y = x \<or> y = x\<lparr>cn_lastPkt := pkts, cn_lastB := cn_bytes x, cn_reports := cn_reports x @ [diffCounter pkts (cn_lastPkt x)]\<rparr>"
    using assms(2) by (auto simp: flush_counter_def summary_item_def Let_def split: if_splits prod.splits)
  moreover have "unat (diffCounter pkts (cn_lastPkt x)) = unat pkts - unat (cn_lastPkt x) \<and> unat (cn_lastPkt x) \<le> unat pkts"
    if "cn_lastPkt x \<le> pkts"
    using that by (simp add: diffCounter_def unat_sub word_le_nat_alt)
  ultimately show ?thesis using assms(1,3) by (auto simp: total_ok_def Let_def)
qed


section \<open>All steps\<close>

definition stats_ok :: "traffic_hub \<Rightarrow> bool" where
  "stats_ok hb \<longleftrightarrow> places_ok hb \<and> totals_ok hb \<and> load_ok hb"

lemma nth_upd: "xs[i := v] ! j = (if i = j \<and> i < length xs then v else xs ! j)"
  by (cases "i < length xs") (simp_all add: nth_list_update list_update_beyond)

definition same_totals :: "traffic_counter \<Rightarrow> traffic_counter \<Rightarrow> bool" where
  "same_totals x y \<longleftrightarrow> cn_sample y = cn_sample x \<and> cn_sizes y = cn_sizes x \<and> cn_seen y = cn_seen x \<and> cn_packets y = cn_packets x \<and>
     cn_bytes y = cn_bytes x \<and> cn_reports y = cn_reports x \<and> cn_lastPkt y = cn_lastPkt x"

lemma same_totals_total: "same_totals x y \<Longrightarrow> total_ok as c y = total_ok as c x"
  by (simp add: same_totals_def total_ok_def Let_def)

lemma stats_frame:
  assumes "stats_ok hb" "hb_adds hb' = hb_adds hb" "hb_loop hb' = hb_loop hb \<or> hb_loop hb' = LoopNew" "hb_sampleEvery hb' < 2 ^ 63"
    "wf_map (hb_counters hb')" "length (hb_heap hb) \<le> length (hb_heap hb')"
    "\<And>c. c < length (hb_heap hb) \<Longrightarrow> same_totals (hb_heap hb ! c) (hb_heap hb' ! c)"
    "\<And>c. length (hb_heap hb) \<le> c \<Longrightarrow> c < length (hb_heap hb') \<Longrightarrow> total_ok (hb_adds hb) c (hb_heap hb' ! c)"
  shows "stats_ok hb'"
proof -
  have p: "places_ok hb" "totals_ok hb" "load_ok hb" using assms(1) by (simp_all add: stats_ok_def)
  have "c < length (hb_heap hb')" if "hb_loop hb' = LoopRuns interval fl" "c \<in> set (flush_places fl)" for interval fl c
  proof -
    have "hb_loop hb = LoopRuns interval fl" using assms(3) that(1) by auto
    then have "c < length (hb_heap hb)" using p(1) that(2) by (simp add: places_ok_def)
    then show ?thesis using assms(6) by simp
  qed
  then have "places_ok hb'"
    using p(1) assms(2,4,5,6) unfolding places_ok_def by auto
  moreover have "totals_ok hb'" unfolding totals_ok_def assms(2)
  proof (intro allI impI)
    fix c assume "c < length (hb_heap hb')"
    then show "total_ok (hb_adds hb) c (hb_heap hb' ! c)"
      using p(2) assms(7) assms(8) same_totals_total unfolding totals_ok_def by (metis not_le_imp_less)
  qed
  moreover have "load_ok hb'"
  proof (cases "hb_loop hb' = hb_loop hb")
    case True
    have "same_totals (hb_heap hb ! c) (hb_heap hb' ! c)" if "hb_loop hb = LoopRuns v (FlushCounter s seen c pkts cs)" for v s seen c pkts cs
      using p(1) that assms(7) by (simp add: places_ok_def flush_places_def)
    then show ?thesis using p(3) True unfolding load_ok_def by (auto simp: same_totals_def split: loop_state.splits flush.splits)
  qed (use assms(3) in \<open>simp add: load_ok_def\<close>)
  ultimately show ?thesis by (simp add: stats_ok_def)
qed

definition hub_ok :: "traffic_hub \<Rightarrow> bool" where
  "hub_ok hb \<longleftrightarrow> counters_held hb \<and> handles_hold hb \<and> stats_ok hb"

lemma hub_okD: "hub_ok hb \<Longrightarrow> counters_held hb" "hub_ok hb \<Longrightarrow> handles_hold hb" "hub_ok hb \<Longrightarrow> stats_ok hb"
  by (simp_all add: hub_ok_def)

lemma new_counter_total:
  assumes "places_ok hb" "length (hb_heap hb) \<le> c"
  shows "total_ok (hb_adds hb) c (new_counter (trafficStatsSampleN hb) msg kvs)"
proof -
  have "open_adds ph c (hb_adds hb) = []" for ph using assms by (auto simp: open_adds_def places_ok_def filter_empty_conv)
  moreover have "0 < unat (trafficStatsSampleN hb)"
  proof (cases "hb_sampleEvery hb \<le> 0")
    case False
    then have "uint (word_of_int (hb_sampleEvery hb) :: 64 word) = hb_sampleEvery hb"
      using assms(1) by (simp add: places_ok_def uint_word_of_int)
    then have "word_of_int (hb_sampleEvery hb) \<noteq> (0 :: 64 word)" using False by (metis unsigned_0 order_refl)
    then show ?thesis using False by (simp add: trafficStatsSampleN_def unat_gt_0)
  qed (simp add: trafficStatsSampleN_def)
  ultimately show ?thesis by (simp add: total_ok_def Let_def new_counter_def sampled_def split: prod.splits)
qed

lemma acquire_stats:
  assumes "counters_held hb" "stats_ok hb"
  shows "stats_ok (acquire msg kvs hb)"
proof -
  have pl: "places_ok hb" "hb_sampleEvery hb < 2 ^ 63" "wf_map (hb_counters hb)" using assms(2) by (simp_all add: stats_ok_def places_ok_def)
  show ?thesis
  proof (rule stats_frame [OF assms(2)])
    fix c assume c: "length (hb_heap hb) \<le> c" "c < length (hb_heap (acquire msg kvs hb))"
    show "total_ok (hb_adds hb) c (hb_heap (acquire msg kvs hb) ! c)"
      using c new_counter_total [OF pl(1) c(1)]
      by (auto simp: acquire_def Let_def on_counter_def nth_append trafficStatsSampleN_def split: option.splits)
  next
    fix c assume c: "c < length (hb_heap hb)"
    show "same_totals (hb_heap hb ! c) (hb_heap (acquire msg kvs hb) ! c)"
      using c by (auto simp: acquire_def Let_def on_counter_def nth_append same_totals_def nth_upd split: option.splits)
  qed (use pl in \<open>auto simp: acquire_def Let_def on_counter_def split: option.splits\<close>)
qed

lemma release_stats:
  assumes "stats_ok hb"
  shows "stats_ok (release_handle i hb)"
proof -
  have pl: "hb_sampleEvery hb < 2 ^ 63" "wf_map (hb_counters hb)" using assms by (simp_all add: stats_ok_def places_ok_def)
  show ?thesis
  proof (rule stats_frame [OF assms])
    fix c :: nat
    show "same_totals (hb_heap hb ! c) (hb_heap (release_handle i hb) ! c)"
      by (auto simp: release_handle_def release_def Let_def on_counter_def same_totals_def nth_upd split: option.splits)
    have "length (hb_heap (release_handle i hb)) = length (hb_heap hb)"
      by (auto simp: release_handle_def release_def Let_def on_counter_def split: option.splits)
    then show "length (hb_heap hb) \<le> length (hb_heap (release_handle i hb))"
      "length (hb_heap hb) \<le> c \<Longrightarrow> c < length (hb_heap (release_handle i hb)) \<Longrightarrow> total_ok (hb_adds hb) c (hb_heap (release_handle i hb) ! c)"
      by simp_all
  qed (use pl in \<open>auto simp: release_handle_def release_def Let_def on_counter_def split: option.splits\<close>)
qed

lemma add_begin_stats:
  assumes "handles_hold hb" "stats_ok hb" "i < length (hb_handles hb)"
  shows "stats_ok (add_begin i n hb)"
proof -
  have "hd_c (hb_handles hb ! i) < length (hb_heap hb)" using assms(1,3) by (simp add: handles_hold_def)
  moreover have "total_ok (as @ [\<lparr>ad_c = c', ad_n = n, ad_phase = AddChecked\<rparr>]) c x = total_ok as c x" for as c' c x
    by (simp add: total_ok_def Let_def)
  ultimately show ?thesis using assms(2)
    by (auto simp: stats_ok_def places_ok_def totals_ok_def load_ok_def add_begin_def Let_def)
qed

lemma add_goes_ok:
  assumes "hub_ok hb" "i < length (hb_adds hb)"
  shows "hub_ok (add_goes i hb)"
proof -
  define l where "l = take i (hb_adds hb)"
  define r where "r = drop (Suc i) (hb_adds hb)"
  define a where "a = hb_adds hb ! i"
  define c where "c = ad_c a"
  obtain b y where st: "add_step a (hb_heap hb ! c) = (b, y)" by fastforce
  have as: "hb_adds hb = l @ a # r" using assms(2) by (simp add: l_def r_def a_def id_take_nth_drop)
  define as' where "as' = l @ (case b of None \<Rightarrow> [] | Some b' \<Rightarrow> [b']) @ r"
  have g: "add_goes i hb = hb\<lparr>hb_heap := (hb_heap hb)[c := y], hb_adds := as'\<rparr>"
    using st by (simp add: add_goes_def Let_def l_def r_def a_def c_def as'_def)
  have s: "places_ok hb" "totals_ok hb" "load_ok hb" using hub_okD(3) [OF assms(1)] by (simp_all add: stats_ok_def)
  have c: "c < length (hb_heap hb)" using s(1) as by (simp add: places_ok_def c_def)
  note f = add_step_frame [OF st]
  then have nb: "\<And>b'. b = Some b' \<Longrightarrow> ad_c b' = ad_c a" by blast
  have t: "total_ok as' c y \<and> (length (cn_sizes y) < 2 ^ 64 \<longrightarrow> length (cn_sizes (hb_heap hb ! c)) < 2 ^ 64 \<and> cn_packets (hb_heap hb ! c) \<le> cn_packets y)"
    using add_step_total [of l a r "hb_heap hb ! c" b y] st s(2) c as by (simp add: totals_ok_def c_def as'_def)
  have o: "total_ok as' c' x = total_ok (hb_adds hb) c' x" if "c' \<noteq> c" for c' x
    unfolding as as'_def by (rule total_ok_other [OF that [unfolded c_def] nb])
  have "ad_c x < length (hb_heap hb)" if "x \<in> set as'" for x
  proof (cases "x \<in> set (l @ r)")
    case False
    then have "b = Some x" using that by (cases b) (simp_all add: as'_def)
    then have "ad_c x = ad_c a" by (rule nb)
    then show ?thesis using c by (simp add: c_def)
  qed (use s(1) as in \<open>auto simp: places_ok_def\<close>)
  then have "places_ok (add_goes i hb)" using s(1) by (simp add: g places_ok_def)
  moreover have "totals_ok (add_goes i hb)" using s(2) t o c unfolding g totals_ok_def by (auto simp: nth_upd)
  moreover have "load_ok (add_goes i hb)"
    using s(3) t f c unfolding g load_ok_def by (auto simp: nth_upd split: loop_state.splits flush.splits)
  moreover have "counters_held (add_goes i hb) \<and> handles_hold (add_goes i hb)"
    by (rule held_frame [OF hub_okD(1,2) [OF assms(1)]]) (use f c in \<open>auto simp: g nth_upd\<close>)
  ultimately show ?thesis by (simp add: hub_ok_def stats_ok_def)
qed

lemma counter_in_heap: "hub_ok hb \<Longrightarrow> (k, c) \<in> set (hb_counters hb) \<Longrightarrow> c < length (hb_heap hb)"
  using hub_okD(1,3) by (auto simp: stats_ok_def places_ok_def wf_map_def counters_held_def)

lemma flush_step_ok:
  assumes "hub_ok hb" "hb_loop hb = LoopRuns interval fl"
  shows "hub_ok (flush_step tf sf interval fl hb)"
proof -
  have s: "places_ok hb" "totals_ok hb" "load_ok hb" using hub_okD(3) [OF assms(1)] by (simp_all add: stats_ok_def)
  have triv: "hub_ok (hb\<lparr>hb_loop := LoopRuns interval fl', hb_flushed := su\<rparr>)"
    if "\<forall>c \<in> set (flush_places fl'). c < length (hb_heap hb)" "load_ok (hb\<lparr>hb_loop := LoopRuns interval fl'\<rparr>)" for fl' su
    using assms(1) s that
    by (auto simp: hub_ok_def counters_held_def handles_hold_def stats_ok_def places_ok_def totals_ok_def load_ok_def)
  show ?thesis
  proof (cases fl)
    case FlushIdle
    have "\<forall>c \<in> snd ` set (hb_counters hb). c < length (hb_heap hb)" using counter_in_heap [OF assms(1)] by auto
    then show ?thesis using triv [of _ "hb_flushed hb"] FlushIdle by (simp add: flush_places_def load_ok_def)
  next
    case (FlushCounters su seen cs)
    then have p: "\<forall>c \<in> set cs. c < length (hb_heap hb)" using s(1) assms(2) by (simp add: places_ok_def flush_places_def)
    show ?thesis
    proof (cases cs)
      case Nil
      then show ?thesis using triv [of _ "hb_flushed hb"] FlushCounters by (simp add: flush_places_def load_ok_def)
    next
      case (Cons c cs')
      have "total_ok (hb_adds hb) c (hb_heap hb ! c)" using p Cons s(2) by (simp add: totals_ok_def)
      then have "length (cn_sizes (hb_heap hb ! c)) < 2 ^ 64 \<longrightarrow> cn_lastPkt (hb_heap hb ! c) \<le> cn_packets (hb_heap hb ! c)"
        by (simp add: total_ok_def Let_def)
      then show ?thesis using triv [of _ "hb_flushed hb"] FlushCounters Cons p by (simp add: flush_places_def load_ok_def)
    qed
  next
    case (FlushCounter su seen c pkts cs)
    have p: "\<forall>c' \<in> set (c # cs). c' < length (hb_heap hb)" using s(1) assms(2) FlushCounter by (simp add: places_ok_def flush_places_def)
    define x where "x = hb_heap hb ! c"
    obtain s1 seen1 y where fc: "flush_counter interval (lookupTaskRuntimeStats tf (cn_name x) hb) x pkts su seen = (s1, seen1, y)"
      by (metis surj_pair)
    have g: "flush_step tf sf interval fl hb = hb\<lparr>hb_heap := (hb_heap hb)[c := y], hb_loop := LoopRuns interval (FlushCounters s1 seen1 cs)\<rparr>"
      using fc FlushCounter by (simp add: Let_def x_def)
    note f = flush_counter_frame [OF fc]
    have "total_ok (hb_adds hb) c y"
      by (rule flush_counter_total [OF _ fc]) (use s(2,3) p FlushCounter assms(2) in \<open>auto simp: totals_ok_def load_ok_def x_def\<close>)
    then have "totals_ok (flush_step tf sf interval fl hb)" using s(2) p unfolding g totals_ok_def by (auto simp: nth_upd)
    moreover have "places_ok (flush_step tf sf interval fl hb)" "load_ok (flush_step tf sf interval fl hb)"
      using s(1) p unfolding g places_ok_def load_ok_def by (auto simp: flush_places_def)
    moreover have "counters_held (flush_step tf sf interval fl hb) \<and> handles_hold (flush_step tf sf interval fl hb)"
      by (rule held_frame [OF hub_okD(1,2) [OF assms(1)]]) (use f p in \<open>auto simp: g x_def nth_upd\<close>)
    ultimately show ?thesis by (simp add: hub_ok_def stats_ok_def)
  next
    case (FlushTasks su seen)
    then show ?thesis using triv [of _ "hb_flushed hb"] by (simp add: flush_places_def load_ok_def)
  next
    case (FlushSenders su)
    then show ?thesis using triv by (simp add: flush_places_def load_ok_def Let_def)
  qed
qed

lemma plain_ok:
  assumes "hub_ok hb" "hb_counters hb' = hb_counters hb" "hb_handles hb' = hb_handles hb" "hb_heap hb' = hb_heap hb"
    "hb_adds hb' = hb_adds hb" "hb_loop hb' = hb_loop hb" "hb_sampleEvery hb' < 2 ^ 63"
  shows "hub_ok hb'"
  using assms by (simp add: hub_ok_def counters_held_def handles_hold_def stats_ok_def places_ok_def totals_ok_def load_ok_def)

lemma traffic_step_ok:
  assumes "hub_ok hb" "traffic_step l hb = Some hb'"
  shows "hub_ok hb'"
proof -
  note k = hub_okD [OF assms(1)]
  have se: "hb_sampleEvery hb < 2 ^ 63" using k(3) by (simp add: stats_ok_def places_ok_def)
  show ?thesis
  proof (cases l)
    case (AcquireCounter msg kvs)
    then show ?thesis using assms(2) acquire_held [OF k(1,2)] acquire_stats [OF k(1,3)] by (auto simp: hub_ok_def)
  next
    case (AddBytes i n)
    then have "i < length (hb_handles hb)" "hb' = add_begin i n hb" using assms(2) by (auto split: if_splits)
    then show ?thesis using add_begin_stats [OF k(2,3)] k
      by (auto simp: hub_ok_def add_begin_def Let_def counters_held_def handles_hold_def)
  next
    case (AddGoes i)
    then show ?thesis using assms add_goes_ok by (auto split: if_splits)
  next
    case (CloseHandle i)
    then have i: "i < length (hb_handles hb)" "hb' = close_handle i hb" using assms(2) by (auto split: if_splits)
    have "stats_ok hb'"
      using k(3) by (simp add: i(2) close_handle_def Let_def stats_ok_def places_ok_def totals_ok_def load_ok_def)
    then show ?thesis using close_held [OF k(1,2) i(1)] i(2) by (simp add: hub_ok_def)
  next
    case (ReleaseHandle i)
    then show ?thesis using assms(2) release_held [OF k(1,2)] release_stats [OF k(3)] by (auto simp: hub_ok_def split: if_splits)
  next
    case LoopStarts
    then show ?thesis using assms k
      by (auto simp: hub_ok_def counters_held_def handles_hold_def stats_ok_def places_ok_def totals_ok_def load_ok_def flush_places_def split: if_splits)
  next
    case (LoopGoes tf sf)
    then show ?thesis using assms flush_step_ok by (auto split: loop_state.splits)
  next
    case (RegisterTask task fn)
    then show ?thesis using assms se by (auto intro!: plain_ok [OF assms(1)] simp: RegisterTaskRuntimeStats_def split: option.splits)
  next
    case (UnregisterSender reg)
    then show ?thesis using assms se by (auto intro!: plain_ok [OF assms(1)] simp: unregister_sender_def split: option.splits)
  next
    case (RegisterSender sender fn)
    then show ?thesis using assms se by (auto intro!: plain_ok [OF assms(1)] simp: RegisterSenderRuntimeStats_def Let_def split: option.splits)
  qed (use assms se in \<open>auto intro!: plain_ok [OF assms(1)] simp: SetTrafficStatsSampleEvery_def SetTrafficStatsInterval_def
      UnregisterTaskRuntimeStats_def UnregisterSenderRuntimeStats_def split: if_splits\<close>)
qed

lemma globalTrafficHub_ok: "hub_ok globalTrafficHub"
  by (simp add: hub_ok_def globalTrafficHub_def counters_held_def handles_hold_def stats_ok_def places_ok_def totals_ok_def load_ok_def wf_map_def)

lemma traffic_steps_ok:
  assumes "hub_ok hb" "traffic_steps ls hb = Some hb'"
  shows "hub_ok hb'"
  by (rule traffic.invariant [where P = hub_ok, OF traffic_step_ok assms(2,1)])

section \<open>What a summary names\<close>

definition task_msg :: string where "task_msg = ''task send traffic stats''"
definition receiver_msg :: string where "receiver_msg = ''receiver traffic stats''"

text \<open>The calls of \<open>AcquireTrafficCounter\<close> that the program makes.\<close>

definition known_call :: "traffic_label \<Rightarrow> bool" where
  "known_call l \<longleftrightarrow>
     (case l of AcquireCounter msg kvs \<Rightarrow>
        (msg = task_msg \<and> kvs = task_fields (kvs ! 3)) \<or> (msg = receiver_msg \<and> kvs = receiver_fields (kvs ! 3) (kvs ! 5) (kvs ! 7))
      | _ \<Rightarrow> True)"

definition meta_ok :: "traffic_counter \<Rightarrow> bool" where
  "meta_ok x \<longleftrightarrow> (cn_role x = ''task'' \<longrightarrow> cn_msg x = task_msg \<and> cn_fields x = task_fields (cn_name x))"

lemma task_key: "buildTrafficKey task_msg (task_fields name) = task_msg @ ''|role=task|task='' @ name @ ''|direction=send''"
  by (simp add: buildTrafficKey_def task_fields_def)

lemma meta_key_inj:
  assumes "meta_ok x" "meta_ok y" "cn_role x = ''task''" "cn_role y = ''task''" "cn_name x = cn_name y"
  shows "key_of x = key_of y"
  using assms by (simp add: meta_ok_def key_of_def)

lemma new_counter_meta:
  assumes "known_call (AcquireCounter msg kvs)"
  shows "meta_ok (new_counter s msg kvs)"
proof -
  consider (task) name where "msg = task_msg" "kvs = task_fields name" | (receiver) n k p where "msg = receiver_msg" "kvs = receiver_fields n k p"
    using assms unfolding known_call_def traffic_label.case by metis
  then show ?thesis
    by cases (simp_all add: meta_ok_def new_counter_def parseTrafficMeta_def task_fields_def receiver_fields_def traffic_meta_step_def)
qed

definition task_names :: "traffic_summary \<Rightarrow> string list" where
  "task_names s = map ta_Task (su_Tasks s)"

text \<open>The counters still to come are of tasks that the summary does not name yet.\<close>

definition apart_from :: "traffic_counter list \<Rightarrow> nat list \<Rightarrow> string list \<Rightarrow> bool" where
  "apart_from heap cs names \<longleftrightarrow>
     distinct (names @ map (\<lambda>c. cn_name (heap ! c)) (filter (\<lambda>c. cn_role (heap ! c) = ''task'') cs))"

definition seen_ok :: "string list \<Rightarrow> traffic_summary \<Rightarrow> bool" where
  "seen_ok seen s \<longleftrightarrow> set seen = set (task_names s) - {[]}"

fun flush_names :: "traffic_counter list \<Rightarrow> flush \<Rightarrow> bool" where
  "flush_names heap FlushIdle = True"
| "flush_names heap (FlushCounters s seen cs) = (apart_from heap cs (task_names s) \<and> seen_ok seen s)"
| "flush_names heap (FlushCounter s seen c pkts cs) = (apart_from heap (c # cs) (task_names s) \<and> seen_ok seen s)"
| "flush_names heap (FlushTasks s seen) = (distinct (task_names s) \<and> seen_ok seen s)"
| "flush_names heap (FlushSenders s) = distinct (task_names s)"

definition names_ok :: "traffic_hub \<Rightarrow> bool" where
  "names_ok hb \<longleftrightarrow>
     (\<forall>c < length (hb_heap hb). meta_ok (hb_heap hb ! c)) \<and> wf_map (hb_taskFns hb) \<and> [] \<notin> fst ` set (hb_taskFns hb) \<and>
     (\<forall>interval fl. hb_loop hb = LoopRuns interval fl \<longrightarrow> flush_names (hb_heap hb) fl) \<and>
     (\<forall>s \<in> set (hb_flushed hb). distinct (task_names s))"

definition same_meta :: "traffic_counter \<Rightarrow> traffic_counter \<Rightarrow> bool" where
  "same_meta x y \<longleftrightarrow> cn_msg y = cn_msg x \<and> cn_fields y = cn_fields x \<and> cn_role y = cn_role x \<and> cn_name y = cn_name x"

lemma apart_from_frame:
  assumes "apart_from heap cs names" "\<And>c. c \<in> set cs \<Longrightarrow> same_meta (heap ! c) (heap' ! c)"
  shows "apart_from heap' cs names"
proof -
  have "filter (\<lambda>c. cn_role (heap' ! c) = ''task'') cs = filter (\<lambda>c. cn_role (heap ! c) = ''task'') cs"
    by (rule filter_cong) (use assms(2) in \<open>auto simp: same_meta_def\<close>)
  moreover have "map (\<lambda>c. cn_name (heap' ! c)) (filter P cs) = map (\<lambda>c. cn_name (heap ! c)) (filter P cs)" for P
    by (rule map_cong) (use assms(2) in \<open>auto simp: same_meta_def\<close>)
  ultimately show ?thesis using assms(1) unfolding apart_from_def by (simp only:)
qed

lemma flush_names_frame:
  assumes "flush_names heap fl" "\<And>c. c \<in> set (flush_places fl) \<Longrightarrow> same_meta (heap ! c) (heap' ! c)"
  shows "flush_names heap' fl"
proof (cases fl)
  case (FlushCounters s seen cs)
  then show ?thesis using assms apart_from_frame [of heap cs _ heap'] by (simp add: flush_places_def)
next
  case (FlushCounter s seen c pkts cs)
  then show ?thesis using assms apart_from_frame [of heap "c # cs" _ heap'] by (simp add: flush_places_def)
qed (use assms(1) in simp_all)

lemma names_frame:
  assumes "names_ok hb" "places_ok hb" "hb_loop hb' = hb_loop hb \<or> hb_loop hb' = LoopNew \<or> hb_loop hb' = LoopRuns interval FlushIdle"
    "hb_flushed hb' = hb_flushed hb"
    "wf_map (hb_taskFns hb')" "[] \<notin> fst ` set (hb_taskFns hb')"
    "\<And>c. c < length (hb_heap hb) \<Longrightarrow> same_meta (hb_heap hb ! c) (hb_heap hb' ! c)"
    "\<And>c. length (hb_heap hb) \<le> c \<Longrightarrow> c < length (hb_heap hb') \<Longrightarrow> meta_ok (hb_heap hb' ! c)"
  shows "names_ok hb'"
proof -
  have "meta_ok (hb_heap hb' ! c)" if "c < length (hb_heap hb')" for c
  proof (cases "c < length (hb_heap hb)")
    case True
    then show ?thesis using assms(1) assms(7) [OF True] by (simp add: names_ok_def meta_ok_def same_meta_def)
  qed (use assms(8) that in simp)
  moreover have "flush_names (hb_heap hb') fl" if "hb_loop hb' = LoopRuns v fl" for v fl
  proof (cases "hb_loop hb' = hb_loop hb")
    case True
    have l: "hb_loop hb = LoopRuns v fl" using True that by simp
    show ?thesis
    proof (rule flush_names_frame)
      show "flush_names (hb_heap hb) fl" using assms(1) l by (simp add: names_ok_def)
      show "same_meta (hb_heap hb ! c) (hb_heap hb' ! c)" if "c \<in> set (flush_places fl)" for c
        by (rule assms(7)) (use that assms(2) l in \<open>simp add: places_ok_def\<close>)
    qed
  qed (use assms(3) that in auto)
  ultimately show ?thesis using assms(1,4,5,6) by (simp add: names_ok_def)
qed

lemma acquire_names:
  assumes "names_ok hb" "places_ok hb" "known_call (AcquireCounter msg kvs)"
  shows "names_ok (acquire msg kvs hb)"
proof (rule names_frame [OF assms(1,2)])
  fix c
  show "same_meta (hb_heap hb ! c) (hb_heap (acquire msg kvs hb) ! c)" if "c < length (hb_heap hb)"
    using that by (auto simp: acquire_def Let_def on_counter_def nth_append same_meta_def nth_upd split: option.splits)
  show "meta_ok (hb_heap (acquire msg kvs hb) ! c)" if "length (hb_heap hb) \<le> c" "c < length (hb_heap (acquire msg kvs hb))"
    using that new_counter_meta [OF assms(3)] by (auto simp: acquire_def Let_def on_counter_def nth_append split: option.splits)
qed (use assms(1) in \<open>auto simp: acquire_def Let_def on_counter_def names_ok_def split: option.splits\<close>)

lemma names_after_tasks:
  assumes "wf_map m" "distinct (task_names s)" "seen_ok seen s" "[] \<notin> fst ` set m"
  shows "distinct (task_names (fold (addRuntimeOnlyTask seen) m s))"
proof -
  have e: "task_names (fold (addRuntimeOnlyTask seen) m t) = task_names t @ filter (\<lambda>n. n \<notin> set seen) (map fst m)" for t
    by (induction m arbitrary: t) (auto simp: addRuntimeOnlyTask_def task_names_def applyRuntime_def new_aggregate_def Let_def)
  show ?thesis using assms unfolding e by (auto simp: wf_map_def seen_ok_def image_iff)
qed

lemma flush_counter_names:
  assumes "flush_counter interval rt x pkts s seen = (s1, seen1, y)"
  shows "task_names s1 = (if cn_role x = ''task'' then task_names s @ [cn_name x] else task_names s)"
    "seen1 = (if cn_role x = ''task'' \<and> cn_name x \<noteq> [] then seen @ [cn_name x] else seen)"
  using assms by (auto simp: flush_counter_def summary_item_def task_names_def applyRuntime_def new_aggregate_def Let_def
      split: if_splits prod.splits option.splits)

lemma snapshot_names:
  assumes "hub_ok hb" "names_ok hb"
  shows "apart_from (hb_heap hb) (map snd (hb_counters hb)) []"
proof -
  have wf: "wf_map (hb_counters hb)" using assms(1) by (simp add: hub_ok_def stats_ok_def places_ok_def)
  have g: "mget (hb_counters hb) k = Some c" if "(k, c) \<in> set (hb_counters hb)" for k c using wf that by (simp add: wf_map_def)
  have key: "key_of (hb_heap hb ! c) = k" "c < length (hb_heap hb)" if "(k, c) \<in> set (hb_counters hb)" for k c
    using counters_heldD(1,2) [OF hub_okD(1) [OF assms(1)] g [OF that]] by simp_all
  have "distinct (map (\<lambda>c. cn_name (hb_heap hb ! c)) (filter (\<lambda>c. cn_role (hb_heap hb ! c) = ''task'') (map snd m)))"
    if "set m \<subseteq> set (hb_counters hb)" "distinct (map fst m)" for m
    using that
  proof (induction m)
    case (Cons kc m)
    obtain k c where kc: "kc = (k, c)" by (cases kc)
    have "cn_name (hb_heap hb ! c) \<noteq> cn_name (hb_heap hb ! c')"
      if "(k', c') \<in> set m" "cn_role (hb_heap hb ! c) = ''task''" "cn_role (hb_heap hb ! c') = ''task''" for k' c'
    proof
      assume n: "cn_name (hb_heap hb ! c) = cn_name (hb_heap hb ! c')"
      have i: "(k, c) \<in> set (hb_counters hb)" "(k', c') \<in> set (hb_counters hb)" using that(1) Cons.prems(1) kc by auto
      have "meta_ok (hb_heap hb ! c)" "meta_ok (hb_heap hb ! c')" using assms(2) key(2) [OF i(1)] key(2) [OF i(2)] by (simp_all add: names_ok_def)
      from meta_key_inj [OF this that(2,3) n] key(1) [OF i(1)] key(1) [OF i(2)] have "k = k'" by simp
      then show False using that(1) Cons.prems(2) kc by force
    qed
    then show ?case using Cons kc by fastforce
  qed simp
  then show ?thesis using wf by (simp add: apart_from_def wf_map_def)
qed

lemma flush_step_names:
  assumes "hub_ok hb" "names_ok hb" "hb_loop hb = LoopRuns interval fl"
  shows "names_ok (flush_step tf sf interval fl hb)"
proof -
  have fn: "flush_names (hb_heap hb) fl" using assms(2,3) by (simp add: names_ok_def)
  have pl: "places_ok hb" using assms(1) by (simp add: hub_ok_def stats_ok_def)
  have nx: "names_ok (hb\<lparr>hb_loop := LoopRuns interval fl', hb_flushed := su\<rparr>)"
    if "flush_names (hb_heap hb) fl'" "\<forall>s \<in> set su. distinct (task_names s)" for fl' su
    using assms(2) that by (simp add: names_ok_def)
  have fl': "\<forall>s \<in> set (hb_flushed hb). distinct (task_names s)" using assms(2) by (simp add: names_ok_def)
  show ?thesis
  proof (cases fl)
    case FlushIdle
    then show ?thesis using nx [OF _ fl'] snapshot_names [OF assms(1,2)] by (simp add: seen_ok_def task_names_def)
  next
    case (FlushCounters su seen cs)
    then show ?thesis using nx [OF _ fl'] fn by (cases cs) (simp_all add: apart_from_def)
  next
    case (FlushCounter su seen c pkts cs)
    obtain s1 seen1 y where fc: "flush_counter interval (lookupTaskRuntimeStats tf (cn_name (hb_heap hb ! c)) hb) (hb_heap hb ! c) pkts su seen = (s1, seen1, y)"
      by (metis surj_pair)
    have g: "flush_step tf sf interval fl hb = hb\<lparr>hb_heap := (hb_heap hb)[c := y], hb_loop := LoopRuns interval (FlushCounters s1 seen1 cs)\<rparr>"
      using fc FlushCounter by (simp add: Let_def)
    have y: "same_meta (hb_heap hb ! c) y" using flush_counter_frame [OF fc] by (simp add: same_meta_def)
    then have m: "same_meta (hb_heap hb ! c') ((hb_heap hb)[c := y] ! c')" for c' by (simp add: nth_upd same_meta_def)
    have "apart_from (hb_heap hb) cs (task_names s1) \<and> seen_ok seen1 s1"
      using fn FlushCounter flush_counter_names [OF fc] by (auto simp: apart_from_def seen_ok_def)
    then have "flush_names ((hb_heap hb)[c := y]) (FlushCounters s1 seen1 cs)" using apart_from_frame m by simp blast
    moreover have "meta_ok ((hb_heap hb)[c := y] ! c')" if "c' < length (hb_heap hb)" for c'
      using assms(2) that m [of c'] by (simp add: names_ok_def meta_ok_def same_meta_def)
    ultimately show ?thesis using assms(2) by (simp add: g names_ok_def)
  next
    case (FlushTasks su seen)
    have "wf_map (listTaskRuntimeStats tf hb)" "[] \<notin> fst ` set (listTaskRuntimeStats tf hb)"
      using assms(2) by (auto simp: names_ok_def listTaskRuntimeStats_def wf_map_def comp_def case_prod_beta image_iff)
    from names_after_tasks [OF this(1) _ _ this(2), of su seen] show ?thesis using nx [OF _ fl'] fn FlushTasks by simp
  next
    case (FlushSenders su)
    have "task_names (fold addSenderRuntime m t) = task_names t" for m t
      by (induction m arbitrary: t) (simp_all add: addSenderRuntime_def task_names_def)
    then show ?thesis using nx fl' fn FlushSenders by (simp add: Let_def)
  qed
qed

lemma traffic_step_names:
  assumes "known_call l" "hub_ok hb \<and> names_ok hb" "traffic_step l hb = Some hb'"
  shows "hub_ok hb' \<and> names_ok hb'"
proof -
  have ok: "hub_ok hb" "names_ok hb" "places_ok hb" using assms(2) by (simp_all add: hub_ok_def stats_ok_def)
  have fns: "wf_map (hb_taskFns hb)" "[] \<notin> fst ` set (hb_taskFns hb)" using ok(2) by (simp_all add: names_ok_def)
  have "names_ok hb'"
  proof (cases l)
    case (AcquireCounter msg kvs)
    then have "known_call (AcquireCounter msg kvs)" "hb' = acquire msg kvs hb" using assms(1,3) by simp_all
    then show ?thesis using acquire_names [OF ok(2,3)] by simp
  next
    case (AddGoes i)
    then have hb': "hb' = add_goes i hb" using assms(3) by (auto split: if_splits)
    obtain b y where st: "add_step (hb_adds hb ! i) (hb_heap hb ! ad_c (hb_adds hb ! i)) = (b, y)" by fastforce
    then show ?thesis unfolding hb'
      by (intro names_frame [OF ok(2,3)])
        (use fns st add_step_frame [OF st] in \<open>simp_all add: add_goes_def Let_def nth_upd same_meta_def\<close>)
  next
    case (LoopGoes tf sf)
    then show ?thesis using assms(3) flush_step_names [OF ok(1,2)] by (auto split: loop_state.splits)
  next
    case (ReleaseHandle i)
    then show ?thesis using assms(3) fns
      by (intro names_frame [OF ok(2,3)])
        (auto simp: release_handle_def release_def on_counter_def Let_def same_meta_def nth_upd split: option.splits if_splits)
  next
    case (RegisterTask task fn)
    then consider "hb' = hb" | f where "task \<noteq> []" "hb' = hb\<lparr>hb_taskFns := mset_at task f (hb_taskFns hb)\<rparr>"
      using assms(3) by (auto simp: RegisterTaskRuntimeStats_def split: option.splits if_splits)
    then show ?thesis
    proof cases
      case (2 f)
      have "[] \<notin> fst ` set (mset_at task f (hb_taskFns hb))" using fns(2) 2(1) by (simp add: dom_update)
      then show ?thesis using fns(1) by (intro names_frame [OF ok(2,3)]) (simp_all add: 2(2) same_meta_def)
    qed (use ok(2) in simp)
  next
    case (UnregisterTask task)
    then consider "hb' = hb" | "hb' = hb\<lparr>hb_taskFns := mdel task (hb_taskFns hb)\<rparr>"
      using assms(3) by (auto simp: UnregisterTaskRuntimeStats_def split: if_splits)
    then show ?thesis
    proof cases
      case 2
      have "[] \<notin> fst ` set (mdel task (hb_taskFns hb))" using fns(2) by (auto simp: image_iff AList.delete_eq)
      then show ?thesis using fns(1) by (intro names_frame [OF ok(2,3)]) (simp_all add: 2 same_meta_def)
    qed (use ok(2) in simp)
  qed (use assms(3) fns in \<open>auto intro!: names_frame [OF ok(2,3)] simp: same_meta_def add_begin_def close_handle_def Let_def
      SetTrafficStatsSampleEvery_def SetTrafficStatsInterval_def RegisterSenderRuntimeStats_def unregister_sender_def
      UnregisterSenderRuntimeStats_def split: if_splits option.splits\<close>)
  then show ?thesis using traffic_step_ok [OF ok(1) assms(3)] by simp
qed

lemma traffic_steps_names:
  assumes "list_all known_call ls" "traffic_steps ls globalTrafficHub = Some hb"
  shows "names_ok hb"
proof -
  have "set ls \<subseteq> Collect known_call" using assms(1) by (auto simp: list_all_iff)
  moreover have "hub_ok globalTrafficHub \<and> names_ok globalTrafficHub"
    using globalTrafficHub_ok by (simp add: names_ok_def globalTrafficHub_def wf_map_def)
  ultimately show ?thesis
    using traffic.invariant_along [of "Collect known_call" "\<lambda>hb. hub_ok hb \<and> names_ok hb", OF _ assms(2)] traffic_step_names by blast
qed

section \<open>Properties\<close>

text \<open>C26: counters live exactly as long as their handles, in every interleaving of acquiring, counting, closing and flushing: a key
  is in the hub exactly when a handle with it was not yet given back, the reference count of its counter is the number
  of these handles, and all of them share that one counter.\<close>

theorem traffic_counters_follow_handles:
  assumes "traffic_steps ls globalTrafficHub = Some hb"
  shows "(mget (hb_counters hb) key \<noteq> None \<longleftrightarrow> 0 < holders (hb_handles hb) key) \<and>
    (\<forall>c. mget (hb_counters hb) key = Some c \<longrightarrow> cn_refs (hb_heap hb ! c) = int (holders (hb_handles hb) key)) \<and>
    list_all (\<lambda>h. \<not> hd_released h \<longrightarrow> mget (hb_counters hb) (hd_key h) = Some (hd_c h)) (hb_handles hb)"
proof -
  have ok: "hub_ok hb" by (rule traffic_steps_ok [OF globalTrafficHub_ok assms])
  note k = hub_okD(1,2) [OF ok]
  have "mget (hb_counters hb) key \<noteq> None" if "0 < holders (hb_handles hb) key" using holders_none [OF k(2), of key] that by fastforce
  moreover have "list_all (\<lambda>h. \<not> hd_released h \<longrightarrow> mget (hb_counters hb) (hd_key h) = Some (hd_c h)) (hb_handles hb)"
    using k(2) by (simp add: handles_hold_def list_all_iff)
  ultimately show ?thesis using counters_heldD(3,4) [OF k(1), of key] by blast
qed

text \<open>C27: the totals of a counter are those of the calls of \<open>AddBytes\<close>, whatever their interleaving: when no call is at work on it, its packets are the
  number of calls rounded down to a multiple of the sample rate, its bytes are the sizes of the sampled calls times the rate, and with rate 1 both are
  exact. The interval packets of the summaries add up to the total of the last one: no call is counted twice.\<close>

theorem traffic_totals_exact:
  assumes "traffic_steps ls globalTrafficHub = Some hb" "c < length (hb_heap hb)" "length (cn_sizes (hb_heap hb ! c)) < 2 ^ 64"
    and "list_all (\<lambda>a. ad_c a \<noteq> c) (hb_adds hb)"
  shows "let x = hb_heap hb ! c; s = unat (cn_sample x); n = length (cn_sizes x) in
    unat (cn_packets x) = s * (n div s) \<and> n < unat (cn_packets x) + s \<and>
    cn_bytes x = word_of_int (int s * sampled s (cn_sizes x)) \<and>
    (s = 1 \<longrightarrow> unat (cn_packets x) = n \<and> cn_bytes x = word_of_int (sum_list (cn_sizes x))) \<and>
    sum_list (map unat (cn_reports x)) = unat (cn_lastPkt x) \<and> unat (cn_lastPkt x) \<le> unat (cn_packets x)"
proof -
  have "hub_ok hb" by (rule traffic_steps_ok [OF globalTrafficHub_ok assms(1)])
  then have t: "total_ok (hb_adds hb) c (hb_heap hb ! c)" using assms(2) by (simp add: hub_ok_def stats_ok_def totals_ok_def)
  have e: "open_adds ph c (hb_adds hb) = []" for ph using assms(4) by (auto simp: open_adds_def filter_empty_conv list_all_iff)
  define x where "x = hb_heap hb ! c"
  define s where "s = unat (cn_sample x)"
  define n where "n = length (cn_sizes x)"
  have v: "0 < s" "unat (cn_packets x) = s * (n div s)" "cn_bytes x = cn_sample x * of_int (sampled s (cn_sizes x))"
    "sum_list (map unat (cn_reports x)) = unat (cn_lastPkt x)" "cn_lastPkt x \<le> cn_packets x"
    using t e assms(3) by (simp_all add: total_ok_def Let_def x_def s_def n_def)
  have "n < s * (n div s) + s" using v(1) by (metis add.commute div_mult_mod_eq mult.commute mod_less_divisor nat_add_left_cancel_less)
  moreover have "cn_bytes x = word_of_int (int s * sampled s (cn_sizes x))" using v(3) by (simp add: s_def)
  ultimately show ?thesis using v sampled_one [of "cn_sizes x"]
    by (auto simp: Let_def x_def [symmetric] s_def [symmetric] n_def [symmetric] word_le_nat_alt)
qed

text \<open>No summary names a task twice: with the calls the program makes, each flush, whatever counters and functions come and go while it
  runs, merges the counters and the registered functions of a task into one entry.\<close>

theorem summary_names_tasks_once:
  assumes "list_all known_call ls" "traffic_steps ls globalTrafficHub = Some hb"
  shows "list_all (\<lambda>s. distinct (map ta_Task (su_Tasks s))) (hb_flushed hb)"
  using traffic_steps_names [OF assms] by (simp add: names_ok_def task_names_def list_all_iff)

section \<open>Witnesses\<close>

definition sample_task_stats :: "nat \<Rightarrow> task_runtime_stats" where
  "sample_task_stats i = \<lparr>ts_ExecutionModel = ''channel'', ts_PoolSize = 0, ts_ChannelQueueSize = 8, ts_ChannelQueueUsed = int i,
     ts_ChannelQueueAvailable = 8 - int i, ts_Inflight = 0, ts_RouteSenderMiss = 0, ts_WorkerPoolRunning = 0, ts_WorkerPoolFree = 0,
     ts_WorkerPoolWaiting = 0\<rparr>"

definition sample_sender_stats :: "nat \<Rightarrow> sender_stats" where
  "sample_sender_stats i = \<lparr>ss_QueueSize = 4, ss_QueueUsed = 1, ss_QueueAvailable = 3, ss_Dropped = 0, ss_SendErrors = 0, ss_SendSuccess = 2\<rparr>"

text \<open>A task is rebuilt: two handles on one counter, three packets, a flush in between.\<close>

definition sample_traffic :: "traffic_label list" where
  "sample_traffic =
     [AcquireCounter task_msg (task_fields ''t''), RegisterTask ''t'' (Some 1), RegisterTask ''u'' (Some 2), RegisterSender ''k'' (Some 0), AddBytes 0 10,
      AddGoes 0, AddGoes 0, AddGoes 0, LoopStarts, AcquireCounter task_msg (task_fields ''t''), CloseHandle 0, AddBytes 1 20, AddBytes 1 30] @
     replicate 6 (LoopGoes sample_task_stats sample_sender_stats) @
     [AddGoes 1, AddGoes 0, AddGoes 1, AddGoes 0, AddGoes 1, AddGoes 0, ReleaseHandle 0]"

lemma sample_traffic_ends: "traffic_steps sample_traffic globalTrafficHub \<noteq> None"
  by code_simp

definition sample_hub :: traffic_hub where
  "sample_hub = the (traffic_steps sample_traffic globalTrafficHub)"

lemma sample_hub: "traffic_steps sample_traffic globalTrafficHub = Some sample_hub"
  unfolding sample_hub_def by (rule option.collapse [symmetric]) (rule sample_traffic_ends)

lemma sample_hub_facts:
  "length (hb_heap sample_hub) = 1" "cn_sizes (hb_heap sample_hub ! 0) = [10, 30, 20]" "hb_adds sample_hub = []"
  "cn_sample (hb_heap sample_hub ! 0) = 1" "holders (hb_handles sample_hub) (buildTrafficKey task_msg (task_fields ''t'')) = 1"
  by code_simp+

lemma sample_hub_flushed: "map (map ta_Task \<circ> su_Tasks) (hb_flushed sample_hub) = [[''t'', ''u'']]"
  by code_simp

theorem traffic_counters_follow_handles_witness:
  "mget (hb_counters sample_hub) (buildTrafficKey task_msg (task_fields ''t'')) \<noteq> None"
  using traffic_counters_follow_handles [OF sample_hub, of "buildTrafficKey task_msg (task_fields ''t'')"] sample_hub_facts(5) by simp

theorem traffic_totals_exact_witness:
  "unat (cn_packets (hb_heap sample_hub ! 0)) = 3 \<and> cn_bytes (hb_heap sample_hub ! 0) = 60"
  using traffic_totals_exact [OF sample_hub, of 0] sample_hub_facts unfolding Let_def by force

theorem summary_names_tasks_once_witness:
  "hb_flushed sample_hub \<noteq> [] \<and> list_all (\<lambda>s. distinct (map ta_Task (su_Tasks s))) (hb_flushed sample_hub)"
proof
  have "list_all known_call sample_traffic" by code_simp
  then show "list_all (\<lambda>s. distinct (map ta_Task (su_Tasks s))) (hb_flushed sample_hub)" by (rule summary_names_tasks_once [OF _ sample_hub])
qed (use sample_hub_flushed in auto)

end
