(* ===== verification/StageProps.thy ===== *)
theory StageProps
  imports Compiler
begin

text \<open>
  What the compiled stages do to a packet, stated over \<open>compileStage\<close> and \<open>CompilePipelines\<close>: the
  offset stages against the window of the payload they name, the routing stage against the
  configured cases, and the pipelines as a whole. A payload and a configured byte string are
  Go slices, so their lengths are 64-bit integers (\<open>go_len\<close>).
\<close>

definition go_len :: "'a list \<Rightarrow> bool" where
  "go_len xs \<longleftrightarrow> in64 (int (length xs))"

text \<open>The bytes of the payload from an offset on, when the payload has that many.\<close>

definition window :: "bytes \<Rightarrow> int \<Rightarrow> nat \<Rightarrow> bytes option" where
  "window bs off n =
     (if 0 \<le> off \<and> off + int n \<le> int (length bs) then Some (take n (drop (nat off) bs)) else None)"

lemma window_Some: "window bs off n = Some w \<Longrightarrow> length w = n \<and> 0 \<le> off \<and> off + int n \<le> int (length bs)"
  by (auto simp: window_def split: if_splits)

text \<open>The bounds test of the offset stages: the sum may wrap around, and then it is rejected.\<close>

lemma bounds_test:
  assumes "in64 off" "go_len bs" "in64 (int n)"
  shows "(\<not> off < 0 \<and> \<not> wrap64 (off + int n) < off \<and> \<not> int (length bs) < wrap64 (off + int n))
    \<longleftrightarrow> 0 \<le> off \<and> off + int n \<le> int (length bs)"
proof (cases "0 \<le> off \<and> in64 (off + int n)")
  case True
  then show ?thesis by (auto simp: wrap64_id)
next
  case False
  show ?thesis
  proof (cases "off < 0")
    case neg: False
    then have "\<not> in64 (off + int n)" using False by simp
    then have "wrap64 (off + int n) < off" using neg assms by (simp add: wrap64_add_less_iff)
    moreover have "\<not> off + int n \<le> int (length bs)"
      using \<open>\<not> in64 (off + int n)\<close> neg assms by (auto simp: go_len_def in64_def)
    ultimately show ?thesis by simp
  qed simp
qed

lemma byte_slice_window:
  assumes "window bs off n = Some w" "in64 off" "go_len bs" "in64 (int n)"
  shows "byte_slice bs off (wrap64 (off + int n)) = w"
proof -
  have "in64 (off + int n)" using window_Some [OF assms(1)] assms by (auto simp: go_len_def in64_def)
  then show ?thesis using assms(1) by (auto simp: wrap64_id byte_slice_def window_def split: if_splits)
qed

text \<open>The shape the four offset stages share.\<close>

lemma offset_guard:
  assumes "in64 off" "go_len (Payload p)" "in64 (int n)"
  shows "(if off < 0 then drop_all
      else let stop = wrap64 (off + int n) in
        if stop < off then drop_all
        else mapStage (\<lambda>q. if int (length (Payload q)) < stop then (False, q)
               else f (byte_slice (Payload q) off stop) q)) [p]
    = (case window (Payload p) off n of
         None \<Rightarrow> []
       | Some w \<Rightarrow> if fst (f w p) then [snd (f w p)] else [])"
proof (cases "window (Payload p) off n")
  case None
  then have "\<not> (0 \<le> off \<and> off + int n \<le> int (length (Payload p)))" by (auto simp: window_def split: if_splits)
  then show ?thesis using bounds_test [OF assms] None by (auto simp: Let_def mapStage_eq)
next
  case (Some w)
  then have "0 \<le> off \<and> off + int n \<le> int (length (Payload p))" by (auto dest: window_Some)
  then show ?thesis using bounds_test [OF assms] Some byte_slice_window [OF Some assms]
    by (auto simp: Let_def mapStage_eq)
qed

section \<open>The offset stages\<close>

lemma MatchOffsetBytes_single:
  assumes "in64 off" "go_len (Payload p)" "go_len want"
  shows "MatchOffsetBytes off want [p] = (if window (Payload p) off (length want) = Some want then [p] else [])"
proof -
  have "MatchOffsetBytes off want [p] =
    (case window (Payload p) off (length want) of None \<Rightarrow> []
     | Some w \<Rightarrow> if buildOffsetMatcher want w then [p] else [])"
    unfolding MatchOffsetBytes_def Let_def
    using offset_guard [OF assms(1,2) assms(3) [unfolded go_len_def], of "\<lambda>w q. (buildOffsetMatcher want w, q)"]
    unfolding Let_def fst_conv snd_conv .
  then show ?thesis by (auto simp: buildOffsetMatcher_eq dest: window_Some split: option.splits)
qed

lemma ReplaceOffsetBytes_single:
  assumes "in64 off" "go_len (Payload p)" "go_len wth"
  shows "ReplaceOffsetBytes off wth [p] =
    (if window (Payload p) off (length wth) = None then [] else [p\<lparr>Payload := overwrite (Payload p) off wth\<rparr>])"
proof -
  have "ReplaceOffsetBytes off wth [p] =
    (case window (Payload p) off (length wth) of None \<Rightarrow> []
     | Some w \<Rightarrow> if True then [p\<lparr>Payload := overwrite (Payload p) off wth\<rparr>] else [])"
    unfolding ReplaceOffsetBytes_def Let_def
    using offset_guard [OF assms(1,2) assms(3) [unfolded go_len_def],
      of "\<lambda>w q. (True, q\<lparr>Payload := overwrite (Payload q) off wth\<rparr>)"]
    unfolding Let_def fst_conv snd_conv .
  then show ?thesis by (auto split: option.splits)
qed

lemma overwrite_nth:
  assumes "window bs off (length wth) \<noteq> None" "i < length bs"
  shows "overwrite bs off wth ! i =
    (if int i < off then bs ! i else if int i < off + int (length wth) then wth ! (i - nat off) else bs ! i)"
  using assms by (auto simp: overwrite_def window_def nth_append min_def nat_less_iff split: if_splits)

lemma length_overwrite:
  "window bs off (length wth) \<noteq> None \<Longrightarrow> length (overwrite bs off wth) = length bs"
  by (auto simp: overwrite_def window_def split: if_splits)

lemma RouteSender_single:
  assumes "in64 off" "go_len (Payload p)" "in64 (int n)" "0 < n"
  shows "RouteSenderByOffsetBytes off (int n) routes dflt [p] =
    (case window (Payload p) off n of
       None \<Rightarrow> []
     | Some w \<Rightarrow>
         (case mget routes (str_of_bytes w) of
            Some sn \<Rightarrow> [set_meta (\<lambda>m. m\<lparr>RouteSender := sn\<rparr>) p]
          | None \<Rightarrow> if dflt \<noteq> [] then [set_meta (\<lambda>m. m\<lparr>RouteSender := dflt\<rparr>) p] else []))"
proof -
  define f where "f = (\<lambda>w q. (case mget routes (str_of_bytes w) of
            Some sn \<Rightarrow> (True, set_meta (\<lambda>m. m\<lparr>RouteSender := sn\<rparr>) q)
          | None \<Rightarrow> if dflt \<noteq> [] then (True, set_meta (\<lambda>m. m\<lparr>RouteSender := dflt\<rparr>) q) else (False, q)))"
  have "off < 0 \<or> int n \<le> 0 \<longleftrightarrow> off < 0" using assms(4) by simp
  then have "RouteSenderByOffsetBytes off (int n) routes dflt [p] =
    (case window (Payload p) off n of None \<Rightarrow> [] | Some w \<Rightarrow> if fst (f w p) then [snd (f w p)] else [])"
    unfolding RouteSenderByOffsetBytes_def Let_def
    using offset_guard [OF assms(1-3), of f] unfolding Let_def f_def by simp
  then show ?thesis by (auto simp: f_def split: option.splits)
qed

section \<open>The routing table\<close>

lemma compile_routes_ConsD:
  assumes "compile_routes cases (k # keys) kl rs = Inr r"
  shows "\<exists>v sn. hex_decode k = Inr v \<and> v \<noteq> [] \<and> (0 \<le> kl \<longrightarrow> int (length v) = kl) \<and>
    mget cases k = Some sn \<and> sn \<noteq> [] \<and>
    compile_routes cases keys (if kl < 0 then int (length v) else kl) (mset_at (str_of_bytes v) sn rs) = Inr r"
proof (cases "hex_decode k")
  case (Inr v)
  show ?thesis
  proof (cases "mget cases k")
    case None
    then show ?thesis using assms Inr by (simp add: Let_def split: if_split_asm)
  next
    case (Some sn)
    then show ?thesis using assms Inr by (simp add: Let_def split: if_split_asm)
  qed
qed (use assms in simp)

lemma compile_routes_skip:
  assumes "compile_routes cases keys kl rs = Inr (kl', rs')" "\<forall>hk \<in> set keys. hex_decode hk \<noteq> Inr w"
  shows "mget rs' (str_of_bytes w) = mget rs (str_of_bytes w)"
  using assms
proof (induction keys arbitrary: kl rs)
  case (Cons k keys)
  from compile_routes_ConsD [OF Cons.prems(1)] obtain v sn where
    v: "hex_decode k = Inr v" and
    r: "compile_routes cases keys (if kl < 0 then int (length v) else kl) (mset_at (str_of_bytes v) sn rs) = Inr (kl', rs')"
    by blast
  have "v \<noteq> w" using v Cons.prems(2) by auto
  then show ?case using Cons.IH [OF r] Cons.prems(2) by (simp add: str_of_bytes_inj)
qed simp

lemma compile_routes_hit:
  assumes "compile_routes cases keys kl rs = Inr (kl', rs')" "hk \<in> set keys" "hex_decode hk = Inr w"
    "\<forall>k \<in> set keys. hex_decode k = Inr w \<longrightarrow> k = hk" "distinct keys"
  shows "mget rs' (str_of_bytes w) = mget cases hk \<and> mget cases hk \<noteq> None"
  using assms
proof (induction keys arbitrary: kl rs)
  case (Cons k keys)
  from compile_routes_ConsD [OF Cons.prems(1)] obtain v sn where
    v: "hex_decode k = Inr v" "mget cases k = Some sn" and
    r: "compile_routes cases keys (if kl < 0 then int (length v) else kl) (mset_at (str_of_bytes v) sn rs) = Inr (kl', rs')"
    by blast
  show ?case
  proof (cases "k = hk")
    case True
    then have s: "\<forall>k' \<in> set keys. hex_decode k' \<noteq> Inr w" using Cons.prems(4,5) by (metis distinct.simps(2) list.set_intros(2))
    have "v = w" using v Cons.prems(3) True by simp
    then show ?thesis using compile_routes_skip [OF r s] v True by simp
  next
    case False
    then have "hk \<in> set keys" using Cons.prems(2) by (metis set_ConsD)
    moreover have "\<forall>k \<in> set keys. hex_decode k = Inr w \<longrightarrow> k = hk"
      using Cons.prems(4) by (metis list.set_intros(2))
    moreover have "distinct keys" using Cons.prems(5) by simp
    ultimately show ?thesis using Cons.IH [OF r _ Cons.prems(3)] by metis
  qed
qed simp

lemma compile_routes_length:
  assumes "compile_routes cases keys kl rs = Inr (kl', rs')"
  shows "(0 \<le> kl \<longrightarrow> kl' = kl) \<and> (\<forall>hk \<in> set keys. \<exists>w. hex_decode hk = Inr w \<and> w \<noteq> [] \<and> int (length w) = kl')"
  using assms
proof (induction keys arbitrary: kl rs)
  case (Cons k keys)
  from compile_routes_ConsD [OF Cons.prems(1)] obtain v sn where
    v: "hex_decode k = Inr v" "v \<noteq> []" "0 \<le> kl \<longrightarrow> int (length v) = kl" and
    r: "compile_routes cases keys (if kl < 0 then int (length v) else kl) (mset_at (str_of_bytes v) sn rs) = Inr (kl', rs')"
    by blast
  define kl1 where "kl1 = (if kl < 0 then int (length v) else kl)"
  have k1: "0 \<le> kl1" "0 \<le> kl \<longrightarrow> kl1 = kl" "int (length v) = kl1"
    using v(3) by (simp_all add: kl1_def split: if_split)
  note ih = Cons.IH [OF r [folded kl1_def]]
  have "kl' = kl1" using ih k1(1) by blast
  then show ?case using ih v(1,2) k1 by (metis set_ConsD)
qed simp

section \<open>Properties\<close>

text \<open>a compiled \<open>match_offset_bytes\<close> stage passes exactly the packets whose payload has the
  configured bytes at the configured offset, unchanged; a negative offset, a window that ends
  behind the payload and an offset whose sum overflows all drop the packet.\<close>

theorem compiled_match_exact:
  assumes "compileStage rx sc = Inr st" "st_Type sc = ''match_offset_bytes''" "hex_decode (st_Hex sc) = Inr want"
    and "in64 (st_Offset sc)" "go_len (Payload p)" "go_len want"
  shows "st [p] = (if window (Payload p) (st_Offset sc) (length want) = Some want then [p] else [])"
proof -
  have "st = MatchOffsetBytes (st_Offset sc) want" using assms(1-3) by (simp add: compileStage_def)
  then show ?thesis using assms(4-6) by (simp add: MatchOffsetBytes_single)
qed

definition sample_packet :: "bytes \<Rightarrow> packet" where
  "sample_packet bs = \<lparr>Kind = PayloadKindStream, Meta = zero_meta, Payload = bs, ReleaseFn = Some 0, paddr = 0\<rparr>"

definition sample_stage :: stage_config where
  "sample_stage = zero_stage_config\<lparr>st_Type := ''match_offset_bytes'', st_Offset := 1, st_Hex := ''0a''\<rparr>"

lemma hex_0a: "hex_decode ''0a'' = Inr [10]"
  by (simp add: from_hex_char_def Let_def)

theorem compiled_match_exact_witness:
  "MatchOffsetBytes 1 [10] [sample_packet [7, 10]] = [sample_packet [7, 10]] \<and>
   MatchOffsetBytes 1 [10] [sample_packet [7]] = []"
proof -
  have c: "compileStage (\<lambda>_. Inl (Errorf [] [])) sample_stage = Inr (MatchOffsetBytes 1 [10])"
    by (simp add: compileStage_def sample_stage_def zero_stage_config_def hex_0a del: hex_decode.simps)
  have t: "st_Type sample_stage = ''match_offset_bytes''" "hex_decode (st_Hex sample_stage) = Inr [10]"
    "in64 (st_Offset sample_stage)" "go_len ([10] :: bytes)" "go_len ([7, 10] :: bytes)" "go_len ([7] :: bytes)"
    by (simp_all add: sample_stage_def zero_stage_config_def hex_0a in64_def go_len_def del: hex_decode.simps)
  show ?thesis
    using compiled_match_exact [OF c t(1,2,3) _ t(4), of "sample_packet [7, 10]"]
      compiled_match_exact [OF c t(1,2,3) _ t(4), of "sample_packet [7]"] t
    by (simp add: sample_packet_def window_def sample_stage_def zero_stage_config_def)
qed

text \<open>A compiled \<open>replace_offset_bytes\<close> stage drops the packet whose payload is too short and
  otherwise writes the configured bytes over the window: the length, every byte outside the window,
  the metadata and the packet object stay.\<close>

theorem compiled_replace_exact:
  assumes "compileStage rx sc = Inr st" "st_Type sc = ''replace_offset_bytes''" "hex_decode (st_Hex sc) = Inr wth"
    and "in64 (st_Offset sc)" "go_len (Payload p)" "go_len wth"
  shows "(window (Payload p) (st_Offset sc) (length wth) = None \<and> st [p] = []) \<or>
    (\<exists>q. st [p] = [q] \<and> same_object p q \<and> Meta q = Meta p \<and> length (Payload q) = length (Payload p) \<and>
       (\<forall>i < length (Payload p). Payload q ! i =
          (if int i < st_Offset sc \<or> st_Offset sc + int (length wth) \<le> int i then Payload p ! i
           else wth ! (i - nat (st_Offset sc)))))"
proof -
  have st: "st = ReplaceOffsetBytes (st_Offset sc) wth" using assms(1-3) by (simp add: compileStage_def)
  show ?thesis
  proof (cases "window (Payload p) (st_Offset sc) (length wth)")
    case None
    then show ?thesis using st assms(4-6) by (simp add: ReplaceOffsetBytes_single)
  next
    case (Some w)
    then have w: "window (Payload p) (st_Offset sc) (length wth) \<noteq> None" by simp
    let ?q = "p\<lparr>Payload := overwrite (Payload p) (st_Offset sc) wth\<rparr>"
    have "st [p] = [?q]" using st assms(4-6) w by (simp add: ReplaceOffsetBytes_single)
    moreover have "same_object p ?q" by (simp add: same_object_def)
    ultimately show ?thesis using overwrite_nth [OF w] length_overwrite [OF w] by auto
  qed
qed

definition sample_replace :: stage_config where
  "sample_replace = zero_stage_config\<lparr>st_Type := ''replace_offset_bytes'', st_Offset := 1, st_Hex := ''0a''\<rparr>"

theorem compiled_replace_exact_witness:
  "\<exists>q. ReplaceOffsetBytes 1 [10] [sample_packet [7, 8, 9]] = [q] \<and> same_object (sample_packet [7, 8, 9]) q \<and>
     Payload q ! 0 = 7 \<and> Payload q ! 1 = 10 \<and> Payload q ! 2 = 9"
proof -
  have c: "compileStage (\<lambda>_. Inl (Errorf [] [])) sample_replace = Inr (ReplaceOffsetBytes 1 [10])"
    by (simp add: compileStage_def sample_replace_def zero_stage_config_def hex_0a del: hex_decode.simps)
  have t: "st_Type sample_replace = ''replace_offset_bytes''" "hex_decode (st_Hex sample_replace) = Inr [10]"
    "st_Offset sample_replace = 1" "in64 (st_Offset sample_replace)" "go_len ([10] :: bytes)"
    "go_len (Payload (sample_packet [7, 8, 9]))"
    by (simp_all add: sample_replace_def sample_packet_def zero_stage_config_def hex_0a in64_def go_len_def del: hex_decode.simps)
  have "window (Payload (sample_packet [7, 8, 9])) 1 1 \<noteq> None" by (simp add: window_def sample_packet_def)
  then obtain q where q: "ReplaceOffsetBytes 1 [10] [sample_packet [7, 8, 9]] = [q]"
    "same_object (sample_packet [7, 8, 9]) q"
    "\<forall>i < 3. Payload q ! i = (if int i < 1 \<or> 2 \<le> int i then [7, 8, 9] ! i else [10] ! (i - 1))"
    using compiled_replace_exact [OF c t(1,2,4,6,5)] t(3) by (auto simp: sample_packet_def)
  from q(3) have "Payload q ! 0 = 7" "Payload q ! 1 = 10" "Payload q ! 2 = 9" by simp_all
  with q(1,2) show ?thesis by blast
qed

text \<open>The case \<open>hk\<close> is the only one that spells the bytes \<open>w\<close>. (Two cases may differ only in the
  letter case of their hex digits; then the later key in string order wins.)\<close>

definition only_case :: "string gomap \<Rightarrow> string \<Rightarrow> bytes \<Rightarrow> bool" where
  "only_case cs hk w \<longleftrightarrow> hk \<in> set (mkeys cs) \<and> hex_decode hk = Inr w \<and>
     list_all (\<lambda>k. hex_decode k = Inr w \<longrightarrow> k = hk) (mkeys cs)"

definition no_case :: "string gomap \<Rightarrow> bytes \<Rightarrow> bool" where
  "no_case cs w \<longleftrightarrow> list_all (\<lambda>k. hex_decode k \<noteq> Inr w) (mkeys cs)"

definition routed :: "string \<Rightarrow> packet \<Rightarrow> packet" where
  "routed sn p = set_meta (\<lambda>m. m\<lparr>RouteSender := sn\<rparr>) p"

text \<open>A compiled \<open>route_offset_bytes_sender\<close> stage has one key length, that of every configured
  case; it routes a packet to the sender of the case its window spells (when one case decodes to
  it), to the default sender when no case does, and drops it when there is no default or the
  payload is too short.\<close>

theorem compiled_route_exact:
  assumes "compileStage rx sc = Inr st" "st_Type sc = ''route_offset_bytes_sender''"
    and "wf_map (elems (st_Cases sc))" "in64 (st_Offset sc)" "go_len (Payload p)"
    and "\<forall>hk \<in> set (mkeys (elems (st_Cases sc))). go_len hk"
  shows "\<exists>n. 0 < n \<and>
    (\<forall>hk \<in> set (mkeys (elems (st_Cases sc))). \<exists>w. hex_decode hk = Inr w \<and> length w = n) \<and>
    (window (Payload p) (st_Offset sc) n = None \<longrightarrow> st [p] = []) \<and>
    (\<forall>w hk. window (Payload p) (st_Offset sc) n = Some w \<longrightarrow> only_case (elems (st_Cases sc)) hk w \<longrightarrow>
       st [p] = [routed (the (mget (elems (st_Cases sc)) hk)) p]) \<and>
    (\<forall>w. window (Payload p) (st_Offset sc) n = Some w \<longrightarrow> no_case (elems (st_Cases sc)) w \<longrightarrow>
       st [p] = (if st_DefaultSender sc = [] then [] else [routed (st_DefaultSender sc) p]))"
proof -
  define cases where "cases = elems (st_Cases sc)"
  define keys where "keys = sort (mkeys cases)"
  have keys: "set keys = set (mkeys cases)" "distinct keys"
    using assms(3) by (simp_all add: keys_def cases_def wf_map_def)
  have ne: "cases \<noteq> []" using assms(1,2) by (auto simp: compileStage_def cases_def Let_def split: if_splits)
  then obtain kl rs where r: "compile_routes cases keys (- 1) [] = Inr (kl, rs)"
    and st: "st = RouteSenderByOffsetBytes (st_Offset sc) kl rs (st_DefaultSender sc)"
    using assms(1,2) by (auto simp: compileStage_def cases_def keys_def Let_def split: sum.splits prod.splits)
  from ne obtain hk0 where hk0: "hk0 \<in> set keys" using keys by (cases cases) auto
  with compile_routes_length [OF r] obtain w0 where w0: "hex_decode hk0 = Inr w0" "w0 \<noteq> []" "int (length w0) = kl"
    by blast
  define n where "n = length w0"
  have n: "0 < n" "kl = int n" using w0 by (simp_all add: n_def)
  have "go_len hk0" using assms(6) hk0 keys unfolding cases_def by blast
  then have "in64 (int n)" using length_hex_decode [OF w0(1)] by (simp add: n_def go_len_def in64_def)
  note single = RouteSender_single [OF assms(4,5) this n(1), of rs "st_DefaultSender sc", folded n(2), folded st]
  have len: "\<forall>hk \<in> set (mkeys cases). \<exists>w. hex_decode hk = Inr w \<and> length w = n"
    using compile_routes_length [OF r] keys n(2) by (metis of_nat_eq_iff)
  have hit: "st [p] = [routed (the (mget cases hk)) p]"
    if "window (Payload p) (st_Offset sc) n = Some w" "only_case cases hk w" for w hk
  proof -
    have "mget rs (str_of_bytes w) = mget cases hk \<and> mget cases hk \<noteq> None"
      by (rule compile_routes_hit [OF r _ _ _ keys(2)])
        (use that(2) in \<open>unfold keys(1) only_case_def list_all_iff, blast+\<close>)
    then obtain sn where "mget rs (str_of_bytes w) = Some sn" "mget cases hk = Some sn" by auto
    then show ?thesis unfolding single that(1) routed_def by simp
  qed
  have miss: "st [p] = (if st_DefaultSender sc = [] then [] else [routed (st_DefaultSender sc) p])"
    if "window (Payload p) (st_Offset sc) n = Some w" "no_case cases w" for w
  proof -
    have "mget rs (str_of_bytes w) = mget [] (str_of_bytes w)"
      by (rule compile_routes_skip [OF r]) (use that(2) in \<open>unfold keys(1) no_case_def list_all_iff\<close>)
    then have "mget rs (str_of_bytes w) = None" by simp
    then show ?thesis unfolding single that(1) routed_def by simp
  qed
  have drop: "st [p] = []" if "window (Payload p) (st_Offset sc) n = None" using single that by simp
  show ?thesis unfolding cases_def [symmetric]
    by (intro exI [of _ n] conjI allI impI) (rule n(1) len drop hit miss; assumption?)+
qed

definition sample_route :: stage_config where
  "sample_route = zero_stage_config\<lparr>st_Type := ''route_offset_bytes_sender'', st_Offset := 0,
     st_Cases := Some [(''0a'', ''s1'')], st_DefaultSender := ''s2''\<rparr>"

lemma sample_route_compiles:
  "compileStage (\<lambda>_. Inl (Errorf [] [])) sample_route =
    Inr (RouteSenderByOffsetBytes 0 1 [(str_of_bytes [10], ''s1'')] ''s2'')"
  by (simp add: compileStage_def sample_route_def zero_stage_config_def hex_0a del: hex_decode.simps)

theorem compiled_route_exact_witness:
  "RouteSenderByOffsetBytes 0 1 [(str_of_bytes [10], ''s1'')] ''s2'' [sample_packet [10]] =
     [routed ''s1'' (sample_packet [10])]"
proof -
  let ?st = "RouteSenderByOffsetBytes 0 1 [(str_of_bytes [10], ''s1'')] ''s2''"
  have f: "st_Type sample_route = ''route_offset_bytes_sender''" "elems (st_Cases sample_route) = [(''0a'', ''s1'')]"
    "st_Offset sample_route = 0" "Payload (sample_packet [10]) = [10]"
    by (simp_all add: sample_route_def zero_stage_config_def sample_packet_def)
  have h: "wf_map (elems (st_Cases sample_route))" "in64 (st_Offset sample_route)" "go_len (Payload (sample_packet [10]))"
    "\<forall>hk \<in> set (mkeys (elems (st_Cases sample_route))). go_len hk"
    by (simp_all add: f wf_map_def in64_def go_len_def)
  from compiled_route_exact [OF sample_route_compiles f(1) h] obtain n where n:
    "\<forall>hk \<in> set (mkeys (elems (st_Cases sample_route))). \<exists>w. hex_decode hk = Inr w \<and> length w = n"
    "\<forall>w hk. window (Payload (sample_packet [10])) (st_Offset sample_route) n = Some w \<longrightarrow>
       only_case (elems (st_Cases sample_route)) hk w \<longrightarrow>
       ?st [sample_packet [10]] = [routed (the (mget (elems (st_Cases sample_route)) hk)) (sample_packet [10])]"
    by blast
  have "n = 1" using n(1) by (simp add: f hex_0a del: hex_decode.simps)
  then have "window (Payload (sample_packet [10])) (st_Offset sample_route) n = Some [10]"
    by (simp add: f window_def)
  moreover have "only_case (elems (st_Cases sample_route)) ''0a'' [10]"
    by (simp add: f only_case_def hex_0a del: hex_decode.simps)
  ultimately show ?thesis using n(2) by (auto simp: f)
qed

text \<open>Every pipeline that \<open>CompilePipelines\<close> returns maps a packet to nothing or to one packet,
  which is the same object with the same buffer: no stage invents, duplicates or leaks a packet.\<close>

theorem compiled_pipelines_one_packet:
  assumes "CompilePipelines rx cfg = Inr out" "mget out name = Some pl"
  shows "pl_Name pl = name \<and> (Process pl p = [] \<or> (\<exists>q. Process pl p = [q] \<and> same_object p q))"
proof -
  have "pl_Name pl = name \<and> (\<forall>st \<in> set (pl_Stages pl). stage st)" using assms
  proof (induction cfg arbitrary: out)
    case (Cons c cfg)
    obtain n scs where c: "c = (n, scs)" by (cases c)
    from Cons.prems(1) c obtain sts out' where
      o: "compile_stages rx n (elems scs) = Inr sts" "CompilePipelines rx cfg = Inr out'"
        "out = (n, \<lparr>pl_Name = n, pl_Stages = sts\<rparr>) # out'"
      by (auto split: sum.splits)
    show ?case
    proof (cases "name = n")
      case True
      then show ?thesis using Cons.prems(2) o compile_stages_stage [OF o(1)] by auto
    qed (use Cons.IH [OF o(2)] Cons.prems(2) o in simp)
  qed simp
  then show ?thesis by (simp add: Process_single)
qed

theorem compiled_pipelines_one_packet_witness:
  "\<exists>pl. CompilePipelines (\<lambda>_. Inl (Errorf [] [])) [(''p'', Some [sample_route])] = Inr [(''p'', pl)] \<and>
     (Process pl (sample_packet [10]) = [] \<or>
      (\<exists>q. Process pl (sample_packet [10]) = [q] \<and> same_object (sample_packet [10]) q))"
proof -
  let ?pl = "\<lparr>pl_Name = ''p'', pl_Stages = [RouteSenderByOffsetBytes 0 1 [(str_of_bytes [10], ''s1'')] ''s2'']\<rparr>"
  have c: "CompilePipelines (\<lambda>_. Inl (Errorf [] [])) [(''p'', Some [sample_route])] = Inr [(''p'', ?pl)]"
    by (simp add: sample_route_compiles)
  from compiled_pipelines_one_packet [OF c, of "''p''"] c show ?thesis by auto
qed

end
