(* ===== verification/TaskRun.thy ===== *)
theory TaskRun
  imports Task "HOL-Library.Multiset"
begin

text \<open>
  The concurrent life of a task (\<open>src/src/task/task.go\<close>): \<open>Handle\<close> called by any number of
  goroutines, the goroutine pool or the channel worker that run the packets, \<open>StopGraceful\<close>. Each
  step of the relation \<open>run_step\<close> is what one goroutine does between two points where another can
  come in: the part of \<open>Handle\<close> under the read lock, the hand-over to the execution model,
  \<open>channelWorker\<close> taking a request, \<open>runPacket\<close>, the two parts of \<open>StopGraceful\<close> around its wait.

  The ghost lists say what became of every packet: \<open>handed\<close> to \<open>Handle\<close>, \<open>rejected\<close> at the door,
  \<open>dropped\<close> after it was accepted, \<open>processed\<close> by \<open>runPacket\<close>; \<open>enqueued\<close> and \<open>worked\<close> are the packets
  that entered the channel and that the worker finished, in order.
\<close>

section \<open>The state\<close>

text \<open>A request between the locked part of \<open>Handle\<close> and its hand-over, with what it read there.\<close>

record entry =
  en_pkt :: packet
  en_mode :: string
  en_pool :: bool
  en_ch :: "int option"

record run =
  ru_task :: task
  ru_out :: outside
  ru_entering :: "entry list"
  ru_queue :: "packet list"
  ru_worker :: "packet option"
  ru_running :: "packet list"
  ru_closed :: bool
  ru_handed :: "packet list"
  ru_rejected :: "packet list"
  ru_dropped :: "packet list"
  ru_processed :: "packet list"
  ru_enqueued :: "packet list"
  ru_worked :: "packet list"

definition init_run :: "task \<Rightarrow> outside \<Rightarrow> run" where
  "init_run t w =
     \<lparr>ru_task = t, ru_out = w, ru_entering = [], ru_queue = [], ru_worker = None, ru_running = [],
      ru_closed = False, ru_handed = [], ru_rejected = [], ru_dropped = [], ru_processed = [],
      ru_enqueued = [], ru_worked = []\<rparr>"

section \<open>The operations\<close>

definition release_out :: "packet \<Rightarrow> outside \<Rightarrow> outside" where
  "release_out p w = w\<lparr>o_pool := snd (Release p (o_pool w))\<rparr>"

text \<open>\<open>Handle\<close> up to the release of the read lock.\<close>

definition handle_enter :: "packet \<Rightarrow> run \<Rightarrow> run" where
  "handle_enter p r =
     (if \<not> tk_accepting (ru_task r) then
        r\<lparr>ru_out := release_out p (ru_out r), ru_handed := ru_handed r @ [p], ru_rejected := ru_rejected r @ [p]\<rparr>
      else let t = ru_task r;
               t' = t\<lparr>tk_inflightCount := tk_inflightCount t + 1, tk_inflight := tk_inflight t + 1\<rparr> in
        r\<lparr>ru_task := t', ru_handed := ru_handed r @ [p],
          ru_entering := ru_entering r @
            [\<lparr>en_pkt = p, en_mode = tk_ExecutionModel t', en_pool = tk_pool t', en_ch = tk_ch t'\<rparr>]\<rparr>)"

text \<open>The branches of \<open>Handle\<close> that give an accepted packet up.\<close>

definition give_up :: "packet \<Rightarrow> run \<Rightarrow> run" where
  "give_up p r =
     (let t = ru_task r in
      r\<lparr>ru_task := t\<lparr>tk_inflight := tk_inflight t - 1, tk_inflightCount := tk_inflightCount t - 1\<rparr>,
        ru_out := release_out p (ru_out r), ru_dropped := ru_dropped r @ [p]\<rparr>)"

definition enqueue :: "packet \<Rightarrow> run \<Rightarrow> run" where
  "enqueue p r = r\<lparr>ru_queue := ru_queue r @ [p], ru_enqueued := ru_enqueued r @ [p]\<rparr>"

definition run_packet :: "packet \<Rightarrow> run \<Rightarrow> run" where
  "run_packet p r =
     (let (t, w) = runPacket (ru_task r) p (ru_out r) in
      r\<lparr>ru_task := t, ru_out := w, ru_processed := ru_processed r @ [p]\<rparr>)"

definition stop_begin :: "run \<Rightarrow> run" where
  "stop_begin r = r\<lparr>ru_task := (ru_task r)\<lparr>tk_accepting := False\<rparr>\<rparr>"

text \<open>\<open>StopGraceful\<close> after its wait: the pool and the channel are taken away, the counter is closed.\<close>

definition stop_end :: "run \<Rightarrow> run" where
  "stop_end r =
     r\<lparr>ru_task := (ru_task r)\<lparr>tk_pool := False, tk_ch := None, tk_sendStats := None, tk_sendersByName := []\<rparr>,
       ru_closed := True\<rparr>"

inductive run_step :: "run \<Rightarrow> run \<Rightarrow> bool" where
  enter: "run_step r (handle_enter p r)"
| fastpath: "ru_entering r = xs @ e # ys \<Longrightarrow> en_mode e = ExecutionModelFastPath \<Longrightarrow>
    run_step r (r\<lparr>ru_entering := xs @ ys, ru_running := ru_running r @ [en_pkt e]\<rparr>)"
| submit: "ru_entering r = xs @ e # ys \<Longrightarrow> en_mode e = ExecutionModelPool \<Longrightarrow> en_pool e \<Longrightarrow>
    run_step r (r\<lparr>ru_entering := xs @ ys, ru_running := ru_running r @ [en_pkt e]\<rparr>)"
| submit_fails: "ru_entering r = xs @ e # ys \<Longrightarrow> en_mode e = ExecutionModelPool \<Longrightarrow>
    run_step r (give_up (en_pkt e) (r\<lparr>ru_entering := xs @ ys\<rparr>))"
| send_channel: "ru_entering r = xs @ e # ys \<Longrightarrow> en_mode e = ExecutionModelChannel \<Longrightarrow> en_ch e = Some c \<Longrightarrow>
    int (length (ru_queue r)) < c \<Longrightarrow>
    run_step r (enqueue (en_pkt e) (r\<lparr>ru_entering := xs @ ys\<rparr>))"
| cancelled: "ru_entering r = xs @ e # ys \<Longrightarrow> en_mode e = ExecutionModelChannel \<Longrightarrow>
    run_step r (give_up (en_pkt e) (r\<lparr>ru_entering := xs @ ys\<rparr>))"
| no_model: "ru_entering r = xs @ e # ys \<Longrightarrow>
    en_mode e \<notin> set [ExecutionModelFastPath, ExecutionModelPool, ExecutionModelChannel] \<Longrightarrow>
    run_step r (give_up (en_pkt e) (r\<lparr>ru_entering := xs @ ys\<rparr>))"
| worker_takes: "ru_worker r = None \<Longrightarrow> ru_queue r = p # ps \<Longrightarrow>
    run_step r (r\<lparr>ru_queue := ps, ru_worker := Some p\<rparr>)"
| worker_runs: "ru_worker r = Some p \<Longrightarrow>
    run_step r (run_packet p (r\<lparr>ru_worker := None, ru_worked := ru_worked r @ [p]\<rparr>))"
| runs: "ru_running r = xs @ p # ys \<Longrightarrow>
    run_step r (run_packet p (r\<lparr>ru_running := xs @ ys\<rparr>))"
| stop1: "run_step r (stop_begin r)"
| stop2: "\<not> tk_accepting (ru_task r) \<Longrightarrow> tk_inflight (ru_task r) = 0 \<Longrightarrow> run_step r (stop_end r)"

section \<open>The invariant\<close>

definition pending :: "run \<Rightarrow> packet list" where
  "pending r = map en_pkt (ru_entering r) @ ru_queue r @ (case ru_worker r of None \<Rightarrow> [] | Some p \<Rightarrow> [p]) @ ru_running r"

lemma mset_leases: "mset (leases (xs @ ys)) = mset (leases xs) + mset (leases ys)"
  by simp

definition run_inv :: "task \<Rightarrow> outside \<Rightarrow> run \<Rightarrow> bool" where
  "run_inv t0 w0 r \<longleftrightarrow>
     tk_Pipelines (ru_task r) = tk_Pipelines t0 \<and>
     tk_inflight (ru_task r) = length (pending r) \<and>
     tk_inflightCount (ru_task r) = int (length (pending r)) \<and>
     mset (ru_handed r) = mset (ru_rejected r) + mset (ru_dropped r) + mset (ru_processed r) + mset (pending r) \<and>
     mset (returned (o_pool (ru_out r))) = mset (returned (o_pool w0)) +
       mset (leases (ru_rejected r)) + mset (leases (ru_dropped r)) + mset (leases (ru_processed r)) \<and>
     ru_enqueued r = ru_worked r @ (case ru_worker r of None \<Rightarrow> [] | Some p \<Rightarrow> [p]) @ ru_queue r \<and>
     (ru_closed r \<longrightarrow> pending r = [] \<and> \<not> tk_accepting (ru_task r))"

lemma run_inv_init:
  "tk_inflight t0 = 0 \<Longrightarrow> tk_inflightCount t0 = 0 \<Longrightarrow> run_inv t0 w0 (init_run t0 w0)"
  by (simp add: run_inv_def init_run_def pending_def)

lemma release_out_returned: "returned (o_pool (release_out p w)) = returned (o_pool w) @ leases [p]"
  by (simp add: release_out_def Release_returned)

lemma inv_enter: "run_inv t0 w0 r \<Longrightarrow> run_inv t0 w0 (handle_enter p r)"
  unfolding run_inv_def handle_enter_def Let_def pending_def
  by (auto simp: release_out_returned split: option.splits)

lemma inv_move:
  assumes "run_inv t0 w0 r" "ru_entering r = xs @ e # ys"
  shows "run_inv t0 w0 (r\<lparr>ru_entering := xs @ ys, ru_running := ru_running r @ [en_pkt e]\<rparr>)"
  using assms unfolding run_inv_def pending_def by auto

lemma inv_give_up:
  assumes "run_inv t0 w0 r" "ru_entering r = xs @ e # ys"
  shows "run_inv t0 w0 (give_up (en_pkt e) (r\<lparr>ru_entering := xs @ ys\<rparr>))"
  using assms unfolding run_inv_def pending_def give_up_def Let_def
  by (auto simp: release_out_returned split: option.splits)

lemma inv_enqueue:
  assumes "run_inv t0 w0 r" "ru_entering r = xs @ e # ys"
  shows "run_inv t0 w0 (enqueue (en_pkt e) (r\<lparr>ru_entering := xs @ ys\<rparr>))"
  using assms unfolding run_inv_def pending_def enqueue_def by auto

lemma inv_take:
  assumes "run_inv t0 w0 r" "ru_worker r = None" "ru_queue r = p # ps"
  shows "run_inv t0 w0 (r\<lparr>ru_queue := ps, ru_worker := Some p\<rparr>)"
  using assms unfolding run_inv_def pending_def by auto

lemma run_packet_fields:
  assumes "good_pipelines (tk_Pipelines (ru_task r))"
  shows "tk_Pipelines (ru_task (run_packet p r)) = tk_Pipelines (ru_task r)"
    "tk_inflight (ru_task (run_packet p r)) = tk_inflight (ru_task r) - 1"
    "tk_inflightCount (ru_task (run_packet p r)) = tk_inflightCount (ru_task r) - 1"
    "tk_accepting (ru_task (run_packet p r)) = tk_accepting (ru_task r)"
    "returned (o_pool (ru_out (run_packet p r))) = returned (o_pool (ru_out r)) @ leases [p]"
    "o_sent (ru_out (run_packet p r)) = o_sent (ru_out r) @
       (case pipeline_output (ru_task r) p of None \<Rightarrow> [] | Some q \<Rightarrow> sends (ru_task r) q)"
    "ru_entering (run_packet p r) = ru_entering r" "ru_queue (run_packet p r) = ru_queue r"
    "ru_worker (run_packet p r) = ru_worker r" "ru_running (run_packet p r) = ru_running r"
    "ru_closed (run_packet p r) = ru_closed r" "ru_handed (run_packet p r) = ru_handed r"
    "ru_rejected (run_packet p r) = ru_rejected r" "ru_dropped (run_packet p r) = ru_dropped r"
    "ru_processed (run_packet p r) = ru_processed r @ [p]" "ru_enqueued (run_packet p r) = ru_enqueued r"
    "ru_worked (run_packet p r) = ru_worked r"
proof -
  obtain t w where e: "runPacket (ru_task r) p (ru_out r) = (t, w)" by fastforce
  note f = same_task_fields [OF runPacket_effect(1) [OF assms e]] runPacket_effect(2,3) [OF assms e]
  show "tk_Pipelines (ru_task (run_packet p r)) = tk_Pipelines (ru_task r)"
    "tk_inflight (ru_task (run_packet p r)) = tk_inflight (ru_task r) - 1"
    "tk_inflightCount (ru_task (run_packet p r)) = tk_inflightCount (ru_task r) - 1"
    "tk_accepting (ru_task (run_packet p r)) = tk_accepting (ru_task r)"
    "returned (o_pool (ru_out (run_packet p r))) = returned (o_pool (ru_out r)) @ leases [p]"
    "o_sent (ru_out (run_packet p r)) = o_sent (ru_out r) @
       (case pipeline_output (ru_task r) p of None \<Rightarrow> [] | Some q \<Rightarrow> sends (ru_task r) q)"
    "ru_entering (run_packet p r) = ru_entering r" "ru_queue (run_packet p r) = ru_queue r"
    "ru_worker (run_packet p r) = ru_worker r" "ru_running (run_packet p r) = ru_running r"
    "ru_closed (run_packet p r) = ru_closed r" "ru_handed (run_packet p r) = ru_handed r"
    "ru_rejected (run_packet p r) = ru_rejected r" "ru_dropped (run_packet p r) = ru_dropped r"
    "ru_processed (run_packet p r) = ru_processed r @ [p]" "ru_enqueued (run_packet p r) = ru_enqueued r"
    "ru_worked (run_packet p r) = ru_worked r"
    using f by (simp_all add: run_packet_def e)
qed

lemma inv_runs:
  assumes "run_inv t0 w0 r" "good_pipelines (tk_Pipelines t0)" "ru_running r = xs @ p # ys"
  shows "run_inv t0 w0 (run_packet p (r\<lparr>ru_running := xs @ ys\<rparr>))"
proof -
  have g: "good_pipelines (tk_Pipelines (ru_task (r\<lparr>ru_running := xs @ ys\<rparr>)))"
    using assms by (simp add: run_inv_def)
  show ?thesis using assms(1,3)
    unfolding run_inv_def pending_def run_packet_fields [OF g] by (auto split: option.splits)
qed

lemma inv_worker_runs:
  assumes "run_inv t0 w0 r" "good_pipelines (tk_Pipelines t0)" "ru_worker r = Some p"
  shows "run_inv t0 w0 (run_packet p (r\<lparr>ru_worker := None, ru_worked := ru_worked r @ [p]\<rparr>))"
proof -
  have g: "good_pipelines (tk_Pipelines (ru_task (r\<lparr>ru_worker := None, ru_worked := ru_worked r @ [p]\<rparr>)))"
    using assms by (simp add: run_inv_def)
  show ?thesis using assms(1,3)
    unfolding run_inv_def pending_def run_packet_fields [OF g] by (auto split: option.splits)
qed

lemma inv_stop_begin: "run_inv t0 w0 r \<Longrightarrow> run_inv t0 w0 (stop_begin r)"
  unfolding run_inv_def pending_def stop_begin_def by auto

lemma inv_stop_end:
  "run_inv t0 w0 r \<Longrightarrow> \<not> tk_accepting (ru_task r) \<Longrightarrow> tk_inflight (ru_task r) = 0 \<Longrightarrow> run_inv t0 w0 (stop_end r)"
  unfolding run_inv_def pending_def stop_end_def by auto

lemma run_inv_step:
  assumes "run_step r r'" "run_inv t0 w0 r" "good_pipelines (tk_Pipelines t0)"
  shows "run_inv t0 w0 r'"
  using assms
  by (induction rule: run_step.induct)
    (auto intro: inv_enter inv_move inv_give_up inv_enqueue inv_take inv_runs inv_worker_runs
       inv_stop_begin inv_stop_end simp del: set_simps)

lemma run_inv_steps:
  assumes "run_step\<^sup>*\<^sup>* r r'" "run_inv t0 w0 r" "good_pipelines (tk_Pipelines t0)"
  shows "run_inv t0 w0 r'"
  using assms by (induction rule: rtranclp_induct) (auto intro: run_inv_step)

section \<open>Draining\<close>

text \<open>Every pending packet can be brought to its end, whatever the execution model.\<close>

lemma drain_entering:
  assumes "ru_entering r = e # es"
  shows "\<exists>r'. run_step r r' \<and> ru_entering r' = es \<and> ru_closed r' = ru_closed r \<and>
    tk_accepting (ru_task r') = tk_accepting (ru_task r) \<and> ru_queue r' = ru_queue r \<and> ru_worker r' = ru_worker r"
proof -
  have e: "ru_entering r = [] @ e # es" using assms by simp
  consider "en_mode e = ExecutionModelFastPath" | "en_mode e = ExecutionModelPool"
    | "en_mode e = ExecutionModelChannel"
    | "en_mode e \<notin> set [ExecutionModelFastPath, ExecutionModelPool, ExecutionModelChannel]" by auto
  then show ?thesis
  proof cases
    case 1
    show ?thesis by (rule exI, rule conjI, rule run_step.fastpath [OF e 1]) (simp)
  next
    case 2
    show ?thesis by (rule exI, rule conjI, rule run_step.submit_fails [OF e 2]) (simp add: give_up_def Let_def)
  next
    case 3
    show ?thesis by (rule exI, rule conjI, rule run_step.cancelled [OF e 3]) (simp add: give_up_def Let_def)
  next
    case 4
    show ?thesis by (rule exI, rule conjI, rule run_step.no_model [OF e 4]) (simp add: give_up_def Let_def)
  qed
qed

lemma drain_all_entering:
  "\<exists>r'. run_step\<^sup>*\<^sup>* r r' \<and> ru_entering r' = [] \<and> tk_accepting (ru_task r') = tk_accepting (ru_task r) \<and>
     ru_queue r' = ru_queue r \<and> ru_worker r' = ru_worker r"
proof (induction "ru_entering r" arbitrary: r)
  case Nil
  then show ?case by auto
next
  case (Cons e es)
  from drain_entering [OF Cons.hyps(2) [symmetric]] obtain r1 where r1: "run_step r r1" "es = ru_entering r1"
    "tk_accepting (ru_task r1) = tk_accepting (ru_task r)" "ru_queue r1 = ru_queue r" "ru_worker r1 = ru_worker r"
    by auto
  from Cons.hyps(1) [OF r1(2)] r1 show ?case by (metis converse_rtranclp_into_rtranclp)
qed

lemma drain_queue:
  assumes "run_inv t0 w0 r" "good_pipelines (tk_Pipelines t0)" "ru_entering r = []"
  shows "\<exists>r'. run_step\<^sup>*\<^sup>* r r' \<and> ru_entering r' = [] \<and> tk_accepting (ru_task r') = tk_accepting (ru_task r) \<and>
     ru_queue r' = [] \<and> ru_worker r' = None"
  using assms
proof (induction "2 * length (ru_queue r) + (if ru_worker r = None then 0 else 1)" arbitrary: r rule: less_induct)
  case less
  show ?case
  proof (cases "ru_worker r")
    case (Some p)
    let ?r = "run_packet p (r\<lparr>ru_worker := None, ru_worked := ru_worked r @ [p]\<rparr>)"
    have st: "run_step r ?r" using Some by (rule run_step.worker_runs)
    have g: "good_pipelines (tk_Pipelines (ru_task (r\<lparr>ru_worker := None, ru_worked := ru_worked r @ [p]\<rparr>)))"
      using less.prems by (simp add: run_inv_def)
    note f = run_packet_fields [OF g]
    have "\<exists>r'. run_step\<^sup>*\<^sup>* ?r r' \<and> ru_entering r' = [] \<and> tk_accepting (ru_task r') = tk_accepting (ru_task ?r) \<and>
       ru_queue r' = [] \<and> ru_worker r' = None"
      by (rule less.hyps) (use Some less.prems st f in \<open>auto intro: run_inv_step\<close>)
    then show ?thesis using st f by (auto intro: converse_rtranclp_into_rtranclp)
  next
    case None
    show ?thesis
    proof (cases "ru_queue r")
      case Nil
      then show ?thesis using None less.prems by blast
    next
      case (Cons p ps)
      let ?r = "r\<lparr>ru_queue := ps, ru_worker := Some p\<rparr>"
      have st: "run_step r ?r" using None Cons by (rule run_step.worker_takes)
      have "\<exists>r'. run_step\<^sup>*\<^sup>* ?r r' \<and> ru_entering r' = [] \<and> tk_accepting (ru_task r') = tk_accepting (ru_task ?r) \<and>
         ru_queue r' = [] \<and> ru_worker r' = None"
        by (rule less.hyps) (use Cons None less.prems run_inv_step [OF st] in auto)
      then show ?thesis using st by (auto intro: converse_rtranclp_into_rtranclp)
    qed
  qed
qed

lemma drain_running:
  assumes "run_inv t0 w0 r" "good_pipelines (tk_Pipelines t0)" "ru_entering r = []" "ru_queue r = []" "ru_worker r = None"
  shows "\<exists>r'. run_step\<^sup>*\<^sup>* r r' \<and> pending r' = [] \<and> tk_accepting (ru_task r') = tk_accepting (ru_task r)"
  using assms
proof (induction "ru_running r" arbitrary: r)
  case Nil
  then show ?case by (auto simp: pending_def)
next
  case (Cons p ps)
  let ?r = "run_packet p (r\<lparr>ru_running := [] @ ps\<rparr>)"
  have st: "run_step r ?r" by (rule run_step.runs) (use Cons.hyps in simp)
  have g: "good_pipelines (tk_Pipelines (ru_task (r\<lparr>ru_running := [] @ ps\<rparr>)))"
    using Cons.prems by (simp add: run_inv_def)
  note f = run_packet_fields [OF g]
  have "\<exists>r'. run_step\<^sup>*\<^sup>* ?r r' \<and> pending r' = [] \<and> tk_accepting (ru_task r') = tk_accepting (ru_task ?r)"
    by (rule Cons.hyps(1)) (use Cons.prems st f in \<open>auto intro: run_inv_step\<close>)
  then show ?case using st f by (auto intro: converse_rtranclp_into_rtranclp)
qed

lemma drains:
  assumes "run_inv t0 w0 r" "good_pipelines (tk_Pipelines t0)"
  shows "\<exists>r'. run_step\<^sup>*\<^sup>* r r' \<and> pending r' = [] \<and> tk_accepting (ru_task r') = tk_accepting (ru_task r)"
proof -
  from drain_all_entering [of r] obtain r1 where r1: "run_step\<^sup>*\<^sup>* r r1" "ru_entering r1 = []"
    "tk_accepting (ru_task r1) = tk_accepting (ru_task r)" by blast
  have i1: "run_inv t0 w0 r1" by (rule run_inv_steps [OF r1(1) assms])
  from drain_queue [OF i1 assms(2) r1(2)] obtain r2 where r2: "run_step\<^sup>*\<^sup>* r1 r2" "ru_entering r2 = []"
    "tk_accepting (ru_task r2) = tk_accepting (ru_task r1)" "ru_queue r2 = []" "ru_worker r2 = None" by blast
  from drain_running [OF run_inv_steps [OF r2(1) i1 assms(2)] assms(2) r2(2,4,5)] obtain r3 where
    "run_step\<^sup>*\<^sup>* r2 r3" "pending r3 = []" "tk_accepting (ru_task r3) = tk_accepting (ru_task r2)" by blast
  then show ?thesis using r1 r2 by (metis rtranclp_trans)
qed

section \<open>Properties\<close>

text \<open>The sample task of the witnesses: no pipeline, two senders.\<close>

definition sample_task :: task where
  "sample_task = \<lparr>tk_Name = ''t'', tk_Pipelines = [],
     tk_Senders = [\<lparr>sr_id = 1, sr_name = ''a''\<rparr>, \<lparr>sr_id = 2, sr_name = ''b''\<rparr>],
     tk_PoolSize = 0, tk_ChannelQueueSize = 0, tk_ExecutionModel = ''channel'', tk_LogPayloadSend = False,
     tk_PayloadLogMax = 0, tk_pool = False, tk_ch = None, tk_sendStats = None, tk_sendersByName = [],
     tk_accepting = False, tk_inflight = 0, tk_inflightCount = 0, tk_routeSenderMiss = 0\<rparr>"

definition sample_pkt :: packet where
  "sample_pkt = \<lparr>Kind = PayloadKindStream, Meta = zero_meta, Payload = [1, 2], ReleaseFn = Some 0, paddr = 0\<rparr>"

definition sample_out :: outside where
  "sample_out = \<lparr>o_pool = \<lparr>next_lease = 1, next_addr = 1, returned = []\<rparr>, o_sent = [], o_packets = 0, o_bytes = 0\<rparr>"

text \<open>After \<open>Start\<close>, running a packet sends what leaves the pipelines, and nothing else, to the
  sender its \<open>RouteSender\<close> names when it names one of the task (to nobody when the name is not one of
  the task's), and to all senders in order otherwise; and it returns the packet's buffer exactly once.\<close>

theorem runPacket_sends_and_releases:
  assumes "Start newpool info counter t0 = Inr t" "good_pipelines (tk_Pipelines t0)"
    and "distinct (map sr_name (tk_Senders t0))" "runPacket t p w = (t', w')"
  shows "o_sent w' = o_sent w @
      (case pipeline_output t p of
         None \<Rightarrow> []
       | Some q \<Rightarrow> map (\<lambda>s. (s, envelope.truncate q))
           (if RouteSender (Meta q) = [] then tk_Senders t0
            else (case find (\<lambda>s. sr_name s = RouteSender (Meta q)) (tk_Senders t0) of None \<Rightarrow> [] | Some s \<Rightarrow> [s]))) \<and>
    returned (o_pool w') = returned (o_pool w) @ leases [p]"
proof -
  have t: "tk_Pipelines t = tk_Pipelines t0 \<and> tk_Senders t = tk_Senders t0 \<and>
      tk_sendersByName t = sender_index (tk_Senders t0) []"
    using assms(1) by (auto simp: Start_def start_resources_def rebuildSenderIndex_def Let_def
      split: if_splits option.splits sum.splits)
  have "sends t q = map (\<lambda>s. (s, envelope.truncate q))
    (if RouteSender (Meta q) = [] then tk_Senders t0
     else (case find (\<lambda>s. sr_name s = RouteSender (Meta q)) (tk_Senders t0) of None \<Rightarrow> [] | Some s \<Rightarrow> [s]))" for q
    using assms(3) t by (simp add: sends_def targets_def sender_index_get split: option.splits)
  then show ?thesis
    using runPacket_effect(2,3) [OF _ assms(4)] assms(2) t by (cases "pipeline_output t p") simp_all
qed

text \<open>The sample task as \<open>Start\<close> leaves it.\<close>

definition started :: task where
  "started = sample_task\<lparr>tk_PoolSize := 4096, tk_ChannelQueueSize := 8192, tk_ch := Some 8192,
     tk_sendersByName := [(''a'', \<lparr>sr_id = 1, sr_name = ''a''\<rparr>), (''b'', \<lparr>sr_id = 2, sr_name = ''b''\<rparr>)],
     tk_accepting := True\<rparr>"

lemma Start_sample: "Start (\<lambda>_. None) False 0 sample_task = Inr started"
  by (simp add: Start_def start_resources_def rebuildSenderIndex_def resolveExecutionModel_def execution_models
    sample_task_def started_def defaultPoolSize_def defaultChannelQueueSize_def)

lemma sample_good: "good_pipelines (tk_Pipelines sample_task)" "good_pipelines (tk_Pipelines started)"
  by (simp_all add: good_pipelines_def sample_task_def started_def)

theorem runPacket_sends_and_releases_witness:
  "o_sent (snd (runPacket started sample_pkt sample_out)) =
     [(\<lparr>sr_id = 1, sr_name = ''a''\<rparr>, envelope.truncate sample_pkt), (\<lparr>sr_id = 2, sr_name = ''b''\<rparr>, envelope.truncate sample_pkt)] \<and>
   returned (o_pool (snd (runPacket started sample_pkt sample_out))) = [0]"
proof -
  obtain t w where r: "runPacket started sample_pkt sample_out = (t, w)" by fastforce
  have d: "distinct (map sr_name (tk_Senders sample_task))" by (simp add: sample_task_def)
  have o: "pipeline_output started sample_pkt = Some sample_pkt"
    by (simp add: pipeline_output_def started_def sample_task_def)
  from runPacket_sends_and_releases [OF Start_sample sample_good(1) d r] r o show ?thesis
    by (simp add: sample_task_def sample_pkt_def sample_out_def zero_meta_def)
qed

text \<open>A run of the sample task: one packet goes through the channel, then the task is stopped.\<close>

definition sample_entered :: run where
  "sample_entered = handle_enter sample_pkt (init_run started sample_out)"

definition sample_queued :: run where
  "sample_queued = enqueue sample_pkt (sample_entered\<lparr>ru_entering := []\<rparr>)"

definition sample_taken :: run where
  "sample_taken = sample_queued\<lparr>ru_queue := [], ru_worker := Some sample_pkt\<rparr>"

definition sample_worked :: run where
  "sample_worked = run_packet sample_pkt (sample_taken\<lparr>ru_worker := None, ru_worked := ru_worked sample_taken @ [sample_pkt]\<rparr>)"

definition sample_stopped :: run where
  "sample_stopped = stop_end (stop_begin sample_worked)"

lemmas sample_run_defs = sample_entered_def sample_queued_def sample_taken_def sample_worked_def sample_stopped_def

lemma sample_entered_fields:
  "ru_entering sample_entered = [\<lparr>en_pkt = sample_pkt, en_mode = ''channel'', en_pool = False, en_ch = Some 8192\<rparr>]"
  "ru_queue sample_entered = []" "ru_worker sample_entered = None" "ru_running sample_entered = []"
  "tk_Pipelines (ru_task sample_entered) = []" "tk_inflight (ru_task sample_entered) = 1"
  "ru_handed sample_entered = [sample_pkt]"
  by (simp_all add: sample_entered_def handle_enter_def init_run_def started_def sample_task_def)

lemma sample_run: "run_step\<^sup>*\<^sup>* (init_run started sample_out) sample_stopped"
proof -
  have "run_step (init_run started sample_out) sample_entered"
    unfolding sample_entered_def by (rule run_step.enter)
  moreover have "run_step sample_entered sample_queued"
    using run_step.send_channel [of sample_entered "[]" _ "[]" 8192] unfolding sample_queued_def
    by (simp add: sample_entered_fields execution_models)
  moreover have "run_step sample_queued sample_taken"
    unfolding sample_taken_def by (rule run_step.worker_takes) (simp_all add: sample_queued_def enqueue_def sample_entered_fields)
  moreover have "run_step sample_taken sample_worked"
    unfolding sample_worked_def by (rule run_step.worker_runs) (simp add: sample_taken_def)
  moreover have "run_step sample_worked (stop_begin sample_worked)" by (rule run_step.stop1)
  moreover have "run_step (stop_begin sample_worked) sample_stopped"
    unfolding sample_stopped_def
  proof (rule run_step.stop2)
    have g: "good_pipelines (tk_Pipelines (ru_task (sample_taken\<lparr>ru_worker := None, ru_worked := ru_worked sample_taken @ [sample_pkt]\<rparr>)))"
      by (simp add: sample_taken_def sample_queued_def enqueue_def sample_entered_fields good_pipelines_def)
    show "tk_inflight (ru_task (stop_begin sample_worked)) = 0"
      using run_packet_fields(2) [OF g, of sample_pkt]
      by (simp add: stop_begin_def sample_worked_def sample_taken_def sample_queued_def enqueue_def sample_entered_fields)
  qed (simp add: stop_begin_def)
  ultimately show ?thesis by (meson converse_rtranclp_into_rtranclp rtranclp.rtrancl_refl)
qed

lemma started_idle: "tk_inflight started = 0" "tk_inflightCount started = 0"
  by (simp_all add: started_def sample_task_def)

text \<open>C6: in every reachable state of a task, whatever the interleaving, each packet handed to
  \<open>Handle\<close> is in exactly one place: rejected, dropped, processed, or pending; the counters of the
  packets in flight are the number of the pending ones, so the wait group never goes below zero;
  and the buffers given back are those of the packets that are no longer pending, each once.\<close>

theorem task_conserves_packets:
  assumes "tk_inflight t0 = 0" "tk_inflightCount t0 = 0" "good_pipelines (tk_Pipelines t0)"
    and "run_step\<^sup>*\<^sup>* (init_run t0 w0) r"
  shows "mset (ru_handed r) = mset (ru_rejected r) + mset (ru_dropped r) + mset (ru_processed r) + mset (pending r) \<and>
    tk_inflight (ru_task r) = length (pending r) \<and> tk_inflightCount (ru_task r) = int (length (pending r)) \<and>
    mset (returned (o_pool (ru_out r))) = mset (returned (o_pool w0)) +
      mset (leases (ru_rejected r)) + mset (leases (ru_dropped r)) + mset (leases (ru_processed r))"
  using run_inv_steps [OF assms(4) run_inv_init [OF assms(1,2)] assms(3)] unfolding run_inv_def by blast

theorem task_conserves_packets_witness:
  "mset (ru_handed sample_stopped) = mset (ru_rejected sample_stopped) + mset (ru_dropped sample_stopped) +
     mset (ru_processed sample_stopped) + mset (pending sample_stopped)"
  using task_conserves_packets [OF started_idle sample_good(2) sample_run] by blast

text \<open>Once \<open>StopGraceful\<close> has come through its wait, nothing is pending and nothing can come in:
  no request can reach the closed channel, and every packet ever handed to the task has given its
  buffer back exactly once.\<close>

theorem stopped_task_released_all:
  assumes "tk_inflight t0 = 0" "tk_inflightCount t0 = 0" "good_pipelines (tk_Pipelines t0)"
    and "run_step\<^sup>*\<^sup>* (init_run t0 w0) r" "ru_closed r"
  shows "ru_entering r = [] \<and> ru_queue r = [] \<and> ru_running r = [] \<and> \<not> tk_accepting (ru_task r) \<and>
    ru_entering (handle_enter p r) = [] \<and>
    mset (returned (o_pool (ru_out r))) = mset (returned (o_pool w0)) + image_mset the (filter_mset (\<lambda>l. l \<noteq> None) (image_mset ReleaseFn (mset (ru_handed r))))"
proof -
  have i: "run_inv t0 w0 r" by (rule run_inv_steps [OF assms(4) run_inv_init [OF assms(1,2)] assms(3)])
  have l: "mset (leases ps) = image_mset the (filter_mset (\<lambda>l. l \<noteq> None) (image_mset ReleaseFn (mset ps)))" for ps
    by (induction ps) (auto split: option.splits)
  from i assms(5) have p: "pending r = []" "\<not> tk_accepting (ru_task r)" by (simp_all add: run_inv_def)
  have "mset (ru_handed r) = mset (ru_rejected r) + mset (ru_dropped r) + mset (ru_processed r)"
    using i p by (simp add: run_inv_def)
  then show ?thesis using i p by (simp add: run_inv_def pending_def l handle_enter_def)
qed

theorem stopped_task_released_all_witness: "ru_entering sample_stopped = [] \<and> \<not> tk_accepting (ru_task sample_stopped)"
proof -
  have "ru_closed sample_stopped" by (simp add: sample_stopped_def stop_end_def)
  then show ?thesis using stopped_task_released_all [OF started_idle sample_good(2) sample_run] by blast
qed

text \<open>the channel execution model keeps the order: what the worker has finished, then what it
  holds, then what waits in the channel is exactly the sequence of packets that entered it.\<close>

theorem task_channel_is_fifo:
  assumes "tk_inflight t0 = 0" "tk_inflightCount t0 = 0" "good_pipelines (tk_Pipelines t0)"
    and "run_step\<^sup>*\<^sup>* (init_run t0 w0) r"
  shows "ru_enqueued r = ru_worked r @ (case ru_worker r of None \<Rightarrow> [] | Some p \<Rightarrow> [p]) @ ru_queue r"
  using run_inv_steps [OF assms(4) run_inv_init [OF assms(1,2)] assms(3)] unfolding run_inv_def by blast

theorem task_channel_is_fifo_witness:
  "ru_enqueued sample_stopped =
     ru_worked sample_stopped @ (case ru_worker sample_stopped of None \<Rightarrow> [] | Some p \<Rightarrow> [p]) @ ru_queue sample_stopped"
  by (rule task_channel_is_fifo [OF started_idle sample_good(2) sample_run])

text \<open>The wait of \<open>StopGraceful\<close> can always end: from every reachable state there are steps that
  bring every pending packet to its end and complete the stop.\<close>

theorem task_can_stop:
  assumes "tk_inflight t0 = 0" "tk_inflightCount t0 = 0" "good_pipelines (tk_Pipelines t0)"
    and "run_step\<^sup>*\<^sup>* (init_run t0 w0) r"
  shows "\<exists>r'. run_step\<^sup>*\<^sup>* (stop_begin r) r' \<and> ru_closed r' \<and> pending r' = []"
proof -
  have i: "run_inv t0 w0 (stop_begin r)"
    by (rule inv_stop_begin [OF run_inv_steps [OF assms(4) run_inv_init [OF assms(1,2)] assms(3)]])
  from drains [OF i assms(3)] obtain r' where r': "run_step\<^sup>*\<^sup>* (stop_begin r) r'" "pending r' = []"
    "\<not> tk_accepting (ru_task r')" by (auto simp: stop_begin_def)
  have "tk_inflight (ru_task r') = 0" using run_inv_steps [OF r'(1) i assms(3)] r'(2) by (simp add: run_inv_def)
  then have "run_step r' (stop_end r')" using r'(3) by (intro run_step.stop2)
  then have "run_step\<^sup>*\<^sup>* (stop_begin r) (stop_end r')" using r'(1) by simp
  moreover have "ru_closed (stop_end r') \<and> pending (stop_end r') = []"
    using r'(2) by (simp add: stop_end_def pending_def)
  ultimately show ?thesis by blast
qed

theorem task_can_stop_witness:
  "\<exists>r'. run_step\<^sup>*\<^sup>* (stop_begin sample_entered) r' \<and> ru_closed r' \<and> pending r' = []"
proof (rule task_can_stop [OF started_idle sample_good(2)])
  show "run_step\<^sup>*\<^sup>* (init_run started sample_out) sample_entered"
    unfolding sample_entered_def by (intro r_into_rtranclp run_step.enter)
qed

end
