(* ===== verification/Delta.thy ===== *)
theory Delta
  imports Config
begin

text \<open>
  \<open>src/src/runtime/update_cache.go\<close>, the planning of an update: the difference between two named
  configurations (\<open>splitDeltaWithReplace\<close>), its extension to the tasks that use a changed sender or
  pipeline, and \<open>planBusinessDelta\<close>. A Go set of names is the list of its members.
\<close>

section \<open>splitDeltaWithReplace\<close>

text \<open>The two loops; \<open>eq\<close> is \<open>reflect.DeepEqual\<close> on the values.\<close>

fun delta_old :: "('v \<Rightarrow> 'v \<Rightarrow> bool) \<Rightarrow> 'v gomap \<Rightarrow> 'v gomap \<Rightarrow> string list \<Rightarrow> string list \<Rightarrow> string list \<times> string list" where
  "delta_old eq newMap [] added removed = (added, removed)"
| "delta_old eq newMap ((name, oldCfg) # rest) added removed =
     (case mget newMap name of
        None \<Rightarrow> delta_old eq newMap rest added (removed @ [name])
      | Some newCfg \<Rightarrow>
          if \<not> eq oldCfg newCfg then delta_old eq newMap rest (added @ [name]) (removed @ [name])
          else delta_old eq newMap rest added removed)"

fun delta_new :: "'v gomap \<Rightarrow> 'v gomap \<Rightarrow> string list \<Rightarrow> string list" where
  "delta_new oldMap [] added = added"
| "delta_new oldMap ((name, c) # rest) added =
     delta_new oldMap rest (if mhas oldMap name then added else added @ [name])"

definition splitDeltaWithReplace :: "('v \<Rightarrow> 'v \<Rightarrow> bool) \<Rightarrow> 'v gomap \<Rightarrow> 'v gomap \<Rightarrow> string list \<times> string list" where
  "splitDeltaWithReplace eq oldMap newMap =
     (let (added, removed) = delta_old eq newMap oldMap [] [];
          added' = delta_new oldMap newMap added
      in (sort added', sort removed))"

section \<open>Tasks that depend on what changed\<close>

definition taskUsesChangedSender :: "task_config \<Rightarrow> string list \<Rightarrow> bool" where
  "taskUsesChangedSender tc changed = list_ex (\<lambda>n. n \<in> set changed) (elems (tc_Senders tc))"

definition taskUsesChangedPipeline :: "task_config \<Rightarrow> string list \<Rightarrow> bool" where
  "taskUsesChangedPipeline tc changed = list_ex (\<lambda>n. n \<in> set changed) (elems (tc_Pipelines tc))"

text \<open>The loop the two functions share; \<open>uses\<close> is one of the two tests above.\<close>

fun expand_loop :: "(task_config \<Rightarrow> bool) \<Rightarrow> task_config gomap \<Rightarrow> task_config gomap \<Rightarrow>
    string list \<Rightarrow> string list \<Rightarrow> string list \<times> string list" where
  "expand_loop uses newTasks [] added removed = (added, removed)"
| "expand_loop uses newTasks ((name, oldTC) # rest) added removed =
     (case mget newTasks name of
        None \<Rightarrow> expand_loop uses newTasks rest added removed
      | Some newTC \<Rightarrow>
          if \<not> uses oldTC \<and> \<not> uses newTC then expand_loop uses newTasks rest added removed
          else expand_loop uses newTasks rest
            (if name \<in> set added then added else added @ [name])
            (if name \<in> set removed then removed else removed @ [name]))"

definition expandTaskDeltaForSenderChanges :: "task_config gomap \<Rightarrow> task_config gomap \<Rightarrow> string list \<Rightarrow> string list \<Rightarrow>
    string list \<Rightarrow> string list \<Rightarrow> string list \<times> string list" where
  "expandTaskDeltaForSenderChanges oldTasks newTasks taskAdded taskRemoved senderAdded senderRemoved =
     (let changed = senderAdded @ senderRemoved in
      if changed = [] then (taskAdded, taskRemoved)
      else let (a, r) = expand_loop (\<lambda>tc. taskUsesChangedSender tc changed) newTasks oldTasks taskAdded taskRemoved
        in (sort a, sort r))"

definition expandTaskDeltaForPipelineChanges :: "task_config gomap \<Rightarrow> task_config gomap \<Rightarrow> string list \<Rightarrow> string list \<Rightarrow>
    string list \<Rightarrow> string list \<Rightarrow> string list \<times> string list" where
  "expandTaskDeltaForPipelineChanges oldTasks newTasks taskAdded taskRemoved pipelineAdded pipelineRemoved =
     (let changed = pipelineAdded @ pipelineRemoved in
      if changed = [] then (taskAdded, taskRemoved)
      else let (a, r) = expand_loop (\<lambda>tc. taskUsesChangedPipeline tc changed) newTasks oldTasks taskAdded taskRemoved
        in (sort a, sort r))"

section \<open>The plan\<close>

record business_delta_plan =
  receiverAdded :: "string list"
  receiverRemoved :: "string list"
  selectorAdded :: "string list"
  selectorRemoved :: "string list"
  taskSetAdded :: "string list"
  taskSetRemoved :: "string list"
  senderAdded :: "string list"
  senderRemoved :: "string list"
  pipelineAdded :: "string list"
  pipelineRemoved :: "string list"
  taskAdded :: "string list"
  taskRemoved :: "string list"

definition planBusinessDelta :: "receiver_config gomap \<Rightarrow> selector_config gomap \<Rightarrow> string slice gomap \<Rightarrow>
    sender_config gomap \<Rightarrow> stage_config slice gomap \<Rightarrow> task_config gomap \<Rightarrow> config \<Rightarrow> business_delta_plan" where
  "planBusinessDelta oldReceivers oldSelectors oldTaskSets oldSenders oldPipelines oldTasks cfg =
     (let (rA, rR) = splitDeltaWithReplace (=) oldReceivers (elems (cfg_Receivers cfg));
          (selA, selR) = splitDeltaWithReplace selector_deep_eq oldSelectors (elems (cfg_Selectors cfg));
          (tsA, tsR) = splitDeltaWithReplace (=) oldTaskSets (elems (cfg_TaskSets cfg));
          (sA, sR) = splitDeltaWithReplace (=) oldSenders (elems (cfg_Senders cfg));
          (pA, pR) = splitDeltaWithReplace stages_deep_eq oldPipelines (elems (cfg_Pipelines cfg));
          (tA, tR) = splitDeltaWithReplace (=) oldTasks (elems (cfg_Tasks cfg));
          (tA1, tR1) = (if sA \<noteq> [] \<or> sR \<noteq> [] then
             expandTaskDeltaForSenderChanges oldTasks (elems (cfg_Tasks cfg)) tA tR sA sR else (tA, tR));
          (tA2, tR2) = (if pA \<noteq> [] \<or> pR \<noteq> [] then
             expandTaskDeltaForPipelineChanges oldTasks (elems (cfg_Tasks cfg)) tA1 tR1 pA pR else (tA1, tR1))
      in \<lparr>receiverAdded = rA, receiverRemoved = rR, selectorAdded = selA, selectorRemoved = selR,
          taskSetAdded = tsA, taskSetRemoved = tsR, senderAdded = sA, senderRemoved = sR,
          pipelineAdded = pA, pipelineRemoved = pR, taskAdded = tA2, taskRemoved = tR2\<rparr>)"

section \<open>Lemmas\<close>

lemma delta_old_eq:
  "delta_old eq newMap m a r =
    (a @ map fst (filter (\<lambda>(n, o1). case mget newMap n of None \<Rightarrow> False | Some c \<Rightarrow> \<not> eq o1 c) m),
     r @ map fst (filter (\<lambda>(n, o1). case mget newMap n of None \<Rightarrow> True | Some c \<Rightarrow> \<not> eq o1 c) m))"
  by (induction eq newMap m a r rule: delta_old.induct) (auto split: option.splits)

lemma delta_new_eq: "delta_new oldMap m a = a @ map fst (filter (\<lambda>(n, c). \<not> mhas oldMap n) m)"
  by (induction oldMap m a rule: delta_new.induct) auto

text \<open>What is added and what is removed, as sets of names.\<close>

definition is_added :: "('v \<Rightarrow> 'v \<Rightarrow> bool) \<Rightarrow> 'v gomap \<Rightarrow> 'v gomap \<Rightarrow> string \<Rightarrow> bool" where
  "is_added eq oldMap newMap n \<longleftrightarrow>
     (case mget newMap n of None \<Rightarrow> False | Some c \<Rightarrow>
        (case mget oldMap n of None \<Rightarrow> True | Some o1 \<Rightarrow> \<not> eq o1 c))"

definition is_removed :: "('v \<Rightarrow> 'v \<Rightarrow> bool) \<Rightarrow> 'v gomap \<Rightarrow> 'v gomap \<Rightarrow> string \<Rightarrow> bool" where
  "is_removed eq oldMap newMap n \<longleftrightarrow>
     (case mget oldMap n of None \<Rightarrow> False | Some o1 \<Rightarrow>
        (case mget newMap n of None \<Rightarrow> True | Some c \<Rightarrow> \<not> eq o1 c))"

lemma split_delta_added:
  assumes "wf_map oldMap" "wf_map newMap" "splitDeltaWithReplace eq oldMap newMap = (a, r)"
  shows "sorted a" "distinct a" "n \<in> set a \<longleftrightarrow> is_added eq oldMap newMap n"
proof -
  let ?ch = "map fst (filter (\<lambda>(n, o1). case mget newMap n of None \<Rightarrow> False | Some c \<Rightarrow> \<not> eq o1 c) oldMap)"
  let ?nw = "map fst (filter (\<lambda>(n, c). \<not> mhas oldMap n) newMap)"
  have a: "a = sort (?ch @ ?nw)"
    using assms(3) by (auto simp: splitDeltaWithReplace_def delta_old_eq delta_new_eq)
  show "sorted a" unfolding a by simp
  have d: "distinct ?ch" "distinct ?nw"
    using wf_map_filter [OF assms(1)] wf_map_filter [OF assms(2)] unfolding wf_map_def by blast+
  have "set ?ch \<inter> set ?nw = {}" by (force simp: mhas_iff)
  then show "distinct a" using d unfolding a by simp
  have ch: "n \<in> set ?ch \<longleftrightarrow> (\<exists>o1 c. mget oldMap n = Some o1 \<and> mget newMap n = Some c \<and> \<not> eq o1 c)"
    using assms(1) by (force simp: mget_in_set split: option.splits)
  have nw: "n \<in> set ?nw \<longleftrightarrow> mget oldMap n = None \<and> mget newMap n \<noteq> None"
    using assms(2) by (force simp: mget_in_set mhas_def)
  show "n \<in> set a \<longleftrightarrow> is_added eq oldMap newMap n"
    unfolding a set_sort set_append Un_iff ch nw is_added_def by (auto split: option.splits)
qed

lemma split_delta_removed:
  assumes "wf_map oldMap" "splitDeltaWithReplace eq oldMap newMap = (a, r)"
  shows "sorted r" "distinct r" "n \<in> set r \<longleftrightarrow> is_removed eq oldMap newMap n"
proof -
  let ?rm = "map fst (filter (\<lambda>(n, o1). case mget newMap n of None \<Rightarrow> True | Some c \<Rightarrow> \<not> eq o1 c) oldMap)"
  have r: "r = sort ?rm"
    using assms(2) by (auto simp: splitDeltaWithReplace_def delta_old_eq delta_new_eq)
  show "sorted r" unfolding r by simp
  have "distinct ?rm" using wf_map_filter [OF assms(1)] unfolding wf_map_def by blast
  then show "distinct r" unfolding r by simp
  have "n \<in> set ?rm \<longleftrightarrow> (\<exists>o1. mget oldMap n = Some o1 \<and> (case mget newMap n of None \<Rightarrow> True | Some c \<Rightarrow> \<not> eq o1 c))"
    using assms(1) by (force simp: mget_in_set)
  then show "n \<in> set r \<longleftrightarrow> is_removed eq oldMap newMap n"
    unfolding r set_sort is_removed_def by (auto split: option.splits)
qed

text \<open>The extension of a task delta: the tasks in both configurations that use something changed.\<close>

definition depends :: "(task_config \<Rightarrow> bool) \<Rightarrow> task_config gomap \<Rightarrow> task_config gomap \<Rightarrow> string \<Rightarrow> bool" where
  "depends uses oldTasks newTasks n \<longleftrightarrow>
     (case mget oldTasks n of None \<Rightarrow> False | Some o1 \<Rightarrow>
        (case mget newTasks n of None \<Rightarrow> False | Some c \<Rightarrow> uses o1 \<or> uses c))"

lemma expand_loop_effect:
  assumes "expand_loop uses newTasks m a r = (a', r')"
  shows "set a' = set a \<union> {n. \<exists>o1. (n, o1) \<in> set m \<and> (case mget newTasks n of None \<Rightarrow> False | Some c \<Rightarrow> uses o1 \<or> uses c)} \<and>
    set r' = set r \<union> {n. \<exists>o1. (n, o1) \<in> set m \<and> (case mget newTasks n of None \<Rightarrow> False | Some c \<Rightarrow> uses o1 \<or> uses c)} \<and>
    (distinct a \<longrightarrow> distinct a') \<and> (distinct r \<longrightarrow> distinct r')"
  using assms
proof (induction uses newTasks m a r rule: expand_loop.induct)
  case (2 uses newTasks name oldTC rest a r)
  show ?case
  proof (cases "mget newTasks name")
    case None
    then show ?thesis using "2.IH"(1) "2.prems" by auto
  next
    case (Some c)
    show ?thesis
    proof (cases "\<not> uses oldTC \<and> \<not> uses c")
      case True
      then show ?thesis using "2.IH"(2) [OF Some] "2.prems" Some by auto
    next
      case False
      then show ?thesis using "2.IH"(3) [OF Some] "2.prems" Some by (auto split: if_split_asm)
    qed
  qed
qed simp

lemma depends_iff:
  assumes "wf_map oldTasks"
  shows "(\<exists>o1. (n, o1) \<in> set oldTasks \<and> (case mget newTasks n of None \<Rightarrow> False | Some c \<Rightarrow> uses o1 \<or> uses c)) \<longleftrightarrow>
    depends uses oldTasks newTasks n"
  using assms by (auto simp: depends_def mget_in_set split: option.splits)

lemma expand_sender_effect:
  assumes "wf_map oldTasks"
    "expandTaskDeltaForSenderChanges oldTasks newTasks a r sA sR = (a', r')"
    "sorted a" "distinct a" "sorted r" "distinct r"
  shows "sorted a' \<and> distinct a' \<and> sorted r' \<and> distinct r' \<and>
    (\<forall>n. n \<in> set a' \<longleftrightarrow> n \<in> set a \<or> depends (\<lambda>tc. taskUsesChangedSender tc (sA @ sR)) oldTasks newTasks n) \<and>
    (\<forall>n. n \<in> set r' \<longleftrightarrow> n \<in> set r \<or> depends (\<lambda>tc. taskUsesChangedSender tc (sA @ sR)) oldTasks newTasks n)"
proof (cases "sA @ sR = []")
  case True
  then show ?thesis using assms
    by (auto simp: expandTaskDeltaForSenderChanges_def depends_def taskUsesChangedSender_def list_ex_iff split: option.splits)
next
  case False
  obtain a1 r1 where e: "expand_loop (\<lambda>tc. taskUsesChangedSender tc (sA @ sR)) newTasks oldTasks a r = (a1, r1)"
    by fastforce
  have "a' = sort a1 \<and> r' = sort r1"
    using assms(2) False e by (auto simp: expandTaskDeltaForSenderChanges_def Let_def)
  then show ?thesis using expand_loop_effect [OF e] assms depends_iff [OF assms(1)] by simp
qed

lemma expand_pipeline_effect:
  assumes "wf_map oldTasks"
    "expandTaskDeltaForPipelineChanges oldTasks newTasks a r pA pR = (a', r')"
    "sorted a" "distinct a" "sorted r" "distinct r"
  shows "sorted a' \<and> distinct a' \<and> sorted r' \<and> distinct r' \<and>
    (\<forall>n. n \<in> set a' \<longleftrightarrow> n \<in> set a \<or> depends (\<lambda>tc. taskUsesChangedPipeline tc (pA @ pR)) oldTasks newTasks n) \<and>
    (\<forall>n. n \<in> set r' \<longleftrightarrow> n \<in> set r \<or> depends (\<lambda>tc. taskUsesChangedPipeline tc (pA @ pR)) oldTasks newTasks n)"
proof (cases "pA @ pR = []")
  case True
  then show ?thesis using assms
    by (auto simp: expandTaskDeltaForPipelineChanges_def depends_def taskUsesChangedPipeline_def list_ex_iff split: option.splits)
next
  case False
  obtain a1 r1 where e: "expand_loop (\<lambda>tc. taskUsesChangedPipeline tc (pA @ pR)) newTasks oldTasks a r = (a1, r1)"
    by fastforce
  have "a' = sort a1 \<and> r' = sort r1"
    using assms(2) False e by (auto simp: expandTaskDeltaForPipelineChanges_def Let_def)
  then show ?thesis using expand_loop_effect [OF e] assms depends_iff [OF assms(1)] by simp
qed

section \<open>What the plan says\<close>

text \<open>The entry of a name is the same in both maps.\<close>

definition unchanged :: "('v \<Rightarrow> 'v \<Rightarrow> bool) \<Rightarrow> 'v gomap \<Rightarrow> 'v gomap \<Rightarrow> string \<Rightarrow> bool" where
  "unchanged eq oldMap newMap n \<longleftrightarrow>
     (case (mget oldMap n, mget newMap n) of
        (None, None) \<Rightarrow> True | (Some a, Some b) \<Rightarrow> eq a b | _ \<Rightarrow> False)"

lemma unchanged_iff: "unchanged eq oldMap newMap n \<longleftrightarrow> \<not> is_added eq oldMap newMap n \<and> \<not> is_removed eq oldMap newMap n"
  by (auto simp: unchanged_def is_added_def is_removed_def split: option.splits)

definition uses_changed :: "sender_config gomap \<Rightarrow> stage_config slice gomap \<Rightarrow> config \<Rightarrow> task_config \<Rightarrow> bool" where
  "uses_changed oldSenders oldPipelines cfg tc \<longleftrightarrow>
     list_ex (\<lambda>s. \<not> unchanged (=) oldSenders (elems (cfg_Senders cfg)) s) (elems (tc_Senders tc)) \<or>
     list_ex (\<lambda>p. \<not> unchanged stages_deep_eq oldPipelines (elems (cfg_Pipelines cfg)) p) (elems (tc_Pipelines tc))"

definition wf_config :: "config \<Rightarrow> bool" where
  "wf_config cfg \<longleftrightarrow> wf_map (elems (cfg_Receivers cfg)) \<and> wf_map (elems (cfg_Selectors cfg)) \<and>
     wf_map (elems (cfg_TaskSets cfg)) \<and> wf_map (elems (cfg_Senders cfg)) \<and>
     wf_map (elems (cfg_Pipelines cfg)) \<and> wf_map (elems (cfg_Tasks cfg))"

lemma plan_tasks:
  assumes wf: "wf_map oldSenders" "wf_map oldPipelines" "wf_map oldTasks" "wf_config cfg"
    and plan: "plan = planBusinessDelta oldReceivers oldSelectors oldTaskSets oldSenders oldPipelines oldTasks cfg"
  shows "sorted (taskAdded plan) \<and> distinct (taskAdded plan) \<and> sorted (taskRemoved plan) \<and> distinct (taskRemoved plan) \<and>
    (\<forall>n. n \<in> set (taskAdded plan) \<longleftrightarrow> is_added (=) oldTasks (elems (cfg_Tasks cfg)) n \<or>
       depends (uses_changed oldSenders oldPipelines cfg) oldTasks (elems (cfg_Tasks cfg)) n) \<and>
    (\<forall>n. n \<in> set (taskRemoved plan) \<longleftrightarrow> is_removed (=) oldTasks (elems (cfg_Tasks cfg)) n \<or>
       depends (uses_changed oldSenders oldPipelines cfg) oldTasks (elems (cfg_Tasks cfg)) n)"
proof -
  let ?S = "elems (cfg_Senders cfg)" let ?P = "elems (cfg_Pipelines cfg)" let ?T = "elems (cfg_Tasks cfg)"
  have wfc: "wf_map ?S" "wf_map ?P" "wf_map ?T" using wf(4) by (simp_all add: wf_config_def)
  obtain sA sR where s: "splitDeltaWithReplace (=) oldSenders ?S = (sA, sR)" by fastforce
  obtain pA pR where p: "splitDeltaWithReplace stages_deep_eq oldPipelines ?P = (pA, pR)" by fastforce
  obtain tA tR where t: "splitDeltaWithReplace (=) oldTasks ?T = (tA, tR)" by fastforce
  obtain tA1 tR1 where t1: "expandTaskDeltaForSenderChanges oldTasks ?T tA tR sA sR = (tA1, tR1)" by fastforce
  obtain tA2 tR2 where t2: "expandTaskDeltaForPipelineChanges oldTasks ?T tA1 tR1 pA pR = (tA2, tR2)" by fastforce
  have sn: "(if sA \<noteq> [] \<or> sR \<noteq> [] then expandTaskDeltaForSenderChanges oldTasks ?T tA tR sA sR else (tA, tR)) = (tA1, tR1)"
    using t1 by (auto simp: expandTaskDeltaForSenderChanges_def Let_def)
  have pn: "(if pA \<noteq> [] \<or> pR \<noteq> [] then expandTaskDeltaForPipelineChanges oldTasks ?T tA1 tR1 pA pR else (tA1, tR1)) = (tA2, tR2)"
    using t2 by (auto simp: expandTaskDeltaForPipelineChanges_def Let_def)
  have pl: "taskAdded plan = tA2" "taskRemoved plan = tR2"
    unfolding plan planBusinessDelta_def Let_def s p t prod.case sn pn by (simp_all split: prod.split)
  note e1 = expand_sender_effect [OF wf(3) t1 split_delta_added(1,2) [OF wf(3) wfc(3) t] split_delta_removed(1,2) [OF wf(3) t]]
  note e2 = expand_pipeline_effect [OF wf(3) t2]
  have us: "taskUsesChangedSender tc (sA @ sR) = list_ex (\<lambda>n. \<not> unchanged (=) oldSenders ?S n) (elems (tc_Senders tc))" for tc
    using split_delta_added(3) [OF wf(1) wfc(1) s] split_delta_removed(3) [OF wf(1) s]
    by (simp add: taskUsesChangedSender_def list_ex_iff unchanged_iff)
  have up: "taskUsesChangedPipeline tc (pA @ pR) = list_ex (\<lambda>n. \<not> unchanged stages_deep_eq oldPipelines ?P n) (elems (tc_Pipelines tc))" for tc
    using split_delta_added(3) [OF wf(2) wfc(2) p] split_delta_removed(3) [OF wf(2) p]
    by (simp add: taskUsesChangedPipeline_def list_ex_iff unchanged_iff)
  have dep: "depends (\<lambda>tc. taskUsesChangedSender tc (sA @ sR)) oldTasks ?T n \<or>
      depends (\<lambda>tc. taskUsesChangedPipeline tc (pA @ pR)) oldTasks ?T n \<longleftrightarrow>
      depends (uses_changed oldSenders oldPipelines cfg) oldTasks ?T n" for n
    unfolding us up depends_def uses_changed_def by (auto split: option.splits)
  show ?thesis unfolding pl
    using e1 e2 split_delta_added(3) [OF wf(3) wfc(3) t] split_delta_removed(3) [OF wf(3) t] dep by auto
qed

lemma split_delta_cong:
  assumes "wf_map o1" "wf_map n1" "wf_map o2" "wf_map n2" "map_of o1 = map_of o2" "map_of n1 = map_of n2"
  shows "splitDeltaWithReplace eq o1 n1 = splitDeltaWithReplace eq o2 n2"
proof -
  obtain a1 r1 where s1: "splitDeltaWithReplace eq o1 n1 = (a1, r1)" by fastforce
  obtain a2 r2 where s2: "splitDeltaWithReplace eq o2 n2 = (a2, r2)" by fastforce
  note A1 = split_delta_added [OF assms(1,2) s1] and A2 = split_delta_added [OF assms(3,4) s2]
  note R1 = split_delta_removed [OF assms(1) s1] and R2 = split_delta_removed [OF assms(3) s2]
  have "set a1 = set a2" unfolding set_eq_iff A1(3) A2(3) is_added_def assms(5,6) by blast
  then have "a1 = a2" using A1 A2 by (intro sorted_distinct_set_unique)
  moreover have "set r1 = set r2" unfolding set_eq_iff R1(3) R2(3) is_removed_def assms(5,6) by blast
  then have "r1 = r2" using R1 R2 by (intro sorted_distinct_set_unique)
  ultimately show ?thesis using s1 s2 by simp
qed

lemma plan_fields:
  "(receiverAdded (planBusinessDelta r se ts sn p t cfg), receiverRemoved (planBusinessDelta r se ts sn p t cfg)) =
     splitDeltaWithReplace (=) r (elems (cfg_Receivers cfg))"
  "(selectorAdded (planBusinessDelta r se ts sn p t cfg), selectorRemoved (planBusinessDelta r se ts sn p t cfg)) =
     splitDeltaWithReplace selector_deep_eq se (elems (cfg_Selectors cfg))"
  "(taskSetAdded (planBusinessDelta r se ts sn p t cfg), taskSetRemoved (planBusinessDelta r se ts sn p t cfg)) =
     splitDeltaWithReplace (=) ts (elems (cfg_TaskSets cfg))"
  "(senderAdded (planBusinessDelta r se ts sn p t cfg), senderRemoved (planBusinessDelta r se ts sn p t cfg)) =
     splitDeltaWithReplace (=) sn (elems (cfg_Senders cfg))"
  "(pipelineAdded (planBusinessDelta r se ts sn p t cfg), pipelineRemoved (planBusinessDelta r se ts sn p t cfg)) =
     splitDeltaWithReplace stages_deep_eq p (elems (cfg_Pipelines cfg))"
  by (simp_all add: planBusinessDelta_def Let_def split: prod.split)

section \<open>Properties\<close>

text \<open>The plan rebuilds exactly the tasks it has to: a task only in the new configuration is added,
  one only in the old is removed, and one in both is left alone when its configuration is the same and
  every sender and pipeline it names is unchanged; otherwise it is removed and added again. The two
  lists are sorted and without repetition.\<close>

theorem plan_tasks_exact:
  assumes "wf_map oldSenders" "wf_map oldPipelines" "wf_map oldTasks" "wf_config cfg"
    and "plan = planBusinessDelta oldReceivers oldSelectors oldTaskSets oldSenders oldPipelines oldTasks cfg"
  shows "sorted (taskAdded plan) \<and> distinct (taskAdded plan) \<and> sorted (taskRemoved plan) \<and> distinct (taskRemoved plan) \<and>
    (n \<in> set (taskAdded plan), n \<in> set (taskRemoved plan)) =
      (case (mget oldTasks n, mget (elems (cfg_Tasks cfg)) n) of
         (None, None) \<Rightarrow> (False, False)
       | (None, Some _) \<Rightarrow> (True, False)
       | (Some _, None) \<Rightarrow> (False, True)
       | (Some o1, Some c) \<Rightarrow>
           let rebuild = (o1 \<noteq> c \<or> uses_changed oldSenders oldPipelines cfg c) in (rebuild, rebuild))"
  using plan_tasks [OF assms]
  by (auto simp: is_added_def is_removed_def depends_def Let_def split: option.splits)

definition sample_cfg :: config where
  "sample_cfg = zero_config\<lparr>
     cfg_Senders := Some [(''s'', zero_sender_config\<lparr>sc_Concurrency := 2\<rparr>)],
     cfg_Tasks := Some [(''a'', zero_task_config\<lparr>tc_Senders := Some [''s'']\<rparr>), (''b'', zero_task_config)]\<rparr>"

lemma sample_cfg_fields:
  "elems (cfg_Senders sample_cfg) = [(''s'', zero_sender_config\<lparr>sc_Concurrency := 2\<rparr>)]"
  "elems (cfg_Tasks sample_cfg) = [(''a'', zero_task_config\<lparr>tc_Senders := Some [''s'']\<rparr>), (''b'', zero_task_config)]"
  "elems (cfg_Pipelines sample_cfg) = []" "elems (cfg_Receivers sample_cfg) = []"
  "elems (cfg_Selectors sample_cfg) = []" "elems (cfg_TaskSets sample_cfg) = []"
  by (simp_all add: sample_cfg_def zero_config_def)

lemma sample_cfg_wf: "wf_config sample_cfg"
  by (simp add: wf_config_def sample_cfg_fields wf_map_def)

theorem plan_tasks_exact_witness:
  "let plan = planBusinessDelta [] [] [] [(''s'', zero_sender_config)] []
     [(''a'', zero_task_config\<lparr>tc_Senders := Some [''s'']\<rparr>), (''b'', zero_task_config)] sample_cfg
   in ''a'' \<in> set (taskAdded plan) \<and> ''b'' \<notin> set (taskAdded plan) \<and> ''b'' \<notin> set (taskRemoved plan)"
proof -
  let ?T = "[(''a'', zero_task_config\<lparr>tc_Senders := Some [''s'']\<rparr>), (''b'', zero_task_config)]"
  let ?S = "[(''s'', zero_sender_config)]"
  have w: "wf_map ?S" "wf_map ([] :: stage_config slice gomap)" "wf_map ?T" by (simp_all add: wf_map_def)
  have u: "uses_changed ?S [] sample_cfg (zero_task_config\<lparr>tc_Senders := Some [''s'']\<rparr>)"
    "\<not> uses_changed ?S [] sample_cfg zero_task_config"
    by (simp_all add: uses_changed_def unchanged_def sample_cfg_fields zero_task_config_def zero_sender_config_def)
  show ?thesis unfolding Let_def
    using plan_tasks_exact [OF w sample_cfg_wf refl, of "[]" "[]" "[]" "''a''"]
      plan_tasks_exact [OF w sample_cfg_wf refl, of "[]" "[]" "[]" "''b''"] u
    by (simp add: sample_cfg_fields)
qed

text \<open>the plan does not depend on the order in which Go visits the maps: for two
  representations of the same maps it is the same plan.\<close>

theorem plan_order_independent:
  assumes "wf_map r1" "wf_map se1" "wf_map ts1" "wf_map sn1" "wf_map p1" "wf_map t1" "wf_config c1"
    and "wf_map r2" "wf_map se2" "wf_map ts2" "wf_map sn2" "wf_map p2" "wf_map t2" "wf_config c2"
    and "map_of r1 = map_of r2" "map_of se1 = map_of se2" "map_of ts1 = map_of ts2"
      "map_of sn1 = map_of sn2" "map_of p1 = map_of p2" "map_of t1 = map_of t2"
    and "map_of (elems (cfg_Receivers c1)) = map_of (elems (cfg_Receivers c2))"
      "map_of (elems (cfg_Selectors c1)) = map_of (elems (cfg_Selectors c2))"
      "map_of (elems (cfg_TaskSets c1)) = map_of (elems (cfg_TaskSets c2))"
      "map_of (elems (cfg_Senders c1)) = map_of (elems (cfg_Senders c2))"
      "map_of (elems (cfg_Pipelines c1)) = map_of (elems (cfg_Pipelines c2))"
      "map_of (elems (cfg_Tasks c1)) = map_of (elems (cfg_Tasks c2))"
  shows "planBusinessDelta r1 se1 ts1 sn1 p1 t1 c1 = planBusinessDelta r2 se2 ts2 sn2 p2 t2 c2"
proof -
  let ?p1 = "planBusinessDelta r1 se1 ts1 sn1 p1 t1 c1" and ?p2 = "planBusinessDelta r2 se2 ts2 sn2 p2 t2 c2"
  note wf = assms(7,14) [unfolded wf_config_def]
  have "splitDeltaWithReplace (=) r1 (elems (cfg_Receivers c1)) = splitDeltaWithReplace (=) r2 (elems (cfg_Receivers c2))"
    by (rule split_delta_cong) (use assms wf in blast)+
  then have f1: "receiverAdded ?p1 = receiverAdded ?p2" "receiverRemoved ?p1 = receiverRemoved ?p2"
    using plan_fields(1) by (metis prod.inject)+
  have "splitDeltaWithReplace selector_deep_eq se1 (elems (cfg_Selectors c1)) = splitDeltaWithReplace selector_deep_eq se2 (elems (cfg_Selectors c2))"
    by (rule split_delta_cong) (use assms wf in blast)+
  then have f2: "selectorAdded ?p1 = selectorAdded ?p2" "selectorRemoved ?p1 = selectorRemoved ?p2"
    using plan_fields(2) by (metis prod.inject)+
  have "splitDeltaWithReplace (=) ts1 (elems (cfg_TaskSets c1)) = splitDeltaWithReplace (=) ts2 (elems (cfg_TaskSets c2))"
    by (rule split_delta_cong) (use assms wf in blast)+
  then have f3: "taskSetAdded ?p1 = taskSetAdded ?p2" "taskSetRemoved ?p1 = taskSetRemoved ?p2"
    using plan_fields(3) by (metis prod.inject)+
  have "splitDeltaWithReplace (=) sn1 (elems (cfg_Senders c1)) = splitDeltaWithReplace (=) sn2 (elems (cfg_Senders c2))"
    by (rule split_delta_cong) (use assms wf in blast)+
  then have f4: "senderAdded ?p1 = senderAdded ?p2" "senderRemoved ?p1 = senderRemoved ?p2"
    using plan_fields(4) by (metis prod.inject)+
  have "splitDeltaWithReplace stages_deep_eq p1 (elems (cfg_Pipelines c1)) = splitDeltaWithReplace stages_deep_eq p2 (elems (cfg_Pipelines c2))"
    by (rule split_delta_cong) (use assms wf in blast)+
  then have f5: "pipelineAdded ?p1 = pipelineAdded ?p2" "pipelineRemoved ?p1 = pipelineRemoved ?p2"
    using plan_fields(5) by (metis prod.inject)+
  note t1 = plan_tasks [OF assms(4,5,6,7) refl, of r1 se1 ts1]
  note t2 = plan_tasks [OF assms(11,12,13,14) refl, of r2 se2 ts2]
  have u: "uses_changed sn1 p1 c1 = uses_changed sn2 p2 c2"
    by (rule ext) (simp add: uses_changed_def unchanged_def assms)
  have f6: "taskAdded ?p1 = taskAdded ?p2"
  proof (rule sorted_distinct_set_unique)
    show "set (taskAdded ?p1) = set (taskAdded ?p2)"
      using t1 t2 unfolding set_eq_iff is_added_def depends_def assms(20,26) u by blast
  qed (use t1 t2 in blast)+
  have f7: "taskRemoved ?p1 = taskRemoved ?p2"
  proof (rule sorted_distinct_set_unique)
    show "set (taskRemoved ?p1) = set (taskRemoved ?p2)"
      using t1 t2 unfolding set_eq_iff is_removed_def depends_def assms(20,26) u by blast
  qed (use t1 t2 in blast)+
  show ?thesis using f1 f2 f3 f4 f5 f6 f7 by (intro business_delta_plan.equality) auto
qed

theorem plan_order_independent_witness:
  "planBusinessDelta [] [] [(''x'', None), (''y'', Some [])] [] [] [] zero_config =
   planBusinessDelta [] [] [(''y'', Some []), (''x'', None)] [] [] [] zero_config"
proof -
  have wc: "wf_config zero_config" by (simp add: wf_config_def zero_config_def)
  have m: "map_of [(''x'', None), (''y'', Some [])] = map_of [(''y'', Some []), (''x'', None)]"
    by (rule ext) simp
  show ?thesis
    by (rule plan_order_independent) (simp_all add: wc m wf_map_def del: map_of.simps)
qed

end
