(* ===== verification/Selector.thy ===== *)
theory Selector
  imports GoLib
begin

text \<open>
  \<open>src/src/selector/selector.go\<close>: the compiled selector, a table from match keys to values and the
  values for every other key. \<open>Match\<close> is called on a pointer that may be nil.
\<close>

record 'a selector =
  sel_Name :: string
  sel_ValuesByKey :: "'a list gomap"
  sel_DefaultValues :: "'a list"

definition NewCompiled :: "string \<Rightarrow> 'a selector" where
  "NewCompiled name = \<lparr>sel_Name = name, sel_ValuesByKey = [], sel_DefaultValues = []\<rparr>"

definition NewDefaultOnlyCompiled :: "string \<Rightarrow> 'a list \<Rightarrow> 'a selector" where
  "NewDefaultOnlyCompiled name vs = (NewCompiled name)\<lparr>sel_DefaultValues := vs\<rparr>"

definition Match :: "'a selector option \<Rightarrow> string \<Rightarrow> 'a list" where
  "Match s key =
     (case s of
        None \<Rightarrow> []
      | Some c \<Rightarrow>
          (case mget (sel_ValuesByKey c) key of Some vs \<Rightarrow> vs | None \<Rightarrow> sel_DefaultValues c))"

end
