(* ===== verification/Store.thy ===== *)
theory Store
  imports Delta Selector Task
begin

text \<open>
  \<open>src/src/runtime\<close>: the store of everything that runs (\<open>types.go\<close>, \<open>store.go\<close>), the builders
  (\<open>builders.go\<close>), the compilation of pipelines through the stage cache (\<open>compiler.go\<close>), and the
  operations on tasks, sender references and the cache (\<open>update_cache.go\<close>). \<open>Update\<close> composes them.

  An operation that can fail returns its error with the store, because the code keeps what it had
  already changed. What the store does to things outside (closing a sender, starting a receiver) is
  recorded in \<open>st_log\<close>; sender and receiver instances are numbered by \<open>st_next\<close>. The environment
  \<open>env\<close> holds what is not in the repository: \<open>regexp.Compile\<close>, \<open>json.Marshal\<close>, the outcome of the
  constructors of senders and receivers and of \<open>ants.NewPool\<close>.
\<close>

section \<open>Data\<close>

record env =
  env_regexp :: "string \<Rightarrow> regex result"
  env_marshal :: "stage_config \<Rightarrow> string result"
  env_new_sender :: "string \<Rightarrow> sender_config \<Rightarrow> go_error option"
  env_new_receiver :: "string \<Rightarrow> receiver_config \<Rightarrow> go_error option"
  env_newpool :: "int \<Rightarrow> go_error option"
  env_info :: bool

record sender_state =
  ss_Name :: string
  ss_Cfg :: sender_config
  ss_S :: nat
  ss_Refs :: int

record task_state =
  ts_Name :: string
  ts_Cfg :: task_config
  ts_T :: task

type_synonym compiled_selector = "task_state selector"

record receiver_state =
  rs_Name :: string
  rs_Cfg :: receiver_config
  rs_Recv :: nat
  rs_LogPayloadRecv :: bool
  rs_PayloadLogMax :: int
  rs_SelectorName :: string
  rs_Selector :: "compiled_selector option"

record stage_cache_entry =
  ce_Sig :: string
  ce_Fn :: stage_fun
  ce_TaskRefs :: int
  ce_Tasks :: "string list"

datatype event = SenderClosed nat | ReceiverStarted nat | ReceiverStopped nat | TaskStopped string | CounterClosed nat

record store =
  st_receivers :: "receiver_state gomap"
  st_selectors :: "selector_config gomap"
  st_taskSets :: "string slice gomap"
  st_senders :: "sender_state gomap"
  st_tasks :: "task_state gomap"
  st_pipelines :: "pipeline gomap"
  st_pipelineCfg :: "stage_config slice gomap"
  st_pipelineStageSigs :: "string list gomap"
  st_stageCache :: "stage_cache_entry gomap"
  st_payloadLogDefaultMax :: int
  st_next :: nat
  st_log :: "event list"

definition NewStore :: store where
  "NewStore = \<lparr>st_receivers = [], st_selectors = [], st_taskSets = [], st_senders = [], st_tasks = [],
     st_pipelines = [], st_pipelineCfg = [], st_pipelineStageSigs = [], st_stageCache = [],
     st_payloadLogDefaultMax = 0, st_next = 0, st_log = []\<rparr>"

definition log_event :: "event \<Rightarrow> store \<Rightarrow> store" where
  "log_event e st = st\<lparr>st_log := st_log st @ [e]\<rparr>"

text \<open>A new instance: its number.\<close>

definition fresh :: "store \<Rightarrow> nat \<times> store" where
  "fresh st = (st_next st, st\<lparr>st_next := Suc (st_next st)\<rparr>)"

section \<open>Builders\<close>

definition buildReceiver :: "env \<Rightarrow> string \<Rightarrow> receiver_config \<Rightarrow> store \<Rightarrow> nat result \<times> store" where
  "buildReceiver env name rc st =
     (if rc_Type rc \<in> set [''udp_gnet'', ''local_timer'', ''kafka'', ''sftp'', ''oss'', ''dds_skydds''] \<or>
         (rc_Type rc = ''tcp_gnet'' \<and> rc_Frame rc \<in> set [[], ''u16be'']) then
        (case env_new_receiver env name rc of
           Some err \<Rightarrow> (Inl err, st)
         | None \<Rightarrow> let (i, st') = fresh st in (Inr i, st'))
      else if rc_Type rc = ''tcp_gnet'' then
        (Inl (Errorf ''receiver %s unknown frame %s'' [AStr name, AStr (rc_Frame rc)]), st)
      else (Inl (Errorf ''receiver %s unknown type %s'' [AStr name, AStr (rc_Type rc)]), st))"

definition buildSender :: "env \<Rightarrow> string \<Rightarrow> sender_config \<Rightarrow> store \<Rightarrow> nat result \<times> store" where
  "buildSender env name sc st =
     (if sc_Type sc = ''udp_unicast'' \<and> sc_LocalPort sc \<le> 0 then
        (Inl (Errorf ''sender %s udp_unicast requires local_port'' [AStr name]), st)
      else if sc_Type sc = ''udp_multicast'' \<and> sc_LocalPort sc \<le> 0 then
        (Inl (Errorf ''sender %s udp_multicast requires local_port'' [AStr name]), st)
      else if sc_Type sc = ''tcp_gnet'' \<and> sc_Frame sc \<notin> set [[], ''u16be''] then
        (Inl (Errorf ''sender %s unknown frame %s'' [AStr name, AStr (sc_Frame sc)]), st)
      else if sc_Type sc \<notin> set [''udp_unicast'', ''udp_multicast'', ''tcp_gnet'', ''kafka'', ''sftp'', ''oss'', ''dds_skydds''] then
        (Inl (Errorf ''sender %s unknown type %s'' [AStr name, AStr (sc_Type sc)]), st)
      else
        (case env_new_sender env name sc of
           Some err \<Rightarrow> (Inl err, st)
         | None \<Rightarrow> let (i, st') = fresh st in (Inr i, st')))"

section \<open>The stage cache\<close>

definition stageSignature :: "env \<Rightarrow> stage_config \<Rightarrow> string result" where
  "stageSignature env sc = env_marshal env sc"

text \<open>
  The loop over the stages of one pipeline. The cache and the list of the signatures this call
  created are threaded through; the result is the stages with their signatures.
\<close>

fun cache_stages :: "env \<Rightarrow> string \<Rightarrow> stage_config list \<Rightarrow> stage_cache_entry gomap \<Rightarrow> string list \<Rightarrow>
    (stage_fun list \<times> string list) result \<times> stage_cache_entry gomap \<times> string list" where
  "cache_stages env name [] cache created = (Inr ([], []), cache, created)"
| "cache_stages env name (sc # scs) cache created =
     (case stageSignature env sc of
        Inl err \<Rightarrow> (Inl (Errorf ''pipeline %s stage %s signature error: %w'' [AStr name, AStr (st_Type sc), AErr err]), cache, created)
      | Inr sig \<Rightarrow>
        (case mget cache sig of
           Some e \<Rightarrow>
             (case cache_stages env name scs cache created of
                (Inl err, cache', created') \<Rightarrow> (Inl err, cache', created')
              | (Inr (fns, sigs), cache', created') \<Rightarrow> (Inr (ce_Fn e # fns, sig # sigs), cache', created'))
         | None \<Rightarrow>
             (case compileStage (env_regexp env) sc of
                Inl err \<Rightarrow> (Inl (Errorf ''pipeline %s stage %s error: %w'' [AStr name, AStr (st_Type sc), AErr err]), cache, created)
              | Inr fn \<Rightarrow>
                (case cache_stages env name scs
                        (mset_at sig \<lparr>ce_Sig = sig, ce_Fn = fn, ce_TaskRefs = 0, ce_Tasks = []\<rparr> cache) (created @ [sig]) of
                   (Inl err, cache', created') \<Rightarrow> (Inl err, cache', created')
                 | (Inr (fns, sigs), cache', created') \<Rightarrow> (Inr (fn # fns, sig # sigs), cache', created')))))"

fun cache_pipelines :: "env \<Rightarrow> stage_config slice gomap \<Rightarrow> stage_cache_entry gomap \<Rightarrow> string list \<Rightarrow>
    (pipeline gomap \<times> string list gomap) result \<times> stage_cache_entry gomap \<times> string list" where
  "cache_pipelines env [] cache created = (Inr ([], []), cache, created)"
| "cache_pipelines env ((name, stagesCfg) # cfg) cache created =
     (case cache_stages env name (elems stagesCfg) cache created of
        (Inl err, cache', created') \<Rightarrow> (Inl err, cache', created')
      | (Inr (fns, sigs), cache', created') \<Rightarrow>
        (case cache_pipelines env cfg cache' created' of
           (Inl err, c2, d2) \<Rightarrow> (Inl err, c2, d2)
         | (Inr (out, sigsByPipeline), c2, d2) \<Rightarrow>
             (Inr ((name, \<lparr>pl_Name = name, pl_Stages = fns\<rparr>) # out, (name, sigs) # sigsByPipeline), c2, d2)))"

fun cleanup_created :: "string list \<Rightarrow> stage_cache_entry gomap \<Rightarrow> stage_cache_entry gomap" where
  "cleanup_created [] cache = cache"
| "cleanup_created (sig # created) cache =
     cleanup_created created
       (case mget cache sig of
          None \<Rightarrow> cache
        | Some e \<Rightarrow> if ce_TaskRefs e = 0 then mdel sig cache else cache)"

definition compilePipelinesWithStageCache :: "env \<Rightarrow> stage_config slice gomap \<Rightarrow> store \<Rightarrow>
    (pipeline gomap \<times> string list gomap) result \<times> store" where
  "compilePipelinesWithStageCache env cfg st =
     (case cache_pipelines env cfg (st_stageCache st) [] of
        (Inl err, cache, created) \<Rightarrow> (Inl err, st\<lparr>st_stageCache := cleanup_created created cache\<rparr>)
      | (Inr out, cache, created) \<Rightarrow> (Inr out, st\<lparr>st_stageCache := cache\<rparr>))"

fun retain_sigs :: "string \<Rightarrow> string list \<Rightarrow> stage_cache_entry gomap \<Rightarrow> stage_cache_entry gomap" where
  "retain_sigs task [] cache = cache"
| "retain_sigs task (sig # sigs) cache =
     retain_sigs task sigs
       (case mget cache sig of
          None \<Rightarrow> cache
        | Some e \<Rightarrow>
            if task \<in> set (ce_Tasks e) then cache
            else mset_at sig (e\<lparr>ce_Tasks := ce_Tasks e @ [task], ce_TaskRefs := ce_TaskRefs e + 1\<rparr>) cache)"

definition pipeline_sigs :: "store \<Rightarrow> string list \<Rightarrow> string list" where
  "pipeline_sigs st pipelines =
     concat (map (\<lambda>pn. case mget (st_pipelineStageSigs st) pn of None \<Rightarrow> [] | Some sigs \<Rightarrow> sigs) pipelines)"

definition retainTaskStageRefsLocked :: "string \<Rightarrow> string list \<Rightarrow> store \<Rightarrow> store" where
  "retainTaskStageRefsLocked task pipelines st =
     st\<lparr>st_stageCache := retain_sigs task (pipeline_sigs st pipelines) (st_stageCache st)\<rparr>"

fun release_sigs :: "string \<Rightarrow> string list \<Rightarrow> stage_cache_entry gomap \<Rightarrow> stage_cache_entry gomap" where
  "release_sigs task [] cache = cache"
| "release_sigs task (sig # sigs) cache =
     release_sigs task sigs
       (case mget cache sig of
          None \<Rightarrow> cache
        | Some e \<Rightarrow>
            if task \<notin> set (ce_Tasks e) then cache
            else let refs = ce_TaskRefs e - 1 in
              mset_at sig (e\<lparr>ce_Tasks := filter (\<lambda>t. t \<noteq> task) (ce_Tasks e),
                ce_TaskRefs := (if refs \<le> 0 then 0 else refs)\<rparr>) cache)"

definition releaseTaskStageRefsLocked :: "string \<Rightarrow> string list \<Rightarrow> store \<Rightarrow> store" where
  "releaseTaskStageRefsLocked task pipelines st =
     st\<lparr>st_stageCache := release_sigs task (pipeline_sigs st pipelines) (st_stageCache st)\<rparr>"

definition gcUnusedStageCache :: "store \<Rightarrow> store" where
  "gcUnusedStageCache st = st\<lparr>st_stageCache := filter (\<lambda>(sig, e). ce_TaskRefs e > 0) (st_stageCache st)\<rparr>"

fun retain_tasks :: "task_state gomap \<Rightarrow> store \<Rightarrow> store" where
  "retain_tasks [] st = st"
| "retain_tasks ((name, ts) # rest) st =
     retain_tasks rest (retainTaskStageRefsLocked name (elems (tc_Pipelines (ts_Cfg ts))) st)"

definition rebuildStageTaskRefs :: "store \<Rightarrow> store" where
  "rebuildStageTaskRefs st =
     retain_tasks (st_tasks st)
       (st\<lparr>st_stageCache := map (\<lambda>(sig, e). (sig, e\<lparr>ce_TaskRefs := 0, ce_Tasks := []\<rparr>)) (st_stageCache st)\<rparr>)"

section \<open>Tasks\<close>

definition payloadLogMaxBytes :: "int \<Rightarrow> int \<Rightarrow> int" where
  "payloadLogMaxBytes localMax loggingMax = (if localMax > 0 then localMax else loggingMax)"

fun change_refs :: "int \<Rightarrow> string list \<Rightarrow> sender_state gomap \<Rightarrow> sender_state gomap" where
  "change_refs d [] senders = senders"
| "change_refs d (n # ns) senders =
     change_refs d ns
       (case mget senders n of None \<Rightarrow> senders | Some ss \<Rightarrow> mset_at n (ss\<lparr>ss_Refs := ss_Refs ss + d\<rparr>) senders)"

definition releaseSenderRefs :: "string list \<Rightarrow> store \<Rightarrow> store" where
  "releaseSenderRefs names st = st\<lparr>st_senders := change_refs (- 1) names (st_senders st)\<rparr>"

fun find_pipelines :: "string \<Rightarrow> string list \<Rightarrow> pipeline gomap \<Rightarrow> pipeline list result" where
  "find_pipelines task [] pipelines = Inr []"
| "find_pipelines task (pn # pns) pipelines =
     (case mget pipelines pn of
        None \<Rightarrow> Inl (Errorf ''task %s pipeline %s not found'' [AStr task, AStr pn])
      | Some pl \<Rightarrow>
        (case find_pipelines task pns pipelines of Inl err \<Rightarrow> Inl err | Inr pls \<Rightarrow> Inr (pl # pls)))"

text \<open>The loop that binds the senders: at a missing one the references taken so far are given back.\<close>

fun retain_senders :: "string \<Rightarrow> string list \<Rightarrow> string list \<Rightarrow> sender_ref list \<Rightarrow> sender_state gomap \<Rightarrow>
    sender_ref list result \<times> sender_state gomap" where
  "retain_senders task [] retained bound senders = (Inr bound, senders)"
| "retain_senders task (sn # sns) retained bound senders =
     (case mget senders sn of
        None \<Rightarrow> (Inl (Errorf ''task %s sender %s not found'' [AStr task, AStr sn]), change_refs (- 1) retained senders)
      | Some ss \<Rightarrow>
          retain_senders task sns (retained @ [sn]) (bound @ [\<lparr>sr_id = ss_S ss, sr_name = ss_Name ss\<rparr>])
            (mset_at sn (ss\<lparr>ss_Refs := ss_Refs ss + 1\<rparr>) senders))"

definition new_task :: "string \<Rightarrow> task_config \<Rightarrow> logging_config \<Rightarrow> pipeline list \<Rightarrow> sender_ref list \<Rightarrow> task" where
  "new_task name tc lc pipes bound =
     \<lparr>tk_Name = name, tk_Pipelines = pipes, tk_Senders = bound, tk_PoolSize = tc_PoolSize tc,
      tk_ChannelQueueSize = tc_ChannelQueueSize tc, tk_ExecutionModel = tc_ExecutionModel tc,
      tk_LogPayloadSend = tc_LogPayloadSend tc,
      tk_PayloadLogMax = payloadLogMaxBytes (tc_PayloadLogMaxBytes tc) (lc_PayloadLogMaxBytes lc),
      tk_pool = False, tk_ch = None, tk_sendStats = None, tk_sendersByName = [],
      tk_accepting = False, tk_inflight = 0, tk_inflightCount = 0, tk_routeSenderMiss = 0\<rparr>"

definition fail_task :: "nat option \<Rightarrow> go_error \<Rightarrow> store \<Rightarrow> go_error option \<times> store" where
  "fail_task counter err st =
     (Some err, case counter of None \<Rightarrow> st | Some c \<Rightarrow> log_event (CounterClosed c) st)"

definition addTask :: "env \<Rightarrow> string \<Rightarrow> task_config \<Rightarrow> logging_config \<Rightarrow> nat option \<Rightarrow> store \<Rightarrow> go_error option \<times> store" where
  "addTask env name tc lc counter st =
     (case find_pipelines name (elems (tc_Pipelines tc)) (st_pipelines st) of
        Inl err \<Rightarrow> fail_task counter err st
      | Inr pipes \<Rightarrow>
        (case retain_senders name (elems (tc_Senders tc)) [] [] (st_senders st) of
           (Inl err, senders') \<Rightarrow> fail_task counter err (st\<lparr>st_senders := senders'\<rparr>)
         | (Inr bound, senders') \<Rightarrow>
             let st1 = st\<lparr>st_senders := senders'\<rparr>;
                 tk = ReuseTrafficCounter counter (new_task name tc lc pipes bound);
                 (c, st2) = fresh st1
             in case Start (env_newpool env) (env_info env) c tk of
                  Inl err \<Rightarrow> fail_task counter err (releaseSenderRefs (elems (tc_Senders tc)) st2)
                | Inr tk' \<Rightarrow>
                    (None, retainTaskStageRefsLocked name (elems (tc_Pipelines tc))
                       (st2\<lparr>st_tasks := mset_at name \<lparr>ts_Name = name, ts_Cfg = tc, ts_T = tk'\<rparr> (st_tasks st2)\<rparr>))))"

text \<open>
  \<open>removeTask\<close> with its \<open>StopGraceful\<close>, which closes the traffic counter when it was not detached.
\<close>

definition removeTask :: "string \<Rightarrow> bool \<Rightarrow> store \<Rightarrow> nat option \<times> store" where
  "removeTask name preserveCounter st =
     (case mget (st_tasks st) name of
        None \<Rightarrow> (None, st)
      | Some ts \<Rightarrow>
          let st1 = releaseTaskStageRefsLocked name (elems (tc_Pipelines (ts_Cfg ts)))
                      (st\<lparr>st_tasks := mdel name (st_tasks st)\<rparr>);
              st2 = releaseSenderRefs (elems (tc_Senders (ts_Cfg ts))) st1;
              counter = (if preserveCounter then fst (DetachTrafficCounter (ts_T ts)) else None);
              st3 = log_event (TaskStopped name) st2
          in (counter,
              case tk_sendStats (ts_T ts) of
                Some c \<Rightarrow> if preserveCounter then st3 else log_event (CounterClosed c) st3
              | None \<Rightarrow> st3))"

definition gcUnusedSenders :: "store \<Rightarrow> store" where
  "gcUnusedSenders st =
     (let unused = filter (\<lambda>(n, ss). \<not> ss_Refs ss > 0) (st_senders st) in
      st\<lparr>st_senders := filter (\<lambda>(n, ss). ss_Refs ss > 0) (st_senders st),
         st_log := st_log st @ map (\<lambda>(n, ss). SenderClosed (ss_S ss)) unused\<rparr>)"

end
