(* ===== verification/Update.thy ===== *)
theory Update
  imports Store
begin

text \<open>
  \<open>src/src/runtime/update_cache.go\<close> and \<open>store.go\<close>: the update of the running system to a new
  configuration. \<open>UpdateCache\<close> replaces everything when nothing runs yet (\<open>replaceAll\<close>) and otherwise
  applies the difference (\<open>applyBusinessDelta\<close>). Every function returns its error and the store as
  far as it had come.
\<close>

section \<open>Early returns\<close>

text \<open>\<open>if err != nil { return err }\<close> after a call with a result, and after one without.\<close>

definition and_then :: "'a result \<times> store \<Rightarrow> ('a \<Rightarrow> store \<Rightarrow> go_error option \<times> store) \<Rightarrow> go_error option \<times> store" where
  "and_then r f = (case r of (Inl err, st) \<Rightarrow> (Some err, st) | (Inr v, st) \<Rightarrow> f v st)"

definition and_then0 :: "go_error option \<times> store \<Rightarrow> (store \<Rightarrow> go_error option \<times> store) \<Rightarrow> go_error option \<times> store" where
  "and_then0 r f = (case r of (Some err, st) \<Rightarrow> (Some err, st) | (None, st) \<Rightarrow> f st)"

lemma and_then_None: "and_then r f = (None, st') \<longleftrightarrow> (\<exists>v st1. r = (Inr v, st1) \<and> f v st1 = (None, st'))"
  by (auto simp: and_then_def split: prod.splits sum.splits)

lemma and_then0_None: "and_then0 r f = (None, st') \<longleftrightarrow> (\<exists>st1. r = (None, st1) \<and> f st1 = (None, st'))"
  by (auto simp: and_then0_def split: prod.splits option.splits)

section \<open>Copies and snapshots\<close>

definition cloneSelectorConfigMap :: "selector_config gomap \<Rightarrow> selector_config gomap" where
  "cloneSelectorConfigMap m =
     map (\<lambda>(n, c). (n, \<lparr>se_Matches = (case se_Matches c of None \<Rightarrow> None | Some ms \<Rightarrow> Some ms),
                        se_DefaultTaskSet = se_DefaultTaskSet c\<rparr>)) m"

definition cloneTaskSetMap :: "string slice gomap \<Rightarrow> string slice gomap" where
  "cloneTaskSetMap m = map (\<lambda>(n, s). (n, copy_slice s)) m"

definition clonePipelineConfigMap :: "stage_config slice gomap \<Rightarrow> stage_config slice gomap" where
  "clonePipelineConfigMap m = map (\<lambda>(n, s). (n, copy_slice s)) m"

definition receiverConfigSnapshot :: "receiver_state gomap \<Rightarrow> receiver_config gomap" where
  "receiverConfigSnapshot m = map (\<lambda>(n, s). (n, rs_Cfg s)) m"

definition senderConfigSnapshot :: "sender_state gomap \<Rightarrow> sender_config gomap" where
  "senderConfigSnapshot m = map (\<lambda>(n, s). (n, ss_Cfg s)) m"

definition taskConfigSnapshot :: "task_state gomap \<Rightarrow> task_config gomap" where
  "taskConfigSnapshot m = map (\<lambda>(n, s). (n, ts_Cfg s)) m"

section \<open>Selectors\<close>

fun resolve_tasks :: "string \<Rightarrow> string list \<Rightarrow> task_state gomap \<Rightarrow> task_state list result" where
  "resolve_tasks sel [] tasks = Inr []"
| "resolve_tasks sel (tn # tns) tasks =
     (case mget tasks tn of
        None \<Rightarrow> Inl (Errorf ''selector %s task %s not found during compile'' [AStr sel, AStr tn])
      | Some ts \<Rightarrow>
        (case resolve_tasks sel tns tasks of Inl err \<Rightarrow> Inl err | Inr tss \<Rightarrow> Inr (ts # tss)))"

definition resolveTaskSetStates :: "string \<Rightarrow> string \<Rightarrow> string slice gomap \<Rightarrow> task_state gomap \<Rightarrow> task_state list result" where
  "resolveTaskSetStates sel taskSetName taskSets tasks =
     resolve_tasks sel (case mget taskSets taskSetName of None \<Rightarrow> [] | Some s \<Rightarrow> elems s) tasks"

fun compile_matches :: "string \<Rightarrow> string gomap \<Rightarrow> string slice gomap \<Rightarrow> task_state gomap \<Rightarrow> task_state list gomap result" where
  "compile_matches sel [] taskSets tasks = Inr []"
| "compile_matches sel ((key, tsn) # ms) taskSets tasks =
     (case resolveTaskSetStates sel tsn taskSets tasks of
        Inl err \<Rightarrow> Inl err
      | Inr tss \<Rightarrow>
        (case compile_matches sel ms taskSets tasks of Inl err \<Rightarrow> Inl err | Inr out \<Rightarrow> Inr ((key, tss) # out)))"

definition compile_selector :: "string \<Rightarrow> selector_config \<Rightarrow> string slice gomap \<Rightarrow> task_state gomap \<Rightarrow> compiled_selector result" where
  "compile_selector name sc taskSets tasks =
     (case compile_matches name (elems (se_Matches sc)) taskSets tasks of
        Inl err \<Rightarrow> Inl err
      | Inr byKey \<Rightarrow>
          let cs = (NewCompiled name)\<lparr>sel_ValuesByKey := byKey\<rparr> in
          if se_DefaultTaskSet sc \<noteq> [] then
            (case resolveTaskSetStates name (se_DefaultTaskSet sc) taskSets tasks of
               Inl err \<Rightarrow> Inl err
             | Inr tss \<Rightarrow> Inr (cs\<lparr>sel_DefaultValues := tss\<rparr>))
          else Inr cs)"

fun compile_selectors :: "selector_config gomap \<Rightarrow> string slice gomap \<Rightarrow> task_state gomap \<Rightarrow> compiled_selector gomap result" where
  "compile_selectors [] taskSets tasks = Inr []"
| "compile_selectors ((name, sc) # scs) taskSets tasks =
     (case compile_selector name sc taskSets tasks of
        Inl err \<Rightarrow> Inl err
      | Inr cs \<Rightarrow>
        (case compile_selectors scs taskSets tasks of Inl err \<Rightarrow> Inl err | Inr out \<Rightarrow> Inr ((name, cs) # out)))"

definition rebuildReceiverSelectors :: "store \<Rightarrow> go_error option \<times> store" where
  "rebuildReceiverSelectors st =
     (case compile_selectors (cloneSelectorConfigMap (st_selectors st)) (cloneTaskSetMap (st_taskSets st)) (st_tasks st) of
        Inl err \<Rightarrow> (Some err, st)
      | Inr compiled \<Rightarrow>
          (None, st\<lparr>st_receivers := map (\<lambda>(n, rs). (n, rs\<lparr>rs_Selector := mget compiled (rs_SelectorName rs)\<rparr>)) (st_receivers st)\<rparr>))"

section \<open>Senders\<close>

record built_sender =
  bu_name :: string
  bu_cfg :: sender_config
  bu_s :: nat
  bu_old :: "nat option"

text \<open>Building the new and the changed senders; at an error those already built are closed.\<close>

fun build_senders :: "env \<Rightarrow> sender_config gomap \<Rightarrow> sender_state gomap \<Rightarrow> built_sender list \<Rightarrow> store \<Rightarrow>
    built_sender list result \<times> store" where
  "build_senders env [] oldStates built st = (Inr built, st)"
| "build_senders env ((name, sc) # rest) oldStates built st =
     (case mget oldStates name of
        Some old \<Rightarrow>
          if ss_Cfg old = sc then build_senders env rest oldStates built st
          else
            (case buildSender env name sc st of
               (Inl err, st') \<Rightarrow> (Inl err, st'\<lparr>st_log := st_log st' @ map (\<lambda>b. SenderClosed (bu_s b)) built\<rparr>)
             | (Inr s, st') \<Rightarrow> build_senders env rest oldStates
                 (built @ [\<lparr>bu_name = name, bu_cfg = sc, bu_s = s, bu_old = Some (ss_S old)\<rparr>]) st')
      | None \<Rightarrow>
          (case buildSender env name sc st of
             (Inl err, st') \<Rightarrow> (Inl err, st'\<lparr>st_log := st_log st' @ map (\<lambda>b. SenderClosed (bu_s b)) built\<rparr>)
           | (Inr s, st') \<Rightarrow> build_senders env rest oldStates
               (built @ [\<lparr>bu_name = name, bu_cfg = sc, bu_s = s, bu_old = None\<rparr>]) st'))"

fun install_senders :: "built_sender list \<Rightarrow> sender_state gomap \<Rightarrow> sender_state gomap" where
  "install_senders [] senders = senders"
| "install_senders (b # bs) senders =
     (let refs = (case mget senders (bu_name b) of None \<Rightarrow> 0 | Some cur \<Rightarrow> ss_Refs cur) in
      install_senders bs
        (mset_at (bu_name b) \<lparr>ss_Name = bu_name b, ss_Cfg = bu_cfg b, ss_S = bu_s b, ss_Refs = refs\<rparr> senders))"

definition applySenderDelta :: "env \<Rightarrow> sender_config gomap \<Rightarrow> store \<Rightarrow> nat list result \<times> store" where
  "applySenderDelta env next st =
     (case build_senders env next (st_senders st) [] st of
        (Inl err, st') \<Rightarrow> (Inl err, st')
      | (Inr built, st') \<Rightarrow>
          let senders1 = install_senders built (st_senders st');
              gone = (\<lambda>(n, ss). \<not> mhas next n \<and> ss_Refs ss = 0)
          in (Inr (List.map_filter bu_old built),
              st'\<lparr>st_senders := filter (\<lambda>e. \<not> gone e) senders1,
                  st_log := st_log st' @ map (\<lambda>(n, ss). SenderClosed (ss_S ss)) (filter gone senders1)\<rparr>))"

section \<open>Receivers\<close>

definition new_receiver_state :: "string \<Rightarrow> receiver_config \<Rightarrow> nat \<Rightarrow> int \<Rightarrow> receiver_state" where
  "new_receiver_state name rc r loggingMax =
     \<lparr>rs_Name = name, rs_Cfg = rc, rs_Recv = r, rs_LogPayloadRecv = rc_LogPayloadRecv rc,
      rs_PayloadLogMax = payloadLogMaxBytes (rc_PayloadLogMaxBytes rc) loggingMax,
      rs_SelectorName = rc_Selector rc, rs_Selector = None\<rparr>"

fun prepareReceiverDelta :: "env \<Rightarrow> receiver_config gomap \<Rightarrow> store \<Rightarrow> (receiver_state \<times> receiver_state option) list result \<times> store" where
  "prepareReceiverDelta env [] st = (Inr [], st)"
| "prepareReceiverDelta env ((name, rc) # rest) st =
     (if (case mget (st_receivers st) name of Some old \<Rightarrow> rs_Cfg old = rc | None \<Rightarrow> False) then
        prepareReceiverDelta env rest st
      else
        (case buildReceiver env name rc st of
           (Inl err, st') \<Rightarrow> (Inl err, st')
         | (Inr r, st') \<Rightarrow>
           (case prepareReceiverDelta env rest st' of
              (Inl err, st2) \<Rightarrow> (Inl err, st2)
            | (Inr built, st2) \<Rightarrow>
                (Inr ((new_receiver_state name rc r (st_payloadLogDefaultMax st'), mget (st_receivers st') name) # built), st2))))"

text \<open>\<open>startReceiver\<close> and the wait for its goroutine to run: the receiver's \<open>Start\<close> has been called.\<close>

definition startReceiver :: "receiver_state \<Rightarrow> store \<Rightarrow> store" where
  "startReceiver rs st = log_event (ReceiverStarted (rs_Recv rs)) st"

fun commit_built :: "(receiver_state \<times> receiver_state option) list \<Rightarrow> store \<Rightarrow> go_error option \<times> store" where
  "commit_built [] st = (None, st)"
| "commit_built ((rs, old) # rest) st =
     (case rebuildReceiverSelectors (st\<lparr>st_receivers := mset_at (rs_Name rs) rs (st_receivers st)\<rparr>) of
        (Some err, st') \<Rightarrow> (Some err, st')
      | (None, st') \<Rightarrow>
          let st2 = startReceiver rs st' in
          commit_built rest (case old of None \<Rightarrow> st2 | Some o1 \<Rightarrow> log_event (ReceiverStopped (rs_Recv o1)) st2))"

definition commitReceiverDelta :: "receiver_config gomap \<Rightarrow> (receiver_state \<times> receiver_state option) list \<Rightarrow> store \<Rightarrow> go_error option \<times> store" where
  "commitReceiverDelta next built st =
     (let gone = (\<lambda>(n, rs). \<not> mhas next n) in
      commit_built built
        (st\<lparr>st_receivers := filter (\<lambda>e. \<not> gone e) (st_receivers st),
            st_log := st_log st @ map (\<lambda>(n, rs). ReceiverStopped (rs_Recv rs)) (filter gone (st_receivers st))\<rparr>))"

definition applyReceiverDelta :: "env \<Rightarrow> receiver_config gomap \<Rightarrow> store \<Rightarrow> go_error option \<times> store" where
  "applyReceiverDelta env next st =
     (case prepareReceiverDelta env next st of
        (Inl err, st') \<Rightarrow> (Some err, st')
      | (Inr built, st') \<Rightarrow> commitReceiverDelta next built st')"

section \<open>StopAll and replaceAll\<close>

definition StopAll :: "store \<Rightarrow> store" where
  "StopAll st =
     st\<lparr>st_log := st_log st
        @ map (\<lambda>(n, rs). ReceiverStopped (rs_Recv rs)) (st_receivers st)
        @ map (\<lambda>(n, ts). TaskStopped n) (st_tasks st)
        @ map (\<lambda>(n, ss). SenderClosed (ss_S ss)) (st_senders st)\<rparr>"

fun replace_senders :: "env \<Rightarrow> sender_config gomap \<Rightarrow> store \<Rightarrow> go_error option \<times> store" where
  "replace_senders env [] st = (None, st)"
| "replace_senders env ((name, sc) # rest) st =
     (case buildSender env name sc st of
        (Inl err, st') \<Rightarrow> (Some err, st')
      | (Inr s, st') \<Rightarrow>
          replace_senders env rest
            (st'\<lparr>st_senders := mset_at name \<lparr>ss_Name = name, ss_Cfg = sc, ss_S = s, ss_Refs = 0\<rparr> (st_senders st')\<rparr>))"

fun add_tasks :: "env \<Rightarrow> task_config gomap \<Rightarrow> logging_config \<Rightarrow> store \<Rightarrow> go_error option \<times> store" where
  "add_tasks env [] lc st = (None, st)"
| "add_tasks env ((name, tc) # rest) lc st =
     (case addTask env name tc lc None st of
        (Some err, st') \<Rightarrow> (Some err, st')
      | (None, st') \<Rightarrow> add_tasks env rest lc st')"

fun replace_receivers :: "env \<Rightarrow> receiver_config gomap \<Rightarrow> logging_config \<Rightarrow> receiver_state list \<Rightarrow> store \<Rightarrow>
    receiver_state list result \<times> store" where
  "replace_receivers env [] lc states st = (Inr states, st)"
| "replace_receivers env ((name, rc) # rest) lc states st =
     (case buildReceiver env name rc st of
        (Inl err, st') \<Rightarrow> (Inl err, st')
      | (Inr r, st') \<Rightarrow>
          let rs = new_receiver_state name rc r (lc_PayloadLogMaxBytes lc) in
          replace_receivers env rest lc (states @ [rs]) (st'\<lparr>st_receivers := mset_at name rs (st_receivers st')\<rparr>))"

definition replaceAll :: "env \<Rightarrow> config \<Rightarrow> store \<Rightarrow> go_error option \<times> store" where
  "replaceAll env cfg st0 =
     and_then (compilePipelinesWithStageCache env (elems (cfg_Pipelines cfg)) (StopAll st0)) (\<lambda>nxt st.
     let st1 = gcUnusedStageCache (st\<lparr>st_receivers := [],
                 st_selectors := cloneSelectorConfigMap (elems (cfg_Selectors cfg)),
                 st_taskSets := cloneTaskSetMap (elems (cfg_TaskSets cfg)),
                 st_senders := [], st_tasks := [], st_pipelines := fst nxt,
                 st_pipelineCfg := clonePipelineConfigMap (elems (cfg_Pipelines cfg)),
                 st_pipelineStageSigs := snd nxt\<rparr>) in
     and_then0 (replace_senders env (elems (cfg_Senders cfg)) st1) (\<lambda>st2.
     and_then0 (add_tasks env (elems (cfg_Tasks cfg)) (cfg_Logging cfg) st2) (\<lambda>st3.
     and_then0 (rebuildReceiverSelectors st3) (\<lambda>st4.
     and_then (replace_receivers env (elems (cfg_Receivers cfg)) (cfg_Logging cfg) [] st4) (\<lambda>states st5.
     and_then0 (rebuildReceiverSelectors st5) (\<lambda>st6.
     (None, fold startReceiver states st6)))))))"

section \<open>applyBusinessDelta\<close>

fun remove_tasks :: "env \<Rightarrow> config \<Rightarrow> string list \<Rightarrow> string list \<Rightarrow> store \<Rightarrow> go_error option \<times> store" where
  "remove_tasks env cfg addSet [] st = (None, st)"
| "remove_tasks env cfg addSet (name # names) st =
     (let reAdd = name \<in> set addSet; (counter, st1) = removeTask name reAdd st in
      if reAdd then
        (case addTask env name (case mget (elems (cfg_Tasks cfg)) name of None \<Rightarrow> zero_task_config | Some tc \<Rightarrow> tc)
                (cfg_Logging cfg) counter st1 of
           (Some err, st2) \<Rightarrow> (Some err, st2)
         | (None, st2) \<Rightarrow> remove_tasks env cfg addSet names st2)
      else remove_tasks env cfg addSet names st1)"

fun add_new_tasks :: "env \<Rightarrow> config \<Rightarrow> string list \<Rightarrow> string list \<Rightarrow> store \<Rightarrow> go_error option \<times> store" where
  "add_new_tasks env cfg removeSet [] st = (None, st)"
| "add_new_tasks env cfg removeSet (name # names) st =
     (if name \<in> set removeSet then add_new_tasks env cfg removeSet names st
      else
        (case addTask env name (case mget (elems (cfg_Tasks cfg)) name of None \<Rightarrow> zero_task_config | Some tc \<Rightarrow> tc)
                (cfg_Logging cfg) None st of
           (Some err, st2) \<Rightarrow> (Some err, st2)
         | (None, st2) \<Rightarrow> add_new_tasks env cfg removeSet names st2))"

definition store_plan :: "store \<Rightarrow> config \<Rightarrow> business_delta_plan" where
  "store_plan st cfg =
     planBusinessDelta (receiverConfigSnapshot (st_receivers st)) (cloneSelectorConfigMap (st_selectors st))
       (cloneTaskSetMap (st_taskSets st)) (senderConfigSnapshot (st_senders st))
       (clonePipelineConfigMap (st_pipelineCfg st)) (taskConfigSnapshot (st_tasks st)) cfg"

text \<open>
  The function runs in five parts, separated where it may return an error: the pipelines are
  compiled, the receivers built, the selectors and senders replaced, the tasks rebuilt, and the
  receivers and their selectors published.
\<close>

definition delta_tasks :: "env \<Rightarrow> config \<Rightarrow> business_delta_plan \<Rightarrow> store \<Rightarrow> go_error option \<times> store" where
  "delta_tasks env cfg plan st =
     and_then0 (remove_tasks env cfg (taskAdded plan) (taskRemoved plan) st) (\<lambda>st1.
     add_new_tasks env cfg (taskRemoved plan) (taskAdded plan) st1)"

definition receiver_changed :: "business_delta_plan \<Rightarrow> bool" where
  "receiver_changed plan \<longleftrightarrow> receiverAdded plan \<noteq> [] \<or> receiverRemoved plan \<noteq> []"

definition selector_changed :: "business_delta_plan \<Rightarrow> bool" where
  "selector_changed plan \<longleftrightarrow> selectorAdded plan \<noteq> [] \<or> selectorRemoved plan \<noteq> []"

definition taskset_changed :: "business_delta_plan \<Rightarrow> bool" where
  "taskset_changed plan \<longleftrightarrow> taskSetAdded plan \<noteq> [] \<or> taskSetRemoved plan \<noteq> []"

definition sender_changed :: "business_delta_plan \<Rightarrow> bool" where
  "sender_changed plan \<longleftrightarrow> senderAdded plan \<noteq> [] \<or> senderRemoved plan \<noteq> []"

definition pipeline_changed :: "business_delta_plan \<Rightarrow> bool" where
  "pipeline_changed plan \<longleftrightarrow> pipelineAdded plan \<noteq> [] \<or> pipelineRemoved plan \<noteq> []"

definition delta_publish :: "config \<Rightarrow> business_delta_plan \<Rightarrow> (receiver_state \<times> receiver_state option) list \<Rightarrow> nat list \<Rightarrow>
    store \<Rightarrow> go_error option \<times> store" where
  "delta_publish cfg plan receiverDelta senderClosers st =
     (let st1 = gcUnusedStageCache (gcUnusedSenders (rebuildStageTaskRefs st)) in
      and_then0 (if receiver_changed plan then commitReceiverDelta (elems (cfg_Receivers cfg)) receiverDelta st1
                 else (None, st1)) (\<lambda>st2.
      and_then0 (if selector_changed plan \<or> taskset_changed plan \<or> receiver_changed plan \<or>
                    taskAdded plan \<noteq> [] \<or> taskRemoved plan \<noteq> []
                 then rebuildReceiverSelectors st2 else (None, st2)) (\<lambda>st3.
      (None, st3\<lparr>st_log := st_log st3 @ map SenderClosed senderClosers\<rparr>))))"

definition delta_install_pipelines :: "config \<Rightarrow> pipeline gomap \<times> string list gomap \<Rightarrow> store \<Rightarrow> store" where
  "delta_install_pipelines cfg nxt st =
     gcUnusedStageCache (st\<lparr>st_pipelines := fst nxt,
       st_pipelineCfg := clonePipelineConfigMap (elems (cfg_Pipelines cfg)),
       st_pipelineStageSigs := snd nxt\<rparr>)"

definition applyBusinessDelta :: "env \<Rightarrow> config \<Rightarrow> store \<Rightarrow> go_error option \<times> store" where
  "applyBusinessDelta env cfg st =
     (let plan = store_plan st cfg in
      and_then (if pipeline_changed plan then compilePipelinesWithStageCache env (elems (cfg_Pipelines cfg)) st
                else (Inr ([], []), st)) (\<lambda>nxt st1.
      and_then (if receiver_changed plan then prepareReceiverDelta env (elems (cfg_Receivers cfg)) st1
                else (Inr [], st1)) (\<lambda>receiverDelta st2.
      let st3 = (if selector_changed plan \<or> taskset_changed plan then
                   st2\<lparr>st_selectors := cloneSelectorConfigMap (elems (cfg_Selectors cfg)),
                       st_taskSets := cloneTaskSetMap (elems (cfg_TaskSets cfg))\<rparr>
                 else st2) in
      and_then (if sender_changed plan then applySenderDelta env (elems (cfg_Senders cfg)) st3
                else (Inr [], st3)) (\<lambda>senderClosers st4.
      let st5 = (if pipeline_changed plan then delta_install_pipelines cfg nxt st4 else st4) in
      and_then0 (delta_tasks env cfg plan st5) (\<lambda>st6.
      delta_publish cfg plan receiverDelta senderClosers st6)))))"

section \<open>UpdateCache\<close>

definition canApplyBusinessDelta :: "store \<Rightarrow> bool" where
  "canApplyBusinessDelta st \<longleftrightarrow> \<not> (st_receivers st = [] \<and> st_senders st = [] \<and> st_tasks st = [])"

definition setPayloadLogDefaultMax :: "int \<Rightarrow> store \<Rightarrow> store" where
  "setPayloadLogDefaultMax m st = st\<lparr>st_payloadLogDefaultMax := m\<rparr>"

definition UpdateCache :: "env \<Rightarrow> config \<Rightarrow> store \<Rightarrow> go_error option \<times> store" where
  "UpdateCache env cfg st0 =
     (let st = setPayloadLogDefaultMax (lc_PayloadLogMaxBytes (cfg_Logging cfg)) st0 in
      if canApplyBusinessDelta st then applyBusinessDelta env cfg st else replaceAll env cfg st)"

end
