(* ===== verification/Coherent.thy ===== *)
theory Coherent
  imports Update
begin

text \<open>
  What a store should be: \<open>coherent\<close> says that every part of the store fits the others (the running
  tasks hold the current senders and pipelines, the reference counts count, the selectors route as
  the stored configuration says), \<open>matches\<close> that the store is what a configuration asks for. The
  lemmas say what the operations of \<open>Store\<close> and \<open>Update\<close> do to a store in these terms.
\<close>

section \<open>What a configuration means\<close>

definition spec_pipeline :: "(string \<Rightarrow> regex result) \<Rightarrow> stage_config slice gomap \<Rightarrow> string \<Rightarrow> pipeline option" where
  "spec_pipeline rx cfg n =
     (case mget cfg n of
        None \<Rightarrow> None
      | Some s \<Rightarrow>
          (case compile_stages rx n (elems s) of
             Inl e \<Rightarrow> None
           | Inr sts \<Rightarrow> Some \<lparr>pl_Name = n, pl_Stages = sts\<rparr>))"

definition task_set :: "string slice gomap \<Rightarrow> string \<Rightarrow> string list" where
  "task_set taskSets tsn = (case mget taskSets tsn of None \<Rightarrow> [] | Some s \<Rightarrow> elems s)"

text \<open>The tasks a selector names for a match key.\<close>

definition route :: "selector_config gomap \<Rightarrow> string slice gomap \<Rightarrow> string \<Rightarrow> string \<Rightarrow> string list" where
  "route selectors taskSets sel key =
     (case mget selectors sel of
        None \<Rightarrow> []
      | Some sc \<Rightarrow>
          (case mget (elems (se_Matches sc)) key of
             Some tsn \<Rightarrow> task_set taskSets tsn
           | None \<Rightarrow> if se_DefaultTaskSet sc \<noteq> [] then task_set taskSets (se_DefaultTaskSet sc) else []))"

definition wf_stages :: "stage_config slice gomap \<Rightarrow> bool" where
  "wf_stages m \<longleftrightarrow> wf_map m \<and> (\<forall>(n, s) \<in> set m. \<forall>sc \<in> set (elems s). wf_map (elems (st_Cases sc)))"

definition wf_selectors :: "selector_config gomap \<Rightarrow> bool" where
  "wf_selectors m \<longleftrightarrow> wf_map m \<and> (\<forall>(n, sc) \<in> set m. wf_map (elems (se_Matches sc)))"

definition wf_cfg :: "config \<Rightarrow> bool" where
  "wf_cfg cfg \<longleftrightarrow> wf_config cfg \<and> wf_stages (elems (cfg_Pipelines cfg)) \<and> wf_selectors (elems (cfg_Selectors cfg))"

section \<open>Deep-equal configurations mean the same\<close>

lemma compile_routes_cong:
  "map_of c1 = map_of c2 \<Longrightarrow> compile_routes c1 ks kl rs = compile_routes c2 ks kl rs"
  by (induction ks arbitrary: kl rs) (auto split: sum.split simp: Let_def)

lemma nmap_deep_eq_map_of:
  "nmap_deep_eq a b \<Longrightarrow> wf_map (elems a) \<Longrightarrow> wf_map (elems b) \<Longrightarrow> map_of (elems a) = map_of (elems b)"
  by (cases a; cases b) (simp_all add: map_deep_eq_iff)

lemma sort_keys_cong:
  assumes "map_of a = map_of b" "wf_map a" "wf_map b"
  shows "sort (mkeys a) = sort (mkeys b)"
proof (rule sorted_distinct_set_unique)
  show "set (sort (mkeys a)) = set (sort (mkeys b))"
    using assms(1) by (metis dom_map_of_conv_image_fst list.set_map set_sort)
qed (use assms in \<open>simp_all add: wf_map_def\<close>)

lemma compileStage_deep_eq:
  assumes "stage_deep_eq a b" "wf_map (elems (st_Cases a))" "wf_map (elems (st_Cases b))"
  shows "compileStage rx a = compileStage rx b"
proof -
  have e: "a\<lparr>st_Cases := None\<rparr> = b\<lparr>st_Cases := None\<rparr>" and n: "nmap_deep_eq (st_Cases a) (st_Cases b)"
    using assms(1) by (simp_all add: stage_deep_eq_def)
  have b: "b = a\<lparr>st_Cases := st_Cases b\<rparr>"
  proof -
    have "b = (b\<lparr>st_Cases := None\<rparr>)\<lparr>st_Cases := st_Cases b\<rparr>" by simp
    then show ?thesis unfolding e [symmetric] by simp
  qed
  have m: "map_of (elems (st_Cases a)) = map_of (elems (st_Cases b))"
    by (rule nmap_deep_eq_map_of [OF n assms(2,3)])
  have z: "elems (st_Cases a) = [] \<longleftrightarrow> elems (st_Cases b) = []"
    using m by (metis map_of.simps(1) map_of_eq_empty_iff)
  have s: "sort (mkeys (elems (st_Cases a))) = sort (mkeys (elems (st_Cases b)))"
    by (rule sort_keys_cong [OF m assms(2,3)])
  have r: "compile_routes (elems (st_Cases a)) ks kl rs = compile_routes (elems (st_Cases b)) ks kl rs" for ks kl rs
    by (rule compile_routes_cong [OF m])
  define c where "c = st_Cases b"
  have "compileStage rx (a\<lparr>st_Cases := c\<rparr>) = compileStage rx a"
    using z s r unfolding compileStage_def Let_def c_def [symmetric]
    by (simp cong: sum.case_cong)
  then show ?thesis using b by (simp add: c_def)
qed

lemma compile_stages_deep_eq:
  assumes "list_all2 stage_deep_eq as bs" "\<forall>sc \<in> set as. wf_map (elems (st_Cases sc))" "\<forall>sc \<in> set bs. wf_map (elems (st_Cases sc))"
  shows "map (compileStage rx) as = map (compileStage rx) bs"
  using assms by (induction rule: list_all2_induct) (simp_all add: compileStage_deep_eq)

lemma compile_stages_cong:
  assumes "map (compileStage rx) as = map (compileStage rx) bs" "map st_Type as = map st_Type bs"
  shows "compile_stages rx n as = compile_stages rx n bs"
  using assms
proof (induction as arbitrary: bs)
  case (Cons a as)
  then obtain b bs' where "bs = b # bs'" by (cases bs) auto
  then show ?case using Cons.IH [of bs'] Cons.prems by (simp split: sum.split)
qed simp

lemma stage_deep_eq_type: "stage_deep_eq a b \<Longrightarrow> st_Type a = st_Type b"
  unfolding stage_deep_eq_def by (metis stage_config.select_convs(1) stage_config.surjective stage_config.update_convs(6))

lemma stages_deep_eq_compile:
  assumes "stages_deep_eq (copy_slice a) b"
    "\<forall>sc \<in> set (elems a). wf_map (elems (st_Cases sc))" "\<forall>sc \<in> set (elems b). wf_map (elems (st_Cases sc))"
  shows "compile_stages rx n (elems a) = compile_stages rx n (elems b)"
proof -
  have l: "list_all2 stage_deep_eq (elems a) (elems b)"
    using assms(1) by (cases "copy_slice a"; cases b) (auto simp: copy_slice_def split: if_splits)
  then have "map st_Type (elems a) = map st_Type (elems b)"
    by (induction rule: list_all2_induct) (simp_all add: stage_deep_eq_type)
  with compile_stages_deep_eq [OF l assms(2,3)] show ?thesis by (rule compile_stages_cong)
qed

lemma mget_clonePipeline: "mget (clonePipelineConfigMap m) n = map_option copy_slice (mget m n)"
  unfolding clonePipelineConfigMap_def by (simp add: mget_map_snd [where f = "\<lambda>_. copy_slice"])

lemma mget_cloneTaskSet: "mget (cloneTaskSetMap m) n = map_option copy_slice (mget m n)"
  unfolding cloneTaskSetMap_def by (simp add: mget_map_snd [where f = "\<lambda>_. copy_slice"])

lemma cloneSelector_id [simp]: "cloneSelectorConfigMap m = m"
  unfolding cloneSelectorConfigMap_def by (induction m) (auto split: option.splits)

lemma wf_clones [simp]:
  "wf_map (clonePipelineConfigMap m) = wf_map m" "wf_map (cloneTaskSetMap ts) = wf_map ts"
  by (simp_all add: clonePipelineConfigMap_def cloneTaskSetMap_def wf_map_map_snd [where f = "\<lambda>_. copy_slice"])

lemma spec_pipeline_clone [simp]: "spec_pipeline rx (clonePipelineConfigMap m) n = spec_pipeline rx m n"
  by (simp add: spec_pipeline_def mget_clonePipeline split: option.split)

lemma task_set_clone [simp]: "task_set (cloneTaskSetMap m) n = task_set m n"
  by (simp add: task_set_def mget_cloneTaskSet split: option.split)

lemma route_clone [simp]: "route sels (cloneTaskSetMap m) sel key = route sels m sel key"
  by (simp add: route_def split: option.split)

lemma spec_pipeline_unchanged:
  assumes "unchanged stages_deep_eq (clonePipelineConfigMap m1) m2 n" "wf_stages m1" "wf_stages m2"
  shows "spec_pipeline rx m1 n = spec_pipeline rx m2 n"
proof (cases "mget m1 n")
  case None
  then show ?thesis using assms(1)
    by (simp add: unchanged_def mget_clonePipeline spec_pipeline_def split: option.splits)
next
  case (Some a)
  then obtain b where b: "mget m2 n = Some b" "stages_deep_eq (copy_slice a) b"
    using assms(1) by (auto simp: unchanged_def mget_clonePipeline split: option.splits)
  have "\<forall>sc \<in> set (elems a). wf_map (elems (st_Cases sc))" "\<forall>sc \<in> set (elems b). wf_map (elems (st_Cases sc))"
    using assms(2,3) Some b(1) by (auto simp: wf_stages_def dest!: map_of_SomeD)
  from stages_deep_eq_compile [OF b(2) this, of rx n] show ?thesis
    using Some b(1) by (simp add: spec_pipeline_def)
qed

lemma route_unchanged:
  assumes "\<And>n. unchanged selector_deep_eq s1 s2 n" "\<And>n. unchanged (=) (cloneTaskSetMap t1) t2 n"
    "wf_selectors s1" "wf_selectors s2"
  shows "route s1 t1 sel key = route s2 t2 sel key"
proof -
  have t: "task_set t1 n = task_set t2 n" for n
    using assms(2) [of n] by (auto simp: unchanged_def mget_cloneTaskSet task_set_def split: option.splits)
  show ?thesis
  proof (cases "mget s1 sel")
    case None
    then show ?thesis using assms(1) [of sel] by (auto simp: unchanged_def route_def split: option.splits)
  next
    case (Some a)
    then obtain b where b: "mget s2 sel = Some b" "selector_deep_eq a b"
      using assms(1) [of sel] by (auto simp: unchanged_def split: option.splits)
    have "map_of (elems (se_Matches a)) = map_of (elems (se_Matches b))"
      by (rule nmap_deep_eq_map_of)
        (use Some b assms(3,4) in \<open>auto simp: selector_deep_eq_def wf_selectors_def dest!: map_of_SomeD\<close>)
    then show ?thesis using Some b t by (simp add: route_def selector_deep_eq_def cong: option.case_cong)
  qed
qed

section \<open>Compiling through the stage cache\<close>

text \<open>
  What the cache relies on: \<open>json.Marshal\<close> gives two stage configurations the same text only when
  they compile to the same.
\<close>

definition sig_faithful :: "env \<Rightarrow> bool" where
  "sig_faithful env \<longleftrightarrow>
     (\<forall>a b s. env_marshal env a = Inr s \<and> env_marshal env b = Inr s \<longrightarrow>
        compileStage (env_regexp env) a = compileStage (env_regexp env) b)"

text \<open>Every entry of the cache is the compiled stage of its signature; \<open>idle\<close>: no task is counted.\<close>

definition cache_ok :: "env \<Rightarrow> stage_cache_entry gomap \<Rightarrow> bool" where
  "cache_ok env cache \<longleftrightarrow>
     (\<forall>sig e. mget cache sig = Some e \<longrightarrow>
        (\<exists>sc. env_marshal env sc = Inr sig \<and> compileStage (env_regexp env) sc = Inr (ce_Fn e)))"

definition idle_cache :: "stage_cache_entry gomap \<Rightarrow> bool" where
  "idle_cache cache \<longleftrightarrow> list_all (\<lambda>(sig, e). ce_TaskRefs e = 0) cache"

lemma set_update_subset: "set (mset_at k v m) \<subseteq> insert (k, v) (set m)"
  by (induction m) auto

lemma idle_cache_update: "idle_cache c \<Longrightarrow> ce_TaskRefs e = 0 \<Longrightarrow> idle_cache (mset_at sig e c)"
  using set_update_subset [of sig e c] by (auto simp: idle_cache_def list_all_iff)

lemma cache_stages_correct:
  assumes "cache_stages env name scs cache created = (Inr (fns, sigs), cache', created')"
    "sig_faithful env" "cache_ok env cache" "idle_cache cache"
  shows "compile_stages (env_regexp env) name scs = Inr fns \<and> cache_ok env cache' \<and> idle_cache cache'"
  using assms
proof (induction scs arbitrary: cache created fns sigs)
  case (Cons sc scs)
  obtain sig where sig: "env_marshal env sc = Inr sig"
    using Cons.prems(1) by (auto simp: stageSignature_def split: sum.splits)
  show ?case
  proof (cases "mget cache sig")
    case (Some e)
    then obtain fns' sigs' where r: "cache_stages env name scs cache created = (Inr (fns', sigs'), cache', created')"
      "fns = ce_Fn e # fns'"
      using Cons.prems(1) sig by (auto simp: stageSignature_def split: sum.splits prod.splits)
    have "compileStage (env_regexp env) sc = Inr (ce_Fn e)"
      using Some sig Cons.prems(2,3) unfolding cache_ok_def sig_faithful_def by metis
    then show ?thesis using Cons.IH [OF r(1) Cons.prems(2,3,4)] r(2) by simp
  next
    case None
    let ?e = "\<lambda>fn. \<lparr>ce_Sig = sig, ce_Fn = fn, ce_TaskRefs = 0, ce_Tasks = []\<rparr>"
    obtain fn fns' sigs' where r: "compileStage (env_regexp env) sc = Inr fn" "fns = fn # fns'"
      "cache_stages env name scs (mset_at sig (?e fn) cache) (created @ [sig]) = (Inr (fns', sigs'), cache', created')"
      using Cons.prems(1) sig None by (auto simp: stageSignature_def split: sum.splits prod.splits)
    have "cache_ok env (mset_at sig (?e fn) cache)"
      using Cons.prems(3) sig r(1) by (auto simp: cache_ok_def)
    moreover have "idle_cache (mset_at sig (?e fn) cache)" using Cons.prems(4) by (simp add: idle_cache_update)
    ultimately show ?thesis using Cons.IH [OF r(3) Cons.prems(2)] r(1,2) by simp
  qed
qed simp

lemma cache_pipelines_correct:
  assumes "cache_pipelines env cfg cache created = (Inr (out, sigs), cache', created')"
    "sig_faithful env" "cache_ok env cache" "idle_cache cache"
  shows "CompilePipelines (env_regexp env) cfg = Inr out \<and> idle_cache cache'"
  using assms
proof (induction cfg arbitrary: cache created out sigs)
  case (Cons c cfg)
  obtain name stages where c: "c = (name, stages)" by (cases c)
  obtain fns sg c1 d1 where s: "cache_stages env name (elems stages) cache created = (Inr (fns, sg), c1, d1)"
    using Cons.prems(1) c by (auto split: sum.splits prod.splits)
  obtain out' sigs' where r: "cache_pipelines env cfg c1 d1 = (Inr (out', sigs'), cache', created')"
    "out = (name, \<lparr>pl_Name = name, pl_Stages = fns\<rparr>) # out'"
    using Cons.prems(1) c s by (auto split: sum.splits prod.splits)
  note h = cache_stages_correct [OF s Cons.prems(2,3,4)]
  then show ?case using Cons.IH [OF r(1) Cons.prems(2)] r(2) c by simp
qed simp

lemma CompilePipelines_spec:
  assumes "CompilePipelines rx cfg = Inr out"
  shows "mget out n = spec_pipeline rx cfg n \<and> mkeys out = mkeys cfg \<and>
    (mget cfg n \<noteq> None \<longrightarrow> spec_pipeline rx cfg n \<noteq> None)"
  using assms
proof (induction cfg arbitrary: out)
  case (Cons c cfg)
  obtain name stages where c: "c = (name, stages)" by (cases c)
  obtain sts where s: "compile_stages rx name (elems stages) = Inr sts"
    using Cons.prems c by (auto split: sum.splits)
  obtain out' where o: "CompilePipelines rx cfg = Inr out'" "out = (name, \<lparr>pl_Name = name, pl_Stages = sts\<rparr>) # out'"
    using Cons.prems c s by (auto split: sum.splits)
  have "spec_pipeline rx ((name, stages) # cfg) n =
    (if n = name then Some \<lparr>pl_Name = name, pl_Stages = sts\<rparr> else spec_pipeline rx cfg n)"
    using s by (simp add: spec_pipeline_def)
  then show ?case using Cons.IH [OF o(1)] o(2) c by (cases "n = name") simp_all
qed (simp add: spec_pipeline_def)

lemma compile_cached:
  assumes "compilePipelinesWithStageCache env cfg st = (Inr nxt, st')" "sig_faithful env" "st_stageCache st = []"
  shows "\<exists>cache. st' = st\<lparr>st_stageCache := cache\<rparr> \<and> idle_cache cache \<and>
    CompilePipelines (env_regexp env) cfg = Inr (fst nxt)"
proof -
  obtain out0 sigs0 where n: "nxt = (out0, sigs0)" by (cases nxt)
  obtain out sigs cache created where c: "cache_pipelines env cfg [] [] = (Inr (out, sigs), cache, created)"
    using assms(1,3) n by (auto simp: compilePipelinesWithStageCache_def split: sum.splits prod.splits)
  have "cache_ok env []" "idle_cache []" by (simp_all add: cache_ok_def idle_cache_def)
  from cache_pipelines_correct [OF c assms(2) this] show ?thesis
    using assms(1,3) c by (auto simp: compilePipelinesWithStageCache_def)
qed

lemma gc_idle: "idle_cache (st_stageCache st) \<Longrightarrow> gcUnusedStageCache st = st\<lparr>st_stageCache := []\<rparr>"
proof -
  assume i: "idle_cache (st_stageCache st)"
  have "filter (\<lambda>(sig, e). ce_TaskRefs e > 0) (st_stageCache st) = []"
    using i by (auto simp: idle_cache_def list_all_iff filter_empty_conv)
  then show ?thesis by (simp add: gcUnusedStageCache_def)
qed

lemma empty_cache_ops:
  "retain_sigs t sigs [] = []" "release_sigs t sigs [] = []"
  by (induction sigs) simp_all

lemma empty_cache_stays:
  assumes "st_stageCache st = []"
  shows "retainTaskStageRefsLocked t ps st = st" "releaseTaskStageRefsLocked t ps st = st"
    "rebuildStageTaskRefs st = st" "gcUnusedStageCache st = st"
proof -
  have r: "retainTaskStageRefsLocked t' ps' st = st" for t' ps'
    unfolding retainTaskStageRefsLocked_def assms empty_cache_ops using assms by simp
  show "retainTaskStageRefsLocked t ps st = st" by (rule r)
  show "releaseTaskStageRefsLocked t ps st = st"
    unfolding releaseTaskStageRefsLocked_def assms empty_cache_ops using assms by simp
  have t: "retain_tasks ts st = st" for ts
  proof (induction ts)
    case (Cons a ts)
    then show ?case by (cases a) (simp add: r)
  qed simp
  have z: "st\<lparr>st_stageCache := []\<rparr> = st" using assms by simp
  show "rebuildStageTaskRefs st = st" unfolding rebuildStageTaskRefs_def assms list.map z by (rule t)
  show "gcUnusedStageCache st = st" using assms by (simp add: gcUnusedStageCache_def)
qed

section \<open>References to senders\<close>

definition uses :: "task_state \<Rightarrow> string \<Rightarrow> nat" where
  "uses ts n = count_list (elems (tc_Senders (ts_Cfg ts))) n"

definition refcount :: "task_state gomap \<Rightarrow> string \<Rightarrow> nat" where
  "refcount tasks n = sum_list (map (\<lambda>(k, ts). uses ts n) tasks)"

lemma refcount_add: "mget tasks k = None \<Longrightarrow> refcount (mset_at k ts tasks) n = refcount tasks n + uses ts n"
  unfolding refcount_def by (induction tasks) (auto split: if_splits)

lemma mdel_absent: "mget m k = None \<Longrightarrow> mdel k m = m"
  by (auto simp: map_of_eq_None_iff intro!: delete_idem)

lemma refcount_remove:
  "wf_map tasks \<Longrightarrow> mget tasks k = Some ts \<Longrightarrow> refcount tasks n = refcount (mdel k tasks) n + uses ts n"
proof (induction tasks)
  case (Cons a tasks)
  obtain k' ts' where a: "a = (k', ts')" by (cases a)
  show ?case
  proof (cases "k' = k")
    case True
    then have "k \<notin> fst ` set tasks" "ts' = ts" using Cons.prems a by (auto simp: wf_map_def)
    then have "mdel k tasks = tasks" by (simp add: delete_idem)
    then show ?thesis using a True \<open>ts' = ts\<close> by (simp add: refcount_def)
  next
    case False
    then show ?thesis using Cons a by (simp add: refcount_def wf_map_def)
  qed
qed simp

lemma refcount_member: "(k, ts) \<in> set tasks \<Longrightarrow> uses ts n \<le> refcount tasks n"
  unfolding refcount_def by (induction tasks) (auto intro: trans_le_add2)

lemma change_refs_get:
  "mget (change_refs d ns senders) n =
     map_option (\<lambda>ss. ss\<lparr>ss_Refs := ss_Refs ss + d * int (count_list ns n)\<rparr>) (mget senders n)"
proof (induction ns arbitrary: senders)
  case Nil
  then show ?case by (cases "mget senders n") simp_all
next
  case (Cons k ns)
  then show ?case
    by (cases "mget senders n"; cases "mget senders k") (auto simp: algebra_simps split: option.split)
qed

lemma wf_change_refs [simp]: "wf_map senders \<Longrightarrow> wf_map (change_refs d ns senders)"
  by (induction ns arbitrary: senders) (auto split: option.split)

lemma retain_senders_effect:
  assumes "retain_senders task sns retained bound senders = (Inr out, senders')" "wf_map senders"
  shows "wf_map senders' \<and>
    (\<forall>n. mget senders' n = map_option (\<lambda>ss. ss\<lparr>ss_Refs := ss_Refs ss + int (count_list sns n)\<rparr>) (mget senders n)) \<and>
    map Some out = map Some bound @
      map (\<lambda>sn. map_option (\<lambda>ss. \<lparr>sr_id = ss_S ss, sr_name = ss_Name ss\<rparr>) (mget senders sn)) sns"
  using assms
proof (induction sns arbitrary: retained bound senders)
  case Nil
  have "map_option (\<lambda>ss. ss\<lparr>ss_Refs := ss_Refs ss + int 0\<rparr>) (mget senders n) = mget senders n" for n
    by (cases "mget senders n") simp_all
  then show ?case using Nil by simp
next
  case (Cons sn sns)
  obtain ss where ss: "mget senders sn = Some ss" using Cons.prems(1) by (auto split: option.splits)
  let ?s = "mset_at sn (ss\<lparr>ss_Refs := ss_Refs ss + 1\<rparr>) senders"
  have r: "retain_senders task sns (retained @ [sn]) (bound @ [\<lparr>sr_id = ss_S ss, sr_name = ss_Name ss\<rparr>]) ?s = (Inr out, senders')"
    using Cons.prems(1) ss by simp
  have w: "wf_map ?s" using Cons.prems(2) by simp
  note ih = Cons.IH [OF r w]
  have b: "map_option (\<lambda>ss. \<lparr>sr_id = ss_S ss, sr_name = ss_Name ss\<rparr>) (mget ?s k) =
    map_option (\<lambda>ss. \<lparr>sr_id = ss_S ss, sr_name = ss_Name ss\<rparr>) (mget senders k)" for k
    using ss by simp
  have m: "mget senders' n = map_option (\<lambda>ss. ss\<lparr>ss_Refs := ss_Refs ss + int (count_list (sn # sns) n)\<rparr>) (mget senders n)" for n
    using ih ss by (cases "mget senders n") auto
  show ?case using ih m ss by (simp add: b)
qed

section \<open>Tasks that hold what the store holds\<close>

text \<open>The references to the senders of a list of names, where they exist.\<close>

definition bound_senders :: "sender_state gomap \<Rightarrow> string list \<Rightarrow> sender_ref option list" where
  "bound_senders senders sns =
     map (\<lambda>sn. map_option (\<lambda>ss. \<lparr>sr_id = ss_S ss, sr_name = sn\<rparr>) (mget senders sn)) sns"

definition task_ok :: "pipeline gomap \<Rightarrow> sender_state gomap \<Rightarrow> string \<Rightarrow> task_state \<Rightarrow> bool" where
  "task_ok pipelines senders n ts \<longleftrightarrow>
     ts_Name ts = n \<and> tk_Name (ts_T ts) = n \<and> tk_accepting (ts_T ts) \<and>
     map Some (tk_Pipelines (ts_T ts)) = map (mget pipelines) (elems (tc_Pipelines (ts_Cfg ts))) \<and>
     map Some (tk_Senders (ts_T ts)) = bound_senders senders (elems (tc_Senders (ts_Cfg ts))) \<and>
     tk_sendersByName (ts_T ts) = sender_index (tk_Senders (ts_T ts)) []"

text \<open>The instance and the configuration of a sender, which the reference counting leaves alone.\<close>

definition same_senders :: "sender_state gomap \<Rightarrow> sender_state gomap \<Rightarrow> bool" where
  "same_senders a b \<longleftrightarrow>
     (\<forall>n. map_option (\<lambda>ss. ss\<lparr>ss_Refs := 0\<rparr>) (mget a n) = map_option (\<lambda>ss. ss\<lparr>ss_Refs := 0\<rparr>) (mget b n))"

lemma same_senders_refl [simp]: "same_senders a a"
  by (simp add: same_senders_def)

lemma same_senders_trans: "same_senders a b \<Longrightarrow> same_senders b c \<Longrightarrow> same_senders a c"
  by (simp add: same_senders_def)

lemma same_senders_get:
  assumes "same_senders a b"
  shows "map_option ss_S (mget a n) = map_option ss_S (mget b n)"
    "map_option ss_Cfg (mget a n) = map_option ss_Cfg (mget b n)"
    "map_option ss_Name (mget a n) = map_option ss_Name (mget b n)"
    "mget a n = None \<longleftrightarrow> mget b n = None"
proof -
  have e: "map_option (\<lambda>ss. ss\<lparr>ss_Refs := 0\<rparr>) (mget a n) = map_option (\<lambda>ss. ss\<lparr>ss_Refs := 0\<rparr>) (mget b n)"
    using assms by (simp add: same_senders_def)
  from arg_cong [OF e, of "map_option ss_S"] show "map_option ss_S (mget a n) = map_option ss_S (mget b n)"
    by (simp add: option.map_comp comp_def)
  from arg_cong [OF e, of "map_option ss_Cfg"] show "map_option ss_Cfg (mget a n) = map_option ss_Cfg (mget b n)"
    by (simp add: option.map_comp comp_def)
  from arg_cong [OF e, of "map_option ss_Name"] show "map_option ss_Name (mget a n) = map_option ss_Name (mget b n)"
    by (simp add: option.map_comp comp_def)
  from arg_cong [OF e, of "\<lambda>x. x = None"] show "mget a n = None \<longleftrightarrow> mget b n = None" by simp
qed

lemma bound_senders_cong:
  assumes "\<And>n. n \<in> set sns \<Longrightarrow> map_option ss_S (mget a n) = map_option ss_S (mget b n)"
  shows "bound_senders a sns = bound_senders b sns"
proof -
  have "map_option (\<lambda>ss. \<lparr>sr_id = ss_S ss, sr_name = n\<rparr>) (mget a n) =
      map_option (\<lambda>ss. \<lparr>sr_id = ss_S ss, sr_name = n\<rparr>) (mget b n)" if "n \<in> set sns" for n
    using arg_cong [OF assms [OF that], of "map_option (\<lambda>i. \<lparr>sr_id = i, sr_name = n\<rparr>)"]
    by (simp add: option.map_comp comp_def)
  then show ?thesis by (simp add: bound_senders_def)
qed

lemma bound_senders_same: "same_senders a b \<Longrightarrow> bound_senders a sns = bound_senders b sns"
  by (rule bound_senders_cong) (rule same_senders_get)

lemma task_ok_same: "same_senders a b \<Longrightarrow> task_ok ps a n ts = task_ok ps b n ts"
  by (simp add: task_ok_def bound_senders_same [of a b])

text \<open>
  The invariant of the task part of the store; \<open>R\<close> are the names of tasks that still wait for
  their removal.
\<close>

definition tasks_inv :: "string set \<Rightarrow> store \<Rightarrow> bool" where
  "tasks_inv R st \<longleftrightarrow>
     wf_map (st_tasks st) \<and> wf_map (st_senders st) \<and> st_stageCache st = [] \<and>
     (\<forall>n ss. mget (st_senders st) n = Some ss \<longrightarrow> ss_Name ss = n \<and> ss_Refs ss = int (refcount (st_tasks st) n)) \<and>
     (\<forall>n ts sn. mget (st_tasks st) n = Some ts \<longrightarrow> sn \<in> set (elems (tc_Senders (ts_Cfg ts))) \<longrightarrow> mget (st_senders st) sn \<noteq> None) \<and>
     (\<forall>n ts. mget (st_tasks st) n = Some ts \<longrightarrow> n \<notin> R \<longrightarrow> task_ok (st_pipelines st) (st_senders st) n ts)"

text \<open>What the operations on tasks leave alone.\<close>

definition task_frame :: "store \<Rightarrow> store \<Rightarrow> bool" where
  "task_frame a b \<longleftrightarrow>
     st_pipelines b = st_pipelines a \<and> st_pipelineCfg b = st_pipelineCfg a \<and> st_receivers b = st_receivers a \<and>
     st_selectors b = st_selectors a \<and> st_taskSets b = st_taskSets a \<and> st_stageCache b = st_stageCache a \<and>
     st_pipelineStageSigs b = st_pipelineStageSigs a \<and> st_payloadLogDefaultMax b = st_payloadLogDefaultMax a \<and>
     same_senders (st_senders b) (st_senders a)"

lemma task_frame_refl [simp]: "task_frame st st"
  by (simp add: task_frame_def)

lemma task_frame_trans: "task_frame a b \<Longrightarrow> task_frame b c \<Longrightarrow> task_frame a c"
  by (auto simp: task_frame_def intro: same_senders_trans)

lemma task_frame_fields:
  assumes "task_frame a b"
  shows "st_pipelines b = st_pipelines a" "st_pipelineCfg b = st_pipelineCfg a" "st_receivers b = st_receivers a"
    "st_selectors b = st_selectors a" "st_taskSets b = st_taskSets a" "st_stageCache b = st_stageCache a"
    "same_senders (st_senders b) (st_senders a)"
  using assms by (simp_all add: task_frame_def)

lemma find_pipelines_effect:
  "find_pipelines task pns pipelines = Inr pls \<Longrightarrow> map Some pls = map (mget pipelines) pns"
  by (induction pns arbitrary: pls) (auto split: option.splits sum.splits)

lemma Start_effect:
  assumes "Start newpool info c t0 = Inr t"
  shows "tk_Name t = tk_Name t0" "tk_Pipelines t = tk_Pipelines t0" "tk_Senders t = tk_Senders t0" "tk_accepting t"
    "tk_sendersByName t = sender_index (tk_Senders t0) []"
  using assms by (auto simp: Start_def start_resources_def rebuildSenderIndex_def Let_def
    split: if_splits option.splits sum.splits)

lemma new_task_fields [simp]:
  "tk_Name (ReuseTrafficCounter c (new_task n tc lc ps bs)) = n"
  "tk_Pipelines (ReuseTrafficCounter c (new_task n tc lc ps bs)) = ps"
  "tk_Senders (ReuseTrafficCounter c (new_task n tc lc ps bs)) = bs"
  by (simp_all add: ReuseTrafficCounter_def new_task_def)

lemma map_refs_same:
  assumes "\<And>n. mget b n = map_option (\<lambda>ss. ss\<lparr>ss_Refs := f n ss\<rparr>) (mget a n)"
  shows "same_senders b a"
  unfolding same_senders_def assms by (simp add: option.map_comp comp_def)

lemma addTask_effect:
  assumes "addTask env name tc lc counter st = (None, st')" "tasks_inv R st" "mget (st_tasks st) name = None" "name \<notin> R"
  shows "tasks_inv R st' \<and> task_frame st st' \<and>
    (\<exists>ts. ts_Cfg ts = tc \<and> (\<forall>n. mget (st_tasks st') n = (if n = name then Some ts else mget (st_tasks st) n)))"
proof -
  have inv: "wf_map (st_tasks st)" "wf_map (st_senders st)" "st_stageCache st = []"
    "\<And>n ss. mget (st_senders st) n = Some ss \<Longrightarrow> ss_Name ss = n \<and> ss_Refs ss = int (refcount (st_tasks st) n)"
    "\<And>n ts sn. mget (st_tasks st) n = Some ts \<Longrightarrow> sn \<in> set (elems (tc_Senders (ts_Cfg ts))) \<Longrightarrow> mget (st_senders st) sn \<noteq> None"
    "\<And>n ts. mget (st_tasks st) n = Some ts \<Longrightarrow> n \<notin> R \<Longrightarrow> task_ok (st_pipelines st) (st_senders st) n ts"
    using assms(2) unfolding tasks_inv_def by blast+
  let ?sns = "elems (tc_Senders tc)"
  obtain pipes where p: "find_pipelines name (elems (tc_Pipelines tc)) (st_pipelines st) = Inr pipes"
    using assms(1) by (auto simp: addTask_def fail_task_def split: sum.splits)
  obtain bs senders' where r: "retain_senders name ?sns [] [] (st_senders st) = (Inr bs, senders')"
    using assms(1) p by (auto simp: addTask_def fail_task_def split: sum.splits prod.splits)
  define tk where "tk = ReuseTrafficCounter counter (new_task name tc lc pipes bs)"
  obtain tk' where s: "Start (env_newpool env) (env_info env) (st_next st) tk = Inr tk'"
    using assms(1) p r by (auto simp: addTask_def fail_task_def fresh_def Let_def tk_def split: sum.splits)
  define ts where "ts = \<lparr>ts_Name = name, ts_Cfg = tc, ts_T = tk'\<rparr>"
  have "st_stageCache (st\<lparr>st_senders := senders', st_next := Suc (st_next st), st_tasks := mset_at name ts (st_tasks st)\<rparr>) = []"
    using inv(3) by simp
  from empty_cache_stays(1) [OF this] have st': "st' = st\<lparr>st_senders := senders', st_next := Suc (st_next st), st_tasks := mset_at name ts (st_tasks st)\<rparr>"
    using assms(1) p r s by (simp add: addTask_def fresh_def Let_def tk_def ts_def)
  note re = retain_senders_effect [OF r inv(2)]
  have same: "same_senders senders' (st_senders st)" 
    by (rule map_refs_same [where f = "\<lambda>n ss. ss_Refs ss + int (count_list ?sns n)"]) (use re in blast)
  have frame: "task_frame st st'"
    unfolding task_frame_def st' using same by simp
  have bs: "map Some bs = bound_senders (st_senders st) ?sns"
  proof -
    have "map_option (\<lambda>ss. \<lparr>sr_id = ss_S ss, sr_name = ss_Name ss\<rparr>) (mget (st_senders st) sn) =
      map_option (\<lambda>ss. \<lparr>sr_id = ss_S ss, sr_name = sn\<rparr>) (mget (st_senders st) sn)" for sn
      using inv(4) by (cases "mget (st_senders st) sn") simp_all
    then show ?thesis using re by (simp add: bound_senders_def)
  qed
  have ok: "task_ok (st_pipelines st) (st_senders st) name ts"
    using Start_effect [OF s] find_pipelines_effect [OF p] bs by (simp add: task_ok_def ts_def tk_def)
  have present: "mget (st_senders st) sn \<noteq> None" if "sn \<in> set ?sns" for sn
  proof
    assume "mget (st_senders st) sn = None"
    then have "None \<in> set (bound_senders (st_senders st) ?sns)" using that by (force simp: bound_senders_def)
    then show False unfolding bs [symmetric] by auto
  qed
  have "tasks_inv R st'"
    unfolding tasks_inv_def
  proof (intro conjI allI impI)
    show "wf_map (st_tasks st')" "wf_map (st_senders st')" "st_stageCache st' = []"
      using inv(1,3) re by (simp_all add: st')
  next
    fix n ss
    assume "mget (st_senders st') n = Some ss"
    then obtain ss0 where ss0: "mget (st_senders st) n = Some ss0" "ss = ss0\<lparr>ss_Refs := ss_Refs ss0 + int (count_list ?sns n)\<rparr>"
      using re by (auto simp: st')
    have "refcount (mset_at name ts (st_tasks st)) n = refcount (st_tasks st) n + count_list ?sns n"
      using refcount_add [OF assms(3)] by (simp add: uses_def ts_def)
    then show "ss_Name ss = n" "ss_Refs ss = int (refcount (st_tasks st') n)"
      using inv(4) [OF ss0(1)] ss0(2) by (simp_all add: st')
  next
    fix n ts1 sn
    assume "mget (st_tasks st') n = Some ts1" "sn \<in> set (elems (tc_Senders (ts_Cfg ts1)))"
    then have "mget (st_senders st) sn \<noteq> None"
      using inv(5) present by (auto simp: st' ts_def split: if_splits)
    then show "mget (st_senders st') sn \<noteq> None" using same_senders_get(4) [OF same] by (simp add: st')
  next
    fix n ts1
    assume "mget (st_tasks st') n = Some ts1" "n \<notin> R"
    then have "task_ok (st_pipelines st) (st_senders st) n ts1"
      using inv(6) ok by (auto simp: st' split: if_splits)
    then show "task_ok (st_pipelines st') (st_senders st') n ts1"
      using task_ok_same [OF same] by (simp add: st')
  qed
  then show ?thesis using frame by (auto simp: st' ts_def intro!: exI [of _ ts])
qed

lemma removeTask_effect:
  assumes "removeTask name pc st = (c, st')" "tasks_inv R st"
  shows "tasks_inv (R - {name}) st' \<and> task_frame st st' \<and>
    (\<forall>n. mget (st_tasks st') n = (if n = name then None else mget (st_tasks st) n))"
proof (cases "mget (st_tasks st) name")
  case None
  then have "st' = st" using assms(1) by (simp add: removeTask_def)
  then show ?thesis using assms(2) None by (auto simp: tasks_inv_def)
next
  case (Some ts)
  have inv: "wf_map (st_tasks st)" "wf_map (st_senders st)" "st_stageCache st = []"
    "\<And>n ss. mget (st_senders st) n = Some ss \<Longrightarrow> ss_Name ss = n \<and> ss_Refs ss = int (refcount (st_tasks st) n)"
    "\<And>n ts sn. mget (st_tasks st) n = Some ts \<Longrightarrow> sn \<in> set (elems (tc_Senders (ts_Cfg ts))) \<Longrightarrow> mget (st_senders st) sn \<noteq> None"
    "\<And>n ts. mget (st_tasks st) n = Some ts \<Longrightarrow> n \<notin> R \<Longrightarrow> task_ok (st_pipelines st) (st_senders st) n ts"
    using assms(2) unfolding tasks_inv_def by blast+
  let ?senders = "change_refs (- 1) (elems (tc_Senders (ts_Cfg ts))) (st_senders st)"
  have "st_stageCache (st\<lparr>st_tasks := mdel name (st_tasks st)\<rparr>) = []" using inv(3) by simp
  note rel = empty_cache_stays(2) [OF this]
  obtain l where st': "st' = st\<lparr>st_tasks := mdel name (st_tasks st), st_senders := ?senders, st_log := l\<rparr>"
    using assms(1) Some rel
    by (auto simp: removeTask_def Let_def releaseSenderRefs_def log_event_def split: option.splits if_splits)
  have same: "same_senders ?senders (st_senders st)" by (rule map_refs_same) (rule change_refs_get)
  have frame: "task_frame st st'"
    unfolding task_frame_def st' using same by simp
  have "tasks_inv (R - {name}) st'"
    unfolding tasks_inv_def
  proof (intro conjI allI impI)
    show "wf_map (st_tasks st')" "wf_map (st_senders st')" "st_stageCache st' = []"
      using inv(1,2,3) by (simp_all add: st')
  next
    fix n ss
    assume "mget (st_senders st') n = Some ss"
    then obtain ss0 where ss0: "mget (st_senders st) n = Some ss0" "ss = ss0\<lparr>ss_Refs := ss_Refs ss0 + (- 1) * int (uses ts n)\<rparr>"
      by (auto simp: st' change_refs_get uses_def)
    then show "ss_Name ss = n" "ss_Refs ss = int (refcount (st_tasks st') n)"
      using inv(4) [OF ss0(1)] refcount_remove [OF inv(1) Some, of n] by (simp_all add: st')
  next
    fix n ts1 sn
    assume "mget (st_tasks st') n = Some ts1" "sn \<in> set (elems (tc_Senders (ts_Cfg ts1)))"
    then have "mget (st_senders st) sn \<noteq> None" using inv(5) by (auto simp: st' split: if_splits)
    then show "mget (st_senders st') sn \<noteq> None" using same_senders_get(4) [OF same] by (simp add: st')
  next
    fix n ts1
    assume "mget (st_tasks st') n = Some ts1" "n \<notin> R - {name}"
    then have "task_ok (st_pipelines st) (st_senders st) n ts1"
      using inv(6) by (auto simp: st' split: if_splits)
    then show "task_ok (st_pipelines st') (st_senders st') n ts1"
      using task_ok_same [OF same] by (simp add: st')
  qed
  then show ?thesis using frame by (simp add: st')
qed

end
