(* ===== verification/Reload.thy ===== *)
theory Reload
  imports Coherent
begin

text \<open>
  The reload theorem: a successful \<open>UpdateCache\<close> leaves a coherent store that matches the new
  configuration, whether it started from nothing or from any coherent store. First what each part of
  the update does to the selectors, the senders and the receivers.
\<close>

section \<open>Selectors\<close>

definition selector_ok :: "task_state gomap \<Rightarrow> selector_config gomap \<Rightarrow> string slice gomap \<Rightarrow> receiver_state \<Rightarrow> bool" where
  "selector_ok tasks selectors taskSets rs \<longleftrightarrow>
     (\<forall>key. map Some (Match (rs_Selector rs) key) = map (mget tasks) (route selectors taskSets (rs_SelectorName rs) key))"

lemma resolve_tasks_effect: "resolve_tasks sel tns tasks = Inr tss \<Longrightarrow> map Some tss = map (mget tasks) tns"
  by (induction tns arbitrary: tss) (auto split: option.splits sum.splits)

lemma resolve_set_effect:
  "resolveTaskSetStates sel tsn taskSets tasks = Inr tss \<Longrightarrow> map Some tss = map (mget tasks) (task_set taskSets tsn)"
  by (simp add: resolveTaskSetStates_def task_set_def resolve_tasks_effect)

lemma compile_matches_effect:
  assumes "compile_matches sel ms taskSets tasks = Inr out"
  shows "(mget ms key = None \<longrightarrow> mget out key = None) \<and>
    (\<forall>tsn. mget ms key = Some tsn \<longrightarrow> (\<exists>tss. mget out key = Some tss \<and> map Some tss = map (mget tasks) (task_set taskSets tsn)))"
  using assms
proof (induction ms arbitrary: out)
  case (Cons m ms)
  obtain k tsn where m: "m = (k, tsn)" by (cases m)
  obtain tss out' where o: "resolveTaskSetStates sel tsn taskSets tasks = Inr tss"
    "compile_matches sel ms taskSets tasks = Inr out'" "out = (k, tss) # out'"
    using Cons.prems m by (auto split: sum.splits)
  show ?case using Cons.IH [OF o(2)] resolve_set_effect [OF o(1)] o(3) m by simp
qed simp

lemma compile_selector_effect:
  assumes "compile_selector name sc taskSets tasks = Inr cs" "mget selectors name = Some sc"
  shows "map Some (Match (Some cs) key) = map (mget tasks) (route selectors taskSets name key)"
proof -
  obtain byKey where b: "compile_matches name (elems (se_Matches sc)) taskSets tasks = Inr byKey"
    using assms(1) by (auto simp: compile_selector_def split: sum.splits)
  have v: "sel_ValuesByKey cs = byKey"
    using assms(1) b by (auto simp: compile_selector_def Let_def split: if_splits sum.splits)
  have d: "map Some (sel_DefaultValues cs) =
      map (mget tasks) (if se_DefaultTaskSet sc \<noteq> [] then task_set taskSets (se_DefaultTaskSet sc) else [])"
    using assms(1) b
    by (auto simp: compile_selector_def NewCompiled_def Let_def resolve_set_effect split: if_splits sum.splits)
  show ?thesis
    using compile_matches_effect [OF b, of key] v d assms(2)
    by (cases "mget (elems (se_Matches sc)) key") (auto simp: Match_def route_def)
qed

lemma compile_selectors_effect:
  assumes "compile_selectors sels taskSets tasks = Inr out"
  shows "(mget sels n = None \<longrightarrow> mget out n = None) \<and>
    (\<forall>sc. mget sels n = Some sc \<longrightarrow> (\<exists>cs. mget out n = Some cs \<and> compile_selector n sc taskSets tasks = Inr cs))"
  using assms
proof (induction sels arbitrary: out)
  case (Cons s sels)
  obtain k sc where s: "s = (k, sc)" by (cases s)
  obtain cs out' where o: "compile_selector k sc taskSets tasks = Inr cs"
    "compile_selectors sels taskSets tasks = Inr out'" "out = (k, cs) # out'"
    using Cons.prems s by (auto split: sum.splits)
  show ?case using Cons.IH [OF o(2)] o(1,3) s by simp
qed simp

lemma mget_map_values: "mget (map (\<lambda>(n, v). (n, f v)) m) k = map_option f (mget m k)"
  by (induction m) auto

lemma wf_map_values [simp]: "wf_map (map (\<lambda>(n, v). (n, f v)) m) = wf_map m"
  by (simp add: wf_map_def comp_def case_prod_beta)

lemma rebuild_effect:
  assumes "rebuildReceiverSelectors st = (None, st')"
  shows "\<exists>f. st' = st\<lparr>st_receivers := map (\<lambda>(n, rs). (n, rs\<lparr>rs_Selector := f rs\<rparr>)) (st_receivers st)\<rparr> \<and>
    (\<forall>n rs. mget (st_receivers st') n = Some rs \<longrightarrow>
       selector_ok (st_tasks st) (st_selectors st) (st_taskSets st) rs)"
proof -
  obtain out where o: "compile_selectors (st_selectors st) (cloneTaskSetMap (st_taskSets st)) (st_tasks st) = Inr out"
    using assms by (auto simp: rebuildReceiverSelectors_def split: sum.splits)
  define f where "f = (\<lambda>rs :: receiver_state. mget out (rs_SelectorName rs))"
  have st': "st' = st\<lparr>st_receivers := map (\<lambda>(n, rs). (n, rs\<lparr>rs_Selector := f rs\<rparr>)) (st_receivers st)\<rparr>"
    using assms o by (simp add: rebuildReceiverSelectors_def f_def)
  have ok: "selector_ok (st_tasks st) (st_selectors st) (st_taskSets st) (rs\<lparr>rs_Selector := f rs\<rparr>)" for rs
  proof -
    note e = compile_selectors_effect [OF o, of "rs_SelectorName rs"]
    show ?thesis
    proof (cases "mget (st_selectors st) (rs_SelectorName rs)")
      case None
      then show ?thesis using e by (simp add: selector_ok_def f_def Match_def route_def)
    next
      case (Some sc)
      then obtain cs where cs: "mget out (rs_SelectorName rs) = Some cs"
        "compile_selector (rs_SelectorName rs) sc (cloneTaskSetMap (st_taskSets st)) (st_tasks st) = Inr cs"
        using e by blast
      from compile_selector_effect [OF cs(2) Some] show ?thesis
        using cs(1) by (simp add: selector_ok_def f_def)
    qed
  qed
  show ?thesis
  proof (intro exI [of _ f] conjI allI impI)
    fix n rs
    assume "mget (st_receivers st') n = Some rs"
    then obtain rs0 where "rs = rs0\<lparr>rs_Selector := f rs0\<rparr>"
      by (auto simp: st' mget_map_values [where f = "\<lambda>rs. rs\<lparr>rs_Selector := f rs\<rparr>"])
    then show "selector_ok (st_tasks st) (st_selectors st) (st_taskSets st) rs" using ok by simp
  qed (rule st')
qed

section \<open>The sender delta\<close>

definition needs_sender :: "sender_state gomap \<Rightarrow> string \<times> sender_config \<Rightarrow> bool" where
  "needs_sender old e = (case mget old (fst e) of None \<Rightarrow> True | Some ss \<Rightarrow> ss_Cfg ss \<noteq> snd e)"

lemma build_senders_effect:
  assumes "build_senders env nxt old built st = (Inr out, st')"
  shows "\<exists>new k. out = built @ new \<and> st' = st\<lparr>st_next := k\<rparr> \<and>
    list_all2 (\<lambda>e b. bu_name b = fst e \<and> bu_cfg b = snd e) (filter (needs_sender old) nxt) new"
  using assms
proof (induction nxt arbitrary: built st)
  case Nil
  then show ?case by (auto intro!: exI [of _ "st_next st"])
next
  case (Cons e nxt)
  obtain name sc where e: "e = (name, sc)" by (cases e)
  show ?case
  proof (cases "needs_sender old e")
    case False
    then obtain ss where "mget old name = Some ss" "ss_Cfg ss = sc"
      using e by (auto simp: needs_sender_def split: option.splits)
    then show ?thesis using Cons e False by simp
  next
    case True
    obtain s st1 where b: "buildSender env name sc st = (Inr s, st1)"
      using Cons.prems e True by (auto simp: needs_sender_def split: option.splits sum.splits prod.splits if_splits)
    obtain k1 where st1: "st1 = st\<lparr>st_next := k1\<rparr>"
      using b by (auto simp: buildSender_def fresh_def Let_def split: if_splits option.splits)
    obtain o1 where r: "build_senders env nxt old (built @ [\<lparr>bu_name = name, bu_cfg = sc, bu_s = s, bu_old = o1\<rparr>]) st1 = (Inr out, st')"
      using Cons.prems e True b by (auto simp: needs_sender_def split: option.splits if_splits)
    from Cons.IH [OF r] True e show ?thesis by (auto simp: st1)
  qed
qed

lemma install_senders_get:
  assumes "distinct (map bu_name bs)"
  shows "mget (install_senders bs senders) n =
    (case find (\<lambda>b. bu_name b = n) bs of
       None \<Rightarrow> mget senders n
     | Some b \<Rightarrow> Some \<lparr>ss_Name = n, ss_Cfg = bu_cfg b, ss_S = bu_s b,
         ss_Refs = (case mget senders n of None \<Rightarrow> 0 | Some cur \<Rightarrow> ss_Refs cur)\<rparr>)"
  using assms
proof (induction bs arbitrary: senders)
  case (Cons b bs)
  have "find (\<lambda>x. bu_name x = n) bs = None" if "bu_name b = n"
    using Cons.prems that by (force simp: find_None_iff image_iff)
  then show ?case using Cons by (auto simp: Let_def split: option.split)
qed simp

lemma wf_install [simp]: "wf_map senders \<Longrightarrow> wf_map (install_senders bs senders)"
  by (induction bs arbitrary: senders) (simp_all add: Let_def)

text \<open>What becomes of the sender of one name.\<close>

definition sender_step :: "sender_config gomap \<Rightarrow> sender_state gomap \<Rightarrow> sender_state gomap \<Rightarrow> string \<Rightarrow> bool" where
  "sender_step nxt old new n \<longleftrightarrow>
     (case mget nxt n of
        None \<Rightarrow> mget new n = (case mget old n of None \<Rightarrow> None | Some ss \<Rightarrow> if ss_Refs ss = 0 then None else Some ss)
      | Some sc \<Rightarrow>
          (case mget old n of
             None \<Rightarrow> (\<exists>s. mget new n = Some \<lparr>ss_Name = n, ss_Cfg = sc, ss_S = s, ss_Refs = 0\<rparr>)
           | Some ss \<Rightarrow>
               if ss_Cfg ss = sc then mget new n = Some ss
               else (\<exists>s. mget new n = Some \<lparr>ss_Name = n, ss_Cfg = sc, ss_S = s, ss_Refs = ss_Refs ss\<rparr>)))"

lemma list_all2_member: "list_all2 P xs ys \<Longrightarrow> y \<in> set ys \<Longrightarrow> \<exists>x \<in> set xs. P x y"
  by (induction rule: list_all2_induct) auto

lemma list_all2_map_eq: "list_all2 (\<lambda>e b. f b = g e \<and> P e b) xs ys \<Longrightarrow> map f ys = map g xs"
  by (induction rule: list_all2_induct) simp_all

lemma applySenderDelta_effect:
  assumes "applySenderDelta env nxt st = (Inr closers, st')" "wf_map nxt" "wf_map (st_senders st)"
  shows "\<exists>s k l. st' = st\<lparr>st_next := k, st_senders := s, st_log := l\<rparr> \<and> wf_map s \<and>
    (\<forall>n. sender_step nxt (st_senders st) s n)"
proof -
  obtain new st1 where b: "build_senders env nxt (st_senders st) [] st = (Inr new, st1)"
    using assms(1) by (auto simp: applySenderDelta_def Let_def split: sum.splits prod.splits)
  obtain k where k: "st1 = st\<lparr>st_next := k\<rparr>"
    "list_all2 (\<lambda>e b. bu_name b = fst e \<and> bu_cfg b = snd e) (filter (needs_sender (st_senders st)) nxt) new"
    using build_senders_effect [OF b] by auto
  let ?F = "filter (needs_sender (st_senders st)) nxt"
  have names: "map bu_name new = map fst ?F" by (rule list_all2_map_eq [OF k(2)])
  have d: "distinct (map bu_name new)"
    unfolding names using wf_map_filter [OF assms(2)] unfolding wf_map_def by blast
  define s1 where "s1 = install_senders new (st_senders st)"
  define s where "s = filter (\<lambda>e. \<not> (case e of (n, ss) \<Rightarrow> \<not> mhas nxt n \<and> ss_Refs ss = 0)) s1"
  have st': "\<exists>l. st' = st\<lparr>st_next := k, st_senders := s, st_log := l\<rparr>"
    using assms(1) b k(1) by (auto simp: applySenderDelta_def Let_def s_def s1_def)
  have w1: "wf_map s1" using assms(3) by (simp add: s1_def)
  have w: "wf_map s" using w1 by (simp add: s_def)
  have g: "mget s n = (case mget s1 n of None \<Rightarrow> None | Some ss \<Rightarrow> if mget nxt n = None \<and> ss_Refs ss = 0 then None else Some ss)" for n
    unfolding s_def mget_filter_key [OF w1] by (auto simp: mhas_def split: option.split)
  have step: "sender_step nxt (st_senders st) s n" for n
  proof (cases "find (\<lambda>b. bu_name b = n) new")
    case None
    have s1: "mget s1 n = mget (st_senders st) n" using install_senders_get [OF d, of "st_senders st" n] None by (simp add: s1_def)
    have "n \<notin> set (map bu_name new)" using None by (auto simp: find_None_iff)
    then have nf: "n \<notin> set (map fst ?F)" unfolding names .
    show ?thesis
    proof (cases "mget nxt n")
      case None
      then show ?thesis using g [of n] s1 by (simp add: sender_step_def split: option.split)
    next
      case (Some sc)
      then have "(n, sc) \<in> set nxt" by (rule map_of_SomeD)
      then have "\<not> needs_sender (st_senders st) (n, sc)" using nf by force
      then obtain ss where "mget (st_senders st) n = Some ss" "ss_Cfg ss = sc"
        by (auto simp: needs_sender_def split: option.splits)
      then show ?thesis using Some g [of n] s1 by (simp add: sender_step_def)
    qed
  next
    case (Some b)
    then have bn: "b \<in> set new" "bu_name b = n" by (auto simp: find_Some_iff)
    then obtain e where e: "e \<in> set ?F" "bu_name b = fst e" "bu_cfg b = snd e"
      using list_all2_member [OF k(2)] by blast
    then have "(n, bu_cfg b) \<in> set nxt" "needs_sender (st_senders st) (n, bu_cfg b)" using bn by auto
    then have nx: "mget nxt n = Some (bu_cfg b)" "needs_sender (st_senders st) (n, bu_cfg b)"
      using assms(2) by (simp_all add: mget_in_set)
    have s1: "mget s1 n = Some \<lparr>ss_Name = n, ss_Cfg = bu_cfg b, ss_S = bu_s b,
         ss_Refs = (case mget (st_senders st) n of None \<Rightarrow> 0 | Some cur \<Rightarrow> ss_Refs cur)\<rparr>"
      using install_senders_get [OF d, of "st_senders st" n] Some by (simp add: s1_def)
    then show ?thesis using g [of n] nx
      by (auto simp: sender_step_def needs_sender_def split: option.splits)
  qed
  show ?thesis using st' w step by blast
qed

section \<open>The receiver delta\<close>

text \<open>A receiver up to its instance, its log settings and its compiled selector.\<close>

definition rview :: "receiver_state \<Rightarrow> string \<times> receiver_config \<times> string" where
  "rview rs = (rs_Name rs, rs_Cfg rs, rs_SelectorName rs)"

definition rspec :: "string \<Rightarrow> receiver_config \<Rightarrow> string \<times> receiver_config \<times> string" where
  "rspec n rc = (n, rc, rc_Selector rc)"

definition needs_receiver :: "receiver_state gomap \<Rightarrow> string \<times> receiver_config \<Rightarrow> bool" where
  "needs_receiver old e = (case mget old (fst e) of None \<Rightarrow> True | Some rs \<Rightarrow> rs_Cfg rs \<noteq> snd e)"

lemma buildReceiver_store: "buildReceiver env name rc st = (Inr r, st') \<Longrightarrow> \<exists>k. st' = st\<lparr>st_next := k\<rparr>"
  by (auto simp: buildReceiver_def fresh_def Let_def split: if_splits option.splits)

lemma buildSender_store: "buildSender env name sc st = (Inr s, st') \<Longrightarrow> \<exists>k. st' = st\<lparr>st_next := k\<rparr>"
  by (auto simp: buildSender_def fresh_def Let_def split: if_splits option.splits)

lemma rview_new: "rview (new_receiver_state n rc r m) = rspec n rc"
  by (simp add: rview_def rspec_def new_receiver_state_def)

lemma prepare_effect:
  assumes "prepareReceiverDelta env nxt st = (Inr built, st')"
  shows "(\<exists>k. st' = st\<lparr>st_next := k\<rparr>) \<and>
    map (\<lambda>b. rview (fst b)) built = map (\<lambda>e. rspec (fst e) (snd e)) (filter (needs_receiver (st_receivers st)) nxt)"
  using assms
proof (induction nxt arbitrary: built st)
  case Nil
  then show ?case by (auto intro!: exI [of _ "st_next st"])
next
  case (Cons e nxt)
  obtain name rc where e: "e = (name, rc)" by (cases e)
  show ?case
  proof (cases "needs_receiver (st_receivers st) e")
    case False
    then show ?thesis using Cons e by (auto simp: needs_receiver_def split: option.splits)
  next
    case True
    then have c: "\<not> (case mget (st_receivers st) name of Some old \<Rightarrow> rs_Cfg old = rc | None \<Rightarrow> False)"
      using e by (auto simp: needs_receiver_def split: option.splits)
    obtain r st1 where b: "buildReceiver env name rc st = (Inr r, st1)"
      using Cons.prems e c by (auto split: sum.splits prod.splits)
    obtain k1 where st1: "st1 = st\<lparr>st_next := k1\<rparr>" using buildReceiver_store [OF b] by blast
    obtain built' where r: "prepareReceiverDelta env nxt st1 = (Inr built', st')"
      "built = (new_receiver_state name rc r (st_payloadLogDefaultMax st1), mget (st_receivers st1) name) # built'"
      using Cons.prems e c b by (auto split: sum.splits prod.splits)
    from Cons.IH [OF r(1)] r(2) True e show ?thesis by (auto simp: st1 rview_new)
  qed
qed

text \<open>What publishing receivers leaves alone.\<close>

definition receiver_frame :: "store \<Rightarrow> store \<Rightarrow> bool" where
  "receiver_frame a b \<longleftrightarrow> (\<exists>r l. b = a\<lparr>st_receivers := r, st_log := l\<rparr>)"

lemma receiver_frame_trans: "receiver_frame a b \<Longrightarrow> receiver_frame b c \<Longrightarrow> receiver_frame a c"
proof -
  assume "receiver_frame a b" "receiver_frame b c"
  then obtain r l r' l' where "b = a\<lparr>st_receivers := r, st_log := l\<rparr>" "c = b\<lparr>st_receivers := r', st_log := l'\<rparr>"
    by (auto simp: receiver_frame_def)
  then have "c = a\<lparr>st_receivers := r', st_log := l'\<rparr>" by simp
  then show ?thesis unfolding receiver_frame_def by blast
qed

lemma rebuild_views:
  assumes "rebuildReceiverSelectors st = (None, st')"
  shows "map_option rview (mget (st_receivers st') n) = map_option rview (mget (st_receivers st) n)"
    "receiver_frame st st'" "wf_map (st_receivers st) \<Longrightarrow> wf_map (st_receivers st')"
proof -
  obtain f where f: "st' = st\<lparr>st_receivers := map (\<lambda>(n, rs). (n, rs\<lparr>rs_Selector := f rs\<rparr>)) (st_receivers st)\<rparr>"
    using rebuild_effect [OF assms] by blast
  have c: "rview \<circ> (\<lambda>rs. rs\<lparr>rs_Selector := f rs\<rparr>) = rview" by (rule ext) (simp add: rview_def)
  show "map_option rview (mget (st_receivers st') n) = map_option rview (mget (st_receivers st) n)"
    by (simp add: f mget_map_values [where f = "\<lambda>rs. rs\<lparr>rs_Selector := f rs\<rparr>"] option.map_comp c)
  show "receiver_frame st st'" unfolding receiver_frame_def f by (auto intro!: exI [of _ "st_log st"])
  show "wf_map (st_receivers st) \<Longrightarrow> wf_map (st_receivers st')"
    by (simp add: f wf_map_values [where f = "\<lambda>rs. rs\<lparr>rs_Selector := f rs\<rparr>"])
qed

lemma commit_built_effect:
  assumes "commit_built built st = (None, st')" "distinct (map (\<lambda>b. rs_Name (fst b)) built)" "wf_map (st_receivers st)"
  shows "receiver_frame st st' \<and> wf_map (st_receivers st') \<and>
    (\<forall>n. map_option rview (mget (st_receivers st') n) =
      (case map_of (map (\<lambda>b. (rs_Name (fst b), rview (fst b))) built) n of
         Some v \<Rightarrow> Some v
       | None \<Rightarrow> map_option rview (mget (st_receivers st) n)))"
  using assms
proof (induction built arbitrary: st)
  case Nil
  then have "st' = st" by simp
  then show ?case using Nil.prems(3) by (auto simp: receiver_frame_def intro!: exI [of _ "st_receivers st"] exI [of _ "st_log st"])
next
  case (Cons b built)
  obtain rs old where b: "b = (rs, old)" by (cases b)
  let ?st = "st\<lparr>st_receivers := mset_at (rs_Name rs) rs (st_receivers st)\<rparr>"
  obtain st1 where r: "rebuildReceiverSelectors ?st = (None, st1)"
    using Cons.prems(1) b by (auto split: prod.splits option.splits)
  define st2 where "st2 = (case old of None \<Rightarrow> startReceiver rs st1
    | Some o1 \<Rightarrow> log_event (ReceiverStopped (rs_Recv o1)) (startReceiver rs st1))"
  have c: "commit_built built st2 = (None, st')"
    using Cons.prems(1) b r by (simp add: st2_def Let_def)
  have st2: "st_receivers st2 = st_receivers st1" "receiver_frame st1 st2"
    by (auto simp: st2_def startReceiver_def log_event_def receiver_frame_def split: option.split
      intro!: exI [of _ "st_receivers st1"])
  have "receiver_frame st ?st" by (auto simp: receiver_frame_def intro!: exI [of _ "st_log st"])
  then have f: "receiver_frame st st2" using rebuild_views(2) [OF r] st2(2) by (blast intro: receiver_frame_trans)
  have w: "wf_map (st_receivers st2)" using rebuild_views(3) [OF r] Cons.prems(3) st2(1) by simp
  have d: "distinct (map (\<lambda>b. rs_Name (fst b)) built)" "rs_Name rs \<notin> set (map (\<lambda>b. rs_Name (fst b)) built)"
    using Cons.prems(2) b by simp_all
  have n: "map_of (map (\<lambda>b. (rs_Name (fst b), rview (fst b))) built) (rs_Name rs) = None"
    using d(2) by (force simp: map_of_eq_None_iff)
  have v: "map_option rview (mget (st_receivers st2) k) =
      (if k = rs_Name rs then Some (rview rs) else map_option rview (mget (st_receivers st) k))" for k
    using rebuild_views(1) [OF r, of k] st2(1) by simp
  show ?case using Cons.IH [OF c d(1) w] f v n b by (auto intro: receiver_frame_trans split: option.split)
qed

lemma commitReceiverDelta_effect:
  assumes "prepareReceiverDelta env nxt st0 = (Inr built, st1)" "commitReceiverDelta nxt built st = (None, st')"
    and "st_receivers st = st_receivers st0" "wf_map nxt" "wf_map (st_receivers st)"
    and "\<And>n rs. mget (st_receivers st) n = Some rs \<Longrightarrow> rview rs = rspec n (rs_Cfg rs)"
  shows "receiver_frame st st' \<and> wf_map (st_receivers st') \<and>
    (\<forall>n. map_option rview (mget (st_receivers st') n) = map_option (rspec n) (mget nxt n))"
proof -
  let ?F = "filter (needs_receiver (st_receivers st0)) nxt"
  note p = conjunct2 [OF prepare_effect [OF assms(1)]]
  have names: "map (\<lambda>b. rs_Name (fst b)) built = map fst ?F"
    using arg_cong [OF p, of "map fst"] by (simp add: rview_def rspec_def comp_def)
  have pairs: "map (\<lambda>b. (rs_Name (fst b), rview (fst b))) built = map (\<lambda>e. (fst e, rspec (fst e) (snd e))) ?F"
    using arg_cong [OF p, of "map (\<lambda>v. (fst v, v))"] by (simp add: rview_def rspec_def comp_def)
  have wF: "wf_map ?F" using assms(4) by simp
  have d: "distinct (map (\<lambda>b. rs_Name (fst b)) built)"
    unfolding names using wF unfolding wf_map_def .
  let ?keep = "filter (\<lambda>e. \<not> (case e of (n, rs) \<Rightarrow> \<not> mhas nxt n)) (st_receivers st)"
  define sta where "sta = st\<lparr>st_receivers := ?keep,
    st_log := st_log st @ map (\<lambda>(n, rs). ReceiverStopped (rs_Recv rs)) (filter (\<lambda>(n, rs). \<not> mhas nxt n) (st_receivers st))\<rparr>"
  have c: "commit_built built sta = (None, st')"
    using assms(2) by (simp add: commitReceiverDelta_def Let_def sta_def)
  have w: "wf_map (st_receivers sta)" using assms(5) by (simp add: sta_def)
  have f: "receiver_frame st sta" by (auto simp: receiver_frame_def sta_def)
  note e = commit_built_effect [OF c d w]
  have "map_option rview (mget (st_receivers st') n) = map_option (rspec n) (mget nxt n)" for n
  proof -
    have k: "mget (st_receivers sta) n = (case mget (st_receivers st) n of None \<Rightarrow> None | Some rs \<Rightarrow> if mget nxt n = None then None else Some rs)"
      unfolding sta_def using mget_filter_key [OF assms(5)] by (auto simp: mhas_def split: option.split)
    have m: "map_of (map (\<lambda>e. (fst e, rspec (fst e) (snd e))) ?F) n = map_option (rspec n) (mget ?F n)"
      using mget_map_snd [where f = rspec and m = ?F] unfolding case_prod_beta .
    show ?thesis
    proof (cases "mget nxt n")
      case None
      then have "mget ?F n = None" using mget_filter_key [OF assms(4)] by simp
      then show ?thesis using e k m None unfolding pairs by (auto split: option.split)
    next
      case (Some rc)
      show ?thesis
      proof (cases "needs_receiver (st_receivers st0) (n, rc)")
        case True
        then have "mget ?F n = Some rc" using mget_filter_key [OF assms(4)] Some by simp
        then show ?thesis using e m Some unfolding pairs by simp
      next
        case False
        then have F: "mget ?F n = None" using mget_filter_key [OF assms(4)] Some by simp
        from False obtain rs where rs: "mget (st_receivers st) n = Some rs" "rs_Cfg rs = rc"
          using assms(3) by (auto simp: needs_receiver_def split: option.splits)
        then show ?thesis using e m F Some k assms(6) [OF rs(1)] unfolding pairs by simp
      qed
    qed
  qed
  then show ?thesis using e f by (blast intro: receiver_frame_trans)
qed

section \<open>The task delta\<close>

definition cfg_task :: "config \<Rightarrow> string \<Rightarrow> task_config" where
  "cfg_task cfg n = (case mget (elems (cfg_Tasks cfg)) n of None \<Rightarrow> zero_task_config | Some tc \<Rightarrow> tc)"

lemma remove_tasks_effect:
  assumes "remove_tasks env cfg A names st = (None, st')" "tasks_inv (set names) st" "distinct names"
  shows "tasks_inv {} st' \<and> task_frame st st' \<and>
    (\<forall>n. map_option ts_Cfg (mget (st_tasks st') n) =
      (if n \<in> set names then (if n \<in> set A then Some (cfg_task cfg n) else None)
       else map_option ts_Cfg (mget (st_tasks st) n))) \<and>
    (\<forall>n. n \<notin> set names \<longrightarrow> mget (st_tasks st') n = mget (st_tasks st) n)"
  using assms
proof (induction names arbitrary: st)
  case (Cons name names)
  obtain c st1 where r: "removeTask name (name \<in> set A) st = (c, st1)" by fastforce
  have "set (name # names) - {name} = set names" using Cons.prems(3) by auto
  with removeTask_effect [OF r Cons.prems(2)] have r1: "tasks_inv (set names) st1" "task_frame st st1"
    "\<And>n. mget (st_tasks st1) n = (if n = name then None else mget (st_tasks st) n)" by simp_all
  have d: "name \<notin> set names" "distinct names" using Cons.prems(3) by simp_all
  show ?case
  proof (cases "name \<in> set A")
    case True
    obtain st2 where a: "addTask env name (cfg_task cfg name) (cfg_Logging cfg) c st1 = (None, st2)"
      "remove_tasks env cfg A names st2 = (None, st')"
      using Cons.prems(1) r True by (auto simp: Let_def cfg_task_def split: prod.splits option.splits)
    have "mget (st_tasks st1) name = None" using r1(3) by simp
    from addTask_effect [OF a(1) r1(1) this d(1)] obtain ts where
      a1: "tasks_inv (set names) st2" "task_frame st1 st2" "ts_Cfg ts = cfg_task cfg name"
      "\<And>n. mget (st_tasks st2) n = (if n = name then Some ts else mget (st_tasks st1) n)" by blast
    from Cons.IH [OF a(2) a1(1) d(2)] show ?thesis
      using r1(2,3) a1(2,3,4) d(1) True by (auto intro: task_frame_trans)
  next
    case False
    then have "remove_tasks env cfg A names st1 = (None, st')" using Cons.prems(1) r by (simp add: Let_def)
    from Cons.IH [OF this r1(1) d(2)] show ?thesis
      using r1(2,3) d(1) False by (auto intro: task_frame_trans)
  qed
qed simp

lemma add_new_tasks_effect:
  assumes "add_new_tasks env cfg R names st = (None, st')" "tasks_inv {} st" "distinct names"
    "\<And>n. n \<in> set names \<Longrightarrow> n \<notin> set R \<Longrightarrow> mget (st_tasks st) n = None"
  shows "tasks_inv {} st' \<and> task_frame st st' \<and>
    (\<forall>n. map_option ts_Cfg (mget (st_tasks st') n) =
      (if n \<in> set names \<and> n \<notin> set R then Some (cfg_task cfg n) else map_option ts_Cfg (mget (st_tasks st) n))) \<and>
    (\<forall>n. n \<notin> set names \<or> n \<in> set R \<longrightarrow> mget (st_tasks st') n = mget (st_tasks st) n)"
  using assms
proof (induction names arbitrary: st)
  case (Cons name names)
  have d: "name \<notin> set names" "distinct names" using Cons.prems(3) by simp_all
  show ?case
  proof (cases "name \<in> set R")
    case True
    then have "add_new_tasks env cfg R names st = (None, st')" using Cons.prems(1) by simp
    from Cons.IH [OF this Cons.prems(2) d(2)] show ?thesis using Cons.prems(4) True by simp
  next
    case False
    obtain st2 where a: "addTask env name (cfg_task cfg name) (cfg_Logging cfg) None st = (None, st2)"
      "add_new_tasks env cfg R names st2 = (None, st')"
      using Cons.prems(1) False by (auto simp: cfg_task_def split: prod.splits option.splits)
    have "mget (st_tasks st) name = None" using Cons.prems(4) False by simp
    from addTask_effect [OF a(1) Cons.prems(2) this] obtain ts where
      a1: "tasks_inv {} st2" "task_frame st st2" "ts_Cfg ts = cfg_task cfg name"
      "\<And>n. mget (st_tasks st2) n = (if n = name then Some ts else mget (st_tasks st) n)" by blast
    have "\<And>n. n \<in> set names \<Longrightarrow> n \<notin> set R \<Longrightarrow> mget (st_tasks st2) n = None"
      using a1(4) Cons.prems(4) d(1) by auto
    from Cons.IH [OF a(2) a1(1) d(2) this] show ?thesis
      using a1(2,3,4) d(1) False by (auto intro: task_frame_trans)
  qed
qed simp

lemma gcUnusedSenders_effect:
  assumes "tasks_inv {} st"
  shows "tasks_inv {} (gcUnusedSenders st) \<and>
    (\<exists>s l. gcUnusedSenders st = st\<lparr>st_senders := s, st_log := l\<rparr>) \<and>
    (\<forall>n. mget (st_senders (gcUnusedSenders st)) n =
      (if refcount (st_tasks st) n = 0 then None else mget (st_senders st) n))"
proof -
  have inv: "wf_map (st_tasks st)" "wf_map (st_senders st)" "st_stageCache st = []"
    "\<And>n ss. mget (st_senders st) n = Some ss \<Longrightarrow> ss_Name ss = n \<and> ss_Refs ss = int (refcount (st_tasks st) n)"
    "\<And>n ts sn. mget (st_tasks st) n = Some ts \<Longrightarrow> sn \<in> set (elems (tc_Senders (ts_Cfg ts))) \<Longrightarrow> mget (st_senders st) sn \<noteq> None"
    "\<And>n ts. mget (st_tasks st) n = Some ts \<Longrightarrow> task_ok (st_pipelines st) (st_senders st) n ts"
    using assms unfolding tasks_inv_def by blast+
  let ?st = "gcUnusedSenders st"
  have g: "mget (st_senders ?st) n = (if refcount (st_tasks st) n = 0 then None else mget (st_senders st) n)" for n
    using inv(4) [of n] by (cases "mget (st_senders st) n")
      (auto simp: gcUnusedSenders_def Let_def mget_filter_key [OF inv(2)])
  have f: "\<exists>s l. ?st = st\<lparr>st_senders := s, st_log := l\<rparr>"
    by (auto simp: gcUnusedSenders_def Let_def)
  have used: "refcount (st_tasks st) sn \<noteq> 0"
    if "mget (st_tasks st) n = Some ts" "sn \<in> set (elems (tc_Senders (ts_Cfg ts)))" for n ts sn
  proof -
    have "uses ts sn \<noteq> 0" using that(2) by (simp add: uses_def count_list_0_iff)
    then show ?thesis using refcount_member [OF map_of_SomeD [OF that(1)], of sn] by simp
  qed
  have same: "st_tasks ?st = st_tasks st" "st_pipelines ?st = st_pipelines st" "st_stageCache ?st = st_stageCache st"
    by (simp_all add: gcUnusedSenders_def Let_def)
  have "tasks_inv {} ?st"
    unfolding tasks_inv_def same
  proof (intro conjI allI impI)
    show "wf_map (st_tasks st)" "st_stageCache st = []" by (rule inv)+
    show "wf_map (st_senders ?st)" using inv(2) by (simp add: gcUnusedSenders_def Let_def)
  next
    fix n ss
    assume "mget (st_senders ?st) n = Some ss"
    then have "mget (st_senders st) n = Some ss" using g [of n] by (auto split: if_splits)
    then show "ss_Name ss = n" "ss_Refs ss = int (refcount (st_tasks st) n)" using inv(4) by blast+
  next
    fix n ts sn
    assume "mget (st_tasks st) n = Some ts" "sn \<in> set (elems (tc_Senders (ts_Cfg ts)))"
    then show "mget (st_senders ?st) sn \<noteq> None" using g [of sn] used inv(5) by auto
  next
    fix n ts
    assume t: "mget (st_tasks st) n = Some ts"
    have "bound_senders (st_senders ?st) (elems (tc_Senders (ts_Cfg ts))) = bound_senders (st_senders st) (elems (tc_Senders (ts_Cfg ts)))"
      by (rule bound_senders_cong) (metis g used [OF t])
    then show "task_ok (st_pipelines st) (st_senders ?st) n ts" using inv(6) [OF t] by (simp add: task_ok_def)
  qed
  then show ?thesis using f g by blast
qed

section \<open>Coherent stores\<close>

definition coherent :: "(string \<Rightarrow> regex result) \<Rightarrow> store \<Rightarrow> bool" where
  "coherent rx st \<longleftrightarrow>
     tasks_inv {} st \<and> wf_map (st_receivers st) \<and> wf_selectors (st_selectors st) \<and> wf_map (st_taskSets st) \<and>
     wf_stages (st_pipelineCfg st) \<and>
     (\<forall>n. mget (st_pipelines st) n = spec_pipeline rx (st_pipelineCfg st) n) \<and>
     (\<forall>n rs. mget (st_receivers st) n = Some rs \<longrightarrow>
        rview rs = rspec n (rs_Cfg rs) \<and> selector_ok (st_tasks st) (st_selectors st) (st_taskSets st) rs)"

text \<open>
  The store is what the configuration asks for. The stored pipeline configurations are deep-equal to
  the configured ones, but for an empty list, of which the store keeps a nil copy.
\<close>

definition matches :: "(string \<Rightarrow> regex result) \<Rightarrow> config \<Rightarrow> store \<Rightarrow> bool" where
  "matches rx cfg st \<longleftrightarrow>
     (\<forall>n. map_option rs_Cfg (mget (st_receivers st) n) = mget (elems (cfg_Receivers cfg)) n) \<and>
     (\<forall>n. map_option ts_Cfg (mget (st_tasks st) n) = mget (elems (cfg_Tasks cfg)) n) \<and>
     (\<forall>n ss. mget (st_senders st) n = Some ss \<longrightarrow> mget (elems (cfg_Senders cfg)) n = Some (ss_Cfg ss)) \<and>
     (\<forall>n. mget (st_pipelines st) n = spec_pipeline rx (elems (cfg_Pipelines cfg)) n) \<and>
     (\<forall>n. unchanged stages_deep_eq (clonePipelineConfigMap (st_pipelineCfg st)) (elems (cfg_Pipelines cfg)) n \<or>
        mget (elems (cfg_Pipelines cfg)) n = Some (Some [])) \<and>
     (\<forall>sel key. route (st_selectors st) (st_taskSets st) sel key =
        route (elems (cfg_Selectors cfg)) (elems (cfg_TaskSets cfg)) sel key)"

text \<open>The tasks of a configuration name only its senders (\<open>Config.Validate\<close> checks it).\<close>

definition valid_refs :: "config \<Rightarrow> bool" where
  "valid_refs cfg \<longleftrightarrow>
     (\<forall>n tc sn. mget (elems (cfg_Tasks cfg)) n = Some tc \<longrightarrow> sn \<in> set (elems (tc_Senders tc)) \<longrightarrow>
        mget (elems (cfg_Senders cfg)) sn \<noteq> None)"

lemma split_delta_unchanged:
  assumes "wf_map o1" "wf_map n1" "splitDeltaWithReplace eq o1 n1 = ([], [])"
  shows "unchanged eq o1 n1 k"
  using split_delta_added(3) [OF assms, of k] split_delta_removed(3) [OF assms(1,3), of k]
  by (simp add: unchanged_iff)

section \<open>The delta of a coherent store\<close>

lemma mget_snapshots:
  "mget (receiverConfigSnapshot rs) n = map_option rs_Cfg (mget rs n)"
  "mget (senderConfigSnapshot ss) n = map_option ss_Cfg (mget ss n)"
  "mget (taskConfigSnapshot ts) n = map_option ts_Cfg (mget ts n)"
  by (simp_all add: receiverConfigSnapshot_def senderConfigSnapshot_def taskConfigSnapshot_def mget_map_values)

lemma wf_snapshots [simp]:
  "wf_map (receiverConfigSnapshot rs) = wf_map rs" "wf_map (senderConfigSnapshot ss) = wf_map ss"
  "wf_map (taskConfigSnapshot ts) = wf_map ts"
  by (simp_all add: receiverConfigSnapshot_def senderConfigSnapshot_def taskConfigSnapshot_def)

text \<open>The plan of a coherent store, part by part.\<close>

lemma store_plan_parts:
  assumes "coherent rx st" "wf_cfg cfg" "plan = store_plan st cfg"
  shows "\<not> receiver_changed plan \<Longrightarrow> map_option rs_Cfg (mget (st_receivers st) n) = mget (elems (cfg_Receivers cfg)) n"
    "\<not> sender_changed plan \<Longrightarrow> map_option ss_Cfg (mget (st_senders st) n) = mget (elems (cfg_Senders cfg)) n"
    "\<not> pipeline_changed plan \<Longrightarrow> spec_pipeline rx (st_pipelineCfg st) n = spec_pipeline rx (elems (cfg_Pipelines cfg)) n"
    "\<not> selector_changed plan \<Longrightarrow> \<not> taskset_changed plan \<Longrightarrow>
       route (st_selectors st) (st_taskSets st) sel key = route (elems (cfg_Selectors cfg)) (elems (cfg_TaskSets cfg)) sel key"
    "\<not> pipeline_changed plan \<Longrightarrow> unchanged stages_deep_eq (clonePipelineConfigMap (st_pipelineCfg st)) (elems (cfg_Pipelines cfg)) n"
proof -
  have wf: "wf_map (st_receivers st)" "wf_map (st_senders st)" "wf_map (st_taskSets st)"
    "wf_selectors (st_selectors st)" "wf_stages (st_pipelineCfg st)" "wf_map (st_selectors st)" "wf_map (st_pipelineCfg st)"
    using assms(1) by (simp_all add: coherent_def tasks_inv_def wf_selectors_def wf_stages_def)
  have wc: "wf_map (elems (cfg_Receivers cfg))" "wf_map (elems (cfg_Senders cfg))" "wf_map (elems (cfg_TaskSets cfg))"
    "wf_selectors (elems (cfg_Selectors cfg))" "wf_stages (elems (cfg_Pipelines cfg))"
    "wf_map (elems (cfg_Selectors cfg))" "wf_map (elems (cfg_Pipelines cfg))"
    using assms(2) by (simp_all add: wf_cfg_def wf_config_def)
  note pf = plan_fields [of "receiverConfigSnapshot (st_receivers st)" "cloneSelectorConfigMap (st_selectors st)"
      "cloneTaskSetMap (st_taskSets st)" "senderConfigSnapshot (st_senders st)" "clonePipelineConfigMap (st_pipelineCfg st)"
      "taskConfigSnapshot (st_tasks st)" cfg, folded store_plan_def, folded assms(3)]
  {
    assume "\<not> receiver_changed plan"
    then have "unchanged (=) (receiverConfigSnapshot (st_receivers st)) (elems (cfg_Receivers cfg)) n"
      using pf(1) wf wc by (intro split_delta_unchanged) (simp_all add: receiver_changed_def)
    then show "map_option rs_Cfg (mget (st_receivers st) n) = mget (elems (cfg_Receivers cfg)) n"
      by (auto simp: unchanged_def mget_snapshots split: option.splits)
  next
    assume "\<not> sender_changed plan"
    then have "unchanged (=) (senderConfigSnapshot (st_senders st)) (elems (cfg_Senders cfg)) n"
      using pf(4) wf wc by (intro split_delta_unchanged) (simp_all add: sender_changed_def)
    then show "map_option ss_Cfg (mget (st_senders st) n) = mget (elems (cfg_Senders cfg)) n"
      by (auto simp: unchanged_def mget_snapshots split: option.splits)
  next
    assume "\<not> pipeline_changed plan"
    then show "unchanged stages_deep_eq (clonePipelineConfigMap (st_pipelineCfg st)) (elems (cfg_Pipelines cfg)) n"
      using pf(5) wf wc by (intro split_delta_unchanged) (simp_all add: pipeline_changed_def)
    then show "spec_pipeline rx (st_pipelineCfg st) n = spec_pipeline rx (elems (cfg_Pipelines cfg)) n"
      using wf(5) wc(5) by (rule spec_pipeline_unchanged)
  next
    assume a: "\<not> selector_changed plan" "\<not> taskset_changed plan"
    show "route (st_selectors st) (st_taskSets st) sel key = route (elems (cfg_Selectors cfg)) (elems (cfg_TaskSets cfg)) sel key"
    proof (rule route_unchanged [OF _ _ wf(4) wc(4)])
      show "unchanged selector_deep_eq (st_selectors st) (elems (cfg_Selectors cfg)) n" for n
        using pf(2) wf wc a by (intro split_delta_unchanged) (simp_all add: selector_changed_def)
      show "unchanged (=) (cloneTaskSetMap (st_taskSets st)) (elems (cfg_TaskSets cfg)) n" for n
        using pf(3) wf wc a by (intro split_delta_unchanged) (simp_all add: taskset_changed_def)
    qed
  }
qed

lemma store_plan_tasks:
  assumes "coherent rx st" "wf_cfg cfg" "plan = store_plan st cfg"
  shows "distinct (taskAdded plan) \<and> distinct (taskRemoved plan) \<and>
    (n \<in> set (taskAdded plan), n \<in> set (taskRemoved plan)) =
      (case (map_option ts_Cfg (mget (st_tasks st) n), mget (elems (cfg_Tasks cfg)) n) of
         (None, None) \<Rightarrow> (False, False)
       | (None, Some _) \<Rightarrow> (True, False)
       | (Some _, None) \<Rightarrow> (False, True)
       | (Some o1, Some c) \<Rightarrow>
           let rebuild = (o1 \<noteq> c \<or> uses_changed (senderConfigSnapshot (st_senders st))
             (clonePipelineConfigMap (st_pipelineCfg st)) cfg c) in (rebuild, rebuild))"
proof -
  have wf: "wf_map (senderConfigSnapshot (st_senders st))" "wf_map (clonePipelineConfigMap (st_pipelineCfg st))"
    "wf_map (taskConfigSnapshot (st_tasks st))" "wf_config cfg"
    using assms(1,2) by (simp_all add: coherent_def tasks_inv_def wf_stages_def wf_cfg_def)
  show ?thesis
    using plan_tasks [OF wf assms(3) [unfolded store_plan_def]]
    by (auto simp: is_added_def is_removed_def depends_def Let_def mget_snapshots split: option.splits)
qed

text \<open>
  The state before the tasks are rebuilt: the tasks that are not removed already fit the new senders
  and pipelines.
\<close>

lemma tasks_inv_before_rebuild:
  assumes coh: "coherent rx st" and wf: "wf_cfg cfg" and plan: "plan = store_plan st cfg"
    and senders: "wf_map s" "\<And>n. sender_step (elems (cfg_Senders cfg)) (st_senders st) s n"
    and pipes: "\<And>n. mget ps n = spec_pipeline rx (elems (cfg_Pipelines cfg)) n"
    and st5: "st_tasks st5 = st_tasks st" "st_senders st5 = s" "st_pipelines st5 = ps" "st_stageCache st5 = []"
  shows "tasks_inv (set (taskRemoved plan)) st5"
proof -
  have inv: "wf_map (st_tasks st)" "wf_map (st_senders st)"
    "\<And>n ss. mget (st_senders st) n = Some ss \<Longrightarrow> ss_Name ss = n \<and> ss_Refs ss = int (refcount (st_tasks st) n)"
    "\<And>n ts sn. mget (st_tasks st) n = Some ts \<Longrightarrow> sn \<in> set (elems (tc_Senders (ts_Cfg ts))) \<Longrightarrow> mget (st_senders st) sn \<noteq> None"
    "\<And>n ts. mget (st_tasks st) n = Some ts \<Longrightarrow> task_ok (st_pipelines st) (st_senders st) n ts"
    "\<And>n. mget (st_pipelines st) n = spec_pipeline rx (st_pipelineCfg st) n"
    "wf_stages (st_pipelineCfg st)"
    using coh unfolding coherent_def tasks_inv_def by blast+
  have wfp: "wf_stages (elems (cfg_Pipelines cfg))" using wf by (simp add: wf_cfg_def)
  have absent: "refcount (st_tasks st) n = 0" if "mget (st_senders st) n = None" for n
  proof -
    have "uses ts n = 0" if "(k, ts) \<in> set (st_tasks st)" for k ts
    proof -
      have "mget (st_tasks st) k = Some ts" using that inv(1) by (simp add: mget_in_set)
      then have "n \<notin> set (elems (tc_Senders (ts_Cfg ts)))" using inv(4) \<open>mget (st_senders st) n = None\<close> by metis
      then show ?thesis by (simp add: uses_def count_list_0_iff)
    qed
    then show ?thesis by (auto simp: refcount_def)
  qed
  have used: "refcount (st_tasks st) sn \<noteq> 0"
    if "mget (st_tasks st) n = Some ts" "sn \<in> set (elems (tc_Senders (ts_Cfg ts)))" for n ts sn
  proof -
    have "uses ts sn \<noteq> 0" using that(2) by (simp add: uses_def count_list_0_iff)
    then show ?thesis using refcount_member [OF map_of_SomeD [OF that(1)], of sn] by simp
  qed
  have kept: "map_option ss_S (mget s sn) = map_option ss_S (mget (st_senders st) sn)"
    if "unchanged (=) (senderConfigSnapshot (st_senders st)) (elems (cfg_Senders cfg)) sn" "mget (st_senders st) sn \<noteq> None" for sn
    using senders(2) [of sn] that
    by (auto simp: sender_step_def unchanged_def mget_snapshots split: option.splits)
  show ?thesis
    unfolding tasks_inv_def st5
  proof (intro conjI allI impI)
    show "wf_map (st_tasks st)" "wf_map s" "[] = []" using inv(1) senders(1) by simp_all
  next
    fix n ss
    assume "mget s n = Some ss"
    then show "ss_Name ss = n" "ss_Refs ss = int (refcount (st_tasks st) n)"
      using senders(2) [of n] inv(3) [of n] absent [of n]
      by (auto simp: sender_step_def split: option.splits if_splits)
  next
    fix n ts sn
    assume t: "mget (st_tasks st) n = Some ts" "sn \<in> set (elems (tc_Senders (ts_Cfg ts)))"
    from inv(4) [OF t] obtain ss where ss: "mget (st_senders st) sn = Some ss" by blast
    then have "ss_Refs ss \<noteq> 0" using inv(3) [OF ss] used [OF t] by simp
    then show "mget s sn \<noteq> None" using senders(2) [of sn] ss
      by (auto simp: sender_step_def split: option.splits if_splits)
  next
    fix n ts
    assume t: "mget (st_tasks st) n = Some ts" and nr: "n \<notin> set (taskRemoved plan)"
    note p = conjunct2 [OF conjunct2 [OF store_plan_tasks [OF coh wf plan, of n]]]
    have c: "mget (elems (cfg_Tasks cfg)) n = Some (ts_Cfg ts)"
      and u: "\<not> uses_changed (senderConfigSnapshot (st_senders st)) (clonePipelineConfigMap (st_pipelineCfg st)) cfg (ts_Cfg ts)"
      using p t nr by (auto simp: Let_def split: option.splits)
    have "bound_senders s (elems (tc_Senders (ts_Cfg ts))) = bound_senders (st_senders st) (elems (tc_Senders (ts_Cfg ts)))"
    proof (rule bound_senders_cong)
      fix sn
      assume sn: "sn \<in> set (elems (tc_Senders (ts_Cfg ts)))"
      show "map_option ss_S (mget s sn) = map_option ss_S (mget (st_senders st) sn)"
        by (rule kept) (use u sn inv(4) [OF t sn] in \<open>auto simp: uses_changed_def list_ex_iff\<close>)
    qed
    moreover have "map (mget ps) (elems (tc_Pipelines (ts_Cfg ts))) = map (mget (st_pipelines st)) (elems (tc_Pipelines (ts_Cfg ts)))"
    proof (rule map_cong [OF refl])
      fix pn
      assume "pn \<in> set (elems (tc_Pipelines (ts_Cfg ts)))"
      then have "unchanged stages_deep_eq (clonePipelineConfigMap (st_pipelineCfg st)) (elems (cfg_Pipelines cfg)) pn"
        using u by (auto simp: uses_changed_def list_ex_iff)
      from spec_pipeline_unchanged [OF this inv(7) wfp] show "mget ps pn = mget (st_pipelines st) pn"
        using pipes inv(6) by simp
    qed
    ultimately show "task_ok ps s n ts" using inv(5) [OF t] by (simp add: task_ok_def)
  qed
qed

text \<open>What a successful difference has gone through.\<close>

lemma applyBusinessDelta_steps:
  assumes "applyBusinessDelta env cfg st = (None, st')" "plan = store_plan st cfg"
  obtains nxt st1 delta st2 st3 closers st4 st5 st6 where
    "(if pipeline_changed plan then compilePipelinesWithStageCache env (elems (cfg_Pipelines cfg)) st
      else (Inr ([], []), st)) = (Inr nxt, st1)"
    "(if receiver_changed plan then prepareReceiverDelta env (elems (cfg_Receivers cfg)) st1 else (Inr [], st1)) = (Inr delta, st2)"
    "st3 = (if selector_changed plan \<or> taskset_changed plan then
        st2\<lparr>st_selectors := elems (cfg_Selectors cfg), st_taskSets := cloneTaskSetMap (elems (cfg_TaskSets cfg))\<rparr> else st2)"
    "(if sender_changed plan then applySenderDelta env (elems (cfg_Senders cfg)) st3 else (Inr [], st3)) = (Inr closers, st4)"
    "st5 = (if pipeline_changed plan then delta_install_pipelines cfg nxt st4 else st4)"
    "delta_tasks env cfg plan st5 = (None, st6)"
    "delta_publish cfg plan delta closers st6 = (None, st')"
  using assms(1) unfolding applyBusinessDelta_def assms(2) [symmetric] Let_def and_then_None and_then0_None cloneSelector_id
  by blast

lemma delta_publish_steps:
  assumes "delta_publish cfg plan delta closers st = (None, st')"
  obtains st2 st3 where
    "(if receiver_changed plan then commitReceiverDelta (elems (cfg_Receivers cfg)) delta
        (gcUnusedStageCache (gcUnusedSenders (rebuildStageTaskRefs st)))
      else (None, gcUnusedStageCache (gcUnusedSenders (rebuildStageTaskRefs st)))) = (None, st2)"
    "(if selector_changed plan \<or> taskset_changed plan \<or> receiver_changed plan \<or> taskAdded plan \<noteq> [] \<or> taskRemoved plan \<noteq> []
      then rebuildReceiverSelectors st2 else (None, st2)) = (None, st3)"
    "st' = st3\<lparr>st_log := st_log st3 @ map SenderClosed closers\<rparr>"
  using assms unfolding delta_publish_def Let_def and_then0_None by auto

text \<open>The copy of the pipeline configurations that the store keeps.\<close>

lemma stages_deep_eq_refl: "\<forall>sc \<in> set (elems s). wf_map (elems (st_Cases sc)) \<Longrightarrow> stages_deep_eq s s"
  by (cases s) (auto simp: stage_deep_eq_def nmap_deep_eq_refl list_all2_same)

lemma stored_pipelines:
  assumes "wf_stages m"
  shows "unchanged stages_deep_eq (clonePipelineConfigMap (clonePipelineConfigMap m)) m n \<or> mget m n = Some (Some [])"
proof (cases "mget m n")
  case None
  then show ?thesis by (simp add: unchanged_def mget_clonePipeline)
next
  case (Some s)
  then have "stages_deep_eq s s"
    using assms by (intro stages_deep_eq_refl) (auto simp: wf_stages_def dest!: map_of_SomeD)
  then show ?thesis using Some by (cases s) (auto simp: unchanged_def mget_clonePipeline copy_slice_def)
qed

text \<open>The receivers, selectors and task sets a store holds, and what comes before the tasks.\<close>

lemma delta_before_tasks:
  assumes coh: "coherent rx st" and wf: "wf_cfg cfg" and sig: "sig_faithful env" and rx: "env_regexp env = rx"
    and plan: "plan = store_plan st cfg"
    and s1: "(if pipeline_changed plan then compilePipelinesWithStageCache env (elems (cfg_Pipelines cfg)) st
      else (Inr ([], []), st)) = (Inr nxt, st1)"
    and s2: "(if receiver_changed plan then prepareReceiverDelta env (elems (cfg_Receivers cfg)) st1 else (Inr [], st1)) = (Inr delta, st2)"
    and s3: "st3 = (if selector_changed plan \<or> taskset_changed plan then
        st2\<lparr>st_selectors := elems (cfg_Selectors cfg), st_taskSets := cloneTaskSetMap (elems (cfg_TaskSets cfg))\<rparr> else st2)"
    and s4: "(if sender_changed plan then applySenderDelta env (elems (cfg_Senders cfg)) st3 else (Inr [], st3)) = (Inr closers, st4)"
    and s5: "st5 = (if pipeline_changed plan then delta_install_pipelines cfg nxt st4 else st4)"
  shows "tasks_inv (set (taskRemoved plan)) st5" "st_tasks st5 = st_tasks st" "st_receivers st5 = st_receivers st"
    "st_selectors st5 = (if selector_changed plan \<or> taskset_changed plan then elems (cfg_Selectors cfg) else st_selectors st)"
    "st_taskSets st5 = (if selector_changed plan \<or> taskset_changed plan then cloneTaskSetMap (elems (cfg_TaskSets cfg)) else st_taskSets st)"
    "wf_stages (st_pipelineCfg st5)" "\<And>n. mget (st_pipelines st5) n = spec_pipeline rx (st_pipelineCfg st5) n"
    "\<And>n. mget (st_pipelines st5) n = spec_pipeline rx (elems (cfg_Pipelines cfg)) n"
    "\<And>n. sender_step (elems (cfg_Senders cfg)) (st_senders st) (st_senders st5) n"
    "receiver_changed plan \<Longrightarrow> prepareReceiverDelta env (elems (cfg_Receivers cfg)) st1 = (Inr delta, st2) \<and> st_receivers st1 = st_receivers st"
    "st_pipelineCfg st5 = (if pipeline_changed plan then clonePipelineConfigMap (elems (cfg_Pipelines cfg)) else st_pipelineCfg st)"
proof -
  have inv: "tasks_inv {} st" "wf_map (st_senders st)" "st_stageCache st = []" "wf_stages (st_pipelineCfg st)"
    "\<And>n. mget (st_pipelines st) n = spec_pipeline rx (st_pipelineCfg st) n"
    using coh by (simp_all add: coherent_def tasks_inv_def)
  have wc: "wf_map (elems (cfg_Senders cfg))" "wf_stages (elems (cfg_Pipelines cfg))"
    using wf by (simp_all add: wf_cfg_def wf_config_def)
  text \<open>the compiled pipelines\<close>
  obtain cache where st1: "st1 = st\<lparr>st_stageCache := cache\<rparr>" "idle_cache cache" "\<not> pipeline_changed plan \<Longrightarrow> cache = []"
    and nxt: "pipeline_changed plan \<Longrightarrow> CompilePipelines rx (elems (cfg_Pipelines cfg)) = Inr (fst nxt)"
  proof (cases "pipeline_changed plan")
    case True
    then have "compilePipelinesWithStageCache env (elems (cfg_Pipelines cfg)) st = (Inr nxt, st1)" using s1 by simp
    from compile_cached [OF this sig inv(3)] show ?thesis using that True rx by auto
  next
    case False
    then have "st1 = st\<lparr>st_stageCache := []\<rparr>" using s1 inv(3) by simp
    then show ?thesis using that [of "[]"] False by (simp add: idle_cache_def)
  qed
  obtain k where st2: "st2 = st1\<lparr>st_next := k\<rparr>"
  proof (cases "receiver_changed plan")
    case True
    then have "prepareReceiverDelta env (elems (cfg_Receivers cfg)) st1 = (Inr delta, st2)" using s2 by simp
    from prepare_effect [OF this] show ?thesis using that by blast
  next
    case False
    then have "st2 = st1\<lparr>st_next := st_next st1\<rparr>" using s2 by simp
    then show ?thesis using that by blast
  qed
  have sn3: "st_senders st3 = st_senders st" by (simp add: s3 st2 st1(1))
  obtain s k' l where st4: "st4 = st3\<lparr>st_next := k', st_senders := s, st_log := l\<rparr>" "wf_map s"
    "\<And>n. sender_step (elems (cfg_Senders cfg)) (st_senders st) s n"
  proof (cases "sender_changed plan")
    case True
    then have "applySenderDelta env (elems (cfg_Senders cfg)) st3 = (Inr closers, st4)" using s4 by simp
    from applySenderDelta_effect [OF this wc(1)] show ?thesis using that inv(2) sn3 by auto
  next
    case False
    note u = store_plan_parts(2) [OF coh wf plan False]
    have "sender_step (elems (cfg_Senders cfg)) (st_senders st) (st_senders st) n" for n
      using u [of n, symmetric] by (cases "mget (st_senders st) n") (simp_all add: sender_step_def)
    moreover have "st4 = st3\<lparr>st_next := st_next st3, st_senders := st_senders st, st_log := st_log st3\<rparr>"
      using s4 False sn3 by simp
    ultimately show ?thesis using that inv(2) by blast
  qed
  have c4: "st_stageCache st4 = cache" by (simp add: st4(1) s3 st2 st1(1))
  have f4: "st_tasks st4 = st_tasks st" "st_receivers st4 = st_receivers st" "st_pipelines st4 = st_pipelines st"
    "st_pipelineCfg st4 = st_pipelineCfg st"
    by (simp_all add: st4(1) s3 st2 st1(1))
  have st5: "pipeline_changed plan \<Longrightarrow> st5 = st4\<lparr>st_pipelines := fst nxt,
      st_pipelineCfg := clonePipelineConfigMap (elems (cfg_Pipelines cfg)), st_pipelineStageSigs := snd nxt, st_stageCache := []\<rparr>"
    using gc_idle [of "st4\<lparr>st_pipelines := fst nxt, st_pipelineCfg := clonePipelineConfigMap (elems (cfg_Pipelines cfg)),
      st_pipelineStageSigs := snd nxt\<rparr>"] st1(2) c4 by (simp add: s5 delta_install_pipelines_def)
  have f5: "st_tasks st5 = st_tasks st4" "st_receivers st5 = st_receivers st4" "st_senders st5 = s" "st_stageCache st5 = []"
    "st_selectors st5 = st_selectors st4" "st_taskSets st5 = st_taskSets st4"
  proof -
    have n4: "st_senders st4 = s" by (simp add: st4(1))
    have n5: "\<not> pipeline_changed plan \<Longrightarrow> st5 = st4 \<and> cache = []" using s5 st1(3) by simp
    have "st_tasks st5 = st_tasks st4 \<and> st_receivers st5 = st_receivers st4 \<and> st_senders st5 = s \<and> st_stageCache st5 = [] \<and>
      st_selectors st5 = st_selectors st4 \<and> st_taskSets st5 = st_taskSets st4"
    proof (cases "pipeline_changed plan")
      case True
      show ?thesis unfolding st5 [OF True] using n4 by simp
    next
      case False
      show ?thesis using n5 [OF False] n4 c4 by simp
    qed
    then show "st_tasks st5 = st_tasks st4" "st_receivers st5 = st_receivers st4" "st_senders st5 = s" "st_stageCache st5 = []"
      "st_selectors st5 = st_selectors st4" "st_taskSets st5 = st_taskSets st4" by simp_all
  qed
  show pl: "mget (st_pipelines st5) n = spec_pipeline rx (elems (cfg_Pipelines cfg)) n" for n
  proof (cases "pipeline_changed plan")
    case True
    then show ?thesis using CompilePipelines_spec [OF nxt [OF True], of n] st5 by simp
  next
    case False
    then show ?thesis using store_plan_parts(3) [OF coh wf plan False, of n] inv(5) s5 f4 by simp
  qed
  show "wf_stages (st_pipelineCfg st5)"
  proof (cases "pipeline_changed plan")
    case True
    have "wf_stages (clonePipelineConfigMap (elems (cfg_Pipelines cfg)))"
      using wc(2) by (auto simp: wf_stages_def) (force simp: clonePipelineConfigMap_def)
    then show ?thesis using st5 [OF True] by simp
  next
    case False
    then show ?thesis using inv(4) s5 f4 by simp
  qed
  show "st_pipelineCfg st5 = (if pipeline_changed plan then clonePipelineConfigMap (elems (cfg_Pipelines cfg)) else st_pipelineCfg st)"
  proof (cases "pipeline_changed plan")
    case True
    show ?thesis unfolding st5 [OF True] using True by simp
  next
    case False
    then show ?thesis using s5 f4 by simp
  qed
  show "mget (st_pipelines st5) n = spec_pipeline rx (st_pipelineCfg st5) n" for n
  proof (cases "pipeline_changed plan")
    case True
    then show ?thesis using pl [of n] st5 [OF True] by simp
  next
    case False
    then show ?thesis using inv(5) s5 f4 by simp
  qed
  show "tasks_inv (set (taskRemoved plan)) st5"
    by (rule tasks_inv_before_rebuild [OF coh wf plan st4(2,3) pl]) (simp_all add: f5 f4)
  show "st_tasks st5 = st_tasks st" "st_receivers st5 = st_receivers st" using f5 f4 by simp_all
  show "st_selectors st5 = (if selector_changed plan \<or> taskset_changed plan then elems (cfg_Selectors cfg) else st_selectors st)"
    "st_taskSets st5 = (if selector_changed plan \<or> taskset_changed plan then cloneTaskSetMap (elems (cfg_TaskSets cfg)) else st_taskSets st)"
    using f5 by (simp_all add: st4(1) s3 st2 st1(1))
  show "sender_step (elems (cfg_Senders cfg)) (st_senders st) (st_senders st5) n" for n using st4(3) f5 by simp
  show "receiver_changed plan \<Longrightarrow> prepareReceiverDelta env (elems (cfg_Receivers cfg)) st1 = (Inr delta, st2) \<and> st_receivers st1 = st_receivers st"
    using s2 st1(1) by simp
qed

lemma delta_tasks_effect:
  assumes coh: "coherent rx st" and wf: "wf_cfg cfg" and plan: "plan = store_plan st cfg"
    and inv: "tasks_inv (set (taskRemoved plan)) st5" and tasks: "st_tasks st5 = st_tasks st"
    and run: "delta_tasks env cfg plan st5 = (None, st6)"
  shows "tasks_inv {} st6" "task_frame st5 st6"
    "\<And>n. map_option ts_Cfg (mget (st_tasks st6) n) = mget (elems (cfg_Tasks cfg)) n"
    "taskAdded plan = [] \<Longrightarrow> taskRemoved plan = [] \<Longrightarrow> st6 = st5"
    "\<And>n. n \<notin> set (taskAdded plan) \<Longrightarrow> n \<notin> set (taskRemoved plan) \<Longrightarrow> mget (st_tasks st6) n = mget (st_tasks st) n"
proof -
  note pt = store_plan_tasks [OF coh wf plan]
  obtain sta where a: "remove_tasks env cfg (taskAdded plan) (taskRemoved plan) st5 = (None, sta)"
    "add_new_tasks env cfg (taskRemoved plan) (taskAdded plan) sta = (None, st6)"
    using run by (auto simp: delta_tasks_def and_then0_None)
  have d: "distinct (taskRemoved plan)" "distinct (taskAdded plan)" using pt by blast+
  note r = remove_tasks_effect [OF a(1) inv d(1)]
  have new: "mget (st_tasks sta) n = None" if "n \<in> set (taskAdded plan)" "n \<notin> set (taskRemoved plan)" for n
  proof -
    have "map_option ts_Cfg (mget (st_tasks st) n) = None"
      using conjunct2 [OF conjunct2 [OF pt [of n]]] that by (auto simp: Let_def split: option.splits)
    moreover have "map_option ts_Cfg (mget (st_tasks sta) n) = map_option ts_Cfg (mget (st_tasks st) n)"
      using r that(2) tasks by simp
    ultimately show ?thesis by simp
  qed
  note n = add_new_tasks_effect [OF a(2) _ d(2) new]
  show "tasks_inv {} st6" "task_frame st5 st6" using r n by (auto intro: task_frame_trans)
  show "map_option ts_Cfg (mget (st_tasks st6) k) = mget (elems (cfg_Tasks cfg)) k" for k
  proof -
    have e: "map_option ts_Cfg (mget (st_tasks st6) k) =
      (if k \<in> set (taskRemoved plan) then (if k \<in> set (taskAdded plan) then Some (cfg_task cfg k) else None)
       else if k \<in> set (taskAdded plan) then Some (cfg_task cfg k) else map_option ts_Cfg (mget (st_tasks st) k))"
      using r n tasks by auto
    show ?thesis unfolding e
      using conjunct2 [OF conjunct2 [OF pt [of k]]] by (auto simp: cfg_task_def Let_def split: option.splits if_splits)
  qed
  show "st6 = st5" if "taskAdded plan = []" "taskRemoved plan = []" using a that by simp
  show "mget (st_tasks st6) k = mget (st_tasks st) k" if "k \<notin> set (taskAdded plan)" "k \<notin> set (taskRemoved plan)" for k
    using r n tasks that by simp
qed

lemma views_iff:
  "(\<forall>n. map_option rview (mget R n) = map_option (rspec n) (mget C n)) \<longleftrightarrow>
   (\<forall>n. map_option rs_Cfg (mget R n) = mget C n) \<and> (\<forall>n rs. mget R n = Some rs \<longrightarrow> rview rs = rspec n (rs_Cfg rs))"
proof -
  have "map_option rview (mget R n) = map_option (rspec n) (mget C n) \<longleftrightarrow>
      map_option rs_Cfg (mget R n) = mget C n \<and> (\<forall>rs. mget R n = Some rs \<longrightarrow> rview rs = rspec n (rs_Cfg rs))" for n
    by (cases "mget R n"; cases "mget C n") (auto simp: rview_def rspec_def)
  then show ?thesis by blast
qed

lemma rebuild_keeps:
  assumes "rebuildReceiverSelectors st = (None, st')"
  shows "\<forall>n. map_option rview (mget (st_receivers st') n) = map_option rview (mget (st_receivers st) n)"
    "\<forall>n rs. mget (st_receivers st') n = Some rs \<longrightarrow> selector_ok (st_tasks st') (st_selectors st') (st_taskSets st') rs"
    "receiver_frame st st'"
proof -
  show f: "receiver_frame st st'" by (rule rebuild_views(2) [OF assms])
  show "\<forall>n. map_option rview (mget (st_receivers st') n) = map_option rview (mget (st_receivers st) n)"
    using rebuild_views(1) [OF assms] by blast
  from rebuild_effect [OF assms] have "\<forall>n rs. mget (st_receivers st') n = Some rs \<longrightarrow>
       selector_ok (st_tasks st) (st_selectors st) (st_taskSets st) rs" by blast
  then show "\<forall>n rs. mget (st_receivers st') n = Some rs \<longrightarrow> selector_ok (st_tasks st') (st_selectors st') (st_taskSets st') rs"
    using f by (auto simp: receiver_frame_def)
qed

text \<open>Publishing a store whose tasks are done gives a coherent store.\<close>

lemma tasks_inv_frame: "receiver_frame a b \<Longrightarrow> tasks_inv R b = tasks_inv R a"
  by (auto simp: receiver_frame_def tasks_inv_def)

lemma coherent_log: "coherent rx (st\<lparr>st_log := l\<rparr>) = coherent rx st" "matches rx cfg (st\<lparr>st_log := l\<rparr>) = matches rx cfg st"
  by (simp_all add: coherent_def matches_def tasks_inv_def)

lemma sender_of_used:
  assumes "wf_map (st_tasks st)" "refcount (st_tasks st) n \<noteq> 0"
  obtains k ts where "mget (st_tasks st) k = Some ts" "n \<in> set (elems (tc_Senders (ts_Cfg ts)))"
proof -
  have "\<exists>(k, ts) \<in> set (st_tasks st). uses ts n \<noteq> 0"
  proof (rule ccontr)
    assume "\<not> ?thesis"
    then have "\<forall>x \<in> set (map (\<lambda>(k, ts). uses ts n) (st_tasks st)). x = 0" by auto
    then have "refcount (st_tasks st) n = 0" by (simp add: refcount_def sum_list_eq_0_iff)
    then show False using assms(2) by simp
  qed
  then obtain k ts where "(k, ts) \<in> set (st_tasks st)" "uses ts n \<noteq> 0" by auto
  then have "mget (st_tasks st) k = Some ts" "n \<in> set (elems (tc_Senders (ts_Cfg ts)))"
    using assms(1) by (simp_all add: mget_in_set uses_def count_list_0_iff)
  then show thesis by (rule that)
qed

lemma delta_reload:
  assumes coh: "coherent rx st" and wf: "wf_cfg cfg" and refs: "valid_refs cfg" and sig: "sig_faithful env"
    and rx: "env_regexp env = rx" and run: "applyBusinessDelta env cfg st = (None, st')"
  shows "coherent rx st' \<and> matches rx cfg st' \<and>
    (\<forall>n. n \<notin> set (taskAdded (store_plan st cfg)) \<longrightarrow> n \<notin> set (taskRemoved (store_plan st cfg)) \<longrightarrow>
       mget (st_tasks st') n = mget (st_tasks st) n)"
proof -
  define plan where "plan = store_plan st cfg"
  obtain nxt st1 delta st2 st3 closers st4 st5 st6 where s:
    "(if pipeline_changed plan then compilePipelinesWithStageCache env (elems (cfg_Pipelines cfg)) st
      else (Inr ([], []), st)) = (Inr nxt, st1)"
    "(if receiver_changed plan then prepareReceiverDelta env (elems (cfg_Receivers cfg)) st1 else (Inr [], st1)) = (Inr delta, st2)"
    "st3 = (if selector_changed plan \<or> taskset_changed plan then
        st2\<lparr>st_selectors := elems (cfg_Selectors cfg), st_taskSets := cloneTaskSetMap (elems (cfg_TaskSets cfg))\<rparr> else st2)"
    "(if sender_changed plan then applySenderDelta env (elems (cfg_Senders cfg)) st3 else (Inr [], st3)) = (Inr closers, st4)"
    "st5 = (if pipeline_changed plan then delta_install_pipelines cfg nxt st4 else st4)"
    "delta_tasks env cfg plan st5 = (None, st6)"
    "delta_publish cfg plan delta closers st6 = (None, st')"
    by (rule applyBusinessDelta_steps [OF run plan_def])
  note b = delta_before_tasks [OF coh wf sig rx plan_def s(1-5)]
  note t = delta_tasks_effect [OF coh wf plan_def b(1,2) s(6)]
  have cache6: "st_stageCache st6 = []" using t(1) by (simp add: tasks_inv_def)
  define st7 where "st7 = gcUnusedSenders st6"
  note g = gcUnusedSenders_effect [OF t(1), folded st7_def]
  obtain sn l where st7: "st7 = st6\<lparr>st_senders := sn, st_log := l\<rparr>" using g by blast
  have pub: "gcUnusedStageCache (gcUnusedSenders (rebuildStageTaskRefs st6)) = st7"
    using empty_cache_stays(3) [OF cache6] empty_cache_stays(4) [of st7] cache6 st7 by (simp add: st7_def [symmetric])
  obtain st8 st9 where p:
    "(if receiver_changed plan then commitReceiverDelta (elems (cfg_Receivers cfg)) delta st7 else (None, st7)) = (None, st8)"
    "(if selector_changed plan \<or> taskset_changed plan \<or> receiver_changed plan \<or> taskAdded plan \<noteq> [] \<or> taskRemoved plan \<noteq> []
      then rebuildReceiverSelectors st8 else (None, st8)) = (None, st9)"
    "st' = st9\<lparr>st_log := st_log st9 @ map SenderClosed closers\<rparr>"
    by (rule delta_publish_steps [OF s(7), unfolded pub])
  have wc: "wf_map (elems (cfg_Receivers cfg))" "wf_map (elems (cfg_TaskSets cfg))" "wf_selectors (elems (cfg_Selectors cfg))"
    using wf by (simp_all add: wf_cfg_def wf_config_def)
  have wp: "wf_stages (elems (cfg_Pipelines cfg))" using wf by (simp add: wf_cfg_def)
  have old: "wf_map (st_receivers st)" "wf_selectors (st_selectors st)" "wf_map (st_taskSets st)"
    "\<And>n rs. mget (st_receivers st) n = Some rs \<Longrightarrow> rview rs = rspec n (rs_Cfg rs) \<and> selector_ok (st_tasks st) (st_selectors st) (st_taskSets st) rs"
    using coh by (simp_all add: coherent_def)
  note tf = task_frame_fields [OF t(2)]
  have r7: "st_receivers st7 = st_receivers st" using tf b(3) by (simp add: st7)
  have v8: "receiver_frame st7 st8 \<and> wf_map (st_receivers st8) \<and>
    (\<forall>n. map_option rview (mget (st_receivers st8) n) = map_option (rspec n) (mget (elems (cfg_Receivers cfg)) n))"
  proof (cases "receiver_changed plan")
    case True
    from b(10) [OF True] have pr: "prepareReceiverDelta env (elems (cfg_Receivers cfg)) st1 = (Inr delta, st2)"
      "st_receivers st1 = st_receivers st" by blast+
    have c: "commitReceiverDelta (elems (cfg_Receivers cfg)) delta st7 = (None, st8)" using p(1) True by simp
    show ?thesis by (rule commitReceiverDelta_effect [OF pr(1) c _ wc(1)]) (use r7 pr(2) old in auto)
  next
    case False
    have "\<forall>n. map_option rs_Cfg (mget (st_receivers st) n) = mget (elems (cfg_Receivers cfg)) n"
      using store_plan_parts(1) [OF coh wf plan_def False] by blast
    moreover have "receiver_frame st7 st7" by (auto simp: receiver_frame_def intro!: exI [of _ "st_receivers st7"] exI [of _ "st_log st7"])
    ultimately show ?thesis using p(1) False r7 old unfolding views_iff by simp
  qed
  have v9: "receiver_frame st7 st9 \<and> wf_map (st_receivers st9) \<and>
    (\<forall>n. map_option rview (mget (st_receivers st9) n) = map_option (rspec n) (mget (elems (cfg_Receivers cfg)) n)) \<and>
    (\<forall>n rs. mget (st_receivers st9) n = Some rs \<longrightarrow> selector_ok (st_tasks st9) (st_selectors st9) (st_taskSets st9) rs)"
  proof (cases "selector_changed plan \<or> taskset_changed plan \<or> receiver_changed plan \<or> taskAdded plan \<noteq> [] \<or> taskRemoved plan \<noteq> []")
    case True
    then have r: "rebuildReceiverSelectors st8 = (None, st9)" using p(2) by simp
    show ?thesis using rebuild_keeps [OF r] rebuild_views(3) [OF r] v8 by (auto intro: receiver_frame_trans)
  next
    case False
    then have "st9 = st8" "st8 = st7" "st6 = st5" using p(1,2) t(4) by simp_all
    moreover have "st_tasks st5 = st_tasks st" "st_selectors st5 = st_selectors st" "st_taskSets st5 = st_taskSets st"
      using b(2,4,5) False by simp_all
    ultimately show ?thesis using v8 old(4) r7 by (simp add: st7)
  qed
  obtain rr ll where st9: "st9 = st7\<lparr>st_receivers := rr, st_log := ll\<rparr>" using v9 by (auto simp: receiver_frame_def)
  have inv9: "tasks_inv {} st9" using g tasks_inv_frame [OF conjunct1 [OF v9]] by simp
  have sel9: "st_selectors st9 = st_selectors st5" "st_taskSets st9 = st_taskSets st5" "st_pipelines st9 = st_pipelines st5"
    "st_pipelineCfg st9 = st_pipelineCfg st5" "st_tasks st9 = st_tasks st6" "st_senders st9 = st_senders st7"
    using tf by (simp_all add: st9 st7)
  have "coherent rx st9"
    unfolding coherent_def
  proof (intro conjI)
    show "tasks_inv {} st9" by (rule inv9)
    show "wf_map (st_receivers st9)" using v9 by blast
    show "wf_selectors (st_selectors st9)" "wf_map (st_taskSets st9)"
      using wc old b(4,5) by (auto simp: sel9)
    show "wf_stages (st_pipelineCfg st9)" using b(6) by (simp add: sel9)
    show "\<forall>n. mget (st_pipelines st9) n = spec_pipeline rx (st_pipelineCfg st9) n" using b(7) by (simp add: sel9)
    show "\<forall>n rs. mget (st_receivers st9) n = Some rs \<longrightarrow> rview rs = rspec n (rs_Cfg rs) \<and>
      selector_ok (st_tasks st9) (st_selectors st9) (st_taskSets st9) rs"
      using v9 unfolding views_iff by blast
  qed
  moreover have "matches rx cfg st9"
    unfolding matches_def
  proof (intro conjI)
    show "\<forall>n. map_option rs_Cfg (mget (st_receivers st9) n) = mget (elems (cfg_Receivers cfg)) n"
      using v9 unfolding views_iff by blast
    show "\<forall>n. map_option ts_Cfg (mget (st_tasks st9) n) = mget (elems (cfg_Tasks cfg)) n" using t(3) by (simp add: sel9)
    show "\<forall>n. mget (st_pipelines st9) n = spec_pipeline rx (elems (cfg_Pipelines cfg)) n" using b(8) by (simp add: sel9)
    show "\<forall>n. unchanged stages_deep_eq (clonePipelineConfigMap (st_pipelineCfg st9)) (elems (cfg_Pipelines cfg)) n \<or>
        mget (elems (cfg_Pipelines cfg)) n = Some (Some [])"
      using stored_pipelines [OF wp] store_plan_parts(5) [OF coh wf plan_def] unfolding sel9 b(11) by auto
    show "\<forall>sel key. route (st_selectors st9) (st_taskSets st9) sel key =
        route (elems (cfg_Selectors cfg)) (elems (cfg_TaskSets cfg)) sel key"
      using b(4,5) store_plan_parts(4) [OF coh wf plan_def] by (auto simp: sel9)
    show "\<forall>n ss. mget (st_senders st9) n = Some ss \<longrightarrow> mget (elems (cfg_Senders cfg)) n = Some (ss_Cfg ss)"
    proof (intro allI impI)
      fix n ss
      assume "mget (st_senders st9) n = Some ss"
      then have r: "refcount (st_tasks st6) n \<noteq> 0" and ss: "mget (st_senders st6) n = Some ss"
        using g by (auto simp: sel9 split: if_splits)
      have "wf_map (st_tasks st6)" using t(1) by (simp add: tasks_inv_def)
      from sender_of_used [OF this r] obtain k ts where k: "mget (st_tasks st6) k = Some ts"
        "n \<in> set (elems (tc_Senders (ts_Cfg ts)))" by blast
      have "mget (elems (cfg_Tasks cfg)) k = Some (ts_Cfg ts)" using t(3) [of k, symmetric] k(1) by simp
      then obtain sc where sc: "mget (elems (cfg_Senders cfg)) n = Some sc" using refs k(2) unfolding valid_refs_def by blast
      have "map_option ss_Cfg (mget (st_senders st5) n) = Some sc"
        using b(9) [of n] sc by (auto simp: sender_step_def split: option.splits if_splits)
      then have "ss_Cfg ss = sc" using same_senders_get(2) [OF tf(7), of n] ss by auto
      then show "mget (elems (cfg_Senders cfg)) n = Some (ss_Cfg ss)" using sc by simp
    qed
  qed
  moreover have "st_tasks st' = st_tasks st6" by (simp add: p(3) sel9)
  ultimately show ?thesis using t(5) unfolding p(3) coherent_log plan_def by simp
qed

section \<open>Starting from nothing\<close>

lemma replace_senders_effect:
  assumes "replace_senders env nxt st = (None, st')" "wf_map nxt" "wf_map (st_senders st)"
  shows "\<exists>s k. st' = st\<lparr>st_next := k, st_senders := s\<rparr> \<and> wf_map s \<and>
    (\<forall>n. (mget nxt n = None \<longrightarrow> mget s n = mget (st_senders st) n) \<and>
      (\<forall>sc. mget nxt n = Some sc \<longrightarrow> (\<exists>i. mget s n = Some \<lparr>ss_Name = n, ss_Cfg = sc, ss_S = i, ss_Refs = 0\<rparr>)))"
  using assms
proof (induction nxt arbitrary: st)
  case Nil
  then show ?case by (auto intro!: exI [of _ "st_senders st"] exI [of _ "st_next st"])
next
  case (Cons e nxt)
  obtain name sc where e: "e = (name, sc)" by (cases e)
  obtain i st1 where b: "buildSender env name sc st = (Inr i, st1)"
    using Cons.prems(1) e by (auto split: sum.splits prod.splits)
  obtain k where st1: "st1 = st\<lparr>st_next := k\<rparr>" using buildSender_store [OF b] by blast
  let ?st = "st1\<lparr>st_senders := mset_at name \<lparr>ss_Name = name, ss_Cfg = sc, ss_S = i, ss_Refs = 0\<rparr> (st_senders st1)\<rparr>"
  have r: "replace_senders env nxt ?st = (None, st')" using Cons.prems(1) e b by simp
  have w: "wf_map nxt" "mget nxt name = None" "wf_map (st_senders ?st)"
    using Cons.prems(2,3) e by (auto simp: wf_map_def st1 distinct_update map_of_eq_None_iff)
  from Cons.IH [OF r w(1,3)] obtain s k' where s: "st' = ?st\<lparr>st_next := k', st_senders := s\<rparr>" "wf_map s"
    "\<And>n. (mget nxt n = None \<longrightarrow> mget s n = mget (st_senders ?st) n)"
    "\<And>n sc. mget nxt n = Some sc \<Longrightarrow> (\<exists>i. mget s n = Some \<lparr>ss_Name = n, ss_Cfg = sc, ss_S = i, ss_Refs = 0\<rparr>)" by blast
  show ?case
  proof (intro exI conjI allI)
    show "st' = st\<lparr>st_next := k', st_senders := s\<rparr>" using s(1) st1 by simp
    show "wf_map s" by (rule s(2))
    fix n
    show "mget (e # nxt) n = None \<longrightarrow> mget s n = mget (st_senders st) n" using s(3) [of n] e st1 by auto
    fix sc'
    show "mget (e # nxt) n = Some sc' \<longrightarrow> (\<exists>i. mget s n = Some \<lparr>ss_Name = n, ss_Cfg = sc', ss_S = i, ss_Refs = 0\<rparr>)"
      using s(3) [of name] s(4) [of n] w(2) e by (cases "n = name") auto
  qed
qed

lemma add_tasks_effect:
  assumes "add_tasks env nxt lc st = (None, st')" "wf_map nxt" "tasks_inv {} st"
    "\<And>n. mget nxt n \<noteq> None \<Longrightarrow> mget (st_tasks st) n = None"
  shows "tasks_inv {} st' \<and> task_frame st st' \<and>
    (\<forall>n. map_option ts_Cfg (mget (st_tasks st') n) =
       (case mget nxt n of Some tc \<Rightarrow> Some tc | None \<Rightarrow> map_option ts_Cfg (mget (st_tasks st) n)))"
  using assms
proof (induction nxt arbitrary: st)
  case (Cons e nxt)
  obtain name tc where e: "e = (name, tc)" by (cases e)
  obtain st1 where a: "addTask env name tc lc None st = (None, st1)" "add_tasks env nxt lc st1 = (None, st')"
    using Cons.prems(1) e by (auto split: prod.splits option.splits)
  have w: "wf_map nxt" "mget nxt name = None" using Cons.prems(2) e by (auto simp: wf_map_def map_of_eq_None_iff)
  have "mget (st_tasks st) name = None" using Cons.prems(4) e by simp
  from addTask_effect [OF a(1) Cons.prems(3) this] obtain ts where
    t: "tasks_inv {} st1" "task_frame st st1" "ts_Cfg ts = tc"
    "\<And>n. mget (st_tasks st1) n = (if n = name then Some ts else mget (st_tasks st) n)" by blast
  have "\<And>n. mget nxt n \<noteq> None \<Longrightarrow> mget (st_tasks st1) n = None"
    using t(4) Cons.prems(4) e w(2) by (metis map_of_Cons_code(2))
  from Cons.IH [OF a(2) w(1) t(1) this] show ?case
    using t w(2) e by (auto intro: task_frame_trans split: option.split)
qed simp

lemma replace_receivers_effect:
  assumes "replace_receivers env nxt lc states st = (Inr out, st')" "wf_map nxt" "wf_map (st_receivers st)"
  shows "\<exists>r k. st' = st\<lparr>st_next := k, st_receivers := r\<rparr> \<and> wf_map r \<and>
    (\<forall>n. map_option rview (mget r n) =
       (case mget nxt n of Some rc \<Rightarrow> Some (rspec n rc) | None \<Rightarrow> map_option rview (mget (st_receivers st) n)))"
  using assms
proof (induction nxt arbitrary: st states)
  case Nil
  then show ?case by (auto intro!: exI [of _ "st_receivers st"] exI [of _ "st_next st"])
next
  case (Cons e nxt)
  obtain name rc where e: "e = (name, rc)" by (cases e)
  obtain i st1 where b: "buildReceiver env name rc st = (Inr i, st1)"
    using Cons.prems(1) e by (auto split: sum.splits prod.splits)
  obtain k where st1: "st1 = st\<lparr>st_next := k\<rparr>" using buildReceiver_store [OF b] by blast
  let ?rs = "new_receiver_state name rc i (lc_PayloadLogMaxBytes lc)"
  let ?st = "st1\<lparr>st_receivers := mset_at name ?rs (st_receivers st1)\<rparr>"
  have r: "replace_receivers env nxt lc (states @ [?rs]) ?st = (Inr out, st')" using Cons.prems(1) e b by (simp add: Let_def)
  have w: "wf_map nxt" "mget nxt name = None" "wf_map (st_receivers ?st)"
    using Cons.prems(2,3) e by (auto simp: wf_map_def st1 distinct_update map_of_eq_None_iff)
  from Cons.IH [OF r w(1,3)] obtain r' k' where s: "st' = ?st\<lparr>st_next := k', st_receivers := r'\<rparr>" "wf_map r'"
    "\<And>n. map_option rview (mget r' n) =
       (case mget nxt n of Some rc \<Rightarrow> Some (rspec n rc) | None \<Rightarrow> map_option rview (mget (st_receivers ?st) n))" by blast
  show ?case
  proof (intro exI conjI allI)
    show "st' = st\<lparr>st_next := k', st_receivers := r'\<rparr>" using s(1) st1 by simp
    show "wf_map r'" by (rule s(2))
    show "map_option rview (mget r' n) =
       (case mget (e # nxt) n of Some rc \<Rightarrow> Some (rspec n rc) | None \<Rightarrow> map_option rview (mget (st_receivers st) n))" for n
      using s(3) [of n] w(2) e st1 by (cases "n = name"; cases "mget nxt n") (simp_all add: rview_new)
  qed
qed

lemma fold_start: "\<exists>l. fold startReceiver states st = st\<lparr>st_log := l\<rparr>"
proof (induction states arbitrary: st)
  case Nil
  show ?case by (auto intro!: exI [of _ "st_log st"])
next
  case (Cons rs states)
  from Cons [of "startReceiver rs st"] show ?case by (auto simp: startReceiver_def log_event_def)
qed

lemma replace_reload:
  assumes cache: "st_stageCache st = []" and wf: "wf_cfg cfg" and refs: "valid_refs cfg"
    and sig: "sig_faithful env" and rx: "env_regexp env = rx" and run: "replaceAll env cfg st = (None, st')"
  shows "coherent rx st' \<and> matches rx cfg st'"
proof -
  have wc: "wf_map (elems (cfg_Receivers cfg))" "wf_map (elems (cfg_TaskSets cfg))" "wf_selectors (elems (cfg_Selectors cfg))"
    "wf_map (elems (cfg_Senders cfg))" "wf_map (elems (cfg_Tasks cfg))" "wf_stages (elems (cfg_Pipelines cfg))"
    using wf by (simp_all add: wf_cfg_def wf_config_def)
  have c0: "st_stageCache (StopAll st) = []" using cache by (simp add: StopAll_def)
  let ?inst = "\<lambda>nxt sta. sta\<lparr>st_receivers := [],
                 st_selectors := elems (cfg_Selectors cfg), st_taskSets := cloneTaskSetMap (elems (cfg_TaskSets cfg)),
                 st_senders := [], st_tasks := [], st_pipelines := fst nxt,
                 st_pipelineCfg := clonePipelineConfigMap (elems (cfg_Pipelines cfg)), st_pipelineStageSigs := snd nxt\<rparr>"
  obtain nxt sta st2 st3 st4 states st5 st6 where s:
    "compilePipelinesWithStageCache env (elems (cfg_Pipelines cfg)) (StopAll st) = (Inr nxt, sta)"
    "replace_senders env (elems (cfg_Senders cfg)) (gcUnusedStageCache (?inst nxt sta)) = (None, st2)"
    "add_tasks env (elems (cfg_Tasks cfg)) (cfg_Logging cfg) st2 = (None, st3)"
    "rebuildReceiverSelectors st3 = (None, st4)"
    "replace_receivers env (elems (cfg_Receivers cfg)) (cfg_Logging cfg) [] st4 = (Inr states, st5)"
    "rebuildReceiverSelectors st5 = (None, st6)" "st' = fold startReceiver states st6"
    using run unfolding replaceAll_def Let_def and_then_None and_then0_None cloneSelector_id by auto
  from compile_cached [OF s(1) sig c0] obtain cache where sta: "sta = (StopAll st)\<lparr>st_stageCache := cache\<rparr>" "idle_cache cache"
    "CompilePipelines rx (elems (cfg_Pipelines cfg)) = Inr (fst nxt)" using rx by blast
  define st1 where "st1 = (?inst nxt sta)\<lparr>st_stageCache := []\<rparr>"
  have gc: "gcUnusedStageCache (?inst nxt sta) = st1"
    unfolding st1_def by (rule gc_idle) (use sta in simp)
  have w1: "wf_map (st_senders st1)" by (simp add: st1_def)
  from replace_senders_effect [OF s(2) [unfolded gc] wc(4) w1] obtain sn k where st2: "st2 = st1\<lparr>st_next := k, st_senders := sn\<rparr>"
    and sn: "wf_map sn" "\<And>n. mget (elems (cfg_Senders cfg)) n = None \<Longrightarrow> mget sn n = None"
      "\<And>n sc. mget (elems (cfg_Senders cfg)) n = Some sc \<Longrightarrow> \<exists>i. mget sn n = Some \<lparr>ss_Name = n, ss_Cfg = sc, ss_S = i, ss_Refs = 0\<rparr>"
    by (auto simp: st1_def)
  have sn': "ss_Name ss = n \<and> ss_Refs ss = 0 \<and> mget (elems (cfg_Senders cfg)) n = Some (ss_Cfg ss)" if "mget sn n = Some ss" for n ss
    using sn(2,3) [of n] that by (cases "mget (elems (cfg_Senders cfg)) n") auto
  have inv2: "tasks_inv {} st2"
    using sn(1) sn' by (auto simp: tasks_inv_def st2 st1_def refcount_def)
  have "\<And>n. mget (elems (cfg_Tasks cfg)) n \<noteq> None \<Longrightarrow> mget (st_tasks st2) n = None" by (simp add: st2 st1_def)
  note t = add_tasks_effect [OF s(3) wc(5) inv2 this]
  have tasks: "map_option ts_Cfg (mget (st_tasks st3) n) = mget (elems (cfg_Tasks cfg)) n" for n
    using t by (simp add: st2 st1_def split: option.split)
  note tf = task_frame_fields [OF conjunct1 [OF conjunct2 [OF t]]]
  have f4: "receiver_frame st3 st4" by (rule rebuild_views(2) [OF s(4)])
  have r3: "st_receivers st3 = []" using tf by (simp add: st2 st1_def)
  have r4: "st_receivers st4 = []" using rebuild_effect [OF s(4)] r3 by auto
  have "wf_map (st_receivers st4)" by (simp add: r4)
  from replace_receivers_effect [OF s(5) wc(1) this] obtain rs k5 where st5: "st5 = st4\<lparr>st_next := k5, st_receivers := rs\<rparr>"
    and rs: "wf_map rs" and rv: "\<And>n. map_option rview (mget rs n) =
       (case mget (elems (cfg_Receivers cfg)) n of Some rc \<Rightarrow> Some (rspec n rc) | None \<Rightarrow> map_option rview (mget (st_receivers st4) n))"
    by blast
  have rs2: "map_option rview (mget rs n) = map_option (rspec n) (mget (elems (cfg_Receivers cfg)) n)" for n
    using rv [of n] r4 by (simp split: option.splits)
  note k6 = rebuild_keeps [OF s(6)] and w6 = rebuild_views(3) [OF s(6)]
  obtain r4' l4 where st4: "st4 = st3\<lparr>st_receivers := r4', st_log := l4\<rparr>" using f4 by (auto simp: receiver_frame_def)
  obtain r6 l6 where st6: "st6 = st5\<lparr>st_receivers := r6, st_log := l6\<rparr>" using k6(3) by (auto simp: receiver_frame_def)
  have f6: "st_tasks st6 = st_tasks st3" "st_senders st6 = st_senders st3" "st_pipelines st6 = fst nxt"
    "st_pipelineCfg st6 = clonePipelineConfigMap (elems (cfg_Pipelines cfg))" "st_selectors st6 = elems (cfg_Selectors cfg)"
    "st_taskSets st6 = cloneTaskSetMap (elems (cfg_TaskSets cfg))" "st_stageCache st6 = st_stageCache st3"
    using tf by (simp_all add: st6 st5 st4 st2 st1_def)
  have "tasks_inv {} st3" using t by blast
  then have inv6: "tasks_inv {} st6" using tf f6 by (simp add: tasks_inv_def st2 st1_def)
  have views: "\<forall>n. map_option rview (mget (st_receivers st6) n) = map_option (rspec n) (mget (elems (cfg_Receivers cfg)) n)"
    using k6(1) rs2 by (simp add: st5)
  note vi = views [unfolded views_iff]
  note cp = CompilePipelines_spec [OF sta(3)]
  have wp: "wf_stages (clonePipelineConfigMap (elems (cfg_Pipelines cfg)))"
    using wc(6) by (auto simp: wf_stages_def) (force simp: clonePipelineConfigMap_def)
  have "coherent rx st6"
    unfolding coherent_def f6(3-6)
    using inv6 w6 rs wc wp cp k6(2) vi f6 by (simp add: st5)
  moreover have "matches rx cfg st6"
    unfolding matches_def
  proof (intro conjI)
    show "\<forall>n ss. mget (st_senders st6) n = Some ss \<longrightarrow> mget (elems (cfg_Senders cfg)) n = Some (ss_Cfg ss)"
    proof (intro allI impI)
      fix n ss
      assume "mget (st_senders st6) n = Some ss"
      then have "map_option ss_Cfg (mget sn n) = Some (ss_Cfg ss)"
        using same_senders_get(2) [OF tf(7), of n] f6(2) by (simp add: st2)
      then show "mget (elems (cfg_Senders cfg)) n = Some (ss_Cfg ss)" using sn' by auto
    qed
  qed (use vi tasks cp stored_pipelines [OF wc(6)] in \<open>simp_all add: f6\<close>)
  moreover obtain l where "st' = st6\<lparr>st_log := l\<rparr>" using fold_start [of states st6] s(7) by blast
  ultimately show ?thesis using coherent_log by simp
qed

section \<open>UpdateCache\<close>

lemma coherent_NewStore: "coherent rx NewStore"
  by (simp add: coherent_def NewStore_def tasks_inv_def wf_selectors_def wf_stages_def spec_pipeline_def)

lemma UpdateCache_reload:
  assumes "coherent rx st" "wf_cfg cfg" "valid_refs cfg" "sig_faithful env" "env_regexp env = rx"
    and "UpdateCache env cfg st = (None, st')"
  shows "coherent rx st' \<and> matches rx cfg st'"
proof -
  define st0 where "st0 = setPayloadLogDefaultMax (lc_PayloadLogMaxBytes (cfg_Logging cfg)) st"
  have c: "coherent rx st0" using assms(1) by (simp add: st0_def setPayloadLogDefaultMax_def coherent_def tasks_inv_def)
  show ?thesis
  proof (cases "canApplyBusinessDelta st0")
    case True
    then have "applyBusinessDelta env cfg st0 = (None, st')" using assms(6) by (simp add: UpdateCache_def st0_def)
    then show ?thesis using delta_reload [OF c assms(2-5)] by blast
  next
    case False
    then have "replaceAll env cfg st0 = (None, st')" using assms(6) by (simp add: UpdateCache_def st0_def)
    moreover have "st_stageCache st0 = []" using c by (simp add: coherent_def tasks_inv_def)
    ultimately show ?thesis using replace_reload assms(2-5) by blast
  qed
qed

end
