(* ===== verification/ReloadProps.thy ===== *)
theory ReloadProps
  imports Reload
begin

text \<open>The properties of \<open>UpdateCache\<close>, with a small configuration as their witness.\<close>

section \<open>A sample\<close>

definition sample_env :: env where
  "sample_env = \<lparr>env_regexp = \<lambda>_. Inl (Errorf [] []), env_marshal = \<lambda>_. Inl (Errorf [] []),
     env_new_sender = \<lambda>_ _. None, env_new_receiver = \<lambda>_ _. None, env_newpool = \<lambda>_. None, env_info = True\<rparr>"

definition sample_config :: config where
  "sample_config = zero_config\<lparr>
     cfg_Receivers := Some [(''r'', zero_receiver_config\<lparr>rc_Type := ''udp_gnet'', rc_Selector := ''s''\<rparr>)],
     cfg_Selectors := Some [(''s'', \<lparr>se_Matches = Some [(''k'', ''ts'')], se_DefaultTaskSet = []\<rparr>)],
     cfg_TaskSets := Some [(''ts'', Some [''t''])],
     cfg_Senders := Some [(''o'', zero_sender_config\<lparr>sc_Type := ''kafka''\<rparr>)],
     cfg_Tasks := Some [(''t'', zero_task_config\<lparr>tc_Senders := Some [''o'']\<rparr>)]\<rparr>"

definition sample_store :: store where
  "sample_store = snd (UpdateCache sample_env sample_config NewStore)"

lemma sample_ok: "UpdateCache sample_env sample_config NewStore = (None, sample_store)"
proof -
  have "fst (UpdateCache sample_env sample_config NewStore) = None" by code_simp
  then show ?thesis by (simp add: sample_store_def prod_eq_iff)
qed

lemma sample_config_fields:
  "elems (cfg_Receivers sample_config) = [(''r'', zero_receiver_config\<lparr>rc_Type := ''udp_gnet'', rc_Selector := ''s''\<rparr>)]"
  "elems (cfg_Selectors sample_config) = [(''s'', \<lparr>se_Matches = Some [(''k'', ''ts'')], se_DefaultTaskSet = []\<rparr>)]"
  "elems (cfg_TaskSets sample_config) = [(''ts'', Some [''t''])]"
  "elems (cfg_Senders sample_config) = [(''o'', zero_sender_config\<lparr>sc_Type := ''kafka''\<rparr>)]"
  "elems (cfg_Pipelines sample_config) = []"
  "elems (cfg_Tasks sample_config) = [(''t'', zero_task_config\<lparr>tc_Senders := Some [''o'']\<rparr>)]"
  by (simp_all add: sample_config_def zero_config_def)

lemma sample_hyps:
  "wf_cfg sample_config" "valid_refs sample_config" "sig_faithful sample_env"
  by (simp_all add: wf_cfg_def wf_config_def wf_stages_def wf_selectors_def valid_refs_def sig_faithful_def
    sample_config_fields sample_env_def wf_map_def)

lemmas sample_reload = coherent_NewStore sample_hyps refl sample_ok

section \<open>What a receiver does with a match key\<close>

text \<open>The tasks of a receiver for a match key, as far as the configuration determines them.\<close>

definition observe :: "store \<Rightarrow> string \<Rightarrow> string \<Rightarrow> (string \<times> task_config \<times> pipeline list \<times> string list) list option" where
  "observe st r key =
     map_option (\<lambda>rs. map (\<lambda>ts. (ts_Name ts, ts_Cfg ts, tk_Pipelines (ts_T ts), map sr_name (tk_Senders (ts_T ts))))
       (Match (rs_Selector rs) key)) (mget (st_receivers st) r)"

text \<open>The same, read off a configuration.\<close>

definition configured :: "(string \<Rightarrow> regex result) \<Rightarrow> config \<Rightarrow> string \<Rightarrow> string \<Rightarrow>
    (string \<times> task_config \<times> pipeline list \<times> string list) list option" where
  "configured rx cfg r key =
     map_option (\<lambda>rc. map (\<lambda>n.
         let tc = cfg_task cfg n in
         (n, tc, map (\<lambda>pn. the (spec_pipeline rx (elems (cfg_Pipelines cfg)) pn)) (elems (tc_Pipelines tc)), elems (tc_Senders tc)))
       (route (elems (cfg_Selectors cfg)) (elems (cfg_TaskSets cfg)) (rc_Selector rc) key))
     (mget (elems (cfg_Receivers cfg)) r)"

lemma map_Some_eq: "map Some xs = map f ys \<Longrightarrow> xs = map (\<lambda>y. the (f y)) ys"
proof -
  assume "map Some xs = map f ys"
  from arg_cong [OF this, of "map the"] show "xs = map (\<lambda>y. the (f y)) ys" by (simp add: comp_def)
qed

lemma bound_senders_names: "map Some bs = bound_senders senders sns \<Longrightarrow> map sr_name bs = sns"
  unfolding bound_senders_def
proof (induction sns arbitrary: bs)
  case (Cons sn sns)
  then show ?case by (cases bs; cases "mget senders sn") auto
qed simp

lemma bound_member:
  "Some s \<in> set (bound_senders senders sns) \<Longrightarrow>
    \<exists>sn ss. sn \<in> set sns \<and> mget senders sn = Some ss \<and> s = \<lparr>sr_id = ss_S ss, sr_name = sn\<rparr>"
  unfolding bound_senders_def
proof (induction sns)
  case (Cons sn sns)
  then show ?case by (cases "mget senders sn") auto
qed simp

lemma matches_sender:
  "matches rx cfg st \<Longrightarrow> mget (st_senders st) n = Some ss \<Longrightarrow> mget (elems (cfg_Senders cfg)) n = Some (ss_Cfg ss)"
  by (simp add: matches_def)

lemma task_ok_configured:
  assumes "coherent rx st" "matches rx cfg st" "mget (st_tasks st) n = Some ts"
  shows "ts_Name ts = n \<and> ts_Cfg ts = cfg_task cfg n \<and>
    tk_Pipelines (ts_T ts) = map (\<lambda>pn. the (spec_pipeline rx (elems (cfg_Pipelines cfg)) pn)) (elems (tc_Pipelines (ts_Cfg ts))) \<and>
    map sr_name (tk_Senders (ts_T ts)) = elems (tc_Senders (ts_Cfg ts))"
proof -
  have ok: "task_ok (st_pipelines st) (st_senders st) n ts"
    using assms(1,3) by (simp add: coherent_def tasks_inv_def)
  have m: "map_option ts_Cfg (mget (st_tasks st) n) = mget (elems (cfg_Tasks cfg)) n"
    "\<And>pn. mget (st_pipelines st) pn = spec_pipeline rx (elems (cfg_Pipelines cfg)) pn"
    using assms(2) by (simp_all add: matches_def)
  have "mget (elems (cfg_Tasks cfg)) n = Some (ts_Cfg ts)" using m(1) assms(3) by simp
  then have "ts_Cfg ts = cfg_task cfg n" by (simp add: cfg_task_def)
  moreover have "tk_Pipelines (ts_T ts) =
      map (\<lambda>pn. the (spec_pipeline rx (elems (cfg_Pipelines cfg)) pn)) (elems (tc_Pipelines (ts_Cfg ts)))"
    using ok m(2) by (intro map_Some_eq) (simp add: task_ok_def)
  moreover have "map sr_name (tk_Senders (ts_T ts)) = elems (tc_Senders (ts_Cfg ts))"
    using ok by (intro bound_senders_names) (simp add: task_ok_def)
  ultimately show ?thesis using ok by (simp add: task_ok_def)
qed

lemma observe_configured:
  assumes "coherent rx st" "matches rx cfg st"
  shows "observe st r key = configured rx cfg r key"
proof (cases "mget (st_receivers st) r")
  case None
  then have "mget (elems (cfg_Receivers cfg)) r = None"
    using assms(2) unfolding matches_def by (metis option.map_disc_iff)
  then show ?thesis using None by (simp add: observe_def configured_def)
next
  case (Some rs)
  have rc: "mget (elems (cfg_Receivers cfg)) r = Some (rs_Cfg rs)"
    using assms(2) Some unfolding matches_def by (metis option.simps(9))
  have c: "rview rs = rspec r (rs_Cfg rs)" "selector_ok (st_tasks st) (st_selectors st) (st_taskSets st) rs"
    using assms(1) Some by (simp_all add: coherent_def)
  have sel: "rs_SelectorName rs = rc_Selector (rs_Cfg rs)" using c(1) by (simp add: rview_def rspec_def)
  let ?ns = "route (elems (cfg_Selectors cfg)) (elems (cfg_TaskSets cfg)) (rc_Selector (rs_Cfg rs)) key"
  have m: "map Some (Match (rs_Selector rs) key) = map (mget (st_tasks st)) ?ns"
    using c(2) sel assms(2) by (simp add: selector_ok_def matches_def)
  let ?f = "\<lambda>ts. (ts_Name ts, ts_Cfg ts, tk_Pipelines (ts_T ts), map sr_name (tk_Senders (ts_T ts)))"
  let ?g = "\<lambda>n. let tc = cfg_task cfg n in
    (n, tc, map (\<lambda>pn. the (spec_pipeline rx (elems (cfg_Pipelines cfg)) pn)) (elems (tc_Pipelines tc)), elems (tc_Senders tc))"
  have "?f ts = ?g n" if "mget (st_tasks st) n = Some ts" for n ts
    using task_ok_configured [OF assms that] by (simp add: Let_def)
  then have "map ?f tss = map ?g ns" if "map Some tss = map (mget (st_tasks st)) ns" for tss ns
    using that
  proof (induction ns arbitrary: tss)
    case (Cons n ns)
    then show ?case by (cases tss) auto
  qed simp
  from this [OF m] show ?thesis using Some rc by (simp add: observe_def configured_def)
qed

section \<open>Properties\<close>

text \<open>C3: a successful \<open>UpdateCache\<close> implements the configuration: from any coherent store, cold or
  running, it ends in a coherent store that matches the new configuration: receivers, tasks, senders and
  pipelines are the configured ones, every task holds the current instances of its senders and the
  compiled pipelines of the new configuration, the reference counts count and every receiver
  routes by the new selectors. The regular expressions, JSON and the constructors are those of the
  environment.\<close>

theorem UpdateCache_refines_config:
  assumes "coherent rx st" "wf_cfg cfg" "valid_refs cfg" "sig_faithful env" "env_regexp env = rx"
    and "UpdateCache env cfg st = (None, st')"
  shows "coherent rx st' \<and> matches rx cfg st' \<and> observe st' r key = configured rx cfg r key"
  using UpdateCache_reload [OF assms] observe_configured by blast

theorem UpdateCache_refines_config_witness:
  "observe sample_store ''r'' ''k'' = Some [(''t'', zero_task_config\<lparr>tc_Senders := Some [''o'']\<rparr>, [], [''o''])]"
proof -
  have "observe sample_store ''r'' ''k'' = configured (env_regexp sample_env) sample_config ''r'' ''k''"
    using UpdateCache_refines_config [OF sample_reload] by blast
  then show ?thesis
    by (simp add: configured_def sample_config_fields route_def task_set_def cfg_task_def zero_task_config_def)
qed

text \<open>C5: a hot reload ends where a cold start with the same configuration ends: from any coherent
  store (a new one, or what a row of successful updates left; after a failed update the store need not
  be coherent), whatever it ran, every receiver hands a packet to tasks with the same names,
  configurations, pipelines and senders, in the same order.\<close>

theorem hot_reload_equals_cold_start:
  assumes "coherent rx st" "wf_cfg cfg" "valid_refs cfg" "sig_faithful env" "sig_faithful env'"
    and "env_regexp env = rx" "env_regexp env' = rx"
    and "UpdateCache env cfg st = (None, hot)" "UpdateCache env' cfg NewStore = (None, cold)"
  shows "observe hot r key = observe cold r key"
  using UpdateCache_reload [OF assms(1-4,6,8)] UpdateCache_reload [OF coherent_NewStore assms(2,3,5,7,9)]
  by (metis observe_configured)

text \<open>The sample store is updated to a configuration with a second task.\<close>

definition sample_config2 :: config where
  "sample_config2 = sample_config\<lparr>
     cfg_TaskSets := Some [(''ts'', Some [''t'', ''u''])],
     cfg_Tasks := Some [(''t'', zero_task_config\<lparr>tc_Senders := Some [''o'']\<rparr>), (''u'', zero_task_config\<lparr>tc_Senders := Some [''o'']\<rparr>)]\<rparr>"

lemma sample2_fields:
  "elems (cfg_Receivers sample_config2) = elems (cfg_Receivers sample_config)"
  "elems (cfg_Selectors sample_config2) = elems (cfg_Selectors sample_config)"
  "elems (cfg_TaskSets sample_config2) = [(''ts'', Some [''t'', ''u''])]"
  "elems (cfg_Senders sample_config2) = elems (cfg_Senders sample_config)"
  "elems (cfg_Pipelines sample_config2) = []"
  "elems (cfg_Tasks sample_config2) = [(''t'', zero_task_config\<lparr>tc_Senders := Some [''o'']\<rparr>), (''u'', zero_task_config\<lparr>tc_Senders := Some [''o'']\<rparr>)]"
  by (simp_all add: sample_config2_def sample_config_def zero_config_def)

lemma sample2_hyps: "wf_cfg sample_config2" "valid_refs sample_config2"
  by (simp_all add: wf_cfg_def wf_config_def wf_stages_def wf_selectors_def valid_refs_def
    sample_config_fields sample2_fields wf_map_def)

definition sample_store2 :: store where
  "sample_store2 = snd (UpdateCache sample_env sample_config2 sample_store)"

definition sample_cold2 :: store where
  "sample_cold2 = snd (UpdateCache sample_env sample_config2 NewStore)"

lemma sample2_ok: "UpdateCache sample_env sample_config2 sample_store = (None, sample_store2)"
proof -
  have "fst (UpdateCache sample_env sample_config2 sample_store) = None" unfolding sample_store_def by code_simp
  then show ?thesis by (simp add: sample_store2_def prod_eq_iff)
qed

lemma cold2_ok: "UpdateCache sample_env sample_config2 NewStore = (None, sample_cold2)"
proof -
  have "fst (UpdateCache sample_env sample_config2 NewStore) = None" by code_simp
  then show ?thesis by (simp add: sample_cold2_def prod_eq_iff)
qed

lemma sample_coherent: "coherent (env_regexp sample_env) sample_store"
  using UpdateCache_reload [OF sample_reload] by blast

theorem hot_reload_equals_cold_start_witness:
  "observe sample_store2 ''r'' ''k'' = observe sample_cold2 ''r'' ''k''"
  by (rule hot_reload_equals_cold_start [OF sample_coherent sample2_hyps sample_hyps(3,3) refl refl sample2_ok cold2_ok])

lemma used_entries_unchanged:
  assumes "coherent rx st" "matches rx old st" "mget (st_tasks st) n = Some ts" "ts_Cfg ts = tc"
    and "\<forall>s \<in> set (elems (tc_Senders tc)). mget (elems (cfg_Senders new)) s = mget (elems (cfg_Senders old)) s"
    and "\<forall>p \<in> set (elems (tc_Pipelines tc)). mget (elems (cfg_Pipelines new)) p = mget (elems (cfg_Pipelines old)) p \<and>
      mget (elems (cfg_Pipelines old)) p \<noteq> Some (Some [])"
  shows "\<not> uses_changed (senderConfigSnapshot (st_senders st)) (clonePipelineConfigMap (st_pipelineCfg st)) new tc"
proof -
  have "unchanged (=) (senderConfigSnapshot (st_senders st)) (elems (cfg_Senders new)) s"
    if s: "s \<in> set (elems (tc_Senders tc))" for s
  proof -
    have "mget (st_senders st) s \<noteq> None" using assms(1,3,4) s unfolding coherent_def tasks_inv_def by blast
    then obtain ss where ss: "mget (st_senders st) s = Some ss" by blast
    then show ?thesis using matches_sender [OF assms(2) ss] assms(5) s by (simp add: unchanged_def mget_snapshots)
  qed
  moreover have "unchanged stages_deep_eq (clonePipelineConfigMap (st_pipelineCfg st)) (elems (cfg_Pipelines new)) p"
    if p: "p \<in> set (elems (tc_Pipelines tc))" for p
  proof -
    have "unchanged stages_deep_eq (clonePipelineConfigMap (st_pipelineCfg st)) (elems (cfg_Pipelines old)) p"
      using assms(2,6) p unfolding matches_def by blast
    then show ?thesis using assms(6) p by (simp add: unchanged_def)
  qed
  ultimately show ?thesis by (auto simp: uses_changed_def list_ex_iff)
qed

text \<open>C37: a reload does not touch what did not change: after two successful updates in a row, a task
  whose configuration, senders and pipelines are the same in both configurations is still the very same
  running instance. The one exception is a pipeline configured as an empty list (not one left out or
  null): the store keeps a nil copy of it, which the comparison takes for a change.\<close>

theorem reload_keeps_unaffected_tasks:
  assumes "coherent rx st" "wf_cfg old" "valid_refs old" "sig_faithful env" "env_regexp env = rx"
    and "UpdateCache env old st = (None, st1)"
    and "wf_cfg new" "valid_refs new" "sig_faithful env'" "env_regexp env' = rx"
    and "UpdateCache env' new st1 = (None, st2)"
    and "mget (elems (cfg_Tasks old)) n = Some tc" "mget (elems (cfg_Tasks new)) n = Some tc"
    and "\<forall>s \<in> set (elems (tc_Senders tc)). mget (elems (cfg_Senders new)) s = mget (elems (cfg_Senders old)) s"
    and "\<forall>p \<in> set (elems (tc_Pipelines tc)). mget (elems (cfg_Pipelines new)) p = mget (elems (cfg_Pipelines old)) p \<and>
      mget (elems (cfg_Pipelines old)) p \<noteq> Some (Some [])"
  shows "\<exists>ts. mget (st_tasks st1) n = Some ts \<and> ts_Cfg ts = tc \<and> mget (st_tasks st2) n = Some ts"
proof -
  have co: "coherent rx st1" and m: "matches rx old st1" using UpdateCache_reload [OF assms(1-6)] by simp_all
  define st0 where "st0 = setPayloadLogDefaultMax (lc_PayloadLogMaxBytes (cfg_Logging new)) st1"
  have f: "st_tasks st0 = st_tasks st1" "st_senders st0 = st_senders st1" "st_pipelineCfg st0 = st_pipelineCfg st1"
    by (simp_all add: st0_def setPayloadLogDefaultMax_def)
  have c: "coherent rx st0" using co by (simp add: st0_def setPayloadLogDefaultMax_def coherent_def tasks_inv_def)
  have "map_option ts_Cfg (mget (st_tasks st1) n) = Some tc"
    using m unfolding matches_def assms(12) [symmetric] by blast
  then obtain ts where ts: "mget (st_tasks st1) n = Some ts" "ts_Cfg ts = tc" by blast
  have u: "\<not> uses_changed (senderConfigSnapshot (st_senders st0)) (clonePipelineConfigMap (st_pipelineCfg st0)) new tc"
    using used_entries_unchanged [OF co m ts assms(14,15)] by (simp add: f)
  have "canApplyBusinessDelta st0" using ts(1) f(1) by (auto simp: canApplyBusinessDelta_def)
  then have run: "applyBusinessDelta env' new st0 = (None, st2)" using assms(11) by (simp add: UpdateCache_def st0_def)
  have "n \<notin> set (taskAdded (store_plan st0 new))" "n \<notin> set (taskRemoved (store_plan st0 new))"
    using store_plan_tasks [OF c assms(7) refl, of n] ts u assms(13) by (simp_all add: Let_def f)
  then show ?thesis using delta_reload [OF c assms(7-10) run] ts f(1) by simp
qed

theorem reload_keeps_unaffected_tasks_witness:
  "mget (st_tasks sample_store2) ''t'' = mget (st_tasks sample_store) ''t'' \<and> mget (st_tasks sample_store) ''t'' \<noteq> None"
proof -
  have "\<exists>ts. mget (st_tasks sample_store) ''t'' = Some ts \<and> ts_Cfg ts = zero_task_config\<lparr>tc_Senders := Some [''o'']\<rparr> \<and>
    mget (st_tasks sample_store2) ''t'' = Some ts"
  proof (rule reload_keeps_unaffected_tasks [OF sample_reload sample2_hyps sample_hyps(3) refl sample2_ok])
    show "\<forall>p \<in> set (elems (tc_Pipelines (zero_task_config\<lparr>tc_Senders := Some [''o'']\<rparr>))).
        mget (elems (cfg_Pipelines sample_config2)) p = mget (elems (cfg_Pipelines sample_config)) p \<and>
        mget (elems (cfg_Pipelines sample_config)) p \<noteq> Some (Some [])"
      by (simp add: zero_task_config_def)
  qed (simp_all add: sample_config_fields sample2_fields)
  then show ?thesis by auto
qed

text \<open>C36: after a successful update of a coherent store (a new one, or what a row of successful
  updates left) the count of every sender is the number of references the
  running tasks make to it, and every sender a task holds is the current instance of that name, so
  that the senders collected at zero and replaced are in nobody's hands.\<close>

theorem sender_refs_count_references:
  assumes "coherent rx st" "wf_cfg cfg" "valid_refs cfg" "sig_faithful env" "env_regexp env = rx"
    and "UpdateCache env cfg st = (None, st')"
  shows "(\<forall>n ss. mget (st_senders st') n = Some ss \<longrightarrow> ss_Refs ss = int (refcount (st_tasks st') n)) \<and>
    (\<forall>n ts s. mget (st_tasks st') n = Some ts \<longrightarrow> s \<in> set (tk_Senders (ts_T ts)) \<longrightarrow>
       (\<exists>ss. mget (st_senders st') (sr_name s) = Some ss \<and> ss_S ss = sr_id s \<and> 0 < ss_Refs ss))"
proof -
  have inv: "tasks_inv {} st'" using UpdateCache_reload [OF assms] by (simp add: coherent_def)
  then have refs: "\<forall>n ss. mget (st_senders st') n = Some ss \<longrightarrow> ss_Refs ss = int (refcount (st_tasks st') n)"
    by (simp add: tasks_inv_def)
  have "\<exists>ss. mget (st_senders st') (sr_name s) = Some ss \<and> ss_S ss = sr_id s \<and> 0 < ss_Refs ss"
    if t: "mget (st_tasks st') n = Some ts" and s: "s \<in> set (tk_Senders (ts_T ts))" for n ts s
  proof -
    have "task_ok (st_pipelines st') (st_senders st') n ts" using inv t by (simp add: tasks_inv_def)
    then have b: "map Some (tk_Senders (ts_T ts)) = bound_senders (st_senders st') (elems (tc_Senders (ts_Cfg ts)))"
      by (simp add: task_ok_def)
    have "Some s \<in> set (bound_senders (st_senders st') (elems (tc_Senders (ts_Cfg ts))))"
      unfolding b [symmetric] using s by simp
    from bound_member [OF this] obtain sn ss where sn: "sn \<in> set (elems (tc_Senders (ts_Cfg ts)))"
      "mget (st_senders st') sn = Some ss" "s = \<lparr>sr_id = ss_S ss, sr_name = sn\<rparr>" by blast
    have "uses ts sn \<noteq> 0" using sn(1) by (simp add: uses_def count_list_0_iff)
    then have "0 < refcount (st_tasks st') sn" using refcount_member [OF map_of_SomeD [OF t], of sn] by simp
    then show ?thesis using sn refs by auto
  qed
  with refs show ?thesis by blast
qed

theorem sender_refs_count_references_witness:
  "map_option ss_Refs (mget (st_senders sample_store) ''o'') = Some (int (refcount (st_tasks sample_store) ''o''))"
proof -
  have "map_option ss_Refs (mget (st_senders sample_store) ''o'') = Some 1"
    unfolding sample_store_def by code_simp
  then obtain ss where ss: "mget (st_senders sample_store) ''o'' = Some ss" by auto
  have "ss_Refs ss = int (refcount (st_tasks sample_store) ''o'')"
    using sender_refs_count_references [OF sample_reload] ss by blast
  then show ?thesis using ss by simp
qed

text \<open>The stage cache is always empty after a successful update, so no compiled stage is ever
  reused by the next one: an entry is created without a task, and the unused entries are collected
  before the tasks are built.\<close>

theorem stage_cache_never_survives:
  assumes "coherent rx st" "wf_cfg cfg" "valid_refs cfg" "sig_faithful env" "env_regexp env = rx"
    and "UpdateCache env cfg st = (None, st')"
  shows "st_stageCache st' = []"
  using UpdateCache_reload [OF assms] by (simp add: coherent_def tasks_inv_def)

theorem stage_cache_never_survives_witness: "st_stageCache sample_store = []"
  by (rule stage_cache_never_survives [OF sample_reload])

definition stale_before :: config where
  "stale_before = sample_config2\<lparr>cfg_TaskSets := Some [(''ts'', Some [''t'']), (''us'', Some [''u''])]\<rparr>"

definition stale_after :: config where
  "stale_after = stale_before\<lparr>
     cfg_Selectors := Some [(''s'', \<lparr>se_Matches = Some [(''k'', ''us'')], se_DefaultTaskSet = []\<rparr>)],
     cfg_Senders := Some [(''o'', zero_sender_config\<lparr>sc_Type := ''kafka''\<rparr>), (''p'', zero_sender_config\<lparr>sc_Type := ''kafka''\<rparr>)]\<rparr>"

definition failing_env :: env where
  "failing_env = sample_env\<lparr>env_new_sender := \<lambda>n _. if n = ''p'' then Some (Errorf ''dial'' []) else None\<rparr>"

definition served :: "store \<Rightarrow> string list" where
  "served st = (case mget (st_receivers st) ''r'' of None \<Rightarrow> [] | Some rs \<Rightarrow> map ts_Name (Match (rs_Selector rs) ''k''))"

text \<open>An update that fails can leave the receivers on the old selectors for good. The selectors
  of the store are replaced before the senders are built; when a sender cannot be built the update
  returns, and a later successful update with the same configuration sees no change of the selectors
  and does not compile them. Here the configuration sends key \<open>k\<close> to task \<open>u\<close>, and the receiver goes on
  handing it to task \<open>t\<close>.\<close>

theorem failed_update_leaves_stale_routes:
  "let st1 = snd (UpdateCache sample_env stale_before NewStore);
       r2 = UpdateCache failing_env stale_after st1;
       r3 = UpdateCache sample_env stale_after (snd r2)
   in fst r2 = Some (Errorf ''dial'' []) \<and> fst r3 = None \<and> served (snd r3) = [''t''] \<and>
      route (elems (cfg_Selectors stale_after)) (elems (cfg_TaskSets stale_after)) ''s'' ''k'' = [''u'']"
  by code_simp

text \<open>a pipeline configured as an empty list is a change on every update: the store keeps its copy
  as a nil slice, which \<open>reflect.DeepEqual\<close> tells from the empty one, and every task that uses such a
  pipeline is rebuilt although nothing changed.\<close>

theorem empty_pipeline_always_rebuilds:
  assumes "coherent rx st" "wf_cfg cfg"
    and "mget (elems (cfg_Pipelines cfg)) pn = Some (Some [])"
    and "mget (st_tasks st) n = Some ts" "mget (elems (cfg_Tasks cfg)) n = Some (ts_Cfg ts)"
    and "pn \<in> set (elems (tc_Pipelines (ts_Cfg ts)))"
  shows "n \<in> set (taskRemoved (store_plan st cfg)) \<and> n \<in> set (taskAdded (store_plan st cfg))"
proof -
  have "\<not> unchanged stages_deep_eq (clonePipelineConfigMap (st_pipelineCfg st)) (elems (cfg_Pipelines cfg)) pn"
    using assms(3) by (auto simp: unchanged_def mget_clonePipeline copy_slice_def split: option.splits)
  then have "uses_changed (senderConfigSnapshot (st_senders st)) (clonePipelineConfigMap (st_pipelineCfg st)) cfg (ts_Cfg ts)"
    using assms(6) by (auto simp: uses_changed_def list_ex_iff)
  then show ?thesis using store_plan_tasks [OF assms(1,2) refl, of n] assms(4,5) by (simp add: Let_def)
qed

definition empty_pipe_config :: config where
  "empty_pipe_config = sample_config\<lparr>cfg_Pipelines := Some [(''p'', Some [])],
     cfg_Tasks := Some [(''t'', zero_task_config\<lparr>tc_Senders := Some [''o''], tc_Pipelines := Some [''p'']\<rparr>)]\<rparr>"

definition empty_pipe_store :: store where
  "empty_pipe_store = snd (UpdateCache sample_env empty_pipe_config NewStore)"

theorem empty_pipeline_always_rebuilds_witness:
  "''t'' \<in> set (taskRemoved (store_plan empty_pipe_store empty_pipe_config))"
proof -
  have f: "elems (cfg_Pipelines empty_pipe_config) = [(''p'', Some [])]"
    "elems (cfg_Tasks empty_pipe_config) = [(''t'', zero_task_config\<lparr>tc_Senders := Some [''o''], tc_Pipelines := Some [''p'']\<rparr>)]"
    "elems (cfg_Receivers empty_pipe_config) = elems (cfg_Receivers sample_config)"
    "elems (cfg_Selectors empty_pipe_config) = elems (cfg_Selectors sample_config)"
    "elems (cfg_TaskSets empty_pipe_config) = elems (cfg_TaskSets sample_config)"
    "elems (cfg_Senders empty_pipe_config) = elems (cfg_Senders sample_config)"
    by (simp_all add: empty_pipe_config_def)
  have h: "wf_cfg empty_pipe_config" "valid_refs empty_pipe_config"
    by (simp_all add: wf_cfg_def wf_config_def wf_stages_def wf_selectors_def valid_refs_def f sample_config_fields wf_map_def)
  have "fst (UpdateCache sample_env empty_pipe_config NewStore) = None" by code_simp
  then have ok: "UpdateCache sample_env empty_pipe_config NewStore = (None, empty_pipe_store)"
    by (simp add: empty_pipe_store_def prod_eq_iff)
  note r = UpdateCache_reload [OF coherent_NewStore h sample_hyps(3) refl ok]
  have "map_option ts_Cfg (mget (st_tasks empty_pipe_store) ''t'') = mget (elems (cfg_Tasks empty_pipe_config)) ''t''"
    using r by (simp add: matches_def)
  then obtain ts where ts: "mget (st_tasks empty_pipe_store) ''t'' = Some ts"
    "ts_Cfg ts = zero_task_config\<lparr>tc_Senders := Some [''o''], tc_Pipelines := Some [''p'']\<rparr>" by (auto simp: f)
  show ?thesis
    using empty_pipeline_always_rebuilds [OF conjunct1 [OF r] h(1) _ ts(1), of "''p''"] ts(2) by (simp add: f)
qed

end
