(* ===== verification/Dispatch.thy ===== *)
theory Dispatch
  imports ReloadProps TaskRun
begin

text \<open>
  \<open>dispatchToSelector\<close> (\<open>src/src/runtime/update_cache.go\<close>): the hand-over of a packet from a receiver to
  the tasks its selector names. The result is the list of calls of \<open>Handle\<close> in the order they are made,
  with the packet each gets, and the buffer pool. \<open>dispatch\<close> looks the receiver up first.
\<close>

section \<open>The hot path\<close>

text \<open>The loop over \<open>tasks[1:]\<close>: each of them gets a clone.\<close>

fun dispatch_clones :: "task_state list \<Rightarrow> packet \<Rightarrow> pool \<Rightarrow> (task_state \<times> packet) list \<times> pool" where
  "dispatch_clones [] pkt w = ([], w)"
| "dispatch_clones (ts # tss) pkt w =
     (let (cp, w1) = Clone pkt w; (calls, w2) = dispatch_clones tss pkt w1 in ((ts, cp) # calls, w2))"

definition dispatchToSelector :: "receiver_state option \<Rightarrow> packet \<Rightarrow> pool \<Rightarrow> (task_state \<times> packet) list \<times> pool" where
  "dispatchToSelector rs pkt w =
     (case rs of
        None \<Rightarrow> ([], snd (Release pkt w))
      | Some rs \<Rightarrow>
          (case Match (rs_Selector rs) (MatchKey (Meta pkt)) of
             [] \<Rightarrow> ([], snd (Release pkt w))
           | [ts] \<Rightarrow> ([(ts, pkt)], w)
           | first # rest \<Rightarrow> (let (calls, w') = dispatch_clones rest pkt w in (calls @ [(first, pkt)], w'))))"

definition dispatch :: "store \<Rightarrow> string \<Rightarrow> packet \<Rightarrow> pool \<Rightarrow> (task_state \<times> packet) list \<times> pool" where
  "dispatch st receiverName pkt w = dispatchToSelector (mget (st_receivers st) receiverName) pkt w"

definition payload_summary :: "bytes \<Rightarrow> int \<Rightarrow> string" where
  "payload_summary b maxb =
     (if b = [] then []
      else let m = (if maxb \<le> 0 then DefaultPayloadLogMaxBytes else maxb) in
        if m < int (length b) then hex_encode (take (nat m) b) @ truncated_mark
        else hex_encode b)"

section \<open>Lemmas\<close>

lemma dispatch_clones_effect:
  assumes "dispatch_clones tss pkt w = (calls, w')"
  shows "map fst calls = tss \<and> returned w' = returned w \<and>
    (\<forall>c \<in> set calls. Meta (snd c) = Meta pkt \<and> Payload (snd c) = Payload pkt \<and> Kind (snd c) = Kind pkt) \<and>
    map (\<lambda>c. ReleaseFn (snd c)) calls = map Some [next_lease w ..< next_lease w'] \<and>
    next_lease w' = next_lease w + length tss"
  using assms
proof (induction tss arbitrary: w calls)
  case (Cons ts tss)
  obtain cp w1 where c: "Clone pkt w = (cp, w1)" by fastforce
  obtain calls' where r: "dispatch_clones tss pkt w1 = (calls', w')" "calls = (ts, cp) # calls'"
    using Cons.prems c by (auto simp: Let_def split: prod.splits)
  note e = Clone_envelope [OF c] and ih = Cons.IH [OF r(1)]
  have "next_lease w < next_lease w'" using ih e(6) by simp
  then have "[next_lease w ..< next_lease w'] = next_lease w # [Suc (next_lease w) ..< next_lease w']"
    by (simp add: upt_conv_Cons)
  then show ?case using ih e r(2) by simp
qed simp

lemma dispatchToSelector_effect:
  assumes "dispatchToSelector (Some rs) pkt w = (calls, w')"
    and "Match (rs_Selector rs) (MatchKey (Meta pkt)) = tss"
  shows "mset (map fst calls) = mset tss"
    "\<forall>c \<in> set calls. Meta (snd c) = Meta pkt \<and> Payload (snd c) = Payload pkt \<and> Kind (snd c) = Kind pkt"
    "mset (returned w') + mset (leases (map snd calls)) =
       mset (returned w) + mset (leases [pkt]) + mset [next_lease w ..< next_lease w']"
    "next_lease w' = next_lease w + (length tss - 1)" "tss \<noteq> [] \<Longrightarrow> returned w' = returned w"
proof -
  have "mset (map fst calls) = mset tss \<and>
    (\<forall>c \<in> set calls. Meta (snd c) = Meta pkt \<and> Payload (snd c) = Payload pkt \<and> Kind (snd c) = Kind pkt) \<and>
    mset (returned w') + mset (leases (map snd calls)) =
       mset (returned w) + mset (leases [pkt]) + mset [next_lease w ..< next_lease w'] \<and>
    next_lease w' = next_lease w + (length tss - 1) \<and> (tss \<noteq> [] \<longrightarrow> returned w' = returned w)"
  proof (cases tss)
    case Nil
    then have "calls = []" "w' = snd (Release pkt w)" using assms by (simp_all add: dispatchToSelector_def)
    then show ?thesis using Nil by (simp add: Release_returned)
  next
    case first: (Cons ts rest)
    show ?thesis
    proof (cases rest)
      case Nil
      then have "calls = [(ts, pkt)]" "w' = w" using assms first by (simp_all add: dispatchToSelector_def)
      then show ?thesis using Nil first by simp
    next
      case (Cons ts2 rest2)
      obtain cs where c: "dispatch_clones rest pkt w = (cs, w')" "calls = cs @ [(ts, pkt)]"
        using assms first Cons by (auto simp: dispatchToSelector_def split: prod.splits)
      note e = dispatch_clones_effect [OF c(1)]
      have l: "leases ps = ls" if "map ReleaseFn ps = map Some ls" for ps ls
        using that
      proof (induction ps arbitrary: ls)
        case (Cons p ps)
        then show ?case by (cases ls) auto
      qed simp
      have "leases (map snd cs) = [next_lease w ..< next_lease w']"
        by (rule l) (use e in \<open>simp add: comp_def\<close>)
      then show ?thesis using e c(2) first by simp
    qed
  qed
  then show "mset (map fst calls) = mset tss"
    "\<forall>c \<in> set calls. Meta (snd c) = Meta pkt \<and> Payload (snd c) = Payload pkt \<and> Kind (snd c) = Kind pkt"
    "mset (returned w') + mset (leases (map snd calls)) =
       mset (returned w) + mset (leases [pkt]) + mset [next_lease w ..< next_lease w']"
    "next_lease w' = next_lease w + (length tss - 1)" "tss \<noteq> [] \<Longrightarrow> returned w' = returned w" by blast+
qed

section \<open>Properties\<close>

lemma observe_names:
  assumes "coherent rx st" "matches rx cfg st" "mget (st_receivers st) r = Some rs"
  shows "\<exists>rc. mget (elems (cfg_Receivers cfg)) r = Some rc \<and>
    map ts_Name (Match (rs_Selector rs) key) = route (elems (cfg_Selectors cfg)) (elems (cfg_TaskSets cfg)) (rc_Selector rc) key"
proof -
  have o: "observe st r key = configured rx cfg r key" by (rule observe_configured [OF assms(1,2)])
  obtain rc where rc: "mget (elems (cfg_Receivers cfg)) r = Some rc"
    using o assms(3) by (cases "mget (elems (cfg_Receivers cfg)) r") (simp_all add: observe_def configured_def)
  from arg_cong [OF o, of "map_option (map fst)"] show ?thesis
    using rc assms(3) by (simp add: observe_def configured_def comp_def Let_def)
qed

text \<open>C2: after a successful update of a coherent store (a new one, or what a row of successful updates
  left; after a failed update the store need not be coherent), a packet that arrives at a configured receiver is handed to exactly
  the tasks that the new configuration's selector names for its match key, each once per mention; every
  task gets a packet with the same kind, metadata and payload; and the buffers are conserved: each
  buffer, the packet's own or one leased for a copy, is either held by exactly one of the packets
  handed over or given back, and one is given back only when no task is named.\<close>

theorem dispatch_follows_config:
  assumes "coherent rx st" "wf_cfg cfg" "valid_refs cfg" "sig_faithful env" "env_regexp env = rx"
    and "UpdateCache env cfg st = (None, st')"
    and "mget (elems (cfg_Receivers cfg)) r = Some rc" "dispatch st' r pkt w = (calls, w')"
  shows "mset (map (ts_Name \<circ> fst) calls) =
      mset (route (elems (cfg_Selectors cfg)) (elems (cfg_TaskSets cfg)) (rc_Selector rc) (MatchKey (Meta pkt))) \<and>
    list_all (\<lambda>c. Meta (snd c) = Meta pkt \<and> Payload (snd c) = Payload pkt \<and> Kind (snd c) = Kind pkt) calls \<and>
    mset (returned w') + mset (leases (map snd calls)) =
      mset (returned w) + mset (leases [pkt]) + mset [next_lease w ..< next_lease w'] \<and>
    (route (elems (cfg_Selectors cfg)) (elems (cfg_TaskSets cfg)) (rc_Selector rc) (MatchKey (Meta pkt)) \<noteq> [] \<longrightarrow>
      returned w' = returned w)"
proof -
  note u = UpdateCache_reload [OF assms(1-6)]
  have "map_option rs_Cfg (mget (st_receivers st') r) = Some rc" using u assms(7) by (simp add: matches_def)
  then obtain rs where rs: "mget (st_receivers st') r = Some rs" by auto
  let ?tss = "Match (rs_Selector rs) (MatchKey (Meta pkt))"
  have n: "map ts_Name ?tss = route (elems (cfg_Selectors cfg)) (elems (cfg_TaskSets cfg)) (rc_Selector rc) (MatchKey (Meta pkt))"
    using observe_names [OF conjunct1 [OF u] conjunct2 [OF u] rs, of "MatchKey (Meta pkt)"] assms(7) by auto
  have d: "dispatchToSelector (Some rs) pkt w = (calls, w')" using assms(8) rs by (simp add: dispatch_def)
  note e = dispatchToSelector_effect [OF d refl]
  have r: "route (elems (cfg_Selectors cfg)) (elems (cfg_TaskSets cfg)) (rc_Selector rc) (MatchKey (Meta pkt)) \<noteq> [] \<longrightarrow>
      returned w' = returned w"
    using e(5) unfolding n [symmetric] by simp
  have "mset (map (ts_Name \<circ> fst) calls) = image_mset ts_Name (mset (map fst calls))"
    by (simp add: image_mset.compositionality)
  also have "\<dots> = mset (map ts_Name ?tss)" unfolding e(1) by simp
  finally show ?thesis using n e(2,3) r by (simp add: list_all_iff)
qed

definition keyed_pkt :: packet where
  "keyed_pkt = \<lparr>Kind = PayloadKindStream, Meta = zero_meta\<lparr>MatchKey := ''k''\<rparr>, Payload = [1], ReleaseFn = Some 0, paddr = 0\<rparr>"

theorem dispatch_follows_config_witness:
  "mset (map (ts_Name \<circ> fst) (fst (dispatch sample_store2 ''r'' keyed_pkt \<lparr>next_lease = 1, next_addr = 1, returned = []\<rparr>))) =
     {#''t'', ''u''#}"
proof -
  obtain calls w' where d: "dispatch sample_store2 ''r'' keyed_pkt \<lparr>next_lease = 1, next_addr = 1, returned = []\<rparr> = (calls, w')"
    by fastforce
  have rc: "mget (elems (cfg_Receivers sample_config2)) ''r'' = Some (zero_receiver_config\<lparr>rc_Type := ''udp_gnet'', rc_Selector := ''s''\<rparr>)"
    by (simp add: sample2_fields sample_config_fields)
  have "mset (map (ts_Name \<circ> fst) calls) = mset (route (elems (cfg_Selectors sample_config2)) (elems (cfg_TaskSets sample_config2)) ''s'' ''k'')"
    using dispatch_follows_config [OF sample_coherent sample2_hyps sample_hyps(3) refl sample2_ok rc d]
    by (simp add: keyed_pkt_def)
  then show ?thesis unfolding d by (simp add: sample2_fields sample_config_fields route_def task_set_def)
qed

end
