(* ===== verification/Framing.thy ===== *)
theory Framing
  imports Packet
begin

text \<open>
  TCP framing. \<open>src/src/receiver/framing.go\<close>: the interface \<open>Framer\<close> and \<open>U16BEFramer\<close>;
  \<open>src/src/receiver/gnet_tcp.go\<close>: the connection buffer and \<open>OnTraffic\<close>;
  \<open>src/src/sender/gnet_tcp.go\<close>: the frame a sender writes.

  A frame that \<open>Feed\<close> returns is a slice of its input, so it is a pair of an offset and a length, not
  a copy. \<open>OnTraffic\<close> moves the rest to the front of the same array before it copies the frames out; the
  model keeps that order, with the array as a list of bytes.
\<close>

section \<open>U16BEFramer\<close>

text \<open>\<open>binary.BigEndian.Uint16\<close> on two bytes.\<close>

definition be_u16 :: "byte \<Rightarrow> byte \<Rightarrow> nat" where
  "be_u16 hi lo = unat hi * 256 + unat lo"

text \<open>The loop of \<open>Feed\<close>; \<open>off\<close> is where \<open>buf\<close> starts in the input. The result is the frames as
  (offset, length) and the offset of what remains.\<close>

function feed_at :: "bytes \<Rightarrow> nat \<Rightarrow> (nat \<times> nat) list \<times> nat" where
  "feed_at inp off =
     (if length inp < off + 2 then ([], off)
      else let n = be_u16 (inp ! off) (inp ! (off + 1)) in
        if length inp < off + 2 + n then ([], off)
        else let (frames, rest) = feed_at inp (off + 2 + n) in ((off + 2, n) # frames, rest))"
  by pat_completeness auto
termination by (relation "measure (\<lambda>(inp, off). length inp - off)") auto

declare feed_at.simps [simp del]

text \<open>\<open>Feed\<close> never fails.\<close>

definition Feed :: "bytes \<Rightarrow> ((nat \<times> nat) list \<times> nat) result" where
  "Feed inp = Inr (feed_at inp 0)"

definition slice_of :: "bytes \<Rightarrow> nat \<times> nat \<Rightarrow> bytes" where
  "slice_of arr s = take (snd s) (drop (fst s) arr)"

section \<open>OnTraffic\<close>

text \<open>
  With a framer: the connection buffer, the bytes that have arrived; the result is the payloads of the
  packets in the order they are made, and the new buffer.
\<close>

definition on_traffic_framed :: "bytes \<Rightarrow> bytes \<Rightarrow> bytes list \<times> bytes" where
  "on_traffic_framed buf inp =
     (if inp = [] then ([], buf)
      else let arr = buf @ inp;
               (frames, rest) = feed_at arr 0;
               remain = drop rest arr;
               arr' = remain @ drop (length remain) arr
        in (map (slice_of arr') frames, remain))"

text \<open>Without a framer the whole buffer is one packet and the buffer is empty again.\<close>

definition on_traffic_raw :: "bytes \<Rightarrow> bytes \<Rightarrow> bytes list \<times> bytes" where
  "on_traffic_raw buf inp = (if inp = [] then ([], buf) else ([buf @ inp], []))"

definition OnTraffic :: "bool \<Rightarrow> bytes \<Rightarrow> bytes \<Rightarrow> bytes list \<times> bytes" where
  "OnTraffic framed buf inp = (if framed then on_traffic_framed buf inp else on_traffic_raw buf inp)"

fun run_traffic :: "bool \<Rightarrow> bytes \<Rightarrow> bytes list \<Rightarrow> bytes list \<times> bytes" where
  "run_traffic framed buf [] = ([], buf)"
| "run_traffic framed buf (c # cs) =
     (let (ps, buf') = OnTraffic framed buf c; (qs, buf'') = run_traffic framed buf' cs in (ps @ qs, buf''))"

section \<open>The sender's frame\<close>

text \<open>What \<open>GnetTCPSender.Send\<close> writes to its connection, or its error.\<close>

definition tcp_frame :: "string \<Rightarrow> bool \<Rightarrow> bytes \<Rightarrow> bytes result" where
  "tcp_frame name withU16BELen payload =
     (if \<not> withU16BELen then Inr payload
      else let n = length payload in
        if n > 65535 then Inl (Errorf ''tcp sender %s u16be payload too large: %d > 65535'' [AStr name, AInt (int n)])
        else Inr ([of_nat (n div 256), of_nat (n mod 256)] @ payload))"

section \<open>The contract of a framer\<close>

text \<open>A framer as the receiver means it: frames and rest as values. Feeding in two parts is feeding at
  once.\<close>

locale framer =
  fixes feed :: "bytes \<Rightarrow> bytes list \<times> bytes"
  assumes feed_append: "feed (a @ b) = (fst (feed a) @ fst (feed (snd (feed a) @ b)), snd (feed (snd (feed a) @ b)))"
    and feed_Nil: "feed [] = ([], [])"
begin

fun feed_all :: "bytes \<Rightarrow> bytes list \<Rightarrow> bytes list \<times> bytes" where
  "feed_all buf [] = ([], buf)"
| "feed_all buf (c # cs) =
     (fst (feed (buf @ c)) @ fst (feed_all (snd (feed (buf @ c))) cs), snd (feed_all (snd (feed (buf @ c))) cs))"

lemma feed_rest: "feed (snd (feed a)) = ([], snd (feed a))"
proof -
  have "feed a = (fst (feed a) @ fst (feed (snd (feed a))), snd (feed (snd (feed a))))"
    using feed_append [of a "[]"] by simp
  then have "fst (feed a) = fst (feed a) @ fst (feed (snd (feed a)))" "snd (feed a) = snd (feed (snd (feed a)))"
    by (metis fst_conv, metis snd_conv)
  then show ?thesis by (simp add: prod_eq_iff)
qed

text \<open>However the stream is cut into reads, the frames are those of the whole stream.\<close>

lemma feed_all_concat: "feed buf = ([], buf) \<Longrightarrow> feed_all buf cs = feed (buf @ concat cs)"
proof (induction cs arbitrary: buf)
  case (Cons c cs)
  have "feed_all (snd (feed (buf @ c))) cs = feed (snd (feed (buf @ c)) @ concat cs)"
    by (rule Cons.IH) (rule feed_rest)
  then show ?case using feed_append [of "buf @ c" "concat cs"] by simp
qed simp

end

section \<open>U16BEFramer keeps the contract\<close>

definition u16_feed :: "bytes \<Rightarrow> bytes list \<times> bytes" where
  "u16_feed inp = (map (slice_of inp) (fst (feed_at inp 0)), drop (snd (feed_at inp 0)) inp)"

lemma feed_at_shift: "feed_at (xs @ inp) (length xs + off) = (map (\<lambda>(o1, n). (length xs + o1, n)) (fst (feed_at inp off)), length xs + snd (feed_at inp off))"
proof (induction inp off rule: feed_at.induct)
  case (1 inp off)
  show ?case
  proof (cases "length inp < off + 2")
    case True
    then show ?thesis by (simp add: feed_at.simps [of "xs @ inp"] feed_at.simps [of inp])
  next
    case False
    let ?n = "be_u16 (inp ! off) (inp ! (off + 1))"
    have n: "be_u16 ((xs @ inp) ! (length xs + off)) ((xs @ inp) ! (length xs + off + 1)) = ?n"
      using nth_append_length_plus [of xs inp "off + 1"] by (simp add: add.assoc)
    show ?thesis
    proof (cases "length inp < off + 2 + ?n")
      case True
      then show ?thesis using False n by (simp add: feed_at.simps [of "xs @ inp"] feed_at.simps [of inp] Let_def)
    next
      case l: False
      have "feed_at (xs @ inp) (length xs + (off + 2 + ?n)) =
        (map (\<lambda>(o1, n). (length xs + o1, n)) (fst (feed_at inp (off + 2 + ?n))), length xs + snd (feed_at inp (off + 2 + ?n)))"
        by (rule "1.IH" [OF False refl l])
      then show ?thesis using False l n
        by (simp add: feed_at.simps [of "xs @ inp" "length xs + off"] feed_at.simps [of inp off] Let_def add.assoc split: prod.split)
    qed
  qed
qed

text \<open>The recursive reading of \<open>Feed\<close>: a frame, then the rest.\<close>

lemma u16_feed_short: "length inp < 2 \<Longrightarrow> u16_feed inp = ([], inp)"
  by (simp add: u16_feed_def feed_at.simps)

lemma slice_of_shift: "slice_of (xs @ inp) (length xs + o1, n) = slice_of inp (o1, n)"
  by (simp add: slice_of_def)

lemma u16_feed_frame:
  "u16_feed (hi # lo # inp) =
    (if length inp < be_u16 hi lo then ([], hi # lo # inp)
     else (take (be_u16 hi lo) inp # fst (u16_feed (drop (be_u16 hi lo) inp)), snd (u16_feed (drop (be_u16 hi lo) inp))))"
proof (cases "length inp < be_u16 hi lo")
  case True
  then show ?thesis by (simp add: u16_feed_def feed_at.simps Let_def)
next
  case False
  let ?n = "be_u16 hi lo" and ?all = "hi # lo # inp"
  let ?xs = "hi # lo # take ?n inp"
  have split: "?all = ?xs @ drop ?n inp" "length ?xs = 2 + ?n" using False by simp_all
  have f: "feed_at ?all (2 + ?n) = (map (\<lambda>(o1, n). (2 + ?n + o1, n)) (fst (feed_at (drop ?n inp) 0)), 2 + ?n + snd (feed_at (drop ?n inp) 0))"
    using feed_at_shift [of ?xs "drop ?n inp" 0] unfolding split(1) [symmetric] split(2) by simp
  have s: "map (slice_of ?all) (map (\<lambda>(o1, n). (2 + ?n + o1, n)) fs) = map (slice_of (drop ?n inp)) fs" for fs
    using slice_of_shift [of ?xs "drop ?n inp"] unfolding split(1) [symmetric] split(2) by auto
  have "feed_at ?all 0 = ((2, ?n) # fst (feed_at ?all (2 + ?n)), snd (feed_at ?all (2 + ?n)))"
    using False by (subst feed_at.simps) (simp add: Let_def split: prod.split)
  then show ?thesis using False f s by (simp add: u16_feed_def slice_of_def add.commute)
qed

lemma u16_feed_append:
  "u16_feed (a @ b) = (fst (u16_feed a) @ fst (u16_feed (snd (u16_feed a) @ b)), snd (u16_feed (snd (u16_feed a) @ b)))"
proof (induction "length a" arbitrary: a rule: less_induct)
  case less
  show ?case
  proof (cases "length a < 2")
    case True
    then show ?thesis by (simp add: u16_feed_short)
  next
    case False
    then obtain hi lo inp where a: "a = hi # lo # inp" by (cases a; cases "tl a") auto
    show ?thesis
    proof (cases "length inp < be_u16 hi lo")
      case True
      then show ?thesis by (simp add: a u16_feed_frame)
    next
      case l: False
      let ?n = "be_u16 hi lo"
      have ih: "u16_feed (drop ?n inp @ b) = (fst (u16_feed (drop ?n inp)) @ fst (u16_feed (snd (u16_feed (drop ?n inp)) @ b)),
          snd (u16_feed (snd (u16_feed (drop ?n inp)) @ b)))"
        by (rule less) (simp add: a)
      have "u16_feed (a @ b) = (take ?n inp # fst (u16_feed (drop ?n inp @ b)), snd (u16_feed (drop ?n inp @ b)))"
        using l by (simp add: a u16_feed_frame)
      moreover have "u16_feed a = (take ?n inp # fst (u16_feed (drop ?n inp)), snd (u16_feed (drop ?n inp)))"
        using l by (simp add: a u16_feed_frame)
      ultimately show ?thesis unfolding ih by simp
    qed
  qed
qed

interpretation u16: framer u16_feed
  by unfold_locales (rule u16_feed_append, simp add: u16_feed_short)

section \<open>OnTraffic against the contract\<close>

text \<open>A read is quiet when it completes no frame or leaves at most two bytes over.\<close>

definition quiet_read :: "bytes \<Rightarrow> bool" where
  "quiet_read arr = (fst (u16_feed arr) = [] \<or> length (snd (u16_feed arr)) \<le> 2)"

fun quiet_reads :: "bytes \<Rightarrow> bytes list \<Rightarrow> bool" where
  "quiet_reads buf [] = True"
| "quiet_reads buf (c # cs) = ((c \<noteq> [] \<longrightarrow> quiet_read (buf @ c)) \<and> quiet_reads (snd (u16_feed (buf @ c))) cs)"

lemma feed_at_bounds:
  "off \<le> length inp \<Longrightarrow> off \<le> snd (feed_at inp off) \<and> snd (feed_at inp off) \<le> length inp \<and>
    (\<forall>f \<in> set (fst (feed_at inp off)). off + 2 \<le> fst f \<and> fst f + snd f \<le> snd (feed_at inp off))"
proof (induction inp off rule: feed_at.induct)
  case (1 inp off)
  let ?n = "be_u16 (inp ! off) (inp ! (off + 1))"
  show ?case
  proof (cases "length inp < off + 2 \<or> length inp < off + 2 + ?n")
    case True
    then show ?thesis using "1.prems" by (auto simp: feed_at.simps [of inp off] Let_def)
  next
    case False
    have ih: "off + 2 + ?n \<le> snd (feed_at inp (off + 2 + ?n)) \<and> snd (feed_at inp (off + 2 + ?n)) \<le> length inp \<and>
      (\<forall>f \<in> set (fst (feed_at inp (off + 2 + ?n))). off + 2 + ?n + 2 \<le> fst f \<and> fst f + snd f \<le> snd (feed_at inp (off + 2 + ?n)))"
      by (rule "1.IH") (use False in auto)
    have e: "feed_at inp off = ((off + 2, ?n) # fst (feed_at inp (off + 2 + ?n)), snd (feed_at inp (off + 2 + ?n)))"
      using False by (subst feed_at.simps) (simp add: Let_def split: prod.split)
    show ?thesis unfolding e using ih by fastforce
  qed
qed

lemma slice_of_overwritten:
  assumes "length r \<le> fst f"
  shows "slice_of (r @ drop (length r) arr) f = slice_of arr f"
  using assms by (simp add: slice_of_def)

lemma on_traffic_quiet:
  assumes "quiet_read (buf @ inp)" "inp \<noteq> []"
  shows "OnTraffic True buf inp = u16_feed (buf @ inp)"
proof -
  define arr where "arr = buf @ inp"
  obtain fs off where f: "feed_at arr 0 = (fs, off)" by fastforce
  let ?r = "drop off arr"
  have "slice_of (?r @ drop (length ?r) arr) s = slice_of arr s" if "s \<in> set fs" for s
  proof (rule slice_of_overwritten)
    have "length ?r \<le> 2" using assms(1) that f by (auto simp: quiet_read_def u16_feed_def arr_def [symmetric])
    moreover have "2 \<le> fst s" using feed_at_bounds [of 0 arr] that f by auto
    ultimately show "length ?r \<le> fst s" by simp
  qed
  then have "map (slice_of (?r @ drop (length ?r) arr)) fs = map (slice_of arr) fs" by (intro map_cong) simp_all
  then show ?thesis using assms(2) unfolding OnTraffic_def on_traffic_framed_def u16_feed_def arr_def [symmetric] f Let_def
    by simp
qed

lemma run_traffic_quiet:
  "quiet_reads buf cs \<Longrightarrow> u16_feed buf = ([], buf) \<Longrightarrow> run_traffic True buf cs = u16.feed_all buf cs"
proof (induction cs arbitrary: buf)
  case (Cons c cs)
  have o: "OnTraffic True buf c = u16_feed (buf @ c)"
  proof (cases "c = []")
    case True
    then show ?thesis using Cons.prems(2) by (simp add: OnTraffic_def on_traffic_framed_def)
  next
    case False
    then show ?thesis using Cons.prems(1) by (simp add: on_traffic_quiet)
  qed
  have ih: "run_traffic True (snd (u16_feed (buf @ c))) cs = u16.feed_all (snd (u16_feed (buf @ c))) cs"
    by (rule Cons.IH) (use Cons.prems(1) u16.feed_rest in auto)
  show ?case unfolding run_traffic.simps o Let_def by (simp only: split_beta ih u16.feed_all.simps)
qed simp

section \<open>A sender's frames\<close>

lemma be_u16_parts:
  assumes "n \<le> 65535"
  shows "be_u16 (of_nat (n div 256)) (of_nat (n mod 256)) = n"
proof -
  have "n div 256 < 256" using assms by simp
  then show ?thesis by (simp add: be_u16_def unat_of_nat take_bit_eq_mod)
qed

lemma tcp_frame_ok:
  "tcp_frame name True p = Inr f \<longleftrightarrow>
    length p \<le> 65535 \<and> f = of_nat (length p div 256) # of_nat (length p mod 256) # p"
  by (auto simp: tcp_frame_def Let_def)

lemma u16_feed_tcp_frame:
  assumes "tcp_frame name True p = Inr f"
  shows "u16_feed (f @ rest) = (p # fst (u16_feed rest), snd (u16_feed rest))"
  using assms by (simp add: tcp_frame_ok u16_feed_frame be_u16_parts)

lemma u16_feed_frames:
  "map (tcp_frame name True) ps = map Inr fs \<Longrightarrow> u16_feed (concat fs) = (ps, [])"
proof (induction ps arbitrary: fs)
  case Nil
  then show ?case by (simp add: u16_feed_short)
next
  case (Cons p ps)
  then obtain f fs' where "fs = f # fs'" "tcp_frame name True p = Inr f" "map (tcp_frame name True) ps = map Inr fs'"
    by (cases fs) auto
  then show ?case using Cons.IH [of fs'] by (simp add: u16_feed_tcp_frame)
qed

section \<open>Properties\<close>

text \<open>\<open>U16BEFramer\<close> inverts the sender: the frames that \<open>GnetTCPSender\<close> writes for a list of payloads,
  however the network cuts them into reads, come out of \<open>OnTraffic\<close> as the packets with exactly those
  payloads in that order, and nothing stays in the buffer; provided that every read that completes a
  frame leaves at most two bytes of the next one.\<close>

theorem tcp_framing_roundtrip:
  assumes "map (tcp_frame name True) ps = map Inr fs" "concat reads = concat fs" "quiet_reads [] reads"
  shows "run_traffic True [] reads = (ps, [])"
  using run_traffic_quiet [OF assms(3) u16.feed_Nil] u16.feed_all_concat [OF u16.feed_Nil, of reads]
    u16_feed_frames [OF assms(1)] assms(2) by simp

theorem tcp_framing_roundtrip_witness:
  "run_traffic True [] [[0], [2, 7, 8, 0], [1], [9]] = ([[7, 8], [9]], [])"
  by (rule tcp_framing_roundtrip [where name = "''s''" and fs = "[[0, 2, 7, 8], [0, 1, 9]]"])
    (simp_all add: tcp_frame_def quiet_read_def u16_feed_frame u16_feed_short be_u16_def)

text \<open>Cutting the stream differently never changes what the framer finds: feeding the reads one by one,
  the rest of each put before the next, gives the frames and the rest of feeding the whole stream at once.\<close>

theorem feed_chunk_independent:
  "u16.feed_all [] reads =
    (map (slice_of (concat reads)) (fst (feed_at (concat reads) 0)), drop (snd (feed_at (concat reads) 0)) (concat reads))"
  using u16.feed_all_concat [OF u16.feed_Nil, of reads] by (simp add: u16_feed_def)

text \<open>What the first frame of a read becomes when \<open>r\<close> is moved to the front of the buffer before the frame is copied out.\<close>

lemma on_traffic_first:
  assumes "u16_feed (buf @ inp) = (p # ps, r)" "inp \<noteq> []"
  shows "\<exists>ps'. OnTraffic True buf inp = ((take (length p) (drop 2 r) @ drop (length r - 2) p) # ps', r) \<and> length ps' = length ps"
proof -
  define arr where "arr = buf @ inp"
  obtain fs off where f: "feed_at arr 0 = (fs, off)" by fastforce
  have u: "map (slice_of arr) fs = p # ps" "r = drop off arr" using assms(1) f unfolding arr_def [symmetric] by (simp_all add: u16_feed_def)
  have "fs \<noteq> []" using u(1) by auto
  moreover from this have "\<not> length arr < 2" using f by (auto simp: feed_at.simps [of arr 0])
  ultimately obtain fs' where fs: "fs = (2, be_u16 (arr ! 0) (arr ! 1)) # fs'"
    using f by (subst (asm) feed_at.simps) (auto simp: Let_def split: if_splits prod.splits)
  define n where "n = be_u16 (arr ! 0) (arr ! 1)"
  have "2 + n \<le> length arr" using feed_at_bounds [of 0 arr] f fs by (auto simp: n_def)
  then have p: "p = take n (drop 2 arr)" "length p = n" using u(1) fs by (auto simp: slice_of_def n_def)
  have "slice_of (r @ drop (length r) arr) (2, n) = take n (drop 2 r) @ drop (length r - 2) p"
  proof (cases "length r < 2")
    case False
    then have "Suc (Suc (length r - 2)) = length r" by simp
    then show ?thesis using False by (simp add: slice_of_def p(1) drop_take)
  qed (simp add: slice_of_def p(1) drop_take)
  then show ?thesis using assms(2) f fs u p(2) unfolding OnTraffic_def on_traffic_framed_def arr_def [symmetric] Let_def n_def by auto
qed

text \<open>C29: when a read hands out its frames intact and when it corrupts them. \<open>Feed\<close> returns slices of the connection buffer, and
  \<open>OnTraffic\<close> moves the unfinished rest \<open>r\<close> of the read to the front of that buffer before it copies the slices out. So
  for every buffer and every read that completes the frames of \<open>p\<close> and \<open>ps\<close> (as the sender writes them) and ends in \<open>r\<close>, a
  part of the next frame: the framer finds exactly \<open>p\<close> and \<open>ps\<close>, but the first packet made is the payload of \<open>r\<close> so far,
  written over the front of \<open>p\<close>; it is \<open>p\<close> exactly when those bytes happen to be the same (in particular when \<open>r\<close> is no
  longer than its length field). This is the defect behind the proviso of the round trip.\<close>

theorem on_traffic_corrupts_frame:
  assumes "map (tcp_frame name True) (p # ps) = map Inr fs" "buf @ inp = concat fs @ r" "u16_feed r = ([], r)" "inp \<noteq> []"
  shows "u16_feed (buf @ inp) = (p # ps, r) \<and>
    (\<exists>p' ps'. OnTraffic True buf inp = (p' # ps', r) \<and> length ps' = length ps \<and>
       p' = take (length p) (drop 2 r) @ drop (length r - 2) p \<and> (p' = p \<longleftrightarrow> take (length p) (drop 2 r) = take (length r - 2) p))"
proof -
  have u: "u16_feed (buf @ inp) = (p # ps, r)"
    using u16_feed_append [of "concat fs" r] u16_feed_frames [OF assms(1)] assms(2,3) by simp
  obtain ps' where o: "OnTraffic True buf inp = ((take (length p) (drop 2 r) @ drop (length r - 2) p) # ps', r)" "length ps' = length ps"
    using on_traffic_first [OF u assms(4)] by blast
  have "take (length p) (drop 2 r) @ drop (length r - 2) p = p \<longleftrightarrow> take (length p) (drop 2 r) = take (length r - 2) p"
    using append_take_drop_id [of "length r - 2" p] by (metis append_same_eq)
  then show ?thesis using u o by blast
qed

text \<open>One read holds the frame of \<open>a b c\<close> and the first four bytes of the next frame: the packet is \<open>x y c\<close>.\<close>

theorem on_traffic_corrupts_frame_witness:
  "u16_feed [0, 3, 10, 11, 12, 0, 5, 20, 21] = ([[10, 11, 12]], [0, 5, 20, 21]) \<and>
    OnTraffic True [] [0, 3, 10, 11, 12, 0, 5, 20, 21] = ([[20, 21, 12]], [0, 5, 20, 21])"
  using on_traffic_corrupts_frame [where name = "''s''" and p = "[10, 11, 12]" and ps = "[]" and fs = "[[0, 3, 10, 11, 12]]" and buf = "[]"
      and inp = "[0, 3, 10, 11, 12, 0, 5, 20, 21]" and r = "[0, 5, 20, 21]"]
  by (simp add: tcp_frame_def u16_feed_frame u16_feed_short be_u16_def)

end
