(* ===== verification/FilePath.thy ===== *)
theory FilePath
  imports GoPath Packet
begin

text \<open>
  The target path of a file: \<open>src/src/sender/file_path.go\<close> (SFTP) and \<open>ossObjectKey\<close> of
  \<open>src/src/sender/oss.go\<close>. The lemmas read a path as its list of components; a path is safe when
  all its components are plain, that is not empty, not dot and not dot-dot.
\<close>

section \<open>file_path.go\<close>

definition pathBase :: "string \<Rightarrow> string" where
  "pathBase v = (let b = path_base (trim_space v) in if b = ''.'' \<or> b = ''/'' then [] else b)"

definition backslash :: char where "backslash = CHR 92"

text \<open>\<open>strings.ReplaceAll(s, "\\", "/")\<close>: both strings are one byte.\<close>

definition to_slashes :: "string \<Rightarrow> string" where
  "to_slashes s = map (\<lambda>c. if c = backslash then slash else c) s"

definition safeRelativePath :: "string \<Rightarrow> string result" where
  "safeRelativePath v0 =
     (let v = to_slashes (trim_space v0) in
      if ''..'' \<in> set (split_on slash v) then Inl (Errorf ''unsafe path %q'' [AStr v])
      else let r = trim_prefix (path_clean (slash # trim_prefix v ''/'')) ''/'' in
        if r = ''.'' \<or> r = [] then Inl (Errorf ''empty path'' [])
        else if r = ''..'' \<or> has_prefix r ''../'' \<or> contains r ''/../'' then Inl (Errorf ''unsafe path %q'' [AStr r])
        else Inr r)"

definition applyTargetFileName :: "string \<Rightarrow> string \<Rightarrow> string" where
  "applyTargetFileName rel targetName0 =
     (let targetName = pathBase targetName0 in
      if targetName = [] then rel
      else let dir = path_dir rel in
        if dir = ''.'' \<or> dir = ''/'' \<or> dir = [] then targetName else path_join dir targetName)"

definition first_nonempty :: "string list \<Rightarrow> string" where
  "first_nonempty ss = (case List.find (\<lambda>s. s \<noteq> []) ss of None \<Rightarrow> [] | Some s \<Rightarrow> s)"

definition sftpFinalPath :: "string \<Rightarrow> packet \<Rightarrow> string \<Rightarrow> string result" where
  "sftpFinalPath remoteDir p transferID =
     (let candidate = first_nonempty [trim_space (TargetFilePath (Meta p)), trim_space (FilePath (Meta p)),
            trim_space (FileName (Meta p)), transferID @ ''.bin'']
      in case safeRelativePath candidate of
           Inl e \<Rightarrow> Inl e
         | Inr rel \<Rightarrow>
             (let rel' = (if TargetFilePath (Meta p) = [] \<and> trim_space (TargetFileName (Meta p)) \<noteq> []
                          then applyTargetFileName rel (TargetFileName (Meta p)) else rel)
              in Inr (path_join remoteDir rel')))"

section \<open>ossObjectKey\<close>

definition safeOptionalPrefix :: "string \<Rightarrow> string result" where
  "safeOptionalPrefix pre = (if trim_space pre = [] then Inr [] else safeRelativePath pre)"

definition ossObjectKey :: "string \<Rightarrow> packet \<Rightarrow> string result" where
  "ossObjectKey keyPrefix p =
     (if trim_space (TargetFilePath (Meta p)) \<noteq> [] then
        (case safeRelativePath (TargetFilePath (Meta p)) of
           Inl e \<Rightarrow> Inl (Errorf ''oss sender invalid target_file_path: %w'' [AErr e])
         | Inr key \<Rightarrow> Inr key)
      else let src = first_nonempty [trim_space (FilePath (Meta p)), trim_space (FileName (Meta p))] in
        if src = [] then Inl (Errorf ''oss sender cannot build empty object key'' [])
        else (case safeRelativePath src of
                Inl e \<Rightarrow> Inl (Errorf ''oss sender invalid source path: %w'' [AErr e])
              | Inr rel0 \<Rightarrow>
                  (let rel = (if trim_space (TargetFileName (Meta p)) \<noteq> []
                              then applyTargetFileName rel0 (TargetFileName (Meta p)) else rel0)
                   in case safeOptionalPrefix keyPrefix of
                        Inl e \<Rightarrow> Inl e
                      | Inr pre \<Rightarrow>
                          (let key = (if pre \<noteq> [] then pre @ slash # rel else rel)
                           in if key = [] then Inl (Errorf ''oss sender cannot build empty object key'' []) else Inr key))))"

section \<open>Lemmas\<close>

definition safe_comps :: "string list \<Rightarrow> bool" where
  "safe_comps ws = (ws \<noteq> [] \<and> list_all (\<lambda>w. plain w \<and> slash \<notin> set w) ws)"

lemma safe_comps_append: "safe_comps as \<Longrightarrow> safe_comps bs \<Longrightarrow> safe_comps (as @ bs)"
  by (simp add: safe_comps_def)

lemma safe_compsD: "safe_comps ws \<Longrightarrow> ws \<noteq> [] \<and> (\<forall>w \<in> set ws. plain w \<and> slash \<notin> set w)"
  by (simp add: safe_comps_def list_all_iff)

lemma safe_comps_filter:
  "filter plain (split_on slash v) \<noteq> [] \<Longrightarrow> safe_comps (filter plain (split_on slash v))"
  by (auto simp: safe_comps_def list_all_iff dest: split_on_no_sep)

lemma join_safe_nonempty: "safe_comps ws \<Longrightarrow> join_with slash ws \<noteq> []"
  by (auto simp: safe_comps_def join_with_Nil_iff)

lemma split_join_safe: "safe_comps ws \<Longrightarrow> split_on slash (join_with slash ws) = ws"
  by (rule split_join_plain) (simp_all add: safe_compsD)

lemma join_safe_not_dots:
  assumes "safe_comps ws"
  shows "join_with slash ws \<noteq> ''.''" "join_with slash ws \<noteq> ''..''"
proof -
  have "join_with slash ws \<noteq> v" if "\<not> plain v" "slash \<notin> set v" for v
  proof
    assume "join_with slash ws = v"
    then have "ws = [v]" using split_join_safe [OF assms] split_on_word [OF that(2)] by simp
    then show False using assms that(1) by (simp add: safe_comps_def)
  qed
  then show "join_with slash ws \<noteq> ''.''" "join_with slash ws \<noteq> ''..''" by simp_all
qed

lemma contains_dotdot_split: "contains r ''/../'' \<Longrightarrow> ''..'' \<in> set (split_on slash r)"
proof -
  assume "contains r ''/../''"
  then obtain a b where "r = a @ slash # ''..'' @ slash # b"
    by (auto simp: contains_iff sublist_def)
  then show ?thesis by (simp add: split_on_append_gen split_on_append)
qed

lemma prefix_dotdot_split: "has_prefix r ''../'' \<Longrightarrow> ''..'' \<in> set (split_on slash r)"
proof -
  assume "has_prefix r ''../''"
  then obtain b where "r = ''..'' @ slash # b" by (auto simp: has_prefix_iff prefix_def)
  then show ?thesis by (simp add: split_on_append)
qed

lemma trim_prefix_slash_comps: "filter plain (split_on slash (trim_prefix v ''/'')) = filter plain (split_on slash v)"
  by (cases v) (auto simp: trim_prefix_def)

lemma trim_prefix_slash_dots:
  "''..'' \<notin> set (split_on slash v) \<Longrightarrow> ''..'' \<notin> set (split_on slash (trim_prefix v ''/''))"
  by (cases v) (auto simp: trim_prefix_def split: if_splits)

text \<open>\<open>safeRelativePath\<close> refuses dot-dot and keeps the plain components.\<close>

lemma safeRelativePath_ok:
  "safeRelativePath v0 = Inr r \<longleftrightarrow>
    (let ws = split_on slash (to_slashes (trim_space v0)) in
      ''..'' \<notin> set ws \<and> filter plain ws \<noteq> [] \<and> r = join_with slash (filter plain ws))"
proof -
  let ?v = "to_slashes (trim_space v0)"
  show ?thesis
  proof (cases "''..'' \<in> set (split_on slash ?v)")
    case False
    let ?ws = "filter plain (split_on slash ?v)"
    have c: "trim_prefix (path_clean (slash # trim_prefix ?v ''/'')) ''/'' = join_with slash ?ws"
      by (simp add: path_clean_rooted clean_comps_nodots [OF trim_prefix_slash_dots [OF False]] trim_prefix_slash_comps)
        (simp add: trim_prefix_def)
    show ?thesis
    proof (cases "?ws = []")
      case True
      then show ?thesis using False by (simp add: safeRelativePath_def Let_def c)
    next
      case ne: False
      note s = safe_comps_filter [OF ne]
      have nd: "''..'' \<notin> set (split_on slash (join_with slash ?ws))"
        using split_join_safe [OF s] not_plain_dots(3) by simp
      have "\<not> has_prefix (join_with slash ?ws) ''../''" "\<not> contains (join_with slash ?ws) ''/../''"
        using nd prefix_dotdot_split contains_dotdot_split by blast+
      then show ?thesis using False ne join_safe_nonempty [OF s] join_safe_not_dots [OF s]
        by (auto simp: safeRelativePath_def Let_def c)
    qed
  qed (simp add: safeRelativePath_def Let_def)
qed

lemma safeRelativePath_safe: "safeRelativePath v = Inr r \<Longrightarrow> \<exists>ws. safe_comps ws \<and> r = join_with slash ws"
  by (auto simp: safeRelativePath_ok Let_def intro!: exI safe_comps_filter)

lemma path_clean_safe:
  assumes "safe_comps ws"
  shows "path_clean (join_with slash ws) = join_with slash ws"
proof -
  have "''..'' \<notin> set ws" using safe_compsD [OF assms] not_plain_dots(3) by blast
  moreover have "filter plain ws = ws" using safe_compsD [OF assms] by (simp add: filter_id_conv)
  moreover have "\<not> rooted (join_with slash ws)"
    using hd_join_plain [of ws] safe_compsD [OF assms] by (simp add: rooted_def)
  ultimately show ?thesis using safe_compsD [OF assms] join_safe_nonempty [OF assms]
    by (simp add: path_clean_def split_join_safe [OF assms] clean_comps_nodots)
qed

lemma join_with_append: "as \<noteq> [] \<Longrightarrow> bs \<noteq> [] \<Longrightarrow> join_with sep (as @ bs) = join_with sep as @ sep # join_with sep bs"
proof (induction as)
  case (Cons a as)
  then show ?case by (cases as; cases bs) auto
qed simp

text \<open>The directory of a safe path: all but the last component, or dot.\<close>

lemma path_dir_safe:
  assumes "safe_comps (ws @ [w])"
  shows "path_dir (join_with slash (ws @ [w])) = (if ws = [] then ''.'' else join_with slash ws)"
proof -
  have w: "slash \<notin> set w" using assms by (simp add: safe_comps_def)
  have d: "dropWhile (\<lambda>c. c \<noteq> slash) (rev w @ slash # t) = slash # t" "dropWhile (\<lambda>c. c \<noteq> slash) (rev w) = []" for t
    using w by (induction w arbitrary: t rule: rev_induct) auto
  show ?thesis
  proof (cases "ws = []")
    case True
    then show ?thesis by (simp add: path_dir_def d path_clean_def)
  next
    case False
    have s: "safe_comps ws" using assms False by (simp add: safe_comps_def)
    have nd: "''..'' \<notin> set ws" using safe_compsD [OF s] not_plain_dots(3) by blast
    have f: "filter plain ws = ws" using safe_compsD [OF s] by (simp add: filter_id_conv)
    have "\<not> rooted (join_with slash ws @ ''/'')"
      using hd_join_plain [of ws] safe_compsD [OF s] join_safe_nonempty [OF s]
      by (cases "join_with slash ws") (auto simp: rooted_def)
    moreover have "split_on slash (join_with slash ws @ ''/'') = ws @ [[]]"
      using split_on_append_gen [of slash "join_with slash ws" "[]"] by (simp add: split_join_safe [OF s])
    ultimately have "path_clean (join_with slash ws @ ''/'') = join_with slash ws"
      using False nd f by (simp add: path_clean_def clean_comps_nodots)
    then show ?thesis using False by (simp add: path_dir_def join_with_append d)
  qed
qed

lemma pathBase_plain:
  assumes "pathBase v \<noteq> []" "pathBase v \<noteq> ''..''"
  shows "plain (pathBase v) \<and> slash \<notin> set (pathBase v)"
  using assms path_base_no_slash [of "trim_space v"] by (auto simp: pathBase_def plain_def Let_def split: if_splits)

lemma applyTargetFileName_safe:
  assumes "safe_comps ws" "pathBase name \<noteq> ''..''"
  shows "\<exists>vs. safe_comps vs \<and> applyTargetFileName (join_with slash ws) name = join_with slash vs \<and>
    (pathBase name = [] \<longrightarrow> vs = ws) \<and> (pathBase name \<noteq> [] \<longrightarrow> vs = butlast ws @ [pathBase name])"
proof (cases "pathBase name = []")
  case True
  then show ?thesis using assms by (auto simp: applyTargetFileName_def)
next
  case False
  let ?n = "pathBase name"
  note n = pathBase_plain [OF False assms(2)]
  obtain us u where ws: "ws = us @ [u]" using safe_compsD [OF assms(1)] by (cases ws rule: rev_cases) auto
  note d = path_dir_safe [of us u, folded ws, OF assms(1)]
  have "applyTargetFileName (join_with slash ws) name = join_with slash (us @ [?n])"
  proof (cases "us = []")
    case True
    then show ?thesis using False d by (simp add: applyTargetFileName_def)
  next
    case ne: False
    have s: "safe_comps us" using assms(1) ws ne by (simp add: safe_comps_def)
    have nslash: "join_with slash us \<noteq> ''/''"
      using hd_join_plain [of us] safe_compsD [OF s] by auto
    have "path_join (join_with slash us) ?n = join_with slash (us @ [?n])"
    proof -
      have u: "safe_comps (us @ [?n])" using s n by (simp add: safe_comps_def)
      have "path_join (join_with slash us) ?n = path_clean (join_with slash (us @ [?n]))"
        using join_safe_nonempty [OF s] ne by (simp add: path_join_def join_with_append)
      then show ?thesis using path_clean_safe [OF u] by simp
    qed
    then show ?thesis using False ne d nslash join_safe_nonempty [OF s] join_safe_not_dots [OF s]
      by (simp add: applyTargetFileName_def)
  qed
  moreover have "safe_comps (us @ [?n])" using assms(1) ws n by (simp add: safe_comps_def)
  ultimately show ?thesis using ws False by auto
qed

section \<open>Properties\<close>

text \<open>C38: the path the SFTP sender writes to lies below its remote directory (which is not blank, the
  constructor sees to that): whenever \<open>sftpFinalPath\<close> gives a path, it is the cleaned remote directory followed
  by at least one plain component (not empty, no dot, no dot-dot, no slash), so no source path, target path, name
  or transfer id can leave the directory. The one excluded case is a target file name whose base is dot-dot,
  with which the path does leave it (\<open>sftp_path_escapes\<close>).\<close>

theorem sftp_path_stays_below:
  assumes "sftpFinalPath remoteDir p tid = Inr f" "remoteDir \<noteq> []" "pathBase (TargetFileName (Meta p)) \<noteq> ''..''"
  shows "\<exists>ws. safe_comps ws \<and>
    f = (if rooted remoteDir then ''/'' else []) @ join_with slash (path_comps remoteDir @ ws)"
proof -
  obtain c rel rel' where r: "safeRelativePath c = Inr rel" "f = path_join remoteDir rel'"
    "rel' = rel \<or> rel' = applyTargetFileName rel (TargetFileName (Meta p))"
    using assms(1) by (auto simp: sftpFinalPath_def Let_def split: sum.splits if_splits)
  obtain ws where ws: "safe_comps ws" "rel = join_with slash ws" using safeRelativePath_safe [OF r(1)] by blast
  obtain vs where vs: "safe_comps vs" "rel' = join_with slash vs"
    using r(3) ws applyTargetFileName_safe [OF ws(1) assms(3)] by auto
  have "f = (if rooted remoteDir then ''/'' else []) @ join_with slash (path_comps remoteDir @ vs)"
    using path_comps_join [of vs remoteDir] safe_compsD [OF vs(1)] assms(2) r(2) vs(2) by simp
  then show ?thesis using vs(1) by blast
qed

definition path_packet :: "string \<Rightarrow> string \<Rightarrow> packet" where
  "path_packet file target =
     \<lparr>Kind = PayloadKindFileChunk, Meta = zero_meta\<lparr>FilePath := file, TargetFileName := target\<rparr>, Payload = [], ReleaseFn = None, paddr = 0\<rparr>"

lemma path_samples:
  "sftpFinalPath ''/in'' (path_packet ''a/./b'' ''c'') ''t'' = Inr ''/in/a/c''"
  "pathBase (TargetFileName (Meta (path_packet ''a/./b'' ''c''))) \<noteq> ''..''"
  by code_simp+

theorem sftp_path_stays_below_witness:
  "\<exists>ws. safe_comps ws \<and>
    ''/in/a/c'' = (if rooted ''/in'' then ''/'' else []) @ join_with slash (path_comps ''/in'' @ ws)"
  by (rule sftp_path_stays_below [OF path_samples(1) _ path_samples(2)]) simp

text \<open>The excluded case is real: a target file name whose base is dot-dot leaves the remote directory,
  because \<open>applyTargetFileName\<close> joins it after \<open>safeRelativePath\<close> has checked the path.\<close>

theorem sftp_path_escapes:
  "sftpFinalPath ''/in/up'' (path_packet ''a'' ''..'') ''t'' = Inr ''/in'' \<and>
   sftpFinalPath ''/in/up'' (path_packet ''a'' ''x/..'') ''t'' = Inr ''/in'' \<and>
   ossObjectKey [] (path_packet ''a'' ''..'') = Inr ''..''"
  by code_simp

text \<open>an OSS object key has only plain components: it is relative, without empty, dot or dot-dot
  parts, whatever the prefix, the source path and the target path are; a target file path is taken as
  it is (cleaned), and otherwise the key begins with the cleaned prefix.\<close>

theorem oss_key_is_safe:
  assumes "ossObjectKey pre p = Inr key" "pathBase (TargetFileName (Meta p)) \<noteq> ''..''"
  shows "safe_comps (split_on slash key) \<and>
    (trim_space (TargetFilePath (Meta p)) = [] \<and> trim_space pre \<noteq> [] \<longrightarrow>
      (\<exists>ws. safe_comps ws \<and> split_on slash key = filter plain (split_on slash (to_slashes (trim_space pre))) @ ws))"
proof (cases "trim_space (TargetFilePath (Meta p)) = []")
  case False
  then have "safeRelativePath (TargetFilePath (Meta p)) = Inr key"
    using assms(1) by (auto simp: ossObjectKey_def split: sum.splits)
  then show ?thesis using False safeRelativePath_safe split_join_safe by metis
next
  case True
  let ?src = "first_nonempty [trim_space (FilePath (Meta p)), trim_space (FileName (Meta p))]"
  define rel where "rel = (if trim_space (TargetFileName (Meta p)) \<noteq> []
    then applyTargetFileName (projr (safeRelativePath ?src)) (TargetFileName (Meta p)) else projr (safeRelativePath ?src))"
  have "\<exists>rel0 pre'. safeRelativePath ?src = Inr rel0 \<and> safeOptionalPrefix pre = Inr pre' \<and>
      key = (if pre' \<noteq> [] then pre' @ slash # rel else rel)"
    using assms(1) True unfolding ossObjectKey_def Let_def rel_def
    by (cases "safeRelativePath ?src"; cases "safeOptionalPrefix pre") (simp_all split: if_splits)
  then obtain rel0 pre' where r: "safeRelativePath ?src = Inr rel0" "safeOptionalPrefix pre = Inr pre'"
    "rel = rel0 \<or> rel = applyTargetFileName rel0 (TargetFileName (Meta p))"
    "key = (if pre' \<noteq> [] then pre' @ slash # rel else rel)" by (auto simp: rel_def)
  obtain ws where ws: "safe_comps ws" "rel0 = join_with slash ws" using safeRelativePath_safe [OF r(1)] by blast
  obtain vs where vs: "safe_comps vs" "rel = join_with slash vs"
    using r(3) ws applyTargetFileName_safe [OF ws(1) assms(2)] by auto
  show ?thesis
  proof (cases "trim_space pre = []")
    case True
    then have "key = rel" using r(2,4) by (simp add: safeOptionalPrefix_def)
    then show ?thesis using True vs split_join_safe by simp
  next
    case False
    let ?ps = "filter plain (split_on slash (to_slashes (trim_space pre)))"
    have p: "?ps \<noteq> []" "pre' = join_with slash ?ps"
      using False r(2) by (auto simp: safeOptionalPrefix_def safeRelativePath_ok Let_def)
    note s = safe_comps_filter [OF p(1)]
    have "key = join_with slash (?ps @ vs)"
      using r(4) p vs join_safe_nonempty [OF s] safe_compsD [OF vs(1)] by (simp add: join_with_append)
    then have "split_on slash key = ?ps @ vs" using split_join_safe [OF safe_comps_append [OF s vs(1)]] by simp
    then show ?thesis using safe_comps_append [OF s vs(1)] vs(1) by auto
  qed
qed

theorem oss_key_is_safe_witness:
  "safe_comps (split_on slash ''p/a/c'')"
proof -
  have k: "ossObjectKey '' /p/ '' (path_packet ''a/b'' ''c'') = Inr ''p/a/c''" by code_simp
  have n: "pathBase (TargetFileName (Meta (path_packet ''a/b'' ''c''))) \<noteq> ''..''" by code_simp
  show ?thesis using oss_key_is_safe [OF k n] by blast
qed

end
