(* ===== verification/Ranges.thy ===== *)
theory Ranges
  imports GoLib
begin

text \<open>
  The byte ranges of a file transfer (\<open>src/src/sender/sftp.go\<close>): \<open>fileRange\<close>, \<open>sftpTransferState\<close>,
  \<open>addRange\<close> and \<open>readyToCommit\<close>. The OSS sender uses the same \<open>addRange\<close>. The lemmas read the list of
  ranges as the set of offsets it covers.
\<close>

section \<open>Ranges and the transfer state\<close>

record file_range =
  fr_start :: int
  fr_end :: int

record sftp_transfer_state =
  sf_tempPath :: string
  sf_finalPath :: string
  sf_totalSize :: int
  sf_eofSeen :: bool
  sf_coveredBytes :: int
  sf_ranges :: "file_range list"

section \<open>addRange\<close>

text \<open>The loop over the ranges: \<open>merged\<close>, \<open>newRange\<close> and \<open>inserted\<close> are the variables of the code.\<close>

fun add_range_loop :: "file_range list \<Rightarrow> file_range list \<Rightarrow> file_range \<Rightarrow> bool \<Rightarrow> file_range list \<times> file_range \<times> bool" where
  "add_range_loop [] merged newRange inserted = (merged, newRange, inserted)"
| "add_range_loop (cur # curs) merged newRange inserted =
     (if fr_end cur < fr_start newRange then add_range_loop curs (merged @ [cur]) newRange inserted
      else if fr_end newRange < fr_start cur then
        (if inserted then add_range_loop curs (merged @ [cur]) newRange True
         else add_range_loop curs (merged @ [newRange, cur]) newRange True)
      else add_range_loop curs merged
        \<lparr>fr_start = (if fr_start cur < fr_start newRange then fr_start cur else fr_start newRange),
         fr_end = (if fr_end cur > fr_end newRange then fr_end cur else fr_end newRange)\<rparr> inserted)"

definition range_sum :: "file_range list \<Rightarrow> int" where
  "range_sum rs = sum_list (map (\<lambda>r. fr_end r - fr_start r) rs)"

definition add_range :: "file_range list \<times> int \<Rightarrow> int \<Rightarrow> int \<Rightarrow> file_range list \<times> int" where
  "add_range rc s e =
     (if e \<le> s then rc
      else let newRange = \<lparr>fr_start = s, fr_end = e\<rparr> in
        if fst rc = [] then ([newRange], snd rc + (e - s))
        else let (merged, n, inserted) = add_range_loop (fst rc) [] newRange False;
                 merged' = (if inserted then merged else merged @ [n])
             in (merged', range_sum merged'))"

definition sftp_addRange :: "sftp_transfer_state \<Rightarrow> int \<Rightarrow> int \<Rightarrow> sftp_transfer_state" where
  "sftp_addRange st s e =
     (let rc = add_range (sf_ranges st, sf_coveredBytes st) s e in st\<lparr>sf_ranges := fst rc, sf_coveredBytes := snd rc\<rparr>)"

section \<open>readyToCommit\<close>

definition readyToCommit :: "sftp_transfer_state \<Rightarrow> bool" where
  "readyToCommit st =
     (if \<not> sf_eofSeen st then False
      else if sf_totalSize st \<le> 0 then length (sf_ranges st) = 1
      else if sf_coveredBytes st < sf_totalSize st then False
      else length (sf_ranges st) = 1 \<and> fr_start (sf_ranges st ! 0) = 0 \<and> fr_end (sf_ranges st ! 0) \<ge> sf_totalSize st)"

section \<open>Well-formed ranges and what they cover\<close>

text \<open>Sorted, not empty and with a gap between neighbours.\<close>

fun gapped :: "int \<Rightarrow> file_range list \<Rightarrow> bool" where
  "gapped b [] = True"
| "gapped b (r # rs) = (b < fr_start r \<and> fr_start r < fr_end r \<and> gapped (fr_end r) rs)"

definition ranges_ok :: "file_range list \<Rightarrow> bool" where
  "ranges_ok rs = (case rs of [] \<Rightarrow> True | r # rs' \<Rightarrow> fr_start r < fr_end r \<and> gapped (fr_end r) rs')"

definition covered :: "file_range list \<Rightarrow> int set" where
  "covered rs = (\<Union>r \<in> set rs. {fr_start r ..< fr_end r})"

lemma covered_simps [simp]:
  "covered [] = {}" "covered (r # rs) = {fr_start r ..< fr_end r} \<union> covered rs" "covered (as @ bs) = covered as \<union> covered bs"
  by (auto simp: covered_def)

lemma ranges_ok_gapped: "ranges_ok rs \<longleftrightarrow> (\<exists>b. gapped b rs)"
  by (cases rs) (auto simp: ranges_ok_def intro: exI [of _ "fr_start (hd rs) - 1"])

lemma ranges_ok_gappedI: "gapped b rs \<Longrightarrow> ranges_ok rs"
  by (auto simp: ranges_ok_gapped)

lemma gapped_mono: "gapped b rs \<Longrightarrow> b' \<le> b \<Longrightarrow> gapped b' rs"
  by (cases rs) auto

lemma gapped_above: "gapped b rs \<Longrightarrow> x \<in> covered rs \<Longrightarrow> b < x"
  by (induction rs arbitrary: b) (fastforce)+

lemma gapped_append:
  "gapped b (as @ [r]) \<Longrightarrow> gapped (fr_end r) bs \<Longrightarrow> gapped b (as @ r # bs)"
  by (induction as arbitrary: b) auto

lemma gapped_snoc: "gapped b (as @ [r]) \<longleftrightarrow> gapped b as \<and> (\<forall>a \<in> set as. fr_end a < fr_start r) \<and> b < fr_start r \<and> fr_start r < fr_end r"
  by (induction as arbitrary: b) fastforce+

lemma range_sum_card: "gapped b rs \<Longrightarrow> range_sum rs = int (card (covered rs))"
proof (induction rs arbitrary: b)
  case (Cons r rs)
  have fin: "finite (covered rs)" by (simp add: covered_def)
  have "{fr_start r ..< fr_end r} \<inter> covered rs = {}"
    using gapped_above [of "fr_end r" rs] Cons.prems by fastforce
  then have "card (covered (r # rs)) = card {fr_start r ..< fr_end r} + card (covered rs)"
    using fin by (simp add: card_Un_disjoint)
  then show ?case using Cons by (auto simp: range_sum_def)
qed (simp add: range_sum_def)

text \<open>The loop once the new range is in: the rest is copied.\<close>

lemma loop_inserted:
  "gapped b curs \<Longrightarrow> fr_end n \<le> b \<Longrightarrow> fr_start n < fr_end n \<Longrightarrow>
    add_range_loop curs merged n True = (merged @ curs, n, True)"
proof (induction curs arbitrary: b merged)
  case (Cons c cs)
  have "\<not> fr_end c < fr_start n" "fr_end n < fr_start c" using Cons.prems by auto
  moreover have "add_range_loop cs (merged @ [c]) n True = ((merged @ [c]) @ cs, n, True)"
    by (rule Cons.IH [of "fr_end c"]) (use Cons.prems in auto)
  ultimately show ?case by simp
qed simp

lemma loop_merges:
  assumes "gapped b curs" "fr_start n < fr_end n" "gapped b0 merged"
    "\<forall>m \<in> set merged. fr_end m < fr_start n \<and> fr_end m \<le> b" "b0 < fr_start n" "b0 \<le> b"
    "add_range_loop curs merged n False = (out, n', ins)"
  shows "gapped b0 (if ins then out else out @ [n']) \<and>
    covered (if ins then out else out @ [n']) = covered merged \<union> covered curs \<union> {fr_start n ..< fr_end n}"
  using assms
proof (induction curs arbitrary: b merged n)
  case Nil
  then show ?case by (auto simp: gapped_snoc)
next
  case (Cons c cs)
  have c: "b < fr_start c" "fr_start c < fr_end c" "gapped (fr_end c) cs" using Cons.prems(1) by auto
  consider (before) "fr_end c < fr_start n" | (after) "\<not> fr_end c < fr_start n" "fr_end n < fr_start c"
    | (touch) "\<not> fr_end c < fr_start n" "\<not> fr_end n < fr_start c" by blast
  then show ?case
  proof cases
    case before
    have "gapped b0 (if ins then out else out @ [n']) \<and>
      covered (if ins then out else out @ [n']) = covered (merged @ [c]) \<union> covered cs \<union> {fr_start n ..< fr_end n}"
    proof (rule Cons.IH [OF c(3) Cons.prems(2)])
      show "gapped b0 (merged @ [c])" using Cons.prems(3,4,6) c by (auto simp: gapped_snoc)
    qed (use Cons.prems before c in auto)
    then show ?thesis by (auto simp: Un_assoc)
  next
    case after
    have "(out, n', ins) = ((merged @ [n, c]) @ cs, n, True)"
      using Cons.prems(7) after loop_inserted [OF c(3), of n "merged @ [n, c]"] Cons.prems(2) c(2) by auto
    moreover have "gapped b0 ((merged @ [n]) @ c # cs)"
    proof -
      have "gapped b0 (merged @ [n])" using Cons.prems(2-5) by (simp add: gapped_snoc)
      then show ?thesis using gapped_append [of b0 merged n "c # cs"] after c by simp
    qed
    ultimately show ?thesis by auto
  next
    case touch
    let ?n = "\<lparr>fr_start = (if fr_start c < fr_start n then fr_start c else fr_start n),
      fr_end = (if fr_end c > fr_end n then fr_end c else fr_end n)\<rparr>"
    have "gapped b0 (if ins then out else out @ [n']) \<and>
      covered (if ins then out else out @ [n']) = covered merged \<union> covered cs \<union> {fr_start ?n ..< fr_end ?n}"
    proof (rule Cons.IH [OF c(3), of ?n merged])
      show "add_range_loop cs merged ?n False = (out, n', ins)" using Cons.prems(7) touch by simp
    qed (use Cons.prems c in auto)
    moreover have "{fr_start ?n ..< fr_end ?n} = {fr_start c ..< fr_end c} \<union> {fr_start n ..< fr_end n}"
      using touch c(2) Cons.prems(2) by auto
    ultimately show ?thesis by auto
  qed
qed

lemma add_range_effect:
  assumes "ranges_ok rs" "cb = int (card (covered rs))" "add_range (rs, cb) s e = (rs', cb')"
  shows "ranges_ok rs' \<and> covered rs' = covered rs \<union> {s ..< e} \<and> cb' = int (card (covered rs'))"
proof (cases "e \<le> s")
  case True
  then show ?thesis using assms by (auto simp: add_range_def)
next
  case ne: False
  show ?thesis
  proof (cases "rs = []")
    case True
    then have "rs' = [\<lparr>fr_start = s, fr_end = e\<rparr>]" "cb' = cb + (e - s)" using ne assms(3) by (simp_all add: add_range_def)
    then show ?thesis using True ne assms(2) by (simp add: ranges_ok_def)
  next
    case False
    obtain b where b: "gapped b rs" using assms(1) by (auto simp: ranges_ok_gapped)
    let ?n = "\<lparr>fr_start = s, fr_end = e\<rparr>" and ?b = "min b (s - 1)"
    obtain out n' ins where l: "add_range_loop rs [] ?n False = (out, n', ins)" by (metis prod_cases3)
    have m: "gapped ?b rs'" "covered rs' = covered rs \<union> {s ..< e}"
      using loop_merges [of ?b rs ?n ?b "[]" out n' ins] gapped_mono [OF b] l ne False assms(3)
      by (auto simp: add_range_def Let_def split: if_splits)
    moreover have "cb' = range_sum rs'" using ne False assms(3) l by (auto simp: add_range_def Let_def)
    ultimately show ?thesis using range_sum_card [OF m(1)] by (auto intro: ranges_ok_gappedI)
  qed
qed

text \<open>One range that starts at 0 covers every offset below its end.\<close>

lemma single_range: "length rs = 1 \<Longrightarrow> covered rs = {fr_start (rs ! 0) ..< fr_end (rs ! 0)}"
  by (cases rs) auto

lemma covers_single:
  assumes "ranges_ok rs" "{0 ..< n} \<subseteq> covered rs" "covered rs \<subseteq> {0 ..< n}" "0 < n"
  shows "length rs = 1 \<and> fr_start (rs ! 0) = 0 \<and> fr_end (rs ! 0) = n"
proof -
  have eq: "covered rs = {0 ..< n}" using assms by blast
  obtain r rs' where rs: "rs = r # rs'" using eq assms(4) by (cases rs) auto
  have r: "fr_start r < fr_end r" "gapped (fr_end r) rs'" using assms(1) rs by (auto simp: ranges_ok_def)
  have "rs' = []"
  proof (cases rs')
    case (Cons q qs)
    have "fr_start q \<in> {0 ..< n}" using r Cons eq rs by (auto simp: set_eq_iff)
    moreover have "fr_start r \<in> {0 ..< n}" using r eq rs by (auto simp: set_eq_iff)
    ultimately have "fr_end r \<in> {0 ..< n}" using r Cons by auto
    then have "fr_end r \<in> covered rs'" using eq rs by (auto simp: set_eq_iff)
    then show ?thesis using gapped_above [OF r(2)] by force
  qed simp
  then have "{fr_start r ..< fr_end r} = {0 ..< n}" using eq rs by simp
  then have "fr_start r = 0 \<and> fr_end r = n" using r(1) assms(4) by (simp add: atLeastLessThan_eq_iff)
  then show ?thesis using rs \<open>rs' = []\<close> by simp
qed

section \<open>Runs of addRange\<close>

fun add_ranges :: "sftp_transfer_state \<Rightarrow> (int \<times> int) list \<Rightarrow> sftp_transfer_state" where
  "add_ranges st [] = st"
| "add_ranges st (w # ws) = add_ranges (sftp_addRange st (fst w) (snd w)) ws"

definition range_inv :: "sftp_transfer_state \<Rightarrow> bool" where
  "range_inv st = (ranges_ok (sf_ranges st) \<and> sf_coveredBytes st = int (card (covered (sf_ranges st))))"

lemma sftp_addRange_effect:
  assumes "range_inv st"
  shows "range_inv (sftp_addRange st s e) \<and>
    covered (sf_ranges (sftp_addRange st s e)) = covered (sf_ranges st) \<union> {s ..< e}"
  using add_range_effect [of "sf_ranges st" "sf_coveredBytes st" s e] assms
  by (auto simp: range_inv_def sftp_addRange_def Let_def prod_eq_iff)

lemma add_ranges_effect:
  "range_inv st \<Longrightarrow> range_inv (add_ranges st ws) \<and>
    covered (sf_ranges (add_ranges st ws)) = covered (sf_ranges st) \<union> (\<Union>w \<in> set ws. {fst w ..< snd w})"
proof (induction ws arbitrary: st)
  case (Cons w ws)
  note e = sftp_addRange_effect [OF Cons.prems, of "fst w" "snd w"]
  then show ?case using Cons.IH [OF conjunct1 [OF e]] by auto
qed simp

lemma add_ranges_frame [simp]:
  "sf_eofSeen (add_ranges st ws) = sf_eofSeen st" "sf_totalSize (add_ranges st ws) = sf_totalSize st"
  by (induction ws arbitrary: st) (simp_all add: sftp_addRange_def Let_def)

lemma ready_iff_covered:
  assumes "range_inv st" "sf_eofSeen st" "0 < sf_totalSize st" "covered (sf_ranges st) \<subseteq> {0 ..< sf_totalSize st}"
  shows "readyToCommit st \<longleftrightarrow> {0 ..< sf_totalSize st} \<subseteq> covered (sf_ranges st)"
proof
  assume "readyToCommit st"
  then have l: "length (sf_ranges st) = 1" "fr_start (sf_ranges st ! 0) = 0" "fr_end (sf_ranges st ! 0) \<ge> sf_totalSize st"
    using assms by (auto simp: readyToCommit_def split: if_splits)
  show "{0 ..< sf_totalSize st} \<subseteq> covered (sf_ranges st)" using single_range [OF l(1)] l by auto
next
  assume c: "{0 ..< sf_totalSize st} \<subseteq> covered (sf_ranges st)"
  have e: "covered (sf_ranges st) = {0 ..< sf_totalSize st}" using c assms(4) by blast
  note s = covers_single [OF _ c assms(4,3)]
  show "readyToCommit st" using s assms e by (simp add: readyToCommit_def range_inv_def)
qed

section \<open>Properties\<close>

text \<open>The transfer state commits exactly when the file is complete: after the chunks of a file of known
  size have been written, in any order, with any repetitions and overlaps, \<open>readyToCommit\<close> holds iff the
  end of file was seen and every byte of the file was written by some chunk; and the ranges
  stay sorted and disjoint, with \<open>coveredBytes\<close> the number of bytes covered.\<close>

theorem sftp_commits_when_complete:
  assumes "sf_ranges st = []" "sf_coveredBytes st = 0" "0 < sf_totalSize st"
    and "list_all (\<lambda>w. 0 \<le> fst w \<and> snd w \<le> sf_totalSize st) ws"
  shows "(readyToCommit (add_ranges st ws) \<longleftrightarrow>
      sf_eofSeen st \<and> {0 ..< sf_totalSize st} \<subseteq> (\<Union>w \<in> set ws. {fst w ..< snd w})) \<and>
    ranges_ok (sf_ranges (add_ranges st ws)) \<and>
    sf_coveredBytes (add_ranges st ws) = int (card (\<Union>w \<in> set ws. {fst w ..< snd w}))"
proof -
  have i: "range_inv st" using assms by (simp add: range_inv_def ranges_ok_def)
  note e = add_ranges_effect [OF i, of ws]
  have c: "covered (sf_ranges (add_ranges st ws)) = (\<Union>w \<in> set ws. {fst w ..< snd w})" using e assms(1) by simp
  have "\<dots> \<subseteq> {0 ..< sf_totalSize st}" using assms(4) by (fastforce simp: list_all_iff)
  then show ?thesis using e ready_iff_covered [of "add_ranges st ws"] c assms(3)
    by (cases "sf_eofSeen st") (auto simp: range_inv_def readyToCommit_def)
qed

theorem sftp_commits_when_complete_witness:
  "readyToCommit (add_ranges \<lparr>sf_tempPath = ''/d/f.part'', sf_finalPath = ''/d/f'', sf_totalSize = 6, sf_eofSeen = True,
     sf_coveredBytes = 0, sf_ranges = []\<rparr> [(4, 6), (0, 2), (1, 3), (3, 4)])"
proof -
  have "{0 ..< 6} \<subseteq> (\<Union>w \<in> set [(4, 6), (0, 2), (1, 3), (3, 4)]. {fst w ..< snd w :: int})" by auto
  then show ?thesis
    using sftp_commits_when_complete [of "\<lparr>sf_tempPath = ''/d/f.part'', sf_finalPath = ''/d/f'', sf_totalSize = 6,
      sf_eofSeen = True, sf_coveredBytes = 0, sf_ranges = []\<rparr>" "[(4, 6), (0, 2), (1, 3), (3, 4)]"] by simp
qed

end
