(* ===== verification/OssSender.thy ===== *)
theory OssSender
  imports FilePath Ranges
begin

text \<open>
  The multipart upload of one transfer by the OSS sender (\<open>src/src/sender/oss.go\<close>):
  \<open>ossTransferState\<close> with its operations, each of which the code runs under the lock of the state, and
  the interleaving of concurrent \<open>Send\<close> calls as a run of labelled steps. The calls of the storage API
  happen between the locked operations, so a call in flight is a phase of the driving \<open>Send\<close>, and its
  outcome is part of the label.
\<close>

section \<open>Data\<close>

record oss_uploaded_part =
  up_partNumber :: int
  up_etag :: string
  up_start :: int
  up_end :: int

text \<open>\<open>os_pendingSegments\<close> is the map from offset to bytes.\<close>

record oss_transfer_state =
  os_objectKey :: string
  os_uploadID :: string
  os_totalSize :: int
  os_eofSeen :: bool
  os_coveredRanges :: "file_range list"
  os_coveredBytes :: int
  os_nextOffset :: int
  os_pendingPartBuffer :: bytes
  os_pendingSegments :: "(int \<times> bytes) list"
  os_pendingBytes :: int
  os_uploadedParts :: "oss_uploaded_part list"
  os_nextPartNumber :: int
  os_uploading :: bool

datatype oss_upload_op =
    OpNone
  | OpPart (op_partNumber: int) (op_partStart: int) (op_payload: bytes)
  | OpComplete (op_objectKey: string) (op_uploadID: string) (op_parts: "(int \<times> string) list")

text \<open>The state \<open>getOrCreateTransferState\<close> makes for the first packet of a transfer.\<close>

definition new_oss_transfer :: "string \<Rightarrow> string \<Rightarrow> packet \<Rightarrow> oss_transfer_state" where
  "new_oss_transfer key upload p =
     \<lparr>os_objectKey = key, os_uploadID = upload, os_totalSize = TotalSize (Meta p), os_eofSeen = False,
      os_coveredRanges = [], os_coveredBytes = 0, os_nextOffset = 0, os_pendingPartBuffer = [],
      os_pendingSegments = [], os_pendingBytes = 0, os_uploadedParts = [], os_nextPartNumber = 1, os_uploading = False\<rparr>"

section \<open>The guards of Send\<close>

text \<open>
  \<open>sha\<close> is the SHA-256 digest as bytes. \<open>EqualFold\<close> on the hexadecimal digest, which is ASCII, compares
  the lower-case strings.
\<close>

definition lower_ascii :: "string \<Rightarrow> string" where
  "lower_ascii s = map (\<lambda>c. if 65 \<le> (of_char c :: nat) \<and> (of_char c :: nat) \<le> 90 then char_of ((of_char c :: nat) + 32) else c) s"

definition oss_send_guard :: "(bytes \<Rightarrow> bytes) \<Rightarrow> packet \<Rightarrow> go_error option" where
  "oss_send_guard sha p =
     (let want = trim_space (Checksum (Meta p)); got = hex_encode (sha (Payload p)) in
      first_err
       [fail_if (Kind p \<noteq> PayloadKindFileChunk) (Errorf ''oss sender only accepts file_chunk payload'' []),
        fail_if (Offset (Meta p) < 0)
          (Errorf ''oss sender offset must be >= 0: transfer=%s offset=%d'' [AStr (TransferID (Meta p)), AInt (Offset (Meta p))]),
        fail_if (want \<noteq> [] \<and> lower_ascii got \<noteq> lower_ascii want)
          (Errorf ''oss sender checksum mismatch: got=%s want=%s transfer=%s'' [AStr got, AStr want, AStr (TransferID (Meta p))]),
        fail_if (trim_space (TransferID (Meta p)) = []) (Errorf ''oss sender requires transfer_id'' [])])"

section \<open>Accepting a chunk\<close>

definition oss_addRange :: "oss_transfer_state \<Rightarrow> int \<Rightarrow> int \<Rightarrow> oss_transfer_state" where
  "oss_addRange st s e =
     (let rc = add_range (os_coveredRanges st, os_coveredBytes st) s e
      in st\<lparr>os_coveredRanges := fst rc, os_coveredBytes := snd rc\<rparr>)"

lemma length_delete_key: "map_of m k = Some v \<Longrightarrow> length (AList.delete k m) < length m"
  unfolding AList.delete_eq by (rule length_filter_less [of "(k, v)"]) (auto dest: map_of_SomeD)

function drainContiguousSegments :: "oss_transfer_state \<Rightarrow> oss_transfer_state" where
  "drainContiguousSegments st =
     (case map_of (os_pendingSegments st) (os_nextOffset st) of
        None \<Rightarrow> st
      | Some seg \<Rightarrow> drainContiguousSegments
          (st\<lparr>os_pendingSegments := AList.delete (os_nextOffset st) (os_pendingSegments st),
              os_pendingBytes := os_pendingBytes st - int (length seg),
              os_pendingPartBuffer := os_pendingPartBuffer st @ seg,
              os_nextOffset := os_nextOffset st + int (length seg)\<rparr>))"
  by pat_completeness auto

termination
  by (relation "measure (\<lambda>st. length (os_pendingSegments st))") (auto intro: length_delete_key)

declare drainContiguousSegments.simps [simp del]

definition oss_pending_error :: "int \<Rightarrow> int \<Rightarrow> go_error" where
  "oss_pending_error pending limit =
     Errorf ''%w: pending=%d limit=%d''
       [AErr (Errorf ''oss sender pending out-of-order chunks exceed bounded limit'' []), AInt pending, AInt limit]"

definition acceptChunk :: "oss_transfer_state \<Rightarrow> int \<Rightarrow> bytes \<Rightarrow> int \<Rightarrow> go_error option \<times> oss_transfer_state" where
  "acceptChunk st offset payload pendingLimit =
     (let e = wrap64 (offset + int (length payload)) in
      if e \<le> os_nextOffset st then (None, st)
      else if offset = os_nextOffset st then
        (None, drainContiguousSegments
          (st\<lparr>os_pendingPartBuffer := os_pendingPartBuffer st @ payload, os_nextOffset := e\<rparr>))
      else if map_of (os_pendingSegments st) offset \<noteq> None then (None, st)
      else let st' = st\<lparr>os_pendingSegments := (offset, payload) # os_pendingSegments st,
                        os_pendingBytes := os_pendingBytes st + int (length payload)\<rparr>
        in (if os_pendingBytes st' > pendingLimit then (Some (oss_pending_error (os_pendingBytes st') pendingLimit), st')
            else (None, st')))"

definition readyToComplete :: "oss_transfer_state \<Rightarrow> bool" where
  "readyToComplete st =
     (if \<not> os_eofSeen st \<or> os_pendingSegments st \<noteq> [] then False
      else if os_totalSize st \<le> 0 then length (os_coveredRanges st) = 1
      else if os_coveredBytes st < os_totalSize st \<or> os_nextOffset st < os_totalSize st then False
      else length (os_coveredRanges st) = 1 \<and> fr_start (os_coveredRanges st ! 0) = 0 \<and>
        fr_end (os_coveredRanges st ! 0) \<ge> os_totalSize st)"

definition hasUploadWorkLocked :: "int \<Rightarrow> oss_transfer_state \<Rightarrow> bool" where
  "hasUploadWorkLocked partSize st = (int (length (os_pendingPartBuffer st)) \<ge> partSize \<or> readyToComplete st)"

text \<open>The result says whether this \<open>Send\<close> has to drive the upload.\<close>

definition acceptPacket :: "int \<Rightarrow> int \<Rightarrow> packet \<Rightarrow> oss_transfer_state \<Rightarrow> bool result \<times> oss_transfer_state" where
  "acceptPacket pendingLimit partSize p st =
     (let st1 = (if TotalSize (Meta p) > 0 then st\<lparr>os_totalSize := TotalSize (Meta p)\<rparr> else st);
          st2 = (if EOF (Meta p) then st1\<lparr>os_eofSeen := True\<rparr> else st1);
          st3 = oss_addRange st2 (Offset (Meta p)) (wrap64 (Offset (Meta p) + int (length (Payload p))))
      in case acceptChunk st3 (Offset (Meta p)) (Payload p) pendingLimit of
           (Some e, st4) \<Rightarrow> (Inl e, st4)
         | (None, st4) \<Rightarrow>
             if os_uploading st4 then (Inr False, st4)
             else if \<not> hasUploadWorkLocked partSize st4 then (Inr False, st4)
             else (Inr True, st4\<lparr>os_uploading := True\<rparr>))"

section \<open>Driving the upload\<close>

definition uploadedEnd :: "oss_transfer_state \<Rightarrow> int" where
  "uploadedEnd st = (if os_uploadedParts st = [] then 0 else up_end (last (os_uploadedParts st)))"

definition reservePartUploadLocked :: "nat \<Rightarrow> oss_transfer_state \<Rightarrow> oss_upload_op \<times> oss_transfer_state" where
  "reservePartUploadLocked n st =
     (OpPart (os_nextPartNumber st) (uploadedEnd st) (take n (os_pendingPartBuffer st)),
      st\<lparr>os_pendingPartBuffer := drop n (os_pendingPartBuffer st)\<rparr>)"

definition completeParts :: "oss_transfer_state \<Rightarrow> (int \<times> string) list" where
  "completeParts st = sort_key fst (map (\<lambda>p. (up_partNumber p, up_etag p)) (os_uploadedParts st))"

definition nextUploadOperation :: "int \<Rightarrow> oss_transfer_state \<Rightarrow> oss_upload_op \<times> oss_transfer_state" where
  "nextUploadOperation partSize st =
     (if int (length (os_pendingPartBuffer st)) \<ge> partSize then reservePartUploadLocked (nat partSize) st
      else if readyToComplete st then
        (if os_pendingPartBuffer st \<noteq> [] then reservePartUploadLocked (length (os_pendingPartBuffer st)) st
         else (OpComplete (os_objectKey st) (os_uploadID st) (completeParts st), st))
      else (OpNone, st\<lparr>os_uploading := False\<rparr>))"

definition finishPartUpload :: "oss_upload_op \<Rightarrow> string option \<Rightarrow> oss_transfer_state \<Rightarrow> oss_transfer_state" where
  "finishPartUpload op etag st =
     (case etag of
        None \<Rightarrow> st\<lparr>os_pendingPartBuffer := op_payload op @ os_pendingPartBuffer st, os_uploading := False\<rparr>
      | Some tag \<Rightarrow>
          st\<lparr>os_uploadedParts := os_uploadedParts st @
               [\<lparr>up_partNumber = op_partNumber op, up_etag = tag, up_start = op_partStart op,
                 up_end = op_partStart op + int (length (op_payload op))\<rparr>],
             os_nextPartNumber := os_nextPartNumber st + 1\<rparr>)"

definition finishCompleteUpload :: "oss_transfer_state \<Rightarrow> oss_transfer_state" where
  "finishCompleteUpload st = st\<lparr>os_uploading := False\<rparr>"

section \<open>Runs of one transfer\<close>

text \<open>
  \<open>Driving\<close>: a \<open>Send\<close> is in the loop of \<open>driveOSSUpload\<close>, before its next \<open>nextUploadOperation\<close>; \<open>Calling\<close>: it
  waits for the API. \<open>run_puts\<close> and \<open>run_completes\<close> record the successful calls \<open>PutObjectPart\<close> (number, bytes,
  etag) and \<open>CompleteMultipartUpload\<close> (its parts); \<open>run_failed\<close> that the transfer was aborted.
\<close>

datatype oss_phase = Idle | Driving | Calling oss_upload_op

record oss_run =
  run_st :: oss_transfer_state
  run_phase :: oss_phase
  run_puts :: "(int \<times> bytes \<times> string) list"
  run_completes :: "(int \<times> string) list list"
  run_failed :: bool

text \<open>Their outcome decides how a call of the API ends; a chunk may arrive at any time.\<close>

datatype oss_label = Accept packet | Next | CallOk string | CallFails

fun driveOSSUpload :: "int \<Rightarrow> oss_label \<Rightarrow> oss_run \<Rightarrow> oss_run option" where
  "driveOSSUpload partSize Next r =
     (case run_phase r of
        Driving \<Rightarrow>
          (case nextUploadOperation partSize (run_st r) of
             (OpNone, st) \<Rightarrow> Some (r\<lparr>run_st := st, run_phase := Idle\<rparr>)
           | (op, st) \<Rightarrow> Some (r\<lparr>run_st := st, run_phase := Calling op\<rparr>))
      | _ \<Rightarrow> None)"
| "driveOSSUpload partSize (CallOk tag) r =
     (case run_phase r of
        Calling (OpPart n s b) \<Rightarrow>
          Some (r\<lparr>run_st := finishPartUpload (OpPart n s b) (Some tag) (run_st r), run_phase := Driving,
                  run_puts := run_puts r @ [(n, b, tag)]\<rparr>)
      | Calling (OpComplete k u parts) \<Rightarrow>
          Some (r\<lparr>run_st := finishCompleteUpload (run_st r), run_phase := Idle, run_completes := run_completes r @ [parts]\<rparr>)
      | _ \<Rightarrow> None)"
| "driveOSSUpload partSize CallFails r =
     (case run_phase r of
        Calling (OpPart n s b) \<Rightarrow>
          Some (r\<lparr>run_st := finishPartUpload (OpPart n s b) None (run_st r), run_phase := Idle\<rparr>)
      | Calling (OpComplete k u parts) \<Rightarrow> Some (r\<lparr>run_st := finishCompleteUpload (run_st r), run_phase := Idle\<rparr>)
      | _ \<Rightarrow> None)"
| "driveOSSUpload partSize (Accept p) r = None"

definition oss_Send :: "int \<Rightarrow> packet \<Rightarrow> oss_run \<Rightarrow> oss_run" where
  "oss_Send partSize p r =
     (case acceptPacket (partSize * 2) partSize p (run_st r) of
        (Inl e, st) \<Rightarrow> r\<lparr>run_st := st, run_failed := True\<rparr>
      | (Inr shouldDrive, st) \<Rightarrow> r\<lparr>run_st := st, run_phase := (if shouldDrive then Driving else run_phase r)\<rparr>)"

fun oss_step :: "int \<Rightarrow> oss_label \<Rightarrow> oss_run \<Rightarrow> oss_run option" where
  "oss_step partSize (Accept p) r = Some (oss_Send partSize p r)"
| "oss_step partSize l r = driveOSSUpload partSize l r"

fun oss_steps :: "int \<Rightarrow> oss_label list \<Rightarrow> oss_run \<Rightarrow> oss_run option" where
  "oss_steps partSize [] r = Some r"
| "oss_steps partSize (l # ls) r = (case oss_step partSize l r of None \<Rightarrow> None | Some r' \<Rightarrow> oss_steps partSize ls r')"

definition start_run :: "string \<Rightarrow> string \<Rightarrow> packet \<Rightarrow> oss_run" where
  "start_run key upload p =
     \<lparr>run_st = new_oss_transfer key upload p, run_phase = Idle, run_puts = [], run_completes = [], run_failed = False\<rparr>"

end
