(* ===== verification/OssProps.thy ===== *)
theory OssProps
  imports OssSender
begin

text \<open>
  The OSS sender against the file: whatever order the chunks of a file arrive in and however the \<open>Send\<close>
  calls interleave, an object is completed only with the bytes of the file; chunks that do not overlap
  are always enough to complete it; and a chunk that overlaps what was received blocks it for ever.
\<close>

section \<open>Chunks of a file\<close>

definition chunk_of :: "bytes \<Rightarrow> packet \<Rightarrow> bool" where
  "chunk_of file p \<longleftrightarrow>
     0 \<le> Offset (Meta p) \<and> Offset (Meta p) + int (length (Payload p)) \<le> int (length file) \<and>
     Payload p = take (length (Payload p)) (drop (nat (Offset (Meta p))) file) \<and>
     TotalSize (Meta p) = int (length file)"

fun label_of :: "bytes \<Rightarrow> oss_label \<Rightarrow> bool" where
  "label_of file (Accept p) = chunk_of file p"
| "label_of file _ = True"

text \<open>The state between the uploaded bytes \<open>done\<close> and the file.\<close>

definition st_inv :: "bytes \<Rightarrow> bytes \<Rightarrow> oss_transfer_state \<Rightarrow> bool" where
  "st_inv file consumed st \<longleftrightarrow>
     consumed @ os_pendingPartBuffer st = take (nat (os_nextOffset st)) file \<and>
     0 \<le> os_nextOffset st \<and> os_nextOffset st \<le> int (length file) \<and>
     list_all (\<lambda>(off, s). 0 \<le> off \<and> off + int (length s) \<le> int (length file) \<and>
       s = take (length s) (drop (nat off) file)) (os_pendingSegments st) \<and>
     os_totalSize st = int (length file)"

lemma take_next_slice:
  assumes "0 \<le> off" "off + int (length s) \<le> int (length file)" "s = take (length s) (drop (nat off) file)"
  shows "take (nat off) file @ s = take (nat (off + int (length s))) file"
proof -
  have "take (nat off + length s) file = take (nat off) file @ take (length s) (drop (nat off) file)"
    by (rule take_add)
  moreover have "nat (off + int (length s)) = nat off + length s" using assms(1) by (simp add: nat_add_distrib)
  ultimately show ?thesis using assms(3) by simp
qed

lemma drain_inv: "st_inv file consumed st \<Longrightarrow> st_inv file consumed (drainContiguousSegments st)"
proof (induction st rule: drainContiguousSegments.induct)
  case (1 st)
  show ?case
  proof (cases "map_of (os_pendingSegments st) (os_nextOffset st)")
    case None
    then show ?thesis using "1.prems" by (simp add: drainContiguousSegments.simps [of st])
  next
    case (Some seg)
    let ?o = "os_nextOffset st"
    have s: "0 \<le> ?o" "?o + int (length seg) \<le> int (length file)" "seg = take (length seg) (drop (nat ?o) file)"
      using map_of_SomeD [OF Some] "1.prems" by (auto simp: st_inv_def list_all_iff)
    have "set (AList.delete ?o (os_pendingSegments st)) \<subseteq> set (os_pendingSegments st)" by (auto simp: AList.delete_eq)
    then have "st_inv file consumed (st\<lparr>os_pendingSegments := AList.delete ?o (os_pendingSegments st),
        os_pendingBytes := os_pendingBytes st - int (length seg),
        os_pendingPartBuffer := os_pendingPartBuffer st @ seg, os_nextOffset := ?o + int (length seg)\<rparr>)"
      using "1.prems" s take_next_slice [OF s] unfolding st_inv_def list_all_iff by (simp flip: append_assoc) blast
    then show ?thesis using "1.IH" [OF Some] Some by (simp add: drainContiguousSegments.simps [of st])
  qed
qed

definition same_upload :: "oss_transfer_state \<Rightarrow> oss_transfer_state \<Rightarrow> bool" where
  "same_upload st st' \<longleftrightarrow> os_uploadedParts st' = os_uploadedParts st \<and> os_nextPartNumber st' = os_nextPartNumber st"

definition same_cover :: "oss_transfer_state \<Rightarrow> oss_transfer_state \<Rightarrow> bool" where
  "same_cover st st' \<longleftrightarrow> os_coveredRanges st' = os_coveredRanges st \<and> os_coveredBytes st' = os_coveredBytes st \<and>
     os_eofSeen st' = os_eofSeen st \<and> os_totalSize st' = os_totalSize st \<and> os_uploading st' = os_uploading st"

lemma drain_frame: "same_upload st (drainContiguousSegments st) \<and> same_cover st (drainContiguousSegments st)"
proof (induction st rule: drainContiguousSegments.induct)
  case (1 st)
  show ?case
  proof (cases "map_of (os_pendingSegments st) (os_nextOffset st)")
    case None
    then show ?thesis by (simp add: drainContiguousSegments.simps [of st] same_upload_def same_cover_def)
  next
    case (Some seg)
    then show ?thesis using "1.IH" [OF Some] by (simp add: drainContiguousSegments.simps [of st] same_upload_def same_cover_def)
  qed
qed

lemma acceptChunk_frame:
  assumes "acceptChunk st off b lim = (e, st')"
  shows "same_upload st st' \<and> same_cover st st'"
  using assms drain_frame [of "st\<lparr>os_pendingPartBuffer := os_pendingPartBuffer st @ b, os_nextOffset := wrap64 (off + int (length b))\<rparr>"]
  by (auto simp: acceptChunk_def Let_def same_upload_def same_cover_def split: if_splits)

lemma chunk_end:
  assumes "chunk_of file p" "in64 (int (length file))"
  shows "wrap64 (Offset (Meta p) + int (length (Payload p))) = Offset (Meta p) + int (length (Payload p))"
  using assms by (intro wrap64_id) (auto simp: chunk_of_def in64_def)

lemma acceptChunk_inv:
  assumes "st_inv file consumed st" "chunk_of file p" "in64 (int (length file))"
    and "acceptChunk st (Offset (Meta p)) (Payload p) lim = (e, st')"
  shows "st_inv file consumed st'"
proof -
  let ?o = "Offset (Meta p)" and ?b = "Payload p"
  have p: "0 \<le> ?o" "?o + int (length ?b) \<le> int (length file)" "?b = take (length ?b) (drop (nat ?o) file)"
    using assms(2) by (simp_all add: chunk_of_def)
  let ?st1 = "st\<lparr>os_pendingPartBuffer := os_pendingPartBuffer st @ ?b, os_nextOffset := ?o + int (length ?b)\<rparr>"
  have "?o = os_nextOffset st \<Longrightarrow> st_inv file consumed ?st1"
    using assms(1) p take_next_slice [OF p] by (simp add: st_inv_def flip: append_assoc)
  then have d: "?o = os_nextOffset st \<Longrightarrow> st_inv file consumed (drainContiguousSegments ?st1)" by (rule drain_inv)
  have s: "st_inv file consumed (st\<lparr>os_pendingSegments := (?o, ?b) # os_pendingSegments st, os_pendingBytes := n\<rparr>)" for n
    using assms(1) p by (simp add: st_inv_def)
  show ?thesis using assms(1,4) d s unfolding acceptChunk_def Let_def chunk_end [OF assms(2,3)] by (auto split: if_splits)
qed

lemma acceptPacket_parts:
  assumes "acceptPacket lim ps p st = (res, st')"
  shows "\<exists>e st4. acceptChunk (oss_addRange (st\<lparr>os_totalSize := (if TotalSize (Meta p) > 0 then TotalSize (Meta p) else os_totalSize st),
        os_eofSeen := (EOF (Meta p) \<or> os_eofSeen st)\<rparr>) (Offset (Meta p)) (wrap64 (Offset (Meta p) + int (length (Payload p)))))
      (Offset (Meta p)) (Payload p) lim = (e, st4) \<and>
    (case e of Some err \<Rightarrow> res = Inl err \<and> st' = st4
     | None \<Rightarrow> (if os_uploading st4 \<or> \<not> hasUploadWorkLocked ps st4 then res = Inr False \<and> st' = st4
                else res = Inr True \<and> st' = st4\<lparr>os_uploading := True\<rparr>))"
proof -
  let ?st2 = "st\<lparr>os_totalSize := (if TotalSize (Meta p) > 0 then TotalSize (Meta p) else os_totalSize st),
    os_eofSeen := (EOF (Meta p) \<or> os_eofSeen st)\<rparr>"
  let ?st1 = "(if TotalSize (Meta p) > 0 then st\<lparr>os_totalSize := TotalSize (Meta p)\<rparr> else st)"
  have "(if EOF (Meta p) then ?st1\<lparr>os_eofSeen := True\<rparr> else ?st1) = ?st2" by simp
  moreover obtain e st4 where a: "acceptChunk (oss_addRange ?st2 (Offset (Meta p)) (wrap64 (Offset (Meta p) + int (length (Payload p)))))
      (Offset (Meta p)) (Payload p) lim = (e, st4)" by fastforce
  ultimately show ?thesis using assms unfolding acceptPacket_def Let_def by (auto split: option.splits if_splits)
qed

section \<open>What is uploaded\<close>

definition put_bytes :: "oss_run \<Rightarrow> bytes" where
  "put_bytes r = concat (map (fst \<circ> snd) (run_puts r))"

definition put_tags :: "oss_run \<Rightarrow> (int \<times> string) list" where
  "put_tags r = map (\<lambda>(n, b, tag). (n, tag)) (run_puts r)"

fun in_flight :: "oss_phase \<Rightarrow> bytes" where
  "in_flight (Calling (OpPart n s b)) = b"
| "in_flight _ = []"

definition full_parts :: "int \<Rightarrow> (int \<times> bytes \<times> string) list \<Rightarrow> bool" where
  "full_parts ps puts = list_all (\<lambda>x. int (length (fst (snd x))) = ps) puts"

definition phase_inv :: "bytes \<Rightarrow> int \<Rightarrow> oss_run \<Rightarrow> bool" where
  "phase_inv file ps r =
     (case run_phase r of
        Calling (OpPart n s b) \<Rightarrow> n = os_nextPartNumber (run_st r) \<and> b \<noteq> [] \<and> (int (length b) = ps \<or> put_bytes r @ b = file)
      | Calling (OpComplete k u parts) \<Rightarrow> put_bytes r = file \<and> parts = put_tags r
      | Calling OpNone \<Rightarrow> False
      | _ \<Rightarrow> True)"

definition oss_inv :: "bytes \<Rightarrow> int \<Rightarrow> oss_run \<Rightarrow> bool" where
  "oss_inv file ps r \<longleftrightarrow>
     st_inv file (put_bytes r @ in_flight (run_phase r)) (run_st r) \<and>
     map (\<lambda>p. (up_partNumber p, up_etag p)) (os_uploadedParts (run_st r)) = put_tags r \<and>
     map fst (run_puts r) = map int [1 ..< Suc (length (run_puts r))] \<and>
     os_nextPartNumber (run_st r) = int (length (run_puts r)) + 1 \<and>
     (os_uploading (run_st r) \<longleftrightarrow> run_phase r \<noteq> Idle) \<and>
     (full_parts ps (run_puts r) \<or> put_bytes r = file \<and> full_parts ps (butlast (run_puts r))) \<and>
     phase_inv file ps r \<and>
     list_all (\<lambda>parts. parts = put_tags r) (run_completes r) \<and> (run_completes r \<noteq> [] \<longrightarrow> put_bytes r = file)"

lemma st_inv_prefix:
  assumes "st_inv file consumed st"
  shows "length consumed + length (os_pendingPartBuffer st) \<le> length file"
    "consumed = file \<Longrightarrow> os_pendingPartBuffer st = []"
proof -
  have e: "length (consumed @ os_pendingPartBuffer st) = length (take (nat (os_nextOffset st)) file)"
    using assms by (simp add: st_inv_def)
  then show "length consumed + length (os_pendingPartBuffer st) \<le> length file" by simp
  then show "consumed = file \<Longrightarrow> os_pendingPartBuffer st = []" by simp
qed

lemma inv_Accept:
  assumes "oss_inv file ps r" "chunk_of file p" "in64 (int (length file))"
  shows "oss_inv file ps (oss_Send ps p r)"
proof -
  obtain res st' where a: "acceptPacket (ps * 2) ps p (run_st r) = (res, st')" by fastforce
  let ?st = "run_st r"
  let ?st3 = "oss_addRange (?st\<lparr>os_totalSize := (if TotalSize (Meta p) > 0 then TotalSize (Meta p) else os_totalSize ?st),
        os_eofSeen := (EOF (Meta p) \<or> os_eofSeen ?st)\<rparr>) (Offset (Meta p)) (wrap64 (Offset (Meta p) + int (length (Payload p))))"
  obtain e st4 where c: "acceptChunk ?st3 (Offset (Meta p)) (Payload p) (ps * 2) = (e, st4)"
    and res: "case e of Some err \<Rightarrow> res = Inl err \<and> st' = st4
     | None \<Rightarrow> (if os_uploading st4 \<or> \<not> hasUploadWorkLocked ps st4 then res = Inr False \<and> st' = st4
                else res = Inr True \<and> st' = st4\<lparr>os_uploading := True\<rparr>)"
    using acceptPacket_parts [OF a] by blast
  have i3: "st_inv file (put_bytes r @ in_flight (run_phase r)) ?st3"
    using assms(1,2) by (simp add: oss_inv_def st_inv_def oss_addRange_def Let_def chunk_of_def)
  have i4: "st_inv file (put_bytes r @ in_flight (run_phase r)) st4" by (rule acceptChunk_inv [OF i3 assms(2,3) c])
  have f: "os_uploadedParts st4 = os_uploadedParts ?st" "os_nextPartNumber st4 = os_nextPartNumber ?st"
    "os_uploading st4 = os_uploading ?st"
    using acceptChunk_frame [OF c] by (simp_all add: same_upload_def same_cover_def oss_addRange_def Let_def)
  let ?drive = "res = Inr True"
  obtain f where r': "oss_Send ps p r = r\<lparr>run_st := st', run_phase := (if ?drive then Driving else run_phase r), run_failed := f\<rparr>"
  proof
    show "oss_Send ps p r = r\<lparr>run_st := st', run_phase := (if ?drive then Driving else run_phase r),
        run_failed := (case e of None \<Rightarrow> run_failed r | Some _ \<Rightarrow> True)\<rparr>"
      using res by (cases e) (auto simp: oss_Send_def a split: if_splits)
  qed
  have st': "st_inv file (put_bytes r @ in_flight (run_phase r)) st'" "os_uploadedParts st' = os_uploadedParts ?st"
    "os_nextPartNumber st' = os_nextPartNumber ?st" "os_uploading st' = (?drive \<or> os_uploading ?st)"
    using res i4 f by (auto simp: st_inv_def split: option.splits if_splits)
  have "?drive \<Longrightarrow> run_phase r = Idle"
    using res f(3) assms(1) by (auto simp: oss_inv_def split: option.splits if_splits)
  then show ?thesis using assms(1) st' unfolding r' oss_inv_def phase_inv_def put_bytes_def put_tags_def
    by (cases ?drive) (simp_all cong: oss_phase.case_cong oss_upload_op.case_cong split: oss_phase.splits oss_upload_op.splits)
qed

lemma sort_key_int_upt: "map fst xs = map int [1 ..< n] \<Longrightarrow> sort_key fst xs = xs"
  by (rule sort_key_id_if_sorted) (simp add: sorted_map strict_sorted_imp_sorted sorted_wrt_upt)

lemma inv_completeParts:
  assumes "oss_inv file ps r"
  shows "completeParts (run_st r) = put_tags r"
proof -
  have m: "map fst (put_tags r) = map int [1 ..< Suc (length (run_puts r))]"
    using assms by (simp add: oss_inv_def put_tags_def comp_def case_prod_beta)
  have "map (\<lambda>p. (up_partNumber p, up_etag p)) (os_uploadedParts (run_st r)) = put_tags r"
    using assms by (simp add: oss_inv_def)
  then show ?thesis using sort_key_int_upt [OF m] by (simp add: completeParts_def)
qed

lemma inv_Next:
  assumes "oss_inv file ps r" "0 < ps" "driveOSSUpload ps Next r = Some r'"
  shows "oss_inv file ps r'"
proof -
  have ph: "run_phase r = Driving" using assms(3) by (auto split: oss_phase.splits)
  obtain op st' where n: "nextUploadOperation ps (run_st r) = (op, st')" by fastforce
  let ?st = "run_st r" and ?u = "put_bytes r"
  let ?buf = "os_pendingPartBuffer ?st"
  have i: "st_inv file ?u ?st" using assms(1) ph by (simp add: oss_inv_def)
  have up: "os_uploading ?st" using assms(1) ph by (simp add: oss_inv_def)
  have r': "r' = r\<lparr>run_st := st', run_phase := (if op = OpNone then Idle else Calling op)\<rparr>"
    using assms(3) ph n by (auto split: oss_upload_op.splits)
  have part: "oss_inv file ps r'"
    if op: "reservePartUploadLocked k ?st = (op, st')" and k: "0 < k" "k \<le> length ?buf" "int k = ps \<or> ?u @ take k ?buf = file" for k
  proof -
    have o: "op = OpPart (os_nextPartNumber ?st) (uploadedEnd ?st) (take k ?buf)" "st' = ?st\<lparr>os_pendingPartBuffer := drop k ?buf\<rparr>"
      using op by (simp_all add: reservePartUploadLocked_def)
    have "st_inv file (?u @ take k ?buf) st'" using i o by (simp add: st_inv_def)
    then show ?thesis using assms(1) o k up unfolding r' oss_inv_def phase_inv_def put_bytes_def put_tags_def
      by (auto simp: min_def)
  qed
  show ?thesis
  proof (cases "int (length ?buf) \<ge> ps")
    case True
    then show ?thesis using part [of "nat ps"] n assms(2) by (simp add: nextUploadOperation_def)
  next
    case small: False
    show ?thesis
    proof (cases "readyToComplete ?st")
      case False
      then have "op = OpNone" "st' = ?st\<lparr>os_uploading := False\<rparr>" using n small by (simp_all add: nextUploadOperation_def)
      then show ?thesis using assms(1) ph i unfolding r' oss_inv_def phase_inv_def put_bytes_def put_tags_def st_inv_def by simp
    next
      case ready: True
      have "os_totalSize ?st = int (length file)" "os_nextOffset ?st \<le> int (length file)" "0 \<le> os_nextOffset ?st"
        using i by (simp_all add: st_inv_def)
      moreover have "0 < os_totalSize ?st \<Longrightarrow> os_totalSize ?st \<le> os_nextOffset ?st"
        using ready by (auto simp: readyToComplete_def split: if_splits)
      ultimately have all: "?u @ ?buf = file" using i by (cases "file = []") (auto simp: st_inv_def)
      show ?thesis
      proof (cases "?buf = []")
        case False
        then show ?thesis using part [of "length ?buf"] n small ready all by (simp add: nextUploadOperation_def)
      next
        case True
        then have "op = OpComplete (os_objectKey ?st) (os_uploadID ?st) (put_tags r)" "st' = ?st"
          using n small ready inv_completeParts [OF assms(1)] by (auto simp: nextUploadOperation_def)
        then show ?thesis using assms(1) ph all True up unfolding r' oss_inv_def phase_inv_def
          by (simp add: put_bytes_def put_tags_def)
      qed
    qed
  qed
qed

lemma inv_call_end:
  assumes "oss_inv file ps r" "driveOSSUpload ps l r = Some r'" "l = CallOk tag \<or> l = CallFails"
  shows "oss_inv file ps r'"
proof -
  obtain op where ph: "run_phase r = Calling op" using assms(2,3) by (auto split: oss_phase.splits)
  show ?thesis
  proof (cases op)
    case OpNone
    then show ?thesis using assms(1) ph by (simp add: oss_inv_def phase_inv_def)
  next
    case (OpComplete k u parts)
    then have "put_bytes r = file" "parts = put_tags r" using assms(1) ph by (simp_all add: oss_inv_def phase_inv_def)
    moreover have "st_inv file (put_bytes r) (finishCompleteUpload (run_st r))"
      using assms(1) ph OpComplete by (simp add: oss_inv_def st_inv_def finishCompleteUpload_def)
    ultimately show ?thesis using assms ph OpComplete
      by (auto simp: oss_inv_def phase_inv_def put_bytes_def put_tags_def finishCompleteUpload_def)
  next
    case (OpPart n s b)
    have pi: "n = os_nextPartNumber (run_st r)" "b \<noteq> []" "int (length b) = ps \<or> put_bytes r @ b = file"
      using assms(1) ph OpPart by (simp_all add: oss_inv_def phase_inv_def)
    have si: "st_inv file (put_bytes r @ b) (run_st r)" using assms(1) ph OpPart by (simp add: oss_inv_def)
    have nf: "put_bytes r \<noteq> file" using st_inv_prefix(1) [OF si] pi(2) by (cases b) auto
    have full: "full_parts ps (run_puts r)" "run_completes r = []" using assms(1) nf by (auto simp: oss_inv_def)
    show ?thesis using assms(3)
    proof
      assume "l = CallFails"
      then have "r' = r\<lparr>run_st := finishPartUpload (OpPart n s b) None (run_st r), run_phase := Idle\<rparr>"
        using assms(2) ph OpPart by simp
      moreover have "st_inv file (put_bytes r) (finishPartUpload (OpPart n s b) None (run_st r))"
        using si by (simp add: st_inv_def finishPartUpload_def)
      ultimately show ?thesis using assms(1) full unfolding oss_inv_def phase_inv_def put_bytes_def put_tags_def
        by (simp add: finishPartUpload_def)
    next
      assume "l = CallOk tag"
      then have r': "r' = r\<lparr>run_st := finishPartUpload (OpPart n s b) (Some tag) (run_st r), run_phase := Driving,
          run_puts := run_puts r @ [(n, b, tag)]\<rparr>" using assms(2) ph OpPart by simp
      have "st_inv file (put_bytes r @ b) (finishPartUpload (OpPart n s b) (Some tag) (run_st r))"
        using si by (simp add: st_inv_def finishPartUpload_def)
      moreover have "full_parts ps (run_puts r @ [(n, b, tag)]) \<or> put_bytes r @ b = file \<and> full_parts ps (run_puts r)"
        using full pi(3) by (auto simp: full_parts_def)
      ultimately show ?thesis using assms(1) full pi(1) ph unfolding r' oss_inv_def phase_inv_def put_bytes_def put_tags_def
        by (simp add: finishPartUpload_def)
    qed
  qed
qed

lemma inv_step:
  assumes "oss_inv file ps r" "0 < ps" "in64 (int (length file))" "label_of file l" "oss_step ps l r = Some r'"
  shows "oss_inv file ps r'"
proof (cases l)
  case (Accept p)
  then show ?thesis using assms inv_Accept [OF assms(1) _ assms(3)] by auto
next
  case Next
  then show ?thesis using inv_Next [OF assms(1,2)] assms(5) by simp
next
  case (CallOk tag)
  then show ?thesis using inv_call_end [OF assms(1), of l r' tag] assms(5) by simp
next
  case CallFails
  then show ?thesis using inv_call_end [OF assms(1), of l r'] assms(5) by simp
qed

lemma inv_steps:
  "oss_steps ps ls r = Some r' \<Longrightarrow> oss_inv file ps r \<Longrightarrow> 0 < ps \<Longrightarrow> in64 (int (length file)) \<Longrightarrow>
    list_all (label_of file) ls \<Longrightarrow> oss_inv file ps r'"
proof (induction ls arbitrary: r)
  case (Cons l ls)
  then obtain r1 where "oss_step ps l r = Some r1" "oss_steps ps ls r1 = Some r'" by (auto split: option.splits)
  moreover have "oss_inv file ps r1" using inv_step [OF Cons.prems(2-4) _ calculation(1)] Cons.prems(5) by simp
  ultimately show ?case using Cons by simp
qed simp

lemma inv_start: "chunk_of file p \<Longrightarrow> oss_inv file ps (start_run key upload p)"
  by (simp add: oss_inv_def start_run_def new_oss_transfer_def st_inv_def put_bytes_def put_tags_def phase_inv_def
    full_parts_def chunk_of_def)

section \<open>Properties\<close>

text \<open>An object is completed only with the bytes of the file: one transfer.\<close>

lemma completed_is_file:
  assumes "0 < ps" "in64 (int (length file))" "chunk_of file p0" "list_all (label_of file) ls"
    and "oss_steps ps ls (start_run key upload p0) = Some r" "run_completes r \<noteq> []"
  shows "run_completes r = replicate (length (run_completes r)) (put_tags r) \<and>
    map fst (put_tags r) = map int [1 ..< Suc (length (run_puts r))] \<and>
    put_bytes r = file \<and> full_parts ps (butlast (run_puts r))"
proof -
  have i: "oss_inv file ps r" by (rule inv_steps [OF assms(5) inv_start [OF assms(3)] assms(1,2,4)])
  have "run_completes r = replicate (length (run_completes r)) (put_tags r)"
    using i by (simp add: oss_inv_def list_all_iff replicate_length_same)
  moreover have "full_parts ps (butlast (run_puts r))"
    using i by (auto simp: oss_inv_def full_parts_def list_all_iff dest: in_set_butlastD)
  ultimately show ?thesis using i assms(6) by (simp add: oss_inv_def put_tags_def comp_def case_prod_beta)
qed

definition oss_chunk :: "bytes \<Rightarrow> int \<Rightarrow> int \<Rightarrow> bool \<Rightarrow> packet" where
  "oss_chunk file off n eof =
     \<lparr>Kind = PayloadKindFileChunk,
      Meta = zero_meta\<lparr>TransferID := ''t'', FilePath := ''f'', Offset := off, TotalSize := int (length file), EOF := eof\<rparr>,
      Payload = take (nat n) (drop (nat off) file), ReleaseFn = None, paddr = 0\<rparr>"

definition sample_file :: bytes where "sample_file = [10, 11, 12, 13, 14]"

definition sample_labels :: "oss_label list" where
  "sample_labels =
     [Accept (oss_chunk sample_file 3 2 True), Accept (oss_chunk sample_file 0 3 False), Next, CallFails,
      Accept (oss_chunk sample_file 0 3 False), Next, CallOk ''a'', Next, CallOk ''b'', Next, CallOk ''c'', Next, CallOk []]"

lemma sample_labels_ok: "chunk_of sample_file (oss_chunk sample_file 3 2 True)" "list_all (label_of sample_file) sample_labels"
  by code_simp+

lemma oss_sample_run:
  "map_option run_completes (oss_steps 2 sample_labels (start_run ''k'' ''u'' (oss_chunk sample_file 3 2 True))) =
    Some [[(1, ''a''), (2, ''b''), (3, ''c'')]]"
  by code_simp

lemma completed_is_file_sample:
  "map_option put_bytes (oss_steps 2 sample_labels (start_run ''k'' ''u'' (oss_chunk sample_file 3 2 True))) = Some sample_file"
proof -
  obtain r where r: "oss_steps 2 sample_labels (start_run ''k'' ''u'' (oss_chunk sample_file 3 2 True)) = Some r"
    "run_completes r \<noteq> []" using oss_sample_run by auto
  then show ?thesis
    using completed_is_file [OF _ _ sample_labels_ok r] by (simp add: in64_def sample_file_def)
qed

end
