(* ===== verification/OssLive.thy ===== *)
theory OssLive
  imports OssProps
begin

text \<open>
  Progress of the OSS sender: chunks that do not overlap, once they cover the file, lead to a completed
  object whatever their order; a chunk that straddles what was received blocks the transfer for ever.
\<close>

section \<open>The intervals received so far\<close>

definition chunk_interval :: "packet \<Rightarrow> int \<times> int" where
  "chunk_interval p =
     (Offset (Meta p), Offset (Meta p) + int (length (Payload p)))"

fun accepted :: "oss_label list \<Rightarrow> packet list" where
  "accepted [] = []"
| "accepted (Accept p # ls) = p # accepted ls"
| "accepted (_ # ls) = accepted ls"

text \<open>Two chunks are apart when they are the same or do not overlap.\<close>

definition apart :: "int \<times> int \<Rightarrow> int \<times> int \<Rightarrow> bool" where
  "apart x y \<longleftrightarrow> x = y \<or> snd x \<le> fst y \<or> snd y \<le> fst x"

definition tiled :: "(int \<times> int) list \<Rightarrow> bool" where
  "tiled acc \<longleftrightarrow> list_all (\<lambda>x. fst x < snd x \<and> list_all (apart x) acc) acc"

lemma tiledD: "tiled acc \<Longrightarrow> x \<in> set acc \<Longrightarrow> y \<in> set acc \<Longrightarrow> fst x < snd x \<and> (x = y \<or> snd x \<le> fst y \<or> snd y \<le> fst x)"
  by (simp add: tiled_def list_all_iff apart_def)

text \<open>What the state knows about the intervals: \<open>strict\<close> after \<open>drainContiguousSegments\<close>.\<close>

definition seg_inv :: "bool \<Rightarrow> (int \<times> int) set \<Rightarrow> oss_transfer_state \<Rightarrow> bool" where
  "seg_inv strict acc st \<longleftrightarrow>
     (\<forall>x. 0 \<le> x \<and> x < os_nextOffset st \<longrightarrow> (\<exists>i \<in> acc. fst i \<le> x \<and> x < snd i \<and> snd i \<le> os_nextOffset st)) \<and>
     (\<forall>i \<in> acc. snd i \<le> os_nextOffset st \<or> (\<exists>s. map_of (os_pendingSegments st) (fst i) = Some s \<and> int (length s) = snd i - fst i)) \<and>
     (\<forall>x \<in> set (os_pendingSegments st). (fst x, fst x + int (length (snd x))) \<in> acc \<and>
        (if strict then os_nextOffset st < fst x else os_nextOffset st \<le> fst x)) \<and>
     distinct (map fst (os_pendingSegments st)) \<and> 0 \<le> os_nextOffset st"

lemma seg_invD:
  assumes "seg_inv strict acc st"
  shows "0 \<le> x \<Longrightarrow> x < os_nextOffset st \<Longrightarrow> \<exists>i \<in> acc. fst i \<le> x \<and> x < snd i \<and> snd i \<le> os_nextOffset st"
    "i \<in> acc \<Longrightarrow> snd i \<le> os_nextOffset st \<or> (\<exists>s. map_of (os_pendingSegments st) (fst i) = Some s \<and> int (length s) = snd i - fst i)"
    "(k, s) \<in> set (os_pendingSegments st) \<Longrightarrow> (k, k + int (length s)) \<in> acc \<and> os_nextOffset st \<le> k"
    "strict \<Longrightarrow> (k, s) \<in> set (os_pendingSegments st) \<Longrightarrow> os_nextOffset st < k"
    "distinct (map fst (os_pendingSegments st))" "0 \<le> os_nextOffset st"
  using assms by (fastforce simp: seg_inv_def split: if_splits)+

lemma seg_invI:
  assumes "\<And>x. 0 \<le> x \<Longrightarrow> x < os_nextOffset st \<Longrightarrow> \<exists>i \<in> acc. fst i \<le> x \<and> x < snd i \<and> snd i \<le> os_nextOffset st"
    "\<And>i. i \<in> acc \<Longrightarrow> snd i \<le> os_nextOffset st \<or> (\<exists>s. map_of (os_pendingSegments st) (fst i) = Some s \<and> int (length s) = snd i - fst i)"
    "\<And>k s. (k, s) \<in> set (os_pendingSegments st) \<Longrightarrow> (k, k + int (length s)) \<in> acc \<and>
      (if strict then os_nextOffset st < k else os_nextOffset st \<le> k)"
    "distinct (map fst (os_pendingSegments st))" "0 \<le> os_nextOffset st"
  shows "seg_inv strict acc st"
  using assms unfolding seg_inv_def by auto

lemma seg_inv_cong:
  "os_pendingSegments st' = os_pendingSegments st \<Longrightarrow> os_nextOffset st' = os_nextOffset st \<Longrightarrow>
    seg_inv strict acc st' \<longleftrightarrow> seg_inv strict acc st"
  by (simp only: seg_inv_def)

lemma seg_inv_drain:
  "seg_inv False (set acc) st \<Longrightarrow> tiled acc \<Longrightarrow> seg_inv True (set acc) (drainContiguousSegments st)"
proof (induction st rule: drainContiguousSegments.induct)
  case (1 st)
  note D = seg_invD [OF "1.prems"(1)]
  let ?n = "os_nextOffset st" and ?segs = "os_pendingSegments st"
  show ?case
  proof (cases "map_of ?segs ?n")
    case None
    have "seg_inv True (set acc) st"
    proof (rule seg_invI)
      show "(k, k + int (length s)) \<in> set acc \<and> (if True then ?n < k else ?n \<le> k)" if "(k, s) \<in> set ?segs" for k s
        using D(3) [OF that] None that by (cases "k = ?n") (force simp: map_of_eq_None_iff)+
    qed (use D in auto)
    then show ?thesis using None by (simp add: drainContiguousSegments.simps [of st])
  next
    case (Some seg)
    let ?st' = "st\<lparr>os_pendingSegments := AList.delete ?n ?segs, os_pendingBytes := os_pendingBytes st - int (length seg),
        os_pendingPartBuffer := os_pendingPartBuffer st @ seg, os_nextOffset := ?n + int (length seg)\<rparr>"
    have s: "(?n, ?n + int (length seg)) \<in> set acc" using D(3) map_of_SomeD [OF Some] by blast
    have "seg_inv False (set acc) ?st'"
    proof (rule seg_invI)
      show "\<exists>i \<in> set acc. fst i \<le> x \<and> x < snd i \<and> snd i \<le> os_nextOffset ?st'" if "0 \<le> x" "x < os_nextOffset ?st'" for x
      proof (cases "x < ?n")
        case True
        then show ?thesis using D(1) [OF that(1) True] by fastforce
      next
        case False
        then show ?thesis using s that by (intro bexI [OF _ s]) simp
      qed
      show "snd i \<le> os_nextOffset ?st' \<or> (\<exists>s. map_of (os_pendingSegments ?st') (fst i) = Some s \<and> int (length s) = snd i - fst i)"
        if "i \<in> set acc" for i
        using D(2) [OF that] Some by (cases "fst i = ?n") (auto simp: delete_conv')
      show "(k, k + int (length s)) \<in> set acc \<and>
          (if False then os_nextOffset ?st' < k else os_nextOffset ?st' \<le> k)" if "(k, s) \<in> set (os_pendingSegments ?st')" for k s
      proof -
        have k: "(k, s) \<in> set ?segs" "k \<noteq> ?n" using that by (auto simp: AList.delete_eq)
        then show ?thesis using D(3) [OF k(1)] tiledD [OF "1.prems"(2) s, of "(k, k + int (length s))"]
            tiledD [OF "1.prems"(2), of "(k, k + int (length s))" "(k, k + int (length s))"] by auto
      qed
    qed (use D in \<open>simp_all add: distinct_delete\<close>)
    then show ?thesis using "1.IH" [OF Some] "1.prems"(2) Some by (simp add: drainContiguousSegments.simps [of st])
  qed
qed

lemma seg_inv_accept:
  assumes "seg_inv True (set acc) st" "tiled ((a, b) # acc)" "b = wrap64 (a + int (length pl))" "b = a + int (length pl)" "0 \<le> a"
    and "acceptChunk st a pl lim = (e, st')"
  shows "seg_inv True (insert (a, b) (set acc)) st'"
proof -
  note D = seg_invD [OF assms(1)]
  let ?n = "os_nextOffset st" and ?segs = "os_pendingSegments st"
  have ab: "a < b" using tiledD [OF assms(2), of "(a, b)" "(a, b)"] by simp
  have ap: "(a, b) = y \<or> b \<le> fst y \<or> snd y \<le> a" if "y \<in> set acc" for y
    using tiledD [OF assms(2), of "(a, b)" y] that by auto
  have grow: "seg_inv True (insert (a, b) (set acc)) st"
    if "b \<le> ?n \<or> (\<exists>s. map_of ?segs a = Some s \<and> int (length s) = b - a)"
    by (rule seg_invI) (use D that in fastforce)+
  consider (old) "b \<le> ?n" | (fits) "\<not> b \<le> ?n" "a = ?n" | (dup) s where "\<not> b \<le> ?n" "a \<noteq> ?n" "map_of ?segs a = Some s"
    | (park) "\<not> b \<le> ?n" "a \<noteq> ?n" "map_of ?segs a = None" by fastforce
  then show ?thesis
  proof cases
    case old
    then show ?thesis using assms(3,6) grow by (simp add: acceptChunk_def)
  next
    case dup
    have "(a, a + int (length s)) \<in> set acc" using D(3) map_of_SomeD [OF dup(3)] by blast
    then have "int (length s) = b - a" using ap [of "(a, a + int (length s))"] ab
        tiledD [OF assms(2), of "(a, a + int (length s))" "(a, a + int (length s))"] by auto
    then show ?thesis using dup assms(3,6) grow by (auto simp: acceptChunk_def)
  next
    case fits
    let ?st1 = "st\<lparr>os_pendingPartBuffer := os_pendingPartBuffer st @ pl, os_nextOffset := b\<rparr>"
    have "seg_inv False (set ((a, b) # acc)) ?st1"
    proof (rule seg_invI)
      show "\<exists>i \<in> set ((a, b) # acc). fst i \<le> x \<and> x < snd i \<and> snd i \<le> os_nextOffset ?st1" if "0 \<le> x" "x < os_nextOffset ?st1" for x
      proof (cases "x < ?n")
        case True
        then show ?thesis using D(1) [OF that(1) True] ab fits by fastforce
      next
        case False
        then show ?thesis using that fits by simp
      qed
      show "snd i \<le> os_nextOffset ?st1 \<or> (\<exists>s. map_of (os_pendingSegments ?st1) (fst i) = Some s \<and> int (length s) = snd i - fst i)"
        if "i \<in> set ((a, b) # acc)" for i
        using that D(2) [of i] ab fits by auto
      show "(k, k + int (length s)) \<in> set ((a, b) # acc) \<and> (if False then os_nextOffset ?st1 < k else os_nextOffset ?st1 \<le> k)"
        if "(k, s) \<in> set (os_pendingSegments ?st1)" for k s
        using that D(3) [of k s] D(4) [of k s] ap [of "(k, k + int (length s))"] fits by auto
    qed (use D ab assms(5) in auto)
    then have "seg_inv True (set ((a, b) # acc)) (drainContiguousSegments ?st1)" using assms(2) by (rule seg_inv_drain)
    then show ?thesis using fits assms(3,6) by (auto simp: acceptChunk_def)
  next
    case park
    have n: "?n < a"
    proof (rule ccontr)
      assume "\<not> ?n < a"
      then have "a < ?n" using park(2) by simp
      then obtain i where "i \<in> set acc" "fst i \<le> a" "a < snd i" "snd i \<le> ?n" using D(1) [OF assms(5)] by blast
      then show False using ap [of i] ab park(1) by auto
    qed
    have "seg_inv True (insert (a, b) (set acc)) (st\<lparr>os_pendingSegments := (a, pl) # ?segs, os_pendingBytes := m\<rparr>)" for m
      by (rule seg_invI) (use D n park(3) assms(4) in \<open>fastforce simp: map_of_eq_None_iff image_iff\<close>)+
    then show ?thesis using park assms(3,6) by (auto simp: acceptChunk_def Let_def split: if_splits)
  qed
qed

section \<open>Runs without failures\<close>

definition cover_inv :: "packet list \<Rightarrow> oss_transfer_state \<Rightarrow> bool" where
  "cover_inv ps st \<longleftrightarrow>
     seg_inv True (set (map chunk_interval ps)) st \<and>
     ranges_ok (os_coveredRanges st) \<and> os_coveredBytes st = int (card (covered (os_coveredRanges st))) \<and>
     covered (os_coveredRanges st) = (\<Union>i \<in> set (map chunk_interval ps). {fst i ..< snd i}) \<and>
     (os_eofSeen st \<longleftrightarrow> list_ex (\<lambda>p. EOF (Meta p)) ps)"

definition same_data :: "oss_transfer_state \<Rightarrow> oss_transfer_state \<Rightarrow> bool" where
  "same_data st st' \<longleftrightarrow> os_pendingSegments st' = os_pendingSegments st \<and> os_nextOffset st' = os_nextOffset st \<and>
     os_coveredRanges st' = os_coveredRanges st \<and> os_coveredBytes st' = os_coveredBytes st \<and>
     os_eofSeen st' = os_eofSeen st \<and> os_totalSize st' = os_totalSize st"

lemma cover_inv_same: "same_data st st' \<Longrightarrow> cover_inv ps st' = cover_inv ps st"
  by (simp add: same_data_def cover_inv_def seg_inv_def)

lemma ready_same: "same_data st st' \<Longrightarrow> readyToComplete st' = readyToComplete st"
  by (simp add: same_data_def readyToComplete_def)

lemma drive_same: "driveOSSUpload ps l r = Some r' \<Longrightarrow> same_data (run_st r) (run_st r')"
  by (cases "(ps, l, r)" rule: driveOSSUpload.cases)
    (auto simp: same_data_def nextUploadOperation_def reservePartUploadLocked_def finishPartUpload_def finishCompleteUpload_def
      split: oss_phase.splits oss_upload_op.splits if_splits)

lemma cover_accept:
  assumes "cover_inv acc st" "chunk_of file p" "in64 (int (length file))" "tiled (map chunk_interval (p # acc))"
    and "acceptPacket lim ps p st = (res, st')"
  shows "cover_inv (p # acc) st'"
proof -
  let ?a = "Offset (Meta p)" and ?pl = "Payload p"
  let ?b = "wrap64 (?a + int (length ?pl))"
  let ?st2 = "st\<lparr>os_totalSize := (if TotalSize (Meta p) > 0 then TotalSize (Meta p) else os_totalSize st),
        os_eofSeen := (EOF (Meta p) \<or> os_eofSeen st)\<rparr>"
  have e: "?b = ?a + int (length ?pl)" by (rule chunk_end [OF assms(2,3)])
  obtain er st4 where c: "acceptChunk (oss_addRange ?st2 ?a ?b) ?a ?pl lim = (er, st4)" and s: "same_data st4 st'"
    using acceptPacket_parts [OF assms(5)] by (auto simp: same_data_def split: option.splits if_splits)
  obtain rs cb where r: "add_range (os_coveredRanges st, os_coveredBytes st) ?a ?b = (rs, cb)" by fastforce
  have i: "chunk_interval p = (?a, ?b)" using e by (simp add: chunk_interval_def)
  have "seg_inv True (set (map chunk_interval acc)) st" using assms(1) by (simp add: cover_inv_def)
  then have "seg_inv True (set (map chunk_interval acc)) (oss_addRange ?st2 ?a ?b)"
    by (rule seg_inv_cong [THEN iffD2, rotated 2]) (simp_all add: oss_addRange_def Let_def)
  then have "seg_inv True (insert (?a, ?b) (set (map chunk_interval acc))) st4"
    by (rule seg_inv_accept [OF _ _ refl e _ c]) (use assms(2,4) i in \<open>simp_all add: chunk_of_def\<close>)
  moreover have "ranges_ok rs \<and> covered rs = covered (os_coveredRanges st) \<union> {?a ..< ?b} \<and> cb = int (card (covered rs))"
    using add_range_effect [OF _ _ r] assms(1) by (simp add: cover_inv_def)
  moreover have "os_coveredRanges st4 = rs" "os_coveredBytes st4 = cb" "os_eofSeen st4 = (EOF (Meta p) \<or> os_eofSeen st)"
    using acceptChunk_frame [OF c] r by (simp_all add: same_cover_def oss_addRange_def Let_def)
  ultimately have "cover_inv (p # acc) st4" using assms(1) i by (auto simp: cover_inv_def)
  then show ?thesis using cover_inv_same [OF s] by simp
qed

lemma cover_start: "cover_inv [] (run_st (start_run key upload p))"
  by (simp add: cover_inv_def seg_inv_def start_run_def new_oss_transfer_def ranges_ok_def)

text \<open>Once the chunks cover the file, the transfer is ready.\<close>

lemma covered_ready:
  assumes "cover_inv acc st" "tiled (map chunk_interval acc)" "os_totalSize st = n" "0 < n"
    "(\<Union>i \<in> set (map chunk_interval acc). {fst i ..< snd i}) = {0 ..< n}" "list_ex (\<lambda>p. EOF (Meta p)) acc"
  shows "readyToComplete st"
proof -
  let ?I = "set (map chunk_interval acc)" and ?o = "os_nextOffset st"
  have s: "seg_inv True ?I st" using assms(1) by (simp add: cover_inv_def)
  note D = seg_invD [OF s]
  have "\<not> ?o < n"
  proof
    assume "?o < n"
    then have "?o \<in> (\<Union>i \<in> ?I. {fst i ..< snd i})" using D(6) assms(5) by auto
    then obtain i where i: "i \<in> ?I" "fst i \<le> ?o" "?o < snd i" by fastforce
    then obtain sg where "map_of (os_pendingSegments st) (fst i) = Some sg" using D(2) [OF i(1)] by auto
    then show False using D(4) [OF _ map_of_SomeD] i(2) by fastforce
  qed
  moreover have "os_pendingSegments st = []"
  proof (cases "os_pendingSegments st")
    case (Cons x xs)
    obtain k sg where x: "x = (k, sg)" by fastforce
    have i: "(k, k + int (length sg)) \<in> ?I" "?o < k" using D(3,4) [of k sg] Cons x by auto
    have "k < k + int (length sg)" using tiledD [OF assms(2) i(1) i(1)] by simp
    then have "k \<in> (\<Union>i \<in> ?I. {fst i ..< snd i})" by (intro UN_I [OF i(1)]) simp
    then have "k < n" unfolding assms(5) by simp
    then show ?thesis using i(2) \<open>\<not> ?o < n\<close> by simp
  qed simp
  moreover have c: "covered (os_coveredRanges st) = {0 ..< n}" using assms(1,5) by (simp add: cover_inv_def)
  moreover have "length (os_coveredRanges st) = 1 \<and> fr_start (os_coveredRanges st ! 0) = 0 \<and> fr_end (os_coveredRanges st ! 0) = n"
    by (rule covers_single) (use assms(1,4) c in \<open>auto simp: cover_inv_def\<close>)
  ultimately show ?thesis using assms(1,3,4,6) by (simp add: readyToComplete_def cover_inv_def)
qed

text \<open>Nobody drives only when there is nothing to do.\<close>

definition busy_inv :: "int \<Rightarrow> oss_run \<Rightarrow> bool" where
  "busy_inv ps r \<longleftrightarrow> (run_phase r = Idle \<and> run_completes r = [] \<and> \<not> run_failed r \<longrightarrow> \<not> hasUploadWorkLocked ps (run_st r))"

lemma busy_accept:
  assumes "busy_inv ps r" "os_uploading (run_st r) \<longleftrightarrow> run_phase r \<noteq> Idle"
  shows "busy_inv ps (oss_Send ps p r)"
proof -
  obtain res st' where a: "acceptPacket (ps * 2) ps p (run_st r) = (res, st')" by fastforce
  obtain e st4 st3 where c: "acceptChunk st3 (Offset (Meta p)) (Payload p) (ps * 2) = (e, st4)" "os_uploading st3 = os_uploading (run_st r)"
    and res: "case e of Some err \<Rightarrow> res = Inl err \<and> st' = st4
     | None \<Rightarrow> (if os_uploading st4 \<or> \<not> hasUploadWorkLocked ps st4 then res = Inr False \<and> st' = st4
                else res = Inr True \<and> st' = st4\<lparr>os_uploading := True\<rparr>)"
    using acceptPacket_parts [OF a] by (auto simp: oss_addRange_def Let_def)
  have "os_uploading st4 = os_uploading (run_st r)" using acceptChunk_frame [OF c(1)] c(2) by (simp add: same_cover_def)
  then show ?thesis using assms res by (cases e) (auto simp: oss_Send_def a busy_inv_def split: if_splits)
qed

lemma busy_drive:
  assumes "driveOSSUpload ps l r = Some r'" "l \<noteq> CallFails"
  shows "busy_inv ps r'"
  using assms
  by (cases "(ps, l, r)" rule: driveOSSUpload.cases)
    (auto simp: busy_inv_def nextUploadOperation_def reservePartUploadLocked_def hasUploadWorkLocked_def readyToComplete_def
      split: oss_phase.splits oss_upload_op.splits if_splits)

lemma failed_sticky: "oss_step ps l r = Some r' \<Longrightarrow> run_failed r \<Longrightarrow> run_failed r'"
  by (cases "(ps, l, r)" rule: oss_step.cases)
    (auto simp: oss_Send_def split: oss_phase.splits oss_upload_op.splits sum.splits prod.splits)

definition live_inv :: "bytes \<Rightarrow> int \<Rightarrow> packet list \<Rightarrow> oss_run \<Rightarrow> bool" where
  "live_inv file ps acc r \<longleftrightarrow> oss_inv file ps r \<and> cover_inv acc (run_st r) \<and> busy_inv ps r"

lemma tiled_mono: "tiled acc \<Longrightarrow> set acc' \<subseteq> set acc \<Longrightarrow> tiled acc'"
  unfolding tiled_def list_all_iff by blast

lemma live_steps:
  "oss_steps ps ls r = Some r' \<Longrightarrow> live_inv file ps acc r \<Longrightarrow> 0 < ps \<Longrightarrow> in64 (int (length file)) \<Longrightarrow>
    list_all (label_of file) ls \<Longrightarrow> CallFails \<notin> set ls \<Longrightarrow> tiled (map chunk_interval (rev (accepted ls) @ acc)) \<Longrightarrow>
    live_inv file ps (rev (accepted ls) @ acc) r'"
proof (induction ls arbitrary: r acc)
  case (Cons l ls)
  then obtain r1 where r1: "oss_step ps l r = Some r1" "oss_steps ps ls r1 = Some r'" by (auto split: option.splits)
  have o: "oss_inv file ps r1"
    using inv_step [OF _ Cons.prems(3,4) _ r1(1)] Cons.prems(2,5) by (simp add: live_inv_def)
  let ?acc1 = "accepted [l] @ acc"
  have acc: "rev (accepted (l # ls)) @ acc = rev (accepted ls) @ ?acc1" by (cases l) simp_all
  have "live_inv file ps ?acc1 r1"
  proof (cases l)
    case (Accept p)
    obtain res st' where a: "acceptPacket (ps * 2) ps p (run_st r) = (res, st')" by fastforce
    have "tiled (map chunk_interval (p # acc))" by (rule tiled_mono [OF Cons.prems(7)]) (auto simp: Accept)
    then have "cover_inv (p # acc) st'"
      using cover_accept [OF _ _ Cons.prems(4) _ a] Cons.prems(2,5) Accept by (simp add: live_inv_def)
    moreover have "r1 = oss_Send ps p r" "run_st (oss_Send ps p r) = st'"
      using r1(1) Accept by (auto simp: oss_Send_def a split: sum.splits)
    moreover have "busy_inv ps (oss_Send ps p r)"
      using Cons.prems(2) by (intro busy_accept) (simp_all add: live_inv_def oss_inv_def)
    ultimately show ?thesis using o Accept by (simp add: live_inv_def)
  next
    case Next
    then have d: "driveOSSUpload ps l r = Some r1" using r1(1) by simp
    show ?thesis using o Cons.prems(2) cover_inv_same [OF drive_same [OF d]] busy_drive [OF d] Next by (simp add: live_inv_def)
  next
    case (CallOk tag)
    then have d: "driveOSSUpload ps l r = Some r1" using r1(1) by simp
    show ?thesis using o Cons.prems(2) cover_inv_same [OF drive_same [OF d]] busy_drive [OF d] CallOk by (simp add: live_inv_def)
  next
    case CallFails
    then show ?thesis using Cons.prems(6) by simp
  qed
  then show ?case using Cons.IH [OF r1(2) _ Cons.prems(3,4), of ?acc1] Cons.prems(5-7) acc by simp
qed simp

end
