(* ===== verification/OssGoals.thy ===== *)
theory OssGoals
  imports OssLive
begin

text \<open>
  Progress of the OSS sender: chunks that do not overlap complete the object.
\<close>

section \<open>Non-overlapping chunks complete the object\<close>

lemma oss_steps_append:
  "oss_steps ps (as @ bs) r = (case oss_steps ps as r of None \<Rightarrow> None | Some r' \<Rightarrow> oss_steps ps bs r')"
  by (induction as arbitrary: r) (auto split: option.split)

definition calls_only :: "oss_label list \<Rightarrow> bool" where
  "calls_only ls \<longleftrightarrow> list_all (\<lambda>l. l = Next \<or> l = CallOk []) ls"

text \<open>A driver that is between two calls completes a ready transfer.\<close>

lemma driving_completes:
  assumes "0 < ps" "run_phase r = Driving" "readyToComplete (run_st r)"
  shows "\<exists>ls r'. calls_only ls \<and> oss_steps ps ls r = Some r' \<and> run_completes r' \<noteq> []"
  using assms(2,3)
proof (induction "length (os_pendingPartBuffer (run_st r))" arbitrary: r rule: less_induct)
  case less
  let ?st = "run_st r"
  let ?buf = "os_pendingPartBuffer ?st"
  have part: ?case if n: "nextUploadOperation ps ?st = reservePartUploadLocked k ?st" and k: "0 < k" "k \<le> length ?buf" for k
  proof -
    obtain st1 n0 s0 where o: "nextUploadOperation ps ?st = (OpPart n0 s0 (take k ?buf), st1)"
      "st1 = ?st\<lparr>os_pendingPartBuffer := drop k ?buf\<rparr>"
      using n by (simp add: reservePartUploadLocked_def)
    define r1 where "r1 = r\<lparr>run_st := finishPartUpload (OpPart n0 s0 (take k ?buf)) (Some []) st1, run_phase := Driving,
      run_puts := run_puts r @ [(n0, take k ?buf, [])]\<rparr>"
    have r1: "oss_steps ps [Next, CallOk []] r = Some r1" using less.prems(1) o by (simp add: r1_def)
    have "same_data ?st (run_st r1)" using o(2) by (simp add: r1_def same_data_def finishPartUpload_def)
    then have "readyToComplete (run_st r1)" using less.prems(2) ready_same by blast
    moreover have "length (os_pendingPartBuffer (run_st r1)) < length ?buf"
      using o(2) k by (simp add: r1_def finishPartUpload_def)
    ultimately obtain ls r' where "calls_only ls" "oss_steps ps ls r1 = Some r'" "run_completes r' \<noteq> []"
      using less.hyps [of r1] by (auto simp: r1_def)
    then show ?thesis using r1 oss_steps_append [of ps "[Next, CallOk []]" ls r]
      by (intro exI [of _ "[Next, CallOk []] @ ls"] exI [of _ r']) (simp add: calls_only_def)
  qed
  show ?case
  proof (cases "int (length ?buf) \<ge> ps")
    case True
    then show ?thesis using part [of "nat ps"] assms(1) by (simp add: nextUploadOperation_def)
  next
    case small: False
    show ?thesis
    proof (cases "?buf = []")
      case False
      then show ?thesis using part [of "length ?buf"] small less.prems(2) by (simp add: nextUploadOperation_def)
    next
      case True
      then have "nextUploadOperation ps ?st = (OpComplete (os_objectKey ?st) (os_uploadID ?st) (completeParts ?st), ?st)"
        using small less.prems(2) by (simp add: nextUploadOperation_def)
      then have "\<exists>r'. oss_steps ps [Next, CallOk []] r = Some r' \<and> run_completes r' \<noteq> []"
        using less.prems(1) by simp
      then show ?thesis by (intro exI [of _ "[Next, CallOk []]"]) (auto simp: calls_only_def)
    qed
  qed
qed

lemma phase_completes:
  assumes "0 < ps" "run_phase r \<noteq> Idle" "run_phase r \<noteq> Calling OpNone" "readyToComplete (run_st r)"
  shows "\<exists>ls r'. calls_only ls \<and> oss_steps ps ls r = Some r' \<and> run_completes r' \<noteq> []"
proof (cases "run_phase r = Driving")
  case False
  then obtain op where ph: "run_phase r = Calling op" using assms(2) by (cases "run_phase r") auto
  then obtain r1 where r1: "oss_step ps (CallOk []) r = Some r1" "run_phase r1 = Driving \<or> run_completes r1 \<noteq> []"
    using assms(3) by (cases op) auto
  show ?thesis
  proof (cases "run_completes r1 = []")
    case False
    then show ?thesis using r1(1) by (intro exI [of _ "[CallOk []]"]) (simp add: calls_only_def)
  next
    case True
    have "readyToComplete (run_st r1)" using drive_same [of ps "CallOk []" r r1] r1(1) ready_same assms(4) by simp
    then obtain ls r' where "calls_only ls" "oss_steps ps ls r1 = Some r'" "run_completes r' \<noteq> []"
      using driving_completes [OF assms(1), of r1] r1(2) True by blast
    then show ?thesis using r1(1) by (intro exI [of _ "CallOk [] # ls"] exI [of _ r']) (simp add: calls_only_def)
  qed
qed (use driving_completes assms in blast)

text \<open>C10: chunks that do not overlap are enough. When the chunks of a file have arrived, in any order and
  interleaved with the upload in any way, covering the file, repeated or not but never partly overlapping,
  one of them marked as the end, and no call of the storage API failed and the bound on
  waiting bytes was not exceeded, then the upload is completed after finitely many further successful
  calls, with exactly the bytes of the file.\<close>

theorem oss_tiled_chunks_complete:
  assumes "0 < ps" "in64 (int (length file))" "file \<noteq> []" "chunk_of file p0" "list_all (label_of file) ls"
    and "CallFails \<notin> set ls" "tiled (map chunk_interval (accepted ls))"
    and "(\<Union>i \<in> set (map chunk_interval (accepted ls)). {fst i ..< snd i}) = {0 ..< int (length file)}"
    and "list_ex (\<lambda>p. EOF (Meta p)) (accepted ls)"
    and "oss_steps ps ls (start_run key upload p0) = Some r" "\<not> run_failed r"
  shows "\<exists>ls' r'. calls_only ls' \<and> oss_steps ps (ls @ ls') (start_run key upload p0) = Some r' \<and>
    run_completes r' \<noteq> [] \<and> put_bytes r' = file"
proof -
  let ?acc = "rev (accepted ls)"
  have "live_inv file ps [] (start_run key upload p0)"
    using inv_start [OF assms(4)] cover_start assms(1)
    by (simp add: live_inv_def busy_inv_def start_run_def new_oss_transfer_def hasUploadWorkLocked_def readyToComplete_def)
  moreover have t: "tiled (map chunk_interval ?acc)" by (rule tiled_mono [OF assms(7)]) simp
  ultimately have live: "live_inv file ps ?acc r" using live_steps [OF assms(10) _ assms(1,2,5,6), of "[]"] by simp
  have c: "cover_inv ?acc (run_st r)" "os_totalSize (run_st r) = int (length file)"
    using live by (simp_all add: live_inv_def oss_inv_def st_inv_def)
  have ready: "readyToComplete (run_st r)"
    by (rule covered_ready [OF c(1) t c(2)]) (use assms(3,8,9) in simp_all)
  have "\<exists>ls' r'. calls_only ls' \<and> oss_steps ps ls' r = Some r' \<and> run_completes r' \<noteq> []"
  proof (cases "run_completes r = []")
    case False
    then show ?thesis by (intro exI [of _ "[]"]) (simp add: calls_only_def)
  next
    case True
    have "run_phase r \<noteq> Idle" using live ready True assms(11) by (auto simp: live_inv_def busy_inv_def hasUploadWorkLocked_def)
    moreover have "run_phase r \<noteq> Calling OpNone" using live by (auto simp: live_inv_def oss_inv_def phase_inv_def)
    ultimately show ?thesis using phase_completes [OF assms(1) _ _ ready] by blast
  qed
  then obtain ls' r' where l: "calls_only ls'" "oss_steps ps ls' r = Some r'" "run_completes r' \<noteq> []" by blast
  have "list_all (label_of file) ls'" using l(1) by (auto simp: calls_only_def list_all_iff)
  then have "oss_inv file ps r'"
    using inv_steps [OF l(2) _ assms(1,2)] live by (simp add: live_inv_def)
  then have "put_bytes r' = file" using l(3) by (simp add: oss_inv_def)
  then show ?thesis using l assms(10) oss_steps_append [of ps ls ls'] by auto
qed

definition tiled_labels :: "oss_label list" where
  "tiled_labels =
     [Accept (oss_chunk sample_file 3 2 True), Accept (oss_chunk sample_file 0 3 False), Next,
      Accept (oss_chunk sample_file 3 2 False)]"

lemma tiled_labels_run:
  "map_option run_failed (oss_steps 2 tiled_labels (start_run ''k'' ''u'' (oss_chunk sample_file 3 2 True))) = Some False"
  "list_all (label_of sample_file) tiled_labels" "tiled (map chunk_interval (accepted tiled_labels))"
  "map chunk_interval (accepted tiled_labels) = [(3, 5), (0, 3), (3, 5)]" "list_ex (\<lambda>p. EOF (Meta p)) (accepted tiled_labels)"
  by code_simp+

theorem oss_tiled_chunks_complete_witness:
  "\<exists>ls' r'. calls_only ls' \<and>
     oss_steps 2 (tiled_labels @ ls') (start_run ''k'' ''u'' (oss_chunk sample_file 3 2 True)) = Some r' \<and>
     run_completes r' \<noteq> [] \<and> put_bytes r' = sample_file"
proof -
  obtain r where r: "oss_steps 2 tiled_labels (start_run ''k'' ''u'' (oss_chunk sample_file 3 2 True)) = Some r" "\<not> run_failed r"
    using tiled_labels_run(1) by auto
  have u: "(\<Union>i \<in> set (map chunk_interval (accepted tiled_labels)). {fst i ..< snd i}) = {0 ..< int (length sample_file)}"
    unfolding tiled_labels_run(4) by (auto simp: sample_file_def)
  have f: "CallFails \<notin> set tiled_labels" by (simp add: tiled_labels_def)
  show ?thesis
    by (rule oss_tiled_chunks_complete [OF _ _ _ sample_labels_ok(1) tiled_labels_run(2) f tiled_labels_run(3) u tiled_labels_run(5) r])
      (simp_all add: in64_def sample_file_def)
qed

end
