(* ===== verification/GoNet.thy ===== *)
theory GoNet
  imports GoStrings
begin

text \<open>
  The parsers of Go's standard library that the validation calls: \<open>time.ParseDuration\<close>,
  \<open>net.SplitHostPort\<close>, \<open>base64.RawStdEncoding.DecodeString\<close> (its length) and \<open>strings.Index\<close>.
\<close>

section \<open>time.ParseDuration\<close>

text \<open>Durations are nanoseconds. The value of a fraction is its exact floor.\<close>

definition is_digit :: "char \<Rightarrow> bool" where
  "is_digit c \<longleftrightarrow> (48 :: nat) \<le> of_char c \<and> (of_char c :: nat) \<le> 57"

definition digits_value :: "string \<Rightarrow> nat" where
  "digits_value ds = foldl (\<lambda>v c. v * 10 + (of_char c - 48)) 0 ds"

definition unit_ns :: "string \<Rightarrow> nat option" where
  "unit_ns u =
     (if u = ''ns'' then Some 1
      else if u = ''us'' \<or> u = [CHR 0xC2, CHR 0xB5] @ ''s'' \<or> u = [CHR 0xCE, CHR 0xBC] @ ''s'' then Some 1000
      else if u = ''ms'' then Some 1000000
      else if u = ''s'' then Some 1000000000
      else if u = ''m'' then Some 60000000000
      else if u = ''h'' then Some 3600000000000
      else None)"

text \<open>One number with its unit: its value and the rest.\<close>

definition duration_step :: "string \<Rightarrow> (nat \<times> string) option" where
  "duration_step s =
     (let pre = takeWhile is_digit s; s1 = dropWhile is_digit s;
          dot = (s1 \<noteq> [] \<and> hd s1 = CHR ''.'');
          frac = (if dot then takeWhile is_digit (tl s1) else []);
          s2 = (if dot then dropWhile is_digit (tl s1) else s1);
          u = takeWhile (\<lambda>c. \<not> (c = CHR ''.'' \<or> is_digit c)) s2;
          s3 = dropWhile (\<lambda>c. \<not> (c = CHR ''.'' \<or> is_digit c)) s2
      in if (pre = [] \<and> frac = []) \<or> u = [] then None
         else case unit_ns u of
                None \<Rightarrow> None
              | Some n \<Rightarrow>
                  let v = digits_value pre * n + digits_value frac * n div 10 ^ length frac
                  in if digits_value pre * n > 2 ^ 63 \<or> v > 2 ^ 63 then None else Some (v, s3))"

lemma duration_step_shorter: "duration_step s = Some (v, s') \<Longrightarrow> length s' < length s"
proof -
  assume a: "duration_step s = Some (v, s')"
  let ?s1 = "dropWhile is_digit s"
  let ?dot = "?s1 \<noteq> [] \<and> hd ?s1 = CHR ''.''"
  let ?s2 = "if ?dot then dropWhile is_digit (tl ?s1) else ?s1"
  let ?q = "\<lambda>c. \<not> (c = CHR ''.'' \<or> is_digit c)"
  have s: "s' = dropWhile ?q ?s2" "takeWhile ?q ?s2 \<noteq> []"
    using a by (auto simp: duration_step_def Let_def split: if_splits option.splits)
  have l: "length (dropWhile P xs) \<le> length xs" for P and xs :: string by (rule length_dropWhile_le)
  have "length ?s2 \<le> length s" 
  proof -
    have "length (if ?dot then dropWhile is_digit (tl ?s1) else ?s1) \<le> length ?s1"
      using l [of is_digit "tl ?s1"] by (cases ?s1) auto
    then show ?thesis using l [of is_digit s] by linarith
  qed
  moreover have "length ?s2 = length (takeWhile ?q ?s2) + length (dropWhile ?q ?s2)"
    by (metis length_append takeWhile_dropWhile_id)
  ultimately show ?thesis using s by (cases "takeWhile ?q ?s2") auto
qed

function duration_loop :: "string \<Rightarrow> nat \<Rightarrow> nat option" where
  "duration_loop s d =
     (if s = [] then Some d
      else case duration_step s of
             None \<Rightarrow> None
           | Some (v, s') \<Rightarrow> if d + v > 2 ^ 63 then None else duration_loop s' (d + v))"
  by pat_completeness auto
termination
  by (relation "measure (\<lambda>(s, d). length s)") (auto dest: duration_step_shorter)

declare duration_loop.simps [simp del]

definition parse_duration :: "string \<Rightarrow> int option" where
  "parse_duration s0 =
     (let sign = (s0 \<noteq> [] \<and> (hd s0 = CHR ''-'' \<or> hd s0 = CHR ''+''));
          neg = (sign \<and> hd s0 = CHR ''-'');
          s = (if sign then tl s0 else s0)
      in if s = ''0'' then Some 0
         else if s = [] then None
         else case duration_loop s 0 of
                None \<Rightarrow> None
              | Some d \<Rightarrow> if neg then Some (- int d) else if d > 2 ^ 63 - 1 then None else Some (int d))"

section \<open>net.SplitHostPort\<close>

fun last_index_from :: "nat \<Rightarrow> char \<Rightarrow> string \<Rightarrow> nat option \<Rightarrow> nat option" where
  "last_index_from i c [] found = found"
| "last_index_from i c (x # xs) found = last_index_from (Suc i) c xs (if x = c then Some i else found)"

fun index_from :: "nat \<Rightarrow> char \<Rightarrow> string \<Rightarrow> nat option" where
  "index_from i c [] = None"
| "index_from i c (x # xs) = (if x = c then Some i else index_from (Suc i) c xs)"

definition addr_err :: "string \<Rightarrow> string \<Rightarrow> go_error" where
  "addr_err addr why = Errorf ''address %s: %s'' [AStr addr, AStr why]"

definition SplitHostPort :: "string \<Rightarrow> (string \<times> string) result" where
  "SplitHostPort hp =
     (case last_index_from 0 CHR '':'' hp None of
        None \<Rightarrow> Inl (addr_err hp ''missing port in address'')
      | Some i \<Rightarrow>
          (let cut = (if hd hp = CHR ''['' then
               (case index_from 0 CHR '']'' hp of
                  None \<Rightarrow> Inl (addr_err hp ''missing ']' in address'')
                | Some e \<Rightarrow>
                    if e + 1 = length hp then Inl (addr_err hp ''missing port in address'')
                    else if e + 1 = i then Inr (take (e - 1) (drop 1 hp), 1, e + 1)
                    else if hp ! (e + 1) = CHR '':'' then Inl (addr_err hp ''too many colons in address'')
                    else Inl (addr_err hp ''missing port in address''))
             else if CHR '':'' \<in> set (take i hp) then Inl (addr_err hp ''too many colons in address'')
             else Inr (take i hp, 0, 0))
           in case cut of
                Inl e \<Rightarrow> Inl e
              | Inr (host, j, k) \<Rightarrow>
                  if CHR ''['' \<in> set (drop j hp) then Inl (addr_err hp ''unexpected '[' in address'')
                  else if CHR '']'' \<in> set (drop k hp) then Inl (addr_err hp ''unexpected ']' in address'')
                  else Inr (host, drop (i + 1) hp)))"

text \<open>Joining a plain host and port with a colon is what \<open>SplitHostPort\<close> splits.\<close>

lemma last_index_from_none: "c \<notin> set xs \<Longrightarrow> last_index_from i c xs f = f"
  by (induction xs arbitrary: i f) auto

lemma last_index_from_mid: "c \<notin> set ys \<Longrightarrow> last_index_from i c (xs @ c # ys) f = Some (i + length xs)"
  by (induction xs arbitrary: i f) (auto simp: last_index_from_none)

lemma SplitHostPort_plain:
  assumes "set host \<inter> set '':[]'' = {}" "set port \<inter> set '':[]'' = {}"
  shows "SplitHostPort (host @ CHR '':'' # port) = Inr (host, port)"
proof -
  have "hd (host @ CHR '':'' # port) \<noteq> CHR ''[''" using assms(1) by (cases host) auto
  then show ?thesis using assms by (auto simp: SplitHostPort_def last_index_from_mid)
qed

section \<open>strings.Index and base64\<close>

text \<open>The rest after the first occurrence of \<open>://\<close>, when there is one.\<close>

fun after_scheme :: "string \<Rightarrow> string option" where
  "after_scheme [] = None"
| "after_scheme (c # s) = (if has_prefix (c # s) ''://'' then Some (drop 2 s) else after_scheme s)"

definition base64_char :: "char \<Rightarrow> bool" where
  "base64_char c \<longleftrightarrow>
     (let n = of_char c :: nat in 65 \<le> n \<and> n \<le> 90 \<or> 97 \<le> n \<and> n \<le> 122 \<or> 48 \<le> n \<and> n \<le> 57 \<or> n = 43 \<or> n = 47)"

text \<open>
  The number of bytes that \<open>RawStdEncoding.DecodeString\<close> gives; it skips line breaks, and its error does
  not carry the position here.
\<close>

definition raw_base64_length :: "string \<Rightarrow> nat result" where
  "raw_base64_length s =
     (let t = filter (\<lambda>c. c \<noteq> CHR 0x0A \<and> c \<noteq> CHR 0x0D) s in
      if list_all base64_char t \<and> length t mod 4 \<noteq> 1 then Inr (length t * 6 div 8)
      else Inl (Errorf ''illegal base64 data'' []))"

end
