(* ===== verification/Validate.thy ===== *)
theory Validate
  imports Config GoPath GoNet Stages
begin

text \<open>
  \<open>src/src/config/validate.go\<close>: \<open>Config.Validate\<close> and everything it calls. A validation is the list of its
  checks in the code's order; the first one that fails is the error (\<open>first_err\<close>). A loop over a map visits
  the list of its entries. \<open>rx\<close> is \<open>regexp.Compile\<close> and \<open>ip\<close> says which strings \<open>net.ParseIP\<close> accepts; every
  theorem holds for all of them.
\<close>

named_theorems valid_iff \<open>when a check of the configuration passes\<close>

section \<open>Small checks\<close>

definition blank :: "string \<Rightarrow> bool" where "blank s \<longleftrightarrow> trim_space s = []"

text \<open>A check that is only made under a condition.\<close>

definition only_if :: "bool \<Rightarrow> go_error option \<Rightarrow> go_error option" where
  "only_if b c = (if b then c else None)"

lemma only_if_None [simp, valid_iff]: "only_if b c = None \<longleftrightarrow> (b \<longrightarrow> c = None)"
  by (simp add: only_if_def)

lemma first_err_append: "first_err (as @ bs) = (case first_err as of None \<Rightarrow> first_err bs | Some e \<Rightarrow> Some e)"
  by (induction as rule: first_err.induct) auto

definition errors_New :: "string \<Rightarrow> go_error" where "errors_New s = Errorf s []"

definition positive_duration :: "string \<Rightarrow> bool" where
  "positive_duration v = (case parse_duration v of None \<Rightarrow> False | Some d \<Rightarrow> d > 0)"

definition validatePositiveDurationByType :: "string \<Rightarrow> string \<Rightarrow> string \<Rightarrow> string \<Rightarrow> string \<Rightarrow> go_error option" where
  "validatePositiveDurationByType kind name typ field v =
     only_if (\<not> blank v) (fail_if (\<not> positive_duration v)
       (Errorf ''%s %s %s %s must be a valid duration > 0'' [AStr kind, AStr name, AStr typ, AStr field]))"

definition validatePositiveDurationField :: "string \<Rightarrow> string \<Rightarrow> string \<Rightarrow> string \<Rightarrow> go_error option" where
  "validatePositiveDurationField kind name field v = validatePositiveDurationByType kind name ''kafka'' field v"

definition validateKafkaAuth :: "string \<Rightarrow> string \<Rightarrow> string \<Rightarrow> string \<Rightarrow> string \<Rightarrow> go_error option" where
  "validateKafkaAuth kind name mechanism username password =
     (if mechanism = [] \<and> username = [] \<and> password = [] then None
      else if username = [] \<or> password = [] then
        Some (Errorf ''%s %s kafka auth requires both username and password'' [AStr kind, AStr name])
      else if mechanism \<in> set [[], ''PLAIN'', ''plain''] then None
      else Some (Errorf ''%s %s kafka unsupported sasl_mechanism %s'' [AStr kind, AStr name, AStr mechanism]))"

definition validateHostPort :: "string \<Rightarrow> string \<Rightarrow> string \<Rightarrow> string \<Rightarrow> go_error option" where
  "validateHostPort kind name field addr =
     (if blank addr then Some (Errorf ''%s %s %s must be host:port'' [AStr kind, AStr name, AStr field])
      else case SplitHostPort addr of
             Inl err \<Rightarrow> Some (Errorf ''%s %s %s must be host:port: %w'' [AStr kind, AStr name, AStr field, AErr err])
           | Inr (host, port) \<Rightarrow>
               fail_if (blank port) (Errorf ''%s %s %s must include port'' [AStr kind, AStr name, AStr field]))"

definition stripAddrScheme :: "string \<Rightarrow> string" where
  "stripAddrScheme addr = (case after_scheme (trim_space addr) of None \<Rightarrow> trim_space addr | Some rest \<Rightarrow> rest)"

definition ValidateSSHHostKeyFingerprint :: "string \<Rightarrow> go_error option" where
  "ValidateSSHHostKeyFingerprint f =
     (let v = trim_space f; raw = trim_space (trim_prefix v ''SHA256:'') in
      if v = [] then Some (errors_New ''empty fingerprint'')
      else if \<not> has_prefix v ''SHA256:'' then Some (Errorf ''must start with %q'' [AStr ''SHA256:''])
      else if raw = [] then Some (errors_New ''missing base64 digest'')
      else case raw_base64_length raw of
             Inl err \<Rightarrow> Some (Errorf ''invalid base64 digest: %w'' [AErr err])
           | Inr n \<Rightarrow> fail_if (n \<noteq> 32) (Errorf ''invalid digest length: got %d, want 32'' [AInt (int n)]))"

text \<open>\<open>concurrency&(concurrency-1) != 0\<close> on a positive \<open>int\<close>.\<close>

definition validateSenderConcurrency :: "string \<Rightarrow> int \<Rightarrow> go_error option" where
  "validateSenderConcurrency sn concurrency =
     (if concurrency \<le> 0 then None
      else fail_if (and concurrency (concurrency - 1) \<noteq> 0) (Errorf ''sender %s concurrency must be a power of two'' [AStr sn]))"

section \<open>Logging, control and stages\<close>

definition validateLoggingConfig :: "logging_config \<Rightarrow> go_error option" where
  "validateLoggingConfig lc = first_err
     [fail_if (to_lower (trim_space (lc_Level lc)) \<notin> set [[], ''debug'', ''info'', ''warn'', ''warning'', ''error''])
        (Errorf ''logging level unsupported: %s'' [AStr (lc_Level lc)]),
      fail_if (\<not> blank (lc_TrafficStatsInterval lc) \<and> \<not> positive_duration (lc_TrafficStatsInterval lc))
        (errors_New ''logging traffic_stats_interval must be a valid duration > 0''),
      fail_if (lc_TrafficStatsSampleEvery lc < 0) (errors_New ''logging traffic_stats_sample_every must be >= 0'')]"

text \<open>The cases of a route stage; \<open>keyLen\<close> is negative before the first one.\<close>

fun validate_cases :: "string \<Rightarrow> int \<Rightarrow> (string \<times> string) list \<Rightarrow> go_error option" where
  "validate_cases pre keyLen [] = None"
| "validate_cases pre keyLen ((hk, senderName) # cs) =
     (case hex_decode hk of
        Inl err \<Rightarrow> Some (Errorf ''%s route case %s invalid hex: %w'' [AStr pre, AStr hk, AErr err])
      | Inr v \<Rightarrow>
          if v = [] then Some (Errorf ''%s route case %s empty hex'' [AStr pre, AStr hk])
          else if 0 \<le> keyLen \<and> int (length v) \<noteq> keyLen then
            Some (Errorf ''%s route case %s length mismatch, want %d got %d'' [AStr pre, AStr hk, AInt keyLen, AInt (int (length v))])
          else if blank senderName then Some (Errorf ''%s route case %s sender empty'' [AStr pre, AStr hk])
          else validate_cases pre (if keyLen < 0 then int (length v) else keyLen) cs)"

definition stage_prefix :: "string \<Rightarrow> nat \<Rightarrow> stage_config \<Rightarrow> string" where
  "stage_prefix pipelineName idx sc = ''pipeline '' @ pipelineName @ '' stage['' @ itoa (int idx) @ ''] '' @ st_Type sc"

definition validateStageConfig :: "(string \<Rightarrow> regex result) \<Rightarrow> string \<Rightarrow> nat \<Rightarrow> stage_config \<Rightarrow> go_error option" where
  "validateStageConfig rx pipelineName idx sc =
     (let pre = stage_prefix pipelineName idx sc;
          offset = fail_if (st_Offset sc < 0) (Errorf ''%s offset must be >= 0'' [AStr pre]) in
      if st_Type sc \<in> set [''match_offset_bytes'', ''replace_offset_bytes''] then
        first_err [offset,
          (case hex_decode (st_Hex sc) of Inl err \<Rightarrow> Some (Errorf ''%s hex invalid: %w'' [AStr pre, AErr err]) | Inr _ \<Rightarrow> None)]
      else if st_Type sc = ''route_offset_bytes_sender'' then
        first_err [offset,
          fail_if (elems (st_Cases sc) = []) (Errorf ''%s requires non-empty cases'' [AStr pre]),
          validate_cases pre (- 1) (elems (st_Cases sc))]
      else if st_Type sc = ''set_kafka_record_key_from_offset_bytes'' then
        first_err [offset,
          fail_if (st_Length sc \<le> 0) (Errorf ''%s length must be > 0'' [AStr pre]),
          fail_if (trim_space (st_Encoding sc) \<notin> set [''text'', ''hex'']) (Errorf ''%s encoding must be text or hex'' [AStr pre])]
      else if st_Type sc = ''set_target_file_path'' then
        fail_if (blank (st_Value sc)) (Errorf ''%s requires value'' [AStr pre])
      else if st_Type sc \<in> set [''rewrite_target_path_strip_prefix'', ''rewrite_target_path_add_prefix''] then
        fail_if (blank (st_Prefix sc)) (Errorf ''%s requires prefix'' [AStr pre])
      else if st_Type sc = ''rewrite_target_filename_replace'' then
        fail_if (st_Old sc = []) (Errorf ''%s requires old'' [AStr pre])
      else if st_Type sc \<in> set [''rewrite_target_path_regex'', ''rewrite_target_filename_regex''] then
        (case rx (st_Pattern sc) of Inl err \<Rightarrow> Some (Errorf ''%s invalid pattern: %w'' [AStr pre, AErr err]) | Inr _ \<Rightarrow> None)
      else Some (Errorf ''pipeline %s unknown stage type: %s'' [AStr pipelineName, AStr (st_Type sc)]))"

fun validate_stages :: "(string \<Rightarrow> regex result) \<Rightarrow> string \<Rightarrow> nat \<Rightarrow> stage_config list \<Rightarrow> go_error option" where
  "validate_stages rx pn i [] = None"
| "validate_stages rx pn i (sc # scs) =
     (case validateStageConfig rx pn i sc of Some e \<Rightarrow> Some e | None \<Rightarrow> validate_stages rx pn (Suc i) scs)"

definition validate_pipeline :: "(string \<Rightarrow> regex result) \<Rightarrow> string \<times> stage_config slice \<Rightarrow> go_error option" where
  "validate_pipeline rx p = first_err
     [fail_if (blank (fst p)) (errors_New ''pipeline name empty''), validate_stages rx (fst p) 0 (elems (snd p))]"

section \<open>Tasks, task sets, selectors\<close>

text \<open>The senders a route stage can name, without repetition.\<close>

fun case_targets :: "(string \<times> string) list \<Rightarrow> string list \<Rightarrow> string list" where
  "case_targets [] targets = targets"
| "case_targets ((hk, sn) # cs) targets = case_targets cs (if sn = [] \<or> sn \<in> set targets then targets else targets @ [sn])"

definition routeStageTargets :: "stage_config \<Rightarrow> string list" where
  "routeStageTargets sc =
     (let targets = case_targets (elems (st_Cases sc)) [] in
      if st_DefaultSender sc \<noteq> [] \<and> st_DefaultSender sc \<notin> set targets then targets @ [st_DefaultSender sc] else targets)"

definition validate_task_routes :: "config \<Rightarrow> string \<Rightarrow> task_config \<Rightarrow> string \<Rightarrow> go_error option" where
  "validate_task_routes c tn t pn = first_err
     (map (\<lambda>sc. only_if (st_Type sc = ''route_offset_bytes_sender'')
        (first_err (map (\<lambda>target. fail_if (target \<notin> set (elems (tc_Senders t)))
           (Errorf ''task %s pipeline %s route target sender %s not in task senders'' [AStr tn, AStr pn, AStr target]))
           (routeStageTargets sc))))
        (case mget (elems (cfg_Pipelines c)) pn of None \<Rightarrow> [] | Some stages \<Rightarrow> elems stages))"

definition validate_task :: "config \<Rightarrow> string \<times> task_config \<Rightarrow> go_error option" where
  "validate_task c nt =
     (let tn = fst nt; t = snd nt in first_err
        ([fail_if (tn = []) (errors_New ''task name empty''),
          fail_if (elems (tc_Senders t) = []) (Errorf ''task %s has no senders'' [AStr tn]),
          fail_if (tc_ExecutionModel t \<notin> set [[], ''fastpath'', ''pool'', ''channel''])
            (Errorf ''task %s unsupported execution_model %q'' [AStr tn, AStr (tc_ExecutionModel t)]),
          fail_if (tc_ChannelQueueSize t < 0) (Errorf ''task %s channel_queue_size must be >= 0'' [AStr tn])] @
         map (\<lambda>pn. fail_if (\<not> mhas (elems (cfg_Pipelines c)) pn) (Errorf ''task %s pipeline %s not found'' [AStr tn, AStr pn]))
           (elems (tc_Pipelines t)) @
         map (\<lambda>sn. fail_if (\<not> mhas (elems (cfg_Senders c)) sn) (Errorf ''task %s sender %s not found'' [AStr tn, AStr sn]))
           (elems (tc_Senders t)) @
         map (validate_task_routes c tn t) (elems (tc_Pipelines t))))"

definition validate_task_set :: "config \<Rightarrow> string \<times> string slice \<Rightarrow> go_error option" where
  "validate_task_set c nts =
     (let tsn = fst nts; taskNames = elems (snd nts) in first_err
        ([fail_if (tsn = []) (errors_New ''task set name empty''),
          fail_if (taskNames = []) (Errorf ''task set %s has no tasks'' [AStr tsn])] @
         map (\<lambda>tn. first_err
           [fail_if (tn = []) (Errorf ''task set %s has empty task name'' [AStr tsn]),
            fail_if (\<not> mhas (elems (cfg_Tasks c)) tn) (Errorf ''task set %s task %s not found'' [AStr tsn, AStr tn])]) taskNames))"

definition validate_selector :: "config \<Rightarrow> string \<times> selector_config \<Rightarrow> go_error option" where
  "validate_selector c ns =
     (let sn = fst ns; sc = snd ns in first_err
        ([fail_if (sn = []) (errors_New ''selector name empty'')] @
         map (\<lambda>(key, taskSetName). first_err
           [fail_if (blank key) (Errorf ''selector %s has empty match key'' [AStr sn]),
            fail_if (blank taskSetName) (Errorf ''selector %s match key %s has empty task set'' [AStr sn, AStr key]),
            fail_if (\<not> mhas (elems (cfg_TaskSets c)) taskSetName) (Errorf ''selector %s task set %s not found'' [AStr sn, AStr taskSetName])])
           (elems (se_Matches sc)) @
         [fail_if (se_DefaultTaskSet sc \<noteq> [] \<and> \<not> mhas (elems (cfg_TaskSets c)) (se_DefaultTaskSet sc))
            (Errorf ''selector %s default task set %s not found'' [AStr sn, AStr (se_DefaultTaskSet sc)])]))"

end
