(* ===== verification/ValidateEnds.thy ===== *)
theory ValidateEnds
  imports Validate
begin

text \<open>
  The second half of \<open>src/src/config/validate.go\<close>: receivers, senders, their options, and \<open>Validate\<close> itself.
\<close>

section \<open>Match keys\<close>

text \<open>The Chinese words of three messages, in UTF-8.\<close>

definition zh_unsupported :: string where
  "zh_unsupported = [CHR 0xE4, CHR 0xB8, CHR 0x8D, CHR 0xE6, CHR 0x94, CHR 0xAF, CHR 0xE6, CHR 0x8C, CHR 0x81]"

definition zh_not_empty :: string where
  "zh_not_empty = [CHR 0xE4, CHR 0xB8, CHR 0x8D, CHR 0xE8, CHR 0x83, CHR 0xBD, CHR 0xE4, CHR 0xB8, CHR 0xBA, CHR 0xE7, CHR 0xA9, CHR 0xBA]"

definition zh_only_in :: string where
  "zh_only_in = [CHR 0xE4, CHR 0xBB, CHR 0x85, CHR 0xE5, CHR 0x8F, CHR 0xAF, CHR 0xE5, CHR 0x9C, CHR 0xA8]"

definition zh_when_configured :: string where
  "zh_when_configured = [CHR 0xE6, CHR 0x97, CHR 0xB6, CHR 0xE9, CHR 0x85, CHR 0x8D, CHR 0xE7, CHR 0xBD, CHR 0xAE]"

definition ErrUnsupportedReceiverMatchKeyMode :: "string \<Rightarrow> string \<Rightarrow> go_error" where
  "ErrUnsupportedReceiverMatchKeyMode receiverType mode =
     Errorf (''%s receiver match_key.mode '' @ zh_unsupported @ '': %s'') [AStr receiverType, AStr mode]"

definition match_key_modes :: "(string \<times> string list) list" where
  "match_key_modes =
     [(''udp_gnet'', [[], ''remote_addr'', ''remote_ip'', ''local_addr'', ''local_ip'', ''fixed'']),
      (''tcp_gnet'', [[], ''remote_addr'', ''remote_ip'', ''local_addr'', ''local_port'', ''fixed'']),
      (''kafka'', [[], ''topic'', ''topic_partition'', ''fixed'']),
      (''sftp'', [[], ''remote_path'', ''filename'', ''fixed'']),
      (''oss'', [[], ''remote_path'', ''filename'', ''fixed'']),
      (''dds_skydds'', [[], ''fixed'']),
      (''local_timer'', [[], ''fixed''])]"

definition validateReceiverMatchKey :: "string \<Rightarrow> receiver_config \<Rightarrow> go_error option" where
  "validateReceiverMatchKey name rc =
     (let mode = trim_space (mk_Mode (rc_MatchKey rc)); fixedValue = mk_FixedValue (rc_MatchKey rc) in
      first_err
       [(case map_of match_key_modes (rc_Type rc) of
           None \<Rightarrow> Some (Errorf ''receiver %s unknown type %s'' [AStr name, AStr (rc_Type rc)])
         | Some modes \<Rightarrow> fail_if (mode \<notin> set modes)
             (Errorf ''receiver %s: %w'' [AStr name, AErr (ErrUnsupportedReceiverMatchKeyMode (rc_Type rc) mode)])),
        fail_if (mode = ''fixed'' \<and> blank fixedValue)
          (Errorf (''receiver %s %s match_key.fixed_value '' @ zh_not_empty) [AStr name, AStr (rc_Type rc)]),
        fail_if (mode \<noteq> ''fixed'' \<and> \<not> blank fixedValue)
          (Errorf (''receiver %s %s match_key.fixed_value '' @ zh_only_in @ '' mode=fixed '' @ zh_when_configured) [AStr name, AStr (rc_Type rc)])])"

section \<open>Receiver options\<close>

definition validateLocalTimerReceiver :: "string \<Rightarrow> receiver_config \<Rightarrow> go_error option" where
  "validateLocalTimerReceiver name rc =
     (let g = rc_Generator rc; hasInterval = (\<not> blank (lg_Interval g)); hasRate = (lg_RatePerSec g > 0);
          duration = (\<lambda>field v. validatePositiveDurationByType ''receiver'' name ''local_timer'' field v)
      in first_err
       [fail_if (blank (lg_PayloadData g)) (Errorf ''receiver %s local_timer generator payload_data required'' [AStr name]),
        fail_if (trim_space (lg_PayloadFormat g) \<notin> set [''hex'', ''text'', ''base64''])
          (Errorf ''receiver %s local_timer generator payload_format must be one of hex/text/base64'' [AStr name]),
        fail_if (lg_RatePerSec g < 0) (Errorf ''receiver %s local_timer generator rate_per_sec must be > 0'' [AStr name]),
        fail_if (hasInterval = hasRate)
          (Errorf ''receiver %s local_timer generator interval and rate_per_sec must be configured exactly one'' [AStr name]),
        only_if hasInterval (duration ''generator.interval'' (lg_Interval g)),
        only_if (\<not> blank (lg_TickInterval g)) (duration ''generator.tick_interval'' (lg_TickInterval g)),
        only_if (\<not> blank (lg_StartDelay g)) (duration ''generator.start_delay'' (lg_StartDelay g)),
        fail_if (lg_TotalPackets g < 0) (Errorf ''receiver %s local_timer generator total_packets must be >= 0'' [AStr name])])"

text \<open>\<open>d, _ := time.ParseDuration(v)\<close>: zero when it does not parse.\<close>

definition duration_or_zero :: "string \<Rightarrow> int" where
  "duration_or_zero v = (case parse_duration v of None \<Rightarrow> 0 | Some d \<Rightarrow> d)"

definition validateKafkaReceiverOptions :: "string \<Rightarrow> receiver_config \<Rightarrow> go_error option" where
  "validateKafkaReceiverOptions name rc =
     (let duration = (\<lambda>field v. validatePositiveDurationField ''receiver'' name field v) in first_err
       ([duration ''dial_timeout'' (rc_DialTimeout rc),
         duration ''conn_idle_timeout'' (rc_ConnIdleTimeout rc),
         duration ''metadata_max_age'' (rc_MetadataMaxAge rc),
         duration ''retry_backoff'' (rc_RetryBackoff rc),
         duration ''session_timeout'' (rc_SessionTimeout rc),
         duration ''heartbeat_interval'' (rc_HeartbeatInterval rc),
         duration ''rebalance_timeout'' (rc_RebalanceTimeout rc),
         duration ''auto_commit_interval'' (rc_AutoCommitInterval rc),
         fail_if (rc_FetchMaxPartitionBytes rc < 0) (Errorf ''receiver %s kafka fetch_max_partition_bytes must be >= 0'' [AStr name]),
         fail_if (rc_FetchMaxBytes rc > 0 \<and> rc_FetchMaxPartitionBytes rc > 0 \<and> rc_FetchMaxPartitionBytes rc > rc_FetchMaxBytes rc)
           (Errorf ''receiver %s kafka fetch_max_partition_bytes must be <= fetch_max_bytes'' [AStr name]),
         fail_if (rc_IsolationLevel rc \<notin> set [[], ''read_uncommitted'', ''read_committed''])
           (Errorf ''receiver %s kafka isolation_level unsupported: %s'' [AStr name, AStr (rc_IsolationLevel rc)]),
         fail_if (elems (rc_Balancers rc) = []) (Errorf ''receiver %s kafka balancers must not be empty'' [AStr name])] @
        map (\<lambda>b. fail_if (b \<notin> set [''range'', ''round_robin'', ''cooperative_sticky''])
              (Errorf ''receiver %s kafka balancer unsupported: %s'' [AStr name, AStr b])) (elems (rc_Balancers rc)) @
        [fail_if (rc_SessionTimeout rc \<noteq> [] \<and> rc_HeartbeatInterval rc \<noteq> [] \<and>
             duration_or_zero (rc_HeartbeatInterval rc) \<ge> duration_or_zero (rc_SessionTimeout rc))
           (Errorf ''receiver %s kafka heartbeat_interval must be less than session_timeout'' [AStr name]),
         fail_if (rc_AutoCommit rc = Some False \<and> \<not> blank (rc_AutoCommitInterval rc))
           (Errorf ''receiver %s kafka auto_commit_interval requires auto_commit=true'' [AStr name])]))"

section \<open>Receivers\<close>

definition validate_gnet_receiver :: "string \<Rightarrow> receiver_config \<Rightarrow> go_error option" where
  "validate_gnet_receiver rn r = first_err
     [fail_if (blank (rc_Listen r)) (Errorf ''receiver %s %s requires listen'' [AStr rn, AStr (rc_Type r)]),
      validateHostPort ''receiver'' rn ''listen'' (stripAddrScheme (rc_Listen r)),
      fail_if (rc_Type r = ''tcp_gnet'' \<and> rc_Frame r \<noteq> [] \<and> rc_Frame r \<noteq> ''u16be'')
        (Errorf ''receiver %s tcp_gnet frame must be empty or u16be'' [AStr rn])]"

definition validate_kafka_receiver :: "string \<Rightarrow> receiver_config \<Rightarrow> go_error option" where
  "validate_kafka_receiver rn r = first_err
     [fail_if (rc_Listen r = []) (Errorf ''receiver %s kafka requires listen as brokers csv'' [AStr rn]),
      fail_if (rc_Topic r = []) (Errorf ''receiver %s kafka requires topic'' [AStr rn]),
      fail_if (rc_StartOffset r \<notin> set [[], ''earliest'', ''latest'']) (Errorf ''receiver %s kafka start_offset must be earliest/latest'' [AStr rn]),
      validateKafkaReceiverOptions rn r,
      validateKafkaAuth ''receiver'' rn (rc_SASLMechanism r) (rc_Username r) (rc_Password r)]"

definition octet_model :: "string \<Rightarrow> bool" where
  "octet_model m \<longleftrightarrow> to_lower (trim_space m) \<in> set [''octet'', ''batch_octet'']"

definition validate_skydds_receiver :: "string \<Rightarrow> receiver_config \<Rightarrow> go_error option" where
  "validate_skydds_receiver rn r = first_err
     [fail_if (blank (rc_DCPSConfigFile r)) (Errorf ''receiver %s dds_skydds requires dcps_config_file'' [AStr rn]),
      fail_if (rc_DomainID r < 0) (Errorf ''receiver %s dds_skydds domain_id must be >= 0'' [AStr rn]),
      fail_if (blank (rc_TopicName r)) (Errorf ''receiver %s dds_skydds requires topic_name'' [AStr rn]),
      fail_if (\<not> octet_model (rc_MessageModel r)) (Errorf ''receiver %s dds_skydds message_model must be octet or batch_octet'' [AStr rn]),
      validatePositiveDurationByType ''receiver'' rn ''dds_skydds'' ''wait_timeout'' (rc_WaitTimeout r),
      fail_if (rc_DrainMaxItems r \<le> 0) (Errorf ''receiver %s dds_skydds drain_max_items must be > 0'' [AStr rn]),
      fail_if (rc_DrainBufferBytes r \<le> 0) (Errorf ''receiver %s dds_skydds drain_buffer_bytes must be > 0'' [AStr rn]),
      fail_if (rc_QueueDepth r < 0) (Errorf ''receiver %s dds_skydds queue_depth must be >= 0'' [AStr rn]),
      fail_if (rc_MaxBlockingTimeMsec r < 0) (Errorf ''receiver %s dds_skydds max_blocking_time_msec must be >= 0'' [AStr rn])]"

definition validate_sftp_receiver :: "string \<Rightarrow> receiver_config \<Rightarrow> go_error option" where
  "validate_sftp_receiver rn r = first_err
     [fail_if (rc_Listen r = []) (Errorf ''receiver %s sftp requires listen'' [AStr rn]),
      fail_if (rc_Username r = [] \<or> rc_Password r = []) (Errorf ''receiver %s sftp requires username and password'' [AStr rn]),
      fail_if (rc_RemoteDir r = []) (Errorf ''receiver %s sftp requires remote_dir'' [AStr rn]),
      fail_if (rc_HostKeyFingerprint r = []) (Errorf ''receiver %s sftp requires host_key_fingerprint'' [AStr rn]),
      map_option (\<lambda>err. Errorf ''receiver %s sftp host_key_fingerprint invalid: %w'' [AStr rn, AErr err])
        (ValidateSSHHostKeyFingerprint (rc_HostKeyFingerprint r))]"

definition validate_oss_receiver :: "string \<Rightarrow> receiver_config \<Rightarrow> go_error option" where
  "validate_oss_receiver rn r = first_err
     [fail_if (blank (rc_Endpoint r)) (Errorf ''receiver %s oss requires endpoint'' [AStr rn]),
      fail_if (blank (rc_Bucket r)) (Errorf ''receiver %s oss requires bucket'' [AStr rn]),
      fail_if (blank (rc_AccessKey r) \<or> blank (rc_SecretKey r)) (Errorf ''receiver %s oss requires access_key and secret_key'' [AStr rn]),
      fail_if (rc_ChunkSize r < 0) (Errorf ''receiver %s oss chunk_size must be >= 0'' [AStr rn])]"

definition validate_receiver :: "config \<Rightarrow> string \<times> receiver_config \<Rightarrow> go_error option" where
  "validate_receiver c nr =
     (let rn = fst nr; r = snd nr in first_err
       [fail_if (blank (rc_Selector r)) (Errorf ''receiver %s selector required'' [AStr rn]),
        fail_if (\<not> mhas (elems (cfg_Selectors c)) (rc_Selector r)) (Errorf ''receiver %s selector %s not found'' [AStr rn, AStr (rc_Selector r)]),
        validateReceiverMatchKey rn r,
        (if rc_Type r \<in> set [''udp_gnet'', ''tcp_gnet''] then validate_gnet_receiver rn r
         else if rc_Type r = ''local_timer'' then validateLocalTimerReceiver rn r
         else if rc_Type r = ''kafka'' then validate_kafka_receiver rn r
         else if rc_Type r = ''dds_skydds'' then validate_skydds_receiver rn r
         else if rc_Type r = ''sftp'' then validate_sftp_receiver rn r
         else if rc_Type r = ''oss'' then validate_oss_receiver rn r
         else Some (Errorf ''receiver %s unknown type %s'' [AStr rn, AStr (rc_Type r)]))])"

section \<open>Senders\<close>

definition validate_notifier :: "string \<Rightarrow> nat \<Rightarrow> notify_on_success_config \<Rightarrow> go_error option" where
  "validate_notifier senderName i nc =
     (let pre = ''sender '' @ senderName @ '' notify_on_success['' @ itoa (int i) @ '']'';
          duration = (\<lambda>field v. validatePositiveDurationByType ''sender'' senderName ''notify_on_success.kafka'' field v) in
      if trim_space (nc_Type nc) = ''kafka'' then first_err
        [fail_if (blank (nc_Remote nc)) (Errorf ''%s kafka requires remote'' [AStr pre]),
         fail_if (blank (nc_Topic nc)) (Errorf ''%s kafka requires topic'' [AStr pre]),
         validateKafkaAuth ''notify_on_success'' senderName (nc_SASLMechanism nc) (nc_Username nc) (nc_Password nc),
         duration ''dial_timeout'' (nc_DialTimeout nc), duration ''request_timeout'' (nc_RequestTimeout nc),
         duration ''retry_timeout'' (nc_RetryTimeout nc), duration ''retry_backoff'' (nc_RetryBackoff nc),
         duration ''metadata_max_age'' (nc_MetadataMaxAge nc), duration ''conn_idle_timeout'' (nc_ConnIdleTimeout nc),
         fail_if (trim_space (nc_RecordKeySource nc) \<notin>
             set [[], ''transfer_id'', ''file_path'', ''file_name'', ''sender_name'', ''receiver_name'', ''fetch_path''])
           (Errorf ''%s kafka record_key_source unsupported: %s'' [AStr pre, AStr (nc_RecordKeySource nc)])]
      else if trim_space (nc_Type nc) = ''dds_skydds'' then first_err
        [fail_if (blank (nc_DCPSConfigFile nc)) (Errorf ''%s dds_skydds requires dcps_config_file'' [AStr pre]),
         fail_if (nc_DomainID nc < 0) (Errorf ''%s dds_skydds domain_id must be >= 0'' [AStr pre]),
         fail_if (blank (nc_TopicName nc)) (Errorf ''%s dds_skydds requires topic_name'' [AStr pre]),
         fail_if (to_lower (trim_space (nc_MessageModel nc)) \<noteq> ''octet'')
           (Errorf ''%s dds_skydds message_model only supports octet in this version'' [AStr pre]),
         fail_if (nc_QueueDepth nc < 0) (Errorf ''%s dds_skydds queue_depth must be >= 0'' [AStr pre]),
         fail_if (nc_MaxBlockingTimeMsec nc < 0) (Errorf ''%s dds_skydds max_blocking_time_msec must be >= 0'' [AStr pre])]
      else if trim_space (nc_Type nc) = [] then Some (Errorf ''%s type required'' [AStr pre])
      else Some (Errorf ''%s unsupported type %s'' [AStr pre, AStr (nc_Type nc)]))"

fun validate_notifiers :: "string \<Rightarrow> nat \<Rightarrow> notify_on_success_config list \<Rightarrow> go_error option" where
  "validate_notifiers sn i [] = None"
| "validate_notifiers sn i (nc # ncs) =
     (case validate_notifier sn i nc of Some e \<Rightarrow> Some e | None \<Rightarrow> validate_notifiers sn (Suc i) ncs)"

definition validateNotifyOnSuccess :: "string \<Rightarrow> string \<Rightarrow> notify_on_success_config list \<Rightarrow> go_error option" where
  "validateNotifyOnSuccess senderName senderType notifiers =
     (if notifiers = [] then None
      else if trim_space senderType \<noteq> ''oss'' then
        Some (Errorf ''sender %s type %s: notify_on_success only supports oss'' [AStr senderName, AStr senderType])
      else validate_notifiers senderName 0 notifiers)"

definition validateKafkaSenderOptions :: "string \<Rightarrow> sender_config \<Rightarrow> go_error option" where
  "validateKafkaSenderOptions name sc =
     (let duration = (\<lambda>field v. validatePositiveDurationField ''sender'' name field v) in first_err
       [duration ''dial_timeout'' (sc_DialTimeout sc),
        duration ''request_timeout'' (sc_RequestTimeout sc),
        duration ''retry_timeout'' (sc_RetryTimeout sc),
        duration ''retry_backoff'' (sc_RetryBackoff sc),
        duration ''conn_idle_timeout'' (sc_ConnIdleTimeout sc),
        duration ''metadata_max_age'' (sc_MetadataMaxAge sc),
        duration ''close_flush_timeout'' (sc_CloseFlushTimeout sc),
        fail_if (sc_SendMode sc \<notin> set [[], ''sync'', ''async'']) (Errorf ''sender %s kafka send_mode must be sync or async'' [AStr name]),
        fail_if (sc_AsyncQueueSize sc \<le> 0) (Errorf ''sender %s kafka async_queue_size must be > 0'' [AStr name]),
        fail_if (sc_AsyncBackpressure sc \<notin> set [[], ''block'', ''error''])
          (Errorf ''sender %s kafka async_backpressure must be block or error'' [AStr name]),
        fail_if (sc_Partitioner sc \<notin> set [[], ''sticky'', ''round_robin'', ''hash_key''])
          (Errorf ''sender %s kafka partitioner unsupported: %s'' [AStr name, AStr (sc_Partitioner sc)]),
        fail_if (sc_RecordKey sc \<noteq> [] \<and> sc_RecordKeySource sc \<noteq> [])
          (Errorf ''sender %s kafka record_key and record_key_source are mutually exclusive'' [AStr name]),
        fail_if (sc_RecordKeySource sc \<notin> set [[], ''payload'', ''match_key'', ''kafka_record_key'', ''remote'', ''local'',
            ''file_name'', ''file_path'', ''transfer_id'', ''route_sender''])
          (Errorf ''sender %s kafka record_key_source unsupported: %s'' [AStr name, AStr (sc_RecordKeySource sc)]),
        fail_if (sc_Partitioner sc = ''hash_key'' \<and> sc_RecordKey sc = [] \<and> sc_RecordKeySource sc = [])
          (Errorf ''sender %s kafka partitioner hash_key requires record_key or record_key_source'' [AStr name]),
        fail_if (sc_CompressionLevel sc \<noteq> 0 \<and> sc_Compression sc \<notin> set [''gzip'', ''lz4'', ''zstd''])
          (Errorf ''sender %s kafka compression_level requires compression in gzip/lz4/zstd'' [AStr name])])"

definition validate_udp_sender :: "(string \<Rightarrow> bool) \<Rightarrow> string \<Rightarrow> sender_config \<Rightarrow> go_error option" where
  "validate_udp_sender ip sn s = first_err
     [fail_if (blank (sc_Remote s)) (Errorf (''sender %s '' @ sc_Type s @ '' requires remote'') [AStr sn]),
      validateHostPort ''sender'' sn ''remote'' (stripAddrScheme (sc_Remote s)),
      fail_if (sc_LocalPort s \<le> 0) (Errorf (''sender %s '' @ sc_Type s @ '' requires local_port'') [AStr sn]),
      fail_if (\<not> blank (sc_LocalIP s) \<and> \<not> ip (trim_space (sc_LocalIP s)))
        (Errorf (''sender %s '' @ sc_Type s @ '' local_ip invalid'') [AStr sn])]"

definition validate_tcp_sender :: "string \<Rightarrow> sender_config \<Rightarrow> go_error option" where
  "validate_tcp_sender sn s = first_err
     [fail_if (blank (sc_Remote s)) (Errorf ''sender %s tcp_gnet requires remote'' [AStr sn]),
      validateHostPort ''sender'' sn ''remote'' (stripAddrScheme (sc_Remote s)),
      fail_if (sc_Frame s \<noteq> [] \<and> sc_Frame s \<noteq> ''u16be'') (Errorf ''sender %s tcp_gnet frame must be empty or u16be'' [AStr sn])]"

definition validate_kafka_sender :: "string \<Rightarrow> sender_config \<Rightarrow> go_error option" where
  "validate_kafka_sender sn s =
     (let idempotent = (case sc_Idempotent s of None \<Rightarrow> True | Some b \<Rightarrow> b) in first_err
       [fail_if (sc_Remote s = []) (Errorf ''sender %s kafka requires remote as brokers csv'' [AStr sn]),
        fail_if (sc_Topic s = []) (Errorf ''sender %s kafka requires topic'' [AStr sn]),
        fail_if (\<not> kafka_acks_is_valid (sc_Acks s)) (Errorf ''sender %s kafka acks must be one of 0/1/all/-1'' [AStr sn]),
        fail_if (sc_Compression s \<notin> set [[], ''none'', ''gzip'', ''snappy'', ''lz4'', ''zstd''])
          (Errorf ''sender %s kafka compression unsupported: %s'' [AStr sn, AStr (sc_Compression s)]),
        fail_if (idempotent \<and> kafka_acks_int (sc_Acks s) \<noteq> - 1) (Errorf ''sender %s kafka idempotent=true requires acks=all/-1'' [AStr sn]),
        fail_if (sc_Retries s < 0) (Errorf ''sender %s kafka retries must be >= 0'' [AStr sn]),
        fail_if (sc_MaxInFlightRequestsPerConnection s < 0)
          (Errorf ''sender %s kafka max_in_flight_requests_per_connection must be >= 0'' [AStr sn]),
        fail_if (sc_MaxBufferedBytes s < 0) (Errorf ''sender %s kafka max_buffered_bytes must be >= 0'' [AStr sn]),
        fail_if (sc_MaxBufferedRecords s < 0) (Errorf ''sender %s kafka max_buffered_records must be >= 0'' [AStr sn]),
        validateKafkaSenderOptions sn s,
        validateKafkaAuth ''sender'' sn (sc_SASLMechanism s) (sc_Username s) (sc_Password s)])"

definition validate_skydds_sender :: "string \<Rightarrow> sender_config \<Rightarrow> go_error option" where
  "validate_skydds_sender sn s =
     (let batch = (to_lower (trim_space (sc_MessageModel s)) = ''batch_octet'') in first_err
       ([fail_if (blank (sc_DCPSConfigFile s)) (Errorf ''sender %s dds_skydds requires dcps_config_file'' [AStr sn]),
         fail_if (sc_DomainID s < 0) (Errorf ''sender %s dds_skydds domain_id must be >= 0'' [AStr sn]),
         fail_if (blank (sc_TopicName s)) (Errorf ''sender %s dds_skydds requires topic_name'' [AStr sn]),
         fail_if (\<not> octet_model (sc_MessageModel s)) (Errorf ''sender %s dds_skydds message_model must be octet or batch_octet'' [AStr sn])] @
        (if batch then
          [fail_if (sc_BatchNum s \<le> 0) (Errorf ''sender %s dds_skydds batch_num must be > 0 when message_model=batch_octet'' [AStr sn]),
           fail_if (sc_BatchSize s \<le> 0) (Errorf ''sender %s dds_skydds batch_size must be > 0 when message_model=batch_octet'' [AStr sn]),
           validatePositiveDurationField ''sender'' sn ''batch_delay'' (sc_BatchDelay s)]
         else
          [fail_if (sc_BatchNum s \<noteq> 0 \<or> sc_BatchSize s \<noteq> 0 \<or> \<not> blank (sc_BatchDelay s))
             (Errorf ''sender %s dds_skydds batch_* only allowed when message_model=batch_octet'' [AStr sn])]) @
        [fail_if (sc_QueueDepth s < 0) (Errorf ''sender %s dds_skydds queue_depth must be >= 0'' [AStr sn]),
         fail_if (sc_MaxBlockingTimeMsec s < 0) (Errorf ''sender %s dds_skydds max_blocking_time_msec must be >= 0'' [AStr sn])]))"

definition validate_sftp_sender :: "string \<Rightarrow> sender_config \<Rightarrow> go_error option" where
  "validate_sftp_sender sn s = first_err
     [fail_if (sc_Remote s = []) (Errorf ''sender %s sftp requires remote'' [AStr sn]),
      fail_if (sc_Username s = [] \<or> sc_Password s = []) (Errorf ''sender %s sftp requires username and password'' [AStr sn]),
      fail_if (sc_RemoteDir s = []) (Errorf ''sender %s sftp requires remote_dir'' [AStr sn]),
      fail_if (sc_HostKeyFingerprint s = []) (Errorf ''sender %s sftp requires host_key_fingerprint'' [AStr sn]),
      map_option (\<lambda>err. Errorf ''sender %s sftp host_key_fingerprint invalid: %w'' [AStr sn, AErr err])
        (ValidateSSHHostKeyFingerprint (sc_HostKeyFingerprint s))]"

definition validate_oss_sender :: "string \<Rightarrow> sender_config \<Rightarrow> go_error option" where
  "validate_oss_sender sn s = first_err
     [fail_if (blank (sc_Endpoint s)) (Errorf ''sender %s oss requires endpoint'' [AStr sn]),
      fail_if (blank (sc_Bucket s)) (Errorf ''sender %s oss requires bucket'' [AStr sn]),
      fail_if (blank (sc_AccessKey s) \<or> blank (sc_SecretKey s)) (Errorf ''sender %s oss requires access_key and secret_key'' [AStr sn]),
      fail_if (sc_PartSize s \<le> 0) (Errorf ''sender %s oss part_size must be > 0'' [AStr sn])]"

definition validate_sender :: "(string \<Rightarrow> bool) \<Rightarrow> string \<times> sender_config \<Rightarrow> go_error option" where
  "validate_sender ip ns =
     (let sn = fst ns; s = snd ns in first_err
       [validateSenderConcurrency sn (sc_Concurrency s),
        validateNotifyOnSuccess sn (sc_Type s) (elems (sc_NotifyOnSuccess s)),
        (if sc_Type s \<in> set [''udp_unicast'', ''udp_multicast''] then validate_udp_sender ip sn s
         else if sc_Type s = ''tcp_gnet'' then validate_tcp_sender sn s
         else if sc_Type s = ''kafka'' then validate_kafka_sender sn s
         else if sc_Type s = ''dds_skydds'' then validate_skydds_sender sn s
         else if sc_Type s = ''sftp'' then validate_sftp_sender sn s
         else if sc_Type s = ''oss'' then validate_oss_sender sn s
         else Some (Errorf ''sender %s unknown type %s'' [AStr sn, AStr (sc_Type s)]))])"

section \<open>Validate\<close>

definition ValidateConfig :: "(string \<Rightarrow> regex result) \<Rightarrow> (string \<Rightarrow> bool) \<Rightarrow> config \<Rightarrow> go_error option" where
  "ValidateConfig rx ip c = first_err
     [fail_if (elems (cfg_Tasks c) = []) (errors_New ''no tasks''),
      fail_if (cfg_Receivers c = None) (errors_New ''receivers missing''),
      fail_if (cfg_Selectors c = None) (errors_New ''selectors missing''),
      fail_if (cfg_TaskSets c = None) (errors_New ''task_sets missing''),
      fail_if (cfg_Senders c = None) (errors_New ''senders missing''),
      fail_if (cfg_Pipelines c = None) (errors_New ''pipelines missing''),
      fail_if (\<not> blank (lc_GCStatsLogInterval (cfg_Logging c)) \<and> \<not> positive_duration (lc_GCStatsLogInterval (cfg_Logging c)))
        (errors_New ''logging gc_stats_log_interval must be a valid duration > 0''),
      validateLoggingConfig (cfg_Logging c),
      fail_if (cc_PprofPort (cfg_Control c) < - 1 \<or> cc_PprofPort (cfg_Control c) > 65535) (errors_New ''control pprof_port must be in [-1,65535]''),
      first_err (map (validate_pipeline rx) (elems (cfg_Pipelines c))),
      first_err (map (validate_task c) (elems (cfg_Tasks c))),
      first_err (map (validate_pipeline rx) (elems (cfg_Pipelines c))),
      first_err (map (validate_task_set c) (elems (cfg_TaskSets c))),
      first_err (map (validate_selector c) (elems (cfg_Selectors c))),
      first_err (map (validate_receiver c) (elems (cfg_Receivers c))),
      first_err (map (validate_sender ip) (elems (cfg_Senders c)))]"

end
