(* ===== verification/MatchKey.thy ===== *)
theory MatchKey
  imports ValidateEnds
begin

text \<open>
  \<open>src/src/receiver/match_key.go\<close>: each receiver compiles the mode of its \<open>match_key\<close> once into a function that gives
  the key of a packet. A key is written \<open>proto|field=value\<close>, with the value escaped. The property says that
  keys are equal just when protocol, fields and values are.
\<close>

section \<open>Escaping\<close>

abbreviation backslash :: char where "backslash \<equiv> CHR 0x5C"
abbreviation pipe :: char where "pipe \<equiv> CHR ''|''"
abbreviation equals :: char where "equals \<equiv> CHR ''=''"

definition escape_char :: "char \<Rightarrow> string" where
  "escape_char c = (if c = pipe \<or> c = equals then [backslash, c] else [c])"

text \<open>
  \<open>matchKeyEscaper.Replace\<close>. The first pair of the replacer is a raw string of two backslashes, so a single
  backslash stays as it is.
\<close>

fun match_key_escape :: "string \<Rightarrow> string" where
  "match_key_escape [] = []"
| "match_key_escape [c] = escape_char c"
| "match_key_escape (c # d # s) =
     (if c = backslash \<and> d = backslash then [backslash, backslash, backslash, backslash] @ match_key_escape s
      else escape_char c @ match_key_escape (d # s))"

section \<open>Keys\<close>

definition buildSingleFieldMatchKey :: "string \<Rightarrow> string \<Rightarrow> string \<Rightarrow> string" where
  "buildSingleFieldMatchKey proto fieldName v = proto @ [pipe] @ fieldName @ [equals] @ match_key_escape v"

definition buildTwoFieldMatchKey :: "string \<Rightarrow> string \<Rightarrow> string \<Rightarrow> string \<Rightarrow> string \<Rightarrow> string" where
  "buildTwoFieldMatchKey proto fieldNameA valueA fieldNameB valueB =
     proto @ [pipe] @ fieldNameA @ [equals] @ match_key_escape valueA @ [pipe] @ fieldNameB @ [equals] @ match_key_escape valueB"

definition precomputeSingleFieldMatchKey :: "string \<Rightarrow> string \<Rightarrow> string \<Rightarrow> string" where
  "precomputeSingleFieldMatchKey proto fieldName v = buildSingleFieldMatchKey proto fieldName v"

definition appendRawSingleFieldPrefix :: "string \<Rightarrow> string \<Rightarrow> string \<Rightarrow> string" where
  "appendRawSingleFieldPrefix proto fieldName escapedValue = proto @ [pipe] @ fieldName @ [equals] @ escapedValue"

section \<open>Addresses\<close>

text \<open>A \<open>net.Addr\<close>: the IP in its printed form (\<open>None\<close> for a nil IP) and the port; a nil address is \<open>None\<close>.\<close>

datatype net_addr = UDPAddr "string option" int | TCPAddr "string option" int | OtherAddr

definition matchKeyHostFromString :: "string \<Rightarrow> string" where
  "matchKeyHostFromString addr =
     (if addr = [] then [] else case SplitHostPort addr of Inr (host, _) \<Rightarrow> host | Inl _ \<Rightarrow> addr)"

definition matchKeyPortFromString :: "string \<Rightarrow> string" where
  "matchKeyPortFromString addr =
     (if addr = [] then [] else case SplitHostPort addr of Inl _ \<Rightarrow> [] | Inr (_, port) \<Rightarrow> port)"

definition matchKeyHostIP :: "net_addr option \<Rightarrow> string \<Rightarrow> string" where
  "matchKeyHostIP addr fallback =
     (case addr of
        Some (UDPAddr (Some ip) _) \<Rightarrow> ip
      | Some (TCPAddr (Some ip) _) \<Rightarrow> ip
      | _ \<Rightarrow> matchKeyHostFromString fallback)"

definition matchKeyPort :: "net_addr option \<Rightarrow> string \<Rightarrow> string" where
  "matchKeyPort addr fallback =
     (case addr of
        Some (UDPAddr _ port) \<Rightarrow> itoa port
      | Some (TCPAddr _ port) \<Rightarrow> itoa port
      | _ \<Rightarrow> matchKeyPortFromString fallback)"

section \<open>The builders\<close>

definition receiverMatchKeyModeCompatDefault :: string where
  "receiverMatchKeyModeCompatDefault = ''compat_default''"

text \<open>The address of a packet and of its receiver, printed and as \<open>net.Addr\<close> (the arguments of the UDP builder,
  the fields of \<open>connState\<close> for TCP).\<close>

record endpoints =
  ep_remote :: string
  ep_local :: string
  ep_remoteAddr :: "net_addr option"
  ep_localAddr :: "net_addr option"

definition compileUDPMatchKeyBuilder :: "receiver_match_key_config \<Rightarrow> ((endpoints \<Rightarrow> string) \<times> string) result" where
  "compileUDPMatchKeyBuilder cfg =
     (let mode = trim_space (mk_Mode cfg) in
      if mode = [] then Inr (\<lambda>e. buildSingleFieldMatchKey ''udp'' ''src_addr'' (ep_remote e), receiverMatchKeyModeCompatDefault)
      else if mode = ''remote_addr'' then Inr (\<lambda>e. buildSingleFieldMatchKey ''udp'' ''remote_addr'' (ep_remote e), mode)
      else if mode = ''remote_ip'' then
        Inr (\<lambda>e. buildSingleFieldMatchKey ''udp'' ''remote_ip'' (matchKeyHostIP (ep_remoteAddr e) (ep_remote e)), mode)
      else if mode = ''local_addr'' then Inr (\<lambda>e. buildSingleFieldMatchKey ''udp'' ''local_addr'' (ep_local e), mode)
      else if mode = ''local_ip'' then
        Inr (\<lambda>e. buildSingleFieldMatchKey ''udp'' ''local_ip'' (matchKeyHostIP (ep_localAddr e) (ep_local e)), mode)
      else if mode = ''fixed'' then
        Inr (let fixed = precomputeSingleFieldMatchKey ''udp'' ''fixed'' (mk_FixedValue cfg) in (\<lambda>_. fixed, mode))
      else Inl (ErrUnsupportedReceiverMatchKeyMode ''udp_gnet'' mode))"

definition compileTCPMatchKeyBuilder :: "receiver_match_key_config \<Rightarrow> ((endpoints \<Rightarrow> string) \<times> string) result" where
  "compileTCPMatchKeyBuilder cfg =
     (let mode = trim_space (mk_Mode cfg) in
      if mode = [] then Inr (\<lambda>cs. buildSingleFieldMatchKey ''tcp'' ''src_addr'' (ep_remote cs), receiverMatchKeyModeCompatDefault)
      else if mode = ''remote_addr'' then Inr (\<lambda>cs. buildSingleFieldMatchKey ''tcp'' ''remote_addr'' (ep_remote cs), mode)
      else if mode = ''remote_ip'' then
        Inr (\<lambda>cs. buildSingleFieldMatchKey ''tcp'' ''remote_ip'' (matchKeyHostIP (ep_remoteAddr cs) (ep_remote cs)), mode)
      else if mode = ''local_addr'' then Inr (\<lambda>cs. buildSingleFieldMatchKey ''tcp'' ''local_addr'' (ep_local cs), mode)
      else if mode = ''local_port'' then
        Inr (\<lambda>cs. buildSingleFieldMatchKey ''tcp'' ''local_port'' (matchKeyPort (ep_localAddr cs) (ep_local cs)), mode)
      else if mode = ''fixed'' then
        Inr (let fixed = precomputeSingleFieldMatchKey ''tcp'' ''fixed'' (mk_FixedValue cfg) in (\<lambda>_. fixed, mode))
      else Inl (ErrUnsupportedReceiverMatchKeyMode ''tcp_gnet'' mode))"

text \<open>Of a Kafka record only the partition is used.\<close>

definition compileKafkaMatchKeyBuilder :: "receiver_match_key_config \<Rightarrow> string \<Rightarrow> ((int \<Rightarrow> string) \<times> string) result" where
  "compileKafkaMatchKeyBuilder cfg topic =
     (let mode = trim_space (mk_Mode cfg) in
      if mode = [] then
        Inr (let prefix = appendRawSingleFieldPrefix ''kafka'' ''topic'' (match_key_escape topic) @ ''|partition=''
             in (\<lambda>partition. prefix @ itoa partition, receiverMatchKeyModeCompatDefault))
      else if mode = ''topic'' then
        Inr (let k = precomputeSingleFieldMatchKey ''kafka'' ''topic'' topic in (\<lambda>_. k, mode))
      else if mode = ''topic_partition'' then
        Inr (let prefix = appendRawSingleFieldPrefix ''kafka'' ''topic_partition'' (match_key_escape topic) @ ''|''
             in (\<lambda>partition. prefix @ itoa partition, mode))
      else if mode = ''fixed'' then
        Inr (let k = precomputeSingleFieldMatchKey ''kafka'' ''fixed'' (mk_FixedValue cfg) in (\<lambda>_. k, mode))
      else Inl (ErrUnsupportedReceiverMatchKeyMode ''kafka'' mode))"

definition compileSFTPMatchKeyBuilder :: "receiver_match_key_config \<Rightarrow> string \<Rightarrow> ((string \<Rightarrow> string) \<times> string) result" where
  "compileSFTPMatchKeyBuilder cfg remoteDir =
     (let mode = trim_space (mk_Mode cfg) in
      if mode = [] then
        Inr (let remoteDirValue = trim_space remoteDir
             in (\<lambda>filePath. buildTwoFieldMatchKey ''sftp'' ''remote_dir'' remoteDirValue ''file_name'' (path_base filePath),
                 receiverMatchKeyModeCompatDefault))
      else if mode = ''remote_path'' then Inr (\<lambda>filePath. buildSingleFieldMatchKey ''sftp'' ''remote_path'' filePath, mode)
      else if mode = ''filename'' then Inr (\<lambda>filePath. buildSingleFieldMatchKey ''sftp'' ''filename'' (path_base filePath), mode)
      else if mode = ''fixed'' then
        Inr (let k = precomputeSingleFieldMatchKey ''sftp'' ''fixed'' (mk_FixedValue cfg) in (\<lambda>_. k, mode))
      else Inl (ErrUnsupportedReceiverMatchKeyMode ''sftp'' mode))"

definition compileOSSMatchKeyBuilder :: "receiver_match_key_config \<Rightarrow> string \<Rightarrow> ((string \<Rightarrow> string) \<times> string) result" where
  "compileOSSMatchKeyBuilder cfg bucket =
     (let mode = trim_space (mk_Mode cfg) in
      if mode = [] then
        Inr (let bucketValue = trim_space bucket
             in (\<lambda>k. buildTwoFieldMatchKey ''oss'' ''bucket'' bucketValue ''key'' k, receiverMatchKeyModeCompatDefault))
      else if mode = ''remote_path'' then Inr (\<lambda>k. buildSingleFieldMatchKey ''oss'' ''remote_path'' k, mode)
      else if mode = ''filename'' then Inr (\<lambda>k. buildSingleFieldMatchKey ''oss'' ''filename'' (path_base k), mode)
      else if mode = ''fixed'' then
        Inr (let fixed = precomputeSingleFieldMatchKey ''oss'' ''fixed'' (mk_FixedValue cfg) in (\<lambda>_. fixed, mode))
      else Inl (ErrUnsupportedReceiverMatchKeyMode ''oss'' mode))"

definition compileLocalTimerMatchKeyBuilder :: "receiver_match_key_config \<Rightarrow> (string \<times> string) result" where
  "compileLocalTimerMatchKeyBuilder cfg =
     (let mode = trim_space (mk_Mode cfg) in
      if mode = [] then Inr (precomputeSingleFieldMatchKey ''local'' ''receiver'' ''local_timer'', receiverMatchKeyModeCompatDefault)
      else if mode = ''fixed'' then Inr (precomputeSingleFieldMatchKey ''local'' ''fixed'' (mk_FixedValue cfg), mode)
      else Inl (ErrUnsupportedReceiverMatchKeyMode ''local_timer'' mode))"

end
