(* ===== verification/KafkaOptions.thy ===== *)
theory KafkaOptions
  imports ValidateEnds MatchKey
begin

text \<open>
  \<open>src/src/kafkautil/options.go\<close> and the constructors of the Kafka sender and receiver: a configuration becomes the
  list of options the client is made with. \<open>kgo.NewClient\<close> is a parameter: it takes the options and may fail.
\<close>

section \<open>The values of kafkautil\<close>

datatype kgo_acks = NoAck | LeaderAck | AllISRAcks

text \<open>A codec with the level it was given, if any.\<close>

datatype kgo_codec = NoCompression | GzipCompression "int option" | SnappyCompression | Lz4Compression "int option" | ZstdCompression "int option"

datatype kgo_partitioner = StickyPartitioner | RoundRobinPartitioner | StickyKeyPartitioner

datatype kgo_isolation = ReadUncommitted | ReadCommitted

datatype kgo_balancer = RangeBalancer | RoundRobinBalancer | CooperativeStickyBalancer

record plainMechanism =
  pm_username :: string
  pm_password :: string

definition SplitCSV :: "string \<Rightarrow> string list" where
  "SplitCSV v = filter (\<lambda>p. p \<noteq> []) (map trim_space (split_on (CHR '','') v))"

definition IntDefault :: "int \<Rightarrow> int \<Rightarrow> int" where
  "IntDefault v d = (if v \<le> 0 then d else v)"

text \<open>The text of the errors of \<open>time.ParseDuration\<close> is not modelled.\<close>

definition DurationOrDefault :: "string \<Rightarrow> string \<Rightarrow> int result" where
  "DurationOrDefault v fallback =
     (let raw = (if trim_space v = [] then fallback else trim_space v) in
      case parse_duration raw of
        None \<Rightarrow> Inl (Errorf ''time: invalid duration'' [AStr raw])
      | Some d \<Rightarrow> if d \<le> 0 then Inl (Errorf ''duration must be > 0'' []) else Inr d)"

definition RequiredAcks :: "int \<Rightarrow> kgo_acks" where
  "RequiredAcks acks = (if acks = 0 then NoAck else if acks = 1 then LeaderAck else AllISRAcks)"

definition CompressionCodec :: "string \<Rightarrow> int \<Rightarrow> (kgo_codec \<times> bool) result" where
  "CompressionCodec v level =
     (let lv = (if level = 0 then None else Some level); c = to_lower (trim_space v) in
      if c = [] then Inr (NoCompression, False)
      else if c = ''gzip'' then Inr (GzipCompression lv, True)
      else if c = ''snappy'' then Inr (SnappyCompression, True)
      else if c = ''lz4'' then Inr (Lz4Compression lv, True)
      else if c = ''zstd'' then Inr (ZstdCompression lv, True)
      else Inl (Errorf ''kafka compression %s unsupported'' [AStr v]))"

definition Partitioner :: "string \<Rightarrow> kgo_partitioner result" where
  "Partitioner v =
     (let t = trim_space v in
      if t = [] \<or> t = ''sticky'' then Inr StickyPartitioner
      else if t = ''round_robin'' then Inr RoundRobinPartitioner
      else if t = ''hash_key'' then Inr StickyKeyPartitioner
      else Inl (Errorf ''kafka partitioner %s unsupported'' [AStr v]))"

text \<open>\<open>None\<close> is the nil key.\<close>

definition RecordKey :: "bytes \<Rightarrow> string \<Rightarrow> packet \<Rightarrow> bytes option" where
  "RecordKey fixedKey source p =
     (if fixedKey \<noteq> [] then Some fixedKey
      else if source = [] then None
      else if source = ''payload'' then (if Payload p = [] then None else Some (Payload p))
      else if source = ''match_key'' then Some (bytes_of_str (MatchKey (Meta p)))
      else if source = ''kafka_record_key'' then Some (bytes_of_str (KafkaRecordKey (Meta p)))
      else if source = ''remote'' then Some (bytes_of_str (Remote (Meta p)))
      else if source = ''local'' then Some (bytes_of_str (Local (Meta p)))
      else if source = ''file_name'' then Some (bytes_of_str (FileName (Meta p)))
      else if source = ''file_path'' then Some (bytes_of_str (FilePath (Meta p)))
      else if source = ''transfer_id'' then Some (bytes_of_str (TransferID (Meta p)))
      else if source = ''route_sender'' then Some (bytes_of_str (RouteSender (Meta p)))
      else None)"

definition IsolationLevel :: "string \<Rightarrow> kgo_isolation result" where
  "IsolationLevel v =
     (let t = trim_space v in
      if t = [] \<or> t = ''read_uncommitted'' then Inr ReadUncommitted
      else if t = ''read_committed'' then Inr ReadCommitted
      else Inl (Errorf ''kafka isolation_level %s unsupported'' [AStr v]))"

fun balancers_loop :: "string list \<Rightarrow> kgo_balancer list \<Rightarrow> (kgo_balancer list) result" where
  "balancers_loop [] out = Inr out"
| "balancers_loop (v # vs) out =
     (let t = trim_space v in
      if t = ''range'' then balancers_loop vs (out @ [RangeBalancer])
      else if t = ''round_robin'' then balancers_loop vs (out @ [RoundRobinBalancer])
      else if t = ''cooperative_sticky'' then balancers_loop vs (out @ [CooperativeStickyBalancer])
      else Inl (Errorf ''kafka balancer %s unsupported'' [AStr v]))"

definition GroupBalancers :: "string slice \<Rightarrow> (kgo_balancer list) result" where
  "GroupBalancers vs = balancers_loop (if elems vs = [] then elems DefaultKafkaReceiverBalancers else elems vs) []"

text \<open>\<open>strings.ToUpper\<close> on the ASCII letters; the code points U+0131 and U+017F, which Go raises to I and S, are left out.\<close>

definition to_upper :: "string \<Rightarrow> string" where
  "to_upper s = map (\<lambda>c. let n = of_char c :: nat in if 97 \<le> n \<and> n \<le> 122 then char_of (n - 32) else c) s"

definition BuildSASLMechanism :: "string \<Rightarrow> string \<Rightarrow> string \<Rightarrow> (plainMechanism option) result" where
  "BuildSASLMechanism mechanism username password =
     (let u = trim_space username; p = trim_space password;
          m = to_upper (trim_space mechanism);
          mech = (if m = [] \<and> (u \<noteq> [] \<or> p \<noteq> []) then ''PLAIN'' else m)
      in if mech = [] then Inr None
         else if u = [] \<or> p = [] then Inl (Errorf ''kafka sasl %s requires username and password'' [AStr mech])
         else if mech \<noteq> ''PLAIN'' then Inl (Errorf ''kafka sasl mechanism %s unsupported, only PLAIN is supported'' [AStr mech])
         else Inr (Some \<lparr>pm_username = u, pm_password = p\<rparr>))"

section \<open>Options\<close>

text \<open>\<open>int32(x)\<close> and a duration in milliseconds.\<close>

definition wrap32 :: "int \<Rightarrow> int" where
  "wrap32 x = sint (word_of_int x :: 32 word)"

definition millis :: "int \<Rightarrow> int" where
  "millis n = wrap64 (n * 1000000)"

datatype kgo_opt =
    SeedBrokers "string list" | RequiredAcksOpt kgo_acks | DialTimeout int | ProduceRequestTimeout int | RetryTimeout int
  | RetryBackoff int | ConnIdleTimeout int | MetadataMaxAge int | RecordPartitioner kgo_partitioner
  | ProducerBatchMaxBytes int | ProducerLinger int | MaxBufferedBytes int | MaxBufferedRecords int | ClientID string
  | ProducerBatchCompression kgo_codec | DialTLSConfig bool | DisableIdempotentWrite | RecordRetries int
  | MaxProduceRequestsInflightPerBroker int | SASL plainMechanism
  | ConsumerGroup string | ConsumeTopics string | SessionTimeout int | HeartbeatInterval int | RebalanceTimeout int
  | Balancers "kgo_balancer list" | FetchMinBytes int | FetchMaxBytes int | FetchMaxPartitionBytes int | FetchMaxWait int
  | FetchIsolationLevel kgo_isolation | AutoCommitInterval int | DisableAutoCommit | ResetAtStart | ResetAtEnd

definition opt_if :: "bool \<Rightarrow> kgo_opt \<Rightarrow> kgo_opt list" where
  "opt_if b op = (if b then [op] else [])"

definition zh_illegal :: string where
  "zh_illegal = [CHR 0xE9, CHR 0x85, CHR 0x8D, CHR 0xE7, CHR 0xBD, CHR 0xAE, CHR 0xE9, CHR 0x9D, CHR 0x9E, CHR 0xE6, CHR 0xB3, CHR 0x95]"

text \<open>A duration with its error message; the rest \<open>k\<close> of the constructor runs with the value.\<close>

definition with_duration :: "string \<Rightarrow> string \<Rightarrow> string \<Rightarrow> (int \<Rightarrow> 'a result) \<Rightarrow> 'a result" where
  "with_duration what v fallback k =
     (case DurationOrDefault v fallback of Inl err \<Rightarrow> Inl (Errorf (what @ '' '' @ zh_illegal @ '': %w'') [AErr err]) | Inr d \<Rightarrow> k d)"

definition bind_result :: "'a result \<Rightarrow> ('a \<Rightarrow> 'b result) \<Rightarrow> 'b result" where
  "bind_result r k = (case r of Inl err \<Rightarrow> Inl err | Inr x \<Rightarrow> k x)"

section \<open>The options of a sender\<close>

text \<open>\<open>NewKafkaSender\<close> up to the client options; with \<open>close_flush_timeout\<close>, which it reads between them.\<close>

definition kafka_sender_opts :: "sender_config \<Rightarrow> (string list \<times> int \<times> kgo_opt list) result" where
  "kafka_sender_opts sc =
     (if blank (sc_Topic sc) then Inl (errors_New ''kafka sender requires topic'')
      else let brs = SplitCSV (sc_Remote sc) in
      if brs = [] then Inl (errors_New ''kafka sender requires brokers in remote/listen'')
      else with_duration ''kafka sender dial_timeout'' (sc_DialTimeout sc) DefaultKafkaDialTimeout (\<lambda>dialTimeout.
        with_duration ''kafka sender request_timeout'' (sc_RequestTimeout sc) DefaultKafkaSenderRequestTimeout (\<lambda>requestTimeout.
        with_duration ''kafka sender retry_timeout'' (sc_RetryTimeout sc) DefaultKafkaRetryTimeout (\<lambda>retryTimeout.
        with_duration ''kafka sender retry_backoff'' (sc_RetryBackoff sc) DefaultKafkaRetryBackoff (\<lambda>retryBackoff.
        with_duration ''kafka sender conn_idle_timeout'' (sc_ConnIdleTimeout sc) DefaultKafkaConnIdleTimeout (\<lambda>connIdleTimeout.
        with_duration ''kafka sender metadata_max_age'' (sc_MetadataMaxAge sc) DefaultKafkaMetadataMaxAge (\<lambda>metadataMaxAge.
        with_duration ''kafka sender close_flush_timeout'' (sc_CloseFlushTimeout sc) DefaultKafkaSenderCloseFlushTTL (\<lambda>closeFlushTimeout.
        bind_result (Partitioner (sc_Partitioner sc)) (\<lambda>partitioner.
        bind_result (CompressionCodec (sc_Compression sc) (sc_CompressionLevel sc)) (\<lambda>(codec, enabled).
        bind_result (BuildSASLMechanism (sc_SASLMechanism sc) (sc_Username sc) (sc_Password sc)) (\<lambda>mech.
          let idempotent = (case sc_Idempotent sc of None \<Rightarrow> True | Some b \<Rightarrow> b); cid = trim_space (sc_ClientID sc) in
          Inr (brs, closeFlushTimeout,
            [SeedBrokers brs, RequiredAcksOpt (RequiredAcks (kafka_acks_int (sc_Acks sc))), DialTimeout dialTimeout,
             ProduceRequestTimeout requestTimeout, RetryTimeout retryTimeout, RetryBackoff retryBackoff,
             ConnIdleTimeout connIdleTimeout, MetadataMaxAge metadataMaxAge, RecordPartitioner partitioner,
             ProducerBatchMaxBytes (wrap32 (IntDefault (sc_BatchMaxBytes sc) (2 ^ 20))),
             ProducerLinger (millis (IntDefault (sc_LingerMS sc) 1))] @
            opt_if (sc_MaxBufferedBytes sc > 0) (MaxBufferedBytes (sc_MaxBufferedBytes sc)) @
            opt_if (sc_MaxBufferedRecords sc > 0) (MaxBufferedRecords (sc_MaxBufferedRecords sc)) @
            opt_if (cid \<noteq> []) (ClientID cid) @
            opt_if enabled (ProducerBatchCompression codec) @
            opt_if (sc_TLS sc) (DialTLSConfig (sc_TLSSkipVerify sc)) @
            opt_if (\<not> idempotent) DisableIdempotentWrite @
            opt_if (sc_Retries sc > 0) (RecordRetries (sc_Retries sc)) @
            opt_if (sc_MaxInFlightRequestsPerConnection sc > 0)
              (MaxProduceRequestsInflightPerBroker (sc_MaxInFlightRequestsPerConnection sc)) @
            (case mech of None \<Rightarrow> [] | Some m \<Rightarrow> [SASL m])))))))))))))"

section \<open>The receiver\<close>

record kafka_receiver =
  kx_name :: string
  kx_brokers :: "string list"
  kx_topic :: string
  kx_groupID :: string
  kx_matchKey :: "int \<Rightarrow> string"
  kx_matchKeyMode :: string

definition kafka_receiver_opts :: "string \<Rightarrow> receiver_config \<Rightarrow> (string list \<times> string \<times> kgo_opt list) result" where
  "kafka_receiver_opts name rc =
     (if blank (rc_Topic rc) then Inl (errors_New ''kafka receiver requires topic'')
      else let groupID = (if blank (rc_GroupID rc) then ''forward-stub-'' @ name else trim_space (rc_GroupID rc));
               brs = SplitCSV (rc_Listen rc) in
      if brs = [] then Inl (errors_New ''kafka receiver requires brokers in listen/remote'')
      else with_duration ''kafka receiver dial_timeout'' (rc_DialTimeout rc) DefaultKafkaDialTimeout (\<lambda>dialTimeout.
        with_duration ''kafka receiver conn_idle_timeout'' (rc_ConnIdleTimeout rc) DefaultKafkaConnIdleTimeout (\<lambda>connIdleTimeout.
        with_duration ''kafka receiver metadata_max_age'' (rc_MetadataMaxAge rc) DefaultKafkaMetadataMaxAge (\<lambda>metadataMaxAge.
        with_duration ''kafka receiver retry_backoff'' (rc_RetryBackoff rc) DefaultKafkaRetryBackoff (\<lambda>retryBackoff.
        with_duration ''kafka receiver session_timeout'' (rc_SessionTimeout rc) DefaultKafkaReceiverSessionTTL (\<lambda>sessionTimeout.
        with_duration ''kafka receiver heartbeat_interval'' (rc_HeartbeatInterval rc) DefaultKafkaReceiverHeartbeat (\<lambda>heartbeatInterval.
        with_duration ''kafka receiver rebalance_timeout'' (rc_RebalanceTimeout rc) DefaultKafkaReceiverRebalanceTTL (\<lambda>rebalanceTimeout.
        let autoCommit = (case rc_AutoCommit rc of None \<Rightarrow> True | Some b \<Rightarrow> b) in
        bind_result (if autoCommit then with_duration ''kafka receiver auto_commit_interval'' (rc_AutoCommitInterval rc)
            DefaultKafkaReceiverAutoCommitIv Inr else Inr 0) (\<lambda>autoCommitInterval.
        bind_result (GroupBalancers (rc_Balancers rc)) (\<lambda>balancers.
        bind_result (IsolationLevel (rc_IsolationLevel rc)) (\<lambda>isolationLevel.
        bind_result (BuildSASLMechanism (rc_SASLMechanism rc) (rc_Username rc) (rc_Password rc)) (\<lambda>mech.
          let cid = trim_space (rc_ClientID rc); start = to_lower (trim_space (rc_StartOffset rc)) in
          Inr (brs, groupID,
            [SeedBrokers brs, ConsumerGroup groupID, ConsumeTopics (rc_Topic rc), DialTimeout dialTimeout,
             ConnIdleTimeout connIdleTimeout, MetadataMaxAge metadataMaxAge, RetryBackoff retryBackoff,
             SessionTimeout sessionTimeout, HeartbeatInterval heartbeatInterval, RebalanceTimeout rebalanceTimeout,
             Balancers balancers, FetchMinBytes (wrap32 (IntDefault (rc_FetchMinBytes rc) 1)),
             FetchMaxBytes (wrap32 (IntDefault (rc_FetchMaxBytes rc) (16 * 2 ^ 20))),
             FetchMaxPartitionBytes (wrap32 (IntDefault (rc_FetchMaxPartitionBytes rc) DefaultKafkaFetchMaxPartBytes)),
             FetchMaxWait (millis (IntDefault (rc_FetchMaxWaitMS rc) 100)), FetchIsolationLevel isolationLevel] @
            (if autoCommit then [AutoCommitInterval autoCommitInterval] else [DisableAutoCommit]) @
            opt_if (cid \<noteq> []) (ClientID cid) @
            opt_if (start = ''earliest'') ResetAtStart @
            opt_if (start = ''latest'') ResetAtEnd @
            opt_if (rc_TLS rc) (DialTLSConfig (rc_TLSSkipVerify rc)) @
            (case mech of None \<Rightarrow> [] | Some m \<Rightarrow> [SASL m]))))))))))))))"

definition NewKafkaReceiver :: "(kgo_opt list \<Rightarrow> go_error option) \<Rightarrow> string \<Rightarrow> receiver_config \<Rightarrow> kafka_receiver result" where
  "NewKafkaReceiver newClient name rc =
     bind_result (kafka_receiver_opts name rc) (\<lambda>(brs, groupID, opts).
       case newClient opts of
         Some err \<Rightarrow> Inl err
       | None \<Rightarrow> bind_result (compileKafkaMatchKeyBuilder (rc_MatchKey rc) (rc_Topic rc)) (\<lambda>(builder, mode).
           Inr \<lparr>kx_name = name, kx_brokers = brs, kx_topic = rc_Topic rc, kx_groupID = groupID, kx_matchKey = builder,
                kx_matchKeyMode = mode\<rparr>))"

text \<open>The packet of a record: topic, partition and value.\<close>

definition kafka_packet :: "kafka_receiver \<Rightarrow> string \<Rightarrow> int \<Rightarrow> bytes \<Rightarrow> pool \<Rightarrow> packet \<times> pool" where
  "kafka_packet r topic part v w =
     (let ((payload, rel), w1) = CopyFrom v w in
      (\<lparr>Kind = PayloadKindStream,
        Meta = zero_meta\<lparr>Proto := ProtoKafka, ReceiverName := kx_name r, Remote := topic, Local := kx_groupID r,
          MatchKey := kx_matchKey r part\<rparr>,
        Payload = payload, ReleaseFn = Some rel, paddr = next_addr w1\<rparr>, w1\<lparr>next_addr := Suc (next_addr w1)\<rparr>))"

text \<open>
  The loop of \<open>Start\<close> over the results of \<open>PollFetches\<close>: it ends when the context was cancelled, another error is
  logged. The result says whether \<open>Start\<close> has returned, and the packets handed to \<open>onPacket\<close>.
\<close>

datatype kafka_fetch = FetchCanceled | FetchFailed | Fetched "(string \<times> int \<times> bytes) list"

fun each_record :: "kafka_receiver \<Rightarrow> (string \<times> int \<times> bytes) list \<Rightarrow> pool \<Rightarrow> packet list \<Rightarrow> pool \<times> packet list" where
  "each_record r [] w out = (w, out)"
| "each_record r ((topic, part, v) # recs) w out =
     (let (p, w1) = kafka_packet r topic part v w in each_record r recs w1 (out @ [p]))"

fun kafka_consume :: "kafka_receiver \<Rightarrow> kafka_fetch list \<Rightarrow> pool \<Rightarrow> packet list \<Rightarrow> bool \<times> pool \<times> packet list" where
  "kafka_consume r [] w out = (False, w, out)"
| "kafka_consume r (FetchCanceled # fs) w out = (True, w, out)"
| "kafka_consume r (FetchFailed # fs) w out = kafka_consume r fs w out"
| "kafka_consume r (Fetched recs # fs) w out = (let (w1, out1) = each_record r recs w out in kafka_consume r fs w1 out1)"

end
