(* ===== verification/Skydds.thy ===== *)
theory Skydds
  imports Runs MatchKey Packet ValidateEnds
begin

text \<open>
  The SkyDDS sender and receiver (\<open>src/src/sender/skydds.go\<close>, \<open>src/src/receiver/skydds.go\<close>). The native library behind
  \<open>skydds.NewWriter\<close> and \<open>skydds.NewReader\<close> is outside: its constructors are parameters, the results of its calls come
  with the labels of the steps. The batches of the sender are touched by \<open>Send\<close>, by timer goroutines and by \<open>Close\<close>,
  each under a lock, and written outside it: a step for each locked section and for each write.
\<close>

section \<open>Constructors\<close>

record skydds_options =
  so_DCPSConfigFile :: string
  so_DomainID :: int
  so_TopicName :: string
  so_MessageModel :: string
  so_Reliable :: bool
  so_QueueDepth :: int
  so_MaxBlockingTimeMsec :: int
  so_ConsumerGroup :: string
  so_Compress :: bool
  so_DrainBufferBytes :: int

definition normalizeDrainBufferBytes :: "int \<Rightarrow> int" where
  "normalizeDrainBufferBytes v = (if v \<le> 0 then 4 * 2 ^ 20 else v)"

record skydds_sender =
  sk_name :: string
  sk_cfg :: sender_config
  sk_model :: string
  sk_batchNum :: int
  sk_batchSize :: int
  sk_batchDelay :: int

definition newSkyDDSSenderWithWriter :: "string \<Rightarrow> sender_config \<Rightarrow> skydds_sender result" where
  "newSkyDDSSenderWithWriter name sc =
     (let model = to_lower (trim_space (sc_MessageModel sc));
          s = \<lparr>sk_name = name, sk_cfg = sc, sk_model = model, sk_batchNum = 0, sk_batchSize = 0, sk_batchDelay = 0\<rparr>
      in if model = ''batch_octet'' then
           (case parse_duration (sc_BatchDelay sc) of
              None \<Rightarrow> Inl (errors_New ''invalid skydds batch_delay'')
            | Some d \<Rightarrow> Inr (s\<lparr>sk_batchNum := sc_BatchNum sc, sk_batchSize := sc_BatchSize sc, sk_batchDelay := d\<rparr>))
         else Inr s)"

text \<open>\<open>newWriter\<close> is the error of \<open>skydds.NewWriter\<close>.\<close>

definition NewSkyDDSSender :: "(skydds_options \<Rightarrow> go_error option) \<Rightarrow> string \<Rightarrow> sender_config \<Rightarrow> skydds_sender result" where
  "NewSkyDDSSender newWriter name sc =
     (case newWriter \<lparr>so_DCPSConfigFile = sc_DCPSConfigFile sc, so_DomainID = sc_DomainID sc, so_TopicName = sc_TopicName sc,
         so_MessageModel = to_lower (trim_space (sc_MessageModel sc)), so_Reliable = sc_Reliable sc, so_QueueDepth = sc_QueueDepth sc,
         so_MaxBlockingTimeMsec = sc_MaxBlockingTimeMsec sc, so_ConsumerGroup = [], so_Compress = sc_Compress sc, so_DrainBufferBytes = 0\<rparr> of
        Some err \<Rightarrow> Inl (Errorf ''new skydds writer: %w'' [AErr err])
      | None \<Rightarrow> newSkyDDSSenderWithWriter name sc)"

definition SkyDDSSender_Key :: "skydds_sender \<Rightarrow> string" where
  "SkyDDSSender_Key s = ''dds_skydds|domain='' @ itoa (sc_DomainID (sk_cfg s)) @ ''|topic='' @ sc_TopicName (sk_cfg s)"

section \<open>The batch\<close>

text \<open>
  Timers are numbers: \<open>yr_armed\<close> will fire, \<open>yr_fired\<close> have fired and their goroutine has not yet taken the lock. \<open>yr_flights\<close>
  are the writes at work, with the reason; \<open>DelayFailed\<close> is a timer's flush that failed and has not yet restored its
  batch. The last three fields record the messages that were taken, written, and given up after an error.
\<close>

datatype flush_reason = Octet | OversizeSingle | Threshold | Delay | DelayFailed | CloseFlush

record skydds_run =
  yr_closed :: bool
  yr_batch :: "bytes list"
  yr_batchBytes :: int
  yr_flushTimer :: "nat option"
  yr_armed :: "nat list"
  yr_fired :: "nat list"
  yr_timers :: nat
  yr_flights :: "(flush_reason \<times> bytes list) list"
  yr_writerClosed :: bool
  yr_accepted :: "bytes list"
  yr_written :: "bytes list"
  yr_lost :: "bytes list"

definition new_skydds_run :: skydds_run where
  "new_skydds_run = \<lparr>yr_closed = False, yr_batch = [], yr_batchBytes = 0, yr_flushTimer = None, yr_armed = [], yr_fired = [], yr_timers = 0,
     yr_flights = [], yr_writerClosed = False, yr_accepted = [], yr_written = [], yr_lost = []\<rparr>"

text \<open>\<open>Timer.Stop\<close>: a timer that has fired already is not stopped.\<close>

definition stop_timer :: "skydds_run \<Rightarrow> skydds_run" where
  "stop_timer r = (case yr_flushTimer r of None \<Rightarrow> r | Some t \<Rightarrow> r\<lparr>yr_armed := removeAll t (yr_armed r)\<rparr>)"

definition startFlushTimerLocked :: "skydds_run \<Rightarrow> skydds_run" where
  "startFlushTimerLocked r0 =
     (let r = stop_timer r0; t = yr_timers r in r\<lparr>yr_flushTimer := Some t, yr_armed := yr_armed r @ [t], yr_timers := Suc t\<rparr>)"

definition stopFlushTimerLocked :: "skydds_run \<Rightarrow> skydds_run" where
  "stopFlushTimerLocked r = (stop_timer r)\<lparr>yr_flushTimer := None\<rparr>"

definition drainBatchLocked :: "skydds_run \<Rightarrow> bytes list \<times> skydds_run" where
  "drainBatchLocked r = (if yr_batch r = [] then ([], r) else (yr_batch r, r\<lparr>yr_batch := [], yr_batchBytes := 0\<rparr>))"

definition batch_bytes :: "bytes list \<Rightarrow> int" where
  "batch_bytes ps = sum_list (map (\<lambda>p. int (length p)) ps)"

definition restoreBatchLocked :: "bytes list \<Rightarrow> skydds_run \<Rightarrow> skydds_run" where
  "restoreBatchLocked ps r =
     (if ps = [] then r
      else let r1 = r\<lparr>yr_batch := ps @ yr_batch r, yr_batchBytes := batch_bytes (ps @ yr_batch r)\<rparr> in
        if yr_batch r1 \<noteq> [] then startFlushTimerLocked r1 else r1)"

definition fly :: "flush_reason \<Rightarrow> bytes list \<Rightarrow> skydds_run \<Rightarrow> skydds_run" where
  "fly reason ps r = (if ps = [] then r else r\<lparr>yr_flights := yr_flights r @ [(reason, ps)]\<rparr>)"

definition closed_skydds :: go_error where "closed_skydds = errors_New ''skydds sender closed''"

definition append_message :: "bytes \<Rightarrow> skydds_run \<Rightarrow> skydds_run" where
  "append_message msg r0 =
     (let r = r0\<lparr>yr_batch := yr_batch r0 @ [msg], yr_batchBytes := yr_batchBytes r0 + int (length msg)\<rparr> in
      if length (yr_batch r) = 1 then startFlushTimerLocked r else r)"

text \<open>The locked section of \<open>sendBatch\<close>; the write that may follow is a flight.\<close>

definition sendBatch :: "skydds_sender \<Rightarrow> bytes \<Rightarrow> skydds_run \<Rightarrow> go_error option \<times> skydds_run" where
  "sendBatch s msg r0 =
     (if yr_closed r0 then (Some closed_skydds, r0)
      else let r = r0\<lparr>yr_accepted := yr_accepted r0 @ [msg]\<rparr> in
      if int (length msg) > sk_batchSize s \<and> yr_batch r = [] then (None, fly OversizeSingle [msg] r)
      else
        let r2 = append_message msg r
        in if int (length (yr_batch r2)) \<ge> sk_batchNum s \<or> yr_batchBytes r2 \<ge> sk_batchSize s
           then let (ps, r3) = drainBatchLocked r2 in (None, fly Threshold ps (stopFlushTimerLocked r3))
           else (None, r2))"

text \<open>\<open>Send\<close> up to its write. Without batches the payload is written at once, closed or not.\<close>

definition skydds_Send :: "skydds_sender \<Rightarrow> packet \<Rightarrow> skydds_run \<Rightarrow> go_error option \<times> skydds_run" where
  "skydds_Send s p r =
     (if sk_model s \<noteq> ''batch_octet'' then (None, r\<lparr>yr_flights := yr_flights r @ [(Octet, [Payload p])], yr_accepted := yr_accepted r @ [Payload p]\<rparr>)
      else sendBatch s (Payload p) r)"

text \<open>The first locked section of \<open>flushByTimer\<close>.\<close>

definition flushByTimer :: "skydds_run \<Rightarrow> skydds_run" where
  "flushByTimer r =
     (if yr_closed r then r
      else let (ps, r1) = drainBatchLocked r in fly Delay ps (r1\<lparr>yr_flushTimer := None\<rparr>))"

text \<open>A write has returned: what its caller does then. \<open>Close\<close> closes the writer only when its flush succeeded.\<close>

definition write_returns :: "nat \<Rightarrow> bool \<Rightarrow> skydds_run \<Rightarrow> skydds_run" where
  "write_returns i ok r =
     (let (reason, ps) = yr_flights r ! i; r1 = r\<lparr>yr_flights := take i (yr_flights r) @ drop (Suc i) (yr_flights r)\<rparr> in
      if ok then r1\<lparr>yr_written := yr_written r @ ps, yr_writerClosed := (if reason = CloseFlush then True else yr_writerClosed r)\<rparr>
      else if reason = Delay then r\<lparr>yr_flights := (yr_flights r)[i := (DelayFailed, ps)]\<rparr>
      else r1\<lparr>yr_lost := yr_lost r @ ps\<rparr>)"

definition restore_flight :: "nat \<Rightarrow> skydds_run \<Rightarrow> skydds_run" where
  "restore_flight i r =
     restoreBatchLocked (snd (yr_flights r ! i)) (r\<lparr>yr_flights := take i (yr_flights r) @ drop (Suc i) (yr_flights r)\<rparr>)"

text \<open>\<open>Close\<close> up to its write.\<close>

definition skydds_Close :: "skydds_run \<Rightarrow> skydds_run" where
  "skydds_Close r =
     (let (ps, r1) = drainBatchLocked (r\<lparr>yr_closed := True\<rparr>); r2 = stopFlushTimerLocked r1 in
      if ps = [] then r2\<lparr>yr_writerClosed := True\<rparr> else fly CloseFlush ps r2)"

datatype skydds_label = SendCalled packet | TimerFires nat | TimerRuns nat | WriteReturns nat bool | Restores nat | CloseCalled

fun skydds_step :: "skydds_sender \<Rightarrow> skydds_label \<Rightarrow> skydds_run \<Rightarrow> skydds_run option" where
  "skydds_step s (SendCalled p) r = Some (snd (skydds_Send s p r))"
| "skydds_step s (TimerFires t) r =
     (if t \<in> set (yr_armed r) then Some (r\<lparr>yr_armed := remove1 t (yr_armed r), yr_fired := yr_fired r @ [t]\<rparr>) else None)"
| "skydds_step s (TimerRuns t) r =
     (if t \<in> set (yr_fired r) then Some (flushByTimer (r\<lparr>yr_fired := remove1 t (yr_fired r)\<rparr>)) else None)"
| "skydds_step s (WriteReturns i ok) r =
     (if i < length (yr_flights r) \<and> fst (yr_flights r ! i) \<noteq> DelayFailed then Some (write_returns i ok r) else None)"
| "skydds_step s (Restores i) r =
     (if i < length (yr_flights r) \<and> fst (yr_flights r ! i) = DelayFailed then Some (restore_flight i r) else None)"
| "skydds_step s CloseCalled r = Some (skydds_Close r)"

fun skydds_steps :: "skydds_sender \<Rightarrow> skydds_label list \<Rightarrow> skydds_run \<Rightarrow> skydds_run option" where
  "skydds_steps s [] r = Some r"
| "skydds_steps s (l # ls) r = (case skydds_step s l r of None \<Rightarrow> None | Some r' \<Rightarrow> skydds_steps s ls r')"

interpretation skydds: runs "skydds_step s" "skydds_steps s" for s
  by unfold_locales simp_all

section \<open>The receiver\<close>

record skydds_receiver =
  kd_name :: string
  kd_cfg :: receiver_config
  kd_key :: string
  kd_mode :: string
  kd_model :: string
  kd_waitTimeout :: int
  kd_drainMaxItems :: int

definition NewSkyDDSReceiver :: "(skydds_options \<Rightarrow> go_error option) \<Rightarrow> string \<Rightarrow> receiver_config \<Rightarrow> skydds_receiver result" where
  "NewSkyDDSReceiver newReader name rc =
     (case newReader \<lparr>so_DCPSConfigFile = rc_DCPSConfigFile rc, so_DomainID = rc_DomainID rc, so_TopicName = rc_TopicName rc,
         so_MessageModel = to_lower (trim_space (rc_MessageModel rc)), so_Reliable = rc_Reliable rc, so_QueueDepth = rc_QueueDepth rc,
         so_MaxBlockingTimeMsec = rc_MaxBlockingTimeMsec rc, so_ConsumerGroup = rc_ConsumerGroup rc, so_Compress = rc_Compress rc,
         so_DrainBufferBytes = rc_DrainBufferBytes rc\<rparr> of
        Some err \<Rightarrow> Inl (Errorf ''new skydds reader: %w'' [AErr err])
      | None \<Rightarrow>
          let fixed = trim_space (mk_Mode (rc_MatchKey rc)) = ''fixed'';
              key = (if fixed then buildSingleFieldMatchKey ''skydds'' ''fixed'' (mk_FixedValue (rc_MatchKey rc))
                else ''skydds|topic_name='' @ rc_TopicName rc)
          in case parse_duration (rc_WaitTimeout rc) of
               None \<Rightarrow> Inl (Errorf ''invalid skydds receiver wait_timeout: %q'' [AStr (rc_WaitTimeout rc)])
             | Some d \<Rightarrow>
                 if d \<le> 0 then Inl (Errorf ''invalid skydds receiver wait_timeout: %q'' [AStr (rc_WaitTimeout rc)])
                 else if rc_DrainMaxItems rc \<le> 0 then Inl (Errorf ''invalid skydds receiver drain_max_items: %d'' [AInt (rc_DrainMaxItems rc)])
                 else Inr \<lparr>kd_name = name, kd_cfg = rc, kd_key = key, kd_mode = (if fixed then ''fixed'' else receiverMatchKeyModeCompatDefault),
                   kd_model = to_lower (trim_space (rc_MessageModel rc)), kd_waitTimeout = d, kd_drainMaxItems = rc_DrainMaxItems rc\<rparr>)"

definition SkyDDSReceiver_Key :: "skydds_receiver \<Rightarrow> string" where
  "SkyDDSReceiver_Key r = ''dds_skydds|domain='' @ itoa (rc_DomainID (kd_cfg r)) @ ''|topic='' @ rc_TopicName (kd_cfg r)"

definition emitPacket :: "skydds_receiver \<Rightarrow> bytes \<Rightarrow> pool \<Rightarrow> packet \<times> pool" where
  "emitPacket r payload w =
     (let ((buf, rel), w1) = CopyFrom payload w in
      (\<lparr>Kind = PayloadKindStream,
        Meta = zero_meta\<lparr>Proto := ProtoSkyDDS, ReceiverName := kd_name r, Remote := rc_TopicName (kd_cfg r),
          Local := ''domain:'' @ itoa (rc_DomainID (kd_cfg r)), MatchKey := kd_key r\<rparr>,
        Payload = buf, ReleaseFn = Some rel, paddr = next_addr w1\<rparr>, w1\<lparr>next_addr := Suc (next_addr w1)\<rparr>))"

text \<open>The inner loop over what \<open>Drain\<close> returned: empty messages are skipped.\<close>

fun emit_all :: "skydds_receiver \<Rightarrow> bytes list \<Rightarrow> pool \<Rightarrow> packet list \<Rightarrow> pool \<times> packet list" where
  "emit_all r [] w out = (w, out)"
| "emit_all r (b # bs) w out =
     (if b = [] then emit_all r bs w out else let (p, w1) = emitPacket r b w in emit_all r bs w1 (out @ [p]))"

text \<open>
  \<open>Start\<close> over the answers it gets: at the top whether the context has ended, then the result of \<open>Wait\<close>, then those of
  \<open>Drain\<close> until one is empty. The result says whether \<open>Start\<close> has returned, and how.
\<close>

datatype skydds_answer = CtxDone | WaitFailed go_error | NotReady | Ready | DrainFailed go_error | Drained "bytes list"

datatype skydds_outcome = StillRuns | Returned "go_error option"

fun skydds_receive :: "skydds_receiver \<Rightarrow> bool \<Rightarrow> skydds_answer list \<Rightarrow> pool \<Rightarrow> packet list \<Rightarrow> skydds_outcome \<times> pool \<times> packet list" where
  "skydds_receive r drains [] w out = (StillRuns, w, out)"
| "skydds_receive r False (CtxDone # as) w out = (Returned None, w, out)"
| "skydds_receive r False (WaitFailed err # as) w out = (Returned (Some (Errorf ''skydds receiver wait: %w'' [AErr err])), w, out)"
| "skydds_receive r False (NotReady # as) w out = skydds_receive r False as w out"
| "skydds_receive r False (Ready # as) w out = skydds_receive r True as w out"
| "skydds_receive r True (DrainFailed err # as) w out = (Returned (Some (Errorf ''skydds receiver drain: %w'' [AErr err])), w, out)"
| "skydds_receive r True (Drained bs # as) w out =
     (if bs = [] then skydds_receive r False as w out
      else let (w1, out1) = emit_all r bs w out in skydds_receive r True as w1 out1)"
| "skydds_receive r drains (a # as) w out = skydds_receive r drains as w out"

end
