(* ===== verification/Notifier.thy ===== *)
theory Notifier
  imports KafkaOptions FilePath Skydds
begin

text \<open>
  The notifications of the OSS sender after an object is complete (\<open>src/src/sender/notifier.go\<close>): the notifiers a
  configuration gives, the event and what each notifier is made to send. The client libraries are parameters: the
  errors of their constructors, and the result of each call. \<open>json.Marshal\<close> is a parameter as well.
\<close>

section \<open>The event\<close>

record file_ready_event =
  ev_EventType :: string
  ev_TransferID :: string
  ev_SourceProto :: string
  ev_SourcePath :: string
  ev_TargetProto :: string
  ev_FileName :: string
  ev_FilePath :: string
  ev_TotalSize :: int
  ev_SenderName :: string
  ev_ReceiverName :: string
  ev_ReadyAt :: int
  ev_FetchProtocol :: string
  ev_FetchHost :: string
  ev_FetchPort :: string
  ev_FetchPath :: string
  ev_FetchEndpoint :: string
  ev_FetchBucket :: string
  ev_FetchKey :: string

definition finalFileName :: "packet \<Rightarrow> string" where
  "finalFileName p =
     (let m = Meta p in
      if \<not> blank (TargetFileName m) then TargetFileName m
      else if \<not> blank (TargetFilePath m) then pathBase (TargetFilePath m)
      else if \<not> blank (FileName m) then FileName m
      else pathBase (FilePath m))"

definition protoName :: "proto \<Rightarrow> string" where
  "protoName pr =
     (if pr = ProtoUDP then ''udp'' else if pr = ProtoTCP then ''tcp'' else if pr = ProtoKafka then ''kafka'' else if pr = ProtoSFTP then ''sftp''
      else if pr = ProtoSkyDDS then ''dds_skydds'' else if pr = ProtoLocal then ''local'' else if pr = ProtoOSS then ''oss'' else ''unknown'')"

text \<open>\<open>now\<close> is the time of the call.\<close>

definition baseFileReadyEvent :: "int \<Rightarrow> packet \<Rightarrow> string \<Rightarrow> string \<Rightarrow> string \<Rightarrow> file_ready_event" where
  "baseFileReadyEvent now p senderName targetProto finalPath =
     \<lparr>ev_EventType = ''file_ready'', ev_TransferID = TransferID (Meta p), ev_SourceProto = protoName (Proto (Meta p)),
      ev_SourcePath = FilePath (Meta p), ev_TargetProto = targetProto, ev_FileName = finalFileName p, ev_FilePath = finalPath,
      ev_TotalSize = TotalSize (Meta p), ev_SenderName = senderName, ev_ReceiverName = ReceiverName (Meta p), ev_ReadyAt = now,
      ev_FetchProtocol = [], ev_FetchHost = [], ev_FetchPort = [], ev_FetchPath = [], ev_FetchEndpoint = [], ev_FetchBucket = [], ev_FetchKey = []\<rparr>"

definition ossFileReadyEvent :: "int \<Rightarrow> packet \<Rightarrow> string \<Rightarrow> string \<Rightarrow> string \<Rightarrow> string \<Rightarrow> file_ready_event" where
  "ossFileReadyEvent now p senderName endpoint bucket key =
     (baseFileReadyEvent now p senderName ''oss'' key)
       \<lparr>ev_FetchProtocol := ''oss'', ev_FetchEndpoint := endpoint, ev_FetchBucket := bucket, ev_FetchKey := key\<rparr>"

text \<open>\<open>None\<close> is the nil key.\<close>

definition fileReadyRecordKey :: "string \<Rightarrow> file_ready_event \<Rightarrow> bytes option" where
  "fileReadyRecordKey source ev =
     (if source = ''transfer_id'' then Some (bytes_of_str (ev_TransferID ev))
      else if source = ''file_path'' then Some (bytes_of_str (ev_FilePath ev))
      else if source = ''file_name'' then Some (bytes_of_str (ev_FileName ev))
      else if source = ''sender_name'' then Some (bytes_of_str (ev_SenderName ev))
      else if source = ''receiver_name'' then Some (bytes_of_str (ev_ReceiverName ev))
      else if source = ''fetch_path'' then Some (bytes_of_str (if ev_FetchPath ev \<noteq> [] then ev_FetchPath ev else ev_FetchKey ev))
      else None)"

section \<open>Notifiers\<close>

datatype commit_notifier = KafkaCommitNotifier (kn_topic: string) (kn_keySource: string) | SkyDDSCommitNotifier

text \<open>The options of the Kafka client.\<close>

definition kafka_notifier_opts :: "notify_on_success_config \<Rightarrow> (kgo_opt list) result" where
  "kafka_notifier_opts nc =
     (let brs = SplitCSV (nc_Remote nc) in
      if brs = [] then Inl (errors_New ''kafka commit notifier requires remote'')
      else with_duration ''kafka commit notifier dial_timeout'' (nc_DialTimeout nc) DefaultKafkaDialTimeout (\<lambda>dialTimeout.
        with_duration ''kafka commit notifier request_timeout'' (nc_RequestTimeout nc) DefaultKafkaSenderRequestTimeout (\<lambda>requestTimeout.
        with_duration ''kafka commit notifier retry_timeout'' (nc_RetryTimeout nc) DefaultKafkaRetryTimeout (\<lambda>retryTimeout.
        with_duration ''kafka commit notifier retry_backoff'' (nc_RetryBackoff nc) DefaultKafkaRetryBackoff (\<lambda>retryBackoff.
        with_duration ''kafka commit notifier conn_idle_timeout'' (nc_ConnIdleTimeout nc) DefaultKafkaConnIdleTimeout (\<lambda>connIdleTimeout.
        with_duration ''kafka commit notifier metadata_max_age'' (nc_MetadataMaxAge nc) DefaultKafkaMetadataMaxAge (\<lambda>metadataMaxAge.
        bind_result (BuildSASLMechanism (nc_SASLMechanism nc) (nc_Username nc) (nc_Password nc)) (\<lambda>mech.
          Inr ([SeedBrokers brs, RequiredAcksOpt AllISRAcks, DialTimeout dialTimeout, ProduceRequestTimeout requestTimeout,
             RetryTimeout retryTimeout, RetryBackoff retryBackoff, ConnIdleTimeout connIdleTimeout, MetadataMaxAge metadataMaxAge] @
            opt_if (nc_ClientID nc \<noteq> []) (ClientID (nc_ClientID nc)) @
            opt_if (nc_TLS nc) (DialTLSConfig (nc_TLSSkipVerify nc)) @
            (case mech of None \<Rightarrow> [] | Some m \<Rightarrow> [SASL m]))))))))))"

definition NewKafkaCommitNotifier :: "(kgo_opt list \<Rightarrow> go_error option) \<Rightarrow> notify_on_success_config \<Rightarrow> commit_notifier result" where
  "NewKafkaCommitNotifier newClient nc =
     (case kafka_notifier_opts nc of
        Inl err \<Rightarrow> Inl err
      | Inr opts \<Rightarrow>
          (case newClient opts of
             Some err \<Rightarrow> Inl err
           | None \<Rightarrow> Inr (KafkaCommitNotifier (nc_Topic nc) (trim_space (nc_RecordKeySource nc)))))"

definition NewSkyDDSCommitNotifier :: "(skydds_options \<Rightarrow> go_error option) \<Rightarrow> notify_on_success_config \<Rightarrow> commit_notifier result" where
  "NewSkyDDSCommitNotifier newWriter nc =
     (if to_lower (trim_space (nc_MessageModel nc)) \<noteq> ''octet'' then Inl (errors_New ''skydds commit notifier only supports message_model=octet'')
      else case newWriter \<lparr>so_DCPSConfigFile = nc_DCPSConfigFile nc, so_DomainID = nc_DomainID nc, so_TopicName = nc_TopicName nc,
          so_MessageModel = ''octet'', so_Reliable = nc_Reliable nc, so_QueueDepth = nc_QueueDepth nc,
          so_MaxBlockingTimeMsec = nc_MaxBlockingTimeMsec nc, so_ConsumerGroup = [], so_Compress = nc_Compress nc, so_DrainBufferBytes = 0\<rparr> of
        Some err \<Rightarrow> Inl (Errorf ''new skydds commit notifier writer: %w'' [AErr err])
      | None \<Rightarrow> Inr SkyDDSCommitNotifier)"

definition buildOSSCommitNotifier ::
  "(kgo_opt list \<Rightarrow> go_error option) \<Rightarrow> (skydds_options \<Rightarrow> go_error option) \<Rightarrow> notify_on_success_config \<Rightarrow> commit_notifier result" where
  "buildOSSCommitNotifier newClient newWriter nc =
     (if trim_space (nc_Type nc) = ''kafka'' then NewKafkaCommitNotifier newClient nc
      else if trim_space (nc_Type nc) = ''dds_skydds'' then NewSkyDDSCommitNotifier newWriter nc
      else Inl (Errorf ''notify_on_success unsupported type %s'' [AStr (nc_Type nc)]))"

text \<open>An error comes with the notifiers that were built before it, which are closed.\<close>

fun buildOSSCommitNotifiers ::
  "(kgo_opt list \<Rightarrow> go_error option) \<Rightarrow> (skydds_options \<Rightarrow> go_error option) \<Rightarrow> notify_on_success_config list \<Rightarrow> commit_notifier list \<Rightarrow>
    (go_error \<times> commit_notifier list) + (commit_notifier list)" where
  "buildOSSCommitNotifiers newClient newWriter [] out = Inr out"
| "buildOSSCommitNotifiers newClient newWriter (nc # ncs) out =
     (case buildOSSCommitNotifier newClient newWriter nc of
        Inl err \<Rightarrow> Inl (err, out)
      | Inr n \<Rightarrow> buildOSSCommitNotifiers newClient newWriter ncs (out @ [n]))"

section \<open>Notifying\<close>

text \<open>The call of the library that a notifier makes.\<close>

datatype notify_call = ProduceSync string "bytes option" bytes | WriterWrite bytes

definition NotifyFileReady :: "(file_ready_event \<Rightarrow> bytes result) \<Rightarrow> commit_notifier \<Rightarrow> file_ready_event \<Rightarrow> notify_call result" where
  "NotifyFileReady marshal n ev =
     (case marshal ev of
        Inl err \<Rightarrow> Inl err
      | Inr b \<Rightarrow>
          Inr (case n of
             KafkaCommitNotifier topic source \<Rightarrow> ProduceSync topic (fileReadyRecordKey source ev) b
           | SkyDDSCommitNotifier \<Rightarrow> WriterWrite b))"

text \<open>\<open>errors.Join\<close>: nil when there is no error.\<close>

definition errors_Join :: "go_error list \<Rightarrow> go_error option" where
  "errors_Join errs = (if errs = [] then None else Some (Errorf ''%w'' (map AErr errs)))"

text \<open>\<open>answer i c\<close> is the error of the call \<open>c\<close> of notifier \<open>i\<close>. The result is the calls that were made and the joined error.\<close>

fun notify_all :: "(file_ready_event \<Rightarrow> bytes result) \<Rightarrow> (nat \<Rightarrow> notify_call \<Rightarrow> go_error option) \<Rightarrow> file_ready_event \<Rightarrow> nat \<Rightarrow>
    commit_notifier list \<Rightarrow> (nat \<times> notify_call) list \<times> go_error list" where
  "notify_all marshal answer ev i [] = ([], [])"
| "notify_all marshal answer ev i (n # ns) =
     (let (calls, errs) = notify_all marshal answer ev (Suc i) ns in
      case NotifyFileReady marshal n ev of
        Inl err \<Rightarrow> (calls, Errorf ''notifier[%d]: %w'' [AInt (int i), AErr err] # errs)
      | Inr c \<Rightarrow>
          ((i, c) # calls, (case answer i c of None \<Rightarrow> errs | Some err \<Rightarrow> Errorf ''notifier[%d]: %w'' [AInt (int i), AErr err] # errs)))"

definition notifyOSSCommitSuccess ::
  "(file_ready_event \<Rightarrow> bytes result) \<Rightarrow> (nat \<Rightarrow> notify_call \<Rightarrow> go_error option) \<Rightarrow> commit_notifier list \<Rightarrow> file_ready_event \<Rightarrow>
    (nat \<times> notify_call) list \<times> go_error option" where
  "notifyOSSCommitSuccess marshal answer ns ev = (let (calls, errs) = notify_all marshal answer ev 0 ns in (calls, errors_Join errs))"

end
