(* ===== verification/OssTable.thy ===== *)
theory OssTable
  imports OssSender Notifier
begin

text \<open>
  The OSS sender as a whole (\<open>src/src/sender/oss.go\<close>): its constructor, the table of transfers, and the calls of
  \<open>Send\<close> and \<open>Close\<close> that run at the same time. What \<open>Send\<close> does to one transfer is in \<open>OssSender\<close>; here is how a transfer
  is found or made, given up, completed, notified and aborted. A step is a locked section of the sender or of a
  transfer, or the return of a call of the storage API.
\<close>

section \<open>The sender\<close>

record oss_sender =
  oz_name :: string
  oz_endpoint :: string
  oz_bucket :: string
  oz_keyPrefix :: string
  oz_partSize :: int
  oz_storageClass :: string
  oz_contentType :: string
  oz_notifiers :: "commit_notifier list"
  oz_pendingLimit :: int

definition defaultOSSPartSize :: int where "defaultOSSPartSize = DefaultOSSPartSize"

definition newOSSSenderWithAPI :: "string \<Rightarrow> sender_config \<Rightarrow> commit_notifier list \<Rightarrow> int \<Rightarrow> oss_sender" where
  "newOSSSenderWithAPI name sc notifiers partSize0 =
     (let partSize = (if partSize0 \<le> 0 then defaultOSSPartSize else partSize0) in
      \<lparr>oz_name = name, oz_endpoint = trim_space (sc_Endpoint sc), oz_bucket = trim_space (sc_Bucket sc), oz_keyPrefix = trim_space (sc_KeyPrefix sc),
       oz_partSize = partSize, oz_storageClass = trim_space (sc_StorageClass sc), oz_contentType = trim_space (sc_ContentType sc),
       oz_notifiers = notifiers, oz_pendingLimit = wrap64 (partSize * 2)\<rparr>)"

text \<open>The options of \<open>minio.NewCore\<close>; \<open>newCore\<close> is its error.\<close>

record minio_options =
  mo_endpoint :: string
  mo_accessKey :: string
  mo_secretKey :: string
  mo_secure :: bool
  mo_region :: string
  mo_pathStyle :: bool

definition NewOSSSender ::
  "(minio_options \<Rightarrow> go_error option) \<Rightarrow> (kgo_opt list \<Rightarrow> go_error option) \<Rightarrow> (skydds_options \<Rightarrow> go_error option) \<Rightarrow>
    string \<Rightarrow> sender_config \<Rightarrow> oss_sender result" where
  "NewOSSSender newCore newClient newWriter name sc =
     (case first_err
        [fail_if (blank (sc_Endpoint sc)) (errors_New ''oss sender requires endpoint''),
         fail_if (blank (sc_Bucket sc)) (errors_New ''oss sender requires bucket''),
         fail_if (blank (sc_AccessKey sc) \<or> blank (sc_SecretKey sc)) (errors_New ''oss sender requires access_key and secret_key'')] of
        Some err \<Rightarrow> Inl err
      | None \<Rightarrow>
          (let partSize = (if sc_PartSize sc \<le> 0 then defaultOSSPartSize else sc_PartSize sc) in
           case newCore \<lparr>mo_endpoint = trim_space (sc_Endpoint sc), mo_accessKey = trim_space (sc_AccessKey sc), mo_secretKey = trim_space (sc_SecretKey sc),
               mo_secure = sc_UseSSL sc, mo_region = trim_space (sc_Region sc), mo_pathStyle = sc_ForcePathStyle sc\<rparr> of
             Some err \<Rightarrow> Inl err
           | None \<Rightarrow>
               (case buildOSSCommitNotifiers newClient newWriter (elems (sc_NotifyOnSuccess sc)) [] of
                  Inl (err, closed) \<Rightarrow> Inl err
                | Inr ns \<Rightarrow> Inr (newOSSSenderWithAPI name sc ns partSize))))"

definition OSSSender_Key :: "oss_sender \<Rightarrow> string" where
  "OSSSender_Key s = ''oss|'' @ oz_endpoint s @ ''|'' @ oz_bucket s @ ''|'' @ oz_keyPrefix s"

section \<open>Transfers and calls\<close>

text \<open>
  A transfer is an object in memory, named by its number; the table maps transfer IDs to numbers. Until \<open>initDone\<close> is
  closed the transfer has no object key and no upload, and nobody but its creator touches it.
\<close>

datatype oss_init = InitRuns | InitFailed go_error | InitDone

record oss_object =
  ob_transfer :: string
  ob_first :: packet
  ob_init :: oss_init
  ob_run :: oss_run

text \<open>
  Where a call of \<open>Send\<close> is: the creator waits for \<open>NewMultipartUpload\<close>; another waits for \<open>initDone\<close>; it drives the
  upload; the object is complete and the transfer about to be taken out of the table; the notifiers are called; an
  error of \<open>acceptPacket\<close> is about to take the transfer out of the table; the abort is called; it has returned.
\<close>

datatype send_phase =
    SendInits nat | SendWaits nat | SendDrives nat | SendCompleted nat | SendNotifies nat | SendFails nat go_error | SendAborts nat go_error
  | SendReturned "go_error option"

text \<open>\<open>Close\<close> aborts the transfers it took out of the table one after the other, and collects the errors.\<close>

datatype close_phase = CloseAborts "nat list" "go_error list" | CloseReturned "go_error option"

text \<open>\<open>tb_aborts\<close> and \<open>tb_notified\<close> record the calls of \<open>AbortMultipartUpload\<close> (by transfer) and of the notifiers (with the event).\<close>

record oss_table =
  tb_states :: "(string \<times> nat) list"
  tb_objs :: "oss_object list"
  tb_sends :: "(packet \<times> send_phase) list"
  tb_closes :: "close_phase list"
  tb_aborts :: "nat list"
  tb_notified :: "(nat \<times> file_ready_event \<times> (nat \<times> notify_call) list) list"

definition new_oss_table :: oss_table where
  "new_oss_table = \<lparr>tb_states = [], tb_objs = [], tb_sends = [], tb_closes = [], tb_aborts = [], tb_notified = []\<rparr>"

definition set_send :: "nat \<Rightarrow> send_phase \<Rightarrow> oss_table \<Rightarrow> oss_table" where
  "set_send c ph t = t\<lparr>tb_sends := (tb_sends t)[c := (fst (tb_sends t ! c), ph)]\<rparr>"

definition set_run :: "nat \<Rightarrow> oss_run \<Rightarrow> oss_table \<Rightarrow> oss_table" where
  "set_run i r t = t\<lparr>tb_objs := (tb_objs t)[i := (tb_objs t ! i)\<lparr>ob_run := r\<rparr>]\<rparr>"

definition set_init :: "nat \<Rightarrow> oss_init \<Rightarrow> oss_table \<Rightarrow> oss_table" where
  "set_init i x t = t\<lparr>tb_objs := (tb_objs t)[i := (tb_objs t ! i)\<lparr>ob_init := x\<rparr>]\<rparr>"

text \<open>The transfer is deleted only when the table still has this one under its ID.\<close>

definition delete_state :: "nat \<Rightarrow> oss_table \<Rightarrow> oss_table" where
  "delete_state i t =
     (let tid = ob_transfer (tb_objs t ! i) in
      if map_of (tb_states t) tid = Some i then t\<lparr>tb_states := AList.delete tid (tb_states t)\<rparr> else t)"

section \<open>The parts of Send\<close>

text \<open>The first locked section of \<open>getOrCreateTransferState\<close>.\<close>

definition getOrCreateTransferState :: "packet \<Rightarrow> oss_table \<Rightarrow> send_phase \<times> oss_table" where
  "getOrCreateTransferState p t =
     (let tid = trim_space (TransferID (Meta p)) in
      case map_of (tb_states t) tid of
        Some i \<Rightarrow> (SendWaits i, t)
      | None \<Rightarrow>
          (let i = length (tb_objs t) in
           (SendInits i, t\<lparr>tb_states := (tid, i) # tb_states t,
              tb_objs := tb_objs t @ [\<lparr>ob_transfer = tid, ob_first = p, ob_init = InitRuns, ob_run = start_run [] [] p\<rparr>]\<rparr>)))"

text \<open>
  Its end: the object key, then \<open>NewMultipartUpload\<close>, whose result is \<open>answer\<close>. An error takes the transfer out of
  the table before \<open>initDone\<close> is closed.
\<close>

definition init_transfer :: "oss_sender \<Rightarrow> nat \<Rightarrow> nat \<Rightarrow> string result \<Rightarrow> oss_table \<Rightarrow> oss_table" where
  "init_transfer s c i answer t =
     (let p = ob_first (tb_objs t ! i) in
      case bind_result (ossObjectKey (oz_keyPrefix s) p) (\<lambda>key. bind_result answer (\<lambda>upload. Inr (key, upload))) of
        Inl err \<Rightarrow> set_send c (SendReturned (Some err)) (set_init i (InitFailed err) (delete_state i t))
      | Inr (key, upload) \<Rightarrow> set_send c (SendWaits i) (set_init i InitDone (set_run i (start_run key upload p) t)))"

definition errOSSPendingLimitExceeded :: go_error where
  "errOSSPendingLimitExceeded = Errorf ''oss sender pending out-of-order chunks exceed bounded limit'' []"

definition isOSSTerminalTransferError :: "go_error \<Rightarrow> bool" where
  "isOSSTerminalTransferError err = (case err of Errorf fmt args \<Rightarrow> AErr errOSSPendingLimitExceeded \<in> set args)"

text \<open>\<open>acceptPacket\<close> and what \<open>Send\<close> does with its result.\<close>

definition accept_step :: "oss_sender \<Rightarrow> nat \<Rightarrow> nat \<Rightarrow> packet \<Rightarrow> oss_table \<Rightarrow> oss_table" where
  "accept_step s c i p t =
     (let r = ob_run (tb_objs t ! i) in
      case acceptPacket (oz_pendingLimit s) (oz_partSize s) p (run_st r) of
        (Inl err, st) \<Rightarrow>
          set_send c (if isOSSTerminalTransferError err then SendFails i err else SendReturned (Some err))
            (set_run i (r\<lparr>run_st := st, run_failed := True\<rparr>) t)
      | (Inr shouldDrive, st) \<Rightarrow>
          set_send c (if shouldDrive then SendDrives i else SendReturned None)
            (set_run i (r\<lparr>run_st := st, run_phase := (if shouldDrive then Driving else run_phase r)\<rparr>) t))"

text \<open>One round of \<open>driveOSSUpload\<close>; \<open>err\<close> is the error of a call of the API that failed.\<close>

definition drive_step :: "oss_sender \<Rightarrow> nat \<Rightarrow> nat \<Rightarrow> oss_label \<Rightarrow> go_error \<Rightarrow> oss_table \<Rightarrow> oss_table option" where
  "drive_step s c i l err t =
     (let r = ob_run (tb_objs t ! i) in
      case driveOSSUpload (oz_partSize s) l r of
        None \<Rightarrow> None
      | Some r' \<Rightarrow>
          Some (set_send c
            (if run_phase r' \<noteq> Idle then SendDrives i
             else if l = CallFails then SendReturned (Some err)
             else if l = Next then SendReturned None
             else SendCompleted i) (set_run i r' t)))"

text \<open>\<open>abortTransfer\<close> of a transfer whose initialisation is over: whether it calls the API, and its error.\<close>

definition abort_calls :: "nat \<Rightarrow> oss_table \<Rightarrow> bool" where
  "abort_calls i t \<longleftrightarrow>
     (let o1 = tb_objs t ! i; st = run_st (ob_run o1) in
      (case ob_init o1 of InitFailed err \<Rightarrow> False | _ \<Rightarrow> os_objectKey st \<noteq> [] \<and> os_uploadID st \<noteq> []))"

definition abortTransfer :: "nat \<Rightarrow> go_error option \<Rightarrow> oss_table \<Rightarrow> go_error option \<times> oss_table" where
  "abortTransfer i answer t =
     (if abort_calls i t then
        (let st = run_st (ob_run (tb_objs t ! i)) in
         (map_option (\<lambda>err. Errorf ''abort oss multipart upload object=%s upload_id=%s: %w'' [AStr (os_objectKey st), AStr (os_uploadID st), AErr err]) answer,
          t\<lparr>tb_aborts := tb_aborts t @ [i]\<rparr>))
      else (None, t))"

definition notify_step :: "oss_sender \<Rightarrow> (file_ready_event \<Rightarrow> bytes result) \<Rightarrow> nat \<Rightarrow> nat \<Rightarrow> packet \<Rightarrow> int \<Rightarrow> (nat \<Rightarrow> notify_call \<Rightarrow> go_error option) \<Rightarrow>
    oss_table \<Rightarrow> oss_table" where
  "notify_step s marshal c i p now answer t =
     (let ev = ossFileReadyEvent now p (oz_name s) (oz_endpoint s) (oz_bucket s) (os_objectKey (run_st (ob_run (tb_objs t ! i))));
          (calls, err) = notifyOSSCommitSuccess marshal answer (oz_notifiers s) ev
      in set_send c (SendReturned (map_option (\<lambda>e. Errorf ''oss sender object completed but notify failed: %w'' [AErr e]) err))
           (t\<lparr>tb_notified := tb_notified t @ [(i, ev, calls)]\<rparr>))"

section \<open>Steps\<close>

text \<open>
  The first label is a call of \<open>Send\<close>; those with a number are steps of that call. \<open>CloseCalled\<close> has the order in which
  \<open>Close\<close> ranges over the table.
\<close>

datatype table_label =
    Sends packet | InitReturns nat "string result" | Goes nat | Drives nat oss_label go_error | AbortReturns nat "go_error option"
  | Notifies nat int "nat \<Rightarrow> notify_call \<Rightarrow> go_error option" | Closes "nat list" | CloseGoesOn nat "go_error option"

definition send_called :: "(bytes \<Rightarrow> bytes) \<Rightarrow> packet \<Rightarrow> oss_table \<Rightarrow> oss_table" where
  "send_called sha p t =
     (case oss_send_guard sha p of
        Some err \<Rightarrow> t\<lparr>tb_sends := tb_sends t @ [(p, SendReturned (Some err))]\<rparr>
      | None \<Rightarrow> (let (ph, t') = getOrCreateTransferState p t in t'\<lparr>tb_sends := tb_sends t' @ [(p, ph)]\<rparr>))"

text \<open>The steps of \<open>Send\<close> that need no answer from outside.\<close>

definition send_goes :: "oss_sender \<Rightarrow> nat \<Rightarrow> oss_table \<Rightarrow> oss_table option" where
  "send_goes s c t =
     (let (p, ph) = tb_sends t ! c in
      case ph of
        SendWaits i \<Rightarrow>
          (case ob_init (tb_objs t ! i) of
             InitRuns \<Rightarrow> None
           | InitFailed err \<Rightarrow> Some (set_send c (SendReturned (Some err)) t)
           | InitDone \<Rightarrow> Some (accept_step s c i p t))
      | SendCompleted i \<Rightarrow> Some (set_send c (SendNotifies i) (delete_state i t))
      | SendFails i err \<Rightarrow> Some (set_send c (SendAborts i err) (delete_state i t))
      | _ \<Rightarrow> None)"

definition table_Close :: "nat list \<Rightarrow> oss_table \<Rightarrow> oss_table option" where
  "table_Close order t =
     (if distinct order \<and> set order = set (map snd (tb_states t))
      then Some (t\<lparr>tb_states := [], tb_closes := tb_closes t @ [if order = [] then CloseReturned None else CloseAborts order []]\<rparr>)
      else None)"

text \<open>\<open>Close\<close> waits for the initialisation of the next transfer and aborts it.\<close>

definition close_goes :: "nat \<Rightarrow> go_error option \<Rightarrow> oss_table \<Rightarrow> oss_table option" where
  "close_goes k answer t =
     (case tb_closes t ! k of
        CloseAborts (i # is) errs \<Rightarrow>
          if ob_init (tb_objs t ! i) = InitRuns then None
          else
            (let (err, t') = abortTransfer i answer t; errs' = errs @ (case err of None \<Rightarrow> [] | Some e \<Rightarrow> [e]) in
             Some (t'\<lparr>tb_closes := (tb_closes t')[k := if is = [] then CloseReturned (errors_Join errs') else CloseAborts is errs']\<rparr>))
      | _ \<Rightarrow> None)"

fun table_step :: "oss_sender \<Rightarrow> (bytes \<Rightarrow> bytes) \<Rightarrow> (file_ready_event \<Rightarrow> bytes result) \<Rightarrow> table_label \<Rightarrow> oss_table \<Rightarrow> oss_table option" where
  "table_step s sha marshal (Sends p) t = Some (send_called sha p t)"
| "table_step s sha marshal (InitReturns c answer) t =
     (if c < length (tb_sends t) then
        (case snd (tb_sends t ! c) of SendInits i \<Rightarrow> Some (init_transfer s c i answer t) | _ \<Rightarrow> None)
      else None)"
| "table_step s sha marshal (Goes c) t = (if c < length (tb_sends t) then send_goes s c t else None)"
| "table_step s sha marshal (Drives c l err) t =
     (if c < length (tb_sends t) then
        (case snd (tb_sends t ! c) of SendDrives i \<Rightarrow> drive_step s c i l err t | _ \<Rightarrow> None)
      else None)"
| "table_step s sha marshal (AbortReturns c answer) t =
     (if c < length (tb_sends t) then
        (case snd (tb_sends t ! c) of
           SendAborts i err \<Rightarrow>
             (let (e, t') = abortTransfer i answer t
              in Some (set_send c (SendReturned (case e of None \<Rightarrow> Some err | Some e' \<Rightarrow> errors_Join [err, e'])) t'))
         | _ \<Rightarrow> None)
      else None)"
| "table_step s sha marshal (Notifies c now answer) t =
     (if c < length (tb_sends t) then
        (case tb_sends t ! c of (p, SendNotifies i) \<Rightarrow> Some (notify_step s marshal c i p now answer t) | _ \<Rightarrow> None)
      else None)"
| "table_step s sha marshal (Closes order) t = table_Close order t"
| "table_step s sha marshal (CloseGoesOn k answer) t = (if k < length (tb_closes t) then close_goes k answer t else None)"

fun table_steps :: "oss_sender \<Rightarrow> (bytes \<Rightarrow> bytes) \<Rightarrow> (file_ready_event \<Rightarrow> bytes result) \<Rightarrow> table_label list \<Rightarrow> oss_table \<Rightarrow> oss_table option" where
  "table_steps s sha marshal [] t = Some t"
| "table_steps s sha marshal (l # ls) t = (case table_step s sha marshal l t of None \<Rightarrow> None | Some t' \<Rightarrow> table_steps s sha marshal ls t')"

end
