(* ===== verification/OssTableProps.thy ===== *)
theory OssTableProps
  imports OssTable OssProps Runs
begin

text \<open>
  The OSS sender in all interleavings of its calls: every transfer is a run of \<open>OssSender\<close> over the packets of its own transfer ID, so what
  holds of one transfer holds in the sender; no upload is forgotten; and a notification follows its object.
\<close>

interpretation table_runs: runs "table_step s sha marshal" "table_steps s sha marshal" for s sha marshal
  by unfold_locales simp_all

section \<open>What the parts of a step leave alone\<close>

lemma table_frames [simp]:
  "tb_states (set_send c ph t) = tb_states t" "tb_objs (set_send c ph t) = tb_objs t" "tb_closes (set_send c ph t) = tb_closes t"
  "tb_aborts (set_send c ph t) = tb_aborts t" "tb_notified (set_send c ph t) = tb_notified t"
  "tb_states (set_run i r t) = tb_states t" "tb_sends (set_run i r t) = tb_sends t" "tb_closes (set_run i r t) = tb_closes t"
  "tb_aborts (set_run i r t) = tb_aborts t" "tb_notified (set_run i r t) = tb_notified t"
  "tb_states (set_init i x t) = tb_states t" "tb_sends (set_init i x t) = tb_sends t" "tb_closes (set_init i x t) = tb_closes t"
  "tb_aborts (set_init i x t) = tb_aborts t" "tb_notified (set_init i x t) = tb_notified t"
  "tb_objs (delete_state i t) = tb_objs t" "tb_sends (delete_state i t) = tb_sends t" "tb_closes (delete_state i t) = tb_closes t"
  "tb_aborts (delete_state i t) = tb_aborts t" "tb_notified (delete_state i t) = tb_notified t"
  by (simp_all add: set_send_def set_run_def set_init_def delete_state_def Let_def)

lemma set_send_sends: "tb_sends (set_send c ph t) = (tb_sends t)[c := (fst (tb_sends t ! c), ph)]"
  by (simp add: set_send_def)

lemma abort_frames:
  assumes "abortTransfer i answer t = (err, t')"
  shows "tb_states t' = tb_states t" "tb_objs t' = tb_objs t" "tb_sends t' = tb_sends t" "tb_closes t' = tb_closes t" "tb_notified t' = tb_notified t"
    "tb_aborts t' = tb_aborts t @ (if abort_calls i t then [i] else [])"
  using assms by (auto simp: abortTransfer_def Let_def split: if_splits)

section \<open>One transfer in the sender\<close>

text \<open>\<open>object_of F\<close>: a transfer that has an upload is a run over chunks of the file of its ID; \<open>F\<close> gives the file of each ID.\<close>

definition file_packet :: "(string \<Rightarrow> bytes) \<Rightarrow> packet \<Rightarrow> bool" where
  "file_packet F p \<longleftrightarrow> chunk_of (F (trim_space (TransferID (Meta p)))) p"

definition object_of :: "oss_sender \<Rightarrow> (string \<Rightarrow> bytes) \<Rightarrow> oss_object \<Rightarrow> bool" where
  "object_of s F o1 \<longleftrightarrow> chunk_of (F (ob_transfer o1)) (ob_first o1) \<and>
     (\<exists>ls key upload. list_all (label_of (F (ob_transfer o1))) ls \<and> oss_steps (oz_partSize s) ls (start_run key upload (ob_first o1)) = Some (ob_run o1))"

definition phase_object :: "send_phase \<Rightarrow> nat option" where
  "phase_object ph =
     (case ph of SendInits i \<Rightarrow> Some i | SendWaits i \<Rightarrow> Some i | SendDrives i \<Rightarrow> Some i | SendCompleted i \<Rightarrow> Some i | SendNotifies i \<Rightarrow> Some i
      | SendFails i err \<Rightarrow> Some i | SendAborts i err \<Rightarrow> Some i | SendReturned err \<Rightarrow> None)"

text \<open>A call of \<open>Send\<close> that has passed the guards has a packet of its transfer.\<close>

definition send_of :: "(string \<Rightarrow> bytes) \<Rightarrow> oss_object list \<Rightarrow> packet \<times> send_phase \<Rightarrow> bool" where
  "send_of F objs x \<longleftrightarrow>
     (case phase_object (snd x) of
        None \<Rightarrow> True
      | Some i \<Rightarrow> i < length objs \<and> file_packet F (fst x) \<and> trim_space (TransferID (Meta (fst x))) = ob_transfer (objs ! i))"

definition table_of :: "oss_sender \<Rightarrow> (string \<Rightarrow> bytes) \<Rightarrow> oss_table \<Rightarrow> bool" where
  "table_of s F t \<longleftrightarrow> list_all (object_of s F) (tb_objs t) \<and> list_all (send_of F (tb_objs t)) (tb_sends t) \<and>
     (\<forall>tid i. map_of (tb_states t) tid = Some i \<longrightarrow> i < length (tb_objs t) \<and> ob_transfer (tb_objs t ! i) = tid)"

lemma oss_steps_snoc: "oss_steps ps (ls @ [l]) r = (case oss_steps ps ls r of None \<Rightarrow> None | Some r' \<Rightarrow> oss_step ps l r')"
  by (induction ls arbitrary: r) (auto split: option.splits)

lemma object_runs:
  assumes "object_of s F o1" "label_of (F (ob_transfer o1)) l" "oss_step (oz_partSize s) l (ob_run o1) = Some r"
  shows "object_of s F (o1\<lparr>ob_run := r\<rparr>)"
proof -
  obtain ls key upload where o: "list_all (label_of (F (ob_transfer o1))) ls"
    "oss_steps (oz_partSize s) ls (start_run key upload (ob_first o1)) = Some (ob_run o1)" "chunk_of (F (ob_transfer o1)) (ob_first o1)"
    using assms(1) unfolding object_of_def by blast
  then have "list_all (label_of (F (ob_transfer o1))) (ls @ [l])"
    "oss_steps (oz_partSize s) (ls @ [l]) (start_run key upload (ob_first o1)) = Some r"
    using assms(2,3) by (simp_all add: oss_steps_snoc)
  then have "\<exists>ls key upload. list_all (label_of (F (ob_transfer o1))) ls \<and>
      oss_steps (oz_partSize s) ls (start_run key upload (ob_first o1)) = Some r" by blast
  then show ?thesis using o(3) by (simp add: object_of_def)
qed

lemma object_starts:
  assumes "chunk_of (F (ob_transfer o1)) (ob_first o1)"
  shows "object_of s F (o1\<lparr>ob_run := start_run key upload (ob_first o1)\<rparr>)"
proof -
  have "oss_steps (oz_partSize s) [] (start_run key upload (ob_first o1)) = Some (start_run key upload (ob_first o1))" by simp
  then have "\<exists>ls key' upload'. list_all (label_of (F (ob_transfer o1))) ls \<and>
      oss_steps (oz_partSize s) ls (start_run key' upload' (ob_first o1)) = Some (start_run key upload (ob_first o1))"
    by (intro exI [of _ "[]"] exI [of _ key] exI [of _ upload]) simp
  then show ?thesis using assms by (simp add: object_of_def)
qed

lemma object_init: "object_of s F (o1\<lparr>ob_init := x\<rparr>) = object_of s F o1"
  by (simp add: object_of_def)

text \<open>The calls see of the transfers only their number and their IDs.\<close>

definition same_ids :: "oss_object list \<Rightarrow> oss_object list \<Rightarrow> bool" where
  "same_ids objs objs' \<longleftrightarrow> length objs \<le> length objs' \<and> (\<forall>i < length objs. ob_transfer (objs' ! i) = ob_transfer (objs ! i))"

lemma send_of_same: "send_of F objs x \<Longrightarrow> same_ids objs objs' \<Longrightarrow> send_of F objs' x"
  by (auto simp: send_of_def same_ids_def split: option.splits)

lemma sends_of_same: "list_all (send_of F objs) xs \<Longrightarrow> same_ids objs objs' \<Longrightarrow> list_all (send_of F objs') xs"
  using send_of_same by (fastforce simp: list_all_iff)

lemma same_ids_upd: "ob_transfer x = ob_transfer (objs ! i) \<Longrightarrow> same_ids objs (objs[i := x])"
  unfolding same_ids_def by (metis length_list_update nth_list_update_eq nth_list_update_neq order_refl)

lemma same_ids_simps [simp]:
  "same_ids objs objs" "same_ids objs (objs @ os)" "same_ids (tb_objs t) (tb_objs (set_run i r t))" "same_ids (tb_objs t) (tb_objs (set_init i x t))"
  by (simp_all add: same_ids_def nth_append) (simp_all add: set_run_def set_init_def same_ids_upd [unfolded same_ids_def])

lemma same_ids_trans: "same_ids a b \<Longrightarrow> same_ids b c \<Longrightarrow> same_ids a c"
  by (auto simp: same_ids_def)

text \<open>A step is safe for the table when it keeps the transfers, adds no table entry, and leaves its own call in a good phase.\<close>

lemma table_ofI:
  assumes "table_of s F t" "list_all (object_of s F) (tb_objs t')" "same_ids (tb_objs t) (tb_objs t')"
    and "\<And>tid i. map_of (tb_states t') tid = Some i \<Longrightarrow> map_of (tb_states t) tid = Some i"
    and "\<And>x. x \<in> set (tb_sends t') \<Longrightarrow> x \<in> set (tb_sends t) \<or> send_of F (tb_objs t') x"
  shows "table_of s F t'"
proof -
  have "send_of F (tb_objs t') x" if "x \<in> set (tb_sends t')" for x
    using assms(5) [OF that]
  proof
    assume "x \<in> set (tb_sends t)"
    then have "send_of F (tb_objs t) x" using assms(1) by (simp add: table_of_def list_all_iff)
    then show ?thesis by (rule send_of_same [OF _ assms(3)])
  qed
  moreover have "i < length (tb_objs t') \<and> ob_transfer (tb_objs t' ! i) = tid" if "map_of (tb_states t') tid = Some i" for tid i
  proof -
    have i: "i < length (tb_objs t)" "ob_transfer (tb_objs t ! i) = tid" using assms(1) assms(4) [OF that] unfolding table_of_def by blast+
    then show ?thesis using assms(3) unfolding same_ids_def by (metis less_le_trans)
  qed
  ultimately show ?thesis using assms(2) by (simp add: table_of_def list_all_iff)
qed

lemma set_send_members:
  assumes "x \<in> set (tb_sends (set_send c ph t))" "c < length (tb_sends t)"
  shows "x \<in> set (tb_sends t) \<or> x = (fst (tb_sends t ! c), ph)"
  using assms set_update_subset_insert [of "tb_sends t" c] by (fastforce simp: set_send_sends)

lemma deleted_states: "map_of (tb_states (delete_state i t)) tid = Some j \<Longrightarrow> map_of (tb_states t) tid = Some j"
  by (auto simp: delete_state_def Let_def delete_conv split: if_splits)

lemma list_all_upd: "list_all P xs \<Longrightarrow> (i < length xs \<Longrightarrow> P x) \<Longrightarrow> list_all P (xs[i := x])"
  by (cases "i < length xs") (auto simp: list_all_length nth_list_update)

lemma objs_run: "tb_objs (set_run i r t) = (tb_objs t)[i := (tb_objs t ! i)\<lparr>ob_run := r\<rparr>]"
  by (simp add: set_run_def)

lemma objs_init: "tb_objs (set_init i x t) = (tb_objs t)[i := (tb_objs t ! i)\<lparr>ob_init := x\<rparr>]"
  by (simp add: set_init_def)

text \<open>The call \<open>c\<close> of a step, its packet and its transfer.\<close>

lemma send_parts:
  assumes "table_of s F t" "c < length (tb_sends t)" "phase_object (snd (tb_sends t ! c)) = Some i"
  shows "i < length (tb_objs t)" "object_of s F (tb_objs t ! i)" "chunk_of (F (ob_transfer (tb_objs t ! i))) (fst (tb_sends t ! c))"
    "file_packet F (fst (tb_sends t ! c))" "trim_space (TransferID (Meta (fst (tb_sends t ! c)))) = ob_transfer (tb_objs t ! i)"
proof -
  have "send_of F (tb_objs t) (tb_sends t ! c)" using assms(1,2) by (simp add: table_of_def list_all_length)
  then have a: "i < length (tb_objs t)" "file_packet F (fst (tb_sends t ! c))" "trim_space (TransferID (Meta (fst (tb_sends t ! c)))) = ob_transfer (tb_objs t ! i)"
    using assms(3) by (simp_all add: send_of_def)
  then show "i < length (tb_objs t)" "chunk_of (F (ob_transfer (tb_objs t ! i))) (fst (tb_sends t ! c))"
    "file_packet F (fst (tb_sends t ! c))" "trim_space (TransferID (Meta (fst (tb_sends t ! c)))) = ob_transfer (tb_objs t ! i)"
    by (simp_all add: file_packet_def)
  show "object_of s F (tb_objs t ! i)" using assms(1) a(1) by (simp add: table_of_def list_all_length)
qed

lemma send_of_phase:
  assumes "table_of s F t" "c < length (tb_sends t)" "phase_object (snd (tb_sends t ! c)) = Some i" "phase_object ph = Some i \<or> phase_object ph = None"
    and "same_ids (tb_objs t) objs'"
  shows "send_of F objs' (fst (tb_sends t ! c), ph)"
  using send_parts [OF assms(1-3)] assms(4,5) by (auto simp: send_of_def same_ids_def)

text \<open>A step of a call that changes only its transfer and its own phase.\<close>

lemma table_of_call:
  assumes "table_of s F t" "c < length (tb_sends t)" "phase_object (snd (tb_sends t ! c)) = Some i" "phase_object ph = Some i \<or> phase_object ph = None"
    and "list_all (object_of s F) (tb_objs t1)" "same_ids (tb_objs t) (tb_objs t1)" "tb_sends t1 = tb_sends t"
    and "\<And>tid i. map_of (tb_states t1) tid = Some i \<Longrightarrow> map_of (tb_states t) tid = Some i"
  shows "table_of s F (set_send c ph t1)"
proof (rule table_ofI [OF assms(1)])
  show "x \<in> set (tb_sends t) \<or> send_of F (tb_objs (set_send c ph t1)) x" if "x \<in> set (tb_sends (set_send c ph t1))" for x
    using set_send_members [OF that] assms(2,7) send_of_phase [OF assms(1-4,6)] by auto
qed (use assms(5,6,8) in simp_all)

section \<open>The steps\<close>

lemma objects_run:
  assumes "table_of s F t" "object_of s F ((tb_objs t ! i)\<lparr>ob_run := r\<rparr>)"
  shows "list_all (object_of s F) (tb_objs (set_run i r t))"
  using assms by (auto simp: objs_run table_of_def intro: list_all_upd)

lemma accept_is_step:
  assumes "oz_pendingLimit s = oz_partSize s * 2"
  shows "\<exists>r ph. accept_step s c i p t = set_send c ph (set_run i r t) \<and> oss_step (oz_partSize s) (Accept p) (ob_run (tb_objs t ! i)) = Some r \<and>
    (phase_object ph = Some i \<or> phase_object ph = None) \<and> (\<forall>j err. ph \<noteq> SendAborts j err) \<and> (\<forall>j. ph \<noteq> SendCompleted j \<and> ph \<noteq> SendNotifies j)"
proof -
  let ?r = "ob_run (tb_objs t ! i)"
  obtain res st where a: "acceptPacket (oz_partSize s * 2) (oz_partSize s) p (run_st ?r) = (res, st)" by fastforce
  show ?thesis
  proof (cases res)
    case (Inl err)
    then show ?thesis using a assms by (auto simp: accept_step_def oss_Send_def phase_object_def Let_def)
  next
    case (Inr b)
    then show ?thesis using a assms by (cases b) (auto simp: accept_step_def oss_Send_def phase_object_def Let_def)
  qed
qed

lemma drive_is_step:
  assumes "drive_step s c i l err t = Some t'"
  obtains r ph where "t' = set_send c ph (set_run i r t)" "oss_step (oz_partSize s) l (ob_run (tb_objs t ! i)) = Some r" "\<forall>p. l \<noteq> Accept p"
    "ph = SendDrives i \<or> (\<exists>e. ph = SendReturned e) \<or> (ph = SendCompleted i \<and> (\<exists>tag. l = CallOk tag) \<and> run_phase r = Idle)"
proof -
  obtain r where r: "driveOSSUpload (oz_partSize s) l (ob_run (tb_objs t ! i)) = Some r"
    using assms by (auto simp: drive_step_def Let_def split: option.splits)
  have n: "\<forall>p. l \<noteq> Accept p" using r by auto
  then have "oss_step (oz_partSize s) l (ob_run (tb_objs t ! i)) = Some r" using r by (cases l) auto
  moreover define ph where "ph = (if run_phase r \<noteq> Idle then SendDrives i else if l = CallFails then SendReturned (Some err)
             else if l = Next then SendReturned None else SendCompleted i)"
  moreover have "t' = set_send c ph (set_run i r t)" using assms r by (simp add: drive_step_def ph_def)
  moreover have "ph = SendDrives i \<or> (\<exists>e. ph = SendReturned e) \<or> (ph = SendCompleted i \<and> (\<exists>tag. l = CallOk tag) \<and> run_phase r = Idle)"
    using n by (cases l) (auto simp: ph_def)
  ultimately show ?thesis using that n by blast
qed

lemma getOrCreate_ok:
  assumes "table_of s F t" "file_packet F p" "getOrCreateTransferState p t = (ph, t1)"
  shows "table_of s F (t1\<lparr>tb_sends := tb_sends t1 @ [(p, ph)]\<rparr>)"
proof (cases "map_of (tb_states t) (trim_space (TransferID (Meta p)))")
  case (Some i)
  then have "t1 = t" "ph = SendWaits i" using assms(3) by (simp_all add: getOrCreateTransferState_def)
  then show ?thesis using assms(1,2) Some by (auto simp: table_of_def send_of_def phase_object_def)
next
  case None
  let ?tid = "trim_space (TransferID (Meta p))" and ?i = "length (tb_objs t)"
  let ?o = "\<lparr>ob_transfer = ?tid, ob_first = p, ob_init = InitRuns, ob_run = start_run [] [] p\<rparr>"
  have t1: "t1 = t\<lparr>tb_states := (?tid, ?i) # tb_states t, tb_objs := tb_objs t @ [?o]\<rparr>" "ph = SendInits ?i"
    using assms(3) None by (simp_all add: getOrCreateTransferState_def Let_def)
  have "object_of s F ?o" using object_starts [of F ?o s "[]" "[]"] assms(2) by (simp add: file_packet_def)
  moreover have "list_all (send_of F (tb_objs t @ [?o])) (tb_sends t)"
    using assms(1) sends_of_same [of F "tb_objs t"] by (simp add: table_of_def)
  moreover have "send_of F (tb_objs t @ [?o]) (p, SendInits ?i)" using assms(2) by (simp add: send_of_def phase_object_def)
  moreover have "i < Suc ?i \<and> ob_transfer ((tb_objs t @ [?o]) ! i) = tid" if "map_of ((?tid, ?i) # tb_states t) tid = Some i" for tid i
    using that assms(1) by (auto simp: table_of_def nth_append split: if_splits)
  ultimately show ?thesis using assms(1) unfolding t1 by (simp add: table_of_def)
qed

lemma table_of_step:
  assumes "table_of s F t" "oz_pendingLimit s = oz_partSize s * 2" "\<And>p. l = Sends p \<Longrightarrow> oss_send_guard sha p = None \<Longrightarrow> file_packet F p"
    and "table_step s sha marshal l t = Some t'"
  shows "table_of s F t'"
proof (cases l)
  case (Sends p)
  show ?thesis
  proof (cases "oss_send_guard sha p")
    case None
    obtain ph t1 where g: "getOrCreateTransferState p t = (ph, t1)" by fastforce
    then have "t' = t1\<lparr>tb_sends := tb_sends t1 @ [(p, ph)]\<rparr>" using assms(4) Sends None by (simp add: send_called_def)
    then show ?thesis using getOrCreate_ok [OF assms(1) assms(3) [OF Sends None] g] by simp
  next
    case (Some err)
    then have "t' = t\<lparr>tb_sends := tb_sends t @ [(p, SendReturned (Some err))]\<rparr>" using assms(4) Sends by (simp add: send_called_def)
    then show ?thesis using assms(1) by (simp add: table_of_def send_of_def phase_object_def)
  qed
next
  case (InitReturns c answer)
  then obtain i where c: "c < length (tb_sends t)" "snd (tb_sends t ! c) = SendInits i" "t' = init_transfer s c i answer t"
    using assms(4) by (auto split: if_splits send_phase.splits)
  have ph: "phase_object (snd (tb_sends t ! c)) = Some i" using c(2) by (simp add: phase_object_def)
  note p = send_parts [OF assms(1) c(1) ph]
  let ?p = "ob_first (tb_objs t ! i)"
  show ?thesis
  proof (cases "bind_result (ossObjectKey (oz_keyPrefix s) ?p) (\<lambda>key. bind_result answer (\<lambda>upload. Inr (key, upload)))")
    case (Inl err)
    have "list_all (object_of s F) (tb_objs (set_init i (InitFailed err) (delete_state i t)))"
      using assms(1) p(1,2) by (auto simp: objs_init object_init table_of_def intro!: list_all_upd)
    then have "table_of s F (set_send c (SendReturned (Some err)) (set_init i (InitFailed err) (delete_state i t)))"
      by (intro table_of_call [OF assms(1) c(1) ph]) (auto simp: phase_object_def objs_init intro: same_ids_upd dest: deleted_states)
    then show ?thesis using c(3) Inl by (simp add: init_transfer_def Let_def)
  next
    case (Inr x)
    obtain key upload where x: "x = (key, upload)" by (cases x)
    have "object_of s F ((tb_objs t ! i)\<lparr>ob_run := start_run key upload ?p\<rparr>)"
      using object_starts [of F "tb_objs t ! i" s key upload] p(2) by (simp add: object_of_def)
    then have "list_all (object_of s F) (tb_objs (set_init i InitDone (set_run i (start_run key upload ?p) t)))"
      using assms(1) p(1) by (auto simp: objs_init objs_run object_init table_of_def intro!: list_all_upd)
    then have "table_of s F (set_send c (SendWaits i) (set_init i InitDone (set_run i (start_run key upload ?p) t)))"
      by (intro table_of_call [OF assms(1) c(1) ph]) (auto simp: phase_object_def intro: same_ids_trans [OF same_ids_simps(3) same_ids_simps(4)])
    then show ?thesis using c(3) Inr x by (simp add: init_transfer_def Let_def)
  qed
next
  case (Goes c)
  then have c: "c < length (tb_sends t)" "send_goes s c t = Some t'" using assms(4) by (auto split: if_splits)
  obtain p ph where x: "tb_sends t ! c = (p, ph)" by fastforce
  have del: "table_of s F (set_send c ph' (delete_state i t))" if "ph' = SendNotifies i \<or> ph' = SendAborts i err" "phase_object ph = Some i" for i err ph'
    using that x assms(1) by (intro table_of_call [OF assms(1) c(1)]) (auto simp: phase_object_def table_of_def dest: deleted_states)
  show ?thesis
  proof (cases ph)
    case (SendWaits i)
    have o: "phase_object (snd (tb_sends t ! c)) = Some i" using x SendWaits by (simp add: phase_object_def)
    note q = send_parts [OF assms(1) c(1) o]
    show ?thesis
    proof (cases "ob_init (tb_objs t ! i)")
      case InitRuns
      then show ?thesis using c(2) x SendWaits by (simp add: send_goes_def)
    next
      case (InitFailed err)
      then have t': "t' = set_send c (SendReturned (Some err)) t" using c(2) x SendWaits by (simp add: send_goes_def)
      show ?thesis unfolding t' using assms(1)
        by (intro table_of_call [OF assms(1) c(1) o]) (auto simp: phase_object_def table_of_def)
    next
      case InitDone
      then have t': "t' = accept_step s c i p t" using c(2) x SendWaits by (simp add: send_goes_def)
      obtain r ph' where r: "t' = set_send c ph' (set_run i r t)" "oss_step (oz_partSize s) (Accept p) (ob_run (tb_objs t ! i)) = Some r"
        "phase_object ph' = Some i \<or> phase_object ph' = None"
        using accept_is_step [OF assms(2), of c i p t] t' by blast
      have "object_of s F ((tb_objs t ! i)\<lparr>ob_run := r\<rparr>)" using object_runs [OF q(2) _ r(2)] q(3) x by simp
      then show ?thesis unfolding r(1) using objects_run [OF assms(1)]
        by (intro table_of_call [OF assms(1) c(1) o r(3)]) auto
    qed
  next
    case (SendCompleted i)
    then show ?thesis using c(2) x del [of "SendNotifies i" i] by (simp add: send_goes_def phase_object_def)
  next
    case (SendFails i err)
    then show ?thesis using c(2) x del [of "SendAborts i err" i] by (simp add: send_goes_def phase_object_def)
  qed (use c(2) x in \<open>simp_all add: send_goes_def\<close>)
next
  case (Drives c l1 err)
  then obtain i where c: "c < length (tb_sends t)" "snd (tb_sends t ! c) = SendDrives i" "drive_step s c i l1 err t = Some t'"
    using assms(4) by (auto split: if_splits send_phase.splits)
  have o: "phase_object (snd (tb_sends t ! c)) = Some i" using c(2) by (simp add: phase_object_def)
  note q = send_parts [OF assms(1) c(1) o]
  obtain r ph where r: "t' = set_send c ph (set_run i r t)" "oss_step (oz_partSize s) l1 (ob_run (tb_objs t ! i)) = Some r" "\<forall>p. l1 \<noteq> Accept p"
    "ph = SendDrives i \<or> (\<exists>e. ph = SendReturned e) \<or> (ph = SendCompleted i \<and> (\<exists>tag. l1 = CallOk tag) \<and> run_phase r = Idle)"
    by (rule drive_is_step [OF c(3)])
  have "label_of (F (ob_transfer (tb_objs t ! i))) l1" using r(3) by (cases l1) auto
  then have "object_of s F ((tb_objs t ! i)\<lparr>ob_run := r\<rparr>)" using object_runs [OF q(2) _ r(2)] by simp
  then show ?thesis unfolding r(1) using objects_run [OF assms(1)] r(4)
    by (intro table_of_call [OF assms(1) c(1) o]) (auto simp: phase_object_def)
next
  case (AbortReturns c answer)
  then obtain i err where c: "c < length (tb_sends t)" "snd (tb_sends t ! c) = SendAborts i err" using assms(4) by (auto split: if_splits send_phase.splits)
  have o: "phase_object (snd (tb_sends t ! c)) = Some i" using c(2) by (simp add: phase_object_def)
  obtain e t1 where a: "abortTransfer i answer t = (e, t1)" by fastforce
  note f = abort_frames [OF a]
  have t': "t' = set_send c (SendReturned (case e of None \<Rightarrow> Some err | Some e' \<Rightarrow> errors_Join [err, e'])) t1"
    using assms(4) AbortReturns c a by simp
  show ?thesis unfolding t' using assms(1)
    by (intro table_of_call [OF assms(1) c(1) o]) (simp_all add: f phase_object_def table_of_def)
next
  case (Notifies c now answer)
  then obtain i p where c: "c < length (tb_sends t)" "tb_sends t ! c = (p, SendNotifies i)" "t' = notify_step s marshal c i p now answer t"
    using assms(4) by (auto split: if_splits send_phase.splits prod.splits)
  have o: "phase_object (snd (tb_sends t ! c)) = Some i" using c(2) by (simp add: phase_object_def)
  obtain e x where t': "t' = set_send c (SendReturned e) (t\<lparr>tb_notified := x\<rparr>)" using c(3) by (auto simp: notify_step_def Let_def split: prod.splits)
  show ?thesis unfolding t' using assms(1)
    by (intro table_of_call [OF assms(1) c(1) o]) (simp_all add: phase_object_def table_of_def)
next
  case (Closes order)
  then have "t' = t\<lparr>tb_states := [], tb_closes := tb_closes t @ [if order = [] then CloseReturned None else CloseAborts order []]\<rparr>"
    using assms(4) by (simp add: table_Close_def split: if_splits)
  then show ?thesis using assms(1) by (simp add: table_of_def)
next
  case (CloseGoesOn k answer)
  then have g: "close_goes k answer t = Some t'" using assms(4) by (simp split: if_splits)
  then obtain i "is" errs where k: "tb_closes t ! k = CloseAborts (i # is) errs"
    by (auto simp: close_goes_def split: close_phase.splits list.splits)
  obtain e t1 where a: "abortTransfer i answer t = (e, t1)" by fastforce
  have "tb_states t' = tb_states t" "tb_objs t' = tb_objs t" "tb_sends t' = tb_sends t"
    using g k a abort_frames [OF a] by (auto simp: close_goes_def Let_def split: if_splits)
  then show ?thesis using assms(1) by (simp add: table_of_def)
qed

text \<open>C7: the OSS sender completes an object only with the bytes of its file. Let any number of calls of Send and Close run at the same time,
  for any transfers, with any answers of the storage API, and let the packets of each transfer ID that pass the checks be chunks of one file, in
  any order and any number of times. Then whenever an object is completed, its parts are exactly the parts that were uploaded
  for it, numbered from 1 in order, each with its tag; their bytes put together are the file of that transfer ID; and every
  part but the last has exactly the part size.\<close>

theorem oss_sender_completes_only_files:
  assumes "table_steps s sha marshal ls new_oss_table = Some t" "0 < oz_partSize s" "oz_pendingLimit s = oz_partSize s * 2"
    and "\<And>p. Sends p \<in> set ls \<Longrightarrow> oss_send_guard sha p = None \<Longrightarrow> chunk_of (F (trim_space (TransferID (Meta p)))) p"
    and "i < length (tb_objs t)" "in64 (int (length (F (ob_transfer (tb_objs t ! i)))))" "r = ob_run (tb_objs t ! i)" "run_completes r \<noteq> []"
  shows "run_completes r = replicate (length (run_completes r)) (put_tags r) \<and>
    map fst (put_tags r) = map int [1 ..< Suc (length (run_puts r))] \<and>
    put_bytes r = F (ob_transfer (tb_objs t ! i)) \<and> full_parts (oz_partSize s) (butlast (run_puts r))"
proof -
  define L where "L = {l. \<forall>p. l = Sends p \<longrightarrow> oss_send_guard sha p = None \<longrightarrow> file_packet F p}"
  have "set ls \<subseteq> L" using assms(4) by (auto simp: L_def file_packet_def)
  moreover have "table_of s F new_oss_table" by (simp add: table_of_def new_oss_table_def)
  moreover have "table_of s F v" if "l \<in> L" "table_of s F u" "table_step s sha marshal l u = Some v" for l u v
    using table_of_step [OF that(2) assms(3) _ that(3)] that(1) by (simp add: L_def)
  ultimately have "table_of s F t"
    using table_runs.invariant_along [of L "table_of s F" s sha marshal ls new_oss_table t, OF _ assms(1)] by blast
  then have "object_of s F (tb_objs t ! i)" using assms(5) by (simp add: table_of_def list_all_length)
  then obtain ls' key upload where "chunk_of (F (ob_transfer (tb_objs t ! i))) (ob_first (tb_objs t ! i))"
    "list_all (label_of (F (ob_transfer (tb_objs t ! i)))) ls'"
    "oss_steps (oz_partSize s) ls' (start_run key upload (ob_first (tb_objs t ! i))) = Some r"
    using assms(7) unfolding object_of_def by blast
  then show ?thesis using completed_is_file [OF assms(2,6)] assms(8) by blast
qed

section \<open>No upload is forgotten\<close>

text \<open>A transfer whose upload must be ended: it is being made, or it has an upload (with a key and an ID).\<close>

definition has_upload :: "oss_object \<Rightarrow> bool" where
  "has_upload o1 \<longleftrightarrow> ob_init o1 = InitDone \<and> os_objectKey (run_st (ob_run o1)) \<noteq> [] \<and> os_uploadID (run_st (ob_run o1)) \<noteq> []"

definition open_object :: "oss_object \<Rightarrow> bool" where
  "open_object o1 \<longleftrightarrow> ob_init o1 = InitRuns \<or> has_upload o1"

text \<open>Somebody has ended it or will: it was completed or aborted, it is in the table, or a call is about to abort it.\<close>

definition under_watch :: "oss_table \<Rightarrow> nat \<Rightarrow> bool" where
  "under_watch t i \<longleftrightarrow> run_completes (ob_run (tb_objs t ! i)) \<noteq> [] \<or> i \<in> set (tb_aborts t) \<or> map_of (tb_states t) (ob_transfer (tb_objs t ! i)) = Some i \<or>
     (\<exists>x \<in> set (tb_sends t). \<exists>err. snd x = SendAborts i err) \<or> (\<exists>is errs. CloseAborts is errs \<in> set (tb_closes t) \<and> i \<in> set is)"

definition phase_fine :: "oss_object list \<Rightarrow> send_phase \<Rightarrow> bool" where
  "phase_fine objs ph \<longleftrightarrow>
     (case phase_object ph of
        None \<Rightarrow> True
      | Some i \<Rightarrow> i < length objs \<and> (case ph of
            SendInits j \<Rightarrow> ob_init (objs ! i) = InitRuns \<and> run_completes (ob_run (objs ! i)) = []
          | SendWaits j \<Rightarrow> True
          | _ \<Rightarrow> ob_init (objs ! i) = InitDone) \<and>
          (ph = SendCompleted i \<or> ph = SendNotifies i \<longrightarrow> run_completes (ob_run (objs ! i)) \<noteq> []))"

definition sends_fine :: "oss_object list \<Rightarrow> (packet \<times> send_phase) list \<Rightarrow> bool" where
  "sends_fine objs sends \<longleftrightarrow> (\<forall>c < length sends. phase_fine objs (snd (sends ! c)) \<and>
     (\<forall>i. snd (sends ! c) = SendInits i \<longrightarrow> (\<forall>d < length sends. d \<noteq> c \<longrightarrow> snd (sends ! d) \<noteq> SendInits i)))"

definition settle :: "oss_table \<Rightarrow> bool" where
  "settle t \<longleftrightarrow> (\<forall>i < length (tb_objs t). open_object (tb_objs t ! i) \<longrightarrow> under_watch t i) \<and> sends_fine (tb_objs t) (tb_sends t) \<and>
     (\<forall>tid i. map_of (tb_states t) tid = Some i \<longrightarrow> i < length (tb_objs t) \<and> ob_transfer (tb_objs t ! i) = tid)"

text \<open>The transfers keep their upload, and what was completed stays so.\<close>

definition objs_grow :: "nat option \<Rightarrow> oss_object list \<Rightarrow> oss_object list \<Rightarrow> bool" where
  "objs_grow made objs objs' \<longleftrightarrow> length objs' = length objs \<and> (\<forall>i < length objs. ob_transfer (objs' ! i) = ob_transfer (objs ! i) \<and>
     (made \<noteq> Some i \<longrightarrow> ob_init (objs' ! i) = ob_init (objs ! i) \<and> has_upload (objs' ! i) = has_upload (objs ! i) \<and>
       (run_completes (ob_run (objs ! i)) \<noteq> [] \<longrightarrow> run_completes (ob_run (objs' ! i)) \<noteq> []) \<and>
       (ob_init (objs ! i) = InitRuns \<longrightarrow> run_completes (ob_run (objs' ! i)) = run_completes (ob_run (objs ! i)))))"

lemma objs_grow_refl [simp]: "objs_grow made objs objs"
  by (simp add: objs_grow_def)

lemma phase_fine_grow:
  assumes "phase_fine objs ph" "objs_grow made objs objs'" "\<And>i. made = Some i \<Longrightarrow> ob_init (objs ! i) = InitRuns \<and> ph \<noteq> SendInits i"
  shows "phase_fine objs' ph"
  using assms by (cases ph) (auto simp: phase_fine_def phase_object_def objs_grow_def)

lemma set_send_kept: "x \<in> set xs \<Longrightarrow> x \<noteq> xs ! c \<Longrightarrow> x \<in> set (xs[c := y])"
  by (metis in_set_conv_nth length_list_update nth_list_update_neq)

text \<open>A step of call \<open>c\<close>: what it has to show.\<close>

lemma settle_call:
  assumes "settle t" "c < length (tb_sends t)" "\<And>i. ph \<noteq> SendInits i" "tb_sends t1 = tb_sends t" "tb_closes t1 = tb_closes t"
    and "objs_grow made (tb_objs t) (tb_objs t1)" "\<And>i. made = Some i \<Longrightarrow> snd (tb_sends t ! c) = SendInits i"
    and "phase_fine (tb_objs t1) ph" "\<And>tid i. map_of (tb_states t1) tid = Some i \<Longrightarrow> map_of (tb_states t) tid = Some i"
    and "\<And>i. i < length (tb_objs t) \<Longrightarrow> open_object (tb_objs t1 ! i) \<Longrightarrow> under_watch t i \<Longrightarrow> under_watch (set_send c ph t1) i"
  shows "settle (set_send c ph t1)"
proof -
  note st = assms(1) [unfolded settle_def]
  have fine: "sends_fine (tb_objs t) (tb_sends t)" using st by blast
  have n: "length (tb_objs t1) = length (tb_objs t)" using assms(6) by (simp add: objs_grow_def)
  have made: "ob_init (tb_objs t ! i) = InitRuns" if "made = Some i" for i
    using fine assms(2) assms(7) [OF that] by (auto simp: sends_fine_def phase_fine_def phase_object_def)
  have "under_watch (set_send c ph t1) i" if i: "i < length (tb_objs t1)" "open_object (tb_objs t1 ! i)" for i
  proof -
    have "open_object (tb_objs t ! i)"
      using i assms(6) made n by (cases "made = Some i") (auto simp: open_object_def objs_grow_def)
    then show ?thesis using st assms(10) [OF _ i(2)] i(1) n by simp
  qed
  moreover have "sends_fine (tb_objs t1) (tb_sends (set_send c ph t1))"
    unfolding sends_fine_def set_send_sends assms(4)
  proof (intro allI impI)
    fix d assume d: "d < length ((tb_sends t)[c := (fst (tb_sends t ! c), ph)])"
    let ?xs = "(tb_sends t)[c := (fst (tb_sends t ! c), ph)]"
    show "phase_fine (tb_objs t1) (snd (?xs ! d)) \<and> (\<forall>i. snd (?xs ! d) = SendInits i \<longrightarrow> (\<forall>e < length ?xs. e \<noteq> d \<longrightarrow> snd (?xs ! e) \<noteq> SendInits i))"
    proof (cases "d = c")
      case True
      then show ?thesis using d assms(3,8) by simp
    next
      case False
      have d': "d < length (tb_sends t)" using d by simp
      have f: "phase_fine (tb_objs t) (snd (tb_sends t ! d))"
        "\<And>i e. snd (tb_sends t ! d) = SendInits i \<Longrightarrow> e < length (tb_sends t) \<Longrightarrow> e \<noteq> d \<Longrightarrow> snd (tb_sends t ! e) \<noteq> SendInits i"
        using fine d' unfolding sends_fine_def by blast+
      have "phase_fine (tb_objs t1) (snd (tb_sends t ! d))"
      proof (rule phase_fine_grow [OF f(1) assms(6)])
        fix i assume "made = Some i"
        then show "ob_init (tb_objs t ! i) = InitRuns \<and> snd (tb_sends t ! d) \<noteq> SendInits i"
          using made f(2) [of i c] assms(2,7) False by blast
      qed
      moreover have "snd (?xs ! e) \<noteq> SendInits i" if "snd (tb_sends t ! d) = SendInits i" "e < length ?xs" "e \<noteq> d" for i e
        using f(2) [OF that(1), of e] that(2,3) assms(3) by (cases "e = c") auto
      ultimately show ?thesis using False by simp
    qed
  qed
  moreover have "i < length (tb_objs t1) \<and> ob_transfer (tb_objs t1 ! i) = tid" if "map_of (tb_states t1) tid = Some i" for tid i
    using assms(9) [OF that] st assms(6) by (simp add: objs_grow_def)
  ultimately show ?thesis unfolding settle_def table_frames by blast
qed

text \<open>What was under_watch stays under_watch, when the step leaves the table entry and the call is not an abort.\<close>

lemma watched_call:
  assumes "under_watch t i" "tb_sends t1 = tb_sends t" "tb_closes t1 = tb_closes t" "objs_grow made (tb_objs t) (tb_objs t1)" "i < length (tb_objs t)"
    and "made \<noteq> Some i \<or> run_completes (ob_run (tb_objs t ! i)) = []"
    and "set (tb_aborts t) \<subseteq> set (tb_aborts t1)" "map_of (tb_states t) (ob_transfer (tb_objs t ! i)) = Some i \<Longrightarrow> map_of (tb_states t1) (ob_transfer (tb_objs t ! i)) = Some i"
    and "\<And>err. snd (tb_sends t ! c) \<noteq> SendAborts i err"
  shows "under_watch (set_send c ph t1) i"
proof -
  have tr: "ob_transfer (tb_objs t1 ! i) = ob_transfer (tb_objs t ! i)" using assms(4,5) by (simp add: objs_grow_def)
  have co: "run_completes (ob_run (tb_objs t1 ! i)) \<noteq> []" if "run_completes (ob_run (tb_objs t ! i)) \<noteq> []"
    using that assms(4-6) by (auto simp: objs_grow_def)
  have se: "\<exists>x \<in> set (tb_sends (set_send c ph t1)). \<exists>err. snd x = SendAborts i err" if "x \<in> set (tb_sends t)" "snd x = SendAborts i err" for x err
    using set_send_kept [of x "tb_sends t" c "(fst (tb_sends t ! c), ph)"] that assms(2,9) unfolding set_send_sends by metis
  show ?thesis using assms(1,3,7,8) tr co se unfolding under_watch_def table_frames by auto
qed

section \<open>The steps watch over the uploads\<close>

lemma drain_keeps:
  "os_objectKey (drainContiguousSegments st) = os_objectKey st \<and> os_uploadID (drainContiguousSegments st) = os_uploadID st"
proof (induction st rule: drainContiguousSegments.induct)
  case (1 st)
  then show ?case by (subst (1 2) drainContiguousSegments.simps) (auto split: option.splits)
qed

lemma accept_keeps:
  assumes "acceptPacket limit ps p st = (res, st')"
  shows "os_objectKey st' = os_objectKey st" "os_uploadID st' = os_uploadID st"
  using assms drain_keeps
  by (auto simp: acceptPacket_def acceptChunk_def oss_addRange_def Let_def split: if_splits)

lemma drive_keeps:
  assumes "driveOSSUpload ps l r = Some r'"
  shows "os_objectKey (run_st r') = os_objectKey (run_st r) \<and> os_uploadID (run_st r') = os_uploadID (run_st r) \<and>
    (run_completes r \<noteq> [] \<longrightarrow> run_completes r' \<noteq> [])"
  using assms
  by (cases l) (auto simp: nextUploadOperation_def reservePartUploadLocked_def finishPartUpload_def finishCompleteUpload_def Let_def
      split: oss_phase.splits oss_upload_op.splits if_splits prod.splits)

lemma completed_has:
  assumes "driveOSSUpload ps (CallOk tag) r = Some r'" "run_phase r' = Idle"
  shows "run_completes r' \<noteq> []"
  using assms by (auto split: oss_phase.splits oss_upload_op.splits)

lemma grow_run:
  assumes "os_objectKey (run_st r) = os_objectKey (run_st (ob_run (tb_objs t ! i)))" "os_uploadID (run_st r) = os_uploadID (run_st (ob_run (tb_objs t ! i)))"
    and "run_completes (ob_run (tb_objs t ! i)) \<noteq> [] \<Longrightarrow> run_completes r \<noteq> []" "ob_init (tb_objs t ! i) \<noteq> InitRuns"
  shows "objs_grow None (tb_objs t) (tb_objs (set_run i r t))"
  unfolding objs_grow_def objs_run
proof (intro conjI allI impI)
  fix j assume "j < length (tb_objs t)"
  then show "ob_transfer ((tb_objs t)[i := (tb_objs t ! i)\<lparr>ob_run := r\<rparr>] ! j) = ob_transfer (tb_objs t ! j)"
    "ob_init ((tb_objs t)[i := (tb_objs t ! i)\<lparr>ob_run := r\<rparr>] ! j) = ob_init (tb_objs t ! j)"
    "has_upload ((tb_objs t)[i := (tb_objs t ! i)\<lparr>ob_run := r\<rparr>] ! j) = has_upload (tb_objs t ! j)"
    using assms(1,2) by (cases "j = i"; simp add: has_upload_def)+
  show "run_completes (ob_run ((tb_objs t)[i := (tb_objs t ! i)\<lparr>ob_run := r\<rparr>] ! j)) \<noteq> []" if "run_completes (ob_run (tb_objs t ! j)) \<noteq> []"
    using that assms(3) \<open>j < length (tb_objs t)\<close> by (cases "j = i") simp_all
  show "run_completes (ob_run ((tb_objs t)[i := (tb_objs t ! i)\<lparr>ob_run := r\<rparr>] ! j)) = run_completes (ob_run (tb_objs t ! j))"
    if "ob_init (tb_objs t ! j) = InitRuns"
    using that assms(4) by (cases "j = i") simp_all
qed simp

lemma grow_init:
  "objs_grow (Some i) (tb_objs t) (tb_objs (set_init i x (set_run i r t)))" "objs_grow (Some i) (tb_objs t) (tb_objs (set_init i x t))"
proof -
  have g: "objs_grow (Some i) objs (objs[i := y])" if "ob_transfer y = ob_transfer (objs ! i)" for objs y
    unfolding objs_grow_def
  proof (intro conjI allI impI)
    fix j assume "j < length objs"
    then show "ob_transfer (objs[i := y] ! j) = ob_transfer (objs ! j)" using that by (cases "j = i") simp_all
  qed simp_all
  show "objs_grow (Some i) (tb_objs t) (tb_objs (set_init i x (set_run i r t)))" "objs_grow (Some i) (tb_objs t) (tb_objs (set_init i x t))"
    unfolding objs_init objs_run
    by (cases "i < length (tb_objs t)"; simp add: g list_update_beyond)+
qed

lemma deleted_other: "map_of (tb_states t) tid = Some j \<Longrightarrow> j \<noteq> i \<Longrightarrow> map_of (tb_states (delete_state i t)) tid = Some j"
  by (auto simp: delete_state_def Let_def delete_conv)

lemma settle_run:
  assumes "settle t" "c < length (tb_sends t)" "tb_sends t ! c = (p, ph0)" "phase_object ph0 = Some i" "\<And>err. ph0 \<noteq> SendAborts i err" "\<And>j. ph0 \<noteq> SendInits j"
    and "\<And>j. ph \<noteq> SendInits j" "os_objectKey (run_st r) = os_objectKey (run_st (ob_run (tb_objs t ! i)))" "os_uploadID (run_st r) = os_uploadID (run_st (ob_run (tb_objs t ! i)))"
    and "run_completes (ob_run (tb_objs t ! i)) \<noteq> [] \<Longrightarrow> run_completes r \<noteq> []" "phase_fine (tb_objs (set_run i r t)) ph" "ob_init (tb_objs t ! i) \<noteq> InitRuns"
  shows "settle (set_send c ph (set_run i r t))"
proof (rule settle_call [OF assms(1,2,7) _ _ grow_run [OF assms(8-10,12)] _ assms(11)])
  fix j assume j: "j < length (tb_objs t)" "open_object (tb_objs (set_run i r t) ! j)" "under_watch t j"
  have "snd (tb_sends t ! c) \<noteq> SendAborts j err" for err
    using assms(3-5) by (cases ph0) (auto simp: phase_object_def)
  then show "under_watch (set_send c ph (set_run i r t)) j"
    using watched_call [OF j(3) _ _ grow_run [OF assms(8-10,12)] j(1)] by simp
qed simp_all

lemma settle_delete:
  assumes "settle t" "c < length (tb_sends t)" "tb_sends t ! c = (p, ph0)" "phase_object ph0 = Some i" "\<And>j err. ph0 \<noteq> SendAborts j err" "\<And>j. ph0 \<noteq> SendInits j"
    and "\<And>j. ph \<noteq> SendInits j" "phase_fine (tb_objs t) ph" "run_completes (ob_run (tb_objs t ! i)) \<noteq> [] \<or> ph = SendAborts i err"
  shows "settle (set_send c ph (delete_state i t))"
proof (rule settle_call [OF assms(1,2,7), where made = None])
  fix j assume j: "j < length (tb_objs t)" "open_object (tb_objs (delete_state i t) ! j)" "under_watch t j"
  show "under_watch (set_send c ph (delete_state i t)) j"
  proof (cases "j = i")
    case True
    have "(p, ph) \<in> set (tb_sends (set_send c ph (delete_state i t)))"
      using assms(2,3) set_update_memI [of c "tb_sends t" "(p, ph)"] by (simp add: set_send_sends)
    then show ?thesis using assms(9) True unfolding under_watch_def by force
  next
    case False
    show ?thesis using assms(3,5) deleted_other [OF _ False]
      by (intro watched_call [OF j(3) _ _ _ j(1), where made = None]) simp_all
  qed
next
  fix tid j assume "map_of (tb_states (delete_state i t)) tid = Some j"
  then show "map_of (tb_states t) tid = Some j" by (rule deleted_states)
qed (use assms(8) in simp_all)

lemma settle_send:
  assumes "settle t" "phase_fine (tb_objs t) ph" "\<And>i. ph \<noteq> SendInits i"
  shows "settle (t\<lparr>tb_sends := tb_sends t @ [(p, ph)]\<rparr>)"
  using assms by (auto simp: settle_def under_watch_def sends_fine_def nth_append)

lemma settle_new:
  assumes "settle t" "map_of (tb_states t) tid = None" "n = length (tb_objs t)"
  shows "settle (t\<lparr>tb_states := (tid, n) # tb_states t,
      tb_objs := tb_objs t @ [\<lparr>ob_transfer = tid, ob_first = p, ob_init = InitRuns, ob_run = start_run [] [] p\<rparr>],
      tb_sends := tb_sends t @ [(p, SendInits n)]\<rparr>)"
proof -
  let ?o = "\<lparr>ob_transfer = tid, ob_first = p, ob_init = InitRuns, ob_run = start_run [] [] p\<rparr>"
  let ?t = "t\<lparr>tb_states := (tid, n) # tb_states t, tb_objs := tb_objs t @ [?o], tb_sends := tb_sends t @ [(p, SendInits n)]\<rparr>"
  note st = assms(1) [unfolded settle_def]
  have "under_watch ?t i" if "i < length (tb_objs ?t)" "open_object (tb_objs ?t ! i)" for i
  proof (cases "i = n")
    case True
    then show ?thesis using assms(3) by (simp add: under_watch_def)
  next
    case False
    then have i: "i < length (tb_objs t)" "tb_objs ?t ! i = tb_objs t ! i" using that(1) assms(3) by (simp_all add: nth_append)
    then have "under_watch t i" using st that(2) by simp
    then show ?thesis using i assms(2) unfolding under_watch_def by auto
  qed
  moreover have "sends_fine (tb_objs ?t) (tb_sends ?t)"
  proof -
    have fine: "sends_fine (tb_objs t) (tb_sends t)" using st by blast
    have old: "phase_fine (tb_objs ?t) (snd (tb_sends t ! c)) \<and> snd (tb_sends t ! c) \<noteq> SendInits n" if "c < length (tb_sends t)" for c
    proof -
      have "phase_fine (tb_objs t) (snd (tb_sends t ! c))" using fine that by (simp add: sends_fine_def)
      then show ?thesis using assms(3) by (cases "snd (tb_sends t ! c)") (auto simp: phase_fine_def phase_object_def nth_append)
    qed
    have new: "phase_fine (tb_objs ?t) (SendInits n)" using assms(3) by (simp add: phase_fine_def phase_object_def start_run_def)
    show ?thesis unfolding sends_fine_def
    proof (intro allI impI conjI)
      fix c assume c: "c < length (tb_sends ?t)"
      show "phase_fine (tb_objs ?t) (snd (tb_sends ?t ! c))" using c old new by (cases "c = length (tb_sends t)") (auto simp: nth_append)
      fix i d assume h: "snd (tb_sends ?t ! c) = SendInits i" "d < length (tb_sends ?t)" "d \<noteq> c"
      show "snd (tb_sends ?t ! d) \<noteq> SendInits i"
      proof (cases "c = length (tb_sends t)")
        case True
        then have "i = n" "d < length (tb_sends t)" using h by (auto simp: nth_append)
        then show ?thesis using old [of d] by (simp add: nth_append)
      next
        case False
        then have c': "c < length (tb_sends t)" "snd (tb_sends t ! c) = SendInits i" using c h(1) by (auto simp: nth_append)
        show ?thesis
        proof (cases "d = length (tb_sends t)")
          case True
          then show ?thesis using old [OF c'(1)] c'(2) by simp
        next
          case False
          then have "d < length (tb_sends t)" using h(2) by simp
          then have "snd (tb_sends t ! d) \<noteq> SendInits i" using fine c' h(3) unfolding sends_fine_def by blast
          then show ?thesis using \<open>d < length (tb_sends t)\<close> by (simp add: nth_append)
        qed
      qed
    qed
  qed
  moreover have "i < length (tb_objs ?t) \<and> ob_transfer (tb_objs ?t ! i) = tid'" if "map_of (tb_states ?t) tid' = Some i" for tid' i
    using that st assms(3) by (auto simp: nth_append split: if_splits)
  ultimately show ?thesis unfolding settle_def by blast
qed

lemma call_fine: "settle t \<Longrightarrow> c < length (tb_sends t) \<Longrightarrow> phase_fine (tb_objs t) (snd (tb_sends t ! c))"
  by (simp add: settle_def sends_fine_def)

lemma settle_init:
  assumes "settle t" "c < length (tb_sends t)" "snd (tb_sends t ! c) = SendInits i"
  shows "settle (init_transfer s c i answer t)"
proof -
  let ?p = "ob_first (tb_objs t ! i)"
  have f: "i < length (tb_objs t)" "ob_init (tb_objs t ! i) = InitRuns" "run_completes (ob_run (tb_objs t ! i)) = []"
    using call_fine [OF assms(1,2)] assms(3) by (simp_all add: phase_fine_def phase_object_def)
  show ?thesis
  proof (cases "bind_result (ossObjectKey (oz_keyPrefix s) ?p) (\<lambda>key. bind_result answer (\<lambda>upload. Inr (key, upload)))")
    case (Inl err)
    have g: "objs_grow (Some i) (tb_objs t) (tb_objs (set_init i (InitFailed err) (delete_state i t)))"
      using grow_init(2) [of i "delete_state i t"] by simp
    have "settle (set_send c (SendReturned (Some err)) (set_init i (InitFailed err) (delete_state i t)))"
    proof (rule settle_call [OF assms(1,2) _ _ _ g])
      fix j assume j: "j < length (tb_objs t)" "open_object (tb_objs (set_init i (InitFailed err) (delete_state i t)) ! j)" "under_watch t j"
      have "j \<noteq> i" using j(2) f(1) by (auto simp: open_object_def has_upload_def objs_init)
      then show "under_watch (set_send c (SendReturned (Some err)) (set_init i (InitFailed err) (delete_state i t))) j"
        using assms(3) deleted_other [of t _ j i] by (intro watched_call [OF j(3) _ _ g j(1)]) simp_all
    qed (use assms(3) in \<open>auto simp: phase_fine_def phase_object_def dest: deleted_states\<close>)
    then show ?thesis using Inl by (simp add: init_transfer_def Let_def)
  next
    case (Inr x)
    obtain key upload where x: "x = (key, upload)" by (cases x)
    let ?t1 = "set_init i InitDone (set_run i (start_run key upload ?p) t)"
    have "settle (set_send c (SendWaits i) ?t1)"
    proof (rule settle_call [OF assms(1,2) _ _ _ grow_init(1)])
      fix j assume j: "j < length (tb_objs t)" "open_object (tb_objs ?t1 ! j)" "under_watch t j"
      show "under_watch (set_send c (SendWaits i) ?t1) j"
        using assms(3) f(3) by (intro watched_call [OF j(3) _ _ grow_init(1) j(1)]) auto
    qed (use assms(3) f(1) in \<open>auto simp: phase_fine_def phase_object_def objs_init objs_run\<close>)
    then show ?thesis using Inr x by (simp add: init_transfer_def Let_def)
  qed
qed

lemma settle_accept:
  assumes "settle t" "c < length (tb_sends t)" "tb_sends t ! c = (p, SendWaits i)" "ob_init (tb_objs t ! i) = InitDone"
  shows "settle (accept_step s c i p t)"
proof -
  let ?r = "ob_run (tb_objs t ! i)"
  obtain res st where a: "acceptPacket (oz_pendingLimit s) (oz_partSize s) p (run_st ?r) = (res, st)" by fastforce
  note k = accept_keeps [OF a]
  have i: "i < length (tb_objs t)" using call_fine [OF assms(1,2)] assms(3) by (simp add: phase_fine_def phase_object_def)
  have o: "ob_init (tb_objs (set_run i r t) ! i) = InitDone" "i < length (tb_objs (set_run i r t))" for r
    using i assms(4) by (simp_all add: objs_run)
  show ?thesis
  proof (cases res)
    case (Inl err)
    let ?r1 = "?r\<lparr>run_st := st, run_failed := True\<rparr>"
    have "settle (set_send c (if isOSSTerminalTransferError err then SendFails i err else SendReturned (Some err)) (set_run i ?r1 t))"
      by (rule settle_run [OF assms(1-3)]) (use k o assms(4) in \<open>auto simp: phase_object_def phase_fine_def\<close>)
    then show ?thesis using a Inl by (simp add: accept_step_def Let_def)
  next
    case (Inr b)
    let ?r1 = "?r\<lparr>run_st := st, run_phase := (if b then Driving else run_phase ?r)\<rparr>"
    have "settle (set_send c (if b then SendDrives i else SendReturned None) (set_run i ?r1 t))"
      by (rule settle_run [OF assms(1-3)]) (use k o assms(4) in \<open>auto simp: phase_object_def phase_fine_def\<close>)
    then show ?thesis using a Inr by (simp add: accept_step_def Let_def)
  qed
qed

lemma settle_drive:
  assumes "settle t" "c < length (tb_sends t)" "tb_sends t ! c = (p, SendDrives i)" "drive_step s c i l err t = Some t'"
  shows "settle t'"
proof -
  let ?r = "ob_run (tb_objs t ! i)"
  obtain r where r: "driveOSSUpload (oz_partSize s) l ?r = Some r" using assms(4) by (auto simp: drive_step_def Let_def split: option.splits)
  define ph where "ph = (if run_phase r \<noteq> Idle then SendDrives i else if l = CallFails then SendReturned (Some err)
    else if l = Next then SendReturned None else SendCompleted i)"
  have t': "t' = set_send c ph (set_run i r t)" using assms(4) r by (simp add: drive_step_def ph_def)
  have i: "i < length (tb_objs t)" "ob_init (tb_objs t ! i) = InitDone" using call_fine [OF assms(1,2)] assms(3) by (simp_all add: phase_fine_def phase_object_def)
  have cd: "run_completes r \<noteq> []" if "ph = SendCompleted i"
  proof -
    have "run_phase r = Idle" "l \<noteq> CallFails" "l \<noteq> Next" using that by (auto simp: ph_def split: if_splits)
    then obtain tag where "l = CallOk tag" using r by (cases l) auto
    then show ?thesis using completed_has r \<open>run_phase r = Idle\<close> by blast
  qed
  show ?thesis unfolding t'
    by (rule settle_run [OF assms(1-3)]) (use drive_keeps [OF r] i cd in \<open>auto simp: ph_def phase_object_def phase_fine_def objs_run\<close>)
qed

lemma settle_abort:
  assumes "settle t" "c < length (tb_sends t)" "snd (tb_sends t ! c) = SendAborts i err" "abortTransfer i answer t = (e, t1)"
  shows "settle (set_send c (SendReturned e') t1)"
proof -
  note f = abort_frames [OF assms(4)]
  have i: "ob_init (tb_objs t ! i) = InitDone" using call_fine [OF assms(1,2)] assms(3) by (simp add: phase_fine_def phase_object_def)
  show ?thesis
  proof (rule settle_call [OF assms(1,2), where made = None])
    fix j assume j: "j < length (tb_objs t)" "open_object (tb_objs t1 ! j)" "under_watch t j"
    show "under_watch (set_send c (SendReturned e') t1) j"
    proof (cases "j = i")
      case True
      then have "abort_calls i t" using j(2) i f(2) by (simp add: open_object_def has_upload_def abort_calls_def Let_def)
      then show ?thesis using True f(6) by (simp add: under_watch_def)
    next
      case False
      then show ?thesis using assms(3) f by (intro watched_call [OF j(3) _ _ _ j(1), where made = None]) auto
    qed
  qed (simp_all add: f phase_fine_def phase_object_def)
qed

lemma settle_close_goes:
  assumes "settle t" "k < length (tb_closes t)" "close_goes k answer t = Some t'"
  shows "settle t'"
proof -
  obtain i "is" errs where k: "tb_closes t ! k = CloseAborts (i # is) errs"
    using assms(3) by (auto simp: close_goes_def split: close_phase.splits list.splits)
  obtain e t1 where a: "abortTransfer i answer t = (e, t1)" by fastforce
  note f = abort_frames [OF a]
  define cl where "cl = (if is = [] then CloseReturned (errors_Join (errs @ (case e of None \<Rightarrow> [] | Some x \<Rightarrow> [x]))) else CloseAborts is (errs @ (case e of None \<Rightarrow> [] | Some x \<Rightarrow> [x])))"
  have t': "t' = t1\<lparr>tb_closes := (tb_closes t1)[k := cl]\<rparr>" and init: "ob_init (tb_objs t ! i) \<noteq> InitRuns"
    using assms(3) k a by (auto simp: close_goes_def cl_def Let_def split: if_splits)
  have "under_watch t' j" if j: "open_object (tb_objs t ! j)" "under_watch t j" for j
  proof (cases "j = i")
    case True
    then have "abort_calls i t" using j(1) init by (simp add: open_object_def has_upload_def abort_calls_def Let_def)
    then show ?thesis using True f(6) t' by (simp add: under_watch_def)
  next
    case False
    have "\<exists>is' errs'. CloseAborts is' errs' \<in> set ((tb_closes t)[k := cl]) \<and> j \<in> set is'" if c: "CloseAborts is' errs' \<in> set (tb_closes t)" "j \<in> set is'" for is' errs'
    proof (cases "CloseAborts is' errs' = tb_closes t ! k")
      case True
      then have "j \<in> set is" using k c(2) False by simp
      moreover from this have "cl = CloseAborts is (errs @ (case e of None \<Rightarrow> [] | Some x \<Rightarrow> [x]))" by (auto simp: cl_def)
      ultimately show ?thesis using set_update_memI [OF assms(2), of cl] by metis
    next
      case False
      then show ?thesis using set_send_kept [OF c(1) False] c(2) by blast
    qed
    then show ?thesis using j(2) f t' unfolding under_watch_def by auto
  qed
  then show ?thesis using assms(1) f t' by (auto simp: settle_def)
qed

lemma settle_step:
  assumes "settle t" "table_step s sha marshal l t = Some t'"
  shows "settle t'"
proof (cases l)
  case (Sends p)
  show ?thesis
  proof (cases "oss_send_guard sha p")
    case (Some err)
    then show ?thesis using assms Sends settle_send [OF assms(1), of "SendReturned (Some err)" p] by (simp add: send_called_def phase_fine_def phase_object_def)
  next
    case None
    show ?thesis
    proof (cases "map_of (tb_states t) (trim_space (TransferID (Meta p)))")
      case (Some i)
      then have "phase_fine (tb_objs t) (SendWaits i)" using assms(1) by (auto simp: settle_def phase_fine_def phase_object_def)
      then show ?thesis using assms Sends None Some settle_send [OF assms(1), of "SendWaits i" p]
        by (simp add: send_called_def getOrCreateTransferState_def)
    next
      case new: None
      then show ?thesis using assms Sends None settle_new [OF assms(1) new refl, of p]
        by (simp add: send_called_def getOrCreateTransferState_def Let_def)
    qed
  qed
next
  case (InitReturns c answer)
  then obtain i where "c < length (tb_sends t)" "snd (tb_sends t ! c) = SendInits i" "t' = init_transfer s c i answer t"
    using assms(2) by (auto split: if_splits send_phase.splits)
  then show ?thesis using settle_init [OF assms(1)] by blast
next
  case (Goes c)
  then have c: "c < length (tb_sends t)" "send_goes s c t = Some t'" using assms(2) by (auto split: if_splits)
  obtain p ph where x: "tb_sends t ! c = (p, ph)" by fastforce
  have fine: "phase_fine (tb_objs t) ph" using call_fine [OF assms(1) c(1)] x by simp
  show ?thesis
  proof (cases ph)
    case (SendWaits i)
    show ?thesis
    proof (cases "ob_init (tb_objs t ! i)")
      case InitRuns
      then show ?thesis using c(2) x SendWaits by (simp add: send_goes_def)
    next
      case (InitFailed err)
      then have t': "t' = set_send c (SendReturned (Some err)) t" using c(2) x SendWaits by (simp add: send_goes_def)
      show ?thesis unfolding t'
      proof (rule settle_call [OF assms(1) c(1), where made = None])
        fix j assume j: "j < length (tb_objs t)" "open_object (tb_objs t ! j)" "under_watch t j"
        show "under_watch (set_send c (SendReturned (Some err)) t) j"
          using x SendWaits by (intro watched_call [OF j(3) _ _ _ j(1), where made = None]) simp_all
      qed (simp_all add: phase_fine_def phase_object_def)
    next
      case InitDone
      then have "t' = accept_step s c i p t" using c(2) x SendWaits by (simp add: send_goes_def)
      then show ?thesis using settle_accept [OF assms(1) c(1) _ InitDone] x SendWaits by blast
    qed
  next
    case (SendCompleted i)
    then have "i < length (tb_objs t)" "ob_init (tb_objs t ! i) = InitDone" "run_completes (ob_run (tb_objs t ! i)) \<noteq> []"
      using fine by (simp_all add: phase_fine_def phase_object_def)
    then have "settle (set_send c (SendNotifies i) (delete_state i t))"
      using x SendCompleted by (intro settle_delete [OF assms(1) c(1) x]) (simp_all add: phase_fine_def phase_object_def)
    then show ?thesis using c(2) x SendCompleted by (simp add: send_goes_def)
  next
    case (SendFails i err)
    then have "i < length (tb_objs t)" "ob_init (tb_objs t ! i) = InitDone"
      using fine by (simp_all add: phase_fine_def phase_object_def)
    then have "settle (set_send c (SendAborts i err) (delete_state i t))"
      using x SendFails by (intro settle_delete [OF assms(1) c(1) x, where err = err]) (simp_all add: phase_fine_def phase_object_def)
    then show ?thesis using c(2) x SendFails by (simp add: send_goes_def)
  qed (use c(2) x in \<open>simp_all add: send_goes_def\<close>)
next
  case (Drives c l1 err)
  then obtain i where c: "c < length (tb_sends t)" "snd (tb_sends t ! c) = SendDrives i" "drive_step s c i l1 err t = Some t'"
    using assms(2) by (auto split: if_splits send_phase.splits)
  then show ?thesis using settle_drive [OF assms(1) c(1), of "fst (tb_sends t ! c)" i] by (metis prod.collapse)
next
  case (AbortReturns c answer)
  then obtain i err where c: "c < length (tb_sends t)" "snd (tb_sends t ! c) = SendAborts i err" using assms(2) by (auto split: if_splits send_phase.splits)
  obtain e t1 where a: "abortTransfer i answer t = (e, t1)" by fastforce
  have t': "t' = set_send c (SendReturned (case e of None \<Rightarrow> Some err | Some e' \<Rightarrow> errors_Join [err, e'])) t1"
    using assms(2) AbortReturns c a by simp
  show ?thesis unfolding t' by (rule settle_abort [OF assms(1) c a])
next
  case (Notifies c now answer)
  then obtain i p where c: "c < length (tb_sends t)" "tb_sends t ! c = (p, SendNotifies i)" "t' = notify_step s marshal c i p now answer t"
    using assms(2) by (auto split: if_splits send_phase.splits prod.splits)
  then obtain e x where t': "t' = set_send c (SendReturned e) (t\<lparr>tb_notified := x\<rparr>)" by (auto simp: notify_step_def Let_def split: prod.splits)
  show ?thesis unfolding t'
  proof (rule settle_call [OF assms(1) c(1), where made = None])
    fix j assume j: "j < length (tb_objs t)" "open_object (tb_objs (t\<lparr>tb_notified := x\<rparr>) ! j)" "under_watch t j"
    show "under_watch (set_send c (SendReturned e) (t\<lparr>tb_notified := x\<rparr>)) j"
      using c(2) by (intro watched_call [OF j(3) _ _ _ j(1), where made = None]) simp_all
  qed (simp_all add: phase_fine_def phase_object_def)
next
  case (Closes order)
  then have o: "set order = set (map snd (tb_states t))"
    "t' = t\<lparr>tb_states := [], tb_closes := tb_closes t @ [if order = [] then CloseReturned None else CloseAborts order []]\<rparr>"
    using assms(2) by (auto simp: table_Close_def split: if_splits)
  have "under_watch t' i" if "under_watch t i" for i
  proof -
    have "i \<in> set order" if "map_of (tb_states t) (ob_transfer (tb_objs t ! i)) = Some i"
      using map_of_SomeD [OF that] unfolding o(1) by force
    then show ?thesis using that unfolding under_watch_def o(2) by fastforce
  qed
  then show ?thesis using assms(1) o(2) by (simp add: settle_def)
next
  case (CloseGoesOn k answer)
  then show ?thesis using assms settle_close_goes [OF assms(1)] by (simp split: if_splits)
qed

text \<open>C8: the OSS sender forgets no multipart upload. Let any calls of Send and Close run at the same time, with any answers of the storage
  API. When all of them have returned and no transfer is in the table, which is so after a Close that no Send of a new transfer
  followed, then every upload that the API has made was completed, or AbortMultipartUpload was called for it: nothing is
  left in the bucket unless the API refuses to remove it.\<close>

theorem oss_sender_ends_uploads:
  assumes "table_steps s sha marshal ls new_oss_table = Some t" "tb_states t = []"
    and "list_all (\<lambda>x. \<exists>err. snd x = SendReturned err) (tb_sends t)" "list_all (\<lambda>x. \<exists>err. x = CloseReturned err) (tb_closes t)"
    and "i < length (tb_objs t)" "ob_init (tb_objs t ! i) = InitDone"
    and "os_objectKey (run_st (ob_run (tb_objs t ! i))) \<noteq> []" "os_uploadID (run_st (ob_run (tb_objs t ! i))) \<noteq> []"
  shows "run_completes (ob_run (tb_objs t ! i)) \<noteq> [] \<or> i \<in> set (tb_aborts t)"
proof -
  have "settle new_oss_table" by (simp add: settle_def new_oss_table_def sends_fine_def)
  then have "settle t" using table_runs.invariant [of settle s sha marshal ls new_oss_table t] settle_step assms(1) by blast
  then have "under_watch t i" using assms(5-8) by (simp add: settle_def open_object_def has_upload_def)
  then show ?thesis using assms(2-4) by (auto simp: under_watch_def list_all_iff)
qed

section \<open>Notifications\<close>

text \<open>A transfer that has its upload keeps it.\<close>

lemma step_keeps_done:
  assumes "settle t" "table_step s sha marshal l t = Some t'" "i < length (tb_objs t)" "ob_init (tb_objs t ! i) = InitDone"
  shows "i < length (tb_objs t') \<and> ob_init (tb_objs t' ! i) = InitDone \<and>
    os_objectKey (run_st (ob_run (tb_objs t' ! i))) = os_objectKey (run_st (ob_run (tb_objs t ! i))) \<and>
    (run_completes (ob_run (tb_objs t ! i)) \<noteq> [] \<longrightarrow> run_completes (ob_run (tb_objs t' ! i)) \<noteq> [])"
proof -
  define K where "K = (\<lambda>objs :: oss_object list. i < length objs \<and> ob_init (objs ! i) = InitDone \<and>
    os_objectKey (run_st (ob_run (objs ! i))) = os_objectKey (run_st (ob_run (tb_objs t ! i))) \<and>
    (run_completes (ob_run (tb_objs t ! i)) \<noteq> [] \<longrightarrow> run_completes (ob_run (objs ! i)) \<noteq> []))"
  have same: "K (tb_objs t)" using assms(3,4) by (simp add: K_def)
  have run: "K (tb_objs (set_run j r t))" if "os_objectKey (run_st r) = os_objectKey (run_st (ob_run (tb_objs t ! j)))"
    "run_completes (ob_run (tb_objs t ! j)) \<noteq> [] \<Longrightarrow> run_completes r \<noteq> []" for j r
    using that assms(3,4) by (cases "j = i") (simp_all add: K_def objs_run)
  have ini: "K (tb_objs (set_init j x t1))" if "K (tb_objs t1)" "j \<noteq> i" for j x t1
    using that by (simp add: K_def objs_init)
  have "K (tb_objs t')"
  proof (cases l)
    case (Sends p)
    then show ?thesis using assms(2-4)
      by (auto simp: send_called_def getOrCreateTransferState_def K_def nth_append Let_def split: option.splits)
  next
    case (InitReturns c answer)
    then obtain j where c: "c < length (tb_sends t)" "snd (tb_sends t ! c) = SendInits j" "t' = init_transfer s c j answer t"
      using assms(2) by (auto split: if_splits send_phase.splits)
    then have "j \<noteq> i" using call_fine [OF assms(1) c(1)] assms(4) by (auto simp: phase_fine_def phase_object_def)
    moreover from this have "K (tb_objs (set_run j r t))" for r using assms(3,4) by (simp add: K_def objs_run)
    ultimately show ?thesis using c(3) ini same
      by (auto simp: init_transfer_def Let_def split: sum.splits prod.splits)
  next
    case (Goes c)
    then have g: "c < length (tb_sends t)" "send_goes s c t = Some t'" using assms(2) by (auto split: if_splits)
    obtain p ph where x: "tb_sends t ! c = (p, ph)" by fastforce
    show ?thesis
    proof (cases "\<exists>j. ph = SendWaits j \<and> ob_init (tb_objs t ! j) = InitDone")
      case True
      then obtain j where j: "t' = accept_step s c j p t" using g(2) x by (auto simp: send_goes_def)
      obtain res st where a: "acceptPacket (oz_pendingLimit s) (oz_partSize s) p (run_st (ob_run (tb_objs t ! j))) = (res, st)" by fastforce
      show ?thesis using j a accept_keeps [OF a] run [of _ j]
        by (cases res) (simp_all add: accept_step_def Let_def)
    next
      case False
      then have "tb_objs t' = tb_objs t" using g(2) x by (auto simp: send_goes_def split: send_phase.splits oss_init.splits)
      then show ?thesis using same by simp
    qed
  next
    case (Drives c l1 err)
    then obtain j where c: "c < length (tb_sends t)" "drive_step s c j l1 err t = Some t'"
      using assms(2) by (auto split: if_splits send_phase.splits)
    then obtain r where r: "driveOSSUpload (oz_partSize s) l1 (ob_run (tb_objs t ! j)) = Some r" "tb_objs t' = tb_objs (set_run j r t)"
      by (auto simp: drive_step_def Let_def split: option.splits)
    then show ?thesis using run drive_keeps [OF r(1)] by simp
  next
    case (AbortReturns c answer)
    then have "tb_objs t' = tb_objs t" using assms(2) by (auto simp: abort_frames split: if_splits send_phase.splits prod.splits)
    then show ?thesis using same by simp
  next
    case (Notifies c now answer)
    then have "tb_objs t' = tb_objs t" using assms(2) by (auto simp: notify_step_def Let_def split: if_splits send_phase.splits prod.splits)
    then show ?thesis using same by simp
  next
    case (Closes order)
    then have "tb_objs t' = tb_objs t" using assms(2) by (auto simp: table_Close_def split: if_splits)
    then show ?thesis using same by simp
  next
    case (CloseGoesOn k answer)
    then have "tb_objs t' = tb_objs t" using assms(2)
      by (auto simp: close_goes_def abort_frames Let_def split: if_splits close_phase.splits list.splits prod.splits)
    then show ?thesis using same by simp
  qed
  then show ?thesis by (simp add: K_def)
qed

text \<open>What a notification says, and whom it was sent to.\<close>

definition noted :: "oss_sender \<Rightarrow> (file_ready_event \<Rightarrow> bytes result) \<Rightarrow> oss_table \<Rightarrow> nat \<times> file_ready_event \<times> (nat \<times> notify_call) list \<Rightarrow> bool" where
  "noted s marshal t x \<longleftrightarrow> (case x of (i, ev, calls) \<Rightarrow>
     i < length (tb_objs t) \<and> ob_init (tb_objs t ! i) = InitDone \<and> run_completes (ob_run (tb_objs t ! i)) \<noteq> [] \<and>
     ev_FetchKey ev = os_objectKey (run_st (ob_run (tb_objs t ! i))) \<and> ev_FetchBucket ev = oz_bucket s \<and>
     ((\<exists>b. marshal ev = Inr b) \<longrightarrow> map fst calls = [0 ..< length (oz_notifiers s)]))"

lemma notify_all_calls:
  assumes "marshal ev = Inr b" "notify_all marshal answer ev i ns = (calls, errs)"
  shows "map fst calls = [i ..< i + length ns]"
  using assms(2)
proof (induction ns arbitrary: i calls errs)
  case (Cons n ns)
  obtain calls1 errs1 where r: "notify_all marshal answer ev (Suc i) ns = (calls1, errs1)" by fastforce
  then show ?case using Cons.prems Cons.IH [OF r] assms(1)
    by (auto simp: NotifyFileReady_def upt_conv_Cons simp del: upt_Suc)
qed simp

lemma noted_step:
  assumes "settle t" "list_all (noted s marshal t) (tb_notified t)" "table_step s sha marshal l t = Some t'"
  shows "list_all (noted s marshal t') (tb_notified t')"
proof -
  have keep: "noted s marshal t' x" if "x \<in> set (tb_notified t)" for x
  proof -
    obtain i ev calls where x: "x = (i, ev, calls)" by (cases x)
    have "noted s marshal t x" using assms(2) that by (simp add: list_all_iff)
    then show ?thesis using step_keeps_done [OF assms(1,3), of i] x by (simp add: noted_def)
  qed
  show ?thesis
  proof (cases "\<exists>c now answer. l = Notifies c now answer")
    case True
    then obtain c now answer where l: "l = Notifies c now answer" by blast
    then obtain i p where c: "c < length (tb_sends t)" "tb_sends t ! c = (p, SendNotifies i)" "t' = notify_step s marshal c i p now answer t"
      using assms(3) by (auto split: if_splits send_phase.splits prod.splits)
    have fine: "i < length (tb_objs t)" "ob_init (tb_objs t ! i) = InitDone" "run_completes (ob_run (tb_objs t ! i)) \<noteq> []"
      using call_fine [OF assms(1) c(1)] c(2) by (simp_all add: phase_fine_def phase_object_def)
    define ev where "ev = ossFileReadyEvent now p (oz_name s) (oz_endpoint s) (oz_bucket s) (os_objectKey (run_st (ob_run (tb_objs t ! i))))"
    obtain calls errs where n: "notify_all marshal answer ev 0 (oz_notifiers s) = (calls, errs)" by fastforce
    have t': "tb_notified t' = tb_notified t @ [(i, ev, calls)]" "tb_objs t' = tb_objs t"
      using c(3) n by (simp_all add: notify_step_def notifyOSSCommitSuccess_def ev_def Let_def)
    have "noted s marshal t' (i, ev, calls)"
      using fine notify_all_calls [OF _ n] by (auto simp: noted_def t'(2) ev_def ossFileReadyEvent_def)
    then show ?thesis using keep t'(1) by (simp add: list_all_iff)
  next
    case False
    have "tb_notified t' = tb_notified t"
    proof (cases l)
      case (Sends p)
      then show ?thesis using assms(3) by (auto simp: send_called_def getOrCreateTransferState_def Let_def split: option.splits)
    next
      case (InitReturns c answer)
      then show ?thesis using assms(3)
        by (auto simp: init_transfer_def Let_def split: if_splits send_phase.splits sum.splits prod.splits)
    next
      case (Goes c)
      then show ?thesis using assms(3)
        by (auto simp: send_goes_def accept_step_def Let_def split: if_splits send_phase.splits oss_init.splits sum.splits prod.splits)
    next
      case (Drives c l1 err)
      then show ?thesis using assms(3)
        by (auto simp: drive_step_def Let_def split: if_splits send_phase.splits option.splits)
    next
      case (AbortReturns c answer)
      then show ?thesis using assms(3) by (auto simp: abort_frames split: if_splits send_phase.splits prod.splits)
    next
      case (Closes order)
      then show ?thesis using assms(3) by (auto simp: table_Close_def split: if_splits)
    next
      case (CloseGoesOn k answer)
      then show ?thesis using assms(3)
        by (auto simp: close_goes_def abort_frames Let_def split: if_splits close_phase.splits list.splits prod.splits)
    qed (use False in blast)
    then show ?thesis using keep by (simp add: list_all_iff)
  qed
qed

text \<open>C9: a notification follows its object. In every run of the sender, whenever the notifiers were called, an object had been completed
  before; the event names the bucket and the key of that object; and when the event can be encoded, each notifier was called
  exactly once, in order, whatever the others answered.\<close>

theorem oss_notifies_completed_objects:
  assumes "table_steps s sha marshal ls new_oss_table = Some t" "(i, ev, calls) \<in> set (tb_notified t)" "marshal ev = Inr b"
  shows "run_completes (ob_run (tb_objs t ! i)) \<noteq> [] \<and> ev_FetchKey ev = os_objectKey (run_st (ob_run (tb_objs t ! i))) \<and>
    ev_FetchBucket ev = oz_bucket s \<and> map fst calls = [0 ..< length (oz_notifiers s)]"
proof -
  define P where "P = (\<lambda>t. settle t \<and> list_all (noted s marshal t) (tb_notified t))"
  have "P new_oss_table" by (simp add: P_def settle_def new_oss_table_def sends_fine_def)
  moreover have "P v" if "P u" "table_step s sha marshal l u = Some v" for l u v
    using that settle_step noted_step unfolding P_def by blast
  ultimately have "P t" using table_runs.invariant [of P s sha marshal ls new_oss_table t] assms(1) by blast
  then have "noted s marshal t (i, ev, calls)" using assms(2) by (auto simp: P_def list_all_iff)
  then show ?thesis using assms(3) by (simp add: noted_def)
qed

section \<open>Witnesses\<close>

definition sample_oss :: oss_sender where
  "sample_oss = \<lparr>oz_name = ''s'', oz_endpoint = ''e'', oz_bucket = ''b'', oz_keyPrefix = [], oz_partSize = 2, oz_storageClass = [], oz_contentType = [],
     oz_notifiers = [KafkaCommitNotifier ''n'' ''file_path''], oz_pendingLimit = 4\<rparr>"

definition table_labels :: "table_label list" where
  "table_labels = [Sends (oss_chunk sample_file 3 2 True), Sends (oss_chunk sample_file 0 3 False), InitReturns 0 (Inr ''u''), Goes 0, Goes 1] @
     map (\<lambda>l. Drives 1 l (errors_New [])) [Next, CallOk ''a'', Next, CallOk ''b'', Next, CallOk ''c'', Next, CallOk []] @
     [Goes 1, Notifies 1 7 (\<lambda>_ _. None), Closes []]"

definition sample_table :: oss_table where
  "sample_table = the (table_steps sample_oss (\<lambda>_. []) (\<lambda>_. Inr []) table_labels new_oss_table)"

lemma sample_table: "table_steps sample_oss (\<lambda>_. []) (\<lambda>_. Inr []) table_labels new_oss_table = Some sample_table"
  unfolding sample_table_def by (rule option.collapse [symmetric]) code_simp

lemma sample_table_state:
  "(let o1 = tb_objs sample_table ! 0 in
     (length (tb_objs sample_table), length (run_completes (ob_run o1)), ob_init o1, os_objectKey (run_st (ob_run o1)), os_uploadID (run_st (ob_run o1)),
      tb_states sample_table, map snd (tb_sends sample_table), tb_closes sample_table, map fst (tb_notified sample_table))) =
   (1, 1, InitDone, ''f'', ''u'', [], [SendReturned None, SendReturned None], [CloseReturned None], [0])"
  by code_simp

lemmas sample_table_parts = sample_table_state [unfolded Let_def prod.inject]

lemma sample_table_object:
  "length (tb_objs sample_table) = 1" "run_completes (ob_run (tb_objs sample_table ! 0)) \<noteq> []" "ob_init (tb_objs sample_table ! 0) = InitDone"
  "os_objectKey (run_st (ob_run (tb_objs sample_table ! 0))) = ''f''" "os_uploadID (run_st (ob_run (tb_objs sample_table ! 0))) = ''u''"
  using sample_table_parts by auto

lemma sample_table_ends:
  "tb_states sample_table = []" "map snd (tb_sends sample_table) = [SendReturned None, SendReturned None]" "tb_closes sample_table = [CloseReturned None]"
  "map fst (tb_notified sample_table) = [0]"
  using sample_table_parts by blast+

theorem oss_sender_completes_only_files_witness:
  "put_bytes (ob_run (tb_objs sample_table ! 0)) = sample_file"
proof -
  have limit: "0 < oz_partSize sample_oss" "oz_pendingLimit sample_oss = oz_partSize sample_oss * 2" by (simp_all add: sample_oss_def)
  have chunks: "chunk_of sample_file p" if "Sends p \<in> set table_labels" "oss_send_guard (\<lambda>_. []) p = None" for p
  proof -
    have "p = oss_chunk sample_file 3 2 True \<or> p = oss_chunk sample_file 0 3 False" using that(1) by (auto simp: table_labels_def)
    moreover have "chunk_of sample_file (oss_chunk sample_file 3 2 True)" "chunk_of sample_file (oss_chunk sample_file 0 3 False)" by code_simp+
    ultimately show ?thesis by blast
  qed
  have i: "0 < length (tb_objs sample_table)" "in64 (int (length sample_file))" using sample_table_object(1) by (simp_all add: in64_def sample_file_def)
  show ?thesis
    using oss_sender_completes_only_files [OF sample_table limit, of "\<lambda>_. sample_file" 0, OF chunks i refl sample_table_object(2)] by simp
qed

text \<open>A transfer whose first chunk never came, when the sender is closed.\<close>

definition closed_table :: oss_table where
  "closed_table = the (table_steps sample_oss (\<lambda>_. []) (\<lambda>_. Inr []) [Sends (oss_chunk sample_file 3 2 True), InitReturns 0 (Inr ''u''), Goes 0, Closes [0], CloseGoesOn 0 None] new_oss_table)"

lemma closed_table:
  "table_steps sample_oss (\<lambda>_. []) (\<lambda>_. Inr []) [Sends (oss_chunk sample_file 3 2 True), InitReturns 0 (Inr ''u''), Goes 0, Closes [0], CloseGoesOn 0 None] new_oss_table = Some closed_table"
  unfolding closed_table_def by (rule option.collapse [symmetric]) code_simp

lemma closed_table_state:
  "(let o1 = tb_objs closed_table ! 0 in
     (length (tb_objs closed_table), length (run_completes (ob_run o1)), ob_init o1, os_objectKey (run_st (ob_run o1)), os_uploadID (run_st (ob_run o1)),
      tb_states closed_table, map snd (tb_sends closed_table), tb_closes closed_table)) =
   (1, 0, InitDone, ''f'', ''u'', [], [SendReturned None], [CloseReturned None])"
  by code_simp

lemmas closed_table_parts = closed_table_state [unfolded Let_def prod.inject]

theorem oss_sender_ends_uploads_witness: "0 \<in> set (tb_aborts closed_table)"
proof -
  have e: "tb_states closed_table = []" "map snd (tb_sends closed_table) = [SendReturned None]" "tb_closes closed_table = [CloseReturned None]"
    "run_completes (ob_run (tb_objs closed_table ! 0)) = []" "0 < length (tb_objs closed_table)" "ob_init (tb_objs closed_table ! 0) = InitDone"
    "os_objectKey (run_st (ob_run (tb_objs closed_table ! 0))) \<noteq> []" "os_uploadID (run_st (ob_run (tb_objs closed_table ! 0))) \<noteq> []"
    using closed_table_parts by auto
  have "list_all (\<lambda>ph. \<exists>err. ph = SendReturned err) (map snd (tb_sends closed_table))" unfolding e(2) by simp
  then have s: "list_all (\<lambda>x. \<exists>err. snd x = SendReturned err) (tb_sends closed_table)" by (simp add: list_all_iff)
  have c: "list_all (\<lambda>x. \<exists>err. x = CloseReturned err) (tb_closes closed_table)" unfolding e(3) by simp
  show ?thesis
    using oss_sender_ends_uploads [OF closed_table e(1) s c e(5,6,7,8)] e(4) by simp
qed

theorem oss_notifies_completed_objects_witness:
  "ev_FetchKey (fst (snd (hd (tb_notified sample_table)))) = ''f'' \<and> map fst (snd (snd (hd (tb_notified sample_table)))) = [0]"
proof -
  obtain ev calls where n: "tb_notified sample_table = [(0, ev, calls)]"
    using sample_table_ends(4) by (cases "tb_notified sample_table") auto
  then have m: "(0, ev, calls) \<in> set (tb_notified sample_table)" by simp
  show ?thesis
    using oss_notifies_completed_objects [OF sample_table m refl] sample_table_object(4) n by (simp add: sample_oss_def)
qed

section \<open>The name in the event\<close>

text \<open>With a target path and a target name, the object is stored under the path alone, and the event names the file by the target name.\<close>

lemma event_names_other_file:
  "ossObjectKey [] ((oss_chunk sample_file 0 5 True)\<lparr>Meta := zero_meta\<lparr>TargetFilePath := ''d/a'', TargetFileName := ''x''\<rparr>\<rparr>) = Inr ''d/a''"
  "ev_FileName (ossFileReadyEvent 0 ((oss_chunk sample_file 0 5 True)\<lparr>Meta := zero_meta\<lparr>TargetFilePath := ''d/a'', TargetFileName := ''x''\<rparr>\<rparr>) [] [] [] ''d/a'') = ''x''"
  by code_simp+

end
