(* ===== verification/OssOverlap.thy ===== *)
theory OssOverlap
  imports OssGoals OssTableProps
begin

text \<open>
  What a chunk that overlaps the received part of its file does to the sender: its transfer is stuck for good, and sending
  the file again does not help while the table still has that transfer.
\<close>

section \<open>A transfer that an overlapping chunk has blocked\<close>

text \<open>A segment is parked under an offset that has already been passed.\<close>

definition blocked :: "int \<Rightarrow> oss_transfer_state \<Rightarrow> bool" where
  "blocked k st \<longleftrightarrow> k < os_nextOffset st \<and> map_of (os_pendingSegments st) k \<noteq> None"

lemma blocked_not_ready: "blocked k st \<Longrightarrow> \<not> readyToComplete st"
  by (auto simp: blocked_def readyToComplete_def)

lemma blocked_drain: "blocked k st \<Longrightarrow> blocked k (drainContiguousSegments st)"
proof (induction st rule: drainContiguousSegments.induct)
  case (1 st)
  show ?case
  proof (cases "map_of (os_pendingSegments st) (os_nextOffset st)")
    case None
    then show ?thesis using "1.prems" by (simp add: drainContiguousSegments.simps [of st])
  next
    case (Some seg)
    have "blocked k (st\<lparr>os_pendingSegments := AList.delete (os_nextOffset st) (os_pendingSegments st),
        os_pendingBytes := os_pendingBytes st - int (length seg),
        os_pendingPartBuffer := os_pendingPartBuffer st @ seg, os_nextOffset := os_nextOffset st + int (length seg)\<rparr>)"
      using "1.prems" by (auto simp: blocked_def delete_conv')
    then show ?thesis using "1.IH" [OF Some] Some by (simp add: drainContiguousSegments.simps [of st])
  qed
qed

lemma blocked_same: "same_data st st' \<Longrightarrow> blocked k st' = blocked k st"
  by (simp add: same_data_def blocked_def)

lemma blocked_acceptChunk:
  assumes "blocked k st" "acceptChunk st off b lim = (e, st')"
  shows "blocked k st'"
proof -
  have "wrap64 (off + int (length b)) > os_nextOffset st \<Longrightarrow>
    blocked k (drainContiguousSegments (st\<lparr>os_pendingPartBuffer := os_pendingPartBuffer st @ b, os_nextOffset := wrap64 (off + int (length b))\<rparr>))"
    using assms(1) by (intro blocked_drain) (simp add: blocked_def)
  then show ?thesis using assms by (auto simp: acceptChunk_def Let_def blocked_def split: if_splits)
qed

lemma blocked_acceptPacket:
  assumes "blocked k st" "acceptPacket lim ps p st = (res, st')"
  shows "blocked k st'"
proof -
  obtain e st4 st3 where c: "acceptChunk st3 (Offset (Meta p)) (Payload p) lim = (e, st4)"
    "os_nextOffset st3 = os_nextOffset st" "os_pendingSegments st3 = os_pendingSegments st" "same_data st4 st'"
    using acceptPacket_parts [OF assms(2)] by (auto simp: oss_addRange_def Let_def same_data_def split: option.splits if_splits)
  have "blocked k st4" by (rule blocked_acceptChunk [OF _ c(1)]) (use assms c in \<open>simp add: blocked_def\<close>)
  then show ?thesis using blocked_same [OF c(4)] by simp
qed

text \<open>A chunk that begins before \<open>nextOffset\<close> and ends after it is parked under its own offset, which is never asked for again.\<close>

lemma overlap_blocks:
  assumes "acceptPacket lim ps p st = (res, st')" "Offset (Meta p) < os_nextOffset st"
    "os_nextOffset st < wrap64 (Offset (Meta p) + int (length (Payload p)))"
  shows "blocked (Offset (Meta p)) st'"
proof -
  obtain e st4 st3 where c: "acceptChunk st3 (Offset (Meta p)) (Payload p) lim = (e, st4)"
    "os_nextOffset st3 = os_nextOffset st" "same_data st4 st'"
    using acceptPacket_parts [OF assms(1)] by (auto simp: oss_addRange_def Let_def same_data_def split: option.splits if_splits)
  have "blocked (Offset (Meta p)) st4"
    using c(1,2) assms(2,3) by (auto simp: acceptChunk_def Let_def blocked_def split: if_splits)
  then show ?thesis using blocked_same [OF c(3)] by simp
qed

fun completing :: "oss_phase \<Rightarrow> bool" where
  "completing (Calling (OpComplete k u parts)) = True"
| "completing _ = False"

lemma blocked_drive:
  assumes "driveOSSUpload ps l r = Some r'" "blocked k (run_st r)" "\<not> completing (run_phase r)"
  shows "blocked k (run_st r') \<and> \<not> completing (run_phase r') \<and> run_completes r' = run_completes r"
proof -
  have "blocked k (run_st r')" using blocked_same [OF drive_same [OF assms(1)]] assms(2) by simp
  moreover have "\<not> completing (run_phase r') \<and> run_completes r' = run_completes r"
    using assms blocked_not_ready [OF assms(2)]
    by (cases "(ps, l, r)" rule: driveOSSUpload.cases)
      (auto simp: nextUploadOperation_def reservePartUploadLocked_def split: oss_phase.splits oss_upload_op.splits if_splits)
  ultimately show ?thesis by simp
qed

section \<open>The blocked transfer in the sender\<close>

definition stuck_run :: "int \<Rightarrow> oss_run \<Rightarrow> bool" where
  "stuck_run k r \<longleftrightarrow> blocked k (run_st r) \<and> \<not> completing (run_phase r)"

text \<open>Transfer \<open>i\<close> is stuck at \<open>k\<close> and has sent \<open>C\<close>; and while the table has it, no later transfer (from number \<open>n\<close> on) has its ID.\<close>

definition stuck_object :: "nat \<Rightarrow> int \<Rightarrow> (int \<times> string) list list \<Rightarrow> string \<Rightarrow> oss_object list \<Rightarrow> bool" where
  "stuck_object i k C tid objs \<longleftrightarrow> i < length objs \<and> ob_init (objs ! i) = InitDone \<and> stuck_run k (ob_run (objs ! i)) \<and>
     run_completes (ob_run (objs ! i)) = C \<and> ob_transfer (objs ! i) = tid"

definition not_made_again :: "nat \<Rightarrow> nat \<Rightarrow> string \<Rightarrow> oss_table \<Rightarrow> bool" where
  "not_made_again n i tid t \<longleftrightarrow> n \<le> length (tb_objs t) \<and>
     (map_of (tb_states t) tid = Some i \<longrightarrow> (\<forall>j < length (tb_objs t). n \<le> j \<longrightarrow> ob_transfer (tb_objs t ! j) \<noteq> tid))"

lemma stuck_accept:
  assumes "stuck_object i k C tid (tb_objs t)"
  shows "stuck_object i k C tid (tb_objs (accept_step s c j p t))"
proof -
  obtain res st' where a: "acceptPacket (oz_pendingLimit s) (oz_partSize s) p (run_st (ob_run (tb_objs t ! j))) = (res, st')" by fastforce
  show ?thesis
  proof (cases "j = i")
    case True
    then have "blocked k st'" using blocked_acceptPacket [OF _ a] assms by (simp add: stuck_object_def stuck_run_def)
    then show ?thesis using True a assms by (cases res) (simp_all add: accept_step_def Let_def objs_run stuck_object_def stuck_run_def)
  next
    case False
    then show ?thesis using a assms by (cases res) (simp_all add: accept_step_def Let_def objs_run stuck_object_def)
  qed
qed

lemma stuck_object_step:
  assumes "settle t" "table_step s sha marshal l t = Some t'" "stuck_object i k C tid (tb_objs t)"
  shows "stuck_object i k C tid (tb_objs t')"
proof (cases l)
  case (Sends p)
  then show ?thesis using assms(2,3)
    by (auto simp: send_called_def getOrCreateTransferState_def stuck_object_def nth_append Let_def split: option.splits)
next
  case (InitReturns c answer)
  then obtain j where c: "c < length (tb_sends t)" "snd (tb_sends t ! c) = SendInits j" "t' = init_transfer s c j answer t"
    using assms(2) by (auto split: if_splits send_phase.splits)
  then have "j \<noteq> i" using call_fine [OF assms(1) c(1)] assms(3) by (auto simp: phase_fine_def phase_object_def stuck_object_def)
  then show ?thesis using c(3) assms(3)
    by (auto simp: init_transfer_def Let_def objs_run objs_init stuck_object_def split: sum.splits prod.splits)
next
  case (Goes c)
  then have g: "c < length (tb_sends t)" "send_goes s c t = Some t'" using assms(2) by (auto split: if_splits)
  obtain p ph where x: "tb_sends t ! c = (p, ph)" by fastforce
  show ?thesis
  proof (cases "\<exists>j. ph = SendWaits j \<and> ob_init (tb_objs t ! j) = InitDone")
    case True
    then obtain j where "t' = accept_step s c j p t" using g(2) x by (auto simp: send_goes_def)
    then show ?thesis using stuck_accept assms(3) by simp
  next
    case False
    then have "tb_objs t' = tb_objs t" using g(2) x by (auto simp: send_goes_def split: send_phase.splits oss_init.splits)
    then show ?thesis using assms(3) by simp
  qed
next
  case (Drives c l1 err)
  then obtain j where c: "c < length (tb_sends t)" "drive_step s c j l1 err t = Some t'"
    using assms(2) by (auto split: if_splits send_phase.splits)
  then obtain r where r: "driveOSSUpload (oz_partSize s) l1 (ob_run (tb_objs t ! j)) = Some r" "tb_objs t' = tb_objs (set_run j r t)"
    by (auto simp: drive_step_def Let_def split: option.splits)
  show ?thesis
  proof (cases "j = i")
    case True
    then show ?thesis using blocked_drive [OF r(1), of k] r(2) assms(3) by (simp add: objs_run stuck_object_def stuck_run_def)
  next
    case False
    then show ?thesis using r(2) assms(3) by (simp add: objs_run stuck_object_def)
  qed
next
  case (AbortReturns c answer)
  then have "tb_objs t' = tb_objs t" using assms(2) by (auto simp: abort_frames split: if_splits send_phase.splits prod.splits)
  then show ?thesis using assms(3) by simp
next
  case (Notifies c now answer)
  then have "tb_objs t' = tb_objs t" using assms(2) by (auto simp: notify_step_def Let_def split: if_splits send_phase.splits prod.splits)
  then show ?thesis using assms(3) by simp
next
  case (Closes order)
  then have "tb_objs t' = tb_objs t" using assms(2) by (auto simp: table_Close_def split: if_splits)
  then show ?thesis using assms(3) by simp
next
  case (CloseGoesOn k answer)
  then have "tb_objs t' = tb_objs t" using assms(2)
    by (auto simp: close_goes_def abort_frames Let_def split: if_splits close_phase.splits list.splits prod.splits)
  then show ?thesis using assms(3) by simp
qed

text \<open>A step keeps the transfers and their IDs and takes entries out of the table, or it makes one transfer for an ID that has none.\<close>

lemma map_upd_same: "f y = f (xs ! i) \<Longrightarrow> map f (xs[i := y]) = map f xs"
  by (cases "i < length xs") (simp_all add: map_update list_update_same_conv list_update_beyond)

lemma ids_run_init [simp]:
  "map ob_transfer (tb_objs (set_run i r t)) = map ob_transfer (tb_objs t)" "map ob_transfer (tb_objs (set_init i x t)) = map ob_transfer (tb_objs t)"
  by (simp_all add: objs_run objs_init map_upd_same)

definition keeps_ids :: "oss_table \<Rightarrow> oss_table \<Rightarrow> bool" where
  "keeps_ids t t' \<longleftrightarrow> map ob_transfer (tb_objs t') = map ob_transfer (tb_objs t) \<and>
     (\<forall>tid i. map_of (tb_states t') tid = Some i \<longrightarrow> map_of (tb_states t) tid = Some i)"

definition makes_id :: "oss_table \<Rightarrow> oss_table \<Rightarrow> bool" where
  "makes_id t t' \<longleftrightarrow> (\<exists>o1. tb_objs t' = tb_objs t @ [o1] \<and> tb_states t' = (ob_transfer o1, length (tb_objs t)) # tb_states t \<and>
     map_of (tb_states t) (ob_transfer o1) = None)"

lemma keeps_ids_same: "tb_objs t' = tb_objs t \<Longrightarrow> tb_states t' = tb_states t \<Longrightarrow> keeps_ids t t'"
  by (simp add: keeps_ids_def)

lemma table_ids_step:
  assumes "table_step s sha marshal l t = Some t'"
  shows "keeps_ids t t' \<or> makes_id t t'"
proof (cases l)
  case (Sends p)
  then show ?thesis using assms
    by (auto simp: send_called_def getOrCreateTransferState_def keeps_ids_def makes_id_def Let_def split: option.splits)
next
  case (InitReturns c answer)
  then show ?thesis using assms
    by (auto simp: init_transfer_def keeps_ids_def Let_def dest: deleted_states split: if_splits send_phase.splits sum.splits)
next
  case (Goes c)
  then have "send_goes s c t = Some t'" using assms by (auto split: if_splits)
  then show ?thesis
    by (auto simp: send_goes_def accept_step_def keeps_ids_def Let_def dest: deleted_states
        split: prod.splits send_phase.splits oss_init.splits sum.splits)
next
  case (Drives c l1 err)
  then show ?thesis using assms
    by (auto simp: drive_step_def keeps_ids_def Let_def split: if_splits send_phase.splits option.splits)
next
  case (AbortReturns c answer)
  then show ?thesis using assms
    by (auto simp: keeps_ids_same abort_frames split: if_splits send_phase.splits prod.splits)
next
  case (Notifies c now answer)
  then show ?thesis using assms
    by (auto simp: notify_step_def keeps_ids_same Let_def split: if_splits send_phase.splits prod.splits)
next
  case (Closes order)
  then show ?thesis using assms by (auto simp: table_Close_def keeps_ids_def split: if_splits)
next
  case (CloseGoesOn k answer)
  then show ?thesis using assms
    by (auto simp: close_goes_def keeps_ids_same abort_frames Let_def split: if_splits close_phase.splits list.splits prod.splits)
qed

lemma not_made_again_step:
  assumes "table_step s sha marshal l t = Some t'" "not_made_again n i tid t" "i < length (tb_objs t)"
  shows "not_made_again n i tid t'"
proof -
  consider "keeps_ids t t'" | "makes_id t t'" using table_ids_step [OF assms(1)] by blast
  then show ?thesis
  proof cases
    case 1
    then have "length (tb_objs t') = length (tb_objs t)" "\<And>j. j < length (tb_objs t) \<Longrightarrow> ob_transfer (tb_objs t' ! j) = ob_transfer (tb_objs t ! j)"
      unfolding keeps_ids_def by (metis length_map, metis length_map nth_map)
    then show ?thesis using 1 assms(2) by (simp add: not_made_again_def keeps_ids_def)
  next
    case 2
    then show ?thesis using assms(2,3) by (auto simp: not_made_again_def makes_id_def nth_append less_Suc_eq split: if_splits)
  qed
qed

text \<open>C39: a chunk that begins inside the part of the file already received and ends beyond it makes its upload useless. When a
  call of \<open>Send\<close> in the table of the sender hands such a chunk to transfer \<open>i\<close> (whose upload is not being completed at that
  moment), then whatever happens after it (any sends, the whole file once more included, any answers of the API, \<open>Close\<close>),
  no \<open>CompleteMultipartUpload\<close> of transfer \<open>i\<close> succeeds any more; and as long as the table holds it, nobody makes
  another transfer with its ID, so that sending the file again does not help either. Only after it has been taken out (the bound on
  waiting bytes was exceeded, or \<open>Close\<close>) does a repetition of the whole file start a new transfer, which can complete.\<close>

theorem oss_overlap_never_completes:
  assumes "table_steps s sha marshal before new_oss_table = Some t" "c < length (tb_sends t)" "tb_sends t ! c = (p, SendWaits i)"
    and "ob_init (tb_objs t ! i) = InitDone" "\<not> completing (run_phase (ob_run (tb_objs t ! i)))"
    and "Offset (Meta p) < os_nextOffset (run_st (ob_run (tb_objs t ! i)))"
    and "os_nextOffset (run_st (ob_run (tb_objs t ! i))) < wrap64 (Offset (Meta p) + int (length (Payload p)))"
    and "table_steps s sha marshal (Goes c # after) t = Some t'"
  shows "run_completes (ob_run (tb_objs t' ! i)) = run_completes (ob_run (tb_objs t ! i)) \<and>
    (map_of (tb_states t') (ob_transfer (tb_objs t ! i)) = Some i \<longrightarrow>
       (\<forall>j. length (tb_objs t) \<le> j \<and> j < length (tb_objs t') \<longrightarrow> ob_transfer (tb_objs t' ! j) \<noteq> ob_transfer (tb_objs t ! i)))"
proof -
  let ?k = "Offset (Meta p)" and ?C = "run_completes (ob_run (tb_objs t ! i))" and ?tid = "ob_transfer (tb_objs t ! i)"
    and ?n = "length (tb_objs t)"
  define P where "P = (\<lambda>u :: oss_table. settle u \<and> stuck_object i ?k ?C ?tid (tb_objs u) \<and> not_made_again ?n i ?tid u)"
  have "settle new_oss_table" by (simp add: settle_def new_oss_table_def sends_fine_def)
  then have t: "settle t" using table_runs.invariant [of settle s sha marshal before new_oss_table t] settle_step assms(1) by blast
  then have i: "i < ?n" using call_fine [OF t assms(2)] assms(3) by (simp add: phase_fine_def phase_object_def)
  obtain t1 where t1: "table_step s sha marshal (Goes c) t = Some t1" "table_steps s sha marshal after t1 = Some t'"
    using assms(8) by (auto split: option.splits)
  have "settle t1" using settle_step t t1(1) by blast
  moreover have "not_made_again ?n i ?tid t1"
    by (rule not_made_again_step [OF t1(1)]) (use i in \<open>simp_all add: not_made_again_def\<close>)
  moreover have "stuck_object i ?k ?C ?tid (tb_objs t1)"
  proof -
    obtain res st' where a: "acceptPacket (oz_pendingLimit s) (oz_partSize s) p (run_st (ob_run (tb_objs t ! i))) = (res, st')" by fastforce
    have "t1 = accept_step s c i p t" using t1(1) assms(2-4) by (simp add: send_goes_def)
    then show ?thesis using a i assms(4,5) overlap_blocks [OF a assms(6,7)]
      by (cases res) (simp_all add: accept_step_def Let_def objs_run stuck_object_def stuck_run_def)
  qed
  ultimately have "P t1" by (simp add: P_def)
  moreover have "P v" if "P u" "table_step s sha marshal l u = Some v" for l u v
  proof -
    have u: "settle u" "stuck_object i ?k ?C ?tid (tb_objs u)" "not_made_again ?n i ?tid u" using that(1) by (simp_all add: P_def)
    then have "i < length (tb_objs u)" by (simp add: stuck_object_def)
    then show ?thesis using settle_step [OF u(1) that(2)] stuck_object_step [OF u(1) that(2) u(2)] not_made_again_step [OF that(2) u(3)]
      by (simp add: P_def)
  qed
  ultimately have "P t'" using table_runs.invariant [of P s sha marshal after t1 t'] t1(2) by blast
  then show ?thesis by (auto simp: P_def stuck_object_def not_made_again_def)
qed

text \<open>
  The first two bytes of a file of five, then bytes one to four, which overlap: the whole file sent once more exceeds the bound on
  waiting bytes and fails, the upload is aborted, and only the file sent after that, in a new transfer, is completed.
\<close>

definition overlap_before :: "table_label list" where
  "overlap_before = [Sends (oss_chunk sample_file 0 2 False), InitReturns 0 (Inr ''u''), Goes 0] @
     map (\<lambda>l. Drives 0 l (errors_New [])) [Next, CallOk ''a'', Next] @ [Sends (oss_chunk sample_file 1 4 True)]"

definition overlap_after :: "table_label list" where
  "overlap_after = [Sends (oss_chunk sample_file 0 5 True), Goes 2, Goes 2, AbortReturns 2 None,
     Sends (oss_chunk sample_file 0 5 True), InitReturns 3 (Inr ''v''), Goes 3] @
     map (\<lambda>l. Drives 3 l (errors_New [])) [Next, CallOk ''a'', Next, CallOk ''b'', Next, CallOk ''c'', Next, CallOk []]"

definition overlap_table :: oss_table where
  "overlap_table = the (table_steps sample_oss (\<lambda>_. []) (\<lambda>_. Inr []) overlap_before new_oss_table)"

definition overlap_end :: oss_table where
  "overlap_end = the (table_steps sample_oss (\<lambda>_. []) (\<lambda>_. Inr []) (Goes 1 # overlap_after) overlap_table)"

lemma overlap_table: "table_steps sample_oss (\<lambda>_. []) (\<lambda>_. Inr []) overlap_before new_oss_table = Some overlap_table"
  unfolding overlap_table_def by (rule option.collapse [symmetric]) code_simp

lemma overlap_end: "table_steps sample_oss (\<lambda>_. []) (\<lambda>_. Inr []) (Goes 1 # overlap_after) overlap_table = Some overlap_end"
  unfolding overlap_end_def by (rule option.collapse [symmetric]) code_simp

lemma overlap_table_state:
  "(let o1 = tb_objs overlap_table ! 0; (p, ph) = tb_sends overlap_table ! 1 in
     (length (tb_sends overlap_table), ph, ob_init o1, run_phase (ob_run o1), os_nextOffset (run_st (ob_run o1)), run_completes (ob_run o1),
      Offset (Meta p), length (Payload p))) =
   (2, SendWaits 0, InitDone, Idle, 2, [], 1, 4)"
  by code_simp

lemma overlap_end_state:
  "(length (tb_objs overlap_end), tb_aborts overlap_end, snd (tb_sends overlap_end ! 3), length (run_completes (ob_run (tb_objs overlap_end ! 1)))) =
   (2, [0], SendCompleted 1, 1)"
  by code_simp

theorem oss_overlap_never_completes_witness:
  "run_completes (ob_run (tb_objs overlap_end ! 0)) = [] \<and> run_completes (ob_run (tb_objs overlap_end ! 1)) \<noteq> []"
proof -
  obtain p ph where x: "tb_sends overlap_table ! 1 = (p, ph)" by fastforce
  note st = overlap_table_state [unfolded x Let_def prod.case prod.inject]
  have x': "tb_sends overlap_table ! 1 = (p, SendWaits 0)" using x st by simp
  have w: "wrap64 (1 + int 4) = 5" by code_simp
  have "run_completes (ob_run (tb_objs overlap_end ! 0)) = run_completes (ob_run (tb_objs overlap_table ! 0))"
    using oss_overlap_never_completes [OF overlap_table _ x' _ _ _ _ overlap_end] st w by simp
  then show ?thesis using st overlap_end_state [unfolded prod.inject] by auto
qed

end
