(* ===== verification/Defaults.thy ===== *)
theory Defaults
  imports Config
begin

text \<open>
  \<open>src/src/config/business_defaults.go\<close>: \<open>ApplyDefaults\<close>. A field is filled from the business defaults
  and then from the constants of the code. The steps of the code become one update per group of
  fields that the code fills under the same condition, in the code's order; \<open>ncpu\<close> is \<open>runtime.NumCPU()\<close>.
\<close>

section \<open>Filling one field\<close>

text \<open>\<open>if x <= 0 && d > 0 { x = d }\<close> and \<open>if x <= 0 { x = d }\<close>.\<close>

definition fill_pos :: "int \<Rightarrow> int \<Rightarrow> int" where "fill_pos d x = (if x \<le> 0 \<and> d > 0 then d else x)"
definition or_pos :: "int \<Rightarrow> int \<Rightarrow> int" where "or_pos d x = (if x \<le> 0 then d else x)"

text \<open>\<open>if x == "" && d != "" { x = d }\<close> and \<open>if x == "" { x = d }\<close>; both give the same.\<close>

definition fill_str :: "string \<Rightarrow> string \<Rightarrow> string" where "fill_str d x = (if x = [] \<and> d \<noteq> [] then d else x)"
definition or_str :: "string \<Rightarrow> string \<Rightarrow> string" where "or_str d x = (if x = [] then d else x)"

text \<open>The same for a pointer to a bool.\<close>

definition fill_ptr :: "bool option \<Rightarrow> bool option \<Rightarrow> bool option" where
  "fill_ptr d x = (if x = None \<and> d \<noteq> None then d else x)"
definition or_ptr :: "bool \<Rightarrow> bool option \<Rightarrow> bool option" where "or_ptr d x = (if x = None then Some d else x)"

lemmas fill_defs = fill_pos_def or_pos_def fill_str_def or_str_def fill_ptr_def or_ptr_def

text \<open>\<open>for name, v := range m { ...; m[name] = v }\<close>.\<close>

definition map_values :: "('a \<Rightarrow> 'a) \<Rightarrow> 'a gomap option \<Rightarrow> 'a gomap option" where
  "map_values f = map_option (map (\<lambda>(k, v). (k, f v)))"

section \<open>System defaults\<close>

definition control_defaults :: "control_config \<Rightarrow> control_config" where
  "control_defaults c = c\<lparr>cc_TimeoutSec := or_pos DefaultControlTimeoutSec (cc_TimeoutSec c),
     cc_ConfigWatchInterval := or_str DefaultConfigWatchInterval (cc_ConfigWatchInterval c),
     cc_PprofPort := (if cc_PprofPort c = 0 then DefaultPprofPort else cc_PprofPort c)\<rparr>"

definition logging_defaults :: "logging_config \<Rightarrow> logging_config" where
  "logging_defaults l = l\<lparr>lc_Level := or_str DefaultLogLevel (lc_Level l),
     lc_MaxSizeMB := or_pos DefaultLogRotateMaxSizeMB (lc_MaxSizeMB l),
     lc_MaxBackups := or_pos DefaultLogRotateMaxBackups (lc_MaxBackups l),
     lc_MaxAgeDays := or_pos DefaultLogRotateMaxAgeDays (lc_MaxAgeDays l),
     lc_Compress := or_ptr DefaultLogRotateCompress (lc_Compress l),
     lc_GCStatsLogEnabled := or_ptr DefaultGCStatsLogEnabled (lc_GCStatsLogEnabled l),
     lc_GCStatsLogInterval := or_str DefaultGCStatsLogInterval (lc_GCStatsLogInterval l),
     lc_TrafficStatsInterval := or_str DefaultTrafficStatsInterval (lc_TrafficStatsInterval l),
     lc_TrafficStatsSampleEvery := or_pos DefaultTrafficStatsSampleEvery (lc_TrafficStatsSampleEvery l),
     lc_PayloadLogMaxBytes := or_pos DefaultPayloadLogMaxBytes (lc_PayloadLogMaxBytes l)\<rparr>"

definition applySystemDefaults :: "control_config \<Rightarrow> logging_config \<Rightarrow> control_config \<times> logging_config" where
  "applySystemDefaults c l = (control_defaults c, logging_defaults l)"

section \<open>Business defaults\<close>

text \<open>\<open>logmax\<close> is the (already filled) \<open>c.Logging.PayloadLogMaxBytes\<close>.\<close>

definition task_defaults :: "business_task_defaults_config \<Rightarrow> int \<Rightarrow> task_config \<Rightarrow> task_config" where
  "task_defaults d logmax tc = tc\<lparr>
     tc_PoolSize := or_pos DefaultTaskPoolSize (fill_pos (bt_PoolSize d) (tc_PoolSize tc)),
     tc_ChannelQueueSize := or_pos DefaultTaskChannelQueueSize (fill_pos (bt_ChannelQueueSize d) (tc_ChannelQueueSize tc)),
     tc_ExecutionModel := fill_str (bt_ExecutionModel d) (tc_ExecutionModel tc),
     tc_PayloadLogMaxBytes := or_pos logmax (fill_pos (bt_PayloadLogMaxBytes d) (tc_PayloadLogMaxBytes tc))\<rparr>"

text \<open>A receiver: the business defaults, for every type, for Kafka and for SkyDDS.\<close>

definition receiver_kafka_business :: "business_receiver_defaults_config \<Rightarrow> receiver_config \<Rightarrow> receiver_config" where
  "receiver_kafka_business d rc =
     (let rc1 = rc\<lparr>rc_DialTimeout := fill_str (br_DialTimeout d) (rc_DialTimeout rc),
            rc_ConnIdleTimeout := fill_str (br_ConnIdleTimeout d) (rc_ConnIdleTimeout rc),
            rc_MetadataMaxAge := fill_str (br_MetadataMaxAge d) (rc_MetadataMaxAge rc),
            rc_RetryBackoff := fill_str (br_RetryBackoff d) (rc_RetryBackoff rc),
            rc_SessionTimeout := fill_str (br_SessionTimeout d) (rc_SessionTimeout rc),
            rc_HeartbeatInterval := fill_str (br_HeartbeatInterval d) (rc_HeartbeatInterval rc),
            rc_RebalanceTimeout := fill_str (br_RebalanceTimeout d) (rc_RebalanceTimeout rc),
            rc_Balancers := (if rc_Balancers rc = None \<and> br_Balancers d \<noteq> None then copy_slice (br_Balancers d) else rc_Balancers rc),
            rc_AutoCommit := fill_ptr (br_AutoCommit d) (rc_AutoCommit rc)\<rparr>
      in rc1\<lparr>rc_AutoCommitInterval :=
              (if rc_AutoCommitInterval rc1 = [] \<and> br_AutoCommitInterval d \<noteq> [] \<and>
                  (rc_AutoCommit rc1 = None \<or> BoolValue (rc_AutoCommit rc1))
               then br_AutoCommitInterval d else rc_AutoCommitInterval rc1),
            rc_FetchMaxPartitionBytes := fill_pos (br_FetchMaxPartitionBytes d) (rc_FetchMaxPartitionBytes rc1),
            rc_IsolationLevel := fill_str (br_IsolationLevel d) (rc_IsolationLevel rc1)\<rparr>)"

definition common_business :: "business_receiver_defaults_config \<Rightarrow> receiver_config \<Rightarrow> receiver_config" where
  "common_business d rc = rc\<lparr>rc_Multicore := fill_ptr (br_Multicore d) (rc_Multicore rc),
            rc_NumEventLoop := fill_pos (br_NumEventLoop d) (rc_NumEventLoop rc),
            rc_PayloadLogMaxBytes := fill_pos (br_PayloadLogMaxBytes d) (rc_PayloadLogMaxBytes rc),
            rc_SocketRecvBuffer := fill_pos (br_SocketRecvBuffer d) (rc_SocketRecvBuffer rc)\<rparr>"

definition skydds_business :: "business_receiver_defaults_config \<Rightarrow> receiver_config \<Rightarrow> receiver_config" where
  "skydds_business d rc = rc\<lparr>rc_WaitTimeout := fill_str (br_WaitTimeout d) (rc_WaitTimeout rc),
                  rc_DrainMaxItems := fill_pos (br_DrainMaxItems d) (rc_DrainMaxItems rc),
                  rc_DrainBufferBytes := fill_pos (br_DrainBufferBytes d) (rc_DrainBufferBytes rc)\<rparr>"

definition receiver_business :: "business_receiver_defaults_config \<Rightarrow> receiver_config \<Rightarrow> receiver_config" where
  "receiver_business d rc =
     (let rc1 = common_business d rc;
          rc2 = (if rc_Type rc1 = ''kafka'' then receiver_kafka_business d rc1 else rc1)
      in if rc_Type rc2 = ''dds_skydds'' then skydds_business d rc2 else rc2)"

text \<open>Then the constants of the code.\<close>

definition receiver_kafka_code :: "receiver_config \<Rightarrow> receiver_config" where
  "receiver_kafka_code rc =
     (let rc1 = rc\<lparr>rc_DialTimeout := or_str DefaultKafkaDialTimeout (rc_DialTimeout rc),
            rc_ConnIdleTimeout := or_str DefaultKafkaConnIdleTimeout (rc_ConnIdleTimeout rc),
            rc_MetadataMaxAge := or_str DefaultKafkaMetadataMaxAge (rc_MetadataMaxAge rc),
            rc_RetryBackoff := or_str DefaultKafkaRetryBackoff (rc_RetryBackoff rc),
            rc_SessionTimeout := or_str DefaultKafkaReceiverSessionTTL (rc_SessionTimeout rc),
            rc_HeartbeatInterval := or_str DefaultKafkaReceiverHeartbeat (rc_HeartbeatInterval rc),
            rc_RebalanceTimeout := or_str DefaultKafkaReceiverRebalanceTTL (rc_RebalanceTimeout rc),
            rc_Balancers := (if rc_Balancers rc = None then copy_slice DefaultKafkaReceiverBalancers else rc_Balancers rc),
            rc_AutoCommit := or_ptr DefaultKafkaReceiverAutoCommit (rc_AutoCommit rc)\<rparr>
      in rc1\<lparr>rc_AutoCommitInterval :=
              (if BoolValue (rc_AutoCommit rc1) \<and> rc_AutoCommitInterval rc1 = []
               then DefaultKafkaReceiverAutoCommitIv else rc_AutoCommitInterval rc1),
            rc_FetchMaxPartitionBytes := or_pos DefaultKafkaFetchMaxPartBytes (rc_FetchMaxPartitionBytes rc1),
            rc_IsolationLevel := or_str DefaultKafkaIsolationLevel (rc_IsolationLevel rc1)\<rparr>)"

definition common_code :: "int \<Rightarrow> int \<Rightarrow> receiver_config \<Rightarrow> receiver_config" where
  "common_code ncpu logmax rc = rc\<lparr>rc_Multicore := or_ptr DefaultReceiverMulticore (rc_Multicore rc),
            rc_NumEventLoop := or_pos (if DefaultReceiverNumEventLoop > ncpu then DefaultReceiverNumEventLoop else ncpu) (rc_NumEventLoop rc),
            rc_PayloadLogMaxBytes := or_pos logmax (rc_PayloadLogMaxBytes rc),
            rc_SocketRecvBuffer := or_pos DefaultReceiverSocketRecvBuffer (rc_SocketRecvBuffer rc)\<rparr>"

definition skydds_code :: "receiver_config \<Rightarrow> receiver_config" where
  "skydds_code rc = rc\<lparr>rc_WaitTimeout := or_str DefaultSkyDDSWaitTimeout (rc_WaitTimeout rc),
                  rc_DrainMaxItems := or_pos DefaultSkyDDSDrainMaxItems (rc_DrainMaxItems rc),
                  rc_DrainBufferBytes := or_pos DefaultSkyDDSDrainBufferBytes (rc_DrainBufferBytes rc)\<rparr>"

definition receiver_code :: "int \<Rightarrow> int \<Rightarrow> receiver_config \<Rightarrow> receiver_config" where
  "receiver_code ncpu logmax rc =
     (let rc1 = common_code ncpu logmax rc;
          rc2 = (if rc_Type rc1 = ''kafka'' then receiver_kafka_code rc1 else rc1)
      in if rc_Type rc2 = ''dds_skydds'' then skydds_code rc2 else rc2)"

definition receiver_defaults :: "business_receiver_defaults_config \<Rightarrow> int \<Rightarrow> int \<Rightarrow> receiver_config \<Rightarrow> receiver_config" where
  "receiver_defaults d ncpu logmax rc = receiver_code ncpu logmax (receiver_business d rc)"

definition sender_business :: "business_sender_defaults_config \<Rightarrow> sender_config \<Rightarrow> sender_config" where
  "sender_business d sc =
     (let sc1 = sc\<lparr>sc_Concurrency := fill_pos (bs_Concurrency d) (sc_Concurrency sc),
            sc_SocketSendBuffer := fill_pos (bs_SocketSendBuffer d) (sc_SocketSendBuffer sc)\<rparr>
      in if sc_Type sc1 = ''kafka''
         then sc1\<lparr>sc_DialTimeout := fill_str (bs_DialTimeout d) (sc_DialTimeout sc1),
            sc_RequestTimeout := fill_str (bs_RequestTimeout d) (sc_RequestTimeout sc1),
            sc_RetryTimeout := fill_str (bs_RetryTimeout d) (sc_RetryTimeout sc1),
            sc_RetryBackoff := fill_str (bs_RetryBackoff d) (sc_RetryBackoff sc1),
            sc_ConnIdleTimeout := fill_str (bs_ConnIdleTimeout d) (sc_ConnIdleTimeout sc1),
            sc_MetadataMaxAge := fill_str (bs_MetadataMaxAge d) (sc_MetadataMaxAge sc1),
            sc_Partitioner := fill_str (bs_Partitioner d) (sc_Partitioner sc1),
            sc_SendMode := fill_str (bs_SendMode d) (sc_SendMode sc1),
            sc_AsyncQueueSize := fill_pos (bs_AsyncQueueSize d) (sc_AsyncQueueSize sc1),
            sc_AsyncBackpressure := fill_str (bs_AsyncBackpressure d) (sc_AsyncBackpressure sc1),
            sc_CloseFlushTimeout := fill_str (bs_CloseFlushTimeout d) (sc_CloseFlushTimeout sc1)\<rparr>
         else sc1)"

definition sender_code :: "sender_config \<Rightarrow> sender_config" where
  "sender_code sc =
     (let sc1 = sc\<lparr>sc_Concurrency := or_pos DefaultSenderConcurrency (sc_Concurrency sc),
            sc_SocketSendBuffer := or_pos DefaultSenderSocketSendBuffer (sc_SocketSendBuffer sc)\<rparr>;
          sc2 = (if sc_Type sc1 = ''oss'' \<and> sc_PartSize sc1 \<le> 0 then sc1\<lparr>sc_PartSize := DefaultOSSPartSize\<rparr> else sc1)
      in if sc_Type sc2 = ''kafka''
         then sc2\<lparr>sc_DialTimeout := or_str DefaultKafkaDialTimeout (sc_DialTimeout sc2),
            sc_RequestTimeout := or_str DefaultKafkaSenderRequestTimeout (sc_RequestTimeout sc2),
            sc_RetryTimeout := or_str DefaultKafkaRetryTimeout (sc_RetryTimeout sc2),
            sc_RetryBackoff := or_str DefaultKafkaRetryBackoff (sc_RetryBackoff sc2),
            sc_ConnIdleTimeout := or_str DefaultKafkaConnIdleTimeout (sc_ConnIdleTimeout sc2),
            sc_MetadataMaxAge := or_str DefaultKafkaMetadataMaxAge (sc_MetadataMaxAge sc2),
            sc_Partitioner := or_str DefaultKafkaSenderPartitioner (sc_Partitioner sc2),
            sc_SendMode := or_str DefaultKafkaSenderSendMode (sc_SendMode sc2),
            sc_AsyncQueueSize := or_pos DefaultKafkaSenderAsyncQueueSize (sc_AsyncQueueSize sc2),
            sc_AsyncBackpressure := or_str DefaultKafkaSenderBackpressure (sc_AsyncBackpressure sc2),
            sc_CloseFlushTimeout := or_str DefaultKafkaSenderCloseFlushTTL (sc_CloseFlushTimeout sc2)\<rparr>
         else sc2)"

definition sender_defaults :: "business_sender_defaults_config \<Rightarrow> sender_config \<Rightarrow> sender_config" where
  "sender_defaults d sc = sender_code (sender_business d sc)"

definition applyBusinessDefaults :: "int \<Rightarrow> business_defaults_config \<Rightarrow> config \<Rightarrow> config" where
  "applyBusinessDefaults ncpu d c =
     (let logmax = lc_PayloadLogMaxBytes (cfg_Logging c) in
      c\<lparr>cfg_Tasks := map_values (task_defaults (bd_Task d) logmax) (cfg_Tasks c),
        cfg_Receivers := map_values (receiver_defaults (bd_Receiver d) ncpu logmax) (cfg_Receivers c),
        cfg_Senders := map_values (sender_defaults (bd_Sender d)) (cfg_Senders c)\<rparr>)"

definition ApplyDefaults :: "int \<Rightarrow> business_defaults_config \<Rightarrow> config \<Rightarrow> config" where
  "ApplyDefaults ncpu d c =
     (let (control, logging) = applySystemDefaults (cfg_Control c) (cfg_Logging c)
      in applyBusinessDefaults ncpu d (c\<lparr>cfg_Control := control, cfg_Logging := logging\<rparr>))"

definition SystemConfig_ApplyDefaults :: "system_config \<Rightarrow> system_config" where
  "SystemConfig_ApplyDefaults s =
     (let (control, logging) = applySystemDefaults (sys_Control s) (sys_Logging s)
      in s\<lparr>sys_Control := control, sys_Logging := logging\<rparr>)"

section \<open>Lemmas\<close>

lemma fill_idem [simp]:
  "or_pos d (or_pos d x) = or_pos d x" "or_str s (or_str s z) = or_str s z" "or_ptr b (or_ptr b y) = or_ptr b y"
  by (simp_all add: fill_defs)

lemma fill_after_or [simp]:
  "0 < c \<Longrightarrow> fill_pos d (or_pos c x) = or_pos c x" "s \<noteq> [] \<Longrightarrow> fill_str t (or_str s z) = or_str s z"
  "fill_ptr p (or_ptr b y) = or_ptr b y" "0 < c \<Longrightarrow> or_pos c (or_pos c x) = or_pos c x"
  by (auto simp: fill_defs)

lemma or_pos_positive [simp]: "0 < d \<Longrightarrow> 0 < or_pos d x"
  by (simp add: or_pos_def)

lemma or_str_nonempty [simp]: "s \<noteq> [] \<Longrightarrow> or_str s z \<noteq> []"
  by (simp add: or_str_def)

lemma map_values_comp: "map_values f (map_values g m) = map_values (f \<circ> g) m"
  by (cases m) (auto simp: map_values_def)

lemma map_values_cong: "(\<And>v. f v = g v) \<Longrightarrow> map_values f m = map_values g m"
  by (cases m) (auto simp: map_values_def)

lemma mget_map_values_opt: "mget (elems (map_values f m)) k = map_option f (mget (elems m) k)"
  by (cases m) (simp_all add: map_values_def mget_map_snd)

section \<open>Properties\<close>

lemma default_facts:
  "DefaultKafkaDialTimeout \<noteq> []" "DefaultKafkaSenderRequestTimeout \<noteq> []" "DefaultKafkaRetryTimeout \<noteq> []"
  "DefaultKafkaRetryBackoff \<noteq> []" "DefaultKafkaConnIdleTimeout \<noteq> []" "DefaultKafkaMetadataMaxAge \<noteq> []"
  "DefaultKafkaSenderPartitioner \<noteq> []" "DefaultKafkaSenderSendMode \<noteq> []" "DefaultKafkaSenderBackpressure \<noteq> []"
  "DefaultKafkaSenderCloseFlushTTL \<noteq> []" "DefaultKafkaReceiverSessionTTL \<noteq> []" "DefaultKafkaReceiverHeartbeat \<noteq> []"
  "DefaultKafkaReceiverRebalanceTTL \<noteq> []" "DefaultKafkaReceiverAutoCommitIv \<noteq> []" "DefaultKafkaIsolationLevel \<noteq> []"
  "DefaultSkyDDSWaitTimeout \<noteq> []" "copy_slice DefaultKafkaReceiverBalancers \<noteq> None"
  "0 < DefaultKafkaSenderAsyncQueueSize" "0 < DefaultSenderConcurrency" "0 < DefaultSenderSocketSendBuffer"
  "0 < DefaultOSSPartSize" "0 < DefaultKafkaFetchMaxPartBytes" "0 < DefaultSkyDDSDrainMaxItems" "0 < DefaultSkyDDSDrainBufferBytes"
  "0 < DefaultReceiverNumEventLoop" "0 < DefaultReceiverSocketRecvBuffer" "0 < DefaultTaskPoolSize"
  "0 < DefaultTaskChannelQueueSize" "0 < DefaultPayloadLogMaxBytes"
  by (simp_all add: config_constants copy_slice_def)

lemma task_defaults_idem: "0 < logmax \<Longrightarrow> task_defaults d logmax (task_defaults d logmax tc) = task_defaults d logmax tc"
  by (simp add: task_defaults_def default_facts) (auto simp: fill_defs)

lemma sender_kafka_filled:
  assumes "sc_Type sc = ''kafka''"
  shows "sender_business d (sender_code sc) = sender_code sc" "sender_code (sender_code sc) = sender_code sc"
  using assms by (cases sc; simp add: sender_business_def sender_code_def default_facts)+

lemma sender_business_plain:
  "sc_Type sc \<noteq> ''kafka'' \<Longrightarrow> sender_business d sc =
    sc\<lparr>sc_Concurrency := fill_pos (bs_Concurrency d) (sc_Concurrency sc), sc_SocketSendBuffer := fill_pos (bs_SocketSendBuffer d) (sc_SocketSendBuffer sc)\<rparr>"
  by (simp add: sender_business_def)

lemma sender_code_plain:
  assumes "sc_Type sc \<noteq> ''kafka''"
  shows "sender_code sc = sc\<lparr>sc_Concurrency := or_pos DefaultSenderConcurrency (sc_Concurrency sc),
    sc_SocketSendBuffer := or_pos DefaultSenderSocketSendBuffer (sc_SocketSendBuffer sc),
    sc_PartSize := (if sc_Type sc = ''oss'' then or_pos DefaultOSSPartSize (sc_PartSize sc) else sc_PartSize sc)\<rparr>"
  using assms by (cases sc) (simp add: sender_code_def or_pos_def del: list.inject)

lemma sender_plain_filled:
  assumes "sc_Type sc \<noteq> ''kafka''"
  shows "sender_business d (sender_code sc) = sender_code sc" "sender_code (sender_code sc) = sender_code sc"
  using assms by (cases sc; simp add: sender_business_plain sender_code_plain default_facts)+

lemma sender_defaults_idem: "sender_defaults d (sender_defaults d sc) = sender_defaults d sc"
  unfolding sender_defaults_def
  by (cases "sc_Type (sender_business d sc) = ''kafka''") (simp_all only: sender_kafka_filled sender_plain_filled not_False_eq_True)

text \<open>A receiver: the Kafka part, the SkyDDS part and the rest are filled on their own.\<close>

lemma receiver_kafka_filled:
  "receiver_kafka_business d (receiver_kafka_code rc) = receiver_kafka_code rc"
  "receiver_kafka_code (receiver_kafka_code rc) = receiver_kafka_code rc"
proof -
  let ?auto = "or_ptr DefaultKafkaReceiverAutoCommit (rc_AutoCommit rc)"
  obtain a where a: "?auto = Some a" by (cases "rc_AutoCommit rc") (auto simp: or_ptr_def)
  obtain b where b: "(if rc_Balancers rc = None then copy_slice DefaultKafkaReceiverBalancers else rc_Balancers rc) = Some b"
    using default_facts(17) by (cases "rc_Balancers rc") auto
  have k: "receiver_kafka_code rc = rc\<lparr>rc_DialTimeout := or_str DefaultKafkaDialTimeout (rc_DialTimeout rc),
            rc_ConnIdleTimeout := or_str DefaultKafkaConnIdleTimeout (rc_ConnIdleTimeout rc),
            rc_MetadataMaxAge := or_str DefaultKafkaMetadataMaxAge (rc_MetadataMaxAge rc),
            rc_RetryBackoff := or_str DefaultKafkaRetryBackoff (rc_RetryBackoff rc),
            rc_SessionTimeout := or_str DefaultKafkaReceiverSessionTTL (rc_SessionTimeout rc),
            rc_HeartbeatInterval := or_str DefaultKafkaReceiverHeartbeat (rc_HeartbeatInterval rc),
            rc_RebalanceTimeout := or_str DefaultKafkaReceiverRebalanceTTL (rc_RebalanceTimeout rc),
            rc_Balancers := Some b, rc_AutoCommit := Some a,
            rc_AutoCommitInterval := (if a then or_str DefaultKafkaReceiverAutoCommitIv (rc_AutoCommitInterval rc) else rc_AutoCommitInterval rc),
            rc_FetchMaxPartitionBytes := or_pos DefaultKafkaFetchMaxPartBytes (rc_FetchMaxPartitionBytes rc),
            rc_IsolationLevel := or_str DefaultKafkaIsolationLevel (rc_IsolationLevel rc)\<rparr>"
    using a b by (cases rc; cases "rc_Balancers rc")
      (simp_all add: receiver_kafka_code_def BoolValue_def or_str_def [of DefaultKafkaReceiverAutoCommitIv])
  show "receiver_kafka_business d (receiver_kafka_code rc) = receiver_kafka_code rc"
    unfolding k by (cases rc; cases a) (simp_all add: receiver_kafka_business_def BoolValue_def default_facts fill_ptr_def)
  show "receiver_kafka_code (receiver_kafka_code rc) = receiver_kafka_code rc"
    unfolding k by (cases rc; cases a) (simp_all add: receiver_kafka_code_def BoolValue_def default_facts or_ptr_def)
qed

lemma receiver_kafka_frame [simp]:
  "rc_Multicore (receiver_kafka_code rc) = rc_Multicore rc" "rc_NumEventLoop (receiver_kafka_code rc) = rc_NumEventLoop rc"
  "rc_PayloadLogMaxBytes (receiver_kafka_code rc) = rc_PayloadLogMaxBytes rc"
  "rc_SocketRecvBuffer (receiver_kafka_code rc) = rc_SocketRecvBuffer rc"
  by (simp_all add: receiver_kafka_code_def Let_def)

definition common_filled :: "int \<Rightarrow> int \<Rightarrow> receiver_config \<Rightarrow> bool" where
  "common_filled ncpu logmax rc \<longleftrightarrow> rc_Multicore rc \<noteq> None \<and> 0 < rc_NumEventLoop rc \<and> 0 < rc_PayloadLogMaxBytes rc \<and> 0 < rc_SocketRecvBuffer rc"

lemma filled_id:
  "0 < x \<Longrightarrow> fill_pos d x = x" "0 < x \<Longrightarrow> or_pos d x = x" "y \<noteq> None \<Longrightarrow> fill_ptr p y = y" "y \<noteq> None \<Longrightarrow> or_ptr b y = y"
  by (auto simp: fill_defs)

lemma common_filled_id:
  assumes "common_filled ncpu logmax rc"
  shows "common_code ncpu logmax rc = rc" "common_business d rc = rc"
  using assms by (simp_all add: common_filled_def common_code_def common_business_def filled_id)

lemma or_ptr_filled [simp]: "or_ptr b y \<noteq> None"
  by (cases y) (simp_all add: or_ptr_def)

lemma common_code_filled:
  assumes "0 < logmax"
  shows "common_filled ncpu logmax (common_code ncpu logmax rc)"
proof -
  have "0 < (if DefaultReceiverNumEventLoop > ncpu then DefaultReceiverNumEventLoop else ncpu)"
    using default_facts(25) by simp
  then show ?thesis using assms default_facts(26)
    by (cases rc) (simp add: common_filled_def common_code_def del: not_None_eq if_split)
qed

lemma receiver_type [simp]:
  "rc_Type (common_code ncpu logmax rc) = rc_Type rc" "rc_Type (skydds_code rc) = rc_Type rc"
  "rc_Type (common_business d rc) = rc_Type rc" "rc_Type (skydds_business d rc) = rc_Type rc"
  "rc_Type (receiver_kafka_business d rc) = rc_Type rc" "rc_Type (receiver_kafka_code rc) = rc_Type rc"
  by (simp_all add: common_code_def skydds_code_def common_business_def skydds_business_def receiver_kafka_business_def
    receiver_kafka_code_def Let_def)

lemma receiver_kafka_split:
  assumes "rc_Type rc = ''kafka''"
  shows "receiver_code ncpu logmax rc = receiver_kafka_code (common_code ncpu logmax rc)"
    "receiver_business d rc = receiver_kafka_business d (common_business d rc)"
  using assms by (simp_all add: receiver_code_def receiver_business_def)

lemma receiver_skydds_split:
  assumes "rc_Type rc = ''dds_skydds''"
  shows "receiver_code ncpu logmax rc = skydds_code (common_code ncpu logmax rc)"
    "receiver_business d rc = skydds_business d (common_business d rc)"
  using assms by (simp_all add: receiver_code_def receiver_business_def)

lemma receiver_other_split:
  assumes "rc_Type rc \<noteq> ''kafka''" "rc_Type rc \<noteq> ''dds_skydds''"
  shows "receiver_code ncpu logmax rc = common_code ncpu logmax rc"
    "receiver_business d rc = common_business d rc"
  using assms by (simp_all add: receiver_code_def receiver_business_def)

lemma skydds_filled: "skydds_business d (skydds_code rc) = skydds_code rc" "skydds_code (skydds_code rc) = skydds_code rc"
  by (cases rc; simp add: skydds_business_def skydds_code_def default_facts)+

lemma filled_kept:
  "common_filled ncpu logmax (receiver_kafka_code rc) = common_filled ncpu logmax rc"
  "common_filled ncpu logmax (skydds_code rc) = common_filled ncpu logmax rc"
  by (cases rc; simp add: common_filled_def skydds_code_def)+

lemma receiver_code_fixed:
  assumes "0 < logmax"
  shows "receiver_business d (receiver_code ncpu logmax rc) = receiver_code ncpu logmax rc \<and>
    receiver_code ncpu logmax (receiver_code ncpu logmax rc) = receiver_code ncpu logmax rc"
proof -
  note f = common_code_filled [OF assms, of ncpu rc]
  consider (kafka) "rc_Type rc = ''kafka''" | (sky) "rc_Type rc = ''dds_skydds''" | (other) "rc_Type rc \<noteq> ''kafka''" "rc_Type rc \<noteq> ''dds_skydds''"
    by blast
  then show ?thesis
  proof cases
    case kafka
    let ?r = "receiver_kafka_code (common_code ncpu logmax rc)"
    have "common_filled ncpu logmax ?r" "rc_Type ?r = ''kafka''" using f kafka by (simp_all only: filled_kept receiver_type)
    then show ?thesis
      by (simp only: receiver_kafka_split [OF kafka] receiver_kafka_split [of ?r] common_filled_id receiver_kafka_filled simp_thms)
  next
    case sky
    let ?r = "skydds_code (common_code ncpu logmax rc)"
    have "common_filled ncpu logmax ?r" "rc_Type ?r = ''dds_skydds''" using f sky by (simp_all only: filled_kept receiver_type)
    then show ?thesis
      by (simp only: receiver_skydds_split [OF sky] receiver_skydds_split [of ?r] common_filled_id skydds_filled simp_thms)
  next
    case other
    have "rc_Type (common_code ncpu logmax rc) \<noteq> ''kafka''" "rc_Type (common_code ncpu logmax rc) \<noteq> ''dds_skydds''"
      using other by (simp_all only: receiver_type not_False_eq_True)
    then show ?thesis
      by (simp only: receiver_other_split [OF other] receiver_other_split [of "common_code ncpu logmax rc"] common_filled_id [OF f] simp_thms)
  qed
qed

lemma receiver_defaults_idem:
  "0 < logmax \<Longrightarrow> receiver_defaults d ncpu logmax (receiver_defaults d ncpu logmax rc) = receiver_defaults d ncpu logmax rc"
  unfolding receiver_defaults_def by (simp only: receiver_code_fixed simp_thms)

lemma control_defaults_idem: "control_defaults (control_defaults c) = control_defaults c"
  by (cases c) (simp add: control_defaults_def config_constants fill_defs)

lemma logging_defaults_idem: "logging_defaults (logging_defaults l) = logging_defaults l"
  by (cases l) (simp add: logging_defaults_def)

lemma logging_defaults_max [simp]: "0 < lc_PayloadLogMaxBytes (logging_defaults l)"
  by (simp add: logging_defaults_def default_facts)

text \<open>filling the defaults is idempotent: a configuration that went through \<open>ApplyDefaults\<close> is not changed by
  going through it again with the same business defaults, so loading a configuration twice never looks
  like a change to the runtime.\<close>

theorem defaults_idempotent: "ApplyDefaults ncpu d (ApplyDefaults ncpu d c) = ApplyDefaults ncpu d c"
proof -
  let ?l = "logging_defaults (cfg_Logging c)"
  have "map_values (task_defaults (bd_Task d) (lc_PayloadLogMaxBytes ?l)) (map_values (task_defaults (bd_Task d) (lc_PayloadLogMaxBytes ?l)) m) =
      map_values (task_defaults (bd_Task d) (lc_PayloadLogMaxBytes ?l)) m" for m
    unfolding map_values_comp by (rule map_values_cong) (simp add: task_defaults_idem)
  moreover have "map_values (receiver_defaults (bd_Receiver d) ncpu (lc_PayloadLogMaxBytes ?l))
      (map_values (receiver_defaults (bd_Receiver d) ncpu (lc_PayloadLogMaxBytes ?l)) m) =
      map_values (receiver_defaults (bd_Receiver d) ncpu (lc_PayloadLogMaxBytes ?l)) m" for m
    unfolding map_values_comp by (rule map_values_cong) (simp add: receiver_defaults_idem)
  moreover have "map_values (sender_defaults (bd_Sender d)) (map_values (sender_defaults (bd_Sender d)) m) =
      map_values (sender_defaults (bd_Sender d)) m" for m
    unfolding map_values_comp by (rule map_values_cong) (simp add: sender_defaults_idem)
  ultimately show ?thesis
    by (simp add: ApplyDefaults_def applyBusinessDefaults_def applySystemDefaults_def Let_def control_defaults_idem logging_defaults_idem)
qed

text \<open>Which of the three values wins.\<close>

definition precede :: "int \<Rightarrow> int \<Rightarrow> int \<Rightarrow> int" where
  "precede explicit business code = (if 0 < explicit then explicit else if 0 < business then business else code)"

lemma precede_fill: "or_pos code (fill_pos business x) = precede x business code"
  by (simp add: fill_defs precede_def)

lemma ApplyDefaults_parts:
  "mget (elems (cfg_Tasks (ApplyDefaults ncpu d c))) n =
    map_option (task_defaults (bd_Task d) (lc_PayloadLogMaxBytes (logging_defaults (cfg_Logging c)))) (mget (elems (cfg_Tasks c)) n)"
  "mget (elems (cfg_Senders (ApplyDefaults ncpu d c))) n = map_option (sender_defaults (bd_Sender d)) (mget (elems (cfg_Senders c)) n)"
  "mget (elems (cfg_Receivers (ApplyDefaults ncpu d c))) n =
    map_option (receiver_defaults (bd_Receiver d) ncpu (lc_PayloadLogMaxBytes (logging_defaults (cfg_Logging c)))) (mget (elems (cfg_Receivers c)) n)"
  by (simp_all add: ApplyDefaults_def applyBusinessDefaults_def applySystemDefaults_def Let_def mget_map_values_opt)

text \<open>An explicit value wins over the business default, which wins over the code's constant, for every
  numeric field of a task; the execution model has no constant; what a task refers to is untouched; and
  no task, sender or receiver appears or disappears.\<close>

theorem defaults_precedence:
  assumes "mget (elems (cfg_Tasks c)) n = Some tc"
  shows "(case mget (elems (cfg_Tasks (ApplyDefaults ncpu d c))) n of None \<Rightarrow> False | Some tc' \<Rightarrow>
      tc_PoolSize tc' = precede (tc_PoolSize tc) (bt_PoolSize (bd_Task d)) 4096 \<and>
      tc_ChannelQueueSize tc' = precede (tc_ChannelQueueSize tc) (bt_ChannelQueueSize (bd_Task d)) 8192 \<and>
      tc_PayloadLogMaxBytes tc' = precede (tc_PayloadLogMaxBytes tc) (bt_PayloadLogMaxBytes (bd_Task d))
        (precede (lc_PayloadLogMaxBytes (cfg_Logging c)) 0 DefaultPayloadLogMaxBytes) \<and>
      tc_ExecutionModel tc' = (if tc_ExecutionModel tc = [] then bt_ExecutionModel (bd_Task d) else tc_ExecutionModel tc) \<and>
      tc_Pipelines tc' = tc_Pipelines tc \<and> tc_Senders tc' = tc_Senders tc \<and> tc_LogPayloadSend tc' = tc_LogPayloadSend tc) \<and>
    mhas (elems (cfg_Senders (ApplyDefaults ncpu d c))) k = mhas (elems (cfg_Senders c)) k \<and>
    mhas (elems (cfg_Receivers (ApplyDefaults ncpu d c))) k = mhas (elems (cfg_Receivers c)) k"
proof -
  have l: "lc_PayloadLogMaxBytes (logging_defaults l) = precede (lc_PayloadLogMaxBytes l) 0 DefaultPayloadLogMaxBytes" for l
    by (simp add: logging_defaults_def or_pos_def precede_def)
  have t: "DefaultTaskPoolSize = 4096" "DefaultTaskChannelQueueSize = 8192" by (simp_all add: config_constants)
  show ?thesis using assms
    by (simp add: ApplyDefaults_parts task_defaults_def precede_fill l t mhas_def) (simp add: fill_str_def)
qed

theorem defaults_precedence_witness:
  "map_option tc_PoolSize (mget (elems (cfg_Tasks (ApplyDefaults 8 zero_business_defaults_config
     (zero_config\<lparr>cfg_Tasks := Some [(''t'', zero_task_config)]\<rparr>)))) ''t'') = Some 4096"
proof -
  let ?c = "zero_config\<lparr>cfg_Tasks := Some [(''t'', zero_task_config)]\<rparr>"
  have t: "mget (elems (cfg_Tasks ?c)) ''t'' = Some zero_task_config" by simp
  have z: "precede (tc_PoolSize zero_task_config) (bt_PoolSize (bd_Task zero_business_defaults_config)) 4096 = 4096"
    by (simp add: precede_def zero_task_config_def zero_business_defaults_config_def zero_business_task_defaults_config_def)
  show ?thesis
    using conjunct1 [OF defaults_precedence [OF t, where ncpu = 8 and d = zero_business_defaults_config]] unfolding z
    by (cases "mget (elems (cfg_Tasks (ApplyDefaults 8 zero_business_defaults_config ?c))) ''t''") simp_all
qed

end
