(* ===== verification/ValidateProps.thy ===== *)
theory ValidateProps
  imports ValidateEnds Compiler Defaults
begin

text \<open>
  What a configuration that \<open>Validate\<close> accepts guarantees: every name in it resolves, the senders its routes
  name are senders of the task, and every stage compiles. \<open>ValidReload\<close> and \<open>RouteSafety\<close> build on this.
\<close>

section \<open>Lists of checks\<close>

lemma first_err_Cons_None: "first_err (a # as) = None \<longleftrightarrow> a = None \<and> first_err as = None"
  by (cases a) auto

lemma first_err_append_None: "first_err (as @ bs) = None \<longleftrightarrow> first_err as = None \<and> first_err bs = None"
  by auto

lemma first_err_map_None: "first_err (map f xs) = None \<longleftrightarrow> (\<forall>x \<in> set xs. f x = None)"
  by auto

lemmas first_err_steps = first_err_Cons_None first_err_append_None first_err_map_None first_err.simps(1) fail_if_None

lemma first_err_all [valid_iff]: "first_err (map f xs) = None \<longleftrightarrow> list_all (\<lambda>x. f x = None) xs"
  by (auto simp: list_all_iff)

lemma validate_mget:
  assumes "first_err (map f (elems m)) = None" "mget (elems m) k = Some v"
  shows "f (k, v) = None"
  using assms map_of_SomeD [OF assms(2)] by (auto simp: first_err_all list_all_iff)

lemma validate_stages_ok: "validate_stages rx pn i scs = None \<Longrightarrow> sc \<in> set scs \<Longrightarrow> \<exists>j. validateStageConfig rx pn j sc = None"
proof (induction rx pn i scs rule: validate_stages.induct)
  case (2 rx pn i s scs)
  then show ?case by (cases "validateStageConfig rx pn i s") auto
qed simp

lemma ValidateConfig_parts:
  assumes "ValidateConfig rx ip c = None"
  shows "first_err (map (validate_pipeline rx) (elems (cfg_Pipelines c))) = None"
    "first_err (map (validate_task c) (elems (cfg_Tasks c))) = None"
    "first_err (map (validate_task_set c) (elems (cfg_TaskSets c))) = None"
    "first_err (map (validate_selector c) (elems (cfg_Selectors c))) = None"
    "first_err (map (validate_receiver c) (elems (cfg_Receivers c))) = None"
    "first_err (map (validate_sender ip) (elems (cfg_Senders c))) = None"
    "elems (cfg_Tasks c) \<noteq> []"
  using assms unfolding ValidateConfig_def first_err_None by simp_all

section \<open>Every name resolves\<close>

definition task_resolves :: "config \<Rightarrow> task_config \<Rightarrow> bool" where
  "task_resolves c t \<longleftrightarrow>
     elems (tc_Senders t) \<noteq> [] \<and>
     list_all (mhas (elems (cfg_Pipelines c))) (elems (tc_Pipelines t)) \<and>
     list_all (mhas (elems (cfg_Senders c))) (elems (tc_Senders t))"

definition selector_resolves :: "config \<Rightarrow> selector_config \<Rightarrow> bool" where
  "selector_resolves c s \<longleftrightarrow>
     list_all (\<lambda>m. mhas (elems (cfg_TaskSets c)) (snd m)) (elems (se_Matches s)) \<and>
     (se_DefaultTaskSet s = [] \<or> mhas (elems (cfg_TaskSets c)) (se_DefaultTaskSet s))"

definition resolved :: "config \<Rightarrow> bool" where
  "resolved c \<longleftrightarrow>
     list_all (\<lambda>t. task_resolves c (snd t)) (elems (cfg_Tasks c)) \<and>
     list_all (\<lambda>s. elems (snd s) \<noteq> [] \<and> list_all (mhas (elems (cfg_Tasks c))) (elems (snd s))) (elems (cfg_TaskSets c)) \<and>
     list_all (\<lambda>s. selector_resolves c (snd s)) (elems (cfg_Selectors c)) \<and>
     list_all (\<lambda>r. mhas (elems (cfg_Selectors c)) (rc_Selector (snd r))) (elems (cfg_Receivers c))"

text \<open>The senders that the routing stages of a task's pipelines can name are senders of the task.\<close>

definition routes_stay :: "config \<Rightarrow> task_config \<Rightarrow> bool" where
  "routes_stay c t \<longleftrightarrow>
     list_all (\<lambda>pn. list_all (\<lambda>sc. st_Type sc = ''route_offset_bytes_sender'' \<longrightarrow>
         list_all (\<lambda>h. snd h = [] \<or> snd h \<in> set (elems (tc_Senders t))) (elems (st_Cases sc)) \<and>
         (st_DefaultSender sc = [] \<or> st_DefaultSender sc \<in> set (elems (tc_Senders t))))
       (case mget (elems (cfg_Pipelines c)) pn of None \<Rightarrow> [] | Some stages \<Rightarrow> elems stages)) (elems (tc_Pipelines t))"

lemma set_case_targets: "set (case_targets cs ts) = set ts \<union> {snd h | h. h \<in> set cs \<and> snd h \<noteq> []}"
  by (induction cs ts rule: case_targets.induct) auto

lemma set_routeStageTargets:
  "set (routeStageTargets sc) = {snd h | h. h \<in> set (elems (st_Cases sc)) \<and> snd h \<noteq> []} \<union> ({st_DefaultSender sc} - {[]})"
  by (auto simp: routeStageTargets_def Let_def set_case_targets)

lemma validate_task_parts:
  assumes "validate_task c (tn, t) = None"
  shows "elems (tc_Senders t) \<noteq> []"
    "\<forall>pn \<in> set (elems (tc_Pipelines t)). mhas (elems (cfg_Pipelines c)) pn"
    "\<forall>sn \<in> set (elems (tc_Senders t)). mhas (elems (cfg_Senders c)) sn"
    "\<forall>pn \<in> set (elems (tc_Pipelines t)). validate_task_routes c tn t pn = None"
  using assms unfolding validate_task_def Let_def fst_conv snd_conv first_err_steps not_not
  by blast+

lemma validate_task_resolves:
  assumes "validate_task c (tn, t) = None"
  shows "task_resolves c t \<and> routes_stay c t"
proof
  show "task_resolves c t"
    unfolding task_resolves_def list_all_iff using validate_task_parts [OF assms] by (intro conjI)
  show "routes_stay c t"
    unfolding routes_stay_def list_all_iff
    using validate_task_parts(4) [OF assms]
    by (fastforce simp: validate_task_routes_def set_routeStageTargets)
qed

lemma validate_task_set_resolves:
  assumes "validate_task_set c (n, s) = None"
  shows "elems s \<noteq> [] \<and> list_all (mhas (elems (cfg_Tasks c))) (elems s)"
  using assms unfolding validate_task_set_def Let_def list_all_iff first_err_steps by simp

lemma validate_selector_resolves:
  assumes "validate_selector c (n, s) = None"
  shows "selector_resolves c s"
  using assms unfolding validate_selector_def Let_def list_all_iff selector_resolves_def first_err_steps by (auto simp: split_beta)

lemma validate_receiver_resolves:
  "validate_receiver c (n, r) = None \<Longrightarrow> mhas (elems (cfg_Selectors c)) (rc_Selector r)"
  by (simp add: validate_receiver_def Let_def)

text \<open>A configuration that \<open>Validate\<close> accepts has no dangling name: every task's pipelines and senders,
  every task set's tasks, every selector's task sets and every receiver's selector exist; no task and
  no task set is empty; and every sender a routing stage can choose is one of the senders of each task that
  runs the stage.\<close>

theorem validated_config_resolves:
  assumes "ValidateConfig rx ip c = None"
  shows "resolved c \<and> list_all (\<lambda>t. routes_stay c (snd t)) (elems (cfg_Tasks c))"
  using ValidateConfig_parts [OF assms] validate_task_resolves validate_task_set_resolves
    validate_selector_resolves validate_receiver_resolves
  unfolding resolved_def first_err_all list_all_iff by (metis prod.collapse)

definition valid_sample :: config where
  "valid_sample = zero_config\<lparr>
     cfg_Receivers := Some [(''r'', zero_receiver_config\<lparr>rc_Type := ''udp_gnet'', rc_Listen := ''udp://0.0.0.0:9000'', rc_Selector := ''s''\<rparr>)],
     cfg_Selectors := Some [(''s'', \<lparr>se_Matches = Some [(''k'', ''ts'')], se_DefaultTaskSet = []\<rparr>)],
     cfg_TaskSets := Some [(''ts'', Some [''t''])],
     cfg_Senders := Some [(''o'', zero_sender_config\<lparr>sc_Type := ''udp_unicast'', sc_Remote := ''10.0.0.2:9001'', sc_LocalPort := 9002\<rparr>)],
     cfg_Pipelines := Some [(''p'', Some [zero_stage_config\<lparr>st_Type := ''route_offset_bytes_sender'',
        st_Cases := Some [(''0a'', ''o''), (''0b'', ''o'')], st_DefaultSender := ''o''\<rparr>])],
     cfg_Tasks := Some [(''t'', zero_task_config\<lparr>tc_Pipelines := Some [''p''], tc_Senders := Some [''o'']\<rparr>)]\<rparr>"

lemma valid_sample_valid: "ValidateConfig (\<lambda>_. Inl (Errorf [] [])) (\<lambda>_. True) valid_sample = None"
  by code_simp

theorem validated_config_resolves_witness:
  "resolved valid_sample \<and> routes_stay valid_sample (zero_task_config\<lparr>tc_Pipelines := Some [''p''], tc_Senders := Some [''o'']\<rparr>)"
proof -
  have "elems (cfg_Tasks valid_sample) = [(''t'', zero_task_config\<lparr>tc_Pipelines := Some [''p''], tc_Senders := Some [''o'']\<rparr>)]"
    by (simp add: valid_sample_def)
  then show ?thesis using validated_config_resolves [OF valid_sample_valid] by simp
qed

section \<open>Every stage compiles\<close>

lemma validate_cases_compile:
  assumes "validate_cases pre keyLen cs = None"
  shows "\<forall>h \<in> set cs. (\<exists>v. hex_decode (fst h) = Inr v \<and> v \<noteq> [] \<and>
      int (length v) = (if 0 \<le> keyLen then keyLen else int (length (projr (hex_decode (fst (hd cs))))))) \<and> \<not> blank (snd h)"
  using assms
proof (induction pre keyLen cs rule: validate_cases.induct)
  case (2 pre keyLen hk sn cs)
  then obtain v where v: "hex_decode hk = Inr v" "v \<noteq> []" "0 \<le> keyLen \<longrightarrow> int (length v) = keyLen" "\<not> blank sn"
    and r: "validate_cases pre (if keyLen < 0 then int (length v) else keyLen) cs = None"
    by (auto split: sum.splits if_splits)
  have "\<forall>h \<in> set cs. (\<exists>w. hex_decode (fst h) = Inr w \<and> w \<noteq> [] \<and>
      int (length w) = (if keyLen < 0 then int (length v) else keyLen)) \<and> \<not> blank (snd h)"
    using "2.IH" [OF v(1) v(2)] v(3,4) r by auto
  then show ?case using v by auto
qed simp

lemma compile_routes_ok:
  assumes "\<forall>k \<in> set ks. \<exists>v. hex_decode k = Inr v \<and> v \<noteq> [] \<and> int (length v) = n" "keyLen < 0 \<or> keyLen = n"
    "\<forall>k \<in> set ks. \<exists>sn. mget cs k = Some sn \<and> sn \<noteq> []" "0 \<le> n"
  shows "\<exists>r. compile_routes cs ks keyLen routes = Inr r"
  using assms
proof (induction ks arbitrary: keyLen routes)
  case (Cons k ks)
  obtain v where v: "hex_decode k = Inr v" "v \<noteq> []" "int (length v) = n" using Cons.prems(1) by auto
  obtain sn where sn: "mget cs k = Some sn" "sn \<noteq> []" using Cons.prems(3) by auto
  let ?kl = "if keyLen < 0 then int (length v) else keyLen"
  have "\<exists>r. compile_routes cs ks ?kl (mset_at (str_of_bytes v) sn routes) = Inr r"
    by (rule Cons.IH) (use Cons.prems v in auto)
  then show ?case using v sn Cons.prems(2,4) by (auto simp: Let_def)
qed simp

lemma not_blank: "\<not> blank s \<Longrightarrow> s \<noteq> []"
  by (auto simp: blank_def)

lemma route_stage_compiles:
  assumes "validate_cases pre (- 1) (elems (st_Cases sc)) = None" "elems (st_Cases sc) \<noteq> []" "wf_map (elems (st_Cases sc))"
  shows "\<exists>r. compile_routes (elems (st_Cases sc)) (sort (mkeys (elems (st_Cases sc)))) (- 1) [] = Inr r"
proof (rule compile_routes_ok)
  let ?cs = "elems (st_Cases sc)"
  note v = validate_cases_compile [OF assms(1)]
  show "\<forall>k \<in> set (sort (mkeys ?cs)). \<exists>v. hex_decode k = Inr v \<and> v \<noteq> [] \<and>
      int (length v) = int (length (projr (hex_decode (fst (hd ?cs)))))" using v by fastforce
  show "\<forall>k \<in> set (sort (mkeys ?cs)). \<exists>sn. mget ?cs k = Some sn \<and> sn \<noteq> []"
  proof
    fix k assume "k \<in> set (sort (mkeys ?cs))"
    then obtain sn where sn: "(k, sn) \<in> set ?cs" by auto
    then have "mget ?cs k = Some sn" using assms(3) by (simp add: wf_map_def)
    moreover have "sn \<noteq> []" using v sn not_blank by fastforce
    ultimately show "\<exists>sn. mget ?cs k = Some sn \<and> sn \<noteq> []" by blast
  qed
qed simp_all

lemma validated_route_compiles:
  assumes "validateStageConfig rx pn i sc = None" "wf_map (elems (st_Cases sc))" "st_Type sc = ''route_offset_bytes_sender''"
  shows "\<exists>f. compileStage rx sc = Inr f"
proof -
  have v: "validate_cases (stage_prefix pn i sc) (- 1) (elems (st_Cases sc)) = None" "elems (st_Cases sc) \<noteq> []" "\<not> st_Offset sc < 0"
    using assms(1) unfolding validateStageConfig_def Let_def assms(3) by (simp_all add: first_err_steps)
  then obtain r where "compile_routes (elems (st_Cases sc)) (sort (mkeys (elems (st_Cases sc)))) (- 1) [] = Inr r"
    using route_stage_compiles assms(2) by blast
  then show ?thesis using v by (simp add: compileStage_def assms(3) split: prod.splits)
qed

lemma validated_type:
  assumes "validateStageConfig rx pn i sc = None"
  shows "st_Type sc = ''match_offset_bytes'' \<or> st_Type sc = ''replace_offset_bytes'' \<or> st_Type sc = ''route_offset_bytes_sender'' \<or>
    st_Type sc = ''set_kafka_record_key_from_offset_bytes'' \<or> st_Type sc = ''set_target_file_path'' \<or>
    st_Type sc = ''rewrite_target_path_strip_prefix'' \<or> st_Type sc = ''rewrite_target_path_add_prefix'' \<or>
    st_Type sc = ''rewrite_target_filename_replace'' \<or> st_Type sc = ''rewrite_target_path_regex'' \<or>
    st_Type sc = ''rewrite_target_filename_regex''"
proof (rule ccontr)
  assume n: "\<not> ?thesis"
  have "st_Type sc \<notin> set [''match_offset_bytes'', ''replace_offset_bytes'']"
    "st_Type sc \<notin> set [''rewrite_target_path_strip_prefix'', ''rewrite_target_path_add_prefix'']"
    "st_Type sc \<notin> set [''rewrite_target_path_regex'', ''rewrite_target_filename_regex'']"
    using n by (simp_all only: list.set insert_iff empty_iff de_Morgan_disj simp_thms)
  then show False
    using assms n unfolding validateStageConfig_def Let_def
    by (simp only: if_False de_Morgan_disj simp_thms option.distinct)
qed

lemma validated_stage_compiles:
  assumes "validateStageConfig rx pn i sc = None" "wf_map (elems (st_Cases sc))"
  shows "\<exists>f. compileStage rx sc = Inr f"
proof -
  note a = assms(1) [unfolded validateStageConfig_def Let_def]
  note c = compileStage_def not_blank
  show ?thesis
    using validated_type [OF assms(1)]
    apply (elim disjE)
    subgoal using a by (simp add: c first_err_steps split: sum.splits)
    subgoal using a by (simp add: c first_err_steps split: sum.splits)
    subgoal by (rule validated_route_compiles [OF assms])
    subgoal using a by (simp add: c first_err_steps Let_def)
    subgoal using a by (simp add: c)
    subgoal using a by (simp add: c)
    subgoal using a by (simp add: c)
    subgoal using a by (simp add: c)
    subgoal using a by (simp add: c split: sum.splits)
    subgoal using a by (simp add: c split: sum.splits)
    done
qed

definition stages_of :: "config \<Rightarrow> stage_config list" where
  "stages_of c = concat (map (\<lambda>p. elems (snd p)) (elems (cfg_Pipelines c)))"

lemma validated_stages_compile:
  assumes "ValidateConfig rx ip c = None" "list_all (\<lambda>sc. wf_map (elems (st_Cases sc))) (stages_of c)" "sc \<in> set (stages_of c)"
  shows "\<exists>f. compileStage rx sc = Inr f"
proof -
  obtain pn stages where p: "(pn, stages) \<in> set (elems (cfg_Pipelines c))" "sc \<in> set (elems stages)"
    using assms(3) by (auto simp: stages_of_def)
  have "validate_pipeline rx (pn, stages) = None"
    using ValidateConfig_parts(1) [OF assms(1)] p(1) by (auto simp: first_err_all list_all_iff)
  then have "validate_stages rx pn 0 (elems stages) = None"
    by (simp add: validate_pipeline_def)
  then obtain j where "validateStageConfig rx pn j sc = None"
    using validate_stages_ok p(2) by blast
  then show ?thesis using validated_stage_compiles assms(2,3) by (auto simp: list_all_iff)
qed

end
