(* ===== verification/Progress.thy ===== *)
theory Progress
  imports ValidateProps ReloadProps
begin

text \<open>
  \<open>src/src/config/validate.go\<close> against \<open>src/src/runtime\<close>: \<open>UpdateCache\<close> cannot fail on a configuration that
  \<open>Validate\<close> accepts, except by what the outside refuses (a sender, a receiver, a goroutine pool). Each lemma
  says of one operation when it returns without error; \<open>Coherent\<close> and \<open>Reload\<close> say what the state is then.
\<close>

section \<open>What the outside must grant\<close>

text \<open>A goroutine pool, \<open>json.Marshal\<close>; and that the constructors of the senders and receivers of \<open>c\<close> succeed.\<close>

definition env_serves :: "env \<Rightarrow> bool" where
  "env_serves env \<longleftrightarrow> (\<forall>k. env_newpool env k = None) \<and> (\<forall>sc. \<exists>s. env_marshal env sc = Inr s)"

definition env_builds :: "env \<Rightarrow> config \<Rightarrow> bool" where
  "env_builds env c \<longleftrightarrow> (\<forall>(n, sc) \<in> set (elems (cfg_Senders c)). env_new_sender env n sc = None) \<and>
     (\<forall>(n, rc) \<in> set (elems (cfg_Receivers c)). env_new_receiver env n rc = None)"

section \<open>Builders\<close>

definition builds_senders :: "env \<Rightarrow> sender_config gomap \<Rightarrow> bool" where
  "builds_senders env m \<longleftrightarrow> (\<forall>(n, c) \<in> set m. \<forall>st. \<exists>i st'. buildSender env n c st = (Inr i, st'))"

definition builds_receivers :: "env \<Rightarrow> receiver_config gomap \<Rightarrow> bool" where
  "builds_receivers env m \<longleftrightarrow> (\<forall>(n, c) \<in> set m. \<forall>st. \<exists>i st'. buildReceiver env n c st = (Inr i, st'))"

lemma builds_Cons:
  "builds_senders env ((n, c) # m) \<longleftrightarrow> (\<forall>st. \<exists>i st'. buildSender env n c st = (Inr i, st')) \<and> builds_senders env m"
  "builds_receivers env ((n, r) # ms) \<longleftrightarrow> (\<forall>st. \<exists>i st'. buildReceiver env n r st = (Inr i, st')) \<and> builds_receivers env ms"
  by (simp_all add: builds_senders_def builds_receivers_def)

lemma build_senders_ok: "builds_senders env m \<Longrightarrow> \<exists>built st'. build_senders env m old acc st = (Inr built, st')"
proof (induction m arbitrary: acc st)
  case (Cons e m)
  obtain n c where e: "e = (n, c)" by (cases e)
  obtain i st' where b: "buildSender env n c st = (Inr i, st')" using Cons.prems unfolding e builds_Cons by blast
  have r: "\<exists>built st2. build_senders env m old acc' st1 = (Inr built, st2)" for acc' st1
    using Cons.IH Cons.prems unfolding e builds_Cons by blast
  show ?case using b r by (cases "mget old n") (simp_all add: e)
qed simp

lemma applySenderDelta_ok: "builds_senders env m \<Longrightarrow> \<exists>closers st'. applySenderDelta env m st = (Inr closers, st')"
  using build_senders_ok [of env m "st_senders st" "[]" st] by (auto simp: applySenderDelta_def Let_def)

lemma replace_senders_ok: "builds_senders env m \<Longrightarrow> \<exists>st'. replace_senders env m st = (None, st')"
proof (induction m arbitrary: st)
  case (Cons e m)
  obtain n c where e: "e = (n, c)" by (cases e)
  obtain i st' where "buildSender env n c st = (Inr i, st')" using Cons.prems unfolding e builds_Cons by blast
  then show ?case using Cons.IH Cons.prems e by (simp add: builds_Cons)
qed simp

lemma prepare_ok: "builds_receivers env m \<Longrightarrow> \<exists>built st'. prepareReceiverDelta env m st = (Inr built, st')"
proof (induction m arbitrary: st)
  case (Cons e m)
  obtain n c where e: "e = (n, c)" by (cases e)
  obtain i st1 where b: "buildReceiver env n c st = (Inr i, st1)" using Cons.prems unfolding e builds_Cons by blast
  have r: "builds_receivers env m" using Cons.prems e by (simp add: builds_Cons)
  show ?case using Cons.IH [OF r, of st] Cons.IH [OF r, of st1] b e by auto
qed simp

lemma replace_receivers_ok: "builds_receivers env m \<Longrightarrow> \<exists>out st'. replace_receivers env m lc acc st = (Inr out, st')"
proof (induction m arbitrary: st acc)
  case (Cons e m)
  obtain n c where e: "e = (n, c)" by (cases e)
  obtain i st1 where b: "buildReceiver env n c st = (Inr i, st1)" using Cons.prems unfolding e builds_Cons by blast
  then show ?case using Cons.IH Cons.prems e by (simp add: builds_Cons Let_def)
qed simp

lemma cache_stages_ok:
  assumes "\<forall>sc \<in> set scs. \<exists>f. compileStage (env_regexp env) sc = Inr f" "env_serves env"
  shows "\<exists>out cache' created'. cache_stages env name scs cache created = (Inr out, cache', created')"
  using assms(1)
proof (induction scs arbitrary: cache created)
  case (Cons sc scs)
  obtain s where s: "env_marshal env sc = Inr s" using assms(2) unfolding env_serves_def by blast
  obtain f where f: "compileStage (env_regexp env) sc = Inr f" using Cons.prems by auto
  have r: "\<exists>fns sigs cache' created'. cache_stages env name scs c d = (Inr (fns, sigs), cache', created')" for c d
    using Cons.IH [of c d] Cons.prems by auto
  show ?case
  proof (cases "mget cache s")
    case None
    then show ?thesis
      using r [of "mset_at s \<lparr>ce_Sig = s, ce_Fn = f, ce_TaskRefs = 0, ce_Tasks = []\<rparr> cache" "created @ [s]"] s f
      by (auto simp: stageSignature_def)
  next
    case (Some e)
    then show ?thesis using r [of cache created] s by (auto simp: stageSignature_def)
  qed
qed simp

lemma cache_pipelines_ok:
  assumes "\<forall>p \<in> set m. \<forall>sc \<in> set (elems (snd p)). \<exists>f. compileStage (env_regexp env) sc = Inr f" "env_serves env"
  shows "\<exists>out cache' created'. cache_pipelines env m cache created = (Inr out, cache', created')"
  using assms(1)
proof (induction m arbitrary: cache created)
  case (Cons p m)
  obtain n s where p: "p = (n, s)" by (cases p)
  have "\<forall>sc \<in> set (elems s). \<exists>f. compileStage (env_regexp env) sc = Inr f" using Cons.prems p by simp
  from cache_stages_ok [OF this assms(2)] obtain fns sigs c d where
    "cache_stages env n (elems s) cache created = (Inr (fns, sigs), c, d)" by (metis surj_pair)
  moreover obtain out sg c2 d2 where "cache_pipelines env m c d = (Inr (out, sg), c2, d2)"
    using Cons.IH [of c d] Cons.prems by (metis list.set_intros(2) surj_pair)
  ultimately show ?case using p by simp
qed simp

section \<open>Tasks\<close>

lemma find_pipelines_ok: "\<forall>pn \<in> set pns. mget ps pn \<noteq> None \<Longrightarrow> \<exists>pls. find_pipelines task pns ps = Inr pls"
  by (induction pns) auto

lemma retain_senders_ok:
  "\<forall>sn \<in> set sns. mget senders sn \<noteq> None \<Longrightarrow> \<exists>bound senders'. retain_senders task sns rt bd senders = (Inr bound, senders')"
proof (induction sns arbitrary: rt bd senders)
  case (Cons sn sns)
  obtain ss where ss: "mget senders sn = Some ss" using Cons.prems by auto
  have "\<forall>n \<in> set sns. mget (mset_at sn (ss\<lparr>ss_Refs := ss_Refs ss + 1\<rparr>) senders) n \<noteq> None" using Cons.prems by simp
  from Cons.IH [OF this] show ?case using ss by simp
qed simp

lemma Start_ok: "env_serves env \<Longrightarrow> \<exists>t. Start (env_newpool env) info c t0 = Inr t"
  by (auto simp: Start_def start_resources_def env_serves_def Let_def)

definition task_fits :: "store \<Rightarrow> task_config \<Rightarrow> bool" where
  "task_fits st tc \<longleftrightarrow>
     (\<forall>pn \<in> set (elems (tc_Pipelines tc)). mget (st_pipelines st) pn \<noteq> None) \<and>
     (\<forall>sn \<in> set (elems (tc_Senders tc)). mget (st_senders st) sn \<noteq> None)"

lemma addTask_ok: "task_fits st tc \<Longrightarrow> env_serves env \<Longrightarrow> \<exists>st'. addTask env n tc lc counter st = (None, st')"
proof -
  assume f: "task_fits st tc" and g: "env_serves env"
  obtain pls where "find_pipelines n (elems (tc_Pipelines tc)) (st_pipelines st) = Inr pls"
    using find_pipelines_ok f unfolding task_fits_def by blast
  moreover obtain bound senders' where "retain_senders n (elems (tc_Senders tc)) [] [] (st_senders st) = (Inr bound, senders')"
    using retain_senders_ok f unfolding task_fits_def by blast
  moreover obtain t where "Start (env_newpool env) (env_info env) (st_next st)
      (ReuseTrafficCounter counter (new_task n tc lc pls bound)) = Inr t"
    using Start_ok [OF g] by blast
  ultimately show ?thesis by (simp add: addTask_def Let_def fresh_def)
qed

lemma task_fits_frame:
  assumes "task_frame a b"
  shows "task_fits b tc = task_fits a tc"
proof -
  note f = task_frame_fields [OF assms]
  have "mget (st_senders b) n = None \<longleftrightarrow> mget (st_senders a) n = None" for n
    using same_senders_get(1) [OF f(7), of n] by (cases "mget (st_senders a) n"; cases "mget (st_senders b) n") simp_all
  then show ?thesis by (simp add: task_fits_def f(1))
qed

lemma add_tasks_ok:
  assumes "\<forall>(n, tc) \<in> set m. task_fits st tc" "wf_map m" "tasks_inv {} st" "\<And>n. mget m n \<noteq> None \<Longrightarrow> mget (st_tasks st) n = None"
    "env_serves env"
  shows "\<exists>st'. add_tasks env m lc st = (None, st')"
  using assms(1-4)
proof (induction m arbitrary: st)
  case (Cons e m)
  obtain n tc where e: "e = (n, tc)" by (cases e)
  obtain st1 where a: "addTask env n tc lc None st = (None, st1)"
    using addTask_ok [OF _ assms(5)] Cons.prems(1) e by fastforce
  have w: "wf_map m" "mget m n = None" using Cons.prems(2) e by (auto simp: wf_map_def map_of_eq_None_iff)
  have "mget (st_tasks st) n = None" using Cons.prems(4) e by simp
  from addTask_effect [OF a Cons.prems(3) this] obtain ts where
    t: "tasks_inv {} st1" "task_frame st st1"
    "\<And>k. mget (st_tasks st1) k = (if k = n then Some ts else mget (st_tasks st) k)" by blast
  have new: "mget (st_tasks st1) k = None" if "mget m k \<noteq> None" for k
    using t(3) [of k] Cons.prems(4) [of k] e w(2) that by (auto split: if_splits)
  have "\<forall>(n, tc) \<in> set m. task_fits st1 tc" using Cons.prems(1) e t(2) by (auto simp: task_fits_frame)
  then obtain st' where "add_tasks env m lc st1 = (None, st')" using Cons.IH [OF _ w(1) t(1) new] by blast
  then show ?case using a e by simp
qed simp

lemma remove_tasks_ok:
  assumes "\<forall>n \<in> set names. n \<in> set A \<longrightarrow> task_fits st (cfg_task cfg n)" "tasks_inv (set names) st" "distinct names" "env_serves env"
  shows "\<exists>st'. remove_tasks env cfg A names st = (None, st')"
  using assms(1-3)
proof (induction names arbitrary: st)
  case (Cons n names)
  obtain c st1 where r: "removeTask n (n \<in> set A) st = (c, st1)" by (cases "removeTask n (n \<in> set A) st")
  note e = removeTask_effect [OF r Cons.prems(2)]
  have inv: "tasks_inv (set names) st1" using e Cons.prems(3) by simp
  have fit: "task_fits st1 tc = task_fits st tc" for tc using e task_fits_frame by blast
  show ?case
  proof (cases "n \<in> set A")
    case True
    have "task_fits st1 (cfg_task cfg n)" using Cons.prems(1) True fit by simp
    from addTask_ok [OF this assms(4)] obtain st2 where a: "addTask env n (cfg_task cfg n) (cfg_Logging cfg) c st1 = (None, st2)"
      by blast
    have "mget (st_tasks st1) n = None" "n \<notin> set names" using e Cons.prems(3) by simp_all
    from addTask_effect [OF a inv this] have t: "tasks_inv (set names) st2" "task_frame st1 st2" by blast+
    have "\<exists>st'. remove_tasks env cfg A names st2 = (None, st')"
      by (rule Cons.IH) (use Cons.prems t fit task_fits_frame in auto)
    then show ?thesis using r a True by (simp add: cfg_task_def)
  next
    case False
    have "\<exists>st'. remove_tasks env cfg A names st1 = (None, st')"
      by (rule Cons.IH) (use Cons.prems inv fit in auto)
    then show ?thesis using r False by simp
  qed
qed simp

lemma add_new_tasks_ok:
  assumes "\<forall>n \<in> set names. n \<notin> set R \<longrightarrow> task_fits st (cfg_task cfg n)" "tasks_inv {} st" "distinct names"
    "\<And>n. n \<in> set names \<Longrightarrow> n \<notin> set R \<Longrightarrow> mget (st_tasks st) n = None" "env_serves env"
  shows "\<exists>st'. add_new_tasks env cfg R names st = (None, st')"
  using assms(1-4)
proof (induction names arbitrary: st)
  case (Cons n names)
  show ?case
  proof (cases "n \<in> set R")
    case True
    then show ?thesis using Cons by simp
  next
    case False
    have "task_fits st (cfg_task cfg n)" using Cons.prems(1) False by simp
    from addTask_ok [OF this assms(5)] obtain st2 where a: "addTask env n (cfg_task cfg n) (cfg_Logging cfg) None st = (None, st2)"
      by blast
    have none: "mget (st_tasks st) n = None" using Cons.prems(4) False by simp
    from addTask_effect [OF a Cons.prems(2) none] obtain ts where t: "tasks_inv {} st2" "task_frame st st2"
      "\<And>k. mget (st_tasks st2) k = (if k = n then Some ts else mget (st_tasks st) k)" by blast
    have "\<exists>st'. add_new_tasks env cfg R names st2 = (None, st')"
    proof (rule Cons.IH)
      show "\<forall>k \<in> set names. k \<notin> set R \<longrightarrow> task_fits st2 (cfg_task cfg k)" using Cons.prems(1) t(2) by (simp add: task_fits_frame)
      show "mget (st_tasks st2) k = None" if "k \<in> set names" "k \<notin> set R" for k
        using that t(3) [of k] Cons.prems(3,4) by auto
    qed (use t Cons.prems in auto)
    then show ?thesis using a False by (simp add: cfg_task_def)
  qed
qed simp

section \<open>Selectors\<close>

definition tasks_known :: "string slice gomap \<Rightarrow> task_state gomap \<Rightarrow> bool" where
  "tasks_known taskSets tasks \<longleftrightarrow> (\<forall>n. \<forall>tn \<in> set (task_set taskSets n). mget tasks tn \<noteq> None)"

lemma resolve_ok: "\<forall>tn \<in> set tns. mget tasks tn \<noteq> None \<Longrightarrow> \<exists>tss. resolve_tasks sel tns tasks = Inr tss"
  by (induction tns) auto

lemma resolve_set_ok: "tasks_known taskSets tasks \<Longrightarrow> \<exists>tss. resolveTaskSetStates sel tsn taskSets tasks = Inr tss"
  using resolve_ok [of "task_set taskSets tsn" tasks sel] by (simp add: resolveTaskSetStates_def tasks_known_def task_set_def)

lemma compile_matches_ok: "tasks_known taskSets tasks \<Longrightarrow> \<exists>out. compile_matches sel ms taskSets tasks = Inr out"
proof (induction ms)
  case (Cons m ms)
  obtain k tsn where m: "m = (k, tsn)" by (cases m)
  show ?case using Cons resolve_set_ok [OF Cons.prems, of sel tsn] m by auto
qed simp

lemma compile_selector_ok: "tasks_known taskSets tasks \<Longrightarrow> \<exists>cs. compile_selector n sc taskSets tasks = Inr cs"
  using compile_matches_ok [of taskSets tasks n "elems (se_Matches sc)"] resolve_set_ok [of taskSets tasks n "se_DefaultTaskSet sc"]
  by (auto simp: compile_selector_def Let_def)

lemma compile_selectors_ok: "tasks_known taskSets tasks \<Longrightarrow> \<exists>out. compile_selectors scs taskSets tasks = Inr out"
proof (induction scs)
  case (Cons s scs)
  obtain n sc where s: "s = (n, sc)" by (cases s)
  show ?case using Cons compile_selector_ok [OF Cons.prems, of n sc] s by auto
qed simp

lemma tasks_known_clone [simp]: "tasks_known (cloneTaskSetMap m) tasks = tasks_known m tasks"
  by (simp add: tasks_known_def)

lemma rebuild_ok: "tasks_known (st_taskSets st) (st_tasks st) \<Longrightarrow> \<exists>st'. rebuildReceiverSelectors st = (None, st')"
  using compile_selectors_ok [of "cloneTaskSetMap (st_taskSets st)" "st_tasks st" "cloneSelectorConfigMap (st_selectors st)"]
  by (auto simp: rebuildReceiverSelectors_def)

definition still_known :: "store \<Rightarrow> bool" where
  "still_known st \<longleftrightarrow> tasks_known (st_taskSets st) (st_tasks st)"

lemma commit_built_ok: "still_known st \<Longrightarrow> \<exists>st'. commit_built built st = (None, st') \<and> still_known st'"
proof (induction built arbitrary: st)
  case (Cons b built)
  obtain rs old where b: "b = (rs, old)" by (cases b)
  let ?st = "st\<lparr>st_receivers := mset_at (rs_Name rs) rs (st_receivers st)\<rparr>"
  obtain st1 where r: "rebuildReceiverSelectors ?st = (None, st1)"
    using rebuild_ok [of ?st] Cons.prems by (auto simp: still_known_def)
  have "receiver_frame ?st st1" by (rule rebuild_views(2) [OF r])
  then have k: "still_known st1" using Cons.prems by (auto simp: receiver_frame_def still_known_def)
  have "\<exists>st'. commit_built built (case old of None \<Rightarrow> startReceiver rs st1
      | Some o1 \<Rightarrow> log_event (ReceiverStopped (rs_Recv o1)) (startReceiver rs st1)) = (None, st') \<and> still_known st'"
    by (rule Cons.IH) (use k in \<open>simp add: startReceiver_def log_event_def still_known_def split: option.split\<close>)
  then show ?case using b r by (simp add: Let_def)
qed simp

lemma commitReceiverDelta_ok: "still_known st \<Longrightarrow> \<exists>st'. commitReceiverDelta nxt built st = (None, st') \<and> still_known st'"
  unfolding commitReceiverDelta_def Let_def by (rule commit_built_ok) (simp add: still_known_def)

end
