(* ===== verification/ValidReload.thy ===== *)
theory ValidReload
  imports Progress
begin

text \<open>
  A configuration that \<open>Validate\<close> accepts, and whose senders and receivers can be constructed, is applied by \<open>UpdateCache\<close>
  without error, on a new store and on any coherent one, and the store is then what the configuration asks for.
\<close>

section \<open>What Validate gives\<close>

definition startable :: "env \<Rightarrow> config \<Rightarrow> bool" where
  "startable env c \<longleftrightarrow>
     builds_senders env (elems (cfg_Senders c)) \<and> builds_receivers env (elems (cfg_Receivers c)) \<and>
     (\<forall>p \<in> set (elems (cfg_Pipelines c)). \<forall>sc \<in> set (elems (snd p)). \<exists>f. compileStage (env_regexp env) sc = Inr f) \<and>
     (\<forall>t \<in> set (elems (cfg_Tasks c)). task_resolves c (snd t)) \<and>
     (\<forall>s \<in> set (elems (cfg_TaskSets c)). list_all (mhas (elems (cfg_Tasks c))) (elems (snd s)))"

lemma validated_sender_builds:
  assumes "validate_sender ip (n, c) = None" "env_new_sender env n c = None"
  shows "\<exists>i st'. buildSender env n c st = (Inr i, st')"
proof -
  have udp: "sc_LocalPort c > 0" if "sc_Type c = ''udp_unicast'' \<or> sc_Type c = ''udp_multicast''"
    using assms(1) that unfolding validate_sender_def Let_def fst_conv snd_conv first_err_steps
    by (auto simp: validate_udp_sender_def first_err_steps simp del: first_err_None)
  have tcp: "sc_Frame c = [] \<or> sc_Frame c = ''u16be''" if "sc_Type c = ''tcp_gnet''"
    using assms(1) unfolding validate_sender_def Let_def fst_conv snd_conv first_err_steps that
    by (simp add: validate_tcp_sender_def first_err_steps del: first_err_None) 
  have ty: "sc_Type c \<in> set [''udp_unicast'', ''udp_multicast'', ''tcp_gnet'', ''kafka'', ''sftp'', ''oss'', ''dds_skydds'']"
    using assms(1) unfolding validate_sender_def Let_def fst_conv snd_conv first_err_steps
    by (simp split: if_splits) blast?
  have "\<not> (sc_Type c = ''udp_unicast'' \<and> sc_LocalPort c \<le> 0)" "\<not> (sc_Type c = ''udp_multicast'' \<and> sc_LocalPort c \<le> 0)"
    "\<not> (sc_Type c = ''tcp_gnet'' \<and> sc_Frame c \<notin> set [[], ''u16be''])"
    using udp tcp by auto
  with ty assms(2) show ?thesis
    unfolding buildSender_def by (simp add: fresh_def Let_def del: list.set)
qed

lemma validated_receiver_builds:
  assumes "validate_receiver c (n, r) = None" "env_new_receiver env n r = None"
  shows "\<exists>i st'. buildReceiver env n r st = (Inr i, st')"
proof -
  have tcp: "rc_Frame r = [] \<or> rc_Frame r = ''u16be''" if "rc_Type r = ''tcp_gnet''"
    using assms(1) unfolding validate_receiver_def Let_def fst_conv snd_conv first_err_steps that
    by (simp add: validate_gnet_receiver_def first_err_steps that del: first_err_None)
  have ty: "rc_Type r \<in> set [''udp_gnet'', ''local_timer'', ''kafka'', ''sftp'', ''oss'', ''dds_skydds''] \<or> rc_Type r = ''tcp_gnet''"
    using assms(1) unfolding validate_receiver_def Let_def fst_conv snd_conv first_err_steps
    by (simp split: if_splits) blast?
  then have "rc_Type r \<in> set [''udp_gnet'', ''local_timer'', ''kafka'', ''sftp'', ''oss'', ''dds_skydds''] \<or>
      (rc_Type r = ''tcp_gnet'' \<and> rc_Frame r \<in> set [[], ''u16be''])"
    using tcp by auto
  with assms(2) show ?thesis
    unfolding buildReceiver_def by (simp add: fresh_def Let_def del: list.set)
qed

lemma validated_startable:
  assumes v: "ValidateConfig (env_regexp env) ip c = None" and wf: "wf_cfg c" and g: "env_builds env c"
  shows "startable env c"
proof -
  note p = ValidateConfig_parts [OF v, unfolded first_err_map_None]
  have "\<exists>f. compileStage (env_regexp env) sc = Inr f"
    if "pl \<in> set (elems (cfg_Pipelines c))" "sc \<in> set (elems (snd pl))" for pl sc
  proof (rule validated_stages_compile [OF v])
    show "list_all (\<lambda>sc. wf_map (elems (st_Cases sc))) (stages_of c)"
      using wf by (auto simp: wf_cfg_def wf_stages_def stages_of_def list_all_iff)
    show "sc \<in> set (stages_of c)" using that by (auto simp: stages_of_def)
  qed
  moreover have "task_resolves c (snd t)" if "t \<in> set (elems (cfg_Tasks c))" for t
    using p(2) that validate_task_resolves [of c "fst t" "snd t"] by simp
  moreover have "list_all (mhas (elems (cfg_Tasks c))) (elems (snd s))" if "s \<in> set (elems (cfg_TaskSets c))" for s
    using p(3) that validate_task_set_resolves [of c "fst s" "snd s"] by simp
  moreover have "builds_senders env (elems (cfg_Senders c))" "builds_receivers env (elems (cfg_Receivers c))"
    using p(5,6) validated_sender_builds validated_receiver_builds g
    unfolding builds_senders_def builds_receivers_def env_builds_def by blast+
  ultimately show ?thesis unfolding startable_def by blast
qed

lemma startable_refs: "startable env c \<Longrightarrow> valid_refs c"
  unfolding valid_refs_def startable_def task_resolves_def list_all_iff mhas_def
  by (metis map_of_SomeD snd_conv)

section \<open>Progress of the parts\<close>

lemma compile_stages_ok: "\<forall>sc \<in> set scs. \<exists>f. compileStage rx sc = Inr f \<Longrightarrow> \<exists>fs. compile_stages rx n scs = Inr fs"
  by (induction scs) auto

lemma startable_pipelines:
  assumes "startable env c" "mget (elems (cfg_Pipelines c)) n \<noteq> None"
  shows "spec_pipeline (env_regexp env) (elems (cfg_Pipelines c)) n \<noteq> None"
proof -
  obtain s where s: "mget (elems (cfg_Pipelines c)) n = Some s" using assms(2) by blast
  then have "\<forall>sc \<in> set (elems s). \<exists>f. compileStage (env_regexp env) sc = Inr f"
    using assms(1) map_of_SomeD [OF s] unfolding startable_def by force
  from compile_stages_ok [OF this, of n] obtain fs where "compile_stages (env_regexp env) n (elems s) = Inr fs" by blast
  then show ?thesis using s by (simp add: spec_pipeline_def)
qed

lemma startable_compiles:
  assumes "startable env c" "env_serves env"
  shows "\<exists>nxt st'. compilePipelinesWithStageCache env (elems (cfg_Pipelines c)) st = (Inr nxt, st')"
proof -
  obtain out cache' created' where "cache_pipelines env (elems (cfg_Pipelines c)) (st_stageCache st) [] = (Inr out, cache', created')"
    using cache_pipelines_ok [OF _ assms(2)] assms(1) unfolding startable_def by blast
  then show ?thesis by (simp add: compilePipelinesWithStageCache_def)
qed

lemma startable_task_fits:
  assumes "startable env c" "mget (elems (cfg_Tasks c)) n = Some tc"
    "\<And>k. mget (st_pipelines st) k = spec_pipeline (env_regexp env) (elems (cfg_Pipelines c)) k"
    "\<And>k. mget (elems (cfg_Senders c)) k \<noteq> None \<Longrightarrow> mget (st_senders st) k \<noteq> None"
  shows "task_fits st tc"
proof -
  have "task_resolves c tc"
    using assms(1) map_of_SomeD [OF assms(2)] unfolding startable_def by force
  then show ?thesis
    using startable_pipelines [OF assms(1)] assms(3,4) by (simp add: task_fits_def task_resolves_def list_all_iff mhas_def)
qed

lemma startable_tasks_known:
  assumes "startable env c" "\<And>n. map_option ts_Cfg (mget tasks n) = mget (elems (cfg_Tasks c)) n"
  shows "tasks_known (elems (cfg_TaskSets c)) tasks"
  unfolding tasks_known_def
proof (intro allI ballI)
  fix n tn
  assume "tn \<in> set (task_set (elems (cfg_TaskSets c)) n)"
  then obtain s where s: "mget (elems (cfg_TaskSets c)) n = Some s" "tn \<in> set (elems s)"
    by (cases "mget (elems (cfg_TaskSets c)) n") (auto simp: task_set_def)
  then have "mget (elems (cfg_Tasks c)) tn \<noteq> None"
    using assms(1) map_of_SomeD [OF s(1)] unfolding startable_def list_all_iff mhas_def by force
  then show "mget tasks tn \<noteq> None" using assms(2) [of tn] by auto
qed

section \<open>replaceAll\<close>

lemma replace_receivers_frame:
  "replace_receivers env m lc acc st = (Inr out, st') \<Longrightarrow> st_taskSets st' = st_taskSets st \<and> st_tasks st' = st_tasks st"
proof (induction m arbitrary: acc st)
  case (Cons e m)
  obtain n r where e: "e = (n, r)" by (cases e)
  obtain i st1 where b: "buildReceiver env n r st = (Inr i, st1)" using Cons.prems e by (auto split: sum.splits prod.splits)
  obtain k where st1: "st1 = st\<lparr>st_next := k\<rparr>" using buildReceiver_store [OF b] by blast
  from Cons.prems e b have "replace_receivers env m lc (acc @ [new_receiver_state n r i (lc_PayloadLogMaxBytes lc)])
      (st1\<lparr>st_receivers := mset_at n (new_receiver_state n r i (lc_PayloadLogMaxBytes lc)) (st_receivers st1)\<rparr>) = (Inr out, st')"
    by (simp add: Let_def)
  from Cons.IH [OF this] show ?case by (simp add: st1)
qed simp

lemma replaceAll_ok:
  assumes ok: "startable env c" and g: "env_serves env" and wf: "wf_cfg c" and sig: "sig_faithful env"
    and cache: "st_stageCache st = []"
  shows "\<exists>st'. replaceAll env c st = (None, st')"
proof -
  have wc: "wf_map (elems (cfg_Senders c))" "wf_map (elems (cfg_Tasks c))"
    using wf by (simp_all add: wf_cfg_def wf_config_def)
  obtain nxt sta where a: "compilePipelinesWithStageCache env (elems (cfg_Pipelines c)) (StopAll st) = (Inr nxt, sta)"
    using startable_compiles [OF ok g] by blast
  have "st_stageCache (StopAll st) = []" using cache by (simp add: StopAll_def)
  from compile_cached [OF a sig this] obtain ch where ch: "sta = (StopAll st)\<lparr>st_stageCache := ch\<rparr>" "idle_cache ch"
    "CompilePipelines (env_regexp env) (elems (cfg_Pipelines c)) = Inr (fst nxt)" by blast
  define st0 where "st0 = sta\<lparr>st_receivers := [], st_selectors := cloneSelectorConfigMap (elems (cfg_Selectors c)),
    st_taskSets := cloneTaskSetMap (elems (cfg_TaskSets c)), st_senders := [], st_tasks := [], st_pipelines := fst nxt,
    st_pipelineCfg := clonePipelineConfigMap (elems (cfg_Pipelines c)), st_pipelineStageSigs := snd nxt\<rparr>"
  have gc: "gcUnusedStageCache st0 = st0\<lparr>st_stageCache := []\<rparr>" by (rule gc_idle) (simp add: st0_def ch)
  define st1 where "st1 = st0\<lparr>st_stageCache := []\<rparr>"
  obtain st2 where b: "replace_senders env (elems (cfg_Senders c)) st1 = (None, st2)"
    using replace_senders_ok ok unfolding startable_def by blast
  have "wf_map (st_senders st1)" by (simp add: st1_def st0_def)
  from replace_senders_effect [OF b wc(1) this] obtain sn k where st2: "st2 = st1\<lparr>st_next := k, st_senders := sn\<rparr>" "wf_map sn"
    "\<And>n. mget (elems (cfg_Senders c)) n = None \<Longrightarrow> mget sn n = None"
    "\<And>n sc. mget (elems (cfg_Senders c)) n = Some sc \<Longrightarrow> \<exists>i. mget sn n = Some \<lparr>ss_Name = n, ss_Cfg = sc, ss_S = i, ss_Refs = 0\<rparr>"
    by (auto simp: st1_def st0_def)
  have sn: "ss_Name ss = n \<and> ss_Refs ss = 0" if "mget sn n = Some ss" for n ss
    using st2(3,4) [of n] that by (cases "mget (elems (cfg_Senders c)) n") auto
  have inv: "tasks_inv {} st2" using st2(2) sn by (auto simp: tasks_inv_def st2(1) st1_def st0_def refcount_def)
  have new: "mget (st_tasks st2) n = None" for n by (simp add: st2(1) st1_def st0_def)
  have pl: "mget (st_pipelines st2) n = spec_pipeline (env_regexp env) (elems (cfg_Pipelines c)) n" for n
    using CompilePipelines_spec [OF ch(3), of n] by (simp add: st2(1) st1_def st0_def)
  have fits: "task_fits st2 tc" if "mget (elems (cfg_Tasks c)) n = Some tc" for n tc
    by (rule startable_task_fits [OF ok that pl]) (use st2(4) in \<open>force simp: st2(1)\<close>)
  have "\<forall>(n, tc) \<in> set (elems (cfg_Tasks c)). task_fits st2 tc" using fits wc(2) by (auto simp: mget_in_set)
  from add_tasks_ok [OF this wc(2) inv new g] obtain st3 where d: "add_tasks env (elems (cfg_Tasks c)) (cfg_Logging c) st2 = (None, st3)"
    by blast
  note t = add_tasks_effect [OF d wc(2) inv new]
  have tasks: "map_option ts_Cfg (mget (st_tasks st3) n) = mget (elems (cfg_Tasks c)) n" for n
    using t new by (simp split: option.split)
  note f3 = task_frame_fields [OF conjunct1 [OF conjunct2 [OF t]]]
  have k3: "still_known st3"
    using startable_tasks_known [OF ok tasks] f3(5) by (simp add: still_known_def st2(1) st1_def st0_def)
  obtain st4 where e: "rebuildReceiverSelectors st3 = (None, st4)" using rebuild_ok k3 unfolding still_known_def by blast
  have k4: "still_known st4" using rebuild_views(2) [OF e] k3 by (auto simp: receiver_frame_def still_known_def)
  obtain out st5 where r: "replace_receivers env (elems (cfg_Receivers c)) (cfg_Logging c) [] st4 = (Inr out, st5)"
    using replace_receivers_ok ok unfolding startable_def by blast
  have k5: "still_known st5" using replace_receivers_frame [OF r] k4 by (simp add: still_known_def)
  obtain st6 where "rebuildReceiverSelectors st5 = (None, st6)" using rebuild_ok k5 unfolding still_known_def by blast
  then show ?thesis
    unfolding replaceAll_def a and_then_def prod.case sum.case Let_def st0_def [symmetric] gc st1_def [symmetric] b and_then0_def
      option.case d e r by simp
qed

section \<open>applyBusinessDelta\<close>

lemma delta_tasks_ok:
  assumes coh: "coherent rx st" and wf: "wf_cfg c" and plan: "plan = store_plan st c" and g: "env_serves env"
    and inv: "tasks_inv (set (taskRemoved plan)) st5" and tasks: "st_tasks st5 = st_tasks st"
    and fits: "\<And>n tc. mget (elems (cfg_Tasks c)) n = Some tc \<Longrightarrow> task_fits st5 tc"
  shows "\<exists>st6. delta_tasks env c plan st5 = (None, st6)"
proof -
  note pt = store_plan_tasks [OF coh wf plan]
  have d: "distinct (taskRemoved plan)" "distinct (taskAdded plan)" using pt by blast+
  have fit: "task_fits st5 (cfg_task c n)" if "n \<in> set (taskAdded plan)" for n
  proof -
    have "mget (elems (cfg_Tasks c)) n \<noteq> None"
      using conjunct2 [OF conjunct2 [OF pt [of n]]] that by (auto split: option.splits)
    then show ?thesis using fits by (auto simp: cfg_task_def)
  qed
  from remove_tasks_ok [OF _ inv d(1) g] fit obtain sta where
    a: "remove_tasks env c (taskAdded plan) (taskRemoved plan) st5 = (None, sta)" by blast
  note r = remove_tasks_effect [OF a inv d(1)]
  have new: "mget (st_tasks sta) n = None" if "n \<in> set (taskAdded plan)" "n \<notin> set (taskRemoved plan)" for n
  proof -
    have "map_option ts_Cfg (mget (st_tasks st) n) = None"
      using conjunct2 [OF conjunct2 [OF pt [of n]]] that by (auto simp: Let_def split: option.splits)
    moreover have "map_option ts_Cfg (mget (st_tasks sta) n) = map_option ts_Cfg (mget (st_tasks st) n)"
      using r that(2) tasks by simp
    ultimately show ?thesis by simp
  qed
  have fit2: "\<forall>n \<in> set (taskAdded plan). n \<notin> set (taskRemoved plan) \<longrightarrow> task_fits sta (cfg_task c n)"
    using fit r task_fits_frame by blast
  have "tasks_inv {} sta" using r by blast
  from add_new_tasks_ok [OF fit2 this d(2) new g] a show ?thesis by (auto simp: delta_tasks_def and_then0_def)
qed

lemma task_sets_unchanged:
  assumes "coherent rx st" "wf_cfg c" "plan = store_plan st c" "\<not> taskset_changed plan"
  shows "task_set (st_taskSets st) n = task_set (elems (cfg_TaskSets c)) n"
proof -
  have "wf_map (cloneTaskSetMap (st_taskSets st))" "wf_map (elems (cfg_TaskSets c))"
    using assms(1,2) by (simp_all add: coherent_def wf_cfg_def wf_config_def)
  moreover have "splitDeltaWithReplace (=) (cloneTaskSetMap (st_taskSets st)) (elems (cfg_TaskSets c)) = ([], [])"
    using assms(3,4) plan_fields(3) [of "receiverConfigSnapshot (st_receivers st)" "cloneSelectorConfigMap (st_selectors st)"
      "cloneTaskSetMap (st_taskSets st)" "senderConfigSnapshot (st_senders st)" "clonePipelineConfigMap (st_pipelineCfg st)"
      "taskConfigSnapshot (st_tasks st)" c] by (simp add: store_plan_def taskset_changed_def)
  ultimately have "unchanged (=) (cloneTaskSetMap (st_taskSets st)) (elems (cfg_TaskSets c)) n" by (rule split_delta_unchanged)
  then show ?thesis by (auto simp: unchanged_def mget_cloneTaskSet task_set_def split: option.splits)
qed

lemma delta_publish_ok:
  assumes "still_known (gcUnusedStageCache (gcUnusedSenders (rebuildStageTaskRefs st)))"
  shows "\<exists>st'. delta_publish c plan delta closers st = (None, st')"
proof -
  let ?st = "gcUnusedStageCache (gcUnusedSenders (rebuildStageTaskRefs st))"
  obtain st2 where a: "(if receiver_changed plan then commitReceiverDelta (elems (cfg_Receivers c)) delta ?st else (None, ?st)) = (None, st2)"
    "still_known st2" using commitReceiverDelta_ok [OF assms] assms by (cases "receiver_changed plan") auto
  obtain st3 where "rebuildReceiverSelectors st2 = (None, st3)" using rebuild_ok a(2) unfolding still_known_def by blast
  then show ?thesis unfolding delta_publish_def Let_def a and_then0_def by simp
qed

lemma applyBusinessDelta_ok:
  assumes ok: "startable env c" and g: "env_serves env" and wf: "wf_cfg c" and sig: "sig_faithful env"
    and coh: "coherent (env_regexp env) st"
  shows "\<exists>st'. applyBusinessDelta env c st = (None, st')"
proof -
  define plan where "plan = store_plan st c"
  obtain nxt st1 where s1: "(if pipeline_changed plan then compilePipelinesWithStageCache env (elems (cfg_Pipelines c)) st
      else (Inr ([], []), st)) = (Inr nxt, st1)"
    using startable_compiles [OF ok g, of st] by (cases "pipeline_changed plan") auto
  obtain delta st2 where s2: "(if receiver_changed plan then prepareReceiverDelta env (elems (cfg_Receivers c)) st1
      else (Inr [], st1)) = (Inr delta, st2)"
    using prepare_ok [of env "elems (cfg_Receivers c)" st1] ok unfolding startable_def by (cases "receiver_changed plan") auto
  define st3 where "st3 = (if selector_changed plan \<or> taskset_changed plan then
      st2\<lparr>st_selectors := elems (cfg_Selectors c), st_taskSets := cloneTaskSetMap (elems (cfg_TaskSets c))\<rparr> else st2)"
  obtain closers st4 where s4: "(if sender_changed plan then applySenderDelta env (elems (cfg_Senders c)) st3
      else (Inr [], st3)) = (Inr closers, st4)"
    using applySenderDelta_ok [of env "elems (cfg_Senders c)" st3] ok unfolding startable_def by (cases "sender_changed plan") auto
  define st5 where "st5 = (if pipeline_changed plan then delta_install_pipelines c nxt st4 else st4)"
  note b = delta_before_tasks [OF coh wf sig refl plan_def s1 s2 st3_def s4 st5_def]
  have fits: "task_fits st5 tc" if "mget (elems (cfg_Tasks c)) n = Some tc" for n tc
  proof (rule startable_task_fits [OF ok that b(8)])
    fix k assume "mget (elems (cfg_Senders c)) k \<noteq> None"
    then show "mget (st_senders st5) k \<noteq> None"
      using b(9) [of k] by (auto simp: sender_step_def split: option.splits if_splits)
  qed
  obtain st6 where d: "delta_tasks env c plan st5 = (None, st6)"
    using delta_tasks_ok [OF coh wf plan_def g b(1,2)] fits by blast
  note t = delta_tasks_effect [OF coh wf plan_def b(1,2) d]
  have cache6: "st_stageCache st6 = []" using t(1) by (simp add: tasks_inv_def)
  have "st_taskSets st6 = st_taskSets st5" using task_frame_fields(5) [OF t(2)] .
  moreover have "tasks_known (st_taskSets st5) tasks = tasks_known (elems (cfg_TaskSets c)) tasks" for tasks
    using b(5) task_sets_unchanged [OF coh wf plan_def]
    by (cases "selector_changed plan \<or> taskset_changed plan") (simp_all add: tasks_known_def)
  ultimately have k6: "still_known st6" using startable_tasks_known [OF ok t(3)] by (simp add: still_known_def)
  obtain sn l where g6: "gcUnusedSenders st6 = st6\<lparr>st_senders := sn, st_log := l\<rparr>" using gcUnusedSenders_effect [OF t(1)] by blast
  have "gcUnusedStageCache (gcUnusedSenders (rebuildStageTaskRefs st6)) = gcUnusedSenders st6"
    using empty_cache_stays(3) [OF cache6] empty_cache_stays(4) [of "gcUnusedSenders st6"] cache6 by (simp add: g6)
  then have "still_known (gcUnusedStageCache (gcUnusedSenders (rebuildStageTaskRefs st6)))"
    using k6 by (simp add: g6 still_known_def)
  from delta_publish_ok [OF this] obtain st' where e: "delta_publish c plan delta closers st6 = (None, st')" by blast
  show ?thesis
    unfolding applyBusinessDelta_def plan_def [symmetric] Let_def s1 s2 and_then_def cloneSelector_id prod.case sum.case
      st3_def [symmetric] s4 st5_def [symmetric] d and_then0_def option.case e by blast
qed

section \<open>UpdateCache\<close>

lemma UpdateCache_ok:
  assumes "startable env c" "env_serves env" "wf_cfg c" "sig_faithful env" "coherent (env_regexp env) st"
  shows "\<exists>st'. UpdateCache env c st = (None, st')"
proof -
  define st0 where "st0 = setPayloadLogDefaultMax (lc_PayloadLogMaxBytes (cfg_Logging c)) st"
  have coh: "coherent (env_regexp env) st0"
    using assms(5) by (simp add: st0_def setPayloadLogDefaultMax_def coherent_def tasks_inv_def)
  have "st_stageCache st0 = []" using coh by (simp add: coherent_def tasks_inv_def)
  then show ?thesis
    using applyBusinessDelta_ok [OF assms(1-4) coh] replaceAll_ok [OF assms(1-4)]
    by (simp add: UpdateCache_def st0_def [symmetric])
qed

section \<open>A sample environment and configuration\<close>

text \<open>A rendering of stages that is read back in one way only, to stand for \<open>json.Marshal\<close> in the samples.\<close>

fun render_str :: "string \<Rightarrow> string" where
  "render_str [] = ''.''"
| "render_str (c # s) = CHR ''+'' # c # render_str s"

definition render_int :: "int \<Rightarrow> string" where
  "render_int i = (if i < 0 then CHR ''-'' else CHR ''+'') # render_str (replicate (nat \<bar>i\<bar>) CHR ''1'')"

fun render_pairs :: "(string \<times> string) list \<Rightarrow> string" where
  "render_pairs [] = ''.''"
| "render_pairs ((a, b) # ps) = CHR '','' # render_str a @ render_str b @ render_pairs ps"

definition render_cases :: "string gomap option \<Rightarrow> string" where
  "render_cases m = (case m of None \<Rightarrow> ''0'' | Some ps \<Rightarrow> CHR ''1'' # render_pairs ps)"

definition render_stage :: "stage_config \<Rightarrow> string" where
  "render_stage sc =
     render_str (st_Type sc) @ render_int (st_Offset sc) @ render_int (st_Length sc) @ render_str (st_Encoding sc) @
     render_str (st_Hex sc) @ render_cases (st_Cases sc) @ render_str (st_DefaultSender sc) @ render_str (st_Value sc) @
     render_str (st_Prefix sc) @ render_str (st_Old sc) @ render_str (st_New sc) @ render_str (st_Pattern sc) @
     render_str (st_Replacement sc)"

lemma render_str_inj: "render_str a @ r = render_str b @ q \<longleftrightarrow> a = b \<and> r = q"
proof (induction a arbitrary: b)
  case Nil
  show ?case by (cases b) auto
next
  case (Cons c a)
  then show ?case by (cases b) auto
qed

lemma render_int_inj: "render_int a @ r = render_int b @ q \<longleftrightarrow> a = b \<and> r = q"
proof -
  have "replicate (nat \<bar>a\<bar>) CHR ''1'' = replicate (nat \<bar>b\<bar>) CHR ''1'' \<longleftrightarrow> \<bar>a\<bar> = \<bar>b\<bar>"
    by (metis abs_ge_zero eq_nat_nat_iff length_replicate)
  then show ?thesis by (auto simp: render_int_def render_str_inj)
qed

lemma render_pairs_inj: "render_pairs a @ r = render_pairs b @ q \<longleftrightarrow> a = b \<and> r = q"
proof (induction a arbitrary: b)
  case Nil
  show ?case by (cases b rule: render_pairs.cases) simp_all
next
  case (Cons p a)
  obtain x y where p: "p = (x, y)" by (cases p)
  show ?case
  proof (cases b rule: render_pairs.cases)
    case 1
    then show ?thesis by (simp add: p)
  next
    case (2 u v ps)
    then show ?thesis using Cons.IH [of ps] by (simp add: p render_str_inj)
  qed
qed

lemma render_cases_inj: "render_cases a @ r = render_cases b @ q \<longleftrightarrow> a = b \<and> r = q"
  by (auto simp: render_cases_def render_pairs_inj split: option.split)

lemma render_stage_inj: "render_stage a = render_stage b \<Longrightarrow> a = b"
proof -
  assume "render_stage a = render_stage b"
  then have "render_stage a @ [] = render_stage b @ []" by simp
  then have e: "st_Type a = st_Type b \<and> st_Offset a = st_Offset b \<and> st_Length a = st_Length b \<and> st_Encoding a = st_Encoding b \<and>
      st_Hex a = st_Hex b \<and> st_Cases a = st_Cases b \<and> st_DefaultSender a = st_DefaultSender b \<and> st_Value a = st_Value b \<and>
      st_Prefix a = st_Prefix b \<and> st_Old a = st_Old b \<and> st_New a = st_New b \<and> st_Pattern a = st_Pattern b \<and>
      st_Replacement a = st_Replacement b"
    unfolding render_stage_def append_assoc render_str_inj render_int_inj render_cases_inj by blast
  show "a = b" by (rule stage_config.equality) (use e in simp_all)
qed

definition granting_env :: env where
  "granting_env = \<lparr>env_regexp = \<lambda>_. Inl (Errorf [] []), env_marshal = \<lambda>sc. Inr (render_stage sc),
     env_new_sender = \<lambda>_ _. None, env_new_receiver = \<lambda>_ _. None, env_newpool = \<lambda>_. None, env_info = True\<rparr>"

lemma granting_env_hyps: "env_serves granting_env" "sig_faithful granting_env" "env_builds granting_env c"
proof -
  show "env_serves granting_env" by (simp add: env_serves_def granting_env_def)
  show "env_builds granting_env c" by (simp add: env_builds_def granting_env_def)
  have "a = b" if "env_marshal granting_env a = Inr s" "env_marshal granting_env b = Inr s" for a b s
    using that by (intro render_stage_inj) (simp add: granting_env_def)
  then show "sig_faithful granting_env" unfolding sig_faithful_def by metis
qed

lemma valid_sample_valid_rx: "ValidateConfig (env_regexp granting_env) (\<lambda>_. True) valid_sample = None"
  using valid_sample_valid by (simp add: granting_env_def)

lemma valid_sample_wf: "wf_cfg valid_sample"
  by (simp add: wf_cfg_def wf_config_def wf_stages_def wf_selectors_def wf_map_def valid_sample_def zero_config_def)

section \<open>A validated configuration is applied\<close>

text \<open>For any outside whose constructors accept the senders and receivers of the configuration.\<close>

lemma built_config_applies:
  assumes "ValidateConfig (env_regexp env) ip c = None" "wf_cfg c" "env_builds env c" "env_serves env" "sig_faithful env"
    and "coherent (env_regexp env) st"
  shows "\<exists>st'. UpdateCache env c st = (None, st') \<and> coherent (env_regexp env) st' \<and> matches (env_regexp env) c st'"
proof -
  note s = validated_startable [OF assms(1-3)]
  obtain st' where u: "UpdateCache env c st = (None, st')" using UpdateCache_ok [OF s assms(4,2,5,6)] by blast
  then show ?thesis using UpdateCache_reload [OF assms(6,2) startable_refs [OF s] assms(5) refl u] by blast
qed

end
