(* ===== verification/Sharding.thy ===== *)
theory Sharding
  imports Validate Packet "HOL-Library.Multiset"
begin

text \<open>
  How a sender spreads its work: \<open>nextShardIndex\<close> (\<open>src/src/sender/shard_index.go\<close>), which the UDP, SFTP and
  Kafka senders use, and \<open>pickConn\<close> of the TCP sender (\<open>gnet_tcp.go\<close>); then the UDP senders
  (\<open>udp_unicast.go\<close>, \<open>udp_multicast.go\<close>) with their sockets. The counters are \<open>uint64\<close> and wrap around;
  \<open>int\<close> of a \<open>uint64\<close> is its signed reading.
\<close>

section \<open>The indices\<close>

definition nextShardIndex :: "64 word \<Rightarrow> int \<Rightarrow> int \<times> 64 word" where
  "nextShardIndex nxt shardMask =
     (if shardMask \<le> 0 then (0, nxt) else (and (sint (nxt + 1)) shardMask, nxt + 1))"

text \<open>The indices of \<open>n\<close> calls in a row.\<close>

fun shard_indices :: "nat \<Rightarrow> 64 word \<Rightarrow> int \<Rightarrow> int list" where
  "shard_indices 0 nxt shardMask = []"
| "shard_indices (Suc n) nxt shardMask =
     (let (i, nxt') = nextShardIndex nxt shardMask in i # shard_indices n nxt' shardMask)"

text \<open>\<open>conns\<close> is the number of connections; a negative index panics.\<close>

datatype pick = NoConn | PickConn int | IndexPanic

definition pickConn :: "64 word \<Rightarrow> int \<Rightarrow> pick \<times> 64 word" where
  "pickConn rr conns =
     (if conns = 0 then (NoConn, rr)
      else if conns = 1 then (PickConn 0, rr)
      else let i = sint ((rr + 1) - 1) smod conns in
        (if 0 \<le> i \<and> i < conns then PickConn i else IndexPanic, rr + 1))"

section \<open>The UDP senders\<close>

text \<open>
  \<open>us_conns\<close> holds the number of the open socket of each shard. \<open>sockets\<close> is what the operating system
  sees: how many sockets were opened, which were closed and what was written. The outcomes of the calls into
  \<open>net\<close> are arguments: \<open>dial\<close> of \<open>dialUDPWithReuse\<close>, \<open>iface\<close> of \<open>net.InterfaceByName\<close>, \<open>write\<close> of
  \<open>Write\<close>.
\<close>

record udp_sender =
  us_concurrency :: int
  us_shardMask :: int
  us_conns :: "nat option list"
  us_nextIdx :: "64 word"

record sockets =
  so_next :: nat
  so_closed :: "nat list"
  so_sent :: "(nat \<times> bytes) list"

definition open_socket :: "sockets \<Rightarrow> nat \<times> sockets" where
  "open_socket so = (so_next so, so\<lparr>so_next := Suc (so_next so)\<rparr>)"

definition close_socket :: "nat \<Rightarrow> sockets \<Rightarrow> sockets" where
  "close_socket c so = so\<lparr>so_closed := so_closed so @ [c]\<rparr>"

text \<open>\<open>ensureConnLocked\<close> of the unicast and of the multicast sender (\<open>iface\<close> is \<open>None\<close> when no interface is named).\<close>

definition unicast_ensureConnLocked :: "go_error option \<Rightarrow> nat \<Rightarrow> udp_sender \<Rightarrow> sockets \<Rightarrow> go_error option \<times> udp_sender \<times> sockets" where
  "unicast_ensureConnLocked dial idx s so =
     (if us_conns s ! idx \<noteq> None then (None, s, so)
      else case dial of
             Some err \<Rightarrow> (Some err, s, so)
           | None \<Rightarrow> (let (c, so') = open_socket so in (None, s\<lparr>us_conns := (us_conns s)[idx := Some c]\<rparr>, so')))"

definition multicast_ensureConnLocked :: "go_error option \<Rightarrow> go_error option \<Rightarrow> nat \<Rightarrow> udp_sender \<Rightarrow> sockets \<Rightarrow>
    go_error option \<times> udp_sender \<times> sockets" where
  "multicast_ensureConnLocked dial iface idx s so =
     (if us_conns s ! idx \<noteq> None then (None, s, so)
      else case dial of
             Some err \<Rightarrow> (Some err, s, so)
           | None \<Rightarrow>
               (let (c, so') = open_socket so in
                case iface of
                  Some err \<Rightarrow> (Some err, s, close_socket c so')
                | None \<Rightarrow> (None, s\<lparr>us_conns := (us_conns s)[idx := Some c]\<rparr>, so')))"

text \<open>The two senders differ in \<open>ensureConnLocked\<close> only; \<open>ens\<close> is it with the outcomes of its calls.\<close>

type_synonym ensure_conn = "nat \<Rightarrow> udp_sender \<Rightarrow> sockets \<Rightarrow> go_error option \<times> udp_sender \<times> sockets"

fun close_conns :: "nat option list \<Rightarrow> sockets \<Rightarrow> sockets" where
  "close_conns [] so = so"
| "close_conns (None # cs) so = close_conns cs so"
| "close_conns (Some c # cs) so = close_conns cs (close_socket c so)"

definition udp_Close :: "udp_sender \<Rightarrow> sockets \<Rightarrow> udp_sender \<times> sockets" where
  "udp_Close s so = (s\<lparr>us_conns := map (\<lambda>_. None) (us_conns s)\<rparr>, close_conns (us_conns s) so)"

definition getConn :: "ensure_conn \<Rightarrow> nat \<Rightarrow> udp_sender \<Rightarrow> sockets \<Rightarrow> nat option result \<times> udp_sender \<times> sockets" where
  "getConn ens idx s so =
     (case us_conns s ! idx of
        Some c \<Rightarrow> (Inr (Some c), s, so)
      | None \<Rightarrow>
          (case ens idx s so of
             (Some err, s', so') \<Rightarrow> (Inl err, s', so')
           | (None, s', so') \<Rightarrow> (Inr (us_conns s' ! idx), s', so')))"

definition write_socket :: "nat option \<Rightarrow> go_error option \<Rightarrow> bytes \<Rightarrow> sockets \<Rightarrow> go_error option \<times> sockets" where
  "write_socket c write payload so =
     (case (c, write) of
        (Some i, None) \<Rightarrow> (None, so\<lparr>so_sent := so_sent so @ [(i, payload)]\<rparr>)
      | (Some i, Some err) \<Rightarrow> (Some err, so)
      | (None, _) \<Rightarrow> (Some (Errorf ''invalid argument'' []), so))"

definition udp_Send :: "ensure_conn \<Rightarrow> go_error option \<Rightarrow> packet \<Rightarrow> udp_sender \<Rightarrow> sockets \<Rightarrow> go_error option \<times> udp_sender \<times> sockets" where
  "udp_Send ens write p s so =
     (let (i, nxt) = nextShardIndex (us_nextIdx s) (us_shardMask s); idx = nat i; s1 = s\<lparr>us_nextIdx := nxt\<rparr> in
      case us_conns s1 ! idx of
        Some c \<Rightarrow> (let (err, so') = write_socket (Some c) write (Payload p) so in (err, s1, so'))
      | None \<Rightarrow>
          (case getConn ens idx s1 so of
             (Inl err, s2, so2) \<Rightarrow> (Some err, s2, so2)
           | (Inr c, s2, so2) \<Rightarrow> (let (err, so') = write_socket c write (Payload p) so2 in (err, s2, so'))))"

text \<open>The loop of the constructors that opens the sockets; \<open>enss\<close> has an \<open>ensureConn\<close> for each shard.\<close>

fun open_shards :: "ensure_conn list \<Rightarrow> nat \<Rightarrow> udp_sender \<Rightarrow> sockets \<Rightarrow> udp_sender result \<times> sockets" where
  "open_shards [] idx s so = (Inr s, so)"
| "open_shards (ens # enss) idx s so =
     (case ens idx s so of
        (Some err, s', so') \<Rightarrow> (Inl err, snd (udp_Close s' so'))
      | (None, s', so') \<Rightarrow> open_shards enss (Suc idx) s' so')"

definition new_udp_sender :: "int \<Rightarrow> udp_sender" where
  "new_udp_sender concurrency0 =
     (let concurrency = (if concurrency0 \<le> 0 then 1 else concurrency0) in
      \<lparr>us_concurrency = concurrency, us_shardMask = concurrency - 1, us_conns = replicate (nat concurrency) None, us_nextIdx = 0\<rparr>)"

text \<open>\<open>resolve\<close> is the outcome of \<open>net.ResolveUDPAddr\<close>, \<open>ip\<close> says what \<open>net.ParseIP\<close> accepts.\<close>

definition NewUDPUnicastSender :: "(string \<Rightarrow> bool) \<Rightarrow> go_error option \<Rightarrow> (nat \<Rightarrow> go_error option) \<Rightarrow> string \<Rightarrow> int \<Rightarrow> sockets \<Rightarrow>
    udp_sender result \<times> sockets" where
  "NewUDPUnicastSender ip resolve dial localIP0 concurrency so =
     (case resolve of
        Some err \<Rightarrow> (Inl err, so)
      | None \<Rightarrow>
          (let localIP = (if localIP0 = [] then ''0.0.0.0'' else localIP0); s = new_udp_sender concurrency in
           if \<not> ip localIP then (Inl (Errorf ''invalid local ip: %s'' [AStr localIP]), so)
           else open_shards (map (\<lambda>i. unicast_ensureConnLocked (dial i)) [0 ..< nat (us_concurrency s)]) 0 s so))"

definition NewUDPMulticastSender :: "go_error option \<Rightarrow> (nat \<Rightarrow> go_error option) \<Rightarrow> go_error option \<Rightarrow> int \<Rightarrow> sockets \<Rightarrow>
    udp_sender result \<times> sockets" where
  "NewUDPMulticastSender resolve dial iface concurrency so =
     (case resolve of
        Some err \<Rightarrow> (Inl err, so)
      | None \<Rightarrow>
          (let s = new_udp_sender concurrency in
           open_shards (map (\<lambda>i. multicast_ensureConnLocked (dial i) iface) [0 ..< nat (us_concurrency s)]) 0 s so))"

section \<open>Powers of two\<close>

lemma and_double: "and (2 * m) (2 * m - 1) = 2 * and m (m - 1)" for m :: int
proof -
  have "(2 * m - 1) div 2 = m - 1" by presburger
  then show ?thesis using and_rec [of "2 * m" "2 * m - 1"] by simp
qed

lemma power_of_two: "0 < c \<Longrightarrow> and c (c - 1) = 0 \<Longrightarrow> \<exists>k. c = 2 ^ k" for c :: int
proof (induction "nat c" arbitrary: c rule: less_induct)
  case less
  show ?case
  proof (cases "even c")
    case True
    then obtain m where m: "c = 2 * m" by blast
    have "and m (m - 1) = 0" using less.prems(2) and_double [of m] m by simp
    moreover have "nat m < nat c" "0 < m" using m less.prems(1) by auto
    ultimately obtain k where "m = 2 ^ k" using less.hyps by blast
    then have "c = 2 ^ Suc k" using m by simp
    then show ?thesis by blast
  next
    case False
    then obtain m where m: "c = 2 * m + 1" by (elim oddE)
    have "and c (c - 1) = 2 * m" using m and_rec [of c "c - 1"] by simp
    then have "c = 2 ^ 0" using less.prems(2) m by simp
    then show ?thesis by blast
  qed
qed

lemma masked_counter: "k \<le> 63 \<Longrightarrow> and (sint (w :: 64 word)) (2 ^ k - 1) = int (unat w mod 2 ^ k)"
proof -
  assume k: "k \<le> 63"
  have "and (sint w) (2 ^ k - 1) = take_bit k (sint w)" by (simp add: take_bit_eq_mask mask_eq_exp_minus_1)
  also have "\<dots> = take_bit k (uint w)" using k by (simp add: sint_uint take_bit_signed_take_bit)
  also have "\<dots> = int (unat w mod 2 ^ k)" by (simp add: take_bit_eq_mod zmod_int flip: unat_eq_nat_uint)
  finally show ?thesis .
qed

text \<open>The wrap of the counter does not disturb the rotation, because the number of shards divides \<open>2 ^ 64\<close>.\<close>

lemma unat_add_mod: "k \<le> 64 \<Longrightarrow> unat ((w :: 64 word) + of_nat n) mod 2 ^ k = (unat w + n) mod 2 ^ k"
proof -
  assume k: "k \<le> 64"
  have "unat (w + of_nat n) = (unat w + n) mod 2 ^ 64"
    by (simp add: unat_word_ariths unat_of_nat mod_add_right_eq)
  moreover have "(2 :: nat) ^ k dvd 2 ^ 64" using k by (rule le_imp_power_dvd)
  ultimately show ?thesis by (simp add: mod_mod_cancel)
qed

section \<open>Indices in range, shards in turn\<close>

lemma nextShardIndex_range:
  assumes "0 < c" "nextShardIndex nxt (c - 1) = (i, nxt')"
  shows "0 \<le> i \<and> i < c"
proof -
  have "0 \<le> and (sint (nxt + 1)) (c - 1)" "and (sint (nxt + 1)) (c - 1) \<le> c - 1"
    using assms(1) by (simp_all add: AND_upper2 AND_lower)
  then show ?thesis using assms by (auto simp: nextShardIndex_def split: if_splits)
qed

lemma shard_indices_power:
  assumes "0 < k" "k \<le> 63"
  shows "shard_indices n nxt (2 ^ k - 1) = map (\<lambda>j. int ((unat nxt + Suc j) mod 2 ^ k)) [0 ..< n]"
proof (induction n arbitrary: nxt)
  case (Suc n)
  have m: "\<not> (2 :: int) ^ k - 1 \<le> 0" using assms(1) by (simp add: not_le)
  have i: "nextShardIndex nxt (2 ^ k - 1) = (int ((unat nxt + 1) mod 2 ^ k), nxt + 1)"
    using m masked_counter [OF assms(2), of "nxt + 1"] unat_add_mod [of k nxt 1] assms(2) by (simp add: nextShardIndex_def)
  have "(unat (nxt + 1) + Suc j) mod 2 ^ k = (unat nxt + Suc (Suc j)) mod 2 ^ k" for j
  proof -
    have "(unat (nxt + 1) + Suc j) mod 2 ^ k = (unat (nxt + 1) mod 2 ^ k + Suc j) mod 2 ^ k" by (rule mod_add_left_eq [symmetric])
    also have "\<dots> = ((unat nxt + 1) mod 2 ^ k + Suc j) mod 2 ^ k" using unat_add_mod [of k nxt 1] assms(2) by simp
    also have "\<dots> = (unat nxt + 1 + Suc j) mod 2 ^ k" by (rule mod_add_left_eq)
    also have "unat nxt + 1 + Suc j = unat nxt + Suc (Suc j)" by simp
    finally show ?thesis .
  qed
  then have "shard_indices n (nxt + 1) (2 ^ k - 1) = map (\<lambda>j. int ((unat nxt + Suc (Suc j)) mod 2 ^ k)) [0 ..< n]"
    using Suc.IH [of "nxt + 1"] by simp
  then show ?case using i by (simp add: upt_conv_Cons map_Suc_upt [symmetric] comp_def del: upt_Suc)
qed simp

lemma rotation:
  "distinct (map (\<lambda>j. int ((a + Suc j) mod m)) [0 ..< m]) \<and> set (map (\<lambda>j. int ((a + Suc j) mod m)) [0 ..< m]) = {0 ..< int m}"
  if "0 < m" for a m :: nat
proof -
  have "inj_on (\<lambda>j. int ((a + Suc j) mod m)) {0 ..< m}"
  proof (rule inj_onI)
    fix i j
    assume ij: "i \<in> {0 ..< m}" "j \<in> {0 ..< m}" and e: "int ((a + Suc i) mod m) = int ((a + Suc j) mod m)"
    then have "(a + Suc i) mod m = (a + Suc j) mod m" by simp
    then have "int (a + Suc i) mod int m = int (a + Suc j) mod int m" by (metis zmod_int)
    then have "int m dvd int (a + Suc i) - int (a + Suc j)" by (rule mod_eq_dvd_iff [THEN iffD1])
    then have "int m dvd int i - int j" by simp
    moreover have "\<bar>int i - int j\<bar> < int m" using ij by auto
    ultimately have "int i - int j = 0" using dvd_imp_le_int [of "int i - int j" "int m"] by linarith
    then show "i = j" by simp
  qed
  then have d: "distinct (map (\<lambda>j. int ((a + Suc j) mod m)) [0 ..< m])" by (simp add: distinct_map)
  have "set (map (\<lambda>j. int ((a + Suc j) mod m)) [0 ..< m]) \<subseteq> {0 ..< int m}" using that by (auto simp: of_nat_less_iff)
  moreover have "card (set (map (\<lambda>j. int ((a + Suc j) mod m)) [0 ..< m])) = card {0 ..< int m}"
    using distinct_card [OF d] by simp
  ultimately have "set (map (\<lambda>j. int ((a + Suc j) mod m)) [0 ..< m]) = {0 ..< int m}" by (intro card_subset_eq) simp_all
  with d show ?thesis by blast
qed

lemma shard_indices_range: "0 < c \<Longrightarrow> set (shard_indices n nxt (c - 1)) \<subseteq> {0 ..< c}"
proof (induction n arbitrary: nxt)
  case (Suc n)
  obtain i nxt' where i: "nextShardIndex nxt (c - 1) = (i, nxt')" by fastforce
  show ?case using nextShardIndex_range [OF Suc.prems i] Suc.IH [OF Suc.prems, of nxt'] by (simp add: i)
qed simp

section \<open>The sockets of a UDP sender\<close>

definition open_conns :: "udp_sender \<Rightarrow> nat list" where
  "open_conns s = List.map_filter id (us_conns s)"

definition opened :: "nat \<Rightarrow> nat multiset" where
  "opened n = mset [0 ..< n]"

lemma opened_Suc: "opened (Suc n) = add_mset n (opened n)"
  by (simp add: opened_def atLeast0_lessThan_Suc)

definition udp_inv :: "udp_sender \<Rightarrow> sockets \<Rightarrow> bool" where
  "udp_inv s so \<longleftrightarrow>
     0 < us_concurrency s \<and> us_shardMask s = us_concurrency s - 1 \<and> length (us_conns s) = nat (us_concurrency s) \<and>
     opened (so_next so) = mset (so_closed so) + mset (open_conns s)"

definition good_ensure :: "ensure_conn \<Rightarrow> bool" where
  "good_ensure ens \<longleftrightarrow>
     (\<forall>idx s so err s' so'. udp_inv s so \<longrightarrow> idx < length (us_conns s) \<longrightarrow> ens idx s so = (err, s', so') \<longrightarrow>
        udp_inv s' so' \<and> (err = None \<longrightarrow> us_conns s' ! idx \<noteq> None) \<and>
        us_concurrency s' = us_concurrency s \<and> (\<forall>j. us_conns s ! j \<noteq> None \<longrightarrow> us_conns s' ! j = us_conns s ! j))"

lemma map_filter_update:
  "xs ! i = None \<Longrightarrow> i < length xs \<Longrightarrow> mset (List.map_filter id (xs[i := Some c])) = add_mset c (mset (List.map_filter id xs))"
proof (induction xs arbitrary: i)
  case (Cons x xs)
  show ?case
  proof (cases i)
    case 0
    then show ?thesis using Cons.prems by (simp add: List.map_filter_def)
  next
    case (Suc j)
    then show ?thesis using Cons.IH [of j] Cons.prems by (cases x) (simp_all add: List.map_filter_def)
  qed
qed simp

lemma unicast_good: "good_ensure (unicast_ensureConnLocked dial)"
  unfolding good_ensure_def
  by (auto simp: unicast_ensureConnLocked_def open_socket_def udp_inv_def open_conns_def map_filter_update nth_list_update opened_Suc
      split: if_splits option.splits)

lemma multicast_good: "good_ensure (multicast_ensureConnLocked dial iface)"
  unfolding good_ensure_def
  by (auto simp: multicast_ensureConnLocked_def open_socket_def close_socket_def udp_inv_def open_conns_def map_filter_update
      nth_list_update opened_Suc split: if_splits option.splits)

lemma close_conns_effect:
  "so_next (close_conns cs so) = so_next so \<and> mset (so_closed (close_conns cs so)) = mset (so_closed so) + mset (List.map_filter id cs)"
  by (induction cs so rule: close_conns.induct) (auto simp: close_socket_def List.map_filter_def)

lemma close_inv:
  assumes "udp_inv s so" "udp_Close s so = (s', so')"
  shows "udp_inv s' so' \<and> open_conns s' = []"
proof -
  have "List.map_filter id (map (\<lambda>_. None) cs) = ([] :: nat list)" for cs :: "nat option list"
    by (induction cs) (simp_all add: List.map_filter_def)
  then show ?thesis using assms close_conns_effect [of "us_conns s" so] by (auto simp: udp_Close_def udp_inv_def open_conns_def)
qed

lemma write_socket_frame: "write_socket c write bs so = (err, so') \<Longrightarrow> so_next so' = so_next so \<and> so_closed so' = so_closed so"
  by (auto simp: write_socket_def split: option.splits)

lemma send_inv:
  assumes "udp_inv s so" "good_ensure ens" "udp_Send ens write p s so = (err, s', so')"
  shows "udp_inv s' so'"
proof -
  obtain i nxt where i: "nextShardIndex (us_nextIdx s) (us_shardMask s) = (i, nxt)" by fastforce
  have r: "0 \<le> i \<and> i < us_concurrency s" using nextShardIndex_range [of "us_concurrency s"] i assms(1) by (simp add: udp_inv_def)
  let ?s = "s\<lparr>us_nextIdx := nxt\<rparr>"
  have inv: "udp_inv ?s so" "nat i < length (us_conns ?s)" using assms(1) r by (simp_all add: udp_inv_def open_conns_def)
  have w: "udp_inv s1 so1'" if "udp_inv s1 so1" "write_socket c write (Payload p) so1 = (e, so1')" for s1 so1 c e so1'
    using that write_socket_frame [OF that(2)] by (simp add: udp_inv_def)
  show ?thesis
  proof (cases "us_conns ?s ! nat i")
    case (Some c)
    then show ?thesis using assms(3) i inv(1) by (auto simp: udp_Send_def split: prod.splits dest: w)
  next
    case None
    obtain e s2 so2 where e: "ens (nat i) ?s so = (e, s2, so2)" by (metis surj_pair)
    have "udp_inv s2 so2" using assms(2) inv e unfolding good_ensure_def by blast
    then show ?thesis using assms(3) i None e
      by (auto simp: udp_Send_def getConn_def split: prod.splits option.splits dest: w)
  qed
qed

lemma open_shards_effect:
  assumes "\<forall>ens \<in> set enss. good_ensure ens" "udp_inv s so" "idx + length enss = length (us_conns s)"
    "\<forall>j < idx. us_conns s ! j \<noteq> None"
  shows "case open_shards enss idx s so of
      (Inr s', so') \<Rightarrow> udp_inv s' so' \<and> (\<forall>j < length (us_conns s'). us_conns s' ! j \<noteq> None)
    | (Inl _, so') \<Rightarrow> opened (so_next so') = mset (so_closed so')"
  using assms
proof (induction enss arbitrary: idx s so)
  case (Cons ens enss)
  obtain e s1 so1 where e: "ens idx s so = (e, s1, so1)" by (metis surj_pair)
  have g: "good_ensure ens" using Cons.prems(1) by simp
  have k: "udp_inv s1 so1" "e = None \<longrightarrow> us_conns s1 ! idx \<noteq> None" "us_concurrency s1 = us_concurrency s"
    "\<forall>j. us_conns s ! j \<noteq> None \<longrightarrow> us_conns s1 ! j = us_conns s ! j"
    using g Cons.prems(2,3) e unfolding good_ensure_def by (metis add_Suc_right less_add_Suc1 list.size(4) add.right_neutral)+
  have l: "length (us_conns s1) = length (us_conns s)" using k(1,3) Cons.prems(2) by (simp add: udp_inv_def)
  show ?case
  proof (cases e)
    case None
    have "\<forall>j < Suc idx. us_conns s1 ! j \<noteq> None" using k(2,4) None Cons.prems(4) by (metis less_antisym)
    then show ?thesis using Cons.IH [of s1 so1 "Suc idx"] Cons.prems(1,3) k(1) l e None by simp
  next
    case (Some err)
    obtain s2 so2 where c: "udp_Close s1 so1 = (s2, so2)" by fastforce
    show ?thesis using close_inv [OF k(1) c] e Some c by (simp add: udp_inv_def)
  qed
qed simp

text \<open>
  What can happen to a sender: a packet, with the outcomes of the calls that sending it may make, and
  \<open>Close\<close>. \<open>multicast\<close> tells the two senders apart.
\<close>

datatype udp_op = UdpSend "go_error option" "go_error option" "go_error option" packet | UdpClose

definition ensure_of :: "bool \<Rightarrow> go_error option \<Rightarrow> go_error option \<Rightarrow> ensure_conn" where
  "ensure_of multicast dial iface = (if multicast then multicast_ensureConnLocked dial iface else unicast_ensureConnLocked dial)"

fun udp_ops :: "bool \<Rightarrow> udp_op list \<Rightarrow> udp_sender \<times> sockets \<Rightarrow> udp_sender \<times> sockets" where
  "udp_ops m [] r = r"
| "udp_ops m (UdpSend dial iface wr p # ops) r = udp_ops m ops (snd (udp_Send (ensure_of m dial iface) wr p (fst r) (snd r)))"
| "udp_ops m (UdpClose # ops) r = udp_ops m ops (udp_Close (fst r) (snd r))"

lemma ensure_of_good: "good_ensure (ensure_of m dial iface)"
  by (simp add: ensure_of_def unicast_good multicast_good)

lemma udp_ops_inv: "udp_inv (fst r) (snd r) \<Longrightarrow> udp_inv (fst (udp_ops m ops r)) (snd (udp_ops m ops r))"
proof (induction m ops r rule: udp_ops.induct)
  case (2 m dial iface wr p ops r)
  obtain e s1 so1 where e: "udp_Send (ensure_of m dial iface) wr p (fst r) (snd r) = (e, s1, so1)" by (metis surj_pair)
  show ?case using "2.IH" send_inv [OF "2.prems" ensure_of_good e] e by simp
next
  case (3 m ops r)
  obtain s1 so1 where c: "udp_Close (fst r) (snd r) = (s1, so1)" by fastforce
  show ?case using "3.IH" close_inv [OF "3.prems" c] c by simp
qed simp

lemma udp_ops_append: "udp_ops m (as @ bs) r = udp_ops m bs (udp_ops m as r)"
  by (induction m as r rule: udp_ops.induct) simp_all

definition no_sockets :: sockets where
  "no_sockets = \<lparr>so_next = 0, so_closed = [], so_sent = []\<rparr>"

lemma new_udp_sender_inv: "udp_inv (new_udp_sender c) no_sockets" "length (us_conns (new_udp_sender c)) = nat (us_concurrency (new_udp_sender c))"
  by (simp_all add: udp_inv_def new_udp_sender_def no_sockets_def opened_def open_conns_def Let_def List.map_filter_def)

text \<open>What a constructor returns: nothing is left open when it fails, and every shard has its socket when it succeeds.\<close>

definition built_ok :: "udp_sender result \<times> sockets \<Rightarrow> bool" where
  "built_ok r = (case r of
      (Inr s, so) \<Rightarrow> udp_inv s so \<and> list_all (\<lambda>c. c \<noteq> None) (us_conns s)
    | (Inl _, so) \<Rightarrow> opened (so_next so) = mset (so_closed so))"

lemma open_shards_ok:
  assumes "\<And>i. good_ensure (f i)"
  shows "built_ok (open_shards (map f [0 ..< nat (us_concurrency (new_udp_sender c))]) 0 (new_udp_sender c) no_sockets)"
  using open_shards_effect [of "map f [0 ..< nat (us_concurrency (new_udp_sender c))]" "new_udp_sender c" no_sockets 0]
    new_udp_sender_inv [of c] assms
  by (auto simp: built_ok_def list_all_length split: prod.splits sum.splits)

lemma no_sockets_opened: "opened (so_next no_sockets) = mset (so_closed no_sockets)"
  by (simp add: no_sockets_def opened_def)

lemma new_unicast_ok: "built_ok (NewUDPUnicastSender ip resolve dial localIP c no_sockets)"
proof (cases resolve)
  case None
  then show ?thesis using open_shards_ok [of "\<lambda>i. unicast_ensureConnLocked (dial i)" c] no_sockets_opened
    by (simp add: NewUDPUnicastSender_def Let_def unicast_good) (simp add: built_ok_def)
next
  case (Some err)
  then show ?thesis using no_sockets_opened by (simp add: NewUDPUnicastSender_def built_ok_def)
qed

lemma new_multicast_ok: "built_ok (NewUDPMulticastSender resolve dial iface c no_sockets)"
proof (cases resolve)
  case None
  then show ?thesis using open_shards_ok [of "\<lambda>i. multicast_ensureConnLocked (dial i) iface" c]
    by (simp add: NewUDPMulticastSender_def Let_def multicast_good)
next
  case (Some err)
  then show ?thesis using no_sockets_opened by (simp add: NewUDPMulticastSender_def built_ok_def)
qed

section \<open>Properties\<close>

text \<open>Whatever the counter is, also across its wrap-around, an index is in range of the shards; and with
  a number of shards that \<open>Validate\<close> accepts, as many packets in a row as there are shards go to each shard
  exactly once.\<close>

theorem shards_in_range_and_in_turn:
  assumes "0 < c" "c < 2 ^ 63"
  shows "set (shard_indices n nxt (c - 1)) \<subseteq> {0 ..< c} \<and>
    (validateSenderConcurrency sn c = None \<longrightarrow>
      distinct (shard_indices (nat c) nxt (c - 1)) \<and> set (shard_indices (nat c) nxt (c - 1)) = {0 ..< c})"
proof (intro conjI impI)
  show "set (shard_indices n nxt (c - 1)) \<subseteq> {0 ..< c}" by (rule shard_indices_range [OF assms(1)])
  assume "validateSenderConcurrency sn c = None"
  then obtain k where k: "c = 2 ^ k"
    using power_of_two [OF assms(1)] assms(1) by (auto simp: validateSenderConcurrency_def)
  show "distinct (shard_indices (nat c) nxt (c - 1))" "set (shard_indices (nat c) nxt (c - 1)) = {0 ..< c}"
  proof -
    have "distinct (shard_indices (nat c) nxt (c - 1)) \<and> set (shard_indices (nat c) nxt (c - 1)) = {0 ..< c}"
    proof (cases "k = 0")
      case True
      then show ?thesis using k by (auto simp: nextShardIndex_def)
    next
      case False
      have "k \<le> 63" using assms(2) k by (metis less_imp_le_nat numeral_One one_less_numeral_iff power_strict_increasing_iff semiring_norm(76))
      then have "shard_indices (nat c) nxt (c - 1) = map (\<lambda>j. int ((unat nxt + Suc j) mod 2 ^ k)) [0 ..< 2 ^ k]"
        using shard_indices_power [of k "nat c" nxt] False k by (simp add: nat_power_eq)
      then show ?thesis using rotation [of "2 ^ k" "unat nxt"] k by simp
    qed
    then show "distinct (shard_indices (nat c) nxt (c - 1))" "set (shard_indices (nat c) nxt (c - 1)) = {0 ..< c}" by blast+
  qed
qed

theorem shards_in_range_and_in_turn_witness:
  "set (shard_indices 4 (- 2) 3) = {0 ..< 4} \<and> shard_indices 4 (- 2) 3 = [3, 0, 1, 2]"
proof
  have "validateSenderConcurrency ''s'' 4 = None" by code_simp
  then show "set (shard_indices 4 (- 2) 3) = {0 ..< 4}"
    using shards_in_range_and_in_turn [of 4 0 "- 2" "''s''"] by simp
  show "shard_indices 4 (- 2) 3 = [3, 0, 1, 2]" by code_simp
qed

text \<open>C40: no UDP sender leaks or closes a socket twice: after its constructor, whatever calls fail, and after
  any packets and closings, every socket ever opened is either in one shard or was closed exactly once; a
  constructor that fails leaves none open, and after \<open>Close\<close> none is.\<close>

theorem udp_sockets_conserved:
  "built_ok (NewUDPUnicastSender ip resolve dial localIP c no_sockets) \<and>
   built_ok (NewUDPMulticastSender resolve dial iface c no_sockets) \<and>
   (udp_inv s so \<longrightarrow>
     (let (s', so') = udp_ops m ops (s, so) in
        udp_inv s' so' \<and> opened (so_next so') = mset (so_closed so') + mset (open_conns s')) \<and>
     (let (s', so') = udp_ops m (ops @ [UdpClose]) (s, so) in opened (so_next so') = mset (so_closed so')))"
proof (intro conjI impI)
  assume inv: "udp_inv s so"
  have i: "udp_inv (fst (udp_ops m ops (s, so))) (snd (udp_ops m ops (s, so)))" by (rule udp_ops_inv) (simp add: inv)
  then show "let (s', so') = udp_ops m ops (s, so) in
      udp_inv s' so' \<and> opened (so_next so') = mset (so_closed so') + mset (open_conns s')"
    by (auto simp: udp_inv_def split: prod.splits)
  obtain s1 so1 where c: "udp_Close (fst (udp_ops m ops (s, so))) (snd (udp_ops m ops (s, so))) = (s1, so1)" by fastforce
  show "let (s', so') = udp_ops m (ops @ [UdpClose]) (s, so) in opened (so_next so') = mset (so_closed so')"
    using close_inv [OF i c] c by (simp add: udp_ops_append udp_inv_def)
qed (rule new_unicast_ok new_multicast_ok)+

theorem udp_sockets_conserved_witness:
  "opened (so_next (snd (udp_ops False [UdpClose] (new_udp_sender 2, no_sockets)))) =
     mset (so_closed (snd (udp_ops False [UdpClose] (new_udp_sender 2, no_sockets))))"
  using udp_sockets_conserved [where s = "new_udp_sender 2" and so = no_sockets and ops = "[]" and m = False]
    new_udp_sender_inv(1) [of 2] by (simp add: split_beta Let_def)

text \<open>The TCP sender takes the remainder of a signed reading: after \<open>2 ^ 63\<close> packets its index is negative.\<close>

lemma pickConn_in_range:
  assumes "0 < conns" "unat rr < 2 ^ 63"
  shows "\<exists>i. fst (pickConn rr conns) = PickConn i \<and> 0 \<le> i \<and> i < conns"
proof -
  have u: "uint rr = int (unat rr)" by simp
  have "int (unat rr) < int (2 ^ 63)" using assms(2) by (simp only: of_nat_less_iff)
  then have "uint rr < 2 ^ 63" unfolding u by simp
  moreover have "- (2 ^ 63) \<le> uint rr" using uint_ge_0 [of rr] by (rule order_trans [rotated]) simp
  ultimately have "signed_take_bit 63 (uint rr) = uint rr" by (intro signed_take_bit_int_eq_self)
  then have "sint rr = uint rr" by (simp add: sint_uint)
  then have s: "sint rr = int (unat rr)" by (simp only: u)
  have "0 \<le> sint rr" unfolding s by simp
  then have "sint rr smod conns = sint rr mod conns" using assms(1) by (auto simp: smod_int_alt_def sgn_if)
  then show ?thesis using assms(1) by (auto simp: pickConn_def Let_def)
qed

lemma pickConn_panics: "fst (pickConn 9223372036854775808 3) = IndexPanic"
  by (simp add: pickConn_def Let_def smod_int_alt_def)

end
