(* ===== verification/GnetReceivers.thy ===== *)
theory GnetReceivers
  imports Framing MatchKey Runs
begin

text \<open>
  The UDP and TCP receivers (\<open>src/src/receiver/gnet_udp.go\<close>, \<open>gnet_tcp.go\<close>, \<open>gnet_addr.go\<close>): what they do on the events of the gnet
  engine. The engine itself is outside; it is the environment of the steps: it boots, opens connections, delivers bytes and
  returns from \<open>Run\<close>. \<open>OnTraffic\<close> of TCP is in \<open>Framing\<close>, as payloads; here it makes the packets.
\<close>

section \<open>Constructors\<close>

datatype gnet_level = GnetDebug | GnetInfo | GnetWarn | GnetError

definition ParseGnetLogLevel :: "string \<Rightarrow> gnet_level" where
  "ParseGnetLogLevel level =
     (let l = to_lower (trim_space level) in
      if l = ''debug'' then GnetDebug else if l = ''warn'' \<or> l = ''warning'' then GnetWarn
      else if l = ''error'' then GnetError else GnetInfo)"

definition normalizeGnetListen :: "string \<Rightarrow> string \<Rightarrow> string" where
  "normalizeGnetListen proto addr = (if contains ''://'' addr then addr else proto @ ''://'' @ addr)"

record gnet_udp =
  gu_name :: string
  gu_listen :: string
  gu_multicore :: bool
  gu_numEventLoop :: int
  gu_readBufferCap :: int
  gu_socketRecvBuffer :: int
  gu_gnetLogLevel :: gnet_level
  gu_matchKeyBuilder :: "endpoints \<Rightarrow> string"
  gu_matchKeyMode :: string

text \<open>\<open>gt_framed\<close> says that the framer is the \<open>U16BEFramer\<close>; otherwise it is nil.\<close>

record gnet_tcp = gnet_udp +
  gt_framed :: bool

definition NewGnetUDP ::
  "string \<Rightarrow> string \<Rightarrow> bool \<Rightarrow> int \<Rightarrow> int \<Rightarrow> int \<Rightarrow> string \<Rightarrow> receiver_match_key_config \<Rightarrow> gnet_udp result" where
  "NewGnetUDP name listen multicore numEventLoop readBufferCap socketRecvBuffer gnetLogLevel matchKey =
     (case compileUDPMatchKeyBuilder matchKey of
        Inl err \<Rightarrow> Inl err
      | Inr (builder, mode) \<Rightarrow>
          Inr \<lparr>gu_name = name, gu_listen = normalizeGnetListen ''udp'' listen, gu_multicore = multicore, gu_numEventLoop = numEventLoop,
            gu_readBufferCap = readBufferCap, gu_socketRecvBuffer = socketRecvBuffer, gu_gnetLogLevel = ParseGnetLogLevel gnetLogLevel,
            gu_matchKeyBuilder = builder, gu_matchKeyMode = mode\<rparr>)"

definition NewGnetTCP ::
  "string \<Rightarrow> string \<Rightarrow> bool \<Rightarrow> int \<Rightarrow> int \<Rightarrow> int \<Rightarrow> bool \<Rightarrow> string \<Rightarrow> receiver_match_key_config \<Rightarrow> gnet_tcp result" where
  "NewGnetTCP name listen multicore numEventLoop readBufferCap socketRecvBuffer framed gnetLogLevel matchKey =
     (case compileTCPMatchKeyBuilder matchKey of
        Inl err \<Rightarrow> Inl err
      | Inr (builder, mode) \<Rightarrow>
          Inr \<lparr>gu_name = name, gu_listen = normalizeGnetListen ''tcp'' listen, gu_multicore = multicore, gu_numEventLoop = numEventLoop,
            gu_readBufferCap = readBufferCap, gu_socketRecvBuffer = socketRecvBuffer, gu_gnetLogLevel = ParseGnetLogLevel gnetLogLevel,
            gu_matchKeyBuilder = builder, gu_matchKeyMode = mode, gt_framed = framed\<rparr>)"

definition GnetUDP_Key :: "gnet_udp \<Rightarrow> string" where "GnetUDP_Key r = ''udp_gnet|'' @ gu_listen r"

definition GnetTCP_Key :: "gnet_tcp \<Rightarrow> string" where "GnetTCP_Key r = ''tcp_gnet|'' @ gu_listen r"

section \<open>Packets\<close>

text \<open>A \<open>net.Addr\<close> comes with its printed form; a nil address is \<open>None\<close>.\<close>

type_synonym shown_addr = "(string \<times> net_addr) option"

definition addrString :: "shown_addr \<Rightarrow> string" where
  "addrString addr = (case addr of None \<Rightarrow> [] | Some (s, _) \<Rightarrow> s)"

definition endpoints_of :: "shown_addr \<Rightarrow> shown_addr \<Rightarrow> endpoints" where
  "endpoints_of remote local =
     \<lparr>ep_remote = addrString remote, ep_local = addrString local, ep_remoteAddr = map_option snd remote, ep_localAddr = map_option snd local\<rparr>"

definition stream_packet :: "proto \<Rightarrow> string \<Rightarrow> endpoints \<Rightarrow> string \<Rightarrow> bytes \<Rightarrow> pool \<Rightarrow> packet \<times> pool" where
  "stream_packet pr name ep key bs w =
     (let ((payload, rel), w1) = CopyFrom bs w in
      (\<lparr>Kind = PayloadKindStream,
        Meta = zero_meta\<lparr>Proto := pr, ReceiverName := name, Remote := ep_remote ep, Local := ep_local ep, MatchKey := key\<rparr>,
        Payload = payload, ReleaseFn = Some rel, paddr = next_addr w1\<rparr>, w1\<lparr>next_addr := Suc (next_addr w1)\<rparr>))"

text \<open>\<open>OnTraffic\<close> of the UDP handler: the datagram that was read is one packet.\<close>

definition udp_OnTraffic :: "gnet_udp \<Rightarrow> shown_addr \<Rightarrow> shown_addr \<Rightarrow> bytes \<Rightarrow> pool \<Rightarrow> packet list \<times> pool" where
  "udp_OnTraffic r remote local inp w =
     (if inp = [] then ([], w)
      else let ep = endpoints_of remote local; (p, w1) = stream_packet ProtoUDP (gu_name r) ep (gu_matchKeyBuilder r ep) inp w in ([p], w1))"

text \<open>The state of a TCP connection and the packets of its payloads.\<close>

record conn_state =
  cs_buf :: bytes
  cs_ends :: endpoints
  cs_matchKey :: string

definition OnOpen :: "gnet_tcp \<Rightarrow> shown_addr \<Rightarrow> shown_addr \<Rightarrow> conn_state" where
  "OnOpen r remote local =
     (let ep = endpoints_of remote local in \<lparr>cs_buf = [], cs_ends = ep, cs_matchKey = gu_matchKeyBuilder (gnet_udp.truncate r) ep\<rparr>)"

fun frame_packets :: "string \<Rightarrow> conn_state \<Rightarrow> bytes list \<Rightarrow> pool \<Rightarrow> packet list \<times> pool" where
  "frame_packets name cs [] w = ([], w)"
| "frame_packets name cs (b # bs) w =
     (let (p, w1) = stream_packet ProtoTCP name (cs_ends cs) (cs_matchKey cs) b w; (ps, w2) = frame_packets name cs bs w1 in (p # ps, w2))"

definition tcp_OnTraffic :: "gnet_tcp \<Rightarrow> conn_state \<Rightarrow> bytes \<Rightarrow> pool \<Rightarrow> packet list \<times> conn_state \<times> pool" where
  "tcp_OnTraffic r cs inp w =
     (let (payloads, buf) = OnTraffic (gt_framed r) (cs_buf cs) inp; (ps, w1) = frame_packets (gu_name r) cs payloads w
      in (ps, cs\<lparr>cs_buf := buf\<rparr>, w1))"

section \<open>The engine's events\<close>

text \<open>
  \<open>gn_stats\<close> is the statistics handle the receiver holds, by number; \<open>gn_taken\<close> is how many were acquired, \<open>gn_freed\<close> which were closed. \<open>gn_conns\<close> are the connections
  in the order they were opened, \<open>None\<close> when closed. \<open>gn_out\<close> are the packets handed on, with the connection they came
  from. \<open>gn_stopFn\<close>: the engine has booted; \<open>gn_stopAsked\<close>: its stop function was called.
\<close>

record gnet_run =
  gn_running :: bool
  gn_stopFn :: bool
  gn_stopAsked :: bool
  gn_stats :: "nat option"
  gn_taken :: nat
  gn_freed :: "nat list"
  gn_conns :: "conn_state option list"
  gn_pool :: pool
  gn_out :: "(nat \<times> packet) list"

definition new_gnet_run :: "pool \<Rightarrow> gnet_run" where
  "new_gnet_run w = \<lparr>gn_running = False, gn_stopFn = False, gn_stopAsked = False, gn_stats = None, gn_taken = 0, gn_freed = [], gn_conns = [], gn_pool = w, gn_out = []\<rparr>"

text \<open>\<open>stats.Swap(nil)\<close> and \<open>Close\<close> of what was there.\<close>

definition free_stats :: "gnet_run \<Rightarrow> gnet_run" where
  "free_stats g = (case gn_stats g of None \<Rightarrow> g | Some n \<Rightarrow> g\<lparr>gn_stats := None, gn_freed := gn_freed g @ [n]\<rparr>)"

text \<open>\<open>Start\<close> up to \<open>gnet.Run\<close>, with the log level; \<open>stats.Store\<close> overwrites.\<close>

definition gnet_Start :: "bool \<Rightarrow> gnet_run \<Rightarrow> gnet_run" where
  "gnet_Start info g =
     (if info then g\<lparr>gn_running := True, gn_stats := Some (gn_taken g), gn_taken := Suc (gn_taken g)\<rparr> else g\<lparr>gn_running := True\<rparr>)"

definition gnet_Stop :: "gnet_run \<Rightarrow> gnet_run" where
  "gnet_Stop g = (if gn_stopFn g then (free_stats g)\<lparr>gn_stopAsked := True\<rparr> else free_stats g)"

datatype gnet_label =
    StartCalled bool | Boots | Opens shown_addr shown_addr | Arrives nat bytes | ConnCloses nat | RunReturns | StopAsked

fun tcp_step :: "gnet_tcp \<Rightarrow> gnet_label \<Rightarrow> gnet_run \<Rightarrow> gnet_run option" where
  "tcp_step r (StartCalled info) g = (if gn_running g then None else Some (gnet_Start info g))"
| "tcp_step r Boots g = (if gn_running g \<and> \<not> gn_stopFn g then Some (g\<lparr>gn_stopFn := True\<rparr>) else None)"
| "tcp_step r (Opens remote local) g =
     (if gn_running g \<and> gn_stopFn g then Some (g\<lparr>gn_conns := gn_conns g @ [Some (OnOpen r remote local)]\<rparr>) else None)"
| "tcp_step r (Arrives c inp) g =
     (if gn_running g \<and> c < length (gn_conns g) then
        (case gn_conns g ! c of
           None \<Rightarrow> None
         | Some cs \<Rightarrow>
             (let (ps, cs', w) = tcp_OnTraffic r cs inp (gn_pool g)
              in Some (g\<lparr>gn_conns := (gn_conns g)[c := Some cs'], gn_pool := w, gn_out := gn_out g @ map (Pair c) ps\<rparr>)))
      else None)"
| "tcp_step r (ConnCloses c) g = (if gn_running g \<and> c < length (gn_conns g) then Some (g\<lparr>gn_conns := (gn_conns g)[c := None]\<rparr>) else None)"
| "tcp_step r RunReturns g = (if gn_running g then Some (free_stats (g\<lparr>gn_running := False\<rparr>)) else None)"
| "tcp_step r StopAsked g = Some (gnet_Stop g)"

fun tcp_steps :: "gnet_tcp \<Rightarrow> gnet_label list \<Rightarrow> gnet_run \<Rightarrow> gnet_run option" where
  "tcp_steps r [] g = Some g"
| "tcp_steps r (l # ls) g = (case tcp_step r l g of None \<Rightarrow> None | Some g' \<Rightarrow> tcp_steps r ls g')"

interpretation gnet_runs: runs "tcp_step r" "tcp_steps r" for r
  by unfold_locales simp_all

section \<open>Connections do not mix\<close>

text \<open>The bytes that arrived on a connection, and the payloads that were made of them.\<close>

fun arrivals_of :: "nat \<Rightarrow> gnet_label list \<Rightarrow> bytes list" where
  "arrivals_of c [] = []"
| "arrivals_of c (Arrives d inp # ls) = (if d = c then inp # arrivals_of c ls else arrivals_of c ls)"
| "arrivals_of c (l # ls) = arrivals_of c ls"

definition packets_of :: "nat \<Rightarrow> gnet_run \<Rightarrow> packet list" where
  "packets_of c g = map snd (filter (\<lambda>x. fst x = c) (gn_out g))"

definition made_on :: "gnet_tcp \<Rightarrow> conn_state \<Rightarrow> packet \<Rightarrow> bool" where
  "made_on r cs p \<longleftrightarrow> MatchKey (Meta p) = cs_matchKey cs \<and> Remote (Meta p) = ep_remote (cs_ends cs) \<and> Local (Meta p) = ep_local (cs_ends cs) \<and>
     ReceiverName (Meta p) = gu_name r \<and> Proto (Meta p) = ProtoTCP"

lemma frame_packets_made:
  "frame_packets (gu_name r) cs bs w = (ps, w') \<Longrightarrow> map Payload ps = bs \<and> list_all (made_on r cs) ps"
  by (induction bs arbitrary: w ps) (auto simp: stream_packet_def CopyFrom_def made_on_def Let_def split: prod.splits)

lemma tcp_OnTraffic_made:
  assumes "tcp_OnTraffic r cs inp w = (ps, cs', w')"
  shows "OnTraffic (gt_framed r) (cs_buf cs) inp = (map Payload ps, cs_buf cs')" "list_all (made_on r cs) ps" "cs_ends cs' = cs_ends cs" "cs_matchKey cs' = cs_matchKey cs"
  using assms frame_packets_made by (auto simp: tcp_OnTraffic_def Let_def split: prod.splits)

lemma run_traffic_snoc:
  "run_traffic framed buf (cs @ [c]) =
     (let (ps, b) = run_traffic framed buf cs; (qs, b') = OnTraffic framed b c in (ps @ qs, b'))"
  by (induction cs arbitrary: buf) (auto simp: Let_def split: prod.splits)

lemma arrivals_of_append: "arrivals_of c (xs @ ys) = arrivals_of c xs @ arrivals_of c ys"
  by (induction c xs rule: arrivals_of.induct) auto

text \<open>What is known of connection \<open>c\<close> while it is open.\<close>

definition conn_inv :: "gnet_tcp \<Rightarrow> nat \<Rightarrow> shown_addr \<Rightarrow> shown_addr \<Rightarrow> bytes list \<Rightarrow> gnet_run \<Rightarrow> bool" where
  "conn_inv r c remote local reads g \<longleftrightarrow> c < length (gn_conns g) \<and> list_all (made_on r (OnOpen r remote local)) (packets_of c g) \<and>
     (\<exists>buf. run_traffic (gt_framed r) [] reads = (map Payload (packets_of c g), buf) \<and>
       (\<forall>cs. gn_conns g ! c = Some cs \<longrightarrow> cs_buf cs = buf \<and> cs_ends cs = cs_ends (OnOpen r remote local) \<and> cs_matchKey cs = cs_matchKey (OnOpen r remote local)))"

lemma free_stats_frame [simp]:
  "gn_conns (free_stats g) = gn_conns g" "gn_out (free_stats g) = gn_out g" "gn_pool (free_stats g) = gn_pool g" "gn_running (free_stats g) = gn_running g"
  "gn_stopFn (free_stats g) = gn_stopFn g" "gn_taken (free_stats g) = gn_taken g" "gn_stats (free_stats g) = None"
  by (simp_all add: free_stats_def split: option.splits)

lemma packets_of_append: "packets_of c (g\<lparr>gn_conns := x, gn_pool := w, gn_out := gn_out g @ map (Pair d) ps\<rparr>) = packets_of c g @ (if d = c then ps else [])"
  by (simp add: packets_of_def filter_map comp_def)

lemma packets_of_cong: "gn_out g' = gn_out g \<Longrightarrow> packets_of c g' = packets_of c g"
  by (simp add: packets_of_def)

lemma other_step_out:
  "tcp_step r l g = Some g' \<Longrightarrow> \<nexists>d inp. l = Arrives d inp \<Longrightarrow> gn_out g' = gn_out g"
  by (cases l) (auto simp: gnet_Start_def gnet_Stop_def split: if_splits)

lemma other_step_conns:
  assumes "tcp_step r l g = Some g'" "\<nexists>d inp. l = Arrives d inp" "c < length (gn_conns g)"
  shows "c < length (gn_conns g')" "gn_conns g' ! c = Some cs \<Longrightarrow> gn_conns g ! c = Some cs"
proof -
  have "gn_conns g' = gn_conns g \<or> (\<exists>x. gn_conns g' = gn_conns g @ [x]) \<or> (\<exists>d. gn_conns g' = (gn_conns g)[d := None])"
  proof (cases l)
    case (Opens remote local)
    then show ?thesis using assms(1) by (auto split: if_splits)
  next
    case (ConnCloses d)
    then have "gn_conns g' = (gn_conns g)[d := None]" using assms(1) by (auto split: if_splits)
    then show ?thesis by blast
  qed (use assms in \<open>auto simp: gnet_Start_def gnet_Stop_def split: if_splits\<close>)
  then consider "gn_conns g' = gn_conns g" | x where "gn_conns g' = gn_conns g @ [x]" | d where "gn_conns g' = (gn_conns g)[d := None]" by blast
  then have "c < length (gn_conns g') \<and> (gn_conns g' ! c = Some cs \<longrightarrow> gn_conns g ! c = Some cs)"
  proof cases
    case (3 d)
    then show ?thesis using assms(3) by (cases "d = c") simp_all
  qed (use assms(3) in \<open>simp_all add: nth_append\<close>)
  then show "c < length (gn_conns g')" "gn_conns g' ! c = Some cs \<Longrightarrow> gn_conns g ! c = Some cs" by blast+
qed

lemma conn_inv_step:
  assumes "conn_inv r c remote local reads g" "tcp_step r l g = Some g'"
  shows "conn_inv r c remote local (reads @ arrivals_of c [l]) g'"
proof (cases "\<exists>d inp. l = Arrives d inp")
  case True
  then obtain d inp where l: "l = Arrives d inp" by blast
  then obtain cs where d: "d < length (gn_conns g)" "gn_conns g ! d = Some cs" using assms(2) by (auto split: if_splits option.splits)
  obtain ps cs' w where t: "tcp_OnTraffic r cs inp (gn_pool g) = (ps, cs', w)" by (cases "tcp_OnTraffic r cs inp (gn_pool g)")
  have g': "g' = g\<lparr>gn_conns := (gn_conns g)[d := Some cs'], gn_pool := w, gn_out := gn_out g @ map (Pair d) ps\<rparr>"
    using assms(2) l d t by (auto split: if_splits)
  note m = tcp_OnTraffic_made [OF t]
  obtain buf where i: "c < length (gn_conns g)" "list_all (made_on r (OnOpen r remote local)) (packets_of c g)"
    "run_traffic (gt_framed r) [] reads = (map Payload (packets_of c g), buf)"
    "\<And>cs. gn_conns g ! c = Some cs \<Longrightarrow> cs_buf cs = buf \<and> cs_ends cs = cs_ends (OnOpen r remote local) \<and> cs_matchKey cs = cs_matchKey (OnOpen r remote local)"
    using assms(1) unfolding conn_inv_def by blast
  show ?thesis
  proof (cases "d = c")
    case True
    have cs: "cs_buf cs = buf" "cs_ends cs = cs_ends (OnOpen r remote local)" "cs_matchKey cs = cs_matchKey (OnOpen r remote local)"
      using i(4) d(2) True by blast+
    have "list_all (made_on r (OnOpen r remote local)) ps" using m(2) cs by (simp add: made_on_def list_all_iff)
    moreover have "run_traffic (gt_framed r) [] (reads @ [inp]) = (map Payload (packets_of c g @ ps), cs_buf cs')"
      using i(3) m(1) cs(1) by (simp add: run_traffic_snoc)
    ultimately show ?thesis using i(1,2) m(3,4) cs True l unfolding conn_inv_def g' packets_of_append by simp
  next
    case False
    then show ?thesis using i l unfolding conn_inv_def g' packets_of_append by simp
  qed
next
  case False
  then have e: "arrivals_of c [l] = []" by (cases l) auto
  obtain buf where i: "c < length (gn_conns g)" "list_all (made_on r (OnOpen r remote local)) (packets_of c g)"
    "run_traffic (gt_framed r) [] reads = (map Payload (packets_of c g), buf)"
    "\<And>cs. gn_conns g ! c = Some cs \<Longrightarrow> cs_buf cs = buf \<and> cs_ends cs = cs_ends (OnOpen r remote local) \<and> cs_matchKey cs = cs_matchKey (OnOpen r remote local)"
    using assms(1) unfolding conn_inv_def by blast
  have out: "packets_of c g' = packets_of c g" by (rule packets_of_cong [OF other_step_out [OF assms(2)]]) (use False in blast)
  note conns = other_step_conns [OF assms(2) _ i(1)]
  have n: "\<nexists>d inp. l = Arrives d inp" using False by blast
  show ?thesis unfolding conn_inv_def e out append_Nil2
    by (intro conjI exI [of _ buf] allI impI) (use i conns [OF n] in blast)+
qed

lemma conn_inv_steps:
  "conn_inv r c remote local reads g \<Longrightarrow> tcp_steps r ls g = Some g' \<Longrightarrow> conn_inv r c remote local (reads @ arrivals_of c ls) g'"
proof (induction ls arbitrary: reads g)
  case (Cons l ls)
  then obtain u where u: "tcp_step r l g = Some u" "tcp_steps r ls u = Some g'" by (auto split: option.splits)
  have "conn_inv r c remote local (reads @ arrivals_of c [l]) u" by (rule conn_inv_step [OF Cons.prems(1) u(1)])
  then have "conn_inv r c remote local ((reads @ arrivals_of c [l]) @ arrivals_of c ls) g'" using Cons.IH u(2) by blast
  then show ?case using arrivals_of_append [of c "[l]" ls] by simp
qed simp

lemma out_in_range: "tcp_steps r ls (new_gnet_run w) = Some g \<Longrightarrow> \<forall>x \<in> set (gn_out g). fst x < length (gn_conns g)"
proof -
  assume run: "tcp_steps r ls (new_gnet_run w) = Some g"
  define P where "P = (\<lambda>g :: gnet_run. \<forall>x \<in> set (gn_out g). fst x < length (gn_conns g))"
  have "P v" if "P u" "tcp_step r l u = Some v" for l u v
    using that by (cases l) (force simp: P_def gnet_Start_def gnet_Stop_def Let_def split: if_splits option.splits prod.splits)+
  moreover have "P (new_gnet_run w)" by (simp add: P_def new_gnet_run_def)
  ultimately have "P g" using gnet_runs.invariant [of P r ls "new_gnet_run w" g] run by blast
  then show ?thesis by (simp add: P_def)
qed

text \<open>C28: the TCP receiver gives back what each sender framed. Let any connections be opened, read from and closed in any order, and Start and
  Stop be called at any time. When the bytes that arrived on a connection are the frames that a TCP sender wrote for a list of
  payloads, however they were cut into reads, then the packets of that connection are exactly those payloads in that order, each with the addresses and the match
  key of this connection, whatever arrived on the others; provided that every read that completes a frame leaves at most two bytes of the next one.\<close>

theorem tcp_receiver_delivers_frames:
  assumes "tcp_steps r ls1 (new_gnet_run w) = Some g0" "c = length (gn_conns g0)"
    and "tcp_steps r (Opens remote local # ls2) g0 = Some g" "gt_framed r"
    and "map (tcp_frame name True) payloads = map Inr frames" "concat (arrivals_of c ls2) = concat frames" "quiet_reads [] (arrivals_of c ls2)"
  shows "map Payload (packets_of c g) = payloads \<and>
    list_all (\<lambda>p. Remote (Meta p) = addrString remote \<and> Local (Meta p) = addrString local \<and> ReceiverName (Meta p) = gu_name r \<and>
      MatchKey (Meta p) = gu_matchKeyBuilder (gnet_udp.truncate r) (endpoints_of remote local)) (packets_of c g)"
proof -
  obtain g1 where g1: "tcp_step r (Opens remote local) g0 = Some g1" "tcp_steps r ls2 g1 = Some g"
    using assms(3) by (auto split: if_splits)
  then have e: "g1 = g0\<lparr>gn_conns := gn_conns g0 @ [Some (OnOpen r remote local)]\<rparr>" by (auto split: if_splits)
  have "packets_of c g0 = []" using out_in_range [OF assms(1)] assms(2) by (auto simp: packets_of_def filter_empty_conv)
  then have "conn_inv r c remote local [] g1"
    using assms(2) unfolding e conn_inv_def by (simp add: packets_of_def OnOpen_def Let_def)
  then have i: "conn_inv r c remote local (arrivals_of c ls2) g" using conn_inv_steps g1(2) by fastforce
  have "run_traffic True [] (arrivals_of c ls2) = (payloads, [])"
    by (rule tcp_framing_roundtrip [OF assms(5,6,7)])
  then show ?thesis using i assms(4)
    by (auto simp: conn_inv_def made_on_def OnOpen_def endpoints_of_def list_all_iff Let_def)
qed

section \<open>The statistics handle\<close>

text \<open>C30: a receiver frees its statistics handle exactly once. With any interleaving of Start, of Stop (any number of times, also
  before Start and while the engine runs) and of the end of the engine, no handle that Start acquired is closed twice, and once
  the engine has returned, every handle was closed.\<close>

theorem gnet_stats_freed_once:
  assumes "tcp_steps r ls (new_gnet_run w) = Some g"
  shows "distinct (gn_freed g) \<and> set (gn_freed g) \<subseteq> {..< gn_taken g} \<and> (\<not> gn_running g \<longrightarrow> set (gn_freed g) = {..< gn_taken g})"
proof -
  define P where "P = (\<lambda>g :: gnet_run. distinct (gn_freed g) \<and>
     (case gn_stats g of None \<Rightarrow> set (gn_freed g) = {..< gn_taken g}
      | Some n \<Rightarrow> gn_running g \<and> gn_taken g = Suc n \<and> set (gn_freed g) = {..< n}))"
  have free: "P (free_stats u)" if "P u" for u
    using that by (cases "gn_stats u") (auto simp: P_def free_stats_def lessThan_Suc)
  have idle: "set (gn_freed u) = {..< gn_taken u}" "distinct (gn_freed u)" if "P u" "gn_stats u = None" for u
    using that by (simp_all add: P_def)
  have quiet: "P v" if "P u" "gn_freed v = gn_freed u" "gn_stats v = gn_stats u" "gn_taken v = gn_taken u" "gn_running v = gn_running u" for u v
    using that by (simp add: P_def split: option.splits)
  have ends: "P (u\<lparr>gn_running := False\<rparr>)" if "P u" "gn_stats u = None" for u
    using that by (simp add: P_def)
  have "P v" if h: "P u" "tcp_step r l u = Some v" for l u v
  proof (cases l)
    case (StartCalled info)
    then have v: "\<not> gn_running u" "v = gnet_Start info u" using h(2) by (auto split: if_splits)
    then have n: "gn_stats u = None" using h(1) by (cases "gn_stats u") (simp_all add: P_def)
    show ?thesis unfolding v(2) gnet_Start_def using idle [OF h(1) n] n by (simp add: P_def)
  next
    case RunReturns
    then have v: "v = (free_stats u)\<lparr>gn_running := False\<rparr>" using h(2) by (auto simp: free_stats_def split: if_splits option.splits)
    show ?thesis unfolding v by (rule ends [OF free [OF h(1)]]) simp
  next
    case StopAsked
    then have "v = gnet_Stop u" using h(2) by simp
    then show ?thesis using free [OF h(1)] quiet [OF free [OF h(1)]] by (simp add: gnet_Stop_def)
  next
    case (Arrives d inp)
    then obtain cs ps w where "v = u\<lparr>gn_conns := (gn_conns u)[d := Some cs], gn_pool := w, gn_out := gn_out u @ map (Pair d) ps\<rparr>"
      using h(2) by (auto split: if_splits option.splits prod.splits)
    then show ?thesis using quiet [OF h(1)] by simp
  qed (use h quiet [OF h(1)] in \<open>auto split: if_splits\<close>)
  moreover have "P (new_gnet_run w)" by (simp add: P_def new_gnet_run_def)
  ultimately have "P g" using gnet_runs.invariant [of P r ls "new_gnet_run w" g] assms by blast
  then show ?thesis by (cases "gn_stats g") (auto simp: P_def)
qed

section \<open>Witnesses\<close>

definition sample_gnet :: gnet_tcp where
  "sample_gnet = \<lparr>gu_name = ''r'', gu_listen = ''tcp://:1'', gu_multicore = False, gu_numEventLoop = 1, gu_readBufferCap = 0, gu_socketRecvBuffer = 0,
     gu_gnetLogLevel = GnetInfo, gu_matchKeyBuilder = ep_remote, gu_matchKeyMode = ''remote_addr'', gt_framed = True\<rparr>"

definition gnet_sample_pool :: pool where "gnet_sample_pool = \<lparr>next_lease = 0, next_addr = 0, returned = []\<rparr>"

definition sample_gnet_open :: gnet_run where
  "sample_gnet_open = the (tcp_steps sample_gnet [StopAsked, StartCalled True, Boots, Opens None None] (new_gnet_run gnet_sample_pool))"

lemma sample_gnet_open: "tcp_steps sample_gnet [StopAsked, StartCalled True, Boots, Opens None None] (new_gnet_run gnet_sample_pool) = Some sample_gnet_open"
  unfolding sample_gnet_open_def by (rule option.collapse [symmetric]) code_simp

definition sample_arrivals :: "gnet_label list" where
  "sample_arrivals = [Arrives 1 [0, 2, 7], Arrives 0 [9], StopAsked, Arrives 1 [8], ConnCloses 1, RunReturns]"

definition sample_addr :: shown_addr where "sample_addr = Some (''h:5'', OtherAddr)"

definition sample_gnet_end :: gnet_run where
  "sample_gnet_end = the (tcp_steps sample_gnet (Opens sample_addr None # sample_arrivals) sample_gnet_open)"

lemma sample_gnet_end: "tcp_steps sample_gnet (Opens sample_addr None # sample_arrivals) sample_gnet_open = Some sample_gnet_end"
  unfolding sample_gnet_end_def by (rule option.collapse [symmetric]) code_simp

theorem tcp_receiver_delivers_frames_witness:
  "map Payload (packets_of 1 sample_gnet_end) = [[7, 8]] \<and> list_all (\<lambda>p. MatchKey (Meta p) = ''h:5'') (packets_of 1 sample_gnet_end)"
proof -
  have c: "1 = length (gn_conns sample_gnet_open)" by code_simp
  have f: "gt_framed sample_gnet" by (simp add: sample_gnet_def)
  have p: "map (tcp_frame ''s'' True) [[7, 8]] = map Inr [[0, 2, 7, 8]]" by (simp add: tcp_frame_def)
  have r: "arrivals_of 1 sample_arrivals = [[0, 2, 7], [8]]" by (simp add: sample_arrivals_def)
  have q: "quiet_reads [] (arrivals_of 1 sample_arrivals)" unfolding r by code_simp
  have "list_all (\<lambda>p. MatchKey (Meta p) = gu_matchKeyBuilder (gnet_udp.truncate sample_gnet) (endpoints_of sample_addr None)) (packets_of 1 sample_gnet_end)"
    "map Payload (packets_of 1 sample_gnet_end) = [[7, 8]]"
    using tcp_receiver_delivers_frames [OF sample_gnet_open c sample_gnet_end f p _ q] r by (simp_all add: list_all_iff)
  moreover have "gu_matchKeyBuilder (gnet_udp.truncate sample_gnet) (endpoints_of sample_addr None) = ''h:5''"
    by (simp add: sample_gnet_def gnet_udp.truncate_def endpoints_of_def sample_addr_def addrString_def)
  ultimately show ?thesis by simp
qed

theorem gnet_stats_freed_once_witness:
  "distinct (gn_freed sample_gnet_end) \<and> set (gn_freed sample_gnet_end) = {..< 1}"
proof -
  have e: "tcp_steps sample_gnet ([StopAsked, StartCalled True, Boots, Opens None None] @ Opens sample_addr None # sample_arrivals) (new_gnet_run gnet_sample_pool) = Some sample_gnet_end"
    using sample_gnet_open sample_gnet_end unfolding gnet_runs.steps_append by simp
  have "gn_taken sample_gnet_end = 1" "\<not> gn_running sample_gnet_end" by code_simp+
  then show ?thesis using gnet_stats_freed_once [OF e] by simp
qed

end
