(* ===== verification/GnetSender.thy ===== *)
theory GnetSender
  imports Framing Sharding GnetReceivers
begin

text \<open>
  The TCP sender (\<open>src/src/sender/gnet_tcp.go\<close>): its pool of connections. The gnet client is outside: what its calls return comes with the
  labels. \<open>Send\<close> runs in many goroutines: it picks a connection, dials when there is none, picks again and writes;
  \<open>Close\<close> empties the pool and then stops the client. A step is each of these.
\<close>

record tcp_sender =
  ts_name :: string
  ts_remote :: string
  ts_withU16BELen :: bool
  ts_concurrency :: nat
  ts_socketSendBuffer :: int
  ts_gnetLogLevel :: gnet_level

text \<open>Connections and clients are numbered in the order they are made. \<open>tn_written\<close> is what \<open>AsyncWrite\<close> took.\<close>

datatype tcp_send_phase = Picks | Dials | PicksAgain | Writes nat | TcpReturned "go_error option"

record tcp_pool =
  tn_client :: "nat option"
  tn_clients :: nat
  tn_stopped :: "nat list"
  tn_conns :: "nat list"
  tn_dialled :: nat
  tn_closed :: "nat list"
  tn_written :: "(nat \<times> bytes) list"
  tn_rr :: "64 word"
  tn_sends :: "(packet \<times> tcp_send_phase) list"
  tn_closing :: nat

definition GnetTCPSender_Key :: "tcp_sender \<Rightarrow> string" where "GnetTCPSender_Key s = ''tcp_gnet|'' @ ts_remote s"

text \<open>The dials of one round: those that succeed give new connections.\<close>

definition dial_round :: "bool list \<Rightarrow> nat \<Rightarrow> nat list" where
  "dial_round oks n = [n ..< n + length (filter id oks)]"

text \<open>
  \<open>ensureClientAndDial\<close>: the error of \<open>NewClient\<close> or \<open>Start\<close>, and how the \<open>concurrency\<close> dials end. The pool is
  overwritten, whatever was in it.
\<close>

definition ensureClientAndDial :: "go_error option \<Rightarrow> bool list \<Rightarrow> tcp_pool \<Rightarrow> go_error option \<times> tcp_pool" where
  "ensureClientAndDial client oks t =
     (case (if tn_client t = None then client else None) of
        Some err \<Rightarrow> (Some err, t)
      | None \<Rightarrow>
          (let t1 = (if tn_client t = None then t\<lparr>tn_client := Some (tn_clients t), tn_clients := Suc (tn_clients t)\<rparr> else t);
               new = dial_round oks (tn_dialled t1);
               t2 = t1\<lparr>tn_conns := new, tn_dialled := tn_dialled t1 + length new\<rparr>
           in (if new = [] then Some (errors_New ''tcp dial failed'') else None, t2)))"

definition empty_tcp_pool :: tcp_pool where
  "empty_tcp_pool = \<lparr>tn_client = None, tn_clients = 0, tn_stopped = [], tn_conns = [], tn_dialled = 0, tn_closed = [], tn_written = [], tn_rr = 0, tn_sends = [], tn_closing = 0\<rparr>"

definition NewGnetTCPSender ::
  "string \<Rightarrow> string \<Rightarrow> bool \<Rightarrow> int \<Rightarrow> int \<Rightarrow> string \<Rightarrow> go_error option \<Rightarrow> bool list \<Rightarrow> (tcp_sender \<times> tcp_pool) result" where
  "NewGnetTCPSender name remote withU16BELen concurrency socketSendBuffer gnetLogLevel client oks =
     (let s = \<lparr>ts_name = name, ts_remote = remote, ts_withU16BELen = withU16BELen, ts_concurrency = nat (if concurrency \<le> 0 then 1 else concurrency),
        ts_socketSendBuffer = socketSendBuffer, ts_gnetLogLevel = ParseGnetLogLevel gnetLogLevel\<rparr> in
      case ensureClientAndDial client oks empty_tcp_pool of (Some err, t) \<Rightarrow> Inl err | (None, t) \<Rightarrow> Inr (s, t))"

section \<open>Steps\<close>

definition set_tcp_send :: "nat \<Rightarrow> tcp_send_phase \<Rightarrow> tcp_pool \<Rightarrow> tcp_pool" where
  "set_tcp_send k ph t = t\<lparr>tn_sends := (tn_sends t)[k := (fst (tn_sends t ! k), ph)]\<rparr>"

text \<open>\<open>pickConn\<close> on the pool as it is; a panic ends the goroutine, here the call has no further step.\<close>

definition pick_step :: "nat \<Rightarrow> tcp_send_phase \<Rightarrow> tcp_pool \<Rightarrow> tcp_pool option" where
  "pick_step k missing t =
     (case pickConn (tn_rr t) (int (length (tn_conns t))) of
        (NoConn, rr) \<Rightarrow> Some (set_tcp_send k missing (t\<lparr>tn_rr := rr\<rparr>))
      | (PickConn i, rr) \<Rightarrow> Some (set_tcp_send k (Writes (tn_conns t ! nat i)) (t\<lparr>tn_rr := rr\<rparr>))
      | (IndexPanic, rr) \<Rightarrow> None)"

text \<open>The write: \<open>answer\<close> is the error of \<open>AsyncWrite\<close>, after which the connection is closed but stays in the pool.\<close>

definition write_step :: "tcp_sender \<Rightarrow> nat \<Rightarrow> nat \<Rightarrow> packet \<Rightarrow> go_error option \<Rightarrow> tcp_pool \<Rightarrow> tcp_pool" where
  "write_step s k c p answer t =
     (case tcp_frame (ts_name s) (ts_withU16BELen s) (Payload p) of
        Inl err \<Rightarrow> set_tcp_send k (TcpReturned (Some err)) t
      | Inr bs \<Rightarrow>
          (case answer of
             None \<Rightarrow> set_tcp_send k (TcpReturned None) (t\<lparr>tn_written := tn_written t @ [(c, bs)]\<rparr>)
           | Some err \<Rightarrow> set_tcp_send k (TcpReturned (Some err)) (t\<lparr>tn_closed := tn_closed t @ [c]\<rparr>)))"

text \<open>\<open>Close\<close>: the connections, then the client.\<close>

definition close_pool :: "tcp_pool \<Rightarrow> tcp_pool" where
  "close_pool t = t\<lparr>tn_closed := tn_closed t @ tn_conns t, tn_conns := [], tn_closing := Suc (tn_closing t)\<rparr>"

definition stop_client :: "tcp_pool \<Rightarrow> tcp_pool" where
  "stop_client t =
     (case tn_client t of
        None \<Rightarrow> t\<lparr>tn_closing := tn_closing t - 1\<rparr>
      | Some n \<Rightarrow> t\<lparr>tn_client := None, tn_stopped := tn_stopped t @ [n], tn_closing := tn_closing t - 1\<rparr>)"

datatype tcp_label = TcpSends packet | PickStep nat | DialStep nat "go_error option" "bool list" | WriteStep nat "go_error option" | ClosesConns | StopsClient

fun tcp_send_step :: "tcp_sender \<Rightarrow> tcp_label \<Rightarrow> tcp_pool \<Rightarrow> tcp_pool option" where
  "tcp_send_step s (TcpSends p) t = Some (t\<lparr>tn_sends := tn_sends t @ [(p, Picks)]\<rparr>)"
| "tcp_send_step s (PickStep k) t =
     (if k < length (tn_sends t) then
        (case snd (tn_sends t ! k) of
           Picks \<Rightarrow> pick_step k Dials t
         | PicksAgain \<Rightarrow> pick_step k (TcpReturned (Some (errors_New ''no tcp conn''))) t
         | _ \<Rightarrow> None)
      else None)"
| "tcp_send_step s (DialStep k client oks) t =
     (if k < length (tn_sends t) \<and> snd (tn_sends t ! k) = Dials \<and> length oks = ts_concurrency s
      then Some (set_tcp_send k PicksAgain (snd (ensureClientAndDial client oks t))) else None)"
| "tcp_send_step s (WriteStep k answer) t =
     (if k < length (tn_sends t) then
        (case tn_sends t ! k of (p, Writes c) \<Rightarrow> Some (write_step s k c p answer t) | _ \<Rightarrow> None)
      else None)"
| "tcp_send_step s ClosesConns t = Some (close_pool t)"
| "tcp_send_step s StopsClient t = (if tn_closing t > 0 then Some (stop_client t) else None)"

fun tcp_send_steps :: "tcp_sender \<Rightarrow> tcp_label list \<Rightarrow> tcp_pool \<Rightarrow> tcp_pool option" where
  "tcp_send_steps s [] t = Some t"
| "tcp_send_steps s (l # ls) t = (case tcp_send_step s l t of None \<Rightarrow> None | Some t' \<Rightarrow> tcp_send_steps s ls t')"

interpretation tcp_sends: runs "tcp_send_step s" "tcp_send_steps s" for s
  by unfold_locales simp_all

section \<open>The pool never heals\<close>

text \<open>Labels of an open sender, in which the client library refuses to write to a connection that was closed.\<close>

fun write_refused :: "tcp_pool \<Rightarrow> tcp_label \<Rightarrow> bool" where
  "write_refused t (WriteStep k answer) = (\<forall>c. k < length (tn_sends t) \<and> snd (tn_sends t ! k) = Writes c \<and> c \<in> set (tn_closed t) \<longrightarrow> answer \<noteq> None)"
| "write_refused t _ = True"

fun refused_along :: "tcp_sender \<Rightarrow> tcp_label list \<Rightarrow> tcp_pool \<Rightarrow> bool" where
  "refused_along s [] t = True"
| "refused_along s (l # ls) t = (write_refused t l \<and> (case tcp_send_step s l t of None \<Rightarrow> True | Some t' \<Rightarrow> refused_along s ls t'))"

definition stuck_pool :: "nat list \<Rightarrow> (nat \<times> bytes) list \<Rightarrow> nat \<Rightarrow> tcp_pool \<Rightarrow> bool" where
  "stuck_pool conns written dialled t \<longleftrightarrow> tn_conns t = conns \<and> set conns \<subseteq> set (tn_closed t) \<and> tn_written t = written \<and> tn_dialled t = dialled \<and>
     list_all (\<lambda>x. case snd x of Picks \<Rightarrow> True | Writes c \<Rightarrow> c \<in> set conns | TcpReturned err \<Rightarrow> True | _ \<Rightarrow> False) (tn_sends t)"

lemma list_all_set_send:
  assumes "list_all P (tn_sends t)" "P (fst (tn_sends t ! k), ph)" "k < length (tn_sends t)"
  shows "list_all P (tn_sends (set_tcp_send k ph t))"
  using assms by (auto simp: set_tcp_send_def list_all_length nth_list_update)

lemma set_tcp_send_frame [simp]:
  "tn_conns (set_tcp_send k ph t) = tn_conns t" "tn_closed (set_tcp_send k ph t) = tn_closed t" "tn_written (set_tcp_send k ph t) = tn_written t"
  "tn_dialled (set_tcp_send k ph t) = tn_dialled t" "tn_client (set_tcp_send k ph t) = tn_client t" "tn_closing (set_tcp_send k ph t) = tn_closing t"
  by (simp_all add: set_tcp_send_def)

lemma stuck_pool_set:
  assumes "stuck_pool conns written dialled t" "k < length (tn_sends t)" "ph = Picks \<or> (\<exists>c \<in> set conns. ph = Writes c) \<or> (\<exists>err. ph = TcpReturned err)"
    and "tn_conns t' = tn_conns t" "set (tn_closed t) \<subseteq> set (tn_closed t')" "tn_written t' = tn_written t" "tn_dialled t' = tn_dialled t" "tn_sends t' = tn_sends t"
  shows "stuck_pool conns written dialled (set_tcp_send k ph t')"
proof -
  let ?P = "\<lambda>x :: packet \<times> tcp_send_phase. case snd x of Picks \<Rightarrow> True | Writes c \<Rightarrow> c \<in> set conns | TcpReturned err \<Rightarrow> True | _ \<Rightarrow> False"
  have "list_all ?P (tn_sends t')" "?P (fst (tn_sends t' ! k), ph)" "k < length (tn_sends t')"
    using assms(1-3,8) by (auto simp: stuck_pool_def)
  then have "list_all ?P (tn_sends (set_tcp_send k ph t'))" by (rule list_all_set_send)
  then show ?thesis using assms(1,4-7) by (auto simp: stuck_pool_def)
qed

lemma pick_in_pool:
  assumes "pick_step k missing t = Some t'" "tn_conns t \<noteq> []"
  obtains c rr where "c \<in> set (tn_conns t)" "t' = set_tcp_send k (Writes c) (t\<lparr>tn_rr := rr\<rparr>)"
proof -
  obtain pk rr where p: "pickConn (tn_rr t) (int (length (tn_conns t))) = (pk, rr)" by fastforce
  have "pk \<noteq> NoConn" using p assms(2) by (auto simp: pickConn_def Let_def split: if_splits)
  moreover have "pk \<noteq> IndexPanic" using assms(1) p by (auto simp: pick_step_def)
  ultimately obtain i where i: "pk = PickConn i" by (cases pk) auto
  then have "0 \<le> i" "i < int (length (tn_conns t))" using p assms(2) by (auto simp: pickConn_def Let_def split: if_splits)
  then have "tn_conns t ! nat i \<in> set (tn_conns t)" by simp
  then show ?thesis using that assms(1) p i by (auto simp: pick_step_def)
qed

lemma stuck_pool_step:
  assumes "stuck_pool conns written dialled t" "conns \<noteq> []" "l \<noteq> ClosesConns" "tn_closing t = 0" "write_refused t l" "tcp_send_step s l t = Some t'"
  shows "stuck_pool conns written dialled t' \<and> tn_closing t' = 0"
proof -
  note st = assms(1) [unfolded stuck_pool_def]
  show ?thesis
  proof (cases l)
    case (TcpSends p)
    then show ?thesis using assms(4,6) st by (auto simp: stuck_pool_def)
  next
    case (PickStep k)
    then have k: "k < length (tn_sends t)" using assms(6) by (auto split: if_splits)
    have "snd (tn_sends t ! k) \<noteq> PicksAgain" using st k by (auto simp: list_all_length split: tcp_send_phase.splits)
    then have "pick_step k Dials t = Some t'" using assms(6) PickStep k by (auto split: tcp_send_phase.splits)
    then obtain c rr where c: "c \<in> set (tn_conns t)" "t' = set_tcp_send k (Writes c) (t\<lparr>tn_rr := rr\<rparr>)"
      using pick_in_pool st assms(2) by metis
    have "stuck_pool conns written dialled t'"
      unfolding c(2) by (rule stuck_pool_set [OF assms(1) k]) (use st c(1) in auto)
    then show ?thesis using c(2) assms(4) by simp
  next
    case (DialStep k client oks)
    then have "k < length (tn_sends t)" "snd (tn_sends t ! k) = Dials" using assms(6) by (auto split: if_splits)
    then show ?thesis using st by (auto simp: list_all_length split: tcp_send_phase.splits)
  next
    case (WriteStep k answer)
    then obtain p c where k: "k < length (tn_sends t)" "tn_sends t ! k = (p, Writes c)" "t' = write_step s k c p answer t"
      using assms(6) by (auto split: if_splits prod.splits tcp_send_phase.splits)
    have "c \<in> set conns" using st k(1,2) by (auto simp: list_all_length split: tcp_send_phase.splits)
    then have "c \<in> set (tn_closed t)" using st by blast
    then obtain err where a: "answer = Some err" using assms(5) WriteStep k(1,2) by auto
    show ?thesis
    proof (cases "tcp_frame (ts_name s) (ts_withU16BELen s) (Payload p)")
      case (Inl e)
      then have t': "t' = set_tcp_send k (TcpReturned (Some e)) t" using k(3) by (simp add: write_step_def)
      show ?thesis unfolding t' using assms(4) by (auto intro: stuck_pool_set [OF assms(1) k(1)])
    next
      case (Inr bs)
      then have t': "t' = set_tcp_send k (TcpReturned (Some err)) (t\<lparr>tn_closed := tn_closed t @ [c]\<rparr>)" using k(3) a by (simp add: write_step_def)
      show ?thesis unfolding t' using assms(4) by (auto intro!: stuck_pool_set [OF assms(1) k(1)])
    qed
  next
    case ClosesConns
    then show ?thesis using assms(3) by blast
  next
    case StopsClient
    then show ?thesis using assms(4,6) by simp
  qed
qed

text \<open>C31: a TCP sender does not recover. Send dials only when the pool is empty, and a connection that failed is closed but stays in
  the pool. So once every connection of the pool was closed by a failed write, and as the client library refuses to write to a closed
  connection, no later Send writes anything or dials again, however often the peer could be reached, until the sender is closed.\<close>

theorem tcp_sender_never_redials:
  assumes "tcp_send_steps s ls t = Some t'" "tn_conns t \<noteq> []" "set (tn_conns t) \<subseteq> set (tn_closed t)" "tn_closing t = 0"
    and "list_all (\<lambda>x. \<exists>err. snd x = TcpReturned err) (tn_sends t)" "ClosesConns \<notin> set ls" "refused_along s ls t"
  shows "tn_written t' = tn_written t \<and> tn_dialled t' = tn_dialled t \<and> tn_conns t' = tn_conns t"
proof -
  have "stuck_pool (tn_conns t) (tn_written t) (tn_dialled t) t" using assms(3,5) by (auto simp: stuck_pool_def list_all_iff)
  moreover have "stuck_pool conns written dialled u \<Longrightarrow> conns \<noteq> [] \<Longrightarrow> tn_closing u = 0 \<Longrightarrow> ClosesConns \<notin> set ls \<Longrightarrow> refused_along s ls u \<Longrightarrow>
      tcp_send_steps s ls u = Some t' \<Longrightarrow> stuck_pool conns written dialled t'" for conns written dialled u
  proof (induction ls arbitrary: u)
    case (Cons l ls)
    then obtain v where v: "tcp_send_step s l u = Some v" "tcp_send_steps s ls v = Some t'" by (auto split: option.splits)
    have "l \<noteq> ClosesConns" "write_refused u l" using Cons.prems(4,5) by auto
    then have "stuck_pool conns written dialled v \<and> tn_closing v = 0"
      using stuck_pool_step Cons.prems(1-3) v(1) by blast
    then show ?case using Cons.IH [of v] Cons.prems(2,4,5) v by simp
  qed simp
  ultimately have "stuck_pool (tn_conns t) (tn_written t) (tn_dialled t) t'" using assms(1,2,4,6,7) by blast
  then show ?thesis by (simp add: stuck_pool_def)
qed

section \<open>Witnesses\<close>

definition sample_tcp :: tcp_sender where
  "sample_tcp = \<lparr>ts_name = ''s'', ts_remote = ''h:1'', ts_withU16BELen = False, ts_concurrency = 2, ts_socketSendBuffer = 0, ts_gnetLogLevel = GnetInfo\<rparr>"

definition tcp_sample_packet :: packet where
  "tcp_sample_packet = \<lparr>Kind = PayloadKindStream, Meta = zero_meta, Payload = [7], ReleaseFn = None, paddr = 0\<rparr>"

definition sample_broken :: tcp_pool where
  "sample_broken = the (tcp_send_steps sample_tcp
     [TcpSends tcp_sample_packet, PickStep 0, WriteStep 0 None, TcpSends tcp_sample_packet, PickStep 1, WriteStep 1 (Some (errors_New ''e'')),
      TcpSends tcp_sample_packet, PickStep 2, WriteStep 2 (Some (errors_New ''e''))] (snd (ensureClientAndDial None [True, True] empty_tcp_pool)))"

definition sample_tries :: "tcp_label list" where
  "sample_tries = [TcpSends tcp_sample_packet, PickStep 3, WriteStep 3 (Some (errors_New ''closed''))]"

definition sample_tried :: tcp_pool where
  "sample_tried = the (tcp_send_steps sample_tcp sample_tries sample_broken)"

lemma sample_tried: "tcp_send_steps sample_tcp sample_tries sample_broken = Some sample_tried"
  unfolding sample_tried_def by (rule option.collapse [symmetric]) code_simp

lemma sample_broken_state:
  "(tn_conns sample_broken, tn_closed sample_broken, tn_closing sample_broken, map snd (tn_sends sample_broken), tn_written sample_broken) =
   ([0, 1], [1, 0], 0, [TcpReturned None, TcpReturned (Some (errors_New ''e'')), TcpReturned (Some (errors_New ''e''))], [(0, [7])])"
  by code_simp

lemma sample_tries_refused: "refused_along sample_tcp sample_tries sample_broken"
proof -
  have "write_refused t (TcpSends p)" "write_refused t (PickStep k)" "write_refused t (WriteStep k (Some e))" for t p k e by simp_all
  then show ?thesis by (simp add: sample_tries_def split: option.split)
qed

theorem tcp_sender_never_redials_witness:
  "tn_written sample_tried = [(0, [7])] \<and> tn_conns sample_tried = [0, 1]"
proof -
  note b = sample_broken_state [unfolded prod.inject]
  have "list_all (\<lambda>ph. \<exists>err. ph = TcpReturned err) (map snd (tn_sends sample_broken))" using b by simp
  then have "list_all (\<lambda>x. \<exists>err. snd x = TcpReturned err) (tn_sends sample_broken)" by (simp add: list_all_iff)
  moreover have "ClosesConns \<notin> set sample_tries" by (simp add: sample_tries_def)
  ultimately show ?thesis
    using tcp_sender_never_redials [OF sample_tried _ _ _ _ _ sample_tries_refused] b by simp
qed

text \<open>After \<open>Close\<close>, two calls of \<open>Send\<close> that both find the pool empty both dial: the second round overwrites the connections of the first,
  which nobody closes any more; and the sender is open again.\<close>

lemma tcp_send_after_close_leaks:
  "map_option (\<lambda>t. (tn_conns t, tn_closed t, tn_dialled t, tn_client t))
     (tcp_send_steps (sample_tcp\<lparr>ts_concurrency := 1\<rparr>)
       [ClosesConns, StopsClient, TcpSends tcp_sample_packet, TcpSends tcp_sample_packet, PickStep 0, PickStep 1, DialStep 0 None [True], DialStep 1 None [True]]
       (snd (ensureClientAndDial None [True] empty_tcp_pool))) = Some ([2], [0], 3, Some 1)"
  by code_simp

end
