(* ===== verification/KafkaSender.thy ===== *)
theory KafkaSender
  imports KafkaOptions Sharding
begin

text \<open>
  The Kafka sender (\<open>src/src/sender/kafka.go\<close>). In \<open>sync\<close> mode a \<open>Send\<close> produces its record itself. In \<open>async\<close> mode
  it puts the record into the bounded queue of its shard; a worker of each shard takes records out and hands
  them to the client, whose callbacks count successes and errors; \<open>Close\<close> stops the workers. All of this runs
  at the same time: the model is a step for each atomic action, chosen by its label, over one state.
\<close>

section \<open>The sender\<close>

text \<open>
  A record holds its value as a slice of the packet's payload, not a copy. The type of the value is a parameter:
  \<open>bytes\<close> where only the contents matter, a reference into the memory where sharing does.
\<close>

record 'v kafka_record =
  kr_Topic :: string
  kr_Value :: 'v
  kr_Key :: "bytes option"

record kafka_sender =
  ks_name :: string
  ks_brokers :: "string list"
  ks_topic :: string
  ks_concurrency :: nat
  ks_shardMask :: int
  ks_recordKey :: bytes
  ks_keySource :: string
  ks_sendMode :: string
  ks_asyncQueueSize :: nat
  ks_asyncBackpressure :: string
  ks_closeFlushTimeout :: int
  ks_opts :: "kgo_opt list"

definition is_async :: "kafka_sender \<Rightarrow> bool" where
  "is_async s \<longleftrightarrow> ks_sendMode s = ''async''"

text \<open>\<open>newClient\<close> is the error of \<open>kgo.NewClient\<close>; all shards use the same options.\<close>

definition NewKafkaSender :: "(kgo_opt list \<Rightarrow> go_error option) \<Rightarrow> string \<Rightarrow> sender_config \<Rightarrow> kafka_sender result" where
  "NewKafkaSender newClient name sc =
     bind_result (kafka_sender_opts sc) (\<lambda>(brs, closeFlushTimeout, opts).
       let concurrency = IntDefault (sc_Concurrency sc) 1;
           sendMode = (if blank (sc_SendMode sc) then DefaultKafkaSenderSendMode else trim_space (sc_SendMode sc));
           backpressure = (if blank (sc_AsyncBackpressure sc) then DefaultKafkaSenderBackpressure else trim_space (sc_AsyncBackpressure sc))
       in case newClient opts of
            Some err \<Rightarrow> Inl err
          | None \<Rightarrow> Inr
              \<lparr>ks_name = name, ks_brokers = brs, ks_topic = sc_Topic sc, ks_concurrency = nat concurrency, ks_shardMask = concurrency - 1,
               ks_recordKey = bytes_of_str (sc_RecordKey sc), ks_keySource = trim_space (sc_RecordKeySource sc),
               ks_sendMode = sendMode, ks_asyncQueueSize = nat (IntDefault (sc_AsyncQueueSize sc) DefaultKafkaSenderAsyncQueueSize),
               ks_asyncBackpressure = backpressure, ks_closeFlushTimeout = closeFlushTimeout, ks_opts = opts\<rparr>)"

definition kafka_record_of :: "kafka_sender \<Rightarrow> 'v \<Rightarrow> packet \<Rightarrow> 'v kafka_record" where
  "kafka_record_of s v p = \<lparr>kr_Topic = ks_topic s, kr_Value = v, kr_Key = RecordKey (ks_recordKey s) (ks_keySource s) p\<rparr>"

section \<open>The state\<close>

text \<open>
  A worker polls its queue without waiting, then waits for a record or for the closing, then drains. A \<open>Send\<close> that
  has passed the checks of \<open>Send\<close> is pending with its shard and record until the \<open>select\<close> of \<open>enqueueAsync\<close> has
  decided.
\<close>

datatype worker_phase = WPoll | WSelect | WDrain | WDone

datatype send_result = SendOk | SendErr go_error

record 'v kafka_run =
  kn_next :: "64 word"
  kn_closed :: bool
  kn_closeCh :: bool
  kn_clients :: "bool list"
  kn_queues :: "(nat \<times> 'v kafka_record) list list"
  kn_workers :: "worker_phase list"
  kn_pending :: "(nat \<times> nat \<times> 'v kafka_record) list"
  kn_inflight :: "(nat \<times> 'v kafka_record) list"
  kn_dropped :: "64 word"
  kn_sendErrors :: "64 word"
  kn_sendSuccess :: "64 word"
  kn_results :: "(nat \<times> send_result) list"
  kn_accepted :: "(nat \<times> nat) list"
  kn_produced :: "(nat \<times> nat) list"
  kn_acked :: "(nat \<times> bool) list"
  kn_sends :: nat

text \<open>
  The last five fields are a record of what happened: the result of each \<open>Send\<close> by its number, the sends put into a queue
  and the sends handed to the client, both with their shard, the outcomes that callbacks reported, and the number of
  sends.
\<close>

definition kafka_start :: "kafka_sender \<Rightarrow> 'v kafka_run" where
  "kafka_start s =
     \<lparr>kn_next = 0, kn_closed = False, kn_closeCh = False, kn_clients = replicate (ks_concurrency s) True,
      kn_queues = replicate (ks_concurrency s) [], kn_workers = replicate (ks_concurrency s) WPoll, kn_pending = [],
      kn_inflight = [], kn_dropped = 0, kn_sendErrors = 0, kn_sendSuccess = 0, kn_results = [], kn_accepted = [], kn_produced = [],
      kn_acked = [], kn_sends = 0\<rparr>"

definition closed_err :: go_error where "closed_err = errors_New ''kafka sender closed''"

definition finish :: "nat \<Rightarrow> send_result \<Rightarrow> 'v kafka_run \<Rightarrow> 'v kafka_run" where
  "finish n res r = r\<lparr>kn_results := kn_results r @ [(n, res)]\<rparr>"

section \<open>Send\<close>

text \<open>\<open>Send\<close> in async mode up to the \<open>select\<close>; \<open>rec\<close> is the record of the packet.\<close>

definition send_begin :: "kafka_sender \<Rightarrow> 'v kafka_record \<Rightarrow> 'v kafka_run \<Rightarrow> 'v kafka_run" where
  "send_begin s rec r0 =
     (let n = kn_sends r0; r = r0\<lparr>kn_sends := Suc n\<rparr> in
      if kn_closed r then finish n (SendErr closed_err) r
      else let (i, nxt) = nextShardIndex (kn_next r) (ks_shardMask s); r1 = r\<lparr>kn_next := nxt\<rparr> in
      if i < 0 \<or> int (length (kn_clients r)) \<le> i then finish n (SendErr closed_err) r1
      else if \<not> kn_clients r ! nat i then finish n (SendErr closed_err) r1
      else r1\<lparr>kn_pending := kn_pending r1 @ [(n, nat i, rec)]\<rparr>)"

text \<open>The cases of the \<open>select\<close>, for the pending send at position \<open>k\<close>.\<close>

definition take_pending :: "nat \<Rightarrow> 'v kafka_run \<Rightarrow> 'v kafka_run" where
  "take_pending k r = r\<lparr>kn_pending := take k (kn_pending r) @ drop (Suc k) (kn_pending r)\<rparr>"

definition send_enqueue :: "kafka_sender \<Rightarrow> nat \<Rightarrow> 'v kafka_run \<Rightarrow> 'v kafka_run option" where
  "send_enqueue s k r =
     (if k < length (kn_pending r) then
        let (n, i, rec) = kn_pending r ! k in
        if length (kn_queues r ! i) < ks_asyncQueueSize s then
          Some (finish n SendOk (take_pending k (r\<lparr>kn_queues := (kn_queues r)[i := kn_queues r ! i @ [(n, rec)]],
            kn_accepted := kn_accepted r @ [(i, n)]\<rparr>)))
        else None
      else None)"

definition send_closed :: "nat \<Rightarrow> 'v kafka_run \<Rightarrow> 'v kafka_run option" where
  "send_closed k r =
     (if k < length (kn_pending r) \<and> kn_closeCh r then
        Some (finish (fst (kn_pending r ! k)) (SendErr closed_err) (take_pending k r))
      else None)"

text \<open>The \<open>default\<close> case of \<open>error\<close> mode: nothing else is ready.\<close>

definition send_full :: "kafka_sender \<Rightarrow> nat \<Rightarrow> 'v kafka_run \<Rightarrow> 'v kafka_run option" where
  "send_full s k r =
     (if ks_asyncBackpressure s = ''error'' \<and> k < length (kn_pending r) then
        let (n, i, rec) = kn_pending r ! k in
        if \<not> kn_closeCh r \<and> \<not> length (kn_queues r ! i) < ks_asyncQueueSize s then
          Some (finish n (SendErr (errors_New ''kafka async queue full'')) (take_pending k (r\<lparr>kn_dropped := kn_dropped r + 1\<rparr>)))
        else None
      else None)"

text \<open>\<open>ctx.Done()\<close> in the other modes.\<close>

definition send_cancel :: "kafka_sender \<Rightarrow> go_error \<Rightarrow> nat \<Rightarrow> 'v kafka_run \<Rightarrow> 'v kafka_run option" where
  "send_cancel s err k r =
     (if ks_asyncBackpressure s \<noteq> ''error'' \<and> k < length (kn_pending r) then
        Some (finish (fst (kn_pending r ! k)) (SendErr err) (take_pending k (r\<lparr>kn_dropped := kn_dropped r + 1\<rparr>)))
      else None)"

section \<open>The workers\<close>

text \<open>The callback of \<open>produceAsyncItem\<close>.\<close>

definition callback :: "nat \<Rightarrow> bool \<Rightarrow> 'v kafka_run \<Rightarrow> 'v kafka_run" where
  "callback n ok r =
     (let r1 = r\<lparr>kn_acked := kn_acked r @ [(n, ok)]\<rparr> in
      if ok then r1\<lparr>kn_sendSuccess := kn_sendSuccess r1 + 1\<rparr> else r1\<lparr>kn_sendErrors := kn_sendErrors r1 + 1\<rparr>)"

text \<open>A client that is gone reports its error at once.\<close>

definition produceAsyncItem :: "nat \<Rightarrow> nat \<times> 'v kafka_record \<Rightarrow> 'v kafka_run \<Rightarrow> 'v kafka_run" where
  "produceAsyncItem idx item r =
     (let r1 = r\<lparr>kn_produced := kn_produced r @ [(idx, fst item)]\<rparr> in
      if kn_clients r1 ! idx then r1\<lparr>kn_inflight := kn_inflight r1 @ [item]\<rparr> else callback (fst item) False r1)"

definition worker_take :: "nat \<Rightarrow> 'v kafka_run \<Rightarrow> 'v kafka_run option" where
  "worker_take i r =
     (if i < length (kn_workers r) \<and> kn_workers r ! i \<noteq> WDone then
        (case kn_queues r ! i of
           [] \<Rightarrow> None
         | item # rest \<Rightarrow>
             Some (produceAsyncItem i item (r\<lparr>kn_queues := (kn_queues r)[i := rest],
               kn_workers := (kn_workers r)[i := (if kn_workers r ! i = WDrain then WDrain else WPoll)]\<rparr>)))
      else None)"

text \<open>No record is there: the poll falls through, the drain ends.\<close>

definition worker_empty :: "nat \<Rightarrow> 'v kafka_run \<Rightarrow> 'v kafka_run option" where
  "worker_empty i r =
     (if i < length (kn_workers r) \<and> kn_queues r ! i = [] then
        (case kn_workers r ! i of
           WPoll \<Rightarrow> Some (r\<lparr>kn_workers := (kn_workers r)[i := WSelect]\<rparr>)
         | WDrain \<Rightarrow> Some (r\<lparr>kn_workers := (kn_workers r)[i := WDone]\<rparr>)
         | _ \<Rightarrow> None)
      else None)"

definition worker_closing :: "nat \<Rightarrow> 'v kafka_run \<Rightarrow> 'v kafka_run option" where
  "worker_closing i r =
     (if i < length (kn_workers r) \<and> kn_workers r ! i = WSelect \<and> kn_closeCh r
      then Some (r\<lparr>kn_workers := (kn_workers r)[i := WDrain]\<rparr>) else None)"

definition client_ack :: "nat \<Rightarrow> bool \<Rightarrow> 'v kafka_run \<Rightarrow> 'v kafka_run option" where
  "client_ack k ok r =
     (if k < length (kn_inflight r) then
        Some (callback (fst (kn_inflight r ! k)) ok (r\<lparr>kn_inflight := take k (kn_inflight r) @ drop (Suc k) (kn_inflight r)\<rparr>))
      else None)"

section \<open>Close\<close>

text \<open>
  \<open>Close\<close> marks the sender, closes the channel, waits for workers and callbacks at most \<open>closeFlushTimeout\<close>, then
  closes the clients. The waits may end at any time, so closing a client is possible in any state after the channel
  is closed.
\<close>

definition close_mark :: "'v kafka_run \<Rightarrow> 'v kafka_run" where
  "close_mark r = r\<lparr>kn_closed := True\<rparr>"

definition close_channel :: "'v kafka_run \<Rightarrow> 'v kafka_run option" where
  "close_channel r = (if kn_closed r then Some (r\<lparr>kn_closeCh := True\<rparr>) else None)"

definition closeClient :: "nat \<Rightarrow> 'v kafka_run \<Rightarrow> 'v kafka_run option" where
  "closeClient i r = (if kn_closeCh r then Some (r\<lparr>kn_clients := (kn_clients r)[i := False]\<rparr>) else None)"

section \<open>Steps\<close>

datatype 'v kafka_label =
    SendBegin "'v kafka_record" | SendEnqueue nat | SendClosed nat | SendFull nat | SendCancel go_error nat
  | WorkerTake nat | WorkerEmpty nat | WorkerClosing nat | ClientAck nat bool | CloseMark | CloseChannel | CloseClient nat

fun kafka_step :: "kafka_sender \<Rightarrow> 'v kafka_label \<Rightarrow> 'v kafka_run \<Rightarrow> 'v kafka_run option" where
  "kafka_step s (SendBegin rec) r = Some (send_begin s rec r)"
| "kafka_step s (SendEnqueue k) r = send_enqueue s k r"
| "kafka_step s (SendClosed k) r = send_closed k r"
| "kafka_step s (SendFull k) r = send_full s k r"
| "kafka_step s (SendCancel err k) r = send_cancel s err k r"
| "kafka_step s (WorkerTake i) r = worker_take i r"
| "kafka_step s (WorkerEmpty i) r = worker_empty i r"
| "kafka_step s (WorkerClosing i) r = worker_closing i r"
| "kafka_step s (ClientAck k ok) r = client_ack k ok r"
| "kafka_step s CloseMark r = Some (close_mark r)"
| "kafka_step s CloseChannel r = close_channel r"
| "kafka_step s (CloseClient i) r = closeClient i r"

fun kafka_steps :: "kafka_sender \<Rightarrow> 'v kafka_label list \<Rightarrow> 'v kafka_run \<Rightarrow> 'v kafka_run option" where
  "kafka_steps s [] r = Some r"
| "kafka_steps s (l # ls) r = (case kafka_step s l r of None \<Rightarrow> None | Some r' \<Rightarrow> kafka_steps s ls r')"

section \<open>Send in sync mode, the statistics\<close>

text \<open>\<open>produce\<close> is \<open>ProduceSync\<close>.\<close>

definition send_sync :: "kafka_sender \<Rightarrow> (nat \<Rightarrow> bytes kafka_record \<Rightarrow> go_error option) \<Rightarrow> packet \<Rightarrow> 'v kafka_run \<Rightarrow> go_error option \<times> 'v kafka_run" where
  "send_sync s produce p r =
     (if kn_closed r then (Some closed_err, r)
      else let (i, nxt) = nextShardIndex (kn_next r) (ks_shardMask s); r1 = r\<lparr>kn_next := nxt\<rparr> in
      if i < 0 \<or> int (length (kn_clients r)) \<le> i then (Some closed_err, r1)
      else if \<not> kn_clients r ! nat i then (Some closed_err, r1)
      else (produce (nat i) (kafka_record_of s (Payload p) p), r1))"

record async_runtime_stats =
  as_QueueSize :: int
  as_QueueUsed :: int
  as_QueueAvailable :: int
  as_Dropped :: "64 word"
  as_SendErrors :: "64 word"
  as_SendSuccess :: "64 word"

definition AsyncRuntimeStats :: "kafka_sender \<Rightarrow> 'v kafka_run \<Rightarrow> async_runtime_stats" where
  "AsyncRuntimeStats s r =
     (let size = sum_list (map (\<lambda>_. int (ks_asyncQueueSize s)) (kn_queues r)); used = sum_list (map (\<lambda>q. int (length q)) (kn_queues r)) in
      if is_async s then
        \<lparr>as_QueueSize = size, as_QueueUsed = used, as_QueueAvailable = size - used, as_Dropped = kn_dropped r,
         as_SendErrors = kn_sendErrors r, as_SendSuccess = kn_sendSuccess r\<rparr>
      else \<lparr>as_QueueSize = 0, as_QueueUsed = 0, as_QueueAvailable = 0, as_Dropped = 0, as_SendErrors = 0, as_SendSuccess = 0\<rparr>)"

end
