(* ===== verification/KafkaProps.thy ===== *)
theory KafkaProps
  imports KafkaSender Runs
begin

text \<open>
  The runs of the asynchronous Kafka sender: no record is lost or sent twice between the queue, the client and its
  callbacks; each shard is first in, first out; the workers end after \<open>Close\<close>; and the gap between the two.
\<close>

interpretation kafka: runs "kafka_step s" "kafka_steps s" for s
  by unfold_locales simp_all

lemmas kafka_defs = send_begin_def send_enqueue_def send_closed_def send_full_def send_cancel_def worker_take_def worker_empty_def
  worker_closing_def client_ack_def close_mark_def close_channel_def closeClient_def finish_def take_pending_def callback_def
  produceAsyncItem_def

section \<open>The shape of the state\<close>

definition kafka_shape :: "kafka_sender \<Rightarrow> 'v kafka_run \<Rightarrow> bool" where
  "kafka_shape s r \<longleftrightarrow>
     length (kn_queues r) = ks_concurrency s \<and> length (kn_workers r) = ks_concurrency s \<and> length (kn_clients r) = ks_concurrency s \<and>
     list_all (\<lambda>q. length q \<le> ks_asyncQueueSize s) (kn_queues r) \<and>
     list_all (\<lambda>(n, i, rec). i < ks_concurrency s) (kn_pending r) \<and> (kn_closeCh r \<longrightarrow> kn_closed r)"

lemma list_all_update: "list_all P xs \<Longrightarrow> P x \<Longrightarrow> list_all P (xs[i := x])"
  by (auto simp: list_all_iff dest: set_update_subset_insert [THEN subsetD])

lemma list_all_drop_one: "list_all P xs \<Longrightarrow> list_all P (take k xs @ drop (Suc k) xs)"
  by (auto simp: list_all_iff dest: in_set_takeD in_set_dropD)

lemma list_all_nth: "list_all P xs \<Longrightarrow> k < length xs \<Longrightarrow> P (xs ! k)"
  by (simp add: list_all_length)

lemma shape_start: "kafka_shape s (kafka_start s)"
  by (simp add: kafka_shape_def kafka_start_def list_all_length)

lemma shape_begin:
  assumes "kafka_shape s r"
  shows "kafka_shape s (send_begin s rec r)"
proof -
  obtain i nxt where i: "nextShardIndex (kn_next r) (ks_shardMask s) = (i, nxt)" by fastforce
  show ?thesis using assms by (auto simp: kafka_shape_def send_begin_def finish_def i Let_def)
qed

lemma pending_in_range: "kafka_shape s r \<Longrightarrow> k < length (kn_pending r) \<Longrightarrow> kn_pending r ! k = (n, i, rec) \<Longrightarrow> i < ks_concurrency s"
  unfolding kafka_shape_def by (auto dest!: list_all_nth)

lemma shape_take_pending: "kafka_shape s r \<Longrightarrow> kafka_shape s (take_pending k r)"
  by (simp add: kafka_shape_def take_pending_def list_all_drop_one del: list_all_append)

lemma shape_frame [simp]:
  "kafka_shape s (finish n res r) = kafka_shape s r"
  "kafka_shape s (callback n ok r) = kafka_shape s r"
  "kafka_shape s (produceAsyncItem i item r) = kafka_shape s r"
  "kafka_shape s (r\<lparr>kn_dropped := d\<rparr>) = kafka_shape s r"
  "kafka_shape s (r\<lparr>kn_inflight := x\<rparr>) = kafka_shape s r"
  by (simp_all add: kafka_shape_def finish_def callback_def produceAsyncItem_def Let_def)

lemma shape_enqueue:
  assumes "kafka_shape s r" "send_enqueue s k r = Some r'"
  shows "kafka_shape s r'"
proof -
  obtain n i rec where p: "kn_pending r ! k = (n, i, rec)" by (metis surj_pair)
  have c: "k < length (kn_pending r)" "length (kn_queues r ! i) < ks_asyncQueueSize s"
    using assms(2) p by (auto simp: send_enqueue_def split: if_splits)
  have r: "r' = finish n SendOk (take_pending k (r\<lparr>kn_queues := (kn_queues r)[i := kn_queues r ! i @ [(n, rec)]],
      kn_accepted := kn_accepted r @ [(i, n)]\<rparr>))"
    using assms(2) c p by (simp add: send_enqueue_def)
  have "kafka_shape s (r\<lparr>kn_queues := (kn_queues r)[i := kn_queues r ! i @ [(n, rec)]], kn_accepted := kn_accepted r @ [(i, n)]\<rparr>)"
    using assms(1) c(2) by (simp add: kafka_shape_def list_all_update)
  then show ?thesis unfolding r by (simp add: shape_take_pending)
qed

lemma shape_take:
  assumes "kafka_shape s r" "worker_take i r = Some r'"
  shows "kafka_shape s r'"
proof -
  obtain item rest where q: "kn_queues r ! i = item # rest" "i < length (kn_workers r)" 
    using assms(2) by (auto simp: worker_take_def split: if_splits list.splits)
  have "length (item # rest) \<le> ks_asyncQueueSize s" using assms(1) q list_all_nth [of "\<lambda>q. length q \<le> ks_asyncQueueSize s" "kn_queues r" i]
    unfolding kafka_shape_def by (simp only: q(1))
  then have "kafka_shape s (r\<lparr>kn_queues := (kn_queues r)[i := rest], kn_workers := ws\<rparr>)" if "length ws = length (kn_workers r)" for ws
    using assms(1) that by (simp add: kafka_shape_def list_all_update)
  then show ?thesis using assms(2) q by (auto simp: worker_take_def split: if_splits)
qed

lemma shape_worker: "kafka_shape s r \<Longrightarrow> length ws = length (kn_workers r) \<Longrightarrow> kafka_shape s (r\<lparr>kn_workers := ws\<rparr>)"
  by (simp add: kafka_shape_def)

lemma shape_step:
  assumes "kafka_shape s r" "kafka_step s l r = Some r'"
  shows "kafka_shape s r'"
proof (cases l)
  case (SendBegin rec)
  then show ?thesis using assms shape_begin by auto
next
  case (SendEnqueue k)
  then show ?thesis using assms shape_enqueue by auto
next
  case (WorkerTake i)
  then show ?thesis using assms shape_take by auto
next
  case (WorkerEmpty i)
  then show ?thesis using assms by (auto simp: worker_empty_def shape_worker split: if_splits worker_phase.splits)
next
  case (ClientAck k ok)
  then show ?thesis using assms by (auto simp: client_ack_def split: if_splits)
next
  case CloseMark
  then show ?thesis using assms by (auto simp: close_mark_def kafka_shape_def)
next
  case CloseChannel
  then show ?thesis using assms by (auto simp: close_channel_def kafka_shape_def split: if_splits)
next
  case (CloseClient i)
  then show ?thesis using assms by (auto simp: closeClient_def kafka_shape_def split: if_splits)
qed (use assms in \<open>auto simp: send_closed_def send_full_def send_cancel_def worker_closing_def shape_take_pending shape_worker
      split: if_splits prod.splits\<close>)


section \<open>Each kind of step\<close>

lemma kafka_stepE:
  assumes "kafka_step s l r = Some r'"
  obtains
    (reject) nxt where "r' = finish (kn_sends r) (SendErr closed_err) (r\<lparr>kn_sends := Suc (kn_sends r), kn_next := nxt\<rparr>)"
  | (accept) nxt i rec where "r' = r\<lparr>kn_sends := Suc (kn_sends r), kn_next := nxt, kn_pending := kn_pending r @ [(kn_sends r, i, rec)]\<rparr>"
      "\<not> kn_closed r"
  | (enqueue) k n i rec where "k < length (kn_pending r)" "kn_pending r ! k = (n, i, rec)"
      "r' = finish n SendOk (take_pending k (r\<lparr>kn_queues := (kn_queues r)[i := kn_queues r ! i @ [(n, rec)]],
        kn_accepted := kn_accepted r @ [(i, n)]\<rparr>))"
  | (fail) k err d where "k < length (kn_pending r)"
      "r' = finish (fst (kn_pending r ! k)) (SendErr err) (take_pending k (r\<lparr>kn_dropped := d\<rparr>))"
  | (produce) i item rest p where "kn_queues r ! i = item # rest" "i < length (kn_workers r)" "kn_workers r ! i \<noteq> WDone" "p \<noteq> WDone"
      "r' = produceAsyncItem i item (r\<lparr>kn_queues := (kn_queues r)[i := rest], kn_workers := (kn_workers r)[i := p]\<rparr>)"
  | (work) i p where "i < length (kn_workers r)" "kn_workers r ! i \<noteq> WDone" "p = WDone \<longrightarrow> kn_queues r ! i = []"
      "r' = r\<lparr>kn_workers := (kn_workers r)[i := p]\<rparr>"
  | (ack) k ok where "k < length (kn_inflight r)"
      "r' = callback (fst (kn_inflight r ! k)) ok (r\<lparr>kn_inflight := take k (kn_inflight r) @ drop (Suc k) (kn_inflight r)\<rparr>)"
  | (closing) c ch cl where "r' = r\<lparr>kn_closed := c, kn_closeCh := ch, kn_clients := cl\<rparr>"
      "kn_closed r \<longrightarrow> c" "kn_closeCh r \<longrightarrow> ch"
proof (cases l)
  case (SendBegin rec)
  obtain i nxt where i: "nextShardIndex (kn_next r) (ks_shardMask s) = (i, nxt)" by fastforce
  have r: "r' = send_begin s rec r" using assms SendBegin by simp
  show ?thesis
  proof (cases "kn_closed r")
    case True
    then have "r' = finish (kn_sends r) (SendErr closed_err) (r\<lparr>kn_sends := Suc (kn_sends r), kn_next := kn_next r\<rparr>)"
      by (simp add: r send_begin_def finish_def Let_def)
    then show ?thesis by (rule reject)
  next
    case False
    show ?thesis
    proof (cases "i < 0 \<or> int (length (kn_clients r)) \<le> i \<or> \<not> kn_clients r ! nat i")
      case True
      then have "r' = finish (kn_sends r) (SendErr closed_err) (r\<lparr>kn_sends := Suc (kn_sends r), kn_next := nxt\<rparr>)"
        using False i by (auto simp: r send_begin_def finish_def Let_def)
      then show ?thesis by (rule reject)
    next
      case ready: False
      then have "r' = r\<lparr>kn_sends := Suc (kn_sends r), kn_next := nxt, kn_pending := kn_pending r @ [(kn_sends r, nat i, rec)]\<rparr>"
        using False i by (auto simp: r send_begin_def Let_def)
      then show ?thesis using False by (rule accept)
    qed
  qed
next
  case (SendEnqueue k)
  obtain n i rec where p: "kn_pending r ! k = (n, i, rec)" by (metis surj_pair)
  show ?thesis by (rule enqueue [OF _ p]) (use assms SendEnqueue p in \<open>auto simp: send_enqueue_def split: if_splits\<close>)
next
  case (SendClosed k)
  show ?thesis by (rule fail [of k closed_err "kn_dropped r"]) (use assms SendClosed in \<open>auto simp: send_closed_def split: if_splits\<close>)
next
  case (SendFull k)
  obtain n i rec where p: "kn_pending r ! k = (n, i, rec)" by (metis surj_pair)
  show ?thesis by (rule fail [of k "errors_New ''kafka async queue full''" "kn_dropped r + 1"])
    (use assms SendFull p in \<open>auto simp: send_full_def split: if_splits\<close>)
next
  case (SendCancel err k)
  show ?thesis by (rule fail [of k err "kn_dropped r + 1"]) (use assms SendCancel in \<open>auto simp: send_cancel_def split: if_splits\<close>)
next
  case (WorkerTake i)
  then obtain item rest where "kn_queues r ! i = item # rest" "i < length (kn_workers r)" "kn_workers r ! i \<noteq> WDone"
      "r' = produceAsyncItem i item (r\<lparr>kn_queues := (kn_queues r)[i := rest],
         kn_workers := (kn_workers r)[i := (if kn_workers r ! i = WDrain then WDrain else WPoll)]\<rparr>)"
    using assms by (auto simp: worker_take_def split: if_splits list.splits)
  then show ?thesis using produce [of i item rest "if kn_workers r ! i = WDrain then WDrain else WPoll"] by auto
next
  case (WorkerEmpty i)
  then consider "r' = r\<lparr>kn_workers := (kn_workers r)[i := WSelect]\<rparr>" "kn_workers r ! i = WPoll"
    | "r' = r\<lparr>kn_workers := (kn_workers r)[i := WDone]\<rparr>" "kn_workers r ! i = WDrain"
    using assms by (auto simp: worker_empty_def split: if_splits worker_phase.splits)
  then show ?thesis
  proof cases
    case 1
    show ?thesis by (rule work [of i WSelect]) (use assms WorkerEmpty 1 in \<open>auto simp: worker_empty_def split: if_splits\<close>)
  next
    case 2
    show ?thesis by (rule work [of i WDone]) (use assms WorkerEmpty 2 in \<open>auto simp: worker_empty_def split: if_splits\<close>)
  qed
next
  case (WorkerClosing i)
  show ?thesis by (rule work [of i WDrain]) (use assms WorkerClosing in \<open>auto simp: worker_closing_def split: if_splits\<close>)
next
  case (ClientAck k ok)
  show ?thesis by (rule ack [of k ok]) (use assms ClientAck in \<open>auto simp: client_ack_def split: if_splits\<close>)
next
  case CloseMark
  show ?thesis by (rule closing [where c = True and ch = "kn_closeCh r" and cl = "kn_clients r"]) (use assms CloseMark in \<open>auto simp: close_mark_def\<close>)
next
  case CloseChannel
  show ?thesis by (rule closing [where c = "kn_closed r" and ch = True and cl = "kn_clients r"]) (use assms CloseChannel in \<open>auto simp: close_channel_def split: if_splits\<close>)
next
  case (CloseClient i)
  show ?thesis by (rule closing [where c = "kn_closed r" and ch = "kn_closeCh r" and cl = "(kn_clients r)[i := False]"])
    (use assms CloseClient in \<open>auto simp: closeClient_def split: if_splits\<close>)
qed

section \<open>Nothing is lost\<close>

definition of_shard :: "nat \<Rightarrow> (nat \<times> nat) list \<Rightarrow> nat list" where
  "of_shard i xs = map snd (filter (\<lambda>x. fst x = i) xs)"

definition queued :: "(nat \<times> 'v) list list \<Rightarrow> nat \<Rightarrow> nat list" where
  "queued qs i = (if i < length qs then map fst (qs ! i) else [])"

text \<open>The first so many numbers, each once.\<close>

definition numbers :: "nat \<Rightarrow> nat multiset" where
  "numbers n = mset [0 ..< n]"

lemma numbers_simps [simp]: "numbers 0 = {#}" "numbers (Suc n) = add_mset n (numbers n)"
  by (simp_all add: numbers_def)

definition kafka_kept :: "'v kafka_run \<Rightarrow> bool" where
  "kafka_kept r \<longleftrightarrow>
     (\<forall>i. of_shard i (kn_produced r) @ queued (kn_queues r) i = of_shard i (kn_accepted r)) \<and>
     mset (map snd (kn_produced r)) = mset (map fst (kn_inflight r)) + mset (map fst (kn_acked r)) \<and>
     mset (map fst (kn_results r)) + mset (map fst (kn_pending r)) = numbers (kn_sends r) \<and>
     map snd (kn_accepted r) = map fst (filter (\<lambda>x. snd x = SendOk) (kn_results r)) \<and>
     kn_sendSuccess r = of_nat (length (filter snd (kn_acked r))) \<and>
     kn_sendErrors r = of_nat (length (filter (\<lambda>x. \<not> snd x) (kn_acked r)))"

definition kafka_balanced :: "'v kafka_run \<Rightarrow> bool" where
  "kafka_balanced r \<longleftrightarrow> mset (map snd (kn_accepted r)) = mset (map snd (kn_produced r)) + mset (map fst (concat (kn_queues r)))"

lemma mset_drop_one:
  assumes "k < length xs"
  shows "image_mset f (mset xs) = add_mset (f (xs ! k)) (image_mset f (mset (take k xs)) + image_mset f (mset (drop (Suc k) xs)))"
proof -
  have "image_mset f (mset xs) = image_mset f (mset (take k xs @ xs ! k # drop (Suc k) xs))"
    by (simp only: id_take_nth_drop [OF assms, symmetric])
  then show ?thesis by simp
qed

lemma concat_update: "i < length xs \<Longrightarrow> mset (concat (xs[i := y])) + mset (xs ! i) = mset (concat xs) + mset y"
proof (induction xs arbitrary: i)
  case (Cons x xs)
  then show ?case by (cases i) (auto simp: ac_simps)
qed simp

lemma concat_push: "i < length xs \<Longrightarrow> mset (concat (xs[i := xs ! i @ [x]])) = add_mset x (mset (concat xs))"
  using concat_update [of i xs "xs ! i @ [x]"] by simp

lemma concat_pop: "i < length xs \<Longrightarrow> xs ! i = x # rest \<Longrightarrow> mset (concat xs) = add_mset x (mset (concat (xs[i := rest])))"
  using concat_update [of i xs rest] by simp

lemma kept_start: "kafka_kept (kafka_start s)"
  by (simp add: kafka_kept_def kafka_start_def of_shard_def queued_def)

lemma of_shard_snoc [simp]: "of_shard i (xs @ [(j, n)]) = of_shard i xs @ (if i = j then [n] else [])"
  by (simp add: of_shard_def)


lemma kept_results:
  assumes "kafka_kept r" "k < length (kn_pending r)"
  shows "kafka_kept (finish (fst (kn_pending r ! k)) (SendErr err) (take_pending k (r\<lparr>kn_dropped := d\<rparr>)))"
  using assms mset_drop_one [OF assms(2), of fst] by (simp add: kafka_kept_def) (simp add: finish_def take_pending_def)

lemma kept_enqueue:
  assumes "kafka_kept r" "k < length (kn_pending r)" "kn_pending r ! k = (n, i, rec)" "i < length (kn_queues r)"
  shows "kafka_kept (finish n SendOk (take_pending k (r\<lparr>kn_queues := (kn_queues r)[i := kn_queues r ! i @ [(n, rec)]],
        kn_accepted := kn_accepted r @ [(i, n)]\<rparr>)))"
proof -
  let ?r = "finish n SendOk (take_pending k (r\<lparr>kn_queues := (kn_queues r)[i := kn_queues r ! i @ [(n, rec)]],
        kn_accepted := kn_accepted r @ [(i, n)]\<rparr>))"
  have q: "queued (kn_queues ?r) j = queued (kn_queues r) j @ (if j = i then [n] else [])" for j
    using assms(4) by (simp add: queued_def finish_def take_pending_def)
  have f: "of_shard j (kn_produced ?r) @ queued (kn_queues ?r) j = of_shard j (kn_accepted ?r)" for j
  proof -
    have "of_shard j (kn_produced r) @ queued (kn_queues r) j = of_shard j (kn_accepted r)" using assms(1) by (simp add: kafka_kept_def)
    then show ?thesis unfolding q by (simp add: finish_def take_pending_def)
  qed
  have m: "mset (map fst (kn_results ?r)) + mset (map fst (kn_pending ?r)) = numbers (kn_sends ?r)"
    using assms(1) mset_drop_one [OF assms(2), of fst] assms(3) by (simp add: kafka_kept_def finish_def take_pending_def)
  show ?thesis unfolding kafka_kept_def using f m assms(1) by (simp add: kafka_kept_def finish_def take_pending_def)
qed

lemma kept_callback:
  assumes "kafka_kept (r\<lparr>kn_inflight := (n, rec) # kn_inflight r\<rparr>)"
  shows "kafka_kept (callback n ok r)"
  using assms by (cases ok) (simp_all add: kafka_kept_def callback_def)

lemma kept_order:
  assumes "kafka_kept r" "mset (map fst xs) = mset (map fst (kn_inflight r))"
  shows "kafka_kept (r\<lparr>kn_inflight := xs\<rparr>)"
  using assms by (simp add: kafka_kept_def)

lemma kept_produce:
  assumes "kafka_kept r" "kn_queues r ! i = item # rest" "i < length (kn_queues r)"
  shows "kafka_kept (produceAsyncItem i item (r\<lparr>kn_queues := (kn_queues r)[i := rest], kn_workers := ws\<rparr>))"
proof -
  let ?r = "r\<lparr>kn_queues := (kn_queues r)[i := rest], kn_workers := ws, kn_produced := kn_produced r @ [(i, fst item)]\<rparr>"
  have f: "of_shard j (kn_produced ?r) @ queued (kn_queues ?r) j = of_shard j (kn_accepted ?r)" for j
  proof -
    have "of_shard j (kn_produced r) @ queued (kn_queues r) j = of_shard j (kn_accepted r)" using assms(1) by (simp add: kafka_kept_def)
    then show ?thesis using assms(2,3) by (auto simp: queued_def)
  qed
  have k: "kafka_kept (?r\<lparr>kn_inflight := xs\<rparr>)" if "mset (map fst xs) = add_mset (fst item) (mset (map fst (kn_inflight r)))" for xs
  proof -
    have "of_shard j (kn_produced (?r\<lparr>kn_inflight := xs\<rparr>)) @ queued (kn_queues (?r\<lparr>kn_inflight := xs\<rparr>)) j = of_shard j (kn_accepted (?r\<lparr>kn_inflight := xs\<rparr>))" for j
      using f [of j] by simp
    then show ?thesis using assms(1) that unfolding kafka_kept_def by simp
  qed
  have "kafka_kept (?r\<lparr>kn_inflight := kn_inflight r @ [item]\<rparr>)" "kafka_kept (?r\<lparr>kn_inflight := (fst item, snd item) # kn_inflight r\<rparr>)"
    by (rule k, simp)+
  then show ?thesis using kept_callback [where r = ?r and n = "fst item" and rec = "snd item" and ok = False] by (simp add: produceAsyncItem_def Let_def)
qed

lemma kept_step:
  assumes "kafka_shape s r" "kafka_kept r" "kafka_step s l r = Some r'"
  shows "kafka_kept r'"
proof -
  have c: "length (kn_queues r) = ks_concurrency s" "length (kn_workers r) = ks_concurrency s" using assms(1) by (simp_all add: kafka_shape_def)
  show ?thesis using assms(3)
  proof (cases rule: kafka_stepE)
    case (reject nxt)
    then show ?thesis using assms(2) by (simp add: kafka_kept_def finish_def)
  next
    case (accept nxt i rec)
    then show ?thesis using assms(2) by (simp add: kafka_kept_def)
  next
    case (enqueue k n i rec)
    show ?thesis unfolding enqueue(3)
      by (rule kept_enqueue [OF assms(2) enqueue(1,2)]) (simp add: c(1) pending_in_range [OF assms(1) enqueue(1,2)])
  next
    case (fail k err d)
    show ?thesis unfolding fail(2) by (rule kept_results [OF assms(2) fail(1)])
  next
    case (produce i item rest p)
    show ?thesis unfolding produce(5) by (rule kept_produce [OF assms(2) produce(1)]) (use produce(2) c in simp)
  next
    case (work i p)
    then show ?thesis using assms(2) by (simp add: kafka_kept_def)
  next
    case (ack k ok)
    obtain n rec where n: "kn_inflight r ! k = (n, rec)" by fastforce
    have "kafka_kept (r\<lparr>kn_inflight := (n, rec) # take k (kn_inflight r) @ drop (Suc k) (kn_inflight r)\<rparr>)"
      by (rule kept_order [OF assms(2)]) (use mset_drop_one [OF ack(1), of fst] n in simp)
    then show ?thesis unfolding ack(2) n fst_conv by (intro kept_callback [where rec = rec]) simp
  next
    case (closing c ch cl)
    then show ?thesis using assms(2) by (simp add: kafka_kept_def)
  qed
qed

lemma balanced_step:
  assumes "kafka_shape s r" "kafka_balanced r" "kafka_step s l r = Some r'"
  shows "kafka_balanced r'"
proof -
  have c: "length (kn_queues r) = ks_concurrency s" "length (kn_workers r) = ks_concurrency s" using assms(1) by (simp_all add: kafka_shape_def)
  show ?thesis using assms(3)
  proof (cases rule: kafka_stepE)
    case (enqueue k n i rec)
    have "i < length (kn_queues r)" using c(1) pending_in_range [OF assms(1) enqueue(1,2)] by simp
    then show ?thesis using assms(2) concat_push [of i "kn_queues r" "(n, rec)"]
      by (simp add: kafka_balanced_def enqueue(3) finish_def take_pending_def)
  next
    case (produce i item rest p)
    have "i < length (kn_queues r)" using c produce(2) by simp
    then show ?thesis using assms(2) concat_pop [OF _ produce(1)]
      by (simp add: kafka_balanced_def produce(5) produceAsyncItem_def callback_def Let_def)
  qed (use assms(2) in \<open>simp_all add: kafka_balanced_def finish_def take_pending_def callback_def Let_def\<close>)
qed

lemma balanced_start: "kafka_balanced (kafka_start s)"
proof -
  have "concat (replicate n []) = []" for n by (induction n) simp_all
  then show ?thesis by (simp add: kafka_balanced_def kafka_start_def)
qed

lemma reachable_inv:
  assumes "kafka_steps s ls (kafka_start s) = Some r"
  shows "kafka_shape s r \<and> kafka_kept r \<and> kafka_balanced r"
proof (rule kafka.invariant [OF _ assms])
  show "kafka_shape s (kafka_start s) \<and> kafka_kept (kafka_start s) \<and> kafka_balanced (kafka_start s)"
    by (simp add: shape_start kept_start balanced_start)
  show "kafka_shape s t \<and> kafka_kept t \<and> kafka_balanced t"
    if "kafka_shape s u \<and> kafka_kept u \<and> kafka_balanced u" "kafka_step s l u = Some t" for u t l
    using that shape_step kept_step balanced_step by metis
qed

text \<open>What was accepted is waiting, with the client, or reported.\<close>

lemma kafka_conserved:
  assumes "kafka_kept r" "kafka_balanced r"
  shows "mset (map fst (filter (\<lambda>x. snd x = SendOk) (kn_results r))) =
     mset (map fst (concat (kn_queues r))) + mset (map fst (kn_inflight r)) + mset (map fst (kn_acked r))"
proof -
  have "mset (map snd (kn_accepted r)) = mset (map fst (kn_inflight r)) + mset (map fst (kn_acked r)) + mset (map fst (concat (kn_queues r)))"
    using assms unfolding kafka_balanced_def kafka_kept_def by metis
  moreover have "map snd (kn_accepted r) = map fst (filter (\<lambda>x. snd x = SendOk) (kn_results r))"
    using assms(1) by (simp add: kafka_kept_def)
  ultimately show ?thesis by (simp only: add.commute add.left_commute)
qed

lemma kafka_distinct:
  assumes "kafka_kept r"
  shows "distinct (map fst (kn_results r))"
proof -
  have "mset (map fst (kn_results r)) \<subseteq># mset [0 ..< kn_sends r]" using assms unfolding kafka_kept_def numbers_def
    by (metis mset_subset_eq_add_left)
  then obtain m where m: "mset (map fst (kn_results r)) + m = mset [0 ..< kn_sends r]" by (metis subset_mset.add_diff_inverse)
  obtain ys where "mset ys = m" by (metis ex_mset)
  then have "mset (map fst (kn_results r) @ ys) = mset [0 ..< kn_sends r]" using m by simp
  then have "distinct (map fst (kn_results r) @ ys)" by (metis distinct_upt mset_eq_imp_distinct_iff)
  then show ?thesis by simp
qed

section \<open>After Close\<close>

fun phase_rank :: "worker_phase \<Rightarrow> nat" where
  "phase_rank WPoll = 3"
| "phase_rank WSelect = 2"
| "phase_rank WDrain = 1"
| "phase_rank WDone = 0"

definition work_left :: "'v kafka_run \<Rightarrow> nat" where
  "work_left r = 3 * length (concat (kn_queues r)) + length (kn_inflight r) + sum_list (map phase_rank (kn_workers r))"

definition drain_labels :: "'v kafka_label set" where
  "drain_labels = range WorkerTake \<union> range WorkerEmpty \<union> range WorkerClosing \<union> range (\<lambda>(k, ok). ClientAck k ok)"

lemma drain_labels_mem [simp]:
  "WorkerTake i \<in> drain_labels" "WorkerEmpty i \<in> drain_labels" "WorkerClosing i \<in> drain_labels" "ClientAck k ok \<in> drain_labels"
  by (simp_all add: drain_labels_def image_iff)

lemma rank_update: "i < length ws \<Longrightarrow> sum_list (map phase_rank (ws[i := p])) + phase_rank (ws ! i) = sum_list (map phase_rank ws) + phase_rank p"
proof (induction ws arbitrary: i)
  case (Cons w ws)
  then show ?case by (cases i) auto
qed simp

lemma length_concat_pop:
  assumes "i < length qs" "qs ! i = x # rest"
  shows "length (concat qs) = Suc (length (concat (qs[i := rest])))"
  using arg_cong [OF concat_pop [OF assms], of size] by simp

lemma work_decreases:
  assumes "l \<in> drain_labels" "kafka_shape s r" "kafka_step s l r = Some r'"
  shows "work_left r' < work_left r"
proof -
  have c: "length (kn_queues r) = length (kn_workers r)" using assms(2) by (simp add: kafka_shape_def)
  from assms(1) consider i where "l = WorkerTake i" | i where "l = WorkerEmpty i" | i where "l = WorkerClosing i"
    | k ok where "l = ClientAck k ok" by (auto simp: drain_labels_def)
  then show ?thesis
  proof cases
    case 1
    then obtain item rest where t: "kn_queues r ! i = item # rest" "i < length (kn_workers r)" "kn_workers r ! i \<noteq> WDone"
      "r' = produceAsyncItem i item (r\<lparr>kn_queues := (kn_queues r)[i := rest],
         kn_workers := (kn_workers r)[i := (if kn_workers r ! i = WDrain then WDrain else WPoll)]\<rparr>)"
      using assms(3) by (auto simp: worker_take_def split: if_splits list.splits)
    have "length (concat (kn_queues r)) = Suc (length (concat ((kn_queues r)[i := rest])))"
      by (rule length_concat_pop [OF _ t(1)]) (simp add: c t(2))
    moreover have "work_left r' \<le> 3 * length (concat ((kn_queues r)[i := rest])) + Suc (length (kn_inflight r)) +
        sum_list (map phase_rank ((kn_workers r)[i := (if kn_workers r ! i = WDrain then WDrain else WPoll)]))"
      by (simp add: work_left_def t(4) produceAsyncItem_def callback_def Let_def)
    moreover have "phase_rank (if kn_workers r ! i = WDrain then WDrain else WPoll) \<le> Suc (phase_rank (kn_workers r ! i))"
      using t(3) by (cases "kn_workers r ! i") simp_all
    ultimately show ?thesis using rank_update [OF t(2), of "if kn_workers r ! i = WDrain then WDrain else WPoll"]
      unfolding work_left_def by linarith
  next
    case 2
    then have "i < length (kn_workers r)" "\<exists>p. phase_rank p < phase_rank (kn_workers r ! i) \<and> r' = r\<lparr>kn_workers := (kn_workers r)[i := p]\<rparr>"
      using assms(3) by (auto simp: worker_empty_def split: if_splits worker_phase.splits intro: exI [of _ WSelect] exI [of _ WDone])
    then obtain p where "i < length (kn_workers r)" "phase_rank p < phase_rank (kn_workers r ! i)" "r' = r\<lparr>kn_workers := (kn_workers r)[i := p]\<rparr>"
      by blast
    then show ?thesis using rank_update [of i "kn_workers r" p] by (simp add: work_left_def)
  next
    case 3
    then have "i < length (kn_workers r)" "kn_workers r ! i = WSelect" "r' = r\<lparr>kn_workers := (kn_workers r)[i := WDrain]\<rparr>"
      using assms(3) by (auto simp: worker_closing_def split: if_splits)
    then show ?thesis using rank_update [of i "kn_workers r" WDrain] by (simp add: work_left_def)
  next
    case 4
    then show ?thesis using assms(3) by (auto simp: client_ack_def work_left_def callback_def Let_def split: if_splits)
  qed
qed


text \<open>A worker that has ended left its queue empty, and only a \<open>Send\<close> that was already pending can put something there.\<close>

definition tidy :: "'v kafka_run \<Rightarrow> bool" where
  "tidy r \<longleftrightarrow> kn_closeCh r \<and> kn_pending r = [] \<and> (\<forall>i < length (kn_workers r). kn_workers r ! i = WDone \<longrightarrow> kn_queues r ! i = [])"

lemma tidy_step:
  assumes "l \<in> drain_labels" "kafka_shape s r" "tidy r" "kafka_step s l r = Some r'"
  shows "tidy r'"
proof -
  have c: "length (kn_queues r) = length (kn_workers r)" using assms(2) by (simp add: kafka_shape_def)
  from assms(1) consider i where "l = WorkerTake i" | i where "l = WorkerEmpty i" | i where "l = WorkerClosing i"
    | k ok where "l = ClientAck k ok" by (auto simp: drain_labels_def)
  then show ?thesis
  proof cases
    case 1
    then show ?thesis using assms(3,4) c
      by (auto simp: tidy_def worker_take_def produceAsyncItem_def callback_def Let_def nth_list_update split: if_splits list.splits)
  next
    case 2
    then show ?thesis using assms(3,4) c
      by (auto simp: tidy_def worker_empty_def nth_list_update split: if_splits worker_phase.splits)
  next
    case 3
    then show ?thesis using assms(3,4) c by (auto simp: tidy_def worker_closing_def nth_list_update split: if_splits)
  next
    case 4
    then show ?thesis using assms(3,4) by (auto simp: tidy_def client_ack_def callback_def Let_def split: if_splits)
  qed
qed

text \<open>Nothing can be done any more: all workers have ended, the queues are empty and every callback has run.\<close>

lemma drained:
  assumes "kafka_shape s r" "tidy r" "\<And>l. l \<in> drain_labels \<Longrightarrow> kafka_step s l r = None"
  shows "list_all (\<lambda>w. w = WDone) (kn_workers r) \<and> concat (kn_queues r) = [] \<and> kn_inflight r = []"
proof (intro conjI)
  have c: "length (kn_queues r) = length (kn_workers r)" using assms(1) by (simp add: kafka_shape_def)
  have w: "kn_workers r ! i = WDone" if "i < length (kn_workers r)" for i
  proof (rule ccontr)
    assume n: "kn_workers r ! i \<noteq> WDone"
    have "worker_take i r = None" "worker_empty i r = None" "worker_closing i r = None"
      using assms(3) [of "WorkerTake i"] assms(3) [of "WorkerEmpty i"] assms(3) [of "WorkerClosing i"] by simp_all
    then show False using n that assms(2)
      by (auto simp: worker_take_def worker_empty_def worker_closing_def tidy_def split: list.splits worker_phase.splits if_splits)
  qed
  then show "list_all (\<lambda>w. w = WDone) (kn_workers r)" by (simp add: list_all_length)
  have "kn_queues r ! i = []" if "i < length (kn_queues r)" for i using w that c assms(2) unfolding tidy_def by simp
  then show "concat (kn_queues r) = []" by (metis concat_eq_Nil_conv in_set_conv_nth)
  show "kn_inflight r = []"
    using assms(3) [of "ClientAck 0 True"] by (simp add: client_ack_def split: if_splits)
qed

lemma drain_run:
  assumes "kafka_shape s r" "tidy r" "set ls \<subseteq> drain_labels" "kafka_steps s ls r = Some r'"
  shows "length ls \<le> work_left r \<and> kafka_shape s r' \<and> tidy r'"
proof -
  have "length ls + work_left r' \<le> work_left r"
    by (rule kafka.bounded_along [where P = "kafka_shape s" and L = drain_labels, OF _ assms(4,3,1)]) (use shape_step work_decreases in blast)
  moreover have "kafka_shape s r' \<and> tidy r'"
    by (rule kafka.invariant_along [where P = "\<lambda>r. kafka_shape s r \<and> tidy r" and L = drain_labels, OF _ assms(4,3)])
      (use assms(1,2) shape_step tidy_step in blast)+
  ultimately show ?thesis by simp
qed

section \<open>A record put into a queue nobody reads\<close>

text \<open>\<open>Send\<close> checked \<open>closed\<close> before \<open>Close\<close>; its \<open>select\<close> runs when the worker has ended, and may pick the queue.\<close>

definition late_send :: "nat \<Rightarrow> 'v kafka_record \<Rightarrow> 'v kafka_label list" where
  "late_send i rec = [SendBegin rec, CloseMark, CloseChannel, WorkerEmpty i, WorkerClosing i, WorkerEmpty i, SendEnqueue 0]"

definition stranded :: "nat \<Rightarrow> nat \<Rightarrow> 'v kafka_run \<Rightarrow> bool" where
  "stranded i n r \<longleftrightarrow> i < length (kn_workers r) \<and> i < length (kn_queues r) \<and> kn_workers r ! i = WDone \<and> n \<in> set (queued (kn_queues r) i)"

lemma stranded_step:
  assumes "kafka_shape s r" "stranded i n r" "kafka_step s l r = Some r'"
  shows "stranded i n r'"
  using assms(3)
proof (cases rule: kafka_stepE)
  case (enqueue k m j rec)
  then show ?thesis using assms(2)
    by (cases "j = i") (auto simp: stranded_def queued_def finish_def take_pending_def)
next
  case (produce j item rest p)
  then have "j \<noteq> i" using assms(2) by (auto simp: stranded_def)
  then show ?thesis using assms(2) by (simp add: produce(5) stranded_def queued_def produceAsyncItem_def callback_def Let_def)
next
  case (work j p)
  then have "j \<noteq> i" using assms(2) by (auto simp: stranded_def)
  then show ?thesis using assms(2) by (simp add: work(4) stranded_def)
qed (use assms(2) in \<open>simp_all add: stranded_def finish_def take_pending_def callback_def Let_def\<close>)

lemma stranded_unsent:
  assumes "kafka_shape s r" "kafka_kept r" "kafka_balanced r" "stranded i n r"
  shows "n \<notin> set (map fst (kn_acked r))"
proof
  assume a: "n \<in> set (map fst (kn_acked r))"
  have "kn_queues r ! i \<in> set (kn_queues r)" using assms(4) by (simp add: stranded_def)
  then have "n \<in> set (map fst (concat (kn_queues r)))" using assms(4) by (fastforce simp: stranded_def queued_def)
  then have "2 \<le> count (mset (map fst (concat (kn_queues r)))) n + count (mset (map fst (kn_acked r))) n"
    using a by (metis Suc_leI add_mono count_greater_zero_iff nat_1_add_1 One_nat_def set_mset_mset)
  moreover have "distinct (map fst (filter (\<lambda>x. snd x = SendOk) (kn_results r)))"
    using kafka_distinct [OF assms(2)] by (rule distinct_map_filter)
  then have "count (mset (map fst (filter (\<lambda>x. snd x = SendOk) (kn_results r)))) n \<le> 1" by (simp add: distinct_count_atmost_1)
  ultimately show False unfolding kafka_conserved [OF assms(2,3)] by simp
qed

lemma late_send_run:
  assumes "ks_concurrency s = c" "ks_shardMask s = int c - 1" "0 < c" "0 < ks_asyncQueueSize s"
    "i = nat (fst (nextShardIndex 0 (ks_shardMask s)))"
  shows "\<exists>r. kafka_steps s (late_send i rec) (kafka_start s) = Some r \<and> kn_results r = [(0, SendOk)] \<and> stranded i 0 r"
proof -
  obtain j nxt where j: "nextShardIndex 0 (ks_shardMask s) = (j, nxt)" by fastforce
  have r: "0 \<le> j" "j < int c" using nextShardIndex_range [of "int c" 0 j nxt] j assms(2,3) by simp_all
  then have i: "i < c" "\<not> j < 0" "\<not> int c \<le> j" "nat j = i" using assms(5) j by simp_all
  have b: "kafka_step s (SendBegin rec) (kafka_start s) = Some ((kafka_start s)\<lparr>kn_sends := 1, kn_next := nxt, kn_pending := [(0, i, rec)]\<rparr>)"
    using i assms(1) j by (simp add: send_begin_def kafka_start_def Let_def)
  show ?thesis using i(1) assms(1,4)
    by (simp add: late_send_def b del: kafka_step.simps(1))
      (simp add: kafka_start_def close_mark_def close_channel_def worker_empty_def worker_closing_def send_enqueue_def take_pending_def
        finish_def stranded_def queued_def)
qed


lemma drained_stuck:
  assumes "list_all (\<lambda>w. w = WDone) (kn_workers r)" "kn_inflight r = []" "l \<in> drain_labels"
  shows "kafka_step s l r = None"
  using assms by (auto simp: drain_labels_def worker_take_def worker_empty_def worker_closing_def client_ack_def list_all_length)

section \<open>Properties\<close>

text \<open>A sender with one shard and a queue for two records, to try them on.\<close>

definition kafka_one :: kafka_sender where
  "kafka_one = \<lparr>ks_name = ''k'', ks_brokers = [''b:9092''], ks_topic = ''t'', ks_concurrency = 1, ks_shardMask = 0, ks_recordKey = [],
     ks_keySource = [], ks_sendMode = ''async'', ks_asyncQueueSize = 2, ks_asyncBackpressure = ''error'', ks_closeFlushTimeout = 1,
     ks_opts = []\<rparr>"

definition rec_of :: "nat \<Rightarrow> nat kafka_record" where
  "rec_of v = \<lparr>kr_Topic = ''t'', kr_Value = v, kr_Key = None\<rparr>"

text \<open>C14: in every run of an asynchronous Kafka sender, however sends, workers, callbacks and \<open>Close\<close> interleave, each
  \<open>Send\<close> returns at most once, the records whose \<open>Send\<close> returned nil are exactly those waiting in a queue, held by the
  client or reported by a callback, each once; every shard hands its records over in the order it took them; no queue
  holds more than its size; and the two counters count the callbacks.\<close>

theorem kafka_conserves_records:
  assumes "kafka_steps s ls (kafka_start s) = Some r"
  shows "distinct (map fst (kn_results r)) \<and>
    mset (map fst (filter (\<lambda>x. snd x = SendOk) (kn_results r))) =
      mset (map fst (concat (kn_queues r))) + mset (map fst (kn_inflight r)) + mset (map fst (kn_acked r)) \<and>
    (\<forall>i. of_shard i (kn_produced r) @ queued (kn_queues r) i = of_shard i (kn_accepted r)) \<and>
    list_all (\<lambda>q. length q \<le> ks_asyncQueueSize s) (kn_queues r) \<and>
    kn_sendSuccess r = of_nat (length (filter snd (kn_acked r))) \<and>
    kn_sendErrors r = of_nat (length (filter (\<lambda>x. \<not> snd x) (kn_acked r)))"
proof -
  have i: "kafka_shape s r" "kafka_kept r" "kafka_balanced r" using reachable_inv [OF assms] by simp_all
  show ?thesis using i(1,2) kafka_distinct [OF i(2)] kafka_conserved [OF i(2,3)] unfolding kafka_shape_def kafka_kept_def by blast
qed

theorem kafka_conserves_records_witness:
  "\<exists>r. kafka_steps kafka_one (late_send 0 (rec_of 7)) (kafka_start kafka_one) = Some r \<and>
     {#0#} = mset (map fst (concat (kn_queues r))) + mset (map fst (kn_inflight r)) + mset (map fst (kn_acked r))"
proof -
  obtain r where r: "kafka_steps kafka_one (late_send 0 (rec_of 7)) (kafka_start kafka_one) = Some r" "kn_results r = [(0, SendOk)]"
    using late_send_run [of kafka_one 1 0 "rec_of 7"] by (auto simp: kafka_one_def nextShardIndex_def)
  then show ?thesis using kafka_conserves_records [OF r(1)] by auto
qed

text \<open>After \<open>Close\<close>, when no \<open>Send\<close> is under way any more and nothing was left in the queue of a worker that has ended,
  the workers and the callbacks come to an end: they can take at most \<open>work_left\<close> steps in any order, and when they cannot
  take another one, all workers have ended and every record whose \<open>Send\<close> returned nil was reported exactly once.\<close>

theorem kafka_close_drains:
  assumes "kafka_steps s before (kafka_start s) = Some r" "tidy r" "set ls \<subseteq> drain_labels" "kafka_steps s ls r = Some r'"
  shows "length ls \<le> 3 * length (concat (kn_queues r)) + length (kn_inflight r) + 3 * ks_concurrency s \<and>
    ((\<forall>l \<in> drain_labels. kafka_step s l r' = None) \<longrightarrow>
       list_all (\<lambda>w. w = WDone) (kn_workers r') \<and>
       mset (map fst (filter (\<lambda>x. snd x = SendOk) (kn_results r'))) = mset (map fst (kn_acked r')))"
proof -
  have "kafka_shape s r" using reachable_inv [OF assms(1)] by simp
  then have d: "length ls \<le> work_left r" "kafka_shape s r'" "tidy r'" using drain_run [OF _ assms(2,3,4)] by simp_all
  have "phase_rank w \<le> 3" for w by (cases w) simp_all
  then have "sum_list (map phase_rank ws) \<le> 3 * length ws" for ws by (induction ws) (simp_all add: add_mono)
  then have w: "work_left r \<le> 3 * length (concat (kn_queues r)) + length (kn_inflight r) + 3 * ks_concurrency s"
    using \<open>kafka_shape s r\<close> unfolding work_left_def kafka_shape_def by (metis add_left_mono)
  have "kafka_steps s (before @ ls) (kafka_start s) = Some r'" using assms(1,4) by (simp add: kafka.steps_append)
  then have "kafka_kept r'" "kafka_balanced r'" using reachable_inv by blast+
  then show ?thesis using kafka_conserved [of r'] drained [OF d(2,3)] d(1) w by simp
qed

theorem kafka_close_drains_witness:
  "let r = the (kafka_steps kafka_one [SendBegin (rec_of 7), SendEnqueue 0, CloseMark, CloseChannel] (kafka_start kafka_one));
       r' = the (kafka_steps kafka_one [WorkerTake 0, WorkerEmpty 0, ClientAck 0 True, WorkerClosing 0, WorkerEmpty 0] r)
   in mset (map fst (filter (\<lambda>x. snd x = SendOk) (kn_results r'))) = mset (map fst (kn_acked r'))"
proof -
  let ?b = "[SendBegin (rec_of 7), SendEnqueue 0, CloseMark, CloseChannel]"
  let ?ls = "[WorkerTake 0, WorkerEmpty 0, ClientAck 0 True, WorkerClosing 0, WorkerEmpty 0]"
  define r where "r = the (kafka_steps kafka_one ?b (kafka_start kafka_one))"
  define r' where "r' = the (kafka_steps kafka_one ?ls r)"
  have 1: "kafka_steps kafka_one ?b (kafka_start kafka_one) = Some r"
  proof -
    have "kafka_steps kafka_one ?b (kafka_start kafka_one) \<noteq> None" by code_simp
    then show ?thesis unfolding r_def by (rule option.collapse [symmetric])
  qed
  have 2: "kafka_steps kafka_one ?ls r = Some r'"
  proof -
    have "kafka_steps kafka_one ?ls r \<noteq> None" unfolding r_def by code_simp
    then show ?thesis unfolding r'_def by (rule option.collapse [symmetric])
  qed
  have "kn_closeCh r" "kn_pending r = []" "kn_workers r = [WPoll]" unfolding r_def by code_simp+
  then have 3: "tidy r" by (simp add: tidy_def)
  have 4: "set ?ls \<subseteq> drain_labels" by simp
  have "kn_workers r' = [WDone]" "kn_inflight r' = []" unfolding r'_def r_def by code_simp+
  then have "\<forall>l \<in> drain_labels. kafka_step kafka_one l r' = None" by (intro ballI drained_stuck) simp_all
  then show ?thesis using kafka_close_drains [OF 1 3 4 2] by (simp only: Let_def r_def [symmetric] r'_def [symmetric])
qed

text \<open>The gap between \<open>Send\<close> and \<open>Close\<close>: a \<open>Send\<close> that checked \<open>closed\<close> before \<open>Close\<close> set it can, when the worker of
  its shard has ended, still put its record into the queue and return nil. From then on, whatever happens, the record
  stays there: no callback ever reports it, it counts neither as success nor as error.\<close>

theorem kafka_late_send_is_lost:
  assumes "ks_shardMask s = int (ks_concurrency s) - 1" "0 < ks_concurrency s" "0 < ks_asyncQueueSize s"
    "i = nat (fst (nextShardIndex 0 (ks_shardMask s)))"
  shows "\<exists>r. kafka_steps s (late_send i rec) (kafka_start s) = Some r \<and> kn_results r = [(0, SendOk)] \<and>
    (\<forall>ls r'. kafka_steps s ls r = Some r' \<longrightarrow> 0 \<in> set (queued (kn_queues r') i) \<and> 0 \<notin> set (map fst (kn_acked r')))"
proof -
  obtain r where r: "kafka_steps s (late_send i rec) (kafka_start s) = Some r" "kn_results r = [(0, SendOk)]" "stranded i 0 r"
    using late_send_run [OF refl assms] by blast
  have "0 \<in> set (queued (kn_queues r') i) \<and> 0 \<notin> set (map fst (kn_acked r'))" if "kafka_steps s ls r = Some r'" for ls r'
  proof -
    have "kafka_steps s (late_send i rec @ ls) (kafka_start s) = Some r'" using r(1) that by (simp add: kafka.steps_append)
    then have i: "kafka_shape s r'" "kafka_kept r'" "kafka_balanced r'" using reachable_inv by blast+
    have "kafka_shape s r' \<and> stranded i 0 r'"
      by (rule kafka.invariant [OF _ that]) (use reachable_inv [OF r(1)] r(3) shape_step stranded_step in blast)+
    then show ?thesis using stranded_unsent [OF i, of _ 0] unfolding stranded_def by blast
  qed
  then show ?thesis using r(1,2) by blast
qed

theorem kafka_late_send_is_lost_witness:
  "\<exists>r. kafka_steps kafka_one (late_send 0 (rec_of 7)) (kafka_start kafka_one) = Some r \<and> kn_results r = [(0, SendOk)]"
  using kafka_late_send_is_lost [of kafka_one 0 "rec_of 7"] by (auto simp: kafka_one_def nextShardIndex_def)

end
