(* ===== verification/KafkaConfig.thy ===== *)
theory KafkaConfig
  imports KafkaProps ValidateProps
begin

text \<open>
  \<open>Validate\<close> against the constructor of the Kafka sender: which of the configurations that \<open>Validate\<close> accepts
  \<open>NewKafkaSender\<close> builds a sender from, and what that sender looks like.
\<close>

section \<open>A valid duration has no space around it\<close>

lemma printable_solid:
  assumes "33 \<le> (of_char c :: nat)" "(of_char c :: nat) \<le> 126"
  shows "solid c"
  unfolding solid_def space_seqs_def using assms by auto

lemma unit_last: "unit_ns u = Some n \<Longrightarrow> u \<noteq> [] \<and> solid (last u)"
  by (auto simp: unit_ns_def printable_solid split: if_splits)

lemma duration_step_split:
  assumes "duration_step s = Some (v, s')"
  shows "\<exists>w u. s = w @ u @ s' \<and> w \<noteq> [] \<and> (is_digit (hd w) \<or> hd w = CHR ''.'') \<and> u \<noteq> [] \<and> solid (last u)"
proof -
  define pre where "pre = takeWhile is_digit s"
  define s1 where "s1 = dropWhile is_digit s"
  define dot where "dot = (s1 \<noteq> [] \<and> hd s1 = CHR ''.'')"
  define frac where "frac = (if dot then takeWhile is_digit (tl s1) else [])"
  define s2 where "s2 = (if dot then dropWhile is_digit (tl s1) else s1)"
  define u where "u = takeWhile (\<lambda>c. \<not> (c = CHR ''.'' \<or> is_digit c)) s2"
  define s3 where "s3 = dropWhile (\<lambda>c. \<not> (c = CHR ''.'' \<or> is_digit c)) s2"
  define w where "w = pre @ (if dot then [CHR ''.''] else []) @ frac"
  have e: "duration_step s = (if (pre = [] \<and> frac = []) \<or> u = [] then None else case unit_ns u of None \<Rightarrow> None
      | Some n \<Rightarrow> let v = digits_value pre * n + digits_value frac * n div 10 ^ length frac
          in if digits_value pre * n > 2 ^ 63 \<or> v > 2 ^ 63 then None else Some (v, s3))"
    unfolding duration_step_def Let_def pre_def s1_def dot_def frac_def s2_def u_def s3_def by (rule refl)
  have a: "pre \<noteq> [] \<or> frac \<noteq> []" "s' = s3" "\<exists>n. unit_ns u = Some n"
    using assms unfolding e Let_def by (simp_all split: if_splits option.splits)
  have "s = pre @ s1" by (simp add: pre_def s1_def)
  moreover have "s1 = (if dot then [CHR ''.''] else []) @ frac @ s2"
    unfolding frac_def s2_def dot_def by (cases s1) simp_all
  moreover have "s2 = u @ s3" by (simp add: u_def s3_def)
  ultimately have s: "s = w @ u @ s'" using a(2) by (simp add: w_def)
  have "is_digit (hd w) \<or> hd w = CHR ''.''"
  proof (cases pre)
    case Nil
    then have dot using a(1) by (simp add: frac_def split: if_splits)
    then show ?thesis using Nil by (simp add: w_def)
  next
    case (Cons c cs)
    then have "c \<in> set pre" by simp
    then have "is_digit c" unfolding pre_def by (rule set_takeWhileD [THEN conjunct2])
    then show ?thesis using Cons by (simp add: w_def)
  qed
  moreover have "w \<noteq> []" using a(1) by (auto simp: w_def)
  moreover have "u \<noteq> [] \<and> solid (last u)" using a(3) unit_last by blast
  ultimately show ?thesis using s by blast
qed

lemma duration_loop_ends:
  "duration_loop s d = Some t \<Longrightarrow> s \<noteq> [] \<Longrightarrow> solid (hd s) \<and> solid (last s)"
proof (induction s d rule: duration_loop.induct)
  case (1 s d)
  obtain v s' where st: "duration_step s = Some (v, s')" "duration_loop s' (d + v) = Some t" "d + v \<le> 2 ^ 63"
    using 1(2,3) by (subst (asm) duration_loop.simps) (auto split: option.splits if_splits)
  obtain w u where w: "s = w @ u @ s'" "w \<noteq> []" "is_digit (hd w) \<or> hd w = CHR ''.''" "u \<noteq> []" "solid (last u)"
    using duration_step_split [OF st(1)] by blast
  have "solid (hd w)" using w(3) by (auto simp: is_digit_def intro: printable_solid)
  moreover have "solid (last s)"
  proof (cases "s' = []")
    case True
    then show ?thesis using w by simp
  next
    case False
    then show ?thesis using 1(1) [OF 1(3) st(1) refl _ st(2)] st(3) w(1) by simp
  qed
  ultimately show ?case using w(1,2) by simp
qed

lemma duration_trimmed:
  assumes "parse_duration v = Some d"
  shows "trim_space v = v"
proof (cases "v = ''0'' \<or> v = []")
  case True
  then show ?thesis using assms by (auto intro: trim_space_solid simp: printable_solid)
next
  case False
  define sg where "sg = (hd v = CHR ''-'' \<or> hd v = CHR ''+'')"
  define s where "s = (if sg then tl v else v)"
  have s: "s \<noteq> []" using assms False by (auto simp: parse_duration_def Let_def sg_def s_def split: if_splits)
  have l: "s = ''0'' \<or> (\<exists>t. duration_loop s 0 = Some t)"
    using assms False by (auto simp: parse_duration_def Let_def sg_def s_def split: if_splits option.splits)
  have e: "solid (hd s) \<and> solid (last s)"
  proof (cases "s = ''0''")
    case True
    then show ?thesis by (simp add: printable_solid)
  next
    case f: False
    then show ?thesis using l s duration_loop_ends by blast
  qed
  have "solid (hd v)" using e by (cases sg) (auto simp: s_def sg_def intro: printable_solid)
  moreover have "last v = last s" using s False by (cases v) (auto simp: s_def)
  ultimately show ?thesis using e False by (intro trim_space_solid) auto
qed

lemma valid_duration_built:
  assumes "validatePositiveDurationField kind name field v = None" "positive_duration dflt"
  shows "\<exists>d > 0. DurationOrDefault v dflt = Inr d"
proof -
  have d: "\<exists>d > 0. parse_duration x = Some d" if "positive_duration x" for x
    using that by (auto simp: positive_duration_def split: option.splits)
  show ?thesis
  proof (cases "blank v")
    case True
    obtain d where "d > 0" "parse_duration dflt = Some d" using d [OF assms(2)] by blast
    then show ?thesis using True by (auto simp: DurationOrDefault_def blank_def)
  next
    case False
    then have "positive_duration v" using assms(1)
      by (simp add: validatePositiveDurationField_def validatePositiveDurationByType_def only_if_def)
    then obtain e where e: "e > 0" "parse_duration v = Some e" using d by blast
    then show ?thesis using duration_trimmed [OF e(2)] False by (auto simp: DurationOrDefault_def blank_def)
  qed
qed


section \<open>What the constructor checks again\<close>

lemma default_durations:
  "positive_duration DefaultKafkaDialTimeout" "positive_duration DefaultKafkaSenderRequestTimeout" "positive_duration DefaultKafkaRetryTimeout"
  "positive_duration DefaultKafkaRetryBackoff" "positive_duration DefaultKafkaConnIdleTimeout" "positive_duration DefaultKafkaMetadataMaxAge"
  "positive_duration DefaultKafkaSenderCloseFlushTTL"
  by (simp_all add: positive_duration_def parse_duration_def duration_loop.simps duration_step_def is_digit_def unit_ns_def digits_value_def
      DefaultKafkaDialTimeout_def DefaultKafkaSenderRequestTimeout_def DefaultKafkaRetryTimeout_def DefaultKafkaRetryBackoff_def
      DefaultKafkaConnIdleTimeout_def DefaultKafkaMetadataMaxAge_def DefaultKafkaSenderCloseFlushTTL_def)

lemma word_trims: "trim_space ''none'' = ''none''" "trim_space ''gzip'' = ''gzip''" "trim_space ''snappy'' = ''snappy''" "trim_space ''lz4'' = ''lz4''"
  "trim_space ''zstd'' = ''zstd''" "trim_space ''sticky'' = ''sticky''" "trim_space ''round_robin'' = ''round_robin''"
  "trim_space ''hash_key'' = ''hash_key''" "trim_space ''sync'' = ''sync''" "trim_space ''async'' = ''async''"
  "trim_space ''PLAIN'' = ''PLAIN''" "trim_space ''plain'' = ''plain''"
  by code_simp+

lemma with_duration_ok: "DurationOrDefault v f = Inr d \<Longrightarrow> with_duration what v f k = k d"
  by (simp add: with_duration_def)

lemma codec_words:
  "to_lower (trim_space []) = []" "to_lower (trim_space ''none'') = ''none''" "to_lower (trim_space ''gzip'') = ''gzip''"
  "to_lower (trim_space ''snappy'') = ''snappy''" "to_lower (trim_space ''lz4'') = ''lz4''" "to_lower (trim_space ''zstd'') = ''zstd''"
  by code_simp+

lemma codec_values:
  "\<exists>r. CompressionCodec [] level = Inr r" "\<exists>r. CompressionCodec ''gzip'' level = Inr r" "\<exists>r. CompressionCodec ''snappy'' level = Inr r"
  "\<exists>r. CompressionCodec ''lz4'' level = Inr r" "\<exists>r. CompressionCodec ''zstd'' level = Inr r" "\<exists>e. CompressionCodec ''none'' level = Inl e"
  unfolding CompressionCodec_def Let_def codec_words by (simp_all add: ex_bool_eq)

lemma codec_accepts:
  assumes "c \<in> set [[], ''none'', ''gzip'', ''snappy'', ''lz4'', ''zstd'']"
  shows "(\<exists>r. CompressionCodec c level = Inr r) \<longleftrightarrow> c \<noteq> ''none''"
proof (cases "c = ''none''")
  case True
  then show ?thesis using codec_values(6) by (metis sum.distinct(1))
next
  case False
  then have "c = [] \<or> c = ''gzip'' \<or> c = ''snappy'' \<or> c = ''lz4'' \<or> c = ''zstd''"
    using assms unfolding list.set insert_iff empty_iff by blast
  then show ?thesis using codec_values [of level] False by metis
qed

lemma partitioner_accepts:
  assumes "v \<in> set [[], ''sticky'', ''round_robin'', ''hash_key'']"
  shows "\<exists>p. Partitioner v = Inr p"
proof -
  from assms consider "v = []" | "v = ''sticky''" | "v = ''round_robin''" | "v = ''hash_key''"
    unfolding list.set insert_iff empty_iff by blast
  then show ?thesis by cases (simp_all add: Partitioner_def Let_def word_trims)
qed

lemma sasl_accepts:
  assumes "validateKafkaAuth kind name mech u p = None"
  shows "(\<exists>r. BuildSASLMechanism mech u p = Inr r) \<longleftrightarrow> (blank u \<and> blank p \<and> mech = []) \<or> (\<not> blank u \<and> \<not> blank p)"
proof -
  have m: "mech \<in> set [[], ''PLAIN'', ''plain'']"
    using assms unfolding validateKafkaAuth_def by (metis list.set_intros(1) option.distinct(1))
  have l: "to_upper ''PLAIN'' = ''PLAIN''" "to_upper ''plain'' = ''PLAIN''" "to_upper [] = []" by code_simp+
  from m consider "mech = []" | "mech = ''PLAIN''" | "mech = ''plain''" unfolding list.set insert_iff empty_iff by blast
  then show ?thesis by cases (simp_all add: BuildSASLMechanism_def Let_def word_trims l blank_def)
qed

lemma validated_kafka_parts:
  assumes "validate_kafka_sender sn sc = None"
  shows "sc_Compression sc \<in> set [[], ''none'', ''gzip'', ''snappy'', ''lz4'', ''zstd'']"
    "validateKafkaSenderOptions sn sc = None" "validateKafkaAuth ''sender'' sn (sc_SASLMechanism sc) (sc_Username sc) (sc_Password sc) = None"
  using assms unfolding validate_kafka_sender_def Let_def first_err_steps not_not by blast+

lemma validated_option_parts:
  assumes "validateKafkaSenderOptions sn sc = None"
  shows "validatePositiveDurationField ''sender'' sn ''dial_timeout'' (sc_DialTimeout sc) = None"
    "validatePositiveDurationField ''sender'' sn ''request_timeout'' (sc_RequestTimeout sc) = None"
    "validatePositiveDurationField ''sender'' sn ''retry_timeout'' (sc_RetryTimeout sc) = None"
    "validatePositiveDurationField ''sender'' sn ''retry_backoff'' (sc_RetryBackoff sc) = None"
    "validatePositiveDurationField ''sender'' sn ''conn_idle_timeout'' (sc_ConnIdleTimeout sc) = None"
    "validatePositiveDurationField ''sender'' sn ''metadata_max_age'' (sc_MetadataMaxAge sc) = None"
    "validatePositiveDurationField ''sender'' sn ''close_flush_timeout'' (sc_CloseFlushTimeout sc) = None"
    "sc_SendMode sc \<in> set [[], ''sync'', ''async'']"
    "sc_Partitioner sc \<in> set [[], ''sticky'', ''round_robin'', ''hash_key'']"
  using assms unfolding validateKafkaSenderOptions_def Let_def first_err_steps not_not by blast+

definition auth_usable :: "sender_config \<Rightarrow> bool" where
  "auth_usable sc \<longleftrightarrow>
     (blank (sc_Username sc) \<and> blank (sc_Password sc) \<and> sc_SASLMechanism sc = []) \<or> (\<not> blank (sc_Username sc) \<and> \<not> blank (sc_Password sc))"

lemma bind_result_ok: "(\<exists>y. bind_result r k = Inr y) \<longleftrightarrow> (\<exists>x. r = Inr x \<and> (\<exists>y. k x = Inr y))"
  by (cases r) (simp_all add: bind_result_def)

lemma sender_opts_built:
  assumes "validate_kafka_sender sn sc = None"
  shows "(\<exists>r. kafka_sender_opts sc = Inr r) \<longleftrightarrow>
    \<not> blank (sc_Topic sc) \<and> SplitCSV (sc_Remote sc) \<noteq> [] \<and> sc_Compression sc \<noteq> ''none'' \<and> auth_usable sc"
proof -
  note v = validated_option_parts [OF validated_kafka_parts(2) [OF assms]]
  obtain d1 d2 d3 d4 d5 d6 d7 where d: "DurationOrDefault (sc_DialTimeout sc) DefaultKafkaDialTimeout = Inr d1"
    "DurationOrDefault (sc_RequestTimeout sc) DefaultKafkaSenderRequestTimeout = Inr d2"
    "DurationOrDefault (sc_RetryTimeout sc) DefaultKafkaRetryTimeout = Inr d3"
    "DurationOrDefault (sc_RetryBackoff sc) DefaultKafkaRetryBackoff = Inr d4"
    "DurationOrDefault (sc_ConnIdleTimeout sc) DefaultKafkaConnIdleTimeout = Inr d5"
    "DurationOrDefault (sc_MetadataMaxAge sc) DefaultKafkaMetadataMaxAge = Inr d6"
    "DurationOrDefault (sc_CloseFlushTimeout sc) DefaultKafkaSenderCloseFlushTTL = Inr d7"
    using valid_duration_built [OF v(1) default_durations(1)] valid_duration_built [OF v(2) default_durations(2)]
      valid_duration_built [OF v(3) default_durations(3)] valid_duration_built [OF v(4) default_durations(4)]
      valid_duration_built [OF v(5) default_durations(5)] valid_duration_built [OF v(6) default_durations(6)]
      valid_duration_built [OF v(7) default_durations(7)] by blast
  obtain pt where pt: "Partitioner (sc_Partitioner sc) = Inr pt" using partitioner_accepts [OF v(9)] by blast
  note c = codec_accepts [OF validated_kafka_parts(1) [OF assms], of "sc_CompressionLevel sc"]
    and a = sasl_accepts [OF validated_kafka_parts(3) [OF assms]]
  show ?thesis
  proof (cases "blank (sc_Topic sc) \<or> SplitCSV (sc_Remote sc) = []")
    case True
    then show ?thesis by (auto simp: kafka_sender_opts_def Let_def)
  next
    case False
    let ?codec = "CompressionCodec (sc_Compression sc) (sc_CompressionLevel sc)"
    let ?mech = "BuildSASLMechanism (sc_SASLMechanism sc) (sc_Username sc) (sc_Password sc)"
    have "(\<exists>r. kafka_sender_opts sc = Inr r) \<longleftrightarrow> (\<exists>r. ?codec = Inr r) \<and> (\<exists>r. ?mech = Inr r)"
      using False unfolding kafka_sender_opts_def Let_def d [THEN with_duration_ok] pt
      by (cases ?codec; cases ?mech) (simp_all add: bind_result_def split: prod.splits)
    then show ?thesis using False a c by (simp add: auth_usable_def)
  qed
qed


lemma built_sender_facts:
  assumes "NewKafkaSender newClient name sc = Inr s"
  shows "0 < ks_concurrency s \<and> ks_shardMask s = int (ks_concurrency s) - 1 \<and> 0 < ks_asyncQueueSize s"
proof -
  obtain brs cft opts where o: "kafka_sender_opts sc = Inr (brs, cft, opts)" "newClient opts = None"
    using assms by (cases "kafka_sender_opts sc") (auto simp: NewKafkaSender_def bind_result_def Let_def split: option.splits)
  have "0 < IntDefault v 1" "0 < IntDefault v DefaultKafkaSenderAsyncQueueSize" for v
    by (simp_all add: IntDefault_def DefaultKafkaSenderAsyncQueueSize_def)
  note p = this
  have "ks_concurrency s = nat (IntDefault (sc_Concurrency sc) 1)" "ks_shardMask s = IntDefault (sc_Concurrency sc) 1 - 1"
    "ks_asyncQueueSize s = nat (IntDefault (sc_AsyncQueueSize sc) DefaultKafkaSenderAsyncQueueSize)"
    using assms o by (auto simp: NewKafkaSender_def bind_result_def Let_def)
  then show ?thesis using p(1) [of "sc_Concurrency sc"] p(2) [of "sc_AsyncQueueSize sc"] by simp
qed

lemma new_sender_built:
  assumes "\<And>opts. newClient opts = None"
  shows "(\<exists>s. NewKafkaSender newClient name sc = Inr s) \<longleftrightarrow> (\<exists>r. kafka_sender_opts sc = Inr r)"
  by (cases "kafka_sender_opts sc") (auto simp: NewKafkaSender_def bind_result_def Let_def assms split: prod.splits)

section \<open>Property\<close>

text \<open>C25: from a Kafka sender configuration that \<open>Validate\<close> accepts, and with a client library that refuses nothing,
  \<open>NewKafkaSender\<close> builds a sender exactly when the topic and the broker list are not blank, the compression is not
  \<open>none\<close>, and user and password are both given, or both blank with no SASL mechanism named; the sender built has
  at least one shard, a mask for its shards and room in its queues. So \<open>none\<close>, which \<open>Validate\<close> and the documentation allow, never works.\<close>

theorem validated_kafka_sender_builds:
  assumes "validate_kafka_sender sn sc = None" "\<And>opts. newClient opts = None"
  shows "((\<exists>s. NewKafkaSender newClient name sc = Inr s) \<longleftrightarrow>
      \<not> blank (sc_Topic sc) \<and> SplitCSV (sc_Remote sc) \<noteq> [] \<and> sc_Compression sc \<noteq> ''none'' \<and>
      ((blank (sc_Username sc) \<and> blank (sc_Password sc) \<and> sc_SASLMechanism sc = []) \<or>
       (\<not> blank (sc_Username sc) \<and> \<not> blank (sc_Password sc)))) \<and>
    (\<forall>s. NewKafkaSender newClient name sc = Inr s \<longrightarrow>
       0 < ks_concurrency s \<and> ks_shardMask s = int (ks_concurrency s) - 1 \<and> 0 < ks_asyncQueueSize s)"
proof
  show "(\<exists>s. NewKafkaSender newClient name sc = Inr s) \<longleftrightarrow>
      \<not> blank (sc_Topic sc) \<and> SplitCSV (sc_Remote sc) \<noteq> [] \<and> sc_Compression sc \<noteq> ''none'' \<and>
      ((blank (sc_Username sc) \<and> blank (sc_Password sc) \<and> sc_SASLMechanism sc = []) \<or>
       (\<not> blank (sc_Username sc) \<and> \<not> blank (sc_Password sc)))"
    unfolding new_sender_built [OF assms(2)] sender_opts_built [OF assms(1)] auth_usable_def by (rule refl)
qed (use built_sender_facts in blast)

text \<open>A sender configuration as it comes out of the defaults.\<close>

definition kafka_sample :: sender_config where
  "kafka_sample = zero_sender_config\<lparr>sc_Type := ''kafka'', sc_Remote := ''b:9092'', sc_Topic := ''t'', sc_Concurrency := 1, sc_AsyncQueueSize := 8\<rparr>"

lemma kafka_sample_valid: "c \<in> {''none'', ''gzip''} \<Longrightarrow> validate_kafka_sender ''k'' (kafka_sample\<lparr>sc_Compression := c\<rparr>) = None"
proof -
  have "validate_kafka_sender ''k'' (kafka_sample\<lparr>sc_Compression := ''none''\<rparr>) = None" by code_simp
  moreover have "validate_kafka_sender ''k'' (kafka_sample\<lparr>sc_Compression := ''gzip''\<rparr>) = None" by code_simp
  ultimately show "c \<in> {''none'', ''gzip''} \<Longrightarrow> validate_kafka_sender ''k'' (kafka_sample\<lparr>sc_Compression := c\<rparr>) = None" by blast
qed

theorem validated_kafka_sender_builds_witness:
  "(\<exists>s. NewKafkaSender (\<lambda>opts. None) ''k'' (kafka_sample\<lparr>sc_Compression := ''gzip''\<rparr>) = Inr s) \<and>
   \<not> (\<exists>s. NewKafkaSender (\<lambda>opts. None) ''k'' (kafka_sample\<lparr>sc_Compression := ''none''\<rparr>) = Inr s)"
proof -
  have b: "\<not> blank ''t''" "SplitCSV ''b:9092'' \<noteq> []" "blank []" by code_simp+
  have f: "sc_Username kafka_sample = []" "sc_Password kafka_sample = []" "sc_SASLMechanism kafka_sample = []" "sc_Topic kafka_sample = ''t''"
    "sc_Remote kafka_sample = ''b:9092''" by (simp_all add: kafka_sample_def zero_sender_config_def)
  show ?thesis
    using validated_kafka_sender_builds [OF kafka_sample_valid, of "''gzip''" "\<lambda>opts. None" "''k''"]
      validated_kafka_sender_builds [OF kafka_sample_valid, of "''none''" "\<lambda>opts. None" "''k''"] b f by simp
qed

end
