(* ===== verification/SftpSender.thy ===== *)
theory SftpSender
  imports Sharding OssSender
begin

text \<open>
  The SFTP sender (\<open>src/src/sender/sftp.go\<close>): connections and transfers by shard, \<open>Send\<close>, \<open>Close\<close> and the
  constructor. The client libraries (\<open>ssh\<close>, \<open>pkg/sftp\<close>) are the record \<open>sftp_client\<close>: each operation takes
  and gives the state of the remote side, of type \<open>'r\<close>, and may fail. A \<open>Send\<close> runs under the lock of its
  shard; it is one step here.
\<close>

section \<open>Data\<close>

record 'r sftp_client =
  cl_Dial :: "'r \<Rightarrow> go_error option \<times> 'r"
  cl_NewClient :: "'r \<Rightarrow> go_error option \<times> 'r"
  cl_MkdirAll :: "string \<Rightarrow> 'r \<Rightarrow> go_error option \<times> 'r"
  cl_OpenFile :: "string \<Rightarrow> 'r \<Rightarrow> go_error option \<times> 'r"
  cl_WriteAt :: "string \<Rightarrow> bytes \<Rightarrow> int \<Rightarrow> 'r \<Rightarrow> go_error option \<times> 'r"
  cl_CloseFile :: "string \<Rightarrow> 'r \<Rightarrow> go_error option \<times> 'r"
  cl_Remove :: "string \<Rightarrow> 'r \<Rightarrow> go_error option \<times> 'r"
  cl_Rename :: "string \<Rightarrow> string \<Rightarrow> 'r \<Rightarrow> go_error option \<times> 'r"

text \<open>
  \<open>sn_conn\<close> says of each shard whether it has its two clients, which the code sets and clears together.
\<close>

record sftp_sender =
  sn_addr :: string
  sn_remoteDir :: string
  sn_tempSuffix :: string
  sn_concurrency :: int
  sn_shardMask :: int
  sn_conn :: "bool list"
  sn_connReady :: "bool list"
  sn_states :: "sftp_transfer_state gomap list"
  sn_transferShard :: "nat gomap"
  sn_nextIdx :: "64 word"

section \<open>Connections\<close>

definition invalidateConnLocked :: "nat \<Rightarrow> sftp_sender \<Rightarrow> sftp_sender" where
  "invalidateConnLocked idx s = s\<lparr>sn_conn := (sn_conn s)[idx := False], sn_connReady := (sn_connReady s)[idx := False]\<rparr>"

definition ensureConnLocked :: "'r sftp_client \<Rightarrow> nat \<Rightarrow> sftp_sender \<Rightarrow> 'r \<Rightarrow> go_error option \<times> sftp_sender \<times> 'r" where
  "ensureConnLocked cl idx s r =
     (if sn_conn s ! idx then (None, s, r)
      else case SplitHostPort (sn_addr s) of
             Inl err \<Rightarrow> (Some (Errorf ''invalid sftp remote addr %q: %w'' [AStr (sn_addr s), AErr err]), s, r)
           | Inr _ \<Rightarrow>
               (case cl_Dial cl r of
                  (Some err, r1) \<Rightarrow> (Some err, s, r1)
                | (None, r1) \<Rightarrow>
                    (case cl_NewClient cl r1 of
                       (Some err, r2) \<Rightarrow> (Some err, s, r2)
                     | (None, r2) \<Rightarrow>
                         (case cl_MkdirAll cl (sn_remoteDir s) r2 of
                            (Some err, r3) \<Rightarrow> (Some err, s, r3)
                          | (None, r3) \<Rightarrow>
                              (None, s\<lparr>sn_conn := (sn_conn s)[idx := True], sn_connReady := (sn_connReady s)[idx := True]\<rparr>, r3)))))"

section \<open>Shards and transfers\<close>

definition pickShard :: "string \<Rightarrow> sftp_sender \<Rightarrow> nat \<times> sftp_sender" where
  "pickShard tid s =
     (if sn_concurrency s \<le> 1 then (0, s)
      else case mget (sn_transferShard s) tid of
             Some idx \<Rightarrow> (idx, s)
           | None \<Rightarrow>
               (let (i, nxt) = nextShardIndex (sn_nextIdx s) (sn_shardMask s) in
                (nat i, s\<lparr>sn_nextIdx := nxt, sn_transferShard := mset_at tid (nat i) (sn_transferShard s)\<rparr>)))"

definition put_transfer :: "nat \<Rightarrow> string \<Rightarrow> sftp_transfer_state \<Rightarrow> sftp_sender \<Rightarrow> sftp_sender" where
  "put_transfer idx tid st s = s\<lparr>sn_states := (sn_states s)[idx := mset_at tid st (sn_states s ! idx)]\<rparr>"

definition cleanupCommittedTransferLocked :: "nat \<Rightarrow> string \<Rightarrow> sftp_sender \<Rightarrow> sftp_sender" where
  "cleanupCommittedTransferLocked idx tid s =
     s\<lparr>sn_states := (sn_states s)[idx := mdel tid (sn_states s ! idx)], sn_transferShard := mdel tid (sn_transferShard s)\<rparr>"

section \<open>One chunk\<close>

text \<open>\<open>OpenFile\<close>, \<open>WriteAt\<close>, \<open>Close\<close>.\<close>

definition write_chunk :: "'r sftp_client \<Rightarrow> string \<Rightarrow> packet \<Rightarrow> 'r \<Rightarrow> go_error option \<times> 'r" where
  "write_chunk cl tempPath p r =
     (case cl_OpenFile cl tempPath r of
        (Some err, r1) \<Rightarrow> (Some err, r1)
      | (None, r1) \<Rightarrow>
          (case cl_WriteAt cl tempPath (Payload p) (Offset (Meta p)) r1 of
             (Some err, r2) \<Rightarrow> (Some err, snd (cl_CloseFile cl tempPath r2))
           | (None, r2) \<Rightarrow> cl_CloseFile cl tempPath r2))"

definition received_chunk :: "packet \<Rightarrow> sftp_transfer_state \<Rightarrow> sftp_transfer_state" where
  "received_chunk p st =
     (let st1 = sftp_addRange st (Offset (Meta p)) (wrap64 (Offset (Meta p) + int (length (Payload p)))) in
      if EOF (Meta p) then st1\<lparr>sf_eofSeen := True\<rparr> else st1)"

text \<open>
  The part of \<open>sendLocked\<close> that works on the transfer: the new state, whether the file was committed, and the
  error. After an error the connection is dropped.
\<close>

definition chunk_to_transfer :: "'r sftp_client \<Rightarrow> packet \<Rightarrow> sftp_transfer_state \<Rightarrow> 'r \<Rightarrow>
    go_error option \<times> bool \<times> sftp_transfer_state \<times> 'r" where
  "chunk_to_transfer cl p st0 r =
     (let st = (if TotalSize (Meta p) > 0 then st0\<lparr>sf_totalSize := TotalSize (Meta p)\<rparr> else st0) in
      case write_chunk cl (sf_tempPath st) p r of
        (Some err, r1) \<Rightarrow> (Some err, False, st, r1)
      | (None, r1) \<Rightarrow>
          (let st' = received_chunk p st in
           if readyToCommit st' then
             (let (_, r2) = cl_Remove cl (sf_finalPath st') r1 in
              case cl_Rename cl (sf_tempPath st') (sf_finalPath st') r2 of
                (Some err, r3) \<Rightarrow> (Some err, False, st', r3)
              | (None, r3) \<Rightarrow> (None, True, st', r3))
           else (None, False, st', r1)))"

text \<open>The state of the transfer, made when it is new.\<close>

definition get_transfer :: "'r sftp_client \<Rightarrow> nat \<Rightarrow> string \<Rightarrow> packet \<Rightarrow> sftp_sender \<Rightarrow> 'r \<Rightarrow>
    sftp_transfer_state result \<times> sftp_sender \<times> 'r" where
  "get_transfer cl idx tid p s r =
     (case mget (sn_states s ! idx) tid of
        Some st \<Rightarrow> (Inr st, s, r)
      | None \<Rightarrow>
          (case sftpFinalPath (sn_remoteDir s) p tid of
             Inl err \<Rightarrow> (Inl (Errorf ''sftp sender build final path failed: %w'' [AErr err]), s, r)
           | Inr finalPath \<Rightarrow>
               (case cl_MkdirAll cl (path_dir finalPath) r of
                  (Some err, r1) \<Rightarrow> (Inl err, invalidateConnLocked idx s, r1)
                | (None, r1) \<Rightarrow>
                    (Inr \<lparr>sf_tempPath = finalPath @ sn_tempSuffix s, sf_finalPath = finalPath,
                          sf_totalSize = TotalSize (Meta p), sf_eofSeen = False, sf_coveredBytes = 0, sf_ranges = []\<rparr>, s, r1))))"

definition sendLocked :: "'r sftp_client \<Rightarrow> (bytes \<Rightarrow> bytes) \<Rightarrow> nat \<Rightarrow> string \<Rightarrow> packet \<Rightarrow> sftp_sender \<Rightarrow> 'r \<Rightarrow>
    go_error option \<times> sftp_sender \<times> 'r" where
  "sendLocked cl sha idx tid p s0 r0 =
     (case ensureConnLocked cl idx s0 r0 of
        (Some err, s, r) \<Rightarrow> (Some err, s, r)
      | (None, s, r) \<Rightarrow>
          (let want = trim_space (Checksum (Meta p)); got = hex_encode (sha (Payload p)) in
           if want \<noteq> [] \<and> lower_ascii got \<noteq> lower_ascii want then
             (Some (Errorf ''sftp sender checksum mismatch: got=%s want=%s transfer=%s'' [AStr got, AStr want, AStr tid]), s, r)
           else
             (case get_transfer cl idx tid p s r of
                (Inl err, s1, r1) \<Rightarrow> (Some err, s1, r1)
              | (Inr st, s1, r1) \<Rightarrow>
                  (case chunk_to_transfer cl p st r1 of
                     (Some err, _, st', r2) \<Rightarrow> (Some err, invalidateConnLocked idx (put_transfer idx tid st' s1), r2)
                   | (None, True, st', r2) \<Rightarrow> (None, cleanupCommittedTransferLocked idx tid (put_transfer idx tid st' s1), r2)
                   | (None, False, st', r2) \<Rightarrow> (None, put_transfer idx tid st' s1, r2)))))"

section \<open>Send, Close, NewSFTPSender\<close>

text \<open>\<open>ctx\<close> is \<open>ctx.Err()\<close>.\<close>

definition sftp_guard :: "go_error option \<Rightarrow> packet \<Rightarrow> go_error option" where
  "sftp_guard ctx p = first_err
     [ctx,
      fail_if (Kind p \<noteq> PayloadKindFileChunk) (Errorf ''sftp sender only accepts file_chunk payload'' []),
      fail_if (Offset (Meta p) < 0)
        (Errorf ''sftp sender offset must be >= 0: transfer=%s offset=%d'' [AStr (TransferID (Meta p)), AInt (Offset (Meta p))]),
      fail_if (trim_space (TransferID (Meta p)) = []) (Errorf ''sftp sender requires transfer_id for file_chunk payload'' [])]"

definition sftp_Send :: "'r sftp_client \<Rightarrow> (bytes \<Rightarrow> bytes) \<Rightarrow> go_error option \<Rightarrow> packet \<Rightarrow> sftp_sender \<Rightarrow> 'r \<Rightarrow>
    go_error option \<times> sftp_sender \<times> 'r" where
  "sftp_Send cl sha ctx p s r =
     (case sftp_guard ctx p of
        Some err \<Rightarrow> (Some err, s, r)
      | None \<Rightarrow>
          (let tid = trim_space (TransferID (Meta p)); (idx, s1) = pickShard tid s in
           case (if sn_connReady s1 ! idx then (None, s1, r) else ensureConnLocked cl idx s1 r) of
             (Some err, s2, r2) \<Rightarrow> (Some err, s2, r2)
           | (None, s2, r2) \<Rightarrow> sendLocked cl sha idx tid p s2 r2))"

definition sftp_Close :: "sftp_sender \<Rightarrow> sftp_sender" where
  "sftp_Close s = s\<lparr>sn_conn := map (\<lambda>_. False) (sn_conn s), sn_connReady := map (\<lambda>_. False) (sn_connReady s),
     sn_states := map (\<lambda>_. []) (sn_states s), sn_transferShard := []\<rparr>"

fun connect_shards :: "'r sftp_client \<Rightarrow> nat list \<Rightarrow> sftp_sender \<Rightarrow> 'r \<Rightarrow> go_error option \<times> sftp_sender \<times> 'r" where
  "connect_shards cl [] s r = (None, s, r)"
| "connect_shards cl (idx # idxs) s r =
     (case ensureConnLocked cl idx s r of
        (Some err, s', r') \<Rightarrow> (Some err, sftp_Close s', r')
      | (None, s', r') \<Rightarrow> connect_shards cl idxs s' r')"

definition new_sftp_sender :: "sender_config \<Rightarrow> sftp_sender" where
  "new_sftp_sender sc =
     (let suffix = (if blank (sc_TempSuffix sc) then ''.part'' else trim_space (sc_TempSuffix sc));
          c = (if sc_Concurrency sc > 0 then sc_Concurrency sc else DefaultSenderConcurrency) in
      \<lparr>sn_addr = trim_space (sc_Remote sc), sn_remoteDir = trim_space (sc_RemoteDir sc), sn_tempSuffix = suffix,
       sn_concurrency = c, sn_shardMask = c - 1, sn_conn = replicate (nat c) False, sn_connReady = replicate (nat c) False,
       sn_states = replicate (nat c) [], sn_transferShard = [], sn_nextIdx = 0\<rparr>)"

definition NewSFTPSender :: "'r sftp_client \<Rightarrow> sender_config \<Rightarrow> 'r \<Rightarrow> sftp_sender result \<times> 'r" where
  "NewSFTPSender cl sc r =
     (case first_err
        [fail_if (blank (sc_Remote sc)) (Errorf ''sftp sender requires remote'' []),
         fail_if (blank (sc_Username sc) \<or> blank (sc_Password sc)) (Errorf ''sftp sender requires username and password'' []),
         fail_if (blank (sc_RemoteDir sc)) (Errorf ''sftp sender requires remote_dir'' []),
         map_option (\<lambda>err. Errorf ''sftp sender invalid host_key_fingerprint: %w'' [AErr err])
           (ValidateSSHHostKeyFingerprint (sc_HostKeyFingerprint sc))] of
        Some err \<Rightarrow> (Inl err, r)
      | None \<Rightarrow>
          (let s = new_sftp_sender sc in
           case connect_shards cl [0 ..< nat (sn_concurrency s)] s r of
             (Some err, _, r') \<Rightarrow> (Inl err, r')
           | (None, s', r') \<Rightarrow> (Inr s', r')))"

end
