(* ===== verification/FileReceiver.thy ===== *)
theory FileReceiver
  imports MatchKey OssSender
begin

text \<open>
  The receivers that read files: \<open>src/src/receiver/sftp.go\<close> and \<open>src/src/receiver/oss.go\<close>. A file is read in
  chunks, each chunk becomes a packet; a file that was read is remembered by its fingerprint. The remote side
  (directory, objects, reads) and the context are the record \<open>source\<close> over a state \<open>'s\<close>. Loops over reads take
  fuel, one unit for each read; \<open>None\<close> means that the fuel ran out.
\<close>

section \<open>The remote side\<close>

datatype read_err = ReadEOF | ReadFail go_error

text \<open>
  \<open>src_read f n\<close> is one \<open>Read\<close> of at most \<open>n\<close> bytes of the opened file \<open>f\<close>; \<open>src_cancelled\<close> is \<open>ctx.Err() != nil\<close>.
\<close>

record 's source =
  src_cancelled :: "'s \<Rightarrow> bool"
  src_connect :: "'s \<Rightarrow> go_error option \<times> 's"
  src_open :: "string \<Rightarrow> 's \<Rightarrow> go_error option \<times> 's"
  src_read :: "string \<Rightarrow> nat \<Rightarrow> 's \<Rightarrow> bytes \<times> read_err option \<times> 's"

record dir_entry =
  de_Name :: string
  de_Regular :: bool
  de_Size :: int
  de_ModTime :: int

record object_info =
  ob_Key :: string
  ob_Size :: int
  ob_ModTime :: int
  ob_ETag :: string

section \<open>The loop over the reads\<close>

definition defaultInt :: "int \<Rightarrow> int \<Rightarrow> int" where
  "defaultInt v d = (if v \<le> 0 then d else v)"

definition chunk_size :: "receiver_config \<Rightarrow> nat" where
  "chunk_size rc = (let n = defaultInt (rc_ChunkSize rc) (64 * 1024) in nat (if n < 1024 then 1024 else n))"

definition fileChunkEOF :: "int \<Rightarrow> int \<Rightarrow> int \<Rightarrow> read_err option \<Rightarrow> bool" where
  "fileChunkEOF offset n totalSize readErr \<longleftrightarrow> readErr = Some ReadEOF \<or> (0 \<le> totalSize \<and> totalSize \<le> wrap64 (offset + n))"

text \<open>The packet of a chunk: offset, bytes and EOF go into the metadata \<open>m\<close> that the file gives every chunk.\<close>

definition chunk_packet :: "(bytes \<Rightarrow> bytes) \<Rightarrow> meta \<Rightarrow> int \<Rightarrow> bytes \<Rightarrow> bool \<Rightarrow> nat \<Rightarrow> nat \<Rightarrow> packet" where
  "chunk_packet sha m offset payload eof rel addr =
     \<lparr>Kind = PayloadKindFileChunk,
      Meta = m\<lparr>Offset := offset, Checksum := hex_encode (sha payload), EOF := eof\<rparr>,
      Payload = payload, ReleaseFn = Some rel, paddr = addr\<rparr>"

type_synonym 's streamed = "go_error option \<times> 's \<times> pool \<times> packet list"

text \<open>The loop gives its error, the state, the pool and the packets handed to \<open>onPacket\<close>, in order.\<close>

fun stream_loop :: "nat \<Rightarrow> 's source \<Rightarrow> (bytes \<Rightarrow> bytes) \<Rightarrow> string \<Rightarrow> nat \<Rightarrow> meta \<Rightarrow> int \<Rightarrow> 's \<Rightarrow> pool \<Rightarrow> packet list \<Rightarrow> 's streamed option" where
  "stream_loop 0 src sha f chunk m offset s w out = None"
| "stream_loop (Suc fuel) src sha f chunk m offset s w out =
     (if src_cancelled src s then Some (None, s, w, out)
      else
        let (bs, err, s1) = src_read src f chunk s;
            (offset', w', out') =
              (if bs \<noteq> [] then
                 let eof = fileChunkEOF offset (int (length bs)) (TotalSize m) err;
                     ((payload, rel), w1) = CopyFrom bs w
                 in (wrap64 (offset + int (length bs)), w1\<lparr>next_addr := Suc (next_addr w1)\<rparr>,
                     out @ [chunk_packet sha m offset payload eof rel (next_addr w1)])
               else (offset, w, out))
        in case err of
             Some ReadEOF \<Rightarrow> Some (None, s1, w', out')
           | Some (ReadFail e) \<Rightarrow> Some (Some e, s1, w', out')
           | None \<Rightarrow> stream_loop fuel src sha f chunk m offset' s1 w' out')"

section \<open>The SFTP receiver\<close>

record file_receiver =
  fx_name :: string
  fx_cfg :: receiver_config
  fx_matchKey :: "string \<Rightarrow> string"
  fx_seen :: "string gomap"

definition NewSFTPReceiver :: "string \<Rightarrow> receiver_config \<Rightarrow> (file_receiver \<times> string) result" where
  "NewSFTPReceiver name rc =
     (case first_err
        [fail_if (blank (rc_Listen rc)) (Errorf ''sftp receiver requires listen'' []),
         fail_if (blank (rc_Username rc)) (Errorf ''sftp receiver requires username'' []),
         fail_if (blank (rc_Password rc)) (Errorf ''sftp receiver requires password'' []),
         fail_if (blank (rc_RemoteDir rc)) (Errorf ''sftp receiver requires remote_dir'' []),
         map_option (\<lambda>err. Errorf ''sftp receiver invalid host_key_fingerprint: %w'' [AErr err])
           (ValidateSSHHostKeyFingerprint (rc_HostKeyFingerprint rc))] of
        Some err \<Rightarrow> Inl err
      | None \<Rightarrow>
          (case compileSFTPMatchKeyBuilder (rc_MatchKey rc) (rc_RemoteDir rc) of
             Inl err \<Rightarrow> Inl err
           | Inr (builder, mode) \<Rightarrow> Inr (\<lparr>fx_name = name, fx_cfg = rc, fx_matchKey = builder, fx_seen = []\<rparr>, mode)))"

definition isSeen :: "file_receiver \<Rightarrow> string \<Rightarrow> string \<Rightarrow> bool" where
  "isSeen r k sig \<longleftrightarrow> (case mget (fx_seen r) k of None \<Rightarrow> [] | Some v \<Rightarrow> v) = sig"

definition sftp_markSeen :: "string \<Rightarrow> string \<Rightarrow> file_receiver \<Rightarrow> file_receiver" where
  "sftp_markSeen k sig r = r\<lparr>fx_seen := mset_at k sig (fx_seen r)\<rparr>"

definition sftp_file_meta :: "file_receiver \<Rightarrow> string \<Rightarrow> int \<Rightarrow> meta" where
  "sftp_file_meta r filePath totalSize = zero_meta
     \<lparr>Proto := ProtoSFTP, ReceiverName := fx_name r, Remote := filePath, Local := rc_Listen (fx_cfg r),
      MatchKey := fx_matchKey r filePath, FileName := path_base filePath, FilePath := filePath,
      TransferID := filePath @ ''|'' @ itoa totalSize, TotalSize := totalSize\<rparr>"

definition streamFile :: "nat \<Rightarrow> 's source \<Rightarrow> (bytes \<Rightarrow> bytes) \<Rightarrow> file_receiver \<Rightarrow> string \<Rightarrow> int \<Rightarrow> 's \<Rightarrow> pool \<Rightarrow> packet list \<Rightarrow> 's streamed option" where
  "streamFile fuel src sha r filePath totalSize s w out =
     (case src_open src filePath s of
        (Some err, s1) \<Rightarrow> Some (Some err, s1, w, out)
      | (None, s1) \<Rightarrow>
          stream_loop fuel src sha filePath (chunk_size (fx_cfg r)) (sftp_file_meta r filePath totalSize) 0 s1 w out)"

text \<open>The loop of \<open>scanOnce\<close> over the sorted entries.\<close>

fun scan_files :: "nat \<Rightarrow> 's source \<Rightarrow> (bytes \<Rightarrow> bytes) \<Rightarrow> string \<Rightarrow> dir_entry list \<Rightarrow> file_receiver \<Rightarrow> 's \<Rightarrow> pool \<Rightarrow> packet list \<Rightarrow>
    (file_receiver \<times> 's streamed) option" where
  "scan_files fuel src sha dir [] r s w out = Some (r, None, s, w, out)"
| "scan_files fuel src sha dir (e # es) r s w out =
     (if \<not> de_Regular e then scan_files fuel src sha dir es r s w out
      else if src_cancelled src s then Some (r, None, s, w, out)
      else
        let fp = path_join dir (de_Name e);
            sig = itoa (de_Size e) @ ''-'' @ itoa (de_ModTime e)
        in if isSeen r fp sig then scan_files fuel src sha dir es r s w out
           else case streamFile fuel src sha r fp (de_Size e) s w out of
                  None \<Rightarrow> None
                | Some (Some err, s1, w1, out1) \<Rightarrow> Some (r, Some err, s1, w1, out1)
                | Some (None, s1, w1, out1) \<Rightarrow> scan_files fuel src sha dir es (sftp_markSeen fp sig r) s1 w1 out1)"

definition sftp_scanOnce :: "nat \<Rightarrow> 's source \<Rightarrow> (bytes \<Rightarrow> bytes) \<Rightarrow> (string \<Rightarrow> 's \<Rightarrow> dir_entry list result \<times> 's) \<Rightarrow>
    file_receiver \<Rightarrow> 's \<Rightarrow> pool \<Rightarrow> packet list \<Rightarrow> (file_receiver \<times> 's streamed) option" where
  "sftp_scanOnce fuel src sha readDir r s w out =
     (case SplitHostPort (trim_space (rc_Listen (fx_cfg r))) of
        Inl err \<Rightarrow> Some (r, Some (Errorf ''invalid sftp listen addr %q: %w'' [AStr (trim_space (rc_Listen (fx_cfg r))), AErr err]), s, w, out)
      | Inr _ \<Rightarrow>
          (case src_connect src s of
             (Some err, s1) \<Rightarrow> Some (r, Some err, s1, w, out)
           | (None, s1) \<Rightarrow>
               (let dir = trim_space (rc_RemoteDir (fx_cfg r)) in
                case readDir dir s1 of
                  (Inl err, s2) \<Rightarrow> Some (r, Some err, s2, w, out)
                | (Inr entries, s2) \<Rightarrow> scan_files fuel src sha dir (sort_key de_Name entries) r s2 w out)))"

section \<open>The OSS receiver\<close>

record oss_receiver = file_receiver +
  fx_seenOrder :: "string list"
  fx_seenLimit :: int

definition defaultOSSReceiverSeenLimit :: int where "defaultOSSReceiverSeenLimit = 10000"

text \<open>\<open>client\<close> is the error of \<open>minio.New\<close>.\<close>

definition NewOSSReceiver :: "go_error option \<Rightarrow> string \<Rightarrow> receiver_config \<Rightarrow> (oss_receiver \<times> string) result" where
  "NewOSSReceiver client name rc =
     (case first_err
        [fail_if (blank (rc_Endpoint rc)) (Errorf ''oss receiver requires endpoint'' []),
         fail_if (blank (rc_Bucket rc)) (Errorf ''oss receiver requires bucket'' []),
         fail_if (blank (rc_AccessKey rc) \<or> blank (rc_SecretKey rc)) (Errorf ''oss receiver requires access_key and secret_key'' []),
         client] of
        Some err \<Rightarrow> Inl err
      | None \<Rightarrow>
          (case compileOSSMatchKeyBuilder (rc_MatchKey rc) (rc_Bucket rc) of
             Inl err \<Rightarrow> Inl err
           | Inr (builder, mode) \<Rightarrow>
               Inr (\<lparr>fx_name = name, fx_cfg = rc, fx_matchKey = builder, fx_seen = [], fx_seenOrder = [],
                     fx_seenLimit = defaultOSSReceiverSeenLimit\<rparr>, mode)))"

text \<open>The eviction loop of \<open>markSeen\<close>: the oldest key goes while there are too many.\<close>

fun evict :: "int \<Rightarrow> string gomap \<Rightarrow> string list \<Rightarrow> string gomap \<times> string list" where
  "evict limit seen [] = (seen, [])"
| "evict limit seen (oldest # order) =
     (if int (length seen) > limit then evict limit (mdel oldest seen) order else (seen, oldest # order))"

definition oss_markSeen :: "string \<Rightarrow> string \<Rightarrow> oss_receiver \<Rightarrow> oss_receiver" where
  "oss_markSeen k sig r =
     (let order = (if mget (fx_seen r) k = None then fx_seenOrder r @ [k] else fx_seenOrder r);
          seen = mset_at k sig (fx_seen r);
          limit = (if fx_seenLimit r \<le> 0 then defaultOSSReceiverSeenLimit else fx_seenLimit r);
          (seen', order') = evict limit seen order
      in r\<lparr>fx_seen := seen', fx_seenOrder := order'\<rparr>)"

definition object_meta :: "oss_receiver \<Rightarrow> object_info \<Rightarrow> meta" where
  "object_meta r obj = zero_meta
     \<lparr>Proto := ProtoOSS, ReceiverName := fx_name r, Remote := ob_Key obj,
      Local := trim_space (rc_Bucket (fx_cfg r)) @ ''@'' @ trim_space (rc_Endpoint (fx_cfg r)),
      MatchKey := fx_matchKey r (ob_Key obj), FileName := path_base (ob_Key obj), FilePath := ob_Key obj,
      TransferID := trim_space (rc_Bucket (fx_cfg r)) @ ''|'' @ ob_Key obj @ ''|'' @ itoa (ob_Size obj) @ ''|'' @ ob_ETag obj,
      TotalSize := ob_Size obj\<rparr>"

definition streamObject :: "nat \<Rightarrow> 's source \<Rightarrow> (bytes \<Rightarrow> bytes) \<Rightarrow> oss_receiver \<Rightarrow> object_info \<Rightarrow> 's \<Rightarrow> pool \<Rightarrow> packet list \<Rightarrow> 's streamed option" where
  "streamObject fuel src sha r obj s w out =
     (case src_open src (ob_Key obj) s of
        (Some err, s1) \<Rightarrow> Some (Some err, s1, w, out)
      | (None, s1) \<Rightarrow> stream_loop fuel src sha (ob_Key obj) (chunk_size (fx_cfg r)) (object_meta r obj) 0 s1 w out)"

text \<open>The listing: the first error ends the scan; placeholders of directories are left out.\<close>

fun list_objects :: "object_info result list \<Rightarrow> object_info list \<Rightarrow> object_info list result" where
  "list_objects [] acc = Inr acc"
| "list_objects (Inl err # objs) acc = Inl err"
| "list_objects (Inr obj # objs) acc =
     (if ob_Key obj = [] \<or> has_suffix (ob_Key obj) ''/'' \<or> ob_Size obj < 0 then list_objects objs acc
      else list_objects objs (acc @ [obj]))"

fun scan_objects :: "nat \<Rightarrow> 's source \<Rightarrow> (bytes \<Rightarrow> bytes) \<Rightarrow> object_info list \<Rightarrow> oss_receiver \<Rightarrow> 's \<Rightarrow> pool \<Rightarrow> packet list \<Rightarrow>
    (oss_receiver \<times> 's streamed) option" where
  "scan_objects fuel src sha [] r s w out = Some (r, None, s, w, out)"
| "scan_objects fuel src sha (obj # objs) r s w out =
     (if src_cancelled src s then Some (r, None, s, w, out)
      else
        let sig = ob_Key obj @ ''|'' @ itoa (ob_Size obj) @ ''|'' @ itoa (ob_ModTime obj) @ ''|'' @ ob_ETag obj
        in if isSeen (file_receiver.truncate r) (ob_Key obj) sig then scan_objects fuel src sha objs r s w out
           else case streamObject fuel src sha r obj s w out of
                  None \<Rightarrow> None
                | Some (Some err, s1, w1, out1) \<Rightarrow> Some (r, Some err, s1, w1, out1)
                | Some (None, s1, w1, out1) \<Rightarrow> scan_objects fuel src sha objs (oss_markSeen (ob_Key obj) sig r) s1 w1 out1)"

definition oss_scanOnce :: "nat \<Rightarrow> 's source \<Rightarrow> (bytes \<Rightarrow> bytes) \<Rightarrow> (string \<Rightarrow> string \<Rightarrow> 's \<Rightarrow> object_info result list \<times> 's) \<Rightarrow>
    oss_receiver \<Rightarrow> 's \<Rightarrow> pool \<Rightarrow> packet list \<Rightarrow> (oss_receiver \<times> 's streamed) option" where
  "oss_scanOnce fuel src sha listObjects r s w out =
     (let (listing, s1) = listObjects (trim_space (rc_Bucket (fx_cfg r))) (trim_space (rc_Prefix (fx_cfg r))) s in
      case list_objects listing [] of
        Inl err \<Rightarrow> Some (r, Some err, s1, w, out)
      | Inr objects \<Rightarrow> scan_objects fuel src sha (sort_key ob_Key objects) r s1 w out)"

end
