(* ===== verification/ReceiverLife.thy ===== *)
theory ReceiverLife
  imports Runs FileReceiver KafkaOptions
begin

text \<open>
  \<open>Start\<close> and \<open>Stop\<close> of the receivers that poll (\<open>src/src/receiver/sftp.go\<close>, \<open>oss.go\<close>, \<open>kafka.go\<close>, \<open>local_timer.go\<close>): \<open>Start\<close> notes how
  to cancel it and a channel it will close, runs its loop and undoes both; \<open>Stop\<close> cancels what is noted and waits for the
  channel that is noted. \<open>Start\<close> runs in a goroutine of its own, so any interleaving of the two is possible. What a
  loop does between two looks at its context is a step of its body. Traffic counters are in \<open>TrafficStats\<close>.
\<close>

section \<open>The life of a receiver\<close>

text \<open>A body: whether \<open>Start\<close> is refused, one step of the loop (and whether the loop then returns), whether the loop waits in a \<open>select\<close> that sees
  the context, and what is undone at the end.\<close>

record ('i, 'b) receiver_body =
  rb_refused :: "'b \<Rightarrow> bool"
  rb_iterate :: "bool \<Rightarrow> 'i \<Rightarrow> 'b \<Rightarrow> ('b \<times> bool) option"
  rb_waits :: "'b \<Rightarrow> bool"
  rb_leave :: "'b \<Rightarrow> 'b"

datatype start_phase = StartLoop | StartReturns | StartLeft

datatype stop_phase = StopWaitsFor nat | StopDone | StopTimedOut

text \<open>
  The calls of \<open>Start\<close> are numbered; the cancel function and the channel of a call are its number. \<open>lf_stops\<close> are the calls
  of \<open>Stop\<close>.
\<close>

record 'b receiver_life =
  lf_body :: 'b
  lf_cancel :: "nat option"
  lf_done :: "nat option"
  lf_cancelled :: "nat list"
  lf_closed :: "nat list"
  lf_ctxDone :: bool
  lf_starts :: "start_phase list"
  lf_stops :: "stop_phase list"

definition new_life :: "'b \<Rightarrow> 'b receiver_life" where
  "new_life b = \<lparr>lf_body = b, lf_cancel = None, lf_done = None, lf_cancelled = [], lf_closed = [], lf_ctxDone = False, lf_starts = [], lf_stops = []\<rparr>"

text \<open>The locked beginning of \<open>Start\<close>, its deferred end, and the beginning of \<open>Stop\<close> with the call of the cancel function.\<close>

definition start_enter :: "'b receiver_life \<Rightarrow> 'b receiver_life" where
  "start_enter l =
     (let n = length (lf_starts l) in l\<lparr>lf_cancel := Some n, lf_done := Some n, lf_starts := lf_starts l @ [StartLoop]\<rparr>)"

definition start_leave :: "('b \<Rightarrow> 'b) \<Rightarrow> nat \<Rightarrow> 'b receiver_life \<Rightarrow> 'b receiver_life" where
  "start_leave leave n l =
     l\<lparr>lf_body := leave (lf_body l), lf_starts := (lf_starts l)[n := StartLeft],
       lf_cancelled := lf_cancelled l @ (case lf_cancel l of None \<Rightarrow> [] | Some m \<Rightarrow> [m]), lf_cancel := None,
       lf_closed := lf_closed l @ (case lf_done l of None \<Rightarrow> [] | Some m \<Rightarrow> [m]), lf_done := None\<rparr>"

definition stop_call :: "'b receiver_life \<Rightarrow> 'b receiver_life" where
  "stop_call l =
     l\<lparr>lf_cancelled := lf_cancelled l @ (case lf_cancel l of None \<Rightarrow> [] | Some m \<Rightarrow> [m]),
       lf_stops := lf_stops l @ [case lf_done l of None \<Rightarrow> StopDone | Some m \<Rightarrow> StopWaitsFor m]\<rparr>"

definition run_done :: "nat \<Rightarrow> 'b receiver_life \<Rightarrow> bool" where
  "run_done n l \<longleftrightarrow> lf_ctxDone l \<or> n \<in> set (lf_cancelled l)"

datatype 'i receiver_label =
    StartEnters | LoopDoes nat 'i | LoopSeesDone nat | StartLeaves nat | StopCalled | StopReturns nat | StopGivesUp nat | ParentEnds

fun receiver_step :: "('i, 'b) receiver_body \<Rightarrow> 'i receiver_label \<Rightarrow> 'b receiver_life \<Rightarrow> 'b receiver_life option" where
  "receiver_step rb StartEnters l = Some (if rb_refused rb (lf_body l) then l else start_enter l)"
| "receiver_step rb (LoopDoes n i) l =
     (if n < length (lf_starts l) \<and> lf_starts l ! n = StartLoop then
        (case rb_iterate rb (run_done n l) i (lf_body l) of
           None \<Rightarrow> None
         | Some (b, returns) \<Rightarrow> Some (l\<lparr>lf_body := b, lf_starts := (if returns then (lf_starts l)[n := StartReturns] else lf_starts l)\<rparr>))
      else None)"
| "receiver_step rb (LoopSeesDone n) l =
     (if n < length (lf_starts l) \<and> lf_starts l ! n = StartLoop \<and> rb_waits rb (lf_body l) \<and> run_done n l
      then Some (l\<lparr>lf_starts := (lf_starts l)[n := StartReturns]\<rparr>) else None)"
| "receiver_step rb (StartLeaves n) l =
     (if n < length (lf_starts l) \<and> lf_starts l ! n = StartReturns then Some (start_leave (rb_leave rb) n l) else None)"
| "receiver_step rb StopCalled l = Some (stop_call l)"
| "receiver_step rb (StopReturns k) l =
     (if k < length (lf_stops l) then
        (case lf_stops l ! k of
           StopWaitsFor m \<Rightarrow> if m \<in> set (lf_closed l) then Some (l\<lparr>lf_stops := (lf_stops l)[k := StopDone]\<rparr>) else None
         | _ \<Rightarrow> None)
      else None)"
| "receiver_step rb (StopGivesUp k) l =
     (if k < length (lf_stops l) then
        (case lf_stops l ! k of StopWaitsFor m \<Rightarrow> Some (l\<lparr>lf_stops := (lf_stops l)[k := StopTimedOut]\<rparr>) | _ \<Rightarrow> None)
      else None)"
| "receiver_step rb ParentEnds l = Some (l\<lparr>lf_ctxDone := True\<rparr>)"

fun receiver_steps :: "('i, 'b) receiver_body \<Rightarrow> 'i receiver_label list \<Rightarrow> 'b receiver_life \<Rightarrow> 'b receiver_life option" where
  "receiver_steps rb [] l = Some l"
| "receiver_steps rb (a # as) l = (case receiver_step rb a l of None \<Rightarrow> None | Some l' \<Rightarrow> receiver_steps rb as l')"

interpretation receiver_runs: runs "receiver_step rb" "receiver_steps rb" for rb
  by unfold_locales simp_all

section \<open>The bodies\<close>

text \<open>
  SFTP and OSS: a scan, then a wait for the context or the poll interval. \<open>fp_out\<close> are the packets handed on; the
  error of a scan is only logged.
\<close>

record ('r, 's) file_poll =
  fp_recv :: 'r
  fp_src :: 's
  fp_pool :: pool
  fp_out :: "packet list"
  fp_waits :: bool

datatype poll_label = Scan nat | PollOver

definition poll_interval :: "receiver_config \<Rightarrow> int" where
  "poll_interval rc = defaultInt (rc_PollIntervalSec rc) 5"

text \<open>\<open>fuel\<close> bounds the reads of one file in a scan (see \<open>stream_loop\<close>).\<close>

definition sftp_iterate ::
  "'s source \<Rightarrow> (bytes \<Rightarrow> bytes) \<Rightarrow> (string \<Rightarrow> 's \<Rightarrow> dir_entry list result \<times> 's) \<Rightarrow>
    bool \<Rightarrow> poll_label \<Rightarrow> (file_receiver, 's) file_poll \<Rightarrow> ((file_receiver, 's) file_poll \<times> bool) option" where
  "sftp_iterate src sha readDir dn i b =
     (case i of
        Scan fuel \<Rightarrow>
          if fp_waits b then None
          else (case sftp_scanOnce fuel src sha readDir (fp_recv b) (fp_src b) (fp_pool b) (fp_out b) of
                  None \<Rightarrow> None
                | Some (r, err, s, w, out) \<Rightarrow> Some (b\<lparr>fp_recv := r, fp_src := s, fp_pool := w, fp_out := out, fp_waits := True\<rparr>, False))
      | PollOver \<Rightarrow> if fp_waits b then Some (b\<lparr>fp_waits := False\<rparr>, False) else None)"

definition oss_iterate ::
  "'s source \<Rightarrow> (bytes \<Rightarrow> bytes) \<Rightarrow> (string \<Rightarrow> string \<Rightarrow> 's \<Rightarrow> object_info result list \<times> 's) \<Rightarrow>
    bool \<Rightarrow> poll_label \<Rightarrow> (oss_receiver, 's) file_poll \<Rightarrow> ((oss_receiver, 's) file_poll \<times> bool) option" where
  "oss_iterate src sha listObjects dn i b =
     (case i of
        Scan fuel \<Rightarrow>
          if fp_waits b then None
          else (case oss_scanOnce fuel src sha listObjects (fp_recv b) (fp_src b) (fp_pool b) (fp_out b) of
                  None \<Rightarrow> None
                | Some (r, err, s, w, out) \<Rightarrow> Some (b\<lparr>fp_recv := r, fp_src := s, fp_pool := w, fp_out := out, fp_waits := True\<rparr>, False))
      | PollOver \<Rightarrow> if fp_waits b then Some (b\<lparr>fp_waits := False\<rparr>, False) else None)"

definition sftp_body ::
  "'s source \<Rightarrow> (bytes \<Rightarrow> bytes) \<Rightarrow> (string \<Rightarrow> 's \<Rightarrow> dir_entry list result \<times> 's) \<Rightarrow>
    (poll_label, (file_receiver, 's) file_poll) receiver_body" where
  "sftp_body src sha readDir =
     \<lparr>rb_refused = \<lambda>b. False, rb_iterate = sftp_iterate src sha readDir, rb_waits = fp_waits, rb_leave = \<lambda>b. b\<lparr>fp_waits := False\<rparr>\<rparr>"

definition oss_body ::
  "'s source \<Rightarrow> (bytes \<Rightarrow> bytes) \<Rightarrow> (string \<Rightarrow> string \<Rightarrow> 's \<Rightarrow> object_info result list \<times> 's) \<Rightarrow>
    (poll_label, (oss_receiver, 's) file_poll) receiver_body" where
  "oss_body src sha listObjects =
     \<lparr>rb_refused = \<lambda>b. False, rb_iterate = oss_iterate src sha listObjects, rb_waits = fp_waits, rb_leave = \<lambda>b. b\<lparr>fp_waits := False\<rparr>\<rparr>"

text \<open>Kafka: \<open>Start\<close> is refused without a client, the end closes it. The context is seen by \<open>PollFetches\<close>.\<close>

record kafka_poll =
  kp_recv :: kafka_receiver
  kp_client :: bool
  kp_pool :: pool
  kp_out :: "packet list"

definition kafka_iterate :: "bool \<Rightarrow> kafka_fetch \<Rightarrow> kafka_poll \<Rightarrow> (kafka_poll \<times> bool) option" where
  "kafka_iterate dn fetch b =
     (if fetch = FetchCanceled \<and> \<not> dn then None
      else let (returns, w, out) = kafka_consume (kp_recv b) [fetch] (kp_pool b) (kp_out b) in Some (b\<lparr>kp_pool := w, kp_out := out\<rparr>, returns))"

definition kafka_body :: "(kafka_fetch, kafka_poll) receiver_body" where
  "kafka_body = \<lparr>rb_refused = \<lambda>b. \<not> kp_client b, rb_iterate = kafka_iterate, rb_waits = \<lambda>b. False, rb_leave = \<lambda>b. b\<lparr>kp_client := False\<rparr>\<rparr>"

section \<open>Keys\<close>

definition SFTPReceiver_Key :: "file_receiver \<Rightarrow> string" where
  "SFTPReceiver_Key r = ''sftp|'' @ trim_space (rc_Listen (fx_cfg r)) @ ''|'' @ trim_space (rc_RemoteDir (fx_cfg r))"

definition OSSReceiver_Key :: "oss_receiver \<Rightarrow> string" where
  "OSSReceiver_Key r = ''oss|'' @ trim_space (rc_Endpoint (fx_cfg r)) @ ''|'' @ trim_space (rc_Bucket (fx_cfg r)) @ ''|'' @ trim_space (rc_Prefix (fx_cfg r))"

end
