(* ===== verification/LocalTimer.thy ===== *)
theory LocalTimer
  imports ReceiverLife GoNet ValidateEnds
begin

text \<open>
  The local timer receiver (\<open>src/src/receiver/local_timer.go\<close>): it makes packets with a fixed payload, one on every tick of an interval
  or as many as a rate gives for a tick. \<open>Start\<close> and \<open>Stop\<close> are those of \<open>ReceiverLife\<close>; this is the body.
\<close>

section \<open>base64\<close>

definition base64_value :: "char \<Rightarrow> nat option" where
  "base64_value c =
     (let n = of_char c :: nat in
      if 65 \<le> n \<and> n \<le> 90 then Some (n - 65) else if 97 \<le> n \<and> n \<le> 122 then Some (n - 71)
      else if 48 \<le> n \<and> n \<le> 57 then Some (n + 4) else if n = 43 then Some 62 else if n = 47 then Some 63 else None)"

text \<open>The first \<open>k\<close> bytes of four sextets.\<close>

definition base64_quantum :: "nat \<Rightarrow> char list \<Rightarrow> bytes option" where
  "base64_quantum k cs =
     (if list_all (\<lambda>c. base64_value c \<noteq> None) cs then
        let n = foldl (\<lambda>acc v. acc * 64 + v) 0 (map (\<lambda>c. the (base64_value c)) cs @ replicate (4 - length cs) 0)
        in Some (map of_nat (take k [n div 65536, n div 256 mod 256, n mod 256]))
      else None)"

fun base64_quanta :: "char list \<Rightarrow> bytes option" where
  "base64_quanta [] = Some []"
| "base64_quanta [a, b, c, d] =
     (if d = CHR ''='' then (if c = CHR ''='' then base64_quantum 1 [a, b] else base64_quantum 2 [a, b, c])
      else base64_quantum 3 [a, b, c, d])"
| "base64_quanta (a # b # c # d # rest) =
     (case base64_quantum 3 [a, b, c, d] of
        None \<Rightarrow> None
      | Some bs \<Rightarrow> (case base64_quanta rest of None \<Rightarrow> None | Some bs' \<Rightarrow> Some (bs @ bs')))"
| "base64_quanta cs = None"

text \<open>\<open>base64.StdEncoding.DecodeString\<close>: line breaks are skipped; the place of an error is left out.\<close>

definition base64_decode :: "string \<Rightarrow> bytes result" where
  "base64_decode s =
     (case base64_quanta (filter (\<lambda>c. c \<noteq> CHR 0x0A \<and> c \<noteq> CHR 0x0D) s) of
        None \<Rightarrow> Inl (errors_New ''illegal base64 data'')
      | Some bs \<Rightarrow> Inr bs)"

section \<open>The receiver\<close>

definition decodeLocalTimerPayload :: "local_generator_config \<Rightarrow> bytes result" where
  "decodeLocalTimerPayload g =
     (let data = trim_space (lg_PayloadData g); format = trim_space (lg_PayloadFormat g) in
      if format = ''hex'' then
        (case hex_decode data of Inl err \<Rightarrow> Inl (Errorf ''local_timer receiver payload_data hex invalid: %w'' [AErr err]) | Inr b \<Rightarrow> Inr b)
      else if format = ''text'' then Inr (bytes_of_str (lg_PayloadData g))
      else if format = ''base64'' then
        (case base64_decode data of Inl err \<Rightarrow> Inl (Errorf ''local_timer receiver payload_data base64 invalid: %w'' [AErr err]) | Inr b \<Rightarrow> Inr b)
      else Inl (errors_New ''local_timer receiver payload_format must be one of hex/text/base64''))"

text \<open>The duration, nothing, or an error.\<close>

definition parseOptionalDuration :: "string \<Rightarrow> (int option) result" where
  "parseOptionalDuration value =
     (let v = trim_space value in
      if v = [] then Inr None
      else case parse_duration v of
        None \<Rightarrow> Inl (errors_New ''local_timer receiver start_delay must be a valid duration > 0'')
      | Some d \<Rightarrow> if d \<le> 0 then Inl (errors_New ''local_timer receiver start_delay must be a valid duration > 0'') else Inr (Some d))"

record local_timer =
  lt_name :: string
  lt_gen :: local_generator_config
  lt_payload :: bytes
  lt_key :: string
  lt_mode :: string

definition NewLocalTimerReceiver :: "string \<Rightarrow> receiver_config \<Rightarrow> local_timer result" where
  "NewLocalTimerReceiver name rc =
     (case decodeLocalTimerPayload (rc_Generator rc) of
        Inl err \<Rightarrow> Inl err
      | Inr payload \<Rightarrow>
          (case compileLocalTimerMatchKeyBuilder (rc_MatchKey rc) of
             Inl err \<Rightarrow> Inl err
           | Inr (key, mode) \<Rightarrow> Inr \<lparr>lt_name = name, lt_gen = rc_Generator rc, lt_payload = payload, lt_key = key, lt_mode = mode\<rparr>))"

definition LocalTimer_Key :: "local_timer \<Rightarrow> string" where
  "LocalTimer_Key r =
     (let g = lt_gen r in ''local_timer|'' @ trim_space (lg_Interval g) @ ''|'' @ itoa (lg_RatePerSec g) @ ''|'' @ trim_space (lg_TickInterval g) @
        ''|'' @ itoa (lg_TotalPackets g))"

definition reachedTotal :: "local_timer \<Rightarrow> int \<Rightarrow> bool" where
  "reachedTotal r sent \<longleftrightarrow> lg_TotalPackets (lt_gen r) > 0 \<and> sent \<ge> lg_TotalPackets (lt_gen r)"

definition local_packet :: "local_timer \<Rightarrow> pool \<Rightarrow> packet \<times> pool" where
  "local_packet r w =
     (let ((payload, rel), w1) = CopyFrom (lt_payload r) w in
      (\<lparr>Kind = PayloadKindStream,
        Meta = zero_meta\<lparr>Proto := ProtoLocal, ReceiverName := lt_name r, Remote := lg_Remote (lt_gen r), Local := lg_Local (lt_gen r),
          MatchKey := lt_key r\<rparr>,
        Payload = payload, ReleaseFn = Some rel, paddr = next_addr w1\<rparr>, w1\<lparr>next_addr := Suc (next_addr w1)\<rparr>))"

section \<open>The loop\<close>

text \<open>
  The credit of the rate loop is a floating point number: its type and operations are a parameter. \<open>fl_perTick\<close> is
  \<open>float64(rate) * tickDuration.Seconds()\<close>.
\<close>

record 'f float_ops =
  fl_zero :: 'f
  fl_perTick :: "int \<Rightarrow> int \<Rightarrow> 'f"
  fl_add :: "'f \<Rightarrow> 'f \<Rightarrow> 'f"
  fl_ge1 :: "'f \<Rightarrow> bool"
  fl_sub1 :: "'f \<Rightarrow> 'f"

text \<open>
  Where \<open>Start\<close> is: at its beginning, in the start delay, waiting for a tick of the interval or of the rate (with what
  a tick adds), in the burst of a tick. \<open>lp_err\<close> is the error it returned.
\<close>

datatype 'f timer_phase = LtBegin | LtDelay | LtInterval | LtRate 'f | LtBurst 'f

record 'f timer_loop =
  lp_phase :: "'f timer_phase"
  lp_credit :: 'f
  lp_sent :: int
  lp_pool :: pool
  lp_out :: "packet list"
  lp_err :: "go_error option"

definition timer_emit :: "local_timer \<Rightarrow> 'f timer_loop \<Rightarrow> 'f timer_loop" where
  "timer_emit r b = (let (p, w) = local_packet r (lp_pool b) in b\<lparr>lp_out := lp_out b @ [p], lp_pool := w, lp_sent := lp_sent b + 1\<rparr>)"

text \<open>The beginning of \<open>runInterval\<close> or of \<open>runRate\<close>.\<close>

definition timer_mode :: "'f float_ops \<Rightarrow> local_timer \<Rightarrow> go_error + ('f timer_phase)" where
  "timer_mode fl r =
     (let g = lt_gen r in
      if trim_space (lg_Interval g) \<noteq> [] then
        (case parse_duration (trim_space (lg_Interval g)) of
           None \<Rightarrow> Inl (errors_New ''local_timer receiver interval must be a valid duration > 0'')
         | Some d \<Rightarrow> if d \<le> 0 then Inl (errors_New ''local_timer receiver interval must be a valid duration > 0'') else Inr LtInterval)
      else
        (case parse_duration (trim_space (if trim_space (lg_TickInterval g) \<noteq> [] then lg_TickInterval g else DefaultLocalTimerTickInterval)) of
           None \<Rightarrow> Inl (errors_New ''local_timer receiver tick_interval must be a valid duration > 0'')
         | Some d \<Rightarrow>
             if d \<le> 0 then Inl (errors_New ''local_timer receiver tick_interval must be a valid duration > 0'')
             else if lg_RatePerSec g \<le> 0 then Inl (errors_New ''local_timer receiver rate_per_sec must be > 0'')
             else Inr (LtRate (fl_perTick fl (lg_RatePerSec g) d))))"

definition enter_mode :: "'f float_ops \<Rightarrow> local_timer \<Rightarrow> 'f timer_loop \<Rightarrow> 'f timer_loop \<times> bool" where
  "enter_mode fl r b =
     (case timer_mode fl r of
        Inl err \<Rightarrow> (b\<lparr>lp_err := Some err\<rparr>, True)
      | Inr ph \<Rightarrow> (b\<lparr>lp_phase := ph, lp_credit := fl_zero fl, lp_sent := 0\<rparr>, False))"

datatype timer_label = TimerGo | TimerTick

text \<open>In a burst the context is looked at after each packet (\<open>dn\<close>); elsewhere the loop waits in a \<open>select\<close>.\<close>

fun timer_iterate :: "'f float_ops \<Rightarrow> local_timer \<Rightarrow> bool \<Rightarrow> timer_label \<Rightarrow> 'f timer_loop \<Rightarrow> ('f timer_loop \<times> bool) option" where
  "timer_iterate fl r dn TimerGo b =
     (case lp_phase b of
        LtBegin \<Rightarrow>
          (case parseOptionalDuration (lg_StartDelay (lt_gen r)) of
             Inl err \<Rightarrow> Some (b\<lparr>lp_err := Some err\<rparr>, True)
           | Inr None \<Rightarrow> Some (enter_mode fl r b)
           | Inr (Some d) \<Rightarrow> Some (b\<lparr>lp_phase := LtDelay\<rparr>, False))
      | LtBurst per \<Rightarrow>
          if fl_ge1 fl (lp_credit b) then
            (let b1 = (timer_emit r b)\<lparr>lp_credit := fl_sub1 fl (lp_credit b)\<rparr> in Some (b1, reachedTotal r (lp_sent b1) \<or> dn))
          else Some (b\<lparr>lp_phase := LtRate per\<rparr>, False)
      | _ \<Rightarrow> None)"
| "timer_iterate fl r dn TimerTick b =
     (case lp_phase b of
        LtDelay \<Rightarrow> Some (enter_mode fl r b)
      | LtInterval \<Rightarrow> (let b1 = timer_emit r b in Some (b1, reachedTotal r (lp_sent b1)))
      | LtRate per \<Rightarrow> Some (b\<lparr>lp_credit := fl_add fl (lp_credit b) per, lp_phase := LtBurst per\<rparr>, False)
      | _ \<Rightarrow> None)"

definition timer_waits_now :: "'f timer_loop \<Rightarrow> bool" where
  "timer_waits_now b \<longleftrightarrow> (case lp_phase b of LtDelay \<Rightarrow> True | LtInterval \<Rightarrow> True | LtRate per \<Rightarrow> True | _ \<Rightarrow> False)"

definition new_timer_loop :: "'f float_ops \<Rightarrow> pool \<Rightarrow> 'f timer_loop" where
  "new_timer_loop fl w = \<lparr>lp_phase = LtBegin, lp_credit = fl_zero fl, lp_sent = 0, lp_pool = w, lp_out = [], lp_err = None\<rparr>"

definition local_timer_body :: "'f float_ops \<Rightarrow> local_timer \<Rightarrow> (timer_label, 'f timer_loop) receiver_body" where
  "local_timer_body fl r =
     \<lparr>rb_refused = \<lambda>b. False, rb_iterate = timer_iterate fl r, rb_waits = timer_waits_now, rb_leave = \<lambda>b. b\<lparr>lp_phase := LtBegin\<rparr>\<rparr>"

end
