(* ===== verification/Constructors.thy ===== *)
theory Constructors
  imports ValidReload Sharding GnetSender GnetReceivers KafkaConfig SftpSender OssTable LocalTimer FileReceiver
begin

text \<open>
  The constructors that \<open>src/src/runtime/builders.go\<close> calls, put together: which senders and receivers of a configuration that
  \<open>Validate\<close> accepts can be built, given what the libraries answer. With them as its environment \<open>UpdateCache\<close> applies
  such a configuration.
\<close>

section \<open>The libraries\<close>

text \<open>
  What the constructors ask of the libraries and how it ends: \<open>net.ParseIP\<close>, \<open>net.ResolveUDPAddr\<close>, \<open>dialUDPWithReuse\<close> (for a
  shard of a sender), \<open>net.InterfaceByName\<close> with the socket options, the gnet client and its dials (whether the one for
  a shard succeeds), \<open>kgo.NewClient\<close>, the SSH and SFTP client on a remote state, \<open>minio.NewCore\<close>, \<open>minio.New\<close>, and the SkyDDS
  writer and reader.
\<close>

record 'r libraries =
  lib_ip :: "string \<Rightarrow> bool"
  lib_resolve :: "string \<Rightarrow> go_error option"
  lib_dial_udp :: "sender_config \<Rightarrow> nat \<Rightarrow> go_error option"
  lib_iface :: "string \<Rightarrow> go_error option"
  lib_gnet_client :: "go_error option"
  lib_dial_tcp :: "string \<Rightarrow> nat \<Rightarrow> bool"
  lib_kgo :: "kgo_opt list \<Rightarrow> go_error option"
  lib_sftp :: "'r sftp_client"
  lib_remote :: 'r
  lib_minio_core :: "minio_options \<Rightarrow> go_error option"
  lib_minio :: "receiver_config \<Rightarrow> go_error option"
  lib_writer :: "skydds_options \<Rightarrow> go_error option"
  lib_reader :: "skydds_options \<Rightarrow> go_error option"

definition failure :: "'a result \<Rightarrow> go_error option" where
  "failure r = (case r of Inl err \<Rightarrow> Some err | Inr _ \<Rightarrow> None)"

lemma failure_simps [simp]: "failure (Inl err) = Some err" "failure (Inr x) = None"
  by (simp_all add: failure_def)

lemma failure_None: "failure r = None \<longleftrightarrow> (\<exists>x. r = Inr x)"
  by (cases r) simp_all

text \<open>
  The calls of \<open>buildSender\<close> and \<open>buildReceiver\<close>: the error of the constructor for the type. (The checks that the two functions make
  before the call, and their errors for an unknown type or frame, are \<open>Store.buildSender\<close> and \<open>Store.buildReceiver\<close>.)
\<close>

definition sender_constructor :: "'r libraries \<Rightarrow> string \<Rightarrow> string \<Rightarrow> sender_config \<Rightarrow> go_error option" where
  "sender_constructor lib gnetLogLevel name sc =
     (if sc_Type sc = ''udp_unicast'' then
        failure (fst (NewUDPUnicastSender (lib_ip lib) (lib_resolve lib (sc_Remote sc)) (lib_dial_udp lib sc) (sc_LocalIP sc) (sc_Concurrency sc)
          \<lparr>so_next = 0, so_closed = [], so_sent = []\<rparr>))
      else if sc_Type sc = ''udp_multicast'' then
        failure (fst (NewUDPMulticastSender (lib_resolve lib (sc_Remote sc)) (lib_dial_udp lib sc) (lib_iface lib (sc_Iface sc)) (sc_Concurrency sc)
          \<lparr>so_next = 0, so_closed = [], so_sent = []\<rparr>))
      else if sc_Type sc = ''tcp_gnet'' then
        failure (NewGnetTCPSender name (sc_Remote sc) (sc_Frame sc = ''u16be'') (sc_Concurrency sc) (sc_SocketSendBuffer sc) gnetLogLevel
          (lib_gnet_client lib) (map (lib_dial_tcp lib (sc_Remote sc)) [0 ..< nat (if sc_Concurrency sc \<le> 0 then 1 else sc_Concurrency sc)]))
      else if sc_Type sc = ''kafka'' then failure (NewKafkaSender (lib_kgo lib) name sc)
      else if sc_Type sc = ''sftp'' then failure (fst (NewSFTPSender (lib_sftp lib) sc (lib_remote lib)))
      else if sc_Type sc = ''oss'' then failure (NewOSSSender (lib_minio_core lib) (lib_kgo lib) (lib_writer lib) name sc)
      else if sc_Type sc = ''dds_skydds'' then failure (NewSkyDDSSender (lib_writer lib) name sc)
      else None)"

definition receiver_constructor :: "'r libraries \<Rightarrow> string \<Rightarrow> string \<Rightarrow> receiver_config \<Rightarrow> go_error option" where
  "receiver_constructor lib gnetLogLevel name rc =
     (if rc_Type rc = ''udp_gnet'' then
        failure (NewGnetUDP name (rc_Listen rc) (BoolValue (rc_Multicore rc)) (rc_NumEventLoop rc) (rc_ReadBufferCap rc) (rc_SocketRecvBuffer rc)
          gnetLogLevel (rc_MatchKey rc))
      else if rc_Type rc = ''tcp_gnet'' then
        failure (NewGnetTCP name (rc_Listen rc) (BoolValue (rc_Multicore rc)) (rc_NumEventLoop rc) (rc_ReadBufferCap rc) (rc_SocketRecvBuffer rc)
          (rc_Frame rc = ''u16be'') gnetLogLevel (rc_MatchKey rc))
      else if rc_Type rc = ''local_timer'' then failure (NewLocalTimerReceiver name rc)
      else if rc_Type rc = ''kafka'' then failure (NewKafkaReceiver (lib_kgo lib) name rc)
      else if rc_Type rc = ''sftp'' then failure (NewSFTPReceiver name rc)
      else if rc_Type rc = ''oss'' then failure (NewOSSReceiver (lib_minio lib rc) name rc)
      else if rc_Type rc = ''dds_skydds'' then failure (NewSkyDDSReceiver (lib_reader lib) name rc)
      else None)"

text \<open>The environment of the runtime with these constructors; the rest of it is that of \<open>e\<close>.\<close>

definition program_env :: "'r libraries \<Rightarrow> string \<Rightarrow> env \<Rightarrow> env" where
  "program_env lib gnetLogLevel e =
     e\<lparr>env_new_sender := sender_constructor lib gnetLogLevel, env_new_receiver := receiver_constructor lib gnetLogLevel\<rparr>"

section \<open>What Validate does not see\<close>

definition auth_pair :: "string \<Rightarrow> string \<Rightarrow> string \<Rightarrow> bool" where
  "auth_pair mech u p \<longleftrightarrow> (blank u \<and> blank p \<and> mech = []) \<or> (\<not> blank u \<and> \<not> blank p)"

definition notifier_constructible :: "'r libraries \<Rightarrow> notify_on_success_config \<Rightarrow> bool" where
  "notifier_constructible lib nc \<longleftrightarrow>
     (if trim_space (nc_Type nc) = ''kafka'' then
        SplitCSV (nc_Remote nc) \<noteq> [] \<and> auth_pair (nc_SASLMechanism nc) (nc_Username nc) (nc_Password nc) \<and> (\<forall>opts. lib_kgo lib opts = None)
      else \<forall>opts. lib_writer lib opts = None)"

text \<open>
  What the constructors need beyond what \<open>Validate\<close> checks: that the libraries do their part for this configuration (an
  address resolves, a socket opens, a server answers), and some conditions on the configuration itself, which \<open>Validate\<close> misses.
\<close>

definition sender_constructible :: "'r libraries \<Rightarrow> sender_config \<Rightarrow> bool" where
  "sender_constructible lib sc \<longleftrightarrow>
     (if sc_Type sc = ''udp_unicast'' then
        lib_resolve lib (sc_Remote sc) = None \<and> lib_ip lib (if sc_LocalIP sc = [] then ''0.0.0.0'' else sc_LocalIP sc) \<and>
        (\<forall>i. lib_dial_udp lib sc i = None)
      else if sc_Type sc = ''udp_multicast'' then
        lib_resolve lib (sc_Remote sc) = None \<and> (\<forall>i. lib_dial_udp lib sc i = None) \<and> lib_iface lib (sc_Iface sc) = None
      else if sc_Type sc = ''tcp_gnet'' then lib_gnet_client lib = None \<and> lib_dial_tcp lib (sc_Remote sc) 0
      else if sc_Type sc = ''kafka'' then
        \<not> blank (sc_Topic sc) \<and> SplitCSV (sc_Remote sc) \<noteq> [] \<and> sc_Compression sc \<noteq> ''none'' \<and>
        auth_pair (sc_SASLMechanism sc) (sc_Username sc) (sc_Password sc) \<and> (\<forall>opts. lib_kgo lib opts = None)
      else if sc_Type sc = ''sftp'' then
        \<not> blank (sc_Username sc) \<and> \<not> blank (sc_Password sc) \<and> \<not> blank (sc_RemoteDir sc) \<and>
        \<not> isl (SplitHostPort (trim_space (sc_Remote sc))) \<and>
        (\<forall>r. fst (cl_Dial (lib_sftp lib) r) = None \<and> fst (cl_NewClient (lib_sftp lib) r) = None \<and>
           fst (cl_MkdirAll (lib_sftp lib) (trim_space (sc_RemoteDir sc)) r) = None)
      else if sc_Type sc = ''oss'' then
        (\<forall>opts. lib_minio_core lib opts = None) \<and> list_all (notifier_constructible lib) (elems (sc_NotifyOnSuccess sc))
      else (to_lower (trim_space (sc_MessageModel sc)) = ''batch_octet'' \<longrightarrow> \<not> blank (sc_BatchDelay sc)) \<and> (\<forall>opts. lib_writer lib opts = None))"

definition receiver_constructible :: "'r libraries \<Rightarrow> receiver_config \<Rightarrow> bool" where
  "receiver_constructible lib rc \<longleftrightarrow>
     (if rc_Type rc = ''local_timer'' then \<not> isl (decodeLocalTimerPayload (rc_Generator rc))
      else if rc_Type rc = ''kafka'' then
        \<not> blank (rc_Topic rc) \<and> SplitCSV (rc_Listen rc) \<noteq> [] \<and> auth_pair (rc_SASLMechanism rc) (rc_Username rc) (rc_Password rc) \<and>
        (\<forall>opts. lib_kgo lib opts = None)
      else if rc_Type rc = ''sftp'' then
        \<not> blank (rc_Listen rc) \<and> \<not> blank (rc_Username rc) \<and> \<not> blank (rc_Password rc) \<and> \<not> blank (rc_RemoteDir rc)
      else if rc_Type rc = ''oss'' then lib_minio lib rc = None
      else rc_Type rc = ''dds_skydds'' \<longrightarrow> \<not> blank (rc_WaitTimeout rc) \<and> (\<forall>opts. lib_reader lib opts = None))"

definition constructible :: "'r libraries \<Rightarrow> config \<Rightarrow> bool" where
  "constructible lib c \<longleftrightarrow>
     list_all (\<lambda>ns. sender_constructible lib (snd ns)) (elems (cfg_Senders c)) \<and>
     list_all (\<lambda>nr. receiver_constructible lib (snd nr)) (elems (cfg_Receivers c))"

section \<open>Senders\<close>

lemma open_shards_built:
  assumes "\<And>ens idx s so. ens \<in> set enss \<Longrightarrow> fst (ens idx s so) = None"
  shows "\<exists>s' so'. open_shards enss idx s so = (Inr s', so')"
  using assms
proof (induction enss arbitrary: idx s so)
  case (Cons ens enss)
  have "fst (ens idx s so) = None" using Cons.prems by simp
  then obtain s1 so1 where e: "ens idx s so = (None, s1, so1)" by (cases "ens idx s so") auto
  have "\<exists>s' so'. open_shards enss (Suc idx) s1 so1 = (Inr s', so')" by (rule Cons.IH) (use Cons.prems in simp)
  then show ?case using e by simp
qed simp

lemma udp_unicast_built:
  assumes "resolve = None" "ip (if localIP = [] then ''0.0.0.0'' else localIP)" "\<And>i. dial i = None"
  shows "failure (fst (NewUDPUnicastSender ip resolve dial localIP concurrency so)) = None"
proof -
  have "\<exists>s' so'. open_shards (map (\<lambda>i. unicast_ensureConnLocked (dial i)) [0 ..< nat (us_concurrency (new_udp_sender concurrency))]) 0
      (new_udp_sender concurrency) so = (Inr s', so')"
    by (rule open_shards_built) (auto simp: unicast_ensureConnLocked_def assms(3) split: prod.split)
  then show ?thesis using assms(1,2) by (auto simp: NewUDPUnicastSender_def Let_def)
qed

lemma udp_multicast_built:
  assumes "resolve = None" "\<And>i. dial i = None" "iface = None"
  shows "failure (fst (NewUDPMulticastSender resolve dial iface concurrency so)) = None"
proof -
  have "\<exists>s' so'. open_shards (map (\<lambda>i. multicast_ensureConnLocked (dial i) iface) [0 ..< nat (us_concurrency (new_udp_sender concurrency))]) 0
      (new_udp_sender concurrency) so = (Inr s', so')"
    by (rule open_shards_built) (auto simp: multicast_ensureConnLocked_def assms split: prod.split)
  then show ?thesis using assms(1) by (auto simp: NewUDPMulticastSender_def Let_def)
qed

lemma tcp_built:
  assumes "client = None" "True \<in> set oks"
  shows "failure (NewGnetTCPSender name remote u16 conc buf lvl client oks) = None"
proof -
  have "filter id oks \<noteq> []" using assms(2) by (auto simp: filter_empty_conv)
  then have "dial_round oks n \<noteq> []" for n by (simp add: dial_round_def)
  then show ?thesis using assms(1) by (simp add: NewGnetTCPSender_def ensureClientAndDial_def empty_tcp_pool_def Let_def)
qed

lemma kafka_built:
  assumes "validate_kafka_sender sn sc = None" "\<And>opts. newClient opts = None" "\<not> blank (sc_Topic sc)" "SplitCSV (sc_Remote sc) \<noteq> []"
    "sc_Compression sc \<noteq> ''none''" "auth_pair (sc_SASLMechanism sc) (sc_Username sc) (sc_Password sc)"
  shows "failure (NewKafkaSender newClient name sc) = None"
  unfolding failure_None new_sender_built [OF assms(2)] sender_opts_built [OF assms(1)]
  using assms(3-6) by (simp add: auth_pair_def auth_usable_def)

lemma connect_shards_ok:
  assumes "\<not> isl (SplitHostPort (sn_addr s))" "\<And>r. fst (cl_Dial cl r) = None" "\<And>r. fst (cl_NewClient cl r) = None"
    "\<And>r. fst (cl_MkdirAll cl (sn_remoteDir s) r) = None"
  shows "\<exists>s' r'. connect_shards cl idxs s r = (None, s', r')"
  using assms(1,4)
proof (induction idxs arbitrary: s r)
  case (Cons idx idxs)
  obtain hp where hp: "SplitHostPort (sn_addr s) = Inr hp" using Cons.prems(1) by (cases "SplitHostPort (sn_addr s)") simp_all
  obtain r1 where r1: "cl_Dial cl r = (None, r1)" using assms(2) [of r] by (cases "cl_Dial cl r") simp
  obtain r2 where r2: "cl_NewClient cl r1 = (None, r2)" using assms(3) [of r1] by (cases "cl_NewClient cl r1") simp
  obtain r3 where r3: "cl_MkdirAll cl (sn_remoteDir s) r2 = (None, r3)" using Cons.prems(2) [of r2] by (cases "cl_MkdirAll cl (sn_remoteDir s) r2") simp
  obtain s' r' where e: "ensureConnLocked cl idx s r = (None, s', r')" "sn_addr s' = sn_addr s" "sn_remoteDir s' = sn_remoteDir s"
    using hp r1 r2 r3 by (cases "sn_conn s ! idx") (simp_all add: ensureConnLocked_def)
  have "\<exists>s2 r2. connect_shards cl idxs s' r' = (None, s2, r2)" by (rule Cons.IH) (use Cons.prems e(2,3) in simp_all)
  then show ?case using e(1) by simp
qed simp

lemma sftp_sender_built:
  assumes "validate_sftp_sender sn sc = None" "\<not> blank (sc_Username sc)" "\<not> blank (sc_Password sc)" "\<not> blank (sc_RemoteDir sc)"
    "\<not> isl (SplitHostPort (trim_space (sc_Remote sc)))" "\<And>r. fst (cl_Dial cl r) = None" "\<And>r. fst (cl_NewClient cl r) = None"
    "\<And>r. fst (cl_MkdirAll cl (trim_space (sc_RemoteDir sc)) r) = None"
  shows "failure (fst (NewSFTPSender cl sc r)) = None"
proof -
  have "ValidateSSHHostKeyFingerprint (sc_HostKeyFingerprint sc) = None" using assms(1) by (simp add: validate_sftp_sender_def)
  moreover have "\<not> blank (sc_Remote sc)"
  proof
    assume "blank (sc_Remote sc)"
    then have "trim_space (sc_Remote sc) = []" by (simp add: blank_def)
    then show False using assms(5) by (simp add: SplitHostPort_def)
  qed
  moreover have "\<exists>s' r'. connect_shards cl [0 ..< nat (sn_concurrency (new_sftp_sender sc))] (new_sftp_sender sc) r = (None, s', r')"
    by (rule connect_shards_ok) (use assms(5-8) in \<open>simp_all add: new_sftp_sender_def Let_def\<close>)
  ultimately show ?thesis using assms(2-4) by (auto simp: NewSFTPSender_def Let_def fail_if_def)
qed

lemma skydds_sender_built:
  assumes "validate_skydds_sender sn sc = None" "to_lower (trim_space (sc_MessageModel sc)) = ''batch_octet'' \<longrightarrow> \<not> blank (sc_BatchDelay sc)"
    "\<And>opts. newWriter opts = None"
  shows "failure (NewSkyDDSSender newWriter name sc) = None"
proof (cases "to_lower (trim_space (sc_MessageModel sc)) = ''batch_octet''")
  case True
  then have "validatePositiveDurationField ''sender'' sn ''batch_delay'' (sc_BatchDelay sc) = None"
    using assms(1) by (simp add: validate_skydds_sender_def Let_def)
  then have "positive_duration (sc_BatchDelay sc)" using assms(2) True
    by (simp add: validatePositiveDurationField_def validatePositiveDurationByType_def only_if_def)
  then obtain d where "parse_duration (sc_BatchDelay sc) = Some d" by (auto simp: positive_duration_def split: option.splits)
  then show ?thesis using True assms(3) by (simp add: NewSkyDDSSender_def newSkyDDSSenderWithWriter_def Let_def)
next
  case False
  then show ?thesis using assms(3) by (simp add: NewSkyDDSSender_def newSkyDDSSenderWithWriter_def Let_def)
qed

text \<open>The notifiers of an OSS sender.\<close>

lemma typed_duration_built:
  assumes "validatePositiveDurationByType kind name what field v = None" "positive_duration dflt"
  shows "\<exists>d. DurationOrDefault v dflt = Inr d"
proof -
  have "validatePositiveDurationField kind name field v = None"
    using assms(1) by (simp add: validatePositiveDurationField_def validatePositiveDurationByType_def only_if_def split: if_splits)
  then show ?thesis using valid_duration_built assms(2) by blast
qed

lemma kafka_notifier_built:
  assumes "validate_notifier sn i nc = None" "trim_space (nc_Type nc) = ''kafka''" "SplitCSV (nc_Remote nc) \<noteq> []"
    "auth_pair (nc_SASLMechanism nc) (nc_Username nc) (nc_Password nc)"
  shows "\<exists>opts. kafka_notifier_opts nc = Inr opts"
proof -
  have v: "validatePositiveDurationByType ''sender'' sn ''notify_on_success.kafka'' ''dial_timeout'' (nc_DialTimeout nc) = None"
    "validatePositiveDurationByType ''sender'' sn ''notify_on_success.kafka'' ''request_timeout'' (nc_RequestTimeout nc) = None"
    "validatePositiveDurationByType ''sender'' sn ''notify_on_success.kafka'' ''retry_timeout'' (nc_RetryTimeout nc) = None"
    "validatePositiveDurationByType ''sender'' sn ''notify_on_success.kafka'' ''retry_backoff'' (nc_RetryBackoff nc) = None"
    "validatePositiveDurationByType ''sender'' sn ''notify_on_success.kafka'' ''metadata_max_age'' (nc_MetadataMaxAge nc) = None"
    "validatePositiveDurationByType ''sender'' sn ''notify_on_success.kafka'' ''conn_idle_timeout'' (nc_ConnIdleTimeout nc) = None"
    "validateKafkaAuth ''notify_on_success'' sn (nc_SASLMechanism nc) (nc_Username nc) (nc_Password nc) = None"
    using assms(1,2) unfolding validate_notifier_def Let_def by simp_all
  obtain d1 d2 d3 d4 d5 d6 where e: "DurationOrDefault (nc_DialTimeout nc) DefaultKafkaDialTimeout = Inr d1"
    "DurationOrDefault (nc_RequestTimeout nc) DefaultKafkaSenderRequestTimeout = Inr d2"
    "DurationOrDefault (nc_RetryTimeout nc) DefaultKafkaRetryTimeout = Inr d3"
    "DurationOrDefault (nc_RetryBackoff nc) DefaultKafkaRetryBackoff = Inr d4"
    "DurationOrDefault (nc_ConnIdleTimeout nc) DefaultKafkaConnIdleTimeout = Inr d5"
    "DurationOrDefault (nc_MetadataMaxAge nc) DefaultKafkaMetadataMaxAge = Inr d6"
    using typed_duration_built [OF v(1) default_durations(1)] typed_duration_built [OF v(2) default_durations(2)]
      typed_duration_built [OF v(3) default_durations(3)] typed_duration_built [OF v(4) default_durations(4)]
      typed_duration_built [OF v(6) default_durations(5)] typed_duration_built [OF v(5) default_durations(6)] by blast
  obtain m where "BuildSASLMechanism (nc_SASLMechanism nc) (nc_Username nc) (nc_Password nc) = Inr m"
    using sasl_accepts [OF v(7)] assms(4) by (auto simp: auth_pair_def)
  then show ?thesis using assms(3) unfolding kafka_notifier_opts_def Let_def e [THEN with_duration_ok] by (simp add: bind_result_def)
qed

lemma notifier_built:
  assumes "validate_notifier sn i nc = None" "notifier_constructible lib nc"
  shows "\<exists>n. buildOSSCommitNotifier (lib_kgo lib) (lib_writer lib) nc = Inr n"
proof (cases "trim_space (nc_Type nc) = ''kafka''")
  case True
  then have c: "SplitCSV (nc_Remote nc) \<noteq> []" "auth_pair (nc_SASLMechanism nc) (nc_Username nc) (nc_Password nc)" "\<And>opts. lib_kgo lib opts = None"
    using assms(2) by (simp_all add: notifier_constructible_def)
  then show ?thesis using kafka_notifier_built [OF assms(1) True c(1,2)] True c(3)
    by (auto simp: buildOSSCommitNotifier_def NewKafkaCommitNotifier_def)
next
  case False
  then have "trim_space (nc_Type nc) = ''dds_skydds''" "to_lower (trim_space (nc_MessageModel nc)) = ''octet''"
    using assms(1) by (auto simp: validate_notifier_def Let_def split: if_splits)
  then show ?thesis using assms(2) by (simp add: buildOSSCommitNotifier_def NewSkyDDSCommitNotifier_def notifier_constructible_def)
qed

lemma notifiers_built:
  "validate_notifiers sn i ncs = None \<Longrightarrow> list_all (notifier_constructible lib) ncs \<Longrightarrow>
     \<exists>ns. buildOSSCommitNotifiers (lib_kgo lib) (lib_writer lib) ncs out = Inr ns"
proof (induction ncs arbitrary: i out)
  case (Cons nc ncs)
  have v: "validate_notifier sn i nc = None" "validate_notifiers sn (Suc i) ncs = None" using Cons.prems(1) by (auto split: option.splits)
  obtain n where n: "buildOSSCommitNotifier (lib_kgo lib) (lib_writer lib) nc = Inr n" using notifier_built [OF v(1)] Cons.prems(2) by auto
  show ?case using Cons.IH [OF v(2), of "out @ [n]"] Cons.prems(2) n by simp
qed simp

lemma oss_sender_built:
  assumes "validate_oss_sender sn sc = None" "validateNotifyOnSuccess sn (sc_Type sc) (elems (sc_NotifyOnSuccess sc)) = None"
    "\<And>opts. lib_minio_core lib opts = None" "list_all (notifier_constructible lib) (elems (sc_NotifyOnSuccess sc))"
  shows "failure (NewOSSSender (lib_minio_core lib) (lib_kgo lib) (lib_writer lib) name sc) = None"
proof -
  have "validate_notifiers sn 0 (elems (sc_NotifyOnSuccess sc)) = None"
    using assms(2) by (simp add: validateNotifyOnSuccess_def split: if_splits)
  then obtain ns where "buildOSSCommitNotifiers (lib_kgo lib) (lib_writer lib) (elems (sc_NotifyOnSuccess sc)) [] = Inr ns"
    using notifiers_built assms(4) by blast
  moreover have "\<not> blank (sc_Endpoint sc)" "\<not> blank (sc_Bucket sc)" "\<not> blank (sc_AccessKey sc)" "\<not> blank (sc_SecretKey sc)"
    using assms(1) by (simp_all add: validate_oss_sender_def)
  ultimately show ?thesis using assms(3) by (simp add: NewOSSSender_def Let_def fail_if_def)
qed

lemma validated_sender_constructed:
  assumes "validate_sender ip (n, sc) = None" "sender_constructible lib sc"
  shows "sender_constructor lib lvl n sc = None"
proof -
  note v = assms(1) [unfolded validate_sender_def Let_def fst_conv snd_conv first_err_steps]
  have ty: "sc_Type sc \<in> set [''udp_unicast'', ''udp_multicast'', ''tcp_gnet'', ''kafka'', ''dds_skydds'', ''sftp'', ''oss'']"
    using v by (simp split: if_splits) blast?
  then consider "sc_Type sc = ''udp_unicast''" | "sc_Type sc = ''udp_multicast''" | "sc_Type sc = ''tcp_gnet''" | "sc_Type sc = ''kafka''"
    | "sc_Type sc = ''dds_skydds''" | "sc_Type sc = ''sftp''" | "sc_Type sc = ''oss''"
    by (simp del: insert_iff) blast
  then show ?thesis
  proof cases
    case 1
    then have "lib_resolve lib (sc_Remote sc) = None" "lib_ip lib (if sc_LocalIP sc = [] then ''0.0.0.0'' else sc_LocalIP sc)"
      "\<And>i. lib_dial_udp lib sc i = None" using assms(2) by (simp_all add: sender_constructible_def)
    then show ?thesis using 1 udp_unicast_built [where dial = "lib_dial_udp lib sc"] by (simp add: sender_constructor_def)
  next
    case 2
    then have "lib_resolve lib (sc_Remote sc) = None" "\<And>i. lib_dial_udp lib sc i = None" "lib_iface lib (sc_Iface sc) = None"
      using assms(2) by (simp_all add: sender_constructible_def)
    then show ?thesis using 2 udp_multicast_built [where dial = "lib_dial_udp lib sc"] by (simp add: sender_constructor_def)
  next
    case 3
    then have g: "lib_gnet_client lib = None" "lib_dial_tcp lib (sc_Remote sc) 0" using assms(2) by (simp_all add: sender_constructible_def)
    have "0 \<in> set [0 ..< nat (if sc_Concurrency sc \<le> 0 then 1 else sc_Concurrency sc)]" by simp
    then have "True \<in> set (map (lib_dial_tcp lib (sc_Remote sc)) [0 ..< nat (if sc_Concurrency sc \<le> 0 then 1 else sc_Concurrency sc)])"
      unfolding list.set_map by (rule image_eqI [rotated]) (simp add: g(2))
    note tcp_built [OF g(1) this, of n "sc_Remote sc" "sc_Frame sc = ''u16be''" "sc_Concurrency sc" "sc_SocketSendBuffer sc" lvl]
    then show ?thesis using 3 by (simp add: sender_constructor_def)
  next
    case 4
    then have "validate_kafka_sender n sc = None" using v by simp
    moreover have "\<not> blank (sc_Topic sc)" "SplitCSV (sc_Remote sc) \<noteq> []" "sc_Compression sc \<noteq> ''none''"
      "auth_pair (sc_SASLMechanism sc) (sc_Username sc) (sc_Password sc)" "\<And>opts. lib_kgo lib opts = None"
      using assms(2) 4 by (simp_all add: sender_constructible_def)
    ultimately show ?thesis using 4 kafka_built by (simp add: sender_constructor_def)
  next
    case 5
    then have "validate_skydds_sender n sc = None" using v by simp
    moreover have "to_lower (trim_space (sc_MessageModel sc)) = ''batch_octet'' \<longrightarrow> \<not> blank (sc_BatchDelay sc)" "\<And>opts. lib_writer lib opts = None"
      using assms(2) 5 by (simp_all add: sender_constructible_def)
    ultimately show ?thesis using 5 skydds_sender_built by (simp add: sender_constructor_def)
  next
    case 6
    then have "validate_sftp_sender n sc = None" using v by simp
    then have "failure (fst (NewSFTPSender (lib_sftp lib) sc (lib_remote lib))) = None"
      by (rule sftp_sender_built) (use assms(2) 6 in \<open>simp_all add: sender_constructible_def\<close>)
    then show ?thesis using 6 by (simp add: sender_constructor_def)
  next
    case 7
    then have "validate_oss_sender n sc = None" "validateNotifyOnSuccess n (sc_Type sc) (elems (sc_NotifyOnSuccess sc)) = None" using v by simp_all
    then have "failure (NewOSSSender (lib_minio_core lib) (lib_kgo lib) (lib_writer lib) n sc) = None"
      by (rule oss_sender_built) (use assms(2) 7 in \<open>simp_all add: sender_constructible_def\<close>)
    then show ?thesis using 7 by (simp add: sender_constructor_def)
  qed
qed

section \<open>Receivers\<close>

text \<open>Every mode that \<open>Validate\<close> allows for a type is compiled by the builder of that type.\<close>

lemma modes_compile:
  assumes "validateReceiverMatchKey n rc = None"
  shows "rc_Type rc = ''udp_gnet'' \<Longrightarrow> \<exists>b. compileUDPMatchKeyBuilder (rc_MatchKey rc) = Inr b"
    "rc_Type rc = ''tcp_gnet'' \<Longrightarrow> \<exists>b. compileTCPMatchKeyBuilder (rc_MatchKey rc) = Inr b"
    "rc_Type rc = ''kafka'' \<Longrightarrow> \<exists>b. compileKafkaMatchKeyBuilder (rc_MatchKey rc) topic = Inr b"
    "rc_Type rc = ''sftp'' \<Longrightarrow> \<exists>b. compileSFTPMatchKeyBuilder (rc_MatchKey rc) dir = Inr b"
    "rc_Type rc = ''oss'' \<Longrightarrow> \<exists>b. compileOSSMatchKeyBuilder (rc_MatchKey rc) bucket = Inr b"
    "rc_Type rc = ''local_timer'' \<Longrightarrow> \<exists>b. compileLocalTimerMatchKeyBuilder (rc_MatchKey rc) = Inr b"
proof -
  have m: "\<exists>modes. map_of match_key_modes (rc_Type rc) = Some modes \<and> trim_space (mk_Mode (rc_MatchKey rc)) \<in> set modes"
    using assms by (auto simp: validateReceiverMatchKey_def Let_def split: option.splits)
  show "rc_Type rc = ''udp_gnet'' \<Longrightarrow> \<exists>b. compileUDPMatchKeyBuilder (rc_MatchKey rc) = Inr b"
    using m by (auto simp: match_key_modes_def compileUDPMatchKeyBuilder_def Let_def)
  show "rc_Type rc = ''tcp_gnet'' \<Longrightarrow> \<exists>b. compileTCPMatchKeyBuilder (rc_MatchKey rc) = Inr b"
    using m by (auto simp: match_key_modes_def compileTCPMatchKeyBuilder_def Let_def)
  show "rc_Type rc = ''kafka'' \<Longrightarrow> \<exists>b. compileKafkaMatchKeyBuilder (rc_MatchKey rc) topic = Inr b"
    using m by (auto simp: match_key_modes_def compileKafkaMatchKeyBuilder_def Let_def)
  show "rc_Type rc = ''sftp'' \<Longrightarrow> \<exists>b. compileSFTPMatchKeyBuilder (rc_MatchKey rc) dir = Inr b"
    using m by (auto simp: match_key_modes_def compileSFTPMatchKeyBuilder_def Let_def)
  show "rc_Type rc = ''oss'' \<Longrightarrow> \<exists>b. compileOSSMatchKeyBuilder (rc_MatchKey rc) bucket = Inr b"
    using m by (auto simp: match_key_modes_def compileOSSMatchKeyBuilder_def Let_def)
  show "rc_Type rc = ''local_timer'' \<Longrightarrow> \<exists>b. compileLocalTimerMatchKeyBuilder (rc_MatchKey rc) = Inr b"
    using m by (auto simp: match_key_modes_def compileLocalTimerMatchKeyBuilder_def Let_def)
qed

lemma receiver_default_durations:
  "positive_duration DefaultKafkaReceiverSessionTTL" "positive_duration DefaultKafkaReceiverHeartbeat"
  "positive_duration DefaultKafkaReceiverRebalanceTTL" "positive_duration DefaultKafkaReceiverAutoCommitIv"
  by (simp_all add: positive_duration_def parse_duration_def duration_loop.simps duration_step_def is_digit_def unit_ns_def digits_value_def
      DefaultKafkaReceiverSessionTTL_def DefaultKafkaReceiverHeartbeat_def DefaultKafkaReceiverRebalanceTTL_def DefaultKafkaReceiverAutoCommitIv_def)

lemma balancers_accepted:
  "\<forall>b \<in> set bs. b \<in> set [''range'', ''round_robin'', ''cooperative_sticky''] \<Longrightarrow> \<exists>r. balancers_loop bs out = Inr r"
proof (induction bs arbitrary: out)
  case (Cons b bs)
  have t: "trim_space ''range'' = ''range''" "trim_space ''round_robin'' = ''round_robin''" "trim_space ''cooperative_sticky'' = ''cooperative_sticky''"
    by code_simp+
  have "\<exists>r. balancers_loop bs out' = Inr r" for out' by (rule Cons.IH) (use Cons.prems in simp)
  moreover have "b = ''range'' \<or> b = ''round_robin'' \<or> b = ''cooperative_sticky''" using Cons.prems by simp
  ultimately show ?case by (elim disjE) (simp_all add: Let_def t)
qed simp

lemma validated_receiver_option_parts:
  assumes "validateKafkaReceiverOptions rn rc = None"
  shows "validatePositiveDurationField ''receiver'' rn ''dial_timeout'' (rc_DialTimeout rc) = None"
    "validatePositiveDurationField ''receiver'' rn ''conn_idle_timeout'' (rc_ConnIdleTimeout rc) = None"
    "validatePositiveDurationField ''receiver'' rn ''metadata_max_age'' (rc_MetadataMaxAge rc) = None"
    "validatePositiveDurationField ''receiver'' rn ''retry_backoff'' (rc_RetryBackoff rc) = None"
    "validatePositiveDurationField ''receiver'' rn ''session_timeout'' (rc_SessionTimeout rc) = None"
    "validatePositiveDurationField ''receiver'' rn ''heartbeat_interval'' (rc_HeartbeatInterval rc) = None"
    "validatePositiveDurationField ''receiver'' rn ''rebalance_timeout'' (rc_RebalanceTimeout rc) = None"
    "validatePositiveDurationField ''receiver'' rn ''auto_commit_interval'' (rc_AutoCommitInterval rc) = None"
    "rc_IsolationLevel rc \<in> set [[], ''read_uncommitted'', ''read_committed'']"
    "elems (rc_Balancers rc) \<noteq> []"
    "\<forall>b \<in> set (elems (rc_Balancers rc)). b \<in> set [''range'', ''round_robin'', ''cooperative_sticky'']"
  using assms unfolding validateKafkaReceiverOptions_def Let_def first_err_steps not_not by blast+

lemma kafka_receiver_built:
  assumes "validate_kafka_receiver rn rc = None" "validateReceiverMatchKey rn rc = None" "rc_Type rc = ''kafka''" "\<And>opts. newClient opts = None"
    "\<not> blank (rc_Topic rc)" "SplitCSV (rc_Listen rc) \<noteq> []" "auth_pair (rc_SASLMechanism rc) (rc_Username rc) (rc_Password rc)"
  shows "failure (NewKafkaReceiver newClient name rc) = None"
proof -
  have o: "validateKafkaReceiverOptions rn rc = None" "validateKafkaAuth ''receiver'' rn (rc_SASLMechanism rc) (rc_Username rc) (rc_Password rc) = None"
    using assms(1) by (simp_all add: validate_kafka_receiver_def)
  note v = validated_receiver_option_parts [OF o(1)]
  obtain d1 d2 d3 d4 d5 d6 d7 d8 where d: "DurationOrDefault (rc_DialTimeout rc) DefaultKafkaDialTimeout = Inr d1"
    "DurationOrDefault (rc_ConnIdleTimeout rc) DefaultKafkaConnIdleTimeout = Inr d2"
    "DurationOrDefault (rc_MetadataMaxAge rc) DefaultKafkaMetadataMaxAge = Inr d3"
    "DurationOrDefault (rc_RetryBackoff rc) DefaultKafkaRetryBackoff = Inr d4"
    "DurationOrDefault (rc_SessionTimeout rc) DefaultKafkaReceiverSessionTTL = Inr d5"
    "DurationOrDefault (rc_HeartbeatInterval rc) DefaultKafkaReceiverHeartbeat = Inr d6"
    "DurationOrDefault (rc_RebalanceTimeout rc) DefaultKafkaReceiverRebalanceTTL = Inr d7"
    "DurationOrDefault (rc_AutoCommitInterval rc) DefaultKafkaReceiverAutoCommitIv = Inr d8"
    using valid_duration_built [OF v(1) default_durations(1)] valid_duration_built [OF v(2) default_durations(5)]
      valid_duration_built [OF v(3) default_durations(6)] valid_duration_built [OF v(4) default_durations(4)]
      valid_duration_built [OF v(5) receiver_default_durations(1)] valid_duration_built [OF v(6) receiver_default_durations(2)]
      valid_duration_built [OF v(7) receiver_default_durations(3)] valid_duration_built [OF v(8) receiver_default_durations(4)] by blast
  obtain bs where bs: "GroupBalancers (rc_Balancers rc) = Inr bs"
    using balancers_accepted [OF v(11)] v(10) by (auto simp: GroupBalancers_def)
  have t: "trim_space ''read_uncommitted'' = ''read_uncommitted''" "trim_space ''read_committed'' = ''read_committed''" by code_simp+
  obtain il where il: "IsolationLevel (rc_IsolationLevel rc) = Inr il" using v(9) t by (auto simp: IsolationLevel_def Let_def)
  obtain m where m: "BuildSASLMechanism (rc_SASLMechanism rc) (rc_Username rc) (rc_Password rc) = Inr m"
    using sasl_accepts [OF o(2)] assms(7) by (auto simp: auth_pair_def)
  obtain b where b: "compileKafkaMatchKeyBuilder (rc_MatchKey rc) (rc_Topic rc) = Inr b" using modes_compile(3) [OF assms(2,3)] by blast
  have "\<exists>x. kafka_receiver_opts name rc = Inr x"
    using assms(5,6) unfolding kafka_receiver_opts_def Let_def d [THEN with_duration_ok] bs il m
    by (cases "case rc_AutoCommit rc of None \<Rightarrow> True | Some b \<Rightarrow> b") (simp_all add: bind_result_def)
  then obtain x where x: "kafka_receiver_opts name rc = Inr x" by blast
  show ?thesis unfolding NewKafkaReceiver_def x by (cases x) (simp add: bind_result_def assms(4) b split: prod.split)
qed

lemma skydds_receiver_built:
  assumes "validate_skydds_receiver rn rc = None" "\<And>opts. newReader opts = None" "\<not> blank (rc_WaitTimeout rc)"
  shows "failure (NewSkyDDSReceiver newReader name rc) = None"
proof -
  have v: "validatePositiveDurationByType ''receiver'' rn ''dds_skydds'' ''wait_timeout'' (rc_WaitTimeout rc) = None" "0 < rc_DrainMaxItems rc"
    using assms(1) by (simp_all add: validate_skydds_receiver_def)
  then have "positive_duration (rc_WaitTimeout rc)" using assms(3) by (simp add: validatePositiveDurationByType_def only_if_def)
  then obtain d where "parse_duration (rc_WaitTimeout rc) = Some d" "0 < d" by (auto simp: positive_duration_def split: option.splits)
  then show ?thesis using v(2) assms(2) by (simp add: NewSkyDDSReceiver_def Let_def)
qed

lemma validated_receiver_constructed:
  assumes "validate_receiver c (n, rc) = None" "receiver_constructible lib rc"
  shows "receiver_constructor lib lvl n rc = None"
proof -
  note v = assms(1) [unfolded validate_receiver_def Let_def fst_conv snd_conv first_err_steps]
  have mk: "validateReceiverMatchKey n rc = None" using v by simp
  note m = modes_compile [OF mk]
  consider "rc_Type rc = ''udp_gnet''" | "rc_Type rc = ''tcp_gnet''" | "rc_Type rc = ''local_timer''" | "rc_Type rc = ''kafka''"
    | "rc_Type rc = ''sftp''" | "rc_Type rc = ''oss''" | "rc_Type rc = ''dds_skydds''"
    using v by (auto split: if_splits)
  then show ?thesis
  proof cases
    case 1
    then show ?thesis using m(1) [OF 1] by (auto simp: receiver_constructor_def NewGnetUDP_def)
  next
    case 2
    then show ?thesis using m(2) [OF 2] by (auto simp: receiver_constructor_def NewGnetTCP_def)
  next
    case 3
    then obtain bs where "decodeLocalTimerPayload (rc_Generator rc) = Inr bs"
      using assms(2) by (cases "decodeLocalTimerPayload (rc_Generator rc)") (simp_all add: receiver_constructible_def)
    then show ?thesis using 3 m(6) [OF 3] by (auto simp: receiver_constructor_def NewLocalTimerReceiver_def)
  next
    case 4
    then have "validate_kafka_receiver n rc = None" using v by simp
    moreover have "\<not> blank (rc_Topic rc)" "SplitCSV (rc_Listen rc) \<noteq> []" "auth_pair (rc_SASLMechanism rc) (rc_Username rc) (rc_Password rc)"
      "\<And>opts. lib_kgo lib opts = None" using assms(2) 4 by (simp_all add: receiver_constructible_def)
    ultimately show ?thesis using 4 kafka_receiver_built [OF _ mk 4] by (simp add: receiver_constructor_def)
  next
    case 5
    then have "ValidateSSHHostKeyFingerprint (rc_HostKeyFingerprint rc) = None" using v by (simp add: validate_sftp_receiver_def)
    then show ?thesis using 5 assms(2) m(4) [OF 5, of "rc_RemoteDir rc"]
      by (auto simp: receiver_constructor_def receiver_constructible_def NewSFTPReceiver_def fail_if_def)
  next
    case 6
    then have "validate_oss_receiver n rc = None" using v by simp
    then show ?thesis using 6 assms(2) m(5) [OF 6, of "rc_Bucket rc"]
      by (auto simp: receiver_constructor_def receiver_constructible_def validate_oss_receiver_def NewOSSReceiver_def fail_if_def)
  next
    case 7
    then have "validate_skydds_receiver n rc = None" using v by simp
    then show ?thesis using 7 assms(2) skydds_receiver_built
      by (simp add: receiver_constructor_def receiver_constructible_def)
  qed
qed

section \<open>The environment of the program\<close>

lemma program_env_simps [simp]:
  "env_regexp (program_env lib lvl e) = env_regexp e" "env_marshal (program_env lib lvl e) = env_marshal e"
  "env_newpool (program_env lib lvl e) = env_newpool e" "env_info (program_env lib lvl e) = env_info e"
  "env_new_sender (program_env lib lvl e) = sender_constructor lib lvl" "env_new_receiver (program_env lib lvl e) = receiver_constructor lib lvl"
  by (simp_all add: program_env_def)

lemma program_env_serves [simp]: "env_serves (program_env lib lvl e) = env_serves e" "sig_faithful (program_env lib lvl e) = sig_faithful e"
  by (simp_all add: env_serves_def sig_faithful_def)

lemma constructible_builds:
  assumes "ValidateConfig rx ip c = None" "constructible lib c"
  shows "env_builds (program_env lib lvl e) c"
proof -
  note p = ValidateConfig_parts(5,6) [OF assms(1), unfolded first_err_map_None]
  have "env_new_sender (program_env lib lvl e) n sc = None" if "(n, sc) \<in> set (elems (cfg_Senders c))" for n sc
    using validated_sender_constructed [of ip n sc lib lvl] p that assms(2) by (force simp: constructible_def list_all_iff)
  moreover have "env_new_receiver (program_env lib lvl e) n rc = None" if "(n, rc) \<in> set (elems (cfg_Receivers c))" for n rc
    using validated_receiver_constructed [of c n rc lib lvl] p that assms(2) by (force simp: constructible_def list_all_iff)
  ultimately show ?thesis unfolding env_builds_def by blast
qed

section \<open>Property\<close>

text \<open>C4: a configuration that \<open>Validate\<close> accepts and whose senders and receivers are \<open>constructible\<close> is put into effect: on a new
  store and on any coherent one, \<open>UpdateCache\<close>, with the constructors of the program (\<open>builders.go\<close> and what it calls), returns no error,
  and the store then is what the configuration asks for. \<open>constructible\<close> lists what \<open>Validate\<close> does not check: the addresses
  of UDP senders resolve as they are written, their local IP parses untrimmed, sockets, interfaces and servers are there, the
  client libraries refuse nothing; Kafka topics, broker lists, credentials and the user, password and directories of
  SFTP are not blank, Kafka compression is not \<open>none\<close>, the payload of a local timer decodes, \<open>batch_delay\<close> (for
  \<open>batch_octet\<close>) and \<open>wait_timeout\<close> of SkyDDS are given. A goroutine pool and \<open>json.Marshal\<close> do not fail, and \<open>json.Marshal\<close> tells
  stages apart that compile differently.\<close>

theorem validated_config_applies:
  assumes "ValidateConfig (env_regexp e) (lib_ip lib) c = None" "constructible lib c" "wf_cfg c" "env_serves e" "sig_faithful e"
    and "coherent (env_regexp e) st"
  shows "\<exists>st'. UpdateCache (program_env lib lvl e) c st = (None, st') \<and> coherent (env_regexp e) st' \<and> matches (env_regexp e) c st'"
  using built_config_applies [of "program_env lib lvl e" "lib_ip lib" c st] constructible_builds [OF assms(1,2)] assms by simp

text \<open>Libraries that grant everything.\<close>

definition granting_libraries :: "unit libraries" where
  "granting_libraries = \<lparr>lib_ip = \<lambda>_. True, lib_resolve = \<lambda>_. None, lib_dial_udp = \<lambda>_ _. None, lib_iface = \<lambda>_. None, lib_gnet_client = None,
     lib_dial_tcp = \<lambda>_ _. True, lib_kgo = \<lambda>_. None,
     lib_sftp = \<lparr>cl_Dial = \<lambda>r. (None, r), cl_NewClient = \<lambda>r. (None, r), cl_MkdirAll = \<lambda>_ r. (None, r), cl_OpenFile = \<lambda>_ r. (None, r),
       cl_WriteAt = \<lambda>_ _ _ r. (None, r), cl_CloseFile = \<lambda>_ r. (None, r), cl_Remove = \<lambda>_ r. (None, r), cl_Rename = \<lambda>_ _ r. (None, r)\<rparr>,
     lib_remote = (), lib_minio_core = \<lambda>_. None, lib_minio = \<lambda>_. None, lib_writer = \<lambda>_. None, lib_reader = \<lambda>_. None\<rparr>"

lemma valid_sample_constructible: "constructible granting_libraries valid_sample"
  by (simp add: constructible_def valid_sample_def sender_constructible_def receiver_constructible_def granting_libraries_def)

theorem validated_config_applies_witness:
  "fst (UpdateCache (program_env granting_libraries ''info'' granting_env) valid_sample NewStore) = None"
proof -
  have "lib_ip granting_libraries = (\<lambda>_. True)" by (simp add: granting_libraries_def)
  then have "ValidateConfig (env_regexp granting_env) (lib_ip granting_libraries) valid_sample = None" using valid_sample_valid_rx by simp
  then show ?thesis
    using validated_config_applies [OF _ valid_sample_constructible valid_sample_wf granting_env_hyps(1,2) coherent_NewStore, of "''info''"] by auto
qed

end
