(* ===== verification/RouteSafety.thy ===== *)
theory RouteSafety
  imports ValidReload Dispatch StageProps
begin

text \<open>
  \<open>Validate\<close> against the routing of \<open>src/src/task\<close>: the senders a routing stage can name are senders of
  the task, so that no packet of a validated configuration is dropped for an unknown route.
\<close>

section \<open>Stages keep the route among the senders\<close>

definition within :: "string set \<Rightarrow> packet \<Rightarrow> bool" where
  "within S p \<longleftrightarrow> RouteSender (Meta p) = [] \<or> RouteSender (Meta p) \<in> S"

definition keeps_routes :: "string set \<Rightarrow> stage_fun \<Rightarrow> bool" where
  "keeps_routes S f \<longleftrightarrow> (\<forall>ps. (\<forall>p \<in> set ps. within S p) \<longrightarrow> (\<forall>q \<in> set (f ps). within S q))"

named_theorems route_stages \<open>stages that keep the route\<close>

lemma keeps_mapStage:
  "(\<And>p. within S p \<Longrightarrow> fst (one p) \<Longrightarrow> within S (snd (one p))) \<Longrightarrow> keeps_routes S (mapStage one)"
  unfolding keeps_routes_def mapStage_eq keep_passing_def by fastforce

lemma keeps_drop_all [route_stages]: "keeps_routes S drop_all"
  by (simp add: keeps_routes_def)

lemma within_set_meta: "RouteSender (f (Meta p)) = RouteSender (Meta p) \<Longrightarrow> within S (set_meta f p) = within S p"
  by (simp add: within_def)

lemma within_target_name: "within S (set_target_name n p) = within S p"
  by (simp add: set_target_name_def Let_def within_def)

lemma keeps_match [route_stages]: "keeps_routes S (MatchOffsetBytes off want)"
  by (auto simp: MatchOffsetBytes_def Let_def intro!: keeps_mapStage keeps_drop_all)

lemma keeps_replace [route_stages]: "keeps_routes S (ReplaceOffsetBytes off wth)"
  by (auto simp: ReplaceOffsetBytes_def Let_def within_def intro!: keeps_mapStage keeps_drop_all split: if_splits)

lemma keeps_record_key [route_stages]: "keeps_routes S (SetKafkaRecordKeyFromOffsetBytes off len enc)"
  by (auto simp: SetKafkaRecordKeyFromOffsetBytes_def Let_def within_def intro!: keeps_mapStage keeps_drop_all split: if_splits)

lemma keeps_file_stages [route_stages]:
  "keeps_routes S (SetTargetFilePath v)" "keeps_routes S (RewriteTargetPathStripPrefix pre)"
  "keeps_routes S (RewriteTargetPathAddPrefix pre)" "keeps_routes S (RewriteTargetFilenameReplace old new)"
  "keeps_routes S (RewriteTargetPathRegex re rep)" "keeps_routes S (RewriteTargetFilenameRegex re rep)"
  by (auto simp: SetTargetFilePath_def RewriteTargetPathStripPrefix_def RewriteTargetPathAddPrefix_def
      RewriteTargetFilenameReplace_def RewriteTargetPathRegex_def RewriteTargetFilenameRegex_def Let_def
      within_set_meta within_target_name intro!: keeps_mapStage)

lemma keeps_route:
  assumes "\<And>k sn. mget routes k = Some sn \<Longrightarrow> sn = [] \<or> sn \<in> S" "dflt = [] \<or> dflt \<in> S"
  shows "keeps_routes S (RouteSenderByOffsetBytes off kl routes dflt)"
  using assms(2) unfolding RouteSenderByOffsetBytes_def Let_def
  by (auto simp: within_def intro!: keeps_mapStage keeps_drop_all split: option.splits dest: assms(1))

lemma compile_routes_values:
  assumes "compile_routes cases keys kl rs = Inr (kl', rs')" "mget rs' k = Some sn"
  shows "mget rs k = Some sn \<or> (\<exists>hk. mget cases hk = Some sn)"
  using assms
proof (induction keys arbitrary: kl rs)
  case (Cons hk keys)
  from compile_routes_ConsD [OF Cons.prems(1)] obtain v s where
    r: "compile_routes cases keys (if kl < 0 then int (length v) else kl) (mset_at (str_of_bytes v) s rs) = Inr (kl', rs')"
    "mget cases hk = Some s" by blast
  from Cons.IH [OF r(1) Cons.prems(2)] r(2) show ?case by (auto split: if_splits)
qed simp

definition routes_ok :: "string set \<Rightarrow> stage_config \<Rightarrow> bool" where
  "routes_ok S sc \<longleftrightarrow> (st_Type sc = ''route_offset_bytes_sender'' \<longrightarrow>
     list_all (\<lambda>h. snd h = [] \<or> snd h \<in> S) (elems (st_Cases sc)) \<and> (st_DefaultSender sc = [] \<or> st_DefaultSender sc \<in> S))"

lemma compiled_keeps_routes:
  assumes "compileStage rx sc = Inr f" "routes_ok S sc"
  shows "keeps_routes S f"
proof (cases "st_Type sc = ''route_offset_bytes_sender''")
  case True
  obtain kl rs where r: "compile_routes (elems (st_Cases sc)) (sort (mkeys (elems (st_Cases sc)))) (- 1) [] = Inr (kl, rs)"
    and f: "f = RouteSenderByOffsetBytes (st_Offset sc) kl rs (st_DefaultSender sc)"
    using assms(1) True by (auto simp: compileStage_def Let_def split: if_splits sum.splits prod.splits)
  have v: "sn = [] \<or> sn \<in> S" if "mget rs k = Some sn" for k sn
    using compile_routes_values [OF r that] assms(2) True by (fastforce simp: routes_ok_def list_all_iff dest: map_of_SomeD)
  show ?thesis unfolding f by (rule keeps_route [OF v]) (use assms(2) True in \<open>simp_all add: routes_ok_def\<close>)
next
  case False
  then show ?thesis using assms(1) unfolding compileStage_def Let_def
    by (auto split: if_split_asm sum.split_asm simp: route_stages)
qed

section \<open>Pipelines\<close>

lemma process_keeps:
  assumes "\<forall>f \<in> set sts. keeps_routes S f" "\<forall>p \<in> set ps. within S p" "q \<in> set (process_stages sts ps)"
  shows "within S q"
  using assms
proof (induction sts arbitrary: ps)
  case (Cons f sts)
  have "\<forall>p \<in> set (f ps). within S p" using Cons.prems(1,2) unfolding keeps_routes_def by simp
  then show ?case using Cons.IH [of "f ps"] Cons.prems by (auto simp: Let_def split: if_splits)
qed simp

lemma run_pipelines_keeps:
  assumes "\<forall>pl \<in> set pls. \<forall>f \<in> set (pl_Stages pl). keeps_routes S f" "\<forall>p \<in> set ps. within S p"
    "run_pipelines pls ps = Some out" "q \<in> set out"
  shows "within S q"
  using assms
proof (induction pls arbitrary: ps)
  case (Cons pl pls)
  have "\<forall>x \<in> set (concat (map (Process pl) ps)). within S x"
  proof
    fix x assume "x \<in> set (concat (map (Process pl) ps))"
    then obtain p where p: "p \<in> set ps" "x \<in> set (process_stages (pl_Stages pl) [p])" by (auto simp: Process_def)
    show "within S x" by (rule process_keeps [OF _ _ p(2)]) (use Cons.prems(1,2) p(1) in simp_all)
  qed
  then show ?case using Cons.IH [of "concat (map (Process pl) ps)"] Cons.prems by (auto simp: Let_def split: if_splits)
qed simp

lemma compile_stages_member:
  "compile_stages rx n scs = Inr sts \<Longrightarrow> f \<in> set sts \<Longrightarrow> \<exists>sc \<in> set scs. compileStage rx sc = Inr f"
  by (induction scs arbitrary: sts) (auto split: sum.splits)

section \<open>The tasks of a coherent store\<close>

lemma sender_index_has: "n \<in> sr_name ` set ss \<or> mget idx n \<noteq> None \<Longrightarrow> mget (sender_index ss idx) n \<noteq> None"
proof (induction ss arbitrary: idx)
  case (Cons s ss)
  have "mget (sender_index ss (mset_at (sr_name s) s idx)) n \<noteq> None"
    by (rule Cons.IH) (use Cons.prems in auto)
  then show ?case by simp
qed simp

lemma task_stages_compiled:
  assumes "coherent rx st" "matches rx c st" "mget (st_tasks st) n = Some ts"
    "pl \<in> set (tk_Pipelines (ts_T ts))" "f \<in> set (pl_Stages pl)"
  shows "\<exists>pn \<in> set (elems (tc_Pipelines (ts_Cfg ts))). \<exists>s. mget (elems (cfg_Pipelines c)) pn = Some s \<and>
    (\<exists>sc \<in> set (elems s). compileStage rx sc = Inr f)"
proof -
  have "task_ok (st_pipelines st) (st_senders st) n ts" using assms(1,3) by (simp add: coherent_def tasks_inv_def)
  then have "map Some (tk_Pipelines (ts_T ts)) = map (mget (st_pipelines st)) (elems (tc_Pipelines (ts_Cfg ts)))"
    by (simp add: task_ok_def)
  then have "Some pl \<in> mget (st_pipelines st) ` set (elems (tc_Pipelines (ts_Cfg ts)))"
    using assms(4) by (metis image_eqI list.set_map)
  then obtain pn where pn: "pn \<in> set (elems (tc_Pipelines (ts_Cfg ts)))" "mget (st_pipelines st) pn = Some pl" by force
  then have "spec_pipeline rx (elems (cfg_Pipelines c)) pn = Some pl" using assms(2) by (simp add: matches_def)
  then obtain s where s: "mget (elems (cfg_Pipelines c)) pn = Some s" "compile_stages rx pn (elems s) = Inr (pl_Stages pl)"
    by (auto simp: spec_pipeline_def split: option.splits sum.splits)
  then show ?thesis using compile_stages_member [OF s(2) assms(5)] pn(1) by blast
qed

lemma validated_task_keeps:
  assumes "ValidateConfig rx ip c = None" "coherent rx st" "matches rx c st" "mget (st_tasks st) n = Some ts"
    "pl \<in> set (tk_Pipelines (ts_T ts))" "f \<in> set (pl_Stages pl)"
  shows "keeps_routes (set (elems (tc_Senders (ts_Cfg ts)))) f"
proof -
  obtain pn s sc where p: "pn \<in> set (elems (tc_Pipelines (ts_Cfg ts)))" "mget (elems (cfg_Pipelines c)) pn = Some s"
    "sc \<in> set (elems s)" "compileStage rx sc = Inr f"
    using task_stages_compiled [OF assms(2-6)] by blast
  have "mget (elems (cfg_Tasks c)) n = Some (ts_Cfg ts)"
    using assms(3,4) unfolding matches_def by (metis option.simps(9))
  then have "validate_task c (n, ts_Cfg ts) = None"
    using ValidateConfig_parts(2) [OF assms(1), unfolded first_err_map_None] by (auto dest: map_of_SomeD)
  then have "routes_stay c (ts_Cfg ts)" using validate_task_resolves by blast
  then have "routes_ok (set (elems (tc_Senders (ts_Cfg ts)))) sc"
    using p(1-3) unfolding routes_stay_def routes_ok_def list_all_iff by fastforce
  then show ?thesis by (rule compiled_keeps_routes [OF p(4)])
qed

lemma validated_targets:
  assumes "ValidateConfig rx ip c = None" "coherent rx st" "matches rx c st" "mget (st_tasks st) n = Some ts"
    "within (set (elems (tc_Senders (ts_Cfg ts)))) q"
  shows "targets (ts_T ts) q \<noteq> [] \<and> (RouteSender (Meta q) \<noteq> [] \<longrightarrow> mget (tk_sendersByName (ts_T ts)) (RouteSender (Meta q)) \<noteq> None)"
proof -
  have ok: "task_ok (st_pipelines st) (st_senders st) n ts" using assms(2,4) by (simp add: coherent_def tasks_inv_def)
  then have names: "map sr_name (tk_Senders (ts_T ts)) = elems (tc_Senders (ts_Cfg ts))"
    by (intro bound_senders_names) (simp add: task_ok_def)
  have "mget (elems (cfg_Tasks c)) n = Some (ts_Cfg ts)"
    using assms(3,4) unfolding matches_def by (metis option.simps(9))
  then have "validate_task c (n, ts_Cfg ts) = None"
    using ValidateConfig_parts(2) [OF assms(1), unfolded first_err_map_None] by (auto dest: map_of_SomeD)
  then have "elems (tc_Senders (ts_Cfg ts)) \<noteq> []" by (rule validate_task_parts(1))
  then have ne: "tk_Senders (ts_T ts) \<noteq> []" using names by auto
  have "mget (tk_sendersByName (ts_T ts)) (RouteSender (Meta q)) \<noteq> None" if "RouteSender (Meta q) \<noteq> []"
  proof -
    have "RouteSender (Meta q) \<in> sr_name ` set (tk_Senders (ts_T ts))"
      using assms(5) that names by (metis list.set_map within_def)
    then show ?thesis using ok sender_index_has by (simp add: task_ok_def)
  qed
  then show ?thesis using ne by (auto simp: targets_def)
qed

lemma send_packets_no_miss:
  assumes "\<forall>q \<in> set qs. RouteSender (Meta q) \<noteq> [] \<longrightarrow> mget (tk_sendersByName t) (RouteSender (Meta q)) \<noteq> None"
    "send_packets qs t w = (t', w')"
  shows "tk_routeSenderMiss t' = tk_routeSenderMiss t"
  using assms
proof (induction qs arbitrary: t w)
  case (Cons q qs)
  obtain t1 w1 where s: "send_packet t q w = (t1, w1)" by fastforce
  have "t1 = t" using s Cons.prems(1) by (auto simp: send_packet_def split: if_splits option.splits)
  then show ?case using Cons.IH [of t w1] Cons.prems s by simp
qed simp

section \<open>Properties\<close>

text \<open>To whom a packet goes that leaves the pipelines of a task of a validated configuration.\<close>

lemma sender_index_member: "mget (sender_index ss idx) n = Some s \<Longrightarrow> s \<in> set ss \<and> sr_name s = n \<or> mget idx n = Some s"
proof (induction ss arbitrary: idx)
  case (Cons x ss)
  then show ?case by (fastforce split: if_splits)
qed simp

lemma targets_named:
  assumes "coherent rx st" "mget (st_tasks st) n = Some ts" "RouteSender (Meta q) \<noteq> []"
    "mget (tk_sendersByName (ts_T ts)) (RouteSender (Meta q)) \<noteq> None"
  shows "\<exists>s \<in> set (tk_Senders (ts_T ts)). sr_name s = RouteSender (Meta q) \<and> targets (ts_T ts) q = [s]"
proof -
  obtain s where s: "mget (tk_sendersByName (ts_T ts)) (RouteSender (Meta q)) = Some s" using assms(4) by blast
  have "task_ok (st_pipelines st) (st_senders st) n ts" using assms(1,2) by (simp add: coherent_def tasks_inv_def)
  then have "s \<in> set (tk_Senders (ts_T ts)) \<and> sr_name s = RouteSender (Meta q)"
    using s sender_index_member by (fastforce simp: task_ok_def)
  then show ?thesis using s assms(3) by (auto simp: targets_def)
qed

lemma runPacket_sent:
  assumes "runPacket t p w = (t', w')"
  shows "o_sent w' = o_sent w @ (case run_pipelines (tk_Pipelines t) [p] of None \<Rightarrow> [] | Some qs \<Rightarrow> concat (map (sends t) qs))"
proof (cases "run_pipelines (tk_Pipelines t) [p]")
  case None
  then show ?thesis using assms by (auto simp: runPacket_def processAndSend_def Let_def)
next
  case (Some qs)
  obtain t1 w1 where s: "send_packets qs t w = (t1, w1)" by fastforce
  then show ?thesis using assms Some send_packets_effect [OF s] by (auto simp: runPacket_def processAndSend_def Let_def)
qed

text \<open>C32: in a coherent store that matches a configuration that \<open>Validate\<close> accepted (what a successful update
  leaves), a packet that comes to a task without a route never misses. The counter of unknown route senders stays; and what the task really sends is, for every packet that
  leaves its pipelines in turn, that packet to all the senders of the task when no stage set a route, and to a sender of the task
  with exactly the name that a stage set otherwise; there is always at least one.\<close>

theorem validated_routes_never_miss:
  assumes "ValidateConfig rx ip c = None" "coherent rx st" "matches rx c st" "mget (st_tasks st) n = Some ts"
    and "RouteSender (Meta p) = []" "runPacket (ts_T ts) p w = (t', w')"
  shows "tk_routeSenderMiss t' = tk_routeSenderMiss (ts_T ts) \<and>
    (\<exists>qs to. qs = (case run_pipelines (tk_Pipelines (ts_T ts)) [p] of None \<Rightarrow> [] | Some qs \<Rightarrow> qs) \<and>
       o_sent w' = o_sent w @ concat (map (\<lambda>q. map (\<lambda>s. (s, envelope.truncate q)) (to q)) qs) \<and>
       (\<forall>q \<in> set qs. to q \<noteq> [] \<and> (if RouteSender (Meta q) = [] then to q = tk_Senders (ts_T ts)
          else \<exists>s \<in> set (tk_Senders (ts_T ts)). sr_name s = RouteSender (Meta q) \<and> to q = [s])))"
proof (cases "run_pipelines (tk_Pipelines (ts_T ts)) [p]")
  case None
  then show ?thesis using assms(6) by (auto simp: runPacket_def processAndSend_def Let_def)
next
  case (Some qs)
  have k: "\<forall>pl \<in> set (tk_Pipelines (ts_T ts)). \<forall>f \<in> set (pl_Stages pl). keeps_routes (set (elems (tc_Senders (ts_Cfg ts)))) f"
    using validated_task_keeps [OF assms(1-4)] by blast
  have "within (set (elems (tc_Senders (ts_Cfg ts)))) q" if "q \<in> set qs" for q
    by (rule run_pipelines_keeps [OF k _ Some that]) (simp add: within_def assms(5))
  then have t: "\<forall>q \<in> set qs. targets (ts_T ts) q \<noteq> [] \<and>
      (RouteSender (Meta q) \<noteq> [] \<longrightarrow> mget (tk_sendersByName (ts_T ts)) (RouteSender (Meta q)) \<noteq> None)"
    using validated_targets [OF assms(1-4)] by blast
  obtain t1 w1 where s: "send_packets qs (ts_T ts) w = (t1, w1)" by fastforce
  have "tk_routeSenderMiss t1 = tk_routeSenderMiss (ts_T ts)" by (rule send_packets_no_miss [OF _ s]) (use t in blast)
  then have "tk_routeSenderMiss t' = tk_routeSenderMiss (ts_T ts)"
    using assms(6) Some s by (auto simp: runPacket_def processAndSend_def Let_def)
  moreover have "o_sent w' = o_sent w @ concat (map (\<lambda>q. map (\<lambda>s. (s, envelope.truncate q)) (targets (ts_T ts) q)) qs)"
    using runPacket_sent [OF assms(6)] Some by (simp add: sends_def [abs_def])
  moreover have "\<forall>q \<in> set qs. targets (ts_T ts) q \<noteq> [] \<and> (if RouteSender (Meta q) = [] then targets (ts_T ts) q = tk_Senders (ts_T ts)
      else \<exists>s \<in> set (tk_Senders (ts_T ts)). sr_name s = RouteSender (Meta q) \<and> targets (ts_T ts) q = [s])"
    using t targets_named [OF assms(2,4)] by (auto simp: targets_def [of _ q for q])
  ultimately show ?thesis unfolding Some option.case by blast
qed

text \<open>The sample configuration routes every packet by its first byte, to its only sender.\<close>

theorem validated_routes_never_miss_witness:
  "tk_routeSenderMiss (fst (runPacket (ts_T (the (mget (st_tasks (snd (UpdateCache granting_env valid_sample NewStore))) ''t'')))
       sample_pkt sample_out)) =
     tk_routeSenderMiss (ts_T (the (mget (st_tasks (snd (UpdateCache granting_env valid_sample NewStore))) ''t'')))"
proof -
  define st where "st = snd (UpdateCache granting_env valid_sample NewStore)"
  note ok = validated_startable [OF valid_sample_valid_rx valid_sample_wf granting_env_hyps(3)]
  obtain st' where u: "UpdateCache granting_env valid_sample NewStore = (None, st')"
    using UpdateCache_ok [OF ok granting_env_hyps(1) valid_sample_wf granting_env_hyps(2) coherent_NewStore] by blast
  have st: "st = st'" by (simp add: st_def u)
  have c: "coherent (env_regexp granting_env) st" "matches (env_regexp granting_env) valid_sample st"
    using UpdateCache_reload [OF coherent_NewStore valid_sample_wf startable_refs [OF ok] granting_env_hyps(2) refl u] st by blast+
  have "map_option ts_Cfg (mget (st_tasks st) ''t'') = mget (elems (cfg_Tasks valid_sample)) ''t''"
    using c(2) by (simp add: matches_def)
  then obtain ts where ts: "mget (st_tasks st) ''t'' = Some ts" by (auto simp: valid_sample_def)
  have p: "RouteSender (Meta sample_pkt) = []" by (simp add: sample_pkt_def zero_meta_def)
  obtain t' w' where r: "runPacket (ts_T ts) sample_pkt sample_out = (t', w')" by fastforce
  from validated_routes_never_miss [OF valid_sample_valid_rx c ts p r] show ?thesis
    unfolding st_def [symmetric] ts option.sel r fst_conv by blast
qed

end
