(* ===== verification/SftpProps.thy ===== *)
theory SftpProps
  imports SftpSender OssProps
begin

text \<open>
  What the SFTP sender does to the remote files. The client libraries enter by \<open>sftp_laws\<close>, the documented
  effect of each call; the lemmas follow one transfer through the sender, whatever else it sends.
\<close>

section \<open>The remote files\<close>

text \<open>\<open>WriteAt\<close> behind the end leaves a hole of zeros.\<close>

definition write_at :: "bytes \<Rightarrow> nat \<Rightarrow> bytes \<Rightarrow> bytes" where
  "write_at b off bs =
     (if bs = [] then b else take off (b @ replicate (off - length b) 0) @ bs @ drop (off + length bs) b)"

lemma length_write_at: "bs \<noteq> [] \<Longrightarrow> length (write_at b off bs) = max (length b) (off + length bs)"
  by (auto simp: write_at_def)

lemma nth_write_at:
  "i < length (write_at b off bs) \<Longrightarrow> bs \<noteq> [] \<Longrightarrow>
    write_at b off bs ! i =
      (if off \<le> i \<and> i < off + length bs then bs ! (i - off) else if i < length b then b ! i else 0)"
  by (auto simp: write_at_def nth_append nth_Cons' min_def)

text \<open>
  \<open>files r\<close> is the content of the files of the remote side. Connections, directories and closing change no
  file; \<open>OpenFile\<close> with \<open>O_CREATE\<close> creates; a failing write may have written a part; a failing
  \<open>Rename\<close> renames nothing.
\<close>

definition created :: "string \<Rightarrow> (string \<Rightarrow> bytes option) \<Rightarrow> string \<Rightarrow> bytes option" where
  "created p f = (if f p = None then f(p \<mapsto> []) else f)"

definition sftp_laws :: "'r sftp_client \<Rightarrow> ('r \<Rightarrow> string \<Rightarrow> bytes option) \<Rightarrow> bool" where
  "sftp_laws cl files \<longleftrightarrow>
     (\<forall>r. files (snd (cl_Dial cl r)) = files r) \<and>
     (\<forall>r. files (snd (cl_NewClient cl r)) = files r) \<and>
     (\<forall>d r. files (snd (cl_MkdirAll cl d r)) = files r) \<and>
     (\<forall>p r. files (snd (cl_CloseFile cl p r)) = files r) \<and>
     (\<forall>p r err r'. cl_OpenFile cl p r = (err, r') \<longrightarrow>
        files r' = created p (files r) \<or> (err \<noteq> None \<and> files r' = files r)) \<and>
     (\<forall>p bs off r b err r'. cl_WriteAt cl p bs off r = (err, r') \<longrightarrow> files r p = Some b \<longrightarrow> 0 \<le> off \<longrightarrow>
        (\<exists>k \<le> length bs. (err = None \<longrightarrow> k = length bs) \<and> files r' = (files r)(p \<mapsto> write_at b (nat off) (take k bs)))) \<and>
     (\<forall>p r. files (snd (cl_Remove cl p r)) = files r \<or> files (snd (cl_Remove cl p r)) = (files r)(p := None)) \<and>
     (\<forall>a b r err r'. cl_Rename cl a b r = (err, r') \<longrightarrow>
        files r' = (if err = None then (files r)(b := files r a, a := None) else files r))"

section \<open>One transfer\<close>

text \<open>The temporary file holds the right byte wherever a range says so, and is not longer than the file.\<close>

definition temp_ok :: "bytes \<Rightarrow> sftp_transfer_state \<Rightarrow> bytes option \<Rightarrow> bool" where
  "temp_ok F st c \<longleftrightarrow>
     sf_totalSize st = int (length F) \<and> range_inv st \<and> covered (sf_ranges st) \<subseteq> {0 ..< int (length F)} \<and>
     (case c of None \<Rightarrow> covered (sf_ranges st) = {}
      | Some b \<Rightarrow> length b \<le> length F \<and> (\<forall>i. int i \<in> covered (sf_ranges st) \<longrightarrow> i < length b \<and> b ! i = F ! i))"

definition not_longer :: "bytes \<Rightarrow> bytes option \<Rightarrow> bool" where
  "not_longer F c \<longleftrightarrow> (case c of None \<Rightarrow> True | Some b \<Rightarrow> length b \<le> length F)"

lemma temp_ok_not_longer: "temp_ok F st c \<Longrightarrow> not_longer F c"
  by (auto simp: temp_ok_def not_longer_def split: option.splits)

definition interval :: "packet \<Rightarrow> int set" where
  "interval p = {Offset (Meta p) ..< Offset (Meta p) + int (length (Payload p))}"

text \<open>Writing the first \<open>k\<close> bytes of a chunk keeps what is right and adds what it covers.\<close>

lemma write_chunk_bytes:
  assumes "chunk_of F p" "length b \<le> length F" "\<And>i. int i \<in> C \<Longrightarrow> i < length b \<and> b ! i = F ! i"
    and "b' = write_at b (nat (Offset (Meta p))) (take k (Payload p))" "k \<le> length (Payload p)"
  shows "length b' \<le> length F \<and>
    (\<forall>i. int i \<in> C \<or> (k = length (Payload p) \<and> int i \<in> interval p) \<longrightarrow> i < length b' \<and> b' ! i = F ! i)"
proof -
  let ?o = "nat (Offset (Meta p))" and ?bs = "take k (Payload p)"
  have c: "0 \<le> Offset (Meta p)" "?o + length (Payload p) \<le> length F"
    "Payload p = take (length (Payload p)) (drop ?o F)"
    using assms(1) by (auto simp: chunk_of_def)
  have byte: "Payload p ! j = F ! (?o + j)" if "j < length (Payload p)" for j
    using that c(2) by (subst c(3)) simp
  show ?thesis
  proof (cases "?bs = []")
    case True
    then have "b' = b" using assms(4) by (simp add: write_at_def)
    moreover have "interval p = {}" if "k = length (Payload p)" using that True by (simp add: interval_def)
    ultimately show ?thesis using assms(2,3) by blast
  next
    case False
    have k: "length ?bs = k" using assms(5) by simp
    have l: "length b' = max (length b) (?o + k)" using length_write_at [OF False] assms(4) k by simp
    have n: "b' ! i = (if ?o \<le> i \<and> i < ?o + k then F ! i else if i < length b then b ! i else 0)" if "i < length b'" for i
    proof -
      have "b' ! i = (if ?o \<le> i \<and> i < ?o + k then ?bs ! (i - ?o) else if i < length b then b ! i else 0)"
        using nth_write_at [of i b ?o ?bs] that False assms(4) k by simp
      moreover have "?bs ! (i - ?o) = F ! i" if "?o \<le> i" "i < ?o + k"
        using byte [of "i - ?o"] that assms(5) by simp
      ultimately show ?thesis by (cases "?o \<le> i \<and> i < ?o + k") auto
    qed
    have "length b' \<le> length F" using l assms(2,5) c(2) by simp
    moreover have "i < length b' \<and> b' ! i = F ! i" if "int i \<in> C" for i
      using assms(3) [OF that] n [of i] l by auto
    moreover have "i < length b' \<and> b' ! i = F ! i" if "k = length (Payload p)" "int i \<in> interval p" for i
    proof -
      have "?o \<le> i \<and> i < ?o + k" using that c(1) by (auto simp: interval_def)
      then show ?thesis using n [of i] l by auto
    qed
    ultimately show ?thesis by blast
  qed
qed

lemma complete_content: "length b \<le> length F \<Longrightarrow> (\<And>i. i < length F \<Longrightarrow> i < length b \<and> b ! i = F ! i) \<Longrightarrow> b = F"
  by (metis le_antisym linorder_not_less nth_equalityI order_refl)

lemma sftp_laws_dest:
  assumes "sftp_laws cl files"
  shows "files (snd (cl_Dial cl r)) = files r" "files (snd (cl_NewClient cl r)) = files r"
    "files (snd (cl_MkdirAll cl d r)) = files r" "files (snd (cl_CloseFile cl p r)) = files r"
    "cl_OpenFile cl p r = (err, r') \<Longrightarrow> files r' = created p (files r) \<or> (err \<noteq> None \<and> files r' = files r)"
    "cl_WriteAt cl p bs off r = (err, r') \<Longrightarrow> files r p = Some b \<Longrightarrow> 0 \<le> off \<Longrightarrow>
      \<exists>k \<le> length bs. (err = None \<longrightarrow> k = length bs) \<and> files r' = (files r)(p \<mapsto> write_at b (nat off) (take k bs))"
    "files (snd (cl_Remove cl p r)) = files r \<or> files (snd (cl_Remove cl p r)) = (files r)(p := None)"
    "cl_Rename cl p q r = (err, r') \<Longrightarrow> files r' = (if err = None then (files r)(q := files r p, p := None) else files r)"
proof -
  note l = assms [unfolded sftp_laws_def]
  show "files (snd (cl_Dial cl r)) = files r" "files (snd (cl_NewClient cl r)) = files r"
    "files (snd (cl_MkdirAll cl d r)) = files r" "files (snd (cl_CloseFile cl p r)) = files r" using l by simp_all
  show "cl_OpenFile cl p r = (err, r') \<Longrightarrow> files r' = created p (files r) \<or> (err \<noteq> None \<and> files r' = files r)"
    using l by simp
  show "cl_WriteAt cl p bs off r = (err, r') \<Longrightarrow> files r p = Some b \<Longrightarrow> 0 \<le> off \<Longrightarrow>
      \<exists>k \<le> length bs. (err = None \<longrightarrow> k = length bs) \<and> files r' = (files r)(p \<mapsto> write_at b (nat off) (take k bs))"
    using l by blast
  show "files (snd (cl_Remove cl p r)) = files r \<or> files (snd (cl_Remove cl p r)) = (files r)(p := None)" using l by simp
  show "cl_Rename cl p q r = (err, r') \<Longrightarrow> files r' = (if err = None then (files r)(q := files r p, p := None) else files r)"
    using l by presburger
qed

text \<open>\<open>write_chunk\<close> touches only the temporary file, and puts the bytes of the chunk there when it succeeds.\<close>

lemma write_chunk_effect:
  assumes "sftp_laws cl files" "chunk_of F p" "not_longer F (files r tmp)"
    and "\<And>b i. files r tmp = Some b \<Longrightarrow> int i \<in> C \<Longrightarrow> i < length b \<and> b ! i = F ! i" "files r tmp = None \<Longrightarrow> C = {}"
    and "write_chunk cl tmp p r = (err, r')"
  shows "(\<forall>q. q \<noteq> tmp \<longrightarrow> files r' q = files r q) \<and> not_longer F (files r' tmp) \<and>
    (files r' tmp = None \<longrightarrow> C = {} \<and> err \<noteq> None) \<and>
    (\<forall>b i. files r' tmp = Some b \<longrightarrow> int i \<in> C \<or> (err = None \<and> int i \<in> interval p) \<longrightarrow> i < length b \<and> b ! i = F ! i)"
proof -
  note laws = sftp_laws_dest [OF assms(1)]
  obtain e1 r1 where o: "cl_OpenFile cl tmp r = (e1, r1)" by fastforce
  show ?thesis
  proof (cases e1)
    case (Some e)
    then have "r' = r1" "err = Some e" using assms(6) o by (simp_all add: write_chunk_def)
    then show ?thesis using laws(5) [OF o] assms(3-5)
      by (cases "files r tmp") (auto simp: created_def not_longer_def)
  next
    case None
    then have f1: "files r1 = created tmp (files r)" using laws(5) [OF o] by simp
    define b where "b = (case files r tmp of None \<Rightarrow> [] | Some b \<Rightarrow> b)"
    have b: "files r1 tmp = Some b" by (simp add: f1 created_def b_def split: option.split)
    have len: "length b \<le> length F" using assms(3) by (simp add: b_def not_longer_def split: option.splits)
    have right: "i < length b \<and> b ! i = F ! i" if "int i \<in> C" for i
      using assms(4,5) that by (cases "files r tmp") (auto simp: b_def)
    obtain e2 r2 where w: "cl_WriteAt cl tmp (Payload p) (Offset (Meta p)) r1 = (e2, r2)" by fastforce
    have o0: "0 \<le> Offset (Meta p)" using assms(2) by (simp add: chunk_of_def)
    from laws(6) [OF w b o0] obtain k where k: "k \<le> length (Payload p)" "e2 = None \<longrightarrow> k = length (Payload p)"
      "files r2 = (files r1)(tmp \<mapsto> write_at b (nat (Offset (Meta p))) (take k (Payload p)))" by blast
    note wb = write_chunk_bytes [OF assms(2) len right refl k(1), of C]
    obtain e3 r3 where c: "cl_CloseFile cl tmp r2 = (e3, r3)" by fastforce
    have f3: "files r3 = files r2" using laws(4) [of tmp r2] c by simp
    have res: "r' = r3" "err = None \<Longrightarrow> e2 = None" using assms(6) o None w c by (auto simp: write_chunk_def split: option.splits)
    show ?thesis
      unfolding res(1) f3 k(3)
      using wb res(2) k(2) f1 by (auto simp: not_longer_def created_def)
  qed
qed

lemma received_chunk_effect:
  assumes "range_inv st" "chunk_of F p" "in64 (int (length F))"
  shows "range_inv (received_chunk p st) \<and>
    covered (sf_ranges (received_chunk p st)) = covered (sf_ranges st) \<union> interval p \<and>
    sf_totalSize (received_chunk p st) = sf_totalSize st \<and> sf_eofSeen (received_chunk p st) = (sf_eofSeen st \<or> EOF (Meta p)) \<and>
    sf_tempPath (received_chunk p st) = sf_tempPath st \<and> sf_finalPath (received_chunk p st) = sf_finalPath st"
proof -
  have "in64 (Offset (Meta p) + int (length (Payload p)))"
    using assms(2,3) by (auto simp: chunk_of_def in64_def)
  then have "wrap64 (Offset (Meta p) + int (length (Payload p))) = Offset (Meta p) + int (length (Payload p))" by (rule wrap64_id)
  then show ?thesis using sftp_addRange_effect [OF assms(1)]
    by (auto simp: received_chunk_def Let_def range_inv_def interval_def sftp_addRange_def)
qed

text \<open>One chunk of a transfer: the final path changes only when the file is whole.\<close>

lemma chunk_to_transfer_effect:
  assumes laws: "sftp_laws cl files" and ch: "chunk_of F p" and F: "F \<noteq> []" "in64 (int (length F))"
    and ok: "temp_ok F st (files r (sf_tempPath st))" and ne: "sf_tempPath st \<noteq> sf_finalPath st"
    and run: "chunk_to_transfer cl p st r = (err, committed, st', r')"
  shows "sf_tempPath st' = sf_tempPath st \<and> sf_finalPath st' = sf_finalPath st \<and>
    (\<forall>q. q \<noteq> sf_tempPath st \<longrightarrow> q \<noteq> sf_finalPath st \<longrightarrow> files r' q = files r q) \<and>
    (committed \<longrightarrow> err = None \<and> files r' (sf_finalPath st) = Some F \<and> files r' (sf_tempPath st) = None) \<and>
    (\<not> committed \<longrightarrow> temp_ok F st' (files r' (sf_tempPath st)) \<and>
       (files r' (sf_finalPath st) = files r (sf_finalPath st) \<or> (err \<noteq> None \<and> files r' (sf_finalPath st) = None))) \<and>
    (err = None \<longrightarrow> covered (sf_ranges st') = covered (sf_ranges st) \<union> interval p \<and>
       sf_eofSeen st' = (sf_eofSeen st \<or> EOF (Meta p)) \<and> (readyToCommit st' \<longrightarrow> committed))"
proof -
  let ?t = "sf_tempPath st" and ?f = "sf_finalPath st"
  have tot: "TotalSize (Meta p) = int (length F)" "sf_totalSize st = int (length F)"
    using ch ok by (simp_all add: chunk_of_def temp_ok_def)
  then have st: "(if TotalSize (Meta p) > 0 then st\<lparr>sf_totalSize := TotalSize (Meta p)\<rparr> else st) = st"
    by (cases st) simp
  obtain e1 r1 where w: "write_chunk cl ?t p r = (e1, r1)" by fastforce
  have we: "(\<forall>q. q \<noteq> ?t \<longrightarrow> files r1 q = files r q) \<and> not_longer F (files r1 ?t) \<and>
    (files r1 ?t = None \<longrightarrow> covered (sf_ranges st) = {} \<and> e1 \<noteq> None) \<and>
    (\<forall>b i. files r1 ?t = Some b \<longrightarrow> int i \<in> covered (sf_ranges st) \<or> (e1 = None \<and> int i \<in> interval p) \<longrightarrow> i < length b \<and> b ! i = F ! i)"
    by (rule write_chunk_effect [OF laws ch temp_ok_not_longer [OF ok] _ _ w])
      (use ok in \<open>auto simp: temp_ok_def split: option.splits\<close>)
  have rest: "range_inv st" "covered (sf_ranges st) \<subseteq> {0 ..< int (length F)}" using ok by (simp_all add: temp_ok_def)
  show ?thesis
  proof (cases e1)
    case (Some e)
    then have "err = Some e" "\<not> committed" "st' = st" "r' = r1" using run w st by (auto simp: chunk_to_transfer_def Let_def)
    then show ?thesis using we Some rest tot ne by (auto simp: temp_ok_def not_longer_def split: option.splits)
  next
    case None
    define st1 where "st1 = received_chunk p st"
    note rc = received_chunk_effect [OF rest(1) ch F(2), folded st1_def]
    obtain b where b: "files r1 ?t = Some b" using we None by auto
    have iv: "interval p \<subseteq> {0 ..< int (length F)}" using ch by (auto simp: interval_def chunk_of_def)
    have t1: "temp_ok F st1 (files r1 ?t)"
      using rc we None b rest(2) iv tot(2) by (auto simp: temp_ok_def not_longer_def)
    show ?thesis
    proof (cases "readyToCommit st1")
      case False
      then have "err = None" "\<not> committed" "st' = st1" "r' = r1"
        using run w st None by (auto simp: chunk_to_transfer_def Let_def st1_def)
      then show ?thesis using rc we t1 ne False by auto
    next
      case True
      have "sf_eofSeen st1" "0 < sf_totalSize st1" using True rc tot(2) F(1) by (auto simp: readyToCommit_def split: if_splits)
      then have all: "{0 ..< int (length F)} \<subseteq> covered (sf_ranges st1)"
        using ready_iff_covered [of st1] True rc t1 tot(2) by (auto simp: temp_ok_def)
      have whole: "b = F"
      proof (rule complete_content)
        show "length b \<le> length F" using t1 b by (simp add: temp_ok_def)
        show "i < length b \<and> b ! i = F ! i" if "i < length F" for i
          using t1 b all that by (auto simp: temp_ok_def)
      qed
      obtain e2 r2 where rm: "cl_Remove cl ?f r1 = (e2, r2)" by fastforce
      have f2: "files r2 = files r1 \<or> files r2 = (files r1)(?f := None)"
        using sftp_laws_dest(7) [OF laws, of ?f r1] rm by simp
      obtain e3 r3 where rn: "cl_Rename cl ?t ?f r2 = (e3, r3)" by fastforce
      have f3: "files r3 = (if e3 = None then (files r2)(?f := files r2 ?t, ?t := None) else files r2)"
        by (rule sftp_laws_dest(8) [OF laws rn])
      have tmp2: "files r2 ?t = Some F" using f2 b whole ne by auto
      have res: "st' = st1" "r' = r3" "err = e3" "committed = (e3 = None)"
        using run w st None True rc rm rn by (auto simp: chunk_to_transfer_def Let_def st1_def split: option.splits)
      show ?thesis
      proof (cases e3)
        case None
        then show ?thesis using res f3 tmp2 we f2 rc ne by auto
      next
        case (Some e)
        have "temp_ok F st1 (Some F)" using t1 b whole by simp
        then show ?thesis using res f3 Some tmp2 we f2 rc ne by auto
      qed
    qed
  qed
qed

end
