(* ===== verification/SftpTransfers.thy ===== *)
theory SftpTransfers
  imports SftpProps
begin

text \<open>
  The SFTP sender and its shards: every transfer has one state, in its shard. Picking a shard, connecting,
  committing and closing keep this, and a \<open>Send\<close> either fails before it reaches a transfer or works on the
  one transfer of its packet.
\<close>

section \<open>One state for each transfer\<close>

definition transfer_id :: "packet \<Rightarrow> string" where
  "transfer_id p = trim_space (TransferID (Meta p))"

definition shard_of :: "sftp_sender \<Rightarrow> string \<Rightarrow> nat option" where
  "shard_of s u = (if sn_concurrency s \<le> 1 then Some 0 else mget (sn_transferShard s) u)"

definition transfer :: "sftp_sender \<Rightarrow> string \<Rightarrow> sftp_transfer_state option" where
  "transfer s u = (case shard_of s u of None \<Rightarrow> None | Some i \<Rightarrow> mget (sn_states s ! i) u)"

definition sn_ok :: "sftp_sender \<Rightarrow> bool" where
  "sn_ok s \<longleftrightarrow>
     0 < sn_concurrency s \<and> sn_shardMask s = sn_concurrency s - 1 \<and> length (sn_states s) = nat (sn_concurrency s) \<and>
     sn_tempSuffix s \<noteq> [] \<and>
     (\<forall>u i. shard_of s u = Some i \<longrightarrow> i < nat (sn_concurrency s)) \<and>
     (\<forall>i < nat (sn_concurrency s). \<forall>u. mget (sn_states s ! i) u \<noteq> None \<longrightarrow> shard_of s u = Some i)"

lemma sn_okD:
  assumes "sn_ok s"
  shows "0 < sn_concurrency s" "sn_shardMask s = sn_concurrency s - 1" "length (sn_states s) = nat (sn_concurrency s)"
    "sn_tempSuffix s \<noteq> []" "shard_of s u = Some i \<Longrightarrow> i < nat (sn_concurrency s)"
    "i < nat (sn_concurrency s) \<Longrightarrow> mget (sn_states s ! i) u \<noteq> None \<Longrightarrow> shard_of s u = Some i"
  using assms unfolding sn_ok_def by blast+

lemma sn_okI:
  assumes "0 < sn_concurrency s" "sn_shardMask s = sn_concurrency s - 1" "length (sn_states s) = nat (sn_concurrency s)"
    "sn_tempSuffix s \<noteq> []" "\<And>u i. shard_of s u = Some i \<Longrightarrow> i < nat (sn_concurrency s)"
    "\<And>u i. i < nat (sn_concurrency s) \<Longrightarrow> mget (sn_states s ! i) u \<noteq> None \<Longrightarrow> shard_of s u = Some i"
  shows "sn_ok s"
  using assms unfolding sn_ok_def by blast

definition same_places :: "sftp_sender \<Rightarrow> sftp_sender \<Rightarrow> bool" where
  "same_places s s' \<longleftrightarrow> sn_remoteDir s' = sn_remoteDir s \<and> sn_tempSuffix s' = sn_tempSuffix s \<and> sn_addr s' = sn_addr s"

lemma same_places_refl [simp]: "same_places s s"
  by (simp add: same_places_def)

lemma same_places_trans: "same_places a b \<Longrightarrow> same_places b c \<Longrightarrow> same_places a c"
  by (simp add: same_places_def)

text \<open>Changing connections only.\<close>

definition same_transfers :: "sftp_sender \<Rightarrow> sftp_sender \<Rightarrow> bool" where
  "same_transfers s s' \<longleftrightarrow> same_places s s' \<and> sn_states s' = sn_states s \<and> sn_transferShard s' = sn_transferShard s \<and>
     sn_concurrency s' = sn_concurrency s \<and> sn_shardMask s' = sn_shardMask s"

lemma same_transfers_keep:
  assumes "same_transfers s s'"
  shows "shard_of s' u = shard_of s u" "transfer s' u = transfer s u" "sn_ok s' = sn_ok s" "same_places s s'"
    "sn_states s' = sn_states s" "sn_concurrency s' = sn_concurrency s"
proof -
  have sh: "shard_of s' v = shard_of s v" for v using assms by (simp add: same_transfers_def shard_of_def)
  then show "shard_of s' u = shard_of s u" .
  have st: "sn_states s' = sn_states s" using assms by (simp add: same_transfers_def)
  show "transfer s' u = transfer s u" by (simp only: transfer_def sh st)
  show "sn_ok s' = sn_ok s" unfolding sn_ok_def sh using assms by (simp add: same_transfers_def same_places_def)
  show "same_places s s'" "sn_states s' = sn_states s" "sn_concurrency s' = sn_concurrency s"
    using assms by (simp_all add: same_transfers_def)
qed

lemma same_transfers_trans: "same_transfers a b \<Longrightarrow> same_transfers b c \<Longrightarrow> same_transfers a c"
  by (auto simp: same_transfers_def intro: same_places_trans)

lemma invalidate_same [simp]: "same_transfers s (invalidateConnLocked idx s)"
  by (simp add: same_transfers_def invalidateConnLocked_def same_places_def)

lemma ensureConn_effect:
  assumes "sftp_laws cl files" "ensureConnLocked cl idx s r = (err, s', r')"
  shows "same_transfers s s' \<and> files r' = files r"
proof -
  note l = sftp_laws_dest [OF assms(1)]
  obtain e1 r1 where d: "cl_Dial cl r = (e1, r1)" by fastforce
  obtain e2 r2 where n: "cl_NewClient cl r1 = (e2, r2)" by fastforce
  obtain e3 r3 where m: "cl_MkdirAll cl (sn_remoteDir s) r2 = (e3, r3)" by fastforce
  have f: "files r1 = files r" "files r2 = files r1" "files r3 = files r2"
    using l(1) [of r] l(2) [of r1] l(3) [of "sn_remoteDir s" r2] d n m by simp_all
  show ?thesis using assms(2) d n m f
    by (auto simp: ensureConnLocked_def same_transfers_def same_places_def split: if_splits sum.splits option.splits)
qed

lemma pickShard_effect:
  assumes "sn_ok s" "pickShard u s = (idx, s')"
  shows "sn_ok s' \<and> idx < nat (sn_concurrency s') \<and> shard_of s' u = Some idx \<and> (\<forall>v. transfer s' v = transfer s v) \<and>
    same_places s s' \<and> sn_states s' = sn_states s \<and> (\<forall>v. v \<noteq> u \<longrightarrow> shard_of s' v = shard_of s v)"
proof (cases "shard_of s u")
  case (Some i)
  then have "s' = s \<and> idx = i" using assms(2) by (auto simp: pickShard_def shard_of_def split: if_splits)
  moreover have "i < nat (sn_concurrency s)" by (rule sn_okD(5) [OF assms(1) Some])
  ultimately show ?thesis using assms(1) Some by simp
next
  case None
  then have many: "\<not> sn_concurrency s \<le> 1" "mget (sn_transferShard s) u = None" by (auto simp: shard_of_def split: if_splits)
  obtain i nxt where i: "nextShardIndex (sn_nextIdx s) (sn_shardMask s) = (i, nxt)" by fastforce
  have "pickShard u s = (nat i, s\<lparr>sn_nextIdx := nxt, sn_transferShard := mset_at u (nat i) (sn_transferShard s)\<rparr>)"
    using many i by (simp add: pickShard_def)
  then have s': "idx = nat i" "s' = s\<lparr>sn_nextIdx := nxt, sn_transferShard := mset_at u (nat i) (sn_transferShard s)\<rparr>"
    using assms(2) by auto
  have r: "0 \<le> i \<and> i < sn_concurrency s" using nextShardIndex_range [OF sn_okD(1) [OF assms(1)]] i sn_okD(2) [OF assms(1)] by simp
  have sh: "shard_of s' v = (if v = u then Some (nat i) else shard_of s v)" for v using many s'(2) by (simp add: shard_of_def)
  have none: "mget (sn_states s ! j) u = None" if "j < nat (sn_concurrency s)" for j
    using sn_okD(6) [OF assms(1) that, of u] None by fastforce
  have ok: "sn_ok s'"
  proof (rule sn_okI)
    fix v j assume "shard_of s' v = Some j"
    then show "j < nat (sn_concurrency s')" using sh [of v] r sn_okD(5) [OF assms(1), of v j] s'(2) by (auto split: if_splits)
  next
    fix v j assume j: "j < nat (sn_concurrency s')" "mget (sn_states s' ! j) v \<noteq> None"
    then have "mget (sn_states s ! j) v \<noteq> None" "j < nat (sn_concurrency s)" by (simp_all add: s'(2))
    then show "shard_of s' v = Some j" using sh [of v] none [of j] sn_okD(6) [OF assms(1), of j v] by auto
  qed (use sn_okD(1-4) [OF assms(1)] in \<open>simp_all add: s'(2)\<close>)
  have t: "transfer s' v = transfer s v" for v
    using sh [of v] none [of "nat i"] r None s'(2) by (simp add: transfer_def split: option.split)
  show ?thesis using ok t sh r s' by (auto simp: same_places_def)
qed

lemma put_transfer_effect:
  assumes "sn_ok s" "idx < nat (sn_concurrency s)" "shard_of s u = Some idx"
  shows "sn_ok (put_transfer idx u st s)" "transfer (put_transfer idx u st s) v = (if v = u then Some st else transfer s v)"
    "same_places s (put_transfer idx u st s)"
proof -
  have l: "idx < length (sn_states s)" using assms(2) sn_okD(3) [OF assms(1)] by simp
  have sh: "shard_of (put_transfer idx u st s) v = shard_of s v" for v by (simp add: shard_of_def put_transfer_def)
  have g: "mget (sn_states (put_transfer idx u st s) ! i) v = (if i = idx \<and> v = u then Some st else mget (sn_states s ! i) v)" for i v
    using l by (simp add: put_transfer_def nth_list_update)
  show "sn_ok (put_transfer idx u st s)"
  proof (rule sn_okI)
    fix v j assume "shard_of (put_transfer idx u st s) v = Some j"
    then show "j < nat (sn_concurrency (put_transfer idx u st s))"
      using sn_okD(5) [OF assms(1), of v j] sh by (simp add: put_transfer_def)
  next
    fix v j assume "j < nat (sn_concurrency (put_transfer idx u st s))" "mget (sn_states (put_transfer idx u st s) ! j) v \<noteq> None"
    then show "shard_of (put_transfer idx u st s) v = Some j"
      using sn_okD(6) [OF assms(1), of j v] assms(3) unfolding sh g by (auto simp: put_transfer_def split: if_splits)
  qed (use sn_okD(1-4) [OF assms(1)] in \<open>simp_all add: put_transfer_def\<close>)
  show "transfer (put_transfer idx u st s) v = (if v = u then Some st else transfer s v)"
  proof (cases "v = u")
    case True
    then show ?thesis using assms(3) by (simp add: transfer_def sh g)
  next
    case False
    then show ?thesis by (simp add: transfer_def sh g split: option.split)
  qed
  show "same_places s (put_transfer idx u st s)" by (simp add: same_places_def put_transfer_def)
qed

lemma cleanup_effect:
  assumes "sn_ok s" "idx < nat (sn_concurrency s)" "shard_of s u = Some idx"
  shows "sn_ok (cleanupCommittedTransferLocked idx u s)"
    "transfer (cleanupCommittedTransferLocked idx u s) v = (if v = u then None else transfer s v)"
    "same_places s (cleanupCommittedTransferLocked idx u s)"
proof -
  let ?s = "cleanupCommittedTransferLocked idx u s"
  have l: "idx < length (sn_states s)" using assms(2) sn_okD(3) [OF assms(1)] by simp
  have sh: "shard_of ?s v = (if v = u \<and> \<not> sn_concurrency s \<le> 1 then None else shard_of s v)" for v
    by (simp add: shard_of_def cleanupCommittedTransferLocked_def delete_conv')
  have g: "mget (sn_states ?s ! i) v = (if i = idx \<and> v = u then None else mget (sn_states s ! i) v)" for i v
    using l by (simp add: cleanupCommittedTransferLocked_def nth_list_update delete_conv')
  have only: "mget (sn_states s ! i) u = None" if "i < nat (sn_concurrency s)" "i \<noteq> idx" for i
    using sn_okD(6) [OF assms(1) that(1), of u] assms(3) that(2) by fastforce
  show "sn_ok ?s"
  proof (rule sn_okI)
    fix v j assume "shard_of ?s v = Some j"
    then show "j < nat (sn_concurrency ?s)"
      using sn_okD(5) [OF assms(1), of v j] sh [of v] by (simp add: cleanupCommittedTransferLocked_def split: if_splits)
  next
    fix v j assume j: "j < nat (sn_concurrency ?s)" "mget (sn_states ?s ! j) v \<noteq> None"
    then have c: "j < nat (sn_concurrency s)" by (simp add: cleanupCommittedTransferLocked_def)
    have "v \<noteq> u" using j(2) only [OF c] unfolding g by (auto split: if_splits)
    then show "shard_of ?s v = Some j" using j(2) sn_okD(6) [OF assms(1) c, of v] unfolding sh g by (simp split: if_splits)
  qed (use sn_okD(1-4) [OF assms(1)] in \<open>simp_all add: cleanupCommittedTransferLocked_def\<close>)
  show "transfer ?s v = (if v = u then None else transfer s v)"
    using assms(3) by (auto simp: transfer_def sh g split: option.split)
  show "same_places s ?s" by (simp add: same_places_def cleanupCommittedTransferLocked_def)
qed

lemma close_effect:
  assumes "sn_ok s"
  shows "sn_ok (sftp_Close s)" "transfer (sftp_Close s) u = None" "same_places s (sftp_Close s)"
proof -
  let ?s = "sftp_Close s"
  have l: "length (sn_states s) = nat (sn_concurrency s)" by (rule sn_okD(3) [OF assms])
  have g: "mget (sn_states ?s ! i) v = None" if "i < nat (sn_concurrency s)" for i v
    using that l by (simp add: sftp_Close_def)
  have c: "sn_concurrency ?s = sn_concurrency s" by (simp add: sftp_Close_def)
  have sh: "shard_of ?s v = Some j \<Longrightarrow> j < nat (sn_concurrency s)" for v j
    using sn_okD(1) [OF assms] by (auto simp: shard_of_def sftp_Close_def split: if_splits)
  show "sn_ok ?s"
  proof (rule sn_okI)
    show "length (sn_states ?s) = nat (sn_concurrency ?s)" using l by (simp add: sftp_Close_def)
  qed (use sn_okD(1,2,4) [OF assms] g sh in \<open>simp_all add: sftp_Close_def\<close>)
  show "transfer ?s u = None" using g sh by (simp add: transfer_def split: option.split)
  show "same_places s ?s" by (simp add: same_places_def sftp_Close_def)
qed

section \<open>Send\<close>

definition new_sftp_transfer :: "sftp_sender \<Rightarrow> packet \<Rightarrow> string \<Rightarrow> sftp_transfer_state" where
  "new_sftp_transfer s p fp = \<lparr>sf_tempPath = fp @ sn_tempSuffix s, sf_finalPath = fp, sf_totalSize = TotalSize (Meta p),
     sf_eofSeen = False, sf_coveredBytes = 0, sf_ranges = []\<rparr>"

definition state_for :: "sftp_sender \<Rightarrow> packet \<Rightarrow> sftp_transfer_state \<Rightarrow> bool" where
  "state_for s p st \<longleftrightarrow>
     (case transfer s (transfer_id p) of
        Some st' \<Rightarrow> st = st'
      | None \<Rightarrow> (\<exists>fp. sftpFinalPath (sn_remoteDir s) p (transfer_id p) = Inr fp \<and> st = new_sftp_transfer s p fp))"

lemma state_for_cong:
  assumes "\<And>v. transfer s' v = transfer s v" "same_places s s'"
  shows "state_for s' p = state_for s p"
proof -
  have "new_sftp_transfer s' p fp = new_sftp_transfer s p fp" for fp using assms(2) by (simp add: new_sftp_transfer_def same_places_def)
  moreover have "sn_remoteDir s' = sn_remoteDir s" using assms(2) by (simp add: same_places_def)
  ultimately show ?thesis by (intro ext) (simp only: state_for_def assms(1))
qed

text \<open>A \<open>Send\<close> fails before it reaches the transfer, or it works on the one transfer of its packet.\<close>

definition no_work :: "('r \<Rightarrow> string \<Rightarrow> bytes option) \<Rightarrow> sftp_sender \<Rightarrow> 'r \<Rightarrow> go_error option \<Rightarrow> sftp_sender \<Rightarrow> 'r \<Rightarrow> bool" where
  "no_work files s r err s' r' \<longleftrightarrow> err \<noteq> None \<and> files r' = files r \<and> (\<forall>v. transfer s' v = transfer s v)"

definition chunk_work :: "'r sftp_client \<Rightarrow> ('r \<Rightarrow> string \<Rightarrow> bytes option) \<Rightarrow> packet \<Rightarrow> sftp_sender \<Rightarrow> 'r \<Rightarrow>
    go_error option \<Rightarrow> sftp_sender \<Rightarrow> 'r \<Rightarrow> bool" where
  "chunk_work cl files p s r err s' r' \<longleftrightarrow>
     (\<exists>st r1 committed st'. state_for s p st \<and> files r1 = files r \<and>
        chunk_to_transfer cl p st r1 = (err, committed, st', r') \<and>
        (\<forall>v. transfer s' v = (if v = transfer_id p then (if committed then None else Some st') else transfer s v)))"

lemma chunk_committed_no_error: "chunk_to_transfer cl p st r = (err, True, st', r') \<Longrightarrow> err = None"
  by (auto simp: chunk_to_transfer_def Let_def split: option.splits prod.splits if_splits)

lemma get_transfer_effect:
  assumes "sftp_laws cl files" "sn_ok s" "shard_of s (transfer_id p) = Some idx"
    and "get_transfer cl idx (transfer_id p) p s r = (res, s', r')"
  shows "same_transfers s s' \<and> files r' = files r \<and> (case res of Inl _ \<Rightarrow> True | Inr st \<Rightarrow> state_for s p st)"
proof -
  have t: "transfer s (transfer_id p) = mget (sn_states s ! idx) (transfer_id p)" using assms(3) by (simp add: transfer_def)
  define e r1 where "e fp = fst (cl_MkdirAll cl (path_dir fp) r)" and "r1 fp = snd (cl_MkdirAll cl (path_dir fp) r)" for fp
  then have m: "cl_MkdirAll cl (path_dir fp) r = (e fp, r1 fp)" for fp by simp
  have f: "files (r1 fp) = files r" for fp using sftp_laws_dest(3) [OF assms(1), of "path_dir fp" r] m [of fp] by simp
  have same: "same_transfers s s" by (simp add: same_transfers_def)
  show ?thesis
  proof (cases "mget (sn_states s ! idx) (transfer_id p)")
    case (Some st)
    then show ?thesis using assms(4) t same by (auto simp: get_transfer_def state_for_def)
  next
    case None
    show ?thesis
    proof (cases "sftpFinalPath (sn_remoteDir s) p (transfer_id p)")
      case (Inl err)
      then show ?thesis using assms(4) None same by (auto simp: get_transfer_def)
    next
      case (Inr fp)
      then show ?thesis using assms(4) None same t m [of fp] f [of fp]
        by (cases "e fp") (auto simp: get_transfer_def state_for_def new_sftp_transfer_def)
    qed
  qed
qed

lemma sendLocked_effect:
  assumes laws: "sftp_laws cl files" and ok: "sn_ok s" and idx: "idx < nat (sn_concurrency s)" "shard_of s (transfer_id p) = Some idx"
    and run: "sendLocked cl sha idx (transfer_id p) p s r = (err, s', r')"
  shows "sn_ok s' \<and> same_places s s' \<and> (no_work files s r err s' r' \<or> chunk_work cl files p s r err s' r')"
proof -
  let ?u = "transfer_id p"
  obtain e1 s1 r1 where c: "ensureConnLocked cl idx s r = (e1, s1, r1)" by (metis prod_cases3)
  note ce = ensureConn_effect [OF laws c]
  note k1 = same_transfers_keep [OF conjunct1 [OF ce]]
  show ?thesis
  proof (cases "e1 \<noteq> None \<or> (trim_space (Checksum (Meta p)) \<noteq> [] \<and>
      lower_ascii (hex_encode (sha (Payload p))) \<noteq> lower_ascii (trim_space (Checksum (Meta p))))")
    case True
    then have "err \<noteq> None \<and> s' = s1 \<and> r' = r1" using run c by (cases e1) (auto simp: sendLocked_def Let_def)
    then show ?thesis using k1(2-4) ce ok by (simp add: no_work_def)
  next
    case False
    obtain res s2 r2 where g: "get_transfer cl idx ?u p s1 r1 = (res, s2, r2)" by (metis prod_cases3)
    have idx1: "shard_of s1 ?u = Some idx" using k1(1) idx(2) by simp
    note ge = get_transfer_effect [OF laws _ idx1 g]
    have ok1: "sn_ok s1" using k1(3) ok by simp
    have ge: "same_transfers s1 s2" "files r2 = files r1" "case res of Inl _ \<Rightarrow> True | Inr st \<Rightarrow> state_for s1 p st"
      using ge ok1 by blast+
    note k2 = same_transfers_keep [OF same_transfers_trans [OF conjunct1 [OF ce] ge(1)]]
    have f2: "files r2 = files r" using ge(2) ce by simp
    show ?thesis
    proof (cases res)
      case (Inl e)
      then have "err = Some e \<and> s' = s2 \<and> r' = r2" using run c g False by (auto simp: sendLocked_def Let_def)
      then show ?thesis using k2(2-4) f2 ok by (simp add: no_work_def)
    next
      case (Inr st)
      obtain e3 cm st' r3 where w: "chunk_to_transfer cl p st r2 = (e3, cm, st', r3)" by (metis prod_cases4)
      define s3 where "s3 = put_transfer idx ?u st' s2"
      have ok2: "sn_ok s2" and i2: "idx < nat (sn_concurrency s2)" and sh2: "shard_of s2 ?u = Some idx"
        using k2(3,6,1) ok idx by simp_all
      note pe = put_transfer_effect [OF ok2 i2 sh2, of st', folded s3_def]
      have i3: "idx < nat (sn_concurrency s3)" "shard_of s3 ?u = Some idx"
        using i2 sh2 by (auto simp: s3_def put_transfer_def shard_of_def split: if_splits)
      note cle = cleanup_effect [OF pe(1) i3]
      note inv = same_transfers_keep [OF invalidate_same [of s3 idx]]
      have st: "state_for s p st"
        using ge(3) Inr state_for_cong [of s1 s, OF k1(2,4)] by (simp del: split_paired_All)
      have s': "err = e3 \<and> r' = r3 \<and>
        s' = (case e3 of Some _ \<Rightarrow> invalidateConnLocked idx s3
              | None \<Rightarrow> if cm then cleanupCommittedTransferLocked idx ?u s3 else s3)"
        using run c g False Inr w by (auto simp: sendLocked_def Let_def s3_def split: option.splits)
      have cm: "e3 \<noteq> None \<Longrightarrow> \<not> cm" using chunk_committed_no_error [of cl p st r2 e3 st' r3] w by auto
      have pl: "same_places s s3" using same_places_trans [OF k2(4) pe(3)] .
      have t3: "transfer s3 v = (if v = ?u then Some st' else transfer s v)" for v using pe(2) [of v] k2(2) [of v] by simp
      have "sn_ok s' \<and> same_places s s' \<and>
        (\<forall>v. transfer s' v = (if v = ?u then (if cm then None else Some st') else transfer s v))"
      proof (cases e3)
        case (Some e)
        then show ?thesis using s' cm inv(2,3,4) pe(1) t3 same_places_trans [OF pl] by simp
      next
        case None
        then show ?thesis using s' cle pe(1) t3 pl same_places_trans [OF pl] by (cases cm) simp_all
      qed
      moreover have "chunk_to_transfer cl p st r2 = (err, cm, st', r')" using w s' by simp
      ultimately show ?thesis using st f2 unfolding chunk_work_def by blast
    qed
  qed
qed

lemma sftp_Send_effect:
  assumes laws: "sftp_laws cl files" and ok: "sn_ok s" and run: "sftp_Send cl sha ctx p s r = (err, s', r')"
  shows "sn_ok s' \<and> same_places s s' \<and>
    (no_work files s r err s' r' \<or> (sftp_guard ctx p = None \<and> chunk_work cl files p s r err s' r'))"
proof (cases "sftp_guard ctx p")
  case (Some e)
  then have "err = Some e \<and> s' = s \<and> r' = r" using run by (simp add: sftp_Send_def)
  then show ?thesis using ok by (simp add: no_work_def)
next
  case None
  obtain idx s1 where ps: "pickShard (transfer_id p) s = (idx, s1)" by fastforce
  note pe = pickShard_effect [OF ok ps]
  obtain e2 s2 r2 where c: "(if sn_connReady s1 ! idx then (None, s1, r) else ensureConnLocked cl idx s1 r) = (e2, s2, r2)"
    by (metis prod_cases3)
  have ce: "same_transfers s1 s2 \<and> files r2 = files r"
  proof (cases "sn_connReady s1 ! idx")
    case True
    then show ?thesis using c by (auto simp: same_transfers_def)
  next
    case False
    then show ?thesis using ensureConn_effect [OF laws, of idx s1 r e2 s2 r2] c by simp
  qed
  note k = same_transfers_keep [OF conjunct1 [OF ce]]
  have t2: "transfer s2 v = transfer s v" for v using k(2) [of v] pe by simp
  have pl: "same_places s s2" using same_places_trans [OF _ k(4)] pe by blast
  have ok2: "sn_ok s2" using k(3) pe by simp
  show ?thesis
  proof (cases e2)
    case (Some e)
    then have "err \<noteq> None \<and> s' = s2 \<and> r' = r2" using run None ps c Some by (auto simp: sftp_Send_def transfer_id_def)
    then show ?thesis using ok2 pl t2 ce by (simp add: no_work_def)
  next
    case N: None
    have run2: "sendLocked cl sha idx (transfer_id p) p s2 r2 = (err, s', r')"
      using run None ps c N by (simp add: sftp_Send_def transfer_id_def)
    have i: "idx < nat (sn_concurrency s2)" "shard_of s2 (transfer_id p) = Some idx" using pe k(1,6) by simp_all
    note se = sendLocked_effect [OF laws ok2 i run2]
    have sf: "state_for s2 p = state_for s p" by (rule ext) (rule fun_cong [OF state_for_cong [OF t2 pl]])
    have "no_work files s2 r2 err s' r' \<Longrightarrow> no_work files s r err s' r'" using t2 ce by (simp add: no_work_def)
    moreover have "chunk_work cl files p s2 r2 err s' r' \<Longrightarrow> chunk_work cl files p s r err s' r'"
      by (simp only: chunk_work_def sf t2 conjunct2 [OF ce])
    ultimately show ?thesis using se same_places_trans [OF pl] None by blast
  qed
qed

end
