(* ===== verification/SftpRuns.thy ===== *)
theory SftpRuns
  imports SftpTransfers
begin

text \<open>
  Runs of the SFTP sender: the sender that \<open>NewSFTPSender\<close> gives, then any packets and closes. \<open>run_ok\<close> says how
  one transfer stands among the others; each operation keeps it, and \<open>progress\<close> says how far the transfer is.
\<close>

section \<open>The new sender\<close>

definition valid_addr :: "string \<Rightarrow> bool" where
  "valid_addr a \<longleftrightarrow> (\<exists>hp. SplitHostPort a = Inr hp)"

lemma ensureConn_valid:
  assumes "ensureConnLocked cl idx s r = (None, s', r')" "\<not> sn_conn s ! idx"
  shows "valid_addr (sn_addr s)"
  using assms by (auto simp: ensureConnLocked_def valid_addr_def split: sum.splits)

lemma connect_shards_effect:
  assumes "sftp_laws cl files" "connect_shards cl idxs s r = (None, s', r')"
  shows "same_transfers s s' \<and> files r' = files r \<and> (\<forall>i is. idxs = i # is \<longrightarrow> \<not> sn_conn s ! i \<longrightarrow> valid_addr (sn_addr s))"
  using assms(2)
proof (induction idxs arbitrary: s r)
  case Nil
  then show ?case by (simp add: same_transfers_def)
next
  case (Cons i "is")
  obtain e s1 r1 where c: "ensureConnLocked cl i s r = (e, s1, r1)" by (metis prod_cases3)
  then have e: "e = None" "connect_shards cl is s1 r1 = (None, s', r')" using Cons.prems by (auto split: option.splits)
  have "same_transfers s s1 \<and> files r1 = files r" by (rule ensureConn_effect [OF assms(1) c])
  then show ?case using Cons.IH [OF e(2)] same_transfers_trans [of s s1 s'] ensureConn_valid [of cl i s r s1 r1] c e(1) by auto
qed

lemma new_sender_ok: "\<not> blank (sc_RemoteDir sc) \<Longrightarrow> sn_ok (new_sftp_sender sc) \<and> transfer (new_sftp_sender sc) v = None"
  by (auto simp: sn_ok_def new_sftp_sender_def shard_of_def transfer_def Let_def DefaultSenderConcurrency_def blank_def)

lemma new_effect:
  assumes "sftp_laws cl files" "NewSFTPSender cl sc r0 = (Inr s, r)"
  shows "sn_ok s \<and> (\<forall>v. transfer s v = None) \<and> files r = files r0 \<and> valid_addr (sn_addr s) \<and>
    sn_remoteDir s = trim_space (sc_RemoteDir sc) \<and> sn_tempSuffix s = sn_tempSuffix (new_sftp_sender sc)"
proof -
  let ?s = "new_sftp_sender sc" and ?idxs = "[0 ..< nat (sn_concurrency (new_sftp_sender sc))]"
  have c: "connect_shards cl ?idxs ?s r0 = (None, s, r)" and d: "\<not> blank (sc_RemoteDir sc)"
    using assms(2) by (auto simp: NewSFTPSender_def Let_def fail_if_def split: option.splits prod.splits if_splits)
  note n = new_sender_ok [OF d]
  note e = connect_shards_effect [OF assms(1) c]
  note k = same_transfers_keep [OF conjunct1 [OF e]]
  have pos: "0 < nat (sn_concurrency ?s)" using n by (simp add: sn_ok_def)
  then have "?idxs = 0 # [1 ..< nat (sn_concurrency ?s)]" by (simp add: upt_conv_Cons)
  moreover have "\<not> sn_conn ?s ! 0" using pos by (simp add: new_sftp_sender_def Let_def)
  ultimately have "valid_addr (sn_addr ?s)" using e by blast
  then show ?thesis using n e k(2-4) by (simp add: same_places_def) (simp add: new_sftp_sender_def Let_def)
qed

section \<open>Runs\<close>

datatype sftp_op = SSend "go_error option" packet | SClose

fun sftp_ops :: "'r sftp_client \<Rightarrow> (bytes \<Rightarrow> bytes) \<Rightarrow> sftp_op list \<Rightarrow> sftp_sender \<Rightarrow> 'r \<Rightarrow>
    go_error option list \<times> sftp_sender \<times> 'r" where
  "sftp_ops cl sha [] s r = ([], s, r)"
| "sftp_ops cl sha (SSend ctx p # ops) s r =
     (let (err, s1, r1) = sftp_Send cl sha ctx p s r; (errs, s2, r2) = sftp_ops cl sha ops s1 r1 in (err # errs, s2, r2))"
| "sftp_ops cl sha (SClose # ops) s r =
     (let (errs, s2, r2) = sftp_ops cl sha ops (sftp_Close s) r in (None # errs, s2, r2))"

text \<open>
  The packets of the transfer \<open>u\<close> are chunks of \<open>F\<close> for the path \<open>fp\<close>; the packets of other transfers go to
  other paths.
\<close>

definition apart :: "string \<Rightarrow> string \<Rightarrow> string \<Rightarrow> bool" where
  "apart suf fp fp' \<longleftrightarrow> fp' \<noteq> fp \<and> fp' \<noteq> fp @ suf \<and> fp' @ suf \<noteq> fp"

definition packet_fits :: "string \<Rightarrow> string \<Rightarrow> string \<Rightarrow> bytes \<Rightarrow> string \<Rightarrow> packet \<Rightarrow> bool" where
  "packet_fits rd suf u F fp p \<longleftrightarrow>
     (if transfer_id p = u then chunk_of F p \<and> sftpFinalPath rd p u = Inr fp
      else case sftpFinalPath rd p (transfer_id p) of Inl _ \<Rightarrow> True | Inr fp' \<Rightarrow> apart suf fp fp')"

fun op_fits :: "string \<Rightarrow> string \<Rightarrow> string \<Rightarrow> bytes \<Rightarrow> string \<Rightarrow> sftp_op \<Rightarrow> bool" where
  "op_fits rd suf u F fp (SSend _ p) = packet_fits rd suf u F fp p"
| "op_fits rd suf u F fp SClose = True"

definition own_ok :: "string \<Rightarrow> bytes \<Rightarrow> string \<Rightarrow> bytes option \<Rightarrow> sftp_transfer_state option \<Rightarrow> bool" where
  "own_ok suf F fp c t =
     (case t of None \<Rightarrow> not_longer F c
      | Some st \<Rightarrow> sf_tempPath st = fp @ suf \<and> sf_finalPath st = fp \<and> temp_ok F st c)"

definition others_apart :: "string \<Rightarrow> string \<Rightarrow> string \<Rightarrow> sftp_sender \<Rightarrow> bool" where
  "others_apart suf u fp s \<longleftrightarrow>
     (\<forall>v st. v \<noteq> u \<longrightarrow> transfer s v = Some st \<longrightarrow> sf_tempPath st = sf_finalPath st @ suf \<and> apart suf fp (sf_finalPath st))"

definition run_ok :: "('r \<Rightarrow> string \<Rightarrow> bytes option) \<Rightarrow> string \<Rightarrow> string \<Rightarrow> string \<Rightarrow> bytes \<Rightarrow> string \<Rightarrow> sftp_sender \<Rightarrow> 'r \<Rightarrow> bool" where
  "run_ok files rd suf u F fp s r \<longleftrightarrow> sn_ok s \<and> sn_remoteDir s = rd \<and> sn_tempSuffix s = suf \<and>
     own_ok suf F fp (files r (fp @ suf)) (transfer s u) \<and> others_apart suf u fp s"

lemma own_okD: "own_ok suf F fp c t \<Longrightarrow> not_longer F c"
  by (auto simp: own_ok_def temp_ok_not_longer split: option.splits)

text \<open>A packet of another transfer leaves the files of this one alone.\<close>

lemma chunk_other_effect:
  assumes "sftp_laws cl files" "0 \<le> Offset (Meta p)" "chunk_to_transfer cl p st r = (err, cm, st', r')"
    and "q \<noteq> sf_tempPath st" "q \<noteq> sf_finalPath st"
  shows "files r' q = files r q \<and> sf_tempPath st' = sf_tempPath st \<and> sf_finalPath st' = sf_finalPath st"
proof -
  note l = sftp_laws_dest [OF assms(1)]
  define st0 where "st0 = (if TotalSize (Meta p) > 0 then st\<lparr>sf_totalSize := TotalSize (Meta p)\<rparr> else st)"
  let ?t = "sf_tempPath st" and ?f = "sf_finalPath st"
  have p0: "sf_tempPath st0 = ?t" "sf_finalPath st0 = ?f" by (simp_all add: st0_def)
  have p1: "sf_tempPath (received_chunk p st0) = ?t" "sf_finalPath (received_chunk p st0) = ?f"
    by (simp_all add: received_chunk_def sftp_addRange_def Let_def p0)
  obtain e1 r1 where w: "write_chunk cl ?t p r = (e1, r1)" by fastforce
  have "files r1 q = files r q"
  proof -
    obtain e2 r2 where o: "cl_OpenFile cl ?t r = (e2, r2)" by fastforce
    have f2: "files r2 q = files r q" using l(5) [OF o] assms(4) by (auto simp: created_def)
    show ?thesis
    proof (cases e2)
      case (Some e)
      then show ?thesis using w o f2 by (simp add: write_chunk_def)
    next
      case None
      then obtain b where b: "files r2 ?t = Some b" using l(5) [OF o] by (cases "files r ?t") (auto simp: created_def)
      obtain e3 r3 where wr: "cl_WriteAt cl ?t (Payload p) (Offset (Meta p)) r2 = (e3, r3)" by fastforce
      have "files r3 q = files r2 q" using l(6) [OF wr b assms(2)] assms(4) by auto
      then show ?thesis using w o None wr f2 l(4) [of ?t r3] by (auto simp: write_chunk_def split: option.splits)
    qed
  qed
  moreover obtain e4 r4 where rm: "cl_Remove cl ?f r1 = (e4, r4)" by fastforce
  then have "files r4 q = files r1 q" using l(7) [of ?f r1] assms(5) by auto
  moreover obtain e5 r5 where rn: "cl_Rename cl ?t ?f r4 = (e5, r5)" by fastforce
  have "files r5 q = files r4 q" using l(8) [OF rn] assms(4,5) by simp
  ultimately show ?thesis using assms(3) w rm rn p0 p1
    by (auto simp: chunk_to_transfer_def Let_def st0_def [symmetric] split: option.splits if_splits)
qed

lemma guard_offset: "sftp_guard ctx p = None \<Longrightarrow> 0 \<le> Offset (Meta p)"
  by (auto simp: sftp_guard_def fail_if_def split: if_splits option.splits)

lemma send_other:
  assumes laws: "sftp_laws cl files" and ok: "run_ok files rd suf u F fp s r" and fits: "packet_fits rd suf u F fp p" "transfer_id p \<noteq> u"
    and suf: "suf \<noteq> []" and run: "sftp_Send cl sha ctx p s r = (err, s', r')"
  shows "run_ok files rd suf u F fp s' r' \<and> files r' fp = files r fp \<and> transfer s' u = transfer s u \<and> sn_addr s' = sn_addr s"
proof -
  note e = sftp_Send_effect [OF laws _ run]
  have s: "sn_ok s" "sn_remoteDir s = rd" "sn_tempSuffix s = suf" "own_ok suf F fp (files r (fp @ suf)) (transfer s u)"
    "others_apart suf u fp s" using ok by (simp_all add: run_ok_def)
  have keep: "sn_ok s' \<and> sn_remoteDir s' = rd \<and> sn_tempSuffix s' = suf \<and> sn_addr s' = sn_addr s"
    using e s by (simp add: same_places_def)
  show ?thesis
  proof (cases "no_work files s r err s' r'")
    case True
    then show ?thesis using keep s unfolding run_ok_def others_apart_def no_work_def by simp
  next
    case False
    then have g: "0 \<le> Offset (Meta p)" and "chunk_work cl files p s r err s' r'" using e s(1) guard_offset by blast+
    then obtain st r1 cm st' where st: "state_for s p st" "files r1 = files r" "chunk_to_transfer cl p st r1 = (err, cm, st', r')"
      and t: "\<And>v. transfer s' v = (if v = transfer_id p then (if cm then None else Some st') else transfer s v)"
      unfolding chunk_work_def by blast
    have ap: "sf_tempPath st = sf_finalPath st @ suf \<and> apart suf fp (sf_finalPath st)"
      using st(1) s(3,5) fits s(2)
      by (auto simp: state_for_def others_apart_def packet_fits_def new_sftp_transfer_def split: option.splits)
    note co = chunk_other_effect [OF laws g st(3)]
    have f: "files r' fp = files r fp" "files r' (fp @ suf) = files r (fp @ suf)"
      and paths: "sf_tempPath st' = sf_tempPath st \<and> sf_finalPath st' = sf_finalPath st"
      using co [of fp] co [of "fp @ suf"] ap st(2) by (auto simp: apart_def)
    have tu: "transfer s' u = transfer s u" using t fits(2) by simp
    have "others_apart suf u fp s'" using s(5) t paths ap unfolding others_apart_def by (auto split: if_splits)
    then show ?thesis using keep f s tu unfolding run_ok_def by simp
  qed
qed

text \<open>A packet of this transfer.\<close>

lemma send_own:
  assumes laws: "sftp_laws cl files" and F: "F \<noteq> []" "in64 (int (length F))"
    and ok: "run_ok files rd suf u F fp s r" and fits: "packet_fits rd suf u F fp p" "transfer_id p = u"
    and suf: "suf \<noteq> []" and run: "sftp_Send cl sha ctx p s r = (err, s', r')"
  shows "run_ok files rd suf u F fp s' r' \<and> sn_addr s' = sn_addr s \<and>
    (files r' fp = files r fp \<or> files r' fp = Some F \<or> (files r' fp = None \<and> err \<noteq> None)) \<and>
    (err = None \<longrightarrow> (files r' fp = Some F \<and> transfer s' u = None) \<or>
       (files r' fp = files r fp \<and> (\<exists>st'. transfer s' u = Some st' \<and> \<not> readyToCommit st' \<and>
        covered (sf_ranges st') = covered (case transfer s u of None \<Rightarrow> [] | Some st \<Rightarrow> sf_ranges st) \<union> interval p \<and>
        sf_eofSeen st' = ((case transfer s u of None \<Rightarrow> False | Some st \<Rightarrow> sf_eofSeen st) \<or> EOF (Meta p)))))"
proof -
  note e = sftp_Send_effect [OF laws _ run]
  have s: "sn_ok s" "sn_remoteDir s = rd" "sn_tempSuffix s = suf" "own_ok suf F fp (files r (fp @ suf)) (transfer s u)"
    "others_apart suf u fp s" using ok by (simp_all add: run_ok_def)
  have keep: "sn_ok s' \<and> sn_remoteDir s' = rd \<and> sn_tempSuffix s' = suf \<and> sn_addr s' = sn_addr s"
    using e s by (simp add: same_places_def)
  show ?thesis
  proof (cases "no_work files s r err s' r'")
    case True
    then have "err \<noteq> None" "files r' = files r" "\<And>v. transfer s' v = transfer s v" by (simp_all add: no_work_def)
    then show ?thesis using keep s unfolding run_ok_def others_apart_def by (cases err) simp_all
  next
    case False
    then have "chunk_work cl files p s r err s' r'" using e s(1) by blast
    then obtain st r1 cm st' where st: "state_for s p st" "files r1 = files r" "chunk_to_transfer cl p st r1 = (err, cm, st', r')"
      and t: "\<And>v. transfer s' v = (if v = u then (if cm then None else Some st') else transfer s v)"
      unfolding chunk_work_def fits(2) by blast
    have ch: "chunk_of F p" and fin: "sftpFinalPath rd p u = Inr fp" using fits by (simp_all add: packet_fits_def)
    have own: "own_ok suf F fp (files r1 (fp @ suf)) (Some st) \<and>
        covered (sf_ranges st) = covered (case transfer s u of None \<Rightarrow> [] | Some st \<Rightarrow> sf_ranges st) \<and>
        sf_eofSeen st = (case transfer s u of None \<Rightarrow> False | Some st \<Rightarrow> sf_eofSeen st)"
    proof (cases "transfer s u")
      case None
      have "st = new_sftp_transfer s p fp" using st(1) None fin s(2) fits(2) by (auto simp: state_for_def)
      moreover have "not_longer F (files r1 (fp @ suf))" using s(4) st(2) None by (simp add: own_ok_def)
      ultimately show ?thesis using None ch s(3)
        by (auto simp: new_sftp_transfer_def own_ok_def temp_ok_def not_longer_def range_inv_def chunk_of_def covered_def
          ranges_ok_def split: option.splits)
    next
      case (Some st0)
      then show ?thesis using st(1,2) s(4) fits(2) by (simp add: state_for_def)
    qed
    then have w: "sf_tempPath st = fp @ suf" "sf_finalPath st = fp" "temp_ok F st (files r1 (sf_tempPath st))"
      by (simp_all add: own_ok_def)
    have ne: "sf_tempPath st \<noteq> sf_finalPath st" using w suf by simp
    note ce = chunk_to_transfer_effect [OF laws ch F w(3) ne st(3), unfolded w(1,2)]
    have oth: "others_apart suf u fp s'" using s(5) t unfolding others_apart_def by simp
    show ?thesis
    proof (cases cm)
      case True
      have "own_ok suf F fp (files r' (fp @ suf)) (transfer s' u)" using ce True t by (simp add: own_ok_def not_longer_def)
      then show ?thesis using keep oth True ce t unfolding run_ok_def by simp
    next
      case False
      have "own_ok suf F fp (files r' (fp @ suf)) (transfer s' u)" using ce False t by (simp add: own_ok_def)
      then show ?thesis using keep oth False ce t st(2) own unfolding run_ok_def by auto
    qed
  qed
qed

lemma close_run_ok:
  assumes "run_ok files rd suf u F fp s r"
  shows "run_ok files rd suf u F fp (sftp_Close s) r"
  using assms close_effect [of s] own_okD [of suf F fp "files r (fp @ suf)" "transfer s u"]
  unfolding run_ok_def others_apart_def same_places_def by (simp add: own_ok_def)

section \<open>The file is whole\<close>

lemma sftp_ops_safe:
  assumes laws: "sftp_laws cl files" and F: "F \<noteq> []" "in64 (int (length F))" and suf: "suf \<noteq> []"
  shows "run_ok files rd suf u F fp s r \<Longrightarrow> \<forall>op \<in> set ops. op_fits rd suf u F fp op \<Longrightarrow> sftp_ops cl sha ops s r = (errs, s', r') \<Longrightarrow>
    files r' fp = files r fp \<or> files r' fp = Some F \<or> (files r' fp = None \<and> (\<exists>e. Some e \<in> set errs))"
proof (induction ops arbitrary: s r errs)
  case Nil
  then show ?case by simp
next
  case (Cons op ops)
  show ?case
  proof (cases op)
    case (SSend ctx p)
    obtain e s1 r1 where p: "sftp_Send cl sha ctx p s r = (e, s1, r1)" by (metis prod_cases3)
    obtain es where rest: "sftp_ops cl sha ops s1 r1 = (es, s', r')" "errs = e # es"
      using Cons.prems(3) SSend p by (auto split: prod.splits)
    have f: "packet_fits rd suf u F fp p" using Cons.prems(2) SSend by simp
    have one: "run_ok files rd suf u F fp s1 r1 \<and> (files r1 fp = files r fp \<or> files r1 fp = Some F \<or> (files r1 fp = None \<and> e \<noteq> None))"
      using send_own [OF laws F Cons.prems(1) f _ suf p] send_other [OF laws Cons.prems(1) f _ suf p] by blast
    then have "files r' fp = files r1 fp \<or> files r' fp = Some F \<or> (files r' fp = None \<and> (\<exists>e. Some e \<in> set es))"
      using Cons.IH [OF _ _ rest(1)] Cons.prems(2) by simp
    then show ?thesis using one unfolding rest(2) by (metis list.set_intros option.exhaust)
  next
    case SClose
    obtain es where rest: "sftp_ops cl sha ops (sftp_Close s) r = (es, s', r')" "errs = None # es"
      using Cons.prems(3) SClose by (auto split: prod.splits)
    have "files r' fp = files r fp \<or> files r' fp = Some F \<or> (files r' fp = None \<and> (\<exists>e. Some e \<in> set es))"
      by (rule Cons.IH [OF close_run_ok [OF Cons.prems(1)] _ rest(1)]) (use Cons.prems(2) in simp)
    then show ?thesis unfolding rest(2) by auto
  qed
qed

lemma new_run_ok:
  assumes "sftp_laws cl files" "NewSFTPSender cl sc r0 = (Inr s, r)" "not_longer F (files r0 (fp @ sn_tempSuffix s))"
  shows "run_ok files (sn_remoteDir s) (sn_tempSuffix s) u F fp s r" "sn_tempSuffix s \<noteq> []"
proof -
  have n: "sn_ok s" "transfer s v = None" "files r = files r0" for v using new_effect [OF assms(1,2)] by simp_all
  then show "sn_tempSuffix s \<noteq> []" by (blast dest: sn_okD(4))
  show "run_ok files (sn_remoteDir s) (sn_tempSuffix s) u F fp s r"
    unfolding run_ok_def own_ok_def others_apart_def using n assms(3) by simp
qed

section \<open>Without failures the file arrives\<close>

definition sftp_reliable :: "'r sftp_client \<Rightarrow> ('r \<Rightarrow> string \<Rightarrow> bytes option) \<Rightarrow> bool" where
  "sftp_reliable cl files \<longleftrightarrow>
     (\<forall>r. fst (cl_Dial cl r) = None) \<and> (\<forall>r. fst (cl_NewClient cl r) = None) \<and> (\<forall>d r. fst (cl_MkdirAll cl d r) = None) \<and>
     (\<forall>p r. fst (cl_OpenFile cl p r) = None) \<and> (\<forall>p r. fst (cl_CloseFile cl p r) = None) \<and>
     (\<forall>p bs off r. files r p \<noteq> None \<longrightarrow> fst (cl_WriteAt cl p bs off r) = None) \<and>
     (\<forall>p q r. files r p \<noteq> None \<longrightarrow> fst (cl_Rename cl p q r) = None)"

lemma sftp_reliableD:
  assumes "sftp_reliable cl files"
  shows "cl_Dial cl r = (e, r') \<Longrightarrow> e = None" "cl_NewClient cl r = (e, r') \<Longrightarrow> e = None" "cl_MkdirAll cl d r = (e, r') \<Longrightarrow> e = None"
    "cl_OpenFile cl p r = (e, r') \<Longrightarrow> e = None" "cl_CloseFile cl p r = (e, r') \<Longrightarrow> e = None"
    "cl_WriteAt cl p bs off r = (e, r') \<Longrightarrow> files r p \<noteq> None \<Longrightarrow> e = None"
    "cl_Rename cl p q r = (e, r') \<Longrightarrow> files r p \<noteq> None \<Longrightarrow> e = None"
  using assms unfolding sftp_reliable_def by (metis fst_conv)+

definition checksum_ok :: "(bytes \<Rightarrow> bytes) \<Rightarrow> packet \<Rightarrow> bool" where
  "checksum_ok sha p \<longleftrightarrow> trim_space (Checksum (Meta p)) = [] \<or>
     lower_ascii (hex_encode (sha (Payload p))) = lower_ascii (trim_space (Checksum (Meta p)))"

lemma reliable_connects:
  assumes "sftp_reliable cl files" "valid_addr (sn_addr s)" "ensureConnLocked cl i s r = (e, s', r')"
  shows "e = None"
proof -
  obtain hp where a: "SplitHostPort (sn_addr s) = Inr hp" using assms(2) by (auto simp: valid_addr_def)
  obtain e1 r1 where d: "cl_Dial cl r = (e1, r1)" by fastforce
  obtain e2 r2 where n: "cl_NewClient cl r1 = (e2, r2)" by fastforce
  obtain e3 r3 where m: "cl_MkdirAll cl (sn_remoteDir s) r2 = (e3, r3)" by fastforce
  note z = sftp_reliableD(1) [OF assms(1) d] sftp_reliableD(2) [OF assms(1) n] sftp_reliableD(3) [OF assms(1) m]
  show ?thesis using assms(3) a d n m z by (auto simp: ensureConnLocked_def split: if_splits)
qed

lemma reliable_chunk:
  assumes laws: "sftp_laws cl files" and rel: "sftp_reliable cl files" and off: "0 \<le> Offset (Meta p)"
    and ne: "sf_tempPath st \<noteq> sf_finalPath st" and run: "chunk_to_transfer cl p st r = (err, cm, st', r')"
  shows "err = None"
proof -
  note l = sftp_laws_dest [OF laws]
  note z = sftp_reliableD [OF rel]
  define st0 where "st0 = (if TotalSize (Meta p) > 0 then st\<lparr>sf_totalSize := TotalSize (Meta p)\<rparr> else st)"
  let ?t = "sf_tempPath st" and ?f = "sf_finalPath st"
  have p: "sf_tempPath st0 = ?t" "sf_tempPath (received_chunk p st0) = ?t" "sf_finalPath (received_chunk p st0) = ?f"
    by (simp_all add: st0_def received_chunk_def sftp_addRange_def Let_def)
  obtain e1 r1 where o: "cl_OpenFile cl ?t r = (e1, r1)" by fastforce
  obtain b where b: "files r1 ?t = Some b" using l(5) [OF o] z(4) [OF o] by (cases "files r ?t") (auto simp: created_def)
  obtain e2 r2 where w: "cl_WriteAt cl ?t (Payload p) (Offset (Meta p)) r1 = (e2, r2)" by fastforce
  have e2: "e2 = None" "files r2 ?t \<noteq> None" using z(6) [OF w] b l(6) [OF w b off] by auto
  obtain e3 r3 where c: "cl_CloseFile cl ?t r2 = (e3, r3)" by fastforce
  have e3: "e3 = None" "files r3 ?t \<noteq> None" using z(5) [OF c] l(4) [of ?t r2] c e2 by auto
  obtain e4 r4 where rm: "cl_Remove cl ?f r3 = (e4, r4)" by fastforce
  have f4: "files r4 ?t \<noteq> None" using l(7) [of ?f r3] rm e3 ne by auto
  obtain e5 r5 where rn: "cl_Rename cl ?t ?f r4 = (e5, r5)" by fastforce
  have "write_chunk cl ?t p r = (None, r3)" using o z(4) [OF o] w e2 c e3 by (simp add: write_chunk_def)
  then show ?thesis using run rm rn z(7) [OF rn f4] p
    by (auto simp: chunk_to_transfer_def Let_def st0_def [symmetric] split: if_splits)
qed

lemma own_send_succeeds:
  assumes laws: "sftp_laws cl files" and rel: "sftp_reliable cl files" and ok: "run_ok files rd suf u F fp s r"
    and a: "valid_addr (sn_addr s)" and suf: "suf \<noteq> []" and fits: "packet_fits rd suf u F fp p" "transfer_id p = u"
    and g: "sftp_guard ctx p = None" "checksum_ok sha p" and run: "sftp_Send cl sha ctx p s r = (err, s', r')"
  shows "err = None"
proof -
  have s: "sn_ok s" "sn_remoteDir s = rd" "sn_tempSuffix s = suf" "own_ok suf F fp (files r (fp @ suf)) (transfer s u)"
    using ok by (simp_all add: run_ok_def)
  obtain i s1 where ps: "pickShard u s = (i, s1)" by fastforce
  note pe = pickShard_effect [OF s(1) ps]
  obtain e2 s2 r2 where c2: "(if sn_connReady s1 ! i then (None, s1, r) else ensureConnLocked cl i s1 r) = (e2, s2, r2)"
    by (metis prod_cases3)
  have a1: "valid_addr (sn_addr s1)" using a pe by (simp add: same_places_def)
  have 2: "e2 = None \<and> same_transfers s1 s2"
    using c2 reliable_connects [OF rel a1, of i r e2 s2 r2] ensureConn_effect [OF laws, of i s1 r e2 s2 r2]
    by (cases "sn_connReady s1 ! i") (auto simp: same_transfers_def)
  have a2: "valid_addr (sn_addr s2)" using 2 a1 by (simp add: same_transfers_def same_places_def)
  obtain e3 s3 r3 where c3: "ensureConnLocked cl i s2 r2 = (e3, s3, r3)" by (metis prod_cases3)
  have 3: "e3 = None \<and> same_transfers s2 s3" using reliable_connects [OF rel a2 c3] ensureConn_effect [OF laws c3] by simp
  note k = same_transfers_keep [OF same_transfers_trans [OF conjunct2 [OF 2] conjunct2 [OF 3]]]
  have sh: "shard_of s3 u = Some i" and ok3: "sn_ok s3" using k(1,3) pe by simp_all
  have pl: "sn_remoteDir s3 = rd \<and> sn_tempSuffix s3 = suf" using k(4) pe s by (simp add: same_places_def)
  have "transfer s3 u = mget (sn_states s3 ! i) u" using sh by (simp add: transfer_def)
  then have t: "mget (sn_states s3 ! i) u = transfer s u" using k(2) [of u] pe by simp
  have fin: "sftpFinalPath rd p u = Inr fp" using fits by (simp add: packet_fits_def)
  obtain e4 r4 where m: "cl_MkdirAll cl (path_dir fp) r3 = (e4, r4)" by fastforce
  obtain st s5 r5 where gt: "get_transfer cl i u p s3 r3 = (Inr st, s5, r5) \<and> sf_tempPath st \<noteq> sf_finalPath st"
    using t s(4) fin pl m sftp_reliableD(3) [OF rel m] suf
    by (cases "transfer s u") (auto simp: get_transfer_def own_ok_def)
  obtain e6 cm st' r6 where w: "chunk_to_transfer cl p st r5 = (e6, cm, st', r6)" by (metis prod_cases4)
  have "e6 = None" by (rule reliable_chunk [OF laws rel guard_offset [OF g(1)] _ w]) (use gt in simp)
  then have "fst (sendLocked cl sha i u p s2 r2) = None"
    using c3 3 g(2) gt w by (cases cm) (auto simp: sendLocked_def Let_def checksum_ok_def)
  moreover have "sftp_Send cl sha ctx p s r = sendLocked cl sha i u p s2 r2"
    using g(1) ps c2 2 fits(2) by (simp add: sftp_Send_def transfer_id_def)
  ultimately show ?thesis using run by (metis fst_conv)
qed

text \<open>How far the transfer is: \<open>C\<close> are the bytes sent so far, \<open>E\<close> says whether a chunk had \<open>EOF\<close>.\<close>

definition progress :: "bytes \<Rightarrow> bytes option \<Rightarrow> sftp_transfer_state option \<Rightarrow> int set \<Rightarrow> bool \<Rightarrow> bool" where
  "progress F c t C E \<longleftrightarrow> c = Some F \<or>
     (case t of None \<Rightarrow> C = {} \<and> \<not> E
      | Some st \<Rightarrow> C \<subseteq> covered (sf_ranges st) \<and> (E \<longrightarrow> sf_eofSeen st) \<and> \<not> readyToCommit st)"

lemma progress_complete:
  assumes "progress F c t {0 ..< int (length F)} True" "own_ok suf F fp b t" "F \<noteq> []"
  shows "c = Some F"
proof (cases t)
  case None
  then show ?thesis using assms(1) by (simp add: progress_def)
next
  case (Some st)
  have o: "range_inv st" "sf_totalSize st = int (length F)" "covered (sf_ranges st) \<subseteq> {0 ..< int (length F)}"
    using assms(2) Some by (auto simp: own_ok_def temp_ok_def)
  show ?thesis using assms(1,3) Some o ready_iff_covered [of st] by (auto simp: progress_def)
qed

definition interval_of :: "string \<Rightarrow> packet \<Rightarrow> int set" where
  "interval_of u p = (if transfer_id p = u then interval p else {})"

lemma sends_progress:
  assumes laws: "sftp_laws cl files" and rel: "sftp_reliable cl files" and F: "F \<noteq> []" "in64 (int (length F))" and suf: "suf \<noteq> []"
  shows "run_ok files rd suf u F fp s r \<Longrightarrow> valid_addr (sn_addr s) \<Longrightarrow> progress F (files r fp) (transfer s u) C E \<Longrightarrow>
    \<forall>p \<in> set ps. packet_fits rd suf u F fp p \<and> (transfer_id p = u \<longrightarrow> sftp_guard None p = None \<and> checksum_ok sha p) \<Longrightarrow>
    sftp_ops cl sha (map (SSend None) ps) s r = (errs, s', r') \<Longrightarrow>
    run_ok files rd suf u F fp s' r' \<and> list_all2 (\<lambda>p e. transfer_id p = u \<longrightarrow> e = None) ps errs \<and>
    progress F (files r' fp) (transfer s' u) (C \<union> (\<Union>p \<in> set ps. interval_of u p)) (E \<or> (\<exists>p \<in> set ps. transfer_id p = u \<and> EOF (Meta p)))"
proof (induction ps arbitrary: s r errs C E)
  case Nil
  then show ?case by simp
next
  case (Cons p ps)
  obtain e s1 r1 where p: "sftp_Send cl sha None p s r = (e, s1, r1)" by (metis prod_cases3)
  obtain es where rest: "sftp_ops cl sha (map (SSend None) ps) s1 r1 = (es, s', r')" "errs = e # es"
    using Cons.prems(5) p by (auto split: prod.splits)
  have f: "packet_fits rd suf u F fp p" using Cons.prems(4) by simp
  define C1 E1 where "C1 = C \<union> interval_of u p" and "E1 = (E \<or> (transfer_id p = u \<and> EOF (Meta p)))"
  have one: "run_ok files rd suf u F fp s1 r1 \<and> sn_addr s1 = sn_addr s \<and> (transfer_id p = u \<longrightarrow> e = None) \<and>
    progress F (files r1 fp) (transfer s1 u) C1 E1"
  proof (cases "transfer_id p = u")
    case True
    have e: "e = None" using own_send_succeeds [OF laws rel Cons.prems(1,2) suf f True _ _ p] Cons.prems(4) True by simp
    note so = send_own [OF laws F Cons.prems(1) f True suf p]
    have "progress F (files r1 fp) (transfer s1 u) C1 E1"
      using so Cons.prems(3) e True
      by (cases "transfer s u") (auto simp: progress_def C1_def E1_def interval_of_def covered_def)
    then show ?thesis using so e by blast
  next
    case False
    show ?thesis using send_other [OF laws Cons.prems(1) f False suf p] Cons.prems(3) False
      by (simp add: C1_def E1_def interval_of_def)
  qed
  have u: "C \<union> (\<Union>p \<in> set (p # ps). interval_of u p) = C1 \<union> (\<Union>p \<in> set ps. interval_of u p)"
    "(E \<or> (\<exists>p \<in> set (p # ps). transfer_id p = u \<and> EOF (Meta p))) = (E1 \<or> (\<exists>p \<in> set ps. transfer_id p = u \<and> EOF (Meta p)))"
    by (auto simp: C1_def E1_def)
  show ?case unfolding u rest(2)
    using Cons.IH [of s1 r1 C1 E1 es] one Cons.prems(2,4) rest(1) by (simp del: split_paired_All)
qed

lemma transfer_arrives:
  assumes "sftp_laws cl files" "sftp_reliable cl files" "NewSFTPSender cl sc r0 = (Inr s, r)"
    and "F \<noteq> []" "in64 (int (length F))" "not_longer F (files r0 (fp @ sn_tempSuffix s))"
    and "\<forall>p \<in> set ps. packet_fits (sn_remoteDir s) (sn_tempSuffix s) u F fp p \<and>
           (transfer_id p = u \<longrightarrow> sftp_guard None p = None \<and> checksum_ok sha p)"
    and "{0 ..< int (length F)} \<subseteq> (\<Union>p \<in> set ps. interval_of u p)" "\<exists>p \<in> set ps. transfer_id p = u \<and> EOF (Meta p)"
    and "sftp_ops cl sha (map (SSend None) ps) s r = (errs, s', r')"
  shows "files r' fp = Some F \<and> list_all2 (\<lambda>p e. transfer_id p = u \<longrightarrow> e = None) ps errs"
proof -
  note n = new_effect [OF assms(1,3)]
  let ?I = "\<Union>p \<in> set ps. interval_of u p"
  have st: "progress F (files r fp) (transfer s u) {} False" using n by (simp add: progress_def)
  have e: "run_ok files (sn_remoteDir s) (sn_tempSuffix s) u F fp s' r' \<and> list_all2 (\<lambda>p e. transfer_id p = u \<longrightarrow> e = None) ps errs \<and>
    progress F (files r' fp) (transfer s' u) ({} \<union> ?I) (False \<or> (\<exists>p \<in> set ps. transfer_id p = u \<and> EOF (Meta p)))"
    by (rule sends_progress [OF assms(1,2,4,5) new_run_ok(2,1) [OF assms(1,3,6)] _ st assms(7,10)]) (use n in blast)
  then have "progress F (files r' fp) (transfer s' u) {0 ..< int (length F)} True"
    using assms(8,9) by (auto simp: progress_def split: option.splits)
  then show ?thesis using progress_complete [OF _ _ assms(4)] e unfolding run_ok_def by blast
qed

end
