(* ===== verification/SftpGoals.thy ===== *)
theory SftpGoals
  imports SftpRuns
begin

text \<open>
  What the SFTP sender promises for a file: it appears under its final path only as a whole, whatever fails
  on the way and whatever else the sender sends; without failures it does appear once all its chunks were
  sent. Both start at \<open>NewSFTPSender\<close>. A remote side in memory shows that the laws of the client can hold, and
  what happens with an old temporary file that is longer than the file.
\<close>

section \<open>A remote side in memory\<close>

definition mem_err :: go_error where "mem_err = errors_New ''file does not exist''"

definition mem_client :: "bytes gomap sftp_client" where
  "mem_client =
     \<lparr>cl_Dial = \<lambda>r. (None, r), cl_NewClient = \<lambda>r. (None, r), cl_MkdirAll = \<lambda>_ r. (None, r),
      cl_OpenFile = \<lambda>p r. (None, if mhas r p then r else mset_at p [] r),
      cl_WriteAt = \<lambda>p bs off r. (case mget r p of None \<Rightarrow> (Some mem_err, r) | Some b \<Rightarrow> (None, mset_at p (write_at b (nat off) bs) r)),
      cl_CloseFile = \<lambda>_ r. (None, r),
      cl_Remove = \<lambda>p r. (if mhas r p then None else Some mem_err, mdel p r),
      cl_Rename = \<lambda>p q r. (case mget r p of None \<Rightarrow> (Some mem_err, r) | Some b \<Rightarrow> (None, mdel p (mset_at q b r)))\<rparr>"

lemma mem_client_laws: "sftp_laws mem_client mget"
  unfolding sftp_laws_def mem_client_def
  by (auto simp: created_def mhas_def fun_eq_iff split: option.splits if_splits)

lemma mem_client_reliable: "sftp_reliable mem_client mget"
  unfolding sftp_reliable_def mem_client_def by (auto split: option.split)

definition sample_sftp :: sender_config where
  "sample_sftp = zero_sender_config\<lparr>sc_Remote := ''h:22'', sc_Username := ''u'', sc_Password := ''p'', sc_RemoteDir := ''/d'',
     sc_Concurrency := 2, sc_HostKeyFingerprint := ''SHA256:'' @ replicate 43 (CHR ''A'')\<rparr>"

definition sample_sender :: sftp_sender where
  "sample_sender = (new_sftp_sender sample_sftp)\<lparr>sn_conn := [True, True], sn_connReady := [True, True]\<rparr>"

definition sample_sends :: "packet list" where
  "sample_sends = [oss_chunk sample_file 3 2 True, oss_chunk sample_file 0 3 False]"

lemma sample_new: "NewSFTPSender mem_client sample_sftp [] = (Inr sample_sender, [])"
  by code_simp

lemma sample_places: "sn_remoteDir sample_sender = ''/d''" "sn_tempSuffix sample_sender = ''.part''"
  by code_simp+

lemma sample_fits:
  "packet_fits ''/d'' ''.part'' ''t'' sample_file ''/d/f'' (oss_chunk sample_file 3 2 True)"
  "packet_fits ''/d'' ''.part'' ''t'' sample_file ''/d/f'' (oss_chunk sample_file 0 3 False)"
  by code_simp+

lemma sample_file_facts: "sample_file \<noteq> []" "in64 (int (length sample_file))" "not_longer sample_file (mget [] k)"
  by (simp_all add: sample_file_def in64_def not_longer_def)

text \<open>C12: a file sent over SFTP appears under its final path only as a whole. Let a new sender run any
  packets and closes, in any order, where each call of the SFTP client may fail (a write after only a part of
  the chunk, a Rename without having changed anything); the chunks of the file come in any order and any number
  of times, and other transfers go on in between, whose final and temporary files are not those of this one.
  At the start there is no temporary file of this one, or one that is not longer than the file: a longer one
  is not truncated and is committed with its old end (\<open>old_temporary_file_survives\<close>). The final path then holds what it held before, or the file, byte by byte; or nothing, but then a
  \<open>Send\<close> returned an error (the old file is removed before the rename).\<close>

theorem sftp_final_file_whole:
  assumes "sftp_laws cl files" "NewSFTPSender cl sc r0 = (Inr s, r)"
    and "F \<noteq> []" "in64 (int (length F))" "not_longer F (files r0 (fp @ sn_tempSuffix s))"
    and "\<forall>op \<in> set ops. op_fits (sn_remoteDir s) (sn_tempSuffix s) u F fp op"
    and "sftp_ops cl sha ops s r = (errs, s', r')"
  shows "files r' fp = files r0 fp \<or> files r' fp = Some F \<or> (files r' fp = None \<and> (\<exists>e. Some e \<in> set errs))"
  using sftp_ops_safe [OF assms(1,3,4) new_run_ok(2,1) [OF assms(1,2,5)] assms(6,7)] new_effect [OF assms(1,2)] by simp

theorem sftp_final_file_whole_witness:
  "let (errs, s', r') = sftp_ops mem_client (\<lambda>_. []) [SSend None (oss_chunk sample_file 3 2 True), SClose,
         SSend None (oss_chunk sample_file 0 3 False)] sample_sender []
   in mget r' ''/d/f'' = None \<or> mget r' ''/d/f'' = Some sample_file"
proof -
  let ?ops = "[SSend None (oss_chunk sample_file 3 2 True), SClose, SSend None (oss_chunk sample_file 0 3 False)]"
  obtain errs s' r' where run: "sftp_ops mem_client (\<lambda>_. []) ?ops sample_sender [] = (errs, s', r')" by (metis prod_cases3)
  have "mget r' ''/d/f'' = mget [] ''/d/f'' \<or> mget r' ''/d/f'' = Some sample_file \<or> (mget r' ''/d/f'' = None \<and> (\<exists>e. Some e \<in> set errs))"
    by (rule sftp_final_file_whole [OF mem_client_laws sample_new sample_file_facts _ run, where u = "''t''"])
      (use sample_fits in \<open>simp add: sample_places\<close>)
  then show ?thesis unfolding run by auto
qed

text \<open>C13: without failures a file sent over SFTP arrives. When the client library never fails, a new sender
  is given chunks that together cover the file, in any order and with any overlap and repetition, one
  of them with \<open>EOF\<close>, between the chunks of other transfers (whose final and temporary files are not those
  of this one), and no longer temporary file of an earlier attempt is left at the start, then every \<open>Send\<close> of
  a chunk of the file succeeds, and at the end the file is under its final path with exactly its bytes.\<close>

theorem sftp_transfer_completes:
  assumes "sftp_laws cl files" "sftp_reliable cl files" "NewSFTPSender cl sc r0 = (Inr s, r)"
    and "F \<noteq> []" "in64 (int (length F))" "not_longer F (files r0 (fp @ sn_tempSuffix s))"
    and "\<forall>p \<in> set ps. packet_fits (sn_remoteDir s) (sn_tempSuffix s) u F fp p \<and>
           (transfer_id p = u \<longrightarrow> sftp_guard None p = None \<and> checksum_ok sha p)"
    and "{0 ..< int (length F)} \<subseteq> (\<Union>p \<in> set ps. interval_of u p)" "\<exists>p \<in> set ps. transfer_id p = u \<and> EOF (Meta p)"
    and "sftp_ops cl sha (map (SSend None) ps) s r = (errs, s', r')"
  shows "files r' fp = Some F \<and> list_all2 (\<lambda>p e. transfer_id p = u \<longrightarrow> e = None) ps errs"
  by (rule transfer_arrives [OF assms])

lemma sample_guard:
  "\<forall>p \<in> set sample_sends. transfer_id p = ''t'' \<and> sftp_guard None p = None \<and> checksum_ok sha p"
proof -
  have "trim_space ''t'' = ''t''" by code_simp
  then show ?thesis
    by (simp add: sample_sends_def oss_chunk_def zero_meta_def transfer_id_def sftp_guard_def checksum_ok_def fail_if_def)
qed

theorem sftp_transfer_completes_witness:
  "let (errs, s', r') = sftp_ops mem_client (\<lambda>_. []) (map (SSend None) sample_sends) sample_sender []
   in mget r' ''/d/f'' = Some sample_file"
proof -
  obtain errs s' r' where run: "sftp_ops mem_client (\<lambda>_. []) (map (SSend None) sample_sends) sample_sender [] = (errs, s', r')"
    by (metis prod_cases3)
  have c: "{0 ..< int (length sample_file)} \<subseteq> (\<Union>p \<in> set sample_sends. interval_of ''t'' p)"
    using sample_guard by (auto simp: sample_sends_def interval_of_def interval_def oss_chunk_def zero_meta_def sample_file_def)
  have e: "\<exists>p \<in> set sample_sends. transfer_id p = ''t'' \<and> EOF (Meta p)"
    using sample_guard by (auto simp: sample_sends_def oss_chunk_def zero_meta_def)
  have "mget r' ''/d/f'' = Some sample_file \<and> list_all2 (\<lambda>p e. transfer_id p = ''t'' \<longrightarrow> e = None) sample_sends errs"
    by (rule sftp_transfer_completes [OF mem_client_laws mem_client_reliable sample_new sample_file_facts _ c e run])
      (use sample_fits sample_guard in \<open>auto simp: sample_places sample_sends_def\<close>)
  then show ?thesis unfolding run by simp
qed

section \<open>An old temporary file\<close>

text \<open>
  \<open>OpenFile\<close> does not truncate: when the temporary file is left from a longer version of the file, the
  committed file ends with bytes of that version, and no \<open>Send\<close> reports an error.
\<close>

lemma old_temporary_file_survives:
  "let (errs, s', r') = sftp_ops mem_client (\<lambda>_. []) (map (SSend None) sample_sends) sample_sender [(''/d/f.part'', [1, 2, 3, 4, 5, 6, 7])]
   in errs = [None, None] \<and> mget r' ''/d/f'' = Some (sample_file @ [6, 7])"
  by code_simp

end
