(* ===== verification/MatchKeyProps.thy ===== *)
theory MatchKeyProps
  imports MatchKey
begin

text \<open>
  A match key identifies what it is made of. \<open>identity_of\<close> says which fields a mode takes from a packet, \<open>render\<close>
  writes them, and writing is injective: in an escaped value every separator follows a backslash.
\<close>

section \<open>Escaping is injective\<close>

fun unescape :: "string \<Rightarrow> string" where
  "unescape [] = []"
| "unescape [c] = [c]"
| "unescape (c # d # s) =
     (if c = backslash \<and> (d = pipe \<or> d = equals) then d # unescape s
      else if c = backslash \<and> d = backslash \<and> take 2 s = [backslash, backslash] then c # d # unescape (drop 2 s)
      else c # unescape (d # s))"

lemma unescape_four [simp]: "unescape (backslash # backslash # backslash # backslash # s) = backslash # backslash # unescape s"
  by simp

lemma unescape_other [simp]: "c \<noteq> backslash \<Longrightarrow> unescape (c # s) = c # unescape s"
  by (cases s) auto

lemma escape_head:
  "match_key_escape (d # s) = backslash # t \<Longrightarrow> d \<noteq> backslash \<Longrightarrow> \<exists>u. (t = pipe # u \<or> t = equals # u)"
  by (cases s) (auto simp: escape_char_def split: if_splits)

lemma unescape_single:
  assumes "d \<noteq> backslash"
  shows "unescape (backslash # match_key_escape (d # s)) = backslash # unescape (match_key_escape (d # s))"
proof (cases "match_key_escape (d # s)")
  case Nil
  then show ?thesis by simp
next
  case (Cons x t)
  have "x \<noteq> pipe \<and> x \<noteq> equals"
    using Cons assms by (cases s) (auto simp: escape_char_def split: if_splits)
  moreover have "x = backslash \<Longrightarrow> take 2 t \<noteq> [backslash, backslash]" using escape_head [of d s t] Cons assms by auto
  ultimately show ?thesis using Cons by auto
qed

lemma unescape_escape: "unescape (match_key_escape s) = s"
proof (induction s rule: match_key_escape.induct)
  case 1
  then show ?case by simp
next
  case (2 c)
  then show ?case by (simp add: escape_char_def)
next
  case (3 c d s)
  show ?case
  proof (cases "c = backslash \<and> d = backslash")
    case True
    then show ?thesis using "3.IH"(1) by simp
  next
    case False
    have ih: "unescape (match_key_escape (d # s)) = d # s" using "3.IH"(2) False by blast
    show ?thesis
    proof (cases "c = backslash")
      case True
      then show ?thesis using False ih unescape_single [of d s] by (simp add: escape_char_def)
    next
      case other: False
      then show ?thesis using ih by (cases "c = pipe \<or> c = equals") (auto simp: escape_char_def)
    qed
  qed
qed

lemma escape_inj: "match_key_escape a = match_key_escape b \<longleftrightarrow> a = b"
  by (metis unescape_escape)

section \<open>Separators in escaped values\<close>

fun guarded :: "char \<Rightarrow> string \<Rightarrow> bool" where
  "guarded prev [] = True"
| "guarded prev (c # s) = ((c = pipe \<or> c = equals \<longrightarrow> prev = backslash) \<and> guarded c s)"

lemma guarded_append: "guarded prev (xs @ ys) \<longleftrightarrow> guarded prev xs \<and> guarded (last (prev # xs)) ys"
  by (induction xs arbitrary: prev) auto

lemma guarded_escape: "guarded prev (match_key_escape s)"
proof (induction s arbitrary: prev rule: match_key_escape.induct)
  case 1
  then show ?case by simp
next
  case (2 c)
  then show ?case by (simp add: escape_char_def)
next
  case (3 c d s)
  show ?case
  proof (cases "c = backslash \<and> d = backslash")
    case True
    then show ?thesis using "3.IH"(1) by simp
  next
    case False
    then have "guarded p (match_key_escape (d # s))" for p using "3.IH"(2) by blast
    moreover have "match_key_escape (c # d # s) = escape_char c @ match_key_escape (d # s)" using False by auto
    ultimately show ?thesis by (simp add: guarded_append escape_char_def)
  qed
qed

lemma escape_no_field:
  assumes "match_key_escape s = xs @ w @ equals # ys" "w \<noteq> []" "backslash \<notin> set w"
  shows False
proof -
  have "guarded equals ((xs @ w) @ equals # ys)" using guarded_escape [of equals s] assms(1) by simp
  then have "last (equals # xs @ w) = backslash" unfolding guarded_append by simp
  then have "last w = backslash" using assms(2) by simp
  then show False using assms(2,3) last_in_set [of w] by auto
qed

lemma first_split: "xs @ c # ys = xs' @ c # ys' \<Longrightarrow> c \<notin> set xs \<Longrightarrow> c \<notin> set xs' \<Longrightarrow> xs = xs' \<and> ys = ys'"
  by (induction xs arbitrary: xs') (auto simp: Cons_eq_append_conv)

lemma last_split:
  assumes "xs @ c # ys = xs' @ c # ys'" "c \<notin> set ys" "c \<notin> set ys'"
  shows "xs = xs' \<and> ys = ys'"
proof -
  have "rev ys @ c # rev xs = rev ys' @ c # rev xs'" using arg_cong [OF assms(1), of rev] by simp
  then show ?thesis using first_split [of "rev ys" c "rev xs" "rev ys'" "rev xs'"] assms(2,3) by simp
qed

lemma two_fields_split:
  assumes "match_key_escape a @ pipe # w @ equals # r = match_key_escape a' @ pipe # w @ equals # r'"
    and "w \<noteq> []" "backslash \<notin> set w" "pipe \<notin> set w"
  shows "a = a' \<and> r = r'"
proof -
  have no: "us = []"
    if e: "match_key_escape b = match_key_escape b' @ us" "us @ pipe # w @ equals # q = pipe # w @ equals # q'" for b b' us q q'
  proof (rule ccontr)
    assume "us \<noteq> []"
    then obtain vs where us: "us = pipe # vs" "vs @ pipe # w @ equals # q = w @ equals # q'" using e(2) by (cases us) auto
    show False
    proof (cases "length vs \<le> length w")
      case True
      then have "(w @ equals # q') ! length vs = pipe" using us(2) by (metis nth_append_length)
      then show False using True assms(4) by (cases "length vs = length w") (use nth_mem [of "length vs" w] in \<open>auto simp: nth_append\<close>)
    next
      case False
      then obtain n where n: "length vs = length w + Suc n" by (metis add_Suc_right less_imp_Suc_add linorder_not_le)
      have "vs = take (length vs) (w @ equals # q')" using us(2) by (metis append_eq_conv_conj)
      then have "vs = w @ equals # take n q'" unfolding n by simp
      then have "match_key_escape b = (match_key_escape b' @ [pipe]) @ w @ equals # take n q'" using e(1) us(1) by simp
      then show False using escape_no_field assms(2,3) by blast
    qed
  qed
  from assms(1) obtain us where
    "(match_key_escape a = match_key_escape a' @ us \<and> us @ pipe # w @ equals # r = pipe # w @ equals # r') \<or>
     (match_key_escape a' = match_key_escape a @ us \<and> us @ pipe # w @ equals # r' = pipe # w @ equals # r)"
    unfolding append_eq_append_conv2 by metis
  then have "us = []" using no by blast
  then show ?thesis using \<open>_ \<or> _\<close> by (auto simp: escape_inj)
qed

section \<open>Writing fields\<close>

text \<open>
  An identity is the protocol and the fields with their values. The second field of \<open>topic_partition\<close> is written
  without a name.
\<close>

type_synonym identity = "string \<times> (string \<times> string) list"

definition render_field :: "string \<times> string \<Rightarrow> string" where
  "render_field f = (if fst f = [] then pipe # snd f else pipe # fst f @ equals # match_key_escape (snd f))"

definition render :: "identity \<Rightarrow> string" where
  "render i = fst i @ concat (map render_field (snd i))"

definition word :: "string \<Rightarrow> bool" where
  "word w \<longleftrightarrow> w \<noteq> [] \<and> pipe \<notin> set w \<and> equals \<notin> set w \<and> backslash \<notin> set w"

definition second_field :: "string \<Rightarrow> string \<Rightarrow> string option" where
  "second_field proto f =
     (if (proto, f) = (''kafka'', ''topic'') then Some ''partition''
      else if (proto, f) = (''kafka'', ''topic_partition'') then Some []
      else if (proto, f) = (''sftp'', ''remote_dir'') then Some ''file_name''
      else if (proto, f) = (''oss'', ''bucket'') then Some ''key''
      else None)"

definition proper :: "identity \<Rightarrow> bool" where
  "proper i \<longleftrightarrow> word (fst i) \<and>
     (\<exists>f v. word f \<and>
        ((snd i = [(f, v)] \<and> second_field (fst i) f \<noteq> Some []) \<or>
         (\<exists>w. snd i = [(f, v), ([], w)] \<and> second_field (fst i) f = Some [] \<and> pipe \<notin> set w) \<or>
         (\<exists>g w. snd i = [(f, v), (g, w)] \<and> second_field (fst i) f = Some g \<and> g \<noteq> [] \<and> word g)))"

lemma render_inj:
  assumes "proper i" "proper j" "render i = render j"
  shows "i = j"
proof -
  obtain p f v where i: "fst i = p" "word p" "word f"
    "(snd i = [(f, v)] \<and> second_field p f \<noteq> Some []) \<or>
     (\<exists>w. snd i = [(f, v), ([], w)] \<and> second_field p f = Some [] \<and> pipe \<notin> set w) \<or>
     (\<exists>g w. snd i = [(f, v), (g, w)] \<and> second_field p f = Some g \<and> g \<noteq> [] \<and> word g)"
    using assms(1) unfolding proper_def by blast
  obtain p' f' v' where j: "fst j = p'" "word p'" "word f'"
    "(snd j = [(f', v')] \<and> second_field p' f' \<noteq> Some []) \<or>
     (\<exists>w. snd j = [(f', v'), ([], w)] \<and> second_field p' f' = Some [] \<and> pipe \<notin> set w) \<or>
     (\<exists>g w. snd j = [(f', v'), (g, w)] \<and> second_field p' f' = Some g \<and> g \<noteq> [] \<and> word g)"
    using assms(2) unfolding proper_def by blast
  obtain t where t: "snd i = (f, v) # t" using i(4) by auto
  obtain t' where t': "snd j = (f', v') # t'" using j(4) by auto
  have ne: "f \<noteq> []" "f' \<noteq> []" using i(3) j(3) by (simp_all add: word_def)
  let ?r = "concat (map render_field t)" and ?r' = "concat (map render_field t')"
  have "p @ pipe # f @ equals # match_key_escape v @ ?r = p' @ pipe # f' @ equals # match_key_escape v' @ ?r'"
    using assms(3) i(1) j(1) t t' ne by (simp add: render_def render_field_def)
  then have pe: "p = p' \<and> f @ equals # match_key_escape v @ ?r = f' @ equals # match_key_escape v' @ ?r'"
    by (rule first_split) (use i(2) j(2) in \<open>simp_all add: word_def\<close>)
  then have "f @ equals # match_key_escape v @ ?r = f' @ equals # match_key_escape v' @ ?r'" ..
  then have fe: "f = f' \<and> match_key_escape v @ ?r = match_key_escape v' @ ?r'"
    by (rule first_split) (use i(3) j(3) in \<open>simp_all add: word_def\<close>)
  have p: "p = p'" and f: "f = f'" and e: "match_key_escape v @ ?r = match_key_escape v' @ ?r'" using pe fe by simp_all
  have "v = v' \<and> t = t'"
  proof (cases "second_field p f")
    case None
    then have "t = []" "t' = []" using i(4) j(4) t t' p f by auto
    then show ?thesis using e by (simp add: escape_inj)
  next
    case (Some g)
    show ?thesis
    proof (cases "g = []")
      case True
      then obtain w w' where w: "t = [([], w)]" "t' = [([], w')]" "pipe \<notin> set w" "pipe \<notin> set w'"
        using i(4) j(4) t t' p f Some by auto
      then have "match_key_escape v @ pipe # w = match_key_escape v' @ pipe # w'" using e by (simp add: render_field_def)
      then show ?thesis using last_split w by (metis escape_inj)
    next
      case False
      have tt: "t = [] \<or> (\<exists>w. t = [(g, w)])" "t' = [] \<or> (\<exists>w. t' = [(g, w)])" "t \<noteq> [] \<or> t' \<noteq> [] \<longrightarrow> word g"
        using i(4) j(4) t t' p f Some False by auto
      have no: "match_key_escape a \<noteq> match_key_escape b @ pipe # g @ equals # c" if "word g" for a b c
        using escape_no_field [of a "match_key_escape b @ [pipe]" g c] that by (auto simp: word_def)
      consider "t = []" "t' = []" | w where "t = [(g, w)]" "t' = []" | w where "t = []" "t' = [(g, w)]"
        | w w' where "t = [(g, w)]" "t' = [(g, w')]" using tt by auto
      then show ?thesis
      proof cases
        case 1
        then show ?thesis using e by (simp add: escape_inj)
      next
        case (2 w)
        then show ?thesis using e False no [of v' v "match_key_escape w"] tt(3) by (simp add: render_field_def)
      next
        case (3 w)
        then show ?thesis using e False no [of v v' "match_key_escape w"] tt(3) by (simp add: render_field_def)
      next
        case (4 w w')
        then have "match_key_escape v @ pipe # g @ equals # match_key_escape w = match_key_escape v' @ pipe # g @ equals # match_key_escape w'"
          using e False by (simp add: render_field_def)
        then have "v = v' \<and> match_key_escape w = match_key_escape w'"
          using tt(3) 4 by (intro two_fields_split) (auto simp: word_def)
        then show ?thesis using 4 by (simp add: escape_inj)
      qed
    qed
  qed
  then show ?thesis using p f i(1) j(1) t t' by (simp add: prod_eq_iff)
qed

section \<open>What a key is made of\<close>

text \<open>A receiver with its mode, and the part of a packet that the builder looks at.\<close>

datatype key_source =
    UdpKey receiver_match_key_config endpoints
  | TcpKey receiver_match_key_config endpoints
  | KafkaKey receiver_match_key_config string int
  | SftpKey receiver_match_key_config string string
  | OssKey receiver_match_key_config string string
  | TimerKey receiver_match_key_config

fun source_key :: "key_source \<Rightarrow> string result" where
  "source_key (UdpKey cfg e) = (case compileUDPMatchKeyBuilder cfg of Inl err \<Rightarrow> Inl err | Inr (b, _) \<Rightarrow> Inr (b e))"
| "source_key (TcpKey cfg e) = (case compileTCPMatchKeyBuilder cfg of Inl err \<Rightarrow> Inl err | Inr (b, _) \<Rightarrow> Inr (b e))"
| "source_key (KafkaKey cfg topic n) = (case compileKafkaMatchKeyBuilder cfg topic of Inl err \<Rightarrow> Inl err | Inr (b, _) \<Rightarrow> Inr (b n))"
| "source_key (SftpKey cfg dir f) = (case compileSFTPMatchKeyBuilder cfg dir of Inl err \<Rightarrow> Inl err | Inr (b, _) \<Rightarrow> Inr (b f))"
| "source_key (OssKey cfg bucket k) = (case compileOSSMatchKeyBuilder cfg bucket of Inl err \<Rightarrow> Inl err | Inr (b, _) \<Rightarrow> Inr (b k))"
| "source_key (TimerKey cfg) = (case compileLocalTimerMatchKeyBuilder cfg of Inl err \<Rightarrow> Inl err | Inr (k, _) \<Rightarrow> Inr k)"

definition endpoint_field :: "receiver_match_key_config \<Rightarrow> endpoints \<Rightarrow> string \<times> string" where
  "endpoint_field cfg e =
     (let mode = trim_space (mk_Mode cfg) in
      (if mode = [] then ''src_addr'' else mode,
       if mode = [] \<or> mode = ''remote_addr'' then ep_remote e
       else if mode = ''remote_ip'' then matchKeyHostIP (ep_remoteAddr e) (ep_remote e)
       else if mode = ''local_addr'' then ep_local e
       else if mode = ''local_ip'' then matchKeyHostIP (ep_localAddr e) (ep_local e)
       else if mode = ''local_port'' then matchKeyPort (ep_localAddr e) (ep_local e)
       else mk_FixedValue cfg))"

fun identity_of :: "key_source \<Rightarrow> identity" where
  "identity_of (UdpKey cfg e) = (''udp'', [endpoint_field cfg e])"
| "identity_of (TcpKey cfg e) = (''tcp'', [endpoint_field cfg e])"
| "identity_of (KafkaKey cfg topic n) = (''kafka'',
     let mode = trim_space (mk_Mode cfg) in
     if mode = [] then [(''topic'', topic), (''partition'', itoa n)]
     else if mode = ''topic'' then [(''topic'', topic)]
     else if mode = ''topic_partition'' then [(''topic_partition'', topic), ([], itoa n)]
     else [(''fixed'', mk_FixedValue cfg)])"
| "identity_of (SftpKey cfg dir f) = (''sftp'',
     let mode = trim_space (mk_Mode cfg) in
     if mode = [] then [(''remote_dir'', trim_space dir), (''file_name'', path_base f)]
     else if mode = ''remote_path'' then [(''remote_path'', f)]
     else if mode = ''filename'' then [(''filename'', path_base f)]
     else [(''fixed'', mk_FixedValue cfg)])"
| "identity_of (OssKey cfg bucket k) = (''oss'',
     let mode = trim_space (mk_Mode cfg) in
     if mode = [] then [(''bucket'', trim_space bucket), (''key'', k)]
     else if mode = ''remote_path'' then [(''remote_path'', k)]
     else if mode = ''filename'' then [(''filename'', path_base k)]
     else [(''fixed'', mk_FixedValue cfg)])"
| "identity_of (TimerKey cfg) = (''local'',
     [if trim_space (mk_Mode cfg) = [] then (''receiver'', ''local_timer'') else (''fixed'', mk_FixedValue cfg)])"

lemma word_facts [simp]:
  "word ''udp''" "word ''tcp''" "word ''kafka''" "word ''sftp''" "word ''oss''" "word ''local''" "word ''src_addr''" "word ''remote_addr''"
  "word ''remote_ip''" "word ''local_addr''" "word ''local_ip''" "word ''local_port''" "word ''fixed''" "word ''topic''" "word ''partition''"
  "word ''topic_partition''" "word ''remote_dir''" "word ''file_name''" "word ''remote_path''" "word ''filename''" "word ''bucket''"
  "word ''key''" "word ''receiver''"
  by (simp_all add: word_def)

lemma escape_plain: "pipe \<notin> set s \<Longrightarrow> equals \<notin> set s \<Longrightarrow> backslash \<notin> set s \<Longrightarrow> match_key_escape s = s"
  by (induction s rule: match_key_escape.induct) (auto simp: escape_char_def)

lemma itoa_plain: "pipe \<notin> set (itoa n)" "match_key_escape (itoa n) = itoa n"
proof -
  have d: "pipe \<notin> set (nat_digits k)" "equals \<notin> set (nat_digits k)" "backslash \<notin> set (nat_digits k)" for k
    by (rule not_in_nat_digits, simp)+
  then show "pipe \<notin> set (itoa n)" by (simp add: itoa_def)
  show "match_key_escape (itoa n) = itoa n" by (rule escape_plain) (use d in \<open>simp_all add: itoa_def\<close>)
qed

lemmas key_defs = buildSingleFieldMatchKey_def buildTwoFieldMatchKey_def precomputeSingleFieldMatchKey_def appendRawSingleFieldPrefix_def

lemma proper_single: "word p \<Longrightarrow> word f \<Longrightarrow> second_field p f \<noteq> Some [] \<Longrightarrow> proper (p, [(f, v)])"
  by (auto simp: proper_def)

lemma proper_two: "word p \<Longrightarrow> word f \<Longrightarrow> second_field p f = Some g \<Longrightarrow> word g \<Longrightarrow> proper (p, [(f, v), (g, w)])"
  by (auto simp: proper_def word_def)

lemma proper_raw: "word p \<Longrightarrow> word f \<Longrightarrow> second_field p f = Some [] \<Longrightarrow> pipe \<notin> set w \<Longrightarrow> proper (p, [(f, v), ([], w)])"
  by (auto simp: proper_def)

lemma render_shapes:
  "f \<noteq> [] \<Longrightarrow> render (p, [(f, v)]) = p @ pipe # f @ equals # match_key_escape v"
  "f \<noteq> [] \<Longrightarrow> g \<noteq> [] \<Longrightarrow>
    render (p, [(f, v), (g, w)]) = p @ pipe # f @ equals # match_key_escape v @ pipe # g @ equals # match_key_escape w"
  "f \<noteq> [] \<Longrightarrow> render (p, [(f, v), ([], w)]) = p @ pipe # f @ equals # match_key_escape v @ pipe # w"
  by (simp_all add: render_def render_field_def)

lemma key_renders:
  assumes "source_key x = Inr k"
  shows "k = render (identity_of x) \<and> proper (identity_of x)"
proof (cases x)
  case (UdpKey cfg e)
  then show ?thesis using assms
    by (auto simp: compileUDPMatchKeyBuilder_def Let_def key_defs endpoint_field_def render_shapes second_field_def
      intro!: proper_single split: if_splits)
next
  case (TcpKey cfg e)
  then show ?thesis using assms
    by (auto simp: compileTCPMatchKeyBuilder_def Let_def key_defs endpoint_field_def render_shapes second_field_def
      intro!: proper_single split: if_splits)
next
  case (KafkaKey cfg topic n)
  then show ?thesis using assms
    by (auto simp: compileKafkaMatchKeyBuilder_def Let_def key_defs render_shapes second_field_def itoa_plain
      intro!: proper_single proper_two proper_raw split: if_splits)
next
  case (SftpKey cfg dir f)
  then show ?thesis using assms
    by (auto simp: compileSFTPMatchKeyBuilder_def Let_def key_defs render_shapes second_field_def
      intro!: proper_single proper_two split: if_splits)
next
  case (OssKey cfg bucket f)
  then show ?thesis using assms
    by (auto simp: compileOSSMatchKeyBuilder_def Let_def key_defs render_shapes second_field_def
      intro!: proper_single proper_two split: if_splits)
next
  case (TimerKey cfg)
  then show ?thesis using assms
    by (auto simp: compileLocalTimerMatchKeyBuilder_def Let_def key_defs render_shapes second_field_def
      intro!: proper_single split: if_splits)
qed

text \<open>C33: a match key says exactly what it is made of. Two packets, of any receivers (UDP, TCP, Kafka, SFTP,
  OSS, timer) with any modes, get the same key just when the protocol, the fields of the mode and the values
  of these fields are the same: no address, path or topic, whatever separators and backslashes it contains, can
  make the key of another.\<close>

theorem match_keys_identify:
  assumes "source_key x = Inr k" "source_key y = Inr k'"
  shows "k = k' \<longleftrightarrow> identity_of x = identity_of y"
  using key_renders [OF assms(1)] key_renders [OF assms(2)] render_inj by metis

definition default_mode :: receiver_match_key_config where
  "default_mode = \<lparr>mk_Mode = [], mk_FixedValue = []\<rparr>"

definition topic_mode :: receiver_match_key_config where
  "topic_mode = \<lparr>mk_Mode = ''topic'', mk_FixedValue = []\<rparr>"

theorem match_keys_identify_witness:
  "\<exists>k k'. source_key (KafkaKey topic_mode ''t|partition=3'' 0) = Inr k \<and> source_key (KafkaKey default_mode ''t'' 3) = Inr k' \<and> k \<noteq> k'"
proof -
  have m: "trim_space (mk_Mode topic_mode) = ''topic''" "trim_space (mk_Mode default_mode) = []" by code_simp+
  then obtain k k' where k: "source_key (KafkaKey topic_mode ''t|partition=3'' 0) = Inr k" "source_key (KafkaKey default_mode ''t'' 3) = Inr k'"
    by (simp add: compileKafkaMatchKeyBuilder_def Let_def)
  then show ?thesis using match_keys_identify [OF k] m by auto
qed

end
