(* ===== verification/FileReceiverProps.thy ===== *)
theory FileReceiverProps
  imports FileReceiver OssProps
begin

text \<open>
  Reading a file to the end: the loop over the reads returns, the packets are the consecutive chunks of the
  file, and the last one, and no other, has \<open>EOF\<close>. A read enters by the contract of \<open>io.Reader\<close>.
\<close>

section \<open>The contract of Read\<close>

text \<open>
  \<open>rest s\<close> is what is left of the file: a read gives its first bytes, at most as many as asked for; \<open>io.EOF\<close> comes
  when nothing is left; a read without bytes has an error. Reads may fail at any time.
\<close>

definition file_reader :: "'s source \<Rightarrow> string \<Rightarrow> ('s \<Rightarrow> bytes) \<Rightarrow> bool" where
  "file_reader src f rest \<longleftrightarrow>
     (\<forall>n s bs err s'. 0 < n \<longrightarrow> src_read src f n s = (bs, err, s') \<longrightarrow>
        length bs \<le> n \<and> rest s = bs @ rest s' \<and> (err = Some ReadEOF \<longrightarrow> rest s' = []) \<and> (bs = [] \<longrightarrow> err \<noteq> None))"

lemma file_readerD:
  assumes "file_reader src f rest" "0 < n" "src_read src f n s = (bs, err, s')"
  shows "length bs \<le> n" "rest s = bs @ rest s'" "err = Some ReadEOF \<Longrightarrow> rest s' = []" "bs = [] \<Longrightarrow> err \<noteq> None"
  using assms unfolding file_reader_def by blast+

section \<open>Consecutive chunks\<close>

fun chunks_from :: "(bytes \<Rightarrow> bytes) \<Rightarrow> meta \<Rightarrow> int \<Rightarrow> packet list \<Rightarrow> bool" where
  "chunks_from sha m off [] = True"
| "chunks_from sha m off (p # ps) =
     (Kind p = PayloadKindFileChunk \<and> Payload p \<noteq> [] \<and>
      Meta p = m\<lparr>Offset := off, Checksum := hex_encode (sha (Payload p)), EOF := (off + int (length (Payload p)) = TotalSize m)\<rparr> \<and>
      chunks_from sha m (off + int (length (Payload p))) ps)"

definition bytes_of :: "packet list \<Rightarrow> bytes" where
  "bytes_of ps = concat (map Payload ps)"

lemma bytes_of_simps [simp]: "bytes_of [] = []" "bytes_of (p # ps) = Payload p @ bytes_of ps"
  by (simp_all add: bytes_of_def)

lemma stream_step:
  assumes "file_reader src f rest" "0 < chunk" "\<not> src_cancelled src s" "src_read src f chunk s = (bs, err, s1)" "bs \<noteq> []"
    and "off + int (length (rest s)) = TotalSize m" "0 \<le> off" "in64 (TotalSize m)"
  obtains p w1 where
    "stream_loop (Suc fuel) src sha f chunk m off s w out =
       (case err of
          Some ReadEOF \<Rightarrow> Some (None, s1, w1, out @ [p])
        | Some (ReadFail e) \<Rightarrow> Some (Some e, s1, w1, out @ [p])
        | None \<Rightarrow> stream_loop fuel src sha f chunk m (off + int (length bs)) s1 w1 (out @ [p]))"
    "Payload p = bs" "chunks_from sha m off [p]"
proof -
  note r = file_readerD [OF assms(1,2,4)]
  have l: "off + int (length bs) \<le> TotalSize m" using assms(6) r(2) by simp
  then have w: "wrap64 (off + int (length bs)) = off + int (length bs)"
    using assms(7,8) by (intro wrap64_id) (auto simp: in64_def)
  have "err = Some ReadEOF \<Longrightarrow> off + int (length bs) = TotalSize m" using r(2,3) assms(6) by simp
  then have eof: "fileChunkEOF off (int (length bs)) (TotalSize m) err = (off + int (length bs) = TotalSize m)"
    using l w assms(7) by (auto simp: fileChunkEOF_def)
  let ?p = "chunk_packet sha m off bs (fileChunkEOF off (int (length bs)) (TotalSize m) err) (next_lease w) (next_addr w)"
  have "chunks_from sha m off [?p]" using assms(5) eof by (simp add: chunk_packet_def)
  moreover have "Payload ?p = bs" by (simp add: chunk_packet_def)
  ultimately show thesis
    using that [of "w\<lparr>next_lease := Suc (next_lease w), next_addr := Suc (next_addr w)\<rparr>" ?p] assms(3-5) w
    by (simp add: CopyFrom_def Let_def)
qed

lemma stream_loop_returns:
  assumes "file_reader src f rest" "0 < chunk" "in64 (TotalSize m)"
  shows "off + int (length (rest s)) = TotalSize m \<Longrightarrow> 0 \<le> off \<Longrightarrow> length (rest s) < fuel \<Longrightarrow>
    \<exists>err s' w' ps g. stream_loop fuel src sha f chunk m off s w out = Some (err, s', w', out @ ps) \<and>
      rest s = bytes_of ps @ g \<and> chunks_from sha m off ps \<and> (\<forall>p \<in> set ps. length (Payload p) \<le> chunk) \<and>
      (err = None \<longrightarrow> g = [] \<or> src_cancelled src s')"
proof (induction fuel arbitrary: s off w out)
  case 0
  then show ?case by simp
next
  case (Suc fuel)
  show ?case
  proof (cases "src_cancelled src s")
    case True
    then show ?thesis by (intro exI [of _ None] exI [of _ s] exI [of _ w] exI [of _ "[]"] exI [of _ "rest s"]) simp
  next
    case go: False
    obtain bs err s1 where rd: "src_read src f chunk s = (bs, err, s1)" by (metis prod_cases3)
    note r = file_readerD [OF assms(1,2) rd]
    show ?thesis
    proof (cases "bs = []")
      case True
      then obtain e where "err = Some e" using r(4) by blast
      then show ?thesis using True go rd r(2,3)
        by (cases e) (auto intro!: exI [of _ "[] :: packet list"])
    next
      case False
      obtain p w1 where step: "stream_loop (Suc fuel) src sha f chunk m off s w out =
         (case err of
            Some ReadEOF \<Rightarrow> Some (None, s1, w1, out @ [p])
          | Some (ReadFail e) \<Rightarrow> Some (Some e, s1, w1, out @ [p])
          | None \<Rightarrow> stream_loop fuel src sha f chunk m (off + int (length bs)) s1 w1 (out @ [p]))"
        "Payload p = bs" "chunks_from sha m off [p]"
        by (rule stream_step [OF assms(1,2) go rd False Suc.prems(1,2) assms(3)])
      show ?thesis
      proof (cases err)
        case (Some e)
        then show ?thesis using step r(1-3) by (cases e) (auto intro!: exI [of _ "[p]"])
      next
        case None
        have "length (rest s) = length bs + length (rest s1)" "0 < length bs" using r(2) False by simp_all
        then have next_read: "off + int (length bs) + int (length (rest s1)) = TotalSize m" "0 \<le> off + int (length bs)" "length (rest s1) < fuel"
          using Suc.prems by linarith+
        from Suc.IH [OF next_read, of w1 "out @ [p]"] obtain err' s' w' ps g where ih:
          "stream_loop fuel src sha f chunk m (off + int (length bs)) s1 w1 (out @ [p]) = Some (err', s', w', (out @ [p]) @ ps)"
          "rest s1 = bytes_of ps @ g" "chunks_from sha m (off + int (length bs)) ps"
          "\<forall>q \<in> set ps. length (Payload q) \<le> chunk" "err' = None \<longrightarrow> g = [] \<or> src_cancelled src s'"
          by blast
        show ?thesis
          by (intro exI [of _ err'] exI [of _ s'] exI [of _ w'] exI [of _ "p # ps"] exI [of _ g])
            (use ih step None r(1,2) in simp)
      qed
    qed
  qed
qed

lemma chunk_size_pos: "1024 \<le> chunk_size rc"
  by (auto simp: chunk_size_def defaultInt_def Let_def)

lemma streamFile_effect:
  assumes "file_reader src filePath rest" "in64 (int (length F))"
    and "\<And>s1. src_open src filePath s = (None, s1) \<Longrightarrow> rest s1 = F"
  shows "\<exists>err s' w' ps g. streamFile (length F + 1) src sha r filePath (int (length F)) s w out = Some (err, s', w', out @ ps) \<and>
      F = bytes_of ps @ g \<and> chunks_from sha (sftp_file_meta r filePath (int (length F))) 0 ps \<and>
      (\<forall>p \<in> set ps. length (Payload p) \<le> chunk_size (fx_cfg r)) \<and>
      (err = None \<longrightarrow> g = [] \<or> src_cancelled src s')"
proof -
  let ?m = "sftp_file_meta r filePath (int (length F))"
  obtain e s1 where o: "src_open src filePath s = (e, s1)" by fastforce
  show ?thesis
  proof (cases e)
    case (Some err)
    then show ?thesis using o by (intro exI [of _ "Some err"] exI [of _ s1] exI [of _ w] exI [of _ "[]"] exI [of _ F]) (simp add: streamFile_def)
  next
    case None
    have F: "rest s1 = F" using assms(3) o None by simp
    have t: "TotalSize ?m = int (length F)" by (simp add: sftp_file_meta_def)
    have c: "0 < chunk_size (fx_cfg r)" using chunk_size_pos [of "fx_cfg r"] by simp
    show ?thesis
      using stream_loop_returns [OF assms(1) c, of ?m 0 s1 "length F + 1" sha w out] assms(2) F t o None by (simp add: streamFile_def)
  qed
qed

text \<open>C34: reading a file comes to an end. The file is as long as it was listed, and each read gives at least
  a byte, the end or an error. Then, whatever else the remote side does (short reads, failures, a context that
  is cancelled at any time), \<open>streamFile\<close> returns after at most one read more than the file has bytes. The
  packets it forwarded are consecutive chunks of the file from offset 0, none longer than the configured
  chunk size, each with its checksum, the total size and the transfer ID, and \<open>EOF\<close> on the one that reaches
  the end of the file; and when it returns no error, they are the whole file, unless the context was cancelled.\<close>

theorem streamFile_returns:
  assumes "file_reader src filePath rest" "in64 (int (length F))"
    and "\<And>s1. src_open src filePath s = (None, s1) \<Longrightarrow> rest s1 = F"
  shows "\<exists>err s' w' ps g. streamFile (length F + 1) src sha r filePath (int (length F)) s w out = Some (err, s', w', out @ ps) \<and>
      F = bytes_of ps @ g \<and> chunks_from sha (sftp_file_meta r filePath (int (length F))) 0 ps \<and>
      (\<forall>p \<in> set ps. length (Payload p) \<le> chunk_size (fx_cfg r)) \<and>
      (err = None \<longrightarrow> g = [] \<or> src_cancelled src s')"
  by (rule streamFile_effect [OF assms])

text \<open>A file in memory, read at most two bytes at a time.\<close>

definition mem_source :: "bytes source" where
  "mem_source =
     \<lparr>src_cancelled = \<lambda>_. False, src_connect = \<lambda>s. (None, s), src_open = \<lambda>_ _. (None, sample_file),
      src_read = \<lambda>_ n s. (take (min n 2) s, if length s \<le> min n 2 then Some ReadEOF else None, drop (min n 2) s)\<rparr>"

lemma mem_source_reads: "file_reader mem_source f (\<lambda>s. s)"
  unfolding file_reader_def mem_source_def by auto

definition sample_receiver :: file_receiver where
  "sample_receiver = \<lparr>fx_name = ''rx'', fx_cfg = zero_receiver_config, fx_matchKey = (\<lambda>f. f), fx_seen = []\<rparr>"

theorem streamFile_returns_witness:
  "\<exists>err s' w' ps g. streamFile 6 mem_source (\<lambda>_. []) sample_receiver ''/in/a'' 5 sample_file
       \<lparr>next_lease = 0, next_addr = 0, returned = []\<rparr> [] = Some (err, s', w', ps) \<and> sample_file = bytes_of ps @ g"
proof -
  have l: "length sample_file = 5" by (simp add: sample_file_def)
  have i: "in64 (int (length sample_file))" by (simp add: in64_def l)
  have o: "src_open mem_source ''/in/a'' sample_file = (None, s1) \<Longrightarrow> s1 = sample_file" for s1 by (simp add: mem_source_def)
  show ?thesis
    using streamFile_returns [of mem_source "''/in/a''" "\<lambda>s. s" sample_file sample_file "\<lambda>_. []" sample_receiver
        "\<lparr>next_lease = 0, next_addr = 0, returned = []\<rparr>" "[]", OF mem_source_reads i o]
    unfolding l by (simp add: numeral_eq_Suc) blast
qed

end
