(* ===== verification/FileRelay.thy ===== *)
theory FileRelay
  imports FileReceiverProps SftpRuns StageProps
begin

text \<open>
  From a file on one SFTP server to a file on another: the packets of \<open>streamFile\<close>, through a pipeline, into the
  SFTP sender. The stages that rewrite target paths keep what the sender needs to put the file together.
\<close>

section \<open>The chunks of a whole file\<close>

lemma chunks_from_chunk:
  assumes "chunks_from sha m off ps" "p \<in> set ps" "TotalSize m = int (length F)" "F = pre @ bytes_of ps @ g" "off = int (length pre)"
  shows "chunk_of F p \<and> (\<exists>o' eof. Meta p = m\<lparr>Offset := o', Checksum := hex_encode (sha (Payload p)), EOF := eof\<rparr>) \<and>
    Kind p = PayloadKindFileChunk \<and> Payload p \<noteq> []"
  using assms
proof (induction ps arbitrary: off pre)
  case (Cons q ps)
  show ?case
  proof (cases "p = q")
    case True
    have m: "Meta q = m\<lparr>Offset := off, Checksum := hex_encode (sha (Payload q)), EOF := (off + int (length (Payload q)) = TotalSize m)\<rparr>"
      using Cons.prems(1) by simp
    have "chunk_of F q" unfolding chunk_of_def m using Cons.prems(3-5) by simp
    then show ?thesis using True m Cons.prems(1) by auto
  next
    case False
    then show ?thesis
      using Cons.IH [of "off + int (length (Payload q))" "pre @ Payload q"] Cons.prems by simp
  qed
qed simp

lemma chunks_from_cover:
  "chunks_from sha m off ps \<Longrightarrow> (\<Union>p \<in> set ps. interval p) = {off ..< off + int (length (bytes_of ps))}"
proof (induction ps arbitrary: off)
  case (Cons p ps)
  have m: "Offset (Meta p) = off" using Cons.prems by simp
  have "(\<Union>q \<in> set ps. interval q) = {off + int (length (Payload p)) ..< off + int (length (Payload p)) + int (length (bytes_of ps))}"
    using Cons.IH Cons.prems by simp
  then show ?case by (auto simp: interval_def m)
qed simp

lemma chunks_from_EOF:
  "chunks_from sha m off ps \<Longrightarrow> ps \<noteq> [] \<Longrightarrow> off + int (length (bytes_of ps)) = TotalSize m \<Longrightarrow> \<exists>p \<in> set ps. EOF (Meta p)"
proof (induction ps arbitrary: off)
  case (Cons p ps)
  show ?case
  proof (cases "ps = []")
    case True
    then show ?thesis using Cons.prems by simp
  next
    case False
    then show ?thesis using Cons.IH [of "off + int (length (Payload p))"] Cons.prems by auto
  qed
qed simp

section \<open>Stages that rewrite target paths\<close>

type_synonym target_fun = "string \<times> string \<times> string \<times> string \<Rightarrow> string \<times> string"

text \<open>The new target name and path, from the path, the name, the target path and the target name.\<close>

definition retarget :: "target_fun \<Rightarrow> meta \<Rightarrow> meta" where
  "retarget g m = (let (n, t) = g (FilePath m, FileName m, TargetFilePath m, TargetFileName m)
     in m\<lparr>TargetFileName := n, TargetFilePath := t\<rparr>)"

definition path_stage :: "stage_fun \<Rightarrow> bool" where
  "path_stage st \<longleftrightarrow> (\<exists>g. \<forall>p. st [p] = [set_meta (retarget g) p])"

lemma path_stageI:
  assumes "\<And>p. one p = (True, set_meta (\<lambda>m. m\<lparr>TargetFileName := n m, TargetFilePath := t m\<rparr>) p)"
    and "\<And>m. n m = n' (FilePath m, FileName m, TargetFilePath m, TargetFileName m)"
    and "\<And>m. t m = t' (FilePath m, FileName m, TargetFilePath m, TargetFileName m)"
  shows "path_stage (mapStage one)"
  unfolding path_stage_def mapStage_eq
  by (intro exI [of _ "\<lambda>v. (n' v, t' v)"]) (simp add: assms retarget_def)

definition path_stage_types :: "string list" where
  "path_stage_types = [''set_target_file_path'', ''rewrite_target_path_strip_prefix'', ''rewrite_target_path_add_prefix'',
     ''rewrite_target_filename_replace'', ''rewrite_target_path_regex'', ''rewrite_target_filename_regex'']"

definition source_path :: "string \<times> string \<times> string \<times> string \<Rightarrow> string" where
  "source_path v = (case v of (fp, fn, tp, tn) \<Rightarrow> if trim_space tp \<noteq> [] then tp else fp)"

definition source_name :: "string \<times> string \<times> string \<times> string \<Rightarrow> string" where
  "source_name v = (case v of (fp, fn, tp, tn) \<Rightarrow>
     if trim_space tn \<noteq> [] then tn else if trim_space fn \<noteq> [] then fn
     else let base = path_base (trim_space (source_path v)) in if base = ''.'' \<or> base = ''/'' then [] else base)"

lemma source_fields:
  "targetPathOrSource p = source_path (FilePath (Meta p), FileName (Meta p), TargetFilePath (Meta p), TargetFileName (Meta p))"
  "targetFilenameOrSource p = source_name (FilePath (Meta p), FileName (Meta p), TargetFilePath (Meta p), TargetFileName (Meta p))"
  by (simp_all add: targetPathOrSource_def targetFilenameOrSource_def source_path_def source_name_def Let_def)

lemma path_stage_of:
  assumes "\<And>p. one p = (True, set_meta (retarget g) p)"
  shows "path_stage (mapStage one)"
  unfolding path_stage_def mapStage_eq by (intro exI [of _ g]) (simp add: assms)

lemma set_path_stage: "path_stage (SetTargetFilePath v)"
  unfolding SetTargetFilePath_def
  by (rule path_stage_of [where g = "\<lambda>(fp, fn, tp, tn). (tn, v)"]) (simp add: retarget_def)

lemma strip_path_stage: "path_stage (RewriteTargetPathStripPrefix v)"
  unfolding RewriteTargetPathStripPrefix_def Let_def
  by (rule path_stage_of [where g = "\<lambda>x. (snd (snd (snd x)), trim_prefix (trim_prefix (source_path x) (trim_space v)) ''/'')"])
    (simp add: retarget_def source_fields)

lemma add_path_stage: "path_stage (RewriteTargetPathAddPrefix v)"
  unfolding RewriteTargetPathAddPrefix_def Let_def
  by (rule path_stage_of [where g = "\<lambda>x. (snd (snd (snd x)),
      if cleanPathPrefix v = [] then trim_prefix (source_path x) ''/'' else path_join (cleanPathPrefix v) (trim_prefix (source_path x) ''/''))"])
    (simp add: retarget_def source_fields)

lemma regex_path_stage: "path_stage (RewriteTargetPathRegex re r)"
  unfolding RewriteTargetPathRegex_def
  by (rule path_stage_of [where g = "\<lambda>x. (snd (snd (snd x)), re (source_path x) r)"]) (simp add: retarget_def source_fields)

lemma set_target_name_retarget:
  "set_target_name (h (source_name (FilePath (Meta p), FileName (Meta p), TargetFilePath (Meta p), TargetFileName (Meta p)))) p =
   set_meta (retarget (\<lambda>x. (h (source_name x), replacePathBase (source_path x) (h (source_name x))))) p"
  by (simp add: set_target_name_def retarget_def source_fields source_path_def Let_def)

lemma name_path_stages: "path_stage (RewriteTargetFilenameReplace old new)" "path_stage (RewriteTargetFilenameRegex re r)"
  unfolding RewriteTargetFilenameReplace_def RewriteTargetFilenameRegex_def source_fields
  by (rule path_stage_of, simp only: set_target_name_retarget [where h = "\<lambda>s. replace_all s old new"],
      rule path_stage_of, simp only: set_target_name_retarget [where h = "\<lambda>s. re s r"])

lemma compiled_path_stage:
  assumes "compileStage rx sc = Inr st" "st_Type sc \<in> set path_stage_types"
  shows "path_stage st"
  using assms unfolding compileStage_def path_stage_types_def
  by (auto simp: set_path_stage strip_path_stage add_path_stage regex_path_stage name_path_stages split: if_splits sum.splits)

lemma retarget_comp: "\<exists>k. \<forall>m. retarget h (retarget g m) = retarget k m"
proof -
  let ?k = "\<lambda>(fp, fn, tp, tn). let (n, t) = g (fp, fn, tp, tn) in h (fp, fn, t, n)"
  have "retarget h (retarget g m) = retarget ?k m" for m by (simp add: retarget_def Let_def split: prod.splits)
  then show ?thesis by blast
qed

lemma process_path_stages:
  assumes "\<forall>st \<in> set sts. path_stage st"
  shows "\<exists>g. \<forall>p. process_stages sts [p] = [set_meta (retarget g) p]"
  using assms
proof (induction sts)
  case Nil
  have "retarget (\<lambda>(fp, fn, tp, tn). (tn, tp)) m = m" for m by (simp add: retarget_def)
  then show ?case by (intro exI [of _ "\<lambda>(fp, fn, tp, tn). (tn, tp)"]) simp
next
  case (Cons st sts)
  obtain g where g: "\<And>p. st [p] = [set_meta (retarget g) p]" using Cons.prems by (auto simp: path_stage_def)
  obtain h where h: "\<And>p. process_stages sts [p] = [set_meta (retarget h) p]" using Cons by auto
  obtain k where "\<And>m. retarget h (retarget g m) = retarget k m" using retarget_comp by blast
  then show ?case using g h by (intro exI [of _ k]) (simp add: Let_def)
qed

section \<open>Identifiers and checksums survive trimming\<close>

lemma strip_leading_keeps: "c \<in> set s \<Longrightarrow> \<forall>p \<in> set seqs. c \<notin> set p \<Longrightarrow> c \<in> set (strip_leading seqs s)"
proof (induction seqs s rule: strip_leading.induct)
  case (1 seqs s)
  show ?case
  proof (cases "leading seqs s")
    case (Some p)
    then obtain t where t: "s = p @ t" "p \<in> set seqs" using leading_Some [of seqs s p] by (auto simp: prefix_def)
    then have "c \<in> set (drop (length p) s)" using "1.prems" by auto
    then show ?thesis using 1 Some by (simp add: strip_leading.simps [of seqs s])
  qed (use 1 in \<open>simp add: strip_leading.simps [of seqs s]\<close>)
qed

lemma trim_space_keeps:
  assumes "c \<in> set s" "\<forall>p \<in> set space_seqs. c \<notin> set p"
  shows "c \<in> set (trim_space s)"
proof -
  have "c \<in> set (trim_left s)" unfolding trim_left_def by (rule strip_leading_keeps [OF assms])
  then have "c \<in> set (strip_leading (map rev space_seqs) (rev (trim_left s)))"
    using assms(2) by (intro strip_leading_keeps) auto
  then show ?thesis by (simp add: trim_space_def trim_right_def)
qed

lemma pipe_no_space: "\<forall>p \<in> set space_seqs. CHR ''|'' \<notin> set p"
  by code_simp

lemma hex_digits_solid: "\<forall>c \<in> set hex_digits. solid c" "map (\<lambda>c. lower_ascii [c]) hex_digits = map (\<lambda>c. [c]) hex_digits"
  by code_simp+

lemma set_hex_encode: "set (hex_encode bs) \<subseteq> set hex_digits"
proof -
  have l: "length hex_digits = 16" by (simp add: hex_digits_def)
  have "hex_digits ! n \<in> set hex_digits" if "n < 16" for n using that l by simp
  moreover have "unat b div 16 < 16" "unat b mod 16 < 16" for b :: byte using unsigned_less [of b, where ?'a = nat] by simp_all
  ultimately have "set (hex_of_byte b) \<subseteq> set hex_digits" for b by (simp add: hex_of_byte_def)
  then show ?thesis by (auto simp: hex_encode_def)
qed

lemma trim_hex [simp]: "trim_space (hex_encode bs) = hex_encode bs"
proof (cases "hex_encode bs = []")
  case False
  then show ?thesis
    using hd_in_set [of "hex_encode bs"] last_in_set [of "hex_encode bs"] set_hex_encode [of bs] hex_digits_solid(1)
    by (intro trim_space_solid) blast+
qed simp

lemma lower_hex [simp]: "lower_ascii (hex_encode bs) = hex_encode bs"
proof -
  have "\<forall>c \<in> set hex_digits. lower_ascii [c] = [c]" using hex_digits_solid(2) unfolding map_eq_conv by simp
  then have "c \<in> set (hex_encode bs) \<Longrightarrow> lower_ascii [c] = [c]" for c using set_hex_encode [of bs] by blast
  then show ?thesis unfolding lower_ascii_def by (intro map_idI) auto
qed

lemma hex_encode_inj: "hex_encode a = hex_encode b \<longleftrightarrow> a = b"
  by (metis hex_decode_encode sum.inject(2))

end
