(* ===== verification/FileGoals.thy ===== *)
theory FileGoals
  imports FileRelay SftpGoals
begin

text \<open>
  File chunks on their way: what every stage keeps of them (a typing of packets), the one stage that makes the
  senders reject them, and the whole way from a file on one server to the same file on another.
\<close>

section \<open>The typing of file chunks\<close>

definition chunk_typed :: "packet \<Rightarrow> bool" where
  "chunk_typed p \<longleftrightarrow> Kind p = PayloadKindFileChunk \<and> Payload p \<noteq> [] \<and> 0 \<le> Offset (Meta p) \<and>
     Offset (Meta p) + int (length (Payload p)) \<le> TotalSize (Meta p) \<and> trim_space (TransferID (Meta p)) \<noteq> []"

definition same_chunk :: "packet \<Rightarrow> packet \<Rightarrow> bool" where
  "same_chunk p q \<longleftrightarrow> Kind q = Kind p \<and> length (Payload q) = length (Payload p) \<and> Offset (Meta q) = Offset (Meta p) \<and>
     TotalSize (Meta q) = TotalSize (Meta p) \<and> EOF (Meta q) = EOF (Meta p) \<and> TransferID (Meta q) = TransferID (Meta p) \<and>
     Checksum (Meta q) = Checksum (Meta p)"

lemma same_chunk_refl: "same_chunk p p"
  by (simp add: same_chunk_def)

lemma same_chunk_trans: "same_chunk p q \<Longrightarrow> same_chunk q t \<Longrightarrow> same_chunk p t"
  by (simp add: same_chunk_def)

lemma chunk_typed_preserved:
  assumes "chunk_typed p" "same_chunk p q"
  shows "chunk_typed q"
proof -
  have "length (Payload q) = length (Payload p)" using assms(2) by (simp add: same_chunk_def)
  then have "Payload q \<noteq> []" using assms(1) by (auto simp: chunk_typed_def)
  then show ?thesis using assms unfolding chunk_typed_def same_chunk_def by simp
qed

definition keeps_chunks :: "stage_fun \<Rightarrow> bool" where
  "keeps_chunks st \<longleftrightarrow> (\<forall>p q. q \<in> set (st [p]) \<longrightarrow> same_chunk p q)"

lemma keeps_chunks_mapStage: "(\<And>p. fst (one p) \<Longrightarrow> same_chunk p (snd (one p))) \<Longrightarrow> keeps_chunks (mapStage one)"
  by (simp add: keeps_chunks_def mapStage_eq)

lemma keeps_chunks_drop: "keeps_chunks drop_all"
  by (simp add: keeps_chunks_def)

lemma path_stage_keeps:
  assumes "path_stage st"
  shows "keeps_chunks st"
proof -
  obtain g where g: "\<And>p. st [p] = [set_meta (retarget g) p]" using assms by (auto simp: path_stage_def)
  have "same_chunk p (set_meta (retarget g) p)" for p by (simp add: same_chunk_def retarget_def split: prod.split)
  then show ?thesis by (simp add: keeps_chunks_def g)
qed

lemma offset_stages_keep:
  "keeps_chunks (MatchOffsetBytes off want)"
  "keeps_chunks (RouteSenderByOffsetBytes off n routes dflt)"
  "keeps_chunks (SetKafkaRecordKeyFromOffsetBytes off n enc)"
  unfolding MatchOffsetBytes_def RouteSenderByOffsetBytes_def SetKafkaRecordKeyFromOffsetBytes_def Let_def
  by (auto intro!: keeps_chunks_mapStage keeps_chunks_drop simp: same_chunk_def split: option.splits if_splits)

text \<open>The offset of a stage is an \<open>int\<close> of the program, its bytes a slice.\<close>

definition go_stage :: "stage_config \<Rightarrow> bool" where
  "go_stage sc \<longleftrightarrow> in64 (st_Offset sc) \<and> go_len (st_Hex sc)"

lemma replace_stage_keeps:
  assumes "in64 off" "go_len wth"
  shows "keeps_chunks (ReplaceOffsetBytes off wth)"
proof (cases "off < 0 \<or> wrap64 (off + int (length wth)) < off")
  case True
  then show ?thesis by (auto simp: ReplaceOffsetBytes_def Let_def intro: keeps_chunks_drop)
next
  case False
  then have w: "wrap64 (off + int (length wth)) = off + int (length wth)"
    using wrap64_add_nonneg [of off "int (length wth)"] assms by (auto simp: go_len_def in64_def split: if_splits)
  have s: "off + int (length wth) \<le> int (length bs) \<Longrightarrow> length (overwrite bs off wth) = length bs" for bs
    using False by (intro length_overwrite) (simp add: window_def)
  show ?thesis using False s w
    by (auto simp: ReplaceOffsetBytes_def Let_def same_chunk_def intro!: keeps_chunks_mapStage)
qed

lemma compiled_keeps_chunks:
  assumes "compileStage rx sc = Inr st" "go_stage sc"
  shows "keeps_chunks st"
proof -
  have "go_len b" if "hex_decode (st_Hex sc) = Inr b" for b
    using assms(2) length_hex_decode [OF that] by (simp add: go_stage_def go_len_def in64_def)
  then show ?thesis using assms unfolding compileStage_def Let_def go_stage_def
    by (auto split: if_splits sum.splits prod.splits
      intro: offset_stages_keep replace_stage_keeps path_stage_keeps set_path_stage strip_path_stage add_path_stage
        regex_path_stage name_path_stages)
qed

lemma process_keeps_chunks:
  assumes "compile_stages rx name scs = Inr sts" "q \<in> set (process_stages sts [p])" "\<forall>sc \<in> set scs. go_stage sc"
  shows "same_chunk p q"
proof -
  have "\<forall>st \<in> set sts. keeps_chunks st \<and> stage st"
    using assms(1,3) by (induction scs arbitrary: sts) (auto split: sum.splits dest: compiled_keeps_chunks compileStage_stage)
  then show ?thesis using assms(2)
  proof (induction sts arbitrary: p)
    case Nil
    then show ?case by (simp add: same_chunk_refl)
  next
    case (Cons st sts)
    then have st: "stage st" "keeps_chunks st" by simp_all
    from stage.st_single [OF st(1), of p] show ?case
    proof
      assume "\<exists>t. st [p] = [t] \<and> same_object p t"
      then obtain t where t: "st [p] = [t]" by blast
      then have "same_chunk p t" using st(2) by (simp add: keeps_chunks_def)
      moreover have "same_chunk t q" using Cons t by (simp add: Let_def)
      ultimately show ?thesis by (rule same_chunk_trans)
    qed (use Cons.prems in simp)
  qed
qed

lemma transfer_id_nonblank: "CHR ''|'' \<in> set u \<Longrightarrow> trim_space u \<noteq> []"
  using trim_space_keeps [of "CHR ''|''" u] pipe_no_space by fastforce

lemma streamed_chunks:
  assumes "file_reader src f rest" "in64 (int (length F))" "\<And>s1. src_open src f s = (None, s1) \<Longrightarrow> rest s1 = F"
    and "streamFile (length F + 1) src sha r f (int (length F)) s w [] = Some (err, s', w', ps)" "p \<in> set ps"
  shows "chunk_typed p \<and> chunk_of F p \<and> Checksum (Meta p) = hex_encode (sha (Payload p))"
proof -
  let ?m = "sftp_file_meta r f (int (length F))"
  obtain g where g: "F = bytes_of ps @ g" "chunks_from sha ?m 0 ps"
    using streamFile_effect [of src f rest F s sha r w "[]", OF assms(1-3)] assms(4) by auto
  have t: "TotalSize ?m = int (length F)" by (simp add: sftp_file_meta_def)
  note c = chunks_from_chunk [OF g(2) assms(5) t, of "[]" g]
  have c: "chunk_of F p \<and> (\<exists>o' eof. Meta p = ?m\<lparr>Offset := o', Checksum := hex_encode (sha (Payload p)), EOF := eof\<rparr>) \<and>
      Kind p = PayloadKindFileChunk \<and> Payload p \<noteq> []"
    by (rule c) (use g(1) in simp_all)
  then obtain o' eof where m: "Meta p = ?m\<lparr>Offset := o', Checksum := hex_encode (sha (Payload p)), EOF := eof\<rparr>" by blast
  have "trim_space (TransferID (Meta p)) \<noteq> []"
    unfolding m by (rule transfer_id_nonblank) (simp add: sftp_file_meta_def)
  moreover have "Checksum (Meta p) = hex_encode (sha (Payload p))" unfolding m by simp
  ultimately show ?thesis using c by (auto simp: chunk_typed_def chunk_of_def)
qed

text \<open>C35: file chunks keep their type. Every packet that the SFTP receiver makes of a file, and every packet
  that any compiled pipeline makes of such a packet, is a file chunk with a transfer ID, not empty and inside
  the file; the stages keep its offset, length, EOF mark, total size, transfer ID and checksum. The guard of
  the SFTP sender therefore never rejects it, and the guard of the OSS sender does not either while the payload is
  the one that was read.\<close>

theorem file_chunks_stay_typed:
  assumes "file_reader src f rest" "in64 (int (length F))" "\<And>s1. src_open src f s = (None, s1) \<Longrightarrow> rest s1 = F"
    and "streamFile (length F + 1) src sha r f (int (length F)) s w [] = Some (err, s', w', ps)" "p \<in> set ps"
    and "compile_stages rx name scs = Inr sts" "q \<in> set (Process \<lparr>pl_Name = name, pl_Stages = sts\<rparr> p)"
    and "\<forall>sc \<in> set scs. go_stage sc"
  shows "chunk_typed q \<and> same_chunk p q \<and> sftp_guard None q = None \<and> (Payload q = Payload p \<longrightarrow> oss_send_guard sha q = None)"
proof -
  note c = streamed_chunks [OF assms(1-5)]
  have k: "same_chunk p q" using process_keeps_chunks [OF assms(6) _ assms(8)] assms(7) by (simp add: Process_def)
  have t: "chunk_typed q" using chunk_typed_preserved k c by blast
  then have "sftp_guard None q = None" by (simp add: sftp_guard_def chunk_typed_def)
  moreover have "Payload q = Payload p \<longrightarrow> oss_send_guard sha q = None"
    using t k c by (simp add: oss_send_guard_def chunk_typed_def same_chunk_def Let_def)
  ultimately show ?thesis using t k by blast
qed

definition sample_sha :: "bytes \<Rightarrow> bytes" where
  "sample_sha bs = [sum_list bs]"

definition new_pool :: pool where
  "new_pool = \<lparr>next_lease = 0, next_addr = 0, returned = []\<rparr>"

definition add_prefix_stage :: stage_config where
  "add_prefix_stage = sample_stage\<lparr>st_Type := ''rewrite_target_path_add_prefix'', st_Prefix := ''in''\<rparr>"

definition sample_stages :: "stage_fun list" where
  "sample_stages = [RewriteTargetPathAddPrefix ''in'']"

lemma sample_compiled: "compile_stages (\<lambda>_. Inl mem_err) ''p'' [add_prefix_stage] = Inr sample_stages"
  by (simp add: compileStage_def add_prefix_stage_def sample_stage_def sample_stages_def)

definition sample_meta :: meta where
  "sample_meta = sftp_file_meta sample_receiver ''/in/a'' 5"

definition sample_chunks :: "packet list" where
  "sample_chunks = [chunk_packet sample_sha sample_meta 0 [10, 11] False 0 0, chunk_packet sample_sha sample_meta 2 [12, 13] False 1 1,
     chunk_packet sample_sha sample_meta 4 [14] True 2 2]"

lemma sample_read_ok:
  "streamFile (length sample_file + 1) mem_source sample_sha sample_receiver ''/in/a'' (int (length sample_file)) sample_file new_pool [] =
     Some (None, [], \<lparr>next_lease = 3, next_addr = 3, returned = []\<rparr>, sample_chunks)"
proof -
  have c: "chunk_size (fx_cfg sample_receiver) = 65536"
    by (simp add: chunk_size_def defaultInt_def sample_receiver_def zero_receiver_config_def)
  have l: "length sample_file = 5" by (simp add: sample_file_def)
  have t: "TotalSize sample_meta = 5" by (simp add: sample_meta_def sftp_file_meta_def)
  have w: "wrap64 2 = 2" "wrap64 4 = 4" "wrap64 5 = 5" by (simp_all add: wrap64_id in64_def)
  have fuel: "length sample_file + 1 = Suc (Suc (Suc (Suc (Suc (Suc 0)))))" by (simp add: l)
  show ?thesis unfolding streamFile_def c fuel unfolding l
    by (simp add: mem_source_def t w sample_meta_def [symmetric] new_pool_def CopyFrom_def fileChunkEOF_def Let_def
      sample_chunks_def sample_file_def numeral_2_eq_2)
qed

lemma sample_processed:
  "Process \<lparr>pl_Name = ''p'', pl_Stages = sample_stages\<rparr> p = [set_meta (\<lambda>m. m\<lparr>TargetFilePath := path_join ''in'' (trim_prefix (targetPathOrSource p) ''/'')\<rparr>) p]"
proof -
  have "cleanPathPrefix ''in'' = ''in''" by code_simp
  then show ?thesis by (simp add: Process_def sample_stages_def RewriteTargetPathAddPrefix_def mapStage_eq Let_def)
qed

theorem file_chunks_stay_typed_witness:
  "(let q = hd (Process \<lparr>pl_Name = ''p'', pl_Stages = sample_stages\<rparr> (hd sample_chunks))
    in chunk_typed q \<and> sftp_guard None q = None)"
proof -
  have c: "hd sample_chunks \<in> set sample_chunks" by (simp add: sample_chunks_def)
  have q: "hd (Process \<lparr>pl_Name = ''p'', pl_Stages = sample_stages\<rparr> (hd sample_chunks)) \<in>
      set (Process \<lparr>pl_Name = ''p'', pl_Stages = sample_stages\<rparr> (hd sample_chunks))" by (simp add: sample_processed)
  have g: "\<forall>sc \<in> set [add_prefix_stage]. go_stage sc"
    by (simp add: go_stage_def add_prefix_stage_def sample_stage_def go_len_def in64_def)
  have F: "in64 (int (length sample_file))" by (simp add: in64_def sample_file_def)
  note t = file_chunks_stay_typed [OF mem_source_reads F _ sample_read_ok c sample_compiled q g]
  have "chunk_typed (hd (Process \<lparr>pl_Name = ''p'', pl_Stages = sample_stages\<rparr> (hd sample_chunks))) \<and>
      sftp_guard None (hd (Process \<lparr>pl_Name = ''p'', pl_Stages = sample_stages\<rparr> (hd sample_chunks))) = None"
    using t by (simp add: mem_source_def)
  then show ?thesis by (simp add: Let_def)
qed

text \<open>A stage that changes the bytes of a file chunk makes both file senders reject it. The receiver puts the
  digest of the payload into the metadata; \<open>replace_offset_bytes\<close> writes into the payload and leaves the digest,
  so that, unless the two payloads have the same SHA-256, each \<open>Send\<close> returns an error, in any state.\<close>

theorem replaced_chunk_is_rejected:
  assumes "ReplaceOffsetBytes off wth [p] = [q]" "Checksum (Meta p) = hex_encode (sha (Payload p))"
    and "sha (Payload p) \<noteq> []" "sha (Payload q) \<noteq> sha (Payload p)"
  shows "fst (sftp_Send cl sha ctx q s r) \<noteq> None \<and> oss_send_guard sha q \<noteq> None"
proof -
  have c: "Checksum (Meta q) = hex_encode (sha (Payload p))"
    using assms(1,2) by (auto simp: ReplaceOffsetBytes_def Let_def mapStage_eq split: if_splits)
  have ne: "hex_encode (sha (Payload p)) \<noteq> []" using assms(3) hex_encode_inj [of "sha (Payload p)" "[]"] by (simp add: hex_encode_def)
  have "hex_encode (sha (Payload q)) \<noteq> hex_encode (sha (Payload p))" using assms(4) by (simp add: hex_encode_inj)
  then have bad: "fst (sendLocked cl sha i u q s1 r1) \<noteq> None" for i u s1 r1
    using c ne by (auto simp: sendLocked_def Let_def split: prod.splits option.splits)
  have "fst (sftp_Send cl sha ctx q s r) \<noteq> None"
    using bad by (auto simp: sftp_Send_def Let_def split: prod.splits option.splits if_splits)
  moreover have "oss_send_guard sha q \<noteq> None"
    using c ne assms(4) by (simp add: oss_send_guard_def Let_def hex_encode_inj)
  ultimately show ?thesis by blast
qed

definition sample_replaced :: packet where
  "sample_replaced = (oss_chunk sample_file 0 3 False)\<lparr>Meta := (Meta (oss_chunk sample_file 0 3 False))
     \<lparr>Checksum := hex_encode (sample_sha [10, 11, 12])\<rparr>\<rparr>"

theorem replaced_chunk_is_rejected_witness:
  "\<exists>q. ReplaceOffsetBytes 1 [0] [sample_replaced] = [q] \<and> Payload q = [10, 0, 12] \<and> oss_send_guard sample_sha q \<noteq> None \<and>
     fst (sftp_Send mem_client sample_sha None q sample_sender []) \<noteq> None"
proof -
  let ?q = "sample_replaced\<lparr>Payload := [10, 0, 12]\<rparr>"
  have r: "ReplaceOffsetBytes 1 [0] [sample_replaced] = [?q]" by code_simp
  have p: "Checksum (Meta sample_replaced) = hex_encode (sample_sha (Payload sample_replaced))"
    "sample_sha (Payload sample_replaced) \<noteq> []" "sample_sha (Payload ?q) \<noteq> sample_sha (Payload sample_replaced)" by code_simp+
  show ?thesis using replaced_chunk_is_rejected [OF r p, of mem_client None sample_sender "[]"] r by (intro exI [of _ ?q]) simp
qed

section \<open>From a file to a file\<close>

lemma retarget_chunk:
  "retarget g (m\<lparr>Offset := a, Checksum := b, EOF := c\<rparr>) = (retarget g m)\<lparr>Offset := a, Checksum := b, EOF := c\<rparr>"
  by (simp add: retarget_def split: prod.split)

lemma retarget_keeps [simp]:
  "TransferID (retarget g m) = TransferID m" "Offset (retarget g m) = Offset m" "Checksum (retarget g m) = Checksum m"
  "TotalSize (retarget g m) = TotalSize m" "EOF (retarget g m) = EOF m" "FilePath (retarget g m) = FilePath m"
  "FileName (retarget g m) = FileName m"
  by (simp_all add: retarget_def split: prod.split)

lemma sftpFinalPath_chunk:
  "Meta q = m\<lparr>Offset := a, Checksum := b, EOF := c\<rparr> \<Longrightarrow> Meta p = m\<lparr>Offset := a', Checksum := b', EOF := c'\<rparr> \<Longrightarrow>
    sftpFinalPath rd q u = sftpFinalPath rd p u"
  by (auto simp: sftpFinalPath_def Let_def split: sum.split)

lemma compile_stages_types:
  assumes "compile_stages rx name scs = Inr sts" "st_Type ` set scs \<subseteq> set path_stage_types"
  shows "\<forall>st \<in> set sts. path_stage st"
  using assms by (induction scs arbitrary: sts) (auto split: sum.splits dest: compiled_path_stage)

text \<open>The packets of a whole file after the pipeline.\<close>

lemma relayed_chunks:
  assumes "file_reader src f rest" "in64 (int (length F))" "\<And>s1. src_open src f s = (None, s1) \<Longrightarrow> rest s1 = F" "F \<noteq> []"
    and "streamFile (length F + 1) src sha r f (int (length F)) s w [] = Some (None, s', w', chunks)" "\<not> src_cancelled src s'"
    and "\<forall>st \<in> set sts. path_stage st" "ps = concat (map (Process \<lparr>pl_Name = name, pl_Stages = sts\<rparr>) chunks)"
  obtains m where "ps \<noteq> []"
    "\<And>p. p \<in> set ps \<Longrightarrow> chunk_of F p \<and> sftp_guard None p = None \<and> checksum_ok sha p \<and>
       (\<exists>a b c. Meta p = m\<lparr>Offset := a, Checksum := b, EOF := c\<rparr>)"
    "(\<Union>p \<in> set ps. interval p) = {0 ..< int (length F)}" "\<exists>p \<in> set ps. EOF (Meta p)"
proof -
  let ?m = "sftp_file_meta r f (int (length F))"
  have t: "TotalSize ?m = int (length F)" by (simp add: sftp_file_meta_def)
  obtain g where g: "F = bytes_of chunks" "chunks_from sha ?m 0 chunks"
    using streamFile_effect [of src f rest F s sha r w "[]", OF assms(1-3)] assms(5,6) by auto
  obtain k where k: "\<And>p. process_stages sts [p] = [set_meta (retarget k) p]" using process_path_stages [OF assms(7)] by blast
  have "Process \<lparr>pl_Name = name, pl_Stages = sts\<rparr> = (\<lambda>p. [set_meta (retarget k) p])" by (rule ext) (simp add: Process_def k)
  then have ps: "ps = map (set_meta (retarget k)) chunks" unfolding assms(8) by simp
  have ne: "chunks \<noteq> []" using g(1) assms(4) by auto
  have iv: "interval (set_meta (retarget k) p) = interval p" for p by (simp add: interval_def)
  show thesis
  proof (rule that [of "retarget k ?m"])
    show "ps \<noteq> []" using ne ps by simp
    show "(\<Union>p \<in> set ps. interval p) = {0 ..< int (length F)}" using chunks_from_cover [OF g(2)] g(1) by (simp add: ps iv)
    show "\<exists>p \<in> set ps. EOF (Meta p)" using chunks_from_EOF [OF g(2) ne] g(1) t by (simp add: ps)
    fix q assume "q \<in> set ps"
    then obtain p where p: "p \<in> set chunks" "q = set_meta (retarget k) p" using ps by auto
    note c = streamed_chunks [OF assms(1-3,5) p(1)]
    note m = chunks_from_chunk [OF g(2) p(1) t, of "[]" "[]"]
    then obtain a b where "Meta p = ?m\<lparr>Offset := a, Checksum := hex_encode (sha (Payload p)), EOF := b\<rparr>" using g(1) by auto
    then have "Meta q = (retarget k ?m)\<lparr>Offset := a, Checksum := hex_encode (sha (Payload p)), EOF := b\<rparr>"
      using p(2) by (simp add: retarget_chunk)
    moreover have "chunk_of F q" using c p(2) by (simp add: chunk_of_def)
    moreover have "sftp_guard None q = None" "checksum_ok sha q"
      using c p(2) by (simp_all add: sftp_guard_def chunk_typed_def checksum_ok_def)
    ultimately show "chunk_of F q \<and> sftp_guard None q = None \<and> checksum_ok sha q \<and>
       (\<exists>a b c. Meta q = (retarget k ?m)\<lparr>Offset := a, Checksum := b, EOF := c\<rparr>)" by blast
  qed
qed

text \<open>C11: a file read from one SFTP server and sent to another is the same file. The receiver reads it with reads
  of any lengths, its packets pass a compiled pipeline of stages that rewrite the target path or name (any
  number of them, in any order), and a new SFTP sender sends them with a client that does not fail. If no
  temporary file that is longer than the source was left behind on the target (it is not truncated, see
  \<open>old_temporary_file_survives\<close> in SftpGoals), every \<open>Send\<close> succeeds, and under the path that the sender takes
  from the first packet is a file with exactly the bytes of the source. The source is not empty, is as long as
  it was listed, and a read of it gives at least a byte, the end or an error.\<close>

theorem sftp_relay_copies_file:
  assumes "file_reader src f rest" "in64 (int (length F))" "\<And>s1. src_open src f s = (None, s1) \<Longrightarrow> rest s1 = F" "F \<noteq> []"
    and "streamFile (length F + 1) src sha r f (int (length F)) s w [] = Some (None, s', w', chunks)" "\<not> src_cancelled src s'"
    and "compile_stages rx name scs = Inr sts" "st_Type ` set scs \<subseteq> set path_stage_types"
    and "ps = concat (map (Process \<lparr>pl_Name = name, pl_Stages = sts\<rparr>) chunks)"
    and "sftp_laws cl files" "sftp_reliable cl files" "NewSFTPSender cl sc r0 = (Inr sn, r1)"
    and "sftpFinalPath (sn_remoteDir sn) (hd ps) (transfer_id (hd ps)) = Inr fp" "not_longer F (files r0 (fp @ sn_tempSuffix sn))"
    and "sftp_ops cl sha (map (SSend None) ps) sn r1 = (errs, sn', r')"
  shows "files r' fp = Some F \<and> (\<forall>e \<in> set errs. e = None)"
proof -
  obtain m where ps: "ps \<noteq> []"
    "\<And>p. p \<in> set ps \<Longrightarrow> chunk_of F p \<and> sftp_guard None p = None \<and> checksum_ok sha p \<and>
       (\<exists>a b c. Meta p = m\<lparr>Offset := a, Checksum := b, EOF := c\<rparr>)"
    "(\<Union>p \<in> set ps. interval p) = {0 ..< int (length F)}" "\<exists>p \<in> set ps. EOF (Meta p)"
    using relayed_chunks [OF assms(1-6) compile_stages_types [OF assms(7,8)] assms(9)] by blast
  let ?u = "transfer_id (hd ps)"
  have u: "transfer_id p = ?u" if "p \<in> set ps" for p
    using ps(2) [OF that] ps(2) [OF hd_in_set [OF ps(1)]] by (auto simp: transfer_id_def)
  have fin: "sftpFinalPath (sn_remoteDir sn) p ?u = Inr fp" if "p \<in> set ps" for p
    using ps(2) [OF that] ps(2) [OF hd_in_set [OF ps(1)]] assms(13) sftpFinalPath_chunk by metis
  have fits: "\<forall>p \<in> set ps. packet_fits (sn_remoteDir sn) (sn_tempSuffix sn) ?u F fp p \<and>
      (transfer_id p = ?u \<longrightarrow> sftp_guard None p = None \<and> checksum_ok sha p)"
    using u fin ps(2) by (simp add: packet_fits_def)
  have cover: "{0 ..< int (length F)} \<subseteq> (\<Union>p \<in> set ps. interval_of ?u p)" using ps(3) u by (simp add: interval_of_def)
  have eof: "\<exists>p \<in> set ps. transfer_id p = ?u \<and> EOF (Meta p)" using ps(4) u by blast
  have "files r' fp = Some F \<and> list_all2 (\<lambda>p e. transfer_id p = ?u \<longrightarrow> e = None) ps errs"
    by (rule transfer_arrives [OF assms(10-12,4,2,14) fits cover eof assms(15)])
  then have "files r' fp = Some F" "\<And>i. i < length errs \<Longrightarrow> errs ! i = None"
    using u nth_mem [of _ ps] by (auto simp: list_all2_conv_all_nth)
  then show ?thesis by (auto simp: in_set_conv_nth)
qed

lemma sample_relay_path:
  "sftpFinalPath (sn_remoteDir sample_sender)
     (hd (concat (map (Process \<lparr>pl_Name = ''p'', pl_Stages = sample_stages\<rparr>) sample_chunks)))
     (transfer_id (hd (concat (map (Process \<lparr>pl_Name = ''p'', pl_Stages = sample_stages\<rparr>) sample_chunks)))) = Inr ''/d/in/in/a''"
proof -
  have e: "trim_space [] = []" "trim_prefix ''/in/a'' ''/'' = ''in/a''" "path_join ''in'' ''in/a'' = ''in/in/a''"
    "trim_space ''in/in/a'' = ''in/in/a''" "safeRelativePath ''in/in/a'' = Inr ''in/in/a''" "path_join ''/d'' ''in/in/a'' = ''/d/in/in/a''"
    "first_nonempty (''in/in/a'' # xs) = ''in/in/a''" for xs
    by (code_simp | simp)+
  show ?thesis
    by (simp add: sample_processed sample_chunks_def chunk_packet_def sample_meta_def sftp_file_meta_def targetPathOrSource_def
      sftpFinalPath_def sample_places zero_meta_def e)
qed

theorem sftp_relay_copies_file_witness:
  "(let ps = concat (map (Process \<lparr>pl_Name = ''p'', pl_Stages = sample_stages\<rparr>) sample_chunks);
        (errs, sn', r') = sftp_ops mem_client sample_sha (map (SSend None) ps) sample_sender []
    in length ps = 3 \<and> mget r' ''/d/in/in/a'' = Some sample_file)"
proof -
  let ?ps = "concat (map (Process \<lparr>pl_Name = ''p'', pl_Stages = sample_stages\<rparr>) sample_chunks)"
  obtain errs sn' r' where run: "sftp_ops mem_client sample_sha (map (SSend None) ?ps) sample_sender [] = (errs, sn', r')"
    by (metis prod_cases3)
  have t: "st_Type ` set [add_prefix_stage] \<subseteq> set path_stage_types" by (simp add: add_prefix_stage_def path_stage_types_def)
  have F: "in64 (int (length sample_file))" "sample_file \<noteq> []" by (simp_all add: in64_def sample_file_def)
  have "mget r' ''/d/in/in/a'' = Some sample_file \<and> (\<forall>e \<in> set errs. e = None)"
    by (rule sftp_relay_copies_file [OF mem_source_reads F(1) _ F(2) sample_read_ok _ sample_compiled t refl mem_client_laws
        mem_client_reliable sample_new sample_relay_path sample_file_facts(3) run])
      (simp_all add: mem_source_def)
  moreover have "length ?ps = 3" by (simp add: sample_processed sample_chunks_def)
  ultimately show ?thesis unfolding run Let_def by simp
qed

end
