(* ===== verification/Buffers.thy ===== *)
theory Buffers
  imports KafkaProps
begin

text \<open>
  The payload buffers as memory. \<open>Packet\<close> models \<open>CopyFrom\<close> and \<open>Release\<close> by value; here the same code
  (\<open>src/src/packet/pool.go\<close>) works on arrays, so that two slices can share one. A packet is received into a pooled
  buffer, its task calls \<open>Send\<close>, and \<open>runPacket\<close> releases the buffer when \<open>Send\<close> has returned
  (\<open>src/src/task/task.go\<close>). The pool (\<open>bytebufferpool\<close>) is not under \<open>src/src\<close>: a step chooses whether \<open>Get\<close> returns a
  buffer that was put back or a new one of some capacity, and whether \<open>Put\<close> keeps the buffer.
\<close>

section \<open>Arrays and the pool\<close>

text \<open>An array is as long as its capacity; a slice is an array with a length.\<close>

record memory =
  mem_arrays :: "bytes list"
  mem_pool :: "nat list"

type_synonym slice_ref = "nat \<times> nat"

definition read :: "memory \<Rightarrow> slice_ref \<Rightarrow> bytes" where
  "read m sl = take (snd sl) (mem_arrays m ! fst sl)"

datatype pool_get = Reuse nat | Fresh nat

fun pool_take :: "pool_get \<Rightarrow> memory \<Rightarrow> (nat \<times> memory) option" where
  "pool_take (Reuse k) m =
     (if k < length (mem_pool m) then
        Some (mem_pool m ! k, m\<lparr>mem_pool := take k (mem_pool m) @ drop (Suc k) (mem_pool m)\<rparr>)
      else None)"
| "pool_take (Fresh c) m = Some (length (mem_arrays m), m\<lparr>mem_arrays := mem_arrays m @ [replicate c 0]\<rparr>)"

text \<open>\<open>append(a[:0], bs...)\<close>: in place when the array is large enough, otherwise into a new array.\<close>

definition append_into :: "nat \<Rightarrow> bytes \<Rightarrow> memory \<Rightarrow> slice_ref \<times> memory" where
  "append_into a bs m =
     (if length bs \<le> length (mem_arrays m ! a) then
        ((a, length bs), m\<lparr>mem_arrays := (mem_arrays m)[a := bs @ drop (length bs) (mem_arrays m ! a)]\<rparr>)
      else ((length (mem_arrays m), length bs), m\<lparr>mem_arrays := mem_arrays m @ [bs]\<rparr>))"

definition copy_from :: "pool_get \<Rightarrow> bytes \<Rightarrow> memory \<Rightarrow> (slice_ref \<times> memory) option" where
  "copy_from g bs m = (case pool_take g m of None \<Rightarrow> None | Some (a, m1) \<Rightarrow> Some (append_into a bs m1))"

definition put_back :: "bool \<Rightarrow> slice_ref \<Rightarrow> memory \<Rightarrow> memory" where
  "put_back keep sl m = (if keep then m\<lparr>mem_pool := mem_pool m @ [fst sl]\<rparr> else m)"

section \<open>The life of a packet\<close>

text \<open>A live packet with its payload slice and the number of its \<open>Send\<close>, once that has begun.\<close>

record life =
  lf_mem :: memory
  lf_live :: "(packet \<times> slice_ref \<times> nat option) list"
  lf_kafka :: "slice_ref kafka_run"
  lf_delivered :: "(nat \<times> bytes) list"
  lf_synced :: "(bytes \<times> bytes) list"

definition life_start :: "kafka_sender \<Rightarrow> life" where
  "life_start s = \<lparr>lf_mem = \<lparr>mem_arrays = [], mem_pool = []\<rparr>, lf_live = [], lf_kafka = kafka_start s, lf_delivered = [], lf_synced = []\<rparr>"

text \<open>
  \<open>Arrive\<close>: a receiver copies a payload and hands the packet over. \<open>Begin\<close>: its task calls \<open>Send\<close> of the asynchronous
  sender. \<open>Kafka\<close>: the sender works; the client reads a record's value, at the earliest, when it is handed over.
  \<open>SyncSend\<close>: the task calls a \<open>Send\<close> that reads the payload before it returns. \<open>Done\<close>: \<open>Send\<close> has returned and the
  task releases the packet.
\<close>

datatype life_label = Arrive pool_get packet | Begin nat | Kafka "slice_ref kafka_label" | SyncSend nat | Done nat bool

definition reads_of :: "slice_ref kafka_label \<Rightarrow> slice_ref kafka_run \<Rightarrow> memory \<Rightarrow> (nat \<times> bytes) list" where
  "reads_of l r m = (case l of WorkerTake i \<Rightarrow> map (\<lambda>(n, rec). (n, read m (kr_Value rec))) (take 1 (kn_queues r ! i)) | _ \<Rightarrow> [])"

fun life_step :: "kafka_sender \<Rightarrow> life_label \<Rightarrow> life \<Rightarrow> life option" where
  "life_step s (Arrive g p) f =
     (case copy_from g (Payload p) (lf_mem f) of
        None \<Rightarrow> None
      | Some (sl, m) \<Rightarrow> Some (f\<lparr>lf_mem := m, lf_live := lf_live f @ [(p, sl, None)]\<rparr>))"
| "life_step s (Begin k) f =
     (if k < length (lf_live f) then
        (case lf_live f ! k of
           (p, sl, None) \<Rightarrow>
             Some (f\<lparr>lf_live := (lf_live f)[k := (p, sl, Some (kn_sends (lf_kafka f)))],
               lf_kafka := send_begin s (kafka_record_of s sl p) (lf_kafka f)\<rparr>)
         | _ \<Rightarrow> None)
      else None)"
| "life_step s (Kafka l) f =
     (case l of
        SendBegin rec \<Rightarrow> None
      | _ \<Rightarrow> (case kafka_step s l (lf_kafka f) of
           None \<Rightarrow> None
         | Some r \<Rightarrow> Some (f\<lparr>lf_kafka := r, lf_delivered := lf_delivered f @ reads_of l (lf_kafka f) (lf_mem f)\<rparr>)))"
| "life_step s (SyncSend k) f =
     (if k < length (lf_live f) then
        Some (f\<lparr>lf_synced := lf_synced f @ [(Payload (fst (lf_live f ! k)), read (lf_mem f) (fst (snd (lf_live f ! k))))]\<rparr>)
      else None)"
| "life_step s (Done k keep) f =
     (if k < length (lf_live f) then
        (case lf_live f ! k of
           (p, sl, n) \<Rightarrow>
             if (case n of None \<Rightarrow> True | Some n' \<Rightarrow> n' \<in> set (map fst (kn_results (lf_kafka f)))) then
               Some (f\<lparr>lf_mem := put_back keep sl (lf_mem f), lf_live := take k (lf_live f) @ drop (Suc k) (lf_live f)\<rparr>)
             else None)
      else None)"

fun life_steps :: "kafka_sender \<Rightarrow> life_label list \<Rightarrow> life \<Rightarrow> life option" where
  "life_steps s [] f = Some f"
| "life_steps s (l # ls) f = (case life_step s l f of None \<Rightarrow> None | Some f' \<Rightarrow> life_steps s ls f')"

interpretation lives: runs "life_step s" "life_steps s" for s
  by unfold_locales simp_all

section \<open>Until it is released, a packet keeps its payload\<close>

text \<open>No two of the arrays in use or in the pool are the same.\<close>

definition mem_ok :: "nat list \<Rightarrow> memory \<Rightarrow> bool" where
  "mem_ok used m \<longleftrightarrow> distinct (used @ mem_pool m) \<and> set (used @ mem_pool m) \<subseteq> {..< length (mem_arrays m)}"

definition same_arrays :: "nat list \<Rightarrow> memory \<Rightarrow> memory \<Rightarrow> bool" where
  "same_arrays used m m' \<longleftrightarrow> (\<forall>a \<in> set used. mem_arrays m' ! a = mem_arrays m ! a)"

lemma drop_one_elems:
  assumes "k < length xs"
  shows "set xs = insert (xs ! k) (set (take k xs @ drop (Suc k) xs))"
    "distinct xs \<Longrightarrow> distinct (take k xs @ drop (Suc k) xs) \<and> xs ! k \<notin> set (take k xs @ drop (Suc k) xs)"
proof -
  have e: "xs = take k xs @ xs ! k # drop (Suc k) xs" by (rule id_take_nth_drop [OF assms])
  have "set xs = set (take k xs @ xs ! k # drop (Suc k) xs)" by (rule arg_cong [OF e])
  then show "set xs = insert (xs ! k) (set (take k xs @ drop (Suc k) xs))" by auto
  assume "distinct xs"
  then have "distinct (take k xs @ xs ! k # drop (Suc k) xs)" by (simp only: e [symmetric])
  then show "distinct (take k xs @ drop (Suc k) xs) \<and> xs ! k \<notin> set (take k xs @ drop (Suc k) xs)" by auto
qed

lemma pool_take_ok:
  assumes "mem_ok used m" "pool_take g m = Some (a, m1)"
  shows "mem_ok (used @ [a]) m1 \<and> same_arrays used m m1"
proof (cases g)
  case (Reuse k)
  then have k: "k < length (mem_pool m)" "a = mem_pool m ! k"
    "m1 = m\<lparr>mem_pool := take k (mem_pool m) @ drop (Suc k) (mem_pool m)\<rparr>"
    using assms(2) by (simp_all split: if_splits)
  have d: "distinct (take k (mem_pool m) @ drop (Suc k) (mem_pool m))" "a \<notin> set (take k (mem_pool m) @ drop (Suc k) (mem_pool m))"
    "set (mem_pool m) = insert a (set (take k (mem_pool m) @ drop (Suc k) (mem_pool m)))"
    using drop_one_elems [OF k(1)] assms(1) k(2) by (auto simp: mem_ok_def)
  show ?thesis using assms(1) d unfolding mem_ok_def same_arrays_def k(3) by auto
next
  case (Fresh c)
  then have m1: "a = length (mem_arrays m)" "m1 = m\<lparr>mem_arrays := mem_arrays m @ [replicate c 0]\<rparr>" using assms(2) by simp_all
  have "x < length (mem_arrays m)" if "x \<in> set used \<union> set (mem_pool m)" for x using assms(1) that by (auto simp: mem_ok_def)
  then show ?thesis using assms(1) by (auto simp: m1 mem_ok_def same_arrays_def nth_append less_SucI)
qed

lemma append_into_ok:
  assumes "mem_ok (used @ [a]) m" "append_into a bs m = (sl, m1)"
  shows "mem_ok (used @ [fst sl]) m1 \<and> same_arrays used m m1 \<and> read m1 sl = bs"
proof (cases "length bs \<le> length (mem_arrays m ! a)")
  case True
  then show ?thesis using assms by (auto simp: append_into_def mem_ok_def same_arrays_def read_def nth_list_update)
next
  case False
  then have m1: "sl = (length (mem_arrays m), length bs)" "m1 = m\<lparr>mem_arrays := mem_arrays m @ [bs]\<rparr>"
    using assms(2) by (simp_all add: append_into_def)
  have "x < length (mem_arrays m)" if "x \<in> set used \<union> set (mem_pool m)" for x using assms(1) that by (auto simp: mem_ok_def)
  then show ?thesis using assms(1) by (auto simp: m1 mem_ok_def same_arrays_def read_def nth_append less_SucI)
qed

lemma copy_from_ok:
  assumes "mem_ok used m" "copy_from g bs m = Some (sl, m')"
  shows "mem_ok (used @ [fst sl]) m' \<and> same_arrays used m m' \<and> read m' sl = bs"
proof -
  obtain a m1 where 1: "pool_take g m = Some (a, m1)" "append_into a bs m1 = (sl, m')"
    using assms(2) by (auto simp: copy_from_def split: option.splits)
  show ?thesis using pool_take_ok [OF assms(1) 1(1)] append_into_ok [OF _ 1(2), of used] by (auto simp: same_arrays_def)
qed

definition live_arrays :: "(packet \<times> slice_ref \<times> nat option) list \<Rightarrow> nat list" where
  "live_arrays = map (\<lambda>x. fst (fst (snd x)))"

definition life_inv :: "life \<Rightarrow> bool" where
  "life_inv f \<longleftrightarrow>
     mem_ok (live_arrays (lf_live f)) (lf_mem f) \<and>
     list_all (\<lambda>x. read (lf_mem f) (fst (snd x)) = Payload (fst x)) (lf_live f) \<and>
     list_all (\<lambda>x. snd x = fst x) (lf_synced f)"

lemma life_start_inv: "life_inv (life_start s)"
  by (simp add: life_inv_def life_start_def mem_ok_def live_arrays_def)

lemma read_same: "same_arrays used m m' \<Longrightarrow> fst sl \<in> set used \<Longrightarrow> read m' sl = read m sl"
  by (simp add: same_arrays_def read_def)

lemma arrive_inv:
  assumes "life_inv f" "copy_from g (Payload p) (lf_mem f) = Some (sl, m)"
  shows "life_inv (f\<lparr>lf_mem := m, lf_live := lf_live f @ [(p, sl, None)]\<rparr>)"
proof -
  have c: "mem_ok (live_arrays (lf_live f) @ [fst sl]) m" "same_arrays (live_arrays (lf_live f)) (lf_mem f) m" "read m sl = Payload p"
    using copy_from_ok [OF _ assms(2)] assms(1) unfolding life_inv_def by blast+
  have "read m (fst (snd x)) = Payload (fst x)" if "x \<in> set (lf_live f)" for x
  proof -
    have "fst (fst (snd x)) \<in> set (live_arrays (lf_live f))" using that by (auto simp: live_arrays_def)
    then have "read m (fst (snd x)) = read (lf_mem f) (fst (snd x))" by (rule read_same [OF c(2)])
    then show ?thesis using assms(1) that by (simp add: life_inv_def list_all_iff)
  qed
  then show ?thesis using c assms(1) by (simp add: life_inv_def live_arrays_def list_all_iff)
qed

lemma done_inv:
  assumes "life_inv f" "k < length (lf_live f)"
  shows "life_inv (f\<lparr>lf_mem := put_back keep (fst (snd (lf_live f ! k))) (lf_mem f), lf_live := take k (lf_live f) @ drop (Suc k) (lf_live f)\<rparr>)"
proof -
  let ?L = "live_arrays (lf_live f)" and ?R = "live_arrays (take k (lf_live f) @ drop (Suc k) (lf_live f))"
  have k: "k < length ?L" "?L ! k = fst (fst (snd (lf_live f ! k)))" using assms(2) by (simp_all add: live_arrays_def)
  have r: "?R = take k ?L @ drop (Suc k) ?L" by (simp add: live_arrays_def take_map drop_map)
  have d: "distinct ?R" "?L ! k \<notin> set ?R" "set ?L = insert (?L ! k) (set ?R)"
    using drop_one_elems [OF k(1)] assms(1) unfolding r life_inv_def mem_ok_def by auto
  have "mem_ok ?R (put_back keep (fst (snd (lf_live f ! k))) (lf_mem f))"
    using assms(1) d k(2) by (auto simp: life_inv_def mem_ok_def put_back_def)
  moreover have "read (put_back keep sl m) = read m" for sl m by (simp add: fun_eq_iff read_def put_back_def)
  ultimately show ?thesis using assms(1) list_all_drop_one [of _ "lf_live f" k] unfolding life_inv_def by simp
qed

lemma begin_inv:
  assumes "life_inv f" "k < length (lf_live f)" "lf_live f ! k = (p, sl, n)"
  shows "life_inv (f\<lparr>lf_live := (lf_live f)[k := (p, sl, n')], lf_kafka := r\<rparr>)"
proof -
  have "live_arrays ((lf_live f)[k := (p, sl, n')]) = (live_arrays (lf_live f))[k := live_arrays (lf_live f) ! k]"
    using assms(2,3) by (simp add: live_arrays_def map_update)
  then have "live_arrays ((lf_live f)[k := (p, sl, n')]) = live_arrays (lf_live f)" by simp
  moreover have "read (lf_mem f) sl = Payload p"
    using assms list_all_nth [of "\<lambda>x. read (lf_mem f) (fst (snd x)) = Payload (fst x)" "lf_live f" k] by (simp add: life_inv_def)
  ultimately show ?thesis using assms(1) by (simp add: life_inv_def list_all_update)
qed

lemma life_step_inv:
  assumes "life_inv f" "life_step s l f = Some f'"
  shows "life_inv f'"
proof (cases l)
  case (Arrive g p)
  then show ?thesis using assms(2) arrive_inv [OF assms(1)] by (auto split: option.splits)
next
  case (Begin k)
  then obtain p sl where b: "k < length (lf_live f)" "lf_live f ! k = (p, sl, None)" 
    "f' = f\<lparr>lf_live := (lf_live f)[k := (p, sl, Some (kn_sends (lf_kafka f)))], lf_kafka := send_begin s (kafka_record_of s sl p) (lf_kafka f)\<rparr>"
    using assms(2) by (auto split: if_splits prod.splits option.splits)
  show ?thesis unfolding b(3) by (rule begin_inv [OF assms(1) b(1,2)])
next
  case (Kafka kl)
  then obtain r ds where "f' = f\<lparr>lf_kafka := r, lf_delivered := ds\<rparr>" using assms(2) by (auto split: kafka_label.splits option.splits)
  then show ?thesis using assms(1) by (simp add: life_inv_def)
next
  case (SyncSend k)
  then show ?thesis using assms list_all_nth [of "\<lambda>x. read (lf_mem f) (fst (snd x)) = Payload (fst x)" "lf_live f" k]
    by (auto simp: life_inv_def split: if_splits)
next
  case (Done k keep)
  obtain p sl n where n: "lf_live f ! k = (p, sl, n)" by (metis surj_pair)
  have k: "k < length (lf_live f)" 
    "f' = f\<lparr>lf_mem := put_back keep sl (lf_mem f), lf_live := take k (lf_live f) @ drop (Suc k) (lf_live f)\<rparr>"
    using assms(2) Done n by (auto split: if_splits option.splits)
  show ?thesis using done_inv [OF assms(1) k(1), of keep] n k(2) by simp
qed


section \<open>A sender that keeps the slice\<close>

definition recycled :: "nat \<Rightarrow> nat \<Rightarrow> packet \<Rightarrow> packet \<Rightarrow> life_label list" where
  "recycled i c p q = [Arrive (Fresh c) p, Begin 0, Kafka (SendEnqueue 0), Done 0 True, Arrive (Reuse 0) q, Kafka (WorkerTake i)]"

lemma recycled_run:
  assumes "ks_shardMask s = int (ks_concurrency s) - 1" "0 < ks_concurrency s" "0 < ks_asyncQueueSize s"
    "i = nat (fst (nextShardIndex 0 (ks_shardMask s)))" "length (Payload p) \<le> c" "length (Payload q) = length (Payload p)"
  shows "\<exists>f. life_steps s (recycled i c p q) (life_start s) = Some f \<and> kn_results (lf_kafka f) = [(0, SendOk)] \<and>
    lf_delivered f = [(0, Payload q)]"
proof -
  obtain j nxt where j: "nextShardIndex 0 (ks_shardMask s) = (j, nxt)" by fastforce
  have r: "0 \<le> j" "j < int (ks_concurrency s)" using nextShardIndex_range [of "int (ks_concurrency s)" 0 j nxt] j assms(1,2) by simp_all
  then have i: "i < ks_concurrency s" "\<not> j < 0" "\<not> int (ks_concurrency s) \<le> j" "nat j = i" using assms(4) j by simp_all
  have b: "send_begin s rec (kafka_start s) = (kafka_start s)\<lparr>kn_sends := 1, kn_next := nxt, kn_pending := [(0, i, rec)]\<rparr>"
    for rec :: "slice_ref kafka_record"
    using i j by (simp add: send_begin_def kafka_start_def Let_def)
  have n: "kn_sends (kafka_start s) = 0" by (simp add: kafka_start_def)
  let ?a1 = "Payload p @ drop (length (Payload p)) (replicate c 0)" and ?a2 = "Payload q @ drop (length (Payload q)) (replicate c 0)"
  have 1: "copy_from (Fresh c) (Payload p) \<lparr>mem_arrays = [], mem_pool = []\<rparr> =
      Some ((0, length (Payload p)), \<lparr>mem_arrays = [?a1], mem_pool = []\<rparr>)"
    using assms(5) by (simp add: copy_from_def append_into_def)
  have 2: "copy_from (Reuse 0) (Payload q) \<lparr>mem_arrays = [?a1], mem_pool = [0]\<rparr> =
      Some ((0, length (Payload p)), \<lparr>mem_arrays = [?a2], mem_pool = []\<rparr>)"
    using assms(5,6) by (simp add: copy_from_def append_into_def)
  show ?thesis using i(1) assms(3,6) 1 2
    by (simp add: recycled_def life_start_def b n put_back_def send_enqueue_def take_pending_def finish_def)
      (simp add: kafka_start_def worker_take_def produceAsyncItem_def reads_of_def read_def kafka_record_of_def)
qed

section \<open>Properties\<close>

text \<open>C15: however receivers, tasks and the pool interleave, a packet that was not released yet reads the payload it was
  received with, whatever buffers the pool hands out again; so a \<open>Send\<close> that reads the payload before it returns (the
  synchronous Kafka sender, the framed TCP sender, UDP, files) sends the right bytes.\<close>

theorem payload_kept_until_release:
  assumes "life_steps s ls (life_start s) = Some f"
  shows "list_all (\<lambda>x. read (lf_mem f) (fst (snd x)) = Payload (fst x)) (lf_live f) \<and> list_all (\<lambda>x. snd x = fst x) (lf_synced f)"
proof -
  have "life_inv f" by (rule lives.invariant [where P = life_inv, OF life_step_inv assms life_start_inv])
  then show ?thesis by (simp add: life_inv_def)
qed

text \<open>C16: the asynchronous Kafka sender does not copy the payload into its record (it copies the key): \<open>Send\<close> puts a slice of
  the pooled buffer into the queue and returns nil, the task releases the buffer, the pool gives it to the next packet,
  and the worker then hands the client the payload of that other packet.\<close>

theorem kafka_async_sends_other_payload:
  assumes "ks_shardMask s = int (ks_concurrency s) - 1" "0 < ks_concurrency s" "0 < ks_asyncQueueSize s"
    "i = nat (fst (nextShardIndex 0 (ks_shardMask s)))" "length (Payload p) \<le> c" "length (Payload q) = length (Payload p)"
  shows "\<exists>f. life_steps s [Arrive (Fresh c) p, Begin 0, Kafka (SendEnqueue 0), Done 0 True, Arrive (Reuse 0) q, Kafka (WorkerTake i)]
      (life_start s) = Some f \<and>
    kn_results (lf_kafka f) = [(0, SendOk)] \<and> lf_delivered f = [(0, Payload q)]"
  using recycled_run [OF assms] unfolding recycled_def .

text \<open>A packet for the witnesses.\<close>

definition byte_packet :: "byte \<Rightarrow> packet" where
  "byte_packet b = \<lparr>Kind = PayloadKindStream, Meta = zero_meta, Payload = [b], ReleaseFn = None, paddr = 0\<rparr>"

theorem kafka_async_sends_other_payload_witness:
  "\<exists>f. life_steps kafka_one [Arrive (Fresh 8) (byte_packet 1), Begin 0, Kafka (SendEnqueue 0), Done 0 True,
      Arrive (Reuse 0) (byte_packet 2), Kafka (WorkerTake 0)] (life_start kafka_one) = Some f \<and>
    kn_results (lf_kafka f) = [(0, SendOk)] \<and> lf_delivered f = [(0, [2])]"
  using kafka_async_sends_other_payload [of kafka_one 0 "byte_packet 1" 8 "byte_packet 2"]
  by (simp add: kafka_one_def nextShardIndex_def byte_packet_def)

theorem payload_kept_until_release_witness:
  "\<exists>f. life_steps kafka_one (recycled 0 8 (byte_packet 1) (byte_packet 2)) (life_start kafka_one) = Some f \<and>
     list_all (\<lambda>x. read (lf_mem f) (fst (snd x)) = Payload (fst x)) (lf_live f) \<and> lf_live f \<noteq> []"
proof -
  have n: "life_steps kafka_one (recycled 0 8 (byte_packet 1) (byte_packet 2)) (life_start kafka_one) \<noteq> None"
    "lf_live (the (life_steps kafka_one (recycled 0 8 (byte_packet 1) (byte_packet 2)) (life_start kafka_one))) \<noteq> []"
    by code_simp+
  then show ?thesis using payload_kept_until_release by fastforce
qed

end
