(* ===== verification/Schedule.thy ===== *)
theory Schedule
  imports Runs GoStrings
begin

text \<open>
  The scheduler (\<open>src/src/schedule\<close>): a manager with groups of jobs. A job runs a function on every tick, a group runs its
  jobs always (\<open>local\<close>) or while an elector says that this instance leads (\<open>leader_only\<close>), the manager starts and stops
  them all. The calls of the manager are functions on its state, made one after the other as \<open>bootstrap\<close> does; what
  its goroutines do in between is a step for each atomic action.
\<close>

section \<open>Jobs\<close>

datatype mode = ModeLocal | ModeLeaderOnly | ModeOther string

text \<open>The errors of the package, one for each message (which are in Chinese).\<close>

datatype schedule_error =
    JobNameEmpty | JobIntervalNotPositive string | JobFuncNil string
  | GroupNameEmpty | GroupModeUnsupported string mode | GroupJobNil string | GroupStarted string | GroupCtxNil string
  | RegistrarNil | ManagerStarted | ManagerStartedNoRegistrar | ManagerStartedNoGroup | ManagerCtxNil
  | RegistrarFailed schedule_error | GroupStartFailed schedule_error | OtherError string

type_synonym 'a sched_result = "schedule_error + 'a"

record interval_job =
  ij_name :: string
  ij_interval :: int
  ij_immediateStart :: bool
  ij_allowOverlap :: bool

datatype job_option = WithImmediateStart | WithAllowOverlap

fun apply_job_option :: "job_option \<Rightarrow> interval_job \<Rightarrow> interval_job" where
  "apply_job_option WithImmediateStart j = j\<lparr>ij_immediateStart := True\<rparr>"
| "apply_job_option WithAllowOverlap j = j\<lparr>ij_allowOverlap := True\<rparr>"

text \<open>\<open>has_run\<close>: the function is not nil. Options may be nil.\<close>

definition NewIntervalJob :: "string \<Rightarrow> int \<Rightarrow> bool \<Rightarrow> job_option option list \<Rightarrow> interval_job sched_result" where
  "NewIntervalJob name interval has_run opts =
     (if name = [] then Inl JobNameEmpty
      else if interval \<le> 0 then Inl (JobIntervalNotPositive name)
      else if \<not> has_run then Inl (JobFuncNil name)
      else Inr (fold (\<lambda>op j. case op of None \<Rightarrow> j | Some op' \<Rightarrow> apply_job_option op' j) opts
        \<lparr>ij_name = name, ij_interval = interval, ij_immediateStart = False, ij_allowOverlap = False\<rparr>))"

text \<open>
  A job at work: the goroutine of \<open>Start\<close> and the runs it began. \<open>running\<close> is the flag that skips a tick; it belongs to the
  job, so it stays when the job is started again. A run executes the function, then clears the flag, then tells the
  wait group: between the last two it is leaving. \<open>skipped\<close> and \<open>begun\<close> count what happened.
\<close>

datatype job_phase = JNew | JLoop | JDrain | JDone

record job_run =
  jr_job :: interval_job
  jr_phase :: job_phase
  jr_running :: bool
  jr_executing :: nat
  jr_leaving :: nat
  jr_begun :: nat
  jr_skipped :: nat

definition new_job_run :: "interval_job \<Rightarrow> job_run" where
  "new_job_run j = \<lparr>jr_job = j, jr_phase = JNew, jr_running = False, jr_executing = 0, jr_leaving = 0, jr_begun = 0, jr_skipped = 0\<rparr>"

definition startRun :: "job_run \<Rightarrow> job_run" where
  "startRun r =
     (if \<not> ij_allowOverlap (jr_job r) \<and> jr_running r then r\<lparr>jr_skipped := jr_skipped r + 1\<rparr>
      else r\<lparr>jr_executing := jr_executing r + 1, jr_begun := jr_begun r + 1,
        jr_running := (if ij_allowOverlap (jr_job r) then jr_running r else True)\<rparr>)"

text \<open>
  \<open>RunReturns\<close>: the function of a run returns, with or without an error, or panics and is recovered: the effect is the
  same. \<open>done\<close> says whether the context of the job has ended.
\<close>

datatype job_label = JobEnter | JobTick | RunReturns | RunLeaves | JobSeesDone | JobExits

fun job_step :: "bool \<Rightarrow> job_label \<Rightarrow> job_run \<Rightarrow> job_run option" where
  "job_step dn JobEnter r =
     (if jr_phase r = JNew then
        Some ((if ij_immediateStart (jr_job r) then startRun r else r)\<lparr>jr_phase := JLoop\<rparr>)
      else None)"
| "job_step dn JobTick r = (if jr_phase r = JLoop then Some (startRun r) else None)"
| "job_step dn RunReturns r =
     (if 0 < jr_executing r then
        Some (r\<lparr>jr_executing := jr_executing r - 1, jr_leaving := jr_leaving r + 1,
          jr_running := (if ij_allowOverlap (jr_job r) then jr_running r else False)\<rparr>)
      else None)"
| "job_step dn RunLeaves r = (if 0 < jr_leaving r then Some (r\<lparr>jr_leaving := jr_leaving r - 1\<rparr>) else None)"
| "job_step dn JobSeesDone r = (if jr_phase r = JLoop \<and> dn then Some (r\<lparr>jr_phase := JDrain\<rparr>) else None)"
| "job_step dn JobExits r =
     (if jr_phase r = JDrain \<and> jr_executing r = 0 \<and> jr_leaving r = 0 then Some (r\<lparr>jr_phase := JDone\<rparr>) else None)"

section \<open>Groups\<close>

record group =
  g_name :: string
  g_mode :: mode
  g_elector :: bool
  g_leaderCheckInterval :: int
  g_jobs :: "interval_job list"
  g_started :: bool

datatype group_option = WithElector bool | WithLeaderCheckInterval int

fun apply_group_option :: "group_option \<Rightarrow> group \<Rightarrow> group" where
  "apply_group_option (WithElector e) g = g\<lparr>g_elector := e\<rparr>"
| "apply_group_option (WithLeaderCheckInterval d) g = g\<lparr>g_leaderCheckInterval := d\<rparr>"

definition defaultLeaderCheckInterval :: int where
  "defaultLeaderCheckInterval = 3 * 1000000000"

definition newGroup :: "string \<Rightarrow> mode \<Rightarrow> group_option option list \<Rightarrow> group sched_result" where
  "newGroup name mode opts =
     (if name = [] then Inl GroupNameEmpty
      else let g = fold (\<lambda>op g. case op of None \<Rightarrow> g | Some op' \<Rightarrow> apply_group_option op' g) opts
          \<lparr>g_name = name, g_mode = mode, g_elector = False, g_leaderCheckInterval = defaultLeaderCheckInterval, g_jobs = [], g_started = False\<rparr> in
      if g_mode g \<noteq> ModeLocal \<and> g_mode g \<noteq> ModeLeaderOnly then Inl (GroupModeUnsupported name mode)
      else Inr (if g_leaderCheckInterval g \<le> 0 then g\<lparr>g_leaderCheckInterval := defaultLeaderCheckInterval\<rparr> else g))"

definition group_Add :: "interval_job option \<Rightarrow> group \<Rightarrow> schedule_error option \<times> group" where
  "group_Add job g =
     (case job of
        None \<Rightarrow> (Some (GroupJobNil (g_name g)), g)
      | Some j \<Rightarrow>
          if g_started g then (Some (GroupStarted (g_name g)), g)
          else (None, g\<lparr>g_jobs := g_jobs g @ [j]\<rparr>))"

definition Every :: "string \<Rightarrow> int \<Rightarrow> bool \<Rightarrow> job_option option list \<Rightarrow> group \<Rightarrow> schedule_error option \<times> group" where
  "Every name interval has_run opts g =
     (case NewIntervalJob name interval has_run opts of Inl err \<Rightarrow> (Some err, g) | Inr job \<Rightarrow> group_Add (Some job) g)"

text \<open>\<open>Start\<close> up to the goroutine; the mode is one of the two, as \<open>newGroup\<close> checked.\<close>

definition group_Start :: "bool \<Rightarrow> group \<Rightarrow> schedule_error option \<times> group" where
  "group_Start ctxNil g =
     (if ctxNil then (Some (GroupCtxNil (g_name g)), g)
      else if g_started g then (Some (GroupStarted (g_name g)), g)
      else if g_mode g \<noteq> ModeLocal \<and> g_mode g \<noteq> ModeLeaderOnly then
        (Some (GroupModeUnsupported (g_name g) (g_mode g)), g\<lparr>g_started := True\<rparr>)
      else (None, g\<lparr>g_started := True\<rparr>))"

text \<open>
  The goroutine of a group: new; idle (a leader group whose jobs do not run); running (the goroutine of \<open>runJobs\<close>
  exists); stopping (the jobs' context was cancelled and \<open>stopJobs\<close> waits for them); done. \<open>stopping\<close> remembers whether
  the group ends afterwards.
\<close>

datatype group_phase = GNew | GIdle | GRunning | GStopping bool | GDone

record group_run =
  gr_group :: group
  gr_phase :: group_phase
  gr_jobs :: "job_run list"

definition new_group_run :: "group \<Rightarrow> group_run" where
  "new_group_run g = \<lparr>gr_group = g, gr_phase = GNew, gr_jobs = map new_job_run (g_jobs g)\<rparr>"

text \<open>\<open>runJobs\<close> starts every job anew; the flag of the job and runs are those of the job.\<close>

definition startJobs :: "group_run \<Rightarrow> group_run" where
  "startJobs r = r\<lparr>gr_phase := GRunning, gr_jobs := map (\<lambda>j. j\<lparr>jr_phase := JNew\<rparr>) (gr_jobs r)\<rparr>"

definition jobs_done :: "group_run \<Rightarrow> bool" where
  "jobs_done r \<longleftrightarrow> list_all (\<lambda>j. jr_phase j = JDone) (gr_jobs r)"

text \<open>The context of the jobs ends with the group's or when \<open>stopJobs\<close> cancels it.\<close>

definition jobs_ctx_done :: "bool \<Rightarrow> group_run \<Rightarrow> bool" where
  "jobs_ctx_done ctxDone r \<longleftrightarrow> ctxDone \<or> (case gr_phase r of GStopping _ \<Rightarrow> True | _ \<Rightarrow> False)"

text \<open>
  \<open>GroupGo\<close>: the goroutine begins; a leader group with an elector asks it first. \<open>LeaderCheck\<close>: it asks again on a tick. Both
  carry the answer. \<open>GroupSeesDone\<close> and \<open>JobsEnded\<close> are the ends of the two waits.
\<close>

datatype group_label = GroupGo bool | LeaderCheck bool | GroupSeesDone | JobsEnded | JobDoes nat job_label

definition is_leader_group :: "group_run \<Rightarrow> bool" where
  "is_leader_group r \<longleftrightarrow> g_mode (gr_group r) = ModeLeaderOnly"

definition checkLeader :: "bool \<Rightarrow> group_run \<Rightarrow> group_run" where
  "checkLeader ok r =
     (if ok then (if gr_phase r = GRunning then r else startJobs r)
      else if gr_phase r = GRunning then r\<lparr>gr_phase := GStopping False\<rparr>
      else r\<lparr>gr_phase := GIdle\<rparr>)"

fun group_step :: "bool \<Rightarrow> group_label \<Rightarrow> group_run \<Rightarrow> group_run option" where
  "group_step ctxDone (GroupGo ok) r =
     (if gr_phase r \<noteq> GNew then None
      else if \<not> is_leader_group r then Some (startJobs r)
      else if g_elector (gr_group r) then Some (checkLeader ok r)
      else Some (r\<lparr>gr_phase := GIdle\<rparr>))"
| "group_step ctxDone (LeaderCheck ok) r =
     (if is_leader_group r \<and> g_elector (gr_group r) \<and> (gr_phase r = GIdle \<or> gr_phase r = GRunning) then Some (checkLeader ok r) else None)"
| "group_step ctxDone GroupSeesDone r =
     (if \<not> ctxDone \<or> \<not> is_leader_group r then None
      else if gr_phase r = GIdle then Some (r\<lparr>gr_phase := GDone\<rparr>)
      else if gr_phase r = GRunning then Some (r\<lparr>gr_phase := GStopping True\<rparr>)
      else None)"
| "group_step ctxDone JobsEnded r =
     (if \<not> jobs_done r then None
      else case gr_phase r of
        GStopping fin \<Rightarrow> Some (r\<lparr>gr_phase := (if fin then GDone else GIdle)\<rparr>)
      | GRunning \<Rightarrow> if is_leader_group r \<or> \<not> ctxDone then None else Some (r\<lparr>gr_phase := GDone\<rparr>)
      | _ \<Rightarrow> None)"
| "group_step ctxDone (JobDoes i jl) r =
     (if i < length (gr_jobs r) \<and> (gr_phase r = GRunning \<or> gr_phase r = GStopping True \<or> gr_phase r = GStopping False) then
        (case job_step (jobs_ctx_done ctxDone r) jl (gr_jobs r ! i) of
           None \<Rightarrow> None
         | Some j \<Rightarrow> Some (r\<lparr>gr_jobs := (gr_jobs r)[i := j]\<rparr>))
      else None)"

section \<open>The manager\<close>

text \<open>
  Registrars are functions on the manager; the manager holds their numbers and the argument \<open>reg\<close> says what each does.
  \<open>mg_cancelled\<close> is whether \<open>cancelRun\<close> was called, \<open>mg_ctxDone\<close> whether the context given to \<open>Start\<close> has ended,
  \<open>mg_runs\<close> the groups whose goroutines the wait group waits for.
\<close>

record manager =
  mg_registrars :: "nat list"
  mg_groups :: "group list"
  mg_started :: bool
  mg_stopped :: bool
  mg_cancelled :: bool
  mg_ctxDone :: bool
  mg_runs :: "group_run list"

type_synonym registrars = "nat \<Rightarrow> manager \<Rightarrow> schedule_error option \<times> manager"

definition NewManager :: manager where
  "NewManager = \<lparr>mg_registrars = [], mg_groups = [], mg_started = False, mg_stopped = False, mg_cancelled = False, mg_ctxDone = False,
     mg_runs = []\<rparr>"

definition manager_Register :: "nat option \<Rightarrow> manager \<Rightarrow> schedule_error option \<times> manager" where
  "manager_Register rg m =
     (case rg of
        None \<Rightarrow> (Some RegistrarNil, m)
      | Some k \<Rightarrow> if mg_started m then (Some ManagerStartedNoRegistrar, m) else (None, m\<lparr>mg_registrars := mg_registrars m @ [k]\<rparr>))"

definition manager_NewGroup :: "string \<Rightarrow> mode \<Rightarrow> group_option option list \<Rightarrow> manager \<Rightarrow> group sched_result \<times> manager" where
  "manager_NewGroup name mode opts m =
     (if mg_started m then (Inl ManagerStartedNoGroup, m)
      else case newGroup name mode opts of
        Inl err \<Rightarrow> (Inl err, m)
      | Inr g \<Rightarrow> (Inr g, m\<lparr>mg_groups := mg_groups m @ [g]\<rparr>))"

fun run_registrars :: "registrars \<Rightarrow> nat list \<Rightarrow> manager \<Rightarrow> schedule_error option \<times> manager" where
  "run_registrars reg [] m = (None, m)"
| "run_registrars reg (k # ks) m =
     (case reg k m of (Some err, m1) \<Rightarrow> (Some (RegistrarFailed err), m1) | (None, m1) \<Rightarrow> run_registrars reg ks m1)"

text \<open>A group that cannot be started cancels those that were; \<open>Start\<close> then waits for them and fails.\<close>

fun start_groups :: "nat list \<Rightarrow> manager \<Rightarrow> schedule_error option \<times> manager" where
  "start_groups [] m = (None, m)"
| "start_groups (i # is) m =
     (case group_Start False (mg_groups m ! i) of
        (Some err, g) \<Rightarrow> (Some (GroupStartFailed err), m\<lparr>mg_groups := (mg_groups m)[i := g], mg_cancelled := True\<rparr>)
      | (None, g) \<Rightarrow> start_groups is (m\<lparr>mg_groups := (mg_groups m)[i := g], mg_runs := mg_runs m @ [new_group_run g]\<rparr>))"

definition manager_Start :: "registrars \<Rightarrow> bool \<Rightarrow> manager \<Rightarrow> schedule_error option \<times> manager" where
  "manager_Start reg ctxNil m =
     (if ctxNil then (Some ManagerCtxNil, m)
      else if mg_started m then (Some ManagerStarted, m)
      else case run_registrars reg (mg_registrars m) m of
        (Some err, m1) \<Rightarrow> (Some err, m1)
      | (None, m1) \<Rightarrow>
          if mg_started m1 then (Some ManagerStarted, m1)
          else start_groups [0 ..< length (mg_groups m1)] (m1\<lparr>mg_started := True\<rparr>))"

text \<open>\<open>Stop\<close> returns at once or goes to \<open>waitStop\<close>, which returns nil as soon as all groups have ended.\<close>

datatype stop_outcome = StopReturns | StopWaits

definition manager_Stop :: "manager \<Rightarrow> stop_outcome \<times> manager" where
  "manager_Stop m =
     (if \<not> mg_started m then (StopReturns, m\<lparr>mg_stopped := True\<rparr>)
      else if mg_stopped m then (StopWaits, m)
      else (StopWaits, m\<lparr>mg_stopped := True, mg_cancelled := True\<rparr>))"

definition all_stopped :: "manager \<Rightarrow> bool" where
  "all_stopped m \<longleftrightarrow> list_all (\<lambda>r. gr_phase r = GDone) (mg_runs m)"

datatype manager_label = CtxEnds | GroupDoes nat group_label

fun manager_step :: "manager_label \<Rightarrow> manager \<Rightarrow> manager option" where
  "manager_step CtxEnds m = Some (m\<lparr>mg_ctxDone := True\<rparr>)"
| "manager_step (GroupDoes i l) m =
     (if i < length (mg_runs m) then
        (case group_step (mg_cancelled m \<or> mg_ctxDone m) l (mg_runs m ! i) of
           None \<Rightarrow> None
         | Some r \<Rightarrow> Some (m\<lparr>mg_runs := (mg_runs m)[i := r]\<rparr>))
      else None)"

fun manager_steps :: "manager_label list \<Rightarrow> manager \<Rightarrow> manager option" where
  "manager_steps [] m = Some m"
| "manager_steps (l # ls) m = (case manager_step l m of None \<Rightarrow> None | Some m' \<Rightarrow> manager_steps ls m')"

interpretation schedule: runs manager_step manager_steps
  by unfold_locales simp_all

end
