(* ===== verification/ScheduleProps.thy ===== *)
theory ScheduleProps
  imports Schedule
begin

text \<open>
  What the scheduler guarantees, for every interleaving of its goroutines: a job without overlap never runs twice at
  once, jobs of a leader group run only while it leads, and after \<open>Stop\<close> everything ends; and the order of calls in
  which it does not.
\<close>

section \<open>Jobs\<close>

definition job_idle :: "job_run \<Rightarrow> bool" where
  "job_idle j \<longleftrightarrow> jr_executing j = 0 \<and> jr_leaving j = 0"

definition job_ok :: "job_run \<Rightarrow> bool" where
  "job_ok j \<longleftrightarrow>
     (\<not> ij_allowOverlap (jr_job j) \<longrightarrow> jr_executing j \<le> 1 \<and> (jr_running j \<longleftrightarrow> jr_executing j = 1)) \<and>
     (jr_phase j = JNew \<or> jr_phase j = JDone \<longrightarrow> job_idle j)"

lemma job_ok_new: "job_ok (new_job_run j)"
  by (simp add: job_ok_def new_job_run_def job_idle_def)

lemma job_step_ok: "job_ok j \<Longrightarrow> job_step dn l j = Some j' \<Longrightarrow> job_ok j'"
  by (cases l) (auto simp: job_ok_def job_idle_def startRun_def split: if_splits)

fun job_rank :: "job_phase \<Rightarrow> nat" where
  "job_rank JNew = 6"
| "job_rank JLoop = 3"
| "job_rank JDrain = 2"
| "job_rank JDone = 1"

definition job_work :: "job_run \<Rightarrow> nat" where
  "job_work j = job_rank (jr_phase j) + 2 * jr_executing j + jr_leaving j"

lemma job_work_decreases:
  assumes "job_step dn l j = Some j'" "l \<noteq> JobTick"
  shows "job_work j' < job_work j"
  using assms by (cases l) (auto simp: job_work_def startRun_def split: if_splits)

lemma job_can_settle:
  assumes "jr_phase j \<noteq> JDone"
  shows "\<exists>l j'. l \<noteq> JobTick \<and> job_step True l j = Some j'"
proof (cases "jr_phase j")
  case JNew
  then have "job_step True JobEnter j \<noteq> None" by simp
  then show ?thesis by blast
next
  case JLoop
  then have "job_step True JobSeesDone j \<noteq> None" by simp
  then show ?thesis by blast
next
  case JDrain
  then have "job_step True RunReturns j \<noteq> None \<or> job_step True RunLeaves j \<noteq> None \<or> job_step True JobExits j \<noteq> None" by simp
  then show ?thesis by blast
qed (use assms in simp)

section \<open>Groups\<close>

definition group_ok :: "group_run \<Rightarrow> bool" where
  "group_ok r \<longleftrightarrow>
     list_all job_ok (gr_jobs r) \<and> (gr_phase r = GNew \<longrightarrow> list_all (\<lambda>j. jr_phase j = JNew) (gr_jobs r)) \<and>
     (gr_phase r = GIdle \<or> gr_phase r = GDone \<longrightarrow> list_all job_idle (gr_jobs r)) \<and>
     (gr_phase r = GIdle \<or> gr_phase r = GStopping True \<or> gr_phase r = GStopping False \<longrightarrow> is_leader_group r)"

lemma group_ok_new: "group_ok (new_group_run g)"
  by (simp add: group_ok_def new_group_run_def list_all_iff job_ok_new) (simp add: new_job_run_def)

lemma list_all_set_nth: "list_all P xs \<Longrightarrow> P x \<Longrightarrow> list_all P (xs[i := x])"
  by (auto simp: list_all_iff dest: set_update_subset_insert [THEN subsetD])

lemma jobs_done_idle: "list_all job_ok js \<Longrightarrow> list_all (\<lambda>j. jr_phase j = JDone) js \<Longrightarrow> list_all job_idle js"
  by (auto simp: list_all_iff job_ok_def)

lemma startJobs_ok: "list_all job_ok (gr_jobs r) \<Longrightarrow> list_all job_idle (gr_jobs r) \<Longrightarrow> group_ok (startJobs r)"
  by (auto simp: group_ok_def startJobs_def list_all_iff job_ok_def job_idle_def)

lemma group_ok_idle:
  assumes "group_ok r" "gr_phase r = GNew \<or> gr_phase r = GIdle"
  shows "list_all job_idle (gr_jobs r)"
  using assms by (auto simp: group_ok_def list_all_iff job_ok_def)

lemma checkLeader_ok:
  assumes "group_ok r" "is_leader_group r" "gr_phase r = GNew \<or> gr_phase r = GIdle \<or> gr_phase r = GRunning"
  shows "group_ok (checkLeader ok r)"
proof (cases "gr_phase r = GRunning")
  case True
  then show ?thesis using assms by (simp add: checkLeader_def group_ok_def is_leader_group_def)
next
  case False
  then have i: "list_all job_idle (gr_jobs r)" "list_all job_ok (gr_jobs r)"
    using assms(1,3) group_ok_idle [OF assms(1)] by (auto simp: group_ok_def)
  then show ?thesis using assms(2) False startJobs_ok [of r] by (simp add: checkLeader_def group_ok_def is_leader_group_def)
qed

lemma group_step_ok:
  assumes "group_ok r" "group_step d l r = Some r'"
  shows "group_ok r'"
proof (cases l)
  case (GroupGo ok)
  then have g: "gr_phase r = GNew" using assms(2) by (simp split: if_splits)
  have i: "list_all job_idle (gr_jobs r)" by (rule group_ok_idle [OF assms(1)]) (simp add: g)
  have k: "list_all job_ok (gr_jobs r)" using assms(1) by (simp add: group_ok_def)
  consider "r' = startJobs r" | "is_leader_group r" "r' = checkLeader ok r" | "is_leader_group r" "r' = r\<lparr>gr_phase := GIdle\<rparr>"
    using assms(2) GroupGo by (simp split: if_splits)
  then show ?thesis
  proof cases
    case 1
    then show ?thesis using startJobs_ok [OF k i] by simp
  next
    case 2
    then show ?thesis using checkLeader_ok [OF assms(1) 2(1)] g by simp
  next
    case 3
    then show ?thesis using i k by (simp add: group_ok_def is_leader_group_def)
  qed
next
  case (LeaderCheck ok)
  then show ?thesis using assms checkLeader_ok [OF assms(1), of ok] by (auto split: if_splits)
next
  case GroupSeesDone
  then show ?thesis using assms by (auto simp: group_ok_def is_leader_group_def split: if_splits)
next
  case JobsEnded
  then have "list_all job_idle (gr_jobs r)" using assms jobs_done_idle by (auto simp: group_ok_def jobs_done_def split: if_splits)
  then show ?thesis using assms JobsEnded by (cases "gr_phase r") (auto simp: group_ok_def is_leader_group_def split: if_splits bool.splits)
next
  case (JobDoes i jl)
  then obtain j where j: "i < length (gr_jobs r)" "job_step (jobs_ctx_done d r) jl (gr_jobs r ! i) = Some j"
    "r' = r\<lparr>gr_jobs := (gr_jobs r)[i := j]\<rparr>" "gr_phase r = GRunning \<or> gr_phase r = GStopping True \<or> gr_phase r = GStopping False"
    using assms(2) by (auto split: if_splits option.splits)
  have "job_ok (gr_jobs r ! i)" using assms(1) j(1) by (simp add: group_ok_def list_all_length)
  then have "job_ok j" using job_step_ok j(2) by blast
  then show ?thesis using assms(1) j(3,4) by (auto simp: group_ok_def is_leader_group_def list_all_set_nth)
qed

fun group_rank :: "group_phase \<Rightarrow> nat" where
  "group_rank GNew = 4"
| "group_rank GRunning = 3"
| "group_rank (GStopping fin) = (if fin then 1 else 2)"
| "group_rank GIdle = 1"
| "group_rank GDone = 0"

definition group_work :: "group_run \<Rightarrow> nat" where
  "group_work r = group_rank (gr_phase r) + sum_list (map job_work (gr_jobs r))"

text \<open>The steps other than a tick, of a job or of the leader check.\<close>

fun group_settles :: "group_label \<Rightarrow> bool" where
  "group_settles (LeaderCheck ok) = False"
| "group_settles (JobDoes i l) = (l \<noteq> JobTick)"
| "group_settles l = True"

lemma sum_list_update_less:
  assumes "i < length xs" "f x < f (xs ! i)"
  shows "sum_list (map f (xs[i := x])) < sum_list (map f xs :: nat list)"
  using assms
proof (induction xs arbitrary: i)
  case (Cons y xs)
  then show ?case by (cases i) auto
qed simp

lemma startJobs_work: "list_all (\<lambda>j. jr_phase j = JNew) (gr_jobs r) \<Longrightarrow> gr_phase r = GNew \<Longrightarrow> group_work (startJobs r) < group_work r"
proof -
  assume a: "list_all (\<lambda>j. jr_phase j = JNew) (gr_jobs r)" "gr_phase r = GNew"
  have "map (\<lambda>j. j\<lparr>jr_phase := JNew\<rparr>) js = js" if "list_all (\<lambda>j. jr_phase j = JNew) js" for js using that by (induction js) auto
  then have "gr_jobs (startJobs r) = gr_jobs r" "gr_phase (startJobs r) = GRunning" using a by (simp_all add: startJobs_def)
  then show ?thesis using a(2) by (simp add: group_work_def)
qed

lemma group_work_decreases:
  assumes "group_ok r" "group_step True l r = Some r'" "group_settles l"
  shows "group_work r' < group_work r"
proof (cases l)
  case (GroupGo ok)
  then have g: "gr_phase r = GNew" using assms(2) by (simp split: if_splits)
  then have "group_work (startJobs r) < group_work r" using startJobs_work assms(1) by (simp add: group_ok_def)
  then show ?thesis using assms(2) GroupGo g by (auto simp: checkLeader_def group_work_def split: if_splits)
next
  case (LeaderCheck ok)
  then show ?thesis using assms(3) by simp
next
  case GroupSeesDone
  then show ?thesis using assms(2) by (auto simp: group_work_def split: if_splits)
next
  case JobsEnded
  then show ?thesis using assms(2) by (cases "gr_phase r") (auto simp: group_work_def split: if_splits)
next
  case (JobDoes i jl)
  then obtain j where j: "i < length (gr_jobs r)" "job_step (jobs_ctx_done True r) jl (gr_jobs r ! i) = Some j"
    "r' = r\<lparr>gr_jobs := (gr_jobs r)[i := j]\<rparr>"
    using assms(2) by (auto split: if_splits option.splits)
  have "job_work j < job_work (gr_jobs r ! i)" using job_work_decreases [OF j(2)] assms(3) JobDoes by simp
  then show ?thesis using sum_list_update_less [OF j(1), of job_work j] j(3) by (simp add: group_work_def)
qed

lemma jobs_can_settle:
  assumes "\<not> jobs_done r" "gr_phase r = GRunning \<or> gr_phase r = GStopping True \<or> gr_phase r = GStopping False"
  shows "\<exists>l r'. group_settles l \<and> group_step True l r = Some r'"
proof -
  obtain i where i: "i < length (gr_jobs r)" "jr_phase (gr_jobs r ! i) \<noteq> JDone"
    using assms(1) by (auto simp: jobs_done_def list_all_length)
  obtain jl j where j: "jl \<noteq> JobTick" "job_step True jl (gr_jobs r ! i) = Some j" using job_can_settle [OF i(2)] by blast
  have "group_step True (JobDoes i jl) r = Some (r\<lparr>gr_jobs := (gr_jobs r)[i := j]\<rparr>)" using i(1) j(2) assms(2) by (simp add: jobs_ctx_done_def)
  moreover have "group_settles (JobDoes i jl)" using j(1) by simp
  ultimately show ?thesis by blast
qed

lemma group_can_settle:
  assumes "group_ok r" "gr_phase r \<noteq> GDone"
  shows "\<exists>l r'. group_settles l \<and> group_step True l r = Some r'"
proof (cases "gr_phase r")
  case GNew
  then have "group_step True (GroupGo False) r \<noteq> None" by simp
  then show ?thesis using group_settles.simps(3) by blast
next
  case GIdle
  then have "group_step True GroupSeesDone r \<noteq> None" using assms(1) by (simp add: group_ok_def)
  then show ?thesis using group_settles.simps(4) by blast
next
  case GRunning
  show ?thesis
  proof (cases "is_leader_group r")
    case True
    then have "group_step True GroupSeesDone r \<noteq> None" using GRunning by simp
    then show ?thesis using group_settles.simps(4) by blast
  next
    case False
    show ?thesis
    proof (cases "jobs_done r")
      case True
      then have "group_step True JobsEnded r \<noteq> None" using GRunning False by simp
      then show ?thesis using group_settles.simps(5) by blast
    qed (rule jobs_can_settle, simp_all add: GRunning)
  qed
next
  case (GStopping fin)
  show ?thesis
  proof (cases "jobs_done r")
    case True
    then have "group_step True JobsEnded r \<noteq> None" using GStopping by simp
    then show ?thesis using group_settles.simps(5) by blast
  next
    case False
    then show ?thesis by (rule jobs_can_settle) (cases fin; simp add: GStopping)
  qed
qed (use assms in simp)


section \<open>The manager\<close>

definition manager_ok :: "manager \<Rightarrow> bool" where
  "manager_ok m \<longleftrightarrow> list_all group_ok (mg_runs m)"

lemma manager_step_ok:
  assumes "manager_ok m" "manager_step l m = Some m'"
  shows "manager_ok m'"
proof (cases l)
  case (GroupDoes i gl)
  then obtain r where r: "i < length (mg_runs m)" "group_step (mg_cancelled m \<or> mg_ctxDone m) gl (mg_runs m ! i) = Some r"
    "m' = m\<lparr>mg_runs := (mg_runs m)[i := r]\<rparr>"
    using assms(2) by (auto split: if_splits option.splits)
  have "group_ok (mg_runs m ! i)" using assms(1) r(1) by (simp add: manager_ok_def list_all_length)
  then have "group_ok r" using group_step_ok r(2) by blast
  then show ?thesis using assms(1) r(3) by (simp add: manager_ok_def list_all_set_nth)
qed (use assms in \<open>auto simp: manager_ok_def\<close>)

lemma manager_steps_ok: "manager_steps ls m = Some m' \<Longrightarrow> manager_ok m \<Longrightarrow> manager_ok m'"
  using schedule.invariant [where P = manager_ok and ls = ls] manager_step_ok by blast

lemma start_groups_runs:
  "start_groups is m = (e, m') \<Longrightarrow> manager_ok m \<Longrightarrow> manager_ok m' \<and> mg_started m' = mg_started m \<and> mg_stopped m' = mg_stopped m"
proof (induction "is" m rule: start_groups.induct)
  case (2 i "is" m)
  obtain e1 g where g: "group_Start False (mg_groups m ! i) = (e1, g)" by fastforce
  show ?case
  proof (cases e1)
    case None
    have "manager_ok (m\<lparr>mg_groups := (mg_groups m)[i := g], mg_runs := mg_runs m @ [new_group_run g]\<rparr>)"
      using 2(3) by (simp add: manager_ok_def group_ok_new)
    then show ?thesis using 2(1) [OF g [symmetric] None] 2(2) g None by simp
  next
    case (Some err)
    then show ?thesis using 2(2,3) g by (auto simp: manager_ok_def)
  qed
qed (auto simp: manager_ok_def)

text \<open>What \<open>Start\<close> leaves behind when the registrars started no group themselves.\<close>

definition registrars_tame :: "registrars \<Rightarrow> manager \<Rightarrow> bool" where
  "registrars_tame reg m \<longleftrightarrow> mg_runs (snd (run_registrars reg (mg_registrars m) m)) = []"

lemma manager_Start_ok:
  assumes "manager_Start reg ctxNil m = (None, m0)" "registrars_tame reg m"
  shows "manager_ok m0 \<and> mg_started m0"
proof -
  obtain m1 where m1: "run_registrars reg (mg_registrars m) m = (None, m1)" "\<not> mg_started m1"
    "start_groups [0 ..< length (mg_groups m1)] (m1\<lparr>mg_started := True\<rparr>) = (None, m0)"
    using assms(1) by (auto simp: manager_Start_def split: if_splits prod.splits option.splits)
  have "manager_ok (m1\<lparr>mg_started := True\<rparr>)" using assms(2) m1(1) by (simp add: registrars_tame_def manager_ok_def)
  then show ?thesis using start_groups_runs [OF m1(3)] by simp
qed

section \<open>Leaders\<close>

text \<open>The elector of group \<open>i\<close> says yes.\<close>

fun elects :: "nat \<Rightarrow> manager_label \<Rightarrow> bool" where
  "elects i (GroupDoes j (GroupGo ok)) = (j = i \<and> ok)"
| "elects i (GroupDoes j (LeaderCheck ok)) = (j = i \<and> ok)"
| "elects i l = False"

definition unled :: "nat \<Rightarrow> manager \<Rightarrow> bool" where
  "unled i m \<longleftrightarrow>
     i < length (mg_runs m) \<and> is_leader_group (mg_runs m ! i) \<and> g_elector (gr_group (mg_runs m ! i)) \<and>
     (gr_phase (mg_runs m ! i) = GNew \<or> gr_phase (mg_runs m ! i) = GIdle \<or> gr_phase (mg_runs m ! i) = GDone) \<and>
     list_all (\<lambda>j. jr_begun j = 0) (gr_jobs (mg_runs m ! i))"

lemma unled_step:
  assumes "\<not> elects i l" "unled i m" "manager_step l m = Some m'"
  shows "unled i m'"
proof (cases l)
  case (GroupDoes j gl)
  then obtain r where r: "j < length (mg_runs m)" "group_step (mg_cancelled m \<or> mg_ctxDone m) gl (mg_runs m ! j) = Some r"
    "m' = m\<lparr>mg_runs := (mg_runs m)[j := r]\<rparr>"
    using assms(3) by (auto split: if_splits option.splits)
  show ?thesis
  proof (cases "j = i")
    case True
    then show ?thesis using assms(1,2) r GroupDoes
      by (cases gl) (auto simp: unled_def checkLeader_def is_leader_group_def split: if_splits option.splits)
  next
    case False
    then show ?thesis using assms(2) r by (simp add: unled_def)
  qed
qed (use assms in \<open>auto simp: unled_def\<close>)

section \<open>Stopping\<close>

fun settles :: "manager_label \<Rightarrow> bool" where
  "settles CtxEnds = False"
| "settles (GroupDoes i l) = group_settles l"

definition schedule_work :: "manager \<Rightarrow> nat" where
  "schedule_work m = sum_list (map group_work (mg_runs m))"

lemma schedule_work_decreases:
  assumes "manager_ok m" "mg_cancelled m" "manager_step l m = Some m'" "settles l"
  shows "schedule_work m' < schedule_work m \<and> mg_cancelled m'"
proof -
  obtain i gl where l: "l = GroupDoes i gl" using assms(4) by (cases l) auto
  then obtain r where r: "i < length (mg_runs m)" "group_step True gl (mg_runs m ! i) = Some r" "m' = m\<lparr>mg_runs := (mg_runs m)[i := r]\<rparr>"
    using assms(2,3) by (auto split: if_splits option.splits)
  have "group_ok (mg_runs m ! i)" using assms(1) r(1) by (simp add: manager_ok_def list_all_length)
  then have "group_work r < group_work (mg_runs m ! i)" using group_work_decreases r(2) assms(4) l by simp
  then show ?thesis using sum_list_update_less [OF r(1), of group_work r] r(3) assms(2) by (simp add: schedule_work_def)
qed

text \<open>
  What a tick can add: a job's tick a run of two steps, a leader check the work of all the jobs of a group that starts
  again.
\<close>

definition tick_cost :: "manager \<Rightarrow> nat" where
  "tick_cost m = 2 + 5 * sum_list (map (\<lambda>r. length (gr_jobs r)) (mg_runs m))"

lemma sum_list_update_gain:
  assumes "i < length xs" "f x \<le> f (xs ! i) + k"
  shows "sum_list (map f (xs[i := x])) \<le> sum_list (map f xs) + (k :: nat)"
  using assms
proof (induction xs arbitrary: i)
  case (Cons y xs)
  then show ?case by (cases i) auto
qed simp

lemma sum_list_member_le: "x \<in> set xs \<Longrightarrow> f x \<le> sum_list (map f xs :: nat list)"
  by (induction xs) auto

lemma job_work_pos: "1 \<le> job_work j"
  by (cases "jr_phase j") (simp_all add: job_work_def)

lemma restarted_work: "sum_list (map job_work (map (\<lambda>j. j\<lparr>jr_phase := JNew\<rparr>) js)) \<le> sum_list (map job_work js) + 5 * length js"
proof (induction js)
  case (Cons j js)
  have "job_work (j\<lparr>jr_phase := JNew\<rparr>) \<le> job_work j + 5" by (cases "jr_phase j") (simp_all add: job_work_def)
  then show ?case using Cons by simp
qed simp

lemma job_tick_work: "job_step d JobTick j = Some j' \<Longrightarrow> job_work j' \<le> job_work j + 2"
  by (auto simp: job_work_def startRun_def split: if_splits)

lemma group_tick_work:
  assumes "group_step d l r = Some r'" "\<not> group_settles l"
  shows "group_work r' \<le> group_work r + 2 + 5 * length (gr_jobs r)"
proof (cases l)
  case (LeaderCheck ok)
  then have "gr_phase r = GIdle \<or> gr_phase r = GRunning" "r' = checkLeader ok r" using assms(1) by (auto split: if_splits)
  then show ?thesis using restarted_work [of "gr_jobs r"]
    by (auto simp: checkLeader_def startJobs_def group_work_def)
next
  case (JobDoes i jl)
  then have jl: "jl = JobTick" using assms(2) by simp
  obtain j where j: "i < length (gr_jobs r)" "job_step (jobs_ctx_done d r) jl (gr_jobs r ! i) = Some j" "r' = r\<lparr>gr_jobs := (gr_jobs r)[i := j]\<rparr>"
    using assms(1) JobDoes by (auto split: if_splits option.splits)
  have "job_work j \<le> job_work (gr_jobs r ! i) + 2" using job_tick_work j(2) jl by blast
  then show ?thesis using sum_list_update_gain [OF j(1), of job_work j 2] j(3) by (simp add: group_work_def)
qed (use assms(2) in simp_all)

lemma group_step_jobs: "group_step d l r = Some r' \<Longrightarrow> length (gr_jobs r') = length (gr_jobs r)"
  by (cases l) (auto simp: checkLeader_def startJobs_def split: if_splits option.splits group_phase.splits)

lemma tick_cost_step:
  assumes "manager_step l m = Some m'"
  shows "tick_cost m' = tick_cost m"
proof (cases l)
  case (GroupDoes i gl)
  then obtain r where r: "i < length (mg_runs m)" "group_step (mg_cancelled m \<or> mg_ctxDone m) gl (mg_runs m ! i) = Some r"
    "m' = m\<lparr>mg_runs := (mg_runs m)[i := r]\<rparr>"
    using assms by (auto split: if_splits option.splits)
  have "map (\<lambda>r. length (gr_jobs r)) ((mg_runs m)[i := r]) = map (\<lambda>r. length (gr_jobs r)) (mg_runs m)"
    using r(1) group_step_jobs [OF r(2)] by (simp add: map_update list_update_same_conv)
  then show ?thesis using r(3) by (simp add: tick_cost_def)
qed (use assms in \<open>auto simp: tick_cost_def\<close>)

lemma tick_work:
  assumes "manager_step l m = Some m'" "\<not> settles l"
  shows "schedule_work m' \<le> schedule_work m + tick_cost m"
proof (cases l)
  case (GroupDoes i gl)
  then obtain r where r: "i < length (mg_runs m)" "group_step (mg_cancelled m \<or> mg_ctxDone m) gl (mg_runs m ! i) = Some r"
    "m' = m\<lparr>mg_runs := (mg_runs m)[i := r]\<rparr>"
    using assms(1) by (auto split: if_splits option.splits)
  have "length (gr_jobs (mg_runs m ! i)) \<le> sum_list (map (\<lambda>r. length (gr_jobs r)) (mg_runs m))"
    by (rule sum_list_member_le) (use r(1) in simp)
  moreover have "group_work r \<le> group_work (mg_runs m ! i) + 2 + 5 * length (gr_jobs (mg_runs m ! i))"
    using group_tick_work r(2) assms(2) GroupDoes by simp
  ultimately have "group_work r \<le> group_work (mg_runs m ! i) + tick_cost m" by (simp add: tick_cost_def)
  then show ?thesis using sum_list_update_gain [OF r(1), of group_work r] r(3) by (simp add: schedule_work_def)
qed (use assms in \<open>auto simp: schedule_work_def\<close>)

lemma cancelled_step: "manager_step l m = Some m' \<Longrightarrow> mg_cancelled m' = mg_cancelled m"
  by (cases l) (auto split: if_splits option.splits)

lemma settled_all_stopped:
  assumes "manager_ok m" "mg_cancelled m" "\<And>l. settles l \<Longrightarrow> manager_step l m = None"
  shows "all_stopped m"
proof (unfold all_stopped_def list_all_length, intro allI impI)
  fix i assume i: "i < length (mg_runs m)"
  show "gr_phase (mg_runs m ! i) = GDone"
  proof (rule ccontr)
    assume "gr_phase (mg_runs m ! i) \<noteq> GDone"
    moreover have "group_ok (mg_runs m ! i)" using assms(1) i by (simp add: manager_ok_def list_all_length)
    ultimately obtain l r where "group_settles l" "group_step True l (mg_runs m ! i) = Some r" using group_can_settle by blast
    then show False using assms(2) assms(3) [of "GroupDoes i l"] i by simp
  qed
qed

text \<open>Without an end of the context no group ends.\<close>

definition running_on :: "manager \<Rightarrow> bool" where
  "running_on m \<longleftrightarrow> \<not> mg_cancelled m \<and> \<not> mg_ctxDone m \<and>
     list_all (\<lambda>r. gr_phase r \<noteq> GDone \<and> gr_phase r \<noteq> GStopping True) (mg_runs m) \<and> mg_runs m \<noteq> []"

lemma group_runs_on:
  assumes "group_step False l r = Some r'" "gr_phase r \<noteq> GDone" "gr_phase r \<noteq> GStopping True"
  shows "gr_phase r' \<noteq> GDone \<and> gr_phase r' \<noteq> GStopping True"
proof (cases l)
  case JobsEnded
  then show ?thesis using assms by (cases "gr_phase r") (auto split: if_splits)
qed (use assms in \<open>auto simp: checkLeader_def startJobs_def split: if_splits option.splits\<close>)

lemma running_on_step:
  assumes "l \<noteq> CtxEnds" "running_on m" "manager_step l m = Some m'"
  shows "running_on m'"
proof -
  obtain i gl where l: "l = GroupDoes i gl" using assms(1) by (cases l) auto
  then obtain r where r: "i < length (mg_runs m)" "group_step False gl (mg_runs m ! i) = Some r" "m' = m\<lparr>mg_runs := (mg_runs m)[i := r]\<rparr>"
    using assms(2,3) by (auto simp: running_on_def split: if_splits option.splits)
  have "gr_phase (mg_runs m ! i) \<noteq> GDone" "gr_phase (mg_runs m ! i) \<noteq> GStopping True"
    using assms(2) r(1) by (simp_all add: running_on_def list_all_length)
  then show ?thesis using group_runs_on [OF r(2)] assms(2) r(3) by (simp add: running_on_def list_all_set_nth)
qed

lemma start_groups_fresh:
  "start_groups is m = (None, m') \<Longrightarrow> list_all (\<lambda>r. gr_phase r = GNew) (mg_runs m) \<Longrightarrow>
     list_all (\<lambda>r. gr_phase r = GNew) (mg_runs m') \<and> length (mg_runs m') = length (mg_runs m) + length is \<and>
     mg_cancelled m' = mg_cancelled m \<and> mg_ctxDone m' = mg_ctxDone m"
proof (induction "is" m rule: start_groups.induct)
  case (2 i "is" m)
  obtain g where g: "group_Start False (mg_groups m ! i) = (None, g)"
    using 2(2) by (auto split: prod.splits option.splits)
  show ?case using 2(1) [OF g [symmetric] refl] 2(2,3) g by (simp add: new_group_run_def)
qed simp


section \<open>Properties\<close>

text \<open>A registrar that makes a leader group with one job, started at once, and one that makes a local group.\<close>

definition tick_group :: "mode \<Rightarrow> group" where
  "tick_group md =
     (case newGroup ''g'' md [Some (WithElector True)] of
        Inl _ \<Rightarrow> undefined | Inr g \<Rightarrow> snd (Every ''tick'' 10 True [Some WithImmediateStart] g))"

fun tick_registrars :: registrars where
  "tick_registrars k m = (None, m\<lparr>mg_groups := mg_groups m @ [tick_group (if k = 0 then ModeLeaderOnly else ModeLocal)]\<rparr>)"

definition tick_manager :: "nat \<Rightarrow> manager" where
  "tick_manager k = snd (manager_Register (Some k) NewManager)"

definition tick_started :: "nat \<Rightarrow> manager" where
  "tick_started k = snd (manager_Start tick_registrars False (tick_manager k))"

lemma tick_group_eq:
  "md \<in> {ModeLocal, ModeLeaderOnly} \<Longrightarrow> tick_group md =
     \<lparr>g_name = ''g'', g_mode = md, g_elector = True, g_leaderCheckInterval = 3000000000,
      g_jobs = [\<lparr>ij_name = ''tick'', ij_interval = 10, ij_immediateStart = True, ij_allowOverlap = False\<rparr>], g_started = False\<rparr>"
  by (auto simp: tick_group_def newGroup_def Every_def NewIntervalJob_def group_Add_def defaultLeaderCheckInterval_def Let_def)

lemma tick_starts: "manager_Start tick_registrars False (tick_manager k) = (None, tick_started k)" "registrars_tame tick_registrars (tick_manager k)"
  "mg_stopped (tick_started k) = False" "mg_started (tick_started k)"
  by (simp_all add: tick_started_def tick_manager_def manager_Register_def NewManager_def manager_Start_def registrars_tame_def
      tick_group_eq group_Start_def)

text \<open>C21: for every interleaving of the scheduler's goroutines after \<open>Start\<close>: a job that does not allow overlap never runs
  twice at once, also when its leader group stops and starts again; when a leader group is not running no run of its
  jobs is left; and the jobs of a group whose elector never said yes never ran.\<close>

theorem schedule_jobs_safe:
  assumes "manager_Start reg ctxNil m = (None, m0)" "registrars_tame reg m" "manager_steps ls m0 = Some m'"
  shows "list_all (\<lambda>r. list_all (\<lambda>j. \<not> ij_allowOverlap (jr_job j) \<longrightarrow> jr_executing j \<le> 1) (gr_jobs r) \<and>
      (gr_phase r = GIdle \<or> gr_phase r = GDone \<longrightarrow> list_all (\<lambda>j. jr_executing j = 0 \<and> jr_leaving j = 0) (gr_jobs r))) (mg_runs m') \<and>
    (unled i m0 \<and> \<not> list_ex (elects i) ls \<longrightarrow> list_all (\<lambda>j. jr_begun j = 0) (gr_jobs (mg_runs m' ! i)))"
proof (intro conjI impI)
  have "manager_ok m0" using manager_Start_ok [OF assms(1,2)] by simp
  then have ok: "manager_ok m'" by (rule manager_steps_ok [OF assms(3)])
  show "list_all (\<lambda>r. list_all (\<lambda>j. \<not> ij_allowOverlap (jr_job j) \<longrightarrow> jr_executing j \<le> 1) (gr_jobs r) \<and>
      (gr_phase r = GIdle \<or> gr_phase r = GDone \<longrightarrow> list_all (\<lambda>j. jr_executing j = 0 \<and> jr_leaving j = 0) (gr_jobs r))) (mg_runs m')"
    using ok unfolding manager_ok_def list_all_iff group_ok_def job_ok_def job_idle_def by blast
  assume u: "unled i m0 \<and> \<not> list_ex (elects i) ls"
  have "unled i m'"
    by (rule schedule.invariant_along [where P = "unled i" and L = "{l. \<not> elects i l}", OF _ assms(3)])
      (use u unled_step in \<open>auto simp: list_ex_iff\<close>)
  then show "list_all (\<lambda>j. jr_begun j = 0) (gr_jobs (mg_runs m' ! i))" by (simp add: unled_def)
qed

theorem schedule_jobs_safe_witness:
  "\<exists>m'. manager_steps [GroupDoes 0 (GroupGo False), GroupDoes 0 (LeaderCheck True), GroupDoes 0 (JobDoes 0 JobEnter), GroupDoes 0 (JobDoes 0 JobTick)]
      (tick_started 0) = Some m' \<and>
    list_all (\<lambda>r. list_all (\<lambda>j. jr_executing j \<le> 1 \<and> jr_begun j = 1 \<and> jr_skipped j = 1) (gr_jobs r)) (mg_runs m')"
proof -
  let ?ls = "[GroupDoes 0 (GroupGo False), GroupDoes 0 (LeaderCheck True), GroupDoes 0 (JobDoes 0 JobEnter), GroupDoes 0 (JobDoes 0 JobTick)]"
  define m' where "m' = the (manager_steps ?ls (tick_started 0))"
  have 1: "manager_steps ?ls (tick_started 0) = Some m'"
  proof -
    have "manager_steps ?ls (tick_started 0) \<noteq> None" by code_simp
    then show ?thesis unfolding m'_def by (rule option.collapse [symmetric])
  qed
  have 2: "list_all (\<lambda>r. list_all (\<lambda>j. \<not> ij_allowOverlap (jr_job j) \<and> jr_begun j = 1 \<and> jr_skipped j = 1) (gr_jobs r)) (mg_runs m')"
    unfolding m'_def by code_simp
  have 3: "list_all (\<lambda>r. list_all (\<lambda>j. \<not> ij_allowOverlap (jr_job j) \<longrightarrow> jr_executing j \<le> 1) (gr_jobs r) \<and>
      (gr_phase r = GIdle \<or> gr_phase r = GDone \<longrightarrow> list_all (\<lambda>j. jr_executing j = 0 \<and> jr_leaving j = 0) (gr_jobs r))) (mg_runs m')"
    using schedule_jobs_safe [OF tick_starts(1,2) 1] by blast
  show ?thesis using 1 2 3 by (auto simp: list_all_iff)
qed

text \<open>C22: \<open>Stop\<close> after \<open>Start\<close> ends everything, whatever ticks still fire after it (the \<open>select\<close> of a job or of a group may
  take a tick although its context has ended, and an elector may then start the jobs of its group once more): between
  the ticks the goroutines can take, in any order, at most \<open>schedule_work\<close> steps plus \<open>tick_cost\<close> for each tick taken, and
  whenever none can take another step without a tick, every group has ended, the wait of \<open>Stop\<close> returns, and no job
  runs. (A goroutine whose \<open>select\<close> preferred its ticks for ever would never end; the code leaves the choice to the
  scheduler.)\<close>

theorem schedule_stops:
  assumes "manager_Start reg ctxNil m = (None, m0)" "registrars_tame reg m" "manager_steps before m0 = Some m1"
    "\<not> mg_stopped m1" "mg_started m1" "manager_Stop m1 = (out, m2)" "manager_steps ls m2 = Some m'"
  shows "out = StopWaits \<and>
    length (filter settles ls) \<le> schedule_work m2 + tick_cost m2 * length (filter (\<lambda>l. \<not> settles l) ls) \<and>
    ((\<forall>l. settles l \<longrightarrow> manager_step l m' = None) \<longrightarrow>
       all_stopped m' \<and> list_all (\<lambda>r. list_all (\<lambda>j. jr_executing j = 0 \<and> jr_leaving j = 0) (gr_jobs r)) (mg_runs m'))"
proof (intro conjI impI)
  let ?P = "\<lambda>m. manager_ok m \<and> mg_cancelled m \<and> tick_cost m = tick_cost m2"
  have "manager_ok m0" using manager_Start_ok [OF assms(1,2)] by simp
  then have "manager_ok m1" by (rule manager_steps_ok [OF assms(3)])
  then have 2: "?P m2" "out = StopWaits"
    using assms(4-6) by (auto simp: manager_Stop_def manager_ok_def split: if_splits)
  then show "out = StopWaits" by simp
  have k: "?P t \<and> (if l \<in> {l. settles l} then schedule_work t < schedule_work u else schedule_work t \<le> schedule_work u + tick_cost m2)"
    if "?P u" "manager_step l u = Some t" for l u t
    using that schedule_work_decreases [of u l t] manager_step_ok [of u l t] tick_work [of l u t] tick_cost_step [of l u t]
      cancelled_step [of l u t] by auto
  show "length (filter settles ls) \<le> schedule_work m2 + tick_cost m2 * length (filter (\<lambda>l. \<not> settles l) ls)"
    using schedule.bounded_paid [where P = ?P and L = "{l. settles l}", OF k assms(7) 2(1)] by simp
  have m': "?P m'"
    by (rule schedule.invariant [where P = ?P, OF _ assms(7) 2(1)]) (use k in blast)
  assume "\<forall>l. settles l \<longrightarrow> manager_step l m' = None"
  then show "all_stopped m'" using settled_all_stopped m' by blast
  then show "list_all (\<lambda>r. list_all (\<lambda>j. jr_executing j = 0 \<and> jr_leaving j = 0) (gr_jobs r)) (mg_runs m')"
    using m' unfolding manager_ok_def all_stopped_def list_all_iff group_ok_def job_idle_def by blast
qed

text \<open>A leader group that is idle at \<open>Stop\<close>: the elector still says yes, the jobs start again, tick once, and end.\<close>

theorem schedule_stops_witness:
  "let m2 = snd (manager_Stop (the (manager_steps [GroupDoes 0 (GroupGo False)] (tick_started 0))));
       ls = [GroupDoes 0 (LeaderCheck True), GroupDoes 0 (JobDoes 0 JobEnter), GroupDoes 0 (JobDoes 0 JobTick),
         GroupDoes 0 (JobDoes 0 RunReturns), GroupDoes 0 (JobDoes 0 RunLeaves), GroupDoes 0 GroupSeesDone,
         GroupDoes 0 (JobDoes 0 JobSeesDone), GroupDoes 0 (JobDoes 0 JobExits), GroupDoes 0 JobsEnded];
       m' = the (manager_steps ls m2)
   in length (filter settles ls) = 7 \<and> 7 \<le> schedule_work m2 + tick_cost m2 * 2 \<and> all_stopped m'"
proof -
  let ?b = "[GroupDoes 0 (GroupGo False)]"
  let ?ls = "[GroupDoes 0 (LeaderCheck True), GroupDoes 0 (JobDoes 0 JobEnter), GroupDoes 0 (JobDoes 0 JobTick),
         GroupDoes 0 (JobDoes 0 RunReturns), GroupDoes 0 (JobDoes 0 RunLeaves), GroupDoes 0 GroupSeesDone,
         GroupDoes 0 (JobDoes 0 JobSeesDone), GroupDoes 0 (JobDoes 0 JobExits), GroupDoes 0 JobsEnded]"
  define m1 where "m1 = the (manager_steps ?b (tick_started 0))"
  define m2 where "m2 = snd (manager_Stop m1)"
  define m' where "m' = the (manager_steps ?ls m2)"
  have 1: "manager_steps ?b (tick_started 0) = Some m1"
  proof -
    have "manager_steps ?b (tick_started 0) \<noteq> None" by code_simp
    then show ?thesis unfolding m1_def by (rule option.collapse [symmetric])
  qed
  have 2: "manager_steps ?ls m2 = Some m'"
  proof -
    have "manager_steps ?ls m2 \<noteq> None" unfolding m2_def m1_def by code_simp
    then show ?thesis unfolding m'_def by (rule option.collapse [symmetric])
  qed
  have f: "\<not> mg_stopped m1" "mg_started m1" unfolding m1_def by code_simp+
  have s: "manager_Stop m1 = (fst (manager_Stop m1), m2)" by (simp add: m2_def)
  have d: "all_stopped m'" unfolding m'_def m2_def m1_def by code_simp
  have n: "length (filter settles ?ls) = 7" "length (filter (\<lambda>l. \<not> settles l) ?ls) = 2" by simp_all
  have "length (filter settles ?ls) \<le> schedule_work m2 + tick_cost m2 * length (filter (\<lambda>l. \<not> settles l) ?ls)"
    using schedule_stops [OF tick_starts(1,2) 1 f s 2] by blast
  then have "7 \<le> schedule_work m2 + tick_cost m2 * 2" unfolding n .
  then show ?thesis using d n(1) unfolding Let_def m'_def m2_def m1_def by blast
qed

text \<open>\<open>Stop\<close> before \<open>Start\<close> breaks the later \<open>Stop\<close>: it marks the manager as stopped, \<open>Start\<close> does not look at the mark
  and starts the groups, and the next \<open>Stop\<close> takes itself for the second one: it waits without cancelling, and as long
  as the context given to \<open>Start\<close> lives, no group ever ends.\<close>

theorem stop_before_start_never_stops:
  assumes "\<not> mg_started m" "\<not> mg_cancelled m" "\<not> mg_ctxDone m" "mg_runs m = []" "mg_registrars m = []" "mg_groups m \<noteq> []"
    "manager_Stop m = (out1, m1)" "manager_Start reg False m1 = (None, m2)" "manager_Stop m2 = (out3, m3)"
    "CtxEnds \<notin> set ls" "manager_steps ls m3 = Some m'"
  shows "out1 = StopReturns \<and> out3 = StopWaits \<and> \<not> mg_cancelled m' \<and> \<not> all_stopped m'"
proof -
  have m1: "m1 = m\<lparr>mg_stopped := True\<rparr>" "out1 = StopReturns" using assms(1,7) by (simp_all add: manager_Stop_def)
  have st: "start_groups [0 ..< length (mg_groups m)] (m\<lparr>mg_stopped := True, mg_started := True\<rparr>) = (None, m2)"
    using assms(1,5,8) by (simp add: manager_Start_def m1)
  have "manager_ok (m\<lparr>mg_stopped := True, mg_started := True\<rparr>)" using assms(4) by (simp add: manager_ok_def)
  then have m2: "mg_started m2" "mg_stopped m2" using start_groups_runs [OF st] by simp_all
  then have m3: "m3 = m2" "out3 = StopWaits" using assms(9) by (simp_all add: manager_Stop_def)
  have "running_on m2"
    using start_groups_fresh [OF st] assms(2-4,6) by (auto simp: running_on_def list_all_iff)
  then have "running_on m'" unfolding m3(1) [symmetric]
    by (intro schedule.invariant_along [where P = running_on and L = "- {CtxEnds}", OF _ assms(11)])
      (use assms(10) running_on_step in auto)
  then show ?thesis using m1(2) m3(2) by (cases "mg_runs m'") (auto simp: running_on_def all_stopped_def)
qed


theorem stop_before_start_never_stops_witness:
  "\<exists>m2. manager_Start tick_registrars False (snd (manager_Stop (NewManager\<lparr>mg_groups := [tick_group ModeLocal]\<rparr>))) = (None, m2) \<and>
     \<not> all_stopped (snd (manager_Stop m2))"
proof -
  let ?m = "NewManager\<lparr>mg_groups := [tick_group ModeLocal]\<rparr>"
  obtain m2 where m2: "manager_Start tick_registrars False (snd (manager_Stop ?m)) = (None, m2)"
    by (simp add: NewManager_def manager_Stop_def manager_Start_def tick_group_eq group_Start_def)
  obtain out1 m1 out3 m3 where s: "manager_Stop ?m = (out1, m1)" "manager_Stop m2 = (out3, m3)" by fastforce
  have "\<not> all_stopped m3"
    using stop_before_start_never_stops [OF _ _ _ _ _ _ s(1) _ s(2), of tick_registrars "[]" m3] m2 s(1) by (simp add: NewManager_def)
  then show ?thesis using m2 s(2) by simp
qed

end
