(* ===== verification/Bootstrap.thy ===== *)
theory Bootstrap
  imports ValidReload Defaults Schedule
begin

text \<open>
  The service around the runtime: \<open>src/src/bootstrap/run.go\<close> (start, signals, the watcher of the configuration file,
  reload, stop), \<open>src/src/app/runtime.go\<close>, \<open>src/src/config/local_load.go\<close> and \<open>pair.go\<close>, and
  \<open>src/src/control/api_client.go\<close>. It composes the components: files are decoded, merged, filled with defaults and
  validated, and the result goes to \<open>UpdateCache\<close>. Error messages are given in translation. Logging, pprof and the GC
  statistics are left out.
\<close>

section \<open>Loading\<close>

text \<open>
  What is outside: the contents of the two files and the answer of the configuration service, as they are at one
  moment. The decoder of \<open>encoding/json\<close> is a parameter: it yields a value and the rest of the input, the end of the
  input, or an error; \<open>be_end\<close> is the decoder for an empty struct.
\<close>

datatype 'a json_read = JsonValue 'a bytes | JsonEOF | JsonError go_error

record surroundings =
  fs_system :: "bytes result"
  fs_business :: "bytes result"
  api_answer :: "(int \<times> string \<times> bytes) result"

record boot_env =
  be_env :: env
  be_ip :: "string \<Rightarrow> bool"
  be_ncpu :: int
  be_system :: "bytes \<Rightarrow> system_config json_read"
  be_business :: "bytes \<Rightarrow> business_config json_read"
  be_end :: "bytes \<Rightarrow> unit json_read"
  be_sha256 :: "bytes \<Rightarrow> string"

definition io_EOF :: go_error where "io_EOF = errors_New ''EOF''"

definition decodeJSONStrict :: "boot_env \<Rightarrow> (bytes \<Rightarrow> 'a json_read) \<Rightarrow> bytes \<Rightarrow> 'a result" where
  "decodeJSONStrict b dec bs =
     (case dec bs of
        JsonError err \<Rightarrow> Inl err
      | JsonEOF \<Rightarrow> Inl io_EOF
      | JsonValue v rest \<Rightarrow>
          (case be_end b rest of
             JsonValue u rest' \<Rightarrow> Inl (errors_New ''illegal JSON: extra content'')
           | JsonEOF \<Rightarrow> Inr v
           | JsonError err \<Rightarrow> Inl err))"

definition LoadSystemLocal :: "boot_env \<Rightarrow> surroundings \<Rightarrow> system_config result" where
  "LoadSystemLocal b w = (case fs_system w of Inl err \<Rightarrow> Inl err | Inr bs \<Rightarrow> decodeJSONStrict b (be_system b) bs)"

definition LoadBusinessLocal :: "boot_env \<Rightarrow> surroundings \<Rightarrow> business_config result" where
  "LoadBusinessLocal b w = (case fs_business w of Inl err \<Rightarrow> Inl err | Inr bs \<Rightarrow> decodeJSONStrict b (be_business b) bs)"

definition LoadLocalPair :: "boot_env \<Rightarrow> surroundings \<Rightarrow> (system_config \<times> business_config \<times> config) result" where
  "LoadLocalPair b w =
     (case LoadSystemLocal b w of
        Inl err \<Rightarrow> Inl (Errorf ''load system config: %w'' [AErr err])
      | Inr sys \<Rightarrow>
          (case LoadBusinessLocal b w of
             Inl err \<Rightarrow> Inl (Errorf ''load business config: %w'' [AErr err])
           | Inr biz \<Rightarrow> Inr (sys, biz, Merge sys biz)))"

text \<open>The answer is an error of the transport, or a status code, a status line and a body.\<close>

definition FetchBusinessConfig :: "boot_env \<Rightarrow> surroundings \<Rightarrow> business_config result" where
  "FetchBusinessConfig b w =
     (case api_answer w of
        Inl err \<Rightarrow> Inl err
      | Inr (code, status, body) \<Rightarrow>
          if code div 100 \<noteq> 2 then Inl (Errorf ''config service: status %s'' [AStr status])
          else decodeJSONStrict b (be_business b) body)"

definition loadConfigPair :: "boot_env \<Rightarrow> surroundings \<Rightarrow> (system_config \<times> business_config \<times> config) result" where
  "loadConfigPair b w =
     (case LoadLocalPair b w of
        Inl err \<Rightarrow> Inl err
      | Inr (sys0, biz0, cfg0) \<Rightarrow>
          let sys = SystemConfig_ApplyDefaults sys0 in
          (case (if cc_API (sys_Control sys) \<noteq> [] then FetchBusinessConfig b w else Inr biz0) of
             Inl err \<Rightarrow> Inl (Errorf ''fetch business config: %w'' [AErr err])
           | Inr biz \<Rightarrow>
               let cfg = ApplyDefaults (be_ncpu b) (sys_BusinessDefaults sys) (Merge sys biz) in
               (case ValidateConfig (env_regexp (be_env b)) (be_ip b) cfg of
                  Some err \<Rightarrow> Inl (Errorf ''validate config: %w'' [AErr err])
                | None \<Rightarrow> Inr (sys, biz, cfg))))"

definition readConfigFingerprint :: "boot_env \<Rightarrow> surroundings \<Rightarrow> string result" where
  "readConfigFingerprint b w = (case fs_business w of Inl err \<Rightarrow> Inl err | Inr bs \<Rightarrow> Inr (be_sha256 b bs))"

section \<open>The application runtime\<close>

text \<open>\<open>rt_system\<close> is \<open>systemCfg\<close> together with \<open>hasSystem\<close>.\<close>

record app_runtime =
  rt_store :: store
  rt_system :: "system_config option"

definition NewRuntime :: app_runtime where
  "NewRuntime = \<lparr>rt_store = NewStore, rt_system = None\<rparr>"

definition SeedSystemConfig :: "system_config \<Rightarrow> app_runtime \<Rightarrow> go_error option \<times> app_runtime" where
  "SeedSystemConfig cfg rt =
     (case rt_system rt of
        Some old \<Rightarrow> (if old \<noteq> cfg then Some (errors_New ''system config changed, restart required'') else None, rt)
      | None \<Rightarrow> (None, rt\<lparr>rt_system := Some cfg\<rparr>))"

definition CheckSystemConfigStable :: "system_config \<Rightarrow> app_runtime \<Rightarrow> go_error option" where
  "CheckSystemConfigStable cfg rt =
     (case rt_system rt of
        None \<Rightarrow> Some (errors_New ''system config baseline not initialised'')
      | Some old \<Rightarrow> if old \<noteq> cfg then Some (errors_New ''system config changed, takes effect after restart'') else None)"

definition runtime_UpdateCache :: "boot_env \<Rightarrow> config \<Rightarrow> app_runtime \<Rightarrow> go_error option \<times> app_runtime" where
  "runtime_UpdateCache b cfg rt = (let (err, st) = UpdateCache (be_env b) cfg (rt_store rt) in (err, rt\<lparr>rt_store := st\<rparr>))"

definition runtime_Stop :: "app_runtime \<Rightarrow> app_runtime" where
  "runtime_Stop rt = rt\<lparr>rt_store := StopAll (rt_store rt)\<rparr>"

text \<open>The configuration that took effect, if one did.\<close>

definition reloadAndApplyBusinessConfig :: "boot_env \<Rightarrow> surroundings \<Rightarrow> app_runtime \<Rightarrow> config option \<times> app_runtime" where
  "reloadAndApplyBusinessConfig b w rt =
     (case loadConfigPair b w of
        Inl err \<Rightarrow> (None, rt)
      | Inr (sys, biz, cfg) \<Rightarrow>
          (case CheckSystemConfigStable sys rt of
             Some err \<Rightarrow> (None, rt)
           | None \<Rightarrow>
               (case runtime_UpdateCache b cfg rt of
                  (Some err, rt') \<Rightarrow> (None, rt')
                | (None, rt') \<Rightarrow> (Some cfg, rt'))))"

section \<open>The scheduler of the service\<close>

text \<open>One registrar, which registers nothing.\<close>

definition registerSchedules :: "manager \<Rightarrow> schedule_error option \<times> manager" where
  "registerSchedules m = manager_Register (Some 0) m"

definition initScheduleManager :: manager where
  "initScheduleManager = snd (registerSchedules NewManager)"

definition service_registrars :: registrars where
  "service_registrars k m = (None, m)"

section \<open>The service\<close>

text \<open>
  \<open>sv_print\<close> is the watcher's \<open>currentFingerprint\<close>, \<open>sv_chan\<close> whether \<open>configChangeCh\<close> (room for one) holds a message,
  \<open>sv_reloading\<close> whether the loop has taken a signal or a message and not yet loaded the files. \<open>sv_applied\<close> is the last
  configuration that took effect, \<open>sv_loaded\<close> the world a load last looked at and \<open>sv_past\<close> the worlds there were
  before the present one: they record what happened.
\<close>

record service =
  sv_world :: surroundings
  sv_runtime :: app_runtime
  sv_schedule :: manager
  sv_print :: string
  sv_chan :: bool
  sv_reloading :: bool
  sv_exit :: "int option"
  sv_applied :: config
  sv_loaded :: surroundings
  sv_past :: "surroundings list"

text \<open>
  \<open>Run\<close> up to its loop: the exit code, or the running service. \<open>args\<close> is whether the arguments parse and name both
  files, \<open>logInit\<close> the error of \<open>logx.Init\<close>. The files are read twice: the load sees \<open>w0\<close>, the watcher's first
  fingerprint is taken after the runtime was built and sees \<open>w1\<close>.
\<close>

datatype args_outcome = ArgsBad | ArgsNoPaths | ArgsOk

definition Run_start :: "boot_env \<Rightarrow> args_outcome \<Rightarrow> go_error option \<Rightarrow> surroundings \<Rightarrow> surroundings \<Rightarrow> int + service" where
  "Run_start b args logInit w0 w1 =
     (case args of ArgsBad \<Rightarrow> Inl 2 | ArgsNoPaths \<Rightarrow> Inl 1 | ArgsOk \<Rightarrow>
     (case loadConfigPair b w0 of Inl err \<Rightarrow> Inl 1 | Inr (sys, biz, cfg) \<Rightarrow>
     (case parse_duration (lc_TrafficStatsInterval (cfg_Logging cfg)) of None \<Rightarrow> Inl 1 | Some interval \<Rightarrow>
     (case logInit of Some err \<Rightarrow> Inl 1 | None \<Rightarrow>
     (case SeedSystemConfig sys NewRuntime of (Some err, rt) \<Rightarrow> Inl 1 | (None, rt) \<Rightarrow>
     (case runtime_UpdateCache b cfg rt of (Some err, rt1) \<Rightarrow> Inl 1 | (None, rt1) \<Rightarrow>
     (case manager_Start service_registrars False initScheduleManager of (Some err, mgr) \<Rightarrow> Inl 1 | (None, mgr) \<Rightarrow>
     (case readConfigFingerprint b w1 of Inl err \<Rightarrow> Inl 1 | Inr fp \<Rightarrow>
        Inr \<lparr>sv_world = w1, sv_runtime = rt1, sv_schedule = mgr, sv_print = fp, sv_chan = False, sv_reloading = False, sv_exit = None,
             sv_applied = cfg, sv_loaded = w0, sv_past = (if w1 = w0 then [] else [w0])\<rparr>))))))))"

datatype sig = SigInt | SigTerm | SigHup | SigUsr1 | SigOther

definition isReloadSignal :: "sig \<Rightarrow> bool" where
  "isReloadSignal s \<longleftrightarrow> s = SigHup \<or> s = SigUsr1"

definition isStopSignal :: "sig \<Rightarrow> bool" where
  "isStopSignal s \<longleftrightarrow> s = SigInt \<or> s = SigTerm"

text \<open>\<open>watchConfigFile\<close>, one tick: a change is noted and announced; the message is dropped when one is there already.\<close>

definition watch_tick :: "boot_env \<Rightarrow> service \<Rightarrow> service" where
  "watch_tick b s =
     (case readConfigFingerprint b (sv_world s) of
        Inl err \<Rightarrow> s
      | Inr fp \<Rightarrow> if fp = sv_print s then s else s\<lparr>sv_print := fp, sv_chan := True\<rparr>)"

definition shutdown :: "service \<Rightarrow> service" where
  "shutdown s = s\<lparr>sv_schedule := snd (manager_Stop (sv_schedule s)), sv_runtime := runtime_Stop (sv_runtime s), sv_exit := Some 0\<rparr>"

definition reload :: "boot_env \<Rightarrow> service \<Rightarrow> service" where
  "reload b s =
     (case reloadAndApplyBusinessConfig b (sv_world s) (sv_runtime s) of
        (None, rt) \<Rightarrow> s\<lparr>sv_runtime := rt, sv_reloading := False, sv_loaded := sv_world s\<rparr>
      | (Some cfg, rt) \<Rightarrow> s\<lparr>sv_runtime := rt, sv_reloading := False, sv_loaded := sv_world s, sv_applied := cfg\<rparr>)"

datatype service_label = WorldChanges surroundings | WatchTick | Signal sig | ConfigChanged | Reload

fun service_step :: "boot_env \<Rightarrow> service_label \<Rightarrow> service \<Rightarrow> service option" where
  "service_step b (WorldChanges w) s = Some (s\<lparr>sv_world := w, sv_past := sv_past s @ [sv_world s]\<rparr>)"
| "service_step b WatchTick s = (if sv_exit s \<noteq> None then None else Some (watch_tick b s))"
| "service_step b (Signal sg) s =
     (if sv_exit s \<noteq> None \<or> sv_reloading s then None
      else if isReloadSignal sg then Some (s\<lparr>sv_reloading := True\<rparr>)
      else if isStopSignal sg then Some (shutdown s)
      else Some s)"
| "service_step b ConfigChanged s =
     (if sv_exit s \<noteq> None \<or> sv_reloading s \<or> \<not> sv_chan s then None else Some (s\<lparr>sv_chan := False, sv_reloading := True\<rparr>))"
| "service_step b Reload s = (if sv_exit s = None \<and> sv_reloading s then Some (reload b s) else None)"

fun service_steps :: "boot_env \<Rightarrow> service_label list \<Rightarrow> service \<Rightarrow> service option" where
  "service_steps b [] s = Some s"
| "service_steps b (l # ls) s = (case service_step b l s of None \<Rightarrow> None | Some s' \<Rightarrow> service_steps b ls s')"

interpretation service_runs: runs "service_step b" "service_steps b" for b
  by unfold_locales simp_all

end
