(* ===== verification/BootSample.thy ===== *)
theory BootSample
  imports Bootstrap
begin

text \<open>A system configuration and two versions of a business configuration, to run the service on, and that \<open>Validate\<close> accepts them.\<close>

definition sample_business :: "task_config \<Rightarrow> business_config" where
  "sample_business tc = \<lparr>biz_Version = 0, biz_Receivers = cfg_Receivers valid_sample, biz_Selectors = cfg_Selectors valid_sample,
     biz_TaskSets = cfg_TaskSets valid_sample, biz_Senders = cfg_Senders valid_sample, biz_Pipelines = cfg_Pipelines valid_sample,
     biz_Tasks = Some [(''t'', tc)]\<rparr>"

definition sample_task_config :: "string slice \<Rightarrow> task_config" where
  "sample_task_config ps = zero_task_config\<lparr>tc_Pipelines := ps, tc_Senders := Some [''o'']\<rparr>"

definition sample_system :: system_config where
  "sample_system = zero_system_config\<lparr>sys_Control := zero_control_config\<lparr>cc_ConfigWatchInterval := ''1ns''\<rparr>,
     sys_Logging := zero_logging_config\<lparr>lc_TrafficStatsInterval := ''1ns'', lc_GCStatsLogInterval := ''1ns''\<rparr>\<rparr>"

definition sample_loaded_config :: "string slice \<Rightarrow> config" where
  "sample_loaded_config ps = ApplyDefaults 4 zero_business_defaults_config (Merge (SystemConfig_ApplyDefaults sample_system) (sample_business (sample_task_config ps)))"

lemma sample_duration: "parse_duration ''1ns'' = Some 1"
  by (simp add: parse_duration_def duration_loop.simps duration_step_def is_digit_def unit_ns_def digits_value_def)

lemma sample_logging:
  "lc_TrafficStatsInterval (cfg_Logging (sample_loaded_config ps)) = ''1ns''" "lc_GCStatsLogInterval (cfg_Logging (sample_loaded_config ps)) = ''1ns''"
  "0 \<le> lc_TrafficStatsSampleEvery (cfg_Logging (sample_loaded_config ps))" "lc_Level (cfg_Logging (sample_loaded_config ps)) = ''info''"
  "0 \<le> cc_PprofPort (cfg_Control (sample_loaded_config ps)) \<and> cc_PprofPort (cfg_Control (sample_loaded_config ps)) \<le> 65535"
  by code_simp+

lemma info_level: "to_lower (trim_space ''info'') = ''info''"
  by code_simp

lemma sample_sections1:
  "first_err (map (validate_pipeline (\<lambda>_. Inl (Errorf [] []))) (elems (cfg_Pipelines (sample_loaded_config (Some [''p'']))))) = None"
  "first_err (map (validate_task (sample_loaded_config (Some [''p'']))) (elems (cfg_Tasks (sample_loaded_config (Some [''p'']))))) = None"
  "first_err (map (validate_task_set (sample_loaded_config (Some [''p'']))) (elems (cfg_TaskSets (sample_loaded_config (Some [''p'']))))) = None"
  "first_err (map (validate_selector (sample_loaded_config (Some [''p'']))) (elems (cfg_Selectors (sample_loaded_config (Some [''p'']))))) = None"
  "first_err (map (validate_receiver (sample_loaded_config (Some [''p'']))) (elems (cfg_Receivers (sample_loaded_config (Some [''p'']))))) = None"
  "first_err (map (validate_sender (\<lambda>_. True)) (elems (cfg_Senders (sample_loaded_config (Some [''p'']))))) = None"
  by code_simp+

lemma sample_sections2:
  "first_err (map (validate_pipeline (\<lambda>_. Inl (Errorf [] []))) (elems (cfg_Pipelines (sample_loaded_config (Some [''p'', ''p'']))))) = None"
  "first_err (map (validate_task (sample_loaded_config (Some [''p'', ''p'']))) (elems (cfg_Tasks (sample_loaded_config (Some [''p'', ''p'']))))) = None"
  "first_err (map (validate_task_set (sample_loaded_config (Some [''p'', ''p'']))) (elems (cfg_TaskSets (sample_loaded_config (Some [''p'', ''p'']))))) = None"
  "first_err (map (validate_selector (sample_loaded_config (Some [''p'', ''p'']))) (elems (cfg_Selectors (sample_loaded_config (Some [''p'', ''p'']))))) = None"
  "first_err (map (validate_receiver (sample_loaded_config (Some [''p'', ''p'']))) (elems (cfg_Receivers (sample_loaded_config (Some [''p'', ''p'']))))) = None"
  "first_err (map (validate_sender (\<lambda>_. True)) (elems (cfg_Senders (sample_loaded_config (Some [''p'', ''p'']))))) = None"
  by code_simp+

lemma sample_present:
  assumes "ps = Some [''p''] \<or> ps = Some [''p'', ''p'']"
  shows "elems (cfg_Tasks (sample_loaded_config ps)) \<noteq> [] \<and> cfg_Receivers (sample_loaded_config ps) \<noteq> None \<and> cfg_Selectors (sample_loaded_config ps) \<noteq> None \<and>
    cfg_TaskSets (sample_loaded_config ps) \<noteq> None \<and> cfg_Senders (sample_loaded_config ps) \<noteq> None \<and> cfg_Pipelines (sample_loaded_config ps) \<noteq> None"
  using assms by (elim disjE; hypsubst; code_simp)

lemma sample_ends:
  "map (\<lambda>ns. sc_Type (snd ns)) (elems (cfg_Senders (sample_loaded_config ps))) = [''udp_unicast'']"
  "map (\<lambda>nr. rc_Type (snd nr)) (elems (cfg_Receivers (sample_loaded_config ps))) = [''udp_gnet'']"
  by code_simp+

lemma sample_system_defaults:
  "cc_API (sys_Control (SystemConfig_ApplyDefaults sample_system)) = []"
  "sys_BusinessDefaults (SystemConfig_ApplyDefaults sample_system) = zero_business_defaults_config"
  by code_simp+

end
