(* ===== verification/BootstrapProps.thy ===== *)
theory BootstrapProps
  imports BootSample Constructors
begin

text \<open>
  What holds of the service in all its runs: it always runs the last configuration that took effect, that one was
  validated, and the system configuration is the one of the start; and when a change of the file is noticed, and
  when it is not.
\<close>

section \<open>Loaded configurations\<close>

text \<open>The decoder makes maps: no key occurs twice.\<close>

definition biz_wf :: "business_config \<Rightarrow> bool" where
  "biz_wf biz \<longleftrightarrow>
     wf_map (elems (biz_Receivers biz)) \<and> wf_map (elems (biz_Selectors biz)) \<and> wf_map (elems (biz_TaskSets biz)) \<and>
     wf_map (elems (biz_Senders biz)) \<and> wf_map (elems (biz_Pipelines biz)) \<and> wf_map (elems (biz_Tasks biz)) \<and>
     wf_stages (elems (biz_Pipelines biz)) \<and> wf_selectors (elems (biz_Selectors biz))"

definition decodes_maps :: "boot_env \<Rightarrow> bool" where
  "decodes_maps b \<longleftrightarrow> (\<forall>bs v rest. be_business b bs = JsonValue v rest \<longrightarrow> biz_wf v)"

lemma decoded_wf: "decodes_maps b \<Longrightarrow> decodeJSONStrict b (be_business b) bs = Inr biz \<Longrightarrow> biz_wf biz"
  by (auto simp: decodeJSONStrict_def decodes_maps_def split: json_read.splits)

lemma wf_map_values_opt: "wf_map (elems (map_values f m)) = wf_map (elems m)"
  by (cases m) (simp_all add: map_values_def wf_map_def comp_def case_prod_beta)

lemma defaults_wf: "biz_wf biz \<Longrightarrow> wf_cfg (ApplyDefaults n d (Merge sys biz))"
  by (simp add: wf_cfg_def wf_config_def biz_wf_def ApplyDefaults_def applyBusinessDefaults_def Merge_def Let_def wf_map_values_opt split: prod.splits)

lemma loaded_config:
  assumes "loadConfigPair b w = Inr (sys, biz, cfg)" "decodes_maps b"
  shows "ValidateConfig (env_regexp (be_env b)) (be_ip b) cfg = None \<and> wf_cfg cfg"
proof -
  obtain sys0 biz0 cfg0 where l: "LoadLocalPair b w = Inr (sys0, biz0, cfg0)" 
    "(if cc_API (sys_Control (SystemConfig_ApplyDefaults sys0)) \<noteq> [] then FetchBusinessConfig b w else Inr biz0) = Inr biz"
    "cfg = ApplyDefaults (be_ncpu b) (sys_BusinessDefaults (SystemConfig_ApplyDefaults sys0)) (Merge (SystemConfig_ApplyDefaults sys0) biz)"
    "ValidateConfig (env_regexp (be_env b)) (be_ip b) cfg = None"
    using assms(1) by (auto simp: loadConfigPair_def Let_def split: sum.splits option.splits)
  have "biz_wf biz0" using l(1) decoded_wf [OF assms(2)]
    by (auto simp: LoadLocalPair_def LoadBusinessLocal_def split: sum.splits)
  moreover have "biz_wf biz" if "FetchBusinessConfig b w = Inr biz"
    using that decoded_wf [OF assms(2)] by (auto simp: FetchBusinessConfig_def split: sum.splits if_splits)
  ultimately have "biz_wf biz" using l(2) by (auto split: if_splits)
  then show ?thesis using l(3,4) defaults_wf by simp
qed

section \<open>A reload\<close>

text \<open>
  The runtime uses the constructors of the program over \<open>lib\<close>, goroutine pools and \<open>json.Marshal\<close> do not fail, JSON tells stages
  apart, and decoded maps are maps.
\<close>

definition good_world :: "'r libraries \<Rightarrow> boot_env \<Rightarrow> bool" where
  "good_world lib b \<longleftrightarrow> (\<exists>lvl e. be_env b = program_env lib lvl e) \<and> env_serves (be_env b) \<and> sig_faithful (be_env b) \<and> decodes_maps b"

text \<open>A version of the files that loads and passes \<open>Validate\<close> has senders and receivers that can be constructed.\<close>

definition version_ok :: "'r libraries \<Rightarrow> boot_env \<Rightarrow> surroundings \<Rightarrow> bool" where
  "version_ok lib b w \<longleftrightarrow> (case loadConfigPair b w of Inl err \<Rightarrow> True | Inr (sys, biz, cfg) \<Rightarrow> constructible lib cfg)"

lemma apply_loaded:
  assumes "good_world lib b" "version_ok lib b w" "loadConfigPair b w = Inr (sys, biz, cfg)" "coherent (env_regexp (be_env b)) (rt_store rt)"
  shows "\<exists>rt'. runtime_UpdateCache b cfg rt = (None, rt') \<and> coherent (env_regexp (be_env b)) (rt_store rt') \<and>
    rt_system rt' = rt_system rt \<and> (\<forall>r key. observe (rt_store rt') r key = configured (env_regexp (be_env b)) cfg r key)"
proof -
  have g: "env_serves (be_env b)" "sig_faithful (be_env b)" using assms(1) by (simp_all add: good_world_def)
  have v: "ValidateConfig (env_regexp (be_env b)) (be_ip b) cfg = None" "wf_cfg cfg"
    using loaded_config [OF assms(3)] assms(1) by (simp_all add: good_world_def)
  have "constructible lib cfg" using assms(2,3) by (simp add: version_ok_def)
  then have "env_builds (be_env b) cfg" using constructible_builds [OF v(1)] assms(1) by (auto simp: good_world_def)
  from built_config_applies [OF v this g assms(4)] obtain st' where
    u: "UpdateCache (be_env b) cfg (rt_store rt) = (None, st')" "coherent (env_regexp (be_env b)) st'" "matches (env_regexp (be_env b)) cfg st'" by blast
  then have "observe st' r key = configured (env_regexp (be_env b)) cfg r key" for r key using observe_configured by blast
  then show ?thesis using u by (simp add: runtime_UpdateCache_def)
qed

lemma reload_outcome:
  assumes "good_world lib b" "version_ok lib b w" "coherent (env_regexp (be_env b)) (rt_store rt)" "reloadAndApplyBusinessConfig b w rt = (res, rt')"
  shows "coherent (env_regexp (be_env b)) (rt_store rt') \<and> rt_system rt' = rt_system rt \<and> (res = None \<longrightarrow> rt' = rt) \<and>
    (\<forall>cfg. res = Some cfg \<longrightarrow> ValidateConfig (env_regexp (be_env b)) (be_ip b) cfg = None \<and>
       (\<forall>r key. observe (rt_store rt') r key = configured (env_regexp (be_env b)) cfg r key))"
proof (cases "loadConfigPair b w")
  case (Inl err)
  then show ?thesis using assms(3,4) by (auto simp: reloadAndApplyBusinessConfig_def)
next
  case (Inr x)
  obtain sys biz cfg where x: "x = (sys, biz, cfg)" by (metis surj_pair)
  show ?thesis
  proof (cases "CheckSystemConfigStable sys rt")
    case (Some err)
    then show ?thesis using assms(3,4) Inr x by (auto simp: reloadAndApplyBusinessConfig_def)
  next
    case None
    obtain rt1 where r: "runtime_UpdateCache b cfg rt = (None, rt1)" "coherent (env_regexp (be_env b)) (rt_store rt1)"
      "rt_system rt1 = rt_system rt" "\<forall>r key. observe (rt_store rt1) r key = configured (env_regexp (be_env b)) cfg r key"
      using apply_loaded [OF assms(1,2) _ assms(3), of sys biz cfg] Inr x by blast
    have "res = Some cfg" "rt' = rt1" using assms(4) Inr x None r(1) by (simp_all add: reloadAndApplyBusinessConfig_def)
    then show ?thesis using r loaded_config [of b w sys biz cfg] Inr x assms(1) by (simp add: good_world_def)
  qed
qed

section \<open>The service\<close>

definition service_ok :: "boot_env \<Rightarrow> system_config \<Rightarrow> service \<Rightarrow> bool" where
  "service_ok b sys s \<longleftrightarrow>
     (sv_exit s = None \<longrightarrow>
        coherent (env_regexp (be_env b)) (rt_store (sv_runtime s)) \<and> rt_system (sv_runtime s) = Some sys \<and>
        ValidateConfig (env_regexp (be_env b)) (be_ip b) (sv_applied s) = None \<and>
        (\<forall>r key. observe (rt_store (sv_runtime s)) r key = configured (env_regexp (be_env b)) (sv_applied s) r key))"

lemma watch_tick_frame:
  "sv_runtime (watch_tick b s) = sv_runtime s" "sv_exit (watch_tick b s) = sv_exit s" "sv_applied (watch_tick b s) = sv_applied s"
  "sv_world (watch_tick b s) = sv_world s" "sv_past (watch_tick b s) = sv_past s" "sv_loaded (watch_tick b s) = sv_loaded s"
  "sv_reloading (watch_tick b s) = sv_reloading s"
  by (simp_all add: watch_tick_def split: sum.splits)

lemma service_step_ok:
  assumes "good_world lib b" "version_ok lib b (sv_world s)" "service_ok b sys s" "service_step b l s = Some s'"
  shows "service_ok b sys s'"
proof (cases l)
  case Reload
  then have s: "sv_exit s = None" "s' = reload b s" using assms(4) by (auto split: if_splits)
  obtain res rt where r: "reloadAndApplyBusinessConfig b (sv_world s) (sv_runtime s) = (res, rt)" by fastforce
  have k: "coherent (env_regexp (be_env b)) (rt_store (sv_runtime s))" "rt_system (sv_runtime s) = Some sys"
    using assms(3) s(1) by (simp_all add: service_ok_def)
  note o = reload_outcome [OF assms(1,2) k(1) r]
  show ?thesis using assms(3) s r o k by (cases res) (simp_all add: service_ok_def reload_def)
next
  case WatchTick
  then show ?thesis using assms(3,4) by (auto simp: service_ok_def watch_tick_frame split: if_splits)
next
  case (Signal sg)
  then show ?thesis using assms(3,4) by (auto simp: service_ok_def shutdown_def split: if_splits)
qed (use assms in \<open>auto simp: service_ok_def split: if_splits\<close>)

text \<open>The versions of the files that a run brings.\<close>

fun new_worlds :: "service_label \<Rightarrow> surroundings list" where
  "new_worlds (WorldChanges w) = [w]"
| "new_worlds l = []"

lemma step_world:
  assumes "service_step b l s = Some s'"
  shows "sv_world s' = sv_world s \<or> sv_world s' \<in> set (new_worlds l)"
  using assms by (cases l) (auto simp: watch_tick_frame reload_def shutdown_def split: if_splits prod.splits option.splits)

lemma Run_start_parts:
  assumes "Run_start b args logInit w0 w1 = Inr s"
  obtains sys biz cfg rt fp where "loadConfigPair b w0 = Inr (sys, biz, cfg)"
    "runtime_UpdateCache b cfg \<lparr>rt_store = NewStore, rt_system = Some sys\<rparr> = (None, rt)" "readConfigFingerprint b w1 = Inr fp"
    "sv_runtime s = rt" "sv_applied s = cfg" "sv_exit s = None" "sv_world s = w1" "sv_loaded s = w0" "sv_print s = fp"
    "\<not> sv_chan s" "\<not> sv_reloading s" "sv_past s = (if w1 = w0 then [] else [w0])"
proof -
  obtain sys biz cfg where l: "loadConfigPair b w0 = Inr (sys, biz, cfg)" and a: "args = ArgsOk"
    using assms by (auto simp: Run_start_def split: args_outcome.splits sum.splits)
  obtain fp where f: "readConfigFingerprint b w1 = Inr fp"
    using assms l a by (auto simp: Run_start_def split: sum.splits option.splits prod.splits)
  obtain err rt where u: "runtime_UpdateCache b cfg \<lparr>rt_store = NewStore, rt_system = Some sys\<rparr> = (err, rt)" by fastforce
  have e: "err = None"
    using assms l a u by (cases err) (auto simp: Run_start_def SeedSystemConfig_def NewRuntime_def split: sum.splits option.splits prod.splits)
  show ?thesis
    by (rule that [OF l u [unfolded e] f])
      (use assms l a u e f in \<open>auto simp: Run_start_def SeedSystemConfig_def NewRuntime_def split: option.splits prod.splits\<close>)
qed

lemma start_ok:
  assumes "good_world lib b" "version_ok lib b w0" "Run_start b args logInit w0 w1 = Inr s" "loadConfigPair b w0 = Inr (sys, biz, cfg)"
  shows "service_ok b sys s"
proof -
  obtain rt where p: "runtime_UpdateCache b cfg \<lparr>rt_store = NewStore, rt_system = Some sys\<rparr> = (None, rt)" "sv_runtime s = rt" "sv_applied s = cfg"
    using assms(3,4) by (auto elim!: Run_start_parts)
  have c: "coherent (env_regexp (be_env b)) (rt_store \<lparr>rt_store = NewStore, rt_system = Some sys\<rparr>)" by (simp add: coherent_NewStore)
  show ?thesis using apply_loaded [OF assms(1,2,4) c] p loaded_config [OF assms(4)] assms(1) by (simp add: service_ok_def good_world_def)
qed

lemma service_steps_ok:
  assumes "good_world lib b" "service_ok b sys s0" "version_ok lib b (sv_world s0)" "service_steps b ls s0 = Some s"
    "list_all (version_ok lib b) (concat (map new_worlds ls))"
  shows "service_ok b sys s \<and> version_ok lib b (sv_world s)"
proof (rule service_runs.invariant_along [where P = "\<lambda>s. service_ok b sys s \<and> version_ok lib b (sv_world s)"
      and L = "{l. list_all (version_ok lib b) (new_worlds l)}", OF _ assms(4)])
  fix l s s'
  assume a: "l \<in> {l. list_all (version_ok lib b) (new_worlds l)}" "service_ok b sys s \<and> version_ok lib b (sv_world s)" "service_step b l s = Some s'"
  have "service_ok b sys s'" using service_step_ok [OF assms(1) _ _ a(3)] a(2) by blast
  moreover have "version_ok lib b (sv_world s')" using step_world [OF a(3)] a(1,2) by (auto simp: list_all_iff)
  ultimately show "service_ok b sys s' \<and> version_ok lib b (sv_world s')" by blast
qed (use assms(2,3,5) in \<open>auto simp: list_all_iff\<close>)

lemma service_world_after:
  assumes "reloadAndApplyBusinessConfig b w rt = (res, rt')" "rt_system rt = Some sys" "good_world lib b" "version_ok lib b w"
    "coherent (env_regexp (be_env b)) (rt_store rt)"
  shows "res = (case loadConfigPair b w of Inl err \<Rightarrow> None | Inr (sys', biz, cfg) \<Rightarrow> if sys' = sys then Some cfg else None)"
proof (cases "loadConfigPair b w")
  case (Inr x)
  obtain sys' biz cfg where x: "x = (sys', biz, cfg)" by (metis surj_pair)
  obtain rt1 where "runtime_UpdateCache b cfg rt = (None, rt1)" using apply_loaded [OF assms(3,4) _ assms(5)] Inr x by blast
  then show ?thesis using assms(1,2) Inr x
    by (auto simp: reloadAndApplyBusinessConfig_def CheckSystemConfigStable_def split: if_splits)
qed (use assms(1) in \<open>auto simp: reloadAndApplyBusinessConfig_def\<close>)

text \<open>The configuration a load yields, if it may be applied under the system configuration \<open>sys\<close>.\<close>

definition next_config :: "boot_env \<Rightarrow> system_config \<Rightarrow> surroundings \<Rightarrow> config option" where
  "next_config b sys w =
     (case loadConfigPair b w of Inl err \<Rightarrow> None | Inr (sys', biz, cfg) \<Rightarrow> if sys' = sys then Some cfg else None)"

text \<open>C1: from its start until it stops, whatever files change, ticks pass and signals come, the service runs the last
  configuration that took effect: that one was validated, receivers, selectors, tasks, pipelines and senders are observably those
  it asks for, and the system configuration is the one of the start. A reload puts the files of that moment into effect when they load, are valid and
  keep the system configuration, and otherwise leaves the runtime as it was. The runtime builds senders and receivers with the
  constructors of the program; the condition is that every version of the files that the service gets to see, if it loads and
  \<open>Validate\<close> accepts it, has senders and receivers that can be constructed (\<open>constructible\<close>: the libraries do their
  part, and the fields that \<open>Validate\<close> does not check are right, see \<open>Constructors\<close>). A version that breaks it makes an update
  fail in the middle, after which the runtime may be neither the old configuration nor the new one
  (\<open>failed_update_leaves_stale_routes\<close>). Also assumed: goroutine pools and \<open>json.Marshal\<close> do not fail, and decoded maps have no key twice.\<close>

theorem service_runs_last_good_config:
  assumes "good_world lib b" "list_all (version_ok lib b) (w0 # w1 # concat (map new_worlds ls))"
    and "loadConfigPair b w0 = Inr (sys, biz, cfg)" "Run_start b args logInit w0 w1 = Inr s0"
    and "service_steps b ls s0 = Some s" "sv_exit s = None"
  shows "rt_system (sv_runtime s) = Some sys \<and>
    ValidateConfig (env_regexp (be_env b)) (be_ip b) (sv_applied s) = None \<and>
    observe (rt_store (sv_runtime s)) r key = configured (env_regexp (be_env b)) (sv_applied s) r key \<and>
    (case next_config b sys (sv_world s) of
       Some cfg' \<Rightarrow> sv_applied (reload b s) = cfg' \<and>
         observe (rt_store (sv_runtime (reload b s))) r key = configured (env_regexp (be_env b)) cfg' r key
     | None \<Rightarrow> sv_applied (reload b s) = sv_applied s \<and> sv_runtime (reload b s) = sv_runtime s)"
proof -
  have w: "version_ok lib b w0" "version_ok lib b w1" "list_all (version_ok lib b) (concat (map new_worlds ls))" using assms(2) by simp_all
  have "sv_world s0 = w1" using assms(4) by (auto elim: Run_start_parts)
  then have ok: "service_ok b sys s" "version_ok lib b (sv_world s)"
    using service_steps_ok [OF assms(1) start_ok [OF assms(1) w(1) assms(4,3)] _ assms(5) w(3)] w(2) by simp_all
  then have k: "coherent (env_regexp (be_env b)) (rt_store (sv_runtime s))" "rt_system (sv_runtime s) = Some sys"
    using assms(6) by (simp_all add: service_ok_def)
  obtain res rt where r: "reloadAndApplyBusinessConfig b (sv_world s) (sv_runtime s) = (res, rt)" by fastforce
  have "res = next_config b sys (sv_world s)" using service_world_after [OF r k(2) assms(1) ok(2) k(1)] by (simp add: next_config_def)
  then show ?thesis using ok assms(6) r reload_outcome [OF assms(1) ok(2) k(1) r] by (simp add: service_ok_def reload_def split: option.splits)
qed

section \<open>The watcher\<close>

definition history :: "service \<Rightarrow> surroundings list" where "history s = sv_past s @ [sv_world s]"

text \<open>
  What the watcher last saw and what was last loaded are at two places of the history of the world, and unless a message
  or a load is pending the load came not before the sight.
\<close>

definition watched :: "boot_env \<Rightarrow> service \<Rightarrow> nat \<Rightarrow> nat \<Rightarrow> bool" where
  "watched b s i j \<longleftrightarrow> i < length (history s) \<and> j < length (history s) \<and>
     readConfigFingerprint b (history s ! i) = Inr (sv_print s) \<and> history s ! j = sv_loaded s \<and>
     (sv_chan s \<or> sv_reloading s \<or> i \<le> j)"

definition watch_ok :: "boot_env \<Rightarrow> service \<Rightarrow> bool" where
  "watch_ok b s \<longleftrightarrow> sv_exit s = None \<longrightarrow> (\<exists>i j. watched b s i j)"

lemma history_last: "history s ! length (sv_past s) = sv_world s" "length (history s) = Suc (length (sv_past s))"
  by (simp_all add: history_def nth_append)

lemma watch_step_ok:
  assumes "watch_ok b s" "service_step b l s = Some s'"
  shows "watch_ok b s'"
proof (cases "sv_exit s = None")
  case True
  then obtain i j where ij: "watched b s i j" using assms(1) by (auto simp: watch_ok_def)
  show ?thesis
  proof (cases l)
    case (WorldChanges w)
    then have "history s' = history s @ [w]" "sv_print s' = sv_print s" "sv_loaded s' = sv_loaded s" "sv_chan s' = sv_chan s"
      "sv_reloading s' = sv_reloading s" using assms(2) by (auto simp: history_def)
    then have "watched b s' i j" using ij by (simp add: watched_def nth_append)
    then show ?thesis by (auto simp: watch_ok_def)
  next
    case WatchTick
    then have s': "s' = watch_tick b s" using assms(2) by (auto split: if_splits)
    show ?thesis
    proof (cases "s' = s")
      case True
      then show ?thesis using assms(1) by simp
    next
      case False
      then obtain fp where f: "readConfigFingerprint b (sv_world s) = Inr fp" "s' = s\<lparr>sv_print := fp, sv_chan := True\<rparr>"
        using s' by (auto simp: watch_tick_def split: sum.splits if_splits)
      then have "history s' = history s" by (simp add: history_def)
      then have "watched b s' (length (sv_past s)) j" using ij f by (simp add: watched_def history_last)
      then show ?thesis by (auto simp: watch_ok_def)
    qed
  next
    case Reload
    then have s': "s' = reload b s" using assms(2) by (auto split: if_splits)
    have "history s' = history s" "sv_print s' = sv_print s" "sv_loaded s' = sv_world s"
      using s' by (simp_all add: reload_def history_def split: option.splits prod.splits)
    then have "watched b s' i (length (sv_past s))" using ij by (auto simp: watched_def history_last)
    then show ?thesis by (auto simp: watch_ok_def)
  next
    case (Signal sg)
    then have "sv_exit s' \<noteq> None \<or> s' = s\<lparr>sv_reloading := True\<rparr> \<or> s' = s" using assms(2) by (auto simp: shutdown_def split: if_splits)
    moreover have "watched b (s\<lparr>sv_reloading := True\<rparr>) i j" using ij by (simp add: watched_def history_def)
    ultimately show ?thesis using assms(1) by (auto simp: watch_ok_def)
  next
    case ConfigChanged
    then have "s' = s\<lparr>sv_chan := False, sv_reloading := True\<rparr>" using assms(2) by (auto split: if_splits)
    then have "watched b s' i j" using ij by (simp add: watched_def history_def)
    then show ?thesis by (auto simp: watch_ok_def)
  qed
next
  case False
  then have "sv_exit s' \<noteq> None" using assms(2) by (cases l) (auto split: if_splits)
  then show ?thesis unfolding watch_ok_def by (rule impI [OF notE])
qed

lemma watch_steps_ok:
  assumes "watch_ok b s0" "service_steps b ls s0 = Some s"
  shows "watch_ok b s"
  by (rule service_runs.invariant [where P = "watch_ok b", OF watch_step_ok assms(2,1)])

text \<open>The present content of the file, once there, has stayed: it was not there, removed and written again.\<close>

definition settled :: "boot_env \<Rightarrow> service \<Rightarrow> bool" where
  "settled b s \<longleftrightarrow>
     (let now = (\<lambda>w. readConfigFingerprint b w = readConfigFingerprint b (sv_world s))
      in list_all now (dropWhile (\<lambda>w. \<not> now w) (history s)))"

lemma settled_after:
  assumes "list_all P (dropWhile (\<lambda>x. \<not> P x) xs)" "P (xs ! i)" "i \<le> j" "j < length xs"
  shows "P (xs ! j)"
proof -
  let ?k = "length (takeWhile (\<lambda>x. \<not> P x) xs)"
  have "?k \<le> i" using assms(2) by (metis not_le_imp_less nth_mem takeWhile_nth set_takeWhileD)
  then have "xs ! j = dropWhile (\<lambda>x. \<not> P x) xs ! (j - ?k)" "j - ?k < length (dropWhile (\<lambda>x. \<not> P x) xs)"
    using assms(3,4) by (auto simp: dropWhile_eq_drop)
  then show ?thesis using assms(1) by (auto simp: list_all_length)
qed

text \<open>Nothing is pending.\<close>

definition quiet :: "service \<Rightarrow> bool" where
  "quiet s \<longleftrightarrow> \<not> sv_chan s \<and> \<not> sv_reloading s"

lemma watched_caught_up:
  assumes "watch_ok b s" "sv_exit s = None" "quiet s" "settled b s" "readConfigFingerprint b (sv_world s) = Inr (sv_print s)"
  shows "readConfigFingerprint b (sv_loaded s) = readConfigFingerprint b (sv_world s)"
proof -
  obtain i j where w: "watched b s i j" using assms(1,2) by (auto simp: watch_ok_def)
  define P where "P = (\<lambda>w. readConfigFingerprint b w = readConfigFingerprint b (sv_world s))"
  have "P (history s ! j)"
  proof (rule settled_after [of P "history s" i j])
    show "list_all P (dropWhile (\<lambda>x. \<not> P x) (history s))" using assms(4) by (simp add: settled_def P_def)
  qed (use w assms(3,5) in \<open>auto simp: watched_def quiet_def P_def\<close>)
  then show ?thesis using w by (simp add: P_def watched_def)
qed

lemma settled_frame: "settled b s \<Longrightarrow> history t = history s \<Longrightarrow> settled b t"
  using history_last by (metis settled_def last_snoc history_def)

text \<open>The pending work of the loop, and then one tick and what follows it.\<close>

lemma loop_catches_up:
  assumes "sv_exit s = None" "readConfigFingerprint b (sv_world s) = Inr fp"
  shows "\<exists>ls s'. set ls \<subseteq> {WatchTick, ConfigChanged, Reload} \<and> length ls \<le> 4 \<and> service_steps b ls s = Some s' \<and> quiet s' \<and>
    sv_exit s' = None \<and> history s' = history s \<and> sv_print s' = fp"
proof -
  have r: "sv_exit (reload b t) = sv_exit t \<and> history (reload b t) = history t \<and> sv_print (reload b t) = sv_print t \<and>
      sv_chan (reload b t) = sv_chan t \<and> \<not> sv_reloading (reload b t)" for t
    by (simp add: reload_def history_def split: option.splits prod.splits)
  define s1 where "s1 = watch_tick b s"
  have s1: "service_step b WatchTick s = Some s1" "sv_exit s1 = None" "history s1 = history s" "sv_print s1 = fp"
    using assms by (auto simp: s1_def watch_tick_def history_def)
  define s2 where "s2 = (if sv_reloading s1 then reload b s1 else s1)"
  have s2: "service_steps b (if sv_reloading s1 then [Reload] else []) s1 = Some s2" "sv_exit s2 = None" "history s2 = history s"
    "sv_print s2 = fp" "\<not> sv_reloading s2"
    using s1 r by (auto simp: s2_def)
  define s3 where "s3 = (if sv_chan s2 then reload b (s2\<lparr>sv_chan := False, sv_reloading := True\<rparr>) else s2)"
  have s3: "service_steps b (if sv_chan s2 then [ConfigChanged, Reload] else []) s2 = Some s3" "sv_exit s3 = None" "history s3 = history s"
    "sv_print s3 = fp" "quiet s3"
    using s2 r by (auto simp: s3_def quiet_def history_def)
  show ?thesis
    by (rule exI [of _ "WatchTick # (if sv_reloading s1 then [Reload] else []) @ (if sv_chan s2 then [ConfigChanged, Reload] else [])"], rule exI [of _ s3])
      (use s1 s2 s3 in \<open>auto simp: service_runs.steps_append\<close>)
qed

lemma start_watch_ok:
  assumes "Run_start b args logInit w w = Inr s0"
  shows "watch_ok b s0"
proof -
  have "watched b s0 0 0" using assms by (auto elim!: Run_start_parts simp: watched_def history_def)
  then show ?thesis by (auto simp: watch_ok_def)
qed

text \<open>C23: when the start has seen one version of the files, the watcher loses no change of the business file: once the present
  content has come to stay and the watcher has seen it with nothing pending, it is the content that was loaded; and from any
  running state one tick and at most three steps of the loop lead there. (Content that goes and comes back may be missed.)\<close>

theorem watcher_catches_up:
  assumes "Run_start b args logInit w w = Inr s0" "service_steps b ls s0 = Some s" "sv_exit s = None"
    and "settled b s" "readConfigFingerprint b (sv_world s) = Inr fp"
  shows "(quiet s \<and> sv_print s = fp \<longrightarrow> readConfigFingerprint b (sv_loaded s) = Inr fp) \<and>
    (\<exists>ls' s'. set ls' \<subseteq> {WatchTick, ConfigChanged, Reload} \<and> length ls' \<le> 4 \<and> service_steps b ls' s = Some s' \<and>
       quiet s' \<and> sv_exit s' = None \<and> sv_world s' = sv_world s \<and> readConfigFingerprint b (sv_loaded s') = Inr fp)"
proof -
  have ok: "watch_ok b s" by (rule watch_steps_ok [OF start_watch_ok [OF assms(1)] assms(2)])
  obtain ls' s' where l: "set ls' \<subseteq> {WatchTick, ConfigChanged, Reload}" "length ls' \<le> 4" "service_steps b ls' s = Some s'" "quiet s'"
    "sv_exit s' = None" "history s' = history s" "sv_print s' = fp"
    using loop_catches_up [OF assms(3,5)] by blast
  have w: "sv_world s' = sv_world s" using l(6) by (simp add: history_def)
  have "readConfigFingerprint b (sv_loaded s') = Inr fp"
    using watched_caught_up [OF watch_steps_ok [OF ok l(3)] l(5,4) settled_frame [OF assms(4) l(6)]] assms(5) l(7) w by simp
  then show ?thesis using watched_caught_up [OF ok assms(3) _ assms(4)] assms(5) l w by auto
qed

section \<open>A change that is missed\<close>

lemma quiet_stays:
  assumes "quiet s" "readConfigFingerprint b (sv_world s) = Inr (sv_print s)" "service_steps b ls s = Some s'"
    "set ls \<subseteq> {WatchTick, ConfigChanged, Reload}"
  shows "s' = s"
  using assms(3,4)
proof (induction ls)
  case (Cons l ls)
  have "service_step b l s = None \<or> service_step b l s = Some s"
    using Cons.prems(2) assms(1,2) by (cases l) (auto simp: quiet_def watch_tick_def split: if_splits)
  then show ?case using Cons by (auto split: option.splits)
qed simp

text \<open>C24: a change of the business file between the load of the start and the first fingerprint, which is taken only after
  the runtime was built, is missed: the watcher takes the new content for the one that is running, and until a signal comes
  or the file changes once more the service stays with the old configuration, however many ticks pass.\<close>

theorem change_during_start_is_missed:
  assumes "loadConfigPair b w0 = Inr (sys, biz, cfg)" "Run_start b args logInit w0 w1 = Inr s0"
    and "service_steps b ls s0 = Some s" "set ls \<subseteq> {WatchTick, ConfigChanged, Reload}"
  shows "s = s0 \<and> sv_world s = w1 \<and> sv_loaded s = w0 \<and> sv_applied s = cfg"
proof -
  have p: "readConfigFingerprint b w1 = Inr (sv_print s0)" "sv_applied s0 = cfg" "sv_world s0 = w1" "sv_loaded s0 = w0" "quiet s0"
    using assms(1,2) by (auto elim!: Run_start_parts simp: quiet_def)
  have "s = s0" by (rule quiet_stays [OF p(5) _ assms(3,4)]) (simp add: p)
  then show ?thesis using p by simp
qed

section \<open>A service that starts\<close>

lemma Run_start_ok:
  assumes "good_world lib b" "version_ok lib b w0" "loadConfigPair b w0 = Inr (sys, biz, cfg)" "parse_duration (lc_TrafficStatsInterval (cfg_Logging cfg)) = Some d"
    "readConfigFingerprint b w1 = Inr fp"
  shows "\<exists>s. Run_start b ArgsOk None w0 w1 = Inr s"
proof -
  have c: "coherent (env_regexp (be_env b)) (rt_store \<lparr>rt_store = NewStore, rt_system = Some sys\<rparr>)" by (simp add: coherent_NewStore)
  obtain rt where u: "runtime_UpdateCache b cfg \<lparr>rt_store = NewStore, rt_system = Some sys\<rparr> = (None, rt)"
    using apply_loaded [OF assms(1-3) c] by blast
  have m: "fst (manager_Start service_registrars False initScheduleManager) = None" by code_simp
  then show ?thesis using assms(3-5) u
    by (cases "manager_Start service_registrars False initScheduleManager") (simp add: Run_start_def SeedSystemConfig_def NewRuntime_def)
qed

text \<open>A file with the byte 1 holds one configuration, with the byte 2 another.\<close>

definition sample_boot :: boot_env where
  "sample_boot = \<lparr>be_env = program_env granting_libraries ''info'' granting_env, be_ip = \<lambda>_. True, be_ncpu = 4,
     be_system = (\<lambda>bs. JsonValue sample_system []),
     be_business = (\<lambda>bs. if bs = [1] then JsonValue (sample_business (sample_task_config (Some [''p'']))) []
        else if bs = [2] then JsonValue (sample_business (sample_task_config (Some [''p'', ''p'']))) [] else JsonError (errors_New ''syntax'')),
     be_end = (\<lambda>bs. if bs = [] then JsonEOF else JsonError (errors_New ''syntax'')),
     be_sha256 = (\<lambda>bs. if bs = [1] then ''one'' else if bs = [2] then ''two'' else '''')\<rparr>"

definition sample_outside :: "bytes \<Rightarrow> surroundings" where
  "sample_outside bs = \<lparr>fs_system = Inr [], fs_business = Inr bs, api_answer = Inl (errors_New ''none'')\<rparr>"

lemma sample_boot_good: "good_world granting_libraries sample_boot"
proof -
  have "biz_wf (sample_business (sample_task_config ps))" for ps
    by (simp add: biz_wf_def sample_business_def valid_sample_def wf_map_def wf_stages_def wf_selectors_def)
  then have "decodes_maps sample_boot" by (auto simp: decodes_maps_def sample_boot_def split: if_splits)
  moreover have "be_env sample_boot = program_env granting_libraries ''info'' granting_env" by (simp add: sample_boot_def)
  ultimately show ?thesis using granting_env_hyps unfolding good_world_def by auto
qed

lemma sample_boot_parts: "env_regexp (be_env sample_boot) = (\<lambda>_. Inl (Errorf [] []))" "be_ip sample_boot = (\<lambda>_. True)" "be_ncpu sample_boot = 4"
  by (simp_all add: sample_boot_def granting_env_def)

lemma sample_valid:
  assumes "ps = Some [''p''] \<or> ps = Some [''p'', ''p'']"
  shows "ValidateConfig (env_regexp (be_env sample_boot)) (be_ip sample_boot) (sample_loaded_config ps) = None"
  unfolding sample_boot_parts ValidateConfig_def first_err_steps
  using assms sample_sections1 sample_sections2 sample_present [OF assms] sample_logging [of ps]
  by (elim disjE) (simp_all add: info_level validateLoggingConfig_def first_err_steps positive_duration_def sample_duration fail_if_def del: first_err_None)

lemma sample_loads:
  assumes "bs = [1] \<and> ps = Some [''p''] \<or> bs = [2] \<and> ps = Some [''p'', ''p'']"
  shows "loadConfigPair sample_boot (sample_outside bs) = Inr (SystemConfig_ApplyDefaults sample_system, sample_business (sample_task_config ps), sample_loaded_config ps)"
proof -
  have v: "ValidateConfig (env_regexp (be_env sample_boot)) (be_ip sample_boot) (sample_loaded_config ps) = None" by (rule sample_valid) (use assms in auto)
  have "LoadLocalPair sample_boot (sample_outside bs) =
      Inr (sample_system, sample_business (sample_task_config ps), Merge sample_system (sample_business (sample_task_config ps)))"
    using assms by (auto simp: LoadLocalPair_def LoadSystemLocal_def LoadBusinessLocal_def sample_outside_def sample_boot_def decodeJSONStrict_def)
  then show ?thesis using v sample_system_defaults by (simp add: loadConfigPair_def Let_def sample_loaded_config_def sample_boot_parts(3))
qed

lemma sample_version_ok:
  assumes "bs = [1] \<and> ps = Some [''p''] \<or> bs = [2] \<and> ps = Some [''p'', ''p'']"
  shows "version_ok granting_libraries sample_boot (sample_outside bs)"
proof -
  have "constructible granting_libraries (sample_loaded_config ps)"
    using sample_ends [of ps] by (auto simp: constructible_def sender_constructible_def receiver_constructible_def granting_libraries_def)
  then show ?thesis using sample_loads [OF assms] by (simp add: version_ok_def)
qed

definition sample_service :: "bytes \<Rightarrow> bytes \<Rightarrow> service" where
  "sample_service bs bs' = projr (Run_start sample_boot ArgsOk None (sample_outside bs) (sample_outside bs'))"

lemma sample_starts:
  assumes "bs = [1] \<and> ps = Some [''p''] \<or> bs = [2] \<and> ps = Some [''p'', ''p'']"
  shows "Run_start sample_boot ArgsOk None (sample_outside bs) (sample_outside bs') = Inr (sample_service bs bs')"
proof -
  have "readConfigFingerprint sample_boot (sample_outside bs') = Inr (be_sha256 sample_boot bs')"
    by (simp add: readConfigFingerprint_def sample_outside_def)
  from Run_start_ok [OF sample_boot_good sample_version_ok [OF assms] sample_loads [OF assms] _ this] sample_duration sample_logging(1) show ?thesis
    by (fastforce simp: sample_service_def)
qed



theorem service_runs_last_good_config_witness:
  "sv_applied (reload sample_boot (sample_service [1] [2])) = sample_loaded_config (Some [''p'', ''p''])"
proof -
  have st: "Run_start sample_boot ArgsOk None (sample_outside [1]) (sample_outside [2]) = Inr (sample_service [1] [2])"
    by (rule sample_starts) auto
  have p: "sv_exit (sample_service [1] [2]) = None" "sv_world (sample_service [1] [2]) = sample_outside [2]"
    using st by (auto elim: Run_start_parts)
  have n: "next_config sample_boot (SystemConfig_ApplyDefaults sample_system) (sample_outside [2]) = Some (sample_loaded_config (Some [''p'', ''p'']))"
    using sample_loads [of "[2]" "Some [''p'', ''p'']"] by (simp add: next_config_def)
  have l: "loadConfigPair sample_boot (sample_outside [1]) = Inr (SystemConfig_ApplyDefaults sample_system, sample_business (sample_task_config (Some [''p''])), sample_loaded_config (Some [''p'']))"
    by (rule sample_loads) simp
  have r: "service_steps sample_boot [] (sample_service [1] [2]) = Some (sample_service [1] [2])" by simp
  have v: "list_all (version_ok granting_libraries sample_boot) (sample_outside [1] # sample_outside [2] # concat (map new_worlds []))"
    using sample_version_ok [of "[1]" "Some [''p'']"] sample_version_ok [of "[2]" "Some [''p'', ''p'']"] by simp
  show ?thesis using service_runs_last_good_config [OF sample_boot_good v l st r p(1)] p(2) n by simp
qed

theorem watcher_catches_up_witness:
  "\<exists>s'. quiet s' \<and> readConfigFingerprint sample_boot (sv_loaded s') = Inr ''two''"
proof -
  let ?s = "sample_service [1] [1]"
  have st: "Run_start sample_boot ArgsOk None (sample_outside [1]) (sample_outside [1]) = Inr ?s"
    by (rule sample_starts) auto
  have p: "sv_exit ?s = None" "sv_past ?s = []" "sv_world ?s = sample_outside [1]"
    using st by (auto elim: Run_start_parts)
  define t where "t = ?s\<lparr>sv_world := sample_outside [2], sv_past := [sample_outside [1]]\<rparr>"
  have t: "service_steps sample_boot [WorldChanges (sample_outside [2])] ?s = Some t" "sv_exit t = None" "sv_world t = sample_outside [2]"
    using p by (simp_all add: t_def)
  have f: "readConfigFingerprint sample_boot (sample_outside [1]) = Inr ''one''" "readConfigFingerprint sample_boot (sample_outside [2]) = Inr ''two''"
    by (simp_all add: readConfigFingerprint_def sample_outside_def sample_boot_def)
  have "settled sample_boot t" by (simp add: settled_def history_def t_def f)
  from watcher_catches_up [OF st t(1,2) this] t(3) f(2) show ?thesis by auto
qed

theorem change_during_start_is_missed_witness:
  "sv_applied (the (service_steps sample_boot [WatchTick, WatchTick] (sample_service [1] [2]))) = sample_loaded_config (Some [''p'']) \<and>
   next_config sample_boot (SystemConfig_ApplyDefaults sample_system) (sample_outside [2]) = Some (sample_loaded_config (Some [''p'', ''p'']))"
proof -
  let ?s = "sample_service [1] [2]"
  have st: "Run_start sample_boot ArgsOk None (sample_outside [1]) (sample_outside [2]) = Inr ?s"
    by (rule sample_starts) auto
  have "sv_exit ?s = None" using st by (auto elim: Run_start_parts)
  then obtain s where s: "service_steps sample_boot [WatchTick, WatchTick] ?s = Some s" by (simp add: watch_tick_frame)
  have l: "loadConfigPair sample_boot (sample_outside [1]) = Inr (SystemConfig_ApplyDefaults sample_system, sample_business (sample_task_config (Some [''p''])), sample_loaded_config (Some [''p'']))"
    by (rule sample_loads) simp
  have "sv_applied s = sample_loaded_config (Some [''p''])" using change_during_start_is_missed [OF l st s] by auto
  moreover have "next_config sample_boot (SystemConfig_ApplyDefaults sample_system) (sample_outside [2]) = Some (sample_loaded_config (Some [''p'', ''p'']))"
    using sample_loads [of "[2]" "Some [''p'', ''p'']"] by (simp add: next_config_def)
  ultimately show ?thesis unfolding s by simp
qed

end
