(* ===== verification/SkyddsProps.thy ===== *)
theory SkyddsProps
  imports Skydds "HOL-Library.Multiset"
begin

text \<open>
  The SkyDDS sender in all interleavings: no message is lost or written twice except after a failed write, every waiting batch
  has a timer, and what a late timer puts back after \<open>Close\<close> is never written. The receiver hands on what it drains.
\<close>

section \<open>The messages\<close>

definition flying :: "skydds_run \<Rightarrow> bytes list" where
  "flying r = concat (map snd (yr_flights r))"

definition messages_ok :: "skydds_run \<Rightarrow> bool" where
  "messages_ok r \<longleftrightarrow>
     mset (yr_accepted r) = mset (yr_batch r) + mset (flying r) + mset (yr_written r) + mset (yr_lost r) \<and>
     yr_batchBytes r = batch_bytes (yr_batch r)"

text \<open>A batch that waits in an open sender has its timer, which will fire or has fired and not yet run.\<close>

definition timer_waits :: "skydds_run \<Rightarrow> bool" where
  "timer_waits r \<longleftrightarrow> (\<exists>t. yr_flushTimer r = Some t \<and> (t \<in> set (yr_armed r) \<or> t \<in> set (yr_fired r)))"

definition skydds_ok :: "skydds_run \<Rightarrow> bool" where
  "skydds_ok r \<longleftrightarrow> messages_ok r \<and> (yr_batch r \<noteq> [] \<and> \<not> yr_closed r \<longrightarrow> timer_waits r)"

lemma batch_bytes_simps [simp]:
  "batch_bytes [] = 0" "batch_bytes (a @ b) = batch_bytes a + batch_bytes b" "batch_bytes (p # ps) = int (length p) + batch_bytes ps"
  by (simp_all add: batch_bytes_def)

lemma stop_timer_frame [simp]:
  "yr_closed (stop_timer r) = yr_closed r" "yr_batch (stop_timer r) = yr_batch r" "yr_batchBytes (stop_timer r) = yr_batchBytes r"
  "yr_fired (stop_timer r) = yr_fired r" "yr_timers (stop_timer r) = yr_timers r" "yr_flights (stop_timer r) = yr_flights r"
  "yr_accepted (stop_timer r) = yr_accepted r" "yr_written (stop_timer r) = yr_written r" "yr_lost (stop_timer r) = yr_lost r"
  "yr_writerClosed (stop_timer r) = yr_writerClosed r" "yr_flushTimer (stop_timer r) = yr_flushTimer r"
  by (simp_all add: stop_timer_def split: option.splits)

lemma start_timer_frame [simp]:
  "yr_closed (startFlushTimerLocked r) = yr_closed r" "yr_batch (startFlushTimerLocked r) = yr_batch r"
  "yr_batchBytes (startFlushTimerLocked r) = yr_batchBytes r" "yr_fired (startFlushTimerLocked r) = yr_fired r"
  "yr_flights (startFlushTimerLocked r) = yr_flights r" "yr_accepted (startFlushTimerLocked r) = yr_accepted r"
  "yr_written (startFlushTimerLocked r) = yr_written r" "yr_lost (startFlushTimerLocked r) = yr_lost r"
  "yr_writerClosed (startFlushTimerLocked r) = yr_writerClosed r"
  by (simp_all add: startFlushTimerLocked_def Let_def)

lemma start_timer_waits [simp]: "timer_waits (startFlushTimerLocked r)"
  by (simp add: timer_waits_def startFlushTimerLocked_def Let_def)

lemma stop_flush_frame [simp]:
  "yr_closed (stopFlushTimerLocked r) = yr_closed r" "yr_batch (stopFlushTimerLocked r) = yr_batch r"
  "yr_batchBytes (stopFlushTimerLocked r) = yr_batchBytes r" "yr_fired (stopFlushTimerLocked r) = yr_fired r"
  "yr_flights (stopFlushTimerLocked r) = yr_flights r" "yr_accepted (stopFlushTimerLocked r) = yr_accepted r"
  "yr_written (stopFlushTimerLocked r) = yr_written r" "yr_lost (stopFlushTimerLocked r) = yr_lost r"
  "yr_writerClosed (stopFlushTimerLocked r) = yr_writerClosed r"
  by (simp_all add: stopFlushTimerLocked_def)

lemma fly_frame [simp]:
  "yr_closed (fly reason ps r) = yr_closed r" "yr_batch (fly reason ps r) = yr_batch r" "yr_batchBytes (fly reason ps r) = yr_batchBytes r"
  "yr_fired (fly reason ps r) = yr_fired r" "yr_armed (fly reason ps r) = yr_armed r" "yr_flushTimer (fly reason ps r) = yr_flushTimer r"
  "yr_accepted (fly reason ps r) = yr_accepted r" "yr_written (fly reason ps r) = yr_written r" "yr_lost (fly reason ps r) = yr_lost r"
  "yr_writerClosed (fly reason ps r) = yr_writerClosed r"
  by (simp_all add: fly_def)

lemma fly_flying [simp]: "flying (fly reason ps r) = flying r @ ps"
  by (simp add: fly_def flying_def)

lemma flying_cong: "yr_flights r = yr_flights t \<Longrightarrow> flying r = flying t"
  by (simp add: flying_def)

lemma drain_parts:
  "drainBatchLocked r = (yr_batch r, r\<lparr>yr_batch := [], yr_batchBytes := (if yr_batch r = [] then yr_batchBytes r else 0)\<rparr>)"
  by (simp add: drainBatchLocked_def)

lemma append_frame [simp]:
  "yr_closed (append_message msg r) = yr_closed r" "yr_batch (append_message msg r) = yr_batch r @ [msg]"
  "yr_batchBytes (append_message msg r) = yr_batchBytes r + int (length msg)" "yr_flights (append_message msg r) = yr_flights r"
  "yr_accepted (append_message msg r) = yr_accepted r" "yr_written (append_message msg r) = yr_written r"
  "yr_lost (append_message msg r) = yr_lost r" "flying (append_message msg r) = flying r"
  by (simp_all add: append_message_def Let_def flying_def)

lemma append_waits: "yr_batch r = [] \<or> timer_waits r \<Longrightarrow> timer_waits (append_message msg r)"
  by (auto simp: append_message_def Let_def timer_waits_def [of "r\<lparr>yr_batch := b, yr_batchBytes := n\<rparr>" for b n] timer_waits_def [of r])

lemma flying_fields [simp]:
  "flying (r\<lparr>yr_batch := b, yr_batchBytes := n\<rparr>) = flying r" "flying (stopFlushTimerLocked r) = flying r"
  "flying (r\<lparr>yr_accepted := acc\<rparr>) = flying r"
  by (simp_all add: flying_def)

lemma sendBatch_ok:
  assumes "skydds_ok r" "sendBatch s msg r = (err, r')"
  shows "skydds_ok r'"
proof (cases "yr_closed r")
  case True
  then show ?thesis using assms by (simp add: sendBatch_def)
next
  case False
  define q where "q = r\<lparr>yr_accepted := yr_accepted r @ [msg]\<rparr>"
  have m: "messages_ok r" "yr_batch r = [] \<or> timer_waits r" using assms(1) False by (auto simp: skydds_ok_def)
  then have "yr_batch q = [] \<or> timer_waits q" by (simp add: q_def timer_waits_def)
  note w = append_waits [OF this, of msg]
  consider (single) "r' = fly OversizeSingle [msg] q" "yr_batch q = []"
    | (flush) "r' = fly Threshold (yr_batch q @ [msg]) (stopFlushTimerLocked ((append_message msg q)\<lparr>yr_batch := [], yr_batchBytes := 0\<rparr>))"
    | (wait) "r' = append_message msg q"
    using assms(2) False by (auto simp: sendBatch_def Let_def drain_parts q_def split: if_splits)
  then show ?thesis
    by cases (use m w in \<open>simp_all add: skydds_ok_def messages_ok_def q_def\<close>)
qed

lemma flights_split:
  assumes "i < length (yr_flights r)"
  shows "yr_flights r = take i (yr_flights r) @ yr_flights r ! i # drop (Suc i) (yr_flights r)"
  using assms by (rule id_take_nth_drop)

lemma flying_remove:
  assumes "i < length (yr_flights r)"
  shows "mset (flying r) = mset (snd (yr_flights r ! i)) + mset (concat (map snd (take i (yr_flights r) @ drop (Suc i) (yr_flights r))))"
  by (subst flying_def, subst flights_split [OF assms]) simp

lemma write_returns_ok:
  assumes "skydds_ok r" "i < length (yr_flights r)"
  shows "skydds_ok (write_returns i ok r)"
proof -
  obtain reason ps where f: "yr_flights r ! i = (reason, ps)" by (cases "yr_flights r ! i")
  have l: "map snd ((yr_flights r)[i := (DelayFailed, ps)]) = map snd (yr_flights r)"
    using f assms(2) by (simp add: map_update list_update_same_conv)
  show ?thesis using assms(1) flying_remove [OF assms(2)] f l
    by (auto simp: skydds_ok_def messages_ok_def write_returns_def Let_def timer_waits_def flying_def ac_simps)
qed

lemma restore_ok:
  assumes "skydds_ok r" "i < length (yr_flights r)"
  shows "skydds_ok (restore_flight i r)"
proof -
  define ps where "ps = snd (yr_flights r ! i)"
  define q where "q = r\<lparr>yr_flights := take i (yr_flights r) @ drop (Suc i) (yr_flights r)\<rparr>"
  have m: "mset (flying r) = mset ps + mset (flying q)" using flying_remove [OF assms(2)] by (simp add: ps_def q_def flying_def)
  have g: "restore_flight i r = restoreBatchLocked ps q" by (simp add: restore_flight_def ps_def q_def)
  show ?thesis
  proof (cases "ps = []")
    case True
    then show ?thesis using assms(1) m by (simp add: g restoreBatchLocked_def skydds_ok_def messages_ok_def timer_waits_def q_def)
  next
    case False
    have e: "flying (startFlushTimerLocked (q\<lparr>yr_batch := b, yr_batchBytes := n\<rparr>)) = flying q" for b n by (simp add: flying_def)
    show ?thesis using False assms(1) m by (simp add: g restoreBatchLocked_def Let_def skydds_ok_def messages_ok_def e) (simp add: q_def)
  qed
qed

lemma close_ok: "skydds_ok r \<Longrightarrow> skydds_ok (skydds_Close r)"
proof -
  assume ok: "skydds_ok r"
  have e: "flying (stopFlushTimerLocked (r\<lparr>yr_closed := True, yr_batch := [], yr_batchBytes := n\<rparr>)) = flying r" for n by (simp add: flying_def)
  have e': "flying (stopFlushTimerLocked (r\<lparr>yr_closed := True, yr_batch := [], yr_batchBytes := n\<rparr>)\<lparr>yr_writerClosed := True\<rparr>) = flying r" for n
    by (simp add: flying_def)
  show ?thesis using ok e e' by (auto simp: skydds_ok_def messages_ok_def skydds_Close_def drain_parts Let_def)
qed

lemma timer_runs_ok:
  assumes "skydds_ok r"
  shows "skydds_ok (flushByTimer (r\<lparr>yr_fired := remove1 t (yr_fired r)\<rparr>))"
proof (cases "yr_closed r")
  case True
  then show ?thesis using assms by (simp add: flushByTimer_def skydds_ok_def messages_ok_def flying_def)
next
  case False
  have e: "flying (r\<lparr>yr_fired := f, yr_batch := [], yr_batchBytes := n, yr_flushTimer := None\<rparr>) = flying r" for f n by (simp add: flying_def)
  show ?thesis using assms False e by (auto simp: flushByTimer_def drain_parts Let_def skydds_ok_def messages_ok_def)
qed

lemma timer_fires_ok:
  assumes "skydds_ok r" "t \<in> set (yr_armed r)"
  shows "skydds_ok (r\<lparr>yr_armed := remove1 t (yr_armed r), yr_fired := yr_fired r @ [t]\<rparr>)"
proof -
  have "timer_waits (r\<lparr>yr_armed := remove1 t (yr_armed r), yr_fired := yr_fired r @ [t]\<rparr>)" if "timer_waits r"
    using that by (auto simp: timer_waits_def) (metis in_set_remove1)
  then show ?thesis using assms by (auto simp: skydds_ok_def messages_ok_def flying_def)
qed

lemma skydds_step_ok:
  assumes "skydds_ok r" "skydds_step s l r = Some r'"
  shows "skydds_ok r'"
proof (cases l)
  case (SendCalled p)
  have "skydds_ok (r\<lparr>yr_flights := yr_flights r @ [(Octet, [Payload p])], yr_accepted := yr_accepted r @ [Payload p]\<rparr>)"
    using assms(1) by (simp add: skydds_ok_def messages_ok_def flying_def timer_waits_def)
  then show ?thesis using SendCalled assms sendBatch_ok [OF assms(1), of s "Payload p"]
    by (cases "sendBatch s (Payload p) r") (auto simp: skydds_Send_def split: if_splits)
next
  case (TimerFires t)
  then show ?thesis using assms timer_fires_ok by (auto split: if_splits)
next
  case (TimerRuns t)
  then show ?thesis using assms timer_runs_ok by (auto split: if_splits)
next
  case (WriteReturns i ok)
  then show ?thesis using assms write_returns_ok by (auto split: if_splits)
next
  case (Restores i)
  then show ?thesis using assms restore_ok by (auto split: if_splits)
qed (use assms close_ok in auto)

lemma skydds_steps_ok: "skydds_ok r \<Longrightarrow> skydds_steps s ls r = Some r' \<Longrightarrow> skydds_ok r'"
  by (rule skydds.invariant [where P = skydds_ok, OF skydds_step_ok])

lemma new_skydds_ok: "skydds_ok new_skydds_run"
  by (simp add: new_skydds_run_def skydds_ok_def messages_ok_def flying_def)

section \<open>Everything is sent\<close>

definition write_fails :: "skydds_label \<Rightarrow> bool" where
  "write_fails l \<longleftrightarrow> (case l of WriteReturns i ok \<Rightarrow> \<not> ok | _ \<Rightarrow> False)"

text \<open>Without failed writes nothing is given up or restored, and a closed sender has no batch.\<close>

definition nothing_failed :: "skydds_run \<Rightarrow> bool" where
  "nothing_failed r \<longleftrightarrow> yr_lost r = [] \<and> DelayFailed \<notin> fst ` set (yr_flights r) \<and> (yr_closed r \<longrightarrow> yr_batch r = [])"

lemma nothing_failed_step:
  assumes "\<not> write_fails l" "nothing_failed r" "skydds_step s l r = Some r'"
  shows "nothing_failed r'"
proof (cases l)
  case (SendCalled p)
  then show ?thesis using assms
    by (auto simp: skydds_Send_def sendBatch_def nothing_failed_def Let_def drain_parts fly_def split: if_splits)
next
  case (TimerRuns t)
  then show ?thesis using assms by (auto simp: flushByTimer_def nothing_failed_def Let_def drain_parts fly_def split: if_splits)
next
  case (WriteReturns i ok)
  define fs where "fs = take i (yr_flights r) @ drop (Suc i) (yr_flights r)"
  have "fst ` set fs \<subseteq> fst ` set (yr_flights r)" by (auto simp: fs_def dest: in_set_takeD in_set_dropD)
  then have "DelayFailed \<notin> fst ` set fs" using assms(2) by (auto simp: nothing_failed_def)
  moreover have "ok" "r' = write_returns i ok r" using assms(1,3) WriteReturns by (auto simp: write_fails_def split: if_splits)
  ultimately show ?thesis using assms(2)
    by (cases "yr_flights r ! i") (simp add: nothing_failed_def write_returns_def Let_def fs_def [symmetric])
next
  case (Restores i)
  then have "i < length (yr_flights r)" "fst (yr_flights r ! i) = DelayFailed" using assms(3) by (auto split: if_splits)
  then have "DelayFailed \<in> fst ` set (yr_flights r)" by (metis imageI nth_mem)
  then show ?thesis using assms(2) by (simp add: nothing_failed_def)
next
  case CloseCalled
  then show ?thesis using assms
    by (cases "yr_batch r = []") (auto simp: skydds_Close_def nothing_failed_def Let_def drain_parts fly_def)
qed (use assms in \<open>auto simp: nothing_failed_def split: if_splits\<close>)

lemma nothing_failed_steps:
  assumes "skydds_steps s ls new_skydds_run = Some r" "\<not> list_ex write_fails ls"
  shows "nothing_failed r"
proof -
  have "nothing_failed new_skydds_run" by (simp add: new_skydds_run_def nothing_failed_def)
  moreover have "set ls \<subseteq> {l. \<not> write_fails l}" using assms(2) by (auto simp: list_ex_iff)
  ultimately show ?thesis
    using skydds.invariant_along [of "{l. \<not> write_fails l}" nothing_failed s ls new_skydds_run r, OF _ assms(1)] nothing_failed_step by blast
qed

text \<open>C17: where the messages of the SkyDDS sender are, in every interleaving of sends, timers, writes and \<open>Close\<close>: those that were
  taken are, each exactly once, in the batch, in writes at work, written, or given up after a write that reported an error; the
  byte count is that of the batch; while the sender is open a batch that waits has a timer that will flush it; and unless
  a write failed nothing was given up and a closed sender has an empty batch. (It is not a claim that nothing is lost:
  what a timer's flush that failed puts back after \<open>Close\<close> stays in the batch of the closed sender for good.)\<close>

theorem skydds_conserves_messages:
  assumes "skydds_steps s ls new_skydds_run = Some r"
  shows "mset (yr_accepted r) = mset (yr_batch r) + mset (concat (map snd (yr_flights r))) + mset (yr_written r) + mset (yr_lost r) \<and>
    yr_batchBytes r = sum_list (map (\<lambda>p. int (length p)) (yr_batch r)) \<and>
    (yr_batch r \<noteq> [] \<and> \<not> yr_closed r \<longrightarrow> yr_armed r \<noteq> [] \<or> yr_fired r \<noteq> []) \<and>
    (\<not> list_ex write_fails ls \<longrightarrow> yr_lost r = [] \<and> (yr_closed r \<longrightarrow> yr_batch r = []))"
proof -
  have "nothing_failed r" if "\<not> list_ex write_fails ls" using nothing_failed_steps [OF assms that] .
  then show ?thesis using skydds_steps_ok [OF new_skydds_ok assms]
    by (auto simp: skydds_ok_def messages_ok_def flying_def batch_bytes_def timer_waits_def nothing_failed_def)
qed

definition skydds_works :: "skydds_label \<Rightarrow> bool" where
  "skydds_works l \<longleftrightarrow> (case l of TimerFires t \<Rightarrow> True | TimerRuns t \<Rightarrow> True | WriteReturns i ok \<Rightarrow> ok | _ \<Rightarrow> False)"

definition skydds_work :: "skydds_run \<Rightarrow> nat" where
  "skydds_work r = 3 * length (yr_armed r) + 2 * length (yr_fired r) + length (yr_flights r)"

lemma skydds_work_step:
  assumes "skydds_works l" "skydds_step s l r = Some r'"
  shows "skydds_work r' < skydds_work r"
proof (cases l)
  case (TimerFires t)
  then have "t \<in> set (yr_armed r)" using assms(2) by (auto split: if_splits)
  then have "length (yr_armed r) = Suc (length (remove1 t (yr_armed r)))" using length_pos_if_in_set by (fastforce simp: length_remove1)
  then show ?thesis using TimerFires assms(2) by (auto simp: skydds_work_def split: if_splits)
next
  case (TimerRuns t)
  then have "t \<in> set (yr_fired r)" using assms(2) by (auto split: if_splits)
  then have "length (yr_fired r) = Suc (length (remove1 t (yr_fired r)))" using length_pos_if_in_set by (fastforce simp: length_remove1)
  then show ?thesis using TimerRuns assms(2)
    by (auto simp: skydds_work_def flushByTimer_def drain_parts Let_def fly_def split: if_splits)
next
  case (WriteReturns i ok)
  then show ?thesis using assms by (auto simp: skydds_work_def write_returns_def skydds_works_def Let_def split: if_splits prod.splits)
qed (use assms in \<open>simp_all add: skydds_works_def\<close>)

text \<open>C18: when no write fails, everything that was taken gets written: the timers and the writes have at most
  \<open>skydds_work\<close> steps left, and when none can take another one, all messages were written and no batch is left, also when the
  sender was closed.\<close>

theorem skydds_idle_means_sent:
  assumes "skydds_steps s before new_skydds_run = Some r" "\<not> list_ex write_fails before"
    and "list_all skydds_works ls" "skydds_steps s ls r = Some r'"
  shows "length ls \<le> skydds_work r \<and>
    ((\<forall>l. skydds_works l \<longrightarrow> skydds_step s l r' = None) \<longrightarrow>
       yr_batch r' = [] \<and> mset (yr_written r') = mset (yr_accepted r') \<and> yr_accepted r' = yr_accepted r)"
proof (intro conjI impI)
  have "set ls \<subseteq> Collect skydds_works" using assms(3) by (auto simp: list_all_iff)
  then have "length ls + skydds_work r' \<le> skydds_work r"
    using skydds.bounded_along [of "Collect skydds_works" "\<lambda>_. True" s skydds_work ls r r', OF _ assms(4)] skydds_work_step by blast
  then show "length ls \<le> skydds_work r" by simp
next
  assume stuck: "\<forall>l. skydds_works l \<longrightarrow> skydds_step s l r' = None"
  have nf: "nothing_failed r'"
  proof -
    have "nothing_failed r" by (rule nothing_failed_steps [OF assms(1,2)])
    moreover have "set ls \<subseteq> {l. \<not> write_fails l}"
      using assms(3) by (auto simp: list_all_iff skydds_works_def write_fails_def split: skydds_label.splits)
    ultimately show ?thesis
      using skydds.invariant_along [of "{l. \<not> write_fails l}" nothing_failed s ls r r', OF _ assms(4)] nothing_failed_step by blast
  qed
  have ok: "skydds_ok r'" by (rule skydds_steps_ok [OF skydds_steps_ok [OF new_skydds_ok assms(1)] assms(4)])
  have "yr_armed r' = []"
  proof (rule ccontr)
    assume "yr_armed r' \<noteq> []"
    then obtain t where "t \<in> set (yr_armed r')" by (cases "yr_armed r'") auto
    then show False using stuck [rule_format, of "TimerFires t"] by (simp add: skydds_works_def)
  qed
  moreover have "yr_fired r' = []"
  proof (rule ccontr)
    assume "yr_fired r' \<noteq> []"
    then obtain t where "t \<in> set (yr_fired r')" by (cases "yr_fired r'") auto
    then show False using stuck [rule_format, of "TimerRuns t"] by (simp add: skydds_works_def)
  qed
  moreover have "yr_flights r' = []"
  proof (rule ccontr)
    assume n: "yr_flights r' \<noteq> []"
    then have "fst (yr_flights r' ! 0) \<noteq> DelayFailed" using nf by (cases "yr_flights r'") (auto simp: nothing_failed_def)
    then show False using n stuck [rule_format, of "WriteReturns 0 True"] by (simp add: skydds_works_def)
  qed
  ultimately show "yr_batch r' = []" "mset (yr_written r') = mset (yr_accepted r')"
    using ok nf by (auto simp: skydds_ok_def messages_ok_def flying_def timer_waits_def nothing_failed_def)
  have "yr_accepted t' = yr_accepted t" if "skydds_works l" "skydds_step s l t = Some t'" for l t t'
    using that by (cases l) (auto simp: skydds_works_def flushByTimer_def drain_parts Let_def write_returns_def split: if_splits prod.splits)
  moreover have "set ls \<subseteq> Collect skydds_works" using assms(3) by (auto simp: list_all_iff)
  ultimately show "yr_accepted r' = yr_accepted r"
    using skydds.invariant_along [of "Collect skydds_works" "\<lambda>t. yr_accepted t = yr_accepted r" s ls r r', OF _ assms(4)] by fastforce
qed

section \<open>A restore after Close\<close>

definition quiet_label :: "skydds_label \<Rightarrow> bool" where
  "quiet_label l \<longleftrightarrow> (case l of TimerFires t \<Rightarrow> True | TimerRuns t \<Rightarrow> True | SendCalled p \<Rightarrow> True | _ \<Rightarrow> False)"

text \<open>A batch that a timer's flush puts back after \<open>Close\<close> is never sent: \<open>Close\<close> found an empty batch and has closed the writer, the
  restored batch starts a timer, and that one sees the closed sender and returns. The messages were taken with no error, \<open>Close\<close> returned
  none, and whatever sends and timers follow, they stay in the batch.\<close>

theorem skydds_restore_after_close_is_lost:
  assumes "sk_model s = ''batch_octet''" "yr_flights r = [(DelayFailed, ps)]" "ps \<noteq> []" "yr_batch r = []" "\<not> yr_closed r"
    and "skydds_steps s [CloseCalled, Restores 0] r = Some r1" "list_all quiet_label ls" "skydds_steps s ls r1 = Some r'"
  shows "yr_writerClosed r' \<and> yr_batch r' = ps \<and> yr_written r' = yr_written r \<and> yr_flights r' = []"
proof -
  have r1: "yr_closed r1" "yr_batch r1 = ps" "yr_flights r1 = []" "yr_writerClosed r1" "yr_written r1 = yr_written r"
    using assms(2-6) by (auto simp: skydds_Close_def drain_parts Let_def restore_flight_def restoreBatchLocked_def)
  define P where "P = (\<lambda>t :: skydds_run. yr_closed t \<and> yr_batch t = ps \<and> yr_flights t = [] \<and> yr_writerClosed t \<and> yr_written t = yr_written r)"
  have step: "P t'" if "l \<in> Collect quiet_label" "P t" "skydds_step s l t = Some t'" for l t t'
    using that assms(1) by (cases l) (auto simp: P_def quiet_label_def skydds_Send_def sendBatch_def flushByTimer_def split: if_splits)
  have "set ls \<subseteq> Collect quiet_label" using assms(7) by (auto simp: list_all_iff)
  moreover have "P r1" using r1 by (simp add: P_def)
  ultimately have "P r'" using skydds.invariant_along [of "Collect quiet_label" P s ls r1 r', OF _ assms(8)] step by blast
  then show ?thesis by (simp add: P_def)
qed

section \<open>The receiver\<close>

lemma emit_all_payloads: "emit_all r bs w out = (w', out') \<Longrightarrow> map Payload out' = map Payload out @ filter (\<lambda>b. b \<noteq> []) bs"
  by (induction bs arbitrary: w out) (auto simp: emitPacket_def CopyFrom_def Let_def split: if_splits)

fun drained_bytes :: "bool \<Rightarrow> skydds_answer list \<Rightarrow> bytes list" where
  "drained_bytes d [] = []"
| "drained_bytes False (CtxDone # as) = []"
| "drained_bytes False (WaitFailed err # as) = []"
| "drained_bytes False (Ready # as) = drained_bytes True as"
| "drained_bytes True (DrainFailed err # as) = []"
| "drained_bytes True (Drained bs # as) = (if bs = [] then drained_bytes False as else bs @ drained_bytes True as)"
| "drained_bytes d (a # as) = drained_bytes d as"

lemma skydds_receive_payloads:
  "skydds_receive r d as w out = (res, w', out') \<Longrightarrow> map Payload out' = map Payload out @ filter (\<lambda>b. b \<noteq> []) (drained_bytes d as)"
  by (induction r d as w out rule: skydds_receive.induct) (auto split: if_splits prod.splits dest: emit_all_payloads)

section \<open>Witnesses\<close>

definition sample_skydds :: skydds_sender where
  "sample_skydds = \<lparr>sk_name = ''d'', sk_cfg = zero_sender_config, sk_model = ''batch_octet'', sk_batchNum = 2, sk_batchSize = 10, sk_batchDelay = 1\<rparr>"

definition sample_message :: "nat \<Rightarrow> packet" where
  "sample_message n = \<lparr>Kind = PayloadKindStream, Meta = zero_meta, Payload = replicate n 1, ReleaseFn = None, paddr = 0\<rparr>"

definition sample_batches :: "skydds_label list" where
  "sample_batches = [SendCalled (sample_message 3), SendCalled (sample_message 4), SendCalled (sample_message 20), SendCalled (sample_message 1),
     TimerFires 1]"

definition sample_batch_run :: skydds_run where
  "sample_batch_run = the (skydds_steps sample_skydds sample_batches new_skydds_run)"

lemma sample_batch_run: "skydds_steps sample_skydds sample_batches new_skydds_run = Some sample_batch_run"
  unfolding sample_batch_run_def by (rule option.collapse [symmetric]) code_simp

lemma sample_batch_state:
  "yr_batch sample_batch_run = [[1]]" "map fst (yr_flights sample_batch_run) = [Threshold, OversizeSingle]"
  by code_simp+

theorem skydds_conserves_messages_witness:
  "mset (yr_accepted sample_batch_run) = mset (yr_batch sample_batch_run) + mset (concat (map snd (yr_flights sample_batch_run))) +
     mset (yr_written sample_batch_run) \<and> yr_batchBytes sample_batch_run = 1"
proof -
  have "\<not> list_ex write_fails sample_batches" by code_simp
  then show ?thesis using skydds_conserves_messages [OF sample_batch_run] sample_batch_state(1) by simp
qed

definition sample_rest :: "skydds_label list" where
  "sample_rest = [TimerRuns 1, WriteReturns 1 True, WriteReturns 0 True, WriteReturns 0 True]"

definition sample_sent_run :: skydds_run where
  "sample_sent_run = the (skydds_steps sample_skydds sample_rest sample_batch_run)"

lemma sample_sent_run: "skydds_steps sample_skydds sample_rest sample_batch_run = Some sample_sent_run"
  unfolding sample_sent_run_def by (rule option.collapse [symmetric]) code_simp

lemma sample_sent_state: "yr_armed sample_sent_run = []" "yr_fired sample_sent_run = []" "yr_flights sample_sent_run = []"
  by code_simp+

theorem skydds_idle_means_sent_witness:
  "length sample_rest \<le> skydds_work sample_batch_run \<and> yr_batch sample_sent_run = [] \<and> mset (yr_written sample_sent_run) = mset (yr_accepted sample_sent_run)"
proof -
  have "\<not> list_ex write_fails sample_batches" "list_all skydds_works sample_rest" by code_simp+
  note t = skydds_idle_means_sent [OF sample_batch_run this sample_sent_run]
  have "skydds_step sample_skydds l sample_sent_run = None" if "skydds_works l" for l
    using that sample_sent_state by (cases l) (simp_all add: skydds_works_def)
  then show ?thesis using t by blast
qed

definition sample_late_run :: skydds_run where
  "sample_late_run = the (skydds_steps sample_skydds [SendCalled (sample_message 1), TimerFires 0, TimerRuns 0, WriteReturns 0 False] new_skydds_run)"

definition sample_late_end :: skydds_run where
  "sample_late_end = the (skydds_steps sample_skydds [CloseCalled, Restores 0] sample_late_run)"

lemma sample_late_end: "skydds_steps sample_skydds [CloseCalled, Restores 0] sample_late_run = Some sample_late_end"
  unfolding sample_late_end_def by (rule option.collapse [symmetric]) code_simp

lemma sample_late_state: "yr_flights sample_late_run = [(DelayFailed, [[1]])]" "yr_batch sample_late_run = []" "\<not> yr_closed sample_late_run"
  by code_simp+

definition sample_late_after :: skydds_run where
  "sample_late_after = the (skydds_steps sample_skydds [TimerFires 1, SendCalled (sample_message 1), TimerRuns 1] sample_late_end)"

lemma sample_late_after: "skydds_steps sample_skydds [TimerFires 1, SendCalled (sample_message 1), TimerRuns 1] sample_late_end = Some sample_late_after"
  unfolding sample_late_after_def by (rule option.collapse [symmetric]) code_simp

theorem skydds_restore_after_close_is_lost_witness:
  "yr_writerClosed sample_late_after \<and> yr_batch sample_late_after = [[1]] \<and> yr_accepted sample_late_run = [[1]]"
proof -
  have m: "sk_model sample_skydds = ''batch_octet''" "[[1 :: 8 word]] \<noteq> []" by (simp_all add: sample_skydds_def)
  have q: "list_all quiet_label [TimerFires 1, SendCalled (sample_message 1), TimerRuns 1]" by (simp add: quiet_label_def)
  have "yr_accepted sample_late_run = [[1]]" by code_simp
  then show ?thesis
    using skydds_restore_after_close_is_lost [OF m(1) sample_late_state(1) m(2) sample_late_state(2,3) sample_late_end q sample_late_after] by simp
qed

section \<open>An empty delay\<close>

definition sample_empty_delay :: sender_config where
  "sample_empty_delay = zero_sender_config\<lparr>sc_Type := ''dds_skydds'', sc_DCPSConfigFile := ''f'', sc_TopicName := ''t'',
     sc_MessageModel := ''batch_octet'', sc_BatchNum := 2, sc_BatchSize := 10\<rparr>"

text \<open>A sender without \<open>batch_delay\<close> passes \<open>Validate\<close>, which skips an empty duration, and the constructor refuses it.\<close>

lemma empty_delay_passes_and_fails:
  "validate_sender ip (''s'', sample_empty_delay) = None" "\<exists>err. NewSkyDDSSender (\<lambda>_. None) ''s'' sample_empty_delay = Inl err"
proof -
  show "validate_sender ip (''s'', sample_empty_delay) = None" by code_simp
  have "parse_duration (sc_BatchDelay sample_empty_delay) = None" "to_lower (trim_space (sc_MessageModel sample_empty_delay)) = ''batch_octet''"
    by code_simp+
  then show "\<exists>err. NewSkyDDSSender (\<lambda>_. None) ''s'' sample_empty_delay = Inl err"
    by (simp add: NewSkyDDSSender_def newSkyDDSSenderWithWriter_def Let_def)
qed

end
