(* ===== verification/ReceiverProps.thy ===== *)
theory ReceiverProps
  imports LocalTimer KafkaConfig FileReceiverProps
begin

text \<open>
  \<open>Start\<close> and \<open>Stop\<close> in all interleavings: a \<open>Stop\<close> that comes after the beginning of \<open>Start\<close> returns only when \<open>Start\<close> has left and
  nothing happens in the receiver afterwards; one that comes before is lost. The local timer emits what it was asked to.
\<close>

section \<open>One call of Start\<close>

text \<open>The steps that need a case distinction, as conditions.\<close>

lemma loop_does_iff [simp]:
  "receiver_step rb (LoopDoes n i) l = Some l' \<longleftrightarrow>
     n < length (lf_starts l) \<and> lf_starts l ! n = StartLoop \<and> (\<exists>b returns. rb_iterate rb (run_done n l) i (lf_body l) = Some (b, returns) \<and>
       l' = l\<lparr>lf_body := b, lf_starts := (if returns then (lf_starts l)[n := StartReturns] else lf_starts l)\<rparr>)"
  by (auto split: option.splits)

lemma stop_returns_iff [simp]:
  "receiver_step rb (StopReturns k) l = Some l' \<longleftrightarrow>
     k < length (lf_stops l) \<and> (\<exists>m. lf_stops l ! k = StopWaitsFor m \<and> m \<in> set (lf_closed l)) \<and> l' = l\<lparr>lf_stops := (lf_stops l)[k := StopDone]\<rparr>"
  by (auto split: stop_phase.splits)

lemma stop_gives_up_iff [simp]:
  "receiver_step rb (StopGivesUp k) l = Some l' \<longleftrightarrow>
     k < length (lf_stops l) \<and> (\<exists>m. lf_stops l ! k = StopWaitsFor m) \<and> l' = l\<lparr>lf_stops := (lf_stops l)[k := StopTimedOut]\<rparr>"
  by (auto split: stop_phase.splits)

lemma loop_sees_done_iff [simp]:
  "receiver_step rb (LoopSeesDone n) l = Some l' \<longleftrightarrow>
     n < length (lf_starts l) \<and> lf_starts l ! n = StartLoop \<and> rb_waits rb (lf_body l) \<and> run_done n l \<and>
     l' = l\<lparr>lf_starts := (lf_starts l)[n := StartReturns]\<rparr>"
  by auto

lemma start_leaves_iff [simp]:
  "receiver_step rb (StartLeaves n) l = Some l' \<longleftrightarrow>
     n < length (lf_starts l) \<and> lf_starts l ! n = StartReturns \<and> l' = start_leave (rb_leave rb) n l"
  by auto

declare receiver_step.simps(2-4,6,7) [simp del]

text \<open>What holds while there is one call of \<open>Start\<close>: what it noted is its own, and its channel is closed exactly when it has left.\<close>

definition one_start_at :: "start_phase \<Rightarrow> 'b receiver_life \<Rightarrow> bool" where
  "one_start_at p l \<longleftrightarrow> lf_starts l = [p] \<and>
     lf_done l = (if p = StartLeft then None else Some 0) \<and> lf_cancel l = (if p = StartLeft then None else Some 0) \<and>
     set (lf_closed l) = (if p = StartLeft then {0} else {})"

definition one_start :: "'b receiver_life \<Rightarrow> bool" where
  "one_start l \<longleftrightarrow> (\<exists>p. one_start_at p l)"

lemma one_start_atI: "one_start_at p l \<Longrightarrow> one_start l"
  unfolding one_start_def by blast

definition not_started :: "'b receiver_life \<Rightarrow> bool" where
  "not_started l \<longleftrightarrow> lf_starts l = [] \<and> lf_done l = None \<and> lf_cancel l = None \<and> lf_closed l = [] \<and> lf_cancelled l = []"

lemma one_start_step:
  assumes "one_start l" "a \<noteq> StartEnters" "receiver_step rb a l = Some l'"
  shows "one_start l'"
proof -
  obtain p where p: "one_start_at p l" using assms(1) unfolding one_start_def by blast
  note p' = p [unfolded one_start_at_def]
  show ?thesis
  proof (cases a)
    case (LoopDoes n i)
    obtain b returns where "l' = l\<lparr>lf_body := b, lf_starts := (if returns then (lf_starts l)[n := StartReturns] else lf_starts l)\<rparr>" "n = 0" "p = StartLoop"
      using assms(3) p' LoopDoes by auto
    then have "one_start_at (if returns then StartReturns else StartLoop) l'" using p' by (simp add: one_start_at_def)
    then show ?thesis by (rule one_start_atI)
  next
    case (LoopSeesDone n)
    then have "n = 0" "p = StartLoop" "l' = l\<lparr>lf_starts := (lf_starts l)[n := StartReturns]\<rparr>" using assms(3) p' by auto
    then have "one_start_at StartReturns l'" using p' by (simp add: one_start_at_def)
    then show ?thesis by (rule one_start_atI)
  next
    case (StartLeaves n)
    then have "n = 0" "p = StartReturns" "l' = start_leave (rb_leave rb) n l" using assms(3) p' by auto
    then have "one_start_at StartLeft l'" using p' by (simp add: one_start_at_def start_leave_def)
    then show ?thesis by (rule one_start_atI)
  next
    case StartEnters
    then show ?thesis using assms(2) by blast
  next
    case StopCalled
    then have "one_start_at p l'" using assms(3) p' by (auto simp: one_start_at_def stop_call_def)
    then show ?thesis by (rule one_start_atI)
  next
    case (StopReturns k)
    then have "one_start_at p l'" using assms(3) p' by (auto simp: one_start_at_def)
    then show ?thesis by (rule one_start_atI)
  next
    case (StopGivesUp k)
    then have "one_start_at p l'" using assms(3) p' by (auto simp: one_start_at_def)
    then show ?thesis by (rule one_start_atI)
  next
    case ParentEnds
    then have "one_start_at p l'" using assms(3) p' by (auto simp: one_start_at_def)
    then show ?thesis by (rule one_start_atI)
  qed
qed

text \<open>Before the first \<open>Start\<close>, and after it as long as there is no second.\<close>

lemma first_start_step:
  assumes "not_started l" "receiver_step rb a l = Some l'"
  shows "not_started l' \<or> one_start l'"
proof (cases "a = StartEnters \<and> l' \<noteq> l")
  case True
  then have "one_start_at StartLoop l'" using assms by (auto simp: not_started_def one_start_at_def start_enter_def Let_def split: if_splits)
  then show ?thesis by (auto dest: one_start_atI)
next
  case False
  note d = assms(1) [unfolded not_started_def]
  have "not_started l'"
  proof (cases a)
    case StartEnters
    then show ?thesis using False assms(1) by simp
  next
    case StopCalled
    then show ?thesis using assms(2) d by (auto simp: not_started_def stop_call_def)
  next
    case ParentEnds
    then show ?thesis using assms(2) d by (auto simp: not_started_def)
  next
    case (StopGivesUp k)
    then show ?thesis using assms(2) d by (auto simp: not_started_def)
  qed (use assms(2) d in simp_all)
  then show ?thesis by blast
qed

lemma starts_grow:
  assumes "receiver_step rb a l = Some l'"
  shows "length (lf_starts l) \<le> length (lf_starts l')"
proof (cases a)
  case StartEnters
  then show ?thesis using assms by (auto simp: start_enter_def Let_def split: if_splits)
qed (use assms in \<open>auto simp: stop_call_def start_leave_def\<close>)

lemma enters_twice:
  assumes "one_start l" "receiver_step rb StartEnters l = Some l'" "length (lf_starts l') = 1"
  shows "l' = l"
proof (cases "rb_refused rb (lf_body l)")
  case False
  then have "length (lf_starts l') = Suc (length (lf_starts l))" using assms(2) by (auto simp: start_enter_def Let_def)
  moreover have "length (lf_starts l) = 1" using assms(1) by (auto simp: one_start_def one_start_at_def)
  ultimately show ?thesis using assms(3) by simp
qed (use assms(2) in simp)

lemma one_start_reached:
  assumes "receiver_steps rb ls (new_life b) = Some l" "length (lf_starts l) = 1"
  shows "one_start l"
proof -
  define P where "P = (\<lambda>t :: 'a receiver_life. length (lf_starts t) > 1 \<or> not_started t \<or> one_start t)"
  have "P t'" if h: "P t" "receiver_step rb a t = Some t'" for a t t'
  proof (cases "length (lf_starts t) > 1")
    case True
    then show ?thesis using starts_grow [OF h(2)] by (simp add: P_def)
  next
    case False
    then consider (fresh) "not_started t" | (one) "one_start t" using h(1) unfolding P_def by argo
    then show ?thesis
    proof cases
      case fresh
      then show ?thesis using first_start_step [OF fresh h(2)] by (simp add: P_def)
    next
      case one
      show ?thesis
      proof (cases "a = StartEnters \<and> length (lf_starts t') = 1")
        case True
        then show ?thesis using enters_twice [OF one, of rb t'] h(2) one by (simp add: P_def)
      next
        case False
        have "length (lf_starts t') \<ge> 1" using starts_grow [OF h(2)] one by (auto simp: one_start_def one_start_at_def)
        then show ?thesis using False one_start_step [OF one _ h(2)] by (auto simp: P_def)
      qed
    qed
  qed
  moreover have "P (new_life b)" by (simp add: P_def not_started_def new_life_def)
  ultimately have "P l" using receiver_runs.invariant [of P rb ls "new_life b" l] assms(1) by blast
  then show ?thesis using assms(2) by (auto simp: P_def not_started_def)
qed

section \<open>Stop after Start\<close>

text \<open>A call of \<open>Stop\<close> that found the call of \<open>Start\<close>: it waits for it, or it has left, or the wait was given up.\<close>

definition stop_follows :: "nat \<Rightarrow> 'b receiver_life \<Rightarrow> bool" where
  "stop_follows k l \<longleftrightarrow> one_start l \<and> k < length (lf_stops l) \<and>
     (case lf_stops l ! k of StopWaitsFor m \<Rightarrow> m = 0 | StopDone \<Rightarrow> lf_starts l = [StartLeft] | StopTimedOut \<Rightarrow> True) \<and>
     (lf_starts l \<noteq> [StartLeft] \<longrightarrow> 0 \<in> set (lf_cancelled l))"

text \<open>What a step leaves of the calls and of the cancellations.\<close>

lemma receiver_step_frame:
  assumes "receiver_step rb a l = Some l'"
  shows "set (lf_cancelled l) \<subseteq> set (lf_cancelled l')"
    and "k < length (lf_stops l) \<Longrightarrow> k < length (lf_stops l')"
    and "k < length (lf_stops l) \<Longrightarrow> a \<noteq> StopReturns k \<Longrightarrow> a \<noteq> StopGivesUp k \<Longrightarrow> lf_stops l' ! k = lf_stops l ! k"
proof -
  show "set (lf_cancelled l) \<subseteq> set (lf_cancelled l')"
  proof (cases a)
    case StartEnters
    then show ?thesis using assms by (auto simp: start_enter_def Let_def split: if_splits)
  qed (use assms in \<open>auto simp: stop_call_def start_leave_def\<close>)
  show "k < length (lf_stops l')" if "k < length (lf_stops l)"
  proof (cases a)
    case StartEnters
    then show ?thesis using assms that by (auto simp: start_enter_def Let_def split: if_splits)
  qed (use assms that in \<open>auto simp: stop_call_def start_leave_def\<close>)
  show "lf_stops l' ! k = lf_stops l ! k" if "k < length (lf_stops l)" "a \<noteq> StopReturns k" "a \<noteq> StopGivesUp k"
  proof (cases a)
    case StartEnters
    then show ?thesis using assms that by (auto simp: start_enter_def Let_def split: if_splits)
  qed (use assms that in \<open>auto simp: stop_call_def start_leave_def nth_append\<close>)
qed

lemma left_body_step:
  assumes "lf_starts l = [StartLeft]" "a \<noteq> StartEnters" "receiver_step rb a l = Some l'"
  shows "lf_starts l' = [StartLeft] \<and> lf_body l' = lf_body l"
  by (cases a) (use assms in \<open>simp_all add: stop_call_def, auto\<close>)

lemma left_body_run:
  assumes "lf_starts l = [StartLeft]" "receiver_steps rb ls l = Some l'" "StartEnters \<notin> set ls"
  shows "lf_body l' = lf_body l"
proof -
  define P where "P = (\<lambda>t :: 'a receiver_life. lf_starts t = [StartLeft] \<and> lf_body t = lf_body l)"
  have step: "P t'" if "a \<in> {a. a \<noteq> StartEnters}" "P t" "receiver_step rb a t = Some t'" for a t t'
    using left_body_step [of t a rb t'] that by (simp add: P_def)
  have "set ls \<subseteq> {a. a \<noteq> StartEnters}" using assms(3) by auto
  moreover have "P l" using assms(1) by (simp add: P_def)
  ultimately have "P l'" using receiver_runs.invariant_along [of "{a. a \<noteq> StartEnters}" P rb ls l l', OF _ assms(2)] step by blast
  then show ?thesis by (simp add: P_def)
qed

lemma stop_follows_step:
  assumes "stop_follows k l" "a \<noteq> StartEnters" "receiver_step rb a l = Some l'"
  shows "stop_follows k l'"
proof -
  note f = assms(1) [unfolded stop_follows_def]
  have o: "one_start l'" using one_start_step [OF _ assms(2,3)] f by blast
  have k: "k < length (lf_stops l')" using receiver_step_frame(2) [OF assms(3)] f by blast
  have left: "lf_starts l = [StartLeft] \<Longrightarrow> lf_starts l' = [StartLeft]" using left_body_step [OF _ assms(2,3)] by blast
  then have c: "lf_starts l' \<noteq> [StartLeft] \<longrightarrow> 0 \<in> set (lf_cancelled l')" using f receiver_step_frame(1) [OF assms(3)] by blast
  have "case lf_stops l' ! k of StopWaitsFor m \<Rightarrow> m = 0 | StopDone \<Rightarrow> lf_starts l' = [StartLeft] | StopTimedOut \<Rightarrow> True"
  proof (cases "a = StopReturns k")
    case True
    then obtain m where m: "m \<in> set (lf_closed l)" "l' = l\<lparr>lf_stops := (lf_stops l)[k := StopDone]\<rparr>" using assms(3) by auto
    obtain p where "one_start_at p l" using f unfolding one_start_def by blast
    then have "lf_starts l = [StartLeft]" using m(1) by (cases p) (simp_all add: one_start_at_def)
    then show ?thesis using m(2) f by simp
  next
    case False
    then show ?thesis
    proof (cases "a = StopGivesUp k")
      case True
      then show ?thesis using assms(3) f by auto
    next
      case no: False
      have "lf_stops l' ! k = lf_stops l ! k" using receiver_step_frame(3) [OF assms(3) _ False no] f by blast
      then show ?thesis using f left by (cases "lf_stops l ! k") simp_all
    qed
  qed
  then show ?thesis using o k c by (simp add: stop_follows_def)
qed

lemma stop_follows_run:
  assumes "stop_follows k l" "receiver_steps rb ls l = Some l'" "StartEnters \<notin> set ls"
  shows "stop_follows k l'"
proof -
  have "set ls \<subseteq> {a. a \<noteq> StartEnters}" using assms(3) by auto
  then show ?thesis using receiver_runs.invariant_along [of "{a. a \<noteq> StartEnters}" "stop_follows k" rb ls l l', OF _ assms(2)] stop_follows_step assms(1) by blast
qed

lemma stop_call_follows:
  assumes "one_start l"
  shows "stop_follows (length (lf_stops l)) (stop_call l)"
proof -
  obtain p where p: "one_start_at p l" using assms unfolding one_start_def by blast
  then have "one_start_at p (stop_call l)" by (simp add: one_start_at_def stop_call_def)
  then have "one_start (stop_call l)" by (rule one_start_atI)
  then show ?thesis using p by (cases p) (simp_all add: stop_follows_def one_start_at_def stop_call_def)
qed

text \<open>C19: Stop means stopped. Take any run of a receiver with one call of Start, in which Stop is called after Start has begun;
  the loop, Start and any calls of Stop interleave in any order. When that Stop has returned nil, Start has left, and
  whatever happens then short of a new Start changes nothing in the receiver any more: no packet follows the Stop.\<close>

theorem stop_waits_for_start:
  assumes "receiver_steps rb pre (new_life b) = Some l0" "length (lf_starts l0) = 1"
    and "receiver_steps rb (StopCalled # post) l0 = Some l" "StartEnters \<notin> set post" "lf_stops l ! length (lf_stops l0) = StopDone"
    and "receiver_steps rb later l = Some l'" "StartEnters \<notin> set later"
  shows "lf_starts l = [StartLeft] \<and> lf_body l' = lf_body l"
proof -
  have "stop_follows (length (lf_stops l0)) (stop_call l0)" by (rule stop_call_follows [OF one_start_reached [OF assms(1,2)]])
  then have "stop_follows (length (lf_stops l0)) l" using stop_follows_run assms(3,4) by fastforce
  then have left: "lf_starts l = [StartLeft]" using assms(5) by (simp add: stop_follows_def)
  then show ?thesis using left_body_run [OF _ assms(6,7)] by blast
qed

text \<open>Stop comes to an end. In a run as above, let the context of Stop not have ended it, and let the loop of the receiver, if
  it still runs, be at a select. Then one of three steps is possible, until Stop has returned nil because Start has left: the loop
  sees that its context has ended, Start leaves, Stop returns.\<close>

theorem stop_returns:
  assumes "receiver_steps rb pre (new_life b) = Some l0" "length (lf_starts l0) = 1"
    and "receiver_steps rb (StopCalled # post) l0 = Some l" "StartEnters \<notin> set post" "k = length (lf_stops l0)" "lf_stops l ! k \<noteq> StopTimedOut"
    and "lf_starts l = [StartLoop] \<Longrightarrow> rb_waits rb (lf_body l)"
    and "receiver_step rb (LoopSeesDone 0) l = None" "receiver_step rb (StartLeaves 0) l = None" "receiver_step rb (StopReturns k) l = None"
  shows "lf_stops l ! k = StopDone \<and> lf_starts l = [StartLeft]"
proof -
  have "stop_follows (length (lf_stops l0)) (stop_call l0)" by (rule stop_call_follows [OF one_start_reached [OF assms(1,2)]])
  then have f: "stop_follows k l" using stop_follows_run assms(3,4,5) by fastforce
  then obtain p where p: "one_start_at p l" by (auto simp: stop_follows_def one_start_def)
  note f' = f [unfolded stop_follows_def] and p' = p [unfolded one_start_at_def]
  have n: "\<not> (p = StartLoop \<and> rb_waits rb (lf_body l) \<and> run_done 0 l)" "p \<noteq> StartReturns"
    using assms(8,9) p' loop_sees_done_iff [of rb 0 l] start_leaves_iff [of rb 0 l] by auto
  have left: "p = StartLeft"
  proof (cases p)
    case StartLoop
    then have "0 \<in> set (lf_cancelled l)" "rb_waits rb (lf_body l)" using f' p' assms(7) by simp_all
    then show ?thesis using n(1) StartLoop by (simp add: run_done_def)
  qed (use n in simp_all)
  have "\<not> (\<exists>m. lf_stops l ! k = StopWaitsFor m \<and> m \<in> set (lf_closed l))" using assms(10) stop_returns_iff [of rb k l] f' by auto
  then have "lf_stops l ! k = StopDone" using f' p' left assms(6) by (cases "lf_stops l ! k") simp_all
  then show ?thesis using p' left by simp
qed

section \<open>Stop before Start\<close>

definition alone :: "'i receiver_label \<Rightarrow> bool" where
  "alone a \<longleftrightarrow> a \<noteq> StartEnters \<and> a \<noteq> StopCalled \<and> a \<noteq> ParentEnds"

text \<open>A Stop that comes too early is lost. The runtime reports a receiver as started before its goroutine has called Start, so Stop
  may find neither a cancel function nor a channel: it returns nil at once. When the SFTP receiver starts afterwards, it polls and hands on
  packets without end: whatever it does, its Start does not return and its context does not end, until the context of the service does.\<close>

theorem stop_before_start_is_lost:
  assumes "receiver_steps (sftp_body src sha readDir) (StopCalled # StartEnters # ls) (new_life b) = Some l" "list_all alone ls"
  shows "lf_stops l = [StopDone] \<and> lf_starts l = [StartLoop] \<and> \<not> run_done 0 l"
proof -
  define P where "P = (\<lambda>t :: (file_receiver, 'a) file_poll receiver_life. lf_stops t = [StopDone] \<and> lf_starts t = [StartLoop] \<and> \<not> run_done 0 t)"
  define l1 where "l1 = start_enter (stop_call (new_life b))"
  have step: "P t'" if "a \<in> Collect alone" "P t" "receiver_step (sftp_body src sha readDir) a t = Some t'" for a t t'
    using that by (cases a; auto simp: P_def alone_def sftp_body_def sftp_iterate_def run_done_def split: if_splits option.splits poll_label.splits)
  have run: "receiver_steps (sftp_body src sha readDir) ls l1 = Some l" using assms(1) by (simp add: sftp_body_def l1_def)
  have "P l1" by (simp add: P_def l1_def start_enter_def stop_call_def new_life_def run_done_def Let_def)
  moreover have "set ls \<subseteq> Collect alone" using assms(2) by (auto simp: list_all_iff)
  ultimately have "P l" using receiver_runs.invariant_along [of "Collect alone" P "sftp_body src sha readDir" ls l1 l, OF _ run] step by blast
  then show ?thesis by (simp add: P_def)
qed

section \<open>What the local timer emits\<close>

definition made_by :: "local_timer \<Rightarrow> packet \<Rightarrow> bool" where
  "made_by r p \<longleftrightarrow> Payload p = lt_payload r \<and> MatchKey (Meta p) = lt_key r \<and> ReceiverName (Meta p) = lt_name r \<and> Proto (Meta p) = ProtoLocal"

lemma local_packet_made: "made_by r (fst (local_packet r w))"
  by (simp add: local_packet_def made_by_def CopyFrom_def Let_def split: prod.splits)

lemma timer_emit_parts [simp]:
  "lp_sent (timer_emit r b) = lp_sent b + 1" "lp_out (timer_emit r b) = lp_out b @ [fst (local_packet r (lp_pool b))]"
  "lp_phase (timer_emit r b) = lp_phase b" "lp_err (timer_emit r b) = lp_err b"
  by (simp_all add: timer_emit_def split: prod.splits)

text \<open>The loop has sent what it counts; before it returns it has something left to send.\<close>

definition timer_counts :: "local_timer \<Rightarrow> 'f timer_loop \<Rightarrow> bool" where
  "timer_counts r b \<longleftrightarrow> lp_sent b = int (length (lp_out b)) \<and> list_all (made_by r) (lp_out b) \<and>
     (lp_phase b = LtBegin \<or> lp_phase b = LtDelay \<longrightarrow> lp_out b = [])"

definition timer_total :: "local_timer \<Rightarrow> int" where "timer_total r = lg_TotalPackets (lt_gen r)"

text \<open>The durations that \<open>Start\<close> parses again are those that \<open>Validate\<close> has checked.\<close>

definition timer_starts :: "'f float_ops \<Rightarrow> local_timer \<Rightarrow> bool" where
  "timer_starts fl r \<longleftrightarrow> (\<exists>d. parseOptionalDuration (lg_StartDelay (lt_gen r)) = Inr d) \<and> (\<exists>ph. timer_mode fl r = Inr ph \<and> ph \<noteq> LtBegin \<and> ph \<noteq> LtDelay)"

lemma duration_passes:
  assumes "only_if (\<not> blank v) (validatePositiveDurationByType k n t f v) = None" "\<not> blank v"
  obtains d where "parse_duration (trim_space v) = Some d" "0 < d"
proof -
  have "positive_duration v" using assms by (simp add: validatePositiveDurationByType_def only_if_def)
  then obtain d where d: "parse_duration v = Some d" "0 < d" by (auto simp: positive_duration_def split: option.splits)
  then show ?thesis using that duration_trimmed [OF d(1)] by simp
qed

lemma default_tick: "parse_duration (trim_space DefaultLocalTimerTickInterval) = Some 100000000"
proof -
  have d: "parse_duration DefaultLocalTimerTickInterval = Some 100000000"
    by (simp add: DefaultLocalTimerTickInterval_def parse_duration_def duration_loop.simps duration_step_def is_digit_def
        unit_ns_def digits_value_def)
  then show ?thesis by (simp add: duration_trimmed)
qed

lemma new_timer_parts:
  assumes "NewLocalTimerReceiver name rc = Inr r"
  shows "lt_gen r = rc_Generator rc" "lt_name r = name"
  using assms by (auto simp: NewLocalTimerReceiver_def split: sum.splits prod.splits)

lemma validated_timer_starts:
  assumes "validateLocalTimerReceiver name rc = None" "NewLocalTimerReceiver name rc = Inr r"
  shows "timer_starts fl r"
proof -
  define g where "g = rc_Generator rc"
  have g: "lt_gen r = g" using new_timer_parts(1) [OF assms(2)] by (simp add: g_def)
  have checks: "only_if (\<not> blank (lg_Interval g)) (validatePositiveDurationByType ''receiver'' name ''local_timer'' ''generator.interval'' (lg_Interval g)) = None"
    "only_if (\<not> blank (lg_TickInterval g)) (validatePositiveDurationByType ''receiver'' name ''local_timer'' ''generator.tick_interval'' (lg_TickInterval g)) = None"
    "only_if (\<not> blank (lg_StartDelay g)) (validatePositiveDurationByType ''receiver'' name ''local_timer'' ''generator.start_delay'' (lg_StartDelay g)) = None"
    "(\<not> blank (lg_Interval g)) \<noteq> (lg_RatePerSec g > 0)"
    using assms(1) unfolding validateLocalTimerReceiver_def Let_def first_err_steps g_def [symmetric] by (simp_all del: first_err_None)
  have "\<exists>d. parseOptionalDuration (lg_StartDelay g) = Inr d"
  proof (cases "blank (lg_StartDelay g)")
    case False
    then show ?thesis by (rule duration_passes [OF checks(3)]) (simp add: parseOptionalDuration_def Let_def)
  qed (simp add: parseOptionalDuration_def blank_def)
  moreover have "\<exists>ph. timer_mode fl r = Inr ph \<and> ph \<noteq> LtBegin \<and> ph \<noteq> LtDelay"
  proof (cases "blank (lg_Interval g)")
    case False
    show ?thesis
      by (rule duration_passes [OF checks(1) False]) (use False in \<open>simp add: timer_mode_def g blank_def Let_def\<close>)
  next
    case True
    have rate: "\<not> lg_RatePerSec g \<le> 0" using checks(4) True by simp
    show ?thesis
    proof (cases "blank (lg_TickInterval g)")
      case False
      show ?thesis
        by (rule duration_passes [OF checks(2) False]) (use False True rate in \<open>simp add: timer_mode_def g blank_def Let_def\<close>)
    next
      case tick: True
      have "parse_duration (trim_space DefaultLocalTimerTickInterval) = Some 100000000" by (rule default_tick)
      then show ?thesis using True tick rate by (simp add: timer_mode_def g blank_def Let_def)
    qed
  qed
  ultimately show ?thesis by (simp add: timer_starts_def g)
qed

lemma enter_mode_counts:
  assumes "timer_starts fl r" "timer_counts r b" "lp_out b = []" "enter_mode fl r b = (b', returns)"
  shows "timer_counts r b' \<and> lp_out b' = [] \<and> \<not> returns \<and> lp_err b' = lp_err b"
  using assms by (auto simp: enter_mode_def timer_counts_def timer_starts_def)

lemma timer_iterate_counts:
  assumes "timer_starts fl r" "timer_counts r b" "0 < timer_total r" "lp_sent b < timer_total r" "timer_iterate fl r dn i b = Some (b', returns)"
  shows "timer_counts r b' \<and> lp_sent b' \<le> timer_total r \<and> (returns \<or> lp_sent b' < timer_total r) \<and>
    (returns \<longrightarrow> dn \<or> lp_sent b' = timer_total r) \<and> lp_err b' = lp_err b"
proof -
  have e: "timer_counts r b' \<and> lp_sent b' \<le> timer_total r \<and> (returns \<or> lp_sent b' < timer_total r) \<and>
      (returns \<longrightarrow> dn \<or> lp_sent b' = timer_total r) \<and> lp_err b' = lp_err b" if "enter_mode fl r b = (b', returns)" "lp_out b = []"
    using enter_mode_counts [OF assms(1,2) that(2,1)] assms(3) by (auto simp: timer_counts_def)
  show ?thesis
  proof (cases i)
    case TimerGo
    show ?thesis
    proof (cases "lp_phase b")
      case LtBegin
      then have o: "lp_out b = []" using assms(2) by (simp add: timer_counts_def)
      obtain d where "parseOptionalDuration (lg_StartDelay (lt_gen r)) = Inr d" using assms(1) unfolding timer_starts_def by blast
      then show ?thesis using assms(2-5) e o TimerGo LtBegin by (cases d) (auto simp: timer_counts_def)
    qed (use assms(2-5) TimerGo local_packet_made in \<open>auto simp: timer_counts_def reachedTotal_def timer_total_def Let_def split: if_splits\<close>)
  next
    case TimerTick
    show ?thesis
    proof (cases "lp_phase b")
      case LtDelay
      then have "lp_out b = []" using assms(2) by (simp add: timer_counts_def)
      then show ?thesis using assms(2-5) e TimerTick LtDelay by (auto simp: timer_counts_def)
    qed (use assms(2-5) TimerTick local_packet_made in \<open>auto simp: timer_counts_def reachedTotal_def timer_total_def Let_def split: if_splits\<close>)
  qed
qed

definition timer_ok :: "local_timer \<Rightarrow> 'f timer_loop receiver_life \<Rightarrow> bool" where
  "timer_ok r l \<longleftrightarrow> list_all (made_by r) (lp_out (lf_body l)) \<and> int (length (lp_out (lf_body l))) \<le> timer_total r \<and>
     (lf_starts l = [] \<or> lf_starts l = [StartLoop] \<longrightarrow> timer_counts r (lf_body l) \<and> lp_sent (lf_body l) < timer_total r) \<and>
     lp_err (lf_body l) = None \<and>
     (lf_starts l = [StartReturns] \<longrightarrow> run_done 0 l \<or> int (length (lp_out (lf_body l))) = timer_total r)"

lemma timer_ok_step:
  assumes "timer_starts fl r" "timer_ok r l" "length (lf_starts l) \<le> 1" "0 < timer_total r" "receiver_step (local_timer_body fl r) a l = Some l'" "length (lf_starts l') \<le> 1"
  shows "timer_ok r l'"
proof -
  consider (none) "lf_starts l = []" | (one) p where "lf_starts l = [p]"
    using assms(3) by (cases "lf_starts l") auto
  then show ?thesis
  proof cases
    case none
    have "lf_body l' = lf_body l \<and> (lf_starts l' = [] \<or> lf_starts l' = [StartLoop])"
    proof (cases a)
      case StartEnters
      then show ?thesis using assms(5) none by (simp add: local_timer_body_def start_enter_def Let_def, auto)
    qed (use assms(5) none in \<open>auto simp: stop_call_def\<close>)
    then show ?thesis using assms(2) none by (auto simp: timer_ok_def)
  next
    case one
    show ?thesis
    proof (cases "\<exists>n i. a = LoopDoes n i")
      case True
      then obtain n i where a: "a = LoopDoes n i" by blast
      from assms(5) [unfolded a] obtain b returns where b: "n < length (lf_starts l)" "lf_starts l ! n = StartLoop"
        "timer_iterate fl r (run_done n l) i (lf_body l) = Some (b, returns)"
        "l' = l\<lparr>lf_body := b, lf_starts := (if returns then (lf_starts l)[n := StartReturns] else lf_starts l)\<rparr>"
        by (auto simp: local_timer_body_def)
      then have n: "n = 0" "p = StartLoop" using one by auto
      have c: "timer_counts r (lf_body l)" "lp_sent (lf_body l) < timer_total r" using assms(2) one n by (auto simp: timer_ok_def)
      note t = timer_iterate_counts [OF assms(1) c(1) assms(4) c(2) b(3)]
      then have o: "int (length (lp_out b)) = lp_sent b" "list_all (made_by r) (lp_out b)" "lp_err b = None"
        using assms(2) by (simp_all add: timer_counts_def timer_ok_def)
      have l': "lf_body l' = b" "lf_starts l' = (if returns then [StartReturns] else [StartLoop])" "run_done 0 l' = run_done 0 l"
        using b(4) one n by (simp_all add: run_done_def)
      show ?thesis
        by (cases returns) (use t o l' n in \<open>simp_all add: timer_ok_def\<close>)
    next
      case False
      have "lf_starts l' = lf_starts l \<or> lf_starts l' = [StartLeft] \<or> (lf_starts l' = [StartReturns] \<and> run_done 0 l')"
        "lp_out (lf_body l') = lp_out (lf_body l)" "run_done 0 l \<Longrightarrow> run_done 0 l'"
        "lf_body l' = lf_body l \<or> lf_starts l' = [StartLeft]" "lp_err (lf_body l') = lp_err (lf_body l)"
        using assms(5,6) one False
        by (cases a; auto simp: local_timer_body_def start_enter_def start_leave_def stop_call_def run_done_def Let_def)+
      then show ?thesis using assms(2) one by (auto simp: timer_ok_def)
    qed
  qed
qed

text \<open>C20: the local timer emits what it was told to. Take a local timer that Validate and the constructor accept, with a total, and let
  Start be called once, Stop any number of times, the ticks and the bursts of the rate loop come as they may. Start never returns an
  error; it never emits more packets than the total, each with the name of the receiver and the payload and the match key that were
  compiled from the configuration; and when Start returns though neither Stop nor the service ended it, it has emitted exactly the total.\<close>

theorem local_timer_sends_total:
  assumes "validateLocalTimerReceiver name rc = None" "NewLocalTimerReceiver name rc = Inr r" "0 < lg_TotalPackets (rc_Generator rc)"
    and "receiver_steps (local_timer_body fl r) ls (new_life (new_timer_loop fl w)) = Some l" "length (lf_starts l) \<le> 1"
  shows "lp_err (lf_body l) = None \<and> int (length (lp_out (lf_body l))) \<le> lg_TotalPackets (rc_Generator rc) \<and>
    list_all (\<lambda>p. Payload p = lt_payload r \<and> MatchKey (Meta p) = lt_key r \<and> ReceiverName (Meta p) = name) (lp_out (lf_body l)) \<and>
    (lf_starts l = [StartReturns] \<and> \<not> run_done 0 l \<longrightarrow> int (length (lp_out (lf_body l))) = lg_TotalPackets (rc_Generator rc))"
proof -
  define P where "P = (\<lambda>t :: 'a timer_loop receiver_life. length (lf_starts t) > 1 \<or> timer_ok r t)"
  note g = new_timer_parts [OF assms(2)]
  have t: "0 < timer_total r" using assms(3) by (simp add: timer_total_def g)
  have "P t'" if "P t" "receiver_step (local_timer_body fl r) a t = Some t'" for a t t'
    using that starts_grow [OF that(2)] timer_ok_step [OF validated_timer_starts [OF assms(1,2)] _ _ t that(2)] by (fastforce simp: P_def)
  moreover have "P (new_life (new_timer_loop fl w))"
    using t by (simp add: P_def timer_ok_def new_life_def new_timer_loop_def timer_counts_def)
  ultimately have "P l" using receiver_runs.invariant [of P "local_timer_body fl r" ls "new_life (new_timer_loop fl w)" l] assms(4) by blast
  then have "timer_ok r l" using assms(5) by (auto simp: P_def)
  then show ?thesis by (auto simp: timer_ok_def timer_total_def made_by_def list_all_iff g)
qed

section \<open>Witnesses\<close>

definition sample_timer_config :: receiver_config where
  "sample_timer_config = zero_receiver_config\<lparr>rc_Type := ''local_timer'', rc_Generator := zero_local_generator_config
     \<lparr>lg_Interval := ''1ns'', lg_PayloadFormat := ''text'', lg_PayloadData := ''hi'', lg_TotalPackets := 2\<rparr>\<rparr>"

definition sample_timer :: local_timer where
  "sample_timer = (case NewLocalTimerReceiver ''t'' sample_timer_config of Inr r \<Rightarrow> r)"

definition sample_floats :: "nat float_ops" where
  "sample_floats = \<lparr>fl_zero = 0, fl_perTick = \<lambda>rate d. 1, fl_add = \<lambda>a b. a + b, fl_ge1 = \<lambda>a. 1 \<le> a, fl_sub1 = \<lambda>a. a - 1\<rparr>"

definition sample_pool :: pool where "sample_pool = \<lparr>next_lease = 0, next_addr = 0, returned = []\<rparr>"

lemma sample_timer_new: "NewLocalTimerReceiver ''t'' sample_timer_config = Inr sample_timer"
  by code_simp

lemma one_ns: "parse_duration ''1ns'' = Some 1"
  by (simp add: parse_duration_def duration_loop.simps duration_step_def is_digit_def unit_ns_def digits_value_def)

lemma sample_blanks:
  "trim_space ''1ns'' = ''1ns''" "trim_space [] = []" "trim_space ''text'' = ''text''" "trim_space ''hi'' = ''hi''" "trim_space ''hex'' = ''hex''" "trim_space ''xyz'' = ''xyz''"
  by code_simp+

lemma sample_timer_valid: "validateLocalTimerReceiver ''t'' sample_timer_config = None"
  by (simp add: validateLocalTimerReceiver_def sample_timer_config_def zero_local_generator_config_def Let_def blank_def sample_blanks
      validatePositiveDurationByType_def only_if_def positive_duration_def one_ns first_err_steps del: first_err_None)

lemma sample_timer_gen: "lt_gen sample_timer = rc_Generator sample_timer_config"
  by (rule new_timer_parts(1) [OF sample_timer_new])

lemma sample_timer_goes:
  "timer_iterate sample_floats sample_timer False TimerGo (new_timer_loop sample_floats sample_pool) =
     Some ((new_timer_loop sample_floats sample_pool)\<lparr>lp_phase := LtInterval\<rparr>, False)"
  by (simp add: new_timer_loop_def parseOptionalDuration_def sample_timer_gen sample_timer_config_def zero_local_generator_config_def
      sample_blanks enter_mode_def timer_mode_def one_ns Let_def)

definition timer_runs :: "timer_label receiver_label list \<Rightarrow> nat timer_loop receiver_life \<Rightarrow> nat timer_loop receiver_life option" where
  "timer_runs = receiver_steps (local_timer_body sample_floats sample_timer)"

definition sample_ready :: "nat timer_loop receiver_life" where
  "sample_ready = (start_enter (new_life (new_timer_loop sample_floats sample_pool)))
     \<lparr>lf_body := (new_timer_loop sample_floats sample_pool)\<lparr>lp_phase := LtInterval\<rparr>\<rparr>"

lemma sample_ready: "timer_runs [StartEnters, LoopDoes 0 TimerGo] (new_life (new_timer_loop sample_floats sample_pool)) = Some sample_ready"
  using sample_timer_goes
  by (simp add: timer_runs_def local_timer_body_def sample_ready_def start_enter_def new_life_def run_done_def Let_def receiver_step.simps(2))

lemma sample_runs_on:
  "timer_runs ls sample_ready = Some l \<Longrightarrow> timer_runs ([StartEnters, LoopDoes 0 TimerGo] @ ls) (new_life (new_timer_loop sample_floats sample_pool)) = Some l"
  using sample_ready unfolding timer_runs_def receiver_runs.steps_append by simp

definition sample_full :: "nat timer_loop receiver_life" where
  "sample_full = the (timer_runs [LoopDoes 0 TimerTick, LoopDoes 0 TimerTick] sample_ready)"

lemma sample_full_on: "timer_runs [LoopDoes 0 TimerTick, LoopDoes 0 TimerTick] sample_ready = Some sample_full"
  unfolding sample_full_def by (rule option.collapse [symmetric]) code_simp

lemmas sample_full = sample_runs_on [OF sample_full_on, unfolded timer_runs_def]

lemma sample_full_state: "lf_starts sample_full = [StartReturns]" "\<not> run_done 0 sample_full"
  by code_simp+

theorem local_timer_sends_total_witness:
  "lp_err (lf_body sample_full) = None \<and> length (lp_out (lf_body sample_full)) = 2"
proof -
  have t: "lg_TotalPackets (rc_Generator sample_timer_config) = 2" by (simp add: sample_timer_config_def)
  then have p: "0 < lg_TotalPackets (rc_Generator sample_timer_config)" and o: "length (lf_starts sample_full) \<le> 1"
    using sample_full_state by simp_all
  show ?thesis
    using local_timer_sends_total [OF sample_timer_valid sample_timer_new p sample_full o] sample_full_state t by simp
qed

definition sample_begun :: "nat timer_loop receiver_life" where
  "sample_begun = the (timer_runs [LoopDoes 0 TimerTick] sample_ready)"

lemma sample_begun_on: "timer_runs [LoopDoes 0 TimerTick] sample_ready = Some sample_begun"
  unfolding sample_begun_def by (rule option.collapse [symmetric]) code_simp

lemmas sample_begun = sample_runs_on [OF sample_begun_on, unfolded timer_runs_def]

definition sample_ended :: "nat timer_loop receiver_life" where
  "sample_ended = the (timer_runs [StopCalled, LoopSeesDone 0, StartLeaves 0, StopReturns 0] sample_begun)"

lemma sample_ended: "timer_runs [StopCalled, LoopSeesDone 0, StartLeaves 0, StopReturns 0] sample_begun = Some sample_ended"
  unfolding sample_ended_def by (rule option.collapse [symmetric]) code_simp

definition sample_over :: "nat timer_loop receiver_life" where
  "sample_over = the (timer_runs [ParentEnds, StopCalled] sample_ended)"

lemma sample_over: "timer_runs [ParentEnds, StopCalled] sample_ended = Some sample_over"
  unfolding sample_over_def by (rule option.collapse [symmetric]) code_simp

lemma sample_begun_state: "length (lf_starts sample_begun) = 1" "length (lf_stops sample_begun) = 0"
  by code_simp+

lemma sample_ended_state: "lf_stops sample_ended ! 0 = StopDone" "length (lp_out (lf_body sample_ended)) = 1"
  by code_simp+

theorem stop_waits_for_start_witness:
  "lf_starts sample_ended = [StartLeft] \<and> length (lp_out (lf_body sample_over)) = 1"
proof -
  have n: "StartEnters \<notin> set [LoopSeesDone 0, StartLeaves 0, StopReturns 0 :: timer_label receiver_label]"
    "StartEnters \<notin> set [ParentEnds, StopCalled :: timer_label receiver_label]" by simp_all
  have d: "lf_stops sample_ended ! length (lf_stops sample_begun) = StopDone" using sample_ended_state sample_begun_state by simp
  show ?thesis
    using stop_waits_for_start [OF sample_begun sample_begun_state(1) sample_ended [unfolded timer_runs_def] n(1) d
        sample_over [unfolded timer_runs_def] n(2)] sample_ended_state(2) by simp
qed

lemma sample_ended_stuck:
  "lf_starts sample_ended \<noteq> [StartLoop]" "receiver_step (local_timer_body sample_floats sample_timer) (LoopSeesDone 0) sample_ended = None"
  "receiver_step (local_timer_body sample_floats sample_timer) (StartLeaves 0) sample_ended = None"
  "receiver_step (local_timer_body sample_floats sample_timer) (StopReturns 0) sample_ended = None"
  by code_simp+

theorem stop_returns_witness:
  "lf_stops sample_ended ! 0 = StopDone \<and> lf_starts sample_ended = [StartLeft]"
proof -
  have n: "StartEnters \<notin> set [LoopSeesDone 0, StartLeaves 0, StopReturns 0 :: timer_label receiver_label]" by simp
  have k: "0 = length (lf_stops sample_begun)" and t: "lf_stops sample_ended ! 0 \<noteq> StopTimedOut"
    using sample_begun_state sample_ended_state by simp_all
  show ?thesis
    using stop_returns [OF sample_begun sample_begun_state(1) sample_ended [unfolded timer_runs_def] n k t
        _ sample_ended_stuck(2-4)] sample_ended_stuck(1) by blast
qed

text \<open>A directory with a file of one byte.\<close>

definition one_byte_source :: "bytes source" where
  "one_byte_source = \<lparr>src_cancelled = \<lambda>_. False, src_connect = \<lambda>s. (None, s), src_open = \<lambda>_ s. (None, s), src_read = \<lambda>_ _ s. ([1], Some ReadEOF, s)\<rparr>"

definition one_file_dir :: "string \<Rightarrow> bytes \<Rightarrow> dir_entry list result \<times> bytes" where
  "one_file_dir d s = (Inr [\<lparr>de_Name = ''a'', de_Regular = True, de_Size = 1, de_ModTime = 1\<rparr>], s)"

definition sample_poll :: "(file_receiver, bytes) file_poll" where
  "sample_poll = \<lparr>fp_recv = sample_receiver\<lparr>fx_cfg := zero_receiver_config\<lparr>rc_Listen := ''h:22'', rc_RemoteDir := ''/in''\<rparr>\<rparr>, fp_src = [],
     fp_pool = sample_pool, fp_out = [], fp_waits = False\<rparr>"

lemma sample_listen: "\<exists>hp. SplitHostPort (trim_space ''h:22'') = Inr hp"
proof -
  have "\<not> isl (SplitHostPort (trim_space ''h:22''))" by code_simp
  then show ?thesis by (cases "SplitHostPort (trim_space ''h:22'')") auto
qed

lemma sample_scan:
  "\<exists>b. sftp_iterate one_byte_source (\<lambda>_. []) one_file_dir False (Scan 1) sample_poll = Some (b, False) \<and> length (fp_out b) = 1"
proof -
  obtain hp where h: "SplitHostPort (trim_space ''h:22'') = Inr hp" using sample_listen by blast
  show ?thesis
    by (simp add: sftp_iterate_def sample_poll_def sftp_scanOnce_def h one_byte_source_def one_file_dir_def sample_receiver_def
        isSeen_def streamFile_def One_nat_def CopyFrom_def Let_def)
qed

definition sample_polled :: "(file_receiver, bytes) file_poll" where
  "sample_polled = fst (the (sftp_iterate one_byte_source (\<lambda>_. []) one_file_dir False (Scan 1) sample_poll))"

lemma sample_polled:
  "sftp_iterate one_byte_source (\<lambda>_. []) one_file_dir False (Scan 1) sample_poll = Some (sample_polled, False)" "length (fp_out sample_polled) = 1"
  using sample_scan by (auto simp: sample_polled_def)

definition sample_lost :: "(file_receiver, bytes) file_poll receiver_life" where
  "sample_lost = (start_enter (stop_call (new_life sample_poll)))\<lparr>lf_body := sample_polled\<rparr>"

lemma sample_lost:
  "receiver_steps (sftp_body one_byte_source (\<lambda>_. []) one_file_dir) [StopCalled, StartEnters, LoopDoes 0 (Scan 1)] (new_life sample_poll) = Some sample_lost"
  using sample_polled(1)
  by (simp add: sftp_body_def sample_lost_def start_enter_def stop_call_def new_life_def run_done_def Let_def receiver_step.simps(2))

theorem stop_before_start_is_lost_witness:
  "lf_stops sample_lost = [StopDone] \<and> lf_starts sample_lost = [StartLoop] \<and> length (fp_out (lf_body sample_lost)) = 1"
proof -
  have "list_all alone [LoopDoes 0 (Scan 1)]" by (simp add: alone_def)
  moreover have "lf_body sample_lost = sample_polled" by (simp add: sample_lost_def)
  ultimately show ?thesis using stop_before_start_is_lost [OF sample_lost] sample_polled(2) by simp
qed

section \<open>A payload that is no hex\<close>

definition sample_bad_hex :: receiver_config where
  "sample_bad_hex = sample_timer_config\<lparr>rc_Generator := (rc_Generator sample_timer_config)\<lparr>lg_PayloadFormat := ''hex'', lg_PayloadData := ''xyz''\<rparr>\<rparr>"

text \<open>\<open>Validate\<close> looks at the format only; the constructor decodes the payload and refuses it.\<close>

lemma bad_payload_passes_and_fails:
  "validateLocalTimerReceiver ''t'' sample_bad_hex = None" "\<exists>err. NewLocalTimerReceiver ''t'' sample_bad_hex = Inl err"
proof -
  show "validateLocalTimerReceiver ''t'' sample_bad_hex = None"
    by (simp add: validateLocalTimerReceiver_def sample_bad_hex_def sample_timer_config_def zero_local_generator_config_def Let_def blank_def sample_blanks
        validatePositiveDurationByType_def only_if_def positive_duration_def one_ns first_err_steps del: first_err_None)
  have "isl (decodeLocalTimerPayload (rc_Generator sample_bad_hex))" by code_simp
  then show "\<exists>err. NewLocalTimerReceiver ''t'' sample_bad_hex = Inl err"
    by (auto simp: NewLocalTimerReceiver_def split: sum.splits)
qed

end
