(* ===== verification/Spec2Isabelle.thy ===== *)
theory Spec2Isabelle
  imports TrafficProps StageProps TaskRun Dispatch Framing OssOverlap Constructors Defaults RouteSafety Sharding SftpGoals MatchKeyProps FileGoals Buffers KafkaConfig ScheduleProps BootstrapProps SkyddsProps ReceiverProps OssTableProps GnetSender
begin

text \<open>
  A verification development for forward-stub, a packet forwarding service in Go. File and function names below are those of the
  repository, under \<open>src/src/\<close>.

  The program. Receivers take packets from UDP and TCP sockets (gnet), Kafka, SkyDDS, a timer, or from files on SFTP servers and in object
  stores (OSS). The match key of a packet decides through the selector of its receiver which tasks get it. A task runs its pipelines of
  stages over the packet and hands what comes out to senders (UDP, TCP, Kafka, SkyDDS, SFTP, OSS). The runtime store holds all of these;
  \<open>UpdateCache\<close> changes it to a new configuration while packets flow. Around it, bootstrap loads and validates
  the configuration, watches its file, takes signals and stops everything; a scheduler runs periodic jobs; and the traffic statistics count
  what passes.

  Conventions. A struct is a record, an enum a datatype, a Go \<open>int\<close> an \<open>int\<close> that is wrapped to 64 bits where the code
  can overflow it, an \<open>atomic.Uint64\<close> a \<open>64 word\<close>, a string a list of bytes, a map an association list (its order is the
  order in which \<open>range\<close> visits it, so a theorem about every list is a theorem about every order). A function that
  can fail returns \<open>'a result\<close>, \<open>Inl\<close> the error; where the code keeps its changes in spite of an error, the error comes
  together with the state. Code with several goroutines is a step function: a label says who acts, how, and what a library
  outside answers; \<open>None\<close> says that the step is not possible; one step is what the code does under one lock or with one atomic
  operation. A theorem about all lists of labels is then a theorem about all interleavings and all answers.

  What is outside the repository is a parameter or a label, never a definition: \<open>rx\<close> (\<open>regexp.Compile\<close>), \<open>ip\<close> (\<open>net.ParseIP\<close>),
  \<open>ncpu\<close> (\<open>runtime.NumCPU\<close>), \<open>sha\<close> (SHA-256), \<open>marshal\<close> (\<open>json.Marshal\<close>), the record \<open>env\<close> of Store (outcomes of
  constructors; Constructors fills it in with those of the program, on the record \<open>libraries\<close> of what the client libraries answer), \<open>boot_env\<close> of Bootstrap (decoders, files, the configuration service), \<open>sftp_client\<close> (ssh and pkg/sftp),
  \<open>source\<close> (the remote side of a file receiver), the constructors of Kafka, SkyDDS and MinIO clients, the \<open>registrars\<close> of the scheduler (those of bootstrap are modelled),
  the \<open>float_ops\<close> of the local timer. Hypotheses about them state their documented behaviour (\<open>sftp_laws\<close>, the contract of
  \<open>io.Reader\<close>, gnet's refusal to write to a closed connection), and a witness gives a concrete instance.
\<close>

section \<open>The theories\<close>

text \<open>
  The Go library and shared interfaces.

  \<^item> GoLib, GoStrings, GoPath, GoNet: the functions of errors, strings, strconv, hex, path, time and net that the program calls.
  \<^item> Runs: the locale \<open>runs\<close>, the interface of every step function: runs compose, an invariant of the steps is one of the runs,
    and a measure bounds them. Every component with goroutines interprets it.

  Configuration (config).

  \<^item> Config: the structs of config.go and their constants. Defaults: \<open>ApplyDefaults\<close> (business_defaults.go).
  \<^item> Validate, ValidateEnds: \<open>Validate\<close> and every check of validate.go. ValidateProps: what an accepted configuration guarantees
    (names resolve, stages compile, routes name senders of their task).

  Packets, stages and tasks (packet, pipeline, selector, task).

  \<^item> Packet: packet.go and pool.go by value, with the leases of buffers. Buffers: the same buffers as shared arrays, with the order of receive,
    Send and release, and what that does to an asynchronous Kafka sender.
  \<^item> Stages: every stage of pipeline. Compiler: runtime/compiler.go; the locale \<open>stage\<close> is the contract of a stage, interpreted on each.
    StageProps: the stages against the window of the payload they name.
  \<^item> Selector: selector.go. MatchKey, MatchKeyProps: receiver/match_key.go; a key identifies what it was made of.
  \<^item> Task: the sequential part of task.go. TaskRun: Handle, the workers and \<open>StopGraceful\<close> as a step function; packets are conserved.

  The runtime (runtime).

  \<^item> Delta: the planning of an update. Store: types.go, store.go, builders.go, the stage cache. Update: \<open>UpdateCache\<close> and what it calls.
  \<^item> Coherent: the abstract view of a store: \<open>coherent\<close> (its parts fit) and \<open>matches\<close> (it is what a configuration asks for).
    Reload, ReloadProps: \<open>UpdateCache\<close> refines the change of the configuration, hot and cold, and what a failed update leaves behind.
    A new store is coherent and a successful update keeps it so; a failed one need not, so the theorems start from a coherent store.
  \<^item> Progress, ValidReload: a validated configuration applies without error when its senders and receivers can be built.
    Constructors: buildSender and buildReceiver of builders.go on the constructors of all senders and receivers; \<open>constructible\<close> says
    what they need beyond what \<open>Validate\<close> checks, and then a validated configuration applies. RouteSafety: its routes never miss.
  \<^item> Dispatch: \<open>dispatch\<close> and \<open>dispatchToSelector\<close>.

  Senders (sender).

  \<^item> Sharding: shard_index.go, the UDP senders, \<open>pickConn\<close>. GnetSender: the rest of gnet_tcp.go, its pool of connections.
  \<^item> FilePath: file_path.go and \<open>ossObjectKey\<close>. Ranges: \<open>addRange\<close> and \<open>readyToCommit\<close>.
  \<^item> OssSender: one multipart upload of oss.go; OssProps, OssLive and OssGoals: only files are completed, tiling chunks complete.
    OssTable, OssTableProps: the table of transfers, Send and Close at the same time. OssOverlap: in the table, a chunk that overlaps
    blocks its transfer for good, until the transfer is dropped. Notifier: notifier.go.
  \<^item> SftpSender: sftp.go. SftpProps, SftpTransfers, SftpRuns, SftpGoals: the final file appears whole, and it appears, when no longer
    temporary file was left behind (\<open>not_longer\<close>; the code does not truncate it).
  \<^item> KafkaOptions: kafkautil/options.go and the constructors. KafkaSender, KafkaProps: kafka.go as a step function; records are conserved.
    KafkaConfig: Validate against the constructor.
  \<^item> Skydds, SkyddsProps: skydds.go of sender and receiver; batches, timers, Close.

  Receivers (receiver).

  \<^item> Framing: framing.go and \<open>OnTraffic\<close> of gnet_tcp.go on the shared buffer; the locale \<open>framer\<close>, interpreted on \<open>U16BEFramer\<close>.
    GnetReceivers: gnet_udp.go and gnet_tcp.go with their connections and the statistics handle.
  \<^item> FileReceiver, FileReceiverProps: sftp.go and oss.go. FileRelay, FileGoals: from a file on one server to the file on another.
  \<^item> ReceiverLife: Start and Stop of the receivers that poll. LocalTimer: local_timer.go. ReceiverProps: Stop means stopped; totals are kept.

  Around the runtime.

  \<^item> Schedule, ScheduleProps: schedule, the manager with its groups and jobs.
  \<^item> Bootstrap, BootSample (a configuration to run it on), BootstrapProps: bootstrap/run.go, schedule.go, fingerprint.go and signal_unix.go, app/runtime.go, config/local_load.go and pair.go,
    control/api_client.go. It composes Defaults, ValidateEnds, Update and Schedule as \<open>Run\<close> does.
  \<^item> TrafficStats, TrafficProps: logx/traffic_agg.go.
\<close>

section \<open>How the parts meet\<close>

text \<open>
  \<^item> Bootstrap calls \<open>ValidateConfig\<close> and \<open>UpdateCache\<close>: Constructors shows that the second cannot fail after the first when the configuration
    is \<open>constructible\<close>, ReloadProps what the store is then, and BootstrapProps that the service, as long as the versions of its files are
    constructible or refused, runs the last good configuration.
  \<^item> The store names the selectors: Dispatch shows that a packet reaches the tasks of the new configuration; RouteSafety that in a task it finds the
    sender its route names.
  \<^item> Packets of a file pass from FileReceiver through the compiled pipeline into SftpSender or OssSender: FileRelay and FileGoals compose the three.
  \<^item> OssTable runs one OssSender per transfer and calls Notifier after it; OssTableProps reduces the whole to the single transfers, so that OssProps applies.
  \<^item> GnetSender writes the frames that GnetReceivers takes apart; KafkaProps and Buffers share one Kafka sender.
  \<^item> A reload starts and stops receivers: ReceiverProps says when the Stop of Update reaches the Start of the old receiver, and when it is lost.
\<close>

section \<open>Fuel, measures, bounds\<close>

text \<open>
  The functions are total; none of the theorems has the form "if it returns". Loops over lists are structural. The loop of \<open>Feed\<close>
  ends because its offset grows. The read loops of the file receivers take fuel, one unit for each read: \<open>streamFile\<close> returns
  with as many units as the file has bytes and one more (\<open>streamFile_returns\<close>), since a read gives a byte, the end or an error. Step functions that
  have to come to rest have a measure: \<open>schedule_work\<close> (scheduler), \<open>skydds_work\<close> (timers and writes), the labels left of a body (receivers); each
  step but the arrival of new work makes it smaller, and the theorems on rest say what holds when no step is left. A tick of the scheduler
  that still fires after Stop is new work of at most \<open>tick_cost\<close>; the bound pays for each (\<open>bounded_paid\<close> of \<open>runs\<close>).
  Offsets, sizes and durations are 64-bit; hypotheses such as \<open>in64\<close> or \<open>go_len\<close> say that a length is one that Go can have.
\<close>

section \<open>Not modelled\<close>

text \<open>
  \<^item> skydds/skydds_cgo.go, skydds_stub.go and the C sources: glue to a native library that is not in the repository.
  \<^item> logx/logx.go (the set-up of the zap logger), bootstrap/stage_logger.go, bootstrap/gc_stats.go and all log lines: output without effect on the program.
    A log level enters where it decides something (whether statistics are taken).
  \<^item> The pprof server of bootstrap/run.go, signal_windows.go, the C-level socket options of sender/udp_dial*.go, client_eh.go (drops what the peer sends).
  \<^item> Floating point: rates per second in the statistics and the credit of the local timer (a parameter there). JSON text: \<open>encoding/json\<close> is a parameter,
    so \<open>UnmarshalJSON\<close> of two configuration types is left out as well.
  \<^item> The connection set-up of ssh with its host key callback: connecting is an outcome. Contexts that only carry a deadline for a client library; such a deadline shows as an error of the call.
  \<^item> Jobs of the scheduler other than \<open>IntervalJob\<close> (the program has none), and one job added to two groups. \<open>strings.ToLower\<close> outside ASCII.
    Reads of a file that give no byte and no error (\<open>io.Reader\<close> discourages them), files that change while they are read, and
    a \<open>Rename\<close> that fails after it has taken place are excluded by hypotheses. In TaskRun the counters that \<open>Handle\<close> and the worker change
    one after the other at the end of a packet change in one step.
  \<^item> Data races and the memory model: a step is atomic where the code holds a lock or uses an atomic; Buffers and Framing are the two places where
    aliasing of memory matters, and there the arrays are explicit.
\<close>

end
